(* ===== verification/Py_Prelude.thy ===== *)
theory Py_Prelude
  imports Main "HOL-Library.AList"
begin

text \<open>
  Shared vocabulary of the development.

  The Python values the consumer computes with are represented as follows: an unbounded
  \<open>int\<close> is an \<^typ>\<open>int\<close>; a \<open>dict\<close> is an association list with distinct keys, kept in
  insertion order, because the code iterates over dictionaries and the first match wins in
  several places; a \<open>set\<close> is an HOL set; an \<open>asyncio.Queue\<close> is the list of its items, head
  first; a \<open>str\<close> is a \<^typ>\<open>string\<close>; \<open>float\<close> timestamps are a linearly ordered type of
  times. An exception is a value of \<open>py_error\<close> on the left of a sum.

  The generic lemmas below say how the dictionary operations act on lookup and on the key
  list; the collections \<open>dict_simps\<close> and \<open>dict_intros\<close> carry them into the components.
\<close>

named_theorems dict_simps \<open>lookup and key equations of the dictionary operations\<close>
named_theorems dict_intros \<open>well-formedness of dictionaries\<close>

section \<open>Errors\<close>

datatype py_error =
    ValueError
  | KeyError
  | IndexError
  | RuntimeError
  | TypeError
  | AttributeError

section \<open>Dictionaries\<close>

type_synonym ('k, 'v) dict = "('k \<times> 'v) list"

abbreviation dict_get :: "('k, 'v) dict \<Rightarrow> 'k \<Rightarrow> 'v option" where
  "dict_get \<equiv> map_of"

abbreviation dict_set :: "'k \<Rightarrow> 'v \<Rightarrow> ('k, 'v) dict \<Rightarrow> ('k, 'v) dict" where
  "dict_set \<equiv> AList.update"

abbreviation dict_pop :: "'k \<Rightarrow> ('k, 'v) dict \<Rightarrow> ('k, 'v) dict" where
  "dict_pop \<equiv> AList.delete"

definition dict_keys :: "('k, 'v) dict \<Rightarrow> 'k list" where
  "dict_keys d = map fst d"

definition dict_wf :: "('k, 'v) dict \<Rightarrow> bool" where
  "dict_wf d \<longleftrightarrow> distinct (map fst d)"

definition dict_get_default :: "('k, 'v) dict \<Rightarrow> 'k \<Rightarrow> 'v \<Rightarrow> 'v" where
  "dict_get_default d k v = (case dict_get d k of None \<Rightarrow> v | Some x \<Rightarrow> x)"

definition dict_has :: "('k, 'v) dict \<Rightarrow> 'k \<Rightarrow> bool" where
  "dict_has d k \<longleftrightarrow> k \<in> set (map fst d)"

definition dict_filter :: "('k \<Rightarrow> bool) \<Rightarrow> ('k, 'v) dict \<Rightarrow> ('k, 'v) dict" where
  "dict_filter P d = filter (\<lambda>(k, v). P k) d"

lemma dict_get_set [dict_simps]:
  "dict_get (dict_set k v d) k' = (if k' = k then Some v else dict_get d k')"
  by (simp add: update_conv')

lemma dict_get_pop [dict_simps]:
  "dict_get (dict_pop k d) k' = (if k' = k then None else dict_get d k')"
  by (simp add: delete_conv')

lemma dict_wf_Nil [simp, dict_intros]: "dict_wf []"
  by (simp add: dict_wf_def)

lemma dict_wf_set [simp, dict_intros]: "dict_wf d \<Longrightarrow> dict_wf (dict_set k v d)"
  by (simp add: dict_wf_def distinct_update)

lemma dict_wf_pop [simp, dict_intros]: "dict_wf d \<Longrightarrow> dict_wf (dict_pop k d)"
  by (simp add: dict_wf_def distinct_delete)

lemma dict_wf_filter [simp, dict_intros]: "dict_wf d \<Longrightarrow> dict_wf (dict_filter P d)"
  unfolding dict_wf_def dict_filter_def by (induction d) auto

lemma dict_has_iff [dict_simps]: "dict_has d k \<longleftrightarrow> dict_get d k \<noteq> None"
  by (simp add: dict_has_def map_of_eq_None_iff)

lemma dict_get_filter [dict_simps]:
  "dict_get (dict_filter P d) k = (if P k then dict_get d k else None)"
  unfolding dict_filter_def by (induction d) auto

lemma dict_get_default_set [dict_simps]:
  "dict_get_default (dict_set k v d) k' w = (if k' = k then v else dict_get_default d k' w)"
  by (simp add: dict_get_default_def dict_simps)

lemma dict_in_set_iff: "dict_wf d \<Longrightarrow> (k, v) \<in> set d \<longleftrightarrow> dict_get d k = Some v"
  by (simp add: dict_wf_def)

lemma dict_pop_notin: "k \<notin> set (map fst d) \<Longrightarrow> dict_pop k d = d"
  by (simp add: delete_idem)

lemma dict_keys_set [dict_simps]:
  "map fst (dict_set k v d) = (if k \<in> set (map fst d) then map fst d else map fst d @ [k])"
  by (simp add: update_keys)

lemma dict_keys_pop [dict_simps]: "map fst (dict_pop k d) = removeAll k (map fst d)"
  by (induction d) auto

section \<open>Decimal text\<close>

text \<open>\<open>str\<close> of an integer, also what \<open>%d\<close> prints.\<close>

definition digit_char :: "nat \<Rightarrow> char" where
  "digit_char d = char_of (48 + d)"

fun str_nat :: "nat \<Rightarrow> string" where
  "str_nat n = (if n < 10 then [digit_char n] else str_nat (n div 10) @ [digit_char (n mod 10)])"

declare str_nat.simps [simp del]

definition str_int :: "int \<Rightarrow> string" where
  "str_int i = (if i < 0 then CHR ''-'' # str_nat (nat (- i)) else str_nat (nat i))"

section \<open>Sums of list lengths\<close>

lemma sum_list_map_append [simp]: "(\<Sum>x\<leftarrow>xs @ ys. f x) = (\<Sum>x\<leftarrow>xs. f x) + ((\<Sum>x\<leftarrow>ys. f x) :: nat)"
  by simp

end
