(* ===== verification/Metadata_Encoder.thy ===== *)
theory Metadata_Encoder
  imports Py_Prelude "HOL-Library.Word"
begin

unbundle bit_operations_syntax

text \<open>
  \<open>control_plane/metadata_encoder.py\<close>: the compact textual encoding of sparse completed
  offsets that travels in Kafka's commit metadata, as run lengths (prefix \<open>R\<close>) or as a
  hexadecimal bitset (prefix \<open>B\<close>), whichever is shorter, with \<open>O\<close> for "too large".

  The first section models what the encoder uses of the Python library: \<open>str(int)\<close>,
  \<open>int(str)\<close> (surrounding white space, a sign, digits with single underscores between
  them), \<open>str.join\<close>, \<open>str.split\<close>, \<open>bytes.hex\<close> and \<open>bytes.fromhex\<close>. Strings are ASCII, so the
  Unicode digits and white space that \<open>int\<close> also accepts do not occur. A \<open>bytearray\<close> is a
  list of 8-bit words.
\<close>

section \<open>Python text and bytes\<close>

definition is_space :: "char \<Rightarrow> bool" where
  "is_space c \<longleftrightarrow> (let n = of_char c :: nat in n = 32 \<or> (9 \<le> n \<and> n \<le> 13))"

definition is_str_space :: "char \<Rightarrow> bool" where
  "is_str_space c \<longleftrightarrow>
     is_space c \<or> (let n = of_char c :: nat in (28 \<le> n \<and> n \<le> 31) \<or> n = 133 \<or> n = 160)"

definition is_digit :: "char \<Rightarrow> bool" where
  "is_digit c \<longleftrightarrow> (let n = of_char c :: nat in 48 \<le> n \<and> n \<le> 57)"

definition digit_val :: "char \<Rightarrow> int" where
  "digit_val c = int (of_char c) - 48"

definition strip :: "string \<Rightarrow> string" where
  "strip s = rev (dropWhile is_str_space (rev (dropWhile is_str_space s)))"

fun digits_val :: "int \<Rightarrow> string \<Rightarrow> int option" where
  "digits_val acc [] = Some acc"
| "digits_val acc (c # cs) =
     (if is_digit c then digits_val (10 * acc + digit_val c) cs
      else if c = CHR ''_'' \<and> cs \<noteq> [] \<and> is_digit (hd cs) then digits_val acc cs
      else None)"

definition unsigned_of_str :: "string \<Rightarrow> int option" where
  "unsigned_of_str s = (if s \<noteq> [] \<and> is_digit (hd s) then digits_val 0 s else None)"

definition int_of_str :: "string \<Rightarrow> py_error + int" where
  "int_of_str s =
     (case (case strip s of
              [] \<Rightarrow> None
            | c # cs \<Rightarrow>
                if c = CHR ''-'' then map_option uminus (unsigned_of_str cs)
                else if c = CHR ''+'' then unsigned_of_str cs
                else unsigned_of_str (c # cs)) of
        None \<Rightarrow> Inl ValueError | Some i \<Rightarrow> Inr i)"

fun str_join :: "string \<Rightarrow> string list \<Rightarrow> string" where
  "str_join sep [] = []"
| "str_join sep [p] = p"
| "str_join sep (p # q # ps) = p @ sep @ str_join sep (q # ps)"

fun str_split :: "char \<Rightarrow> string \<Rightarrow> string list" where
  "str_split sep [] = [[]]"
| "str_split sep (c # cs) =
     (if c = sep then [] # str_split sep cs
      else case str_split sep cs of [] \<Rightarrow> [[c]] | p # ps \<Rightarrow> (c # p) # ps)"

definition str_split1 :: "char \<Rightarrow> string \<Rightarrow> string \<times> string" where
  "str_split1 sep s = (takeWhile (\<lambda>c. c \<noteq> sep) s, drop 1 (dropWhile (\<lambda>c. c \<noteq> sep) s))"

type_synonym byte = "8 word"

definition hex_char :: "nat \<Rightarrow> char" where
  "hex_char d = (if d < 10 then char_of (48 + d) else char_of (87 + d))"

definition bytes_hex :: "byte list \<Rightarrow> string" where
  "bytes_hex bs = concat (map (\<lambda>b. [hex_char (unat b div 16), hex_char (unat b mod 16)]) bs)"

definition hex_val :: "char \<Rightarrow> nat option" where
  "hex_val c =
     (let n = of_char c :: nat
      in if 48 \<le> n \<and> n \<le> 57 then Some (n - 48)
         else if 97 \<le> n \<and> n \<le> 102 then Some (n - 87)
         else if 65 \<le> n \<and> n \<le> 70 then Some (n - 55)
         else None)"

fun bytes_fromhex :: "string \<Rightarrow> py_error + byte list" where
  "bytes_fromhex [] = Inr []"
| "bytes_fromhex [c] = (if is_space c then Inr [] else Inl ValueError)"
| "bytes_fromhex (c # d # cs) =
     (if is_space c then bytes_fromhex (d # cs)
      else case (hex_val c, hex_val d) of
             (Some h, Some l) \<Rightarrow>
               (case bytes_fromhex cs of
                  Inl e \<Rightarrow> Inl e
                | Inr bs \<Rightarrow> Inr (word_of_nat (16 * h + l) # bs))
           | _ \<Rightarrow> Inl ValueError)"

section \<open>Encoding\<close>

definition render_run :: "int \<Rightarrow> int \<Rightarrow> string" where
  "render_run run_start run_end =
     (if run_start = run_end then str_int run_start
      else str_int run_start @ ''-'' @ str_int run_end)"

fun rle_loop :: "string list \<Rightarrow> int \<Rightarrow> int \<Rightarrow> int list \<Rightarrow> string list" where
  "rle_loop encoded_parts run_start run_end [] = encoded_parts @ [render_run run_start run_end]"
| "rle_loop encoded_parts run_start run_end (x # xs) =
     (if x = run_end + 1 then rle_loop encoded_parts run_start x xs
      else rle_loop (encoded_parts @ [render_run run_start run_end]) x x xs)"

definition rle_encode_offsets :: "int set \<Rightarrow> string" where
  "rle_encode_offsets offsets =
     (case sorted_list_of_set offsets of
        [] \<Rightarrow> []
      | x # xs \<Rightarrow> str_join '','' (rle_loop [] x x xs))"

definition set_bit_at :: "int \<Rightarrow> byte list \<Rightarrow> byte list" where
  "set_bit_at rel_offset bit_bytes =
     (let byte_index = nat (rel_offset div 8); bit_index = nat (rel_offset mod 8)
      in bit_bytes[byte_index := bit_bytes ! byte_index OR push_bit bit_index 1])"

definition bitset_encode_offsets :: "int \<Rightarrow> int set \<Rightarrow> int \<Rightarrow> string" where
  "bitset_encode_offsets max_metadata_size offsets base_offset =
     (let relative_offsets =
            map (\<lambda>offset. offset - base_offset)
              (filter (\<lambda>offset. base_offset \<le> offset) (sorted_list_of_set offsets))
      in if relative_offsets = [] then str_int base_offset @ '':''
         else
           let bit_length = last relative_offsets + 1;
               byte_length = (bit_length + 7) div 8
           in if byte_length > max_metadata_size then []
              else str_int base_offset @ '':'' @
                bytes_hex (fold set_bit_at relative_offsets (replicate (nat byte_length) 0)))"

definition encode_metadata :: "int \<Rightarrow> int set \<Rightarrow> int \<Rightarrow> string" where
  "encode_metadata max_metadata_size offsets base_offset =
     (let bitset_encoded = bitset_encode_offsets max_metadata_size offsets base_offset;
          rle_payload = CHR ''R'' # rle_encode_offsets offsets;
          bitset_payload = (if bitset_encoded \<noteq> [] then Some (CHR ''B'' # bitset_encoded) else None);
          too_long = (\<lambda>payload. int (length payload) > max_metadata_size)
      in if too_long rle_payload \<and>
            (case bitset_payload of None \<Rightarrow> True | Some b \<Rightarrow> too_long b) then ''O''
         else if too_long rle_payload then
           (case bitset_payload of None \<Rightarrow> ''O'' | Some b \<Rightarrow> b)
         else case bitset_payload of
                None \<Rightarrow> rle_payload
              | Some b \<Rightarrow>
                  if too_long b then rle_payload
                  else if length rle_payload \<le> length b then rle_payload else b)"

section \<open>Decoding\<close>

definition decode_run :: "string \<Rightarrow> py_error + int set" where
  "decode_run part =
     (if CHR ''-'' \<in> set part then
        (case str_split CHR ''-'' part of
           [a, b] \<Rightarrow>
             (case int_of_str a of
                Inl e \<Rightarrow> Inl e
              | Inr run_start \<Rightarrow>
                  (case int_of_str b of
                     Inl e \<Rightarrow> Inl e
                   | Inr run_end \<Rightarrow> Inr (set [run_start..run_end])))
         | _ \<Rightarrow> Inl ValueError)
      else
        (case int_of_str part of Inl e \<Rightarrow> Inl e | Inr i \<Rightarrow> Inr {i}))"

fun decode_runs :: "int set \<Rightarrow> string list \<Rightarrow> py_error + int set" where
  "decode_runs offsets [] = Inr offsets"
| "decode_runs offsets (part # parts) =
     (case decode_run part of Inl e \<Rightarrow> Inl e | Inr A \<Rightarrow> decode_runs (offsets \<union> A) parts)"

definition rle_decode_offsets :: "string \<Rightarrow> py_error + int set" where
  "rle_decode_offsets encoded_str =
     (if encoded_str = [] then Inr {} else decode_runs {} (str_split CHR '','' encoded_str))"

definition byte_bits :: "int \<Rightarrow> byte \<Rightarrow> int set" where
  "byte_bits first_offset b =
     set (map (\<lambda>bit_index. first_offset + int bit_index)
       (filter (\<lambda>bit_index. b AND push_bit bit_index 1 \<noteq> 0) [0..<8]))"

fun collect_bits :: "int \<Rightarrow> nat \<Rightarrow> byte list \<Rightarrow> int set" where
  "collect_bits base_offset byte_index [] = {}"
| "collect_bits base_offset byte_index (b # bs) =
     byte_bits (base_offset + int byte_index * 8) b \<union> collect_bits base_offset (Suc byte_index) bs"

definition bitset_decode_offsets :: "string \<Rightarrow> int set" where
  "bitset_decode_offsets encoded_str =
     (if CHR '':'' \<notin> set encoded_str then {}
      else
        let (base_offset_str, bit_hex) = str_split1 CHR '':'' encoded_str
        in case int_of_str base_offset_str of
             Inl _ \<Rightarrow> {}
           | Inr base_offset \<Rightarrow>
               (case bytes_fromhex bit_hex of
                  Inl _ \<Rightarrow> {}
                | Inr bit_bytes \<Rightarrow> collect_bits base_offset 0 bit_bytes))"

definition decode_metadata :: "string \<Rightarrow> int set" where
  "decode_metadata metadata =
     (case metadata of
        [] \<Rightarrow> {}
      | encoding_type # encoded_payload \<Rightarrow>
          if encoding_type = CHR ''R'' then
            (case rle_decode_offsets encoded_payload of Inl _ \<Rightarrow> {} | Inr A \<Rightarrow> A)
          else if encoding_type = CHR ''B'' then bitset_decode_offsets encoded_payload
          else {})"

section \<open>Text round trips\<close>

lemma of_char_digit_char: "d < 10 \<Longrightarrow> (of_char (digit_char d) :: nat) = 48 + d"
  by (simp add: digit_char_def)

lemma is_digit_digit_char [simp]: "d < 10 \<Longrightarrow> is_digit (digit_char d)"
  by (simp add: is_digit_def of_char_digit_char)

lemma digit_val_digit_char [simp]: "d < 10 \<Longrightarrow> digit_val (digit_char d) = int d"
  by (simp add: digit_val_def of_char_digit_char)

lemma is_digit_bounds: "is_digit c \<Longrightarrow> 48 \<le> (of_char c :: nat) \<and> (of_char c :: nat) \<le> 57"
  by (simp add: is_digit_def Let_def)

lemma digit_not_special:
  assumes "is_digit c"
  shows "c \<noteq> CHR ''-''" "c \<noteq> CHR ''+''" "c \<noteq> CHR '',''" "c \<noteq> CHR '':''" "\<not> is_str_space c"
  using assms by (auto simp: is_digit_def is_str_space_def is_space_def Let_def)

lemma str_nat_nonempty: "str_nat n \<noteq> []"
  by (subst str_nat.simps) simp

lemma str_nat_digits: "list_all is_digit (str_nat n)"
proof (induction n rule: str_nat.induct)
  case (1 n)
  then show ?case by (subst str_nat.simps) simp
qed

lemma digits_val_digits:
  "list_all is_digit s \<Longrightarrow> digits_val acc s = Some (foldl (\<lambda>a c. 10 * a + digit_val c) acc s)"
  by (induction s arbitrary: acc) auto

lemma foldl_str_nat: "foldl (\<lambda>a c. 10 * a + digit_val c) 0 (str_nat n) = int n"
proof (induction n rule: str_nat.induct)
  case (1 n)
  show ?case
  proof (cases "n < 10")
    case True
    then show ?thesis by (subst str_nat.simps) simp
  next
    case False
    with 1 have IH: "foldl (\<lambda>a c. 10 * a + digit_val c) 0 (str_nat (n div 10)) = int (n div 10)"
      by simp
    have "10 * int (n div 10) + int (n mod 10) = int n" by presburger
    with False show ?thesis by (subst str_nat.simps) (simp add: IH)
  qed
qed

lemma unsigned_str_nat [simp]: "unsigned_of_str (str_nat n) = Some (int n)"
  using str_nat_digits [of n] str_nat_nonempty [of n]
  by (auto simp: unsigned_of_str_def digits_val_digits foldl_str_nat list_all_iff)

lemma strip_id: "list_all (\<lambda>c. \<not> is_str_space c) s \<Longrightarrow> strip s = s"
proof -
  assume a: "list_all (\<lambda>c. \<not> is_str_space c) s"
  have "dropWhile is_str_space xs = xs" if "list_all (\<lambda>c. \<not> is_str_space c) xs" for xs
    using that by (cases xs) auto
  from this [OF a] this [of "rev s"] a show ?thesis by (simp add: strip_def)
qed

lemma str_int_nonempty: "str_int i \<noteq> []"
  by (simp add: str_int_def str_nat_nonempty)

lemma strip_str_int [simp]: "strip (str_int i) = str_int i"
proof (rule strip_id)
  have "\<not> is_str_space CHR ''-''" by code_simp
  moreover have "list_all (\<lambda>c. \<not> is_str_space c) (str_nat n)" for n
    using str_nat_digits [of n] digit_not_special(5) by (auto simp: list_all_iff)
  ultimately show "list_all (\<lambda>c. \<not> is_str_space c) (str_int i)" by (simp add: str_int_def)
qed

lemma int_of_str_str_int [simp]: "int_of_str (str_int i) = Inr i"
proof (cases "i < 0")
  case True
  then show ?thesis by (simp add: int_of_str_def) (simp add: str_int_def)
next
  case False
  obtain c cs where s: "str_nat (nat i) = c # cs"
    using str_nat_nonempty by (meson list.exhaust)
  have "is_digit c" using str_nat_digits [of "nat i"] by (simp add: s)
  then have "c \<noteq> CHR ''-''" "c \<noteq> CHR ''+''" by (rule digit_not_special)+
  moreover have "unsigned_of_str (c # cs) = Some i"
    using False unsigned_str_nat [of "nat i", unfolded s] by simp
  ultimately show ?thesis
    using False by (simp add: int_of_str_def) (simp add: str_int_def s)
qed

lemma str_split_free: "sep \<notin> set p \<Longrightarrow> str_split sep p = [p]"
  by (induction p) auto

lemma str_split_append: "sep \<notin> set p \<Longrightarrow> str_split sep (p @ sep # s) = p # str_split sep s"
  by (induction p) auto

lemma str_split_join:
  "\<lbrakk>ps \<noteq> []; \<forall>p\<in>set ps. sep \<notin> set p\<rbrakk> \<Longrightarrow> str_split sep (str_join [sep] ps) = ps"
  by (induction "[sep]" ps rule: str_join.induct) (auto simp: str_split_free str_split_append)

lemma str_nat_free:
  assumes "\<not> is_digit c"
  shows "c \<notin> set (str_nat n)"
  using assms str_nat_digits [of n] by (auto simp: list_all_iff)

lemma str_int_free:
  assumes "\<not> is_digit c" "c \<noteq> CHR ''-''"
  shows "c \<notin> set (str_int i)"
  using assms str_nat_free by (simp add: str_int_def)

lemma hex_val_hex_char [simp]: "d < 16 \<Longrightarrow> hex_val (hex_char d) = Some d"
  by (simp add: hex_val_def hex_char_def Let_def)

lemma hex_char_not_space: "d < 16 \<Longrightarrow> \<not> is_space (hex_char d)"
  by (simp add: is_space_def hex_char_def Let_def)

lemma bytes_fromhex_hex: "bytes_fromhex (bytes_hex bs) = Inr bs"
proof (induction bs)
  case Nil
  then show ?case by (simp add: bytes_hex_def)
next
  case (Cons b bs)
  have bound: "unat b div 16 < 16" "unat b mod 16 < 16"
    using unsigned_less [of b, where ?'a = nat] by auto
  have "word_of_nat (16 * (unat b div 16) + unat b mod 16) = b" by simp
  with Cons bound show ?case
    by (simp add: bytes_hex_def hex_char_not_space)
qed

lemma str_split1_append: "sep \<notin> set p \<Longrightarrow> str_split1 sep (p @ sep # s) = (p, s)"
  by (induction p) (auto simp: str_split1_def)

section \<open>Run lengths\<close>

fun runs :: "int \<Rightarrow> int \<Rightarrow> int list \<Rightarrow> (int \<times> int) list" where
  "runs s e [] = [(s, e)]"
| "runs s e (x # xs) = (if x = e + 1 then runs s x xs else (s, e) # runs x x xs)"

lemma rle_loop_runs: "rle_loop parts s e xs = parts @ map (\<lambda>(a, b). render_run a b) (runs s e xs)"
  by (induction parts s e xs rule: rle_loop.induct) auto

lemma runs_nonempty: "runs s e xs \<noteq> []"
  by (induction s e xs rule: runs.induct) auto

lemma runs_bounds:
  "\<lbrakk>s \<le> e; sorted_wrt (<) (e # xs); (a, b) \<in> set (runs s e xs)\<rbrakk> \<Longrightarrow> s \<le> a \<and> a \<le> b"
  by (induction s e xs rule: runs.induct) (force split: if_splits)+

lemma runs_cover:
  "\<lbrakk>s \<le> e; sorted_wrt (<) (e # xs)\<rbrakk> \<Longrightarrow>
    (\<Union>(a, b)\<in>set (runs s e xs). {a..b}) = {s..e} \<union> set xs"
proof (induction s e xs rule: runs.induct)
  case (2 s e x xs)
  show ?case
  proof (cases "x = e + 1")
    case True
    moreover have "{s..x} = insert x {s..e}" using True 2 by auto
    ultimately show ?thesis using 2 by simp
  next
    case False
    with 2 show ?thesis by simp
  qed
qed simp

lemma decode_render_run:
  assumes "0 \<le> a" "a \<le> b"
  shows "decode_run (render_run a b) = Inr {a..b}"
proof -
  have free: "CHR ''-'' \<notin> set (str_int i)" if "0 \<le> i" for i
    using that digit_not_special(1) [of "CHR ''-''"] str_nat_free [of "CHR ''-''"]
    by (auto simp: str_int_def)
  show ?thesis
  proof (cases "a = b")
    case True
    with free [of a] assms show ?thesis by (simp add: decode_run_def render_run_def)
  next
    case False
    have "{a..b} = set [a..b]" by auto
    with False free [of a] free [of b] assms show ?thesis
      by (simp add: decode_run_def render_run_def str_split_append str_split_free)
  qed
qed

lemma decode_runs_render:
  "\<forall>(a, b)\<in>set rs. 0 \<le> a \<and> a \<le> b \<Longrightarrow>
    decode_runs A (map (\<lambda>(a, b). render_run a b) rs) = Inr (A \<union> (\<Union>(a, b)\<in>set rs. {a..b}))"
  by (induction rs arbitrary: A) (auto simp: decode_render_run Un_assoc)

lemma render_run_free_comma: "CHR '','' \<notin> set (render_run a b)"
proof -
  have "\<not> is_digit CHR '',''" by code_simp
  then have "CHR '','' \<notin> set (str_int i)" for i by (rule str_int_free) simp
  then show ?thesis by (simp add: render_run_def)
qed

lemma render_run_nonempty: "render_run a b \<noteq> []"
  by (simp add: render_run_def str_int_nonempty)

lemma str_join_nonempty: "\<lbrakk>ps \<noteq> []; \<forall>p\<in>set ps. p \<noteq> []\<rbrakk> \<Longrightarrow> str_join sep ps \<noteq> []"
  by (induction sep ps rule: str_join.induct) auto

lemma rle_round_trip:
  assumes "finite S" "\<forall>x\<in>S. 0 \<le> x"
  shows "rle_decode_offsets (rle_encode_offsets S) = Inr S"
proof (cases "sorted_list_of_set S")
  case Nil
  with assms(1) have "S = {}" by simp
  then show ?thesis by (simp add: rle_encode_offsets_def rle_decode_offsets_def)
next
  case (Cons x xs)
  let ?rs = "runs x x xs" and ?render = "\<lambda>(a, b). render_run a b"
  have set: "S = insert x (set xs)"
    using assms(1) Cons by (metis list.simps(15) set_sorted_list_of_set)
  have sorted: "sorted_wrt (<) (x # xs)"
    using strict_sorted_list_of_set [of S] by (simp add: Cons)
  have pos: "\<forall>(a, b)\<in>set ?rs. 0 \<le> a \<and> a \<le> b"
  proof clarify
    fix a b
    assume "(a, b) \<in> set ?rs"
    from runs_bounds [OF order_refl sorted this] have "x \<le> a" "a \<le> b" by simp_all
    moreover have "0 \<le> x" using assms(2) set by simp
    ultimately show "0 \<le> a \<and> a \<le> b" by simp
  qed
  have enc: "rle_encode_offsets S = str_join '','' (map ?render ?rs)"
    by (simp add: rle_encode_offsets_def Cons rle_loop_runs)
  have "str_split CHR '','' (rle_encode_offsets S) = map ?render ?rs"
    unfolding enc by (rule str_split_join) (auto simp: runs_nonempty render_run_free_comma)
  moreover have "rle_encode_offsets S \<noteq> []"
    unfolding enc by (rule str_join_nonempty) (auto simp: runs_nonempty render_run_nonempty)
  moreover have "decode_runs {} (map ?render ?rs) = Inr S"
    using decode_runs_render [OF pos, of "{}"] runs_cover [OF _ sorted] set by simp
  ultimately show ?thesis by (simp add: rle_decode_offsets_def)
qed

section \<open>Bitsets\<close>

lemma sorted_le_last: "\<lbrakk>sorted xs; x \<in> set xs\<rbrakk> \<Longrightarrow> x \<le> last xs"
  by (induction xs) auto

lemma byte_bits_iff: "x \<in> byte_bits a b \<longleftrightarrow> (\<exists>j<8. bit b j \<and> x = a + int j)"
  by (auto simp: byte_bits_def and_exp_eq_0_iff_not_bit)

lemma collect_bits_iff:
  "x \<in> collect_bits base k bs \<longleftrightarrow>
    (\<exists>i<length bs. \<exists>j<8. bit (bs ! i) j \<and> x = base + (int (k + i) * 8 + int j))"
proof (induction bs arbitrary: k)
  case (Cons b bs)
  have "(\<exists>i<length (b # bs). \<exists>j<8. bit ((b # bs) ! i) j \<and> x = base + (int (k + i) * 8 + int j)) \<longleftrightarrow>
      (\<exists>j<8. bit b j \<and> x = base + int k * 8 + int j) \<or>
      (\<exists>i<length bs. \<exists>j<8. bit (bs ! i) j \<and> x = base + (int (Suc k + i) * 8 + int j))"
    by (simp add: Ex_less_Suc2 algebra_simps)
  with Cons [of "Suc k"] show ?case
    by (simp only: collect_bits.simps Un_iff byte_bits_iff)
qed simp

lemma length_set_bit_at [simp]: "length (set_bit_at r bs) = length bs"
  by (simp add: set_bit_at_def Let_def)

lemma bit_set_bit_at:
  assumes "0 \<le> r" "r < 8 * int (length bs)" "i < length bs" "j < 8"
  shows "bit (set_bit_at r bs ! i) j \<longleftrightarrow> bit (bs ! i) j \<or> r = int i * 8 + int j"
proof -
  have idx: "nat (r div 8) < length bs" using assms(1,2) by linarith
  have "r = int i * 8 + int j \<longleftrightarrow> nat (r div 8) = i \<and> nat (r mod 8) = j"
    using assms(1,4) by auto
  moreover have "bit (set_bit_at r bs ! i) j \<longleftrightarrow>
      bit (bs ! i) j \<or> nat (r div 8) = i \<and> nat (r mod 8) = j"
    using idx assms(3,4)
    by (auto simp: set_bit_at_def Let_def nth_list_update bit_or_iff bit_exp_iff)
  ultimately show ?thesis by simp
qed

lemma length_fold_set_bit_at [simp]: "length (fold set_bit_at rs bs) = length bs"
  by (induction rs arbitrary: bs) auto

lemma bit_fold_set_bit_at:
  "\<lbrakk>\<forall>r\<in>set rs. 0 \<le> r \<and> r < 8 * int (length bs); i < length bs; j < 8\<rbrakk> \<Longrightarrow>
    bit (fold set_bit_at rs bs ! i) j \<longleftrightarrow> bit (bs ! i) j \<or> int i * 8 + int j \<in> set rs"
  by (induction rs arbitrary: bs) (auto simp: bit_set_bit_at)

lemma collect_fold_set_bit:
  assumes "\<forall>r\<in>set rs. 0 \<le> r \<and> r < 8 * int n"
  shows "collect_bits base 0 (fold set_bit_at rs (replicate n 0)) = (\<lambda>r. base + r) ` set rs"
proof (intro set_eqI iffI)
  fix x
  assume "x \<in> collect_bits base 0 (fold set_bit_at rs (replicate n 0))"
  then show "x \<in> (\<lambda>r. base + r) ` set rs"
    using assms by (auto simp: collect_bits_iff bit_fold_set_bit_at)
next
  fix x
  assume "x \<in> (\<lambda>r. base + r) ` set rs"
  then obtain r where r: "r \<in> set rs" "x = base + r" by auto
  define i j where "i = nat (r div 8)" and "j = nat (r mod 8)"
  have bounds: "0 \<le> r" "r < 8 * int n" using assms r by auto
  then have "i < n" "j < 8" unfolding i_def j_def by linarith+
  moreover have split: "r = int i * 8 + int j"
    using bounds by (simp add: i_def j_def pos_imp_zdiv_nonneg_iff)
  ultimately have "bit (fold set_bit_at rs (replicate n 0) ! i) j"
    using assms r(1) by (subst bit_fold_set_bit_at) auto
  with \<open>i < n\<close> \<open>j < 8\<close> split r(2) show "x \<in> collect_bits base 0 (fold set_bit_at rs (replicate n 0))"
    unfolding collect_bits_iff by (intro exI [of _ i] conjI exI [of _ j]) simp_all
qed

lemma bitset_round_trip:
  assumes "finite S" "bitset_encode_offsets max_size S base \<noteq> []"
  shows "bitset_decode_offsets (bitset_encode_offsets max_size S base) = {x \<in> S. base \<le> x}"
proof -
  let ?offs = "filter (\<lambda>x. base \<le> x) (sorted_list_of_set S)"
  let ?rel = "map (\<lambda>x. x - base) ?offs"
  have nocolon: "CHR '':'' \<notin> set (str_int base)"
  proof (rule str_int_free)
    show "\<not> is_digit CHR '':''" by code_simp
  qed simp
  have split: "str_split1 CHR '':'' (str_int base @ CHR '':'' # s) = (str_int base, s)" for s
    by (rule str_split1_append [OF nocolon])
  have elems: "(\<lambda>r. base + r) ` set ?rel = {x \<in> S. base \<le> x}"
    using assms(1) by (force simp: image_iff)
  show ?thesis
  proof (cases "?rel = []")
    case True
    then have enc: "bitset_encode_offsets max_size S base = str_int base @ '':''"
      by (simp add: bitset_encode_offsets_def Let_def)
    have "{x \<in> S. base \<le> x} = {}" using elems True by simp
    then show ?thesis
      using split [of "[]"] by (simp add: enc bitset_decode_offsets_def)
  next
    case False
    define n where "n = nat ((last ?rel + 1 + 7) div 8)"
    have enc: "bitset_encode_offsets max_size S base =
        str_int base @ CHR '':'' # bytes_hex (fold set_bit_at ?rel (replicate n 0))"
      using assms(2) False
      by (simp add: bitset_encode_offsets_def Let_def n_def split: if_splits del: filter_empty_conv)
    have "sorted ?rel" by (simp add: sorted_map sorted_wrt_filter)
    then have "\<forall>r\<in>set ?rel. r \<le> last ?rel" using sorted_le_last [of ?rel] by blast
    moreover have "\<forall>r\<in>set ?rel. 0 \<le> r" by auto
    ultimately have bound: "\<forall>r\<in>set ?rel. 0 \<le> r \<and> r < 8 * int n"
      unfolding n_def by (auto simp del: set_map)
    show ?thesis
      unfolding enc bitset_decode_offsets_def
      using collect_fold_set_bit [OF bound, of base] elems
      by (simp add: split bytes_fromhex_hex)
  qed
qed

section \<open>Properties\<close>

text \<open>The three possible outcomes of \<open>encode_metadata\<close>.\<close>

lemma encode_metadata_cases:
  obtains (overflow) "encode_metadata m S base = ''O''"
  | (rle) "encode_metadata m S base = CHR ''R'' # rle_encode_offsets S"
      "int (length (CHR ''R'' # rle_encode_offsets S)) \<le> m"
  | (bitset) "encode_metadata m S base = CHR ''B'' # bitset_encode_offsets m S base"
      "bitset_encode_offsets m S base \<noteq> []"
      "int (length (CHR ''B'' # bitset_encode_offsets m S base)) \<le> m"
proof -
  have "encode_metadata m S base = ''O'' \<or>
      encode_metadata m S base = CHR ''R'' # rle_encode_offsets S \<and>
        int (length (CHR ''R'' # rle_encode_offsets S)) \<le> m \<or>
      encode_metadata m S base = CHR ''B'' # bitset_encode_offsets m S base \<and>
        bitset_encode_offsets m S base \<noteq> [] \<and>
        int (length (CHR ''B'' # bitset_encode_offsets m S base)) \<le> m"
    by (simp add: encode_metadata_def Let_def)
  with that show ?thesis by blast
qed

lemma decode_encode_metadata:
  assumes "finite S" and "0 \<le> base" and "\<forall>x\<in>S. base \<le> x"
  shows "decode_metadata (encode_metadata max_size S base) =
    (if encode_metadata max_size S base = ''O'' then {} else S)"
proof (cases rule: encode_metadata_cases [of max_size S base])
  case overflow
  then show ?thesis by (simp add: decode_metadata_def)
next
  case rle
  have "\<forall>x\<in>S. 0 \<le> x" using assms(2,3) by force
  with rle assms(1) show ?thesis by (simp add: decode_metadata_def rle_round_trip)
next
  case bitset
  have "{x \<in> S. base \<le> x} = S" using assms(3) by auto
  with bitset assms(1) show ?thesis by (simp add: decode_metadata_def bitset_round_trip)
qed

text \<open>
  C11. Commit metadata survives a round trip: for offsets at or above a non-negative base,
  decoding what was encoded gives back exactly the offsets, unless the encoder reported that
  they do not fit (the marker \<open>O\<close>), which decodes to no offsets.
\<close>

theorem metadata_round_trip:
  assumes "finite S" and "0 \<le> base" and "\<forall>x\<in>S. base \<le> x"
  shows "decode_metadata (encode_metadata max_size S base) =
    (if encode_metadata max_size S base = ''O'' then {} else S)"
  using assms by (rule decode_encode_metadata)

theorem metadata_round_trip_witness:
  "encode_metadata 4000 {101, 103, 105, 107, 109, 111} 100 = ''B100:aa0a'' \<and>
   decode_metadata ''B100:aa0a'' = {101, 103, 105, 107, 109, 111}"
proof -
  have enc: "encode_metadata 4000 {101, 103, 105, 107, 109, 111} 100 = ''B100:aa0a''"
    by code_simp
  have "decode_metadata (encode_metadata 4000 {101, 103, 105, 107, 109, 111} 100) =
      {101, 103, 105, 107, 109, 111}"
    using metadata_round_trip [of "{101, 103, 105, 107, 109, 111}" 100 4000] by (simp add: enc)
  with enc show ?thesis by simp
qed

text \<open>
  The metadata respects its size limit and is the shortest choice: it never exceeds
  \<open>max_metadata_size\<close> (at least 1); it is the overflow marker exactly when neither the run
  lengths nor the bitset fit; and otherwise no fitting alternative is shorter.
\<close>

theorem metadata_size_bounded:
  assumes "1 \<le> max_size"
  shows "int (length (encode_metadata max_size S base)) \<le> max_size \<and>
    (encode_metadata max_size S base = ''O'' \<longleftrightarrow>
       max_size < int (length (rle_encode_offsets S)) + 1 \<and>
       (bitset_encode_offsets max_size S base = [] \<or>
        max_size < int (length (bitset_encode_offsets max_size S base)) + 1)) \<and>
    (int (length (rle_encode_offsets S)) + 1 \<le> max_size \<longrightarrow>
       length (encode_metadata max_size S base) \<le> length (rle_encode_offsets S) + 1) \<and>
    (bitset_encode_offsets max_size S base \<noteq> [] \<and>
       int (length (bitset_encode_offsets max_size S base)) + 1 \<le> max_size \<longrightarrow>
       length (encode_metadata max_size S base) \<le> length (bitset_encode_offsets max_size S base) + 1)"
  using assms by (simp add: encode_metadata_def Let_def)

theorem metadata_size_bounded_witness:
  "int (length (encode_metadata 12 {0, 2, 4, 6, 8, 10} 0)) \<le> 12 \<and>
   encode_metadata 12 {0, 2, 4, 6, 8, 10} 0 = ''B0:5505'' \<and>
   encode_metadata 4 {0, 2, 4, 6, 8, 10} 0 = ''O''"
proof -
  have "int (length (encode_metadata 12 {0, 2, 4, 6, 8, 10} 0)) \<le> 12"
    using metadata_size_bounded [of 12 "{0, 2, 4, 6, 8, 10}" 0] by simp
  moreover have "encode_metadata 12 {0, 2, 4, 6, 8, 10} 0 = ''B0:5505''"
    and "encode_metadata 4 {0, 2, 4, 6, 8, 10} 0 = ''O''"
    by code_simp+
  ultimately show ?thesis by blast
qed

text \<open>
  Negative offsets do not survive the run-length form: a run that starts with a minus
  sign is split at that sign and rejected, so the whole metadata decodes to no offsets. The
  hypothesis of the round trip that offsets are non-negative is therefore necessary.
\<close>

lemma metadata_negative_offsets_lost:
  "encode_metadata 4000 {- 5} (- 5) = ''R-5'' \<and> decode_metadata ''R-5'' = {}"
  by code_simp

end
