(* ===== verification/Dto.thy ===== *)
theory Dto
  imports Py_Prelude "HOL-Library.List_Lexorder" "HOL-Library.Char_ord" "HOL-Library.Product_Lexorder"
begin

text \<open>
  The data transfer objects of \<open>pyrallel_consumer/dto.py\<close> that the control plane computes
  with. Payloads and message keys have type \<open>Any\<close> in the source; they are type variables
  here (\<open>'k\<close> for keys, \<open>'p\<close> for payloads), because no modelled code looks inside them.
\<close>

datatype completion_status = SUCCESS | FAILURE

datatype ordering_mode = KEY_HASH | PARTITION | UNORDERED

datatype topic_partition = TopicPartition (topic: string) (partition: int)

text \<open>Partitions sorted by topic and number, so that finite sets of them can be listed.\<close>

instantiation topic_partition :: linorder
begin

definition less_eq_topic_partition :: "topic_partition \<Rightarrow> topic_partition \<Rightarrow> bool" where
  "less_eq_topic_partition a b \<longleftrightarrow> (topic a, partition a) \<le> (topic b, partition b)"

definition less_topic_partition :: "topic_partition \<Rightarrow> topic_partition \<Rightarrow> bool" where
  "less_topic_partition a b \<longleftrightarrow> (topic a, partition a) < (topic b, partition b)"

instance
proof
  fix a b c :: topic_partition
  show "a \<le> a" by (simp add: less_eq_topic_partition_def)
  show "(a < b) = (a \<le> b \<and> \<not> b \<le> a)"
    unfolding less_eq_topic_partition_def less_topic_partition_def by (rule less_le_not_le)
  show "a \<le> c" if "a \<le> b" "b \<le> c"
    using that unfolding less_eq_topic_partition_def by (rule order_trans)
  show "a = b" if "a \<le> b" "b \<le> a"
    using antisym[of "(topic a, partition a)" "(topic b, partition b)"] that
    by (simp add: less_eq_topic_partition_def topic_partition.expand)
  show "a \<le> b \<or> b \<le> a" unfolding less_eq_topic_partition_def by (rule linear)
qed

end

record completion_event =
  ce_id :: string
  ce_tp :: topic_partition
  ce_offset :: int
  ce_epoch :: int
  ce_status :: completion_status
  ce_error :: "string option"
  ce_attempt :: int

text \<open>\<open>wi_poison_key = None\<close> stands for the sentinel \<open>WORK_ITEM_POISON_KEY_UNSET\<close>.\<close>

record ('k, 'p) work_item =
  wi_id :: string
  wi_tp :: topic_partition
  wi_offset :: int
  wi_epoch :: int
  wi_key :: 'k
  wi_payload :: 'p
  wi_requeue_attempts :: int
  wi_poison_key :: "'k option"

datatype offset_range = OffsetRange (range_start: int) (range_end: int)

type_synonym 'k queue_key = "topic_partition \<times> 'k"

definition range_offsets :: "offset_range \<Rightarrow> int set" where
  "range_offsets r = {range_start r..range_end r}"

lemma range_offsets_OffsetRange [simp]: "range_offsets (OffsetRange a b) = {a..b}"
  by (simp add: range_offsets_def)

end
