(* ===== verification/Ext_Containers.thy ===== *)
theory Ext_Containers
  imports Dto
begin

text \<open>
  The third-party containers \<open>offset_tracker.py\<close> relies on: \<open>sortedcontainers.SortedSet\<close>
  and \<open>cachetools.LRUCache(maxsize=1)\<close>. Their code is not part of the repository, so the
  operations the tracker calls are fields of a record \<open>container_ops\<close> that every
  definition using them takes as an argument, and the locales below state the documented
  behaviour the tracker relies on. \<open>ss_iter\<close> is iteration over the set, which
  \<open>SortedSet\<close> documents as ascending; \<open>irange\<close> is its inclusive range query; \<open>remove\<close> is
  specified on members only (it raises otherwise). The last section interprets the locales
  on finite integer lists read in ascending order and a one-entry association, which also serve as the concrete
  containers on which examples are evaluated.
\<close>

type_synonym gap_key = "int \<times> int \<times> int"

record ('s, 'c) container_ops =
  ss_new :: "int set \<Rightarrow> 's"
  ss_iter :: "'s \<Rightarrow> int list"
  ss_contains :: "'s \<Rightarrow> int \<Rightarrow> bool"
  ss_len :: "'s \<Rightarrow> nat"
  ss_add :: "int \<Rightarrow> 's \<Rightarrow> 's"
  ss_remove :: "int \<Rightarrow> 's \<Rightarrow> 's"
  ss_irange :: "int option \<Rightarrow> int option \<Rightarrow> 's \<Rightarrow> int list"
  ss_symmetric_difference :: "'s \<Rightarrow> int set \<Rightarrow> 's"
  lru_new :: 'c
  lru_clear :: "'c \<Rightarrow> 'c"
  lru_get :: "'c \<Rightarrow> gap_key \<Rightarrow> offset_range list option"
  lru_set :: "gap_key \<Rightarrow> offset_range list \<Rightarrow> 'c \<Rightarrow> 'c"

definition irange_keeps :: "int option \<Rightarrow> int option \<Rightarrow> int \<Rightarrow> bool" where
  "irange_keeps lo hi x \<longleftrightarrow>
     (case lo of None \<Rightarrow> True | Some l \<Rightarrow> l \<le> x) \<and>
     (case hi of None \<Rightarrow> True | Some h \<Rightarrow> x \<le> h)"

section \<open>The interfaces\<close>

locale sorted_set =
  fixes D :: "('s, 'c) container_ops"
  assumes iter_ascending: "sorted_wrt (<) (ss_iter D s)"
    and iter_new: "finite A \<Longrightarrow> set (ss_iter D (ss_new D A)) = A"
    and contains_iff: "ss_contains D s x \<longleftrightarrow> x \<in> set (ss_iter D s)"
    and len_eq: "ss_len D s = length (ss_iter D s)"
    and iter_add: "set (ss_iter D (ss_add D x s)) = insert x (set (ss_iter D s))"
    and iter_remove: "x \<in> set (ss_iter D s) \<Longrightarrow>
      set (ss_iter D (ss_remove D x s)) = set (ss_iter D s) - {x}"
    and irange_eq: "ss_irange D lo hi s = filter (irange_keeps lo hi) (ss_iter D s)"
    and iter_symmetric_difference: "finite A \<Longrightarrow>
      set (ss_iter D (ss_symmetric_difference D s A)) =
        (set (ss_iter D s) - A) \<union> (A - set (ss_iter D s))"
begin

lemma iter_distinct: "distinct (ss_iter D s)"
  using iter_ascending [of s] by (simp add: strict_sorted_iff)

lemma iter_sorted: "sorted (ss_iter D s)"
  using iter_ascending [of s] by (simp add: strict_sorted_iff)

lemma len_card: "ss_len D s = card (set (ss_iter D s))"
  by (simp add: len_eq distinct_card iter_distinct)

lemma iter_determined:
  "set (ss_iter D s) = set (ss_iter D s') \<Longrightarrow> ss_iter D s = ss_iter D s'"
  using iter_distinct iter_sorted sorted_distinct_set_unique by blast

lemma iter_eq_sorted_list: "ss_iter D s = sorted_list_of_set (set (ss_iter D s))"
  by (simp add: sorted_list_of_set.idem_if_sorted_distinct iter_distinct iter_sorted)

lemma add_grows_iff: "ss_len D (ss_add D x s) \<noteq> ss_len D s \<longleftrightarrow> x \<notin> set (ss_iter D s)"
  by (simp add: len_card iter_add card_insert_if)

lemma fold_remove:
  "\<lbrakk>distinct xs; set xs \<subseteq> set (ss_iter D s)\<rbrakk> \<Longrightarrow>
    set (ss_iter D (fold (ss_remove D) xs s)) = set (ss_iter D s) - set xs"
proof (induction xs arbitrary: s)
  case Nil
  then show ?case by simp
next
  case (Cons x xs)
  then have "set (ss_iter D (ss_remove D x s)) = set (ss_iter D s) - {x}"
    by (simp add: iter_remove)
  with Cons show ?case by auto
qed

end

locale lru_cache =
  fixes D :: "('s, 'c) container_ops"
  assumes get_new: "lru_get D (lru_new D) k = None"
    and get_clear: "lru_get D (lru_clear D c) k = None"
    and get_set_clear:
      "lru_get D (lru_set D k v (lru_clear D c)) k' = (if k' = k then Some v else None)"

locale tracker_containers = sorted_set D + lru_cache D
  for D :: "('s, 'c) container_ops"

section \<open>Concrete containers\<close>

definition list_containers ::
  "(int list, (gap_key \<times> offset_range list) option) container_ops" where
  "list_containers = \<lparr>
     ss_new = sorted_list_of_set,
     ss_iter = (\<lambda>xs. sorted_list_of_set (set xs)),
     ss_contains = (\<lambda>xs x. x \<in> set xs),
     ss_len = (\<lambda>xs. card (set xs)),
     ss_add = (\<lambda>x xs. x # xs),
     ss_remove = removeAll,
     ss_irange = (\<lambda>lo hi xs. filter (irange_keeps lo hi) (sorted_list_of_set (set xs))),
     ss_symmetric_difference =
       (\<lambda>xs A. filter (\<lambda>x. x \<notin> A) xs @ filter (\<lambda>x. x \<notin> set xs) (sorted_list_of_set A)),
     lru_new = None,
     lru_clear = (\<lambda>_. None),
     lru_get = (\<lambda>c k. case c of None \<Rightarrow> None
                 | Some (k', v) \<Rightarrow> if k' = k then Some v else None),
     lru_set = (\<lambda>k v _. Some (k, v)) \<rparr>"

lemmas list_containers_simps =
  list_containers_def container_ops.simps container_ops.defs

interpretation lc: tracker_containers list_containers
proof unfold_locales
  fix s :: "int list" and A :: "int set" and lo hi x
  show "sorted_wrt (<) (ss_iter list_containers s)"
    by (simp add: list_containers_simps strict_sorted_iff)
  show "finite A \<Longrightarrow> set (ss_iter list_containers (ss_new list_containers A)) = A"
    by (simp add: list_containers_simps)
  show "ss_contains list_containers s x = (x \<in> set (ss_iter list_containers s))"
    by (simp add: list_containers_simps)
  show "ss_len list_containers s = length (ss_iter list_containers s)"
    by (simp add: list_containers_simps)
  show "set (ss_iter list_containers (ss_add list_containers x s)) =
      insert x (set (ss_iter list_containers s))"
    by (auto simp: list_containers_simps set_insort_key)
  show "set (ss_iter list_containers (ss_remove list_containers x s)) =
      set (ss_iter list_containers s) - {x}"
    by (simp add: list_containers_simps)
  show "ss_irange list_containers lo hi s = filter (irange_keeps lo hi) (ss_iter list_containers s)"
    by (simp add: list_containers_simps)
  show "finite A \<Longrightarrow>
      set (ss_iter list_containers (ss_symmetric_difference list_containers s A)) =
        (set (ss_iter list_containers s) - A) \<union> (A - set (ss_iter list_containers s))"
    by (auto simp: list_containers_simps)
next
  fix k k' :: gap_key and c v
  show "lru_get list_containers (lru_new list_containers) k = None"
    by (simp add: list_containers_simps)
  show "lru_get list_containers (lru_clear list_containers c) k = None"
    by (simp add: list_containers_simps)
  show "lru_get list_containers (lru_set list_containers k v (lru_clear list_containers c)) k' =
      (if k' = k then Some v else None)"
    by (simp add: list_containers_simps)
qed

end
