(* ===== verification/Offset_Tracker.thy ===== *)
theory Offset_Tracker
  imports Complex_Main Ext_Containers
begin

text \<open>
  \<open>control_plane/offset_tracker.py\<close>: the per-partition ledger of fetched, completed and
  committed offsets. One record field per attribute, one definition per method, in the
  source's order. The gap cache, its key and the derived \<open>first_gap_head\<close> are kept exactly
  as the code keeps them, so that the theorems can say the cached answers equal the
  recomputed ones. \<open>time.time()\<close> is an argument (\<open>now\<close>); log calls are left out.

  The second half relates the record to an abstract ledger (committed offset, fetched
  offset, set of completed offsets), characterises the two scans, and proves the safety of
  the commit protocol over every interleaving of tracker operations.
\<close>

section \<open>State and operations\<close>

record ('s, 'c) offset_tracker =
  ot_topic_partition :: topic_partition
  ot_last_committed_offset :: int
  ot_completed_offsets :: 's
  ot_last_fetched_offset :: int
  ot_max_revoke_grace_ms :: int
  ot_epoch :: int
  ot_blocking_offset_timestamps :: "(int, real) dict"
  ot_state_version :: int
  ot_gaps_cache :: 'c
  ot_gaps_cache_key :: "gap_key option"
  ot_last_gap_key :: "gap_key option"
  ot_repeat_gap_count :: int
  ot_first_gap_head :: "int option"

function first_gap_scan :: "('s, 'c) container_ops \<Rightarrow> 's \<Rightarrow> int \<Rightarrow> int \<Rightarrow> int" where
  "first_gap_scan D completed last_fetched current =
     (if current \<le> last_fetched \<and> ss_contains D completed current
      then first_gap_scan D completed last_fetched (current + 1)
      else current)"
  by pat_completeness auto
termination
  by (relation "measure (\<lambda>(D, completed, last_fetched, current). nat (last_fetched + 1 - current))")
    auto

declare first_gap_scan.simps [simp del]

definition calculate_first_gap_head ::
  "('s, 'c) container_ops \<Rightarrow> ('s, 'c) offset_tracker \<Rightarrow> int option" where
  "calculate_first_gap_head D t =
     (let current = first_gap_scan D (ot_completed_offsets t) (ot_last_fetched_offset t)
                      (ot_last_committed_offset t + 1)
      in if current > ot_last_fetched_offset t then None else Some current)"

definition bump_version ::
  "('s, 'c) container_ops \<Rightarrow> ('s, 'c) offset_tracker \<Rightarrow> ('s, 'c) offset_tracker" where
  "bump_version D t =
     t\<lparr>ot_state_version := ot_state_version t + 1,
       ot_gaps_cache := lru_clear D (ot_gaps_cache t),
       ot_gaps_cache_key := None,
       ot_first_gap_head := calculate_first_gap_head D t\<rparr>"

definition offset_tracker_init ::
  "('s, 'c) container_ops \<Rightarrow> topic_partition \<Rightarrow> int \<Rightarrow> int \<Rightarrow> int set option
    \<Rightarrow> ('s, 'c) offset_tracker" where
  "offset_tracker_init D tp starting_offset grace_ms initial_completed_offsets =
     (let t = \<lparr>ot_topic_partition = tp,
               ot_last_committed_offset = starting_offset - 1,
               ot_completed_offsets =
                 ss_new D (case initial_completed_offsets of None \<Rightarrow> {} | Some A \<Rightarrow> A),
               ot_last_fetched_offset = starting_offset - 1,
               ot_max_revoke_grace_ms = grace_ms,
               ot_epoch = 0,
               ot_blocking_offset_timestamps = [],
               ot_state_version = 0,
               ot_gaps_cache = lru_new D,
               ot_gaps_cache_key = None,
               ot_last_gap_key = None,
               ot_repeat_gap_count = 0,
               ot_first_gap_head = None\<rparr>
      in t\<lparr>ot_first_gap_head := calculate_first_gap_head D t\<rparr>)"

definition in_flight_offsets ::
  "('s, 'c) container_ops \<Rightarrow> ('s, 'c) offset_tracker \<Rightarrow> 's" where
  "in_flight_offsets D t =
     ss_symmetric_difference D (ot_completed_offsets t)
       (set [ot_last_committed_offset t + 1..ot_last_fetched_offset t])"

definition increment_epoch :: "('s, 'c) offset_tracker \<Rightarrow> ('s, 'c) offset_tracker" where
  "increment_epoch t = t\<lparr>ot_epoch := ot_epoch t + 1\<rparr>"

definition get_current_epoch :: "('s, 'c) offset_tracker \<Rightarrow> int" where
  "get_current_epoch t = ot_epoch t"

definition get_first_gap_head :: "('s, 'c) offset_tracker \<Rightarrow> int option" where
  "get_first_gap_head t = ot_first_gap_head t"

definition rehydrate_assignment_state ::
  "('s, 'c) container_ops \<Rightarrow> int \<Rightarrow> int \<Rightarrow> ('s, 'c) offset_tracker
    \<Rightarrow> py_error + ('s, 'c) offset_tracker" where
  "rehydrate_assignment_state D last_committed last_fetched t =
     (if last_fetched < last_committed then Inl ValueError
      else Inr (bump_version D
             (t\<lparr>ot_last_committed_offset := last_committed,
                ot_last_fetched_offset := last_fetched\<rparr>)))"

definition mark_complete ::
  "('s, 'c) container_ops \<Rightarrow> int \<Rightarrow> ('s, 'c) offset_tracker \<Rightarrow> ('s, 'c) offset_tracker" where
  "mark_complete D offset t =
     (if offset > ot_last_committed_offset t then
        let before_size = ss_len D (ot_completed_offsets t);
            t' = t\<lparr>ot_completed_offsets := ss_add D offset (ot_completed_offsets t)\<rparr>
        in if ss_len D (ot_completed_offsets t') \<noteq> before_size then bump_version D t' else t'
      else t)"

definition is_completed_uncommitted ::
  "('s, 'c) container_ops \<Rightarrow> int \<Rightarrow> ('s, 'c) offset_tracker \<Rightarrow> bool" where
  "is_completed_uncommitted D offset t \<longleftrightarrow>
     ot_last_committed_offset t < offset \<and> offset \<le> ot_last_fetched_offset t \<and>
     ss_contains D (ot_completed_offsets t) offset"

fun hwm_scan :: "int \<Rightarrow> int list \<Rightarrow> int" where
  "hwm_scan potential_hwm [] = potential_hwm"
| "hwm_scan potential_hwm (offset # offsets) =
     (if offset = potential_hwm + 1 then hwm_scan offset offsets else potential_hwm)"

definition get_committable_high_water_mark ::
  "('s, 'c) container_ops \<Rightarrow> int option \<Rightarrow> ('s, 'c) offset_tracker \<Rightarrow> int" where
  "get_committable_high_water_mark D min_inflight_offset t =
     (let potential_hwm =
            hwm_scan (ot_last_committed_offset t) (ss_iter D (ot_completed_offsets t))
      in case min_inflight_offset of
           None \<Rightarrow> potential_hwm
         | Some m \<Rightarrow> if m \<le> potential_hwm then m - 1 else potential_hwm)"

definition commit_through ::
  "('s, 'c) container_ops \<Rightarrow> int \<Rightarrow> ('s, 'c) offset_tracker \<Rightarrow> ('s, 'c) offset_tracker" where
  "commit_through D committed_offset t =
     (if committed_offset \<le> ot_last_committed_offset t then t
      else
        let offsets_to_remove =
              ss_irange D (Some (ot_last_committed_offset t + 1)) (Some committed_offset)
                (ot_completed_offsets t)
        in bump_version D
             (t\<lparr>ot_completed_offsets := fold (ss_remove D) offsets_to_remove (ot_completed_offsets t),
                ot_last_committed_offset := committed_offset\<rparr>))"

definition advance_high_water_mark ::
  "('s, 'c) container_ops \<Rightarrow> ('s, 'c) offset_tracker \<Rightarrow> ('s, 'c) offset_tracker" where
  "advance_high_water_mark D t =
     commit_through D (get_committable_high_water_mark D None t) t"

definition gap_cache_key :: "('s, 'c) offset_tracker \<Rightarrow> gap_key" where
  "gap_cache_key t =
     (ot_last_committed_offset t, ot_last_fetched_offset t, ot_state_version t)"

text \<open>The loop over \<open>irange(start, end)\<close>: the list of gaps so far and \<open>current\<close>.\<close>

fun gap_scan :: "offset_range list \<Rightarrow> int \<Rightarrow> int list \<Rightarrow> offset_range list \<times> int" where
  "gap_scan gaps current [] = (gaps, current)"
| "gap_scan gaps current (completed # rest) =
     gap_scan (if completed > current then gaps @ [OffsetRange current (completed - 1)] else gaps)
       (completed + 1) rest"

definition scan_gaps_from ::
  "('s, 'c) container_ops \<Rightarrow> int \<Rightarrow> ('s, 'c) offset_tracker \<Rightarrow> offset_range list" where
  "scan_gaps_from D start_check_offset t =
     (let end_check_offset = ot_last_fetched_offset t;
          (gaps, current) =
            gap_scan [] start_check_offset
              (ss_irange D (Some start_check_offset) (Some end_check_offset)
                (ot_completed_offsets t))
      in if current \<le> end_check_offset then gaps @ [OffsetRange current end_check_offset] else gaps)"

definition stamp_blocking ::
  "real \<Rightarrow> offset_range list \<Rightarrow> (int, real) dict \<Rightarrow> (int, real) dict" where
  "stamp_blocking now gaps stamps =
     (let current_blocking = map range_start gaps;
          added = fold (\<lambda>offset d. if dict_has d offset then d else dict_set offset now d)
                    current_blocking stamps
      in dict_filter (\<lambda>offset. offset \<in> set current_blocking) added)"

definition get_gaps ::
  "('s, 'c) container_ops \<Rightarrow> real \<Rightarrow> ('s, 'c) offset_tracker
    \<Rightarrow> offset_range list \<times> ('s, 'c) offset_tracker" where
  "get_gaps D now t =
     (case lru_get D (ot_gaps_cache t) (gap_cache_key t) of
        Some cached \<Rightarrow> (cached, t)
      | None \<Rightarrow>
          (case ot_first_gap_head t of
             None \<Rightarrow> ([], t\<lparr>ot_blocking_offset_timestamps := []\<rparr>)
           | Some start_check_offset \<Rightarrow>
               if start_check_offset > ot_last_fetched_offset t
               then ([], t\<lparr>ot_blocking_offset_timestamps := []\<rparr>)
               else
                 let gaps = scan_gaps_from D start_check_offset t
                 in if gaps = [] then ([], t\<lparr>ot_blocking_offset_timestamps := []\<rparr>)
                    else
                      (gaps,
                       t\<lparr>ot_repeat_gap_count :=
                           (if ot_last_gap_key t = Some (gap_cache_key t)
                            then ot_repeat_gap_count t + 1 else 0),
                         ot_last_gap_key := Some (gap_cache_key t),
                         ot_blocking_offset_timestamps :=
                           stamp_blocking now gaps (ot_blocking_offset_timestamps t),
                         ot_gaps_cache :=
                           lru_set D (gap_cache_key t) gaps (lru_clear D (ot_gaps_cache t))\<rparr>)))"

definition update_last_fetched_offset ::
  "('s, 'c) container_ops \<Rightarrow> int \<Rightarrow> ('s, 'c) offset_tracker \<Rightarrow> ('s, 'c) offset_tracker" where
  "update_last_fetched_offset D offset t =
     (if offset > ot_last_fetched_offset t
      then bump_version D (t\<lparr>ot_last_fetched_offset := offset\<rparr>)
      else t)"

definition get_blocking_offset_durations ::
  "real \<Rightarrow> ('s, 'c) offset_tracker \<Rightarrow> (int, real) dict" where
  "get_blocking_offset_durations current_time t =
     map (\<lambda>(offset, start_time). (offset, current_time - start_time))
       (ot_blocking_offset_timestamps t)"

section \<open>The scans\<close>

lemma hwm_scan_ge: "h \<le> hwm_scan h xs"
  by (induction h xs rule: hwm_scan.induct) auto

lemma hwm_scan_contiguous: "{h<..hwm_scan h xs} \<subseteq> set xs"
proof (induction h xs rule: hwm_scan.induct)
  case (2 h x xs)
  show ?case
  proof (cases "x = h + 1")
    case True
    with hwm_scan_ge [of x xs] have "{h<..hwm_scan x xs} = insert x {x<..hwm_scan x xs}"
      by auto
    with 2 True show ?thesis by auto
  qed simp
qed simp

lemma hwm_scan_maximal:
  "\<lbrakk>sorted_wrt (<) xs; \<forall>x\<in>set xs. h < x\<rbrakk> \<Longrightarrow> hwm_scan h xs + 1 \<notin> set xs"
proof (induction h xs rule: hwm_scan.induct)
  case (2 h x xs)
  show ?case
  proof (cases "x = h + 1")
    case True
    with 2 have "hwm_scan x xs + 1 \<notin> set xs" by simp
    with True hwm_scan_ge [of x xs] show ?thesis by simp
  next
    case False
    with "2.prems" show ?thesis by fastforce
  qed
qed simp

text \<open>The gap scan with its accumulator made explicit.\<close>

fun gaps_between :: "int \<Rightarrow> int list \<Rightarrow> offset_range list" where
  "gaps_between current [] = []"
| "gaps_between current (c # cs) =
     (if c > current then OffsetRange current (c - 1) # gaps_between (c + 1) cs
      else gaps_between (c + 1) cs)"

fun scan_end :: "int \<Rightarrow> int list \<Rightarrow> int" where
  "scan_end current [] = current"
| "scan_end current (c # cs) = scan_end (c + 1) cs"

lemma gap_scan_eq: "gap_scan gaps current cs = (gaps @ gaps_between current cs, scan_end current cs)"
  by (induction gaps current cs rule: gap_scan.induct) auto

definition separated :: "offset_range list \<Rightarrow> bool" where
  "separated gs \<longleftrightarrow>
     (\<forall>g\<in>set gs. range_start g \<le> range_end g) \<and>
     sorted_wrt (\<lambda>a b. range_end a + 1 < range_start b) gs"

lemma scan_end_ge: "\<lbrakk>sorted_wrt (<) cs; \<forall>c\<in>set cs. current \<le> c\<rbrakk> \<Longrightarrow> current \<le> scan_end current cs"
proof (induction current cs rule: scan_end.induct)
  case (2 current c cs)
  then have "c + 1 \<le> scan_end (c + 1) cs" by force
  with 2 show ?case by simp
qed simp

lemma scan_end_gt: "\<lbrakk>sorted_wrt (<) cs; c \<in> set cs\<rbrakk> \<Longrightarrow> c < scan_end current cs"
proof (induction current cs rule: scan_end.induct)
  case (2 current d cs)
  show ?case
  proof (cases "c = d")
    case True
    have "d + 1 \<le> scan_end (d + 1) cs"
      using 2 by (intro scan_end_ge) force+
    with True show ?thesis by simp
  next
    case False
    with 2 show ?thesis by simp
  qed
qed simp

lemma scan_end_bound:
  "\<lbrakk>\<forall>c\<in>set cs. c \<le> f; current \<le> f + 1\<rbrakk> \<Longrightarrow> scan_end current cs \<le> f + 1"
  by (induction current cs rule: scan_end.induct) auto

lemma gaps_between_cover:
  "\<lbrakk>sorted_wrt (<) cs; \<forall>c\<in>set cs. current \<le> c\<rbrakk> \<Longrightarrow>
    (\<Union>g\<in>set (gaps_between current cs). range_offsets g) = {current..<scan_end current cs} - set cs"
proof (induction current cs rule: gaps_between.induct)
  case (2 current c cs)
  have prems: "sorted_wrt (<) cs" "\<forall>x\<in>set cs. c + 1 \<le> x"
    using "2.prems" by force+
  then have IH: "(\<Union>g\<in>set (gaps_between (c + 1) cs). range_offsets g) =
      {c + 1..<scan_end (c + 1) cs} - set cs"
    using "2.IH" by (cases "c > current") simp_all
  have "c < scan_end (c + 1) cs"
    using scan_end_ge [OF prems] by simp
  moreover have "c \<notin> set cs" and "{current..<c} \<inter> set cs = {}"
    using prems by force+
  ultimately have *: "{current..<c} \<union> ({c + 1..<scan_end (c + 1) cs} - set cs) =
      {current..<scan_end (c + 1) cs} - set (c # cs)"
    using "2.prems"(2) by auto
  show ?case
  proof (cases "c > current")
    case True
    then have "(\<Union>g\<in>set (gaps_between current (c # cs)). range_offsets g) =
        {current..c - 1} \<union> ({c + 1..<scan_end (c + 1) cs} - set cs)"
      using IH by (simp add: range_offsets_def)
    moreover have "{current..c - 1} = {current..<c}" by auto
    ultimately show ?thesis using * by simp
  next
    case False
    then have "{current..<c} = {}" by simp
    with * IH False show ?thesis by simp
  qed
qed simp

lemma gaps_between_bounds:
  "\<lbrakk>sorted_wrt (<) cs; \<forall>c\<in>set cs. current \<le> c; g \<in> set (gaps_between current cs)\<rbrakk> \<Longrightarrow>
    current \<le> range_start g \<and> range_start g \<le> range_end g \<and> range_end g + 1 < scan_end current cs"
proof (induction current cs rule: gaps_between.induct)
  case (2 current c cs)
  have ge: "c + 1 \<le> scan_end (c + 1) cs"
    using 2 scan_end_ge [of cs "c + 1"] by force
  have prems: "sorted_wrt (<) cs" "\<forall>x\<in>set cs. c + 1 \<le> x" "current \<le> c"
    using "2.prems"(1,2) by force+
  show ?case
  proof (cases "g \<in> set (gaps_between (c + 1) cs)")
    case True
    then have "c + 1 \<le> range_start g \<and> range_start g \<le> range_end g \<and> range_end g + 1 < scan_end (c + 1) cs"
      using 2 prems by (cases "c > current") auto
    with prems show ?thesis by simp
  next
    case False
    with "2.prems"(3) have "g = OffsetRange current (c - 1)" "current < c"
      by (auto split: if_splits)
    with ge show ?thesis by simp
  qed
qed simp

lemma gaps_between_separated:
  "\<lbrakk>sorted_wrt (<) cs; \<forall>c\<in>set cs. current \<le> c\<rbrakk> \<Longrightarrow> separated (gaps_between current cs)"
proof (induction current cs rule: gaps_between.induct)
  case (2 current c cs)
  have prems: "sorted_wrt (<) cs" "\<forall>x\<in>set cs. c + 1 \<le> x"
    using "2.prems" by force+
  then have "separated (gaps_between (c + 1) cs)"
    using 2 by (cases "c > current") auto
  moreover have "\<forall>g\<in>set (gaps_between (c + 1) cs). c + 1 \<le> range_start g"
    using gaps_between_bounds [OF prems] by blast
  ultimately show ?case by (force simp: separated_def)
qed (simp add: separated_def)

section \<open>The abstract ledger\<close>

text \<open>
  What the tracker promises: a committed offset, a fetched offset and the set of completed
  offsets above the committed one.
\<close>

record ledger =
  led_committed :: int
  led_fetched :: int
  led_done :: "int set"

definition ledger_complete :: "int \<Rightarrow> ledger \<Rightarrow> ledger" where
  "ledger_complete x l = (if x > led_committed l then l\<lparr>led_done := insert x (led_done l)\<rparr> else l)"

definition ledger_commit :: "int \<Rightarrow> ledger \<Rightarrow> ledger" where
  "ledger_commit h l =
     (if h > led_committed l
      then l\<lparr>led_committed := h, led_done := {x \<in> led_done l. h < x}\<rparr> else l)"

definition ledger_fetch :: "int \<Rightarrow> ledger \<Rightarrow> ledger" where
  "ledger_fetch x l = l\<lparr>led_fetched := max x (led_fetched l)\<rparr>"

definition ledger_missing :: "ledger \<Rightarrow> int set" where
  "ledger_missing l = {led_committed l<..led_fetched l} - led_done l"

definition tracker_ledger :: "('s, 'c) container_ops \<Rightarrow> ('s, 'c) offset_tracker \<Rightarrow> ledger" where
  "tracker_ledger D t =
     \<lparr>led_committed = ot_last_committed_offset t,
      led_fetched = ot_last_fetched_offset t,
      led_done = set (ss_iter D (ot_completed_offsets t))\<rparr>"

text \<open>The gaps the tracker would compute with no cache and no stored gap head.\<close>

definition fresh_gaps ::
  "('s, 'c) container_ops \<Rightarrow> ('s, 'c) offset_tracker \<Rightarrow> offset_range list" where
  "fresh_gaps D t =
     (case calculate_first_gap_head D t of None \<Rightarrow> [] | Some s \<Rightarrow> scan_gaps_from D s t)"

definition tracker_wf :: "('s, 'c) container_ops \<Rightarrow> ('s, 'c) offset_tracker \<Rightarrow> bool" where
  "tracker_wf D t \<longleftrightarrow>
     (\<forall>x\<in>set (ss_iter D (ot_completed_offsets t)). ot_last_committed_offset t < x) \<and>
     ot_first_gap_head t = calculate_first_gap_head D t \<and>
     (case lru_get D (ot_gaps_cache t) (gap_cache_key t) of
        None \<Rightarrow> True | Some gs \<Rightarrow> gs = fresh_gaps D t)"

lemma bump_version_fields [simp]:
  "ot_last_committed_offset (bump_version D t) = ot_last_committed_offset t"
  "ot_last_fetched_offset (bump_version D t) = ot_last_fetched_offset t"
  "ot_completed_offsets (bump_version D t) = ot_completed_offsets t"
  "ot_epoch (bump_version D t) = ot_epoch t"
  "ot_topic_partition (bump_version D t) = ot_topic_partition t"
  "ot_blocking_offset_timestamps (bump_version D t) = ot_blocking_offset_timestamps t"
  by (simp_all add: bump_version_def)

context tracker_containers
begin

lemma tracker_wf_bump:
  "(\<forall>x\<in>set (ss_iter D (ot_completed_offsets t)). ot_last_committed_offset t < x) \<Longrightarrow>
    tracker_wf D (bump_version D t)"
  by (simp add: tracker_wf_def bump_version_def get_clear calculate_first_gap_head_def)

lemma tracker_ledger_bump [simp]: "tracker_ledger D (bump_version D t) = tracker_ledger D t"
  by (simp add: tracker_ledger_def)

subsection \<open>Every operation refines its ledger operation\<close>

lemma ledger_init:
  assumes "finite A"
  shows "tracker_ledger D (offset_tracker_init D tp start g (Some A)) =
    \<lparr>led_committed = start - 1, led_fetched = start - 1, led_done = A\<rparr>"
  using assms by (simp add: tracker_ledger_def offset_tracker_init_def iter_new)

lemma ledger_init_None:
  "tracker_ledger D (offset_tracker_init D tp start g None) =
    \<lparr>led_committed = start - 1, led_fetched = start - 1, led_done = {}\<rparr>"
  by (simp add: tracker_ledger_def offset_tracker_init_def iter_new)

lemma ledger_mark_complete:
  "tracker_ledger D (mark_complete D x t) = ledger_complete x (tracker_ledger D t)"
  by (simp add: mark_complete_def ledger_complete_def tracker_ledger_def iter_add Let_def)

lemma ledger_update_last_fetched:
  "tracker_ledger D (update_last_fetched_offset D x t) = ledger_fetch x (tracker_ledger D t)"
  by (simp add: update_last_fetched_offset_def ledger_fetch_def tracker_ledger_def)

lemma irange_members:
  "set (ss_irange D lo hi s) = {x \<in> set (ss_iter D s). irange_keeps lo hi x}"
  by (simp add: irange_eq)

lemma commit_through_removes:
  "set (ss_iter D (fold (ss_remove D) (ss_irange D (Some a) (Some h) s) s)) =
    {x \<in> set (ss_iter D s). \<not> (a \<le> x \<and> x \<le> h)}"
proof -
  have "distinct (ss_irange D (Some a) (Some h) s)"
    by (simp add: irange_eq iter_distinct)
  moreover have "set (ss_irange D (Some a) (Some h) s) \<subseteq> set (ss_iter D s)"
    by (simp add: irange_eq)
  ultimately show ?thesis
    by (auto simp: fold_remove irange_members irange_keeps_def)
qed

lemma ledger_commit_through:
  assumes "tracker_wf D t"
  shows "tracker_ledger D (commit_through D h t) = ledger_commit h (tracker_ledger D t)"
proof -
  have "\<forall>x\<in>set (ss_iter D (ot_completed_offsets t)). ot_last_committed_offset t < x"
    using assms by (simp add: tracker_wf_def)
  then have "{x \<in> set (ss_iter D (ot_completed_offsets t)).
        \<not> (ot_last_committed_offset t + 1 \<le> x \<and> x \<le> h)} =
      {x \<in> set (ss_iter D (ot_completed_offsets t)). h < x}"
    by auto
  then show ?thesis
    by (simp add: commit_through_def ledger_commit_def tracker_ledger_def commit_through_removes)
qed

lemma ledger_increment_epoch [simp]: "tracker_ledger D (increment_epoch t) = tracker_ledger D t"
  by (simp add: increment_epoch_def tracker_ledger_def)

lemma ledger_get_gaps [simp]: "tracker_ledger D (snd (get_gaps D now t)) = tracker_ledger D t"
  by (simp add: get_gaps_def tracker_ledger_def Let_def split: option.splits)

lemma first_gap_scan_spec:
  "c \<le> f + 1 \<Longrightarrow>
    c \<le> first_gap_scan D S f c \<and> first_gap_scan D S f c \<le> f + 1 \<and>
    {c..<first_gap_scan D S f c} \<subseteq> set (ss_iter D S) \<and>
    (first_gap_scan D S f c \<le> f \<longrightarrow> first_gap_scan D S f c \<notin> set (ss_iter D S))"
proof (induction "nat (f + 1 - c)" arbitrary: c rule: less_induct)
  case less
  show ?case
  proof (cases "c \<le> f \<and> ss_contains D S c")
    case True
    then have eq: "first_gap_scan D S f c = first_gap_scan D S f (c + 1)"
      by (subst first_gap_scan.simps) simp
    let ?r = "first_gap_scan D S f (c + 1)"
    have IH: "c + 1 \<le> ?r \<and> ?r \<le> f + 1 \<and> {c + 1..<?r} \<subseteq> set (ss_iter D S) \<and>
        (?r \<le> f \<longrightarrow> ?r \<notin> set (ss_iter D S))"
      using True by (intro less) auto
    then have "{c..<?r} = insert c {c + 1..<?r}" by auto
    with IH True show ?thesis by (auto simp: eq contains_iff)
  next
    case False
    then have "first_gap_scan D S f c = c" by (subst first_gap_scan.simps) auto
    with False less.prems show ?thesis by (auto simp: contains_iff)
  qed
qed

lemma first_gap_head_eq:
  "calculate_first_gap_head D t =
    (let missing = ledger_missing (tracker_ledger D t)
     in if missing = {} then None else Some (Min missing))"
proof -
  let ?c = "ot_last_committed_offset t + 1" and ?f = "ot_last_fetched_offset t"
  let ?S = "set (ss_iter D (ot_completed_offsets t))"
  let ?r = "first_gap_scan D (ot_completed_offsets t) ?f ?c"
  let ?M = "ledger_missing (tracker_ledger D t)"
  have M: "?M = {?c..?f} - ?S"
    by (auto simp: ledger_missing_def tracker_ledger_def)
  show ?thesis
  proof (cases "?c \<le> ?f + 1")
    case True
    note spec = first_gap_scan_spec [OF True, of "ot_completed_offsets t"]
    show ?thesis
    proof (cases "?r \<le> ?f")
      case True
      with spec have r: "?r \<in> ?M" by (auto simp: M)
      moreover have "Min ?M = ?r"
      proof (rule Min_eqI)
        show "finite ?M" by (simp add: M)
        show "?r \<le> y" if "y \<in> ?M" for y
          using that spec by (force simp: M)
      qed (rule r)
      ultimately show ?thesis
        using True by (auto simp: calculate_first_gap_head_def Let_def)
    next
      case False
      with spec have "?M = {}" by (auto simp: M)
      with False show ?thesis by (simp add: calculate_first_gap_head_def Let_def)
    qed
  next
    case False
    then have "?r = ?c" by (subst first_gap_scan.simps) simp
    moreover have "?M = {}" using False by (simp add: M)
    ultimately show ?thesis
      using False by (simp add: calculate_first_gap_head_def Let_def)
  qed
qed

lemma first_gap_head_ledger_cong:
  "tracker_ledger D t = tracker_ledger D u \<Longrightarrow>
    calculate_first_gap_head D t = calculate_first_gap_head D u"
  by (simp add: first_gap_head_eq)

lemma scan_gaps_ledger_cong:
  assumes "tracker_ledger D t = tracker_ledger D u"
  shows "scan_gaps_from D s t = scan_gaps_from D s u"
proof -
  have "ss_iter D (ot_completed_offsets t) = ss_iter D (ot_completed_offsets u)"
    using assms by (intro iter_determined) (simp add: tracker_ledger_def)
  then show ?thesis
    using assms by (simp add: scan_gaps_from_def irange_eq tracker_ledger_def)
qed

lemma fresh_gaps_ledger_cong:
  "tracker_ledger D t = tracker_ledger D u \<Longrightarrow> fresh_gaps D t = fresh_gaps D u"
  by (simp add: fresh_gaps_def first_gap_head_ledger_cong [of t u] scan_gaps_ledger_cong [of t u]
      cong: option.case_cong)

text \<open>An update that changes neither the ledger nor the cached state keeps the invariant.\<close>

lemma tracker_wf_ledger_cong:
  assumes "tracker_wf D t" "tracker_ledger D u = tracker_ledger D t"
    and "ot_first_gap_head u = ot_first_gap_head t"
    and "ot_gaps_cache u = ot_gaps_cache t" "ot_state_version u = ot_state_version t"
  shows "tracker_wf D u"
proof -
  have "gap_cache_key u = gap_cache_key t" "set (ss_iter D (ot_completed_offsets u)) =
      set (ss_iter D (ot_completed_offsets t))" "ot_last_committed_offset u = ot_last_committed_offset t"
    using assms(2,5) by (simp_all add: gap_cache_key_def tracker_ledger_def)
  with assms show ?thesis
    by (auto simp: tracker_wf_def fresh_gaps_ledger_cong [OF assms(2)]
        first_gap_head_ledger_cong [OF assms(2)] split: option.splits)
qed

subsection \<open>Every operation keeps the tracker well formed\<close>

lemma wf_init:
  assumes "finite A" "\<forall>x\<in>A. start \<le> x"
  shows "tracker_wf D (offset_tracker_init D tp start g (Some A))"
  using assms
  by (auto simp: tracker_wf_def offset_tracker_init_def iter_new get_new Let_def
      calculate_first_gap_head_def)

lemma wf_init_None: "tracker_wf D (offset_tracker_init D tp start g None)"
  by (auto simp: tracker_wf_def offset_tracker_init_def iter_new get_new Let_def
      calculate_first_gap_head_def)

lemma wf_mark_complete:
  assumes "tracker_wf D t"
  shows "tracker_wf D (mark_complete D x t)"
proof (cases "x > ot_last_committed_offset t")
  case above: True
  let ?t = "t\<lparr>ot_completed_offsets := ss_add D x (ot_completed_offsets t)\<rparr>"
  show ?thesis
  proof (cases "x \<in> set (ss_iter D (ot_completed_offsets t))")
    case True
    then have "mark_complete D x t = ?t"
      using above add_grows_iff [of x "ot_completed_offsets t"]
      by (auto simp: mark_complete_def Let_def)
    moreover have "tracker_wf D ?t"
      using assms by (rule tracker_wf_ledger_cong)
        (use True in \<open>auto simp: tracker_ledger_def iter_add\<close>)
    ultimately show ?thesis by simp
  next
    case False
    then have "mark_complete D x t = bump_version D ?t"
      using above add_grows_iff [of x "ot_completed_offsets t"]
      by (simp add: mark_complete_def Let_def)
    moreover have "tracker_wf D (bump_version D ?t)"
      using assms above by (intro tracker_wf_bump) (simp add: tracker_wf_def iter_add)
    ultimately show ?thesis by simp
  qed
qed (use assms in \<open>simp add: mark_complete_def\<close>)

lemma wf_commit_through:
  assumes "tracker_wf D t"
  shows "tracker_wf D (commit_through D h t)"
proof (cases "h \<le> ot_last_committed_offset t")
  case False
  have "\<forall>x\<in>set (ss_iter D (ot_completed_offsets t)). ot_last_committed_offset t < x"
    using assms by (simp add: tracker_wf_def)
  with False show ?thesis
    by (force simp: commit_through_def Let_def commit_through_removes intro!: tracker_wf_bump)
qed (use assms in \<open>simp add: commit_through_def\<close>)

lemma wf_advance: "tracker_wf D t \<Longrightarrow> tracker_wf D (advance_high_water_mark D t)"
  by (simp add: advance_high_water_mark_def wf_commit_through)

lemma wf_update_last_fetched:
  "tracker_wf D t \<Longrightarrow> tracker_wf D (update_last_fetched_offset D x t)"
  using tracker_wf_bump [of "t\<lparr>ot_last_fetched_offset := x\<rparr>"]
  by (simp add: update_last_fetched_offset_def) (simp add: tracker_wf_def)

lemma wf_increment_epoch: "tracker_wf D t \<Longrightarrow> tracker_wf D (increment_epoch t)"
  by (rule tracker_wf_ledger_cong [of t]) (simp_all add: increment_epoch_def tracker_ledger_def)

lemma wf_rehydrate:
  assumes "rehydrate_assignment_state D c f t = Inr t'"
    and "\<forall>x\<in>set (ss_iter D (ot_completed_offsets t)). c < x"
  shows "tracker_wf D t'"
  using assms by (auto simp: rehydrate_assignment_state_def split: if_splits intro!: tracker_wf_bump)

lemma get_gaps_fst: "tracker_wf D t \<Longrightarrow> fst (get_gaps D now t) = fresh_gaps D t"
  by (auto simp: get_gaps_def tracker_wf_def fresh_gaps_def Let_def calculate_first_gap_head_def
      split: option.splits if_splits)

lemma wf_get_gaps:
  assumes "tracker_wf D t"
  shows "tracker_wf D (snd (get_gaps D now t))"
proof -
  let ?u = "snd (get_gaps D now t)"
  have led: "tracker_ledger D ?u = tracker_ledger D t" by simp
  have same: "ot_first_gap_head ?u = ot_first_gap_head t" "ot_state_version ?u = ot_state_version t"
    by (simp_all add: get_gaps_def Let_def split: option.splits)
  show ?thesis
  proof (cases "ot_gaps_cache ?u = ot_gaps_cache t")
    case True
    with assms led same show ?thesis by (blast intro: tracker_wf_ledger_cong)
  next
    case False
    then have cache: "ot_gaps_cache ?u =
        lru_set D (gap_cache_key t) (fst (get_gaps D now t)) (lru_clear D (ot_gaps_cache t))"
      by (auto simp: get_gaps_def Let_def split: option.splits if_splits)
    have "gap_cache_key ?u = gap_cache_key t"
      using led same by (simp add: gap_cache_key_def tracker_ledger_def)
    then have "lru_get D (ot_gaps_cache ?u) (gap_cache_key ?u) = Some (fresh_gaps D t)"
      by (simp add: cache get_set_clear get_gaps_fst assms)
    moreover have "set (ss_iter D (ot_completed_offsets ?u)) = set (ss_iter D (ot_completed_offsets t))"
      and "ot_last_committed_offset ?u = ot_last_committed_offset t"
      using led by (simp_all add: tracker_ledger_def)
    ultimately show ?thesis
      using assms same
      by (simp add: tracker_wf_def fresh_gaps_ledger_cong [OF led] first_gap_head_ledger_cong [OF led])
  qed
qed

lemmas tracker_wf_ops =
  wf_mark_complete wf_commit_through wf_advance wf_update_last_fetched wf_increment_epoch wf_get_gaps

end

section \<open>What the queries return\<close>

lemma fold_stamp_get:
  "dict_get (fold (\<lambda>offset d. if dict_has d offset then d else dict_set offset now d) xs d) x =
    (case dict_get d x of Some v \<Rightarrow> Some v | None \<Rightarrow> if x \<in> set xs then Some now else None)"
  by (induction xs arbitrary: d) (auto simp: dict_simps split: option.splits)

lemma stamp_blocking_get:
  "dict_get (stamp_blocking now gaps stamps) x =
    (if x \<in> range_start ` set gaps
     then Some (case dict_get stamps x of None \<Rightarrow> now | Some v \<Rightarrow> v) else None)"
  by (simp add: stamp_blocking_def Let_def dict_get_filter fold_stamp_get split: option.splits)

context tracker_containers
begin

lemma committable_None_spec:
  assumes "tracker_wf D t"
  defines "h \<equiv> get_committable_high_water_mark D None t"
  shows "ot_last_committed_offset t \<le> h"
    and "{ot_last_committed_offset t<..h} \<subseteq> led_done (tracker_ledger D t)"
    and "h + 1 \<notin> led_done (tracker_ledger D t)"
  using assms hwm_scan_ge hwm_scan_contiguous hwm_scan_maximal [OF iter_ascending]
  by (simp_all add: get_committable_high_water_mark_def tracker_ledger_def tracker_wf_def)

lemma committable_le_None:
  "get_committable_high_water_mark D m t \<le> get_committable_high_water_mark D None t"
  by (simp add: get_committable_high_water_mark_def Let_def split: option.splits)

lemma committable_contiguous:
  assumes "tracker_wf D t"
  shows "{ot_last_committed_offset t<..get_committable_high_water_mark D m t}
    \<subseteq> led_done (tracker_ledger D t)"
  using committable_None_spec(2) [OF assms] committable_le_None [of m t] by auto

lemma fresh_gaps_spec:
  "(\<Union>g\<in>set (fresh_gaps D t). range_offsets g) = ledger_missing (tracker_ledger D t)"
  "separated (fresh_gaps D t)"
proof -
  let ?M = "ledger_missing (tracker_ledger D t)" and ?f = "ot_last_fetched_offset t"
  let ?S = "set (ss_iter D (ot_completed_offsets t))"
  have M: "?M = {ot_last_committed_offset t<..?f} - ?S"
    by (simp add: ledger_missing_def tracker_ledger_def)
  have "(\<Union>g\<in>set (fresh_gaps D t). range_offsets g) = ?M \<and> separated (fresh_gaps D t)"
  proof (cases "?M = {}")
    case True
    then show ?thesis by (simp add: fresh_gaps_def first_gap_head_eq separated_def)
  next
    case False
    define s where "s = Min ?M"
    define cs where "cs = ss_irange D (Some s) (Some ?f) (ot_completed_offsets t)"
    have fin: "finite ?M" by (simp add: M)
    have s: "s \<in> ?M" and least: "\<And>x. x \<in> ?M \<Longrightarrow> s \<le> x"
      using Min_in [OF fin False] Min_le [OF fin] by (simp_all add: s_def)
    have cs: "sorted_wrt (<) cs" "set cs = {x \<in> ?S. s \<le> x \<and> x \<le> ?f}"
      by (simp_all add: cs_def irange_eq irange_keeps_def iter_ascending sorted_wrt_filter)
    then have low: "\<forall>c\<in>set cs. s \<le> c" and up: "\<forall>c\<in>set cs. c \<le> ?f" by auto
    have end_le: "scan_end s cs \<le> ?f + 1"
      using s up by (intro scan_end_bound) (auto simp: M)
    have s_le: "s \<le> scan_end s cs" by (rule scan_end_ge [OF cs(1) low])
    have gt: "\<forall>c\<in>set cs. c < scan_end s cs" using scan_end_gt [OF cs(1)] by blast
    have gaps: "fresh_gaps D t = gaps_between s cs @
        (if scan_end s cs \<le> ?f then [OffsetRange (scan_end s cs) ?f] else [])"
      using False
      by (simp add: fresh_gaps_def first_gap_head_eq scan_gaps_from_def gap_scan_eq s_def cs_def
          Let_def)
    have "?M = {s..?f} - set cs"
      using s least by (auto simp: M cs(2) not_le)
    also have "\<dots> = ({s..<scan_end s cs} - set cs) \<union> {scan_end s cs..?f}"
      using end_le s_le gt by auto
    finally have "(\<Union>g\<in>set (fresh_gaps D t). range_offsets g) = ?M"
      by (simp add: gaps gaps_between_cover [OF cs(1) low] Un_ac)
    moreover have "separated (fresh_gaps D t)"
      using gaps_between_separated [OF cs(1) low] gaps_between_bounds [OF cs(1) low]
      by (auto simp: gaps separated_def sorted_wrt_append)
    ultimately show ?thesis ..
  qed
  then show "(\<Union>g\<in>set (fresh_gaps D t). range_offsets g) = ?M" "separated (fresh_gaps D t)"
    by blast+
qed

lemma fresh_gaps_head:
  "calculate_first_gap_head D t =
    (case fresh_gaps D t of [] \<Rightarrow> None | g # _ \<Rightarrow> Some (range_start g))"
proof (cases "calculate_first_gap_head D t")
  case None
  then show ?thesis by (simp add: fresh_gaps_def)
next
  case (Some s)
  let ?M = "ledger_missing (tracker_ledger D t)"
  from Some have ne: "?M \<noteq> {}" and s: "s = Min ?M"
    by (simp_all add: first_gap_head_eq Let_def split: if_splits)
  have fin: "finite ?M" by (simp add: ledger_missing_def)
  obtain g gs where g: "fresh_gaps D t = g # gs"
    using fresh_gaps_spec(1) [of t] ne by (cases "fresh_gaps D t") auto
  have nonempty: "range_start g \<le> range_end g"
    and later: "\<forall>g'\<in>set gs. range_end g + 1 < range_start g'"
    using fresh_gaps_spec(2) [of t] by (simp_all add: g separated_def)
  have cover: "?M = range_offsets g \<union> (\<Union>g'\<in>set gs. range_offsets g')"
    using fresh_gaps_spec(1) [of t] by (simp add: g)
  have "Min ?M = range_start g"
  proof (rule Min_eqI [OF fin])
    show "range_start g \<in> ?M" using nonempty by (simp add: cover range_offsets_def)
    show "range_start g \<le> y" if "y \<in> ?M" for y
      using that nonempty later by (force simp: cover range_offsets_def)
  qed
  with g s Some show ?thesis by simp
qed

lemma in_flight_offsets_members:
  "set (ss_iter D (in_flight_offsets D t)) =
    (led_done (tracker_ledger D t) - {ot_last_committed_offset t<..ot_last_fetched_offset t}) \<union>
    ledger_missing (tracker_ledger D t)"
  by (auto simp: in_flight_offsets_def iter_symmetric_difference tracker_ledger_def ledger_missing_def)

end

section \<open>Interleaved runs of one tracker\<close>

text \<open>
  The broker computes a commit candidate from the tracker, sends it to Kafka and applies
  \<open>commit_through\<close> once Kafka has answered; in between, completions and fetches go on. A run
  is any interleaving of the tracker's operations; \<open>planned\<close> collects the candidates that
  have been computed and \<open>completed\<close> the offsets that were completed since the start
  (or restored at construction).
\<close>

inductive tracker_run ::
  "('s, 'c) container_ops \<Rightarrow> int \<Rightarrow> ('s, 'c) offset_tracker \<Rightarrow> int set \<Rightarrow> int set \<Rightarrow> bool"
  for D :: "('s, 'c) container_ops" and start :: int where
  init: "\<lbrakk>finite A; \<forall>x\<in>A. start \<le> x\<rbrakk> \<Longrightarrow>
     tracker_run D start (offset_tracker_init D tp start g (Some A)) {} A"
| fetch: "tracker_run D start t planned completed \<Longrightarrow>
     tracker_run D start (update_last_fetched_offset D x t) planned completed"
| complete: "tracker_run D start t planned completed \<Longrightarrow>
     tracker_run D start (mark_complete D x t) planned (insert x completed)"
| plan: "tracker_run D start t planned completed \<Longrightarrow>
     tracker_run D start t (insert (get_committable_high_water_mark D m t) planned) completed"
| settle: "\<lbrakk>tracker_run D start t planned completed; h \<in> planned\<rbrakk> \<Longrightarrow>
     tracker_run D start (commit_through D h t) planned completed"
| advance: "tracker_run D start t planned completed \<Longrightarrow>
     tracker_run D start (advance_high_water_mark D t) planned completed"
| gaps: "tracker_run D start t planned completed \<Longrightarrow>
     tracker_run D start (snd (get_gaps D now t)) planned completed"
| epoch: "tracker_run D start t planned completed \<Longrightarrow>
     tracker_run D start (increment_epoch t) planned completed"

definition run_inv ::
  "('s, 'c) container_ops \<Rightarrow> int \<Rightarrow> ('s, 'c) offset_tracker \<Rightarrow> int set \<Rightarrow> int set \<Rightarrow> bool" where
  "run_inv D start t planned completed \<longleftrightarrow>
     tracker_wf D t \<and> start - 1 \<le> ot_last_committed_offset t \<and>
     {start..ot_last_committed_offset t} \<subseteq> completed \<and>
     led_done (tracker_ledger D t) \<subseteq> completed \<and>
     (\<forall>h\<in>planned. {start..h} \<subseteq> completed)"

context tracker_containers
begin

lemma ledger_committed [simp]:
  "led_committed (tracker_ledger D t) = ot_last_committed_offset t"
  "led_fetched (tracker_ledger D t) = ot_last_fetched_offset t"
  by (simp_all add: tracker_ledger_def)

lemma committed_of_ledger: "tracker_ledger D t = tracker_ledger D u \<Longrightarrow>
    ot_last_committed_offset t = ot_last_committed_offset u"
  by (simp add: tracker_ledger_def)

lemma committed_frame [simp]:
  "ot_last_committed_offset (update_last_fetched_offset D x t) = ot_last_committed_offset t"
  "ot_last_committed_offset (mark_complete D x t) = ot_last_committed_offset t"
  "ot_last_committed_offset (increment_epoch t) = ot_last_committed_offset t"
  by (simp_all add: update_last_fetched_offset_def mark_complete_def increment_epoch_def Let_def)

lemma committed_init [simp]:
  "ot_last_committed_offset (offset_tracker_init D tp start g A) = start - 1"
  by (simp add: offset_tracker_init_def)

lemma run_inv_ledger_step:
  assumes "run_inv D start t planned completed" "tracker_wf D u"
    and "tracker_ledger D u = ledger_commit h (tracker_ledger D t)" "{start..h} \<subseteq> completed"
  shows "run_inv D start u planned completed"
proof -
  have "ot_last_committed_offset u = max h (ot_last_committed_offset t)"
    using arg_cong [OF assms(3), of led_committed]
    by (simp add: ledger_commit_def max_def split: if_splits)
  moreover have "led_done (tracker_ledger D u) \<subseteq> led_done (tracker_ledger D t)"
    using arg_cong [OF assms(3), of led_done] by (auto simp: ledger_commit_def split: if_splits)
  ultimately show ?thesis using assms(1,2,4) by (auto simp: run_inv_def max_def)
qed

lemma planned_safe:
  assumes "run_inv D start t planned completed"
  shows "{start..get_committable_high_water_mark D m t} \<subseteq> completed"
proof -
  have "tracker_wf D t" using assms by (simp add: run_inv_def)
  note above = committable_contiguous [OF this, of m]
  show ?thesis
  proof
    fix x
    assume x: "x \<in> {start..get_committable_high_water_mark D m t}"
    show "x \<in> completed"
    proof (cases "x \<le> ot_last_committed_offset t")
      case True
      with x assms show ?thesis by (auto simp: run_inv_def)
    next
      case False
      with x above have "x \<in> led_done (tracker_ledger D t)" by (intro subsetD [OF above]) simp
      with assms show ?thesis by (auto simp: run_inv_def)
    qed
  qed
qed

lemma tracker_run_inv: "tracker_run D start t planned completed \<Longrightarrow> run_inv D start t planned completed"
proof (induction rule: tracker_run.induct)
  case (init A tp g)
  then show ?case
    by (simp add: run_inv_def wf_init ledger_init committed_init)
next
  case (fetch t planned completed x)
  then show ?case
    by (auto simp: run_inv_def wf_update_last_fetched ledger_update_last_fetched ledger_fetch_def)
next
  case (complete t planned completed x)
  then show ?case
    by (auto simp: run_inv_def wf_mark_complete ledger_mark_complete ledger_complete_def)
next
  case (plan t planned completed m)
  then show ?case
    using planned_safe [OF plan.IH, of m] by (simp add: run_inv_def)
next
  case (settle t planned completed h)
  then have wf: "tracker_wf D t" and safe: "{start..h} \<subseteq> completed"
    by (simp_all add: run_inv_def)
  show ?case
    by (rule run_inv_ledger_step [OF settle.IH wf_commit_through [OF wf]
          ledger_commit_through [OF wf] safe])
next
  case (advance t planned completed)
  then have wf: "tracker_wf D t" by (simp add: run_inv_def)
  show ?case
    unfolding advance_high_water_mark_def
    by (rule run_inv_ledger_step [OF advance.IH wf_commit_through [OF wf]
          ledger_commit_through [OF wf] planned_safe [OF advance.IH]])
next
  case (gaps t planned completed now)
  have "ot_last_committed_offset (snd (get_gaps D now t)) = ot_last_committed_offset t"
    by (rule committed_of_ledger) simp
  with gaps show ?case by (simp add: run_inv_def wf_get_gaps)
next
  case (epoch t planned completed)
  then show ?case by (simp add: run_inv_def wf_increment_epoch)
qed

end

section \<open>Properties\<close>

text \<open>A tracker with offsets 5 to 8 fetched, of which 5, 6 and 8 are completed.\<close>

definition sample_tracker :: "(int list, (gap_key \<times> offset_range list) option) offset_tracker" where
  "sample_tracker =
     fold (mark_complete list_containers) [6, 8, 5]
       (update_last_fetched_offset list_containers 8
         (offset_tracker_init list_containers (TopicPartition ''orders'' 0) 5 500 (Some {})))"

lemma sample_tracker_run: "tracker_run list_containers 5 sample_tracker {} {5, 6, 8}"
proof -
  have "tracker_run list_containers 5
      (update_last_fetched_offset list_containers 8
        (offset_tracker_init list_containers (TopicPartition ''orders'' 0) 5 500 (Some {}))) {} {}"
    by (intro tracker_run.fetch tracker_run.init) auto
  from tracker_run.complete [where x = 5, OF
      tracker_run.complete [where x = 8, OF tracker_run.complete [where x = 6, OF this]]]
  show ?thesis by (simp add: sample_tracker_def insert_commute)
qed

lemma sample_tracker_wf: "tracker_wf list_containers sample_tracker"
  using lc.tracker_run_inv [OF sample_tracker_run] by (simp add: run_inv_def)

text \<open>
  C1. No offset is ever committed before it was completed. Over every interleaving of
  fetches, completions, commit planning, commit settlement (possibly of a plan that is by
  then out of date), gap queries and epoch changes, every offset from the starting offset
  up to the committed offset has been completed, and the same holds for every commit
  candidate the tracker ever produced.
\<close>

theorem tracker_never_commits_incomplete:
  assumes "tracker_containers D" and "tracker_run D start t planned completed"
  shows "{start..ot_last_committed_offset t} \<subseteq> completed \<and>
    (\<forall>h\<in>planned. {start..h} \<subseteq> completed)"
  using tracker_containers.tracker_run_inv [OF assms] by (simp add: run_inv_def)

theorem tracker_never_commits_incomplete_witness:
  "{5..ot_last_committed_offset (commit_through list_containers 6 sample_tracker)}
     \<subseteq> {5, 6, 8::int} \<and>
   ot_last_committed_offset (commit_through list_containers 6 sample_tracker) = 6"
proof -
  have hwm: "get_committable_high_water_mark list_containers None sample_tracker = 6"
    by code_simp
  have "tracker_run list_containers 5 (commit_through list_containers 6 sample_tracker) {6} {5, 6, 8}"
    using tracker_run.settle [OF tracker_run.plan [OF sample_tracker_run, of None], of 6]
    by (simp add: hwm)
  from tracker_never_commits_incomplete [OF lc.tracker_containers_axioms this]
  have "{5..ot_last_committed_offset (commit_through list_containers 6 sample_tracker)}
     \<subseteq> {5, 6, 8::int}" by simp
  moreover have "ot_last_committed_offset (commit_through list_containers 6 sample_tracker) = 6"
    by code_simp
  ultimately show ?thesis by blast
qed

text \<open>
  C7. The commit candidate is exact: every offset above the committed one up to the
  candidate is completed; with no in-flight bound the candidate is maximal (the next offset
  is not completed) and never below the committed offset; with the lowest in-flight offset
  \<open>m\<close> it stays below \<open>m\<close> and is either the unbounded candidate or exactly \<open>m - 1\<close>.
\<close>

theorem committable_hwm_exact:
  assumes "tracker_containers D" and "tracker_wf D t"
  shows "{ot_last_committed_offset t<..get_committable_high_water_mark D m t}
      \<subseteq> set (ss_iter D (ot_completed_offsets t)) \<and>
    (case m of
       None \<Rightarrow> ot_last_committed_offset t \<le> get_committable_high_water_mark D m t \<and>
         get_committable_high_water_mark D m t + 1 \<notin> set (ss_iter D (ot_completed_offsets t))
     | Some x \<Rightarrow> get_committable_high_water_mark D m t < x \<and>
         get_committable_high_water_mark D m t \<in>
           {x - 1, get_committable_high_water_mark D None t})"
proof -
  note spec = tracker_containers.committable_None_spec [OF assms]
    tracker_containers.committable_contiguous [OF assms, of m]
  show ?thesis
  proof (cases m)
    case None
    with spec show ?thesis by (simp add: tracker_ledger_def)
  next
    case (Some x)
    with spec(4) show ?thesis
      by (simp add: tracker_ledger_def) (simp add: get_committable_high_water_mark_def Let_def)
  qed
qed

theorem committable_hwm_exact_witness:
  "tracker_wf list_containers sample_tracker \<and>
   get_committable_high_water_mark list_containers (Some 6) sample_tracker = 5 \<and>
   {4<..get_committable_high_water_mark list_containers (Some 6) sample_tracker} \<subseteq> {5, 6, 8}"
proof -
  have "ot_last_committed_offset sample_tracker = 4"
    and "ss_iter list_containers (ot_completed_offsets sample_tracker) = [5, 6, 8]"
    and "get_committable_high_water_mark list_containers (Some 6) sample_tracker = 5"
    by code_simp+
  then show ?thesis
    using committable_hwm_exact [OF lc.tracker_containers_axioms sample_tracker_wf, of "Some 6"]
      sample_tracker_wf
    by simp
qed

text \<open>
  C8. The reported gaps are exactly the missing offsets: whether answered from the
  one-entry cache or recomputed from the stored gap head, the returned ranges cover
  precisely the offsets after the committed one, up to the fetched one, that are not
  completed; they are non-empty, ascending and never adjacent (so the list is the shortest
  one); and the first reported gap starts at the head the scheduler asks for.
\<close>

theorem get_gaps_exact:
  assumes "tracker_containers D" and "tracker_wf D t"
  shows "(\<Union>g\<in>set (fst (get_gaps D now t)). range_offsets g) =
      {ot_last_committed_offset t<..ot_last_fetched_offset t}
        - set (ss_iter D (ot_completed_offsets t)) \<and>
    separated (fst (get_gaps D now t)) \<and>
    get_first_gap_head t =
      (case fst (get_gaps D now t) of [] \<Rightarrow> None | g # _ \<Rightarrow> Some (range_start g))"
proof -
  note gaps = tracker_containers.get_gaps_fst [OF assms]
  note spec = tracker_containers.fresh_gaps_spec [OF assms(1), of t]
  have head: "get_first_gap_head t = calculate_first_gap_head D t"
    using assms(2) by (simp add: get_first_gap_head_def tracker_wf_def)
  show ?thesis
    using spec tracker_containers.fresh_gaps_head [OF assms(1), of t]
    by (simp add: gaps head ledger_missing_def tracker_ledger_def)
qed

theorem get_gaps_exact_witness:
  "tracker_wf list_containers sample_tracker \<and>
   fst (get_gaps list_containers 10 sample_tracker) = [OffsetRange 7 7] \<and>
   get_first_gap_head sample_tracker = Some 7"
proof -
  have gaps: "fst (get_gaps list_containers 10 sample_tracker) = [OffsetRange 7 7]"
    by code_simp
  from get_gaps_exact [OF lc.tracker_containers_axioms sample_tracker_wf, of 10]
  have "get_first_gap_head sample_tracker = Some 7" by (simp add: gaps)
  with gaps show ?thesis using sample_tracker_wf by simp
qed



text \<open>
  C10. Progress: once every fetched offset is completed, advancing the high-water mark
  commits at least through the last fetched offset, and the gap head disappears.
\<close>

theorem advance_reaches_fetched:
  assumes "tracker_containers D" and "tracker_wf D t"
    and "{ot_last_committed_offset t<..ot_last_fetched_offset t}
      \<subseteq> set (ss_iter D (ot_completed_offsets t))"
  shows "ot_last_fetched_offset t \<le> ot_last_committed_offset (advance_high_water_mark D t) \<and>
    get_first_gap_head (advance_high_water_mark D t) = None"
proof -
  let ?h = "get_committable_high_water_mark D None t" and ?a = "advance_high_water_mark D t"
  note spec = tracker_containers.committable_None_spec [OF assms(1,2)]
  have reach: "ot_last_fetched_offset t \<le> ?h"
  proof (rule ccontr)
    assume "\<not> ot_last_fetched_offset t \<le> ?h"
    with spec(1) have "?h + 1 \<in> {ot_last_committed_offset t<..ot_last_fetched_offset t}" by simp
    from subsetD [OF assms(3) this] spec(3) show False by (simp add: tracker_ledger_def)
  qed
  have led: "tracker_ledger D ?a = ledger_commit ?h (tracker_ledger D t)"
    unfolding advance_high_water_mark_def
    by (rule tracker_containers.ledger_commit_through [OF assms(1,2)])
  have com: "ot_last_committed_offset ?a = ?h" and fet: "ot_last_fetched_offset ?a = ot_last_fetched_offset t"
    using spec(1) arg_cong [OF led, of led_committed] arg_cong [OF led, of led_fetched]
    by (auto simp: tracker_ledger_def ledger_commit_def split: if_splits)
  have "ledger_missing (tracker_ledger D ?a) = {}"
    using reach com fet by (simp add: ledger_missing_def tracker_ledger_def)
  moreover have "tracker_wf D ?a" by (rule tracker_containers.wf_advance [OF assms(1,2)])
  ultimately have "get_first_gap_head ?a = None"
    by (simp add: get_first_gap_head_def tracker_wf_def
        tracker_containers.first_gap_head_eq [OF assms(1)])
  with reach com show ?thesis by simp
qed

theorem advance_reaches_fetched_witness:
  "ot_last_committed_offset
     (advance_high_water_mark list_containers (mark_complete list_containers 7 sample_tracker)) = 8"
proof -
  let ?t = "mark_complete list_containers 7 sample_tracker"
  have wf: "tracker_wf list_containers ?t"
    by (rule lc.wf_mark_complete [OF sample_tracker_wf])
  have vals: "ot_last_committed_offset ?t = 4" "ot_last_fetched_offset ?t = 8"
    "ss_iter list_containers (ot_completed_offsets ?t) = [5, 6, 7, 8]"
    by code_simp+
  have "{4<..8} = set [5..(8::int)]" by auto
  moreover have "[5..8] = [5, 6, 7, 8::int]" by code_simp
  ultimately have "8 \<le> ot_last_committed_offset (advance_high_water_mark list_containers ?t)"
    using advance_reaches_fetched [OF lc.tracker_containers_axioms wf] vals by simp
  moreover have "ot_last_committed_offset (advance_high_water_mark list_containers ?t) \<le> 8"
    by code_simp
  ultimately show ?thesis by simp
qed

end
