(* ===== verification/Work_Queue_Topology.thy ===== *)
theory Work_Queue_Topology
  imports Dto
begin

text \<open>
  \<open>control_plane/work_queue_topology.py\<close>: the per-key virtual queues, the FIFO of runnable
  queue keys, and the index from queue-head offsets to queue keys.

  \<open>RunnableQueueKeys\<close> wraps an \<open>OrderedDict\<close> whose values are all \<open>None\<close>; it is the list of
  its keys. A virtual queue is an unbounded \<open>asyncio.Queue\<close>, used only through non-blocking
  calls: the list of its items. Mutating a queue object in place is \<open>put_queue\<close>. Fallible
  operations return the error or the result together with the state at that point.

  The lemmas describe every operation by its effect on the contents \<open>queue_items\<close> and on an
  invariant \<open>topo_inv K\<close>, where \<open>K\<close> are the keys the scheduler currently holds (picked or
  deferred). The locale \<open>keyed_queues\<close> is the interface the scheduler relies on.
\<close>

section \<open>Runnable queue keys\<close>

type_synonym 'k runnable_keys = "'k queue_key list"

definition rqk_append :: "'k queue_key \<Rightarrow> 'k runnable_keys \<Rightarrow> 'k runnable_keys" where
  "rqk_append q ordered = (if q \<in> set ordered then ordered else ordered @ [q])"

definition rqk_discard :: "'k queue_key \<Rightarrow> 'k runnable_keys \<Rightarrow> 'k runnable_keys" where
  "rqk_discard q ordered = removeAll q ordered"

definition rqk_popleft :: "'k runnable_keys \<Rightarrow> (py_error + 'k queue_key) \<times> 'k runnable_keys" where
  "rqk_popleft ordered = (case ordered of [] \<Rightarrow> (Inl KeyError, []) | q # rest \<Rightarrow> (Inr q, rest))"

definition rqk_clear :: "'k runnable_keys \<Rightarrow> 'k runnable_keys" where
  "rqk_clear ordered = []"

definition rqk_extend :: "'k queue_key list \<Rightarrow> 'k runnable_keys \<Rightarrow> 'k runnable_keys" where
  "rqk_extend queue_keys ordered = fold rqk_append queue_keys ordered"

definition rqk_count :: "'k queue_key \<Rightarrow> 'k runnable_keys \<Rightarrow> int" where
  "rqk_count q ordered = (if q \<in> set ordered then 1 else 0)"

section \<open>The topology\<close>

type_synonym ('k, 'p) virtual_queue = "('k, 'p) work_item list"

record ('k, 'p) topology =
  virtual_partition_queues :: "(topic_partition, ('k, ('k, 'p) virtual_queue) dict) dict"
  runnable_queue_keys :: "'k runnable_keys"
  active_runnable_queue_keys :: "'k queue_key set"
  head_offsets :: "('k queue_key, int) dict"
  head_queue_keys_by_offset :: "(topic_partition \<times> int, 'k queue_key) dict"

definition topology_init :: "('k, 'p) topology" where
  "topology_init =
     \<lparr>virtual_partition_queues = [], runnable_queue_keys = [],
      active_runnable_queue_keys = {}, head_offsets = [], head_queue_keys_by_offset = []\<rparr>"

definition peek_queue :: "('k, 'p) virtual_queue \<Rightarrow> py_error + ('k, 'p) work_item" where
  "peek_queue queue = (case queue of [] \<Rightarrow> Inl IndexError | w # _ \<Rightarrow> Inr w)"

definition peek_queue_batch :: "('k, 'p) virtual_queue \<Rightarrow> int \<Rightarrow> ('k, 'p) work_item list" where
  "peek_queue_batch queue limit = (if limit \<le> 0 then [] else take (nat limit) queue)"

definition enqueue_work_items ::
  "('k, 'p) work_item list \<Rightarrow> ('k, 'p) virtual_queue \<Rightarrow> ('k, 'p) virtual_queue" where
  "enqueue_work_items work_items queue =
     (case work_items of [] \<Rightarrow> queue | [w] \<Rightarrow> queue @ [w] | _ \<Rightarrow> queue @ work_items)"

definition assign :: "topic_partition \<Rightarrow> ('k, 'p) topology \<Rightarrow> ('k, 'p) topology" where
  "assign tp T =
     T\<lparr>virtual_partition_queues := dict_set tp [] (virtual_partition_queues T)\<rparr>"

definition get_queue ::
  "topic_partition \<Rightarrow> 'k \<Rightarrow> ('k, 'p) topology \<Rightarrow> ('k, 'p) virtual_queue option" where
  "get_queue tp key T =
     (case dict_get (virtual_partition_queues T) tp of
        None \<Rightarrow> None | Some queues \<Rightarrow> dict_get queues key)"

definition put_queue ::
  "topic_partition \<Rightarrow> 'k \<Rightarrow> ('k, 'p) virtual_queue \<Rightarrow> ('k, 'p) topology \<Rightarrow> ('k, 'p) topology" where
  "put_queue tp key queue T =
     (case dict_get (virtual_partition_queues T) tp of
        None \<Rightarrow> T
      | Some queues \<Rightarrow>
          T\<lparr>virtual_partition_queues :=
              dict_set tp (dict_set key queue queues) (virtual_partition_queues T)\<rparr>)"

definition ensure_queue ::
  "topic_partition \<Rightarrow> 'k \<Rightarrow> ('k, 'p) topology
    \<Rightarrow> (py_error + ('k, 'p) virtual_queue) \<times> ('k, 'p) topology" where
  "ensure_queue tp key T =
     (case get_queue tp key T of
        Some queue \<Rightarrow> (Inr queue, T)
      | None \<Rightarrow>
          if dict_has (virtual_partition_queues T) tp then (Inr [], put_queue tp key [] T)
          else (Inl KeyError, T))"

definition deactivate_queue_key ::
  "'k queue_key \<Rightarrow> ('k, 'p) topology \<Rightarrow> ('k, 'p) topology" where
  "deactivate_queue_key queue_key T =
     T\<lparr>active_runnable_queue_keys := active_runnable_queue_keys T - {queue_key},
       head_offsets := dict_pop queue_key (head_offsets T),
       head_queue_keys_by_offset :=
         (case dict_get (head_offsets T) queue_key of
            None \<Rightarrow> head_queue_keys_by_offset T
          | Some head_offset \<Rightarrow>
              dict_pop (fst queue_key, head_offset) (head_queue_keys_by_offset T)),
       runnable_queue_keys := rqk_discard queue_key (runnable_queue_keys T)\<rparr>"

definition activate_queue_key ::
  "'k queue_key \<Rightarrow> ('k, 'p) topology \<Rightarrow> ('k, 'p) topology" where
  "activate_queue_key queue_key T =
     (if queue_key \<notin> active_runnable_queue_keys T then
        T\<lparr>runnable_queue_keys := rqk_append queue_key (runnable_queue_keys T),
          active_runnable_queue_keys := insert queue_key (active_runnable_queue_keys T)\<rparr>
      else T)"

definition cleanup_empty_queue ::
  "topic_partition \<Rightarrow> 'k \<Rightarrow> ('k, 'p) topology \<Rightarrow> ('k, 'p) topology" where
  "cleanup_empty_queue tp key T =
     (case dict_get (virtual_partition_queues T) tp of
        None \<Rightarrow> T
      | Some queues \<Rightarrow>
          if queues = [] then T
          else if dict_get queues key = Some [] then
            (deactivate_queue_key (tp, key) T)
              \<lparr>virtual_partition_queues :=
                 dict_set tp (dict_pop key queues) (virtual_partition_queues T)\<rparr>
          else T)"

definition refresh_queue_head ::
  "topic_partition \<Rightarrow> 'k \<Rightarrow> ('k, 'p) virtual_queue \<Rightarrow> ('k, 'p) topology \<Rightarrow> ('k, 'p) topology" where
  "refresh_queue_head tp key queue T =
     (let T1 = deactivate_queue_key (tp, key) T
      in case peek_queue queue of
           Inl _ \<Rightarrow> T1
         | Inr w \<Rightarrow>
             activate_queue_key (tp, key)
               (T1\<lparr>head_offsets := dict_set (tp, key) (wi_offset w) (head_offsets T1),
                   head_queue_keys_by_offset :=
                     dict_set (tp, wi_offset w) (tp, key) (head_queue_keys_by_offset T1)\<rparr>))"

definition revoke :: "topic_partition \<Rightarrow> ('k, 'p) topology \<Rightarrow> int \<times> ('k, 'p) topology" where
  "revoke tp T =
     (let queues = (case dict_get (virtual_partition_queues T) tp of None \<Rightarrow> [] | Some m \<Rightarrow> m);
          removed_count = int (\<Sum>(key, queue)\<leftarrow>queues. length queue);
          T1 = fold (\<lambda>key. deactivate_queue_key (tp, key)) (dict_keys queues) T
      in (removed_count,
          T1\<lparr>virtual_partition_queues := dict_pop tp (virtual_partition_queues T1)\<rparr>))"

definition enqueue_batch ::
  "topic_partition \<Rightarrow> 'k \<Rightarrow> ('k, 'p) work_item list \<Rightarrow> ('k, 'p) topology
    \<Rightarrow> (py_error + unit) \<times> ('k, 'p) topology" where
  "enqueue_batch tp key work_items T =
     (case ensure_queue tp key T of
        (Inl e, T1) \<Rightarrow> (Inl e, T1)
      | (Inr queue, T1) \<Rightarrow>
          let was_empty = (queue = []);
              queue' = enqueue_work_items work_items queue;
              T2 = put_queue tp key queue' T1
          in (Inr (), if was_empty \<and> queue' \<noteq> [] then refresh_queue_head tp key queue' T2 else T2))"

section \<open>Picking a queue\<close>

text \<open>The loop over the blocking offsets, with \<open>best\<close> the best key and offset so far.\<close>

fun best_blocking ::
  "('k queue_key \<Rightarrow> bool) \<Rightarrow> ('k, 'p) topology \<Rightarrow> ('k queue_key \<times> int) option
    \<Rightarrow> (topic_partition, offset_range option) dict \<Rightarrow> ('k queue_key \<times> int) option" where
  "best_blocking eligible T best [] = best"
| "best_blocking eligible T best ((tp, None) # rest) = best_blocking eligible T best rest"
| "best_blocking eligible T best ((tp, Some gap) # rest) =
     (case dict_get (head_queue_keys_by_offset T) (tp, range_start gap) of
        None \<Rightarrow> best_blocking eligible T best rest
      | Some queue_key \<Rightarrow>
          if queue_key \<notin> active_runnable_queue_keys T then best_blocking eligible T best rest
          else if \<not> eligible queue_key then best_blocking eligible T best rest
          else
            best_blocking eligible T
              (case best of
                 None \<Rightarrow> Some (queue_key, range_start gap)
               | Some (best_key, best_offset) \<Rightarrow>
                   if range_start gap < best_offset then Some (queue_key, range_start gap) else best)
              rest)"

definition pick_blocking_queue_key ::
  "(topic_partition, offset_range option) dict \<Rightarrow> ('k queue_key \<Rightarrow> bool) \<Rightarrow> ('k, 'p) topology
    \<Rightarrow> 'k queue_key option \<times> ('k, 'p) topology" where
  "pick_blocking_queue_key blocking_offsets eligible T =
     (case best_blocking eligible T None blocking_offsets of
        None \<Rightarrow> (None, T)
      | Some (queue_key, _) \<Rightarrow>
          (Some queue_key,
           T\<lparr>runnable_queue_keys := rqk_discard queue_key (runnable_queue_keys T),
             active_runnable_queue_keys := active_runnable_queue_keys T - {queue_key}\<rparr>))"

fun pick_next_loop ::
  "nat \<Rightarrow> ('k queue_key \<Rightarrow> bool) \<Rightarrow> ('k, 'p) topology
    \<Rightarrow> (py_error + 'k queue_key option) \<times> ('k, 'p) topology" where
  "pick_next_loop 0 eligible T = (Inr None, T)"
| "pick_next_loop (Suc attempts) eligible T =
     (case rqk_popleft (runnable_queue_keys T) of
        (Inl e, ordered) \<Rightarrow> (Inl e, T\<lparr>runnable_queue_keys := ordered\<rparr>)
      | (Inr queue_key, ordered) \<Rightarrow>
          let T1 = T\<lparr>runnable_queue_keys := ordered\<rparr>
          in if queue_key \<notin> active_runnable_queue_keys T1 then pick_next_loop attempts eligible T1
             else
               (case get_queue (fst queue_key) (snd queue_key) T1 of
                  None \<Rightarrow> pick_next_loop attempts eligible (deactivate_queue_key queue_key T1)
                | Some queue \<Rightarrow>
                    if queue = [] then
                      pick_next_loop attempts eligible (deactivate_queue_key queue_key T1)
                    else if \<not> eligible queue_key then
                      pick_next_loop attempts eligible
                        (T1\<lparr>runnable_queue_keys := rqk_append queue_key (runnable_queue_keys T1)\<rparr>)
                    else
                      (Inr (Some queue_key),
                       T1\<lparr>active_runnable_queue_keys :=
                            active_runnable_queue_keys T1 - {queue_key}\<rparr>)))"

definition pick_next_runnable_queue_key ::
  "('k queue_key \<Rightarrow> bool) \<Rightarrow> ('k, 'p) topology
    \<Rightarrow> (py_error + 'k queue_key option) \<times> ('k, 'p) topology" where
  "pick_next_runnable_queue_key eligible T =
     pick_next_loop (length (runnable_queue_keys T)) eligible T"

definition pop_next_queue_key ::
  "(topic_partition, offset_range option) dict \<Rightarrow> ('k queue_key \<Rightarrow> bool) \<Rightarrow> ('k, 'p) topology
    \<Rightarrow> (py_error + 'k queue_key option) \<times> ('k, 'p) topology" where
  "pop_next_queue_key blocking_offsets eligible T =
     (case pick_blocking_queue_key blocking_offsets eligible T of
        (Some queue_key, T1) \<Rightarrow> (Inr (Some queue_key), T1)
      | (None, T1) \<Rightarrow> pick_next_runnable_queue_key eligible T1)"

section \<open>Dequeueing\<close>

definition settle_queue ::
  "topic_partition \<Rightarrow> 'k \<Rightarrow> ('k, 'p) virtual_queue \<Rightarrow> ('k, 'p) topology \<Rightarrow> ('k, 'p) topology" where
  "settle_queue tp key queue T =
     (if queue = [] then cleanup_empty_queue tp key T else refresh_queue_head tp key queue T)"

definition dequeue_submitted_item ::
  "topic_partition \<Rightarrow> 'k \<Rightarrow> ('k, 'p) topology
    \<Rightarrow> ('k, 'p) work_item option \<times> ('k, 'p) topology" where
  "dequeue_submitted_item tp key T =
     (case get_queue tp key T of
        None \<Rightarrow> (None, deactivate_queue_key (tp, key) T)
      | Some [] \<Rightarrow> (None, deactivate_queue_key (tp, key) T)
      | Some (work_item # queue) \<Rightarrow>
          (Some work_item, settle_queue tp key queue (put_queue tp key queue T)))"

definition dequeue_submitted_items ::
  "topic_partition \<Rightarrow> 'k \<Rightarrow> int \<Rightarrow> ('k, 'p) topology
    \<Rightarrow> ('k, 'p) work_item list \<times> ('k, 'p) topology" where
  "dequeue_submitted_items tp key count T =
     (if count \<le> 0 then ([], T)
      else
        case get_queue tp key T of
          None \<Rightarrow> ([], deactivate_queue_key (tp, key) T)
        | Some [] \<Rightarrow> ([], deactivate_queue_key (tp, key) T)
        | Some queue \<Rightarrow>
            let work_items = take (nat count) queue; queue' = drop (nat count) queue
            in (work_items, settle_queue tp key queue' (put_queue tp key queue' T)))"

definition get_virtual_queue_sizes ::
  "('k, 'p) topology \<Rightarrow> (topic_partition, ('k, int) dict) dict" where
  "get_virtual_queue_sizes T =
     map (\<lambda>(tp, queue_map). (tp, map (\<lambda>(key, queue). (key, int (length queue))) queue_map))
       (virtual_partition_queues T)"

section \<open>Queue contents\<close>

definition queue_items :: "('k, 'p) topology \<Rightarrow> 'k queue_key \<Rightarrow> ('k, 'p) work_item list" where
  "queue_items T q = (case get_queue (fst q) (snd q) T of None \<Rightarrow> [] | Some queue \<Rightarrow> queue)"

definition assigned :: "('k, 'p) topology \<Rightarrow> topic_partition \<Rightarrow> bool" where
  "assigned T tp \<longleftrightarrow> dict_has (virtual_partition_queues T) tp"

definition queues_size :: "('k, ('k, 'p) virtual_queue) dict \<Rightarrow> nat" where
  "queues_size queues = (\<Sum>(key, queue)\<leftarrow>queues. length queue)"

definition total_queued :: "('k, 'p) topology \<Rightarrow> nat" where
  "total_queued T = (\<Sum>(tp, queues)\<leftarrow>virtual_partition_queues T. queues_size queues)"

lemmas topo_defs = queue_items_def get_queue_def put_queue_def assigned_def

lemma get_queue_frame:
  "virtual_partition_queues T' = virtual_partition_queues T \<Longrightarrow> get_queue tp k T' = get_queue tp k T"
  by (simp add: get_queue_def)

lemma queue_items_frame:
  "virtual_partition_queues T' = virtual_partition_queues T \<Longrightarrow> queue_items T' = queue_items T"
  by (simp add: queue_items_def get_queue_def fun_eq_iff)

lemma assigned_frame:
  "virtual_partition_queues T' = virtual_partition_queues T \<Longrightarrow> assigned T' = assigned T"
  by (simp add: assigned_def fun_eq_iff)

lemma vpq_deactivate [simp]:
  "virtual_partition_queues (deactivate_queue_key q T) = virtual_partition_queues T"
  by (simp add: deactivate_queue_key_def)

lemma vpq_activate [simp]:
  "virtual_partition_queues (activate_queue_key q T) = virtual_partition_queues T"
  by (simp add: activate_queue_key_def)

lemma vpq_refresh [simp]:
  "virtual_partition_queues (refresh_queue_head tp k queue T) = virtual_partition_queues T"
  by (simp add: refresh_queue_head_def Let_def split: sum.splits)

lemma vpq_pick_blocking [simp]:
  "virtual_partition_queues (snd (pick_blocking_queue_key b e T)) = virtual_partition_queues T"
  by (auto simp: pick_blocking_queue_key_def split: option.splits)

lemma vpq_pick_next_loop [simp]:
  "virtual_partition_queues (snd (pick_next_loop n e T)) = virtual_partition_queues T"
  by (induction n arbitrary: T) (auto simp: Let_def split: prod.splits sum.splits option.splits)

lemma vpq_pop_next [simp]:
  "virtual_partition_queues (snd (pop_next_queue_key b e T)) = virtual_partition_queues T"
  by (auto simp: pop_next_queue_key_def pick_next_runnable_queue_key_def pick_blocking_queue_key_def
      split: option.splits)

lemmas topo_frames =
  queue_items_frame[OF vpq_deactivate] queue_items_frame[OF vpq_activate]
  queue_items_frame[OF vpq_refresh] queue_items_frame[OF vpq_pick_blocking]
  queue_items_frame[OF vpq_pick_next_loop] queue_items_frame[OF vpq_pop_next]
  assigned_frame[OF vpq_deactivate] assigned_frame[OF vpq_activate]
  assigned_frame[OF vpq_refresh] assigned_frame[OF vpq_pick_blocking]
  assigned_frame[OF vpq_pick_next_loop] assigned_frame[OF vpq_pop_next]

declare topo_frames [simp]

lemma queue_items_update [simp]:
  "queue_items (T\<lparr>runnable_queue_keys := x0\<rparr>) = queue_items T"
  "queue_items (T\<lparr>active_runnable_queue_keys := x1\<rparr>) = queue_items T"
  "queue_items (T\<lparr>head_offsets := x2\<rparr>) = queue_items T"
  "queue_items (T\<lparr>head_queue_keys_by_offset := x3\<rparr>) = queue_items T"
  by (rule queue_items_frame; simp)+

lemma assigned_update [simp]:
  "assigned (T\<lparr>runnable_queue_keys := x0\<rparr>) = assigned T"
  "assigned (T\<lparr>active_runnable_queue_keys := x1\<rparr>) = assigned T"
  "assigned (T\<lparr>head_offsets := x2\<rparr>) = assigned T"
  "assigned (T\<lparr>head_queue_keys_by_offset := x3\<rparr>) = assigned T"
  by (rule assigned_frame; simp)+

lemma get_queue_put:
  "get_queue tp' k' (put_queue tp k queue T) =
     (if (tp', k') = (tp, k) \<and> assigned T tp then Some queue else get_queue tp' k' T)"
  by (auto simp: topo_defs dict_simps split: option.splits)

lemma queue_items_put:
  "assigned T tp \<Longrightarrow> queue_items (put_queue tp k queue T) = (queue_items T)((tp, k) := queue)"
  by (auto simp: queue_items_def get_queue_put fun_eq_iff)

lemma assigned_put [simp]: "assigned (put_queue tp k queue T) = assigned T"
  by (auto simp: topo_defs dict_simps fun_eq_iff split: option.splits)

lemma get_queue_assigned: "get_queue tp k T = Some queue \<Longrightarrow> assigned T tp"
  by (auto simp: topo_defs dict_simps split: option.splits)

lemma queue_items_assigned: "queue_items T (tp, k) \<noteq> [] \<Longrightarrow> assigned T tp"
  by (auto simp: queue_items_def get_queue_assigned split: option.splits)

section \<open>Sizes\<close>

lemma queues_size_Cons [simp]: "queues_size ((k, q) # m) = length q + queues_size m"
  by (simp add: queues_size_def)

lemma queues_size_Nil [simp]: "queues_size [] = 0"
  by (simp add: queues_size_def)

lemma queues_size_set:
  "queues_size (dict_set k q m) + length (case dict_get m k of None \<Rightarrow> [] | Some q' \<Rightarrow> q')
   = queues_size m + length q"
  by (induction m) auto

lemma queues_size_pop_empty: "dict_get m k = Some [] \<Longrightarrow> dict_wf m \<Longrightarrow> queues_size (dict_pop k m) = queues_size m"
  by (induction m) (auto simp: dict_wf_def delete_idem split: if_splits)

lemma sum_dict_set:
  fixes f :: "'v \<Rightarrow> nat"
  shows "(\<Sum>(k, v)\<leftarrow>dict_set k v d. f v) + (case dict_get d k of None \<Rightarrow> 0 | Some v' \<Rightarrow> f v')
         = (\<Sum>(k, v)\<leftarrow>d. f v) + f v"
  by (induction d) auto

lemma sum_dict_pop:
  fixes f :: "'v \<Rightarrow> nat"
  shows "dict_wf d \<Longrightarrow> (\<Sum>(k, v)\<leftarrow>dict_pop k d. f v) + (case dict_get d k of None \<Rightarrow> 0 | Some v' \<Rightarrow> f v')
         = (\<Sum>(k, v)\<leftarrow>d. f v)"
proof (induction d)
  case (Cons a d)
  then show ?case by (cases a) (auto simp: dict_wf_def delete_idem map_of_eq_None_iff split: option.splits)
qed simp

lemma total_put:
  assumes "assigned T tp"
  shows "total_queued (put_queue tp k queue T) + length (queue_items T (tp, k))
         = total_queued T + length queue"
proof -
  obtain m where m: "dict_get (virtual_partition_queues T) tp = Some m"
    using assms by (auto simp: assigned_def dict_simps)
  show ?thesis
    using sum_dict_set[of queues_size tp "dict_set k queue m" "virtual_partition_queues T"]
      queues_size_set[of k queue m]
    by (auto simp: total_queued_def put_queue_def queue_items_def get_queue_def m split: option.splits)
qed

lemma total_frame:
  "virtual_partition_queues T' = virtual_partition_queues T \<Longrightarrow> total_queued T' = total_queued T"
  by (simp add: total_queued_def)

lemmas total_frames [simp] =
  total_frame[OF vpq_deactivate] total_frame[OF vpq_activate] total_frame[OF vpq_refresh]
  total_frame[OF vpq_pick_blocking] total_frame[OF vpq_pick_next_loop] total_frame[OF vpq_pop_next]

section \<open>The invariant\<close>

text \<open>
  \<open>K\<close> holds the keys the scheduler has taken out of the runnable list and not yet given back.
  Every other key is runnable exactly when its queue is non-empty, and its recorded head is
  the offset at the front of its queue. Index entries are sound. \<open>dict_wf\<close> keeps dictionaries
  free of duplicate keys.
\<close>

definition head_of :: "('k, 'p) work_item list \<Rightarrow> int option" where
  "head_of queue = (case queue of [] \<Rightarrow> None | w # _ \<Rightarrow> Some (wi_offset w))"

definition queues_wf :: "('k, 'p) topology \<Rightarrow> bool" where
  "queues_wf T \<longleftrightarrow> dict_wf (virtual_partition_queues T) \<and>
     (\<forall>tp queues. dict_get (virtual_partition_queues T) tp = Some queues \<longrightarrow> dict_wf queues)"

definition topo_inv :: "'k queue_key set \<Rightarrow> ('k, 'p) topology \<Rightarrow> bool" where
  "topo_inv K T \<longleftrightarrow>
     queues_wf T \<and>
     distinct (runnable_queue_keys T) \<and>
     set (runnable_queue_keys T) = active_runnable_queue_keys T \<and>
     active_runnable_queue_keys T \<inter> K = {} \<and>
     (\<forall>q. q \<notin> K \<longrightarrow> (q \<in> active_runnable_queue_keys T \<longleftrightarrow> queue_items T q \<noteq> []) \<and>
        dict_get (head_offsets T) q = head_of (queue_items T q)) \<and>
     (\<forall>tp offset q. dict_get (head_queue_keys_by_offset T) (tp, offset) = Some q \<longrightarrow>
        fst q = tp \<and> dict_get (head_offsets T) q = Some offset)"

lemma topo_invD:
  assumes "topo_inv K T"
  shows "queues_wf T" "distinct (runnable_queue_keys T)"
    "set (runnable_queue_keys T) = active_runnable_queue_keys T"
    "active_runnable_queue_keys T \<inter> K = {}"
    "q \<notin> K \<Longrightarrow> q \<in> active_runnable_queue_keys T \<longleftrightarrow> queue_items T q \<noteq> []"
    "q \<notin> K \<Longrightarrow> dict_get (head_offsets T) q = head_of (queue_items T q)"
    "dict_get (head_queue_keys_by_offset T) (tp, offset) = Some q \<Longrightarrow> fst q = tp"
    "dict_get (head_queue_keys_by_offset T) (tp, offset) = Some q
       \<Longrightarrow> dict_get (head_offsets T) q = Some offset"
    "q \<in> active_runnable_queue_keys T \<Longrightarrow> q \<notin> K"
  using assms unfolding topo_inv_def by blast+

lemma topo_invI:
  assumes "queues_wf T" "distinct (runnable_queue_keys T)"
    "set (runnable_queue_keys T) = active_runnable_queue_keys T"
    "active_runnable_queue_keys T \<inter> K = {}"
    "\<And>q. q \<notin> K \<Longrightarrow> q \<in> active_runnable_queue_keys T \<longleftrightarrow> queue_items T q \<noteq> []"
    "\<And>q. q \<notin> K \<Longrightarrow> dict_get (head_offsets T) q = head_of (queue_items T q)"
    "\<And>tp offset q. dict_get (head_queue_keys_by_offset T) (tp, offset) = Some q
       \<Longrightarrow> fst q = tp \<and> dict_get (head_offsets T) q = Some offset"
  shows "topo_inv K T"
  using assms unfolding topo_inv_def by blast

lemma head_of_simps [simp]: "head_of [] = None" "head_of (w # ws) = Some (wi_offset w)"
  by (simp_all add: head_of_def)

lemma head_of_append: "ws \<noteq> [] \<Longrightarrow> head_of (ws @ vs) = head_of ws"
  by (cases ws) simp_all

lemma head_of_eq_Some: "head_of ws = Some n \<longleftrightarrow> (\<exists>w vs. ws = w # vs \<and> wi_offset w = n)"
  by (cases ws) auto

lemma queues_wf_frame:
  "virtual_partition_queues T' = virtual_partition_queues T \<Longrightarrow> queues_wf T' = queues_wf T"
  by (simp add: queues_wf_def)

lemma queues_wf_put [simp]: "queues_wf T \<Longrightarrow> queues_wf (put_queue tp k queue T)"
  by (auto simp: queues_wf_def put_queue_def dict_simps split: option.splits if_splits)

lemma topo_inv_init [simp]: "topo_inv {} topology_init"
  by (simp add: topo_inv_def topology_init_def queues_wf_def queue_items_def get_queue_def)

lemma put_queue_frame [simp]:
  "runnable_queue_keys (put_queue tp k queue T) = runnable_queue_keys T"
  "active_runnable_queue_keys (put_queue tp k queue T) = active_runnable_queue_keys T"
  "head_offsets (put_queue tp k queue T) = head_offsets T"
  "head_queue_keys_by_offset (put_queue tp k queue T) = head_queue_keys_by_offset T"
  by (simp_all add: put_queue_def split: option.splits)

lemma topo_inv_hold:
  "topo_inv K T \<Longrightarrow> q \<notin> active_runnable_queue_keys T \<Longrightarrow> topo_inv (insert q K) T"
  by (auto simp: topo_inv_def)

lemma topo_inv_put_held:
  "topo_inv K T \<Longrightarrow> (tp, k) \<in> K \<Longrightarrow> topo_inv K (put_queue tp k queue T)"
  by (cases "assigned T tp")
    (auto simp: topo_inv_def queue_items_put queue_items_def get_queue_put)

lemma topo_inv_put_same_head:
  assumes "topo_inv K T" "assigned T tp" "head_of queue = head_of (queue_items T (tp, k))"
  shows "topo_inv K (put_queue tp k queue T)"
proof -
  have "queue = [] \<longleftrightarrow> queue_items T (tp, k) = []"
    using assms(3) by (cases queue; cases "queue_items T (tp, k)") simp_all
  then show ?thesis
    using assms by (simp add: topo_inv_def queue_items_put)
qed

lemma deactivate_sets [simp]:
  "active_runnable_queue_keys (deactivate_queue_key q T) = active_runnable_queue_keys T - {q}"
  "runnable_queue_keys (deactivate_queue_key q T) = removeAll q (runnable_queue_keys T)"
  "head_offsets (deactivate_queue_key q T) = dict_pop q (head_offsets T)"
  by (simp_all add: deactivate_queue_key_def rqk_discard_def)

lemma index_deactivate:
  "dict_get (head_queue_keys_by_offset (deactivate_queue_key q T)) p =
     (if dict_get (head_offsets T) q = Some (snd p) \<and> fst p = fst q then None
      else dict_get (head_queue_keys_by_offset T) p)"
  by (cases p) (auto simp: deactivate_queue_key_def dict_simps split: option.splits)

lemma topo_inv_deactivate:
  assumes "topo_inv K T"
  shows "topo_inv (insert q K) (deactivate_queue_key q T)"
proof (rule topo_invI)
  show "queues_wf (deactivate_queue_key q T)"
    using topo_invD(1)[OF assms] by (simp add: queues_wf_def)
  show "fst q' = tp \<and> dict_get (head_offsets (deactivate_queue_key q T)) q' = Some n"
    if "dict_get (head_queue_keys_by_offset (deactivate_queue_key q T)) (tp, n) = Some q'" for tp n q'
    using that topo_invD(7,8)[OF assms, of tp n q']
    by (auto simp: index_deactivate dict_simps split: if_splits)
qed (use topo_invD[OF assms] in \<open>auto simp: dict_simps distinct_removeAll\<close>)

lemma topo_inv_release_empty:
  assumes "topo_inv K T" "queue_items T q = []" "q \<notin> active_runnable_queue_keys T"
    "dict_get (head_offsets T) q = None"
  shows "topo_inv (K - {q}) T"
  using assms unfolding topo_inv_def by auto

lemma topo_inv_deactivate_empty:
  assumes "topo_inv K T" "queue_items T q = []"
  shows "topo_inv (K - {q}) (deactivate_queue_key q T)"
proof -
  have "topo_inv (insert q K - {q}) (deactivate_queue_key q T)"
    by (rule topo_inv_release_empty[OF topo_inv_deactivate[OF assms(1)]]) (simp_all add: assms(2) dict_simps)
  then show ?thesis by simp
qed

text \<open>Recording a fresh head and activating the key gives it back to the runnable list.\<close>

lemma topo_inv_record_head:
  assumes "topo_inv K T" "q = (tp, k)" "q \<in> K" "queue_items T q = w # ws"
    "dict_get (head_offsets T) q = None"
  shows "topo_inv (K - {q})
    (activate_queue_key q
      (T\<lparr>head_offsets := dict_set q (wi_offset w) (head_offsets T),
        head_queue_keys_by_offset := dict_set (tp, wi_offset w) q (head_queue_keys_by_offset T)\<rparr>))"
    (is "topo_inv _ ?T")
proof -
  note inv = topo_invD[OF assms(1)]
  have q: "q \<notin> active_runnable_queue_keys T" "q \<notin> set (runnable_queue_keys T)"
    using inv(3,4) assms(3) by auto
  have vpq: "virtual_partition_queues ?T = virtual_partition_queues T"
    by simp
  have sets: "runnable_queue_keys ?T = runnable_queue_keys T @ [q]"
    "active_runnable_queue_keys ?T = insert q (active_runnable_queue_keys T)"
    "head_offsets ?T = dict_set q (wi_offset w) (head_offsets T)"
    "head_queue_keys_by_offset ?T = dict_set (tp, wi_offset w) q (head_queue_keys_by_offset T)"
    using q by (simp_all add: activate_queue_key_def rqk_append_def)
  have fq: "fst q = tp" using assms(2) by simp
  show ?thesis
  proof (rule topo_invI)
    show "fst q' = tp' \<and> dict_get (head_offsets ?T) q' = Some n"
      if "dict_get (head_queue_keys_by_offset ?T) (tp', n) = Some q'" for tp' n q'
      using that inv(7,8)[of tp' n q'] fq assms(5)
      by (auto simp: sets dict_simps split: if_splits)
    show "q' \<in> active_runnable_queue_keys ?T \<longleftrightarrow> queue_items ?T q' \<noteq> []" if "q' \<notin> K - {q}" for q'
      using inv(5)[of q'] that assms(4) by (auto simp: sets)
    show "dict_get (head_offsets ?T) q' = head_of (queue_items ?T q')" if "q' \<notin> K - {q}" for q'
      using inv(6)[of q'] that assms(4) by (auto simp: sets dict_simps)
  qed (use inv(1-4) q assms(3) in \<open>auto simp: sets queues_wf_frame[OF vpq]\<close>)
qed

lemma topo_inv_refresh:
  assumes "topo_inv K T" "queue = queue_items T (tp, k)"
  shows "topo_inv (K - {(tp, k)}) (refresh_queue_head tp k queue T)"
proof (cases queue)
  case Nil
  then show ?thesis
    using assms by (simp add: refresh_queue_head_def peek_queue_def topo_inv_deactivate_empty)
next
  case (Cons w ws)
  have "topo_inv (insert (tp, k) K - {(tp, k)}) (refresh_queue_head tp k queue T)"
    unfolding refresh_queue_head_def Let_def Cons peek_queue_def list.case sum.case
    by (rule topo_inv_record_head[OF topo_inv_deactivate[OF assms(1)], where ws = ws])
      (use assms(2) Cons in \<open>simp_all add: dict_simps\<close>)
  then show ?thesis by simp
qed

section \<open>Effect of the operations\<close>

lemma enqueue_work_items_append: "enqueue_work_items ws queue = queue @ ws"
  by (auto simp: enqueue_work_items_def split: list.splits)

lemma enqueue_batch_unassigned:
  "\<not> assigned T tp \<Longrightarrow> enqueue_batch tp k ws T = (Inl KeyError, T)"
  by (auto simp: enqueue_batch_def ensure_queue_def assigned_def get_queue_assigned split: option.splits
      dest: get_queue_assigned)

lemma ensure_queue_assigned:
  assumes "assigned T tp"
  shows "fst (ensure_queue tp k T) = Inr (queue_items T (tp, k))"
    "queue_items (snd (ensure_queue tp k T)) = queue_items T"
    "assigned (snd (ensure_queue tp k T)) = assigned T"
    "total_queued (snd (ensure_queue tp k T)) = total_queued T"
    "topo_inv K T \<Longrightarrow> topo_inv K (snd (ensure_queue tp k T))"
proof -
  have *: "queue_items T (tp, k) = []" if "get_queue tp k T = None"
    using that by (simp add: queue_items_def)
  show "fst (ensure_queue tp k T) = Inr (queue_items T (tp, k))"
    using assms by (auto simp: ensure_queue_def assigned_def queue_items_def split: option.splits)
  show "queue_items (snd (ensure_queue tp k T)) = queue_items T"
    using assms * by (auto simp: ensure_queue_def queue_items_put split: option.splits)
  show "assigned (snd (ensure_queue tp k T)) = assigned T"
    by (auto simp: ensure_queue_def split: option.splits)
  show "total_queued (snd (ensure_queue tp k T)) = total_queued T"
    using assms * total_put[of T tp k "[]"] by (auto simp: ensure_queue_def split: option.splits)
  show "topo_inv K (snd (ensure_queue tp k T))" if "topo_inv K T"
    using that assms * topo_inv_put_same_head[of K T tp "[]" k]
    by (auto simp: ensure_queue_def split: option.splits)
qed

lemma enqueue_batch_unfold:
  assumes "assigned T tp"
  shows "enqueue_batch tp k ws T =
    (let T2 = put_queue tp k (queue_items T (tp, k) @ ws) (snd (ensure_queue tp k T))
     in (Inr (), if queue_items T (tp, k) = [] \<and> ws \<noteq> []
                 then refresh_queue_head tp k ws T2 else T2))"
  using ensure_queue_assigned(1)[OF assms, of k]
  by (cases "ensure_queue tp k T") (auto simp: enqueue_batch_def enqueue_work_items_append Let_def)

lemma enqueue_batch_ok: "assigned T tp \<Longrightarrow> fst (enqueue_batch tp k ws T) = Inr ()"
  by (simp add: enqueue_batch_unfold Let_def)

lemma queue_items_enqueue:
  "assigned T tp \<Longrightarrow> queue_items (snd (enqueue_batch tp k ws T)) =
     (queue_items T)((tp, k) := queue_items T (tp, k) @ ws)"
  by (simp add: enqueue_batch_unfold Let_def queue_items_put ensure_queue_assigned)

lemma assigned_enqueue [simp]: "assigned (snd (enqueue_batch tp k ws T)) = assigned T"
  by (cases "assigned T tp")
    (simp_all add: enqueue_batch_unfold enqueue_batch_unassigned Let_def ensure_queue_assigned)

lemma total_enqueue:
  "assigned T tp \<Longrightarrow> total_queued (snd (enqueue_batch tp k ws T)) = total_queued T + length ws"
  using total_put[of "snd (ensure_queue tp k T)" tp k "queue_items T (tp, k) @ ws"]
  by (auto simp: enqueue_batch_unfold Let_def ensure_queue_assigned)

lemma topo_inv_enqueue:
  assumes "topo_inv K T" "(tp, k) \<notin> K"
  shows "topo_inv K (snd (enqueue_batch tp k ws T))"
proof (cases "assigned T tp")
  case False
  then show ?thesis using assms by (simp add: enqueue_batch_unassigned)
next
  case True
  let ?T = "snd (ensure_queue tp k T)"
  note T = ensure_queue_assigned[OF True, where k = k]
  have inv: "topo_inv K ?T" using T(5) assms(1) .
  show ?thesis
  proof (cases "queue_items T (tp, k) = []")
    case empty: True
    have na: "(tp, k) \<notin> active_runnable_queue_keys ?T"
      using topo_invD(5)[OF inv assms(2)] empty T(2) by simp
    have held: "topo_inv (insert (tp, k) K) (put_queue tp k ws ?T)"
      using topo_inv_put_held[OF topo_inv_hold[OF inv na]] by simp
    have items: "queue_items (put_queue tp k ws ?T) (tp, k) = ws"
      using True T(3) by (simp add: queue_items_put)
    have "topo_inv (insert (tp, k) K - {(tp, k)}) (refresh_queue_head tp k ws (put_queue tp k ws ?T))"
      by (rule topo_inv_refresh[OF held]) (simp add: items)
    moreover have "topo_inv K (put_queue tp k [] ?T)"
      by (rule topo_inv_put_same_head[OF inv]) (use True T empty in simp_all)
    ultimately show ?thesis
      using assms(2) empty by (auto simp: enqueue_batch_unfold[OF True] Let_def)
  next
    case False
    then have "topo_inv K (put_queue tp k (queue_items T (tp, k) @ ws) ?T)"
      by (intro topo_inv_put_same_head[OF inv]) (use True T in \<open>simp_all add: head_of_append\<close>)
    then show ?thesis
      using False by (simp add: enqueue_batch_unfold[OF True] Let_def)
  qed
qed

text \<open>Dropping an empty queue object changes neither contents nor totals.\<close>

lemma cleanup_cases:
  "cleanup_empty_queue tp k T =
     (if get_queue tp k T = Some [] then
        (deactivate_queue_key (tp, k) T)
          \<lparr>virtual_partition_queues :=
             dict_set tp (dict_pop k (the (dict_get (virtual_partition_queues T) tp)))
               (virtual_partition_queues T)\<rparr>
      else T)"
  by (auto simp: cleanup_empty_queue_def get_queue_def split: option.splits)

lemma queue_items_cleanup [simp]: "queue_items (cleanup_empty_queue tp k T) = queue_items T"
  by (auto simp: cleanup_cases queue_items_def get_queue_def dict_simps fun_eq_iff
      split: option.splits if_splits)

lemma assigned_cleanup [simp]: "assigned (cleanup_empty_queue tp k T) = assigned T"
  by (auto simp: cleanup_cases assigned_def get_queue_def dict_simps fun_eq_iff split: option.splits)

lemma queues_wf_cleanup: "queues_wf T \<Longrightarrow> queues_wf (cleanup_empty_queue tp k T)"
  by (auto simp: cleanup_cases queues_wf_def get_queue_def dict_simps split: option.splits if_splits)

lemma total_cleanup [simp]:
  assumes "queues_wf T" shows "total_queued (cleanup_empty_queue tp k T) = total_queued T"
proof (cases "get_queue tp k T = Some []")
  case True
  then obtain m where m: "dict_get (virtual_partition_queues T) tp = Some m" "dict_get m k = Some []"
    by (auto simp: get_queue_def split: option.splits)
  have "queues_size (dict_pop k m) = queues_size m"
    using m assms by (simp add: queues_size_pop_empty queues_wf_def)
  then show ?thesis
    using sum_dict_set[of queues_size tp "dict_pop k m" "virtual_partition_queues T"] m True
    by (simp add: cleanup_cases total_queued_def)
qed (simp add: cleanup_cases)

lemma topo_inv_cong:
  assumes "topo_inv K T" "queues_wf T'" "queue_items T' = queue_items T"
    "runnable_queue_keys T' = runnable_queue_keys T"
    "active_runnable_queue_keys T' = active_runnable_queue_keys T"
    "head_offsets T' = head_offsets T" "head_queue_keys_by_offset T' = head_queue_keys_by_offset T"
  shows "topo_inv K T'"
  using assms unfolding topo_inv_def by simp

lemma topo_inv_cleanup_empty:
  assumes "topo_inv K T" "get_queue tp k T = Some []"
  shows "topo_inv (K - {(tp, k)}) (cleanup_empty_queue tp k T)"
proof -
  have "topo_inv (K - {(tp, k)}) (deactivate_queue_key (tp, k) T)"
    using assms by (simp add: topo_inv_deactivate_empty queue_items_def)
  then show ?thesis
    by (rule topo_inv_cong)
      (use queues_wf_cleanup[OF topo_invD(1)[OF assms(1)], of tp k] assms(2) in
        \<open>simp_all add: cleanup_cases queue_items_cleanup[of tp k T, unfolded cleanup_cases]\<close>,
       use queue_items_cleanup[of tp k T] assms(2) in \<open>simp add: cleanup_cases\<close>)
qed

lemma topo_inv_cleanup:
  assumes "topo_inv K T" shows "topo_inv K (cleanup_empty_queue tp k T)"
proof (cases "get_queue tp k T = Some []")
  case True
  have "topo_inv (K - {(tp, k)}) (cleanup_empty_queue tp k T)"
    by (rule topo_inv_cleanup_empty[OF assms True])
  moreover have "(tp, k) \<notin> active_runnable_queue_keys (cleanup_empty_queue tp k T)"
    using True by (simp add: cleanup_cases)
  ultimately have "topo_inv (insert (tp, k) (K - {(tp, k)})) (cleanup_empty_queue tp k T)"
    by (rule topo_inv_hold)
  then show ?thesis
    using \<open>topo_inv (K - {(tp, k)}) _\<close> by (cases "(tp, k) \<in> K") (simp_all add: insert_absorb)
next
  case False
  then show ?thesis using assms by (simp add: cleanup_cases)
qed

text \<open>Settling a shortened queue hands the key back: dropped when empty, refreshed otherwise.\<close>

lemma settle_after_put:
  fixes k :: 'k and queue :: "('k, 'p) virtual_queue"
  assumes "assigned T tp"
  defines "T' \<equiv> settle_queue tp k queue (put_queue tp k queue T)"
  shows "queue_items T' = (queue_items T)((tp, k) := queue)"
    "assigned T' = assigned T"
    "queues_wf T \<Longrightarrow> total_queued T' + length (queue_items T (tp, k)) = total_queued T + length queue"
    "topo_inv K T \<Longrightarrow> (tp, k) \<notin> active_runnable_queue_keys T \<Longrightarrow> topo_inv (K - {(tp, k)}) T'"
proof -
  let ?P = "put_queue tp k queue T"
  have items: "queue_items ?P = (queue_items T)((tp, k) := queue)"
    using assms(1) by (rule queue_items_put)
  show "queue_items T' = (queue_items T)((tp, k) := queue)"
    using items by (cases "queue = []") (simp_all add: T'_def settle_queue_def)
  show "assigned T' = assigned T"
    by (simp add: T'_def settle_queue_def)
  show "total_queued T' + length (queue_items T (tp, k)) = total_queued T + length queue"
    if "queues_wf T"
    using that total_put[OF assms(1), of k queue] by (auto simp: T'_def settle_queue_def)
  show "topo_inv (K - {(tp, k)}) T'"
    if inv: "topo_inv K T" "(tp, k) \<notin> active_runnable_queue_keys T"
  proof -
    have held: "topo_inv (insert (tp, k) K) ?P"
      by (rule topo_inv_put_held[OF topo_inv_hold[OF inv]]) simp
    have "topo_inv (insert (tp, k) K - {(tp, k)}) T'"
    proof (cases "queue = []")
      case True
      have "get_queue tp k ?P = Some []" using True assms(1) by (simp add: get_queue_put)
      from topo_inv_cleanup_empty[OF held this] show ?thesis
        using True by (simp add: T'_def settle_queue_def)
    next
      case False
      have "topo_inv (insert (tp, k) K - {(tp, k)}) (refresh_queue_head tp k queue ?P)"
        by (rule topo_inv_refresh[OF held]) (simp add: items)
      then show ?thesis using False by (simp add: T'_def settle_queue_def)
    qed
    then show ?thesis by simp
  qed
qed

lemma dequeue_items_empty:
  "queue_items T (tp, k) = [] \<Longrightarrow> 0 < n \<Longrightarrow>
     dequeue_submitted_items tp k n T = ([], deactivate_queue_key (tp, k) T)"
  by (auto simp: dequeue_submitted_items_def queue_items_def split: option.splits)

lemma dequeue_items_nonpos: "n \<le> 0 \<Longrightarrow> dequeue_submitted_items tp k n T = ([], T)"
  by (simp add: dequeue_submitted_items_def)

lemma dequeue_items_cons:
  assumes "queue_items T (tp, k) \<noteq> []" "0 < n"
  shows "dequeue_submitted_items tp k n T =
    (take (nat n) (queue_items T (tp, k)),
     settle_queue tp k (drop (nat n) (queue_items T (tp, k)))
       (put_queue tp k (drop (nat n) (queue_items T (tp, k))) T))"
proof -
  obtain w ws where "get_queue tp k T = Some (w # ws)" "queue_items T (tp, k) = w # ws"
    using assms(1) by (auto simp: queue_items_def neq_Nil_conv split: option.splits)
  then show ?thesis using assms(2) by (simp add: dequeue_submitted_items_def Let_def)
qed

lemma dequeue_item_single:
  "dequeue_submitted_item tp k T =
     (case dequeue_submitted_items tp k 1 T of (ws, T') \<Rightarrow> (case ws of [] \<Rightarrow> None | w # _ \<Rightarrow> Some w, T'))"
  by (auto simp: dequeue_submitted_item_def dequeue_submitted_items_def Let_def
      split: option.splits list.splits)

lemma fst_dequeue_items:
  "fst (dequeue_submitted_items tp k n T) = take (nat n) (queue_items T (tp, k))"
  by (cases "queue_items T (tp, k) = []"; cases "0 < n")
    (simp_all add: dequeue_items_empty dequeue_items_cons dequeue_items_nonpos)

lemma queue_items_dequeue:
  "queue_items (snd (dequeue_submitted_items tp k n T)) =
     (queue_items T)((tp, k) := drop (nat n) (queue_items T (tp, k)))"
proof (cases "queue_items T (tp, k) = [] \<or> n \<le> 0")
  case True
  then show ?thesis
    by (cases "0 < n") (auto simp: dequeue_items_empty dequeue_items_nonpos fun_upd_idem)
next
  case False
  then have "assigned T tp" using queue_items_assigned[of T tp k] by blast
  then show ?thesis
    using False by (simp add: dequeue_items_cons settle_after_put(1))
qed

lemma assigned_dequeue [simp]: "assigned (snd (dequeue_submitted_items tp k n T)) = assigned T"
proof (cases "queue_items T (tp, k) = [] \<or> n \<le> 0")
  case True
  then show ?thesis
    by (cases "0 < n") (auto simp: dequeue_items_empty dequeue_items_nonpos fun_upd_idem)
next
  case False
  then have "assigned T tp" using queue_items_assigned[of T tp k] by blast
  then show ?thesis
    using False by (simp add: dequeue_items_cons settle_after_put(2))
qed

lemma total_dequeue:
  assumes "queues_wf T"
  shows "total_queued (snd (dequeue_submitted_items tp k n T)) +
     length (fst (dequeue_submitted_items tp k n T)) = total_queued T"
proof (cases "queue_items T (tp, k) = [] \<or> n \<le> 0")
  case True
  then show ?thesis
    by (cases "0 < n") (auto simp: dequeue_items_empty dequeue_items_nonpos fun_upd_idem)
next
  case False
  then have A: "assigned T tp" using queue_items_assigned[of T tp k] by blast
  show ?thesis
    using settle_after_put(3)[OF A assms, of k "drop (nat n) (queue_items T (tp, k))"] False
    by (simp add: dequeue_items_cons)
qed

lemma topo_inv_dequeue:
  assumes "topo_inv K T" "(tp, k) \<notin> active_runnable_queue_keys T" "0 < n"
  shows "topo_inv (K - {(tp, k)}) (snd (dequeue_submitted_items tp k n T))"
proof (cases "queue_items T (tp, k) = []")
  case True
  then show ?thesis using assms by (simp add: dequeue_items_empty topo_inv_deactivate_empty)
next
  case False
  then have "assigned T tp" using queue_items_assigned[of T tp k] by blast
  then show ?thesis
    using assms False by (simp add: dequeue_items_cons settle_after_put(4))
qed

section \<open>Assignment and revocation\<close>

lemma queue_items_assign:
  "queue_items (assign tp T) = (\<lambda>q. if fst q = tp then [] else queue_items T q)"
  by (auto simp: assign_def queue_items_def get_queue_def dict_simps fun_eq_iff split: option.splits)

lemma assigned_assign: "assigned (assign tp T) tp' \<longleftrightarrow> tp' = tp \<or> assigned T tp'"
  by (auto simp: assign_def assigned_def dict_simps)

lemma queue_items_unassigned: "\<not> assigned T (fst q) \<Longrightarrow> queue_items T q = []"
  using queue_items_assigned[of T "fst q" "snd q"] by auto

lemma total_assign: "\<not> assigned T tp \<Longrightarrow> total_queued (assign tp T) = total_queued T"
  using sum_dict_set[of queues_size tp "[]" "virtual_partition_queues T"]
  by (simp add: total_queued_def assign_def assigned_def dict_simps)

lemma topo_inv_assign:
  assumes "topo_inv K T" "\<not> assigned T tp" shows "topo_inv K (assign tp T)"
proof (rule topo_inv_cong[OF assms(1)])
  show "queue_items (assign tp T) = queue_items T"
    using assms(2) by (auto simp: queue_items_assign fun_eq_iff queue_items_unassigned)
  show "queues_wf (assign tp T)"
    using topo_invD(1)[OF assms(1)] by (auto simp: queues_wf_def assign_def dict_simps)
qed (simp_all add: assign_def)

lemma vpq_deactivate_fold [simp]:
  "virtual_partition_queues (fold (\<lambda>key. deactivate_queue_key (tp, key)) ks T) = virtual_partition_queues T"
  by (induction ks arbitrary: T) simp_all

lemma topo_inv_deactivate_fold:
  "topo_inv K T \<Longrightarrow> topo_inv (K \<union> Pair tp ` set ks) (fold (\<lambda>key. deactivate_queue_key (tp, key)) ks T)"
proof (induction ks arbitrary: K T)
  case (Cons k ks)
  show ?case
    using Cons.IH[OF topo_inv_deactivate[OF Cons.prems, of "(tp, k)"]] by simp
qed simp

lemma heads_deactivate_fold:
  "dict_get (head_offsets (fold (\<lambda>key. deactivate_queue_key (tp, key)) ks T)) q =
     (if q \<in> Pair tp ` set ks then None else dict_get (head_offsets T) q)"
  by (induction ks arbitrary: T) (auto simp: dict_simps)

lemma queue_items_revoke:
  "queue_items (snd (revoke tp T)) = (\<lambda>q. if fst q = tp then [] else queue_items T q)"
  by (auto simp: revoke_def Let_def queue_items_def get_queue_def dict_simps fun_eq_iff split: option.splits)

lemma assigned_revoke: "assigned (snd (revoke tp T)) tp' \<longleftrightarrow> tp' \<noteq> tp \<and> assigned T tp'"
  by (auto simp: revoke_def Let_def assigned_def dict_simps)

lemma total_revoke:
  assumes "queues_wf T"
  shows "int (total_queued (snd (revoke tp T))) = int (total_queued T) - fst (revoke tp T)"
  using sum_dict_pop[of "virtual_partition_queues T" queues_size tp] assms
  by (auto simp: revoke_def Let_def total_queued_def queues_wf_def queues_size_def
      split: option.splits)

lemma revoke_count_nonneg: "0 \<le> fst (revoke tp T)"
  by (simp add: revoke_def Let_def)

lemma queue_items_not_key:
  "q \<notin> Pair tp ` set (dict_keys (case dict_get (virtual_partition_queues T) tp of None \<Rightarrow> [] | Some m \<Rightarrow> m))
   \<Longrightarrow> fst q = tp \<Longrightarrow> queue_items T q = []"
  by (cases q) (auto simp: queue_items_def get_queue_def dict_keys_def image_iff
      dest: map_of_SomeD split: option.splits)

lemma topo_inv_revoke:
  assumes "topo_inv K T" shows "topo_inv K (snd (revoke tp T))"
proof -
  define ks where
    "ks = dict_keys (case dict_get (virtual_partition_queues T) tp of None \<Rightarrow> [] | Some m \<Rightarrow> m)"
  define U where "U = fold (\<lambda>key. deactivate_queue_key (tp, key)) ks T"
  have R: "snd (revoke tp T) = U\<lparr>virtual_partition_queues := dict_pop tp (virtual_partition_queues U)\<rparr>"
    by (simp add: revoke_def Let_def ks_def U_def)
  have vpq: "virtual_partition_queues U = virtual_partition_queues T" by (simp add: U_def)
  have inv: "topo_inv (K \<union> Pair tp ` set ks) U"
    unfolding U_def by (rule topo_inv_deactivate_fold[OF assms])
  note I = topo_invD[OF inv]
  have items: "queue_items (snd (revoke tp T)) q = (if fst q = tp then [] else queue_items U q)" for q
    by (simp add: queue_items_revoke queue_items_frame[OF vpq])
  have none: "queue_items U q = []" if "q \<notin> Pair tp ` set ks" "fst q = tp" for q
    using queue_items_not_key[of q tp T] that by (simp add: ks_def queue_items_frame[OF vpq])
  have heads: "dict_get (head_offsets U) q = None" if "q \<in> Pair tp ` set ks" for q
    using that by (simp add: U_def heads_deactivate_fold)
  show ?thesis
  proof (rule topo_invI)
    show "queues_wf (snd (revoke tp T))"
      using I(1) by (auto simp: R queues_wf_def dict_simps split: if_splits)
    show "q \<in> active_runnable_queue_keys (snd (revoke tp T)) \<longleftrightarrow> queue_items (snd (revoke tp T)) q \<noteq> []"
      if "q \<notin> K" for q
      using I(4) I(5)[of q] none[of q] that items[of q]
      by (cases "q \<in> Pair tp ` set ks") (auto simp: R)
    show "dict_get (head_offsets (snd (revoke tp T))) q = head_of (queue_items (snd (revoke tp T)) q)"
      if "q \<notin> K" for q
      using I(6)[of q] none[of q] heads[of q] that items[of q]
      by (cases "q \<in> Pair tp ` set ks") (auto simp: R)
  qed (use I(2-4,7,8) in \<open>auto simp: R\<close>)
qed

section \<open>Picking\<close>

text \<open>
  On a well-formed topology the round-robin loop rotates ineligible keys to the back and takes
  the first eligible one; its stale-entry branches and the empty-list error never happen.
\<close>

lemma pick_next_loop_rotates:
  assumes "distinct (xs @ ys)" "\<And>q. q \<in> set xs \<Longrightarrow> q \<in> active_runnable_queue_keys T"
    "\<And>q. q \<in> set xs \<Longrightarrow> queue_items T q \<noteq> []" "runnable_queue_keys T = xs @ ys"
  shows "pick_next_loop (length xs) e T =
    (case dropWhile (\<lambda>q. \<not> e q) xs of
       [] \<Rightarrow> (Inr None, T\<lparr>runnable_queue_keys := ys @ xs\<rparr>)
     | q # rest \<Rightarrow>
         (Inr (Some q),
          T\<lparr>runnable_queue_keys := rest @ ys @ takeWhile (\<lambda>q. \<not> e q) xs,
            active_runnable_queue_keys := active_runnable_queue_keys T - {q}\<rparr>))"
  using assms
proof (induction xs arbitrary: ys T)
  case Nil
  then show ?case by simp
next
  case (Cons x xs)
  obtain w ws where g: "get_queue (fst x) (snd x) T = Some (w # ws)"
    using Cons.prems(3)[of x] by (auto simp: queue_items_def neq_Nil_conv split: option.splits)
  have g': "get_queue (fst x) (snd x) (T\<lparr>runnable_queue_keys := zs\<rparr>) = Some (w # ws)" for zs
    using g by (simp add: get_queue_def)
  have x: "x \<in> active_runnable_queue_keys T" "x \<notin> set xs" "x \<notin> set ys" using Cons.prems by auto
  let ?T = "T\<lparr>runnable_queue_keys := xs @ ys @ [x]\<rparr>"
  have IH: "pick_next_loop (length xs) e ?T =
    (case dropWhile (\<lambda>q. \<not> e q) xs of
       [] \<Rightarrow> (Inr None, ?T\<lparr>runnable_queue_keys := (ys @ [x]) @ xs\<rparr>)
     | q # rest \<Rightarrow>
         (Inr (Some q),
          ?T\<lparr>runnable_queue_keys := rest @ (ys @ [x]) @ takeWhile (\<lambda>q. \<not> e q) xs,
            active_runnable_queue_keys := active_runnable_queue_keys ?T - {q}\<rparr>))"
    by (rule Cons.IH) (use Cons.prems in auto)
  show ?case
  proof (cases "e x")
    case True
    then show ?thesis
      using x g' Cons.prems(4) by (simp add: rqk_popleft_def Let_def)
  next
    case False
    then have "pick_next_loop (length (x # xs)) e T = pick_next_loop (length xs) e ?T"
      using x g' Cons.prems(4) by (simp add: rqk_popleft_def rqk_append_def Let_def)
    then show ?thesis
      unfolding IH using False by (cases "dropWhile (\<lambda>q. \<not> e q) xs") (simp_all del: pick_next_loop.simps dropWhile_eq_Nil_conv)
  qed
qed

lemma pick_next_runnable_unfold:
  assumes "topo_inv K T"
  shows "pick_next_runnable_queue_key e T =
    (case dropWhile (\<lambda>q. \<not> e q) (runnable_queue_keys T) of
       [] \<Rightarrow> (Inr None, T)
     | q # rest \<Rightarrow>
         (Inr (Some q),
          T\<lparr>runnable_queue_keys := rest @ takeWhile (\<lambda>q. \<not> e q) (runnable_queue_keys T),
            active_runnable_queue_keys := active_runnable_queue_keys T - {q}\<rparr>))"
proof -
  note I = topo_invD[OF assms]
  have "pick_next_loop (length (runnable_queue_keys T)) e T =
    (case dropWhile (\<lambda>q. \<not> e q) (runnable_queue_keys T) of
       [] \<Rightarrow> (Inr None, T\<lparr>runnable_queue_keys := [] @ runnable_queue_keys T\<rparr>)
     | q # rest \<Rightarrow>
         (Inr (Some q),
          T\<lparr>runnable_queue_keys := rest @ [] @ takeWhile (\<lambda>q. \<not> e q) (runnable_queue_keys T),
            active_runnable_queue_keys := active_runnable_queue_keys T - {q}\<rparr>))"
    by (rule pick_next_loop_rotates) (use I(2,3) I(5)[OF I(9)] in simp_all)
  then show ?thesis
    unfolding pick_next_runnable_queue_key_def
    by (cases "dropWhile (\<lambda>q. \<not> e q) (runnable_queue_keys T)") (simp_all del: dropWhile_eq_Nil_conv)
qed

text \<open>The runnable, eligible queues whose head is a blocking offset, in dictionary order.\<close>

fun blocking_candidates ::
  "('k queue_key \<Rightarrow> bool) \<Rightarrow> ('k, 'p) topology \<Rightarrow> (topic_partition, offset_range option) dict
    \<Rightarrow> ('k queue_key \<times> int) list" where
  "blocking_candidates e T [] = []"
| "blocking_candidates e T ((tp, None) # bs) = blocking_candidates e T bs"
| "blocking_candidates e T ((tp, Some gap) # bs) =
     (case dict_get (head_queue_keys_by_offset T) (tp, range_start gap) of
        None \<Rightarrow> blocking_candidates e T bs
      | Some q \<Rightarrow> if q \<in> active_runnable_queue_keys T \<and> e q
          then (q, range_start gap) # blocking_candidates e T bs else blocking_candidates e T bs)"

definition keep_lower :: "'q \<times> int \<Rightarrow> ('q \<times> int) option \<Rightarrow> ('q \<times> int) option" where
  "keep_lower c best =
     (case best of None \<Rightarrow> Some c | Some b \<Rightarrow> if snd c < snd b then Some c else best)"

lemma best_blocking_fold:
  "best_blocking e T best bs = fold keep_lower (blocking_candidates e T bs) best"
  by (induction e T best bs rule: best_blocking.induct)
    (auto simp: keep_lower_def split: option.splits)

lemma fold_keep_lower_None: "fold keep_lower cs best = None \<longleftrightarrow> best = None \<and> cs = []"
  by (induction cs arbitrary: best) (auto simp: keep_lower_def split: option.splits)

lemma fold_keep_lower_Some:
  "fold keep_lower cs best = Some c \<Longrightarrow>
     (best = Some c \<or> c \<in> set cs) \<and> (\<forall>c' \<in> set cs. snd c \<le> snd c') \<and>
     (\<forall>b. best = Some b \<longrightarrow> snd c \<le> snd b)"
proof (induction cs arbitrary: best)
  case (Cons x cs)
  have IH: "(keep_lower x best = Some c \<or> c \<in> set cs) \<and> (\<forall>c' \<in> set cs. snd c \<le> snd c') \<and>
     (\<forall>b. keep_lower x best = Some b \<longrightarrow> snd c \<le> snd b)"
    by (rule Cons.IH) (use Cons.prems in simp)
  define b where "b = (case best of None \<Rightarrow> x | Some b \<Rightarrow> if snd x < snd b then x else b)"
  have b: "keep_lower x best = Some b" "snd b \<le> snd x" "best = Some b \<or> b = x"
    "\<And>b'. best = Some b' \<Longrightarrow> snd b \<le> snd b'"
    by (auto simp: b_def keep_lower_def split: option.splits)
  have "snd c \<le> snd b" using IH b(1) by blast
  then have "snd c \<le> snd x" "\<And>b'. best = Some b' \<Longrightarrow> snd c \<le> snd b'"
    using b(2) b(4) order_trans by blast+
  moreover have "best = Some c \<or> c \<in> set (x # cs)"
    using IH b(1,3) by auto
  ultimately show ?case using IH by simp
qed simp

lemma blocking_candidates_set:
  "(q, n) \<in> set (blocking_candidates e T bs) \<longleftrightarrow>
     (\<exists>tp gap. (tp, Some gap) \<in> set bs \<and> range_start gap = n \<and>
       dict_get (head_queue_keys_by_offset T) (tp, n) = Some q \<and>
       q \<in> active_runnable_queue_keys T \<and> e q)"
  by (induction e T bs rule: blocking_candidates.induct) (auto split: option.splits)

lemma topo_inv_take_out:
  assumes "topo_inv K T" "q \<in> active_runnable_queue_keys T"
    "set ks = set (runnable_queue_keys T) - {q}" "distinct ks"
  shows "topo_inv (insert q K)
    (T\<lparr>runnable_queue_keys := ks, active_runnable_queue_keys := active_runnable_queue_keys T - {q}\<rparr>)"
proof -
  note I = topo_invD[OF assms(1)]
  show ?thesis
  proof (rule topo_invI)
    show "queues_wf (T\<lparr>runnable_queue_keys := ks,
        active_runnable_queue_keys := active_runnable_queue_keys T - {q}\<rparr>)"
      using I(1) by (simp add: queues_wf_def)
  qed (use I(3-8) assms(2-4) in simp_all, use I(4) in blast)
qed

text \<open>The blocking pick and the round-robin pick take a key out without touching any queue.\<close>

lemma pick_blocking_cases:
  assumes "pick_blocking_queue_key bs e T = (r, T')"
  obtains (none) "r = None" "T' = T" "blocking_candidates e T bs = []"
  | (some) q n where "r = Some q" "(q, n) \<in> set (blocking_candidates e T bs)"
      "\<forall>c \<in> set (blocking_candidates e T bs). n \<le> snd c"
      "T' = T\<lparr>runnable_queue_keys := removeAll q (runnable_queue_keys T),
              active_runnable_queue_keys := active_runnable_queue_keys T - {q}\<rparr>"
proof (cases "best_blocking e T None bs")
  case None
  then show ?thesis
    using assms none
    by (simp add: pick_blocking_queue_key_def) (simp add: best_blocking_fold fold_keep_lower_None)
next
  case (Some c)
  obtain q n where c: "c = (q, n)" by (cases c)
  have "(q, n) \<in> set (blocking_candidates e T bs)"
    "\<forall>c \<in> set (blocking_candidates e T bs). n \<le> snd c"
    using fold_keep_lower_Some[of "blocking_candidates e T bs" None c] Some c
    by (simp_all add: best_blocking_fold)
  then show ?thesis
    using assms some[of q n] Some c by (simp add: pick_blocking_queue_key_def rqk_discard_def)
qed

lemma pick_next_cases:
  assumes "topo_inv K T" "pick_next_runnable_queue_key e T = (r, T')"
  obtains (none) "r = Inr None" "T' = T" "\<forall>q \<in> active_runnable_queue_keys T. \<not> e q"
  | (some) q ps ss where "r = Inr (Some q)" "runnable_queue_keys T = ps @ q # ss" "e q"
      "\<forall>p \<in> set ps. \<not> e p"
      "T' = T\<lparr>runnable_queue_keys := ss @ ps,
              active_runnable_queue_keys := active_runnable_queue_keys T - {q}\<rparr>"
proof (cases "dropWhile (\<lambda>q. \<not> e q) (runnable_queue_keys T)")
  case Nil
  have "\<forall>q \<in> active_runnable_queue_keys T. \<not> e q"
    using Nil topo_invD(3)[OF assms(1)] by simp
  then show ?thesis
    using assms(2) none Nil
    by (simp add: pick_next_runnable_unfold[OF assms(1)] del: dropWhile_eq_Nil_conv)
next
  case (Cons q ss)
  let ?ps = "takeWhile (\<lambda>q. \<not> e q) (runnable_queue_keys T)"
  have split: "runnable_queue_keys T = ?ps @ q # ss"
    using takeWhile_dropWhile_id[of "\<lambda>q. \<not> e q" "runnable_queue_keys T"] Cons by simp
  have eq: "e q"
    using hd_dropWhile[of "\<lambda>q. \<not> e q" "runnable_queue_keys T"] Cons
    by (simp del: dropWhile_eq_Nil_conv)
  have skipped: "\<forall>p \<in> set ?ps. \<not> e p" by (auto dest: set_takeWhileD)
  have "r = Inr (Some q)" "T' = T\<lparr>runnable_queue_keys := ss @ ?ps,
      active_runnable_queue_keys := active_runnable_queue_keys T - {q}\<rparr>"
    using assms(2) Cons by (simp_all add: pick_next_runnable_unfold[OF assms(1)])
  then show ?thesis
    by (rule some[OF _ split eq skipped])
qed

lemma pop_next_spec:
  assumes inv: "topo_inv K T" and run: "pop_next_queue_key bs e T = (r, T')"
  shows "case r of
      Inl _ \<Rightarrow> False
    | Inr None \<Rightarrow> T' = T \<and> (\<forall>q. q \<notin> K \<and> queue_items T q \<noteq> [] \<longrightarrow> \<not> e q)
    | Inr (Some q) \<Rightarrow> q \<notin> K \<and> queue_items T q \<noteq> [] \<and> e q \<and> topo_inv (insert q K) T'"
proof -
  note I = topo_invD[OF inv]
  obtain r1 T1 where p: "pick_blocking_queue_key bs e T = (r1, T1)" by fastforce
  from p show ?thesis
  proof (cases rule: pick_blocking_cases)
    case (some q n)
    have act: "q \<in> active_runnable_queue_keys T" "e q"
      using some(2) by (auto simp: blocking_candidates_set)
    have "topo_inv (insert q K) T1"
      unfolding some(4) by (rule topo_inv_take_out[OF inv act(1)]) (use I(2) in \<open>auto simp: distinct_removeAll\<close>)
    then show ?thesis
      using run p some(1) act I(5)[OF I(9)[OF act(1)]] I(9)[OF act(1)]
      by (auto simp: pop_next_queue_key_def)
  next
    case none
    then have next_run: "pick_next_runnable_queue_key e T = (r, T')"
      using run p by (simp add: pop_next_queue_key_def)
    from inv next_run show ?thesis
    proof (cases rule: pick_next_cases)
      case none
      then show ?thesis using I(5) by simp
    next
      case (some q ps ss)
      have act: "q \<in> active_runnable_queue_keys T" using I(3) some(2) by auto
      have "topo_inv (insert q K) T'"
        unfolding some(5) by (rule topo_inv_take_out[OF inv act]) (use I(2) some(2) in auto)
      then show ?thesis
        using some(1,3) I(5)[OF I(9)[OF act]] I(9)[OF act] act by simp
    qed
  qed
qed

section \<open>The queue interface\<close>

text \<open>
  The scheduler sees the topology as a family of FIFO queues. \<open>keyed_queues\<close> states what it
  relies on; the history lemma is proved from these laws alone.
\<close>

datatype ('q, 'w) queue_op = Enqueue 'q "'w list" | Dequeue 'q int

fun replay ::
  "('q \<Rightarrow> 'w list \<Rightarrow> 's \<Rightarrow> 's) \<Rightarrow> ('q \<Rightarrow> int \<Rightarrow> 's \<Rightarrow> 'w list \<times> 's) \<Rightarrow> ('q, 'w) queue_op list
    \<Rightarrow> 's \<Rightarrow> ('q \<times> 'w) list \<times> 's" where
  "replay enq deq [] s = ([], s)"
| "replay enq deq (Enqueue q ws # ops) s = replay enq deq ops (enq q ws s)"
| "replay enq deq (Dequeue q n # ops) s =
     (let (ws, s1) = deq q n s; (log, s2) = replay enq deq ops s1 in (map (Pair q) ws @ log, s2))"

fun enqueued :: "'q \<Rightarrow> ('q, 'w) queue_op list \<Rightarrow> 'w list" where
  "enqueued q [] = []"
| "enqueued q (Enqueue q' ws # ops) = (if q' = q then ws else []) @ enqueued q ops"
| "enqueued q (Dequeue q' n # ops) = enqueued q ops"

definition taken :: "'q \<Rightarrow> ('q \<times> 'w) list \<Rightarrow> 'w list" where
  "taken q log = map snd (filter (\<lambda>p. fst p = q) log)"

lemma taken_Nil [simp]: "taken q [] = []"
  by (simp add: taken_def)

lemma taken_append [simp]: "taken q (xs @ ys) = taken q xs @ taken q ys"
  by (simp add: taken_def)

lemma taken_tag [simp]: "taken q (map (Pair q') ws) = (if q' = q then ws else [])"
  by (induction ws) (auto simp: taken_def)

fun enqueue_targets :: "('q, 'w) queue_op list \<Rightarrow> 'q set" where
  "enqueue_targets [] = {}"
| "enqueue_targets (Enqueue q ws # ops) = insert q (enqueue_targets ops)"
| "enqueue_targets (Dequeue q n # ops) = enqueue_targets ops"

locale keyed_queues =
  fixes items :: "'s \<Rightarrow> 'q \<Rightarrow> 'w list"
    and enq :: "'q \<Rightarrow> 'w list \<Rightarrow> 's \<Rightarrow> 's"
    and deq :: "'q \<Rightarrow> int \<Rightarrow> 's \<Rightarrow> 'w list \<times> 's"
    and accepts :: "'s \<Rightarrow> 'q \<Rightarrow> bool"
  assumes items_enq: "accepts s q \<Longrightarrow> items (enq q ws s) = (items s)(q := items s q @ ws)"
    and items_deq: "items (snd (deq q n s)) = (items s)(q := drop (nat n) (items s q))"
    and fst_deq: "fst (deq q n s) = take (nat n) (items s q)"
    and accepts_enq: "accepts (enq q ws s) = accepts s"
    and accepts_deq: "accepts (snd (deq q n s)) = accepts s"
begin

lemma replay_fifo:
  assumes "\<forall>q' \<in> enqueue_targets ops. accepts s q'" "replay enq deq ops s = (log, s')"
  shows "items s q @ enqueued q ops = taken q log @ items s' q"
  using assms
proof (induction ops arbitrary: s log)
  case (Cons op ops)
  show ?case
  proof (cases op)
    case (Enqueue q' ws)
    have "items (enq q' ws s) q @ enqueued q ops = taken q log @ items s' q"
      by (rule Cons.IH) (use Cons.prems Enqueue in \<open>simp_all add: accepts_enq\<close>)
    then show ?thesis using Enqueue Cons.prems(1) by (auto simp: items_enq)
  next
    case (Dequeue q' n)
    obtain ws s1 where d: "deq q' n s = (ws, s1)" by fastforce
    obtain log2 where r: "replay enq deq ops s1 = (log2, s')" "log = map (Pair q') ws @ log2"
      using Cons.prems(2) Dequeue d by (auto simp: Let_def split: prod.splits)
    have IH: "items s1 q @ enqueued q ops = taken q log2 @ items s' q"
      by (rule Cons.IH[OF _ r(1)]) (use Cons.prems(1) Dequeue accepts_deq[of q' n s] d in simp)
    have w: "ws = take (nat n) (items s q')" "items s1 = (items s)(q' := drop (nat n) (items s q'))"
      using fst_deq[of q' n s] items_deq[of q' n s] d by simp_all
    show ?thesis
    proof (cases "q' = q")
      case True
      have "items s q @ enqueued q ops = take (nat n) (items s q) @ drop (nat n) (items s q) @ enqueued q ops"
        by (metis append_assoc append_take_drop_id)
      also have "\<dots> = taken q log @ items s' q"
        using IH True r(2) w by simp
      finally show ?thesis using Dequeue by simp
    next
      case False
      then show ?thesis using IH Dequeue r(2) w by simp
    qed
  qed
qed simp

end

interpretation wq: keyed_queues queue_items
  "\<lambda>q ws T. snd (enqueue_batch (fst q) (snd q) ws T)"
  "\<lambda>q n T. dequeue_submitted_items (fst q) (snd q) n T"
  "\<lambda>T q. assigned T (fst q)"
  by unfold_locales
    (simp_all add: queue_items_enqueue queue_items_dequeue fst_dequeue_items)

text \<open>
  Per-key FIFO: over any interleaving of batches put on and taken off any queues, what has
  been taken from a key's queue, followed by what is still in it, is what it held at first
  followed by everything put on it, in order: nothing is lost, duplicated or reordered.
\<close>

theorem per_key_fifo:
  assumes "\<forall>q' \<in> enqueue_targets ops. assigned T (fst q')"
    and "replay (\<lambda>q ws T. snd (enqueue_batch (fst q) (snd q) ws T))
           (\<lambda>q n T. dequeue_submitted_items (fst q) (snd q) n T) ops T = (log, T')"
  shows "queue_items T q @ enqueued q ops = taken q log @ queue_items T' q"
  using assms by (rule wq.replay_fifo)

definition demo_item :: "int \<Rightarrow> (nat, nat) work_item" where
  "demo_item n = \<lparr>wi_id = [], wi_tp = TopicPartition ''t'' 0, wi_offset = n, wi_epoch = 1,
     wi_key = 7, wi_payload = 0, wi_requeue_attempts = 0, wi_poison_key = None\<rparr>"

definition demo_topology :: "(nat, nat) topology" where
  "demo_topology = assign (TopicPartition ''t'' 0) topology_init"

theorem per_key_fifo_witness:
  "let q = (TopicPartition ''t'' 0, 7);
       (log, T') = replay (\<lambda>q ws T. snd (enqueue_batch (fst q) (snd q) ws T))
         (\<lambda>q n T. dequeue_submitted_items (fst q) (snd q) n T)
         [Enqueue q [demo_item 0, demo_item 1], Dequeue q 1] demo_topology
   in queue_items demo_topology q @ [demo_item 0, demo_item 1] = taken q log @ queue_items T' q"
proof -
  let ?q = "(TopicPartition ''t'' 0, 7 :: nat)"
  obtain log T' where r: "replay (\<lambda>q ws T. snd (enqueue_batch (fst q) (snd q) ws T))
         (\<lambda>q n T. dequeue_submitted_items (fst q) (snd q) n T)
         [Enqueue ?q [demo_item 0, demo_item 1], Dequeue ?q 1] demo_topology = (log, T')"
    by fastforce
  have "\<forall>q' \<in> enqueue_targets [Enqueue ?q [demo_item 0, demo_item 1], Dequeue ?q 1].
      assigned demo_topology (fst q')"
    by (simp add: demo_topology_def assigned_assign)
  from per_key_fifo[OF this r, of ?q] show ?thesis
    unfolding Let_def r by simp
qed

section \<open>Reachable topologies\<close>

text \<open>
  The moves the scheduler makes, with the set of keys it holds. A held key is given back by
  dequeueing from it or by refreshing its head; a partition is assigned when it is not
  assigned already.
\<close>

inductive topology_reach :: "'k queue_key set \<Rightarrow> ('k, 'p) topology \<Rightarrow> bool" where
  reach_init: "topology_reach {} topology_init"
| reach_assign: "topology_reach K T \<Longrightarrow> \<not> assigned T tp \<Longrightarrow> topology_reach K (assign tp T)"
| reach_revoke: "topology_reach K T \<Longrightarrow> topology_reach K (snd (revoke tp T))"
| reach_enqueue: "topology_reach K T \<Longrightarrow> (tp, k) \<notin> K
    \<Longrightarrow> topology_reach K (snd (enqueue_batch tp k ws T))"
| reach_pop: "topology_reach K T \<Longrightarrow> pop_next_queue_key bs e T = (Inr (Some q), T')
    \<Longrightarrow> topology_reach (insert q K) T'"
| reach_pop_none: "topology_reach K T \<Longrightarrow> pop_next_queue_key bs e T = (Inr None, T')
    \<Longrightarrow> topology_reach K T'"
| reach_dequeue: "topology_reach K T \<Longrightarrow> (tp, k) \<in> K \<Longrightarrow> 0 < n
    \<Longrightarrow> topology_reach (K - {(tp, k)}) (snd (dequeue_submitted_items tp k n T))"
| reach_dequeue_one: "topology_reach K T \<Longrightarrow> (tp, k) \<in> K
    \<Longrightarrow> topology_reach (K - {(tp, k)}) (snd (dequeue_submitted_item tp k T))"
| reach_deactivate: "topology_reach K T \<Longrightarrow> topology_reach (insert q K) (deactivate_queue_key q T)"
| reach_refresh: "topology_reach K T \<Longrightarrow> get_queue tp k T = Some queue
    \<Longrightarrow> topology_reach (K - {(tp, k)}) (refresh_queue_head tp k queue T)"
| reach_cleanup: "topology_reach K T \<Longrightarrow> topology_reach K (cleanup_empty_queue tp k T)"

lemma topo_inv_dequeue_one:
  "topo_inv K T \<Longrightarrow> (tp, k) \<notin> active_runnable_queue_keys T
   \<Longrightarrow> topo_inv (K - {(tp, k)}) (snd (dequeue_submitted_item tp k T))"
  using topo_inv_dequeue[of K T tp k 1] by (simp add: dequeue_item_single case_prod_beta)

lemma topology_reach_inv: "topology_reach K T \<Longrightarrow> topo_inv K T"
proof (induction rule: topology_reach.induct)
  case (reach_pop K T bs e q T')
  then show ?case using pop_next_spec[of K T bs e] by fastforce
next
  case (reach_pop_none K T bs e T')
  then show ?case using pop_next_spec[of K T bs e] by fastforce
next
  case (reach_dequeue K T tp k n)
  then show ?case using topo_invD(4)[of K T] by (intro topo_inv_dequeue) auto
next
  case (reach_dequeue_one K T tp k)
  then show ?case using topo_invD(4)[of K T] by (intro topo_inv_dequeue_one) auto
next
  case (reach_refresh K T tp k queue)
  then show ?case by (intro topo_inv_refresh) (simp_all add: queue_items_def)
qed (simp_all add: topo_inv_assign topo_inv_revoke topo_inv_enqueue topo_inv_deactivate topo_inv_cleanup)

text \<open>
  No queued work is forgotten by the bookkeeping: in every reachable topology the runnable
  list holds each key once, and a key the scheduler does not hold is in it exactly when its
  queue is non-empty; its recorded head is the offset at the front of that queue, and an
  entry of the offset index names a queue with that head.
\<close>

theorem runnable_iff_nonempty:
  assumes "topology_reach K T"
  shows "distinct (runnable_queue_keys T)
    \<and> (\<forall>q. q \<notin> K \<longrightarrow> (q \<in> set (runnable_queue_keys T) \<longleftrightarrow> queue_items T q \<noteq> [])
         \<and> dict_get (head_offsets T) q = head_of (queue_items T q))
    \<and> (\<forall>tp n q. dict_get (head_queue_keys_by_offset T) (tp, n) = Some q \<and> q \<notin> K \<longrightarrow>
         fst q = tp \<and> (\<exists>w ws. queue_items T q = w # ws \<and> wi_offset w = n))"
proof -
  note I = topo_invD[OF topology_reach_inv[OF assms]]
  have "fst q = tp \<and> (\<exists>w ws. queue_items T q = w # ws \<and> wi_offset w = n)"
    if "dict_get (head_queue_keys_by_offset T) (tp, n) = Some q" "q \<notin> K" for tp n q
    using I(6)[OF that(2)] I(7,8)[OF that(1)] by (metis head_of_eq_Some)
  then show ?thesis using I(2,3,5,6) by blast
qed

lemma demo_reach: "topology_reach {} (snd (enqueue_batch (TopicPartition ''t'' 0) 7 [demo_item 0] demo_topology))"
  unfolding demo_topology_def
  by (intro reach_enqueue reach_assign reach_init) (simp_all add: assigned_def topology_init_def dict_has_def)

theorem runnable_iff_nonempty_witness:
  "(TopicPartition ''t'' 0, 7) \<in> set (runnable_queue_keys
     (snd (enqueue_batch (TopicPartition ''t'' 0) 7 [demo_item 0] demo_topology)))"
proof -
  have "queue_items (snd (enqueue_batch (TopicPartition ''t'' 0) 7 [demo_item 0] demo_topology))
      (TopicPartition ''t'' 0, 7) \<noteq> []"
    by (simp add: queue_items_enqueue demo_topology_def assigned_assign)
  then show ?thesis using runnable_iff_nonempty[OF demo_reach] by blast
qed

text \<open>
  Picking a queue is total and fair: on a reachable topology it never raises; it answers
  no key exactly when no free non-empty queue is eligible; the key it answers is eligible and
  has work, no queue's contents change, and after the pick the key is held and the topology is
  still consistent.
\<close>

theorem pop_next_total:
  assumes "topology_reach K T" and "pop_next_queue_key bs e T = (r, T')"
  shows "(\<exists>res. r = Inr res) \<and> queue_items T' = queue_items T
    \<and> (r = Inr None \<longleftrightarrow> (\<forall>q. q \<notin> K \<and> queue_items T q \<noteq> [] \<longrightarrow> \<not> e q))
    \<and> (\<forall>q. r = Inr (Some q) \<longrightarrow>
          q \<notin> K \<and> queue_items T q \<noteq> [] \<and> e q \<and> q \<notin> set (runnable_queue_keys T'))"
proof -
  note spec = pop_next_spec[OF topology_reach_inv[OF assms(1)] assms(2)]
  have "queue_items T' = queue_items T"
    using queue_items_frame[OF vpq_pop_next, of bs e T] assms(2) by simp
  moreover have "q \<notin> set (runnable_queue_keys T')" if "r = Inr (Some q)" for q
    using spec that topo_invD(3,4)[of "insert q K" T'] by auto
  ultimately show ?thesis using spec by (auto split: sum.splits option.splits)
qed

theorem pop_next_total_witness:
  "\<exists>q. fst (pop_next_queue_key [] (\<lambda>_. True)
     (snd (enqueue_batch (TopicPartition ''t'' 0) 7 [demo_item 0] demo_topology))) = Inr (Some q)"
proof -
  let ?T = "snd (enqueue_batch (TopicPartition ''t'' 0) 7 [demo_item 0] demo_topology)"
  obtain r T' where p: "pop_next_queue_key [] (\<lambda>_. True) ?T = (r, T')" by fastforce
  have ne: "queue_items ?T (TopicPartition ''t'' 0, 7) \<noteq> []"
    by (simp add: queue_items_enqueue demo_topology_def assigned_assign)
  show ?thesis
    using pop_next_total[OF demo_reach p] ne p by (metis empty_iff fst_conv not_None_eq)
qed

text \<open>
  Lowest blocking offset first: when some eligible runnable queue has a blocking offset at
  its head, the key picked has a blocking offset at its head, and none of the others that
  could have been picked that way has a lower one.
\<close>

theorem pick_blocking_lowest:
  assumes "topology_reach {} T"
    and "pick_blocking_queue_key bs e T = (r, T')"
  shows "(r = None \<longleftrightarrow> blocking_candidates e T bs = [])
    \<and> (\<forall>q. r = Some q \<longrightarrow> e q \<and>
         (\<exists>gap w ws. (fst q, Some gap) \<in> set bs \<and> queue_items T q = w # ws \<and>
            wi_offset w = range_start gap \<and>
            (\<forall>(q', n) \<in> set (blocking_candidates e T bs). wi_offset w \<le> n)))"
  using assms(2)
proof (cases rule: pick_blocking_cases)
  case none
  then show ?thesis by simp
next
  case (some q n)
  note I = topo_invD[OF topology_reach_inv[OF assms(1)]]
  obtain tp gap where c: "(tp, Some gap) \<in> set bs" "range_start gap = n"
    "dict_get (head_queue_keys_by_offset T) (tp, n) = Some q" "e q"
    using some(2) by (auto simp: blocking_candidates_set)
  have "fst q = tp" "dict_get (head_offsets T) q = Some n" using I(7,8)[OF c(3)] by simp_all
  moreover obtain w ws where "queue_items T q = w # ws" "wi_offset w = n"
    using calculation(2) I(6)[of q] by (auto simp: head_of_eq_Some)
  ultimately show ?thesis using some(1,2,3) c by fastforce
qed

theorem pick_blocking_lowest_witness:
  "\<exists>q. fst (pick_blocking_queue_key [(TopicPartition ''t'' 0, Some (OffsetRange 0 0))] (\<lambda>_. True)
     (snd (enqueue_batch (TopicPartition ''t'' 0) 7 [demo_item 0] demo_topology))) = Some q"
proof -
  let ?T = "snd (enqueue_batch (TopicPartition ''t'' 0) 7 [demo_item 0] demo_topology)"
  let ?bs = "[(TopicPartition ''t'' 0, Some (OffsetRange 0 0))]"
  obtain r T' where p: "pick_blocking_queue_key ?bs (\<lambda>_. True) ?T = (r, T')" by fastforce
  have "blocking_candidates (\<lambda>_. True) ?T ?bs \<noteq> []" by code_simp
  then show ?thesis using pick_blocking_lowest[OF demo_reach p] p by auto
qed

text \<open>
  Revoking a partition drops exactly its queues: the count it reports is the number of
  items dropped, every other partition's queues are untouched, nothing of the partition stays
  queued or runnable, and the topology stays consistent.
\<close>

theorem revoke_exact:
  assumes "topology_reach {} T"
  shows "queue_items (snd (revoke tp T)) = (\<lambda>q. if fst q = tp then [] else queue_items T q)
    \<and> int (total_queued (snd (revoke tp T))) = int (total_queued T) - fst (revoke tp T)
    \<and> (\<forall>q \<in> set (runnable_queue_keys (snd (revoke tp T))). fst q \<noteq> tp)
    \<and> \<not> assigned (snd (revoke tp T)) tp"
proof -
  have inv: "topo_inv {} (snd (revoke tp T))"
    by (rule topo_inv_revoke[OF topology_reach_inv[OF assms]])
  have "fst q \<noteq> tp" if "q \<in> set (runnable_queue_keys (snd (revoke tp T)))" for q
    using that topo_invD(3,5)[OF inv] by (auto simp: queue_items_revoke split: if_splits)
  then show ?thesis
    using topo_invD(1)[OF topology_reach_inv[OF assms]]
    by (simp add: queue_items_revoke total_revoke assigned_revoke)
qed

theorem revoke_exact_witness:
  "total_queued (snd (revoke (TopicPartition ''t'' 0)
     (snd (enqueue_batch (TopicPartition ''t'' 0) 7 [demo_item 0] demo_topology)))) = 0"
proof -
  let ?T = "snd (enqueue_batch (TopicPartition ''t'' 0) 7 [demo_item 0] demo_topology)"
  have "total_queued ?T = 1" "fst (revoke (TopicPartition ''t'' 0) ?T) = 1" by code_simp+
  then show ?thesis using revoke_exact[OF demo_reach, of "TopicPartition ''t'' 0"] by simp
qed

end
