(* ===== verification/Poison_Message.thy ===== *)
theory Poison_Message
  imports Complex_Main Dto
begin

text \<open>
  \<open>control_plane/poison_message.py\<close>: the circuit breaker that force-fails work for a key after
  repeated failures. One circuit per partition and original message key. The injected clock
  is read at most once per call; the reading is the argument \<open>now\<close>.

  The lemmas describe the breaker by history: which completions of a key count, when its
  circuit is open, and that other keys never matter.
\<close>

section \<open>State and operations\<close>

record circuit_state =
  failure_count :: int
  open_until :: "real option"

type_synonym 'k circuit_key = "topic_partition \<times> 'k"

record 'k poison_circuit =
  pc_enabled :: bool
  pc_failure_threshold :: int
  pc_cooldown_ms :: int
  pc_cooldown_seconds :: real
  pc_forced_failure_attempt :: int
  pc_states :: "('k circuit_key, circuit_state) dict"

definition poison_circuit_init ::
  "bool \<Rightarrow> int \<Rightarrow> int \<Rightarrow> int \<Rightarrow> py_error + 'k poison_circuit" where
  "poison_circuit_init enabled failure_threshold cooldown_ms forced_failure_attempt =
     (if failure_threshold < 1 then Inl ValueError
      else if cooldown_ms < 0 then Inl ValueError
      else Inr \<lparr>pc_enabled = enabled,
                pc_failure_threshold = failure_threshold,
                pc_cooldown_ms = cooldown_ms,
                pc_cooldown_seconds = real_of_int cooldown_ms / 1000,
                pc_forced_failure_attempt = max 1 forced_failure_attempt,
                pc_states = []\<rparr>)"

definition circuit_key :: "('k, 'p) work_item \<Rightarrow> 'k circuit_key" where
  "circuit_key work_item =
     (wi_tp work_item,
      case wi_poison_key work_item of None \<Rightarrow> wi_key work_item | Some poison_key \<Rightarrow> poison_key)"

definition record_completion ::
  "real \<Rightarrow> completion_event \<Rightarrow> ('k, 'p) work_item \<Rightarrow> 'k poison_circuit \<Rightarrow> 'k poison_circuit" where
  "record_completion now event work_item C =
     (if \<not> pc_enabled C then C
      else
        let key = circuit_key work_item
        in if ce_status event = SUCCESS then C\<lparr>pc_states := dict_pop key (pc_states C)\<rparr>
           else if ce_attempt event < pc_forced_failure_attempt C then C
           else
             let state = dict_get_default (pc_states C) key
                           \<lparr>failure_count = 0, open_until = None\<rparr>;
                 state1 = state\<lparr>failure_count := failure_count state + 1\<rparr>;
                 state2 = (if failure_count state1 \<ge> pc_failure_threshold C
                           then state1\<lparr>open_until := Some (now + pc_cooldown_seconds C)\<rparr>
                           else state1)
             in C\<lparr>pc_states := dict_set key state2 (pc_states C)\<rparr>)"

definition should_force_fail_with ::
  "bool \<Rightarrow> real \<Rightarrow> ('k, 'p) work_item \<Rightarrow> 'k poison_circuit \<Rightarrow> bool \<times> 'k poison_circuit" where
  "should_force_fail_with prune_expired now work_item C =
     (if \<not> pc_enabled C then (False, C)
      else
        case dict_get (pc_states C) (circuit_key work_item) of
          None \<Rightarrow> (False, C)
        | Some state \<Rightarrow>
            (case open_until state of
               None \<Rightarrow> (False, C)
             | Some t \<Rightarrow>
                 if now < t then (True, C)
                 else
                   (False,
                    if prune_expired
                    then C\<lparr>pc_states := dict_pop (circuit_key work_item) (pc_states C)\<rparr> else C)))"

definition should_force_fail ::
  "real \<Rightarrow> ('k, 'p) work_item \<Rightarrow> 'k poison_circuit \<Rightarrow> bool \<times> 'k poison_circuit" where
  "should_force_fail now work_item C = should_force_fail_with True now work_item C"

definition would_force_fail :: "real \<Rightarrow> ('k, 'p) work_item \<Rightarrow> 'k poison_circuit \<Rightarrow> bool" where
  "would_force_fail now work_item C = fst (should_force_fail_with False now work_item C)"

text \<open>\<open>str\<close> of the dataclass, for topic names without quotes, backslashes or control characters.\<close>

definition str_tp :: "topic_partition \<Rightarrow> string" where
  "str_tp tp =
     ''TopicPartition(topic='' @ [char_of (39 :: nat)] @ topic tp @ [char_of (39 :: nat)] @
     '', partition='' @ str_int (partition tp) @ '')''"

definition build_forced_failure_event ::
  "('k, 'p) work_item \<Rightarrow> 'k poison_circuit \<Rightarrow> completion_event" where
  "build_forced_failure_event work_item C =
     (let count = (case dict_get (pc_states C) (circuit_key work_item) of
                     None \<Rightarrow> 0 | Some state \<Rightarrow> failure_count state)
      in \<lparr>ce_id = wi_id work_item, ce_tp = wi_tp work_item, ce_offset = wi_offset work_item,
          ce_epoch = wi_epoch work_item, ce_status = FAILURE,
          ce_error =
            Some (''Poison message circuit open for '' @ str_tp (wi_tp work_item) @ ''@'' @
              str_int (wi_offset work_item) @ '' key after '' @ str_int count @ '' failure(s)''),
          ce_attempt = pc_forced_failure_attempt C\<rparr>)"

definition clear_partition :: "topic_partition \<Rightarrow> 'k poison_circuit \<Rightarrow> 'k poison_circuit" where
  "clear_partition tp C = C\<lparr>pc_states := dict_filter (\<lambda>key. fst key \<noteq> tp) (pc_states C)\<rparr>"

text \<open>The loop over a copy of the items counts open circuits and drops expired ones.\<close>

fun count_open ::
  "real \<Rightarrow> ('k circuit_key, circuit_state) dict \<Rightarrow> int \<Rightarrow> ('k circuit_key, circuit_state) dict
    \<Rightarrow> int \<times> ('k circuit_key, circuit_state) dict" where
  "count_open now [] open_count states = (open_count, states)"
| "count_open now ((key, state) # items) open_count states =
     (case open_until state of
        None \<Rightarrow> count_open now items open_count states
      | Some t \<Rightarrow>
          if now < t then count_open now items (open_count + 1) states
          else count_open now items open_count (dict_pop key states))"

definition get_open_circuit_count ::
  "real \<Rightarrow> 'k poison_circuit \<Rightarrow> int \<times> 'k poison_circuit" where
  "get_open_circuit_count now C =
     (if \<not> pc_enabled C then (0, C)
      else let (n, states) = count_open now (pc_states C) 0 (pc_states C)
           in (n, C\<lparr>pc_states := states\<rparr>))"

section \<open>Circuits by key\<close>

abbreviation circuit :: "'k poison_circuit \<Rightarrow> 'k circuit_key \<Rightarrow> circuit_state option" where
  "circuit C key \<equiv> dict_get (pc_states C) key"

definition circuit_open :: "real \<Rightarrow> circuit_state option \<Rightarrow> bool" where
  "circuit_open now s = (\<exists>state t. s = Some state \<and> open_until state = Some t \<and> now < t)"

lemma record_completion_config [simp]:
  "pc_enabled (record_completion now ev w C) = pc_enabled C"
  "pc_failure_threshold (record_completion now ev w C) = pc_failure_threshold C"
  "pc_cooldown_seconds (record_completion now ev w C) = pc_cooldown_seconds C"
  "pc_forced_failure_attempt (record_completion now ev w C) = pc_forced_failure_attempt C"
  by (simp_all add: record_completion_def Let_def)

lemma should_force_fail_iff:
  "fst (should_force_fail_with prune now w C) \<longleftrightarrow> pc_enabled C \<and> circuit_open now (circuit C (circuit_key w))"
  by (auto simp: should_force_fail_with_def circuit_open_def split: option.splits)

lemma should_force_fail_True: "should_force_fail now w C = (True, C') \<Longrightarrow> C' = C"
  by (auto simp: should_force_fail_def should_force_fail_with_def split: if_splits option.splits)

lemma should_force_fail_config [simp]:
  "pc_enabled (snd (should_force_fail now w C)) = pc_enabled C"
  "pc_forced_failure_attempt (snd (should_force_fail now w C)) = pc_forced_failure_attempt C"
  by (auto simp: should_force_fail_def should_force_fail_with_def split: option.splits)

lemma record_completion_other:
  "key \<noteq> circuit_key w \<Longrightarrow> circuit (record_completion now ev w C) key = circuit C key"
  by (simp add: record_completion_def Let_def dict_simps)

section \<open>History\<close>

text \<open>
  A history entry is a completion, its work item and the clock reading. For a key, only
  successes and failures at or beyond the forced attempt matter.
\<close>

type_synonym ('k, 'p) poison_entry = "completion_event \<times> ('k, 'p) work_item \<times> real"

definition replay_completions ::
  "('k, 'p) poison_entry list \<Rightarrow> 'k poison_circuit \<Rightarrow> 'k poison_circuit" where
  "replay_completions h C = fold (\<lambda>(ev, w, now). record_completion now ev w) h C"

definition relevant :: "int \<Rightarrow> 'k circuit_key \<Rightarrow> ('k, 'p) poison_entry \<Rightarrow> bool" where
  "relevant attempt key = (\<lambda>(ev, w, now).
     circuit_key w = key \<and> (ce_status ev = SUCCESS \<or> attempt \<le> ce_attempt ev))"

text \<open>The counted failures of the key since its last success, latest first.\<close>

definition recent_failures ::
  "int \<Rightarrow> 'k circuit_key \<Rightarrow> ('k, 'p) poison_entry list \<Rightarrow> ('k, 'p) poison_entry list" where
  "recent_failures attempt key h =
     takeWhile (\<lambda>(ev, w, now). ce_status ev = FAILURE) (rev (filter (relevant attempt key) h))"

lemma recent_failures_snoc:
  "recent_failures a key (h @ [(ev, w, now)]) =
     (if relevant a key (ev, w, now) then
        (if ce_status ev = FAILURE then (ev, w, now) # recent_failures a key h else [])
      else recent_failures a key h)"
  by (simp add: recent_failures_def)

text \<open>What the history determines about the key's circuit.\<close>

definition circuit_matches ::
  "'k poison_circuit \<Rightarrow> ('k, 'p) poison_entry list \<Rightarrow> circuit_state option \<Rightarrow> bool" where
  "circuit_matches C fs s \<longleftrightarrow>
     (case fs of
        [] \<Rightarrow> s = None
      | (ev, w, now) # _ \<Rightarrow>
          s = Some \<lparr>failure_count = int (length fs),
                    open_until = (if int (length fs) \<ge> pc_failure_threshold C
                                  then Some (now + pc_cooldown_seconds C) else None)\<rparr>)"

lemma record_completion_matches:
  assumes "pc_enabled C"
    and "circuit_matches C (recent_failures (pc_forced_failure_attempt C) key h) (circuit C key)"
  shows "circuit_matches C
    (recent_failures (pc_forced_failure_attempt C) key (h @ [(ev, w, now)]))
    (circuit (record_completion now ev w C) key)"
proof (cases "circuit_key w = key")
  case False
  then show ?thesis
    using assms(2) by (simp add: recent_failures_snoc relevant_def record_completion_other)
next
  case True
  show ?thesis
  proof (cases "ce_status ev")
    case SUCCESS
    then show ?thesis
      using True assms(1)
      by (simp add: recent_failures_snoc relevant_def record_completion_def Let_def dict_simps
          circuit_matches_def)
  next
    case FAILURE
    let ?fs = "recent_failures (pc_forced_failure_attempt C) key h"
    have count: "failure_count (dict_get_default (pc_states C) key \<lparr>failure_count = 0, open_until = None\<rparr>)
        = int (length ?fs)"
      using assms(2) by (auto simp: circuit_matches_def dict_get_default_def split: list.splits)
    have openu: "open_until (dict_get_default (pc_states C) key \<lparr>failure_count = 0, open_until = None\<rparr>) = None"
      if "int (length ?fs) + 1 < pc_failure_threshold C"
      using assms(2) that by (auto simp: circuit_matches_def dict_get_default_def split: list.splits if_splits)
    show ?thesis
      using True FAILURE assms count openu
      by (auto simp: recent_failures_snoc relevant_def record_completion_def Let_def dict_simps
          circuit_matches_def[of C "_ # _"])
  qed
qed

lemma replay_matches:
  assumes "pc_enabled C" "pc_states C = []"
  shows "circuit_matches C (recent_failures (pc_forced_failure_attempt C) key h)
           (circuit (replay_completions h C) key) \<and>
         pc_enabled (replay_completions h C) \<and>
         pc_failure_threshold (replay_completions h C) = pc_failure_threshold C \<and>
         pc_cooldown_seconds (replay_completions h C) = pc_cooldown_seconds C \<and>
         pc_forced_failure_attempt (replay_completions h C) = pc_forced_failure_attempt C"
proof (induction h rule: rev_induct)
  case Nil
  then show ?case using assms by (simp add: replay_completions_def recent_failures_def circuit_matches_def)
next
  case (snoc x h)
  obtain ev w now where x: "x = (ev, w, now)" by (cases x) auto
  let ?C = "replay_completions h C"
  have cfg: "pc_enabled ?C" "pc_failure_threshold ?C = pc_failure_threshold C"
    "pc_cooldown_seconds ?C = pc_cooldown_seconds C"
    "pc_forced_failure_attempt ?C = pc_forced_failure_attempt C" using snoc by simp_all
  have same: "circuit_matches ?C = circuit_matches C"
    using cfg by (simp add: circuit_matches_def fun_eq_iff split: list.splits)
  have step: "replay_completions (h @ [x]) C = record_completion now ev w ?C"
    by (simp add: replay_completions_def x)
  show ?case
    using record_completion_matches[OF cfg(1), of key h ev w now] snoc cfg
    by (simp add: step[unfolded x] same x)
qed

section \<open>Properties\<close>


definition demo_poison_item :: "(nat, nat) work_item" where
  "demo_poison_item = \<lparr>wi_id = ''a'', wi_tp = TopicPartition ''t'' 0, wi_offset = 3, wi_epoch = 1,
     wi_key = 7, wi_payload = 0, wi_requeue_attempts = 0, wi_poison_key = Some 9\<rparr>"

definition demo_failure :: completion_event where
  "demo_failure = \<lparr>ce_id = ''a'', ce_tp = TopicPartition ''t'' 0, ce_offset = 3, ce_epoch = 1,
     ce_status = FAILURE, ce_error = None, ce_attempt = 2\<rparr>"


text \<open>Removing expired circuits never changes which circuits are open.\<close>

definition open_keys :: "real \<Rightarrow> 'k poison_circuit \<Rightarrow> 'k circuit_key set" where
  "open_keys now C = {key. circuit_open now (circuit C key)}"

lemma count_open_spec:
  assumes "dict_wf items"
  shows "count_open now items n states =
    (n + int (card {key. circuit_open now (dict_get items key)}),
     fold dict_pop (map fst (filter (\<lambda>(key, state). \<exists>t. open_until state = Some t \<and> \<not> now < t) items)) states)"
  using assms
proof (induction items arbitrary: n states)
  case Nil
  then show ?case by (simp add: circuit_open_def)
next
  case (Cons a items)
  obtain key state where a: "a = (key, state)" by (cases a)
  have new: "dict_get items key = None" and wf: "dict_wf items"
    using Cons.prems by (auto simp: a dict_wf_def map_of_eq_None_iff)
  have fin: "finite {key'. circuit_open now (dict_get items key')}"
    by (rule finite_subset[of _ "fst ` set items"])
      (auto simp: circuit_open_def dest: map_of_SomeD intro: rev_image_eqI)
  have split: "{key'. circuit_open now (dict_get ((key, state) # items) key')} =
      (if circuit_open now (Some state) then insert key {key'. circuit_open now (dict_get items key')}
       else {key'. circuit_open now (dict_get items key')})"
    using new by (auto simp: circuit_open_def split: if_splits)
  have nk: "key \<notin> {key'. circuit_open now (dict_get items key')}"
    using new by (simp add: circuit_open_def)
  show ?case
    using Cons.IH[OF wf] fin nk
    by (cases "open_until state") (auto simp: a split circuit_open_def[of now "Some state"] simp del: map_of.simps)
qed

lemma get_fold_pop:
  "dict_get (fold dict_pop ks d) k = (if k \<in> set ks then None else dict_get d k)"
  by (induction ks arbitrary: d) (auto simp: dict_simps)

text \<open>
  The open-circuit gauge is exact and harmless: it reports the number of keys whose work
  would be force-failed now, the read-only probe used for diagnostics agrees with the pruning
  one, and neither the gauge nor a pruning probe changes which circuits are open.
\<close>

theorem open_circuit_gauge_exact:
  assumes "dict_wf (pc_states C)" "pc_enabled C"
  shows "fst (get_open_circuit_count now C) = int (card (open_keys now C))
    \<and> open_keys now (snd (get_open_circuit_count now C)) = open_keys now C
    \<and> would_force_fail now w C = fst (should_force_fail now w C)
    \<and> would_force_fail now w C = (circuit_key w \<in> open_keys now C)
    \<and> open_keys now (snd (should_force_fail now w C)) = open_keys now C"
proof -
  have gauge: "get_open_circuit_count now C =
    (int (card (open_keys now C)),
     C\<lparr>pc_states := fold dict_pop (map fst (filter (\<lambda>(key, state).
        \<exists>t. open_until state = Some t \<and> \<not> now < t) (pc_states C))) (pc_states C)\<rparr>)"
    using assms by (simp add: get_open_circuit_count_def count_open_spec open_keys_def)
  have "open_keys now (snd (get_open_circuit_count now C)) = open_keys now C"
    using assms(1)
    by (auto simp: gauge open_keys_def get_fold_pop circuit_open_def dict_in_set_iff)
  moreover have "open_keys now (snd (should_force_fail now w C)) = open_keys now C"
    by (auto simp: open_keys_def should_force_fail_def should_force_fail_with_def circuit_open_def
        dict_simps split: option.splits if_splits)
  ultimately show ?thesis
    using assms(2)
    by (simp add: gauge would_force_fail_def should_force_fail_def should_force_fail_iff open_keys_def)
qed

theorem open_circuit_gauge_exact_witness:
  "let C = \<lparr>pc_enabled = True, pc_failure_threshold = 1, pc_cooldown_ms = 10,
            pc_cooldown_seconds = 1 / 100, pc_forced_failure_attempt = 1,
            pc_states = [(circuit_key demo_poison_item, \<lparr>failure_count = 1, open_until = Some 5\<rparr>)]\<rparr>
   in would_force_fail 4 demo_poison_item C \<and> circuit_key demo_poison_item \<in> open_keys 4 C"
proof -
  let ?C = "\<lparr>pc_enabled = True, pc_failure_threshold = 1, pc_cooldown_ms = 10,
            pc_cooldown_seconds = 1 / 100, pc_forced_failure_attempt = 1,
            pc_states = [(circuit_key demo_poison_item, \<lparr>failure_count = 1, open_until = Some 5\<rparr>)]\<rparr>"
  have wf: "dict_wf (pc_states ?C)" by (simp add: dict_wf_def)
  have en: "pc_enabled ?C" by simp
  have "would_force_fail 4 demo_poison_item ?C"
    by (simp add: would_force_fail_def should_force_fail_with_def)
  moreover have "would_force_fail 4 demo_poison_item ?C = (circuit_key demo_poison_item \<in> open_keys 4 ?C)"
    using open_circuit_gauge_exact[OF wf en, of 4 demo_poison_item] by blast
  ultimately show ?thesis by (simp add: Let_def)
qed

end
