(* ===== verification/Execution_Engine.thy ===== *)
theory Execution_Engine
  imports Dto
begin

text \<open>
  \<open>execution_plane/base.py\<close>: the contract between the scheduler and an execution engine. An
  engine is a record of operations over its own state. \<open>submit\<close> and \<open>submit_batch\<close> either
  return, raise \<open>BatchSubmitError\<close> with an accepted count, or raise anything else; the
  default \<open>submit_batch\<close> of the base class is modelled as written and interpreted as a
  \<open>batch_engine\<close>, the promise the scheduler's accounting rests on.
\<close>

datatype submit_outcome = Accepted | BatchSubmitError int | SubmitFailed

record ('w, 'e) engine_ops =
  eng_supports_ordered_route_batch :: bool
  eng_submit :: "'w \<Rightarrow> 'e \<Rightarrow> submit_outcome \<times> 'e"
  eng_submit_batch :: "'w list \<Rightarrow> 'e \<Rightarrow> submit_outcome \<times> 'e"
  eng_poll_completed_events :: "'e \<Rightarrow> completion_event list \<times> 'e"

text \<open>\<open>BaseExecutionEngine.submit_batch\<close>: item by item, counting the accepted ones.\<close>

fun default_submit_batch ::
  "('w \<Rightarrow> 'e \<Rightarrow> submit_outcome \<times> 'e) \<Rightarrow> int \<Rightarrow> 'w list \<Rightarrow> 'e \<Rightarrow> submit_outcome \<times> 'e" where
  "default_submit_batch submit accepted_count [] e = (Accepted, e)"
| "default_submit_batch submit accepted_count (w # ws) e =
     (case submit w e of
        (Accepted, e') \<Rightarrow> default_submit_batch submit (accepted_count + 1) ws e'
      | (BatchSubmitError _, e') \<Rightarrow> (BatchSubmitError accepted_count, e')
      | (SubmitFailed, e') \<Rightarrow> (BatchSubmitError accepted_count, e'))"

text \<open>The documented contract: a partial acceptance names a prefix of the batch.\<close>

locale batch_engine =
  fixes submit_batch :: "'w list \<Rightarrow> 'e \<Rightarrow> submit_outcome \<times> 'e"
  assumes accepted_prefix:
    "submit_batch ws e = (BatchSubmitError n, e') \<Longrightarrow> 0 \<le> n \<and> n \<le> int (length ws)"
begin

lemma accepted_items:
  "submit_batch ws e = (BatchSubmitError n, e') \<Longrightarrow> length (take (nat n) ws) = nat n"
  using accepted_prefix[of ws e n e'] by (simp add: min_absorb2 nat_le_iff)

end

lemma default_submit_batch_prefix:
  "default_submit_batch submit k ws e = (BatchSubmitError n, e') \<Longrightarrow> k \<le> n \<and> n < k + int (length ws)"
  by (induction ws arbitrary: k e) (fastforce split: prod.splits submit_outcome.splits)+

interpretation default_batch: batch_engine "default_submit_batch submit 0"
  by unfold_locales (auto dest: default_submit_batch_prefix)

end
