(* ===== verification/Work_Manager.thy ===== *)
theory Work_Manager
  imports Offset_Tracker Work_Queue_Topology Poison_Message Execution_Engine
begin

text \<open>
  \<open>control_plane/work_manager.py\<close>: scheduling of work items onto the execution engine,
  ordering locks and in-flight accounting, and the processing of completions.

  One record field per attribute of \<open>WorkManager\<close>, one definition per method. The engine and
  the third-party containers are operations in the environment \<open>wm_env\<close>, with the engine's
  state in the record. \<open>wm_ticks\<close> and \<open>wm_uuids\<close> count the clock readings and the \<open>uuid4\<close> calls
  so far: the n-th reading is \<open>env_clock V n\<close> and the n-th id \<open>env_uuid V n\<close>, both arbitrary;
  \<open>env_set_order\<close> is the order in which Python iterates over a set of keys.
  A tracker shared with the poller is held by value: an operation of the poller on it acts on
  the same field. Metrics observers and log calls are left out. A method runs without
  interleaving of other methods.
\<close>

section \<open>State\<close>

record ('k, 'p, 's, 'c, 'e) wm_env =
  env_containers :: "('s, 'c) container_ops"
  env_engine :: "(('k, 'p) work_item, 'e) engine_ops"
  env_clock :: "nat \<Rightarrow> real"
  env_uuid :: "nat \<Rightarrow> string"
  env_set_order :: "'k queue_key set \<Rightarrow> 'k queue_key list"

record ('k, 'p, 's, 'c, 'e) work_manager =
  wm_execution_engine :: 'e
  wm_offset_trackers :: "(topic_partition, ('s, 'c) offset_tracker) dict"
  wm_queue_topology :: "('k, 'p) topology"
  wm_completion_queue :: "completion_event list"
  wm_in_flight_work_items :: "(string, ('k, 'p) work_item) dict"
  wm_work_item_ids_by_tp_offset :: "(topic_partition \<times> int, string) dict"
  wm_dispatch_timestamps :: "(string, real) dict"
  wm_total_queued_messages :: int
  wm_completion_latency_ema_seconds :: "real option"
  wm_completion_timestamps :: "real list"
  wm_completion_rate_window_seconds :: real
  wm_max_in_flight_messages :: int
  wm_current_in_flight_count :: int
  wm_rebalancing :: bool
  wm_ordering_mode :: ordering_mode
  wm_max_revoke_grace_ms :: int
  wm_keys_in_flight :: "'k queue_key set"
  wm_partitions_in_flight :: "topic_partition set"
  wm_key_in_flight_counts :: "('k queue_key, int) dict"
  wm_partition_in_flight_counts :: "(topic_partition, int) dict"
  wm_leased_queue_keys :: "'k queue_key set"
  wm_blocking_cache :: "(topic_partition, offset_range option) dict"
  wm_blocking_cache_ttl :: int
  wm_blocking_cache_counter :: int
  wm_shared_offset_trackers :: "topic_partition set"
  wm_poison_message_circuit :: "'k poison_circuit option"
  wm_route_batch_size :: int
  wm_ticks :: nat
  wm_uuids :: nat

definition work_manager_init ::
  "'e \<Rightarrow> int \<Rightarrow> ordering_mode \<Rightarrow> int \<Rightarrow> int \<Rightarrow> 'k poison_circuit option \<Rightarrow> int
    \<Rightarrow> py_error + ('k, 'p, 's, 'c, 'e) work_manager" where
  "work_manager_init engine max_in_flight mode cache_ttl grace_ms poison route_batch_size =
     (if route_batch_size < 1 then Inl ValueError
      else Inr
        \<lparr>wm_execution_engine = engine, wm_offset_trackers = [], wm_queue_topology = topology_init,
         wm_completion_queue = [], wm_in_flight_work_items = [],
         wm_work_item_ids_by_tp_offset = [], wm_dispatch_timestamps = [],
         wm_total_queued_messages = 0, wm_completion_latency_ema_seconds = None,
         wm_completion_timestamps = [], wm_completion_rate_window_seconds = 5,
         wm_max_in_flight_messages = max_in_flight, wm_current_in_flight_count = 0,
         wm_rebalancing = False, wm_ordering_mode = mode, wm_max_revoke_grace_ms = grace_ms,
         wm_keys_in_flight = {}, wm_partitions_in_flight = {}, wm_key_in_flight_counts = [],
         wm_partition_in_flight_counts = [], wm_leased_queue_keys = {}, wm_blocking_cache = [],
         wm_blocking_cache_ttl = cache_ttl, wm_blocking_cache_counter = 0,
         wm_shared_offset_trackers = {}, wm_poison_message_circuit = poison,
         wm_route_batch_size = route_batch_size, wm_ticks = 0, wm_uuids = 0\<rparr>)"

definition read_clock ::
  "('k, 'p, 's, 'c, 'e) wm_env \<Rightarrow> ('k, 'p, 's, 'c, 'e) work_manager
    \<Rightarrow> real \<times> ('k, 'p, 's, 'c, 'e) work_manager" where
  "read_clock V s = (env_clock V (wm_ticks s), s\<lparr>wm_ticks := wm_ticks s + 1\<rparr>)"

section \<open>Completion latency and rate\<close>

definition prune_completion_timestamps ::
  "real \<Rightarrow> ('k, 'p, 's, 'c, 'e) work_manager \<Rightarrow> ('k, 'p, 's, 'c, 'e) work_manager" where
  "prune_completion_timestamps now s =
     s\<lparr>wm_completion_timestamps :=
         dropWhile (\<lambda>t. t < now - wm_completion_rate_window_seconds s) (wm_completion_timestamps s)\<rparr>"

definition get_recent_completion_rate_per_second ::
  "real \<Rightarrow> ('k, 'p, 's, 'c, 'e) work_manager \<Rightarrow> real \<times> ('k, 'p, 's, 'c, 'e) work_manager" where
  "get_recent_completion_rate_per_second now s =
     (let s1 = prune_completion_timestamps now s
      in (if wm_completion_rate_window_seconds s1 \<le> 0 then 0
          else real (length (wm_completion_timestamps s1)) / wm_completion_rate_window_seconds s1,
          s1))"

text \<open>A bounded deque (\<open>maxlen=256\<close>): appending to a full one drops the oldest entry.\<close>

definition deque_append :: "nat \<Rightarrow> 'a \<Rightarrow> 'a list \<Rightarrow> 'a list" where
  "deque_append maxlen x xs = drop (length xs + 1 - maxlen) (xs @ [x])"

definition record_completion_latency ::
  "real \<Rightarrow> real \<Rightarrow> ('k, 'p, 's, 'c, 'e) work_manager \<Rightarrow> ('k, 'p, 's, 'c, 'e) work_manager" where
  "record_completion_latency duration_seconds now s =
     prune_completion_timestamps now
       (s\<lparr>wm_completion_latency_ema_seconds :=
            Some (case wm_completion_latency_ema_seconds s of
                    None \<Rightarrow> duration_seconds
                  | Some ema \<Rightarrow> ema * (8 / 10) + duration_seconds * (2 / 10)),
          wm_completion_timestamps := deque_append 256 now (wm_completion_timestamps s)\<rparr>)"

section \<open>Ordering locks\<close>

definition invalidate_blocking_cache ::
  "('k, 'p, 's, 'c, 'e) work_manager \<Rightarrow> ('k, 'p, 's, 'c, 'e) work_manager" where
  "invalidate_blocking_cache s = s\<lparr>wm_blocking_cache_counter := 0\<rparr>"

definition is_queue_eligible :: "('k, 'p, 's, 'c, 'e) work_manager \<Rightarrow> 'k queue_key \<Rightarrow> bool" where
  "is_queue_eligible s queue_key =
     (case wm_ordering_mode s of
        KEY_HASH \<Rightarrow> queue_key \<notin> wm_keys_in_flight s
      | PARTITION \<Rightarrow> fst queue_key \<notin> wm_partitions_in_flight s
      | UNORDERED \<Rightarrow> True)"

definition record_ordering_lock ::
  "('k, 'p) work_item \<Rightarrow> ('k, 'p, 's, 'c, 'e) work_manager \<Rightarrow> ('k, 'p, 's, 'c, 'e) work_manager" where
  "record_ordering_lock item s =
     (case wm_ordering_mode s of
        KEY_HASH \<Rightarrow>
          let key = (wi_tp item, wi_key item)
          in s\<lparr>wm_key_in_flight_counts :=
                 dict_set key (dict_get_default (wm_key_in_flight_counts s) key 0 + 1)
                   (wm_key_in_flight_counts s),
               wm_keys_in_flight := insert key (wm_keys_in_flight s)\<rparr>
      | PARTITION \<Rightarrow>
          s\<lparr>wm_partition_in_flight_counts :=
              dict_set (wi_tp item)
                (dict_get_default (wm_partition_in_flight_counts s) (wi_tp item) 0 + 1)
                (wm_partition_in_flight_counts s),
            wm_partitions_in_flight := insert (wi_tp item) (wm_partitions_in_flight s)\<rparr>
      | UNORDERED \<Rightarrow> s)"

definition release_ordering_lock ::
  "('k, 'p) work_item \<Rightarrow> ('k, 'p, 's, 'c, 'e) work_manager \<Rightarrow> ('k, 'p, 's, 'c, 'e) work_manager" where
  "release_ordering_lock item s =
     (case wm_ordering_mode s of
        KEY_HASH \<Rightarrow>
          let key = (wi_tp item, wi_key item);
              remaining = dict_get_default (wm_key_in_flight_counts s) key 1 - 1
          in if remaining > 0
             then s\<lparr>wm_key_in_flight_counts := dict_set key remaining (wm_key_in_flight_counts s)\<rparr>
             else s\<lparr>wm_key_in_flight_counts := dict_pop key (wm_key_in_flight_counts s),
                    wm_keys_in_flight := wm_keys_in_flight s - {key}\<rparr>
      | PARTITION \<Rightarrow>
          let remaining = dict_get_default (wm_partition_in_flight_counts s) (wi_tp item) 1 - 1
          in if remaining > 0
             then s\<lparr>wm_partition_in_flight_counts :=
                      dict_set (wi_tp item) remaining (wm_partition_in_flight_counts s)\<rparr>
             else s\<lparr>wm_partition_in_flight_counts :=
                      dict_pop (wi_tp item) (wm_partition_in_flight_counts s),
                    wm_partitions_in_flight := wm_partitions_in_flight s - {wi_tp item}\<rparr>
      | UNORDERED \<Rightarrow> s)"

section \<open>Release and forced failure\<close>

text \<open>
  The returned pair is \<open>(released, dispatch_time)\<close>. The three middle assignments act on
  separate fields.
\<close>

definition release_in_flight_item ::
  "string \<Rightarrow> bool \<Rightarrow> ('k, 'p, 's, 'c, 'e) work_manager
    \<Rightarrow> (bool \<times> real option) \<times> ('k, 'p, 's, 'c, 'e) work_manager" where
  "release_in_flight_item work_item_id reschedule s =
     (let dispatch_time = dict_get (wm_dispatch_timestamps s) work_item_id;
          s0 = s\<lparr>wm_in_flight_work_items := dict_pop work_item_id (wm_in_flight_work_items s),
                 wm_dispatch_timestamps := dict_pop work_item_id (wm_dispatch_timestamps s)\<rparr>
      in case dict_get (wm_in_flight_work_items s) work_item_id of
           None \<Rightarrow> ((False, dispatch_time), s0)
         | Some item \<Rightarrow>
             let tp_offset = (wi_tp item, wi_offset item);
                 s1 = (if dict_get (wm_work_item_ids_by_tp_offset s0) tp_offset = Some work_item_id
                       then s0\<lparr>wm_work_item_ids_by_tp_offset :=
                                 dict_pop tp_offset (wm_work_item_ids_by_tp_offset s0)\<rparr>
                       else s0);
                 s2 = (if dispatch_time \<noteq> None then release_ordering_lock item s1 else s1);
                 s3 = s2\<lparr>wm_queue_topology :=
                           cleanup_empty_queue (wi_tp item) (wi_key item) (wm_queue_topology s2)\<rparr>;
                 s4 = (if dispatch_time \<noteq> None
                       then s3\<lparr>wm_current_in_flight_count := max 0 (wm_current_in_flight_count s3 - 1)\<rparr>
                       else s3);
                 s5 = (if reschedule then invalidate_blocking_cache s4 else s4)
             in ((True, dispatch_time), s5))"

text \<open>The linear search falls back on the first matching item, in insertion order.\<close>

definition force_fail ::
  "topic_partition \<Rightarrow> int \<Rightarrow> int \<Rightarrow> string \<Rightarrow> int \<Rightarrow> ('k, 'p, 's, 'c, 'e) work_manager
    \<Rightarrow> bool \<times> ('k, 'p, 's, 'c, 'e) work_manager" where
  "force_fail tp offset epoch error attempt s =
     (let found =
            (case dict_get (wm_work_item_ids_by_tp_offset s) (tp, offset) of
               Some work_id \<Rightarrow> Some (work_id, s)
             | None \<Rightarrow>
                 (case find (\<lambda>(candidate_id, item). wi_tp item = tp \<and> wi_offset item = offset)
                         (wm_in_flight_work_items s) of
                    None \<Rightarrow> None
                  | Some (candidate_id, _) \<Rightarrow>
                      Some (candidate_id,
                        s\<lparr>wm_work_item_ids_by_tp_offset :=
                            dict_set (tp, offset) candidate_id (wm_work_item_ids_by_tp_offset s)\<rparr>)))
      in case found of
           None \<Rightarrow> (False, s)
         | Some (work_id, s1) \<Rightarrow>
             (True,
              s1\<lparr>wm_completion_queue := wm_completion_queue s1 @
                   [\<lparr>ce_id = work_id, ce_tp = tp, ce_offset = offset, ce_epoch = epoch,
                     ce_status = FAILURE, ce_error = Some error, ce_attempt = attempt\<rparr>]\<rparr>))"

section \<open>Assignment and revocation\<close>

datatype ('s, 'c) assignment = StartingOffset int | SharedTracker "('s, 'c) offset_tracker"

definition assign_one ::
  "('k, 'p, 's, 'c, 'e) wm_env \<Rightarrow> topic_partition \<times> ('s, 'c) assignment
    \<Rightarrow> ('k, 'p, 's, 'c, 'e) work_manager \<Rightarrow> ('k, 'p, 's, 'c, 'e) work_manager" where
  "assign_one V a s =
     (case a of (tp, tracker_or_offset) \<Rightarrow>
        let s1 = (case tracker_or_offset of
                    StartingOffset starting_offset \<Rightarrow>
                      s\<lparr>wm_offset_trackers :=
                          dict_set tp
                            (offset_tracker_init (env_containers V) tp starting_offset
                              (wm_max_revoke_grace_ms s) None)
                            (wm_offset_trackers s),
                        wm_shared_offset_trackers := wm_shared_offset_trackers s - {tp}\<rparr>
                  | SharedTracker tracker \<Rightarrow>
                      s\<lparr>wm_offset_trackers := dict_set tp tracker (wm_offset_trackers s),
                        wm_shared_offset_trackers := insert tp (wm_shared_offset_trackers s)\<rparr>)
        in s1\<lparr>wm_queue_topology := assign tp (wm_queue_topology s1)\<rparr>)"

definition on_assign ::
  "('k, 'p, 's, 'c, 'e) wm_env \<Rightarrow> (topic_partition, ('s, 'c) assignment) dict
    \<Rightarrow> ('k, 'p, 's, 'c, 'e) work_manager \<Rightarrow> ('k, 'p, 's, 'c, 'e) work_manager" where
  "on_assign V assignments s =
     invalidate_blocking_cache ((fold (assign_one V) assignments s)\<lparr>wm_rebalancing := False\<rparr>)"

definition on_assign_list ::
  "('k, 'p, 's, 'c, 'e) wm_env \<Rightarrow> topic_partition list
    \<Rightarrow> ('k, 'p, 's, 'c, 'e) work_manager \<Rightarrow> ('k, 'p, 's, 'c, 'e) work_manager" where
  "on_assign_list V assigned_tps s =
     on_assign V (fold (\<lambda>tp. dict_set tp (StartingOffset 0)) assigned_tps []) s"

definition revoke_one ::
  "topic_partition \<Rightarrow> ('k, 'p, 's, 'c, 'e) work_manager \<Rightarrow> ('k, 'p, 's, 'c, 'e) work_manager" where
  "revoke_one tp s =
     (let (removed_count, T) = revoke tp (wm_queue_topology s)
      in s\<lparr>wm_queue_topology := T,
           wm_total_queued_messages := max 0 (wm_total_queued_messages s - removed_count),
           wm_offset_trackers := dict_pop tp (wm_offset_trackers s),
           wm_shared_offset_trackers := wm_shared_offset_trackers s - {tp},
           wm_poison_message_circuit := map_option (clear_partition tp) (wm_poison_message_circuit s)\<rparr>)"

definition on_revoke ::
  "topic_partition list \<Rightarrow> ('k, 'p, 's, 'c, 'e) work_manager
    \<Rightarrow> ('k, 'p, 's, 'c, 'e) work_manager" where
  "on_revoke revoked_tps s =
     (let s1 = fold revoke_one revoked_tps s;
          s2 =
            (if revoked_tps = [] then s1
             else
               let stale_ids =
                     [work_id. (work_id, item) \<leftarrow> wm_in_flight_work_items s1,
                               wi_tp item \<in> set revoked_tps];
                   a = fold (\<lambda>work_id s. snd (release_in_flight_item work_id False s)) stale_ids s1;
                   b = (case wm_ordering_mode a of
                          KEY_HASH \<Rightarrow>
                            a\<lparr>wm_keys_in_flight :=
                                {key \<in> wm_keys_in_flight a. fst key \<notin> set revoked_tps}\<rparr>
                        | PARTITION \<Rightarrow>
                            a\<lparr>wm_partitions_in_flight := wm_partitions_in_flight a - set revoked_tps\<rparr>
                        | UNORDERED \<Rightarrow> a)
               in b\<lparr>wm_key_in_flight_counts :=
                      dict_filter (\<lambda>key. fst key \<notin> set revoked_tps) (wm_key_in_flight_counts b),
                    wm_partition_in_flight_counts :=
                      dict_filter (\<lambda>tp. tp \<notin> set revoked_tps) (wm_partition_in_flight_counts b)\<rparr>)
      in invalidate_blocking_cache (s2\<lparr>wm_rebalancing := True\<rparr>))"

section \<open>Submission of messages\<close>

text \<open>A grouped message is a triple, or a quadruple that carries its own poison key.\<close>

datatype ('k, 'p) grouped_message =
    Message int int 'p
  | MessageWithPoisonKey int int 'p 'k

fun message_offset :: "('k, 'p) grouped_message \<Rightarrow> int" where
  "message_offset (Message offset epoch payload) = offset"
| "message_offset (MessageWithPoisonKey offset epoch payload poison_key) = offset"

fun make_work_item ::
  "string \<Rightarrow> topic_partition \<Rightarrow> 'k \<Rightarrow> ('k, 'p) grouped_message \<Rightarrow> ('k, 'p) work_item" where
  "make_work_item work_item_id tp key (Message offset epoch payload) =
     \<lparr>wi_id = work_item_id, wi_tp = tp, wi_offset = offset, wi_epoch = epoch, wi_key = key,
      wi_payload = payload, wi_requeue_attempts = 0, wi_poison_key = Some key\<rparr>"
| "make_work_item work_item_id tp key (MessageWithPoisonKey offset epoch payload poison_key) =
     \<lparr>wi_id = work_item_id, wi_tp = tp, wi_offset = offset, wi_epoch = epoch, wi_key = key,
      wi_payload = payload, wi_requeue_attempts = 0, wi_poison_key = Some poison_key\<rparr>"

text \<open>The loop over the messages of one group: the items made and the highest offsets seen.\<close>

fun register_messages ::
  "('k, 'p, 's, 'c, 'e) wm_env \<Rightarrow> topic_partition \<Rightarrow> 'k \<Rightarrow> ('k, 'p) grouped_message list
    \<Rightarrow> (topic_partition, int) dict \<Rightarrow> ('k, 'p, 's, 'c, 'e) work_manager
    \<Rightarrow> ('k, 'p) work_item list \<times> (topic_partition, int) dict \<times> ('k, 'p, 's, 'c, 'e) work_manager" where
  "register_messages V tp key [] max_offsets s = ([], max_offsets, s)"
| "register_messages V tp key (message # messages) max_offsets s =
     (let work_item_id = env_uuid V (wm_uuids s);
          work_item = make_work_item work_item_id tp key message;
          offset = message_offset message;
          s1 = s\<lparr>wm_uuids := wm_uuids s + 1,
                 wm_in_flight_work_items :=
                   dict_set work_item_id work_item (wm_in_flight_work_items s),
                 wm_work_item_ids_by_tp_offset :=
                   dict_set (tp, offset) work_item_id (wm_work_item_ids_by_tp_offset s)\<rparr>;
          max_offsets1 =
            (case dict_get max_offsets tp of
               None \<Rightarrow> dict_set tp offset max_offsets
             | Some previous_max \<Rightarrow>
                 if offset > previous_max then dict_set tp offset max_offsets else max_offsets);
          (work_items, max_offsets2, s2) = register_messages V tp key messages max_offsets1 s1
      in (work_item # work_items, max_offsets2, s2))"

type_synonym ('k, 'p) grouped_messages = "('k queue_key, ('k, 'p) grouped_message list) dict"

fun enqueue_groups ::
  "('k, 'p, 's, 'c, 'e) wm_env \<Rightarrow> ('k, 'p) grouped_messages \<Rightarrow> (topic_partition, int) dict
    \<Rightarrow> ('k, 'p, 's, 'c, 'e) work_manager
    \<Rightarrow> (py_error + (topic_partition, int) dict) \<times> ('k, 'p, 's, 'c, 'e) work_manager" where
  "enqueue_groups V [] max_offsets s = (Inr max_offsets, s)"
| "enqueue_groups V (((tp, key), messages) # groups) max_offsets s =
     (if \<not> dict_has (virtual_partition_queues (wm_queue_topology s)) tp then (Inl ValueError, s)
      else
        let (work_items, max_offsets1, s1) = register_messages V tp key messages max_offsets s
        in case enqueue_batch tp key work_items (wm_queue_topology s1) of
             (Inl e, T) \<Rightarrow> (Inl e, s1\<lparr>wm_queue_topology := T\<rparr>)
           | (Inr _, T) \<Rightarrow>
               enqueue_groups V groups max_offsets1
                 (s1\<lparr>wm_queue_topology := T,
                     wm_total_queued_messages :=
                       wm_total_queued_messages s1 + int (length work_items)\<rparr>))"

definition record_fetched ::
  "('k, 'p, 's, 'c, 'e) wm_env \<Rightarrow> topic_partition \<times> int
    \<Rightarrow> ('k, 'p, 's, 'c, 'e) work_manager \<Rightarrow> ('k, 'p, 's, 'c, 'e) work_manager" where
  "record_fetched V p s =
     (case dict_get (wm_offset_trackers s) (fst p) of
        None \<Rightarrow> s
      | Some tracker \<Rightarrow>
          s\<lparr>wm_offset_trackers :=
              dict_set (fst p) (update_last_fetched_offset (env_containers V) (snd p) tracker)
                (wm_offset_trackers s)\<rparr>)"

definition submit_message_batch ::
  "('k, 'p, 's, 'c, 'e) wm_env \<Rightarrow> ('k, 'p) grouped_messages
    \<Rightarrow> ('k, 'p, 's, 'c, 'e) work_manager
    \<Rightarrow> (py_error + unit) \<times> ('k, 'p, 's, 'c, 'e) work_manager" where
  "submit_message_batch V grouped_messages s =
     (case enqueue_groups V grouped_messages [] s of
        (Inl e, s1) \<Rightarrow> (Inl e, s1)
      | (Inr max_offsets, s1) \<Rightarrow>
          (Inr (),
           if max_offsets = [] then s1
           else invalidate_blocking_cache (fold (record_fetched V) max_offsets s1)))"

definition submit_message ::
  "('k, 'p, 's, 'c, 'e) wm_env \<Rightarrow> topic_partition \<Rightarrow> int \<Rightarrow> int \<Rightarrow> 'k \<Rightarrow> 'p
    \<Rightarrow> ('k, 'p, 's, 'c, 'e) work_manager
    \<Rightarrow> (py_error + unit) \<times> ('k, 'p, 's, 'c, 'e) work_manager" where
  "submit_message V tp offset epoch key payload s =
     submit_message_batch V [((tp, key), [Message offset epoch payload])] s"

section \<open>Scheduling\<close>

definition resolve_route_batch_limit ::
  "('k, 'p, 's, 'c, 'e) wm_env \<Rightarrow> ('k, 'p, 's, 'c, 'e) work_manager \<Rightarrow> int" where
  "resolve_route_batch_limit V s =
     (let remaining_capacity = wm_max_in_flight_messages s - wm_current_in_flight_count s
      in if remaining_capacity \<le> 0 then 0
         else if wm_ordering_mode s = PARTITION then 1
         else if wm_ordering_mode s = KEY_HASH
                 \<and> \<not> eng_supports_ordered_route_batch (env_engine V) then 1
         else min (wm_route_batch_size s) remaining_capacity)"

definition resolve_logical_eligible_prefix_limit ::
  "('k, 'p, 's, 'c, 'e) wm_env \<Rightarrow> ('k, 'p, 's, 'c, 'e) work_manager \<Rightarrow> int" where
  "resolve_logical_eligible_prefix_limit V s =
     (if wm_ordering_mode s = PARTITION then 1
      else if wm_ordering_mode s = KEY_HASH
              \<and> \<not> eng_supports_ordered_route_batch (env_engine V) then 1
      else wm_route_batch_size s)"

definition select_same_queue_batch ::
  "('k, 'p, 's, 'c, 'e) wm_env \<Rightarrow> ('k, 'p) virtual_queue \<Rightarrow> ('k, 'p, 's, 'c, 'e) work_manager
    \<Rightarrow> ('k, 'p) work_item list" where
  "select_same_queue_batch V queue s = peek_queue_batch queue (resolve_route_batch_limit V s)"

text \<open>Asking the breaker reads the clock once and may prune the circuit.\<close>

definition ask_circuit ::
  "('k, 'p, 's, 'c, 'e) wm_env \<Rightarrow> ('k, 'p) work_item \<Rightarrow> ('k, 'p, 's, 'c, 'e) work_manager
    \<Rightarrow> bool \<times> ('k, 'p, 's, 'c, 'e) work_manager" where
  "ask_circuit V item s =
     (case wm_poison_message_circuit s of
        None \<Rightarrow> (False, s)
      | Some C \<Rightarrow>
          let (now, s1) = read_clock V s; (verdict, C1) = should_force_fail now item C
          in (verdict, s1\<lparr>wm_poison_message_circuit := Some C1\<rparr>))"

fun truncate_loop ::
  "('k, 'p, 's, 'c, 'e) wm_env \<Rightarrow> ('k, 'p) work_item list \<Rightarrow> ('k, 'p, 's, 'c, 'e) work_manager
    \<Rightarrow> ('k, 'p) work_item list \<times> ('k, 'p, 's, 'c, 'e) work_manager" where
  "truncate_loop V [] s = ([], s)"
| "truncate_loop V (item # items) s =
     (case ask_circuit V item s of
        (True, s1) \<Rightarrow> ([], s1)
      | (False, s1) \<Rightarrow> (let (accepted, s2) = truncate_loop V items s1 in (item # accepted, s2)))"

definition truncate_batch_before_force_fail ::
  "('k, 'p, 's, 'c, 'e) wm_env \<Rightarrow> ('k, 'p) work_item list \<Rightarrow> ('k, 'p, 's, 'c, 'e) work_manager
    \<Rightarrow> ('k, 'p) work_item list \<times> ('k, 'p, 's, 'c, 'e) work_manager" where
  "truncate_batch_before_force_fail V items s =
     (if wm_poison_message_circuit s = None then (items, s) else truncate_loop V items s)"

definition record_submitted_item ::
  "('k, 'p, 's, 'c, 'e) wm_env \<Rightarrow> ('k, 'p) work_item \<Rightarrow> ('k, 'p, 's, 'c, 'e) work_manager
    \<Rightarrow> ('k, 'p, 's, 'c, 'e) work_manager" where
  "record_submitted_item V item s =
     (let s1 = s\<lparr>wm_total_queued_messages := max 0 (wm_total_queued_messages s - 1),
                 wm_current_in_flight_count := wm_current_in_flight_count s + 1\<rparr>;
          (now, s2) = read_clock V s1
      in record_ordering_lock item
           (s2\<lparr>wm_dispatch_timestamps := dict_set (wi_id item) now (wm_dispatch_timestamps s2)\<rparr>))"

definition record_submitted_items ::
  "('k, 'p, 's, 'c, 'e) wm_env \<Rightarrow> ('k, 'p) work_item list \<Rightarrow> ('k, 'p, 's, 'c, 'e) work_manager
    \<Rightarrow> ('k, 'p, 's, 'c, 'e) work_manager" where
  "record_submitted_items V items s = fold (record_submitted_item V) items s"

definition force_fail_queued_item ::
  "('k, 'p, 's, 'c, 'e) wm_env \<Rightarrow> ('k, 'p) work_item \<Rightarrow> 'k queue_key
    \<Rightarrow> ('k, 'p, 's, 'c, 'e) work_manager \<Rightarrow> bool \<times> ('k, 'p, 's, 'c, 'e) work_manager" where
  "force_fail_queued_item V item q s =
     (case ask_circuit V item s of
        (False, s1) \<Rightarrow> (False, s1)
      | (True, s1) \<Rightarrow>
          (case dequeue_submitted_item (fst q) (snd q) (wm_queue_topology s1) of
             (None, T) \<Rightarrow> (False, s1\<lparr>wm_queue_topology := T\<rparr>)
           | (Some dequeued_item, T) \<Rightarrow>
               (True,
                invalidate_blocking_cache
                  (s1\<lparr>wm_queue_topology := T,
                      wm_total_queued_messages := max 0 (wm_total_queued_messages s1 - 1),
                      wm_completion_queue := wm_completion_queue s1 @
                        (case wm_poison_message_circuit s1 of
                           None \<Rightarrow> []
                         | Some C \<Rightarrow> [build_forced_failure_event dequeued_item C])\<rparr>))))"

definition pop_queue_key ::
  "(topic_partition, offset_range option) dict \<Rightarrow> ('k, 'p, 's, 'c, 'e) work_manager
    \<Rightarrow> (py_error + 'k queue_key option) \<times> ('k, 'p, 's, 'c, 'e) work_manager" where
  "pop_queue_key blocking_offsets s =
     (case pick_blocking_queue_key blocking_offsets (is_queue_eligible s) (wm_queue_topology s) of
        (Some q, T) \<Rightarrow> (Inr (Some q), s\<lparr>wm_queue_topology := T\<rparr>)
      | (None, T) \<Rightarrow>
          (case pick_next_runnable_queue_key (is_queue_eligible s) T of
             (r, T') \<Rightarrow> (r, s\<lparr>wm_queue_topology := T'\<rparr>)))"

definition submit_to_engine ::
  "('k, 'p, 's, 'c, 'e) wm_env \<Rightarrow> ('k, 'p) work_item list \<Rightarrow> ('k, 'p, 's, 'c, 'e) work_manager
    \<Rightarrow> submit_outcome \<times> ('k, 'p, 's, 'c, 'e) work_manager" where
  "submit_to_engine V items s =
     (let (outcome, e) =
            (case items of
               [item] \<Rightarrow> eng_submit (env_engine V) item (wm_execution_engine s)
             | _ \<Rightarrow> eng_submit_batch (env_engine V) items (wm_execution_engine s))
      in (outcome, s\<lparr>wm_execution_engine := e\<rparr>))"

text \<open>What one pass of the scheduling loop decides: go on, or leave it.\<close>

datatype step_result = Continue | Return | Raise py_error

text \<open>
  The \<open>try\<close> around the submission, with its three handlers and the \<open>finally\<close> that ends the
  lease. The deferred keys are those whose batch was cut short by the breaker.
\<close>

definition dispatch_batch ::
  "('k, 'p, 's, 'c, 'e) wm_env \<Rightarrow> 'k queue_key \<Rightarrow> ('k, 'p) virtual_queue \<Rightarrow> ('k, 'p) work_item list
    \<Rightarrow> bool \<Rightarrow> 'k queue_key set \<Rightarrow> ('k, 'p, 's, 'c, 'e) work_manager
    \<Rightarrow> step_result \<times> 'k queue_key set \<times> ('k, 'p, 's, 'c, 'e) work_manager" where
  "dispatch_batch V q queue items truncated deferred s =
     (let s0 = s\<lparr>wm_leased_queue_keys := insert q (wm_leased_queue_keys s)\<rparr>;
          (outcome, s1) = submit_to_engine V items s0;
          (result, deferred1, s2) =
            (case outcome of
               Accepted \<Rightarrow>
                 (let (dequeued, T) = dequeue_submitted_items (fst q) (snd q) (int (length items))
                                        (wm_queue_topology s1);
                      a = s1\<lparr>wm_queue_topology := T\<rparr>
                  in if dequeued = [] then (Return, deferred, a)
                     else
                       let b = record_submitted_items V dequeued a
                       in if truncated
                          then (Continue, insert q deferred,
                                b\<lparr>wm_queue_topology := deactivate_queue_key q (wm_queue_topology b)\<rparr>)
                          else (Continue, deferred, b))
             | BatchSubmitError accepted_count \<Rightarrow>
                 if accepted_count > 0 then
                   (let (dequeued, T) = dequeue_submitted_items (fst q) (snd q) accepted_count
                                          (wm_queue_topology s1)
                    in (Return, deferred,
                        record_submitted_items V dequeued (s1\<lparr>wm_queue_topology := T\<rparr>)))
                 else
                   (Return, deferred,
                    s1\<lparr>wm_queue_topology :=
                         refresh_queue_head (wi_tp (hd items)) (wi_key (hd items)) queue
                           (wm_queue_topology s1)\<rparr>)
             | SubmitFailed \<Rightarrow>
                 (Return, deferred,
                  s1\<lparr>wm_queue_topology :=
                       refresh_queue_head (wi_tp (hd items)) (wi_key (hd items)) queue
                         (wm_queue_topology s1)\<rparr>))
      in (result, deferred1, s2\<lparr>wm_leased_queue_keys := wm_leased_queue_keys s2 - {q}\<rparr>))"

definition schedule_step ::
  "('k, 'p, 's, 'c, 'e) wm_env \<Rightarrow> (topic_partition, offset_range option) dict
    \<Rightarrow> 'k queue_key set \<Rightarrow> ('k, 'p, 's, 'c, 'e) work_manager
    \<Rightarrow> step_result \<times> 'k queue_key set \<times> ('k, 'p, 's, 'c, 'e) work_manager" where
  "schedule_step V blocking_offsets deferred s =
     (if wm_current_in_flight_count s \<ge> wm_max_in_flight_messages s then (Return, deferred, s)
      else if wm_rebalancing s then (Return, deferred, s)
      else
        case pop_queue_key blocking_offsets s of
          (Inl e, s1) \<Rightarrow> (Raise e, deferred, s1)
        | (Inr None, s1) \<Rightarrow> (Return, deferred, s1)
        | (Inr (Some q), s1) \<Rightarrow>
            (case get_queue (fst q) (snd q) (wm_queue_topology s1) of
               None \<Rightarrow>
                 (Continue, deferred,
                  s1\<lparr>wm_queue_topology := deactivate_queue_key q (wm_queue_topology s1)\<rparr>)
             | Some queue \<Rightarrow>
                 if queue = [] then
                   (Continue, deferred,
                    s1\<lparr>wm_queue_topology := deactivate_queue_key q (wm_queue_topology s1)\<rparr>)
                 else
                   (case select_same_queue_batch V queue s1 of
                      [] \<Rightarrow> (Return, deferred, s1)
                    | item # items \<Rightarrow>
                        (case force_fail_queued_item V item q s1 of
                           (True, s2) \<Rightarrow> (Continue, deferred, s2)
                         | (False, s2) \<Rightarrow>
                             (case truncate_batch_before_force_fail V (item # items) s2 of
                                (accepted, s3) \<Rightarrow>
                                  if accepted = [] then (Continue, deferred, s3)
                                  else
                                    dispatch_batch V q queue accepted
                                      (length accepted < length (item # items)) deferred s3)))))"

text \<open>The loop, with fuel; \<open>None\<close> means the fuel ran out.\<close>

fun schedule_loop ::
  "nat \<Rightarrow> ('k, 'p, 's, 'c, 'e) wm_env \<Rightarrow> (topic_partition, offset_range option) dict
    \<Rightarrow> 'k queue_key set \<Rightarrow> ('k, 'p, 's, 'c, 'e) work_manager
    \<Rightarrow> ((py_error + unit) \<times> 'k queue_key set \<times> ('k, 'p, 's, 'c, 'e) work_manager) option" where
  "schedule_loop 0 V blocking_offsets deferred s = None"
| "schedule_loop (Suc fuel) V blocking_offsets deferred s =
     (case schedule_step V blocking_offsets deferred s of
        (Continue, deferred1, s1) \<Rightarrow> schedule_loop fuel V blocking_offsets deferred1 s1
      | (Return, deferred1, s1) \<Rightarrow> Some (Inr (), deferred1, s1)
      | (Raise e, deferred1, s1) \<Rightarrow> Some (Inl e, deferred1, s1))"

definition blocking_offset_of ::
  "('k, 'p, 's, 'c, 'e) wm_env \<Rightarrow> bool \<Rightarrow> ('s, 'c) offset_tracker
    \<Rightarrow> offset_range option \<times> ('s, 'c) offset_tracker" where
  "blocking_offset_of V shared tracker =
     (let t = (if shared then tracker else advance_high_water_mark (env_containers V) tracker)
      in (map_option (\<lambda>first_gap_head. OffsetRange first_gap_head first_gap_head)
            (get_first_gap_head t), t))"

definition get_blocking_offsets ::
  "('k, 'p, 's, 'c, 'e) wm_env \<Rightarrow> ('k, 'p, 's, 'c, 'e) work_manager
    \<Rightarrow> (topic_partition, offset_range option) dict \<times> ('k, 'p, 's, 'c, 'e) work_manager" where
  "get_blocking_offsets V s =
     (let results = map (\<lambda>(tp, tracker).
                      (tp, blocking_offset_of V (tp \<in> wm_shared_offset_trackers s) tracker))
                      (wm_offset_trackers s)
      in (map (\<lambda>(tp, r). (tp, fst r)) results,
          s\<lparr>wm_offset_trackers := map (\<lambda>(tp, r). (tp, snd r)) results\<rparr>))"

definition refresh_deferred ::
  "'k queue_key \<Rightarrow> ('k, 'p, 's, 'c, 'e) work_manager \<Rightarrow> ('k, 'p, 's, 'c, 'e) work_manager" where
  "refresh_deferred q s =
     (case get_queue (fst q) (snd q) (wm_queue_topology s) of
        None \<Rightarrow> s
      | Some queue \<Rightarrow>
          if queue = [] then s
          else s\<lparr>wm_queue_topology :=
                   refresh_queue_head (fst q) (snd q) queue (wm_queue_topology s)\<rparr>)"

definition schedule_blocking ::
  "('k, 'p, 's, 'c, 'e) wm_env \<Rightarrow> ('k, 'p, 's, 'c, 'e) work_manager
    \<Rightarrow> (topic_partition, offset_range option) dict \<times> ('k, 'p, 's, 'c, 'e) work_manager" where
  "schedule_blocking V s =
     (if wm_blocking_cache_counter s \<le> 0 then
        let (blocking_offsets, s1) = get_blocking_offsets V s
        in (blocking_offsets,
            s1\<lparr>wm_blocking_cache := blocking_offsets,
               wm_blocking_cache_counter := wm_blocking_cache_ttl s1\<rparr>)
      else
        (wm_blocking_cache s, s\<lparr>wm_blocking_cache_counter := wm_blocking_cache_counter s - 1\<rparr>))"

definition schedule ::
  "nat \<Rightarrow> ('k, 'p, 's, 'c, 'e) wm_env \<Rightarrow> ('k, 'p, 's, 'c, 'e) work_manager
    \<Rightarrow> ((py_error + unit) \<times> ('k, 'p, 's, 'c, 'e) work_manager) option" where
  "schedule fuel V s =
     (let (blocking_offsets, s1) = schedule_blocking V s
      in case schedule_loop fuel V blocking_offsets {} s1 of
           None \<Rightarrow> None
         | Some (result, deferred, s2) \<Rightarrow>
             Some (result, fold refresh_deferred (env_set_order V deferred) s2))"

section \<open>Completions\<close>

definition pop_dispatch_timestamp ::
  "string \<Rightarrow> ('k, 'p, 's, 'c, 'e) work_manager \<Rightarrow> ('k, 'p, 's, 'c, 'e) work_manager" where
  "pop_dispatch_timestamp work_id s =
     s\<lparr>wm_dispatch_timestamps := dict_pop work_id (wm_dispatch_timestamps s)\<rparr>"

definition record_poison_completion ::
  "('k, 'p, 's, 'c, 'e) wm_env \<Rightarrow> completion_event \<Rightarrow> ('k, 'p) work_item
    \<Rightarrow> ('k, 'p, 's, 'c, 'e) work_manager \<Rightarrow> ('k, 'p, 's, 'c, 'e) work_manager" where
  "record_poison_completion V event item s =
     (case wm_poison_message_circuit s of
        None \<Rightarrow> s
      | Some C \<Rightarrow>
          let (now, s1) = read_clock V s
          in s1\<lparr>wm_poison_message_circuit := Some (record_completion now event item C)\<rparr>)"

definition observe_latency ::
  "('k, 'p, 's, 'c, 'e) wm_env \<Rightarrow> real option \<Rightarrow> ('k, 'p, 's, 'c, 'e) work_manager
    \<Rightarrow> ('k, 'p, 's, 'c, 'e) work_manager" where
  "observe_latency V dispatch_time s =
     (case dispatch_time of
        None \<Rightarrow> s
      | Some t \<Rightarrow>
          let (now, s1) = read_clock V s; (now2, s2) = read_clock V s1
          in record_completion_latency (max 0 (now - t)) now2 s2)"

definition process_completion_event ::
  "('k, 'p, 's, 'c, 'e) wm_env \<Rightarrow> completion_event \<Rightarrow> ('k, 'p, 's, 'c, 'e) work_manager
    \<Rightarrow> bool \<times> ('k, 'p, 's, 'c, 'e) work_manager" where
  "process_completion_event V event s =
     (case dict_get (wm_offset_trackers s) (ce_tp event) of
        None \<Rightarrow> (False, pop_dispatch_timestamp (ce_id event) s)
      | Some offset_tracker \<Rightarrow>
          if ce_epoch event \<noteq> get_current_epoch offset_tracker then
            let s1 = (case dict_get (wm_in_flight_work_items s) (ce_id event) of
                        None \<Rightarrow> s
                      | Some item \<Rightarrow>
                          if wi_tp item = ce_tp event
                          then snd (release_in_flight_item (ce_id event) True s) else s)
            in (False, pop_dispatch_timestamp (ce_id event) s1)
          else
            let s1 = (if ce_tp event \<in> wm_shared_offset_trackers s then s
                      else invalidate_blocking_cache
                        (s\<lparr>wm_offset_trackers :=
                             dict_set (ce_tp event)
                               (mark_complete (env_containers V) (ce_offset event) offset_tracker)
                               (wm_offset_trackers s)\<rparr>))
            in case dict_get (wm_in_flight_work_items s1) (ce_id event) of
                 None \<Rightarrow> (False, pop_dispatch_timestamp (ce_id event) s1)
               | Some completed_item \<Rightarrow>
                   let s2 = record_poison_completion V event completed_item s1;
                       ((_, dispatch_time), s3) = release_in_flight_item (ce_id event) False s2;
                       s4 = observe_latency V dispatch_time s3
                   in (True, pop_dispatch_timestamp (ce_id event) s4))"

text \<open>Draining the completion queue: processing an event never adds to the queue.\<close>

fun process_events ::
  "('k, 'p, 's, 'c, 'e) wm_env \<Rightarrow> completion_event list \<Rightarrow> bool
    \<Rightarrow> ('k, 'p, 's, 'c, 'e) work_manager \<Rightarrow> bool \<times> ('k, 'p, 's, 'c, 'e) work_manager" where
  "process_events V [] should_schedule s = (should_schedule, s)"
| "process_events V (event # events) should_schedule s =
     (let (released, s1) = process_completion_event V event s
      in process_events V events (released \<or> should_schedule) s1)"

definition drain_completion_queue ::
  "('k, 'p, 's, 'c, 'e) wm_env \<Rightarrow> ('k, 'p, 's, 'c, 'e) work_manager
    \<Rightarrow> completion_event list \<times> bool \<times> ('k, 'p, 's, 'c, 'e) work_manager" where
  "drain_completion_queue V s =
     (let events = wm_completion_queue s
      in (events, process_events V events False (s\<lparr>wm_completion_queue := []\<rparr>)))"

fun poll_loop ::
  "nat \<Rightarrow> nat \<Rightarrow> ('k, 'p, 's, 'c, 'e) wm_env \<Rightarrow> bool \<Rightarrow> completion_event list
    \<Rightarrow> ('k, 'p, 's, 'c, 'e) work_manager
    \<Rightarrow> ((py_error + completion_event list) \<times> ('k, 'p, 's, 'c, 'e) work_manager) option" where
  "poll_loop 0 fuel V schedule_after_release completed_events s = None"
| "poll_loop (Suc rounds) fuel V schedule_after_release completed_events s =
     (let (events, should_schedule, s1) = drain_completion_queue V s;
          completed = completed_events @ events
      in if \<not> schedule_after_release \<or> \<not> should_schedule then Some (Inr completed, s1)
         else
           case schedule fuel V s1 of
             None \<Rightarrow> None
           | Some (Inl e, s2) \<Rightarrow> Some (Inl e, s2)
           | Some (Inr _, s2) \<Rightarrow>
               if wm_completion_queue s2 = [] then Some (Inr completed, s2)
               else poll_loop rounds fuel V schedule_after_release completed s2)"

definition poll_completed_events ::
  "nat \<Rightarrow> nat \<Rightarrow> ('k, 'p, 's, 'c, 'e) wm_env \<Rightarrow> bool \<Rightarrow> ('k, 'p, 's, 'c, 'e) work_manager
    \<Rightarrow> ((py_error + completion_event list) \<times> ('k, 'p, 's, 'c, 'e) work_manager) option" where
  "poll_completed_events rounds fuel V schedule_after_release s =
     (let (engine_completed_events, e) =
            eng_poll_completed_events (env_engine V) (wm_execution_engine s)
      in poll_loop rounds fuel V schedule_after_release []
           (s\<lparr>wm_execution_engine := e,
              wm_completion_queue := wm_completion_queue s @ engine_completed_events\<rparr>))"

section \<open>Queries and settings\<close>

definition get_total_in_flight_count :: "('k, 'p, 's, 'c, 'e) work_manager \<Rightarrow> int" where
  "get_total_in_flight_count s = wm_current_in_flight_count s"

definition get_total_queued_messages :: "('k, 'p, 's, 'c, 'e) work_manager \<Rightarrow> int" where
  "get_total_queued_messages s = wm_total_queued_messages s"

definition set_max_in_flight_messages ::
  "int \<Rightarrow> ('k, 'p, 's, 'c, 'e) work_manager
    \<Rightarrow> (py_error + unit) \<times> ('k, 'p, 's, 'c, 'e) work_manager" where
  "set_max_in_flight_messages value s =
     (if value < 1 then (Inl ValueError, s)
      else (Inr (), s\<lparr>wm_max_in_flight_messages := value\<rparr>))"

definition get_poison_message_open_circuit_count ::
  "('k, 'p, 's, 'c, 'e) wm_env \<Rightarrow> ('k, 'p, 's, 'c, 'e) work_manager
    \<Rightarrow> int \<times> ('k, 'p, 's, 'c, 'e) work_manager" where
  "get_poison_message_open_circuit_count V s =
     (case wm_poison_message_circuit s of
        None \<Rightarrow> (0, s)
      | Some C \<Rightarrow>
          let (now, s1) = read_clock V s; (n, C1) = get_open_circuit_count now C
          in (n, s1\<lparr>wm_poison_message_circuit := Some C1\<rparr>))"

fun count_by_partition ::
  "(string, ('k, 'p) work_item) dict \<Rightarrow> string list \<Rightarrow> (topic_partition, int) dict
    \<Rightarrow> (topic_partition, int) dict" where
  "count_by_partition items [] counts = counts"
| "count_by_partition items (work_id # work_ids) counts =
     (case dict_get items work_id of
        None \<Rightarrow> count_by_partition items work_ids counts
      | Some item \<Rightarrow>
          count_by_partition items work_ids
            (dict_set (wi_tp item) (dict_get_default counts (wi_tp item) 0 + 1) counts))"

definition get_in_flight_counts ::
  "('k, 'p, 's, 'c, 'e) work_manager \<Rightarrow> (topic_partition, int) dict" where
  "get_in_flight_counts s =
     count_by_partition (wm_in_flight_work_items s) (dict_keys (wm_dispatch_timestamps s)) []"

fun min_offset_loop ::
  "(string, ('k, 'p) work_item) dict \<Rightarrow> topic_partition \<Rightarrow> string list \<Rightarrow> int option \<Rightarrow> int option" where
  "min_offset_loop items tp [] min_offset = min_offset"
| "min_offset_loop items tp (work_id # work_ids) min_offset =
     (case dict_get items work_id of
        None \<Rightarrow> min_offset_loop items tp work_ids min_offset
      | Some item \<Rightarrow>
          if wi_tp item \<noteq> tp then min_offset_loop items tp work_ids min_offset
          else
            min_offset_loop items tp work_ids
              (case min_offset of
                 None \<Rightarrow> Some (wi_offset item)
               | Some m \<Rightarrow> if wi_offset item < m then Some (wi_offset item) else min_offset))"

definition get_min_in_flight_offset ::
  "topic_partition \<Rightarrow> ('k, 'p, 's, 'c, 'e) work_manager \<Rightarrow> int option" where
  "get_min_in_flight_offset tp s =
     min_offset_loop (wm_in_flight_work_items s) tp (dict_keys (wm_dispatch_timestamps s)) None"

text \<open>Each tracker reads the clock at most once; the readings are numbered in dictionary order.\<close>

definition wm_get_gaps ::
  "('k, 'p, 's, 'c, 'e) wm_env \<Rightarrow> ('k, 'p, 's, 'c, 'e) work_manager
    \<Rightarrow> (topic_partition, offset_range list) dict \<times> ('k, 'p, 's, 'c, 'e) work_manager" where
  "wm_get_gaps V s =
     (let results = map (\<lambda>(i, (tp, tracker)).
                      (tp, get_gaps (env_containers V) (env_clock V (wm_ticks s + i)) tracker))
                      (enumerate 0 (wm_offset_trackers s))
      in (map (\<lambda>(tp, r). (tp, fst r)) results,
          s\<lparr>wm_offset_trackers := map (\<lambda>(tp, r). (tp, snd r)) results,
            wm_ticks := wm_ticks s + length (wm_offset_trackers s)\<rparr>))"

definition get_true_lag ::
  "('k, 'p, 's, 'c, 'e) work_manager \<Rightarrow> (topic_partition, int) dict" where
  "get_true_lag s =
     map (\<lambda>(tp, tracker). (tp, ot_last_fetched_offset tracker - ot_last_committed_offset tracker))
       (wm_offset_trackers s)"

definition wm_get_virtual_queue_sizes ::
  "('k, 'p, 's, 'c, 'e) work_manager \<Rightarrow> (topic_partition, ('k, int) dict) dict" where
  "wm_get_virtual_queue_sizes s = get_virtual_queue_sizes (wm_queue_topology s)"

end
