(* ===== verification/Work_Ledger.thy ===== *)
theory Work_Ledger
  imports Work_Manager
begin

text \<open>
  Accounting of the work manager. The in-flight ledger (registered items, dispatch timestamps,
  the in-flight counter and the ordering locks) and the queues are tied together by the
  invariant \<open>wm_inv\<close>. This theory shows that dispatching a prefix of a queue, releasing an item
  and processing a completion event keep it.
\<close>

section \<open>Counted locks\<close>

text \<open>
  A lock table counts the holders of each lock and keeps the set of locked names. \<open>hold x\<close> is
  the set of holders of \<open>x\<close>; a lock without holders has no entry at all.
\<close>

definition lock_ok :: "('x, int) dict \<Rightarrow> 'x set \<Rightarrow> ('x \<Rightarrow> 'i set) \<Rightarrow> bool" where
  "lock_ok counts locked hold \<longleftrightarrow>
     (\<forall>x. finite (hold x) \<and>
        dict_get counts x = (if hold x = {} then None else Some (int (card (hold x)))) \<and>
        (x \<in> locked \<longleftrightarrow> hold x \<noteq> {}))"

lemma lock_ok_acquire:
  assumes "lock_ok counts locked hold" "i \<notin> hold x"
  shows "lock_ok (dict_set x (dict_get_default counts x 0 + 1) counts) (insert x locked)
           (hold(x := insert i (hold x)))"
proof -
  have "finite (hold x)" "dict_get_default counts x 0 = int (card (hold x))"
    using assms(1) by (auto simp: lock_ok_def dict_get_default_def)
  then show ?thesis
    using assms by (auto simp: lock_ok_def dict_simps)
qed

lemma lock_ok_release:
  assumes "lock_ok counts locked hold" "i \<in> hold x"
  shows "lock_ok
    (if 0 < dict_get_default counts x 1 - 1
     then dict_set x (dict_get_default counts x 1 - 1) counts else dict_pop x counts)
    (if 0 < dict_get_default counts x 1 - 1 then locked else locked - {x})
    (hold(x := hold x - {i}))"
proof -
  have fin: "finite (hold x)" and c: "dict_get_default counts x 1 = int (card (hold x))"
    using assms by (auto simp: lock_ok_def dict_get_default_def)
  have card: "int (card (hold x - {i})) = int (card (hold x)) - 1"
    using fin assms(2) by (metis card_Suc_Diff1 add_diff_cancel_left' of_nat_Suc)
  have "hold x - {i} = {} \<longleftrightarrow> int (card (hold x)) - 1 = 0"
    using card fin by (metis card_eq_0_iff finite_Diff of_nat_eq_0_iff)
  then show ?thesis
    using assms card fin unfolding c
    by (auto simp: lock_ok_def dict_simps)
qed

lemma lock_ok_cong:
  "lock_ok counts locked hold \<Longrightarrow> (\<And>x. hold' x = hold x) \<Longrightarrow> lock_ok counts locked hold'"
  by (simp add: lock_ok_def)

section \<open>The in-flight ledger\<close>

abbreviation item_of :: "('k, 'p, 's, 'c, 'e) work_manager \<Rightarrow> string \<Rightarrow> ('k, 'p) work_item option" where
  "item_of s i \<equiv> dict_get (wm_in_flight_work_items s) i"

definition dispatched :: "('k, 'p, 's, 'c, 'e) work_manager \<Rightarrow> string set" where
  "dispatched s = set (map fst (wm_dispatch_timestamps s))"

abbreviation route_of :: "('k, 'p) work_item \<Rightarrow> 'k queue_key" where
  "route_of w \<equiv> (wi_tp w, wi_key w)"

definition holders ::
  "(('k, 'p) work_item \<Rightarrow> 'x) \<Rightarrow> ('k, 'p, 's, 'c, 'e) work_manager \<Rightarrow> 'x \<Rightarrow> string set" where
  "holders f s x = {i \<in> dispatched s. \<exists>w. item_of s i = Some w \<and> f w = x}"

text \<open>
  Every dispatched id belongs to a registered item, the counter is the number of dispatched
  ids, and the lock table of the ordering mode counts exactly the dispatched items.
\<close>

definition ledger_inv :: "('k, 'p, 's, 'c, 'e) work_manager \<Rightarrow> bool" where
  "ledger_inv s \<longleftrightarrow>
     dict_wf (wm_in_flight_work_items s) \<and> dict_wf (wm_dispatch_timestamps s) \<and>
     (\<forall>i \<in> dispatched s. item_of s i \<noteq> None) \<and>
     (\<forall>i w. item_of s i = Some w \<longrightarrow> wi_id w = i) \<and>
     wm_current_in_flight_count s = int (card (dispatched s)) \<and>
     (wm_ordering_mode s = KEY_HASH \<longrightarrow>
        lock_ok (wm_key_in_flight_counts s) (wm_keys_in_flight s) (holders route_of s)) \<and>
     (wm_ordering_mode s = PARTITION \<longrightarrow>
        lock_ok (wm_partition_in_flight_counts s) (wm_partitions_in_flight s) (holders wi_tp s))"

lemma ledger_invD:
  assumes "ledger_inv s"
  shows "dict_wf (wm_in_flight_work_items s)" "dict_wf (wm_dispatch_timestamps s)"
    "i \<in> dispatched s \<Longrightarrow> \<exists>w. item_of s i = Some w"
    "item_of s i = Some w \<Longrightarrow> wi_id w = i"
    "wm_current_in_flight_count s = int (card (dispatched s))"
    "wm_ordering_mode s = KEY_HASH \<Longrightarrow>
       lock_ok (wm_key_in_flight_counts s) (wm_keys_in_flight s) (holders route_of s)"
    "wm_ordering_mode s = PARTITION \<Longrightarrow>
       lock_ok (wm_partition_in_flight_counts s) (wm_partitions_in_flight s) (holders wi_tp s)"
  using assms unfolding ledger_inv_def by auto

lemma ledger_invI:
  assumes "dict_wf (wm_in_flight_work_items s)" "dict_wf (wm_dispatch_timestamps s)"
    "\<And>i. i \<in> dispatched s \<Longrightarrow> \<exists>w. item_of s i = Some w"
    "\<And>i w. item_of s i = Some w \<Longrightarrow> wi_id w = i"
    "wm_current_in_flight_count s = int (card (dispatched s))"
    "wm_ordering_mode s = KEY_HASH \<Longrightarrow>
       lock_ok (wm_key_in_flight_counts s) (wm_keys_in_flight s) (holders route_of s)"
    "wm_ordering_mode s = PARTITION \<Longrightarrow>
       lock_ok (wm_partition_in_flight_counts s) (wm_partitions_in_flight s) (holders wi_tp s)"
  shows "ledger_inv s"
  using assms unfolding ledger_inv_def by blast

lemma finite_dispatched [simp]: "finite (dispatched s)"
  by (simp add: dispatched_def)

lemma dispatched_iff: "i \<in> dispatched s \<longleftrightarrow> dict_get (wm_dispatch_timestamps s) i \<noteq> None"
  by (simp add: dispatched_def map_of_eq_None_iff)

text \<open>Operations that leave the ledger fields alone keep the invariant.\<close>

definition same_ledger ::
  "('k, 'p, 's, 'c, 'e) work_manager \<Rightarrow> ('k, 'p, 's, 'c, 'e) work_manager \<Rightarrow> bool" where
  "same_ledger s s' \<longleftrightarrow>
     wm_in_flight_work_items s' = wm_in_flight_work_items s \<and>
     wm_dispatch_timestamps s' = wm_dispatch_timestamps s \<and>
     wm_current_in_flight_count s' = wm_current_in_flight_count s \<and>
     wm_ordering_mode s' = wm_ordering_mode s \<and>
     wm_key_in_flight_counts s' = wm_key_in_flight_counts s \<and>
     wm_keys_in_flight s' = wm_keys_in_flight s \<and>
     wm_partition_in_flight_counts s' = wm_partition_in_flight_counts s \<and>
     wm_partitions_in_flight s' = wm_partitions_in_flight s"

lemma same_ledger_refl [simp]: "same_ledger s s"
  by (simp add: same_ledger_def)

lemma same_ledger_trans: "same_ledger s t \<Longrightarrow> same_ledger t u \<Longrightarrow> same_ledger s u"
  by (simp add: same_ledger_def)

lemma holders_cong:
  "dispatched s' = dispatched s \<Longrightarrow> wm_in_flight_work_items s' = wm_in_flight_work_items s
   \<Longrightarrow> holders f s' = holders f s"
  by (simp add: holders_def fun_eq_iff)

lemma same_ledger_dispatched: "same_ledger s s' \<Longrightarrow> dispatched s' = dispatched s"
  by (simp add: same_ledger_def dispatched_def)

lemma same_ledger_items:
  "same_ledger s s' \<Longrightarrow> wm_in_flight_work_items s' = wm_in_flight_work_items s"
  by (simp add: same_ledger_def)

lemma same_ledger_inv: "same_ledger s s' \<Longrightarrow> ledger_inv s \<Longrightarrow> ledger_inv s'"
  using holders_cong[of s' s route_of] holders_cong[of s' s wi_tp] same_ledger_dispatched[of s s']
  by (simp add: same_ledger_def ledger_inv_def)

lemma same_ledger_eligible: "same_ledger s s' \<Longrightarrow> is_queue_eligible s' = is_queue_eligible s"
  by (rule ext) (simp add: same_ledger_def is_queue_eligible_def split: ordering_mode.splits)

section \<open>Dispatching\<close>

lemma record_ordering_lock_fields [simp]:
  "wm_in_flight_work_items (record_ordering_lock w s) = wm_in_flight_work_items s"
  "wm_dispatch_timestamps (record_ordering_lock w s) = wm_dispatch_timestamps s"
  "wm_current_in_flight_count (record_ordering_lock w s) = wm_current_in_flight_count s"
  "wm_ordering_mode (record_ordering_lock w s) = wm_ordering_mode s"
  "wm_queue_topology (record_ordering_lock w s) = wm_queue_topology s"
  "wm_total_queued_messages (record_ordering_lock w s) = wm_total_queued_messages s"
  "wm_completion_queue (record_ordering_lock w s) = wm_completion_queue s"
  "wm_offset_trackers (record_ordering_lock w s) = wm_offset_trackers s"
  "wm_max_in_flight_messages (record_ordering_lock w s) = wm_max_in_flight_messages s"
  "wm_uuids (record_ordering_lock w s) = wm_uuids s"
  "wm_rebalancing (record_ordering_lock w s) = wm_rebalancing s"
  "wm_poison_message_circuit (record_ordering_lock w s) = wm_poison_message_circuit s"
  "wm_execution_engine (record_ordering_lock w s) = wm_execution_engine s"
  "wm_route_batch_size (record_ordering_lock w s) = wm_route_batch_size s"
  by (simp_all add: record_ordering_lock_def Let_def split: ordering_mode.splits)

lemma record_submitted_fields [simp]:
  "wm_in_flight_work_items (record_submitted_item V w s) = wm_in_flight_work_items s"
  "wm_ordering_mode (record_submitted_item V w s) = wm_ordering_mode s"
  "wm_queue_topology (record_submitted_item V w s) = wm_queue_topology s"
  "wm_completion_queue (record_submitted_item V w s) = wm_completion_queue s"
  "wm_offset_trackers (record_submitted_item V w s) = wm_offset_trackers s"
  "wm_max_in_flight_messages (record_submitted_item V w s) = wm_max_in_flight_messages s"
  "wm_uuids (record_submitted_item V w s) = wm_uuids s"
  "wm_rebalancing (record_submitted_item V w s) = wm_rebalancing s"
  "wm_poison_message_circuit (record_submitted_item V w s) = wm_poison_message_circuit s"
  "wm_execution_engine (record_submitted_item V w s) = wm_execution_engine s"
  "wm_route_batch_size (record_submitted_item V w s) = wm_route_batch_size s"
  "wm_total_queued_messages (record_submitted_item V w s) = max 0 (wm_total_queued_messages s - 1)"
  "wm_current_in_flight_count (record_submitted_item V w s) = wm_current_in_flight_count s + 1"
  by (simp_all add: record_submitted_item_def read_clock_def Let_def)

lemma record_submitted_locks:
  "wm_ordering_mode s = KEY_HASH \<Longrightarrow>
     wm_key_in_flight_counts (record_submitted_item V w s) =
       dict_set (route_of w) (dict_get_default (wm_key_in_flight_counts s) (route_of w) 0 + 1)
         (wm_key_in_flight_counts s) \<and>
     wm_keys_in_flight (record_submitted_item V w s) = insert (route_of w) (wm_keys_in_flight s)"
  "wm_ordering_mode s = PARTITION \<Longrightarrow>
     wm_partition_in_flight_counts (record_submitted_item V w s) =
       dict_set (wi_tp w) (dict_get_default (wm_partition_in_flight_counts s) (wi_tp w) 0 + 1)
         (wm_partition_in_flight_counts s) \<and>
     wm_partitions_in_flight (record_submitted_item V w s) = insert (wi_tp w) (wm_partitions_in_flight s)"
  by (simp_all add: record_submitted_item_def read_clock_def Let_def record_ordering_lock_def)

lemma dispatched_record_submitted [simp]:
  "dispatched (record_submitted_item V w s) = insert (wi_id w) (dispatched s)"
  by (auto simp: dispatched_def record_submitted_item_def read_clock_def Let_def dict_simps)

lemma not_holder: "i \<notin> dispatched s \<Longrightarrow> i \<notin> holders f s x"
  by (simp add: holders_def)

lemma holders_dispatch:
  assumes "item_of s (wi_id w) = Some w"
    "dispatched s' = insert (wi_id w) (dispatched s)" "item_of s' = item_of s"
  shows "holders f s' = (holders f s)(f w := insert (wi_id w) (holders f s (f w)))"
  using assms by (auto simp: holders_def fun_eq_iff)

lemma ledger_inv_dispatch:
  assumes "ledger_inv s" "item_of s (wi_id w) = Some w" "wi_id w \<notin> dispatched s"
  shows "ledger_inv (record_submitted_item V w s)"
proof -
  let ?s = "record_submitted_item V w s"
  note L = ledger_invD[OF assms(1)]
  have hold: "dispatched ?s = insert (wi_id w) (dispatched s)" "item_of ?s = item_of s" by simp_all
  have wf: "dict_wf (wm_dispatch_timestamps ?s)"
    using L(2) by (simp add: record_submitted_item_def read_clock_def Let_def)
  have key: "lock_ok (wm_key_in_flight_counts ?s) (wm_keys_in_flight ?s) (holders route_of ?s)"
    if "wm_ordering_mode s = KEY_HASH"
    using lock_ok_acquire[OF L(6)[OF that], of "wi_id w" "route_of w"] assms(3)
      record_submitted_locks(1)[OF that, of V w] holders_dispatch[OF assms(2) hold, of route_of]
    by (simp add: not_holder)
  have part: "lock_ok (wm_partition_in_flight_counts ?s) (wm_partitions_in_flight ?s) (holders wi_tp ?s)"
    if "wm_ordering_mode s = PARTITION"
    using lock_ok_acquire[OF L(7)[OF that], of "wi_id w" "wi_tp w"] assms(3)
      record_submitted_locks(2)[OF that, of V w] holders_dispatch[OF assms(2) hold, of wi_tp]
    by (simp add: not_holder)
  show ?thesis
  proof (rule ledger_invI)
    show "\<exists>v. item_of ?s i = Some v" if "i \<in> dispatched ?s" for i
      using that L(3)[of i] assms(2) by auto
    show "wi_id v = i" if "item_of ?s i = Some v" for i v
      using that L(4)[of i v] by simp
    show "wm_current_in_flight_count ?s = int (card (dispatched ?s))"
      using L(5) assms(3) by simp
  qed (use L(1) wf key part in simp_all)
qed

section \<open>Releasing\<close>

lemma release_ordering_lock_fields [simp]:
  "wm_in_flight_work_items (release_ordering_lock w s) = wm_in_flight_work_items s"
  "wm_dispatch_timestamps (release_ordering_lock w s) = wm_dispatch_timestamps s"
  "wm_current_in_flight_count (release_ordering_lock w s) = wm_current_in_flight_count s"
  "wm_ordering_mode (release_ordering_lock w s) = wm_ordering_mode s"
  "wm_queue_topology (release_ordering_lock w s) = wm_queue_topology s"
  "wm_total_queued_messages (release_ordering_lock w s) = wm_total_queued_messages s"
  "wm_completion_queue (release_ordering_lock w s) = wm_completion_queue s"
  "wm_offset_trackers (release_ordering_lock w s) = wm_offset_trackers s"
  "wm_max_in_flight_messages (release_ordering_lock w s) = wm_max_in_flight_messages s"
  "wm_uuids (release_ordering_lock w s) = wm_uuids s"
  "wm_rebalancing (release_ordering_lock w s) = wm_rebalancing s"
  "wm_poison_message_circuit (release_ordering_lock w s) = wm_poison_message_circuit s"
  "wm_route_batch_size (release_ordering_lock w s) = wm_route_batch_size s"
  "wm_shared_offset_trackers (release_ordering_lock w s) = wm_shared_offset_trackers s"
  "wm_work_item_ids_by_tp_offset (release_ordering_lock w s) = wm_work_item_ids_by_tp_offset s"
  "wm_execution_engine (release_ordering_lock w s) = wm_execution_engine s"
  by (simp_all add: release_ordering_lock_def Let_def split: ordering_mode.splits)

lemma release_fields [simp]:
  "wm_in_flight_work_items (snd (release_in_flight_item i r s)) = dict_pop i (wm_in_flight_work_items s)"
  "wm_dispatch_timestamps (snd (release_in_flight_item i r s)) = dict_pop i (wm_dispatch_timestamps s)"
  "wm_ordering_mode (snd (release_in_flight_item i r s)) = wm_ordering_mode s"
  "wm_total_queued_messages (snd (release_in_flight_item i r s)) = wm_total_queued_messages s"
  "wm_completion_queue (snd (release_in_flight_item i r s)) = wm_completion_queue s"
  "wm_offset_trackers (snd (release_in_flight_item i r s)) = wm_offset_trackers s"
  "wm_max_in_flight_messages (snd (release_in_flight_item i r s)) = wm_max_in_flight_messages s"
  "wm_uuids (snd (release_in_flight_item i r s)) = wm_uuids s"
  "wm_rebalancing (snd (release_in_flight_item i r s)) = wm_rebalancing s"
  "wm_poison_message_circuit (snd (release_in_flight_item i r s)) = wm_poison_message_circuit s"
  "wm_route_batch_size (snd (release_in_flight_item i r s)) = wm_route_batch_size s"
  "wm_shared_offset_trackers (snd (release_in_flight_item i r s)) = wm_shared_offset_trackers s"
  "wm_execution_engine (snd (release_in_flight_item i r s)) = wm_execution_engine s"
  by (simp_all add: release_in_flight_item_def invalidate_blocking_cache_def Let_def split: option.splits)

lemma release_topology:
  "wm_queue_topology (snd (release_in_flight_item i r s)) =
     (case item_of s i of None \<Rightarrow> wm_queue_topology s
      | Some w \<Rightarrow> cleanup_empty_queue (wi_tp w) (wi_key w) (wm_queue_topology s))"
  by (simp add: release_in_flight_item_def invalidate_blocking_cache_def Let_def split: option.splits)

lemma release_count:
  "wm_current_in_flight_count (snd (release_in_flight_item i r s)) =
     (if item_of s i \<noteq> None \<and> i \<in> dispatched s
      then max 0 (wm_current_in_flight_count s - 1) else wm_current_in_flight_count s)"
  by (auto simp: release_in_flight_item_def invalidate_blocking_cache_def Let_def dispatched_iff
      split: option.splits)

lemma dispatched_release [simp]:
  "dispatched (snd (release_in_flight_item i r s)) = dispatched s - {i}"
  by (auto simp: dispatched_def dict_simps)

lemma release_locks:
  "item_of s i = Some w \<Longrightarrow> i \<in> dispatched s \<Longrightarrow>
     wm_key_in_flight_counts (snd (release_in_flight_item i r s)) =
       wm_key_in_flight_counts (release_ordering_lock w s) \<and>
     wm_keys_in_flight (snd (release_in_flight_item i r s)) = wm_keys_in_flight (release_ordering_lock w s) \<and>
     wm_partition_in_flight_counts (snd (release_in_flight_item i r s)) =
       wm_partition_in_flight_counts (release_ordering_lock w s) \<and>
     wm_partitions_in_flight (snd (release_in_flight_item i r s)) =
       wm_partitions_in_flight (release_ordering_lock w s)"
  by (auto simp: release_in_flight_item_def invalidate_blocking_cache_def Let_def dispatched_iff
      release_ordering_lock_def split: option.splits ordering_mode.splits)

lemma release_locks_idle:
  "item_of s i = None \<or> i \<notin> dispatched s \<Longrightarrow>
     wm_key_in_flight_counts (snd (release_in_flight_item i r s)) = wm_key_in_flight_counts s \<and>
     wm_keys_in_flight (snd (release_in_flight_item i r s)) = wm_keys_in_flight s \<and>
     wm_partition_in_flight_counts (snd (release_in_flight_item i r s)) = wm_partition_in_flight_counts s \<and>
     wm_partitions_in_flight (snd (release_in_flight_item i r s)) = wm_partitions_in_flight s"
  by (auto simp: release_in_flight_item_def invalidate_blocking_cache_def Let_def dispatched_iff
      split: option.splits)

lemma holders_release:
  "holders f (snd (release_in_flight_item i r s)) x = holders f s x - {i}"
  by (auto simp: holders_def dict_simps)

lemma holds_own: "i \<in> dispatched s \<Longrightarrow> item_of s i = Some w \<Longrightarrow> i \<in> holders f s (f w)"
  by (simp add: holders_def)

lemma holders_release_upd:
  assumes "item_of s i = Some w"
  shows "holders f (snd (release_in_flight_item i r s)) = (holders f s)(f w := holders f s (f w) - {i})"
proof
  fix x
  have "i \<notin> holders f s x" if "x \<noteq> f w" using assms that by (simp add: holders_def)
  then show "holders f (snd (release_in_flight_item i r s)) x =
      ((holders f s)(f w := holders f s (f w) - {i})) x"
    by (simp add: holders_release)
qed

lemma ledger_inv_release:
  assumes "ledger_inv s" shows "ledger_inv (snd (release_in_flight_item i r s))" (is "ledger_inv ?s")
proof -
  note L = ledger_invD[OF assms]
  have base: "dict_wf (wm_in_flight_work_items ?s)" "dict_wf (wm_dispatch_timestamps ?s)"
    "\<forall>j \<in> dispatched ?s. item_of ?s j \<noteq> None" "\<forall>j w. item_of ?s j = Some w \<longrightarrow> wi_id w = j"
    using L(1-4) by (auto simp: dict_simps)
  have count: "wm_current_in_flight_count ?s = int (card (dispatched ?s))"
  proof (cases "i \<in> dispatched s")
    case True
    then have "0 < card (dispatched s)" by (auto simp: card_gt_0_iff)
    then show ?thesis using L(3)[OF True] L(5) True by (auto simp: release_count of_nat_diff)
  next
    case False
    then show ?thesis using L(5) by (simp add: release_count)
  qed
  show ?thesis
  proof (cases "i \<in> dispatched s")
    case False
    have "lock_ok (wm_key_in_flight_counts ?s) (wm_keys_in_flight ?s) (holders route_of ?s)"
      if "wm_ordering_mode s = KEY_HASH"
      using L(6)[OF that] release_locks_idle[of s i r] False
      by (auto simp: holders_release not_holder intro: lock_ok_cong)
    moreover have "lock_ok (wm_partition_in_flight_counts ?s) (wm_partitions_in_flight ?s) (holders wi_tp ?s)"
      if "wm_ordering_mode s = PARTITION"
      using L(7)[OF that] release_locks_idle[of s i r] False
      by (auto simp: holders_release not_holder intro: lock_ok_cong)
    ultimately show ?thesis unfolding ledger_inv_def using base count by simp
  next
    case True
    obtain w where w: "item_of s i = Some w" using L(3)[OF True] by blast
    have "lock_ok (wm_key_in_flight_counts ?s) (wm_keys_in_flight ?s) (holders route_of ?s)"
      if "wm_ordering_mode s = KEY_HASH"
      using lock_ok_release[OF L(6)[OF that] holds_own[OF True w]] that release_locks[OF w True, of r]
      unfolding holders_release_upd[OF w] by (simp add: release_ordering_lock_def Let_def split: if_splits)
    moreover have "lock_ok (wm_partition_in_flight_counts ?s) (wm_partitions_in_flight ?s) (holders wi_tp ?s)"
      if "wm_ordering_mode s = PARTITION"
      using lock_ok_release[OF L(7)[OF that] holds_own[OF True w]] that release_locks[OF w True, of r]
      unfolding holders_release_upd[OF w] by (simp add: release_ordering_lock_def Let_def split: if_splits)
    ultimately show ?thesis unfolding ledger_inv_def using base count by simp
  qed
qed

section \<open>The manager's invariant\<close>

text \<open>
  \<open>queue_inv K\<close>: the topology is consistent with the keys \<open>K\<close> held by the scheduler, the counter
  of queued messages is the number of queued items, and every queued item sits in the queue of
  its own route, is registered under its id, and has not been dispatched.
\<close>

definition queue_inv :: "'k queue_key set \<Rightarrow> ('k, 'p, 's, 'c, 'e) work_manager \<Rightarrow> bool" where
  "queue_inv K s \<longleftrightarrow>
     topo_inv K (wm_queue_topology s) \<and>
     wm_total_queued_messages s = int (total_queued (wm_queue_topology s)) \<and>
     (\<forall>q. distinct (map wi_id (queue_items (wm_queue_topology s) q))) \<and>
     (\<forall>q. \<forall>w \<in> set (queue_items (wm_queue_topology s) q).
        route_of w = q \<and> item_of s (wi_id w) = Some w \<and> wi_id w \<notin> dispatched s)"

lemma queue_invD:
  assumes "queue_inv K s"
  shows "topo_inv K (wm_queue_topology s)"
    "wm_total_queued_messages s = int (total_queued (wm_queue_topology s))"
    "distinct (map wi_id (queue_items (wm_queue_topology s) q))"
    "w \<in> set (queue_items (wm_queue_topology s) q) \<Longrightarrow> route_of w = q"
    "w \<in> set (queue_items (wm_queue_topology s) q) \<Longrightarrow> item_of s (wi_id w) = Some w"
    "w \<in> set (queue_items (wm_queue_topology s) q) \<Longrightarrow> wi_id w \<notin> dispatched s"
  using assms unfolding queue_inv_def by blast+

lemma queue_invI:
  assumes "topo_inv K (wm_queue_topology s)"
    "wm_total_queued_messages s = int (total_queued (wm_queue_topology s))"
    "\<And>q. distinct (map wi_id (queue_items (wm_queue_topology s) q))"
    "\<And>q w. w \<in> set (queue_items (wm_queue_topology s) q) \<Longrightarrow>
       route_of w = q \<and> item_of s (wi_id w) = Some w \<and> wi_id w \<notin> dispatched s"
  shows "queue_inv K s"
  using assms unfolding queue_inv_def by blast

text \<open>
  A completion event is in order when its id has been drawn from the id supply and the item it
  names, if registered, has the event's partition, offset and epoch and is no longer queued.
  \<open>wm_inv\<close> adds that registered items belong to assigned partitions, that exactly the assigned partitions have trackers, that pending events are in
  order, and that ids were drawn from the id supply.
\<close>

definition queued :: "('k, 'p, 's, 'c, 'e) work_manager \<Rightarrow> ('k, 'p) work_item \<Rightarrow> bool" where
  "queued s w \<longleftrightarrow> w \<in> set (queue_items (wm_queue_topology s) (route_of w))"

definition event_ok ::
  "('k, 'p, 's, 'c, 'e) wm_env \<Rightarrow> ('k, 'p, 's, 'c, 'e) work_manager \<Rightarrow> completion_event \<Rightarrow> bool" where
  "event_ok V s ev \<longleftrightarrow>
     ce_id ev \<in> env_uuid V ` {..<wm_uuids s} \<and>
     (\<forall>w. item_of s (ce_id ev) = Some w \<longrightarrow>
        wi_tp w = ce_tp ev \<and> wi_offset w = ce_offset ev \<and> wi_epoch w = ce_epoch ev \<and> \<not> queued s w)"

definition managed_inv ::
  "('k, 'p, 's, 'c, 'e) wm_env \<Rightarrow> ('k, 'p, 's, 'c, 'e) work_manager \<Rightarrow> bool" where
  "managed_inv V s \<longleftrightarrow>
     (\<forall>tp. assigned (wm_queue_topology s) tp \<longleftrightarrow> dict_get (wm_offset_trackers s) tp \<noteq> None) \<and>
     (\<forall>i w. item_of s i = Some w \<longrightarrow> assigned (wm_queue_topology s) (wi_tp w)) \<and>
     (\<forall>ev \<in> set (wm_completion_queue s). event_ok V s ev) \<and>
     (\<forall>i w. item_of s i = Some w \<longrightarrow> i \<in> env_uuid V ` {..<wm_uuids s})"

definition wm_inv ::
  "('k, 'p, 's, 'c, 'e) wm_env \<Rightarrow> 'k queue_key set \<Rightarrow> ('k, 'p, 's, 'c, 'e) work_manager \<Rightarrow> bool" where
  "wm_inv V K s \<longleftrightarrow> ledger_inv s \<and> queue_inv K s \<and> managed_inv V s"

lemma managed_invD:
  assumes "managed_inv V s"
  shows "assigned (wm_queue_topology s) tp \<longleftrightarrow> dict_get (wm_offset_trackers s) tp \<noteq> None"
    "item_of s i = Some w \<Longrightarrow> assigned (wm_queue_topology s) (wi_tp w)"
    "ev \<in> set (wm_completion_queue s) \<Longrightarrow> event_ok V s ev"
    "item_of s i = Some w \<Longrightarrow> i \<in> env_uuid V ` {..<wm_uuids s}"
  using assms unfolding managed_inv_def by blast+

lemma managed_invI:
  assumes "\<And>tp. assigned (wm_queue_topology s) tp \<longleftrightarrow> dict_get (wm_offset_trackers s) tp \<noteq> None"
    "\<And>i w. item_of s i = Some w \<Longrightarrow> assigned (wm_queue_topology s) (wi_tp w)"
    "\<And>ev. ev \<in> set (wm_completion_queue s) \<Longrightarrow> event_ok V s ev"
    "\<And>i w. item_of s i = Some w \<Longrightarrow> i \<in> env_uuid V ` {..<wm_uuids s}"
  shows "managed_inv V s"
  using assms unfolding managed_inv_def by blast

lemma wm_invD:
  assumes "wm_inv V K s"
  shows "ledger_inv s" "queue_inv K s" "managed_inv V s"
  using assms by (simp_all add: wm_inv_def)

text \<open>When items only leave the registry and the queues, events stay in order.\<close>

lemma event_ok_mono:
  assumes "event_ok V s ev"
    "\<And>w. item_of s' (ce_id ev) = Some w \<Longrightarrow> item_of s (ce_id ev) = Some w"
    "\<And>w. queued s' w \<Longrightarrow> queued s w" "wm_uuids s' = wm_uuids s"
  shows "event_ok V s' ev"
  using assms unfolding event_ok_def by metis

lemma managed_inv_mono:
  assumes "managed_inv V s"
    "assigned (wm_queue_topology s') = assigned (wm_queue_topology s)"
    "\<And>tp. dict_get (wm_offset_trackers s') tp = None \<longleftrightarrow> dict_get (wm_offset_trackers s) tp = None"
    "\<And>i w. item_of s' i = Some w \<Longrightarrow> item_of s i = Some w"
    "\<And>w. queued s' w \<Longrightarrow> queued s w"
    "\<And>ev. ev \<in> set (wm_completion_queue s') \<Longrightarrow> ev \<in> set (wm_completion_queue s) \<or> event_ok V s' ev"
    "wm_uuids s' = wm_uuids s"
  shows "managed_inv V s'"
proof (rule managed_invI)
  show "event_ok V s' ev" if "ev \<in> set (wm_completion_queue s')" for ev
    using assms(6)[OF that] event_ok_mono[of V s ev s'] assms(4,5,7) managed_invD(3)[OF assms(1)] by blast
  show "assigned (wm_queue_topology s') (wi_tp w)" if "item_of s' i = Some w" for i w
    using managed_invD(2)[OF assms(1) assms(4)[OF that]] assms(2) by simp
  show "i \<in> env_uuid V ` {..<wm_uuids s'}" if "item_of s' i = Some w" for i w
    using managed_invD(4)[OF assms(1) assms(4)[OF that]] assms(7) by simp
qed (use managed_invD(1)[OF assms(1)] assms(2,3) in simp)

section \<open>Dispatching a prefix\<close>

lemma record_submitted_items_fields [simp]:
  "wm_in_flight_work_items (record_submitted_items V ws s) = wm_in_flight_work_items s"
  "wm_ordering_mode (record_submitted_items V ws s) = wm_ordering_mode s"
  "wm_queue_topology (record_submitted_items V ws s) = wm_queue_topology s"
  "wm_completion_queue (record_submitted_items V ws s) = wm_completion_queue s"
  "wm_offset_trackers (record_submitted_items V ws s) = wm_offset_trackers s"
  "wm_max_in_flight_messages (record_submitted_items V ws s) = wm_max_in_flight_messages s"
  "wm_uuids (record_submitted_items V ws s) = wm_uuids s"
  "wm_rebalancing (record_submitted_items V ws s) = wm_rebalancing s"
  "wm_poison_message_circuit (record_submitted_items V ws s) = wm_poison_message_circuit s"
  "wm_execution_engine (record_submitted_items V ws s) = wm_execution_engine s"
  "wm_route_batch_size (record_submitted_items V ws s) = wm_route_batch_size s"
  "wm_current_in_flight_count (record_submitted_items V ws s) = wm_current_in_flight_count s + int (length ws)"
  "dispatched (record_submitted_items V ws s) = dispatched s \<union> wi_id ` set ws"
  unfolding record_submitted_items_def by (induction ws arbitrary: s) auto

lemma record_submitted_items_total:
  "int (length ws) \<le> wm_total_queued_messages s \<Longrightarrow>
     wm_total_queued_messages (record_submitted_items V ws s) = wm_total_queued_messages s - int (length ws)"
  unfolding record_submitted_items_def by (induction ws arbitrary: s) auto

lemma ledger_inv_dispatch_items:
  assumes "ledger_inv s" "distinct (map wi_id ws)"
    "\<And>w. w \<in> set ws \<Longrightarrow> item_of s (wi_id w) = Some w \<and> wi_id w \<notin> dispatched s"
  shows "ledger_inv (record_submitted_items V ws s)"
  using assms
proof (induction ws arbitrary: s)
  case Nil
  then show ?case by (simp add: record_submitted_items_def)
next
  case (Cons w ws)
  have "ledger_inv (record_submitted_item V w s)"
    by (rule ledger_inv_dispatch) (use Cons.prems in simp_all)
  then have "ledger_inv (record_submitted_items V ws (record_submitted_item V w s))"
  proof (rule Cons.IH)
    show "item_of (record_submitted_item V w s) (wi_id v) = Some v
        \<and> wi_id v \<notin> dispatched (record_submitted_item V w s)" if "v \<in> set ws" for v
      using that Cons.prems(2) Cons.prems(3)[of v] by (auto simp: rev_image_eqI)
  qed (use Cons.prems in simp)
  then show ?case by (simp add: record_submitted_items_def)
qed

text \<open>The topology and the registry after a prefix of one queue has been dequeued.\<close>

lemma queue_inv_dequeue:
  assumes inv: "queue_inv K s" and free: "q \<notin> active_runnable_queue_keys (wm_queue_topology s)"
    and n: "0 < n" and deq: "dequeue_submitted_items (fst q) (snd q) n (wm_queue_topology s) = (ws, T)"
  shows "topo_inv (K - {q}) T" "queue_items T = (queue_items (wm_queue_topology s))(q := drop (nat n) (queue_items (wm_queue_topology s) q))"
    "ws = take (nat n) (queue_items (wm_queue_topology s) q)"
    "assigned T = assigned (wm_queue_topology s)"
    "int (total_queued T) = wm_total_queued_messages s - int (length ws)"
    "int (length ws) \<le> wm_total_queued_messages s"
    "distinct (map wi_id ws)"
    "\<And>w. w \<in> set ws \<Longrightarrow> item_of s (wi_id w) = Some w \<and> wi_id w \<notin> dispatched s"
proof -
  let ?T = "wm_queue_topology s"
  note I = queue_invD[OF inv]
  show "topo_inv (K - {q}) T"
    using topo_inv_dequeue[OF I(1), of "fst q" "snd q" n] free n deq by simp
  show "queue_items T = (queue_items ?T)(q := drop (nat n) (queue_items ?T q))"
    using queue_items_dequeue[of "fst q" "snd q" n ?T] deq by simp
  show w: "ws = take (nat n) (queue_items ?T q)"
    using fst_dequeue_items[of "fst q" "snd q" n ?T] deq by simp
  show "assigned T = assigned ?T"
    using assigned_dequeue[of "fst q" "snd q" n ?T] deq by simp
  have "total_queued T + length ws = total_queued ?T"
    using total_dequeue[OF topo_invD(1)[OF I(1)], of "fst q" "snd q" n] deq by simp
  then show "int (total_queued T) = wm_total_queued_messages s - int (length ws)"
    "int (length ws) \<le> wm_total_queued_messages s"
    using I(2) by linarith+
  show "distinct (map wi_id ws)"
    unfolding w using I(3)[of q] by (simp add: take_map[symmetric])
  show "item_of s (wi_id v) = Some v \<and> wi_id v \<notin> dispatched s" if "v \<in> set ws" for v
    using that I(5,6)[of v q] by (auto simp: w dest: in_set_takeD)
qed

lemma take_drop_ids:
  assumes "distinct (map wi_id xs)" "v \<in> set (drop n xs)" "u \<in> set (take n xs)"
  shows "wi_id v \<noteq> wi_id u"
proof -
  have "distinct (map wi_id (take n xs) @ map wi_id (drop n xs))"
    using assms(1) by (metis append_take_drop_id map_append)
  then show ?thesis using assms(2,3) by (force simp: distinct_append)
qed

lemma wm_inv_frame:
  assumes inv: "wm_inv V K s" and led: "same_ledger s s'"
    and topo: "wm_queue_topology s' = wm_queue_topology s"
    and tot: "wm_total_queued_messages s' = wm_total_queued_messages s"
    and cq: "wm_completion_queue s' = wm_completion_queue s"
    and tr: "\<And>tp. dict_get (wm_offset_trackers s') tp = None \<longleftrightarrow> dict_get (wm_offset_trackers s) tp = None"
    and uu: "wm_uuids s' = wm_uuids s"
  shows "wm_inv V K s'"
proof -
  note D = same_ledger_dispatched[OF led] same_ledger_items[OF led]
  have "queue_inv K s'"
    using wm_invD(2)[OF inv] by (simp add: queue_inv_def topo tot D)
  moreover have "managed_inv V s'"
    by (rule managed_inv_mono[OF wm_invD(3)[OF inv]]) (simp_all add: topo tr D cq uu queued_def)
  ultimately show ?thesis
    using same_ledger_inv[OF led wm_invD(1)[OF inv]] by (simp add: wm_inv_def)
qed

lemma wm_inv_topology:
  assumes inv: "wm_inv V K s" and topo: "topo_inv K' T"
    and items: "queue_items T = queue_items (wm_queue_topology s)"
    and asg: "assigned T = assigned (wm_queue_topology s)"
    and tot: "total_queued T = total_queued (wm_queue_topology s)"
  shows "wm_inv V K' (s\<lparr>wm_queue_topology := T\<rparr>)" (is "wm_inv V K' ?s")
proof -
  have led: "same_ledger s ?s" by (simp add: same_ledger_def)
  have "queue_inv K' ?s"
    using wm_invD(2)[OF inv] topo items tot same_ledger_dispatched[OF led] by (simp add: queue_inv_def)
  moreover have "managed_inv V ?s"
    by (rule managed_inv_mono[OF wm_invD(3)[OF inv]]) (simp_all add: items asg queued_def)
  ultimately show ?thesis
    using same_ledger_inv[OF led wm_invD(1)[OF inv]] by (simp add: wm_inv_def)
qed

lemma wm_inv_dispatch_prefix:
  assumes inv: "wm_inv V K s" and free: "q \<notin> active_runnable_queue_keys (wm_queue_topology s)"
    and n: "0 < n" and deq: "dequeue_submitted_items (fst q) (snd q) n (wm_queue_topology s) = (ws, T)"
  shows "wm_inv V (K - {q}) (record_submitted_items V ws (s\<lparr>wm_queue_topology := T\<rparr>))"
    (is "wm_inv V _ ?s")
proof -
  let ?m = "s\<lparr>wm_queue_topology := T\<rparr>"
  note I = queue_invD[OF wm_invD(2)[OF inv]]
  note D = queue_inv_dequeue[OF wm_invD(2)[OF inv] free n deq]
  have led: "same_ledger s ?m" by (simp add: same_ledger_def)
  note dm = same_ledger_dispatched[OF led]
  have "ledger_inv ?s"
    by (rule ledger_inv_dispatch_items)
      (use same_ledger_inv[OF led wm_invD(1)[OF inv]] D(7,8) dm in auto)
  moreover have "queue_inv (K - {q}) ?s"
  proof (rule queue_invI)
    show "wm_total_queued_messages ?s = int (total_queued (wm_queue_topology ?s))"
      using record_submitted_items_total[of ws ?m V] D(5,6) by simp
    show "distinct (map wi_id (queue_items (wm_queue_topology ?s) p))" for p
      using I(3)[of p] I(3)[of q] by (simp add: D(2) drop_map[symmetric])
    show "route_of w = p \<and> item_of ?s (wi_id w) = Some w \<and> wi_id w \<notin> dispatched ?s"
      if w: "w \<in> set (queue_items (wm_queue_topology ?s) p)" for p w
    proof -
      have w0: "w \<in> set (queue_items (wm_queue_topology s) p)"
        using w by (auto simp: D(2) dest: in_set_dropD split: if_splits)
      have "wi_id w \<noteq> wi_id u" if u: "u \<in> set ws" for u
      proof (cases "p = q")
        case True
        then show ?thesis using w u take_drop_ids[OF I(3)[of q]] by (simp add: D(2,3))
      next
        case False
        have "u \<in> set (queue_items (wm_queue_topology s) q)" using u by (auto simp: D(3) dest: in_set_takeD)
        then have "w \<noteq> u" using False I(4)[OF w0] I(4)[of u q] by auto
        then show ?thesis using I(5)[OF w0] D(8)[OF u] by auto
      qed
      then show ?thesis using I(4,5,6)[OF w0] dm by auto
    qed
  qed (use D(1) in simp)
  moreover have "managed_inv V ?s"
    by (rule managed_inv_mono[OF wm_invD(3)[OF inv]])
      (auto simp: D(2,4) queued_def dest: in_set_dropD split: if_splits)
  ultimately show ?thesis by (simp add: wm_inv_def)
qed

section \<open>Release\<close>

lemma queued_release:
  "queued (snd (release_in_flight_item i r s)) w = queued s w"
  by (simp add: queued_def release_topology split: option.splits)

lemma queue_inv_release:
  assumes inv: "queue_inv K s" and nq: "\<And>w. item_of s i = Some w \<Longrightarrow> \<not> queued s w"
  shows "queue_inv K (snd (release_in_flight_item i r s))" (is "queue_inv K ?s")
proof -
  note I = queue_invD[OF inv]
  have T: "topo_inv K (wm_queue_topology ?s)" "queue_items (wm_queue_topology ?s) = queue_items (wm_queue_topology s)"
    "total_queued (wm_queue_topology ?s) = total_queued (wm_queue_topology s)"
    using I(1) topo_invD(1)[OF I(1)] by (simp_all add: release_topology topo_inv_cleanup split: option.splits)
  show ?thesis
  proof (rule queue_invI)
    show "route_of w = q \<and> item_of ?s (wi_id w) = Some w \<and> wi_id w \<notin> dispatched ?s"
      if "w \<in> set (queue_items (wm_queue_topology ?s) q)" for q w
    proof -
      have w: "w \<in> set (queue_items (wm_queue_topology s) q)" using that T(2) by simp
      have "queued s w" using w I(4)[OF w] by (simp add: queued_def)
      then have "wi_id w \<noteq> i" using nq[of w] I(5)[OF w] by auto
      then show ?thesis using I(4,5,6)[OF w] by (simp add: dict_simps)
    qed
  qed (use T I(2,3) in simp_all)
qed

lemma wm_inv_release:
  assumes inv: "wm_inv V K s" and nq: "\<And>w. item_of s i = Some w \<Longrightarrow> \<not> queued s w"
  shows "wm_inv V K (snd (release_in_flight_item i r s))" (is "wm_inv V K ?s")
proof -
  have "managed_inv V ?s"
    by (rule managed_inv_mono[OF wm_invD(3)[OF inv]])
      (auto simp: queued_release release_topology dict_simps split: option.splits if_splits)
  then show ?thesis
    using ledger_inv_release[OF wm_invD(1)[OF inv]] queue_inv_release[OF wm_invD(2)[OF inv] nq]
    by (simp add: wm_inv_def)
qed

section \<open>Completions\<close>

lemma pop_dispatch_idle:
  "i \<notin> dispatched s \<Longrightarrow> pop_dispatch_timestamp i s = s"
  by (simp add: pop_dispatch_timestamp_def dict_pop_notin dispatched_def)

lemma record_poison_same: "same_ledger s (record_poison_completion V ev w s)"
  by (simp add: record_poison_completion_def same_ledger_def read_clock_def Let_def split: option.splits)

lemma record_poison_fields [simp]:
  "wm_queue_topology (record_poison_completion V ev w s) = wm_queue_topology s"
  "wm_total_queued_messages (record_poison_completion V ev w s) = wm_total_queued_messages s"
  "wm_completion_queue (record_poison_completion V ev w s) = wm_completion_queue s"
  "wm_offset_trackers (record_poison_completion V ev w s) = wm_offset_trackers s"
  "wm_uuids (record_poison_completion V ev w s) = wm_uuids s"
  "wm_in_flight_work_items (record_poison_completion V ev w s) = wm_in_flight_work_items s"
  "wm_max_in_flight_messages (record_poison_completion V ev w s) = wm_max_in_flight_messages s"
  by (simp_all add: record_poison_completion_def read_clock_def Let_def split: option.splits)

lemma observe_latency_same: "same_ledger s (observe_latency V t s)"
  by (simp add: observe_latency_def same_ledger_def read_clock_def Let_def record_completion_latency_def
      prune_completion_timestamps_def split: option.splits)

lemma observe_latency_fields [simp]:
  "wm_queue_topology (observe_latency V t s) = wm_queue_topology s"
  "wm_total_queued_messages (observe_latency V t s) = wm_total_queued_messages s"
  "wm_completion_queue (observe_latency V t s) = wm_completion_queue s"
  "wm_offset_trackers (observe_latency V t s) = wm_offset_trackers s"
  "wm_uuids (observe_latency V t s) = wm_uuids s"
  "wm_in_flight_work_items (observe_latency V t s) = wm_in_flight_work_items s"
  "wm_dispatch_timestamps (observe_latency V t s) = wm_dispatch_timestamps s"
  "wm_max_in_flight_messages (observe_latency V t s) = wm_max_in_flight_messages s"
  by (simp_all add: observe_latency_def read_clock_def Let_def record_completion_latency_def
      prune_completion_timestamps_def split: option.splits)

lemma wm_inv_not_dispatched:
  assumes "wm_inv V K s" "item_of s i = None" shows "i \<notin> dispatched s"
  using ledger_invD(3)[OF wm_invD(1)[OF assms(1)], of i] assms(2) by auto

lemma wm_inv_pop_idle:
  "wm_inv V K s \<Longrightarrow> item_of s i = None \<Longrightarrow> pop_dispatch_timestamp i s = s"
  by (simp add: pop_dispatch_idle wm_inv_not_dispatched)

lemma item_of_release [simp]: "item_of (snd (release_in_flight_item i r s)) j = (if j = i then None else item_of s j)"
  by (simp add: dict_simps)

text \<open>The tracker update of a completion.\<close>

definition mark_event ::
  "('k, 'p, 's, 'c, 'e) wm_env \<Rightarrow> completion_event \<Rightarrow> ('s, 'c) offset_tracker
    \<Rightarrow> ('k, 'p, 's, 'c, 'e) work_manager \<Rightarrow> ('k, 'p, 's, 'c, 'e) work_manager" where
  "mark_event V ev t s =
     (if ce_tp ev \<in> wm_shared_offset_trackers s then s
      else invalidate_blocking_cache
        (s\<lparr>wm_offset_trackers :=
             dict_set (ce_tp ev) (mark_complete (env_containers V) (ce_offset ev) t)
               (wm_offset_trackers s)\<rparr>))"

definition settle_event ::
  "('k, 'p, 's, 'c, 'e) wm_env \<Rightarrow> completion_event \<Rightarrow> ('k, 'p) work_item
    \<Rightarrow> ('k, 'p, 's, 'c, 'e) work_manager \<Rightarrow> ('k, 'p, 's, 'c, 'e) work_manager" where
  "settle_event V ev w s =
     (let r = release_in_flight_item (ce_id ev) False (record_poison_completion V ev w s)
      in pop_dispatch_timestamp (ce_id ev) (observe_latency V (snd (fst r)) (snd r)))"

lemma process_cases:
  "process_completion_event V ev s =
     (case dict_get (wm_offset_trackers s) (ce_tp ev) of
        None \<Rightarrow> (False, pop_dispatch_timestamp (ce_id ev) s)
      | Some t \<Rightarrow>
          if ce_epoch ev \<noteq> get_current_epoch t then
            (False, pop_dispatch_timestamp (ce_id ev)
              (case item_of s (ce_id ev) of
                 None \<Rightarrow> s
               | Some w \<Rightarrow> if wi_tp w = ce_tp ev
                   then snd (release_in_flight_item (ce_id ev) True s) else s))
          else
            (case item_of s (ce_id ev) of
               None \<Rightarrow> (False, pop_dispatch_timestamp (ce_id ev) (mark_event V ev t s))
             | Some w \<Rightarrow> (True, settle_event V ev w (mark_event V ev t s))))"
  unfolding process_completion_event_def mark_event_def settle_event_def
  by (simp add: Let_def case_prod_beta invalidate_blocking_cache_def split: option.splits)

lemma mark_event_same: "same_ledger s (mark_event V ev t s)"
  by (simp add: mark_event_def same_ledger_def invalidate_blocking_cache_def)

lemma mark_event_fields [simp]:
  "wm_queue_topology (mark_event V ev t s) = wm_queue_topology s"
  "wm_total_queued_messages (mark_event V ev t s) = wm_total_queued_messages s"
  "wm_completion_queue (mark_event V ev t s) = wm_completion_queue s"
  "wm_uuids (mark_event V ev t s) = wm_uuids s"
  "wm_in_flight_work_items (mark_event V ev t s) = wm_in_flight_work_items s"
  "wm_max_in_flight_messages (mark_event V ev t s) = wm_max_in_flight_messages s"
  by (simp_all add: mark_event_def invalidate_blocking_cache_def)

lemma wm_inv_mark:
  "wm_inv V K s \<Longrightarrow> dict_get (wm_offset_trackers s) (ce_tp ev) = Some t \<Longrightarrow> wm_inv V K (mark_event V ev t s)"
  by (rule wm_inv_frame[OF _ mark_event_same])
    (auto simp: mark_event_def invalidate_blocking_cache_def dict_simps split: if_splits)

lemma settle_event_eq:
  assumes "wm_inv V K s" "item_of s (ce_id ev) = Some w" "\<not> queued s w"
  defines "s1 \<equiv> snd (release_in_flight_item (ce_id ev) False (record_poison_completion V ev w s))"
  shows "wm_inv V K s1"
    "\<exists>t. settle_event V ev w s = observe_latency V t s1"
proof -
  let ?p = "record_poison_completion V ev w s"
  have p: "wm_inv V K ?p"
    by (rule wm_inv_frame[OF assms(1) record_poison_same]) simp_all
  show inv: "wm_inv V K s1"
    unfolding s1_def by (rule wm_inv_release[OF p]) (use assms(2,3) in \<open>simp add: queued_def\<close>)
  have idle: "ce_id ev \<notin> dispatched (observe_latency V t s1)" for t
    using same_ledger_dispatched[OF observe_latency_same, of V t s1] by (simp add: s1_def)
  show "\<exists>t. settle_event V ev w s = observe_latency V t s1"
    using pop_dispatch_idle[OF idle] by (auto simp: settle_event_def Let_def s1_def)
qed

lemma process_event_inv:
  assumes inv: "wm_inv V K s" and ok: "event_ok V s ev"
  shows "wm_inv V K (snd (process_completion_event V ev s))"
proof -
  let ?i = "ce_id ev"
  have okD: "wi_tp w = ce_tp ev" "\<not> queued s w" if "item_of s ?i = Some w" for w
    using ok that by (auto simp: event_ok_def)
  show ?thesis
  proof (cases "dict_get (wm_offset_trackers s) (ce_tp ev)")
    case None
    have "item_of s ?i = None"
    proof (rule ccontr)
      assume "item_of s ?i \<noteq> None"
      then obtain w where w: "item_of s ?i = Some w" by blast
      then show False
        using managed_invD(1)[OF wm_invD(3)[OF inv], of "wi_tp w"]
          managed_invD(2)[OF wm_invD(3)[OF inv] w] okD(1)[OF w] None by simp
    qed
    then show ?thesis using None inv wm_inv_pop_idle[OF inv] by (simp add: process_cases)
  next
    case (Some t)
    show ?thesis
    proof (cases "item_of s ?i")
      case None
      have m: "wm_inv V K (mark_event V ev t s)" by (rule wm_inv_mark[OF inv Some])
      show ?thesis
        using None Some inv m wm_inv_pop_idle[OF inv None] wm_inv_pop_idle[OF m, of ?i]
        by (simp add: process_cases)
    next
      case item: (Some w)
      have rel: "wm_inv V K (snd (release_in_flight_item ?i True s))"
        by (rule wm_inv_release[OF inv]) (use okD(2) in blast)
      have m: "wm_inv V K (mark_event V ev t s)" by (rule wm_inv_mark[OF inv Some])
      obtain t' where st: "settle_event V ev w (mark_event V ev t s) =
        observe_latency V t' (snd (release_in_flight_item ?i False
          (record_poison_completion V ev w (mark_event V ev t s))))"
        and si: "wm_inv V K (snd (release_in_flight_item ?i False
          (record_poison_completion V ev w (mark_event V ev t s))))"
        using settle_event_eq[OF m, of ev w] item okD(2)[OF item] by (auto simp: queued_def)
      have set: "wm_inv V K (settle_event V ev w (mark_event V ev t s))"
        unfolding st by (rule wm_inv_frame[OF si observe_latency_same]) simp_all
      have idle: "?i \<notin> dispatched (snd (release_in_flight_item ?i True s))" by simp
      show ?thesis
        using Some item okD(1)[OF item] rel set pop_dispatch_idle[OF idle]
        by (simp add: process_cases)
    qed
  qed
qed

text \<open>What a completion leaves alone, and how it only shrinks the registry.\<close>

lemma settle_event_fields [simp]:
  "wm_completion_queue (settle_event V ev w s) = wm_completion_queue s"
  "wm_total_queued_messages (settle_event V ev w s) = wm_total_queued_messages s"
  "wm_in_flight_work_items (settle_event V ev w s) = dict_pop (ce_id ev) (wm_in_flight_work_items s)"
  "wm_max_in_flight_messages (settle_event V ev w s) = wm_max_in_flight_messages s"
  "queue_items (wm_queue_topology (settle_event V ev w s)) = queue_items (wm_queue_topology s)"
  "wm_offset_trackers (settle_event V ev w s) = wm_offset_trackers s"
  "wm_uuids (settle_event V ev w s) = wm_uuids s"
  by (simp_all add: settle_event_def Let_def pop_dispatch_timestamp_def release_topology split: option.splits)

lemma process_event_frame:
  "wm_completion_queue (snd (process_completion_event V ev s)) = wm_completion_queue s"
  "wm_total_queued_messages (snd (process_completion_event V ev s)) = wm_total_queued_messages s"
  "wm_max_in_flight_messages (snd (process_completion_event V ev s)) = wm_max_in_flight_messages s"
  "queue_items (wm_queue_topology (snd (process_completion_event V ev s))) = queue_items (wm_queue_topology s)"
  "item_of (snd (process_completion_event V ev s)) j = Some w \<Longrightarrow> item_of s j = Some w"
  "wm_uuids (snd (process_completion_event V ev s)) = wm_uuids s"
  by (simp_all add: process_cases pop_dispatch_timestamp_def release_topology dict_simps
      split: option.splits if_splits)

lemma process_event_ok:
  assumes "event_ok V s ev'" shows "event_ok V (snd (process_completion_event V ev s)) ev'"
  by (rule event_ok_mono[OF assms]) (simp_all add: queued_def process_event_frame(4,6) process_event_frame(5)[of V ev s])

lemma process_events_inv:
  "wm_inv V K s \<Longrightarrow> (\<And>ev. ev \<in> set evs \<Longrightarrow> event_ok V s ev) \<Longrightarrow> wm_inv V K (snd (process_events V evs b s))"
proof (induction evs arbitrary: b s)
  case (Cons ev evs)
  have "wm_inv V K (snd (process_events V evs b' (snd (process_completion_event V ev s))))" for b'
    by (rule Cons.IH) (use Cons.prems in \<open>auto intro: process_event_inv process_event_ok\<close>)
  then show ?case by (simp add: case_prod_beta)
qed simp

lemma process_events_frame:
  "wm_completion_queue (snd (process_events V evs b s)) = wm_completion_queue s"
  "wm_total_queued_messages (snd (process_events V evs b s)) = wm_total_queued_messages s"
  "wm_max_in_flight_messages (snd (process_events V evs b s)) = wm_max_in_flight_messages s"
  "queue_items (wm_queue_topology (snd (process_events V evs b s))) = queue_items (wm_queue_topology s)"
  by (induction evs arbitrary: b s) (simp_all add: case_prod_beta process_event_frame)

lemma event_ok_queue [simp]: "event_ok V (s\<lparr>wm_completion_queue := evs\<rparr>) ev = event_ok V s ev"
  by (simp add: event_ok_def queued_def)

lemma wm_inv_completion_queue:
  assumes "wm_inv V K s" "\<And>ev. ev \<in> set evs \<Longrightarrow> event_ok V s ev"
  shows "wm_inv V K (s\<lparr>wm_completion_queue := evs\<rparr>)" (is "wm_inv V K ?s")
proof -
  have led: "same_ledger s ?s" by (simp add: same_ledger_def)
  have "queue_inv K ?s"
    using wm_invD(2)[OF assms(1)] unfolding queue_inv_def same_ledger_dispatched[OF led] by simp
  moreover have "managed_inv V ?s"
    by (rule managed_inv_mono[OF wm_invD(3)[OF assms(1)]]) (simp_all add: queued_def assms(2))
  ultimately show ?thesis
    using same_ledger_inv[OF led wm_invD(1)[OF assms(1)]] by (simp add: wm_inv_def)
qed

lemma drain_inv:
  assumes "wm_inv V K s" shows "wm_inv V K (snd (snd (drain_completion_queue V s)))"
  unfolding drain_completion_queue_def Let_def snd_conv
  by (rule process_events_inv)
    (use wm_inv_completion_queue[OF assms, of "[]"] managed_invD(3)[OF wm_invD(3)[OF assms]] in simp_all)

end
