(* ===== verification/Work_Scheduling.thy ===== *)
theory Work_Scheduling
  imports Work_Ledger
begin

text \<open>
  The scheduling loop and the polling loop. One pass of \<open>schedule\<close> either dispatches a prefix of
  one queue, force-fails its head, or stops; every pass that goes on takes an item off the
  queues, so one more unit of fuel than there are queued items is enough. The specifications
  \<open>step_spec\<close>, \<open>loop_spec\<close>, \<open>schedule_spec\<close> and \<open>poll_spec\<close> collect what holds afterwards: the
  invariant, the in-flight bound, the exclusivity of ordered keys, and why the run stopped.
\<close>

section \<open>One pass of the scheduler\<close>

text \<open>
  \<open>progressed s s'\<close>: what a pass of the scheduler may change. Each queue loses a prefix, whose
  items have been dispatched or have a completion event pending; events are only appended; and
  the trackers, the registry and the settings stay.
\<close>

definition taken_off ::
  "('k, 'p, 's, 'c, 'e) work_manager \<Rightarrow> ('k, 'p, 's, 'c, 'e) work_manager \<Rightarrow> 'k queue_key
    \<Rightarrow> ('k, 'p) work_item list \<Rightarrow> bool" where
  "taken_off s s' q xs \<longleftrightarrow>
     queue_items (wm_queue_topology s) q = xs @ queue_items (wm_queue_topology s') q \<and>
     (\<forall>w \<in> set xs. wi_id w \<in> dispatched s' \<or> wi_id w \<in> ce_id ` set (wm_completion_queue s'))"

definition progressed ::
  "('k, 'p, 's, 'c, 'e) work_manager \<Rightarrow> ('k, 'p, 's, 'c, 'e) work_manager \<Rightarrow> bool" where
  "progressed s s' \<longleftrightarrow>
     (\<forall>q. \<exists>xs. taken_off s s' q xs) \<and>
     wm_in_flight_work_items s' = wm_in_flight_work_items s \<and>
     wm_offset_trackers s' = wm_offset_trackers s \<and>
     dispatched s \<subseteq> dispatched s' \<and>
     wm_max_in_flight_messages s' = wm_max_in_flight_messages s \<and>
     wm_ordering_mode s' = wm_ordering_mode s \<and>
     wm_rebalancing s' = wm_rebalancing s \<and>
     wm_route_batch_size s' = wm_route_batch_size s \<and>
     (wm_poison_message_circuit s' = None \<longleftrightarrow> wm_poison_message_circuit s = None) \<and>
     (\<exists>evs. wm_completion_queue s' = wm_completion_queue s @ evs)"

lemma taken_off_nothing:
  "queue_items (wm_queue_topology s') = queue_items (wm_queue_topology s) \<Longrightarrow> \<exists>xs. taken_off s s' q xs"
  by (rule exI[of _ "[]"]) (simp add: taken_off_def)

lemma progressed_refl [simp]: "progressed s s"
  by (simp add: progressed_def taken_off_nothing)

lemma progressed_trans: "progressed s t \<Longrightarrow> progressed t u \<Longrightarrow> progressed s u"
proof -
  assume st: "progressed s t" and tu: "progressed t u"
  have sub: "dispatched t \<subseteq> dispatched u" "dispatched s \<subseteq> dispatched u"
    using st tu unfolding progressed_def by (simp_all add: subset_trans[of "dispatched s" "dispatched t"])
  obtain es fs where evs: "wm_completion_queue t = wm_completion_queue s @ es"
    "wm_completion_queue u = wm_completion_queue t @ fs"
    using st tu unfolding progressed_def by meson
  have "\<exists>xs. taken_off s u q xs" for q
  proof -
    obtain xs ys where "taken_off s t q xs" "taken_off t u q ys"
      using st tu unfolding progressed_def by meson
    then have "taken_off s u q (xs @ ys)" using sub(1) evs(2) by (auto simp: taken_off_def)
    then show ?thesis by (rule exI)
  qed
  then show ?thesis using st tu sub(2) evs by (simp add: progressed_def)
qed

definition silent ::
  "('k, 'p, 's, 'c, 'e) work_manager \<Rightarrow> ('k, 'p, 's, 'c, 'e) work_manager \<Rightarrow> bool" where
  "silent s s' \<longleftrightarrow> same_ledger s s' \<and>
     wm_total_queued_messages s' = wm_total_queued_messages s \<and>
     wm_completion_queue s' = wm_completion_queue s \<and>
     wm_offset_trackers s' = wm_offset_trackers s \<and>
     wm_uuids s' = wm_uuids s \<and>
     wm_max_in_flight_messages s' = wm_max_in_flight_messages s \<and>
     wm_rebalancing s' = wm_rebalancing s \<and>
     wm_route_batch_size s' = wm_route_batch_size s \<and>
     (wm_poison_message_circuit s' = None \<longleftrightarrow> wm_poison_message_circuit s = None)"

lemma silent_inv:
  "wm_inv V K s \<Longrightarrow> silent s s' \<Longrightarrow> wm_queue_topology s' = wm_queue_topology s \<Longrightarrow> wm_inv V K s'"
  by (rule wm_inv_frame) (simp_all add: silent_def)

lemma silent_progressed:
  "silent s s' \<Longrightarrow> queue_items (wm_queue_topology s') = queue_items (wm_queue_topology s) \<Longrightarrow> progressed s s'"
  using same_ledger_dispatched[of s s']
  by (simp add: silent_def progressed_def same_ledger_def taken_off_nothing)

lemma silent_topology [simp]: "silent s (s\<lparr>wm_queue_topology := T\<rparr>)"
  by (simp add: silent_def same_ledger_def)

lemma ask_circuit_silent: "silent s (snd (ask_circuit V w s))"
  by (simp add: ask_circuit_def silent_def same_ledger_def read_clock_def Let_def case_prod_beta split: option.splits)

lemma ask_circuit_topology [simp]:
  "wm_queue_topology (snd (ask_circuit V w s)) = wm_queue_topology s"
  by (simp add: ask_circuit_def read_clock_def Let_def case_prod_beta split: option.splits)

lemma silent_trans: "silent s t \<Longrightarrow> silent t u \<Longrightarrow> silent s u"
  by (simp add: silent_def same_ledger_def)

lemma silent_refl [simp]: "silent s s"
  by (simp add: silent_def)

text \<open>A verdict of "no" prunes the circuit it looked at, so asking again says "no" again.\<close>

lemma ask_circuit_again:
  assumes "ask_circuit V w s = (False, s1)" shows "\<not> fst (ask_circuit V w s1)"
proof (cases "wm_poison_message_circuit s")
  case None
  then show ?thesis using assms by (auto simp: ask_circuit_def)
next
  case (Some C)
  let ?r = "should_force_fail (env_clock V (wm_ticks s)) w C"
  have "\<not> fst ?r" and s1: "wm_poison_message_circuit s1 = Some (snd ?r)"
    using assms Some by (auto simp: ask_circuit_def read_clock_def Let_def case_prod_beta)
  then have "\<not> fst (should_force_fail now w (snd ?r))" for now
    by (auto simp: should_force_fail_def should_force_fail_with_def dict_simps split: option.splits if_splits)
  then show ?thesis using s1 by (simp add: ask_circuit_def read_clock_def Let_def case_prod_beta)
qed

lemma truncate_loop_silent:
  "silent s (snd (truncate_loop V ws s)) \<and> wm_queue_topology (snd (truncate_loop V ws s)) = wm_queue_topology s"
proof (induction ws arbitrary: s)
  case (Cons w ws)
  let ?a = "ask_circuit V w s"
  have "silent s (snd ?a)" "wm_queue_topology (snd ?a) = wm_queue_topology s"
    by (simp_all add: ask_circuit_silent)
  then show ?case
    using Cons.IH[of "snd ?a"] silent_trans[of s "snd ?a"] by (simp add: case_prod_beta split: bool.splits)
qed simp

lemma truncate_loop_prefix: "\<exists>n \<le> length ws. fst (truncate_loop V ws s) = take n ws"
proof (induction ws arbitrary: s)
  case (Cons w ws)
  show ?case
  proof (cases "fst (ask_circuit V w s)")
    case True
    then show ?thesis by (intro exI[of _ 0]) (simp add: case_prod_beta)
  next
    case False
    obtain n where "n \<le> length ws" "fst (truncate_loop V ws (snd (ask_circuit V w s))) = take n ws"
      using Cons.IH by blast
    then show ?thesis using False by (intro exI[of _ "Suc n"]) (simp add: case_prod_beta)
  qed
qed simp

lemma truncate_batch_spec:
  assumes "ask_circuit V w s = (False, s1)"
    "truncate_batch_before_force_fail V (w # ws) s1 = (accepted, s2)"
  shows "silent s1 s2" "wm_queue_topology s2 = wm_queue_topology s1"
    "\<exists>n. 0 < n \<and> n \<le> length (w # ws) \<and> accepted = take n (w # ws)"
    "wm_poison_message_circuit s1 = None \<Longrightarrow> accepted = w # ws"
proof -
  show "silent s1 s2" "wm_queue_topology s2 = wm_queue_topology s1"
    using assms(2) truncate_loop_silent[of s1 V "w # ws"]
    by (auto simp: truncate_batch_before_force_fail_def simp del: truncate_loop.simps split: if_splits)
  show "accepted = w # ws" if "wm_poison_message_circuit s1 = None"
    using assms(2) that by (simp add: truncate_batch_before_force_fail_def)
  show "\<exists>n. 0 < n \<and> n \<le> length (w # ws) \<and> accepted = take n (w # ws)"
  proof (cases "wm_poison_message_circuit s1 = None")
    case True
    then show ?thesis using assms(2)
      by (intro exI[of _ "length (w # ws)"]) (auto simp: truncate_batch_before_force_fail_def)
  next
    case False
    obtain n where "n \<le> length ws"
      "fst (truncate_loop V ws (snd (ask_circuit V w s1))) = take n ws"
      using truncate_loop_prefix by blast
    then show ?thesis
      using False assms(2) ask_circuit_again[OF assms(1)]
      by (intro exI[of _ "Suc n"]) (auto simp: truncate_batch_before_force_fail_def case_prod_beta)
  qed
qed

lemma pop_queue_key_eq:
  "pop_queue_key bs s =
     (fst (pop_next_queue_key bs (is_queue_eligible s) (wm_queue_topology s)),
      s\<lparr>wm_queue_topology := snd (pop_next_queue_key bs (is_queue_eligible s) (wm_queue_topology s))\<rparr>)"
  by (auto simp: pop_queue_key_def pop_next_queue_key_def split: prod.splits option.splits)

lemma pop_queue_key_spec:
  assumes inv: "wm_inv V K s" and pop: "pop_queue_key bs s = (r, s1)"
  shows "silent s s1" "queue_items (wm_queue_topology s1) = queue_items (wm_queue_topology s)"
    "case r of
       Inl _ \<Rightarrow> False
     | Inr None \<Rightarrow> wm_inv V K s1 \<and>
         (\<forall>q. q \<notin> K \<and> queue_items (wm_queue_topology s) q \<noteq> [] \<longrightarrow> \<not> is_queue_eligible s q)
     | Inr (Some q) \<Rightarrow> q \<notin> K \<and> queue_items (wm_queue_topology s) q \<noteq> [] \<and> is_queue_eligible s q \<and>
         wm_inv V (insert q K) s1 \<and> q \<notin> active_runnable_queue_keys (wm_queue_topology s1)"
proof -
  let ?T = "wm_queue_topology s"
  obtain r' T where p: "pop_next_queue_key bs (is_queue_eligible s) ?T = (r', T)" by fastforce
  have r: "r' = r" "s1 = s\<lparr>wm_queue_topology := T\<rparr>" using pop p by (simp_all add: pop_queue_key_eq)
  have T: "queue_items T = queue_items ?T" "assigned T = assigned ?T" "total_queued T = total_queued ?T"
    using topo_frames(6,12) total_frames(6) p by (metis snd_conv)+
  show "silent s s1" "queue_items (wm_queue_topology s1) = queue_items ?T"
    using r T by simp_all
  have spec: "case r of
      Inl _ \<Rightarrow> False
    | Inr None \<Rightarrow> T = ?T \<and> (\<forall>q. q \<notin> K \<and> queue_items ?T q \<noteq> [] \<longrightarrow> \<not> is_queue_eligible s q)
    | Inr (Some q) \<Rightarrow> q \<notin> K \<and> queue_items ?T q \<noteq> [] \<and> is_queue_eligible s q \<and> topo_inv (insert q K) T"
    using pop_next_spec[OF queue_invD(1)[OF wm_invD(2)[OF inv]] p] r(1) by simp
  have "wm_inv V K' s1" if "topo_inv K' T" for K'
    unfolding r(2) by (rule wm_inv_topology[OF inv that]) (use T in simp_all)
  then show "case r of
       Inl _ \<Rightarrow> False
     | Inr None \<Rightarrow> wm_inv V K s1 \<and>
         (\<forall>q. q \<notin> K \<and> queue_items ?T q \<noteq> [] \<longrightarrow> \<not> is_queue_eligible s q)
     | Inr (Some q) \<Rightarrow> q \<notin> K \<and> queue_items ?T q \<noteq> [] \<and> is_queue_eligible s q \<and>
         wm_inv V (insert q K) s1 \<and> q \<notin> active_runnable_queue_keys (wm_queue_topology s1)"
    using spec inv r(2) topo_invD(4) by (fastforce split: sum.splits option.splits)
qed

lemma force_fail_queued_spec:
  assumes inv: "wm_inv V (insert q K) s" and q: "q \<notin> K"
    and free: "q \<notin> active_runnable_queue_keys (wm_queue_topology s)"
    and items: "queue_items (wm_queue_topology s) q = w # ws"
    and ff: "force_fail_queued_item V w q s = (b, s')"
  shows "b \<Longrightarrow> wm_inv V K s' \<and> progressed s s' \<and> same_ledger s s' \<and>
           wm_total_queued_messages s' = wm_total_queued_messages s - 1 \<and>
           queue_items (wm_queue_topology s') = (queue_items (wm_queue_topology s))(q := ws) \<and>
           length (wm_completion_queue s') = Suc (length (wm_completion_queue s))"
    "\<not> b \<Longrightarrow> ask_circuit V w s = (False, s')"
proof -
  obtain v s1 where ask: "ask_circuit V w s = (v, s1)" by fastforce
  have s1: "silent s s1" "wm_queue_topology s1 = wm_queue_topology s"
    using ask_circuit_silent[of s V w] ask_circuit_topology[of V w s] ask by simp_all
  obtain ds T where d: "dequeue_submitted_items (fst q) (snd q) 1 (wm_queue_topology s1) = (ds, T)" by fastforce
  have inv1: "wm_inv V (insert q K) s1" by (rule silent_inv[OF inv s1])
  note D = queue_inv_dequeue[OF wm_invD(2)[OF inv1] _ _ d]
  have free1: "q \<notin> active_runnable_queue_keys (wm_queue_topology s1)" using free s1(2) by simp
  have ds: "ds = [w]" using D(3)[OF free1] items s1(2) by simp
  have one: "dequeue_submitted_item (fst q) (snd q) (wm_queue_topology s1) = (Some w, T)"
    using d ds by (simp add: dequeue_item_single)
  show "ask_circuit V w s = (False, s')" if "\<not> b"
    using that ff ask one by (auto simp: force_fail_queued_item_def split: bool.splits)
  show "wm_inv V K s' \<and> progressed s s' \<and> same_ledger s s' \<and>
           wm_total_queued_messages s' = wm_total_queued_messages s - 1 \<and>
           queue_items (wm_queue_topology s') = (queue_items (wm_queue_topology s))(q := ws) \<and>
           length (wm_completion_queue s') = Suc (length (wm_completion_queue s))" if b
  proof -
    have v: "v" using that ff ask by (auto simp: force_fail_queued_item_def split: bool.splits)
    obtain C where C: "wm_poison_message_circuit s1 = Some C"
      using v ask by (auto simp: ask_circuit_def read_clock_def Let_def case_prod_beta split: option.splits)
    let ?ev = "build_forced_failure_event w C"
    have s': "s' = s1\<lparr>wm_queue_topology := T,
        wm_total_queued_messages := max 0 (wm_total_queued_messages s1 - 1),
        wm_completion_queue := wm_completion_queue s1 @ [?ev], wm_blocking_cache_counter := 0\<rparr>"
      using ff ask v one C by (simp add: force_fail_queued_item_def invalidate_blocking_cache_def)
    have led: "same_ledger s1 s'" by (simp add: s' same_ledger_def)
    note I = queue_invD[OF wm_invD(2)[OF inv1]]
    have tl: "queue_items T = (queue_items (wm_queue_topology s1))(q := ws)"
      using D(2)[OF free1] items s1(2) by simp
    have reg: "item_of s1 (wi_id w) = Some w" "wi_tp w = fst q" "route_of w = q"
      using I(5)[of w q] I(4)[of w q] items s1(2) by auto
    have notin: "w \<notin> set ws" using I(3)[of q] items s1(2) by auto
    have tot: "wm_total_queued_messages s' = wm_total_queued_messages s1 - 1"
      "int (total_queued T) = wm_total_queued_messages s1 - 1"
      using D(5,6)[OF free1] ds by (simp_all add: s')
    have "queue_inv K s'"
    proof (rule queue_invI)
      show "topo_inv K (wm_queue_topology s')"
        using D(1)[OF free1] q by (simp add: s')
      show "distinct (map wi_id (queue_items (wm_queue_topology s') p))" for p
        using I(3)[of p] I(3)[of q] items s1(2) by (simp add: s' tl)
      show "route_of v = p \<and> item_of s' (wi_id v) = Some v \<and> wi_id v \<notin> dispatched s'"
        if "v \<in> set (queue_items (wm_queue_topology s') p)" for p v
      proof -
        have "v \<in> set (queue_items (wm_queue_topology s1) p)"
          using that items s1(2) by (auto simp: s' tl split: if_splits)
        then show ?thesis
          using I(4,5,6) same_ledger_dispatched[OF led] same_ledger_items[OF led] by simp
      qed
    qed (use tot in \<open>simp add: s'\<close>)
    moreover have "managed_inv V s'"
    proof (rule managed_inv_mono[OF wm_invD(3)[OF inv1]])
      show "assigned (wm_queue_topology s') = assigned (wm_queue_topology s1)"
        using D(4)[OF free1] by (simp add: s')
      show "queued s1 v" if "queued s' v" for v
        using that items s1(2) by (auto simp: queued_def s' tl split: if_splits)
      show "ev \<in> set (wm_completion_queue s1) \<or> event_ok V s' ev"
        if "ev \<in> set (wm_completion_queue s')" for ev
        using that reg notin managed_invD(4)[OF wm_invD(3)[OF inv1] reg(1)]
        by (auto simp: s' event_ok_def queued_def tl build_forced_failure_event_def Let_def)
    qed (simp_all add: s')
    ultimately have "wm_inv V K s'"
      using same_ledger_inv[OF led wm_invD(1)[OF inv1]] by (simp add: wm_inv_def)
    moreover have "\<exists>xs. taken_off s1 s' p xs" for p
      by (rule exI[of _ "if p = q then [w] else []"])
        (use items s1(2) in \<open>simp add: taken_off_def s' tl build_forced_failure_event_def Let_def\<close>)
    then have "progressed s1 s'"
      using same_ledger_dispatched[OF led] by (simp add: progressed_def s')
    moreover have "progressed s s1" by (rule silent_progressed) (simp_all add: s1)
    moreover have "same_ledger s s'" using s1(1) led same_ledger_trans by (auto simp: silent_def)
    moreover have "queue_items (wm_queue_topology s') = (queue_items (wm_queue_topology s))(q := ws)"
      using tl s1(2) by (simp add: s')
    moreover have "length (wm_completion_queue s') = Suc (length (wm_completion_queue s))"
      using s1(1) by (simp add: s' silent_def)
    ultimately show ?thesis using tot s1(1) progressed_trans by (auto simp: silent_def)
  qed
qed

text \<open>Dispatching the first \<open>n\<close> items of a held queue.\<close>

definition dispatch_prefix ::
  "('k, 'p, 's, 'c, 'e) wm_env \<Rightarrow> 'k queue_key \<Rightarrow> int \<Rightarrow> ('k, 'p, 's, 'c, 'e) work_manager
    \<Rightarrow> ('k, 'p, 's, 'c, 'e) work_manager" where
  "dispatch_prefix V q n s =
     (let r = dequeue_submitted_items (fst q) (snd q) n (wm_queue_topology s)
      in record_submitted_items V (fst r) (s\<lparr>wm_queue_topology := snd r\<rparr>))"

lemma dispatch_prefix_spec:
  assumes inv: "wm_inv V (insert q K) s" and q: "q \<notin> K"
    and free: "q \<notin> active_runnable_queue_keys (wm_queue_topology s)" and n: "0 < n"
  shows "wm_inv V K (dispatch_prefix V q n s)"
    "queue_items (wm_queue_topology (dispatch_prefix V q n s)) =
       (queue_items (wm_queue_topology s))(q := drop (nat n) (queue_items (wm_queue_topology s) q))"
    "progressed s (dispatch_prefix V q n s)"
    "dispatched (dispatch_prefix V q n s) =
       dispatched s \<union> wi_id ` set (take (nat n) (queue_items (wm_queue_topology s) q))"
    "wm_current_in_flight_count (dispatch_prefix V q n s) =
       wm_current_in_flight_count s + int (length (take (nat n) (queue_items (wm_queue_topology s) q)))"
    "wm_total_queued_messages (dispatch_prefix V q n s) =
       wm_total_queued_messages s - int (length (take (nat n) (queue_items (wm_queue_topology s) q)))"
    "wm_completion_queue (dispatch_prefix V q n s) = wm_completion_queue s"
proof -
  obtain ws T where d: "dequeue_submitted_items (fst q) (snd q) n (wm_queue_topology s) = (ws, T)" by fastforce
  note D = queue_inv_dequeue[OF wm_invD(2)[OF inv] free n d]
  have eq: "dispatch_prefix V q n s = record_submitted_items V ws (s\<lparr>wm_queue_topology := T\<rparr>)"
    by (simp add: dispatch_prefix_def d)
  have led: "same_ledger s (s\<lparr>wm_queue_topology := T\<rparr>)" by (simp add: same_ledger_def)
  show "wm_completion_queue (dispatch_prefix V q n s) = wm_completion_queue s"
    by (simp add: eq)
  show "wm_inv V K (dispatch_prefix V q n s)"
    using wm_inv_dispatch_prefix[OF inv free n d] q by (simp add: eq)
  show items: "queue_items (wm_queue_topology (dispatch_prefix V q n s)) =
       (queue_items (wm_queue_topology s))(q := drop (nat n) (queue_items (wm_queue_topology s) q))"
    using D(2) by (simp add: eq)
  show disp: "dispatched (dispatch_prefix V q n s) =
       dispatched s \<union> wi_id ` set (take (nat n) (queue_items (wm_queue_topology s) q))"
    using same_ledger_dispatched[OF led] D(3) by (simp add: eq)
  show "wm_current_in_flight_count (dispatch_prefix V q n s) =
       wm_current_in_flight_count s + int (length (take (nat n) (queue_items (wm_queue_topology s) q)))"
    using D(3) by (simp add: eq)
  show "wm_total_queued_messages (dispatch_prefix V q n s) =
       wm_total_queued_messages s - int (length (take (nat n) (queue_items (wm_queue_topology s) q)))"
    using record_submitted_items_total[of ws "s\<lparr>wm_queue_topology := T\<rparr>" V] D(3,6) by (simp add: eq)
  have "\<exists>xs. taken_off s (dispatch_prefix V q n s) p xs" for p
    by (rule exI[of _ "if p = q then take (nat n) (queue_items (wm_queue_topology s) q) else []"])
      (simp add: taken_off_def items disp)
  then show "progressed s (dispatch_prefix V q n s)"
    using same_ledger_dispatched[OF led] by (simp add: progressed_def eq)
qed

lemma submit_to_engine_silent:
  "silent s (snd (submit_to_engine V ws s)) \<and>
   wm_queue_topology (snd (submit_to_engine V ws s)) = wm_queue_topology s"
  by (simp add: submit_to_engine_def silent_def same_ledger_def Let_def case_prod_beta)

text \<open>
  The engine's promises: a partial acceptance names a prefix of what was submitted; and, for
  the liveness results, everything submitted is accepted.
\<close>

definition engine_contract :: "(('k, 'p) work_item, 'e) engine_ops \<Rightarrow> bool" where
  "engine_contract E \<longleftrightarrow>
     batch_engine (eng_submit_batch E) \<and>
     (\<forall>w e n e'. eng_submit E w e = (BatchSubmitError n, e') \<longrightarrow> n \<le> 1)"

definition engine_accepts :: "(('k, 'p) work_item, 'e) engine_ops \<Rightarrow> bool" where
  "engine_accepts E \<longleftrightarrow>
     (\<forall>w e. fst (eng_submit E w e) = Accepted) \<and> (\<forall>ws e. fst (eng_submit_batch E ws e) = Accepted)"

lemma submit_outcome_contract:
  assumes "engine_contract (env_engine V)" "fst (submit_to_engine V ws s) = BatchSubmitError n" "ws \<noteq> []"
  shows "n \<le> int (length ws)"
proof (cases "\<exists>w. ws = [w]")
  case True
  then obtain w where "ws = [w]" by blast
  then show ?thesis
    using assms(1,2) unfolding engine_contract_def submit_to_engine_def
    by (auto simp: Let_def case_prod_beta) (metis prod.collapse)
next
  case False
  then have "fst (eng_submit_batch (env_engine V) ws (wm_execution_engine s)) = BatchSubmitError n"
    using assms(2,3) by (auto simp: submit_to_engine_def Let_def case_prod_beta split: list.splits)
  then show ?thesis
    using assms(1) batch_engine.accepted_prefix[of "eng_submit_batch (env_engine V)" ws "wm_execution_engine s" n]
    unfolding engine_contract_def by (metis prod.collapse)
qed

lemma submit_outcome_accepts:
  "engine_accepts (env_engine V) \<Longrightarrow> fst (submit_to_engine V ws s) = Accepted"
  by (auto simp: engine_accepts_def submit_to_engine_def Let_def case_prod_beta split: list.splits)

lemma lease_silent [simp]: "silent s (s\<lparr>wm_leased_queue_keys := L\<rparr>)"
  by (simp add: silent_def same_ledger_def)

text \<open>The submission as seen from the state before it.\<close>

lemma dispatch_batch_cases:
  assumes queue: "queue = queue_items (wm_queue_topology s) q" and items: "items = take m queue"
    "0 < m" "m \<le> length queue" and route: "route_of (hd items) = q"
    and run: "dispatch_batch V q queue items truncated K s = (r, K', s')"
  obtains (accepted) u where "silent s u" "wm_queue_topology u = wm_queue_topology s"
      "r = Continue" "K' = (if truncated then insert q K else K)"
      "s' = (let d = dispatch_prefix V q (int m) u
             in (if truncated
                 then d\<lparr>wm_queue_topology := deactivate_queue_key q (wm_queue_topology d)\<rparr>
                 else d)\<lparr>wm_leased_queue_keys :=
                   wm_leased_queue_keys (dispatch_prefix V q (int m) u) - {q}\<rparr>)"
  | (partial) u n where "silent s u" "wm_queue_topology u = wm_queue_topology s" "r = Return" "K' = K"
      "0 < n" "engine_contract (env_engine V) \<longrightarrow> n \<le> int m" "\<not> engine_accepts (env_engine V)"
      "s' = (dispatch_prefix V q n u)\<lparr>wm_leased_queue_keys :=
               wm_leased_queue_keys (dispatch_prefix V q n u) - {q}\<rparr>"
  | (failed) u where "silent s u" "wm_queue_topology u = wm_queue_topology s" "r = Return" "K' = K"
      "\<not> engine_accepts (env_engine V)"
      "s' = (u\<lparr>wm_queue_topology := refresh_queue_head (fst q) (snd q) queue (wm_queue_topology u)\<rparr>)
               \<lparr>wm_leased_queue_keys := wm_leased_queue_keys u - {q}\<rparr>"
proof -
  let ?l = "s\<lparr>wm_leased_queue_keys := insert q (wm_leased_queue_keys s)\<rparr>"
  obtain out u where sub: "submit_to_engine V items ?l = (out, u)" by fastforce
  have u: "silent s u" "wm_queue_topology u = wm_queue_topology s"
    using submit_to_engine_silent[of ?l V items] sub silent_trans[OF lease_silent] by auto
  have ne: "items \<noteq> []" using items by auto
  have len: "length items = m" using items by simp
  have hd: "wi_tp (hd items) = fst q" "wi_key (hd items) = snd q" using route by auto
  have out_acc: "engine_accepts (env_engine V) \<Longrightarrow> out = Accepted"
    using submit_outcome_accepts[of V items ?l] sub by simp
  have out_con: "n \<le> int m" if "out = BatchSubmitError n" "engine_contract (env_engine V)" for n
    using submit_outcome_contract[OF that(2), of items ?l n] sub that(1) ne len by simp
  have deq: "fst (dequeue_submitted_items (fst q) (snd q) (int m) (wm_queue_topology u)) \<noteq> []"
    using items queue u(2) by (auto simp: fst_dequeue_items)
  show ?thesis
  proof (cases out)
    case Accepted
    have "r = Continue \<and> K' = (if truncated then insert q K else K) \<and>
      s' = (let d = dispatch_prefix V q (int m) u
             in (if truncated
                 then d\<lparr>wm_queue_topology := deactivate_queue_key q (wm_queue_topology d)\<rparr>
                 else d)\<lparr>wm_leased_queue_keys :=
                   wm_leased_queue_keys (dispatch_prefix V q (int m) u) - {q}\<rparr>)"
      using run sub Accepted deq len
      by (simp add: dispatch_batch_def Let_def case_prod_beta dispatch_prefix_def split: if_splits)
    then show ?thesis using accepted[OF u] by blast
  next
    case (BatchSubmitError n)
    show ?thesis
    proof (cases "0 < n")
      case True
      have "r = Return \<and> K' = K \<and> s' = (dispatch_prefix V q n u)\<lparr>wm_leased_queue_keys :=
               wm_leased_queue_keys (dispatch_prefix V q n u) - {q}\<rparr>"
        using run sub BatchSubmitError True
        by (simp add: dispatch_batch_def Let_def case_prod_beta dispatch_prefix_def)
      then show ?thesis
        using partial[OF u _ _ True] out_con[OF BatchSubmitError] out_acc BatchSubmitError by auto
    next
      case False
      have "r = Return \<and> K' = K \<and> s' = (u\<lparr>wm_queue_topology := refresh_queue_head (fst q) (snd q) queue (wm_queue_topology u)\<rparr>)
               \<lparr>wm_leased_queue_keys := wm_leased_queue_keys u - {q}\<rparr>"
        using run sub BatchSubmitError False hd
        by (simp add: dispatch_batch_def Let_def case_prod_beta)
      then show ?thesis using failed[OF u] out_acc BatchSubmitError by auto
    qed
  next
    case SubmitFailed
    have "r = Return \<and> K' = K \<and> s' = (u\<lparr>wm_queue_topology := refresh_queue_head (fst q) (snd q) queue (wm_queue_topology u)\<rparr>)
               \<lparr>wm_leased_queue_keys := wm_leased_queue_keys u - {q}\<rparr>"
      using run sub SubmitFailed hd
      by (simp add: dispatch_batch_def Let_def case_prod_beta)
    then show ?thesis using failed[OF u] out_acc SubmitFailed by auto
  qed
qed

lemma silent_ledger: "silent s s' \<Longrightarrow> same_ledger s s'"
  by (simp add: silent_def)

lemma silent_total: "silent s s' \<Longrightarrow> wm_total_queued_messages s' = wm_total_queued_messages s"
  by (simp add: silent_def)

lemma silent_events: "silent s s' \<Longrightarrow> wm_completion_queue s' = wm_completion_queue s"
  by (simp add: silent_def)

lemma silent_count: "silent s s' \<Longrightarrow> wm_current_in_flight_count s' = wm_current_in_flight_count s"
  by (simp add: silent_def same_ledger_def)

text \<open>\<open>j\<close> is the number of items the engine took; the deferred keys grow only when truncated.\<close>

definition dispatch_effect ::
  "('k, 'p, 's, 'c, 'e) wm_env \<Rightarrow> 'k queue_key set \<Rightarrow> 'k queue_key \<Rightarrow> nat
    \<Rightarrow> ('k, 'p, 's, 'c, 'e) work_manager \<Rightarrow> step_result \<Rightarrow> 'k queue_key set
    \<Rightarrow> ('k, 'p, 's, 'c, 'e) work_manager \<Rightarrow> nat \<Rightarrow> bool" where
  "dispatch_effect V K q m s r K' s' j \<longleftrightarrow>
     wm_inv V K' s' \<and> progressed s s' \<and>
     dispatched s' = dispatched s \<union> wi_id ` set (take j (queue_items (wm_queue_topology s) q)) \<and>
     wm_current_in_flight_count s' =
       wm_current_in_flight_count s + int (length (take j (queue_items (wm_queue_topology s) q))) \<and>
     (engine_contract (env_engine V) \<longrightarrow> j \<le> m) \<and>
     wm_total_queued_messages s' \<le> wm_total_queued_messages s \<and>
     wm_completion_queue s' = wm_completion_queue s \<and>
     queue_items (wm_queue_topology s') =
       (queue_items (wm_queue_topology s))(q := drop j (queue_items (wm_queue_topology s) q)) \<and>
     (\<exists>b. r = (if b then Continue else Return) \<and>
        (b \<longrightarrow> wm_total_queued_messages s' < wm_total_queued_messages s) \<and>
        (\<not> b \<longrightarrow> \<not> engine_accepts (env_engine V)))"

text \<open>Any state that agrees with the dispatched one shows the effect.\<close>

lemma dispatch_effectI:
  assumes inv: "wm_inv V (insert q K) s" and q: "q \<notin> K"
    and free: "q \<notin> active_runnable_queue_keys (wm_queue_topology s)"
    and u: "silent s u" "wm_queue_topology u = wm_queue_topology s" and n: "0 < n"
    and s': "silent (dispatch_prefix V q n u) s'"
      "queue_items (wm_queue_topology s') = queue_items (wm_queue_topology (dispatch_prefix V q n u))"
    and inv': "wm_inv V K' s'"
    and m: "engine_contract (env_engine V) \<longrightarrow> n \<le> int m"
    and r: "r = (if b then Continue else Return)" "\<not> b \<longrightarrow> \<not> engine_accepts (env_engine V)"
      "b \<longrightarrow> queue_items (wm_queue_topology s) q \<noteq> []"
  shows "dispatch_effect V K q m s r K' s' (nat n)"
proof -
  let ?d = "dispatch_prefix V q n u"
  have invu: "wm_inv V (insert q K) u" by (rule silent_inv[OF inv u])
  have freeu: "q \<notin> active_runnable_queue_keys (wm_queue_topology u)" using free u(2) by simp
  note P = dispatch_prefix_spec[OF invu q freeu n]
  have "progressed s u" by (rule silent_progressed[OF u(1)]) (simp add: u(2))
  moreover have "progressed ?d s'" by (rule silent_progressed[OF s'])
  ultimately have "progressed s s'" using P(3) progressed_trans by blast
  moreover have "dispatched s' = dispatched s \<union> wi_id ` set (take (nat n) (queue_items (wm_queue_topology s) q))"
    using same_ledger_dispatched[OF silent_ledger[OF s'(1)]] same_ledger_dispatched[OF silent_ledger[OF u(1)]]
      P(4) u(2) by simp
  moreover have "wm_current_in_flight_count s' =
      wm_current_in_flight_count s + int (length (take (nat n) (queue_items (wm_queue_topology s) q)))"
    using silent_count[OF s'(1)] silent_count[OF u(1)] P(5) u(2) by simp
  moreover have "wm_total_queued_messages s' \<le> wm_total_queued_messages s"
    using silent_total[OF s'(1)] silent_total[OF u(1)] P(6) by simp
  moreover have "wm_completion_queue s' = wm_completion_queue s"
    using s'(1) u(1) P(7) by (simp add: silent_def)
  moreover have "wm_total_queued_messages s' < wm_total_queued_messages s" if b
    using silent_total[OF s'(1)] silent_total[OF u(1)] P(6) u(2) n r(3) that by simp
  moreover have "queue_items (wm_queue_topology s') =
      (queue_items (wm_queue_topology s))(q := drop (nat n) (queue_items (wm_queue_topology s) q))"
    using P(2) s'(2) u(2) by simp
  ultimately show ?thesis
    unfolding dispatch_effect_def using inv' m r by auto
qed

lemma dispatch_batch_spec:
  assumes inv: "wm_inv V (insert q K) s" and q: "q \<notin> K"
    and free: "q \<notin> active_runnable_queue_keys (wm_queue_topology s)"
    and queue: "queue = queue_items (wm_queue_topology s) q" and items: "items = take m queue"
    "0 < m" "m \<le> length queue"
    and run: "dispatch_batch V q queue items truncated K s = (r, K', s')"
  shows "\<exists>j. dispatch_effect V K q m s r K' s' j \<and> (K' = K \<or> truncated \<and> K' = insert q K \<and> j = m)"
proof -
  have "items \<noteq> []" "set items \<subseteq> set queue" using items by (auto dest: in_set_takeD)
  then have "hd items \<in> set queue" using hd_in_set by blast
  then have route: "route_of (hd items) = q"
    using queue_invD(4)[OF wm_invD(2)[OF inv]] queue by blast
  from queue items route run show ?thesis
  proof (cases rule: dispatch_batch_cases)
    case (accepted u)
    have invu: "wm_inv V (insert q K) u" by (rule silent_inv[OF inv accepted(1,2)])
    have m: "0 < int m" using items(2) by simp
    let ?d = "dispatch_prefix V q (int m) u"
    have invd: "wm_inv V K ?d"
      using dispatch_prefix_spec(1)[OF invu q _ m] free accepted(2) by simp
    let ?f = "if truncated then ?d\<lparr>wm_queue_topology := deactivate_queue_key q (wm_queue_topology ?d)\<rparr> else ?d"
    have fi: "wm_inv V K' ?f"
      using accepted(4) invd wm_inv_topology[OF invd topo_inv_deactivate[OF queue_invD(1)[OF wm_invD(2)[OF invd]]]]
      by simp
    have s': "silent ?f s'" "wm_queue_topology s' = wm_queue_topology ?f"
      using accepted(5) by (simp_all add: Let_def)
    have "silent ?d s'" by (rule silent_trans[OF _ s'(1)]) simp
    moreover have "queue_items (wm_queue_topology s') = queue_items (wm_queue_topology ?d)" by (simp add: s'(2))
    ultimately have "dispatch_effect V K q m s r K' s' (nat (int m))"
      by (rule dispatch_effectI[OF inv q free accepted(1,2) m _ _ silent_inv[OF fi s'], where b = True])
        (use accepted(3) items queue in auto)
    then show ?thesis using accepted(4) by (intro exI[of _ m]) simp
  next
    case (partial u n)
    have invu: "wm_inv V (insert q K) u" by (rule silent_inv[OF inv partial(1,2)])
    let ?d = "dispatch_prefix V q n u"
    have invd: "wm_inv V K' ?d"
      using dispatch_prefix_spec(1)[OF invu q _ partial(5)] free partial(2,4) by simp
    have s': "silent ?d s'" "wm_queue_topology s' = wm_queue_topology ?d" using partial(8) by simp_all
    have "dispatch_effect V K q m s r K' s' (nat n)"
      by (rule dispatch_effectI[OF inv q free partial(1,2,5) s'(1) _ silent_inv[OF invd s'] partial(6), where b = False])
        (use s'(2) partial(3,7) in auto)
    then show ?thesis using partial(4) by auto
  next
    case (failed u)
    have invu: "wm_inv V (insert q K) u" by (rule silent_inv[OF inv failed(1,2)])
    let ?f = "u\<lparr>wm_queue_topology := refresh_queue_head (fst q) (snd q) queue (wm_queue_topology u)\<rparr>"
    have "topo_inv (insert q K - {q}) (refresh_queue_head (fst q) (snd q) queue (wm_queue_topology u))"
      using topo_inv_refresh[OF queue_invD(1)[OF wm_invD(2)[OF invu]], of queue "fst q" "snd q"] queue failed(2) by simp
    then have fi: "wm_inv V K ?f"
      using q by (intro wm_inv_topology[OF invu]) simp_all
    have s': "silent ?f s'" "wm_queue_topology s' = wm_queue_topology ?f" using failed(6) by simp_all
    have sil: "silent s s'" by (rule silent_trans[OF failed(1) silent_trans[OF _ s'(1)]]) simp
    have "progressed s s'" by (rule silent_progressed[OF sil]) (simp add: s' failed(2))
    then have "dispatch_effect V K q m s r K' s' 0"
      unfolding dispatch_effect_def
      using silent_inv[OF fi s'] same_ledger_dispatched[OF silent_ledger[OF sil]] silent_count[OF sil]
        silent_total[OF sil] silent_events[OF sil] failed(2,3,4,5) by (auto simp: s'(2))
    then show ?thesis using failed(4) by auto
  qed
qed

text \<open>
  The ordering guarantee: at most one dispatched item per key in \<open>KEY_HASH\<close> mode without
  ordered batches, at most one per partition in \<open>PARTITION\<close> mode.
\<close>

definition exclusive ::
  "('k, 'p, 's, 'c, 'e) wm_env \<Rightarrow> ('k, 'p, 's, 'c, 'e) work_manager \<Rightarrow> bool" where
  "exclusive V s \<longleftrightarrow>
     (wm_ordering_mode s = KEY_HASH \<and> \<not> eng_supports_ordered_route_batch (env_engine V) \<longrightarrow>
        (\<forall>x. card (holders route_of s x) \<le> 1)) \<and>
     (wm_ordering_mode s = PARTITION \<longrightarrow> (\<forall>x. card (holders wi_tp s x) \<le> 1))"

text \<open>Why a scheduling run stopped when the engine accepted everything.\<close>

definition stalled ::
  "'k queue_key set \<Rightarrow> ('k, 'p, 's, 'c, 'e) work_manager \<Rightarrow> bool" where
  "stalled K s \<longleftrightarrow>
     wm_max_in_flight_messages s \<le> wm_current_in_flight_count s \<or> wm_rebalancing s \<or>
     (\<forall>q. q \<notin> K \<and> queue_items (wm_queue_topology s) q \<noteq> [] \<longrightarrow> \<not> is_queue_eligible s q)"

lemma batch_limit_bounds:
  assumes "wm_current_in_flight_count s < wm_max_in_flight_messages s" "1 \<le> wm_route_batch_size s"
  shows "1 \<le> resolve_route_batch_limit V s"
    "wm_current_in_flight_count s + resolve_route_batch_limit V s \<le> wm_max_in_flight_messages s"
    "wm_ordering_mode s = PARTITION \<Longrightarrow> resolve_route_batch_limit V s = 1"
    "wm_ordering_mode s = KEY_HASH \<Longrightarrow> \<not> eng_supports_ordered_route_batch (env_engine V)
       \<Longrightarrow> resolve_route_batch_limit V s = 1"
  using assms by (auto simp: resolve_route_batch_limit_def Let_def)

lemma holders_add_one:
  assumes d: "dispatched s' = dispatched s \<union> wi_id ` set (take j xs)" and i: "item_of s' = item_of s"
    and one: "j \<le> 1" and f: "\<And>w. w \<in> set xs \<Longrightarrow> f w = y" and reg: "\<And>w. w \<in> set xs \<Longrightarrow> item_of s (wi_id w) = Some w"
    and none: "holders f s y = {}" and ex: "\<forall>x. card (holders f s x) \<le> 1"
  shows "\<forall>x. card (holders f s' x) \<le> 1"
proof
  fix x
  show "card (holders f s' x) \<le> 1"
  proof (cases "j = 0 \<or> xs = []")
    case True
    then have "holders f s' = holders f s" using d i by (auto simp: holders_def fun_eq_iff)
    then show ?thesis using ex by simp
  next
    case False
    then obtain w ws where xs: "xs = w # ws" by (cases xs) auto
    have "j = 1" using False one by simp
    then have d': "dispatched s' = insert (wi_id w) (dispatched s)" using d xs by simp
    have "holders f s' = (holders f s)(f w := insert (wi_id w) (holders f s (f w)))"
      by (rule holders_dispatch[OF _ d' i]) (use reg xs in simp)
    then show ?thesis using none f[of w] xs ex by (cases "x = y") simp_all
  qed
qed

lemma lock_ok_unlocked: "lock_ok counts locked hold \<Longrightarrow> x \<notin> locked \<Longrightarrow> hold x = {}"
  unfolding lock_ok_def by blast

lemma exclusive_dispatch:
  assumes inv: "wm_inv V K0 s" and ex: "exclusive V s" and el: "is_queue_eligible s q"
    and prog: "progressed s s'"
    and d: "dispatched s' = dispatched s \<union> wi_id ` set (take j (queue_items (wm_queue_topology s) q))"
    and one: "wm_ordering_mode s = PARTITION \<or>
      wm_ordering_mode s = KEY_HASH \<and> \<not> eng_supports_ordered_route_batch (env_engine V) \<Longrightarrow> j \<le> 1"
  shows "exclusive V s'"
proof -
  note L = ledger_invD[OF wm_invD(1)[OF inv]] and I = queue_invD[OF wm_invD(2)[OF inv]]
  have mode: "wm_ordering_mode s' = wm_ordering_mode s" and items: "item_of s' = item_of s"
    using prog by (simp_all add: progressed_def)
  let ?xs = "queue_items (wm_queue_topology s) q"
  show ?thesis
    unfolding exclusive_def mode
  proof (intro conjI impI)
    assume m: "wm_ordering_mode s = KEY_HASH \<and> \<not> eng_supports_ordered_route_batch (env_engine V)"
    have "q \<notin> wm_keys_in_flight s" using el m by (simp add: is_queue_eligible_def)
    then have none: "holders route_of s q = {}" by (rule lock_ok_unlocked[OF L(6)[OF conjunct1[OF m]]])
    show "\<forall>x. card (holders route_of s' x) \<le> 1"
      by (rule holders_add_one[OF d items, where f = route_of and y = q])
        (use one m I(4,5) none ex in \<open>auto simp: exclusive_def\<close>)
  next
    assume m: "wm_ordering_mode s = PARTITION"
    have tp: "wi_tp w = fst q" if "w \<in> set ?xs" for w using I(4)[OF that] by auto
    have "fst q \<notin> wm_partitions_in_flight s" using el m by (simp add: is_queue_eligible_def)
    then have none: "holders wi_tp s (fst q) = {}" by (rule lock_ok_unlocked[OF L(7)[OF m]])
    show "\<forall>x. card (holders wi_tp s' x) \<le> 1"
      by (rule holders_add_one[OF d items, where f = wi_tp and y = "fst q"])
        (use one m I(5) none ex tp in \<open>auto simp: exclusive_def\<close>)
  qed
qed

lemma exclusive_same: "same_ledger s s' \<Longrightarrow> exclusive V s' = exclusive V s"
  using holders_cong[of s' s route_of] holders_cong[of s' s wi_tp] same_ledger_dispatched[of s s']
  by (simp add: exclusive_def same_ledger_def)

text \<open>The facts about one pass that the loop needs.\<close>

definition step_spec ::
  "('k, 'p, 's, 'c, 'e) wm_env \<Rightarrow> 'k queue_key set \<Rightarrow> ('k, 'p, 's, 'c, 'e) work_manager
    \<Rightarrow> step_result \<Rightarrow> 'k queue_key set \<Rightarrow> ('k, 'p, 's, 'c, 'e) work_manager \<Rightarrow> bool" where
  "step_spec V K s r K' s' \<longleftrightarrow>
     wm_inv V K' s' \<and> progressed s s' \<and> (r = Continue \<or> r = Return) \<and>
     (r = Continue \<longrightarrow> wm_total_queued_messages s' < wm_total_queued_messages s) \<and>
     wm_total_queued_messages s' + int (length (wm_completion_queue s')) \<le>
       wm_total_queued_messages s + int (length (wm_completion_queue s)) \<and>
     (finite K \<longrightarrow> finite K') \<and>
     (\<forall>p \<in> K. queue_items (wm_queue_topology s') p = queue_items (wm_queue_topology s) p) \<and>
     (\<forall>p \<in> K' - K. queue_items (wm_queue_topology s') p \<noteq> []) \<and>
     (engine_contract (env_engine V) \<longrightarrow>
        wm_current_in_flight_count s' \<le> max (wm_current_in_flight_count s) (wm_max_in_flight_messages s) \<and>
        (exclusive V s \<longrightarrow> exclusive V s')) \<and>
     (r = Return \<and> engine_accepts (env_engine V) \<longrightarrow> stalled K' s')"

lemma step_spec_idle:
  assumes "wm_inv V K s'" "silent s s'" "queue_items (wm_queue_topology s') = queue_items (wm_queue_topology s)"
    "stalled K s'"
  shows "step_spec V K s Return K s'"
  using assms silent_progressed[OF assms(2,3)] exclusive_same[OF silent_ledger[OF assms(2)]] silent_count[OF assms(2)]
    silent_total[OF assms(2)] silent_events[OF assms(2)]
  by (simp add: step_spec_def)

lemma stalled_frame:
  "silent s s' \<Longrightarrow> queue_items (wm_queue_topology s') = queue_items (wm_queue_topology s) \<Longrightarrow> stalled K s \<Longrightarrow> stalled K s'"
  using same_ledger_eligible[OF silent_ledger, of s s'] silent_count[of s s']
  by (auto simp: stalled_def silent_def)

text \<open>Serving a picked queue: the head is force-failed, or a prefix goes to the engine.\<close>

definition serve_queue ::
  "('k, 'p, 's, 'c, 'e) wm_env \<Rightarrow> 'k queue_key \<Rightarrow> ('k, 'p) virtual_queue \<Rightarrow> 'k queue_key set
    \<Rightarrow> ('k, 'p, 's, 'c, 'e) work_manager
    \<Rightarrow> step_result \<times> 'k queue_key set \<times> ('k, 'p, 's, 'c, 'e) work_manager" where
  "serve_queue V q queue K s =
     (case select_same_queue_batch V queue s of
        [] \<Rightarrow> (Return, K, s)
      | item # items \<Rightarrow>
          (case force_fail_queued_item V item q s of
             (True, s2) \<Rightarrow> (Continue, K, s2)
           | (False, s2) \<Rightarrow>
               (case truncate_batch_before_force_fail V (item # items) s2 of
                  (accepted, s3) \<Rightarrow>
                    if accepted = [] then (Continue, K, s3)
                    else dispatch_batch V q queue accepted
                           (length accepted < length (item # items)) K s3)))"

lemma serve_queue_spec:
  assumes inv: "wm_inv V (insert q K) s" and q: "q \<notin> K"
    and free: "q \<notin> active_runnable_queue_keys (wm_queue_topology s)"
    and queue: "queue = queue_items (wm_queue_topology s) q" "queue \<noteq> []"
    and el: "is_queue_eligible s q"
    and cap: "wm_current_in_flight_count s < wm_max_in_flight_messages s" "1 \<le> wm_route_batch_size s"
    and run: "serve_queue V q queue K s = (r, K', s')"
  shows "step_spec V K s r K' s'"
    "wm_poison_message_circuit s = None \<Longrightarrow> K' = K"
proof -
  note B = batch_limit_bounds[OF cap, where V = V]
  let ?n = "nat (resolve_route_batch_limit V s)"
  obtain w ws where qw: "queue = w # ws" using queue(2) by (cases queue) auto
  obtain items where sel: "select_same_queue_batch V queue s = w # items" "w # items = take ?n queue"
    using B(1) qw by (cases ?n) (auto simp: select_same_queue_batch_def peek_queue_batch_def)
  obtain b s2 where ff: "force_fail_queued_item V w q s = (b, s2)" by fastforce
  note F = force_fail_queued_spec[OF inv q free _ ff, unfolded queue(1)[symmetric], OF qw]
  have "step_spec V K s r K' s' \<and> (wm_poison_message_circuit s = None \<longrightarrow> K' = K)"
  proof (cases b)
    case True
    have f: "wm_inv V K s2" "progressed s s2" "same_ledger s s2"
      "wm_total_queued_messages s2 = wm_total_queued_messages s - 1"
      "queue_items (wm_queue_topology s2) = (queue_items (wm_queue_topology s))(q := ws)"
      "length (wm_completion_queue s2) = Suc (length (wm_completion_queue s))"
      using F(1) True by simp_all
    have rk: "r = Continue" "K' = K" "s' = s2" using run sel(1) ff True by (simp_all add: serve_queue_def)
    have "wm_current_in_flight_count s2 = wm_current_in_flight_count s" using f(3) by (simp add: same_ledger_def)
    then show ?thesis
      using f exclusive_same[OF f(3)] q by (auto simp: rk step_spec_def)
  next
    case False
    have ask: "ask_circuit V w s = (False, s2)" using F(2) False by simp
    obtain accepted s3 where tr: "truncate_batch_before_force_fail V (w # items) s2 = (accepted, s3)" by fastforce
    note TR = truncate_batch_spec[OF ask tr]
    obtain m where m: "0 < m" "m \<le> length (w # items)" "accepted = take m (w # items)" using TR(3) by blast
    have sil: "silent s s3" "wm_queue_topology s3 = wm_queue_topology s"
      using silent_trans[OF _ TR(1)] ask_circuit_silent[of s V w] ask_circuit_topology[of V w s] ask TR(2) by simp_all
    have len: "length (w # items) = min (length queue) ?n" unfolding sel(2) by simp
    have acc: "accepted = take m queue" "accepted \<noteq> []" "m \<le> length queue" "m \<le> ?n"
      using m len unfolding sel(2) by auto
    have run3: "dispatch_batch V q queue accepted (length accepted < length (w # items)) K s3 = (r, K', s')"
      using run sel(1) ff False tr acc(2) by (simp add: serve_queue_def)
    have inv3: "wm_inv V (insert q K) s3" by (rule silent_inv[OF inv sil])
    obtain j where j: "dispatch_effect V K q m s3 r K' s' j"
      and K': "K' = K \<or> length accepted < length (w # items) \<and> K' = insert q K \<and> j = m"
      using dispatch_batch_spec[OF inv3 q _ _ acc(1) m(1) acc(3) run3] free sil(2) queue(1) by auto
    note E = j[unfolded dispatch_effect_def]
    have el3: "is_queue_eligible s3 q" using same_ledger_eligible[OF silent_ledger[OF sil(1)]] el by simp
    have pr: "progressed s s3" by (rule silent_progressed[OF sil(1)]) (simp add: sil(2))
    have cnt: "wm_current_in_flight_count s3 = wm_current_in_flight_count s" by (rule silent_count[OF sil(1)])
    have lim: "int m \<le> resolve_route_batch_limit V s" using acc(4) B(1) by linarith
    have bound: "wm_current_in_flight_count s' \<le> wm_max_in_flight_messages s"
      if "engine_contract (env_engine V)"
      using E that cnt B(2) lim by auto
    have excl: "exclusive V s'" if c: "engine_contract (env_engine V)" and ex: "exclusive V s"
    proof (rule exclusive_dispatch[OF inv3 _ el3])
      show "exclusive V s3" using ex exclusive_same[OF silent_ledger[OF sil(1)]] by simp
      show "j \<le> 1" if "wm_ordering_mode s3 = PARTITION \<or>
        wm_ordering_mode s3 = KEY_HASH \<and> \<not> eng_supports_ordered_route_batch (env_engine V)"
      proof -
        have "wm_ordering_mode s3 = wm_ordering_mode s" using sil(1) by (simp add: silent_def same_ledger_def)
        then have "resolve_route_batch_limit V s = 1" using that B(3,4) by auto
        then show ?thesis using E c lim by linarith
      qed
    qed (use E in simp_all)
    have fin: "finite K \<longrightarrow> finite K'" using K' by auto
    have qi: "queue_items (wm_queue_topology s') =
        (queue_items (wm_queue_topology s))(q := drop j (queue_items (wm_queue_topology s) q))"
      using E sil(2) by simp
    have others: "queue_items (wm_queue_topology s') p = queue_items (wm_queue_topology s) p" if "p \<in> K" for p
      using that q qi by auto
    have rest: "queue_items (wm_queue_topology s') p \<noteq> []" if "p \<in> K' - K" for p
    proof -
      have "p = q" "j = m" "length accepted < length (w # items)" using that K' by auto
      then show ?thesis using qi len m(2,3) queue(1) by auto
    qed
    obtain bb where bb: "r = (if bb then Continue else Return)"
      "bb \<longrightarrow> wm_total_queued_messages s' < wm_total_queued_messages s3" "\<not> bb \<longrightarrow> \<not> engine_accepts (env_engine V)"
      using E by blast
    have "step_spec V K s r K' s'"
      unfolding step_spec_def
      using E progressed_trans[OF pr, of s'] bb silent_total[OF sil(1)] silent_events[OF sil(1)] fin bound excl others rest by auto
    moreover have "K' = K" if "wm_poison_message_circuit s = None"
    proof -
      have "s2 = s" using ask that by (simp add: ask_circuit_def)
      then show ?thesis using TR(4) that K' by auto
    qed
    ultimately show ?thesis by blast
  qed
  then show "step_spec V K s r K' s'" "wm_poison_message_circuit s = None \<Longrightarrow> K' = K" by simp_all
qed

lemma schedule_step_unfold:
  "schedule_step V bs K s =
     (if wm_max_in_flight_messages s \<le> wm_current_in_flight_count s then (Return, K, s)
      else if wm_rebalancing s then (Return, K, s)
      else
        case pop_queue_key bs s of
          (Inl e, s1) \<Rightarrow> (Raise e, K, s1)
        | (Inr None, s1) \<Rightarrow> (Return, K, s1)
        | (Inr (Some q), s1) \<Rightarrow>
            (case get_queue (fst q) (snd q) (wm_queue_topology s1) of
               None \<Rightarrow> (Continue, K, s1\<lparr>wm_queue_topology := deactivate_queue_key q (wm_queue_topology s1)\<rparr>)
             | Some queue \<Rightarrow>
                 if queue = [] then
                   (Continue, K, s1\<lparr>wm_queue_topology := deactivate_queue_key q (wm_queue_topology s1)\<rparr>)
                 else serve_queue V q queue K s1))"
  unfolding schedule_step_def serve_queue_def by (rule refl)

lemma step_spec_silent:
  assumes "silent s s1" "queue_items (wm_queue_topology s1) = queue_items (wm_queue_topology s)"
    "step_spec V K s1 r K' s'"
  shows "step_spec V K s r K' s'"
  using assms(3) progressed_trans[OF silent_progressed[OF assms(1,2)], of s'] silent_total[OF assms(1)]
    silent_events[OF assms(1)] silent_count[OF assms(1)] exclusive_same[OF silent_ledger[OF assms(1)]] assms(1,2)
  by (auto simp: step_spec_def silent_def)

lemma schedule_step_spec:
  assumes inv: "wm_inv V K s" and batch: "1 \<le> wm_route_batch_size s"
    and run: "schedule_step V bs K s = (r, K', s')"
  shows "step_spec V K s r K' s' \<and> (wm_poison_message_circuit s = None \<longrightarrow> K' = K)"
proof (cases "wm_max_in_flight_messages s \<le> wm_current_in_flight_count s \<or> wm_rebalancing s")
  case True
  then have "r = Return" "K' = K" "s' = s" using run by (auto simp: schedule_step_unfold split: if_splits)
  moreover have "stalled K s" using True by (auto simp: stalled_def)
  ultimately show ?thesis using step_spec_idle[OF inv, of s] by simp
next
  case False
  obtain p s1 where pop: "pop_queue_key bs s = (p, s1)" by fastforce
  note P = pop_queue_key_spec[OF inv pop]
  show ?thesis
  proof (cases p)
    case (Inl e)
    then show ?thesis using P(3) by simp
  next
    case (Inr picked)
    show ?thesis
    proof (cases picked)
      case None
      have rk: "r = Return" "K' = K" "s' = s1" using run False pop Inr None by (auto simp: schedule_step_unfold)
      have "stalled K s" using P(3) Inr None by (auto simp: stalled_def)
      then have "stalled K s1" by (rule stalled_frame[OF P(1,2)])
      then show ?thesis using step_spec_idle[OF _ P(1,2)] P(3) Inr None rk by simp
    next
      case (Some q)
      have q: "q \<notin> K" "queue_items (wm_queue_topology s) q \<noteq> []" "is_queue_eligible s q"
        "wm_inv V (insert q K) s1" "q \<notin> active_runnable_queue_keys (wm_queue_topology s1)"
        using P(3) Inr Some by simp_all
      have ne: "queue_items (wm_queue_topology s1) q \<noteq> []" using q(2) P(2) by simp
      obtain queue where g: "get_queue (fst q) (snd q) (wm_queue_topology s1) = Some queue"
        and qi: "queue = queue_items (wm_queue_topology s1) q" "queue \<noteq> []"
        using ne by (auto simp: queue_items_def split: option.splits)
      have run1: "serve_queue V q queue K s1 = (r, K', s')"
        using run False pop Inr Some g qi(2) by (simp add: schedule_step_unfold)
      have el: "is_queue_eligible s1 q" using q(3) same_ledger_eligible[OF silent_ledger[OF P(1)]] by simp
      have cap: "wm_current_in_flight_count s1 < wm_max_in_flight_messages s1" "1 \<le> wm_route_batch_size s1"
        using False batch P(1) silent_count[OF P(1)] by (auto simp: silent_def)
      note S = serve_queue_spec[OF q(4,1,5) qi el cap run1]
      have "wm_poison_message_circuit s1 = None \<longleftrightarrow> wm_poison_message_circuit s = None"
        using P(1) by (simp add: silent_def)
      then show ?thesis using step_spec_silent[OF P(1,2) S(1)] S(2) by simp
    qed
  qed
qed

text \<open>The whole loop: enough fuel is one more than the number of queued items.\<close>

definition loop_spec ::
  "('k, 'p, 's, 'c, 'e) wm_env \<Rightarrow> 'k queue_key set \<Rightarrow> ('k, 'p, 's, 'c, 'e) work_manager
    \<Rightarrow> 'k queue_key set \<Rightarrow> ('k, 'p, 's, 'c, 'e) work_manager \<Rightarrow> bool" where
  "loop_spec V K s K' s' \<longleftrightarrow>
     wm_inv V K' s' \<and> progressed s s' \<and> finite K' \<and>
     (\<forall>p \<in> K'. queue_items (wm_queue_topology s') p \<noteq> []) \<and>
     (engine_contract (env_engine V) \<longrightarrow>
        wm_current_in_flight_count s' \<le> max (wm_current_in_flight_count s) (wm_max_in_flight_messages s) \<and>
        (exclusive V s \<longrightarrow> exclusive V s')) \<and>
     (engine_accepts (env_engine V) \<longrightarrow> stalled K' s') \<and>
     (wm_poison_message_circuit s = None \<longrightarrow> K' = K) \<and>
     wm_total_queued_messages s' + int (length (wm_completion_queue s')) \<le>
       wm_total_queued_messages s + int (length (wm_completion_queue s))"

lemma total_nonneg: "wm_inv V K s \<Longrightarrow> 0 \<le> wm_total_queued_messages s"
  using queue_invD(2)[OF wm_invD(2)] by fastforce

lemma schedule_loop_spec:
  assumes "wm_inv V K s" "finite K" "1 \<le> wm_route_batch_size s"
    "\<forall>p \<in> K. queue_items (wm_queue_topology s) p \<noteq> []"
    "wm_total_queued_messages s < int fuel"
  shows "\<exists>K' s'. schedule_loop fuel V bs K s = Some (Inr (), K', s') \<and> loop_spec V K s K' s'"
  using assms
proof (induction fuel arbitrary: K s)
  case 0
  then show ?case using total_nonneg[of V K s] by simp
next
  case (Suc fuel)
  obtain r K1 s1 where step: "schedule_step V bs K s = (r, K1, s1)" by (metis prod_cases3)
  note SS = schedule_step_spec[OF Suc.prems(1,3) step]
  note S = SS[THEN conjunct1, unfolded step_spec_def]
  have K1: "\<forall>p \<in> K1. queue_items (wm_queue_topology s1) p \<noteq> []"
    using S Suc.prems(4) by (metis DiffI)
  show ?case
  proof (cases "r = Continue")
    case False
    then have ret: "r = Return" using S by simp
    then have "loop_spec V K s K1 s1"
      using S SS K1 ret Suc.prems(2) by (auto simp: loop_spec_def)
    then show ?thesis using step ret by simp
  next
    case True
    have b1: "1 \<le> wm_route_batch_size s1" using S Suc.prems(3) by (simp add: progressed_def)
    obtain K2 s2 where IH: "schedule_loop fuel V bs K1 s1 = Some (Inr (), K2, s2)" "loop_spec V K1 s1 K2 s2"
      using Suc.IH[of K1 s1] S K1 b1 Suc.prems(2,5) True by fastforce
    note L = IH(2)[unfolded loop_spec_def]
    have fr: "wm_max_in_flight_messages s1 = wm_max_in_flight_messages s"
      "wm_poison_message_circuit s1 = None \<longleftrightarrow> wm_poison_message_circuit s = None"
      using S by (simp_all add: progressed_def)
    have "loop_spec V K s K2 s2"
      unfolding loop_spec_def
    proof (intro conjI impI)
      show "progressed s s2" using S L progressed_trans by blast
      show "wm_current_in_flight_count s2 \<le> max (wm_current_in_flight_count s) (wm_max_in_flight_messages s)"
        if "engine_contract (env_engine V)" using S L that fr(1) by auto
      show "K2 = K" if "wm_poison_message_circuit s = None" using SS L that fr(2) by auto
    qed (use S L True in auto)
    then show ?thesis using step True IH(1) by simp
  qed
qed

section \<open>Scheduling and polling\<close>

text \<open>Iterating over a finite set visits each of its elements.\<close>

definition set_enumeration :: "('k, 'p, 's, 'c, 'e) wm_env \<Rightarrow> bool" where
  "set_enumeration V \<longleftrightarrow> (\<forall>S. finite S \<longrightarrow> set (env_set_order V S) = S)"

lemma refresh_deferred_spec:
  assumes "wm_inv V K s" "queue_items (wm_queue_topology s) q \<noteq> []"
  shows "wm_inv V (K - {q}) (refresh_deferred q s)" "silent s (refresh_deferred q s)"
    "queue_items (wm_queue_topology (refresh_deferred q s)) = queue_items (wm_queue_topology s)"
proof -
  obtain queue where g: "get_queue (fst q) (snd q) (wm_queue_topology s) = Some queue"
    and qi: "queue = queue_items (wm_queue_topology s) q" "queue \<noteq> []"
    using assms(2) by (auto simp: queue_items_def split: option.splits)
  have eq: "refresh_deferred q s = s\<lparr>wm_queue_topology :=
      refresh_queue_head (fst q) (snd q) queue (wm_queue_topology s)\<rparr>"
    using g qi(2) by (simp add: refresh_deferred_def)
  have "topo_inv (K - {q}) (refresh_queue_head (fst q) (snd q) queue (wm_queue_topology s))"
    using topo_inv_refresh[OF queue_invD(1)[OF wm_invD(2)[OF assms(1)]], of queue "fst q" "snd q"] qi(1) by simp
  then show "wm_inv V (K - {q}) (refresh_deferred q s)"
    unfolding eq by (rule wm_inv_topology[OF assms(1)]) simp_all
  show "silent s (refresh_deferred q s)"
    "queue_items (wm_queue_topology (refresh_deferred q s)) = queue_items (wm_queue_topology s)"
    by (simp_all add: eq)
qed

lemma refresh_all_spec:
  assumes "wm_inv V K s" "\<And>q. q \<in> set qs \<Longrightarrow> queue_items (wm_queue_topology s) q \<noteq> []"
  shows "wm_inv V (K - set qs) (fold refresh_deferred qs s) \<and> silent s (fold refresh_deferred qs s) \<and>
    queue_items (wm_queue_topology (fold refresh_deferred qs s)) = queue_items (wm_queue_topology s)"
  using assms
proof (induction qs arbitrary: K s)
  case (Cons q qs)
  note R = refresh_deferred_spec[OF Cons.prems(1) Cons.prems(2)[of q]]
  have "wm_inv V (K - {q} - set qs) (fold refresh_deferred qs (refresh_deferred q s)) \<and>
    silent (refresh_deferred q s) (fold refresh_deferred qs (refresh_deferred q s)) \<and>
    queue_items (wm_queue_topology (fold refresh_deferred qs (refresh_deferred q s))) =
      queue_items (wm_queue_topology (refresh_deferred q s))"
    by (rule Cons.IH) (use R Cons.prems in auto)
  moreover have "K - {q} - set qs = K - set (q # qs)" by auto
  ultimately show ?case using R silent_trans[of s "refresh_deferred q s"] by auto
qed simp

lemma dict_get_map: "dict_get (map (\<lambda>(k, v). (k, f k v)) d) k = map_option (f k) (dict_get d k)"
  by (induction d) auto

lemma get_blocking_trackers:
  "dict_get (wm_offset_trackers (snd (get_blocking_offsets V s))) tp =
     map_option (\<lambda>t. snd (blocking_offset_of V (tp \<in> wm_shared_offset_trackers s) t))
       (dict_get (wm_offset_trackers s) tp)"
  using dict_get_map[of "\<lambda>tp t. snd (blocking_offset_of V (tp \<in> wm_shared_offset_trackers s) t)"
      "wm_offset_trackers s" tp]
  by (simp add: get_blocking_offsets_def Let_def comp_def case_prod_unfold)

lemma schedule_blocking_frame:
  "same_ledger s (snd (schedule_blocking V s))"
  "wm_queue_topology (snd (schedule_blocking V s)) = wm_queue_topology s"
  "wm_total_queued_messages (snd (schedule_blocking V s)) = wm_total_queued_messages s"
  "wm_completion_queue (snd (schedule_blocking V s)) = wm_completion_queue s"
  "wm_uuids (snd (schedule_blocking V s)) = wm_uuids s"
  "wm_max_in_flight_messages (snd (schedule_blocking V s)) = wm_max_in_flight_messages s"
  "wm_route_batch_size (snd (schedule_blocking V s)) = wm_route_batch_size s"
  "wm_rebalancing (snd (schedule_blocking V s)) = wm_rebalancing s"
  "wm_poison_message_circuit (snd (schedule_blocking V s)) = wm_poison_message_circuit s"
  by (simp_all add: schedule_blocking_def get_blocking_offsets_def same_ledger_def Let_def)

lemma schedule_blocking_inv: "wm_inv V K s \<Longrightarrow> wm_inv V K (snd (schedule_blocking V s))"
proof (rule wm_inv_frame[OF _ schedule_blocking_frame(1)])
  show "(dict_get (wm_offset_trackers (snd (schedule_blocking V s))) tp = None) =
      (dict_get (wm_offset_trackers s) tp = None)" for tp
    using get_blocking_trackers[of V s tp]
    by (simp add: schedule_blocking_def Let_def case_prod_beta)
qed (simp_all add: schedule_blocking_frame)

definition schedule_spec ::
  "('k, 'p, 's, 'c, 'e) wm_env \<Rightarrow> ('k, 'p, 's, 'c, 'e) work_manager \<Rightarrow> ('k, 'p, 's, 'c, 'e) work_manager \<Rightarrow> bool" where
  "schedule_spec V s s' \<longleftrightarrow>
     wm_inv V {} s' \<and> progressed (snd (schedule_blocking V s)) s' \<and>
     (engine_contract (env_engine V) \<longrightarrow>
        wm_current_in_flight_count s' \<le> max (wm_current_in_flight_count s) (wm_max_in_flight_messages s) \<and>
        (exclusive V s \<longrightarrow> exclusive V s')) \<and>
     (engine_accepts (env_engine V) \<and> wm_poison_message_circuit s = None \<longrightarrow> stalled {} s') \<and>
     wm_total_queued_messages s' + int (length (wm_completion_queue s')) \<le>
       wm_total_queued_messages s + int (length (wm_completion_queue s))"

lemma schedule_terminates:
  assumes inv: "wm_inv V {} s" and batch: "1 \<le> wm_route_batch_size s" and en: "set_enumeration V"
    and fuel: "wm_total_queued_messages s < int fuel"
  shows "\<exists>s'. schedule fuel V s = Some (Inr (), s') \<and> schedule_spec V s s'"
proof -
  obtain bs s1 where sb: "schedule_blocking V s = (bs, s1)" by fastforce
  have s1: "s1 = snd (schedule_blocking V s)" using sb by simp
  note F = schedule_blocking_frame[where s = s and V = V, folded s1]
  have inv1: "wm_inv V {} s1" unfolding s1 by (rule schedule_blocking_inv[OF inv])
  obtain K s2 where loop: "schedule_loop fuel V bs {} s1 = Some (Inr (), K, s2)" "loop_spec V {} s1 K s2"
    using schedule_loop_spec[OF inv1, of fuel bs] batch fuel F by auto
  note L = loop(2)[unfolded loop_spec_def]
  have K: "set (env_set_order V K) = K" using en L by (simp add: set_enumeration_def)
  let ?s = "fold refresh_deferred (env_set_order V K) s2"
  have R: "wm_inv V (K - set (env_set_order V K)) ?s \<and> silent s2 ?s \<and>
    queue_items (wm_queue_topology ?s) = queue_items (wm_queue_topology s2)"
    by (rule refresh_all_spec) (use L K in auto)
  have p: "progressed s1 ?s" using progressed_trans[OF _ silent_progressed, of s1 s2 ?s] L R by blast
  have cnt: "wm_current_in_flight_count s1 = wm_current_in_flight_count s" using F(1) by (simp add: same_ledger_def)
  have "schedule_spec V s ?s"
    unfolding schedule_spec_def s1[symmetric]
  proof (intro conjI impI)
    show "wm_inv V {} ?s" using R K by simp
    show "wm_current_in_flight_count ?s \<le> max (wm_current_in_flight_count s) (wm_max_in_flight_messages s)"
      if "engine_contract (env_engine V)"
      using that L R silent_count[of s2 ?s] cnt F(6) by auto
    show "exclusive V ?s" if "engine_contract (env_engine V)" "exclusive V s"
      using that L R exclusive_same[OF silent_ledger, of s2 ?s V] exclusive_same[OF F(1), of V] by auto
    show "stalled {} ?s" if "engine_accepts (env_engine V) \<and> wm_poison_message_circuit s = None"
      using that L R F(9) stalled_frame[of s2 ?s "{}"] by auto
    show "wm_total_queued_messages ?s + int (length (wm_completion_queue ?s)) \<le>
       wm_total_queued_messages s + int (length (wm_completion_queue s))"
      using L R silent_total[of s2 ?s] silent_events[of s2 ?s] F(3,4) by auto
  qed (use p in simp)
  then show ?thesis using loop(1) by (simp add: schedule_def sb)
qed

text \<open>Polling: one round per queued item at most, plus one.\<close>

lemma drain_frame:
  assumes "drain_completion_queue V s = (evs, b, s1)"
  shows "wm_completion_queue s1 = []" "wm_total_queued_messages s1 = wm_total_queued_messages s"
    "wm_max_in_flight_messages s1 = wm_max_in_flight_messages s"
    "queue_items (wm_queue_topology s1) = queue_items (wm_queue_topology s)"
    "evs = wm_completion_queue s"
  using assms process_events_frame[of V "wm_completion_queue s" False "s\<lparr>wm_completion_queue := []\<rparr>"]
  by (auto simp: drain_completion_queue_def Let_def)

lemma settle_event_more [simp]:
  "wm_ordering_mode (settle_event V ev w s) = wm_ordering_mode s"
  "wm_route_batch_size (settle_event V ev w s) = wm_route_batch_size s"
  by (simp_all add: settle_event_def Let_def pop_dispatch_timestamp_def record_poison_completion_def
      observe_latency_def read_clock_def record_completion_latency_def prune_completion_timestamps_def
      split: option.splits)

lemma process_event_settings:
  "wm_ordering_mode (snd (process_completion_event V ev s)) = wm_ordering_mode s"
  "wm_route_batch_size (snd (process_completion_event V ev s)) = wm_route_batch_size s"
  by (simp_all add: process_cases pop_dispatch_timestamp_def mark_event_def invalidate_blocking_cache_def
      split: option.splits)

lemma process_events_settings:
  "wm_ordering_mode (snd (process_events V evs b s)) = wm_ordering_mode s"
  "wm_route_batch_size (snd (process_events V evs b s)) = wm_route_batch_size s"
  by (induction evs arbitrary: b s) (simp_all add: case_prod_beta process_event_settings)

text \<open>Completions only remove dispatched items, so they keep exclusivity and the bound.\<close>

lemma card_holders_mono:
  assumes "dispatched s' \<subseteq> dispatched s" "\<And>i w. item_of s' i = Some w \<Longrightarrow> item_of s i = Some w"
  shows "card (holders f s' x) \<le> card (holders f s x)"
proof (rule card_mono)
  show "finite (holders f s x)"
    by (rule finite_subset[OF _ finite_dispatched[of s]]) (auto simp: holders_def)
  show "holders f s' x \<subseteq> holders f s x"
    using assms unfolding holders_def by blast
qed

lemma exclusive_shrink:
  assumes "exclusive V s" "dispatched s' \<subseteq> dispatched s"
    "\<And>i w. item_of s' i = Some w \<Longrightarrow> item_of s i = Some w" "wm_ordering_mode s' = wm_ordering_mode s"
  shows "exclusive V s'"
proof -
  have "card (holders route_of s' x) \<le> 1" if "card (holders route_of s x) \<le> 1" for x
    using card_holders_mono[OF assms(2,3), where f = route_of and x = x] that by linarith
  moreover have "card (holders wi_tp s' x) \<le> 1" if "card (holders wi_tp s x) \<le> 1" for x
    using card_holders_mono[OF assms(2,3), where f = wi_tp and x = x] that by linarith
  ultimately show ?thesis using assms(1,4) unfolding exclusive_def by simp
qed

lemma dispatched_pop [simp]: "dispatched (pop_dispatch_timestamp i s) = dispatched s - {i}"
  by (auto simp: dispatched_def pop_dispatch_timestamp_def dict_simps)

lemma dispatched_settle [simp]: "dispatched (settle_event V ev w s) = dispatched s - {ce_id ev}"
  by (auto simp: settle_event_def Let_def same_ledger_dispatched[OF record_poison_same]
      same_ledger_dispatched[OF observe_latency_same])

lemma dispatched_mark [simp]: "dispatched (mark_event V ev t s) = dispatched s"
  by (rule same_ledger_dispatched[OF mark_event_same])

lemma process_event_dispatched: "dispatched (snd (process_completion_event V ev s)) \<subseteq> dispatched s"
  by (auto simp: process_cases split: option.splits)

lemma process_events_dispatched:
  "dispatched (snd (process_events V evs b s)) \<subseteq> dispatched s \<and>
   (\<forall>i w. item_of (snd (process_events V evs b s)) i = Some w \<longrightarrow> item_of s i = Some w)"
proof (induction evs arbitrary: b s)
  case (Cons ev evs)
  show ?case
    using Cons.IH[of "fst (process_completion_event V ev s) \<or> b" "snd (process_completion_event V ev s)"]
      process_event_dispatched[of V ev s] process_event_frame(5)[of V ev s]
    by (auto simp: case_prod_beta)
qed simp

lemma inv_count_mono:
  "wm_inv V K s \<Longrightarrow> wm_inv V K' s' \<Longrightarrow> dispatched s' \<subseteq> dispatched s
    \<Longrightarrow> wm_current_in_flight_count s' \<le> wm_current_in_flight_count s"
  using ledger_invD(5)[OF wm_invD(1), of V K s] ledger_invD(5)[OF wm_invD(1), of V K' s']
    card_mono[OF finite_dispatched, of "dispatched s'" s] by simp

lemma drain_spec:
  assumes inv: "wm_inv V {} s" and dr: "drain_completion_queue V s = (evs, b, s1)"
  shows "wm_inv V {} s1" "exclusive V s \<Longrightarrow> exclusive V s1"
    "wm_current_in_flight_count s1 \<le> wm_current_in_flight_count s"
    "wm_route_batch_size s1 = wm_route_batch_size s"
proof -
  let ?c = "s\<lparr>wm_completion_queue := []\<rparr>"
  have s1: "s1 = snd (process_events V evs False ?c)" and evs: "evs = wm_completion_queue s"
    using dr by (auto simp: drain_completion_queue_def Let_def)
  show i1: "wm_inv V {} s1" using drain_inv[OF inv] dr by simp
  have led: "same_ledger s ?c" by (simp add: same_ledger_def)
  have sub: "dispatched s1 \<subseteq> dispatched s" "\<And>i w. item_of s1 i = Some w \<Longrightarrow> item_of s i = Some w"
    using process_events_dispatched[of V evs False ?c] same_ledger_dispatched[OF led] s1 by auto
  show "wm_route_batch_size s1 = wm_route_batch_size s"
    using process_events_settings(2)[of V evs False ?c] s1 by simp
  have "wm_ordering_mode s1 = wm_ordering_mode s"
    using process_events_settings(1)[of V evs False ?c] s1 by simp
  then show "exclusive V s1" if "exclusive V s" using exclusive_shrink[OF that sub] by simp
  show "wm_current_in_flight_count s1 \<le> wm_current_in_flight_count s"
    by (rule inv_count_mono[OF inv i1 sub(1)])
qed

definition poll_spec ::
  "('k, 'p, 's, 'c, 'e) wm_env \<Rightarrow> ('k, 'p, 's, 'c, 'e) work_manager \<Rightarrow> ('k, 'p, 's, 'c, 'e) work_manager \<Rightarrow> bool" where
  "poll_spec V s s' \<longleftrightarrow>
     wm_inv V {} s' \<and> wm_route_batch_size s' = wm_route_batch_size s \<and>
     wm_max_in_flight_messages s' = wm_max_in_flight_messages s \<and>
     (engine_contract (env_engine V) \<longrightarrow>
        wm_current_in_flight_count s' \<le> max (wm_current_in_flight_count s) (wm_max_in_flight_messages s) \<and>
        (exclusive V s \<longrightarrow> exclusive V s')) \<and>
     wm_completion_queue s' = []"

lemma poll_loop_terminates:
  assumes "wm_inv V {} s" "1 \<le> wm_route_batch_size s" "set_enumeration V"
    "wm_total_queued_messages s < int fuel" "wm_total_queued_messages s < int rounds"
  shows "\<exists>evs s'. poll_loop rounds fuel V after completed s =
      Some (Inr (completed @ wm_completion_queue s @ evs), s') \<and> poll_spec V s s'"
  using assms
proof (induction rounds arbitrary: completed s)
  case 0
  then show ?case using total_nonneg[of V "{}" s] by simp
next
  case (Suc rounds)
  obtain evs b s1 where dr: "drain_completion_queue V s = (evs, b, s1)" by (metis prod_cases3)
  note D = drain_spec[OF Suc.prems(1) dr] drain_frame[OF dr]
  show ?case
  proof (cases "\<not> after \<or> \<not> b")
    case True
    have "poll_spec V s s1" using D by (auto simp: poll_spec_def)
    then show ?thesis using True dr D(9) by (intro exI[of _ "[]"] exI[of _ s1]) auto
  next
    case False
    obtain s2 where sch: "schedule fuel V s1 = Some (Inr (), s2)" "schedule_spec V s1 s2"
      using schedule_terminates[OF D(1), of fuel] Suc.prems(2-4) D(4,6) by auto
    note S = sch(2)[unfolded schedule_spec_def]
    have fr: "wm_route_batch_size s2 = wm_route_batch_size s"
      "wm_max_in_flight_messages s2 = wm_max_in_flight_messages s"
      using S D(4,7) schedule_blocking_frame[where s = s1 and V = V] by (simp_all add: progressed_def)
    have bound: "wm_current_in_flight_count s2 \<le> max (wm_current_in_flight_count s) (wm_max_in_flight_messages s)"
      "exclusive V s \<longrightarrow> exclusive V s2" if "engine_contract (env_engine V)"
      using that S D(2,3,7) by auto
    show ?thesis
    proof (cases "wm_completion_queue s2 = []")
      case True
      have "poll_spec V s s2" using S fr bound True by (auto simp: poll_spec_def)
      then show ?thesis using False dr sch(1) True D(9) by (intro exI[of _ "[]"] exI[of _ s2]) auto
    next
      case ne: False
      then have pos: "1 \<le> int (length (wm_completion_queue s2))" by (simp add: Suc_leI)
      have emp: "int (length (wm_completion_queue s1)) = 0" by (simp add: D(5))
      have dec: "wm_total_queued_messages s2 < wm_total_queued_messages s"
        using S[THEN conjunct2, THEN conjunct2, THEN conjunct2, THEN conjunct2] D(6) pos emp by linarith
      obtain evs' s' where IH: "poll_loop rounds fuel V after (completed @ evs) s2 =
          Some (Inr ((completed @ evs) @ wm_completion_queue s2 @ evs'), s')" "poll_spec V s2 s'"
        using Suc.IH[of s2 "completed @ evs"] S fr(1) Suc.prems(2-5) dec by auto
      have "poll_spec V s s'"
        using IH(2) fr bound by (auto simp: poll_spec_def)
      then show ?thesis
        using False dr sch(1) ne IH(1) D(9)
        by (intro exI[of _ "wm_completion_queue s2 @ evs'"] exI[of _ s']) auto
    qed
  qed
qed

end
