(* ===== verification/Work_Lifecycle.thy ===== *)
theory Work_Lifecycle
  imports Work_Scheduling
begin

text \<open>
  The life of a work manager: assignment, submission and revocation keep the invariant of
  \<open>Work_Ledger\<close>, so it holds in every state that a sequence of method calls can reach
  (\<open>wm_run\<close>). The properties of the work manager as a whole are stated over these runs.
\<close>

section \<open>Assignment\<close>

lemma assign_one_frame:
  "same_ledger s (assign_one V (tp, a) s)"
  "wm_queue_topology (assign_one V (tp, a) s) = assign tp (wm_queue_topology s)"
  "wm_total_queued_messages (assign_one V (tp, a) s) = wm_total_queued_messages s"
  "wm_completion_queue (assign_one V (tp, a) s) = wm_completion_queue s"
  "wm_uuids (assign_one V (tp, a) s) = wm_uuids s"
  "dict_get (wm_offset_trackers (assign_one V (tp, a) s)) tp' = None \<longleftrightarrow>
     tp' \<noteq> tp \<and> dict_get (wm_offset_trackers s) tp' = None"
  by (cases a; simp add: assign_one_def same_ledger_def Let_def dict_simps)+

lemma assign_one_inv:
  assumes inv: "wm_inv V {} s" and new: "\<not> assigned (wm_queue_topology s) tp"
  shows "wm_inv V {} (assign_one V (tp, a) s)" (is "wm_inv V {} ?s")
proof -
  note F = assign_one_frame[where V = V and tp = tp and a = a and s = s]
  note I = queue_invD[OF wm_invD(2)[OF inv]]
  have items: "queue_items (assign tp (wm_queue_topology s)) = queue_items (wm_queue_topology s)"
    using new by (auto simp: queue_items_assign fun_eq_iff queue_items_unassigned)
  have q: "queue_inv {} ?s"
  proof (rule queue_invI)
    show "topo_inv {} (wm_queue_topology ?s)" using topo_inv_assign[OF I(1) new] F(2) by simp
    show "wm_total_queued_messages ?s = int (total_queued (wm_queue_topology ?s))"
      using I(2) F(2,3) total_assign[OF new] by simp
  qed (use I(3-6) F(2) items same_ledger_dispatched[OF F(1)] same_ledger_items[OF F(1)] in simp_all)
  have qd: "queued ?s w = queued s w" for w by (simp add: queued_def F(2) items)
  have "managed_inv V ?s"
  proof (rule managed_invI)
    show "assigned (wm_queue_topology ?s) tp' \<longleftrightarrow> dict_get (wm_offset_trackers ?s) tp' \<noteq> None" for tp'
      using managed_invD(1)[OF wm_invD(3)[OF inv], of tp'] F(2) F(6)[of tp'] by (auto simp: assigned_assign)
    show "assigned (wm_queue_topology ?s) (wi_tp w)" if "item_of ?s i = Some w" for i w
      using that managed_invD(2)[OF wm_invD(3)[OF inv], of i w] same_ledger_items[OF F(1)] F(2)
      by (simp add: assigned_assign)
    show "i \<in> env_uuid V ` {..<wm_uuids ?s}" if "item_of ?s i = Some w" for i w
      using that managed_invD(4)[OF wm_invD(3)[OF inv], of i w] same_ledger_items[OF F(1)] F(5) by simp
    show "event_ok V ?s ev" if "ev \<in> set (wm_completion_queue ?s)" for ev
      using that managed_invD(3)[OF wm_invD(3)[OF inv], of ev] same_ledger_items[OF F(1)] F(4,5) qd
      by (simp add: event_ok_def)
  qed
  then show ?thesis using q same_ledger_inv[OF F(1) wm_invD(1)[OF inv]] by (simp add: wm_inv_def)
qed

lemma assign_fold_inv:
  assumes "wm_inv V {} s" "dict_wf as" "\<And>tp. dict_has as tp \<Longrightarrow> \<not> assigned (wm_queue_topology s) tp"
  shows "wm_inv V {} (fold (assign_one V) as s)"
  using assms
proof (induction as arbitrary: s)
  case (Cons a as)
  obtain tp x where a: "a = (tp, x)" by (cases a)
  have "wm_inv V {} (assign_one V a s)"
    using assign_one_inv[OF Cons.prems(1), of tp x] Cons.prems(3)[of tp] a by (simp add: dict_has_def)
  then have "wm_inv V {} (fold (assign_one V) as (assign_one V a s))"
  proof (rule Cons.IH)
    show "dict_wf as" using Cons.prems(2) by (simp add: dict_wf_def)
    show "\<not> assigned (wm_queue_topology (assign_one V a s)) tp'" if "dict_has as tp'" for tp'
    proof -
      have "tp' \<noteq> tp" using that Cons.prems(2) a by (auto simp: dict_wf_def dict_has_def)
      then show ?thesis
        using Cons.prems(3)[of tp'] that a assign_one_frame(2)[of V tp x s]
        by (simp add: assigned_assign dict_has_def)
    qed
  qed
  then show ?case by simp
qed simp

lemma on_assign_inv:
  assumes "wm_inv V {} s" "dict_wf as" "\<And>tp. dict_has as tp \<Longrightarrow> \<not> assigned (wm_queue_topology s) tp"
  shows "wm_inv V {} (on_assign V as s)"
  by (rule wm_inv_frame[OF assign_fold_inv[OF assms]])
    (simp_all add: on_assign_def invalidate_blocking_cache_def same_ledger_def)

section \<open>Submission\<close>

lemma make_work_item_fields [simp]:
  "wi_id (make_work_item i tp k m) = i" "wi_tp (make_work_item i tp k m) = tp"
  "wi_key (make_work_item i tp k m) = k" "wi_offset (make_work_item i tp k m) = message_offset m"
  by (cases m; simp)+

text \<open>Registering a message draws a fresh id, so no queued or dispatched item carries it.\<close>

definition register_one ::
  "('k, 'p, 's, 'c, 'e) wm_env \<Rightarrow> topic_partition \<Rightarrow> 'k \<Rightarrow> ('k, 'p) grouped_message
    \<Rightarrow> ('k, 'p, 's, 'c, 'e) work_manager \<Rightarrow> ('k, 'p, 's, 'c, 'e) work_manager" where
  "register_one V tp k m s =
     s\<lparr>wm_uuids := wm_uuids s + 1,
       wm_in_flight_work_items :=
         dict_set (env_uuid V (wm_uuids s)) (make_work_item (env_uuid V (wm_uuids s)) tp k m)
           (wm_in_flight_work_items s),
       wm_work_item_ids_by_tp_offset :=
         dict_set (tp, message_offset m) (env_uuid V (wm_uuids s)) (wm_work_item_ids_by_tp_offset s)\<rparr>"

lemma register_one_fields [simp]:
  "wm_queue_topology (register_one V tp k m s) = wm_queue_topology s"
  "wm_total_queued_messages (register_one V tp k m s) = wm_total_queued_messages s"
  "wm_completion_queue (register_one V tp k m s) = wm_completion_queue s"
  "wm_offset_trackers (register_one V tp k m s) = wm_offset_trackers s"
  "wm_uuids (register_one V tp k m s) = Suc (wm_uuids s)"
  "dispatched (register_one V tp k m s) = dispatched s"
  "wm_max_in_flight_messages (register_one V tp k m s) = wm_max_in_flight_messages s"
  "wm_route_batch_size (register_one V tp k m s) = wm_route_batch_size s"
  "wm_ordering_mode (register_one V tp k m s) = wm_ordering_mode s"
  "wm_current_in_flight_count (register_one V tp k m s) = wm_current_in_flight_count s"
  "item_of (register_one V tp k m s) j =
     (if j = env_uuid V (wm_uuids s) then Some (make_work_item j tp k m) else item_of s j)"
  by (simp_all add: register_one_def dispatched_def dict_simps)

lemma fresh_id:
  assumes "wm_inv V K s" "inj (env_uuid V)" "wm_uuids s \<le> n"
  shows "item_of s (env_uuid V n) = None" "env_uuid V n \<notin> dispatched s"
proof -
  show none: "item_of s (env_uuid V n) = None"
  proof (rule ccontr)
    assume "item_of s (env_uuid V n) \<noteq> None"
    then obtain w where "item_of s (env_uuid V n) = Some w" by blast
    then have "env_uuid V n \<in> env_uuid V ` {..<wm_uuids s}" using managed_invD(4)[OF wm_invD(3)[OF assms(1)]] by blast
    then show False using assms(2,3) by (auto dest: injD)
  qed
  show "env_uuid V n \<notin> dispatched s" using none by (rule wm_inv_not_dispatched[OF assms(1)])
qed

lemma holders_register:
  assumes "wm_inv V K s" "inj (env_uuid V)"
  shows "holders f (register_one V tp k m s) = holders f s"
  using fresh_id[OF assms order_refl] by (auto simp: holders_def fun_eq_iff)

lemma register_one_inv:
  assumes inv: "wm_inv V K s" and inj: "inj (env_uuid V)" and asg: "assigned (wm_queue_topology s) tp"
  shows "wm_inv V K (register_one V tp k m s)" (is "wm_inv V K ?s")
proof -
  let ?i = "env_uuid V (wm_uuids s)"
  note fresh = fresh_id[OF inv inj order_refl]
  note L = ledger_invD[OF wm_invD(1)[OF inv]] and I = queue_invD[OF wm_invD(2)[OF inv]]
    and M = managed_invD[OF wm_invD(3)[OF inv]]
  have "ledger_inv ?s"
  proof (rule ledger_invI)
    show "\<exists>w. item_of ?s j = Some w" if "j \<in> dispatched ?s" for j using that L(3)[of j] by auto
    show "wi_id w = j" if "item_of ?s j = Some w" for j w using that L(4)[of j w] by (auto split: if_splits)
    show "lock_ok (wm_key_in_flight_counts ?s) (wm_keys_in_flight ?s) (holders route_of ?s)"
      if "wm_ordering_mode ?s = KEY_HASH"
      using L(6) that holders_register[OF inv inj, of route_of] by (simp add: register_one_def)
    show "lock_ok (wm_partition_in_flight_counts ?s) (wm_partitions_in_flight ?s) (holders wi_tp ?s)"
      if "wm_ordering_mode ?s = PARTITION"
      using L(7) that holders_register[OF inv inj, of wi_tp] by (simp add: register_one_def)
  qed (use L(1,2,5) in \<open>simp_all add: register_one_def dispatched_def\<close>)
  moreover have "queue_inv K ?s"
  proof (rule queue_invI)
    show "route_of w = q \<and> item_of ?s (wi_id w) = Some w \<and> wi_id w \<notin> dispatched ?s"
      if "w \<in> set (queue_items (wm_queue_topology ?s) q)" for q w
      using that I(4,5,6)[of w q] fresh(1) by auto
  qed (use I(1-3) in simp_all)
  moreover have "managed_inv V ?s"
  proof (rule managed_invI)
    show "event_ok V ?s ev" if "ev \<in> set (wm_completion_queue ?s)" for ev
    proof -
      have "event_ok V s ev" using that M(3) by simp
      moreover have "ce_id ev \<noteq> ?i"
        using calculation inj by (auto simp: event_ok_def dest: injD)
      ultimately show ?thesis by (auto simp: event_ok_def queued_def lessThan_Suc)
    qed
    show "assigned (wm_queue_topology ?s) (wi_tp w)" if "item_of ?s j = Some w" for j w
      using that M(2)[of j w] asg by (auto split: if_splits)
    show "j \<in> env_uuid V ` {..<wm_uuids ?s}" if "item_of ?s j = Some w" for j w
      using that M(4)[of j w] by (auto simp: lessThan_Suc split: if_splits)
  qed (use M(1) in simp)
  ultimately show ?thesis by (simp add: wm_inv_def)
qed

lemma register_messages_Cons:
  "\<exists>mo'. register_messages V tp k (m # ms) mo s =
     (let (ws, mo2, s2) = register_messages V tp k ms mo' (register_one V tp k m s)
      in (make_work_item (env_uuid V (wm_uuids s)) tp k m # ws, mo2, s2))"
  by (auto simp: Let_def register_one_def split: option.splits)

text \<open>The registered items of one group: fresh, distinct ids on the group's route.\<close>

definition registered_group ::
  "('k, 'p, 's, 'c, 'e) wm_env \<Rightarrow> 'k queue_key \<Rightarrow> ('k, 'p) work_item list
    \<Rightarrow> ('k, 'p, 's, 'c, 'e) work_manager \<Rightarrow> ('k, 'p, 's, 'c, 'e) work_manager \<Rightarrow> bool" where
  "registered_group V q ws s s' \<longleftrightarrow>
     distinct (map wi_id ws) \<and> wm_uuids s \<le> wm_uuids s' \<and>
     (\<forall>w \<in> set ws. route_of w = q \<and> item_of s' (wi_id w) = Some w \<and>
        wi_id w \<in> env_uuid V ` {wm_uuids s..<wm_uuids s'}) \<and>
     wm_queue_topology s' = wm_queue_topology s \<and>
     wm_total_queued_messages s' = wm_total_queued_messages s \<and>
     wm_completion_queue s' = wm_completion_queue s \<and>
     wm_offset_trackers s' = wm_offset_trackers s \<and>
     dispatched s' = dispatched s \<and>
     wm_max_in_flight_messages s' = wm_max_in_flight_messages s \<and>
     wm_route_batch_size s' = wm_route_batch_size s \<and>
     wm_ordering_mode s' = wm_ordering_mode s \<and>
     wm_current_in_flight_count s' = wm_current_in_flight_count s \<and>
     (\<forall>i w. item_of s i = Some w \<longrightarrow> item_of s' i = Some w)"

lemma register_messages_spec:
  assumes "wm_inv V K s" "inj (env_uuid V)" "assigned (wm_queue_topology s) tp"
    "register_messages V tp k ms mo s = (ws, mo', s')"
  shows "wm_inv V K s' \<and> registered_group V (tp, k) ws s s' \<and> length ws = length ms"
  using assms
proof (induction ms arbitrary: mo s ws)
  case Nil
  then show ?case by (simp add: registered_group_def)
next
  case (Cons m ms)
  let ?i = "env_uuid V (wm_uuids s)" and ?s = "register_one V tp k m s"
  let ?w = "make_work_item ?i tp k m"
  obtain mo1 where step: "register_messages V tp k (m # ms) mo s =
      (let (ws, mo2, s2) = register_messages V tp k ms mo1 ?s in (?w # ws, mo2, s2))"
    using register_messages_Cons[of V tp k m ms mo s] by (elim exE)
  obtain vs mo2 s2 where rest: "register_messages V tp k ms mo1 ?s = (vs, mo2, s2)" by (metis prod_cases3)
  have r: "register_messages V tp k ms mo1 ?s = (vs, mo', s')" "ws = ?w # vs"
    using Cons.prems(4) rest unfolding step by simp_all
  have inv1: "wm_inv V K ?s" by (rule register_one_inv[OF Cons.prems(1-3)])
  have IH: "wm_inv V K s'" "registered_group V (tp, k) vs ?s s'" "length vs = length ms"
    using Cons.IH[OF inv1 Cons.prems(2) _ r(1)] Cons.prems(3) by simp_all
  note G = IH(2)[unfolded registered_group_def]
  have "item_of s' ?i = Some ?w" using G by simp
  moreover have "?i \<in> env_uuid V ` {wm_uuids s..<wm_uuids s'}" using G by auto
  moreover have "?i \<notin> wi_id ` set vs" using G Cons.prems(2) by (fastforce dest: injD)
  moreover have "item_of s' j = Some w" if "item_of s j = Some w" for j w
    using that G fresh_id(1)[OF Cons.prems(1,2) order_refl] by (metis option.distinct(1) register_one_fields(11))
  moreover have "wi_id w \<in> env_uuid V ` {wm_uuids s..<wm_uuids s'}" if "w \<in> set vs" for w
    using G that by fastforce
  ultimately have "registered_group V (tp, k) ws s s'"
    using G unfolding registered_group_def r(2) by auto
  then show ?case using IH(1,3) r(2) by simp
qed

lemma enqueue_group_inv:
  assumes inv: "wm_inv V {} s" and inj: "inj (env_uuid V)" and asg: "assigned (wm_queue_topology s) tp"
    and inv1: "wm_inv V {} s1" and G: "registered_group V (tp, k) ws s s1"
    and e: "enqueue_batch tp k ws (wm_queue_topology s1) = (r, T)"
  shows "r = Inr ()" "wm_inv V {} (s1\<lparr>wm_queue_topology := T,
      wm_total_queued_messages := wm_total_queued_messages s1 + int (length ws)\<rparr>)" (is "wm_inv V {} ?s")
    "assigned T = assigned (wm_queue_topology s1)"
proof -
  note I = queue_invD[OF wm_invD(2)[OF inv1]] and M = managed_invD[OF wm_invD(3)[OF inv1]]
  note g = G[unfolded registered_group_def]
  have a1: "assigned (wm_queue_topology s1) tp" using asg g by simp
  have T: "queue_items T = (queue_items (wm_queue_topology s1))((tp, k) := queue_items (wm_queue_topology s1) (tp, k) @ ws)"
    "total_queued T = total_queued (wm_queue_topology s1) + length ws" "topo_inv {} T"
    using queue_items_enqueue[OF a1, of k ws] total_enqueue[OF a1, of k ws] topo_inv_enqueue[OF I(1), of tp k ws] e
    by simp_all
  show r: "r = Inr ()" using enqueue_batch_ok[OF a1, of k ws] e by simp
  show asT: "assigned T = assigned (wm_queue_topology s1)" using assigned_enqueue[of tp k ws "wm_queue_topology s1"] e by simp
  have newid: "wi_id w \<notin> env_uuid V ` {..<wm_uuids s}" if "w \<in> set ws" for w
    using g that inj by (force dest: injD)
  have old: "item_of s (wi_id v) = Some v" if "v \<in> set (queue_items (wm_queue_topology s1) q)" for v q
    using that queue_invD(5)[OF wm_invD(2)[OF inv]] g by simp
  have oldid: "wi_id v \<in> env_uuid V ` {..<wm_uuids s}" if "v \<in> set (queue_items (wm_queue_topology s1) q)" for v q
    using managed_invD(4)[OF wm_invD(3)[OF inv] old[OF that]] .
  have led: "same_ledger s1 ?s" by (simp add: same_ledger_def)
  have "queue_inv {} ?s"
  proof (rule queue_invI)
    show "distinct (map wi_id (queue_items (wm_queue_topology ?s) q))" for q
    proof (cases "q = (tp, k)")
      case True
      have "wi_id v \<noteq> wi_id w" if "v \<in> set (queue_items (wm_queue_topology s1) (tp, k))" "w \<in> set ws" for v w
        using newid[OF that(2)] oldid[OF that(1)] by metis
      then have "wi_id ` set (queue_items (wm_queue_topology s1) (tp, k)) \<inter> wi_id ` set ws = {}" by auto
      then show ?thesis using True I(3)[of q] g by (simp add: T(1))
    next
      case False
      then show ?thesis using I(3)[of q] by (simp add: T(1))
    qed
    show "route_of w = q \<and> item_of ?s (wi_id w) = Some w \<and> wi_id w \<notin> dispatched ?s"
      if w: "w \<in> set (queue_items (wm_queue_topology ?s) q)" for q w
    proof (cases "w \<in> set (queue_items (wm_queue_topology s1) q)")
      case True
      then show ?thesis using I(4,5,6)[OF True] same_ledger_dispatched[OF led] by simp
    next
      case False
      then have ww: "q = (tp, k)" "w \<in> set ws" using w by (auto simp: T(1) split: if_splits)
      have "wi_id w \<notin> dispatched s"
        using newid[OF ww(2)] ledger_invD(3)[OF wm_invD(1)[OF inv], of "wi_id w"]
          managed_invD(4)[OF wm_invD(3)[OF inv], of "wi_id w"] by auto
      then show ?thesis using g ww same_ledger_dispatched[OF led] by auto
    qed
  qed (use T I(2) in simp_all)
  moreover have "managed_inv V ?s"
  proof (rule managed_invI)
    show "event_ok V ?s ev" if ev: "ev \<in> set (wm_completion_queue ?s)" for ev
    proof -
      have ok: "event_ok V s ev" using ev g managed_invD(3)[OF wm_invD(3)[OF inv]] by simp
      have ok1: "event_ok V s1 ev" using ev M(3) by simp
      have "\<not> queued ?s w" if it: "item_of s1 (ce_id ev) = Some w" for w
      proof
        assume "queued ?s w"
        then have "queued s1 w \<or> w \<in> set ws" by (auto simp: queued_def T(1) split: if_splits)
        moreover have "w \<notin> set ws"
        proof
          assume "w \<in> set ws"
          moreover have "wi_id w = ce_id ev" using ledger_invD(4)[OF wm_invD(1)[OF inv1] it] .
          ultimately show False using newid[of w] ok by (simp add: event_ok_def)
        qed
        ultimately show False using ok1 it by (auto simp: event_ok_def)
      qed
      then show ?thesis using ok1 by (simp add: event_ok_def)
    qed
  qed (use M(1,2,4) asT in auto)
  ultimately show "wm_inv V {} ?s"
    using same_ledger_inv[OF led wm_invD(1)[OF inv1]] by (simp add: wm_inv_def)
qed

text \<open>Submission leaves everything dispatched as it was.\<close>

definition undisturbed ::
  "('k, 'p, 's, 'c, 'e) work_manager \<Rightarrow> ('k, 'p, 's, 'c, 'e) work_manager \<Rightarrow> bool" where
  "undisturbed s s' \<longleftrightarrow>
     dispatched s' = dispatched s \<and>
     (\<forall>i w. item_of s i = Some w \<longrightarrow> item_of s' i = Some w) \<and>
     wm_current_in_flight_count s' = wm_current_in_flight_count s \<and>
     wm_max_in_flight_messages s' = wm_max_in_flight_messages s \<and>
     wm_route_batch_size s' = wm_route_batch_size s \<and>
     wm_ordering_mode s' = wm_ordering_mode s \<and>
     wm_completion_queue s' = wm_completion_queue s"

lemma undisturbed_refl [simp]: "undisturbed s s"
  by (simp add: undisturbed_def)

lemma undisturbed_trans: "undisturbed s t \<Longrightarrow> undisturbed t u \<Longrightarrow> undisturbed s u"
  by (simp add: undisturbed_def)

lemma exclusive_undisturbed:
  assumes "wm_inv V K s" "undisturbed s s'" shows "exclusive V s' = exclusive V s"
proof -
  have "holders route_of s' x = holders route_of s x" "holders wi_tp s' x' = holders wi_tp s x'" for x x'
    using assms(2) ledger_invD(3)[OF wm_invD(1)[OF assms(1)]]
    unfolding undisturbed_def holders_def by (auto, metis option.inject, metis option.inject)
  then show ?thesis using assms(2) by (simp add: exclusive_def undisturbed_def)
qed

lemma registered_undisturbed: "registered_group V q ws s s' \<Longrightarrow> undisturbed s s'"
  by (simp add: registered_group_def undisturbed_def)

lemma undisturbed_enqueued:
  "undisturbed s (s\<lparr>wm_queue_topology := T, wm_total_queued_messages := n\<rparr>)"
  by (simp add: undisturbed_def dispatched_def)

lemma enqueue_groups_inv:
  assumes "wm_inv V {} s" "inj (env_uuid V)" "enqueue_groups V gs mo s = (r, s')"
  shows "wm_inv V {} s' \<and> undisturbed s s' \<and>
    ((\<exists>mo'. r = Inr mo') \<longleftrightarrow> (\<forall>g \<in> set gs. assigned (wm_queue_topology s) (fst (fst g)))) \<and>
    (\<forall>e. r = Inl e \<longrightarrow> e = ValueError)"
  using assms
proof (induction gs arbitrary: mo s)
  case Nil
  then show ?case by auto
next
  case (Cons g gs)
  obtain tp k ms where g: "g = ((tp, k), ms)" by (metis prod.exhaust)
  show ?case
  proof (cases "assigned (wm_queue_topology s) tp")
    case False
    then show ?thesis using Cons.prems g by (auto simp: assigned_def)
  next
    case True
    obtain ws mo1 s1 where r1: "register_messages V tp k ms mo s = (ws, mo1, s1)" by (metis prod_cases3)
    have R: "wm_inv V {} s1" "registered_group V (tp, k) ws s s1"
      using register_messages_spec[OF Cons.prems(1,2) True r1] by simp_all
    obtain er T where e: "enqueue_batch tp k ws (wm_queue_topology s1) = (er, T)" by fastforce
    note E = enqueue_group_inv[OF Cons.prems(1,2) True R e]
    let ?s = "s1\<lparr>wm_queue_topology := T,
      wm_total_queued_messages := wm_total_queued_messages s1 + int (length ws)\<rparr>"
    have run: "enqueue_groups V gs mo1 ?s = (r, s')"
      using Cons.prems(3) g True r1 e E(1) by (simp add: assigned_def)
    have asg: "assigned (wm_queue_topology ?s) = assigned (wm_queue_topology s)"
      using E(3) R(2) by (simp add: registered_group_def)
    show ?thesis
      using Cons.IH[OF E(2) Cons.prems(2) run] True g asg
        undisturbed_trans[OF registered_undisturbed[OF R(2)] undisturbed_trans[OF undisturbed_enqueued]] by auto
  qed
qed

lemma record_fetched_frame:
  "same_ledger s (record_fetched V p s)" "wm_queue_topology (record_fetched V p s) = wm_queue_topology s"
  "wm_total_queued_messages (record_fetched V p s) = wm_total_queued_messages s"
  "wm_completion_queue (record_fetched V p s) = wm_completion_queue s"
  "wm_uuids (record_fetched V p s) = wm_uuids s"
  "wm_max_in_flight_messages (record_fetched V p s) = wm_max_in_flight_messages s"
  "wm_route_batch_size (record_fetched V p s) = wm_route_batch_size s"
  "dict_get (wm_offset_trackers (record_fetched V p s)) tp = None \<longleftrightarrow> dict_get (wm_offset_trackers s) tp = None"
  by (auto simp: record_fetched_def same_ledger_def dict_simps split: option.splits)

lemma record_fetched_fold:
  "wm_inv V K s \<Longrightarrow> wm_inv V K (fold (record_fetched V) ps s) \<and> undisturbed s (fold (record_fetched V) ps s)"
proof (induction ps arbitrary: s)
  case (Cons p ps)
  note F = record_fetched_frame[where V = V and p = p and s = s]
  have "wm_inv V K (record_fetched V p s)"
    by (rule wm_inv_frame[OF Cons.prems F(1,2,3,4)]) (simp_all add: F)
  moreover have "undisturbed s (record_fetched V p s)"
    using same_ledger_dispatched[OF F(1)] F by (simp add: undisturbed_def same_ledger_def)
  ultimately show ?case using Cons.IH[of "record_fetched V p s"] undisturbed_trans[of s "record_fetched V p s"] by simp
qed simp

lemma submit_inv:
  assumes "wm_inv V {} s" "inj (env_uuid V)" "submit_message_batch V gs s = (r, s')"
  shows "wm_inv V {} s' \<and> undisturbed s s' \<and>
    (r = Inr () \<longleftrightarrow> (\<forall>g \<in> set gs. assigned (wm_queue_topology s) (fst (fst g)))) \<and>
    (\<forall>e. r = Inl e \<longrightarrow> e = ValueError)"
proof -
  obtain r1 s1 where e: "enqueue_groups V gs [] s = (r1, s1)" by fastforce
  note E = enqueue_groups_inv[OF assms(1,2) e]
  show ?thesis
  proof (cases r1)
    case (Inl x)
    then show ?thesis using E e assms(3) by (auto simp: submit_message_batch_def)
  next
    case (Inr mo)
    let ?f = "fold (record_fetched V) mo s1"
    have f: "wm_inv V {} ?f" "undisturbed s1 ?f" using record_fetched_fold[of V "{}" s1 mo] E by simp_all
    have i: "wm_inv V {} (invalidate_blocking_cache ?f)"
      by (rule wm_inv_frame[OF f(1)]) (simp_all add: invalidate_blocking_cache_def same_ledger_def)
    have "undisturbed ?f (invalidate_blocking_cache ?f)"
      by (simp add: undisturbed_def invalidate_blocking_cache_def dispatched_def)
    then have u: "undisturbed s (invalidate_blocking_cache ?f)"
      using E f(2) undisturbed_trans by metis
    show ?thesis using E e assms(3) Inr i u by (auto simp: submit_message_batch_def split: if_splits)
  qed
qed

section \<open>Revocation\<close>

lemma revoke_one_frame:
  "same_ledger s (revoke_one tp s)"
  "wm_queue_topology (revoke_one tp s) = snd (revoke tp (wm_queue_topology s))"
  "wm_completion_queue (revoke_one tp s) = wm_completion_queue s"
  "wm_uuids (revoke_one tp s) = wm_uuids s"
  "wm_max_in_flight_messages (revoke_one tp s) = wm_max_in_flight_messages s"
  "wm_route_batch_size (revoke_one tp s) = wm_route_batch_size s"
  "wm_offset_trackers (revoke_one tp s) = dict_pop tp (wm_offset_trackers s)"
  "wm_total_queued_messages (revoke_one tp s) =
     max 0 (wm_total_queued_messages s - fst (revoke tp (wm_queue_topology s)))"
  by (simp_all add: revoke_one_def same_ledger_def case_prod_beta)

lemma revoke_one_queue_inv:
  assumes inv: "queue_inv {} s" shows "queue_inv {} (revoke_one tp s)"
proof -
  note F = revoke_one_frame[where tp = tp and s = s] and I = queue_invD[OF inv]
  note tot = total_revoke[OF topo_invD(1)[OF I(1)], of tp]
  have t: "wm_total_queued_messages (revoke_one tp s) = int (total_queued (wm_queue_topology (revoke_one tp s)))"
    using tot I(2) F(2,8) by simp
  have topo: "topo_inv {} (wm_queue_topology (revoke_one tp s))"
    using topo_inv_revoke[OF I(1), of tp] F(2) by simp
  show ?thesis
    by (rule queue_invI[OF topo t])
      (use I(3-6) same_ledger_dispatched[OF F(1)] same_ledger_items[OF F(1)] F(2) in
        \<open>auto simp: queue_items_revoke split: if_splits\<close>)
qed

lemma revoke_fold:
  assumes "queue_inv {} s"
  defines "s' \<equiv> \<lambda>tps. fold revoke_one tps s"
  shows "queue_inv {} (s' tps) \<and> same_ledger s (s' tps) \<and>
    queue_items (wm_queue_topology (s' tps)) =
      (\<lambda>q. if fst q \<in> set tps then [] else queue_items (wm_queue_topology s) q) \<and>
    (\<forall>tp. assigned (wm_queue_topology (s' tps)) tp \<longleftrightarrow> tp \<notin> set tps \<and> assigned (wm_queue_topology s) tp) \<and>
    (\<forall>tp. dict_get (wm_offset_trackers (s' tps)) tp =
       (if tp \<in> set tps then None else dict_get (wm_offset_trackers s) tp)) \<and>
    wm_completion_queue (s' tps) = wm_completion_queue s \<and> wm_uuids (s' tps) = wm_uuids s \<and>
    wm_max_in_flight_messages (s' tps) = wm_max_in_flight_messages s \<and>
    wm_route_batch_size (s' tps) = wm_route_batch_size s"
proof (induction tps rule: rev_induct)
  case Nil
  then show ?case using assms by simp
next
  case (snoc tp tps)
  note F = revoke_one_frame[where tp = tp and s = "s' tps"]
  have step: "s' (tps @ [tp]) = revoke_one tp (s' tps)" by (simp add: s'_def)
  show ?case
    using snoc revoke_one_queue_inv[of "s' tps" tp] same_ledger_trans[OF _ F(1)]
    by (auto simp: step F queue_items_revoke assigned_revoke dict_simps fun_eq_iff)
qed

text \<open>Releasing the registered items of the revoked partitions.\<close>

definition stale_ids ::
  "topic_partition set \<Rightarrow> ('k, 'p, 's, 'c, 'e) work_manager \<Rightarrow> string list" where
  "stale_ids R s = [work_id. (work_id, item) \<leftarrow> wm_in_flight_work_items s, wi_tp item \<in> R]"

definition release_all ::
  "string list \<Rightarrow> ('k, 'p, 's, 'c, 'e) work_manager \<Rightarrow> ('k, 'p, 's, 'c, 'e) work_manager" where
  "release_all ids s = fold (\<lambda>work_id s. snd (release_in_flight_item work_id False s)) ids s"

lemma stale_ids_iff:
  "ledger_inv s \<Longrightarrow> i \<in> set (stale_ids R s) \<longleftrightarrow> (\<exists>w. item_of s i = Some w \<and> wi_tp w \<in> R)"
  using ledger_invD(1)[of s] by (force simp: stale_ids_def dict_in_set_iff[symmetric])

lemma release_all_spec:
  assumes "ledger_inv s" "queue_inv {} s"
    "\<And>i w. i \<in> set ids \<Longrightarrow> item_of s i = Some w \<Longrightarrow> \<not> queued s w"
  shows "ledger_inv (release_all ids s) \<and> queue_inv {} (release_all ids s) \<and>
    (\<forall>i. item_of (release_all ids s) i = (if i \<in> set ids then None else item_of s i)) \<and>
    dispatched (release_all ids s) = dispatched s - set ids \<and>
    queue_items (wm_queue_topology (release_all ids s)) = queue_items (wm_queue_topology s) \<and>
    assigned (wm_queue_topology (release_all ids s)) = assigned (wm_queue_topology s) \<and>
    wm_offset_trackers (release_all ids s) = wm_offset_trackers s \<and>
    wm_completion_queue (release_all ids s) = wm_completion_queue s \<and>
    wm_uuids (release_all ids s) = wm_uuids s \<and>
    wm_max_in_flight_messages (release_all ids s) = wm_max_in_flight_messages s \<and>
    wm_route_batch_size (release_all ids s) = wm_route_batch_size s \<and>
    wm_ordering_mode (release_all ids s) = wm_ordering_mode s"
  using assms
proof (induction ids arbitrary: s)
  case Nil
  then show ?case by (simp add: release_all_def)
next
  case (Cons i ids)
  let ?s = "snd (release_in_flight_item i False s)"
  have step: "release_all (i # ids) s = release_all ids ?s" by (simp add: release_all_def)
  have "ledger_inv ?s" by (rule ledger_inv_release[OF Cons.prems(1)])
  moreover have "queue_inv {} ?s" by (rule queue_inv_release[OF Cons.prems(2)]) (use Cons.prems(3)[of i] in auto)
  moreover have "\<not> queued ?s w" if "j \<in> set ids" "item_of ?s j = Some w" for j w
    using that Cons.prems(3)[of j w] by (auto simp: queued_release dict_simps split: if_splits)
  ultimately show ?case
    using Cons.IH[of ?s] unfolding step
    by (auto simp: release_topology dict_simps split: option.splits if_splits)
qed

lemma on_revoke_eq:
  "on_revoke tps s =
     (let s1 = fold revoke_one tps s;
          s2 = (if tps = [] then s1
                else
                  let a = release_all (stale_ids (set tps) s1) s1;
                      b = (case wm_ordering_mode a of
                             KEY_HASH \<Rightarrow> a\<lparr>wm_keys_in_flight := {key \<in> wm_keys_in_flight a. fst key \<notin> set tps}\<rparr>
                           | PARTITION \<Rightarrow> a\<lparr>wm_partitions_in_flight := wm_partitions_in_flight a - set tps\<rparr>
                           | UNORDERED \<Rightarrow> a)
                  in b\<lparr>wm_key_in_flight_counts := dict_filter (\<lambda>key. fst key \<notin> set tps) (wm_key_in_flight_counts b),
                       wm_partition_in_flight_counts :=
                         dict_filter (\<lambda>tp. tp \<notin> set tps) (wm_partition_in_flight_counts b)\<rparr>)
      in invalidate_blocking_cache (s2\<lparr>wm_rebalancing := True\<rparr>))"
  unfolding on_revoke_def stale_ids_def release_all_def Let_def by (rule refl)

text \<open>With no holders left in the revoked partitions, filtering the lock tables changes nothing.\<close>

lemma lock_ok_filter:
  assumes "lock_ok counts locked hold" "\<And>x. \<not> P x \<Longrightarrow> hold x = {}"
  shows "lock_ok (dict_filter P counts) {x \<in> locked. P x} hold"
  using assms unfolding lock_ok_def by (auto simp: dict_get_filter)

lemma on_revoke_released:
  assumes inv: "wm_inv V {} s" and tps: "tps \<noteq> []"
  defines "s1 \<equiv> fold revoke_one tps s"
  defines "a \<equiv> release_all (stale_ids (set tps) s1) s1"
  shows "ledger_inv a" "queue_inv {} a"
    "item_of a i = Some w \<longleftrightarrow> item_of s i = Some w \<and> wi_tp w \<notin> set tps"
    "queue_items (wm_queue_topology a) = (\<lambda>q. if fst q \<in> set tps then [] else queue_items (wm_queue_topology s) q)"
    "assigned (wm_queue_topology a) tp \<longleftrightarrow> tp \<notin> set tps \<and> assigned (wm_queue_topology s) tp"
    "dict_get (wm_offset_trackers a) tp = (if tp \<in> set tps then None else dict_get (wm_offset_trackers s) tp)"
    "wm_completion_queue a = wm_completion_queue s" "wm_uuids a = wm_uuids s"
    "wm_max_in_flight_messages a = wm_max_in_flight_messages s"
    "wm_route_batch_size a = wm_route_batch_size s" "dispatched a \<subseteq> dispatched s"
    "wm_ordering_mode a = wm_ordering_mode s"
proof -
  note R = revoke_fold[OF wm_invD(2)[OF inv], of tps, folded s1_def]
  have led: "same_ledger s s1" using R by simp
  have L1: "ledger_inv s1" by (rule same_ledger_inv[OF led wm_invD(1)[OF inv]])
  have nq: "\<not> queued s1 w" if "i \<in> set (stale_ids (set tps) s1)" "item_of s1 i = Some w" for i w
    using that R by (auto simp: stale_ids_iff[OF L1] queued_def)
  have A: "ledger_inv a \<and> queue_inv {} a \<and>
    (\<forall>i. item_of a i = (if i \<in> set (stale_ids (set tps) s1) then None else item_of s1 i)) \<and>
    dispatched a = dispatched s1 - set (stale_ids (set tps) s1) \<and>
    queue_items (wm_queue_topology a) = queue_items (wm_queue_topology s1) \<and>
    assigned (wm_queue_topology a) = assigned (wm_queue_topology s1) \<and>
    wm_offset_trackers a = wm_offset_trackers s1 \<and> wm_completion_queue a = wm_completion_queue s1 \<and>
    wm_uuids a = wm_uuids s1 \<and> wm_max_in_flight_messages a = wm_max_in_flight_messages s1 \<and>
    wm_route_batch_size a = wm_route_batch_size s1 \<and> wm_ordering_mode a = wm_ordering_mode s1"
    unfolding a_def by (rule release_all_spec[OF L1]) (use R nq in auto)
  show "ledger_inv a" "queue_inv {} a" using A by simp_all
  show "item_of a i = Some w \<longleftrightarrow> item_of s i = Some w \<and> wi_tp w \<notin> set tps"
    using A stale_ids_iff[OF L1, of i "set tps"] same_ledger_items[OF led] by auto
  show "dispatched a \<subseteq> dispatched s" using A same_ledger_dispatched[OF led] by auto
  show "wm_ordering_mode a = wm_ordering_mode s" using A led by (simp add: same_ledger_def)
  show "queue_items (wm_queue_topology a) =
      (\<lambda>q. if fst q \<in> set tps then [] else queue_items (wm_queue_topology s) q)"
    "assigned (wm_queue_topology a) tp \<longleftrightarrow> tp \<notin> set tps \<and> assigned (wm_queue_topology s) tp"
    "dict_get (wm_offset_trackers a) tp = (if tp \<in> set tps then None else dict_get (wm_offset_trackers s) tp)"
    "wm_completion_queue a = wm_completion_queue s" "wm_uuids a = wm_uuids s"
    "wm_max_in_flight_messages a = wm_max_in_flight_messages s"
    "wm_route_batch_size a = wm_route_batch_size s"
    using R A by simp_all
qed

text \<open>The final clean-up of the lock tables.\<close>

definition filter_locks ::
  "topic_partition set \<Rightarrow> ('k, 'p, 's, 'c, 'e) work_manager \<Rightarrow> ('k, 'p, 's, 'c, 'e) work_manager" where
  "filter_locks R a =
     (let b = (case wm_ordering_mode a of
                 KEY_HASH \<Rightarrow> a\<lparr>wm_keys_in_flight := {key \<in> wm_keys_in_flight a. fst key \<notin> R}\<rparr>
               | PARTITION \<Rightarrow> a\<lparr>wm_partitions_in_flight := wm_partitions_in_flight a - R\<rparr>
               | UNORDERED \<Rightarrow> a)
      in b\<lparr>wm_key_in_flight_counts := dict_filter (\<lambda>key. fst key \<notin> R) (wm_key_in_flight_counts b),
           wm_partition_in_flight_counts := dict_filter (\<lambda>tp. tp \<notin> R) (wm_partition_in_flight_counts b)\<rparr>)"

lemma filter_locks_fields [simp]:
  "wm_in_flight_work_items (filter_locks R a) = wm_in_flight_work_items a"
  "wm_dispatch_timestamps (filter_locks R a) = wm_dispatch_timestamps a"
  "wm_current_in_flight_count (filter_locks R a) = wm_current_in_flight_count a"
  "wm_ordering_mode (filter_locks R a) = wm_ordering_mode a"
  "wm_queue_topology (filter_locks R a) = wm_queue_topology a"
  "wm_total_queued_messages (filter_locks R a) = wm_total_queued_messages a"
  "wm_completion_queue (filter_locks R a) = wm_completion_queue a"
  "wm_offset_trackers (filter_locks R a) = wm_offset_trackers a"
  "wm_uuids (filter_locks R a) = wm_uuids a"
  "wm_max_in_flight_messages (filter_locks R a) = wm_max_in_flight_messages a"
  "wm_route_batch_size (filter_locks R a) = wm_route_batch_size a"
  "dispatched (filter_locks R a) = dispatched a"
  by (simp_all add: filter_locks_def Let_def dispatched_def split: ordering_mode.splits)

lemma filter_locks_ledger:
  assumes L: "ledger_inv a" and R: "\<And>i w. item_of a i = Some w \<Longrightarrow> wi_tp w \<notin> R"
  shows "ledger_inv (filter_locks R a)"
proof -
  note D = ledger_invD[OF L]
  have hold: "holders route_of (filter_locks R a) = holders route_of a" by (rule holders_cong) simp_all
  have hold_tp: "holders wi_tp (filter_locks R a) = holders wi_tp a" by (rule holders_cong) simp_all
  have key: "holders route_of a x = {}" if "\<not> fst x \<notin> R" for x
    using that R by (fastforce simp: holders_def)
  have part: "holders wi_tp a x = {}" if "\<not> x \<notin> R" for x
    using that R by (fastforce simp: holders_def)
  show ?thesis
  proof (rule ledger_invI)
    show "lock_ok (wm_key_in_flight_counts (filter_locks R a)) (wm_keys_in_flight (filter_locks R a))
        (holders route_of (filter_locks R a))" if m: "wm_ordering_mode (filter_locks R a) = KEY_HASH"
    proof -
      have mk: "wm_ordering_mode a = KEY_HASH" using m by simp
      have "lock_ok (dict_filter (\<lambda>x. fst x \<notin> R) (wm_key_in_flight_counts a))
          {x \<in> wm_keys_in_flight a. fst x \<notin> R} (holders route_of a)"
        by (rule lock_ok_filter[OF D(6)[OF mk] key])
      then show ?thesis unfolding hold using mk by (simp add: filter_locks_def Let_def)
    qed
    show "lock_ok (wm_partition_in_flight_counts (filter_locks R a)) (wm_partitions_in_flight (filter_locks R a))
        (holders wi_tp (filter_locks R a))" if m: "wm_ordering_mode (filter_locks R a) = PARTITION"
    proof -
      have mk: "wm_ordering_mode a = PARTITION" using m by simp
      have "lock_ok (dict_filter (\<lambda>x. x \<notin> R) (wm_partition_in_flight_counts a))
          {x \<in> wm_partitions_in_flight a. x \<notin> R} (holders wi_tp a)"
        by (rule lock_ok_filter[OF D(7)[OF mk] part])
      then show ?thesis unfolding hold_tp using mk by (simp add: filter_locks_def Let_def set_diff_eq)
    qed
    show "\<exists>w. item_of (filter_locks R a) i = Some w" if "i \<in> dispatched (filter_locks R a)" for i
      using D(3)[of i] that by simp
    show "wi_id w = i" if "item_of (filter_locks R a) i = Some w" for i w
      using D(4)[of i w] that by simp
  qed (use D(1,2,5) in simp_all)
qed

lemma on_revoke_inv:
  assumes inv: "wm_inv V {} s"
  shows "wm_inv V {} (on_revoke tps s)"
    "queue_items (wm_queue_topology (on_revoke tps s)) =
       (\<lambda>q. if fst q \<in> set tps then [] else queue_items (wm_queue_topology s) q)"
    "item_of (on_revoke tps s) i = Some w \<longleftrightarrow> item_of s i = Some w \<and> wi_tp w \<notin> set tps"
    "wm_max_in_flight_messages (on_revoke tps s) = wm_max_in_flight_messages s"
    "wm_route_batch_size (on_revoke tps s) = wm_route_batch_size s"
    "dispatched (on_revoke tps s) \<subseteq> dispatched s"
    "wm_ordering_mode (on_revoke tps s) = wm_ordering_mode s"
    "dict_get (wm_offset_trackers (on_revoke tps s)) tp =
       (if tp \<in> set tps then None else dict_get (wm_offset_trackers s) tp)"
proof -
  define a where "a = (if tps = [] then s else release_all (stale_ids (set tps) (fold revoke_one tps s)) (fold revoke_one tps s))"
  define f where "f = (if tps = [] then s else filter_locks (set tps) a)"
  have eq: "on_revoke tps s = f\<lparr>wm_rebalancing := True, wm_blocking_cache_counter := 0\<rparr>"
    by (simp add: on_revoke_eq f_def a_def filter_locks_def invalidate_blocking_cache_def Let_def)
  have A: "ledger_inv a" "queue_inv {} a" "item_of a i = Some w \<longleftrightarrow> item_of s i = Some w \<and> wi_tp w \<notin> set tps"
    "queue_items (wm_queue_topology a) = (\<lambda>q. if fst q \<in> set tps then [] else queue_items (wm_queue_topology s) q)"
    "assigned (wm_queue_topology a) tp \<longleftrightarrow> tp \<notin> set tps \<and> assigned (wm_queue_topology s) tp"
    "dict_get (wm_offset_trackers a) tp = (if tp \<in> set tps then None else dict_get (wm_offset_trackers s) tp)"
    "wm_completion_queue a = wm_completion_queue s" "wm_uuids a = wm_uuids s"
    "wm_max_in_flight_messages a = wm_max_in_flight_messages s"
    "wm_route_batch_size a = wm_route_batch_size s" "dispatched a \<subseteq> dispatched s"
    "wm_ordering_mode a = wm_ordering_mode s" for i w tp
    using on_revoke_released[OF inv, of tps] wm_invD[OF inv] by (cases "tps = []"; simp add: a_def)+
  have fa: "wm_in_flight_work_items f = wm_in_flight_work_items a" "wm_queue_topology f = wm_queue_topology a"
    "wm_total_queued_messages f = wm_total_queued_messages a" "wm_completion_queue f = wm_completion_queue a"
    "wm_offset_trackers f = wm_offset_trackers a" "wm_uuids f = wm_uuids a" "dispatched f = dispatched a"
    "wm_max_in_flight_messages f = wm_max_in_flight_messages a" "wm_route_batch_size f = wm_route_batch_size a"
    "wm_ordering_mode f = wm_ordering_mode a"
    by (simp_all add: f_def a_def)
  have "ledger_inv f"
    using filter_locks_ledger[OF A(1), of "set tps"] A(3) wm_invD(1)[OF inv] by (simp add: f_def)
  moreover have "queue_inv {} f" using A(2) by (simp add: queue_inv_def fa)
  moreover have "managed_inv V f"
  proof (rule managed_invI)
    note M = managed_invD[OF wm_invD(3)[OF inv]]
    show "assigned (wm_queue_topology f) tp \<longleftrightarrow> dict_get (wm_offset_trackers f) tp \<noteq> None" for tp
      using M(1)[of tp] A(5,6)[of tp] by (auto simp: fa)
    show "assigned (wm_queue_topology f) (wi_tp w)" if "item_of f i = Some w" for i w
      using that M(2)[of i w] A(3)[of i w] A(5)[of "wi_tp w"] by (simp add: fa)
    show "i \<in> env_uuid V ` {..<wm_uuids f}" if "item_of f i = Some w" for i w
      using that M(4)[of i w] A(3)[of i w] A(8) by (simp add: fa)
    show "event_ok V f ev" if "ev \<in> set (wm_completion_queue f)" for ev
      by (rule event_ok_mono[OF M(3)[of ev]])
        (use that A(3,4,7,8) in \<open>auto simp: fa queued_def split: if_splits\<close>)
  qed
  ultimately have f: "wm_inv V {} f" by (simp add: wm_inv_def)
  show "wm_inv V {} (on_revoke tps s)"
    unfolding eq by (rule wm_inv_frame[OF f]) (simp_all add: same_ledger_def)
  show "queue_items (wm_queue_topology (on_revoke tps s)) =
       (\<lambda>q. if fst q \<in> set tps then [] else queue_items (wm_queue_topology s) q)"
    "item_of (on_revoke tps s) i = Some w \<longleftrightarrow> item_of s i = Some w \<and> wi_tp w \<notin> set tps"
    "wm_max_in_flight_messages (on_revoke tps s) = wm_max_in_flight_messages s"
    "wm_route_batch_size (on_revoke tps s) = wm_route_batch_size s"
    "wm_ordering_mode (on_revoke tps s) = wm_ordering_mode s"
    "dict_get (wm_offset_trackers (on_revoke tps s)) tp =
       (if tp \<in> set tps then None else dict_get (wm_offset_trackers s) tp)"
    by (simp_all add: eq fa A)
  have "dispatched (on_revoke tps s) = dispatched f" by (simp add: eq dispatched_def)
  then show "dispatched (on_revoke tps s) \<subseteq> dispatched s" using A(11) fa(7) by simp
qed

section \<open>Reachable states\<close>

text \<open>Fuel only matters until a loop returns.\<close>

lemma schedule_loop_mono:
  "schedule_loop fuel V bs K s = Some x \<Longrightarrow> fuel \<le> fuel' \<Longrightarrow> schedule_loop fuel' V bs K s = Some x"
proof (induction fuel arbitrary: fuel' K s)
  case (Suc fuel)
  then show ?case by (cases fuel') (auto split: prod.splits step_result.splits)
qed simp

lemma schedule_mono: "schedule fuel V s = Some x \<Longrightarrow> fuel \<le> fuel' \<Longrightarrow> schedule fuel' V s = Some x"
  using schedule_loop_mono[of fuel V "fst (schedule_blocking V s)" "{}" "snd (schedule_blocking V s)" _ fuel']
  by (cases "schedule_loop fuel V (fst (schedule_blocking V s)) {} (snd (schedule_blocking V s))")
    (simp_all add: schedule_def case_prod_beta)

lemma poll_loop_mono:
  "poll_loop rounds fuel V after cs s = Some x \<Longrightarrow> rounds \<le> rounds' \<Longrightarrow> fuel \<le> fuel'
   \<Longrightarrow> poll_loop rounds' fuel' V after cs s = Some x"
proof (induction rounds arbitrary: rounds' cs s)
  case (Suc rounds)
  obtain r where r: "rounds' = Suc r" "rounds \<le> r" using Suc.prems(2) by (cases rounds') auto
  obtain evs b s1 where d: "drain_completion_queue V s = (evs, b, s1)" by (metis prod_cases3)
  show ?case
  proof (cases "\<not> after \<or> \<not> b")
    case True
    then show ?thesis using Suc.prems(1) d r by auto
  next
    case False
    then obtain y s2 where sch: "schedule fuel V s1 = Some (y, s2)"
      using Suc.prems(1) d by (cases "schedule fuel V s1") (auto simp: Let_def)
    have sch': "schedule fuel' V s1 = Some (y, s2)" by (rule schedule_mono[OF sch Suc.prems(3)])
    show ?thesis
      using Suc.prems d r False sch sch' Suc.IH[where rounds' = r]
      by (cases y) (auto simp: Let_def split: if_splits)
  qed
qed simp

text \<open>
  What the environment promises: \<open>uuid4\<close> does not repeat, iterating over a set yields its
  elements, and a partial acceptance of the engine names a prefix of the batch.
\<close>

definition env_ok :: "('k, 'p, 's, 'c, 'e) wm_env \<Rightarrow> bool" where
  "env_ok V \<longleftrightarrow> inj (env_uuid V) \<and> set_enumeration V \<and> engine_contract (env_engine V)"

text \<open>
  Runs of the work manager: any sequence of its methods, and of updates of shared trackers by
  the poller. \<open>m\<close> is the largest in-flight limit in force so far. The broker assigns only
  partitions that are not assigned; the engine reports only work it was given, and
  \<open>force_fail\<close> is called for work that left its queue.
\<close>

inductive wm_run ::
  "('k, 'p, 's, 'c, 'e) wm_env \<Rightarrow> int \<Rightarrow> ('k, 'p, 's, 'c, 'e) work_manager \<Rightarrow> bool"
  for V :: "('k, 'p, 's, 'c, 'e) wm_env" where
  run_init: "work_manager_init e m mode ttl grace poison b = Inr s \<Longrightarrow> 0 \<le> m \<Longrightarrow> wm_run V m s"
| run_assign: "wm_run V m s \<Longrightarrow> dict_wf as
    \<Longrightarrow> (\<And>tp. dict_has as tp \<Longrightarrow> \<not> assigned (wm_queue_topology s) tp)
    \<Longrightarrow> wm_run V m (on_assign V as s)"
| run_revoke: "wm_run V m s \<Longrightarrow> wm_run V m (on_revoke tps s)"
| run_submit: "wm_run V m s \<Longrightarrow> submit_message_batch V gs s = (r, s') \<Longrightarrow> wm_run V m s'"
| run_schedule: "wm_run V m s \<Longrightarrow> schedule fuel V s = Some (res, s') \<Longrightarrow> wm_run V m s'"
| run_poll: "wm_run V m s
    \<Longrightarrow> (\<And>ev. ev \<in> set (fst (eng_poll_completed_events (env_engine V) (wm_execution_engine s)))
          \<Longrightarrow> event_ok V s ev)
    \<Longrightarrow> poll_completed_events rounds fuel V after s = Some (out, s') \<Longrightarrow> wm_run V m s'"
| run_force_fail: "wm_run V m s \<Longrightarrow> force_fail tp offset epoch err attempt s = (ok, s')
    \<Longrightarrow> (\<And>ev. ev \<in> set (wm_completion_queue s') \<Longrightarrow> event_ok V s ev) \<Longrightarrow> wm_run V m s'"
| run_set_max: "wm_run V m s \<Longrightarrow> set_max_in_flight_messages v s = (r, s') \<Longrightarrow> wm_run V (max m v) s'"
| run_poller: "wm_run V m s \<Longrightarrow> dict_get (wm_offset_trackers s) tp = Some t
    \<Longrightarrow> tp \<in> wm_shared_offset_trackers s
    \<Longrightarrow> wm_run V m (s\<lparr>wm_offset_trackers := dict_set tp t' (wm_offset_trackers s)\<rparr>)"
| run_gaps: "wm_run V m s \<Longrightarrow> wm_run V m (snd (wm_get_gaps V s))"
| run_rate: "wm_run V m s \<Longrightarrow> wm_run V m (snd (get_recent_completion_rate_per_second now s))"
| run_open_circuits: "wm_run V m s \<Longrightarrow> wm_run V m (snd (get_poison_message_open_circuit_count V s))"

definition wm_good :: "('k, 'p, 's, 'c, 'e) wm_env \<Rightarrow> int \<Rightarrow> ('k, 'p, 's, 'c, 'e) work_manager \<Rightarrow> bool" where
  "wm_good V m s \<longleftrightarrow>
     wm_inv V {} s \<and> 1 \<le> wm_route_batch_size s \<and> exclusive V s \<and>
     wm_current_in_flight_count s \<le> m \<and> wm_max_in_flight_messages s \<le> m"

lemma wm_goodD:
  assumes "wm_good V m s"
  shows "wm_inv V {} s" "1 \<le> wm_route_batch_size s" "exclusive V s"
    "wm_current_in_flight_count s \<le> m" "wm_max_in_flight_messages s \<le> m"
  using assms by (simp_all add: wm_good_def)

text \<open>Changes outside the ledger, the queues and the settings.\<close>

lemma wm_good_frame:
  assumes "wm_good V m s" "same_ledger s s'" "wm_queue_topology s' = wm_queue_topology s"
    "wm_total_queued_messages s' = wm_total_queued_messages s"
    "wm_completion_queue s' = wm_completion_queue s"
    "\<And>tp. dict_get (wm_offset_trackers s') tp = None \<longleftrightarrow> dict_get (wm_offset_trackers s) tp = None"
    "wm_uuids s' = wm_uuids s" "wm_route_batch_size s' = wm_route_batch_size s"
    "wm_max_in_flight_messages s' \<le> m'" "m \<le> m'"
  shows "wm_good V m' s'"
proof -
  have "wm_inv V {} s'" by (rule wm_inv_frame[OF wm_goodD(1)[OF assms(1)] assms(2)]) (use assms in auto)
  moreover have "exclusive V s'" using exclusive_same[OF assms(2)] wm_goodD(3)[OF assms(1)] by simp
  ultimately show ?thesis using assms by (simp add: wm_good_def same_ledger_def)
qed

lemma init_good:
  assumes "work_manager_init e m mode ttl grace poison b = Inr s" "0 \<le> m"
  shows "wm_good V m s"
proof -
  have s: "1 \<le> b" "wm_route_batch_size s = b" "wm_in_flight_work_items s = []" "wm_dispatch_timestamps s = []"
    "wm_queue_topology s = topology_init" "wm_completion_queue s = []" "wm_offset_trackers s = []"
    "wm_total_queued_messages s = 0" "wm_current_in_flight_count s = 0" "wm_max_in_flight_messages s = m"
    "wm_key_in_flight_counts s = []" "wm_keys_in_flight s = {}"
    "wm_partition_in_flight_counts s = []" "wm_partitions_in_flight s = {}"
    using assms(1) by (auto simp: work_manager_init_def split: if_splits)
  have d: "dispatched s = {}" by (simp add: dispatched_def s)
  have h: "holders f s x = {}" for f :: "('a, 'b) work_item \<Rightarrow> 'z" and x by (simp add: holders_def d)
  have q: "queue_items topology_init = (\<lambda>q. [])" by (simp add: fun_eq_iff queue_items_def get_queue_def topology_init_def)
  have tq: "total_queued (topology_init :: ('a, 'b) topology) = 0" by (simp add: total_queued_def topology_init_def)
  have "ledger_inv s" by (rule ledger_invI) (simp_all add: s d h lock_ok_def dict_wf_def)
  moreover have "queue_inv {} s"
    by (rule queue_invI) (simp_all add: s q tq)
  moreover have "managed_inv V s"
    by (rule managed_invI) (simp_all add: s assigned_def topology_init_def dict_has_def)
  ultimately show ?thesis using s assms(2) by (simp add: wm_good_def wm_inv_def exclusive_def h)
qed


section \<open>The invariant of runs\<close>

lemma force_fail_frame:
  assumes "force_fail tp offset epoch err attempt s = (ok, s')"
  shows "same_ledger s s'" "wm_queue_topology s' = wm_queue_topology s"
    "wm_total_queued_messages s' = wm_total_queued_messages s"
    "wm_offset_trackers s' = wm_offset_trackers s" "wm_uuids s' = wm_uuids s"
    "wm_route_batch_size s' = wm_route_batch_size s"
    "wm_max_in_flight_messages s' = wm_max_in_flight_messages s"
  using assms by (auto simp: force_fail_def same_ledger_def Let_def split: option.splits)

lemma force_fail_good:
  assumes good: "wm_good V m s" and ff: "force_fail tp offset epoch err attempt s = (ok, s')"
    and ev: "\<And>ev. ev \<in> set (wm_completion_queue s') \<Longrightarrow> event_ok V s ev"
  shows "wm_good V m s'"
proof -
  note F = force_fail_frame[OF ff]
  let ?c = "s\<lparr>wm_completion_queue := wm_completion_queue s'\<rparr>"
  have "wm_inv V {} ?c" by (rule wm_inv_completion_queue[OF wm_goodD(1)[OF good] ev])
  then have "wm_good V m ?c"
    using good exclusive_same[of s ?c V] by (simp add: wm_good_def same_ledger_def)
  then show ?thesis
    by (rule wm_good_frame) (use F wm_goodD(5)[OF good] in \<open>simp_all add: same_ledger_def\<close>)
qed

lemma schedule_good:
  assumes env: "env_ok V" and good: "wm_good V m s" and sch: "schedule fuel V s = Some (res, s')"
  shows "wm_good V m s' \<and> schedule_spec V s s'"
proof -
  define n where "n = max fuel (Suc (nat (wm_total_queued_messages s)))"
  have n: "wm_total_queued_messages s < int n" by (simp add: n_def)
  note G = wm_goodD[OF good]
  obtain s2 where t: "schedule n V s = Some (Inr (), s2)" "schedule_spec V s s2"
    using schedule_terminates[OF G(1,2) _ n] env by (auto simp: env_ok_def)
  have "schedule n V s = Some (res, s')" by (rule schedule_mono[OF sch]) (simp add: n_def)
  then have spec: "schedule_spec V s s'" using t by simp
  note S = spec[unfolded schedule_spec_def]
  have "wm_route_batch_size s' = wm_route_batch_size s" "wm_max_in_flight_messages s' = wm_max_in_flight_messages s"
    using S schedule_blocking_frame[where V = V and s = s] by (simp_all add: progressed_def)
  then have "wm_good V m s'" using S G env by (auto simp: wm_good_def env_ok_def)
  then show ?thesis using spec by simp
qed

text \<open>The state in which polling enters its loop.\<close>

definition polled ::
  "('k, 'p, 's, 'c, 'e) wm_env \<Rightarrow> ('k, 'p, 's, 'c, 'e) work_manager \<Rightarrow> ('k, 'p, 's, 'c, 'e) work_manager" where
  "polled V s =
     (let r = eng_poll_completed_events (env_engine V) (wm_execution_engine s)
      in s\<lparr>wm_execution_engine := snd r, wm_completion_queue := wm_completion_queue s @ fst r\<rparr>)"

lemma polled_good:
  assumes good: "wm_good V m s"
    and ev: "\<And>ev. ev \<in> set (fst (eng_poll_completed_events (env_engine V) (wm_execution_engine s))) \<Longrightarrow> event_ok V s ev"
  shows "wm_good V m (polled V s)"
proof -
  let ?r = "eng_poll_completed_events (env_engine V) (wm_execution_engine s)"
  let ?c = "s\<lparr>wm_completion_queue := wm_completion_queue s @ fst ?r\<rparr>"
  have "wm_inv V {} ?c"
  proof (rule wm_inv_completion_queue[OF wm_goodD(1)[OF good]])
    show "event_ok V s e" if "e \<in> set (wm_completion_queue s @ fst ?r)" for e
      using that ev[of e] managed_invD(3)[OF wm_invD(3)[OF wm_goodD(1)[OF good]], of e] by auto
  qed
  then have "wm_good V m ?c"
    using good exclusive_same[of s ?c V] by (simp add: wm_good_def same_ledger_def)
  then show ?thesis
    by (rule wm_good_frame) (use wm_goodD(5)[OF good] in \<open>simp_all add: same_ledger_def polled_def Let_def\<close>)
qed

lemma poll_good:
  assumes env: "env_ok V" and good: "wm_good V m s"
    and poll: "poll_loop rounds fuel V after cs s = Some (out, s')"
  shows "wm_good V m s'"
proof -
  define n where "n = Suc (nat (wm_total_queued_messages s))"
  have n: "wm_total_queued_messages s < int (max k n)" for k by (simp add: n_def)
  note G = wm_goodD[OF good]
  obtain evs s2 where t: "poll_loop (max rounds n) (max fuel n) V after cs s =
      Some (Inr (cs @ wm_completion_queue s @ evs), s2)" "poll_spec V s s2"
    using poll_loop_terminates[OF G(1,2) _ n n, of rounds fuel after cs] env by (auto simp: env_ok_def)
  have "poll_loop (max rounds n) (max fuel n) V after cs s = Some (out, s')"
    by (rule poll_loop_mono[OF poll]) simp_all
  then have "poll_spec V s s'" using t by simp
  then show ?thesis using G env by (auto simp: wm_good_def env_ok_def poll_spec_def)
qed

lemma on_assign_settings:
  "wm_max_in_flight_messages (fold (assign_one V) as s) = wm_max_in_flight_messages s \<and>
   wm_route_batch_size (fold (assign_one V) as s) = wm_route_batch_size s \<and>
   same_ledger s (fold (assign_one V) as s)"
proof (induction as arbitrary: s)
  case (Cons a as)
  have "wm_max_in_flight_messages (assign_one V a s) = wm_max_in_flight_messages s"
    "wm_route_batch_size (assign_one V a s) = wm_route_batch_size s"
    by (auto simp: assign_one_def Let_def split: prod.splits assignment.splits)
  moreover have "same_ledger s (assign_one V a s)" using assign_one_frame(1)[of s V "fst a" "snd a"] by simp
  ultimately show ?case using Cons.IH[of "assign_one V a s"] same_ledger_trans[of s "assign_one V a s"] by simp
qed simp

lemma on_assign_good:
  assumes "wm_good V m s" "dict_wf as" "\<And>tp. dict_has as tp \<Longrightarrow> \<not> assigned (wm_queue_topology s) tp"
  shows "wm_good V m (on_assign V as s)"
proof -
  let ?f = "fold (assign_one V) as s"
  have "wm_inv V {} ?f" by (rule assign_fold_inv[OF wm_goodD(1)[OF assms(1)] assms(2,3)])
  then have "wm_good V m ?f"
    using assms(1) on_assign_settings[of V as s] exclusive_same[of s ?f V] by (auto simp: wm_good_def same_ledger_def)
  then show ?thesis
    by (rule wm_good_frame)
      (use on_assign_settings[of V as s] wm_goodD(5)[OF assms(1)] in
        \<open>simp_all add: on_assign_def invalidate_blocking_cache_def same_ledger_def\<close>)
qed

lemma on_revoke_good: "wm_good V m s \<Longrightarrow> wm_good V m (on_revoke tps s)"
proof -
  assume good: "wm_good V m s"
  note G = wm_goodD[OF good]
  note R = on_revoke_inv[OF G(1), of tps]
  have "exclusive V (on_revoke tps s)" by (rule exclusive_shrink[OF G(3) R(6)]) (use R(3,7) in simp_all)
  moreover have "wm_current_in_flight_count (on_revoke tps s) \<le> wm_current_in_flight_count s"
    by (rule inv_count_mono[OF G(1) R(1,6)])
  ultimately show ?thesis using R(1,4,5) G by (simp add: wm_good_def)
qed

lemma submit_good:
  assumes "env_ok V" "wm_good V m s" "submit_message_batch V gs s = (r, s')"
  shows "wm_good V m s'"
proof -
  have S: "wm_inv V {} s' \<and> undisturbed s s'"
    using submit_inv[OF wm_goodD(1)[OF assms(2)] _ assms(3)] assms(1) by (simp add: env_ok_def)
  then show ?thesis
    using wm_goodD[OF assms(2)] exclusive_undisturbed[OF wm_goodD(1)[OF assms(2)], of s']
    by (simp add: wm_good_def undisturbed_def)
qed

lemma wm_get_gaps_trackers:
  "dict_get (wm_offset_trackers (snd (wm_get_gaps V s))) tp = None \<longleftrightarrow> dict_get (wm_offset_trackers s) tp = None"
proof -
  have "map fst (wm_offset_trackers (snd (wm_get_gaps V s))) = map fst (wm_offset_trackers s)"
    by (rule nth_equalityI) (auto simp: wm_get_gaps_def Let_def case_prod_beta nth_enumerate_eq)
  then show ?thesis by (metis list.set_map map_of_eq_None_iff)
qed

theorem wm_run_good: "wm_run V m s \<Longrightarrow> env_ok V \<Longrightarrow> wm_good V m s"
proof (induction rule: wm_run.induct)
  case (run_init e m mode ttl grace poison b s)
  then show ?case by (intro init_good)
next
  case (run_assign m s as)
  then show ?case by (intro on_assign_good) simp_all
next
  case (run_revoke m s tps)
  then show ?case by (intro on_revoke_good)
next
  case (run_submit m s gs r s')
  show ?case by (rule submit_good[OF run_submit.prems run_submit.IH[OF run_submit.prems] run_submit.hyps(2)])
next
  case (run_schedule m s fuel res s')
  show ?case
    using schedule_good[OF run_schedule.prems run_schedule.IH[OF run_schedule.prems] run_schedule.hyps(2)] by simp
next
  case (run_force_fail m s tp offset epoch err attempt ok s')
  show ?case
    by (rule force_fail_good[OF run_force_fail.IH[OF run_force_fail.prems] run_force_fail.hyps(2,3)])
next
  case (run_poll m s rounds fuel after out s')
  have "poll_loop rounds fuel V after [] (polled V s) = Some (out, s')"
    using run_poll.hyps(3) by (simp add: poll_completed_events_def polled_def Let_def case_prod_beta)
  moreover have "wm_good V m (polled V s)"
    by (rule polled_good[OF run_poll.IH[OF run_poll.prems]]) (rule run_poll.hyps(2))
  ultimately show ?case using poll_good[OF run_poll.prems] by metis
next
  case (run_set_max m s v r s')
  have good: "wm_good V m s" using run_set_max by simp
  show ?case
    by (rule wm_good_frame[OF good])
      (use run_set_max.hyps(2) wm_goodD(5)[OF good] in
        \<open>auto simp: set_max_in_flight_messages_def same_ledger_def split: if_splits\<close>)
next
  case (run_poller m s tp t t')
  have good: "wm_good V m s" using run_poller by simp
  show ?case
    by (rule wm_good_frame[OF good])
      (use run_poller.hyps(2) wm_goodD(5)[OF good] in \<open>auto simp: same_ledger_def dict_simps\<close>)
next
  case (run_gaps m s)
  have good: "wm_good V m s" using run_gaps by simp
  show ?case
    by (rule wm_good_frame[OF good])
      (use wm_get_gaps_trackers[of V s] wm_goodD(5)[OF good] in \<open>simp_all add: wm_get_gaps_def Let_def same_ledger_def\<close>)
next
  case (run_rate m s now)
  have good: "wm_good V m s" using run_rate by simp
  show ?case
    by (rule wm_good_frame[OF good])
      (use wm_goodD(5)[OF good] in \<open>simp_all add: get_recent_completion_rate_per_second_def
        prune_completion_timestamps_def Let_def same_ledger_def\<close>)
next
  case (run_open_circuits m s)
  have good: "wm_good V m s" using run_open_circuits by simp
  show ?case
    by (rule wm_good_frame[OF good])
      (use wm_goodD(5)[OF good] in \<open>simp_all add: get_poison_message_open_circuit_count_def read_clock_def
        Let_def case_prod_beta same_ledger_def split: option.splits\<close>)
qed

section \<open>A concrete run\<close>

text \<open>
  An engine that accepts everything and reports every item it holds as completed, with the
  sorted order for sets of keys. The run assigns a partition, submits three messages under two
  keys and schedules.
\<close>

definition demo_completion :: "(nat, nat) work_item \<Rightarrow> completion_event" where
  "demo_completion w =
     \<lparr>ce_id = wi_id w, ce_tp = wi_tp w, ce_offset = wi_offset w, ce_epoch = wi_epoch w,
      ce_status = SUCCESS, ce_error = None, ce_attempt = 1\<rparr>"

definition demo_engine :: "((nat, nat) work_item, (nat, nat) work_item list) engine_ops" where
  "demo_engine =
     \<lparr>eng_supports_ordered_route_batch = False,
      eng_submit = (\<lambda>w e. (Accepted, e @ [w])),
      eng_submit_batch = default_submit_batch (\<lambda>w e. (Accepted, e @ [w])) 0,
      eng_poll_completed_events = (\<lambda>e. (map demo_completion e, []))\<rparr>"

type_synonym demo_env_type =
  "(nat, nat, int list, (gap_key \<times> offset_range list) option, (nat, nat) work_item list) wm_env"

type_synonym demo_manager =
  "(nat, nat, int list, (gap_key \<times> offset_range list) option, (nat, nat) work_item list) work_manager"

definition demo_env :: demo_env_type where
  "demo_env =
     \<lparr>env_containers = list_containers, env_engine = demo_engine, env_clock = (\<lambda>n. real n),
      env_uuid = (\<lambda>n. replicate n (CHR ''x'')), env_set_order = sorted_list_of_set\<rparr>"

definition demo_tp :: topic_partition where
  "demo_tp = TopicPartition ''t'' 0"

definition demo_initial :: "ordering_mode \<Rightarrow> demo_manager" where
  "demo_initial mode =
     (case work_manager_init [] 2 mode 100 500 None 1 of Inr s \<Rightarrow> s)"

definition demo_assigned :: "ordering_mode \<Rightarrow> demo_manager" where
  "demo_assigned mode = on_assign demo_env [(demo_tp, StartingOffset 0)] (demo_initial mode)"

definition demo_groups :: "(nat, nat) grouped_messages" where
  "demo_groups =
     [((demo_tp, 1), [Message 0 0 10, Message 2 0 12]), ((demo_tp, 2), [Message 1 0 11])]"

definition demo_submitted :: "ordering_mode \<Rightarrow> demo_manager" where
  "demo_submitted mode = snd (submit_message_batch demo_env demo_groups (demo_assigned mode))"

definition demo_scheduled :: "ordering_mode \<Rightarrow> demo_manager" where
  "demo_scheduled mode = snd (the (schedule 4 demo_env (demo_submitted mode)))"

lemma demo_env_ok: "env_ok demo_env"
proof -
  have "inj (env_uuid demo_env)"
    by (rule injI) (metis demo_env_def length_replicate wm_env.select_convs(4))
  moreover have "set_enumeration demo_env"
    by (simp add: set_enumeration_def demo_env_def)
  moreover have "batch_engine (eng_submit_batch demo_engine)"
    unfolding demo_engine_def engine_ops.select_convs by (rule default_batch.batch_engine_axioms)
  ultimately show ?thesis
    by (simp add: env_ok_def engine_contract_def demo_env_def demo_engine_def)
qed

lemma demo_initial_init: "work_manager_init [] 2 mode 100 500 None 1 = Inr (demo_initial mode)"
  by (simp add: demo_initial_def work_manager_init_def)

lemma demo_run_assigned: "wm_run demo_env 2 (demo_assigned mode)"
  unfolding demo_assigned_def
  by (rule run_assign[OF run_init[OF demo_initial_init]])
    (simp_all add: dict_wf_def assigned_def demo_initial_def work_manager_init_def topology_init_def dict_has_def)

lemma demo_run_submitted: "wm_run demo_env 2 (demo_submitted mode)"
  using run_submit[OF demo_run_assigned] unfolding demo_submitted_def by (metis prod.collapse)

lemma demo_schedule_key: "schedule 4 demo_env (demo_submitted KEY_HASH) = Some (Inr (), demo_scheduled KEY_HASH)"
  by code_simp

lemma demo_run_scheduled: "wm_run demo_env 2 (demo_scheduled KEY_HASH)"
  by (rule run_schedule[OF demo_run_submitted demo_schedule_key])

section \<open>Accounting\<close>

lemma run_registered:
  assumes "wm_run V m s" "env_ok V" "i \<in> dispatched s"
  shows "\<exists>w. item_of s i = Some w \<and> wi_id w = i"
  using ledger_invD(3,4)[OF wm_invD(1)[OF wm_goodD(1)[OF wm_run_good[OF assms(1,2)]]], of i] assms(3) by auto



section \<open>Ordering\<close>

lemma card_holders_eq:
  assumes "card (holders f s x) \<le> 1" "i \<in> holders f s x" "j \<in> holders f s x" shows "i = j"
proof -
  have "finite (holders f s x)"
    by (rule finite_subset[OF _ finite_dispatched[of s]]) (auto simp: holders_def)
  then show ?thesis using assms card_le_Suc0_iff_eq[of "holders f s x"] by auto
qed

text \<open>
  C13. Ordering guarantee: with an engine that does not order routes itself, two different items
  in flight never share a key in \<open>KEY_HASH\<close> mode; in \<open>PARTITION\<close> mode they never share a
  partition.
\<close>

theorem ordering_exclusive:
  assumes "wm_run V m s" "env_ok V"
    and "i \<in> dispatched s" "j \<in> dispatched s" "i \<noteq> j" "item_of s i = Some v" "item_of s j = Some w"
  shows "(wm_ordering_mode s = KEY_HASH \<and> \<not> eng_supports_ordered_route_batch (env_engine V) \<longrightarrow>
      (wi_tp v, wi_key v) \<noteq> (wi_tp w, wi_key w)) \<and>
    (wm_ordering_mode s = PARTITION \<longrightarrow> wi_tp v \<noteq> wi_tp w)"
proof -
  note ex = wm_goodD(3)[OF wm_run_good[OF assms(1,2)], unfolded exclusive_def]
  have key: "i \<in> holders route_of s (route_of v)" "j \<in> holders route_of s (route_of w)"
    using assms by (simp_all add: holders_def)
  have part: "i \<in> holders wi_tp s (wi_tp v)" "j \<in> holders wi_tp s (wi_tp w)"
    using assms by (simp_all add: holders_def)
  have "route_of v \<noteq> route_of w" if "\<forall>x. card (holders route_of s x) \<le> 1"
    using card_holders_eq[OF that[rule_format] key(1), of j] key(2) assms(5) by auto
  moreover have "wi_tp v \<noteq> wi_tp w" if "\<forall>x. card (holders wi_tp s x) \<le> 1"
    using card_holders_eq[OF that[rule_format] part(1), of j] part(2) assms(5) by auto
  ultimately show ?thesis using ex by metis
qed

theorem ordering_exclusive_witness:
  "\<exists>v w. item_of (demo_scheduled KEY_HASH) [] = Some v \<and> item_of (demo_scheduled KEY_HASH) ''xx'' = Some w \<and>
     (wi_tp v, wi_key v) \<noteq> (wi_tp w, wi_key w)"
proof -
  let ?s = "demo_scheduled KEY_HASH"
  have d: "[] \<in> dispatched ?s" "''xx'' \<in> dispatched ?s" unfolding dispatched_def by code_simp+
  obtain v w where vw: "item_of ?s [] = Some v" "item_of ?s ''xx'' = Some w"
    using run_registered[OF demo_run_scheduled demo_env_ok] d by blast
  have "wm_ordering_mode ?s = KEY_HASH" "\<not> eng_supports_ordered_route_batch (env_engine demo_env)"
    by code_simp+
  then show ?thesis
    using ordering_exclusive[OF demo_run_scheduled demo_env_ok d _ vw] vw by simp
qed

lemma lock_held:
  assumes "lock_ok counts locked (holders f s)"
  shows "x \<in> locked \<longleftrightarrow> (\<exists>i \<in> dispatched s. \<exists>w. item_of s i = Some w \<and> f w = x)"
  using assms unfolding lock_ok_def holders_def by blast

text \<open>
  A queue may be picked by the scheduler exactly when its ordering lock is free: no item of
  its key (\<open>KEY_HASH\<close>) or of its partition (\<open>PARTITION\<close>) is in flight. Locks are neither leaked
  nor dropped.
\<close>

theorem eligible_iff_unlocked:
  assumes "wm_run V m s" "env_ok V"
  shows "is_queue_eligible s q \<longleftrightarrow>
    (case wm_ordering_mode s of
       KEY_HASH \<Rightarrow> \<not> (\<exists>i \<in> dispatched s. \<exists>w. item_of s i = Some w \<and> (wi_tp w, wi_key w) = q)
     | PARTITION \<Rightarrow> \<not> (\<exists>i \<in> dispatched s. \<exists>w. item_of s i = Some w \<and> wi_tp w = fst q)
     | UNORDERED \<Rightarrow> True)"
proof -
  note L = ledger_invD[OF wm_invD(1)[OF wm_goodD(1)[OF wm_run_good[OF assms]]]]
  show ?thesis
    using lock_held[OF L(6), of q] lock_held[OF L(7), of "fst q"]
    by (cases "wm_ordering_mode s") (simp_all add: is_queue_eligible_def)
qed

theorem eligible_iff_unlocked_witness:
  "\<not> is_queue_eligible (demo_scheduled KEY_HASH) (demo_tp, 1) \<and>
   (\<exists>i \<in> dispatched (demo_scheduled KEY_HASH). \<exists>w. item_of (demo_scheduled KEY_HASH) i = Some w \<and>
      (wi_tp w, wi_key w) = (demo_tp, 1))"
proof -
  have "\<not> is_queue_eligible (demo_scheduled KEY_HASH) (demo_tp, 1)"
    "wm_ordering_mode (demo_scheduled KEY_HASH) = KEY_HASH" by code_simp+
  then show ?thesis
    using eligible_iff_unlocked[OF demo_run_scheduled demo_env_ok, of "(demo_tp, 1)"] by (simp only: ordering_mode.case) blast
qed

text \<open>
  C14. The number of items in flight never exceeds the largest limit that was in force, whatever
  the engine accepts or rejects and however the limit moves.
\<close>

theorem in_flight_bounded:
  assumes "wm_run V m s" "env_ok V"
  shows "0 \<le> get_total_in_flight_count s \<and> get_total_in_flight_count s \<le> m"
  using wm_goodD(1,4)[OF wm_run_good[OF assms]] ledger_invD(5)[OF wm_invD(1)]
  by (fastforce simp: get_total_in_flight_count_def)

theorem in_flight_bounded_witness:
  "get_total_in_flight_count (demo_scheduled KEY_HASH) \<le> 2"
  using in_flight_bounded[OF demo_run_scheduled demo_env_ok] by simp

end
