(* ===== verification/Work_Properties.thy ===== *)
theory Work_Properties
  imports Work_Lifecycle
begin

text \<open>
  Properties of the work manager's operations in reachable states: scheduling and polling end
  and keep order, submission appends, completions are fenced by epoch, revocation leaves no
  trace, the queries are exact; and a run in which forcing the failure of a queued item leaks
  capacity.
\<close>

section \<open>Scheduling and polling\<close>

text \<open>
  C15. Scheduling always ends, without an exception, within as many passes as there are queued
  messages plus one. What it takes off a queue is a prefix of it, in order; each item taken has
  been dispatched or has a forced-failure event waiting; and nothing dispatched earlier is
  forgotten.
\<close>

theorem schedule_total_and_fifo:
  assumes "wm_run V m s" "env_ok V" "get_total_queued_messages s < int fuel"
  shows "\<exists>s'. schedule fuel V s = Some (Inr (), s') \<and>
    (\<forall>q. \<exists>xs. queue_items (wm_queue_topology s) q = xs @ queue_items (wm_queue_topology s') q \<and>
       (\<forall>w \<in> set xs. wi_id w \<in> dispatched s' \<or> wi_id w \<in> ce_id ` set (wm_completion_queue s'))) \<and>
    dispatched s \<subseteq> dispatched s'"
proof -
  note G = wm_goodD[OF wm_run_good[OF assms(1,2)]]
  obtain s' where s': "schedule fuel V s = Some (Inr (), s')" "schedule_spec V s s'"
    using schedule_terminates[OF G(1,2), of fuel] assms(2,3) by (auto simp: env_ok_def get_total_queued_messages_def)
  note F = schedule_blocking_frame[where V = V and s = s]
  have p: "progressed (snd (schedule_blocking V s)) s'" using s'(2) by (simp add: schedule_spec_def)
  have sub: "dispatched s \<subseteq> dispatched s'"
    using p same_ledger_dispatched[OF F(1)] unfolding progressed_def by metis
  show ?thesis
    using s'(1) sub p unfolding progressed_def taken_off_def F(2) by metis
qed

theorem schedule_total_and_fifo_witness:
  "\<exists>s'. schedule 4 demo_env (demo_submitted KEY_HASH) = Some (Inr (), s') \<and>
     dispatched (demo_submitted KEY_HASH) \<subseteq> dispatched s'"
proof -
  have "get_total_queued_messages (demo_submitted KEY_HASH) < int 4" by code_simp
  from schedule_total_and_fifo[OF demo_run_submitted demo_env_ok this] show ?thesis by meson
qed




lemma demo_events_ok:
  assumes "ev \<in> set (map demo_completion (wm_execution_engine (demo_scheduled KEY_HASH)))"
  shows "event_ok demo_env (demo_scheduled KEY_HASH) ev"
proof -
  let ?s = "demo_scheduled KEY_HASH"
  have "list_all (\<lambda>ev. \<exists>n \<in> set [0..<wm_uuids ?s]. ce_id ev = env_uuid demo_env n)
      (map demo_completion (wm_execution_engine ?s))" by code_simp
  then have "ce_id ev \<in> env_uuid demo_env ` {..<wm_uuids ?s}"
    using assms unfolding list_all_iff by (fastforce simp: image_iff)
  moreover have "list_all (\<lambda>ev. case item_of ?s (ce_id ev) of None \<Rightarrow> True
      | Some w \<Rightarrow> wi_tp w = ce_tp ev \<and> wi_offset w = ce_offset ev \<and> wi_epoch w = ce_epoch ev \<and>
          w \<notin> set (queue_items (wm_queue_topology ?s) (route_of w)))
      (map demo_completion (wm_execution_engine ?s))" by code_simp
  ultimately show ?thesis
    using assms unfolding list_all_iff event_ok_def queued_def by (fastforce split: option.splits)
qed


section \<open>What submission enqueues\<close>

definition made_from :: "'k queue_key \<Rightarrow> ('k, 'p) grouped_message list \<Rightarrow> ('k, 'p) work_item list \<Rightarrow> bool" where
  "made_from q ms ws \<longleftrightarrow> list_all2 (\<lambda>m w. w = make_work_item (wi_id w) (fst q) (snd q) m) ms ws"

definition messages_for :: "'k queue_key \<Rightarrow> ('k, 'p) grouped_messages \<Rightarrow> ('k, 'p) grouped_message list" where
  "messages_for q gs = concat (map snd (filter (\<lambda>g. fst g = q) gs))"

lemma made_offsets:
  assumes "list_all2 (\<lambda>m w. w = make_work_item (wi_id w) tp k m) ms ws"
  shows "map wi_offset ws = map message_offset ms"
  using assms
proof (induction rule: list_all2_induct)
  case (Cons m ms w ws)
  have "wi_offset w = message_offset m" using arg_cong[OF Cons.hyps(1), of wi_offset] by simp
  then show ?case using Cons.IH by simp
qed simp

lemma register_messages_made:
  "made_from (tp, k) ms (fst (register_messages V tp k ms mo s))"
proof (induction ms arbitrary: mo s)
  case (Cons m ms)
  obtain mo1 where step: "register_messages V tp k (m # ms) mo s =
      (let (ws, mo2, s2) = register_messages V tp k ms mo1 (register_one V tp k m s)
       in (make_work_item (env_uuid V (wm_uuids s)) tp k m # ws, mo2, s2))"
    using register_messages_Cons[of V tp k m ms mo s] by (elim exE)
  show ?case
    using Cons.IH[of mo1 "register_one V tp k m s"] unfolding step
    by (simp add: made_from_def case_prod_beta)
qed (simp add: made_from_def)

lemma enqueue_groups_appends:
  assumes "wm_inv V {} s" "inj (env_uuid V)" "enqueue_groups V gs mo s = (Inr mo', s')"
  shows "\<exists>new. queue_items (wm_queue_topology s') q = queue_items (wm_queue_topology s) q @ new \<and>
    made_from q (messages_for q gs) new"
  using assms
proof (induction gs arbitrary: mo s)
  case Nil
  then show ?case by (simp add: messages_for_def made_from_def)
next
  case (Cons g gs)
  obtain tp k ms where g: "g = ((tp, k), ms)" by (metis prod.exhaust)
  have asg: "assigned (wm_queue_topology s) tp" using Cons.prems(3) g by (auto simp: assigned_def split: if_splits)
  obtain ws mo1 s1 where r1: "register_messages V tp k ms mo s = (ws, mo1, s1)" by (metis prod_cases3)
  have R: "wm_inv V {} s1" "registered_group V (tp, k) ws s s1"
    using register_messages_spec[OF Cons.prems(1,2) asg r1] by simp_all
  have made: "made_from (tp, k) ms ws" using register_messages_made[of tp k ms V mo s] r1 by simp
  obtain er T where e: "enqueue_batch tp k ws (wm_queue_topology s1) = (er, T)" by fastforce
  note E = enqueue_group_inv[OF Cons.prems(1,2) asg R e]
  let ?s = "s1\<lparr>wm_queue_topology := T,
    wm_total_queued_messages := wm_total_queued_messages s1 + int (length ws)\<rparr>"
  have run: "enqueue_groups V gs mo1 ?s = (Inr mo', s')"
    using Cons.prems(3) g asg r1 e E(1) by (simp add: assigned_def)
  have top: "wm_queue_topology s1 = wm_queue_topology s" using R(2) by (simp add: registered_group_def)
  have T: "queue_items T = (queue_items (wm_queue_topology s))((tp, k) := queue_items (wm_queue_topology s) (tp, k) @ ws)"
    using queue_items_enqueue[OF asg, of k ws] e top by simp
  obtain new where new: "queue_items (wm_queue_topology s') q = queue_items T q @ new"
    "made_from q (messages_for q gs) new"
    using Cons.IH[OF E(2) Cons.prems(2) run] by auto
  show ?case
  proof (cases "q = (tp, k)")
    case True
    then have "made_from q (messages_for q (g # gs)) (ws @ new)"
      using made new(2) g by (simp add: made_from_def messages_for_def list_all2_appendI)
    then show ?thesis using new(1) T True by (intro exI[of _ "ws @ new"]) simp
  next
    case False
    then show ?thesis using new T g by (intro exI[of _ new]) (auto simp: messages_for_def)
  qed
qed

lemma record_fetched_topology:
  "wm_queue_topology (fold (record_fetched V) ps s) = wm_queue_topology s"
  by (induction ps arbitrary: s) (simp_all add: record_fetched_frame(2))

text \<open>
  C18. Submitting a batch succeeds exactly when every partition it names is assigned; otherwise
  it raises \<open>ValueError\<close>. On success each virtual queue is extended, at its end and in order, by
  one work item per message of its group, carrying the message's fields.
\<close>

theorem submit_appends_in_order:
  assumes "wm_run V m s" "env_ok V" "submit_message_batch V gs s = (r, s')"
  shows "(r = Inr () \<longleftrightarrow> (\<forall>g \<in> set gs. assigned (wm_queue_topology s) (fst (fst g)))) \<and>
    (r = Inr () \<or> r = Inl ValueError) \<and>
    (r = Inr () \<longrightarrow> (\<forall>q. \<exists>new.
       queue_items (wm_queue_topology s') q = queue_items (wm_queue_topology s) q @ new \<and>
       list_all2 (\<lambda>m w. w = make_work_item (wi_id w) (fst q) (snd q) m)
         (concat (map snd (filter (\<lambda>g. fst g = q) gs))) new))"
proof -
  note inv = wm_goodD(1)[OF wm_run_good[OF assms(1,2)]]
  have inj: "inj (env_uuid V)" using assms(2) by (simp add: env_ok_def)
  have S: "(r = Inr () \<longleftrightarrow> (\<forall>g \<in> set gs. assigned (wm_queue_topology s) (fst (fst g))))"
    "r = Inr () \<or> r = Inl ValueError"
    using submit_inv[OF inv inj assms(3)] by (cases r; auto)+
  have "\<exists>new. queue_items (wm_queue_topology s') q = queue_items (wm_queue_topology s) q @ new \<and>
      made_from q (messages_for q gs) new" if ok: "r = Inr ()" for q
  proof -
    obtain mo s1 where e: "enqueue_groups V gs [] s = (Inr mo, s1)"
      using assms(3) ok by (auto simp: submit_message_batch_def split: prod.splits sum.splits)
    have "wm_queue_topology s' = wm_queue_topology s1"
      using assms(3) e by (auto simp: submit_message_batch_def record_fetched_topology invalidate_blocking_cache_def split: if_splits)
    then show ?thesis using enqueue_groups_appends[OF inv inj e] by simp
  qed
  then show ?thesis using S unfolding made_from_def messages_for_def by blast
qed

theorem submit_appends_in_order_witness:
  "\<exists>new. queue_items (wm_queue_topology (demo_submitted KEY_HASH)) (demo_tp, 1) = [] @ new \<and>
     map wi_offset new = [0, 2]"
proof -
  let ?s = "demo_assigned KEY_HASH"
  obtain r s' where r: "submit_message_batch demo_env demo_groups ?s = (r, s')" by fastforce
  have s': "s' = demo_submitted KEY_HASH" using r by (simp add: demo_submitted_def)
  have ok: "\<forall>g \<in> set demo_groups. assigned (wm_queue_topology ?s) (fst (fst g))" by code_simp
  have emp: "queue_items (wm_queue_topology ?s) (demo_tp, 1) = []" by code_simp
  have ms: "concat (map snd (filter (\<lambda>g. fst g = (demo_tp, 1)) demo_groups)) = [Message 0 0 10, Message 2 0 12]"
    by code_simp
  note T = submit_appends_in_order[OF demo_run_assigned demo_env_ok r]
  have ok1: "r = Inr ()" using T ok by blast
  obtain new where new: "queue_items (wm_queue_topology s') (demo_tp, 1) = [] @ new"
    "list_all2 (\<lambda>m w. w = make_work_item (wi_id w) demo_tp 1 m) [Message 0 0 10, Message 2 0 12] new"
    using spec[OF mp[OF conjunct2[OF conjunct2[OF T]] ok1], of "(demo_tp, 1)"] unfolding emp ms fst_conv snd_conv by (elim exE conjE)
  have "map wi_offset new = map message_offset [Message 0 0 10, Message 2 0 12 :: (nat, nat) grouped_message]"
    by (rule made_offsets[OF new(2)])
  then show ?thesis using new(1) s' by auto
qed


section \<open>Completions\<close>

lemma pop_dispatch_fields [simp]:
  "wm_offset_trackers (pop_dispatch_timestamp i s) = wm_offset_trackers s"
  "wm_queue_topology (pop_dispatch_timestamp i s) = wm_queue_topology s"
  "wm_in_flight_work_items (pop_dispatch_timestamp i s) = wm_in_flight_work_items s"
  by (simp_all add: pop_dispatch_timestamp_def)

text \<open>
  C19. Epoch fencing: a completion for a partition that is no longer assigned, or of an earlier
  assignment epoch, moves no offset tracker, releases no further scheduling and touches no
  queue; the item it names is no longer registered or in flight afterwards.
\<close>

theorem stale_completion_fenced:
  assumes "wm_run V m s" "env_ok V" "\<forall>w. item_of s (ce_id ev) = Some w \<longrightarrow> wi_tp w = ce_tp ev"
    and "\<forall>t. dict_get (wm_offset_trackers s) (ce_tp ev) = Some t \<longrightarrow> ce_epoch ev \<noteq> get_current_epoch t"
    and "process_completion_event V ev s = (released, s')"
  shows "\<not> released \<and> wm_offset_trackers s' = wm_offset_trackers s \<and>
    queue_items (wm_queue_topology s') = queue_items (wm_queue_topology s) \<and>
    dispatched s' = dispatched s - {ce_id ev} \<and>
    (\<forall>i. item_of s' i = (if i = ce_id ev then None else item_of s i))"
proof -
  note inv = wm_goodD(1)[OF wm_run_good[OF assms(1,2)]]
  have gone: "item_of s (ce_id ev) = None" if "dict_get (wm_offset_trackers s) (ce_tp ev) = None"
  proof (rule ccontr)
    assume "item_of s (ce_id ev) \<noteq> None"
    then obtain w where w: "item_of s (ce_id ev) = Some w" by blast
    have "wi_tp w = ce_tp ev" using assms(3) w by simp
    then show False using managed_invD(1,2)[OF wm_invD(3)[OF inv]] w that by metis
  qed
  have tp: "wi_tp w = ce_tp ev" if "item_of s (ce_id ev) = Some w" for w
    using assms(3) that by simp
  show ?thesis
  proof (cases "dict_get (wm_offset_trackers s) (ce_tp ev)")
    case None
    then show ?thesis using assms(5) gone by (auto simp: process_cases)
  next
    case (Some t)
    then have ep: "ce_epoch ev \<noteq> get_current_epoch t" using assms(4) by simp
    show ?thesis
    proof (cases "item_of s (ce_id ev)")
      case None
      then show ?thesis using assms(5) Some ep by (auto simp: process_cases)
    next
      case item: (Some w)
      then show ?thesis using assms(5) Some ep tp[OF item]
        by (auto simp: process_cases release_topology dict_simps)
    qed
  qed
qed

definition demo_event :: "int \<Rightarrow> completion_event" where
  "demo_event epoch =
     \<lparr>ce_id = [], ce_tp = demo_tp, ce_offset = 0, ce_epoch = epoch,
      ce_status = SUCCESS, ce_error = None, ce_attempt = 1\<rparr>"

lemma demo_event_ok: "event_ok demo_env (demo_scheduled KEY_HASH) (demo_event 0)"
proof -
  have "demo_event 0 \<in> set (map demo_completion (wm_execution_engine (demo_scheduled KEY_HASH)))" by code_simp
  then show ?thesis by (rule demo_events_ok)
qed

lemma demo_event_tp: "\<forall>w. item_of (demo_scheduled KEY_HASH) (ce_id (demo_event epoch)) = Some w \<longrightarrow> wi_tp w = ce_tp (demo_event epoch)"
  using demo_event_ok by (simp add: event_ok_def demo_event_def)

lemma demo_tracker: "map_option get_current_epoch (dict_get (wm_offset_trackers (demo_scheduled KEY_HASH)) demo_tp) = Some 0"
  by code_simp

theorem stale_completion_fenced_witness:
  "\<not> fst (process_completion_event demo_env (demo_event 7) (demo_scheduled KEY_HASH)) \<and>
   wm_offset_trackers (snd (process_completion_event demo_env (demo_event 7) (demo_scheduled KEY_HASH))) =
     wm_offset_trackers (demo_scheduled KEY_HASH)"
proof -
  have "\<forall>t. dict_get (wm_offset_trackers (demo_scheduled KEY_HASH)) (ce_tp (demo_event 7)) = Some t \<longrightarrow>
      ce_epoch (demo_event 7) \<noteq> get_current_epoch t"
    using demo_tracker by (auto simp: demo_event_def)
  from stale_completion_fenced[OF demo_run_scheduled demo_env_ok demo_event_tp this prod.collapse[symmetric]]
  show ?thesis by blast
qed

text \<open>
  A current completion of a tracked item marks exactly its own offset complete, in its own
  partition's tracker and only if the work manager owns that tracker, releases the item from
  the registry and the in-flight count, and asks for further scheduling.
\<close>

theorem current_completion_settles:
  assumes "wm_run V m s" "env_ok V" "event_ok V s ev"
    and "dict_get (wm_offset_trackers s) (ce_tp ev) = Some t" "ce_epoch ev = get_current_epoch t"
    and "ce_id ev \<in> dispatched s"
    and "process_completion_event V ev s = (released, s')"
  shows "released \<and>
    (\<forall>tp. dict_get (wm_offset_trackers s') tp =
       (if tp = ce_tp ev \<and> tp \<notin> wm_shared_offset_trackers s
        then Some (mark_complete (env_containers V) (ce_offset ev) t)
        else dict_get (wm_offset_trackers s) tp)) \<and>
    get_total_in_flight_count s' = get_total_in_flight_count s - 1 \<and>
    dispatched s' = dispatched s - {ce_id ev} \<and> item_of s' (ce_id ev) = None \<and>
    queue_items (wm_queue_topology s') = queue_items (wm_queue_topology s)"
proof -
  note inv = wm_goodD(1)[OF wm_run_good[OF assms(1,2)]]
  obtain w where w: "item_of s (ce_id ev) = Some w"
    using run_registered[OF assms(1,2,6)] by blast
  have s': "s' = settle_event V ev w (mark_event V ev t s)" and rel: "released"
    using assms(4,5,7) w by (simp_all add: process_cases)
  have inv': "wm_inv V {} s'" using process_event_inv[OF inv assms(3)] assms(7) by simp
  have disp: "dispatched s' = dispatched s - {ce_id ev}" using s' by simp
  have "get_total_in_flight_count s' = get_total_in_flight_count s - 1"
    using ledger_invD(5)[OF wm_invD(1)[OF inv]] ledger_invD(5)[OF wm_invD(1)[OF inv']] disp
      card_Suc_Diff1[OF finite_dispatched assms(6)]
    by (simp add: get_total_in_flight_count_def)
  moreover have "dict_get (wm_offset_trackers s') tp =
       (if tp = ce_tp ev \<and> tp \<notin> wm_shared_offset_trackers s
        then Some (mark_complete (env_containers V) (ce_offset ev) t)
        else dict_get (wm_offset_trackers s) tp)" for tp
    by (auto simp: s' mark_event_def invalidate_blocking_cache_def dict_simps)
  ultimately show ?thesis using rel disp by (simp add: s' dict_simps)
qed

theorem current_completion_settles_witness:
  "get_total_in_flight_count (snd (process_completion_event demo_env (demo_event 0) (demo_scheduled KEY_HASH))) =
     get_total_in_flight_count (demo_scheduled KEY_HASH) - 1"
proof -
  obtain t where t: "dict_get (wm_offset_trackers (demo_scheduled KEY_HASH)) (ce_tp (demo_event 0)) = Some t"
    "ce_epoch (demo_event 0) = get_current_epoch t"
    using demo_tracker by (auto simp: demo_event_def)
  have "ce_id (demo_event 0) \<in> dispatched (demo_scheduled KEY_HASH)" unfolding dispatched_def by code_simp
  from current_completion_settles[OF demo_run_scheduled demo_env_ok demo_event_ok t this prod.collapse[symmetric]]
  show ?thesis by blast
qed

section \<open>Revocation\<close>



section \<open>Queries\<close>

definition dispatched_offsets :: "topic_partition \<Rightarrow> ('k, 'p, 's, 'c, 'e) work_manager \<Rightarrow> int set" where
  "dispatched_offsets tp s =
     {wi_offset w |w. \<exists>i \<in> dispatched s. item_of s i = Some w \<and> wi_tp w = tp}"

definition opt_min :: "int option \<Rightarrow> int set \<Rightarrow> int option" where
  "opt_min acc A =
     (let B = (case acc of None \<Rightarrow> A | Some m \<Rightarrow> insert m A) in if B = {} then None else Some (Min B))"

lemma opt_min_insert:
  assumes "finite A"
  shows "opt_min (case acc of None \<Rightarrow> Some x | Some m \<Rightarrow> if x < m then Some x else acc) A = opt_min acc (insert x A)"
proof (cases acc)
  case (Some m)
  show ?thesis
  proof (cases "x < m")
    case True
    then have "Min (insert x A) = Min (insert m (insert x A))" using assms by (simp add: min_def)
    then show ?thesis using True Some by (simp add: opt_min_def)
  next
    case False
    then have "Min (insert m A) = Min (insert m (insert x A))"
      using assms by (cases "A = {}") (auto simp: min_def)
    then show ?thesis using False Some by (simp add: opt_min_def)
  qed
qed (simp add: opt_min_def)

lemma min_offset_loop_eq:
  "min_offset_loop items tp ids acc =
     opt_min acc {wi_offset w |w. \<exists>i \<in> set ids. dict_get items i = Some w \<and> wi_tp w = tp}"
proof (induction ids arbitrary: acc)
  case Nil
  then show ?case by (simp add: opt_min_def split: option.splits)
next
  case (Cons i ids)
  let ?A = "\<lambda>ids. {wi_offset w |w. \<exists>i \<in> set ids. dict_get items i = Some w \<and> wi_tp w = tp}"
  have fin: "finite (?A ids)"
    by (rule finite_subset[of _ "(\<lambda>i. wi_offset (the (dict_get items i))) ` set ids"]) force+
  show ?case
  proof (cases "\<exists>w. dict_get items i = Some w \<and> wi_tp w = tp")
    case True
    then obtain w where w: "dict_get items i = Some w" "wi_tp w = tp" by blast
    have "?A (i # ids) = insert (wi_offset w) (?A ids)" using w by auto
    then show ?thesis using Cons.IH w opt_min_insert[OF fin, where acc = acc and x = "wi_offset w"] by simp
  next
    case False
    then have "?A (i # ids) = ?A ids" by auto
    then show ?thesis using Cons.IH False by (auto split: option.splits)
  qed
qed

text \<open>
  The offset below which the poller must not drop a partition's payloads is exact:
  \<open>get_min_in_flight_offset\<close> is the least offset among the partition's dispatched items, and
  \<open>None\<close> exactly when there is none.
\<close>

theorem min_in_flight_exact:
  "get_min_in_flight_offset tp s =
     (if dispatched_offsets tp s = {} then None else Some (Min (dispatched_offsets tp s)))"
  unfolding get_min_in_flight_offset_def min_offset_loop_eq dispatched_offsets_def dispatched_def
  by (simp add: opt_min_def dict_keys_def)

lemma count_by_partition_eq:
  "distinct ids \<Longrightarrow> dict_get_default (count_by_partition items ids counts) tp 0 =
     dict_get_default counts tp 0 + int (card {i \<in> set ids. \<exists>w. dict_get items i = Some w \<and> wi_tp w = tp})"
proof (induction ids arbitrary: counts)
  case (Cons i ids)
  let ?C = "\<lambda>ids. {i \<in> set ids. \<exists>w. dict_get items i = Some w \<and> wi_tp w = tp}"
  show ?case
  proof (cases "\<exists>w. dict_get items i = Some w \<and> wi_tp w = tp")
    case True
    then obtain w where w: "dict_get items i = Some w" "wi_tp w = tp" by blast
    have "?C (i # ids) = insert i (?C ids)" "i \<notin> ?C ids" using w Cons.prems by auto
    then have "card (?C (i # ids)) = Suc (card (?C ids))" by simp
    then show ?thesis using Cons.IH Cons.prems w by (simp add: dict_get_default_def dict_simps)
  next
    case False
    then have C: "?C (i # ids) = ?C ids" by auto
    show ?thesis
    proof (cases "dict_get items i")
      case None
      then show ?thesis unfolding C using Cons.IH Cons.prems by simp
    next
      case (Some w)
      then have "dict_get_default (dict_set (wi_tp w) n counts) tp 0 = dict_get_default counts tp 0" for n
        using False by (auto simp: dict_get_default_def dict_simps)
      then show ?thesis unfolding C using Cons.IH Cons.prems Some by simp
    qed
  qed
qed simp

text \<open>
  The per-partition in-flight counts reported to the metrics are exact: for each partition,
  the number of its dispatched items.
\<close>

theorem in_flight_counts_exact:
  assumes "wm_run V m s" "env_ok V"
  shows "dict_get_default (get_in_flight_counts s) tp 0 =
    int (card {i \<in> dispatched s. \<exists>w. item_of s i = Some w \<and> wi_tp w = tp})"
proof -
  have "distinct (dict_keys (wm_dispatch_timestamps s))"
    using ledger_invD(2)[OF wm_invD(1)[OF wm_goodD(1)[OF wm_run_good[OF assms]]]] by (simp add: dict_wf_def dict_keys_def)
  then show ?thesis
    using count_by_partition_eq[of "dict_keys (wm_dispatch_timestamps s)" "wm_in_flight_work_items s" "[]" tp]
    by (simp add: get_in_flight_counts_def dispatched_def dict_get_default_def dict_keys_def)
qed

theorem in_flight_counts_exact_witness:
  "dict_get_default (get_in_flight_counts (demo_scheduled KEY_HASH)) demo_tp 0 =
    int (card {i \<in> dispatched (demo_scheduled KEY_HASH).
      \<exists>w. item_of (demo_scheduled KEY_HASH) i = Some w \<and> wi_tp w = demo_tp})"
  by (rule in_flight_counts_exact[OF demo_run_scheduled demo_env_ok])

section \<open>Forced failure of a queued item\<close>

text \<open>
  \<open>force_fail\<close> finds an item by partition and offset, dispatched or not. The run below forces
  the failure of offset 0 while it is still queued, polls (which schedules), lets the engine
  complete what it was given, and polls again.
\<close>

definition demo_forced :: demo_manager where
  "demo_forced = snd (force_fail demo_tp 0 0 ''dropped'' 1 (demo_submitted KEY_HASH))"

definition demo_forced_settled :: demo_manager where
  "demo_forced_settled =
     snd (the (poll_completed_events 4 4 demo_env True
       (snd (the (poll_completed_events 4 4 demo_env True demo_forced)))))"

text \<open>
  C21. Forcing the failure of an item that is still queued leaks capacity: the forced event
  unregisters the item but leaves it in its queue, so it is dispatched later and its completion
  is then ignored. With nothing left in the engine, one unit of the in-flight limit and the
  key's ordering lock stay taken, and the key's next message stays queued for good: another
  run of the scheduler changes nothing.
\<close>

theorem force_fail_queued_leaks:
  "wm_execution_engine demo_forced_settled = [] \<and>
   wm_completion_queue demo_forced_settled = [] \<and>
   wm_dispatch_timestamps demo_forced_settled = [] \<and>
   get_total_in_flight_count demo_forced_settled = 1 \<and>
   \<not> is_queue_eligible demo_forced_settled (demo_tp, 1) \<and>
   map wi_offset (queue_items (wm_queue_topology demo_forced_settled) (demo_tp, 1)) = [2] \<and>
   map_option (\<lambda>r. queue_items (wm_queue_topology (snd r)) (demo_tp, 1)) (schedule 4 demo_env demo_forced_settled) =
     Some (queue_items (wm_queue_topology demo_forced_settled) (demo_tp, 1))"
  by code_simp

end
