(* ===== verification/Pipeline_Diagnostics.thy ===== *)
theory Pipeline_Diagnostics
  imports Work_Properties
begin

text \<open>
  \<open>WorkManager.get_pipeline_diagnostics\<close> and its data objects from \<open>dto.py\<close>: the snapshot of
  queued, eligible and blocked work that is exported for operators. The theorems show that the
  snapshot is a partition of the queued work: every queued item is counted once, as eligible or
  as blocked under exactly one reason, and taking it changes nothing but the clock reading.
\<close>

section \<open>Data\<close>

datatype pipeline_stage =
  ACQUIRED | BUFFERED | QUEUED | DISPATCHED | EXECUTING | COMPLETED_UNSETTLED | FAILED | DLQ

datatype pipeline_blocked_reason =
  ORDERING_LOCK | ROUTE_LOCK | RETRY_DELAY | FRONTIER_DEFERRED | POISON_GUARD | REBALANCING | SHUTDOWN

datatype pipeline_dispatch_capacity_reason = MAX_IN_FLIGHT | ADAPTIVE_LIMIT

datatype pipeline_admission_reason = ENGINE_CAPACITY | WORKER_PIPE_FULL | WORKER_STARTING | WORKER_DRAINING

datatype pipeline_support_state = SUPPORTED | UNAVAILABLE | NOT_IMPLEMENTED

datatype pipeline_settlement_blocker =
  COMMIT_PENDING | ACK_PENDING | DELETE_PENDING | ARCHIVE_PENDING | DLQ_PUBLISH_PENDING
  | ORDERED_CURSOR_GAP | UNKNOWN

datatype pipeline_scope = WORK_MANAGER_ONLY | COMBINED

datatype pipeline_section =
  STAGES | BLOCKED | SUBQUEUES | DISPATCH_CAPACITY | ADMISSION | WORKERS | SETTLEMENT | POLL

record pipeline_count =
  pc_count :: int
  pc_oldest_age_ms :: "int option"

record dispatch_capacity_diagnostics =
  dc_blocked_items :: int
  dc_reason :: "pipeline_dispatch_capacity_reason option"
  dc_oldest_age_ms :: "int option"

record admission_diagnostics =
  ad_blocked_items :: int
  ad_reason :: "pipeline_admission_reason option"
  ad_oldest_age_ms :: "int option"
  ad_support_state :: pipeline_support_state

record worker_diagnostics =
  wd_total :: int
  wd_executing :: int
  wd_admitted :: "int option"
  wd_top_k_loads :: "int list"
  wd_support_state :: pipeline_support_state

record subqueue_diagnostics =
  sq_total :: int
  sq_queued :: int
  sq_queued_items :: int
  sq_eligible_subqueues :: int
  sq_eligible_items :: int
  sq_blocked_subqueues :: int
  sq_blocked_items :: int
  sq_top_k_depths :: "int list"

record settlement_diagnostics =
  sd_completed_unsettled :: int
  sd_oldest_age_ms :: "int option"
  sd_blocker_reason :: "pipeline_settlement_blocker option"
  sd_support_state :: pipeline_support_state

record poll_diagnostics =
  pl_records_total :: int
  pl_nonempty_polls_total :: int
  pl_empty_polls_total :: int
  pl_error_polls_total :: int
  pl_completed_offset_skips_total :: int
  pl_broker_kind :: string
  pl_support_state :: pipeline_support_state

record pipeline_diagnostics =
  pd_stage_counts :: "(pipeline_stage, pipeline_count) dict"
  pd_blocked_counts :: "(pipeline_blocked_reason, pipeline_count) dict"
  pd_dispatch_capacity :: dispatch_capacity_diagnostics
  pd_admission :: admission_diagnostics
  pd_workers :: worker_diagnostics
  pd_subqueues :: subqueue_diagnostics
  pd_stage_support :: "(pipeline_stage, pipeline_support_state) dict"
  pd_section_support :: "(pipeline_section, pipeline_support_state) dict"
  pd_scope :: pipeline_scope
  pd_settlement :: settlement_diagnostics
  pd_poll :: poll_diagnostics

text \<open>The members of the enumerations, in declaration order, as iteration yields them.\<close>

definition all_stages :: "pipeline_stage list" where
  "all_stages = [ACQUIRED, BUFFERED, QUEUED, DISPATCHED, EXECUTING, COMPLETED_UNSETTLED, FAILED, DLQ]"

definition all_reasons :: "pipeline_blocked_reason list" where
  "all_reasons =
     [ORDERING_LOCK, ROUTE_LOCK, RETRY_DELAY, FRONTIER_DEFERRED, POISON_GUARD, REBALANCING, SHUTDOWN]"

section \<open>The snapshot\<close>

text \<open>Asking the circuit without pruning it reads the clock and leaves everything else.\<close>

fun diagnose_loop ::
  "('k, 'p, 's, 'c, 'e) wm_env \<Rightarrow> 'k poison_circuit \<Rightarrow> ('k, 'p) work_item list \<Rightarrow> int
    \<Rightarrow> ('k, 'p, 's, 'c, 'e) work_manager \<Rightarrow> (int \<times> bool) \<times> ('k, 'p, 's, 'c, 'e) work_manager" where
  "diagnose_loop V C [] index s = ((index, False), s)"
| "diagnose_loop V C (item # items) index s =
     (let (now, s1) = read_clock V s
      in if would_force_fail now item C then ((index, True), s1)
         else diagnose_loop V C items (index + 1) s1)"

definition diagnose_poison_safe_prefix ::
  "('k, 'p, 's, 'c, 'e) wm_env \<Rightarrow> ('k, 'p) work_item list \<Rightarrow> ('k, 'p, 's, 'c, 'e) work_manager
    \<Rightarrow> (int \<times> bool) \<times> ('k, 'p, 's, 'c, 'e) work_manager" where
  "diagnose_poison_safe_prefix V items s =
     (case wm_poison_message_circuit s of
        None \<Rightarrow> ((int (length items), False), s)
      | Some C \<Rightarrow> diagnose_loop V C items 0 s)"

record diagnosis =
  dg_queued_subqueues :: int
  dg_queued_items :: int
  dg_eligible_subqueues :: int
  dg_eligible_items :: int
  dg_blocked_subqueues :: int
  dg_blocked_items :: int
  dg_queue_depths :: "int list"
  dg_blocked_counts :: "(pipeline_blocked_reason, pipeline_count) dict"

definition diagnosis_init :: diagnosis where
  "diagnosis_init =
     \<lparr>dg_queued_subqueues = 0, dg_queued_items = 0, dg_eligible_subqueues = 0, dg_eligible_items = 0,
      dg_blocked_subqueues = 0, dg_blocked_items = 0, dg_queue_depths = [],
      dg_blocked_counts = map (\<lambda>r. (r, \<lparr>pc_count = 0, pc_oldest_age_ms = None\<rparr>)) all_reasons\<rparr>"

text \<open>Why the work of a queue waits, and how much of it could be dispatched.\<close>

definition classify_queue ::
  "('k, 'p, 's, 'c, 'e) work_manager \<Rightarrow> 'k queue_key \<Rightarrow> int \<Rightarrow> int \<Rightarrow> bool
    \<Rightarrow> int \<times> pipeline_blocked_reason option" where
  "classify_queue s queue_key depth poison_safe_prefix poison_blocked =
     (if wm_rebalancing s then (0, Some REBALANCING)
      else if queue_key \<in> wm_leased_queue_keys s then (0, Some ROUTE_LOCK)
      else if poison_blocked \<and> poison_safe_prefix = 0 then (0, Some POISON_GUARD)
      else if \<not> is_queue_eligible s queue_key then (0, Some ORDERING_LOCK)
      else (poison_safe_prefix,
            if poison_blocked then Some POISON_GUARD
            else if depth > poison_safe_prefix then Some FRONTIER_DEFERRED
            else None))"

definition diagnose_queue ::
  "('k, 'p, 's, 'c, 'e) wm_env \<Rightarrow> int \<Rightarrow> 'k queue_key \<times> ('k, 'p) virtual_queue
    \<Rightarrow> diagnosis \<times> ('k, 'p, 's, 'c, 'e) work_manager \<Rightarrow> diagnosis \<times> ('k, 'p, 's, 'c, 'e) work_manager" where
  "diagnose_queue V logical_prefix_limit kq ds =
     (let (queue_key, queue) = kq; (d, s) = ds; depth = int (length queue)
      in if depth \<le> 0 then (d, s)
         else
           let d1 = d\<lparr>dg_queued_subqueues := dg_queued_subqueues d + 1,
                      dg_queued_items := dg_queued_items d + depth,
                      dg_queue_depths := dg_queue_depths d @ [depth]\<rparr>;
               ((poison_safe_prefix, poison_blocked), s1) =
                 diagnose_poison_safe_prefix V (peek_queue_batch queue logical_prefix_limit) s;
               (eligible_prefix, reason) =
                 classify_queue s1 queue_key depth poison_safe_prefix poison_blocked;
               d2 = (if eligible_prefix > 0
                     then d1\<lparr>dg_eligible_subqueues := dg_eligible_subqueues d1 + 1,
                             dg_eligible_items := dg_eligible_items d1 + eligible_prefix\<rparr>
                     else d1);
               blocked_depth = depth - eligible_prefix
           in if blocked_depth > 0
              then (d2\<lparr>dg_blocked_subqueues := dg_blocked_subqueues d2 + 1,
                       dg_blocked_items := dg_blocked_items d2 + blocked_depth,
                       dg_blocked_counts :=
                         (case reason of
                            None \<Rightarrow> dg_blocked_counts d2
                          | Some r \<Rightarrow>
                              dict_set r
                                \<lparr>pc_count = (case dict_get (dg_blocked_counts d2) r of
                                              None \<Rightarrow> 0 | Some c \<Rightarrow> pc_count c) + blocked_depth,
                                 pc_oldest_age_ms = None\<rparr>
                                (dg_blocked_counts d2))\<rparr>, s1)
              else (d2, s1))"

text \<open>The two nested loops over partitions and keys.\<close>

definition subqueues :: "('k, 'p) topology \<Rightarrow> ('k queue_key \<times> ('k, 'p) virtual_queue) list" where
  "subqueues T =
     concat (map (\<lambda>(tp, queue_map). map (\<lambda>(key, queue). ((tp, key), queue)) queue_map)
       (virtual_partition_queues T))"

definition get_pipeline_diagnostics ::
  "('k, 'p, 's, 'c, 'e) wm_env \<Rightarrow> int \<Rightarrow> ('k, 'p, 's, 'c, 'e) work_manager
    \<Rightarrow> pipeline_diagnostics \<times> ('k, 'p, 's, 'c, 'e) work_manager" where
  "get_pipeline_diagnostics V top_k_depths_limit s =
     (let limit = resolve_logical_eligible_prefix_limit V s;
          (d, s1) = fold (diagnose_queue V limit) (subqueues (wm_queue_topology s)) (diagnosis_init, s);
          stage_counts = map (\<lambda>st. (st, \<lparr>pc_count = 0, pc_oldest_age_ms = None\<rparr>)) all_stages;
          stage_support = map (\<lambda>st. (st, NOT_IMPLEMENTED)) all_stages;
          remaining_capacity = max 0 (wm_max_in_flight_messages s - wm_current_in_flight_count s);
          dispatch_capacity_blocked_items = max 0 (dg_eligible_items d - remaining_capacity);
          k = (if top_k_depths_limit < 0 then 0 else top_k_depths_limit)
      in (\<lparr>pd_stage_counts =
             dict_set DISPATCHED \<lparr>pc_count = wm_current_in_flight_count s, pc_oldest_age_ms = None\<rparr>
               (dict_set QUEUED \<lparr>pc_count = dg_queued_items d, pc_oldest_age_ms = None\<rparr> stage_counts),
           pd_blocked_counts = dg_blocked_counts d,
           pd_dispatch_capacity =
             \<lparr>dc_blocked_items = dispatch_capacity_blocked_items,
              dc_reason = (if dispatch_capacity_blocked_items > 0 then Some MAX_IN_FLIGHT else None),
              dc_oldest_age_ms = None\<rparr>,
           pd_admission =
             \<lparr>ad_blocked_items = 0, ad_reason = None, ad_oldest_age_ms = None,
              ad_support_state = NOT_IMPLEMENTED\<rparr>,
           pd_workers =
             \<lparr>wd_total = 0, wd_executing = 0, wd_admitted = None, wd_top_k_loads = [],
              wd_support_state = NOT_IMPLEMENTED\<rparr>,
           pd_subqueues =
             \<lparr>sq_total = (\<Sum>(tp, queue_map)\<leftarrow>virtual_partition_queues (wm_queue_topology s).
                            int (length queue_map)),
              sq_queued = dg_queued_subqueues d, sq_queued_items = dg_queued_items d,
              sq_eligible_subqueues = dg_eligible_subqueues d, sq_eligible_items = dg_eligible_items d,
              sq_blocked_subqueues = dg_blocked_subqueues d, sq_blocked_items = dg_blocked_items d,
              sq_top_k_depths = take (nat k) (rev (sort (dg_queue_depths d)))\<rparr>,
           pd_stage_support =
             dict_set DISPATCHED SUPPORTED (dict_set QUEUED SUPPORTED stage_support),
           pd_section_support =
             [(STAGES, SUPPORTED), (BLOCKED, SUPPORTED), (SUBQUEUES, SUPPORTED),
              (DISPATCH_CAPACITY, SUPPORTED), (ADMISSION, NOT_IMPLEMENTED), (WORKERS, NOT_IMPLEMENTED)],
           pd_scope = WORK_MANAGER_ONLY,
           pd_settlement =
             \<lparr>sd_completed_unsettled = 0, sd_oldest_age_ms = None, sd_blocker_reason = None,
              sd_support_state = NOT_IMPLEMENTED\<rparr>,
           pd_poll =
             \<lparr>pl_records_total = 0, pl_nonempty_polls_total = 0, pl_empty_polls_total = 0,
              pl_error_polls_total = 0, pl_completed_offset_skips_total = 0,
              pl_broker_kind = ''kafka'', pl_support_state = NOT_IMPLEMENTED\<rparr>\<rparr>,
          s1))"

section \<open>The snapshot partitions the queued work\<close>

definition reason_count :: "(pipeline_blocked_reason, pipeline_count) dict \<Rightarrow> pipeline_blocked_reason \<Rightarrow> int" where
  "reason_count counts r = (case dict_get counts r of None \<Rightarrow> 0 | Some c \<Rightarrow> pc_count c)"

abbreviation blocked_sum :: "(pipeline_blocked_reason, pipeline_count) dict \<Rightarrow> int" where
  "blocked_sum counts \<equiv> (\<Sum>r\<leftarrow>all_reasons. reason_count counts r)"

definition only_clock ::
  "('k, 'p, 's, 'c, 'e) work_manager \<Rightarrow> ('k, 'p, 's, 'c, 'e) work_manager \<Rightarrow> bool" where
  "only_clock s s' \<longleftrightarrow> (\<exists>n. s' = s\<lparr>wm_ticks := n\<rparr>)"

lemma only_clock_refl [simp]: "only_clock s s"
  unfolding only_clock_def by (rule exI[of _ "wm_ticks s"]) simp

lemma only_clock_trans: "only_clock s t \<Longrightarrow> only_clock t u \<Longrightarrow> only_clock s u"
  unfolding only_clock_def by auto

lemma diagnose_loop_spec:
  assumes "diagnose_loop V C items index s = ((n, b), s')"
  shows "index \<le> n \<and> n \<le> index + int (length items) \<and> only_clock s s'"
  using assms
proof (induction items arbitrary: index s)
  case (Cons item items)
  have tick: "only_clock s (s\<lparr>wm_ticks := Suc (wm_ticks s)\<rparr>)" unfolding only_clock_def by auto
  show ?case
  proof (cases "would_force_fail (env_clock V (wm_ticks s)) item C")
    case True
    then show ?thesis using Cons.prems tick by (auto simp: read_clock_def)
  next
    case False
    then have "diagnose_loop V C items (index + 1) (s\<lparr>wm_ticks := Suc (wm_ticks s)\<rparr>) = ((n, b), s')"
      using Cons.prems by (simp add: read_clock_def)
    from Cons.IH[OF this] show ?thesis using only_clock_trans[OF tick] by auto
  qed
qed simp

lemma diagnose_prefix_spec:
  assumes "diagnose_poison_safe_prefix V items s = ((n, b), s')"
  shows "0 \<le> n \<and> n \<le> int (length items) \<and> only_clock s s'"
  using assms diagnose_loop_spec[of V _ items 0 s n b s']
  by (auto simp: diagnose_poison_safe_prefix_def split: option.splits)

text \<open>Blocked work always has a reason, and no more is eligible than is queued.\<close>

lemma classify_queue_spec:
  assumes "classify_queue s q depth n b = (e, r)" "0 \<le> n" "n \<le> depth"
  shows "0 \<le> e" "e \<le> depth" "e < depth \<Longrightarrow> r \<noteq> None"
  using assms by (auto simp: classify_queue_def split: if_splits)


lemma reason_count_set:
  "reason_count (dict_set r c counts) r' = (if r' = r then pc_count c else reason_count counts r')"
  by (simp add: reason_count_def dict_simps)

lemma blocked_sum_set:
  "blocked_sum (dict_set r c counts) = blocked_sum counts - reason_count counts r + pc_count c"
  by (cases r) (simp_all add: all_reasons_def reason_count_set)

definition diagnosis_ok :: "diagnosis \<Rightarrow> bool" where
  "diagnosis_ok d \<longleftrightarrow>
     dg_queued_items d = dg_eligible_items d + dg_blocked_items d \<and>
     blocked_sum (dg_blocked_counts d) = dg_blocked_items d \<and>
     dg_queued_items d = sum_list (dg_queue_depths d) \<and>
     dg_queued_subqueues d = int (length (dg_queue_depths d)) \<and>
     0 \<le> dg_eligible_items d \<and> 0 \<le> dg_blocked_items d"

lemma diagnose_queue_spec:
  assumes ok: "diagnosis_ok d" and step: "diagnose_queue V limit (q, queue) (d, s) = (d', s')"
  shows "diagnosis_ok d' \<and> only_clock s s' \<and>
    dg_queue_depths d' = dg_queue_depths d @ (if queue = [] then [] else [int (length queue)])"
proof (cases "queue = []")
  case True
  then show ?thesis using ok step by (simp add: diagnose_queue_def)
next
  case False
  let ?depth = "int (length queue)"
  obtain n b s1 where pre: "diagnose_poison_safe_prefix V (peek_queue_batch queue limit) s = ((n, b), s1)"
    by (metis prod.collapse)
  obtain e r where cl: "classify_queue s1 q ?depth n b = (e, r)" by fastforce
  have len: "int (length (peek_queue_batch queue limit)) \<le> ?depth"
    by (simp add: peek_queue_batch_def)
  note P = diagnose_prefix_spec[OF pre]
  have n: "0 \<le> n" "n \<le> ?depth" using P len by auto
  note C = classify_queue_spec[OF cl n]
  have ne: "\<not> ?depth \<le> 0" using False by simp
  show ?thesis
  proof (cases "e < ?depth")
    case True
    then obtain r0 where r: "r = Some r0" using C(3) by blast
    show ?thesis
      using step pre cl ne True r ok P C(1) False
      by (auto simp: diagnose_queue_def Let_def diagnosis_ok_def blocked_sum_set reason_count_def[symmetric])
  next
    case full: False
    show ?thesis
      using step pre cl ne full ok P C(1,2) False
      by (auto simp: diagnose_queue_def Let_def diagnosis_ok_def)
  qed
qed

lemma diagnose_fold_spec:
  assumes "diagnosis_ok d" "fold (diagnose_queue V limit) qs (d, s) = (d', s')"
  shows "diagnosis_ok d' \<and> only_clock s s' \<and>
    dg_queue_depths d' = dg_queue_depths d @ filter (\<lambda>n. 0 < n) (map (\<lambda>kq. int (length (snd kq))) qs)"
  using assms
proof (induction qs arbitrary: d s)
  case (Cons kq qs)
  obtain q queue where kq: "kq = (q, queue)" by (cases kq)
  obtain d1 s1 where st: "diagnose_queue V limit (q, queue) (d, s) = (d1, s1)" by fastforce
  note S = diagnose_queue_spec[OF Cons.prems(1) st]
  have "fold (diagnose_queue V limit) qs (d1, s1) = (d', s')" using Cons.prems(2) kq st by simp
  from Cons.IH[OF _ this] S show ?case using only_clock_trans[of s s1 s'] kq by auto
qed simp

lemma diagnosis_init_ok: "diagnosis_ok diagnosis_init"
  by (simp add: diagnosis_ok_def diagnosis_init_def reason_count_def all_reasons_def)

lemma sum_list_positive: "(\<And>x. x \<in> set xs \<Longrightarrow> 0 \<le> x) \<Longrightarrow> sum_list (filter (\<lambda>n. 0 < n) xs) = sum_list (xs :: int list)"
  by (induction xs) (auto simp: order_le_less)

lemma sum_subqueues:
  fixes T :: "('a, 'b) topology"
  shows "(\<Sum>kq\<leftarrow>subqueues T. int (length (snd kq))) = int (total_queued T)"
proof -
  have inner: "(\<Sum>kq\<leftarrow>map (\<lambda>(key, queue). ((tp, key), queue)) m. int (length (snd kq))) = int (queues_size m)"
    for tp and m :: "('a, ('a, 'b) virtual_queue) dict"
    by (induction m) (auto simp: queues_size_def)
  have "(\<Sum>kq\<leftarrow>concat (map (\<lambda>(tp, queue_map). map (\<lambda>(key, queue). ((tp, key), queue)) queue_map) d).
      int (length (snd kq))) = int (\<Sum>(tp, queues)\<leftarrow>d. queues_size queues)"
    for d :: "(topic_partition, ('a, ('a, 'b) virtual_queue) dict) dict"
  proof (induction d)
    case (Cons x d)
    then show ?case using inner[of "fst x" "snd x"] unfolding case_prod_beta by (simp del: map_map)
  qed simp
  then show ?thesis by (simp add: subqueues_def total_queued_def)
qed

lemma diagnostics_unfold:
  assumes "get_pipeline_diagnostics V k s = (D, s')"
  obtains d where "fold (diagnose_queue V (resolve_logical_eligible_prefix_limit V s))
      (subqueues (wm_queue_topology s)) (diagnosis_init, s) = (d, s')"
    "diagnosis_ok d" "only_clock s s'"
    "dg_queued_items d = int (total_queued (wm_queue_topology s))"
    "pd_blocked_counts D = dg_blocked_counts d"
    "sq_queued_items (pd_subqueues D) = dg_queued_items d"
    "sq_eligible_items (pd_subqueues D) = dg_eligible_items d"
    "sq_blocked_items (pd_subqueues D) = dg_blocked_items d"
    "dict_get (pd_stage_counts D) QUEUED = Some \<lparr>pc_count = dg_queued_items d, pc_oldest_age_ms = None\<rparr>"
    "dict_get (pd_stage_counts D) DISPATCHED =
       Some \<lparr>pc_count = wm_current_in_flight_count s, pc_oldest_age_ms = None\<rparr>"
proof -
  obtain d s1 where f: "fold (diagnose_queue V (resolve_logical_eligible_prefix_limit V s))
      (subqueues (wm_queue_topology s)) (diagnosis_init, s) = (d, s1)" by fastforce
  note F = diagnose_fold_spec[OF diagnosis_init_ok f]
  have "dg_queue_depths d = filter (\<lambda>n. 0 < n) (map (\<lambda>kq. int (length (snd kq))) (subqueues (wm_queue_topology s)))"
    using F by (simp add: diagnosis_init_def)
  moreover have "sum_list (filter (\<lambda>n. 0 < n) (map (\<lambda>kq. int (length (snd kq))) (subqueues (wm_queue_topology s)))) =
      int (total_queued (wm_queue_topology s))"
    unfolding sum_subqueues[symmetric] by (rule sum_list_positive) auto
  moreover have "dg_queued_items d = sum_list (dg_queue_depths d)" using F unfolding diagnosis_ok_def by blast
  ultimately have q: "dg_queued_items d = int (total_queued (wm_queue_topology s))"
    by metis
  show thesis
    by (rule that[of d]) (use assms f F q in \<open>auto simp: get_pipeline_diagnostics_def Let_def dict_simps\<close>)
qed

text \<open>
  The diagnostics snapshot accounts for every queued message of a running work manager
  exactly once: the queued total equals the manager's own counter and splits into eligible and
  blocked, the blocked messages are distributed over the reasons without remainder, the
  dispatched stage is the number of items in flight, and taking the snapshot changes nothing but
  the number of clock readings.
\<close>

theorem diagnostics_partition_queued:
  assumes "wm_run V m s" "env_ok V" "get_pipeline_diagnostics V k s = (D, s')"
  shows "sq_queued_items (pd_subqueues D) = get_total_queued_messages s \<and>
    sq_queued_items (pd_subqueues D) = sq_eligible_items (pd_subqueues D) + sq_blocked_items (pd_subqueues D) \<and>
    (\<Sum>r\<leftarrow>all_reasons. reason_count (pd_blocked_counts D) r) = sq_blocked_items (pd_subqueues D) \<and>
    0 \<le> sq_eligible_items (pd_subqueues D) \<and> 0 \<le> sq_blocked_items (pd_subqueues D) \<and>
    map_option pc_count (dict_get (pd_stage_counts D) DISPATCHED) = Some (int (card (dispatched s))) \<and>
    (\<exists>n. s' = s\<lparr>wm_ticks := n\<rparr>)"
proof -
  note inv = wm_goodD(1)[OF wm_run_good[OF assms(1,2)]]
  show ?thesis
    by (rule diagnostics_unfold[OF assms(3)])
      (use ledger_invD(5)[OF wm_invD(1)[OF inv]] queue_invD(2)[OF wm_invD(2)[OF inv]] in
        \<open>auto simp: diagnosis_ok_def get_total_queued_messages_def only_clock_def\<close>)
qed

theorem diagnostics_partition_queued_witness:
  "(let D = fst (get_pipeline_diagnostics demo_env 10 (demo_scheduled KEY_HASH))
    in sq_queued_items (pd_subqueues D) = get_total_queued_messages (demo_scheduled KEY_HASH) \<and>
       sq_blocked_items (pd_subqueues D) = 1 \<and> reason_count (pd_blocked_counts D) ORDERING_LOCK = 1)"
proof -
  have "sq_blocked_items (pd_subqueues (fst (get_pipeline_diagnostics demo_env 10 (demo_scheduled KEY_HASH)))) = 1"
    "reason_count (pd_blocked_counts (fst (get_pipeline_diagnostics demo_env 10 (demo_scheduled KEY_HASH)))) ORDERING_LOCK = 1"
    by code_simp+
  then show ?thesis
    using diagnostics_partition_queued[OF demo_run_scheduled demo_env_ok prod.collapse[symmetric]]
    unfolding Let_def by blast
qed

end
