(* ===== verification/Commit_Coordinator.thy ===== *)
theory Commit_Coordinator
  imports Dto Complex_Main
begin

text \<open>
  \<open>control_plane/commit_coordinator.py\<close>: the outbox that coalesces commit candidates per
  partition and settles them after the broker confirmed the commit.

  The methods are functions on the state record. The worker coroutine \<open>_run_worker\<close> is cut at
  its \<open>await\<close>s: \<open>cc_worker\<close> says where it waits and holds its local variables, and each section
  between two waits is one function. Every other method runs to completion without waiting, so
  any interleaving is a sequence of these functions (\<open>cc_step\<close>). The outcome of \<open>commit_sync\<close>
  and of the callbacks is chosen by the environment; metrics and cancellation of the worker
  task are left out. The theorems: confirmed offsets only ever move forward, a lease that was
  cancelled never settles, the outbox is bounded, a failed commit drops no partition; and the
  retry after a Kafka error can put an older candidate in place of a newer one.
\<close>

section \<open>State\<close>

record commit_candidate =
  cand_tp :: topic_partition
  cand_safe_offset :: int
  cand_assignment_epoch :: int
  cand_lease_id :: int
  cand_enqueued_at :: real

record commit_settlement =
  settle_tp :: topic_partition
  settle_safe_offset :: int
  settle_assignment_epoch :: int
  settle_lease_id :: int
  settle_success :: bool
  settle_reason :: "string option"
  settle_latency_seconds :: real

record coordinator_config =
  cfg_queue_max_partitions :: int
  cfg_retry_backoff_ms :: int
  cfg_max_retry_backoff_ms :: int

record coordinator_stats =
  st_queue_depth :: int
  st_coalesced_count :: int
  st_submitted_count :: int
  st_success_count :: int
  st_failure_count :: int
  st_retry_count :: int
  st_max_pending_age :: real

datatype failure_kind = KafkaFailure | BatchAborted | WorkerCrash

text \<open>Where the worker task waits; \<open>NoTask\<close> is no task or a finished one.\<close>

datatype worker_state =
    NoTask
  | LoopHead
  | Committing "commit_candidate list" real
  | FailureCallback failure_kind "commit_candidate list" "commit_settlement list"
  | SuccessCallback "commit_settlement list"
  | Backoff real

record coordinator =
  cc_pending :: "(topic_partition, commit_candidate) dict"
  cc_in_flight :: "(topic_partition, commit_candidate) dict"
  cc_cancelled_leases :: "(topic_partition \<times> int \<times> int) set"
  cc_stopped_partitions :: "topic_partition set"
  cc_latest_settled_offsets :: "(topic_partition, int) dict"
  cc_lease_counter :: int
  cc_worker :: worker_state
  cc_accepting :: bool
  cc_healthy :: bool
  cc_coalesced_count :: int
  cc_submitted_count :: int
  cc_success_count :: int
  cc_failure_count :: int
  cc_retry_count :: int

definition coordinator_init :: coordinator where
  "coordinator_init =
     \<lparr>cc_pending = [], cc_in_flight = [], cc_cancelled_leases = {}, cc_stopped_partitions = {},
      cc_latest_settled_offsets = [], cc_lease_counter = 0, cc_worker = NoTask, cc_accepting = True,
      cc_healthy = True, cc_coalesced_count = 0, cc_submitted_count = 0, cc_success_count = 0,
      cc_failure_count = 0, cc_retry_count = 0\<rparr>"

abbreviation lease_key :: "commit_candidate \<Rightarrow> topic_partition \<times> int \<times> int" where
  "lease_key c \<equiv> (cand_tp c, cand_assignment_epoch c, cand_lease_id c)"

definition dict_values :: "('a, 'b) dict \<Rightarrow> 'b list" where
  "dict_values d = map snd d"

section \<open>Leases\<close>

definition prune_cancelled_leases :: "coordinator \<Rightarrow> coordinator" where
  "prune_cancelled_leases s =
     s\<lparr>cc_cancelled_leases := cc_cancelled_leases s \<inter>
         lease_key ` set (dict_values (cc_pending s) @ dict_values (cc_in_flight s))\<rparr>"

definition is_active_lease :: "coordinator \<Rightarrow> topic_partition \<Rightarrow> int \<Rightarrow> int \<Rightarrow> bool" where
  "is_active_lease s tp assignment_epoch lease_id =
     (if (tp, assignment_epoch, lease_id) \<in> cc_cancelled_leases s then False
      else list_ex (\<lambda>candidate. case candidate of
               None \<Rightarrow> False
             | Some c \<Rightarrow> cand_assignment_epoch c = assignment_epoch \<and> cand_lease_id c = lease_id)
             [dict_get (cc_pending s) tp, dict_get (cc_in_flight s) tp])"

abbreviation active :: "coordinator \<Rightarrow> commit_candidate \<Rightarrow> bool" where
  "active s c \<equiv> is_active_lease s (cand_tp c) (cand_assignment_epoch c) (cand_lease_id c)"

definition cancel_lease :: "commit_candidate \<Rightarrow> coordinator \<Rightarrow> coordinator" where
  "cancel_lease c s = s\<lparr>cc_cancelled_leases := insert (lease_key c) (cc_cancelled_leases s)\<rparr>"

section \<open>The outbox\<close>

definition ensure_worker :: "coordinator \<Rightarrow> coordinator" where
  "ensure_worker s = (if cc_worker s = NoTask then s\<lparr>cc_worker := LoopHead\<rparr> else s)"

text \<open>
  One candidate of \<open>enqueue\<close>: it is skipped, or refused because the outbox is full (\<open>None\<close>), or
  stored under a fresh lease. \<open>now\<close> is the reading of the monotonic clock.
\<close>

datatype enqueue_outcome = Skipped | QueueFull | Stored bool coordinator

definition enqueue_one ::
  "coordinator_config \<Rightarrow> real \<Rightarrow> commit_candidate \<Rightarrow> coordinator \<Rightarrow> enqueue_outcome" where
  "enqueue_one cfg now candidate s =
     (let tp = cand_tp candidate;
          current = dict_get (cc_pending s) tp;
          in_flight = dict_get (cc_in_flight s) tp
      in if tp \<in> cc_stopped_partitions s then Skipped
         else if cand_safe_offset candidate \<le> dict_get_default (cc_latest_settled_offsets s) tp (-1) then Skipped
         else if (case current of None \<Rightarrow> False | Some c \<Rightarrow> cand_safe_offset candidate \<le> cand_safe_offset c)
           then Skipped
         else if current = None \<and>
             (case in_flight of None \<Rightarrow> False | Some c \<Rightarrow> cand_safe_offset candidate \<le> cand_safe_offset c)
           then Skipped
         else if current = None \<and> \<not> dict_has (cc_pending s) tp \<and>
             int (length (cc_pending s)) + int (length (cc_in_flight s))
               + (if dict_has (cc_in_flight s) tp then 0 else 1) > cfg_queue_max_partitions cfg
           then QueueFull
         else
           let s1 = (case current of None \<Rightarrow> s | Some c \<Rightarrow> cancel_lease c s);
               lease = cc_lease_counter s1 + 1
           in Stored (current \<noteq> None)
                (prune_cancelled_leases
                  (s1\<lparr>cc_lease_counter := lease,
                      cc_pending :=
                        dict_set tp
                          \<lparr>cand_tp = tp, cand_safe_offset = cand_safe_offset candidate,
                           cand_assignment_epoch = cand_assignment_epoch candidate,
                           cand_lease_id = lease, cand_enqueued_at = now\<rparr>
                          (cc_pending s1)\<rparr>)))"

text \<open>The loop; the n-th reading of the clock in this call is \<open>clock n\<close>. \<open>None\<close> is a full outbox.\<close>

fun enqueue_loop ::
  "coordinator_config \<Rightarrow> (nat \<Rightarrow> real) \<Rightarrow> commit_candidate list \<Rightarrow> bool \<Rightarrow> int \<Rightarrow> nat \<Rightarrow> coordinator
    \<Rightarrow> (bool \<times> int \<times> coordinator) option" where
  "enqueue_loop cfg clock [] changed coalesced_delta n s = Some (changed, coalesced_delta, s)"
| "enqueue_loop cfg clock (candidate # candidates) changed coalesced_delta n s =
     (case enqueue_one cfg (clock n) candidate s of
        Skipped \<Rightarrow> enqueue_loop cfg clock candidates changed coalesced_delta n s
      | QueueFull \<Rightarrow> None
      | Stored replaced s1 \<Rightarrow>
          enqueue_loop cfg clock candidates True
            (coalesced_delta + (if replaced then 1 else 0)) (n + 1) s1)"

definition enqueue ::
  "coordinator_config \<Rightarrow> (nat \<Rightarrow> real) \<Rightarrow> commit_candidate list \<Rightarrow> coordinator \<Rightarrow> bool \<times> coordinator" where
  "enqueue cfg clock candidates s =
     (if \<not> cc_accepting s \<or> \<not> cc_healthy s then (False, s)
      else
        case enqueue_loop cfg clock candidates False 0 0 s of
          None \<Rightarrow> (False, s\<lparr>cc_failure_count := cc_failure_count s + 1\<rparr>)
        | Some (changed, coalesced_delta, s1) \<Rightarrow>
            (True,
             if changed
             then ensure_worker (s1\<lparr>cc_coalesced_count := cc_coalesced_count s1 + coalesced_delta\<rparr>)
             else s1))"

definition stop_accepting :: "coordinator \<Rightarrow> coordinator" where
  "stop_accepting s = s\<lparr>cc_accepting := False\<rparr>"

definition pop_pending :: "topic_partition \<Rightarrow> coordinator \<Rightarrow> coordinator" where
  "pop_pending tp s =
     (case dict_get (cc_pending s) tp of
        None \<Rightarrow> s
      | Some c \<Rightarrow> cancel_lease c (s\<lparr>cc_pending := dict_pop tp (cc_pending s)\<rparr>))"

definition pop_in_flight :: "topic_partition \<Rightarrow> coordinator \<Rightarrow> coordinator" where
  "pop_in_flight tp s =
     (case dict_get (cc_in_flight s) tp of
        None \<Rightarrow> s
      | Some c \<Rightarrow> cancel_lease c (s\<lparr>cc_in_flight := dict_pop tp (cc_in_flight s)\<rparr>))"

definition stop_accepting_partitions :: "topic_partition list \<Rightarrow> coordinator \<Rightarrow> coordinator" where
  "stop_accepting_partitions tps s =
     prune_cancelled_leases
       (fold (\<lambda>tp s. pop_pending tp
                (s\<lparr>cc_stopped_partitions := insert tp (cc_stopped_partitions s)\<rparr>)) tps s)"

definition start_accepting_partitions :: "topic_partition list \<Rightarrow> coordinator \<Rightarrow> coordinator" where
  "start_accepting_partitions tps s =
     s\<lparr>cc_stopped_partitions := cc_stopped_partitions s - set tps\<rparr>"

definition cancel_leases :: "topic_partition list \<Rightarrow> coordinator \<Rightarrow> coordinator" where
  "cancel_leases tps s =
     prune_cancelled_leases (fold (\<lambda>tp s. pop_in_flight tp (pop_pending tp s)) tps s)"

definition keep_furthest ::
  "commit_candidate \<Rightarrow> (topic_partition, commit_candidate) dict \<Rightarrow> (topic_partition, commit_candidate) dict" where
  "keep_furthest candidate remaining =
     (case dict_get remaining (cand_tp candidate) of
        None \<Rightarrow> dict_set (cand_tp candidate) candidate remaining
      | Some current \<Rightarrow>
          if cand_safe_offset candidate > cand_safe_offset current
          then dict_set (cand_tp candidate) candidate remaining else remaining)"

definition remaining_candidates ::
  "topic_partition list option \<Rightarrow> coordinator \<Rightarrow> (topic_partition, commit_candidate) dict" where
  "remaining_candidates tps s =
     (let remaining = fold keep_furthest (dict_values (cc_in_flight s) @ dict_values (cc_pending s)) []
      in case tps of None \<Rightarrow> remaining | Some allowed \<Rightarrow> dict_filter (\<lambda>tp. tp \<in> set allowed) remaining)"

text \<open>
  One turn of \<open>drain\<close>: \<open>Some b\<close> returns \<open>b\<close>, \<open>None\<close> sleeps and goes round again. \<open>now\<close> is the
  clock reading of the turn.
\<close>

definition drain_turn ::
  "real \<Rightarrow> real \<Rightarrow> topic_partition list option \<Rightarrow> coordinator \<Rightarrow> bool option \<times> coordinator" where
  "drain_turn deadline now tps s =
     (if remaining_candidates tps s = [] then (Some True, s)
      else if cc_worker s = NoTask \<and> \<not> (cc_pending s \<noteq> [] \<and> cc_healthy s)
        then (Some (remaining_candidates tps s = []), s)
      else
        let s1 = (if cc_worker s = NoTask then ensure_worker s else s)
        in if deadline - now \<le> 0 then (Some False, s1) else (None, s1))"

definition coordinator_stats_of :: "real \<Rightarrow> coordinator \<Rightarrow> coordinator_stats" where
  "coordinator_stats_of now s =
     (let ages = map (\<lambda>c. now - cand_enqueued_at c) (dict_values (cc_pending s));
          in_flight_depth =
            length (filter (\<lambda>c. cand_safe_offset c >
                dict_get_default (cc_latest_settled_offsets s) (cand_tp c) (-1))
              (dict_values (cc_in_flight s)))
      in \<lparr>st_queue_depth = int (length (cc_pending s)) + int in_flight_depth,
          st_coalesced_count = cc_coalesced_count s, st_submitted_count = cc_submitted_count s,
          st_success_count = cc_success_count s, st_failure_count = cc_failure_count s,
          st_retry_count = cc_retry_count s,
          st_max_pending_age = (if ages = [] then 0 else Max (set ages))\<rparr>)"

section \<open>The worker\<close>

definition make_settlement ::
  "bool \<Rightarrow> string option \<Rightarrow> real \<Rightarrow> commit_candidate \<Rightarrow> commit_settlement" where
  "make_settlement success reason latency c =
     \<lparr>settle_tp = cand_tp c, settle_safe_offset = cand_safe_offset c,
      settle_assignment_epoch = cand_assignment_epoch c, settle_lease_id = cand_lease_id c,
      settle_success = success, settle_reason = reason, settle_latency_seconds = latency\<rparr>"

definition failure_settlements ::
  "commit_candidate list \<Rightarrow> string \<Rightarrow> real \<Rightarrow> coordinator \<Rightarrow> commit_settlement list" where
  "failure_settlements candidates reason latency_seconds s =
     map (make_settlement False (Some reason) latency_seconds) (filter (active s) candidates)"

definition retry_backoff_seconds :: "coordinator_config \<Rightarrow> real" where
  "retry_backoff_seconds cfg =
     max 0 (real_of_int (min (cfg_retry_backoff_ms cfg) (cfg_max_retry_backoff_ms cfg)) / 1000)"

definition fail_closed :: "int \<Rightarrow> coordinator \<Rightarrow> coordinator" where
  "fail_closed n s =
     s\<lparr>cc_healthy := False, cc_accepting := False, cc_failure_count := cc_failure_count s + n\<rparr>"

text \<open>The head of the loop, up to the wait for \<open>commit_sync\<close>.\<close>

definition worker_begin :: "real \<Rightarrow> coordinator \<Rightarrow> coordinator" where
  "worker_begin now s =
     (if cc_pending s \<noteq> [] \<and> cc_healthy s then
        let batch = dict_values (cc_pending s)
        in s\<lparr>cc_pending := [],
             cc_in_flight := fold (\<lambda>c. dict_set (cand_tp c) c) batch [],
             cc_submitted_count := cc_submitted_count s + int (length batch),
             cc_worker := Committing batch now\<rparr>
      else s\<lparr>cc_worker := NoTask\<rparr>)"

text \<open>The ends of the three handlers, after the failure callback.\<close>

definition requeue :: "commit_candidate \<Rightarrow> coordinator \<Rightarrow> coordinator" where
  "requeue c s =
     (if active s c then s\<lparr>cc_pending := dict_set (cand_tp c) c (cc_pending s)\<rparr> else s)"

definition clear_in_flight :: "coordinator \<Rightarrow> coordinator" where
  "clear_in_flight s = prune_cancelled_leases (s\<lparr>cc_in_flight := []\<rparr>)"

definition finish_failure ::
  "coordinator_config \<Rightarrow> failure_kind \<Rightarrow> commit_candidate list \<Rightarrow> coordinator \<Rightarrow> coordinator" where
  "finish_failure cfg kind batch s =
     (case kind of
        KafkaFailure \<Rightarrow>
          (clear_in_flight (fold requeue batch s))\<lparr>cc_worker := Backoff (retry_backoff_seconds cfg)\<rparr>
      | BatchAborted \<Rightarrow> (clear_in_flight (fold cancel_lease batch s))\<lparr>cc_worker := LoopHead\<rparr>
      | WorkerCrash \<Rightarrow> (clear_in_flight (fold cancel_lease batch s))\<lparr>cc_worker := NoTask\<rparr>)"

fun failure_reason :: "failure_kind \<Rightarrow> string" where
  "failure_reason KafkaFailure = ''kafka_exception''"
| "failure_reason BatchAborted = ''stale_lease''"
| "failure_reason WorkerCrash = ''worker_crash''"

definition worker_failed ::
  "coordinator_config \<Rightarrow> failure_kind \<Rightarrow> real \<Rightarrow> commit_candidate list \<Rightarrow> real \<Rightarrow> coordinator \<Rightarrow> coordinator" where
  "worker_failed cfg kind now batch started_at s =
     (let s0 = (if kind = WorkerCrash then fail_closed (int (length batch)) s else s);
          settlements = failure_settlements batch (failure_reason kind) (max 0 (now - started_at)) s0;
          s1 = (if kind = KafkaFailure
                then s0\<lparr>cc_retry_count := cc_retry_count s0 + int (length batch)\<rparr> else s0)
      in if settlements \<noteq> [] then s1\<lparr>cc_worker := FailureCallback kind batch settlements\<rparr>
         else finish_failure cfg kind batch s1)"

definition failure_callback_done ::
  "coordinator_config \<Rightarrow> failure_kind \<Rightarrow> commit_candidate list \<Rightarrow> commit_settlement list \<Rightarrow> bool
    \<Rightarrow> coordinator \<Rightarrow> coordinator" where
  "failure_callback_done cfg kind batch settlements raised s =
     finish_failure cfg kind batch (if raised then fail_closed (int (length settlements)) s else s)"

definition worker_succeeded ::
  "real \<Rightarrow> commit_candidate list \<Rightarrow> real \<Rightarrow> coordinator \<Rightarrow> commit_settlement list \<times> coordinator" where
  "worker_succeeded now batch started_at s =
     (let settlements = map (make_settlement True None (max 0 (now - started_at))) (filter (active s) batch)
      in if settlements \<noteq> [] then
           (settlements,
            s\<lparr>cc_success_count := cc_success_count s + int (length settlements),
              cc_latest_settled_offsets :=
                fold (\<lambda>t. dict_set (settle_tp t) (settle_safe_offset t)) settlements
                  (cc_latest_settled_offsets s),
              cc_worker := SuccessCallback settlements\<rparr>)
         else ([], (clear_in_flight s)\<lparr>cc_worker := LoopHead\<rparr>))"

definition success_callback_done ::
  "commit_settlement list \<Rightarrow> bool \<Rightarrow> coordinator \<Rightarrow> coordinator" where
  "success_callback_done settlements raised s =
     (clear_in_flight (if raised then fail_closed (int (length settlements)) s else s))
       \<lparr>cc_worker := LoopHead\<rparr>"

section \<open>Interleavings\<close>

text \<open>One atomic section of any coroutine; \<open>out\<close> are the success settlements it emits.\<close>

inductive cc_step ::
  "coordinator_config \<Rightarrow> coordinator \<Rightarrow> commit_settlement list \<Rightarrow> coordinator \<Rightarrow> bool"
  for cfg :: coordinator_config where
  step_enqueue: "enqueue cfg clock cs s = (ok, s') \<Longrightarrow> cc_step cfg s [] s'"
| step_stop: "cc_step cfg s [] (stop_accepting s)"
| step_stop_partitions: "cc_step cfg s [] (stop_accepting_partitions tps s)"
| step_start_partitions: "cc_step cfg s [] (start_accepting_partitions tps s)"
| step_cancel: "cc_step cfg s [] (cancel_leases tps s)"
| step_drain: "drain_turn deadline now sel s = (r, s') \<Longrightarrow> cc_step cfg s [] s'"
| step_begin: "cc_worker s = LoopHead \<Longrightarrow> cc_step cfg s [] (worker_begin now s)"
| step_failed: "cc_worker s = Committing batch started \<Longrightarrow>
    cc_step cfg s [] (worker_failed cfg kind now batch started s)"
| step_failure_callback: "cc_worker s = FailureCallback kind batch ts \<Longrightarrow>
    cc_step cfg s [] (failure_callback_done cfg kind batch ts raised s)"
| step_succeeded: "cc_worker s = Committing batch started \<Longrightarrow>
    worker_succeeded now batch started s = (out, s') \<Longrightarrow> cc_step cfg s out s'"
| step_success_callback: "cc_worker s = SuccessCallback ts \<Longrightarrow>
    cc_step cfg s [] (success_callback_done ts raised s)"
| step_backoff: "cc_worker s = Backoff d \<Longrightarrow> cc_step cfg s [] (s\<lparr>cc_worker := LoopHead\<rparr>)"

inductive cc_run ::
  "coordinator_config \<Rightarrow> coordinator \<Rightarrow> commit_settlement list \<Rightarrow> coordinator \<Rightarrow> bool"
  for cfg :: coordinator_config where
  run_start: "cc_run cfg s [] s"
| run_more: "cc_run cfg s tr t \<Longrightarrow> cc_step cfg t out u \<Longrightarrow> cc_run cfg s (tr @ out) u"


section \<open>The invariant\<close>

fun batch_of :: "worker_state \<Rightarrow> commit_candidate list" where
  "batch_of (Committing batch started) = batch"
| "batch_of (FailureCallback kind batch settlements) = batch"
| "batch_of _ = []"

fun announcing :: "worker_state \<Rightarrow> bool" where
  "announcing (SuccessCallback settlements) = True"
| "announcing _ = False"

abbreviation pend :: "coordinator \<Rightarrow> topic_partition \<Rightarrow> commit_candidate option" where
  "pend s \<equiv> dict_get (cc_pending s)"

abbreviation inflight :: "coordinator \<Rightarrow> topic_partition \<Rightarrow> commit_candidate option" where
  "inflight s \<equiv> dict_get (cc_in_flight s)"

definition settled :: "coordinator \<Rightarrow> topic_partition \<Rightarrow> int" where
  "settled s tp = dict_get_default (cc_latest_settled_offsets s) tp (-1)"

definition partitions_of :: "coordinator \<Rightarrow> topic_partition set" where
  "partitions_of s = dom (pend s) \<union> dom (inflight s)"

text \<open>
  A pending candidate lies beyond the settled offset and carries a younger lease than the
  batch; a candidate in flight belongs to the batch and lies between the settled offset and a
  pending one, unless its settlement is being announced.
\<close>

definition pending_ok :: "coordinator \<Rightarrow> bool" where
  "pending_ok s \<longleftrightarrow>
     (\<forall>tp c. pend s tp = Some c \<longrightarrow>
        cand_tp c = tp \<and> cand_lease_id c \<le> cc_lease_counter s \<and> settled s tp < cand_safe_offset c \<and>
        (\<forall>d \<in> set (batch_of (cc_worker s)). cand_lease_id d < cand_lease_id c) \<and>
        (\<forall>d. inflight s tp = Some d \<longrightarrow>
           cand_lease_id d < cand_lease_id c \<and> cand_safe_offset d < cand_safe_offset c))"

definition in_flight_ok :: "coordinator \<Rightarrow> bool" where
  "in_flight_ok s \<longleftrightarrow>
     (\<forall>tp d. inflight s tp = Some d \<longrightarrow>
        cand_tp d = tp \<and> cand_lease_id d \<le> cc_lease_counter s \<and>
        (announcing (cc_worker s) \<longrightarrow> settled s tp = cand_safe_offset d) \<and>
        (\<not> announcing (cc_worker s) \<longrightarrow> d \<in> set (batch_of (cc_worker s)) \<and> settled s tp < cand_safe_offset d))"

definition batch_ok :: "coordinator \<Rightarrow> bool" where
  "batch_ok s \<longleftrightarrow>
     (\<forall>d \<in> set (batch_of (cc_worker s)). cand_lease_id d \<le> cc_lease_counter s) \<and>
     distinct (map cand_tp (batch_of (cc_worker s)))"

definition cc_core :: "coordinator_config \<Rightarrow> coordinator \<Rightarrow> bool" where
  "cc_core cfg s \<longleftrightarrow>
     dict_wf (cc_pending s) \<and> dict_wf (cc_in_flight s) \<and> pending_ok s \<and> in_flight_ok s \<and> batch_ok s \<and>
     int (card (partitions_of s)) \<le> cfg_queue_max_partitions cfg"

definition live_keys :: "coordinator \<Rightarrow> (topic_partition \<times> int \<times> int) set" where
  "live_keys s = {lease_key c |c tp. pend s tp = Some c \<or> inflight s tp = Some c}"

definition cc_inv :: "coordinator_config \<Rightarrow> coordinator \<Rightarrow> bool" where
  "cc_inv cfg s \<longleftrightarrow> cc_core cfg s \<and> cc_cancelled_leases s = {}"

lemma cc_coreD:
  assumes "cc_core cfg s"
  shows "dict_wf (cc_pending s)" "dict_wf (cc_in_flight s)" "pending_ok s" "in_flight_ok s" "batch_ok s"
    "int (card (partitions_of s)) \<le> cfg_queue_max_partitions cfg"
  using assms by (simp_all add: cc_core_def)

lemma pending_okD:
  assumes "pending_ok s" "pend s tp = Some c"
  shows "cand_tp c = tp" "cand_lease_id c \<le> cc_lease_counter s" "settled s tp < cand_safe_offset c"
    "d \<in> set (batch_of (cc_worker s)) \<Longrightarrow> cand_lease_id d < cand_lease_id c"
    "inflight s tp = Some d \<Longrightarrow> cand_lease_id d < cand_lease_id c"
    "inflight s tp = Some d \<Longrightarrow> cand_safe_offset d < cand_safe_offset c"
  using assms unfolding pending_ok_def by blast+

lemma in_flight_okD:
  assumes "in_flight_ok s" "inflight s tp = Some d"
  shows "cand_tp d = tp" "cand_lease_id d \<le> cc_lease_counter s"
    "announcing (cc_worker s) \<Longrightarrow> settled s tp = cand_safe_offset d"
    "\<not> announcing (cc_worker s) \<Longrightarrow> d \<in> set (batch_of (cc_worker s))"
    "\<not> announcing (cc_worker s) \<Longrightarrow> settled s tp < cand_safe_offset d"
  using assms unfolding in_flight_ok_def by blast+

lemma dict_values_iff: "dict_wf d \<Longrightarrow> c \<in> set (dict_values d) \<longleftrightarrow> (\<exists>k. dict_get d k = Some c)"
  by (force simp: dict_values_def dict_in_set_iff[symmetric])

lemma live_keys_values:
  "cc_core cfg s \<Longrightarrow> lease_key ` set (dict_values (cc_pending s) @ dict_values (cc_in_flight s)) = live_keys s"
  using dict_values_iff[OF cc_coreD(1)] dict_values_iff[OF cc_coreD(2)] unfolding live_keys_def by fastforce

lemma finite_partitions [simp]: "finite (partitions_of s)"
  by (simp add: partitions_of_def finite_dom_map_of)

text \<open>Pruning drops every cancelled lease that is not live.\<close>

lemma cc_core_cong:
  assumes "cc_pending s' = cc_pending s" "cc_in_flight s' = cc_in_flight s"
    "cc_lease_counter s' = cc_lease_counter s"
    "cc_latest_settled_offsets s' = cc_latest_settled_offsets s" "cc_worker s' = cc_worker s"
  shows "cc_core cfg s' = cc_core cfg s"
  unfolding cc_core_def pending_ok_def in_flight_ok_def batch_ok_def partitions_of_def settled_def assms ..

lemma prune_inv:
  assumes "cc_core cfg s" "cc_cancelled_leases s \<inter> live_keys s = {}"
  shows "cc_inv cfg (prune_cancelled_leases s)"
proof -
  have eq: "prune_cancelled_leases s = s\<lparr>cc_cancelled_leases := {}\<rparr>"
    using assms(2) unfolding prune_cancelled_leases_def live_keys_values[OF assms(1)] by simp
  show ?thesis unfolding eq cc_inv_def by (subst cc_core_cong[of _ s]) (simp_all add: assms(1))
qed

lemma active_iff:
  "cc_cancelled_leases s = {} \<Longrightarrow> is_active_lease s tp e l \<longleftrightarrow>
     (\<exists>c. (pend s tp = Some c \<or> inflight s tp = Some c) \<and> cand_assignment_epoch c = e \<and> cand_lease_id c = l)"
  by (auto simp: is_active_lease_def split: option.splits)

lemma cc_inv_init: "0 \<le> cfg_queue_max_partitions cfg \<Longrightarrow> cc_inv cfg coordinator_init"
  by (simp add: cc_inv_def cc_core_def coordinator_init_def pending_ok_def in_flight_ok_def batch_ok_def partitions_of_def)

lemma cc_inv_cong:
  assumes "cc_inv cfg s" "cc_pending s' = cc_pending s" "cc_in_flight s' = cc_in_flight s"
    "cc_cancelled_leases s' = cc_cancelled_leases s" "cc_lease_counter s' = cc_lease_counter s"
    "cc_latest_settled_offsets s' = cc_latest_settled_offsets s" "cc_worker s' = cc_worker s"
  shows "cc_inv cfg s'"
  using assms(1,4) cc_core_cong[OF assms(2,3,5-7)] by (simp add: cc_inv_def)

text \<open>Moving the worker on with the same batch.\<close>

lemma cc_inv_worker:
  assumes "cc_inv cfg s" "batch_of w = batch_of (cc_worker s)" "announcing w = announcing (cc_worker s)"
  shows "cc_inv cfg (s\<lparr>cc_worker := w\<rparr>)"
  using assms unfolding cc_inv_def cc_core_def pending_ok_def in_flight_ok_def batch_ok_def
  by (simp add: partitions_of_def settled_def)

lemma ensure_worker_inv: "cc_inv cfg s \<Longrightarrow> cc_inv cfg (ensure_worker s)"
  by (simp add: ensure_worker_def cc_inv_worker)

lemma dom_card_le: "int (card (partitions_of s)) \<le> int (length (cc_pending s)) + int (length (cc_in_flight s))"
proof -
  have c: "card (dom (dict_get d)) \<le> length d" for d :: "(topic_partition, commit_candidate) dict"
    by (metis card_length dom_map_of_conv_image_fst length_map list.set_map)
  show ?thesis
    using card_Un_le[of "dom (pend s)" "dom (inflight s)"] c[of "cc_pending s"] c[of "cc_in_flight s"]
    unfolding partitions_of_def by linarith
qed

lemma enqueue_one_inv:
  assumes inv: "cc_inv cfg s" and one: "enqueue_one cfg now c s = Stored r s'"
  shows "cc_inv cfg s'" "cc_lease_counter s < cc_lease_counter s'"
    "cc_worker s' = cc_worker s" "cc_in_flight s' = cc_in_flight s"
    "cc_latest_settled_offsets s' = cc_latest_settled_offsets s"
    "\<exists>p. cand_lease_id p = cc_lease_counter s + 1 \<and> pend s' = (pend s)(cand_tp c \<mapsto> p)"
proof -
  let ?tp = "cand_tp c"
  note core = inv[unfolded cc_inv_def, THEN conjunct1]
  note C = cc_coreD[OF core]
  define p where "p = \<lparr>cand_tp = ?tp, cand_safe_offset = cand_safe_offset c,
     cand_assignment_epoch = cand_assignment_epoch c, cand_lease_id = cc_lease_counter s + 1,
     cand_enqueued_at = now\<rparr>"
  define s1 where "s1 = (case pend s ?tp of None \<Rightarrow> s | Some q \<Rightarrow> cancel_lease q s)
    \<lparr>cc_lease_counter := cc_lease_counter s + 1, cc_pending := dict_set ?tp p (cc_pending s)\<rparr>"
  have guards: "settled s ?tp < cand_safe_offset c"
    "\<And>q. pend s ?tp = Some q \<Longrightarrow> cand_safe_offset q < cand_safe_offset c"
    "\<And>q. pend s ?tp = None \<Longrightarrow> inflight s ?tp = Some q \<Longrightarrow> cand_safe_offset q < cand_safe_offset c"
    "pend s ?tp = None \<Longrightarrow> int (length (cc_pending s)) + int (length (cc_in_flight s))
       + (if inflight s ?tp \<noteq> None then 0 else 1) \<le> cfg_queue_max_partitions cfg"
    using one by (auto simp: enqueue_one_def Let_def settled_def dict_simps split: if_splits option.splits)
  have s': "s' = prune_cancelled_leases s1"
    using one by (auto simp: enqueue_one_def Let_def s1_def p_def cancel_lease_def split: if_splits option.splits)
  have f: "cc_in_flight s1 = cc_in_flight s" "cc_worker s1 = cc_worker s" "settled s1 = settled s"
    "cc_latest_settled_offsets s1 = cc_latest_settled_offsets s" "cc_lease_counter s1 = cc_lease_counter s + 1"
    "pend s1 = (pend s)(?tp \<mapsto> p)"
    by (auto simp: s1_def cancel_lease_def settled_def dict_simps split: option.splits)
  have pend: "pending_ok s1"
    unfolding pending_ok_def
  proof (intro allI impI)
    fix tp q assume q: "pend s1 tp = Some q"
    show "cand_tp q = tp \<and> cand_lease_id q \<le> cc_lease_counter s1 \<and> settled s1 tp < cand_safe_offset q \<and>
        (\<forall>d \<in> set (batch_of (cc_worker s1)). cand_lease_id d < cand_lease_id q) \<and>
        (\<forall>d. inflight s1 tp = Some d \<longrightarrow> cand_lease_id d < cand_lease_id q \<and> cand_safe_offset d < cand_safe_offset q)"
    proof (cases "tp = ?tp")
      case True
      have "cand_safe_offset d < cand_safe_offset c" if d: "inflight s ?tp = Some d" for d
        using guards(2,3) C(3) d unfolding pending_ok_def by (cases "pend s ?tp") fastforce+
      moreover have "cand_lease_id d \<le> cc_lease_counter s" if d: "inflight s ?tp = Some d" for d
        using C(4) d unfolding in_flight_ok_def by blast
      moreover have "cand_lease_id d \<le> cc_lease_counter s" if d: "d \<in> set (batch_of (cc_worker s))" for d
        using C(5) d unfolding batch_ok_def by blast
      ultimately show ?thesis using True q guards(1) by (auto simp: f p_def zle_add1_eq_le)
    next
      case False
      then show ?thesis using q C(3) unfolding pending_ok_def by (fastforce simp: f)
    qed
  qed
  have inf: "in_flight_ok s1" using C(4) unfolding in_flight_ok_def by (fastforce simp: f)
  have batch: "batch_ok s1" using C(5) unfolding batch_ok_def by (fastforce simp: f)
  have card: "int (card (partitions_of s1)) \<le> cfg_queue_max_partitions cfg"
  proof (cases "?tp \<in> partitions_of s")
    case True
    have "partitions_of s1 = partitions_of s" using True by (auto simp: partitions_of_def f)
    then show ?thesis using C(6) by simp
  next
    case False
    have "partitions_of s1 = insert ?tp (partitions_of s)" by (auto simp: partitions_of_def f)
    moreover have "pend s ?tp = None" "inflight s ?tp = None" using False by (auto simp: partitions_of_def)
    ultimately show ?thesis using guards(4) dom_card_le[of s] False by simp
  qed
  have core1: "cc_core cfg s1"
    using pend inf batch card C(1,2) by (simp add: cc_core_def f) (simp add: s1_def cancel_lease_def split: option.splits)
  have "cc_cancelled_leases s1 \<inter> live_keys s1 = {}"
  proof -
    have "lease_key q \<notin> live_keys s1" if q: "pend s ?tp = Some q" for q
    proof
      have qtp: "cand_tp q = ?tp" "cand_lease_id q \<le> cc_lease_counter s" using C(3) q unfolding pending_ok_def by blast+
      assume "lease_key q \<in> live_keys s1"
      then obtain d tp where d: "pend s1 tp = Some d \<or> inflight s1 tp = Some d" "lease_key d = lease_key q"
        unfolding live_keys_def by force
      have tp: "tp = ?tp" using d pend inf qtp(1) unfolding pending_ok_def in_flight_ok_def by (metis prod.inject)
      then show False using d qtp(2) pending_okD(5)[OF C(3) q, of d] by (auto simp: f p_def)
    qed
    then show ?thesis using inv by (auto simp: s1_def cc_inv_def cancel_lease_def split: option.splits)
  qed
  from prune_inv[OF core1 this] show "cc_inv cfg s'" by (simp add: s')
  show "cc_lease_counter s < cc_lease_counter s'" "cc_worker s' = cc_worker s" "cc_in_flight s' = cc_in_flight s"
    "cc_latest_settled_offsets s' = cc_latest_settled_offsets s"
    by (simp_all add: s' prune_cancelled_leases_def f)
  show "\<exists>p. cand_lease_id p = cc_lease_counter s + 1 \<and> pend s' = (pend s)(cand_tp c \<mapsto> p)"
    by (rule exI[of _ p]) (simp add: s' prune_cancelled_leases_def f p_def)
qed


definition lease_frame :: "coordinator \<Rightarrow> coordinator \<Rightarrow> bool" where
  "lease_frame s s' \<longleftrightarrow>
     cc_lease_counter s \<le> cc_lease_counter s' \<and>
     (\<forall>tp e l. is_active_lease s' tp e l \<longrightarrow> is_active_lease s tp e l \<or> cc_lease_counter s < l)"

lemma lease_frame_refl [simp]: "lease_frame s s"
  by (simp add: lease_frame_def)

lemma lease_frame_trans: "lease_frame s t \<Longrightarrow> lease_frame t u \<Longrightarrow> lease_frame s u"
  unfolding lease_frame_def by (meson order_trans le_less_trans)

text \<open>Leases come only from the counter: it suffices to look at the candidates.\<close>

lemma lease_frameI:
  assumes "cc_cancelled_leases s = {}" "cc_cancelled_leases s' = {}"
    "cc_lease_counter s \<le> cc_lease_counter s'"
    "\<And>tp c. pend s' tp = Some c \<or> inflight s' tp = Some c \<Longrightarrow>
       pend s tp = Some c \<or> inflight s tp = Some c \<or> cc_lease_counter s < cand_lease_id c"
  shows "lease_frame s s'"
  using assms(3,4) unfolding lease_frame_def active_iff[OF assms(1)] active_iff[OF assms(2)] by blast

lemma enqueue_one_frame:
  assumes "cc_inv cfg s" "enqueue_one cfg now c s = Stored r s'" shows "lease_frame s s'"
proof -
  note E = enqueue_one_inv[OF assms]
  obtain p where p: "cand_lease_id p = cc_lease_counter s + 1" "pend s' = (pend s)(cand_tp c \<mapsto> p)"
    using E(6) by blast
  show ?thesis
    by (rule lease_frameI) (use assms(1) E(1,2,4) p in \<open>auto simp: cc_inv_def split: if_splits\<close>)
qed

lemma enqueue_loop_inv:
  "cc_inv cfg s \<Longrightarrow> enqueue_loop cfg clock cs ch d n s = Some (ch', d', s') \<Longrightarrow>
     cc_inv cfg s' \<and> lease_frame s s' \<and> cc_worker s' = cc_worker s \<and>
     cc_latest_settled_offsets s' = cc_latest_settled_offsets s"
proof (induction cs arbitrary: ch d n s)
  case (Cons c cs)
  show ?case
  proof (cases "enqueue_one cfg (clock n) c s")
    case (Stored r s1)
    have run: "enqueue_loop cfg clock cs True (d + (if r then 1 else 0)) (n + 1) s1 = Some (ch', d', s')"
      using Cons.prems(2) Stored by simp
    note E = enqueue_one_inv[OF Cons.prems(1) Stored]
    show ?thesis
      using Cons.IH[OF E(1) run] E(3,5) lease_frame_trans[OF enqueue_one_frame[OF Cons.prems(1) Stored]] by simp
  qed (use Cons in auto)
qed simp

lemma lease_frame_cong:
  assumes "lease_frame s t" "cc_pending t' = cc_pending t" "cc_in_flight t' = cc_in_flight t"
    "cc_cancelled_leases t' = cc_cancelled_leases t" "cc_lease_counter t' = cc_lease_counter t"
  shows "lease_frame s t'"
  using assms unfolding lease_frame_def is_active_lease_def by simp

lemma enqueue_inv:
  assumes inv: "cc_inv cfg s" and e: "enqueue cfg clock cs s = (ok, s')"
  shows "cc_inv cfg s' \<and> lease_frame s s' \<and> cc_latest_settled_offsets s' = cc_latest_settled_offsets s"
proof (cases "\<not> cc_accepting s \<or> \<not> cc_healthy s")
  case True
  then show ?thesis using e inv by (simp add: enqueue_def)
next
  case False
  show ?thesis
  proof (cases "enqueue_loop cfg clock cs False 0 0 s")
    case None
    then have "s' = s\<lparr>cc_failure_count := cc_failure_count s + 1\<rparr>" using e False by (simp add: enqueue_def)
    then show ?thesis
      using cc_inv_cong[OF inv, of s'] lease_frame_cong[OF lease_frame_refl, of s' s] by simp
  next
    case (Some x)
    obtain ch d s1 where x: "x = (ch, d, s1)" by (metis prod_cases3)
    note L = enqueue_loop_inv[OF inv Some[unfolded x]]
    let ?c = "s1\<lparr>cc_coalesced_count := cc_coalesced_count s1 + d\<rparr>"
    have s': "s' = (if ch then ensure_worker ?c else s1)" using e False Some x by (simp add: enqueue_def)
    have c: "cc_inv cfg ?c" by (rule cc_inv_cong[of cfg s1]) (use L in simp_all)
    have "lease_frame s (ensure_worker ?c)"
      by (rule lease_frame_cong[of s s1]) (use L in \<open>simp_all add: ensure_worker_def\<close>)
    moreover have "cc_latest_settled_offsets (ensure_worker ?c) = cc_latest_settled_offsets s"
      using L by (simp add: ensure_worker_def)
    ultimately show ?thesis using L ensure_worker_inv[OF c] s' by simp
  qed
qed


text \<open>Operations that only drop candidates.\<close>

definition trimmed :: "coordinator \<Rightarrow> coordinator \<Rightarrow> bool" where
  "trimmed s s' \<longleftrightarrow>
     (\<forall>tp c. pend s' tp = Some c \<longrightarrow> pend s tp = Some c) \<and>
     (\<forall>tp c. inflight s' tp = Some c \<longrightarrow> inflight s tp = Some c) \<and>
     (dict_wf (cc_pending s) \<longrightarrow> dict_wf (cc_pending s')) \<and>
     (dict_wf (cc_in_flight s) \<longrightarrow> dict_wf (cc_in_flight s')) \<and>
     cc_lease_counter s' = cc_lease_counter s \<and> cc_worker s' = cc_worker s \<and>
     cc_latest_settled_offsets s' = cc_latest_settled_offsets s"

lemma trimmed_refl [simp]: "trimmed s s"
  by (simp add: trimmed_def)

lemma trimmed_trans: "trimmed s t \<Longrightarrow> trimmed t u \<Longrightarrow> trimmed s u"
  unfolding trimmed_def by metis

lemma trimmed_None:
  assumes "trimmed s s'"
  shows "pend s tp = None \<Longrightarrow> pend s' tp = None" "inflight s tp = None \<Longrightarrow> inflight s' tp = None"
  using assms unfolding trimmed_def by (cases "pend s' tp"; cases "inflight s' tp"; auto)+

lemma trimmed_partitions: "trimmed s s' \<Longrightarrow> partitions_of s' \<subseteq> partitions_of s"
  unfolding trimmed_def partitions_of_def by blast

lemma cc_core_trimmed:
  assumes core: "cc_core cfg s" and t: "trimmed s s'" shows "cc_core cfg s'"
proof -
  note C = cc_coreD[OF core] and T = t[unfolded trimmed_def]
  have set: "settled s' = settled s" using T by (simp add: settled_def fun_eq_iff)
  have w: "cc_worker s' = cc_worker s" "cc_lease_counter s' = cc_lease_counter s" using T by simp_all
  have "pending_ok s'"
    unfolding pending_ok_def set w
    using T pending_okD[OF C(3)] by metis
  moreover have "in_flight_ok s'"
    unfolding in_flight_ok_def set w using T in_flight_okD[OF C(4)] by metis
  moreover have "int (card (partitions_of s')) \<le> cfg_queue_max_partitions cfg"
    using C(6) card_mono[OF finite_partitions trimmed_partitions[OF t]] by linarith
  ultimately show ?thesis using C T by (simp add: cc_core_def batch_ok_def)
qed

definition dead_leases :: "coordinator \<Rightarrow> bool" where
  "dead_leases s \<longleftrightarrow> cc_cancelled_leases s \<inter> live_keys s = {}"

lemma live_keys_trimmed: "trimmed s s' \<Longrightarrow> live_keys s' \<subseteq> live_keys s"
  unfolding trimmed_def live_keys_def by blast

lemma pop_pending_spec:
  assumes core: "cc_core cfg s" and dead: "dead_leases s"
  shows "trimmed s (pop_pending tp s)" "dead_leases (pop_pending tp s)" "pend (pop_pending tp s) tp = None"
proof -
  show t: "trimmed s (pop_pending tp s)"
    by (auto simp: trimmed_def pop_pending_def cancel_lease_def dict_simps split: option.splits if_splits)
  show "pend (pop_pending tp s) tp = None"
    by (auto simp: pop_pending_def cancel_lease_def dict_simps split: option.splits)
  show "dead_leases (pop_pending tp s)"
  proof (cases "pend s tp")
    case None
    then show ?thesis using dead by (simp add: pop_pending_def)
  next
    case (Some c)
    note C = cc_coreD[OF core]
    have "lease_key c \<notin> live_keys (pop_pending tp s)"
    proof
      assume "lease_key c \<in> live_keys (pop_pending tp s)"
      then obtain d tp' where d: "pend (pop_pending tp s) tp' = Some d \<or> inflight (pop_pending tp s) tp' = Some d"
        "lease_key d = lease_key c"
        unfolding live_keys_def by force
      have dd: "tp' \<noteq> tp \<and> pend s tp' = Some d \<or> inflight s tp' = Some d"
        using d(1) Some by (auto simp: pop_pending_def cancel_lease_def dict_simps split: if_splits)
      have "cand_tp c = tp" by (rule pending_okD(1)[OF C(3) Some])
      moreover have "cand_tp d = tp'" using dd pending_okD(1)[OF C(3)] in_flight_okD(1)[OF C(4)] by blast
      ultimately have "inflight s tp = Some d" "cand_lease_id d = cand_lease_id c" using d(2) dd by auto
      then show False using pending_okD(5)[OF C(3) Some] by fastforce
    qed
    then show ?thesis
      using dead live_keys_trimmed[OF t] Some unfolding dead_leases_def
      by (auto simp: pop_pending_def cancel_lease_def)
  qed
qed

lemma pop_in_flight_spec:
  assumes core: "cc_core cfg s" and dead: "dead_leases s"
  shows "trimmed s (pop_in_flight tp s)" "dead_leases (pop_in_flight tp s)" "inflight (pop_in_flight tp s) tp = None"
proof -
  show t: "trimmed s (pop_in_flight tp s)"
    by (auto simp: trimmed_def pop_in_flight_def cancel_lease_def dict_simps split: option.splits if_splits)
  show "inflight (pop_in_flight tp s) tp = None"
    by (auto simp: pop_in_flight_def cancel_lease_def dict_simps split: option.splits)
  show "dead_leases (pop_in_flight tp s)"
  proof (cases "inflight s tp")
    case None
    then show ?thesis using dead by (simp add: pop_in_flight_def)
  next
    case (Some c)
    note C = cc_coreD[OF core]
    have "lease_key c \<notin> live_keys (pop_in_flight tp s)"
    proof
      assume "lease_key c \<in> live_keys (pop_in_flight tp s)"
      then obtain d tp' where d: "pend (pop_in_flight tp s) tp' = Some d \<or> inflight (pop_in_flight tp s) tp' = Some d"
        "lease_key d = lease_key c"
        unfolding live_keys_def by force
      have dd: "pend s tp' = Some d \<or> tp' \<noteq> tp \<and> inflight s tp' = Some d"
        using d(1) Some by (auto simp: pop_in_flight_def cancel_lease_def dict_simps split: if_splits)
      have "cand_tp c = tp" by (rule in_flight_okD(1)[OF C(4) Some])
      moreover have "cand_tp d = tp'" using dd pending_okD(1)[OF C(3)] in_flight_okD(1)[OF C(4)] by blast
      ultimately have "pend s tp = Some d" "cand_lease_id d = cand_lease_id c" using d(2) dd by auto
      then show False using pending_okD(5)[OF C(3), of tp d c] Some by fastforce
    qed
    then show ?thesis
      using dead live_keys_trimmed[OF t] Some unfolding dead_leases_def
      by (auto simp: pop_in_flight_def cancel_lease_def)
  qed
qed

lemma cc_inv_dead: "cc_inv cfg s \<Longrightarrow> dead_leases s"
  by (simp add: cc_inv_def dead_leases_def)

text \<open>A sequence of such operations, closed by pruning.\<close>

lemma prune_trimmed:
  assumes inv: "cc_inv cfg s" and t: "trimmed s s'" and dead: "dead_leases s'"
  shows "cc_inv cfg (prune_cancelled_leases s')" "lease_frame s (prune_cancelled_leases s')"
proof -
  have core: "cc_core cfg s'" by (rule cc_core_trimmed[OF _ t]) (use inv in \<open>simp add: cc_inv_def\<close>)
  show i: "cc_inv cfg (prune_cancelled_leases s')"
    by (rule prune_inv[OF core]) (use dead in \<open>simp add: dead_leases_def\<close>)
  show "lease_frame s (prune_cancelled_leases s')"
  proof (rule lease_frameI)
    show "cc_cancelled_leases s = {}" "cc_cancelled_leases (prune_cancelled_leases s') = {}"
      using inv i by (simp_all add: cc_inv_def)
  qed (use t in \<open>auto simp: trimmed_def prune_cancelled_leases_def\<close>)
qed

lemma stop_fold_spec:
  "cc_core cfg s \<Longrightarrow> dead_leases s \<Longrightarrow>
     trimmed s (fold (\<lambda>tp s. pop_pending tp
       (s\<lparr>cc_stopped_partitions := insert tp (cc_stopped_partitions s)\<rparr>)) tps s) \<and>
     dead_leases (fold (\<lambda>tp s. pop_pending tp
       (s\<lparr>cc_stopped_partitions := insert tp (cc_stopped_partitions s)\<rparr>)) tps s)"
proof (induction tps arbitrary: s)
  case (Cons tp tps)
  let ?a = "s\<lparr>cc_stopped_partitions := insert tp (cc_stopped_partitions s)\<rparr>"
  have a: "cc_core cfg ?a" "dead_leases ?a" "trimmed s ?a"
    using Cons.prems cc_core_cong[of ?a s cfg] by (simp_all add: dead_leases_def live_keys_def trimmed_def)
  note P = pop_pending_spec[OF a(1,2), of tp]
  show ?case
    using Cons.IH[OF cc_core_trimmed[OF a(1) P(1)] P(2)] trimmed_trans[OF trimmed_trans[OF a(3) P(1)]] by simp
qed simp

lemma cancel_fold_spec:
  "cc_core cfg s \<Longrightarrow> dead_leases s \<Longrightarrow>
     trimmed s (fold (\<lambda>tp s. pop_in_flight tp (pop_pending tp s)) tps s) \<and>
     dead_leases (fold (\<lambda>tp s. pop_in_flight tp (pop_pending tp s)) tps s) \<and>
     (\<forall>tp \<in> set tps. pend (fold (\<lambda>tp s. pop_in_flight tp (pop_pending tp s)) tps s) tp = None \<and>
        inflight (fold (\<lambda>tp s. pop_in_flight tp (pop_pending tp s)) tps s) tp = None)"
proof (induction tps arbitrary: s)
  case (Cons tp tps)
  note P = pop_pending_spec[OF Cons.prems, of tp]
  note F = pop_in_flight_spec[OF cc_core_trimmed[OF Cons.prems(1) P(1)] P(2), of tp]
  let ?a = "pop_in_flight tp (pop_pending tp s)"
  let ?b = "fold (\<lambda>tp s. pop_in_flight tp (pop_pending tp s)) tps ?a"
  have a: "trimmed s ?a" by (rule trimmed_trans[OF P(1) F(1)])
  note IH = Cons.IH[OF cc_core_trimmed[OF Cons.prems(1) a] F(2)]
  have "pend ?a tp = None" "inflight ?a tp = None"
    by (rule trimmed_None(1)[OF F(1) P(3)], rule F(3))
  then have "pend ?b tp = None" "inflight ?b tp = None"
    using trimmed_None[OF conjunct1[OF IH], of tp] by blast+
  then show ?case using IH trimmed_trans[OF a] by simp
qed simp

lemma stop_partitions_inv:
  assumes "cc_inv cfg s"
  shows "cc_inv cfg (stop_accepting_partitions tps s)" "lease_frame s (stop_accepting_partitions tps s)"
    "cc_latest_settled_offsets (stop_accepting_partitions tps s) = cc_latest_settled_offsets s"
proof -
  have F: "trimmed s (fold (\<lambda>tp s. pop_pending tp
       (s\<lparr>cc_stopped_partitions := insert tp (cc_stopped_partitions s)\<rparr>)) tps s)"
    "dead_leases (fold (\<lambda>tp s. pop_pending tp
       (s\<lparr>cc_stopped_partitions := insert tp (cc_stopped_partitions s)\<rparr>)) tps s)"
    using stop_fold_spec[of cfg s tps] assms cc_inv_dead[OF assms] by (simp_all add: cc_inv_def)
  show "cc_inv cfg (stop_accepting_partitions tps s)" "lease_frame s (stop_accepting_partitions tps s)"
    unfolding stop_accepting_partitions_def by (rule prune_trimmed[OF assms F])+
  show "cc_latest_settled_offsets (stop_accepting_partitions tps s) = cc_latest_settled_offsets s"
    using F(1) by (simp add: stop_accepting_partitions_def prune_cancelled_leases_def trimmed_def)
qed

lemma cancel_leases_inv:
  assumes "cc_inv cfg s"
  shows "cc_inv cfg (cancel_leases tps s)" "lease_frame s (cancel_leases tps s)"
    "cc_latest_settled_offsets (cancel_leases tps s) = cc_latest_settled_offsets s"
    "cc_lease_counter (cancel_leases tps s) = cc_lease_counter s"
    "tp \<in> set tps \<Longrightarrow> pend (cancel_leases tps s) tp = None \<and> inflight (cancel_leases tps s) tp = None"
proof -
  have F: "trimmed s (fold (\<lambda>tp s. pop_in_flight tp (pop_pending tp s)) tps s)"
    "dead_leases (fold (\<lambda>tp s. pop_in_flight tp (pop_pending tp s)) tps s)"
    "\<And>tp. tp \<in> set tps \<Longrightarrow> pend (fold (\<lambda>tp s. pop_in_flight tp (pop_pending tp s)) tps s) tp = None \<and>
        inflight (fold (\<lambda>tp s. pop_in_flight tp (pop_pending tp s)) tps s) tp = None"
    using cancel_fold_spec[of cfg s tps] assms cc_inv_dead[OF assms] by (simp_all add: cc_inv_def)
  show "cc_inv cfg (cancel_leases tps s)" "lease_frame s (cancel_leases tps s)"
    unfolding cancel_leases_def by (rule prune_trimmed[OF assms F(1,2)])+
  show "cc_latest_settled_offsets (cancel_leases tps s) = cc_latest_settled_offsets s"
    "cc_lease_counter (cancel_leases tps s) = cc_lease_counter s"
    "tp \<in> set tps \<Longrightarrow> pend (cancel_leases tps s) tp = None \<and> inflight (cancel_leases tps s) tp = None"
    using F by (simp_all add: cancel_leases_def prune_cancelled_leases_def trimmed_def)
qed


subsection \<open>The worker's sections\<close>

lemma fold_set_get:
  "distinct (map f xs) \<Longrightarrow> dict_get (fold (\<lambda>x. dict_set (f x) (g x)) xs d) k =
     (case find (\<lambda>x. f x = k) xs of None \<Rightarrow> dict_get d k | Some x \<Rightarrow> Some (g x))"
proof (induction xs arbitrary: d)
  case (Cons x xs)
  have "find (\<lambda>y. f y = f x) xs = None" using Cons.prems by (force simp: find_None_iff image_iff)
  then show ?case using Cons by (auto simp: dict_simps split: option.splits)
qed simp

lemma fold_set_wf: "dict_wf d \<Longrightarrow> dict_wf (fold (\<lambda>x. dict_set (f x) (g x)) xs d)"
  by (induction xs arbitrary: d) simp_all

lemma find_key:
  assumes "distinct (map f xs)" "x \<in> set xs" "f x = k" shows "find (\<lambda>y. f y = k) xs = Some x"
  using assms by (induction xs) auto

lemma values_keys:
  assumes "dict_wf d" "\<And>tp c. dict_get d tp = Some c \<Longrightarrow> cand_tp c = tp"
  shows "map cand_tp (dict_values d) = map fst d"
  using assms by (auto simp: dict_values_def dict_in_set_iff[symmetric])

lemma rebuild_get:
  assumes wf: "dict_wf d" and tp: "\<And>tp c. dict_get d tp = Some c \<Longrightarrow> cand_tp c = tp"
  shows "dict_get (fold (\<lambda>c. dict_set (cand_tp c) c) (dict_values d) []) = dict_get d"
proof
  fix k
  have dist: "distinct (map cand_tp (dict_values d))"
    using wf values_keys[OF wf tp] by (simp add: dict_wf_def)
  show "dict_get (fold (\<lambda>c. dict_set (cand_tp c) c) (dict_values d) []) k = dict_get d k"
  proof (cases "dict_get d k")
    case None
    then have "find (\<lambda>c. cand_tp c = k) (dict_values d) = None"
      using dict_values_iff[OF wf] tp by (auto simp: find_None_iff)
    then show ?thesis using None fold_set_get[OF dist, of "\<lambda>c. c" "[]" k] by simp
  next
    case (Some c)
    then have "find (\<lambda>c. cand_tp c = k) (dict_values d) = Some c"
      using find_key[OF dist, of c k] dict_values_iff[OF wf] tp by blast
    then show ?thesis using Some fold_set_get[OF dist, of "\<lambda>c. c" "[]" k] by simp
  qed
qed

lemma worker_begin_inv:
  assumes inv: "cc_inv cfg s" and w: "cc_worker s = LoopHead"
  shows "cc_inv cfg (worker_begin now s)" "lease_frame s (worker_begin now s)"
    "cc_latest_settled_offsets (worker_begin now s) = cc_latest_settled_offsets s"
proof -
  show "cc_latest_settled_offsets (worker_begin now s) = cc_latest_settled_offsets s"
    by (simp add: worker_begin_def Let_def)
  note C = cc_coreD[OF inv[unfolded cc_inv_def, THEN conjunct1]]
  note P = pending_okD[OF C(3)]
  let ?s = "worker_begin now s"
  have "cc_inv cfg ?s \<and> lease_frame s ?s"
  proof (cases "cc_pending s \<noteq> [] \<and> cc_healthy s")
    case False
    then have eq: "?s = s\<lparr>cc_worker := NoTask\<rparr>" by (auto simp: worker_begin_def)
    show ?thesis
      using cc_inv_worker[OF inv, of NoTask] lease_frame_cong[OF lease_frame_refl, of ?s s] w by (simp add: eq)
  next
    case True
    have f: "cc_pending ?s = []" "cc_worker ?s = Committing (dict_values (cc_pending s)) now"
      "cc_lease_counter ?s = cc_lease_counter s" "settled ?s = settled s"
      "cc_cancelled_leases ?s = {}"
      "cc_in_flight ?s = fold (\<lambda>c. dict_set (cand_tp c) c) (dict_values (cc_pending s)) []"
      using True inv by (simp_all add: worker_begin_def Let_def settled_def fun_eq_iff cc_inv_def)
    have fl: "inflight ?s = pend s" unfolding f(6) by (rule rebuild_get[OF C(1) P(1)])
    have vals: "c \<in> set (dict_values (cc_pending s)) \<longleftrightarrow> (\<exists>tp. pend s tp = Some c)" for c
      by (rule dict_values_iff[OF C(1)])
    have "in_flight_ok ?s"
      unfolding in_flight_ok_def fl f(2-4) using P vals by (metis announcing.simps(4) batch_of.simps(1))
    moreover have "pending_ok ?s" by (simp add: pending_ok_def f(1))
    moreover have "batch_ok ?s"
      using values_keys[OF C(1) P(1)] C(1) P(2) vals by (auto simp: batch_ok_def f dict_wf_def)
    moreover have "partitions_of ?s \<subseteq> partitions_of s" by (auto simp: partitions_of_def f(1) fl)
    then have "int (card (partitions_of ?s)) \<le> cfg_queue_max_partitions cfg"
      using C(6) card_mono[OF finite_partitions[of s], of "partitions_of ?s"] by linarith
    moreover have "dict_wf (cc_in_flight ?s)" unfolding f(6) by (rule fold_set_wf) simp
    ultimately have "cc_inv cfg ?s" by (simp add: cc_inv_def cc_core_def f(1,5))
    moreover have "lease_frame s ?s"
      by (rule lease_frameI) (use inv fl f(1,3,5) in \<open>simp_all add: cc_inv_def\<close>)
    ultimately show ?thesis by simp
  qed
  then show "cc_inv cfg ?s" "lease_frame s ?s" by simp_all
qed

lemma batch_active:
  assumes inv: "cc_inv cfg s" and na: "\<not> announcing (cc_worker s)" and d: "d \<in> set (batch_of (cc_worker s))"
  shows "active s d \<longleftrightarrow> inflight s (cand_tp d) = Some d"
proof
  note C = cc_coreD[OF inv[unfolded cc_inv_def, THEN conjunct1]]
  have can: "cc_cancelled_leases s = {}" using inv by (simp add: cc_inv_def)
  show "active s d" if "inflight s (cand_tp d) = Some d" using that by (auto simp: active_iff[OF can])
  assume "active s d"
  then obtain c where c: "pend s (cand_tp d) = Some c \<or> inflight s (cand_tp d) = Some c"
    "cand_lease_id c = cand_lease_id d" by (auto simp: active_iff[OF can])
  have "pend s (cand_tp d) \<noteq> Some c" using pending_okD(4)[OF C(3), of "cand_tp d" c d] d c(2) by auto
  then have inf: "inflight s (cand_tp d) = Some c" using c(1) by blast
  then have "c \<in> set (batch_of (cc_worker s))" "cand_tp c = cand_tp d"
    using in_flight_okD(1,4)[OF C(4) inf] na by simp_all
  then have "c = d" using C(5) d unfolding batch_ok_def distinct_map by (metis inj_onD)
  then show "inflight s (cand_tp d) = Some d" using inf by simp
qed

lemma fold_requeue:
  assumes "cc_cancelled_leases s = {}" "distinct (map cand_tp b)"
    "\<And>d. d \<in> set b \<Longrightarrow> active s d \<longleftrightarrow> inflight s (cand_tp d) = Some d"
  shows "pend (fold requeue b s) tp =
      (if \<exists>d \<in> set b. cand_tp d = tp \<and> inflight s tp = Some d then inflight s tp else pend s tp) \<and>
    (\<exists>p. fold requeue b s = s\<lparr>cc_pending := p\<rparr> \<and> (dict_wf (cc_pending s) \<longrightarrow> dict_wf p))"
  using assms
proof (induction b arbitrary: s)
  case Nil
  then show ?case by (auto intro: exI[of _ "cc_pending s"])
next
  case (Cons c b)
  let ?s = "requeue c s"
  have act: "active s c \<longleftrightarrow> inflight s (cand_tp c) = Some c" using Cons.prems(3) by simp
  have s': "?s = (if inflight s (cand_tp c) = Some c then s\<lparr>cc_pending := dict_set (cand_tp c) c (cc_pending s)\<rparr> else s)"
    by (simp add: requeue_def act)
  have can: "cc_cancelled_leases ?s = {}" using Cons.prems(1) by (simp add: s')
  have other: "active ?s d \<longleftrightarrow> inflight ?s (cand_tp d) = Some d" if d: "d \<in> set b" for d
  proof -
    have "cand_tp d \<noteq> cand_tp c" using Cons.prems(2) d by (auto simp: image_iff)
    then have "active ?s d = active s d" by (simp add: s' is_active_lease_def dict_simps)
    then show ?thesis using Cons.prems(3)[of d] d by (simp add: s')
  qed
  have IH: "pend (fold requeue b ?s) tp =
      (if \<exists>d \<in> set b. cand_tp d = tp \<and> inflight ?s tp = Some d then inflight ?s tp else pend ?s tp) \<and>
    (\<exists>p. fold requeue b ?s = ?s\<lparr>cc_pending := p\<rparr> \<and> (dict_wf (cc_pending ?s) \<longrightarrow> dict_wf p))"
    by (rule Cons.IH[OF can _ other]) (use Cons.prems(2) in simp_all)
  have ne: "\<forall>d \<in> set b. cand_tp d \<noteq> cand_tp c" using Cons.prems(2) by (auto simp: image_iff)
  show ?case
  proof (cases "inflight s (cand_tp c) = Some c")
    case True
    then show ?thesis using IH ne by (auto simp: s' dict_simps)
  next
    case False
    then show ?thesis using IH by (auto simp: s')
  qed
qed


text \<open>Retrying puts every candidate that is still in flight back into the outbox.\<close>

lemma kafka_finish_inv:
  assumes inv: "cc_inv cfg s" and na: "\<not> announcing (cc_worker s)"
    and b: "batch = batch_of (cc_worker s)"
  defines "t \<equiv> finish_failure cfg KafkaFailure batch s"
  shows "cc_inv cfg t" "lease_frame s t" "cc_latest_settled_offsets t = cc_latest_settled_offsets s"
    "pend t tp = (case inflight s tp of None \<Rightarrow> pend s tp | Some d \<Rightarrow> Some d)" "cc_in_flight t = []"
proof -
  note C = cc_coreD[OF inv[unfolded cc_inv_def, THEN conjunct1]]
  have can: "cc_cancelled_leases s = {}" using inv by (simp add: cc_inv_def)
  have dist: "distinct (map cand_tp batch)" using C(5) b by (simp add: batch_ok_def)
  note R = fold_requeue[OF can dist batch_active[OF inv na, folded b]]
  obtain p where p: "fold requeue batch s = s\<lparr>cc_pending := p\<rparr>" "dict_wf p"
    using R C(1) by blast
  have mem: "(\<exists>d \<in> set batch. cand_tp d = tp \<and> inflight s tp = Some d) \<longleftrightarrow> inflight s tp \<noteq> None" for tp
    using in_flight_okD(1,4)[OF C(4), of tp] na b by auto
  have pget: "dict_get p tp = (case inflight s tp of None \<Rightarrow> pend s tp | Some d \<Rightarrow> Some d)" for tp
    using R[of tp] unfolding mem p(1) by (auto split: option.splits)
  have t: "t = s\<lparr>cc_pending := p, cc_in_flight := [], cc_worker := Backoff (retry_backoff_seconds cfg)\<rparr>"
    using can by (simp add: t_def finish_failure_def p(1) clear_in_flight_def prune_cancelled_leases_def)
  show "pend t tp = (case inflight s tp of None \<Rightarrow> pend s tp | Some d \<Rightarrow> Some d)" "cc_in_flight t = []"
    "cc_latest_settled_offsets t = cc_latest_settled_offsets s"
    using pget by (simp_all add: t)
  have set: "settled t = settled s" by (simp add: settled_def t fun_eq_iff)
  have "pending_ok t"
    unfolding pending_ok_def set
  proof (intro allI impI)
    fix tp c assume c: "pend t tp = Some c"
    then have "inflight s tp = Some c \<or> pend s tp = Some c" using pget by (auto simp: t split: option.splits)
    then have "cand_tp c = tp" "cand_lease_id c \<le> cc_lease_counter s" "settled s tp < cand_safe_offset c"
      using pending_okD(1-3)[OF C(3), of tp c] in_flight_okD(1,2,5)[OF C(4), of tp c] na by auto
    then show "cand_tp c = tp \<and> cand_lease_id c \<le> cc_lease_counter t \<and> settled s tp < cand_safe_offset c \<and>
        (\<forall>d \<in> set (batch_of (cc_worker t)). cand_lease_id d < cand_lease_id c) \<and>
        (\<forall>d. inflight t tp = Some d \<longrightarrow> cand_lease_id d < cand_lease_id c \<and> cand_safe_offset d < cand_safe_offset c)"
      by (simp add: t)
  qed
  moreover have "partitions_of t = partitions_of s"
    using pget by (auto simp: partitions_of_def t split: option.splits)
  ultimately show "cc_inv cfg t"
    using C(6) p(2) can by (simp add: cc_inv_def cc_core_def in_flight_ok_def batch_ok_def t)
  show "lease_frame s t"
    by (rule lease_frameI) (use can pget in \<open>auto simp: t split: option.splits\<close>)
qed

text \<open>Giving up a batch cancels its leases and keeps the outbox.\<close>

lemma fold_cancel_lease:
  "fold cancel_lease b s = s\<lparr>cc_cancelled_leases := cc_cancelled_leases s \<union> lease_key ` set b\<rparr>"
  by (induction b arbitrary: s) (simp_all add: cancel_lease_def insert_commute Un_insert_left)

lemma give_up_inv:
  assumes inv: "cc_inv cfg s" and w: "batch_of w = []" "\<not> announcing w"
    and b: "set b \<subseteq> set (batch_of (cc_worker s))"
  defines "t \<equiv> (clear_in_flight (fold cancel_lease b s))\<lparr>cc_worker := w\<rparr>"
  shows "cc_inv cfg t" "lease_frame s t" "cc_latest_settled_offsets t = cc_latest_settled_offsets s"
    "cc_pending t = cc_pending s" "cc_in_flight t = []"
proof -
  note C = cc_coreD[OF inv[unfolded cc_inv_def, THEN conjunct1]]
  have can: "cc_cancelled_leases s = {}" using inv by (simp add: cc_inv_def)
  have "lease_key ` set b \<inter> lease_key ` set (dict_values (cc_pending s)) = {}"
  proof -
    have "lease_key d \<noteq> lease_key c" if d: "d \<in> set b" and c: "c \<in> set (dict_values (cc_pending s))" for c d
    proof -
      obtain tp where "pend s tp = Some c" using c dict_values_iff[OF C(1)] by blast
      then show ?thesis using pending_okD(4)[OF C(3), of tp c d] d b by auto
    qed
    then show ?thesis by blast
  qed
  then have t: "t = s\<lparr>cc_in_flight := [], cc_worker := w\<rparr>"
    using can by (simp add: t_def clear_in_flight_def fold_cancel_lease prune_cancelled_leases_def dict_values_def)
  have "trimmed s (s\<lparr>cc_in_flight := []\<rparr>)" by (simp add: trimmed_def)
  then have core: "cc_core cfg (s\<lparr>cc_in_flight := []\<rparr>)" by (rule cc_core_trimmed[OF inv[unfolded cc_inv_def, THEN conjunct1]])
  have "cc_core cfg t"
    using core w unfolding cc_core_def pending_ok_def in_flight_ok_def batch_ok_def
    by (simp add: t partitions_of_def settled_def)
  then show "cc_inv cfg t" using can by (simp add: cc_inv_def t)
  show "lease_frame s t" by (rule lease_frameI) (use can in \<open>auto simp: t\<close>)
  show "cc_latest_settled_offsets t = cc_latest_settled_offsets s" "cc_pending t = cc_pending s" "cc_in_flight t = []"
    by (simp_all add: t)
qed

lemma finish_failure_inv:
  assumes "cc_inv cfg s" "\<not> announcing (cc_worker s)" "batch = batch_of (cc_worker s)"
  shows "cc_inv cfg (finish_failure cfg kind batch s) \<and> lease_frame s (finish_failure cfg kind batch s) \<and>
    cc_latest_settled_offsets (finish_failure cfg kind batch s) = cc_latest_settled_offsets s"
proof (cases kind)
  case KafkaFailure
  then show ?thesis using kafka_finish_inv[OF assms] by simp
next
  case BatchAborted
  then show ?thesis using give_up_inv[OF assms(1), of LoopHead batch] assms(3) by (simp add: finish_failure_def)
next
  case WorkerCrash
  then show ?thesis using give_up_inv[OF assms(1), of NoTask batch] assms(3) by (simp add: finish_failure_def)
qed

lemma after_silent:
  assumes "cc_inv cfg t \<and> lease_frame s1 t \<and> cc_latest_settled_offsets t = cc_latest_settled_offsets s1"
    "lease_frame s s1" "cc_latest_settled_offsets s1 = cc_latest_settled_offsets s"
  shows "cc_inv cfg t \<and> lease_frame s t \<and> cc_latest_settled_offsets t = cc_latest_settled_offsets s"
  using assms lease_frame_trans by metis

lemma fail_closed_inv:
  "cc_inv cfg s \<Longrightarrow> cc_inv cfg (fail_closed n s)" "lease_frame s (fail_closed n s)"
  by (erule cc_inv_cong, simp_all add: fail_closed_def)
    (rule lease_frame_cong[OF lease_frame_refl], simp_all add: fail_closed_def)

lemma worker_failed_inv:
  fixes kind :: failure_kind and now :: real
  assumes inv: "cc_inv cfg s" and w: "cc_worker s = Committing batch started"
  defines "t \<equiv> worker_failed cfg kind now batch started s"
  shows "cc_inv cfg t \<and> lease_frame s t \<and> cc_latest_settled_offsets t = cc_latest_settled_offsets s"
proof -
  define s0 where "s0 = (if kind = WorkerCrash then fail_closed (int (length batch)) s else s)"
  define s1 where "s1 = (if kind = KafkaFailure
    then s0\<lparr>cc_retry_count := cc_retry_count s0 + int (length batch)\<rparr> else s0)"
  define ts where "ts = failure_settlements batch (failure_reason kind) (max 0 (now - started)) s0"
  have s1: "cc_pending s1 = cc_pending s" "cc_in_flight s1 = cc_in_flight s" "cc_lease_counter s1 = cc_lease_counter s"
    "cc_cancelled_leases s1 = cc_cancelled_leases s" "cc_worker s1 = cc_worker s"
    "cc_latest_settled_offsets s1 = cc_latest_settled_offsets s"
    by (simp_all add: s1_def s0_def fail_closed_def)
  have i1: "cc_inv cfg s1" by (rule cc_inv_cong[OF inv]) (use s1 in simp_all)
  have f1: "lease_frame s s1" by (rule lease_frame_cong[OF lease_frame_refl]) (use s1 in simp_all)
  have t: "t = (if ts \<noteq> [] then s1\<lparr>cc_worker := FailureCallback kind batch ts\<rparr> else finish_failure cfg kind batch s1)"
    by (simp add: t_def worker_failed_def Let_def s0_def s1_def ts_def)
  show ?thesis
  proof (cases "ts = []")
    case True
    then have "t = finish_failure cfg kind batch s1" by (simp add: t)
    moreover have "\<not> announcing (cc_worker s1)" "batch = batch_of (cc_worker s1)" using s1(5) w by simp_all
    ultimately show ?thesis using after_silent[OF finish_failure_inv[OF i1] f1 s1(6)] by simp
  next
    case False
    have "cc_inv cfg (s1\<lparr>cc_worker := FailureCallback kind batch ts\<rparr>)"
      by (rule cc_inv_worker[OF i1]) (use s1(5) w in simp_all)
    moreover have "lease_frame s (s1\<lparr>cc_worker := FailureCallback kind batch ts\<rparr>)"
      by (rule lease_frame_cong[OF f1]) simp_all
    ultimately show ?thesis using False s1(6) by (simp add: t)
  qed
qed

lemma failure_callback_inv:
  fixes raised :: bool
  assumes inv: "cc_inv cfg s" and w: "cc_worker s = FailureCallback kind batch ts"
  defines "t \<equiv> failure_callback_done cfg kind batch ts raised s"
  shows "cc_inv cfg t \<and> lease_frame s t \<and> cc_latest_settled_offsets t = cc_latest_settled_offsets s"
proof -
  define s1 where "s1 = (if raised then fail_closed (int (length ts)) s else s)"
  have i: "cc_inv cfg s1" "lease_frame s s1" using inv fail_closed_inv(1)[OF inv] fail_closed_inv(2) by (simp_all add: s1_def)
  have f: "cc_worker s1 = cc_worker s" "cc_latest_settled_offsets s1 = cc_latest_settled_offsets s"
    by (simp_all add: s1_def fail_closed_def)
  have "t = finish_failure cfg kind batch s1" by (simp add: t_def failure_callback_done_def s1_def)
  moreover have "\<not> announcing (cc_worker s1)" "batch = batch_of (cc_worker s1)" using f(1) w by simp_all
  ultimately show ?thesis using after_silent[OF finish_failure_inv[OF i(1)] i(2) f(2)] by simp
qed


text \<open>A confirmed commit settles exactly the part of the batch that is still in flight.\<close>

definition settles :: "coordinator \<Rightarrow> commit_settlement list \<Rightarrow> coordinator \<Rightarrow> bool" where
  "settles s out s' \<longleftrightarrow>
     distinct (map settle_tp out) \<and>
     (\<forall>t \<in> set out. settle_success t \<and> settled s (settle_tp t) < settle_safe_offset t \<and>
        is_active_lease s (settle_tp t) (settle_assignment_epoch t) (settle_lease_id t)) \<and>
     (\<forall>tp. dict_get (cc_latest_settled_offsets s') tp =
        (case find (\<lambda>t. settle_tp t = tp) out of
           None \<Rightarrow> dict_get (cc_latest_settled_offsets s) tp
         | Some t \<Rightarrow> Some (settle_safe_offset t)))"

lemma settles_nothing:
  "cc_latest_settled_offsets s' = cc_latest_settled_offsets s \<Longrightarrow> settles s [] s'"
  by (simp add: settles_def)

lemma worker_succeeded_inv:
  assumes inv: "cc_inv cfg s" and w: "cc_worker s = Committing batch started"
    and run: "worker_succeeded now batch started s = (out, s')"
  shows "cc_inv cfg s'" "lease_frame s s'" "settles s out s'"
    "out = map (make_settlement True None (max 0 (now - started))) (filter (\<lambda>d. inflight s (cand_tp d) = Some d) batch)"
    "cc_pending s' = cc_pending s"
proof -
  note C = cc_coreD[OF inv[unfolded cc_inv_def, THEN conjunct1]]
  have can: "cc_cancelled_leases s = {}" using inv by (simp add: cc_inv_def)
  have bt: "batch = batch_of (cc_worker s)" and na: "\<not> announcing (cc_worker s)" using w by simp_all
  let ?mk = "make_settlement True None (max 0 (now - started))"
  let ?act = "filter (\<lambda>d. inflight s (cand_tp d) = Some d) batch"
  have act: "filter (active s) batch = ?act"
    by (rule filter_cong) (use batch_active[OF inv na] bt in simp_all)
  show out: "out = map ?mk ?act"
    using run unfolding worker_succeeded_def act by (auto simp: Let_def split: if_splits)
  have mk [simp]: "settle_tp (?mk d) = cand_tp d" "settle_safe_offset (?mk d) = cand_safe_offset d"
    "settle_success (?mk d)" "settle_assignment_epoch (?mk d) = cand_assignment_epoch d"
    "settle_lease_id (?mk d) = cand_lease_id d" for d
    by (simp_all add: make_settlement_def)
  have dist: "distinct (map settle_tp out)"
    using C(5) bt unfolding out batch_ok_def by (simp add: comp_def distinct_map_filter)
  have mem: "(\<exists>t. t \<in> set out \<and> settle_tp t = tp \<and> settle_safe_offset t = n) \<longleftrightarrow>
      (\<exists>d. inflight s tp = Some d \<and> cand_safe_offset d = n)" for tp n
  proof
    assume "\<exists>t. t \<in> set out \<and> settle_tp t = tp \<and> settle_safe_offset t = n"
    then show "\<exists>d. inflight s tp = Some d \<and> cand_safe_offset d = n" unfolding out by auto
  next
    assume "\<exists>d. inflight s tp = Some d \<and> cand_safe_offset d = n"
    then obtain d where d: "inflight s tp = Some d" "cand_safe_offset d = n" by blast
    have "d \<in> set batch" "cand_tp d = tp" using in_flight_okD(1,4)[OF C(4) d(1)] na bt by simp_all
    then show "\<exists>t. t \<in> set out \<and> settle_tp t = tp \<and> settle_safe_offset t = n"
      using d unfolding out by (intro exI[of _ "?mk d"]) simp
  qed
  show "settles s out s'"
  proof -
    have "settle_success t \<and> settled s (settle_tp t) < settle_safe_offset t \<and>
        is_active_lease s (settle_tp t) (settle_assignment_epoch t) (settle_lease_id t)" if "t \<in> set out" for t
      using that in_flight_okD(5)[OF C(4)] na unfolding out by (auto simp: active_iff[OF can])
    moreover have "dict_get (cc_latest_settled_offsets s') tp =
        (case find (\<lambda>t. settle_tp t = tp) out of
           None \<Rightarrow> dict_get (cc_latest_settled_offsets s) tp
         | Some t \<Rightarrow> Some (settle_safe_offset t))" for tp
    proof (cases "out = []")
      case True
      then have "cc_latest_settled_offsets s' = cc_latest_settled_offsets s"
        using run by (auto simp: worker_succeeded_def Let_def clear_in_flight_def prune_cancelled_leases_def split: if_splits)
      then show ?thesis using True by simp
    next
      case False
      then have "cc_latest_settled_offsets s' =
          fold (\<lambda>t. dict_set (settle_tp t) (settle_safe_offset t)) out (cc_latest_settled_offsets s)"
        using run by (auto simp: worker_succeeded_def Let_def split: if_splits)
      then show ?thesis using fold_set_get[OF dist, of settle_safe_offset] by simp
    qed
    ultimately show ?thesis using dist by (simp add: settles_def)
  qed
  have "cc_inv cfg s' \<and> lease_frame s s' \<and> cc_pending s' = cc_pending s"
  proof (cases "out = []")
    case True
    then have s': "s' = (clear_in_flight (fold cancel_lease [] s))\<lparr>cc_worker := LoopHead\<rparr>"
      using run by (auto simp: worker_succeeded_def Let_def split: if_splits)
    show ?thesis using give_up_inv[OF inv, of LoopHead "[]"] unfolding s' by simp
  next
    case False
    define L where "L = fold (\<lambda>t. dict_set (settle_tp t) (settle_safe_offset t)) out (cc_latest_settled_offsets s)"
    have s': "s' = s\<lparr>cc_success_count := cc_success_count s + int (length out),
        cc_latest_settled_offsets := L, cc_worker := SuccessCallback out\<rparr>"
      using run False by (auto simp: worker_succeeded_def Let_def L_def split: if_splits)
    have set: "settled s' tp = (case inflight s tp of None \<Rightarrow> settled s tp | Some d \<Rightarrow> cand_safe_offset d)" for tp
    proof (cases "inflight s tp")
      case None
      then have "find (\<lambda>t. settle_tp t = tp) out = None" using mem[of tp] by (auto simp: find_None_iff)
      then show ?thesis
        using None fold_set_get[OF dist, of settle_safe_offset "cc_latest_settled_offsets s" tp]
        by (simp add: settled_def s' dict_get_default_def L_def)
    next
      case (Some d)
      then obtain t where "t \<in> set out" "settle_tp t = tp" "settle_safe_offset t = cand_safe_offset d"
        using mem[of tp "cand_safe_offset d"] by blast
      then have "find (\<lambda>t. settle_tp t = tp) out = Some t" by (intro find_key[OF dist])
      then show ?thesis
        using Some \<open>settle_safe_offset t = cand_safe_offset d\<close>
          fold_set_get[OF dist, of settle_safe_offset "cc_latest_settled_offsets s" tp]
        by (simp add: settled_def s' dict_get_default_def L_def)
    qed
    have "pending_ok s'"
      unfolding pending_ok_def set
      using pending_okD[OF C(3)] by (auto simp: s' split: option.splits)
    moreover have "in_flight_ok s'"
      unfolding in_flight_ok_def set using in_flight_okD(1,2)[OF C(4)] by (auto simp: s')
    ultimately have "cc_inv cfg s'"
      using C(1,2,6) can by (simp add: cc_inv_def cc_core_def batch_ok_def s' partitions_of_def)
    moreover have "lease_frame s s'" by (rule lease_frame_cong[OF lease_frame_refl]) (simp_all add: s')
    ultimately show ?thesis by (simp add: s')
  qed
  then show "cc_inv cfg s'" "lease_frame s s'" "cc_pending s' = cc_pending s" by simp_all
qed

lemma success_callback_inv:
  assumes inv: "cc_inv cfg s" and w: "cc_worker s = SuccessCallback ts"
  shows "cc_inv cfg (success_callback_done ts raised s) \<and> lease_frame s (success_callback_done ts raised s) \<and>
    cc_latest_settled_offsets (success_callback_done ts raised s) = cc_latest_settled_offsets s"
proof -
  define s1 where "s1 = (if raised then fail_closed (int (length ts)) s else s)"
  have i: "cc_inv cfg s1" "lease_frame s s1" using inv fail_closed_inv(1)[OF inv] fail_closed_inv(2) by (simp_all add: s1_def)
  have f: "cc_latest_settled_offsets s1 = cc_latest_settled_offsets s"
    by (simp add: s1_def fail_closed_def)
  have eq: "success_callback_done ts raised s = (clear_in_flight (fold cancel_lease [] s1))\<lparr>cc_worker := LoopHead\<rparr>"
    by (simp add: success_callback_done_def s1_def)
  show ?thesis
    unfolding eq by (rule after_silent[OF _ i(2) f]) (use give_up_inv[OF i(1), of LoopHead "[]"] in simp)
qed

lemma cc_step_inv:
  assumes "cc_step cfg s out s'" "cc_inv cfg s"
  shows "cc_inv cfg s' \<and> lease_frame s s' \<and> settles s out s'"
  using assms
proof cases
  case (step_enqueue clock cs ok)
  then show ?thesis using enqueue_inv[OF assms(2)] by (simp add: settles_nothing)
next
  case step_stop
  then show ?thesis
    using cc_inv_cong[OF assms(2), of s'] lease_frame_cong[OF lease_frame_refl, of s' s]
    by (simp add: settles_nothing stop_accepting_def)
next
  case (step_stop_partitions tps)
  then show ?thesis using stop_partitions_inv[OF assms(2)] by (simp add: settles_nothing)
next
  case (step_start_partitions tps)
  then show ?thesis
    using cc_inv_cong[OF assms(2), of s'] lease_frame_cong[OF lease_frame_refl, of s' s]
    by (simp add: settles_nothing start_accepting_partitions_def)
next
  case (step_cancel tps)
  then show ?thesis using cancel_leases_inv[OF assms(2)] by (simp add: settles_nothing)
next
  case (step_drain deadline now sel r)
  then have "s' = s \<or> s' = ensure_worker s" by (auto simp: drain_turn_def Let_def split: if_splits)
  moreover have "lease_frame s (ensure_worker s)"
    by (rule lease_frame_cong[OF lease_frame_refl]) (simp_all add: ensure_worker_def)
  moreover have "cc_latest_settled_offsets (ensure_worker s) = cc_latest_settled_offsets s"
    by (simp add: ensure_worker_def)
  ultimately show ?thesis using step_drain(1) assms(2) ensure_worker_inv[OF assms(2)] by (auto simp: settles_nothing)
next
  case (step_begin now)
  then show ?thesis using worker_begin_inv[OF assms(2)] by (simp add: settles_nothing)
next
  case (step_failed batch started kind now)
  then show ?thesis using worker_failed_inv[OF assms(2)] by (simp add: settles_nothing)
next
  case (step_failure_callback kind batch ts raised)
  then show ?thesis using failure_callback_inv[OF assms(2)] by (simp add: settles_nothing)
next
  case (step_succeeded batch started now)
  then show ?thesis using worker_succeeded_inv[OF assms(2)] by simp
next
  case (step_success_callback ts raised)
  then show ?thesis using success_callback_inv[OF assms(2)] by (simp add: settles_nothing)
next
  case (step_backoff d)
  then show ?thesis
    using cc_inv_worker[OF assms(2), of LoopHead] lease_frame_cong[OF lease_frame_refl, of s' s]
    by (simp add: settles_nothing)
qed


section \<open>Runs\<close>

lemma cc_run_inv:
  "cc_run cfg s tr t \<Longrightarrow> cc_inv cfg s \<Longrightarrow> cc_inv cfg t \<and> lease_frame s t"
proof (induction rule: cc_run.induct)
  case (run_more s tr t out u)
  then show ?case using cc_step_inv[of cfg t out u] lease_frame_trans[of s t u] by blast
qed simp

lemma cc_reach_inv:
  "cc_run cfg coordinator_init tr s \<Longrightarrow> 0 \<le> cfg_queue_max_partitions cfg \<Longrightarrow> cc_inv cfg s"
  using cc_run_inv cc_inv_init by blast

lemma filter_key:
  "distinct (map f xs) \<Longrightarrow> filter (\<lambda>x. f x = k) xs = (case find (\<lambda>x. f x = k) xs of None \<Rightarrow> [] | Some x \<Rightarrow> [x])"
proof (induction xs)
  case (Cons x xs)
  have "filter (\<lambda>y. f y = k) xs = []" if "f x = k"
    using Cons.prems that by (auto simp: filter_empty_conv image_iff)
  then show ?case using Cons by auto
qed simp

abbreviation settled_log :: "commit_settlement list \<Rightarrow> topic_partition \<Rightarrow> int list" where
  "settled_log tr tp \<equiv> map settle_safe_offset (filter (\<lambda>t. settle_tp t = tp) tr)"

lemma settle_log_le_last: "sorted_wrt (<) xs \<Longrightarrow> x \<in> set xs \<Longrightarrow> x \<le> last (xs :: int list)"
  by (induction xs) (auto simp: less_imp_le)

lemma settles_log:
  assumes st: "settles s out s'" and IH: "sorted_wrt (<) (settled_log tr tp)"
    "dict_get (cc_latest_settled_offsets s) tp = (if settled_log tr tp = [] then None else Some (last (settled_log tr tp)))"
  shows "sorted_wrt (<) (settled_log (tr @ out) tp) \<and> dict_get (cc_latest_settled_offsets s') tp =
    (if settled_log (tr @ out) tp = [] then None else Some (last (settled_log (tr @ out) tp)))"
proof (cases "find (\<lambda>t. settle_tp t = tp) out")
  case None
  then have "filter (\<lambda>t. settle_tp t = tp) out = []" using filter_key[of settle_tp out tp] st by (simp add: settles_def)
  then show ?thesis using st IH None by (simp add: settles_def)
next
  case (Some t)
  then have t: "filter (\<lambda>t. settle_tp t = tp) out = [t]" using filter_key[of settle_tp out tp] st by (simp add: settles_def)
  have "t \<in> set (filter (\<lambda>t. settle_tp t = tp) out)" unfolding t by simp
  then have "t \<in> set out" "settle_tp t = tp" by simp_all
  then have gt: "settled s tp < settle_safe_offset t" using st by (auto simp: settles_def)
  have "x < settle_safe_offset t" if x: "x \<in> set (settled_log tr tp)" for x
  proof -
    have ne: "settled_log tr tp \<noteq> []" using x by (metis empty_iff empty_set)
    then have "x \<le> last (settled_log tr tp)"
      by (intro settle_log_le_last[OF IH(1) x])
    moreover have "settled s tp = last (settled_log tr tp)"
      using IH(2) ne by (simp add: settled_def dict_get_default_def)
    ultimately show ?thesis using gt by linarith
  qed
  then have "sorted_wrt (<) (settled_log (tr @ out) tp)" using IH(1) by (simp add: t sorted_wrt_append)
  then show ?thesis using st Some by (simp add: settles_def t)
qed

text \<open>
  C22. Confirmed offsets only move forward. Over every interleaving of the coordinator's methods
  with its worker, whatever the broker answers and the callbacks do, the offsets of the success
  settlements of a partition form a strictly increasing sequence, so no offset is confirmed
  twice, and \<open>latest_settled_offsets\<close> is the last of them.
\<close>

theorem settled_offsets_increase:
  assumes "cc_run cfg coordinator_init tr s" "0 \<le> cfg_queue_max_partitions cfg"
  shows "sorted_wrt (<) (map settle_safe_offset (filter (\<lambda>t. settle_tp t = tp) tr)) \<and>
    dict_get (cc_latest_settled_offsets s) tp =
      (if filter (\<lambda>t. settle_tp t = tp) tr = [] then None
       else Some (last (map settle_safe_offset (filter (\<lambda>t. settle_tp t = tp) tr))))"
proof -
  have "cc_run cfg i tr s \<Longrightarrow> i = coordinator_init \<Longrightarrow>
      sorted_wrt (<) (settled_log tr tp) \<and> dict_get (cc_latest_settled_offsets s) tp =
        (if settled_log tr tp = [] then None else Some (last (settled_log tr tp)))" for i
  proof (induction rule: cc_run.induct)
    case (run_start s)
    then show ?case by (simp add: coordinator_init_def)
  next
    case (run_more s tr t out u)
    have "cc_inv cfg t" using cc_reach_inv[of cfg tr t] run_more.hyps(1) run_more.prems assms(2) by simp
    then have "settles t out u" using cc_step_inv[OF run_more.hyps(2)] by simp
    then show ?case using settles_log[where s = t and out = out and s' = u and tr = tr and tp = tp] run_more.IH[OF run_more.prems] by blast
  qed
  from this[OF assms(1) refl] show ?thesis by simp
qed

lemma run_lease_fresh:
  "cc_run cfg s tr t \<Longrightarrow> cc_inv cfg s \<Longrightarrow> st \<in> set tr \<Longrightarrow>
     is_active_lease s (settle_tp st) (settle_assignment_epoch st) (settle_lease_id st) \<or>
     cc_lease_counter s < settle_lease_id st"
proof (induction rule: cc_run.induct)
  case (run_more s tr t out u)
  show ?case
  proof (cases "st \<in> set tr")
    case True
    then show ?thesis using run_more by blast
  next
    case False
    then have st: "st \<in> set out" using run_more.prems(2) by simp
    have t: "cc_inv cfg t" "lease_frame s t" using cc_run_inv[OF run_more.hyps(1) run_more.prems(1)] by simp_all
    have "settles t out u" using cc_step_inv[OF run_more.hyps(2) t(1)] by simp
    then have "is_active_lease t (settle_tp st) (settle_assignment_epoch st) (settle_lease_id st)"
      using st by (simp add: settles_def)
    then show ?thesis using t(2) unfolding lease_frame_def by blast
  qed
qed simp

text \<open>
  C23. Lease fencing. Once the leases of a partition are cancelled, no later success settlement
  of that partition carries a lease issued before the cancellation, in any continuation of any
  run: a commit that was under way when the partition was revoked is never announced as
  settled.
\<close>

theorem cancelled_lease_never_settles:
  assumes "cc_run cfg coordinator_init tr0 s" "0 \<le> cfg_queue_max_partitions cfg"
    and "cc_run cfg (cancel_leases tps s) tr u" "st \<in> set tr" "settle_tp st \<in> set tps"
  shows "cc_lease_counter s < settle_lease_id st"
proof -
  note inv = cc_reach_inv[OF assms(1,2)]
  note C = cancel_leases_inv[OF inv, where tps = tps]
  have "\<not> is_active_lease (cancel_leases tps s) (settle_tp st) e l" for e l
    using C(1) C(5)[OF assms(5)] by (auto simp: active_iff cc_inv_def)
  then show ?thesis using run_lease_fresh[OF assms(3) C(1) assms(4)] C(4) by auto
qed

text \<open>
  The outbox is bounded: pending and in-flight candidates together never cover more
  partitions than \<open>queue_max_partitions\<close>.
\<close>

theorem outbox_bounded:
  assumes "cc_run cfg coordinator_init tr s" "0 \<le> cfg_queue_max_partitions cfg"
  shows "int (card (dom (dict_get (cc_pending s)) \<union> dom (dict_get (cc_in_flight s)))) \<le> cfg_queue_max_partitions cfg"
  using cc_coreD(6) cc_reach_inv[OF assms] unfolding cc_inv_def partitions_of_def by blast

text \<open>
  A commit that failed with a Kafka error drops no partition: when the failure callback has
  returned, every candidate still in flight is pending again under its own lease, and the set
  of partitions in the outbox is unchanged.
\<close>

theorem kafka_retry_keeps_partitions:
  assumes "cc_run cfg coordinator_init tr s" "0 \<le> cfg_queue_max_partitions cfg"
    and "cc_worker s = FailureCallback KafkaFailure batch ts"
    and t_def: "t = failure_callback_done cfg KafkaFailure batch ts raised s"
  shows "(\<forall>tp d. dict_get (cc_in_flight s) tp = Some d \<longrightarrow> dict_get (cc_pending t) tp = Some d) \<and>
    cc_in_flight t = [] \<and>
    dom (dict_get (cc_pending t)) = dom (dict_get (cc_pending s)) \<union> dom (dict_get (cc_in_flight s))"
proof -
  note inv = cc_reach_inv[OF assms(1,2)]
  define s1 where "s1 = (if raised then fail_closed (int (length ts)) s else s)"
  have f: "cc_worker s1 = cc_worker s" "cc_pending s1 = cc_pending s" "cc_in_flight s1 = cc_in_flight s"
    by (simp_all add: s1_def fail_closed_def)
  have i: "cc_inv cfg s1" using inv fail_closed_inv(1)[OF inv] by (simp add: s1_def)
  have t: "t = finish_failure cfg KafkaFailure batch s1" by (simp add: t_def failure_callback_done_def s1_def)
  have na: "\<not> announcing (cc_worker s1)" and b: "batch = batch_of (cc_worker s1)" using f(1) assms(3) by simp_all
  have K: "pend t tp = (case inflight s tp of None \<Rightarrow> pend s tp | Some d \<Rightarrow> Some d)" "cc_in_flight t = []" for tp
    unfolding t by (rule kafka_finish_inv(4)[OF i na b, unfolded f], rule kafka_finish_inv(5)[OF i na b])
  then show ?thesis by (auto split: option.splits)
qed


text \<open>
  A round of the worker in which the broker confirms the commit, and nothing else happens,
  empties the outbox: exactly the pending candidates are announced, each is the confirmed
  offset of its partition afterwards, and nothing is pending or in flight.
\<close>

theorem confirmed_round_settles_all:
  assumes "cc_run cfg coordinator_init tr s" "0 \<le> cfg_queue_max_partitions cfg"
    and "cc_worker s = LoopHead" "cc_healthy s" "cc_pending s \<noteq> []"
    and "worker_succeeded later (dict_values (cc_pending s)) now (worker_begin now s) = (out, s2)"
    and "s3 = success_callback_done out False s2"
  shows "map settle_lease_id out = map cand_lease_id (dict_values (cc_pending s)) \<and>
    (\<forall>tp c. dict_get (cc_pending s) tp = Some c \<longrightarrow>
       dict_get (cc_latest_settled_offsets s3) tp = Some (cand_safe_offset c)) \<and>
    cc_pending s3 = [] \<and> cc_in_flight s3 = [] \<and> cc_worker s3 = LoopHead"
proof -
  note inv = cc_reach_inv[OF assms(1,2)]
  note C = cc_coreD[OF inv[unfolded cc_inv_def, THEN conjunct1]]
  let ?b = "worker_begin now s" and ?batch = "dict_values (cc_pending s)"
  note ib = worker_begin_inv(1)[OF inv assms(3)]
  have f: "cc_worker ?b = Committing ?batch now" "cc_pending ?b = []"
    "cc_in_flight ?b = fold (\<lambda>c. dict_set (cand_tp c) c) ?batch []"
    using assms(4,5) by (simp_all add: worker_begin_def Let_def)
  have fl: "inflight ?b = pend s" unfolding f(3) by (rule rebuild_get[OF C(1) pending_okD(1)[OF C(3)]])
  note W = worker_succeeded_inv[OF ib f(1) assms(6)]
  have all: "filter (\<lambda>d. inflight ?b (cand_tp d) = Some d) ?batch = ?batch"
    unfolding fl using dict_values_iff[OF C(1)] pending_okD(1)[OF C(3)] by (auto simp: filter_id_conv)
  have out: "out = map (make_settlement True None (max 0 (later - now))) ?batch" using W(4) unfolding all .
  have dist: "distinct (map settle_tp out)" using W(3) by (simp add: settles_def)
  have "dict_get (cc_latest_settled_offsets s2) tp = Some (cand_safe_offset c)" if c: "pend s tp = Some c" for tp c
  proof -
    have "make_settlement True None (max 0 (later - now)) c \<in> set out"
      unfolding out using c dict_values_iff[OF C(1)] by auto
    moreover have "settle_tp (make_settlement True None (max 0 (later - now)) c) = tp"
      using pending_okD(1)[OF C(3) c] by (simp add: make_settlement_def)
    ultimately have "find (\<lambda>t. settle_tp t = tp) out = Some (make_settlement True None (max 0 (later - now)) c)"
      by (rule find_key[OF dist])
    then show ?thesis using W(3) by (simp add: settles_def make_settlement_def)
  qed
  moreover have "map settle_lease_id out = map cand_lease_id ?batch"
    unfolding out by (simp add: make_settlement_def comp_def)
  ultimately show ?thesis
    using W(5) f(2) assms(7) by (simp add: success_callback_done_def clear_in_flight_def prune_cancelled_leases_def)
qed

lemma fold_keep_furthest:
  "distinct (map cand_tp xs) \<Longrightarrow> dict_get (fold keep_furthest xs d) tp =
     (case find (\<lambda>c. cand_tp c = tp) xs of
        None \<Rightarrow> dict_get d tp
      | Some c \<Rightarrow> (case dict_get d tp of
          None \<Rightarrow> Some c
        | Some a \<Rightarrow> Some (if cand_safe_offset c > cand_safe_offset a then c else a)))"
proof (induction xs arbitrary: d)
  case (Cons x xs)
  have "find (\<lambda>y. cand_tp y = cand_tp x) xs = None" using Cons.prems by (force simp: find_None_iff image_iff)
  then show ?case using Cons by (auto simp: keep_furthest_def dict_simps split: option.splits)
qed simp

lemma find_values:
  assumes wf: "dict_wf d" and tp: "\<And>tp c. dict_get d tp = Some c \<Longrightarrow> cand_tp c = tp"
  shows "find (\<lambda>c. cand_tp c = k) (dict_values d) = dict_get d k" "distinct (map cand_tp (dict_values d))"
proof -
  show dist: "distinct (map cand_tp (dict_values d))"
    using wf values_keys[OF wf tp] by (simp add: dict_wf_def)
  show "find (\<lambda>c. cand_tp c = k) (dict_values d) = dict_get d k"
  proof (cases "dict_get d k")
    case None
    then show ?thesis using dict_values_iff[OF wf] tp by (auto simp: find_None_iff)
  next
    case (Some c)
    then show ?thesis using find_key[OF dist, of c k] dict_values_iff[OF wf] tp by auto
  qed
qed

text \<open>
  What a shutdown has left to commit is exact: \<open>remaining_candidates\<close> returns, for each
  selected partition, the pending candidate if there is one and otherwise the one in flight; and
  a \<open>drain\<close> reports success only when no selected partition has either.
\<close>

theorem remaining_candidates_exact:
  assumes "cc_run cfg coordinator_init tr s" "0 \<le> cfg_queue_max_partitions cfg"
  shows "dict_get (remaining_candidates (Some tps) s) tp =
      (if tp \<in> set tps
       then (case dict_get (cc_pending s) tp of Some c \<Rightarrow> Some c | None \<Rightarrow> dict_get (cc_in_flight s) tp)
       else None) \<and>
    (fst (drain_turn deadline now (Some tps) s) = Some True \<longrightarrow> tp \<in> set tps \<longrightarrow>
       dict_get (cc_pending s) tp = None \<and> dict_get (cc_in_flight s) tp = None)"
proof -
  note C = cc_coreD[OF cc_reach_inv[OF assms, unfolded cc_inv_def, THEN conjunct1]]
  note P = find_values[OF C(1) pending_okD(1)[OF C(3)]]
  note F = find_values[OF C(2) in_flight_okD(1)[OF C(4)]]
  have first: "dict_get (fold keep_furthest (dict_values (cc_in_flight s)) []) tp = inflight s tp"
    using fold_keep_furthest[OF F(2), of "[]" tp] F(1)[of tp] by (simp split: option.splits)
  have rem: "dict_get (remaining_candidates (Some tps) s) tp =
      (if tp \<in> set tps then (case pend s tp of Some c \<Rightarrow> Some c | None \<Rightarrow> inflight s tp) else None)"
    using fold_keep_furthest[OF P(2), of "fold keep_furthest (dict_values (cc_in_flight s)) []" tp] P(1)[of tp] first
      pending_okD(6)[OF C(3), of tp]
    by (auto simp: remaining_candidates_def dict_simps split: option.splits)
  have "remaining_candidates (Some tps) s = []" if "fst (drain_turn deadline now (Some tps) s) = Some True"
    using that by (auto simp: drain_turn_def Let_def split: if_splits)
  then have "pend s tp = None \<and> inflight s tp = None"
    if "fst (drain_turn deadline now (Some tps) s) = Some True" "tp \<in> set tps"
    using that rem by (auto split: option.splits)
  then show ?thesis using rem by blast
qed

section \<open>Concrete runs\<close>

definition demo_cfg :: coordinator_config where
  "demo_cfg = \<lparr>cfg_queue_max_partitions = 4, cfg_retry_backoff_ms = 100, cfg_max_retry_backoff_ms = 5000\<rparr>"

definition demo_part :: topic_partition where
  "demo_part = TopicPartition ''t'' 0"

definition demo_candidate :: "int \<Rightarrow> commit_candidate" where
  "demo_candidate offset =
     \<lparr>cand_tp = demo_part, cand_safe_offset = offset, cand_assignment_epoch = 1, cand_lease_id = 0,
      cand_enqueued_at = 0\<rparr>"

definition demo_enqueue :: "int \<Rightarrow> coordinator \<Rightarrow> coordinator" where
  "demo_enqueue offset s = snd (enqueue demo_cfg (\<lambda>n. 0) [demo_candidate offset] s)"

text \<open>Offset 5 is being committed while offset 9 is pending.\<close>

definition demo_committing :: coordinator where
  "demo_committing = demo_enqueue 9 (worker_begin 0 (demo_enqueue 5 coordinator_init))"

definition demo_batch :: "commit_candidate list" where
  "demo_batch = dict_values (cc_in_flight demo_committing)"

definition demo_retrying :: coordinator where
  "demo_retrying = worker_failed demo_cfg KafkaFailure 1 demo_batch 0 demo_committing"

lemma demo_max: "0 \<le> cfg_queue_max_partitions demo_cfg"
  by (simp add: demo_cfg_def)

lemma demo_enqueue_step: "cc_step demo_cfg s [] (demo_enqueue offset s)"
  unfolding demo_enqueue_def by (metis prod.collapse step_enqueue)

lemma demo_run_enqueued: "cc_run demo_cfg coordinator_init [] (demo_enqueue 5 coordinator_init)"
  using run_more[OF run_start demo_enqueue_step] by simp

lemma demo_head: "cc_worker (demo_enqueue 5 coordinator_init) = LoopHead"
  by code_simp

lemma demo_run_committing: "cc_run demo_cfg coordinator_init [] demo_committing"
  unfolding demo_committing_def
  using run_more[OF run_more[OF demo_run_enqueued step_begin[OF demo_head]] demo_enqueue_step] by simp

lemma demo_worker: "cc_worker demo_committing = Committing demo_batch 0"
  by code_simp

lemma demo_run_retrying: "cc_run demo_cfg coordinator_init [] demo_retrying"
  unfolding demo_retrying_def using run_more[OF demo_run_committing step_failed[OF demo_worker]] by simp

definition demo_settled :: "commit_settlement list \<times> coordinator" where
  "demo_settled = worker_succeeded 1 demo_batch 0 demo_committing"

lemma demo_run_settled: "cc_run demo_cfg coordinator_init (fst demo_settled) (snd demo_settled)"
  using run_more[OF demo_run_committing step_succeeded[OF demo_worker prod.collapse[symmetric]]]
  by (simp add: demo_settled_def)

theorem settled_offsets_increase_witness:
  "dict_get (cc_latest_settled_offsets (snd demo_settled)) demo_part = Some 5"
proof -
  have "map settle_safe_offset (filter (\<lambda>t. settle_tp t = demo_part) (fst demo_settled)) = [5]" by code_simp
  then show ?thesis using settled_offsets_increase[OF demo_run_settled demo_max, of demo_part] by auto
qed

theorem outbox_bounded_witness:
  "int (card (dom (dict_get (cc_pending demo_committing)) \<union> dom (dict_get (cc_in_flight demo_committing)))) \<le> 4"
  using outbox_bounded[OF demo_run_committing demo_max] by (simp add: demo_cfg_def)

theorem remaining_candidates_exact_witness:
  "map_option cand_safe_offset (dict_get (remaining_candidates (Some [demo_part]) demo_committing) demo_part) = Some 9"
proof -
  have "map_option cand_safe_offset (dict_get (cc_pending demo_committing) demo_part) = Some 9" by code_simp
  then show ?thesis
    using remaining_candidates_exact[OF demo_run_committing demo_max, of "[demo_part]" demo_part] by auto
qed

lemma demo_failure_worker:
  "cc_worker demo_retrying = FailureCallback KafkaFailure demo_batch
     (failure_settlements demo_batch ''kafka_exception'' 1 demo_committing)"
  by code_simp

theorem kafka_retry_keeps_partitions_witness:
  "dom (dict_get (cc_pending (failure_callback_done demo_cfg KafkaFailure demo_batch
      (failure_settlements demo_batch ''kafka_exception'' 1 demo_committing) False demo_retrying))) =
     dom (dict_get (cc_pending demo_retrying)) \<union> dom (dict_get (cc_in_flight demo_retrying))"
  using kafka_retry_keeps_partitions[OF demo_run_retrying demo_max demo_failure_worker refl] by blast

theorem confirmed_round_settles_all_witness:
  "cc_pending (success_callback_done (fst (worker_succeeded 1 (dict_values (cc_pending (demo_enqueue 5 coordinator_init))) 0
       (worker_begin 0 (demo_enqueue 5 coordinator_init)))) False
     (snd (worker_succeeded 1 (dict_values (cc_pending (demo_enqueue 5 coordinator_init))) 0
       (worker_begin 0 (demo_enqueue 5 coordinator_init))))) = []"
proof -
  have "cc_healthy (demo_enqueue 5 coordinator_init)" "cc_pending (demo_enqueue 5 coordinator_init) \<noteq> []"
    by code_simp+
  from confirmed_round_settles_all[OF demo_run_enqueued demo_max demo_head this prod.collapse[symmetric] refl]
  show ?thesis by blast
qed

text \<open>After the leases of the partition are cancelled, offset 9 is enqueued again and confirmed.\<close>

definition demo_cancelled :: coordinator where
  "demo_cancelled = cancel_leases [demo_part] demo_committing"

definition demo_again :: coordinator where
  "demo_again = demo_enqueue 9 (snd (worker_succeeded 1 demo_batch 0 demo_cancelled))"

lemma demo_cancelled_worker: "cc_worker demo_cancelled = Committing demo_batch 0"
  by code_simp

lemma demo_again_head: "cc_worker demo_again = LoopHead"
  by code_simp

lemma demo_cancelled_nothing: "worker_succeeded 1 demo_batch 0 demo_cancelled =
    ([], snd (worker_succeeded 1 demo_batch 0 demo_cancelled))"
proof -
  have "fst (worker_succeeded 1 demo_batch 0 demo_cancelled) = []" by code_simp
  then show ?thesis by (simp add: prod_eq_iff)
qed

lemma demo_run_again: "cc_run demo_cfg demo_cancelled [] demo_again"
  unfolding demo_again_def
  using run_more[OF run_more[OF run_start step_succeeded[OF demo_cancelled_worker demo_cancelled_nothing]] demo_enqueue_step]
  by simp

definition demo_confirmed :: "commit_settlement list \<times> coordinator" where
  "demo_confirmed = worker_succeeded 3 (dict_values (cc_pending demo_again)) 2 (worker_begin 2 demo_again)"

lemma demo_again_worker: "cc_worker (worker_begin 2 demo_again) = Committing (dict_values (cc_pending demo_again)) 2"
  by code_simp

lemma demo_run_confirmed: "cc_run demo_cfg demo_cancelled (fst demo_confirmed) (snd demo_confirmed)"
  using run_more[OF run_more[OF demo_run_again step_begin[OF demo_again_head]]
      step_succeeded[OF demo_again_worker prod.collapse[symmetric]]]
  by (simp add: demo_confirmed_def)

theorem cancelled_lease_never_settles_witness:
  "cc_lease_counter demo_committing < settle_lease_id (hd (fst demo_confirmed))"
proof -
  have "fst demo_confirmed \<noteq> []" "settle_tp (hd (fst demo_confirmed)) \<in> set [demo_part]" by code_simp+
  then show ?thesis
    using cancelled_lease_never_settles[OF demo_run_committing demo_max demo_run_confirmed[unfolded demo_cancelled_def]]
    by simp
qed

text \<open>
  C20. The retry loses progress: while offset 5 is being committed, offset 9 is pending; when the
  commit of 5 fails with a Kafka error, the older candidate replaces the newer one, so offset 9
  is no longer anywhere in the outbox and a shutdown would commit only offset 5.
\<close>

theorem kafka_retry_replaces_newer:
  "map_option cand_safe_offset (dict_get (cc_pending demo_retrying) demo_part) = Some 9 \<and>
   map_option cand_safe_offset
     (dict_get (cc_pending (failure_callback_done demo_cfg KafkaFailure demo_batch
        (failure_settlements demo_batch ''kafka_exception'' 1 demo_committing) False demo_retrying)) demo_part) = Some 5 \<and>
   map (\<lambda>(tp, c). cand_safe_offset c)
     (remaining_candidates None (failure_callback_done demo_cfg KafkaFailure demo_batch
        (failure_settlements demo_batch ''kafka_exception'' 1 demo_committing) False demo_retrying)) = [5]"
  by code_simp

end
