(* ===== verification/Adaptive_Control.thy ===== *)
theory Adaptive_Control
  imports Dto Complex_Main
begin

text \<open>
  The control of the in-flight limit: \<open>adaptive_concurrency.py\<close>, \<open>adaptive_backpressure.py\<close>,
  \<open>broker_backpressure_support.py\<close> and the pause/resume decision of
  \<open>broker_runtime_support.py\<close>.

  The attributes of \<open>BrokerPoller\<close> that the support class reads and writes through its getters
  and setters are fields of one record, together with the two controllers. Readings of the work
  manager and of the clock are arguments. Timestamps and latencies are reals; the one place
  where rounding decides an integer, \<open>int(limit * 0.7)\<close>, is computed with the double nearest to
  0.7 and round-half-even, as the interpreter does.
\<close>

section \<open>Truncated multiples of 0.7\<close>

function bit_length :: "int \<Rightarrow> nat" where
  "bit_length n = (if n \<le> 0 then 0 else Suc (bit_length (n div 2)))"
  by auto
termination by (relation "measure nat") auto

declare bit_length.simps [simp del]

definition round_half_even :: "int \<Rightarrow> int \<Rightarrow> int" where
  "round_half_even m d =
     (let q = m div d; r = m mod d
      in if 2 * r > d \<or> 2 * r = d \<and> odd q then q + 1 else q)"

text \<open>
  \<open>int(n * 0.7)\<close> for a number from 0 up to \<open>2 ^ 53\<close>: the double 0.7 is
  \<open>6305039478318694 / 2 ^ 53\<close>; the product is rounded to 53 significant bits and truncated.
\<close>

definition times_07 :: "int \<Rightarrow> int" where
  "times_07 n =
     (let m = n * 6305039478318694; k = bit_length m - 53
      in round_half_even m (2 ^ k) * 2 ^ k div 2 ^ 53)"

section \<open>Adaptive concurrency\<close>

record concurrency_config =
  ac_enabled :: bool
  ac_min_in_flight :: int
  ac_scale_up_step :: int
  ac_scale_down_step :: int
  ac_cooldown_ms :: int

record concurrency_sample =
  sm_current_limit :: int
  sm_total_in_flight :: int
  sm_total_queued :: int
  sm_total_true_lag :: int
  sm_is_paused :: bool
  sm_queue_max_messages :: int

record concurrency_controller =
  acc_config :: concurrency_config
  acc_configured_max_in_flight :: int
  acc_min_in_flight :: int
  acc_cooldown_seconds :: real
  acc_last_adjusted_at :: "real option"

definition resolve_min_in_flight :: "int \<Rightarrow> int \<Rightarrow> int" where
  "resolve_min_in_flight configured raw_min_in_flight =
     (if raw_min_in_flight \<le> 0 then max 1 (configured div 4)
      else min configured (max 1 raw_min_in_flight))"

definition concurrency_init :: "concurrency_config \<Rightarrow> int \<Rightarrow> concurrency_controller" where
  "concurrency_init cfg configured_max_in_flight =
     (let configured = max 1 configured_max_in_flight
      in \<lparr>acc_config = cfg, acc_configured_max_in_flight = configured,
          acc_min_in_flight = resolve_min_in_flight configured (ac_min_in_flight cfg),
          acc_cooldown_seconds = max 0 (real_of_int (ac_cooldown_ms cfg) / 1000),
          acc_last_adjusted_at = None\<rparr>)"

text \<open>A controller cools down until \<open>cooldown\<close> seconds after its last adjustment.\<close>

definition cooling_down :: "real option \<Rightarrow> real \<Rightarrow> real \<Rightarrow> bool" where
  "cooling_down last_adjusted_at cooldown_seconds now =
     (case last_adjusted_at of None \<Rightarrow> False | Some t \<Rightarrow> now - t < cooldown_seconds)"

definition concurrency_evaluate ::
  "real \<Rightarrow> concurrency_sample \<Rightarrow> concurrency_controller \<Rightarrow> int option \<times> concurrency_controller" where
  "concurrency_evaluate now sample c =
     (let cfg = acc_config c
      in if \<not> ac_enabled cfg then (None, c)
         else if cooling_down (acc_last_adjusted_at c) (acc_cooldown_seconds c) now then (None, c)
         else
           let total_load = sm_total_in_flight sample + sm_total_queued sample;
               queue_full = (sm_queue_max_messages sample > 0 \<and>
                 sm_total_queued sample \<ge> sm_queue_max_messages sample);
               new_limit =
                 (if sm_is_paused sample \<or> queue_full \<or> total_load > sm_current_limit sample
                  then Some (max (acc_min_in_flight c) (sm_current_limit sample - ac_scale_down_step cfg))
                  else if sm_total_true_lag sample \<ge> sm_current_limit sample \<and> sm_total_queued sample = 0
                  then Some (min (acc_configured_max_in_flight c) (sm_current_limit sample + ac_scale_up_step cfg))
                  else None)
           in case new_limit of
                None \<Rightarrow> (None, c)
              | Some n \<Rightarrow>
                  if n = sm_current_limit sample then (None, c)
                  else (Some n, c\<lparr>acc_last_adjusted_at := Some now\<rparr>))"

record concurrency_snapshot =
  cs_configured_max_in_flight :: int
  cs_effective_max_in_flight :: int
  cs_min_in_flight :: int
  cs_scale_up_step :: int
  cs_scale_down_step :: int
  cs_cooldown_ms :: int

definition concurrency_runtime_snapshot :: "int \<Rightarrow> concurrency_controller \<Rightarrow> concurrency_snapshot" where
  "concurrency_runtime_snapshot effective_max_in_flight c =
     \<lparr>cs_configured_max_in_flight = acc_configured_max_in_flight c,
      cs_effective_max_in_flight = max 1 (min (acc_configured_max_in_flight c) effective_max_in_flight),
      cs_min_in_flight = acc_min_in_flight c,
      cs_scale_up_step = ac_scale_up_step (acc_config c),
      cs_scale_down_step = ac_scale_down_step (acc_config c),
      cs_cooldown_ms = ac_cooldown_ms (acc_config c)\<rparr>"

section \<open>Adaptive backpressure\<close>

record backpressure_config =
  ab_enabled :: bool
  ab_min_in_flight :: int
  ab_scale_up_step :: int
  ab_scale_down_step :: int
  ab_cooldown_ms :: int
  ab_lag_scale_up_threshold :: int
  ab_low_latency_threshold_ms :: real
  ab_high_latency_threshold_ms :: real

record backpressure_controller =
  abp_config :: backpressure_config
  abp_configured_max_in_flight :: int
  abp_min_in_flight :: int
  abp_effective_max_in_flight :: int
  abp_cooldown_seconds :: real
  abp_last_adjusted_at :: "real option"
  abp_last_decision :: string

definition backpressure_init :: "backpressure_config \<Rightarrow> int \<Rightarrow> backpressure_controller" where
  "backpressure_init cfg configured_max_in_flight =
     (let configured = max 1 configured_max_in_flight
      in \<lparr>abp_config = cfg, abp_configured_max_in_flight = configured,
          abp_min_in_flight = min configured (max 1 (ab_min_in_flight cfg)),
          abp_effective_max_in_flight = configured,
          abp_cooldown_seconds = max 0 (real_of_int (ab_cooldown_ms cfg) / 1000),
          abp_last_adjusted_at = None,
          abp_last_decision = (if \<not> ab_enabled cfg then ''disabled'' else ''hold'')\<rparr>)"

definition move_limit :: "real \<Rightarrow> int \<Rightarrow> string \<Rightarrow> backpressure_controller \<Rightarrow> backpressure_controller" where
  "move_limit now next_limit decision c =
     (if next_limit \<noteq> abp_effective_max_in_flight c
      then c\<lparr>abp_effective_max_in_flight := next_limit, abp_last_adjusted_at := Some now,
             abp_last_decision := decision\<rparr>
      else c\<lparr>abp_last_decision := ''hold''\<rparr>)"

definition backpressure_evaluate ::
  "real \<Rightarrow> int \<Rightarrow> int \<Rightarrow> real option \<Rightarrow> bool \<Rightarrow> backpressure_controller \<Rightarrow> int \<times> backpressure_controller" where
  "backpressure_evaluate now total_true_lag total_queued avg_completion_latency_seconds is_paused c =
     (let cfg = abp_config c;
          latency_ms = map_option (\<lambda>x. x * 1000) avg_completion_latency_seconds;
          should_scale_down = (is_paused \<or>
            (case latency_ms of None \<Rightarrow> False | Some l \<Rightarrow> l \<ge> ab_high_latency_threshold_ms cfg));
          should_scale_up = (total_true_lag \<ge> ab_lag_scale_up_threshold cfg \<and> \<not> is_paused \<and> total_queued = 0 \<and>
            (case latency_ms of None \<Rightarrow> False | Some l \<Rightarrow> l \<le> ab_low_latency_threshold_ms cfg));
          c1 =
            (if \<not> ab_enabled cfg then c\<lparr>abp_last_decision := ''disabled''\<rparr>
             else if cooling_down (abp_last_adjusted_at c) (abp_cooldown_seconds c) now
             then c\<lparr>abp_last_decision := ''cooldown''\<rparr>
             else if should_scale_down
             then move_limit now
                    (max (abp_min_in_flight c) (abp_effective_max_in_flight c - ab_scale_down_step cfg))
                    ''scale_down'' c
             else if should_scale_up
             then move_limit now
                    (min (abp_configured_max_in_flight c) (abp_effective_max_in_flight c + ab_scale_up_step cfg))
                    ''scale_up'' c
             else c\<lparr>abp_last_decision := ''hold''\<rparr>)
      in (abp_effective_max_in_flight c1, c1))"

record backpressure_snapshot =
  bs_configured_max_in_flight :: int
  bs_effective_max_in_flight :: int
  bs_min_in_flight :: int
  bs_scale_up_step :: int
  bs_scale_down_step :: int
  bs_cooldown_ms :: int
  bs_lag_scale_up_threshold :: int
  bs_low_latency_threshold_ms :: real
  bs_high_latency_threshold_ms :: real
  bs_last_decision :: string
  bs_avg_completion_latency_seconds :: "real option"

definition backpressure_runtime_snapshot ::
  "real option \<Rightarrow> backpressure_controller \<Rightarrow> backpressure_snapshot" where
  "backpressure_runtime_snapshot avg_completion_latency_seconds c =
     \<lparr>bs_configured_max_in_flight = abp_configured_max_in_flight c,
      bs_effective_max_in_flight = abp_effective_max_in_flight c,
      bs_min_in_flight = abp_min_in_flight c,
      bs_scale_up_step = ab_scale_up_step (abp_config c),
      bs_scale_down_step = ab_scale_down_step (abp_config c),
      bs_cooldown_ms = ab_cooldown_ms (abp_config c),
      bs_lag_scale_up_threshold = ab_lag_scale_up_threshold (abp_config c),
      bs_low_latency_threshold_ms = ab_low_latency_threshold_ms (abp_config c),
      bs_high_latency_threshold_ms = ab_high_latency_threshold_ms (abp_config c),
      bs_last_decision = abp_last_decision c,
      bs_avg_completion_latency_seconds = avg_completion_latency_seconds\<rparr>"

section \<open>The poller's limits\<close>

datatype consumer_call = Pause | Resume

record limits =
  lim_configured_max :: int
  lim_max_in_flight_messages :: int
  lim_min_in_flight_messages_to_resume :: int
  lim_work_manager_max :: int
  lim_is_paused :: bool
  lim_queue_max_messages :: int
  lim_queue_resume_threshold :: int
  lim_backpressure :: backpressure_controller
  lim_concurrency :: concurrency_controller
  lim_consumer_calls :: "consumer_call list"

definition set_runtime_max_in_flight :: "int \<Rightarrow> limits \<Rightarrow> limits" where
  "set_runtime_max_in_flight value s =
     (let new_value = max 1 (min (max 1 (lim_configured_max s)) value);
          old_value = lim_max_in_flight_messages s;
          s1 = s\<lparr>lim_max_in_flight_messages := new_value,
                 lim_min_in_flight_messages_to_resume := max 1 (times_07 new_value)\<rparr>
      in if old_value \<noteq> new_value then s1\<lparr>lim_work_manager_max := new_value\<rparr> else s1)"

text \<open>The part of \<open>BrokerPoller.__init__\<close> that sets the limits up; the work manager starts with the configured limit.\<close>

definition limits_init :: "int \<Rightarrow> int \<Rightarrow> backpressure_config \<Rightarrow> concurrency_config \<Rightarrow> limits" where
  "limits_init configured_max_in_flight queue_max_messages bcfg ccfg =
     set_runtime_max_in_flight configured_max_in_flight
       \<lparr>lim_configured_max = configured_max_in_flight,
        lim_max_in_flight_messages = configured_max_in_flight,
        lim_min_in_flight_messages_to_resume = max 1 (times_07 configured_max_in_flight),
        lim_work_manager_max = configured_max_in_flight,
        lim_is_paused = False,
        lim_queue_max_messages = queue_max_messages,
        lim_queue_resume_threshold =
          (if queue_max_messages \<noteq> 0 then times_07 queue_max_messages else 0),
        lim_backpressure = backpressure_init bcfg configured_max_in_flight,
        lim_concurrency = concurrency_init ccfg configured_max_in_flight,
        lim_consumer_calls = []\<rparr>"

text \<open>What a check reads from the work manager, the trackers, the consumer and the clock.\<close>

record reading =
  rd_total_queued :: int
  rd_total_in_flight :: int
  rd_total_true_lag :: int
  rd_avg_completion_latency_seconds :: "real option"
  rd_backpressure_now :: real
  rd_concurrency_now :: real
  rd_consumer :: bool
  rd_assignment :: bool

definition maybe_adjust_adaptive_backpressure :: "reading \<Rightarrow> limits \<Rightarrow> limits" where
  "maybe_adjust_adaptive_backpressure r s =
     (if \<not> ab_enabled (abp_config (lim_backpressure s)) then s
      else
        let (new_limit, c) = backpressure_evaluate (rd_backpressure_now r) (rd_total_true_lag r)
              (rd_total_queued r) (rd_avg_completion_latency_seconds r) (lim_is_paused s) (lim_backpressure s);
            s1 = s\<lparr>lim_backpressure := c\<rparr>
        in if new_limit = lim_max_in_flight_messages s1 then s1
           else set_runtime_max_in_flight new_limit s1)"

definition maybe_adjust_adaptive_concurrency :: "reading \<Rightarrow> limits \<Rightarrow> limits" where
  "maybe_adjust_adaptive_concurrency r s =
     (let (new_limit, c) = concurrency_evaluate (rd_concurrency_now r)
            \<lparr>sm_current_limit = lim_max_in_flight_messages s, sm_total_in_flight = rd_total_in_flight r,
             sm_total_queued = rd_total_queued r, sm_total_true_lag = rd_total_true_lag r,
             sm_is_paused = lim_is_paused s, sm_queue_max_messages = lim_queue_max_messages s\<rparr>
            (lim_concurrency s);
          s1 = s\<lparr>lim_concurrency := c\<rparr>
      in case new_limit of None \<Rightarrow> s1 | Some n \<Rightarrow> set_runtime_max_in_flight n s1)"

definition queue_full :: "reading \<Rightarrow> limits \<Rightarrow> bool" where
  "queue_full r s \<longleftrightarrow> lim_queue_max_messages s > 0 \<and> rd_total_queued r \<ge> lim_queue_max_messages s"

text \<open>\<open>BrokerRuntimeSupport.check_backpressure\<close>, with its calls of the consumer recorded.\<close>

definition check_runtime_backpressure :: "reading \<Rightarrow> limits \<Rightarrow> bool \<times> limits" where
  "check_runtime_backpressure r s =
     (let current_load = rd_total_in_flight r + rd_total_queued r
      in if \<not> rd_assignment r then (lim_is_paused s, s)
         else if \<not> lim_is_paused s \<and> (current_load > lim_max_in_flight_messages s \<or> queue_full r s)
         then (True, s\<lparr>lim_consumer_calls := lim_consumer_calls s @ [Pause]\<rparr>)
         else if lim_is_paused s \<and> current_load < lim_min_in_flight_messages_to_resume s \<and>
             (lim_queue_resume_threshold s = 0 \<or> rd_total_queued r \<le> lim_queue_resume_threshold s)
         then (False, s\<lparr>lim_consumer_calls := lim_consumer_calls s @ [Resume]\<rparr>)
         else (lim_is_paused s, s))"

definition check_backpressure :: "reading \<Rightarrow> limits \<Rightarrow> (py_error + unit) \<times> limits" where
  "check_backpressure r s =
     (if \<not> rd_consumer r then (Inl RuntimeError, s)
      else
        let s1 = maybe_adjust_adaptive_backpressure r s;
            s2 = maybe_adjust_adaptive_concurrency r s1;
            current_load = rd_total_in_flight r + rd_total_queued r
        in if \<not> ab_enabled (abp_config (lim_backpressure s2)) \<and> \<not> ac_enabled (acc_config (lim_concurrency s2)) \<and>
             \<not> lim_is_paused s2 \<and> \<not> queue_full r s2 \<and> current_load \<le> lim_max_in_flight_messages s2
           then (Inr (), s2)
           else
             let (paused, s3) = check_runtime_backpressure r s2
             in (Inr (), s3\<lparr>lim_is_paused := paused\<rparr>))"

section \<open>Rounding\<close>

lemma bit_length_bounds: "0 < n \<Longrightarrow> 2 ^ (bit_length n - 1) \<le> n \<and> n < 2 ^ bit_length n \<and> 0 < bit_length n"
proof (induction n rule: bit_length.induct)
  case (1 n)
  show ?case
  proof (cases "n div 2 \<le> 0")
    case True
    then have "n = 1" using "1.prems" by linarith
    then show ?thesis by (simp add: bit_length.simps)
  next
    case False
    then have IH: "2 ^ (bit_length (n div 2) - 1) \<le> n div 2" "n div 2 < 2 ^ bit_length (n div 2)" "0 < bit_length (n div 2)"
      using "1.IH" "1.prems" by auto
    have len: "bit_length n = Suc (bit_length (n div 2))" using "1.prems" by (simp add: bit_length.simps[of n])
    have "(2 :: int) ^ bit_length (n div 2) = 2 * 2 ^ (bit_length (n div 2) - 1)" using IH(3) by (cases "bit_length (n div 2)") auto
    moreover have "2 * (n div 2) \<le> n" "n < 2 * (n div 2) + 2" by presburger+
    ultimately show ?thesis using IH(1,2) len by simp
  qed
qed

lemma round_half_even_bounds:
  assumes "0 < d"
  shows "2 * (round_half_even m d * d) \<le> 2 * m + d" "2 * m - d \<le> 2 * (round_half_even m d * d)"
proof -
  have m: "m = (m div d) * d + m mod d" by simp
  have r: "0 \<le> m mod d" "m mod d < d" using assms by simp_all
  have "2 * (round_half_even m d * d) \<le> 2 * m + d \<and> 2 * m - d \<le> 2 * (round_half_even m d * d)"
  proof (cases "2 * (m mod d) > d \<or> 2 * (m mod d) = d \<and> odd (m div d)")
    case True
    then have "round_half_even m d * d = (m div d) * d + d" by (simp add: round_half_even_def Let_def algebra_simps)
    then show ?thesis using True m r by linarith
  next
    case False
    then have "round_half_even m d * d = (m div d) * d" by (auto simp: round_half_even_def Let_def)
    moreover have "2 * (m mod d) \<le> d" using False by linarith
    ultimately show ?thesis using m r by linarith
  qed
  then show "2 * (round_half_even m d * d) \<le> 2 * m + d" "2 * m - d \<le> 2 * (round_half_even m d * d)" by simp_all
qed

lemma rounded_product:
  assumes "0 < n"
  defines "m \<equiv> n * 6305039478318694"
  defines "v \<equiv> round_half_even m (2 ^ (bit_length m - 53)) * 2 ^ (bit_length m - 53)"
  shows "2 ^ 53 * v \<le> m * (2 ^ 53 + 1)" "m * (2 ^ 53 - 1) \<le> 2 ^ 53 * v"
proof -
  have m0: "0 < m" using assms(1) by (simp add: m_def)
  let ?d = "2 ^ (bit_length m - 53) :: int"
  have "2 ^ 53 * v \<le> m * (2 ^ 53 + 1) \<and> m * (2 ^ 53 - 1) \<le> 2 ^ 53 * v"
  proof (cases "bit_length m \<le> 53")
    case True
    then have "?d = 1" by simp
    then have "v = m" by (simp add: v_def round_half_even_def)
    then show ?thesis using m0 by simp
  next
    case False
    define k where "k = bit_length m - 53"
    have "bit_length m - 1 = k + 52" using False by (simp add: k_def)
    then have "2 ^ (k + 52) \<le> m" using bit_length_bounds[OF m0] by simp
    then have d: "?d * 2 ^ 52 \<le> m" by (simp add: k_def[symmetric] power_add)
    note B = round_half_even_bounds[of ?d m, folded v_def]
    have "2 * v \<le> 2 * m + ?d" "2 * m - ?d \<le> 2 * v" using B by simp_all
    then show ?thesis using d by (simp add: algebra_simps)
  qed
  then show "2 ^ 53 * v \<le> m * (2 ^ 53 + 1)" "m * (2 ^ 53 - 1) \<le> 2 ^ 53 * v" by simp_all
qed

lemma times_07_bounds:
  assumes "0 < n"
  shows "0 \<le> times_07 n" "times_07 n < n" "2 \<le> n \<Longrightarrow> 1 \<le> times_07 n"
proof -
  define m where "m = n * 6305039478318694"
  define v where "v = round_half_even m (2 ^ (bit_length m - 53)) * 2 ^ (bit_length m - 53)"
  note R = rounded_product[OF assms, folded m_def, folded v_def]
  have t: "times_07 n = v div 2 ^ 53" by (simp add: times_07_def Let_def m_def v_def)
  have m: "m = n * 6305039478318694" by (rule m_def)
  have "0 \<le> v" using R(2) assms m by simp
  then show "0 \<le> times_07 n" by (simp add: t)
  have "v < n * 2 ^ 53" using R(1) assms m by simp
  then show "times_07 n < n" by (simp add: t div_less_iff_less_mult)
  show "1 \<le> times_07 n" if "2 \<le> n"
  proof -
    have "2 ^ 53 \<le> v" using R(2) that m by simp
    then show ?thesis by (simp add: t pos_imp_zdiv_pos_iff int_one_le_iff_zero_less)
  qed
qed


section \<open>The limits over a run of checks\<close>

definition check_run :: "reading list \<Rightarrow> limits \<Rightarrow> limits" where
  "check_run rs s = fold (\<lambda>r t. snd (check_backpressure r t)) rs s"

text \<open>What every check keeps of the limits.\<close>

definition limits_ok :: "limits \<Rightarrow> bool" where
  "limits_ok s \<longleftrightarrow>
     1 \<le> lim_max_in_flight_messages s \<and> lim_max_in_flight_messages s \<le> max 1 (lim_configured_max s) \<and>
     lim_work_manager_max s = lim_max_in_flight_messages s \<and>
     lim_min_in_flight_messages_to_resume s = max 1 (times_07 (lim_max_in_flight_messages s))"

fun alternating :: "bool \<Rightarrow> consumer_call list \<Rightarrow> bool \<Rightarrow> bool" where
  "alternating paused [] final \<longleftrightarrow> final = paused"
| "alternating paused (Pause # cs) final \<longleftrightarrow> \<not> paused \<and> alternating True cs final"
| "alternating paused (Resume # cs) final \<longleftrightarrow> paused \<and> alternating False cs final"

lemma alternating_append:
  "alternating p (cs @ [x]) q \<longleftrightarrow> alternating p cs (x = Resume) \<and> q = (x = Pause)"
proof (induction cs arbitrary: p)
  case Nil
  then show ?case by (cases x) auto
next
  case (Cons y cs)
  then show ?case by (cases y) auto
qed

definition clipped :: "int \<Rightarrow> limits \<Rightarrow> int" where
  "clipped v s = max 1 (min (max 1 (lim_configured_max s)) v)"

lemma set_runtime_as_update:
  "set_runtime_max_in_flight v s = s\<lparr>lim_max_in_flight_messages := clipped v s,
     lim_min_in_flight_messages_to_resume := max 1 (times_07 (clipped v s)),
     lim_work_manager_max := (if lim_max_in_flight_messages s \<noteq> clipped v s then clipped v s else lim_work_manager_max s)\<rparr>"
  unfolding set_runtime_max_in_flight_def clipped_def[symmetric] Let_def by simp

lemma clipped_bounds: "1 \<le> clipped v s" "clipped v s \<le> max 1 (lim_configured_max s)"
  by (auto simp: clipped_def)

lemma set_runtime_frame [simp]:
  "lim_configured_max (set_runtime_max_in_flight v s) = lim_configured_max s"
  "lim_is_paused (set_runtime_max_in_flight v s) = lim_is_paused s"
  "lim_queue_max_messages (set_runtime_max_in_flight v s) = lim_queue_max_messages s"
  "lim_queue_resume_threshold (set_runtime_max_in_flight v s) = lim_queue_resume_threshold s"
  "lim_backpressure (set_runtime_max_in_flight v s) = lim_backpressure s"
  "lim_concurrency (set_runtime_max_in_flight v s) = lim_concurrency s"
  "lim_consumer_calls (set_runtime_max_in_flight v s) = lim_consumer_calls s"
  "lim_max_in_flight_messages (set_runtime_max_in_flight v s) = clipped v s"
  by (simp_all add: set_runtime_as_update)

lemma set_runtime_limits_ok [simp]:
  "lim_work_manager_max s = lim_max_in_flight_messages s \<Longrightarrow> limits_ok (set_runtime_max_in_flight v s)"
  unfolding limits_ok_def set_runtime_frame using clipped_bounds[of v s] by (auto simp: set_runtime_as_update)

lemma limits_ok_frame [simp]:
  "limits_ok (s\<lparr>lim_backpressure := b\<rparr>) = limits_ok s"
  "limits_ok (s\<lparr>lim_concurrency := c\<rparr>) = limits_ok s"
  "limits_ok (s\<lparr>lim_consumer_calls := k\<rparr>) = limits_ok s"
  "limits_ok (s\<lparr>lim_is_paused := p\<rparr>) = limits_ok s"
  by (simp_all add: limits_ok_def)

lemma limits_ok_wm: "limits_ok s \<Longrightarrow> lim_work_manager_max s = lim_max_in_flight_messages s"
  by (simp add: limits_ok_def)

lemma adjust_backpressure_ok: "limits_ok s \<Longrightarrow> limits_ok (maybe_adjust_adaptive_backpressure r s)"
  by (simp add: maybe_adjust_adaptive_backpressure_def Let_def split_beta limits_ok_wm)

lemma adjust_concurrency_ok: "limits_ok s \<Longrightarrow> limits_ok (maybe_adjust_adaptive_concurrency r s)"
  by (simp add: maybe_adjust_adaptive_concurrency_def Let_def split_beta limits_ok_wm split: option.split)

text \<open>The two adjustments leave everything but the limit and the controllers alone.\<close>

lemma adjust_backpressure_frame [simp]:
  "lim_configured_max (maybe_adjust_adaptive_backpressure r s) = lim_configured_max s"
  "lim_is_paused (maybe_adjust_adaptive_backpressure r s) = lim_is_paused s"
  "lim_queue_max_messages (maybe_adjust_adaptive_backpressure r s) = lim_queue_max_messages s"
  "lim_queue_resume_threshold (maybe_adjust_adaptive_backpressure r s) = lim_queue_resume_threshold s"
  "lim_concurrency (maybe_adjust_adaptive_backpressure r s) = lim_concurrency s"
  "lim_consumer_calls (maybe_adjust_adaptive_backpressure r s) = lim_consumer_calls s"
  by (simp_all add: maybe_adjust_adaptive_backpressure_def Let_def split_beta)

lemma adjust_concurrency_frame [simp]:
  "lim_configured_max (maybe_adjust_adaptive_concurrency r s) = lim_configured_max s"
  "lim_is_paused (maybe_adjust_adaptive_concurrency r s) = lim_is_paused s"
  "lim_queue_max_messages (maybe_adjust_adaptive_concurrency r s) = lim_queue_max_messages s"
  "lim_queue_resume_threshold (maybe_adjust_adaptive_concurrency r s) = lim_queue_resume_threshold s"
  "lim_backpressure (maybe_adjust_adaptive_concurrency r s) = lim_backpressure s"
  "lim_consumer_calls (maybe_adjust_adaptive_concurrency r s) = lim_consumer_calls s"
  by (simp_all add: maybe_adjust_adaptive_concurrency_def Let_def split_beta split: option.splits)

section \<open>The shortcut of check_backpressure\<close>

text \<open>The check without its early return, with the new limits named.\<close>

definition adjusted :: "reading \<Rightarrow> limits \<Rightarrow> limits" where
  "adjusted r s = maybe_adjust_adaptive_concurrency r (maybe_adjust_adaptive_backpressure r s)"

definition full_check :: "reading \<Rightarrow> limits \<Rightarrow> limits" where
  "full_check r s =
     (let s2 = adjusted r s; (paused, s3) = check_runtime_backpressure r s2
      in s3\<lparr>lim_is_paused := paused\<rparr>)"

lemma adjusted_ok: "limits_ok s \<Longrightarrow> limits_ok (adjusted r s)"
  by (simp add: adjusted_def adjust_backpressure_ok adjust_concurrency_ok)

lemma check_backpressure_full:
  "rd_consumer r \<Longrightarrow> check_backpressure r s = (Inr (), full_check r s)"
  by (auto simp: check_backpressure_def full_check_def adjusted_def check_runtime_backpressure_def Let_def)

lemma full_check_cases:
  fixes r :: reading and s :: limits
  assumes "rd_assignment r"
  defines "t \<equiv> adjusted r s" and "load \<equiv> rd_total_in_flight r + rd_total_queued r"
  shows "\<not> lim_is_paused s \<Longrightarrow> load > lim_max_in_flight_messages t \<or> queue_full r s \<Longrightarrow>
      full_check r s = t\<lparr>lim_is_paused := True, lim_consumer_calls := lim_consumer_calls s @ [Pause]\<rparr>"
    and "\<not> lim_is_paused s \<Longrightarrow> load \<le> lim_max_in_flight_messages t \<Longrightarrow> \<not> queue_full r s \<Longrightarrow> full_check r s = t"
    and "lim_is_paused s \<Longrightarrow> load < lim_min_in_flight_messages_to_resume t \<Longrightarrow>
      lim_queue_resume_threshold s = 0 \<or> rd_total_queued r \<le> lim_queue_resume_threshold s \<Longrightarrow>
      full_check r s = t\<lparr>lim_is_paused := False, lim_consumer_calls := lim_consumer_calls s @ [Resume]\<rparr>"
    and "lim_is_paused s \<Longrightarrow> load \<ge> lim_min_in_flight_messages_to_resume t \<or>
      lim_queue_resume_threshold s \<noteq> 0 \<and> rd_total_queued r > lim_queue_resume_threshold s \<Longrightarrow> full_check r s = t"
proof -
  have q: "queue_full r t = queue_full r s" by (simp add: queue_full_def t_def adjusted_def)
  have f: "lim_is_paused t = lim_is_paused s" "lim_queue_resume_threshold t = lim_queue_resume_threshold s"
    "lim_consumer_calls t = lim_consumer_calls s" by (simp_all add: t_def adjusted_def)
  note D = full_check_def check_runtime_backpressure_def Let_def t_def[symmetric] load_def[symmetric] assms(1) q f
  show "full_check r s = t\<lparr>lim_is_paused := True, lim_consumer_calls := lim_consumer_calls s @ [Pause]\<rparr>"
    if "\<not> lim_is_paused s" "load > lim_max_in_flight_messages t \<or> queue_full r s"
    using that by (simp add: D)
  show "full_check r s = t" if "\<not> lim_is_paused s" "load \<le> lim_max_in_flight_messages t" "\<not> queue_full r s"
    using that f by (simp add: D)
  show "full_check r s = t\<lparr>lim_is_paused := False, lim_consumer_calls := lim_consumer_calls s @ [Resume]\<rparr>"
    if "lim_is_paused s" "load < lim_min_in_flight_messages_to_resume t"
      "lim_queue_resume_threshold s = 0 \<or> rd_total_queued r \<le> lim_queue_resume_threshold s"
    using that by (simp add: D)
  show "full_check r s = t"
    if "lim_is_paused s" "load \<ge> lim_min_in_flight_messages_to_resume t \<or>
      lim_queue_resume_threshold s \<noteq> 0 \<and> rd_total_queued r > lim_queue_resume_threshold s"
    using that f by (auto simp: D)
qed


lemma full_check_unassigned: "\<not> rd_assignment r \<Longrightarrow> full_check r s = adjusted r s"
  by (simp add: full_check_def check_runtime_backpressure_def Let_def)

lemma check_no_consumer: "\<not> rd_consumer r \<Longrightarrow> check_backpressure r s = (Inl RuntimeError, s)"
  by (simp add: check_backpressure_def)

lemma adjusted_frame [simp]:
  "lim_configured_max (adjusted r s) = lim_configured_max s"
  "lim_is_paused (adjusted r s) = lim_is_paused s"
  "lim_queue_max_messages (adjusted r s) = lim_queue_max_messages s"
  "lim_queue_resume_threshold (adjusted r s) = lim_queue_resume_threshold s"
  "lim_consumer_calls (adjusted r s) = lim_consumer_calls s"
  by (simp_all add: adjusted_def)

text \<open>A full check is the adjustment followed by at most one call of the consumer, which changes the paused flag.\<close>

lemma full_check_shape:
  obtains (same) "full_check r s = adjusted r s"
  | (pause) "rd_assignment r" "\<not> lim_is_paused s"
      "full_check r s = (adjusted r s)\<lparr>lim_is_paused := True, lim_consumer_calls := lim_consumer_calls s @ [Pause]\<rparr>"
      "rd_total_in_flight r + rd_total_queued r > lim_max_in_flight_messages (adjusted r s) \<or> queue_full r s"
  | (resume) "rd_assignment r" "lim_is_paused s"
      "full_check r s = (adjusted r s)\<lparr>lim_is_paused := False, lim_consumer_calls := lim_consumer_calls s @ [Resume]\<rparr>"
      "rd_total_in_flight r + rd_total_queued r < lim_min_in_flight_messages_to_resume (adjusted r s)"
      "lim_queue_resume_threshold s = 0 \<or> rd_total_queued r \<le> lim_queue_resume_threshold s"
proof (cases "rd_assignment r")
  case False
  then show ?thesis using that(1) full_check_unassigned by blast
next
  case True
  note C = full_check_cases[OF True, of s]
  show ?thesis
  proof (cases "lim_is_paused s")
    case p: True
    show ?thesis
      using that(1,3) C(3,4)[OF p] True p by (meson linorder_not_less)
  next
    case p: False
    show ?thesis
      using that(1,2) C(1,2)[OF p] True p by (meson linorder_not_less)
  qed
qed

definition limits_inv :: "int \<Rightarrow> int \<Rightarrow> limits \<Rightarrow> bool" where
  "limits_inv configured queue_max s \<longleftrightarrow>
     limits_ok s \<and> lim_configured_max s = configured \<and> lim_queue_max_messages s = queue_max \<and>
     lim_queue_resume_threshold s = (if queue_max \<noteq> 0 then times_07 queue_max else 0) \<and>
     alternating False (lim_consumer_calls s) (lim_is_paused s)"

lemma limits_init_inv: "limits_inv c q (limits_init c q b cc)"
proof -
  have "limits_ok (limits_init c q b cc)" unfolding limits_init_def by (rule set_runtime_limits_ok) simp
  then show ?thesis by (simp add: limits_inv_def limits_init_def)
qed

lemma full_check_inv: "limits_inv c q s \<Longrightarrow> limits_inv c q (full_check r s)"
  by (rule full_check_shape[of r s]) (auto simp: limits_inv_def adjusted_ok alternating_append)

lemma check_inv: "limits_inv c q s \<Longrightarrow> limits_inv c q (snd (check_backpressure r s))"
  by (cases "rd_consumer r") (simp_all add: check_backpressure_full check_no_consumer full_check_inv)

lemma check_run_inv: "limits_inv c q s \<Longrightarrow> limits_inv c q (check_run rs s)"
  unfolding check_run_def by (induction rs arbitrary: s) (auto intro: check_inv)

lemmas run_inv = check_run_inv[OF limits_init_inv]

lemma resume_below_limit:
  assumes "limits_ok s"
  shows "1 \<le> lim_min_in_flight_messages_to_resume s"
    "lim_min_in_flight_messages_to_resume s \<le> lim_max_in_flight_messages s"
    "2 \<le> lim_max_in_flight_messages s \<Longrightarrow> lim_min_in_flight_messages_to_resume s < lim_max_in_flight_messages s"
  using assms times_07_bounds[of "lim_max_in_flight_messages s"] by (auto simp: limits_ok_def)

section \<open>Controllers\<close>

lemma concurrency_config_kept [simp]:
  "acc_config (snd (concurrency_evaluate now sm c)) = acc_config c"
  "acc_configured_max_in_flight (snd (concurrency_evaluate now sm c)) = acc_configured_max_in_flight c"
  "acc_min_in_flight (snd (concurrency_evaluate now sm c)) = acc_min_in_flight c"
  "acc_cooldown_seconds (snd (concurrency_evaluate now sm c)) = acc_cooldown_seconds c"
  by (auto simp: concurrency_evaluate_def Let_def split: option.splits)

lemma backpressure_config_kept [simp]:
  "abp_config (snd (backpressure_evaluate now lag q lat p c)) = abp_config c"
  "abp_configured_max_in_flight (snd (backpressure_evaluate now lag q lat p c)) = abp_configured_max_in_flight c"
  "abp_min_in_flight (snd (backpressure_evaluate now lag q lat p c)) = abp_min_in_flight c"
  "abp_cooldown_seconds (snd (backpressure_evaluate now lag q lat p c)) = abp_cooldown_seconds c"
  by (auto simp: backpressure_evaluate_def move_limit_def Let_def)

text \<open>An adjustment starts the cooldown, and nothing is adjusted while it lasts.\<close>

lemma concurrency_adjusts:
  "fst (concurrency_evaluate now sm c) = Some n \<Longrightarrow>
     acc_last_adjusted_at (snd (concurrency_evaluate now sm c)) = Some now"
  by (auto simp: concurrency_evaluate_def Let_def split: option.splits if_splits)

lemma concurrency_cools:
  assumes "acc_last_adjusted_at c = Some t" "now < t + acc_cooldown_seconds c"
  shows "concurrency_evaluate now sm c = (None, c)"
  using assms by (simp add: concurrency_evaluate_def cooling_down_def Let_def)

lemma backpressure_adjusts:
  "abp_effective_max_in_flight (snd (backpressure_evaluate now lag q lat p c)) \<noteq> abp_effective_max_in_flight c \<Longrightarrow>
     abp_last_adjusted_at (snd (backpressure_evaluate now lag q lat p c)) = Some now"
  by (auto simp: backpressure_evaluate_def move_limit_def Let_def split: if_splits)

lemma backpressure_cools:
  assumes "abp_last_adjusted_at c = Some t" "now < t + abp_cooldown_seconds c"
  shows "abp_last_adjusted_at (snd (backpressure_evaluate now lag q lat p c)) = Some t"
    "abp_effective_max_in_flight (snd (backpressure_evaluate now lag q lat p c)) = abp_effective_max_in_flight c"
  using assms by (auto simp: backpressure_evaluate_def cooling_down_def Let_def)


text \<open>With adaptive backpressure off, the limit never falls below the minimum of the concurrency
  controller, and an adjustment while paused never raises it.\<close>

definition concurrency_inv :: "concurrency_config \<Rightarrow> limits \<Rightarrow> bool" where
  "concurrency_inv ccfg s \<longleftrightarrow>
     \<not> ab_enabled (abp_config (lim_backpressure s)) \<and> acc_config (lim_concurrency s) = ccfg \<and>
     acc_configured_max_in_flight (lim_concurrency s) = max 1 (lim_configured_max s) \<and>
     acc_min_in_flight (lim_concurrency s) \<le> max 1 (lim_configured_max s) \<and>
     acc_min_in_flight (lim_concurrency s) \<le> lim_max_in_flight_messages s"

lemma adjusted_off:
  "\<not> ab_enabled (abp_config (lim_backpressure s)) \<Longrightarrow> adjusted r s = maybe_adjust_adaptive_concurrency r s"
  by (simp add: adjusted_def maybe_adjust_adaptive_backpressure_def)

lemma concurrency_value:
  assumes "fst (concurrency_evaluate now sm c) = Some n"
  shows "n = max (acc_min_in_flight c) (sm_current_limit sm - ac_scale_down_step (acc_config c)) \<or>
    \<not> sm_is_paused sm \<and> n = min (acc_configured_max_in_flight c) (sm_current_limit sm + ac_scale_up_step (acc_config c))"
  using assms by (auto simp: concurrency_evaluate_def Let_def split: option.splits if_splits)

lemma adjusted_concurrency_inv:
  assumes "concurrency_inv ccfg s" "limits_ok s" "0 \<le> ac_scale_up_step ccfg" "0 \<le> ac_scale_down_step ccfg"
  shows "concurrency_inv ccfg (adjusted r s) \<and>
    (lim_is_paused s \<longrightarrow> lim_max_in_flight_messages (adjusted r s) \<le> lim_max_in_flight_messages s)"
proof -
  define sm where "sm = \<lparr>sm_current_limit = lim_max_in_flight_messages s, sm_total_in_flight = rd_total_in_flight r,
    sm_total_queued = rd_total_queued r, sm_total_true_lag = rd_total_true_lag r,
    sm_is_paused = lim_is_paused s, sm_queue_max_messages = lim_queue_max_messages s\<rparr>"
  let ?e = "concurrency_evaluate (rd_concurrency_now r) sm (lim_concurrency s)"
  have adj: "adjusted r s = (case fst ?e of None \<Rightarrow> s\<lparr>lim_concurrency := snd ?e\<rparr>
      | Some n \<Rightarrow> set_runtime_max_in_flight n (s\<lparr>lim_concurrency := snd ?e\<rparr>))"
    using assms(1) by (simp add: concurrency_inv_def adjusted_off maybe_adjust_adaptive_concurrency_def
      sm_def[symmetric] Let_def split_beta)
  show ?thesis
  proof (cases "fst ?e")
    case None
    then show ?thesis using assms(1) by (simp add: adj concurrency_inv_def)
  next
    case (Some n)
    have sm: "sm_current_limit sm = lim_max_in_flight_messages s" "sm_is_paused sm = lim_is_paused s"
      by (simp_all add: sm_def)
    show ?thesis
      using concurrency_value[OF Some] assms by (auto simp: adj Some concurrency_inv_def limits_ok_def sm clipped_def)
  qed
qed

lemma concurrency_inv_frame [simp]:
  "concurrency_inv ccfg (t\<lparr>lim_is_paused := p, lim_consumer_calls := k\<rparr>) = concurrency_inv ccfg t"
  by (simp add: concurrency_inv_def)

lemma full_check_limit: "lim_max_in_flight_messages (full_check r s) = lim_max_in_flight_messages (adjusted r s)"
  by (rule full_check_shape[of r s]) simp_all

lemma full_check_concurrency_inv:
  assumes "concurrency_inv ccfg s" "limits_ok s" "0 \<le> ac_scale_up_step ccfg" "0 \<le> ac_scale_down_step ccfg"
  shows "concurrency_inv ccfg (full_check r s)"
  using adjusted_concurrency_inv[OF assms] by (cases rule: full_check_shape[of r s]) simp_all

lemma run_concurrency_inv:
  assumes "0 \<le> ac_scale_up_step ccfg" "0 \<le> ac_scale_down_step ccfg"
  shows "concurrency_inv ccfg s \<Longrightarrow> limits_inv c q s \<Longrightarrow> concurrency_inv ccfg (check_run rs s)"
  unfolding check_run_def
proof (induction rs arbitrary: s)
  case (Cons r rs)
  have "concurrency_inv ccfg (snd (check_backpressure r s))"
    using Cons.prems full_check_concurrency_inv[OF _ _ assms]
    by (cases "rd_consumer r") (auto simp: check_backpressure_full check_no_consumer limits_inv_def)
  then show ?case using Cons.IH check_inv[OF Cons.prems(2)] by simp
qed simp

lemma resolve_min_bounded: "1 \<le> configured \<Longrightarrow> resolve_min_in_flight configured raw \<le> configured"
  by (auto simp: resolve_min_in_flight_def)

lemma limits_init_concurrency_inv:
  "\<not> ab_enabled bcfg \<Longrightarrow> concurrency_inv ccfg (limits_init c q bcfg ccfg)"
  using resolve_min_bounded[of "max 1 c" "ac_min_in_flight ccfg"]
  by (auto simp: concurrency_inv_def limits_init_def backpressure_init_def concurrency_init_def clipped_def Let_def)

section \<open>Properties\<close>


text \<open>The early return of \<open>check_backpressure\<close> changes nothing: with a consumer the check is the
  two adjustments followed by the pause/resume decision on the adjusted limits, in every state;
  without a consumer it raises and changes nothing. Over any run the consumer is paused and
  resumed alternately, starting with a pause, and the paused flag tells the last call.\<close>

theorem pause_resume_protocol:
  "check_backpressure r s = (if rd_consumer r then (Inr (), full_check r s) else (Inl RuntimeError, s)) \<and>
   alternating False (lim_consumer_calls (check_run rs (limits_init configured queue_max bcfg ccfg)))
     (lim_is_paused (check_run rs (limits_init configured queue_max bcfg ccfg)))"
  using run_inv[of configured queue_max rs bcfg ccfg]
  by (simp add: check_backpressure_full check_no_consumer limits_inv_def)

text \<open>A paused consumer with partitions is resumed by the next check once nothing is queued or
  in flight, whatever limit the controllers chose in the meantime.\<close>

theorem idle_consumer_resumes:
  assumes s: "s = check_run rs (limits_init configured queue_max bcfg ccfg)" "0 \<le> queue_max" "lim_is_paused s"
    and r: "rd_consumer r" "rd_assignment r" "rd_total_queued r = 0" "rd_total_in_flight r = 0"
  shows "\<not> lim_is_paused (snd (check_backpressure r s)) \<and>
    lim_consumer_calls (snd (check_backpressure r s)) = lim_consumer_calls s @ [Resume]"
proof -
  have inv: "limits_inv configured queue_max s" by (simp add: s(1) run_inv)
  then have "limits_ok (adjusted r s)" by (simp add: limits_inv_def adjusted_ok)
  then have low: "rd_total_in_flight r + rd_total_queued r < lim_min_in_flight_messages_to_resume (adjusted r s)"
    using resume_below_limit(1)[of "adjusted r s"] r by simp
  have "lim_queue_resume_threshold s = 0 \<or> rd_total_queued r \<le> lim_queue_resume_threshold s"
    using inv times_07_bounds(1)[of queue_max] s(2) r by (auto simp: limits_inv_def)
  then show ?thesis
    using full_check_cases(3)[OF r(2) s(3) low] r(1) by (simp add: check_backpressure_full)
qed

text \<open>Hysteresis: with adaptive backpressure off, and adaptive concurrency on or off, a check that
  pauses the consumer is not undone by a following check that reads the same queued and in-flight
  counts, however late it comes. The queue bound must not be 1, whose resume threshold is 0.\<close>

theorem pause_not_undone:
  assumes s: "s = check_run rs (limits_init configured queue_max bcfg ccfg)" "0 \<le> queue_max" "queue_max \<noteq> 1"
    and cfg: "\<not> ab_enabled bcfg" "0 \<le> ac_scale_up_step ccfg" "0 \<le> ac_scale_down_step ccfg"
    and r: "\<not> lim_is_paused s" "t = snd (check_backpressure r s)" "lim_is_paused t"
    and r': "rd_total_queued r' = rd_total_queued r" "rd_total_in_flight r' = rd_total_in_flight r"
  shows "lim_is_paused (snd (check_backpressure r' t))"
proof -
  have inv: "limits_inv configured queue_max s" by (simp add: s(1) run_inv)
  then have t: "limits_inv configured queue_max t" by (simp add: r(2) check_inv)
  have con: "rd_consumer r" using r check_no_consumer by fastforce
  have ci: "concurrency_inv ccfg s"
    using run_concurrency_inv[OF cfg(2,3) limits_init_concurrency_inv limits_init_inv] cfg(1) by (simp add: s(1))
  have tf: "t = full_check r s" by (simp add: r(2) con check_backpressure_full)
  have load: "rd_total_in_flight r + rd_total_queued r > lim_max_in_flight_messages t \<or> queue_full r s"
    using r(1,3) by (cases rule: full_check_shape[of r s]) (simp_all add: tf)
  have ct: "concurrency_inv ccfg t"
    using full_check_concurrency_inv[OF ci _ cfg(2,3)] inv by (simp add: tf limits_inv_def)
  have "lim_max_in_flight_messages (adjusted r' t) \<le> lim_max_in_flight_messages t" "limits_ok (adjusted r' t)"
    using adjusted_concurrency_inv[OF ct _ cfg(2,3)] t r(3) adjusted_ok by (auto simp: limits_inv_def)
  then have high: "lim_min_in_flight_messages_to_resume (adjusted r' t) \<le> lim_max_in_flight_messages t"
    using resume_below_limit(2) by force
  have q: "0 < lim_queue_resume_threshold t \<and> lim_queue_resume_threshold t < rd_total_queued r" if "queue_full r s"
    using that t inv s(2,3) times_07_bounds[of queue_max] by (auto simp: queue_full_def limits_inv_def)
  have "lim_is_paused (full_check r' t)"
    using load high q r(3) by (cases rule: full_check_shape[of r' t]) (auto simp: r')
  then show ?thesis by (cases "rd_consumer r'") (simp_all add: check_backpressure_full check_no_consumer r(3))
qed

text \<open>Each controller honours its cooldown: after the backpressure controller moves its limit, or the
  concurrency controller proposes one, at time \<open>t\<close>, no later evaluation before the end of the
  cooldown moves or proposes anything.\<close>

theorem controllers_honour_cooldown:
  "(fst (concurrency_evaluate t sample c) \<noteq> None \<and> t1 < t + acc_cooldown_seconds c \<longrightarrow>
      fst (concurrency_evaluate t1 sample1 (snd (concurrency_evaluate t sample c))) = None) \<and>
   (abp_effective_max_in_flight (snd (backpressure_evaluate t lag queued lat paused b)) \<noteq> abp_effective_max_in_flight b \<and>
      t1 < t + abp_cooldown_seconds b \<longrightarrow>
      fst (backpressure_evaluate t1 lag1 queued1 lat1 paused1 (snd (backpressure_evaluate t lag queued lat paused b))) =
        fst (backpressure_evaluate t lag queued lat paused b))"
proof (intro conjI impI; elim conjE)
  assume "fst (concurrency_evaluate t sample c) \<noteq> None" "t1 < t + acc_cooldown_seconds c"
  then show "fst (concurrency_evaluate t1 sample1 (snd (concurrency_evaluate t sample c))) = None"
    using concurrency_cools concurrency_adjusts by fastforce
next
  have fst_eff: "fst (backpressure_evaluate u l q x p k) = abp_effective_max_in_flight (snd (backpressure_evaluate u l q x p k))"
    for u l q x p k by (simp add: backpressure_evaluate_def Let_def)
  assume "abp_effective_max_in_flight (snd (backpressure_evaluate t lag queued lat paused b)) \<noteq> abp_effective_max_in_flight b"
    "t1 < t + abp_cooldown_seconds b"
  then show "fst (backpressure_evaluate t1 lag1 queued1 lat1 paused1 (snd (backpressure_evaluate t lag queued lat paused b))) =
      fst (backpressure_evaluate t lag queued lat paused b)"
    using backpressure_cools(2)[OF backpressure_adjusts] by (simp add: fst_eff)
qed

section \<open>A concrete run\<close>

definition demo_bcfg :: "bool \<Rightarrow> backpressure_config" where
  "demo_bcfg on = \<lparr>ab_enabled = on, ab_min_in_flight = 1, ab_scale_up_step = 5, ab_scale_down_step = 5,
     ab_cooldown_ms = 1000, ab_lag_scale_up_threshold = 50, ab_low_latency_threshold_ms = 10,
     ab_high_latency_threshold_ms = 500\<rparr>"

definition demo_ccfg :: concurrency_config where
  "demo_ccfg = \<lparr>ac_enabled = True, ac_min_in_flight = 10, ac_scale_up_step = 10, ac_scale_down_step = 10,
     ac_cooldown_ms = 1000\<rparr>"

definition demo_reading :: "int \<Rightarrow> int \<Rightarrow> real \<Rightarrow> reading" where
  "demo_reading queued in_flight now =
     \<lparr>rd_total_queued = queued, rd_total_in_flight = in_flight, rd_total_true_lag = 0,
      rd_avg_completion_latency_seconds = Some 1, rd_backpressure_now = now, rd_concurrency_now = now,
      rd_consumer = True, rd_assignment = True\<rparr>"

text \<open>A start with a limit of 100, and an overload of 150 in flight that lowers it and pauses the consumer.\<close>

definition demo_start :: "bool \<Rightarrow> limits" where
  "demo_start on = limits_init 100 0 (demo_bcfg on) demo_ccfg"

definition demo_paused :: "bool \<Rightarrow> limits" where
  "demo_paused on = check_run [demo_reading 0 150 0] (demo_start on)"

lemma demo_limits:
  "lim_max_in_flight_messages (demo_paused False) = 90 \<and> lim_is_paused (demo_paused False) \<and>
   \<not> lim_is_paused (demo_start False)"
  by code_simp


theorem idle_consumer_resumes_witness:
  "\<not> lim_is_paused (snd (check_backpressure (demo_reading 0 0 (1/10)) (demo_paused True))) \<and>
   lim_consumer_calls (snd (check_backpressure (demo_reading 0 0 (1/10)) (demo_paused True))) = [Pause, Resume]"
proof -
  have "lim_is_paused (demo_paused True)" "lim_consumer_calls (demo_paused True) = [Pause]" by code_simp+
  then show ?thesis
    using idle_consumer_resumes[of "demo_paused True" "[demo_reading 0 150 0]" 100 0 "demo_bcfg True" demo_ccfg "demo_reading 0 0 (1/10)"]
    by (simp add: demo_paused_def demo_start_def demo_reading_def)
qed

theorem pause_not_undone_witness:
  "lim_is_paused (snd (check_backpressure (demo_reading 0 150 60) (demo_paused False)))"
proof -
  have "demo_start False = check_run [] (limits_init 100 0 (demo_bcfg False) demo_ccfg)"
    by (simp add: demo_start_def check_run_def)
  moreover have "demo_paused False = snd (check_backpressure (demo_reading 0 150 0) (demo_start False))"
    by (simp add: demo_paused_def check_run_def)
  ultimately show ?thesis
    using pause_not_undone[of "demo_start False" "[]" 100 0 "demo_bcfg False" demo_ccfg "demo_paused False"
        "demo_reading 0 150 0" "demo_reading 0 150 60"] demo_limits
    by (simp add: demo_bcfg_def demo_ccfg_def demo_reading_def)
qed

theorem controllers_honour_cooldown_witness:
  "fst (concurrency_evaluate (1/2) \<lparr>sm_current_limit = 90, sm_total_in_flight = 150, sm_total_queued = 0,
      sm_total_true_lag = 0, sm_is_paused = True, sm_queue_max_messages = 0\<rparr>
     (snd (concurrency_evaluate 0 \<lparr>sm_current_limit = 100, sm_total_in_flight = 150, sm_total_queued = 0,
      sm_total_true_lag = 0, sm_is_paused = False, sm_queue_max_messages = 0\<rparr> (concurrency_init demo_ccfg 100)))) = None"
proof -
  have "fst (concurrency_evaluate 0 \<lparr>sm_current_limit = 100, sm_total_in_flight = 150, sm_total_queued = 0,
      sm_total_true_lag = 0, sm_is_paused = False, sm_queue_max_messages = 0\<rparr> (concurrency_init demo_ccfg 100)) = Some 90"
    by code_simp
  moreover have "acc_cooldown_seconds (concurrency_init demo_ccfg 100) = 1"
    by (simp add: concurrency_init_def demo_ccfg_def Let_def)
  ultimately show ?thesis using controllers_honour_cooldown by simp
qed

text \<open>
  With both controllers on, the cooldown does not hold for the limit itself. An overload with high
  latency lowers it to 95 and then to 85 in one check; one millisecond later the backpressure
  controller, cooling down, answers with its own 95, which is installed although the consumer is
  still overloaded.
\<close>

lemma cooldown_overridden:
  "lim_max_in_flight_messages (demo_paused True) = 85 \<and>
   abp_last_adjusted_at (lim_backpressure (demo_paused True)) = Some 0 \<and>
   acc_last_adjusted_at (lim_concurrency (demo_paused True)) = Some 0 \<and>
   lim_max_in_flight_messages (check_run [demo_reading 0 150 (1/1000)] (demo_paused True)) = 95"
  by code_simp

end
