(* ===== verification/Dlq_Support.thy ===== *)
theory Dlq_Support
  imports Dto Complex_Main "HOL-Library.Word"
begin

text \<open>
  The dead-letter support of the broker: the cache of raw payloads (\<open>DlqCacheSupport\<close> of
  \<open>broker_support.py\<close> and its use in \<open>broker_poller_dlq.py\<close>), the topic check of
  \<open>utils/validation.py\<close> and the publication loop of \<open>broker_dlq_publisher.py\<close>.

  Keys and values are \<open>Any\<close> in the source, and the cache looks at their kind and length only; a
  \<open>str\<close> is the list of its code points, none of them a surrogate (those cannot be encoded). The
  Kafka producer is a parameter: for every call it says whether \<open>produce\<close> raised, whether
  \<open>flush\<close> raised, and how many messages \<open>flush\<close> left in the queue. The theorems: the size kept
  beside the cache is the size of its entries and stays within the budget, eviction is by age
  and no more than needed, and a publication tries until one attempt passes, at most
  \<open>max_retries\<close> times.
\<close>

section \<open>Cached payloads\<close>

datatype cached_value =
    NoneValue
  | MemoryView nat
  | Bytes "8 word list"
  | Str "nat list"
  | OtherValue

definition utf8_length :: "nat \<Rightarrow> nat" where
  "utf8_length c = (if c < 128 then 1 else if c < 2048 then 2 else if c < 65536 then 3 else 4)"

fun estimate_cached_payload_bytes :: "cached_value \<Rightarrow> int" where
  "estimate_cached_payload_bytes NoneValue = 0"
| "estimate_cached_payload_bytes (MemoryView n) = int n"
| "estimate_cached_payload_bytes (Bytes bs) = int (length bs)"
| "estimate_cached_payload_bytes (Str cs) = int (\<Sum>c\<leftarrow>cs. utf8_length c)"
| "estimate_cached_payload_bytes OtherValue = 0"

definition get_cached_message_size :: "cached_value \<times> cached_value \<Rightarrow> int" where
  "get_cached_message_size m =
     estimate_cached_payload_bytes (fst m) + estimate_cached_payload_bytes (snd m)"

type_synonym cache_key = "topic_partition \<times> int"
type_synonym cached_message = "cached_value \<times> cached_value"

text \<open>The \<open>OrderedDict\<close> of the poller with the size kept beside it.\<close>

record dlq_cache =
  dc_message_cache :: "(cache_key, cached_message) dict"
  dc_size_bytes :: int

datatype dlq_payload_mode = FULL | METADATA_ONLY

record dlq_config =
  dq_enabled :: bool
  dq_payload_mode :: dlq_payload_mode
  dq_cache_max_bytes :: int

definition should_cache_message_payloads :: "dlq_config \<Rightarrow> bool" where
  "should_cache_message_payloads cfg \<longleftrightarrow>
     dq_enabled cfg \<and> dq_payload_mode cfg = FULL \<and> dq_cache_max_bytes cfg \<noteq> 0"

definition pop_cached_message :: "cache_key \<Rightarrow> dlq_cache \<Rightarrow> cached_message option \<times> dlq_cache" where
  "pop_cached_message cache_key c =
     (case dict_get (dc_message_cache c) cache_key of
        None \<Rightarrow> (None, c)
      | Some m \<Rightarrow>
          (Some m, c\<lparr>dc_message_cache := dict_pop cache_key (dc_message_cache c),
                     dc_size_bytes := max 0 (dc_size_bytes c - get_cached_message_size m)\<rparr>))"

fun evict :: "int \<Rightarrow> int \<Rightarrow> (cache_key, cached_message) dict \<Rightarrow> int
    \<Rightarrow> (cache_key, cached_message) dict \<times> int" where
  "evict max_bytes entry_size [] size_bytes = ([], size_bytes)"
| "evict max_bytes entry_size ((k, m) # cache) size_bytes =
     (if max_bytes > 0 \<and> size_bytes + entry_size > max_bytes
      then evict max_bytes entry_size cache (max 0 (size_bytes - get_cached_message_size m))
      else ((k, m) # cache, size_bytes))"

definition cache_message_for_dlq ::
  "dlq_config \<Rightarrow> cache_key \<Rightarrow> cached_message \<Rightarrow> dlq_cache \<Rightarrow> dlq_cache" where
  "cache_message_for_dlq cfg cache_key m c =
     (let max_bytes = dq_cache_max_bytes cfg;
          c1 = snd (pop_cached_message cache_key c);
          entry_size = get_cached_message_size m
      in if \<not> should_cache_message_payloads cfg then c1
         else if max_bytes > 0 \<and> entry_size > max_bytes then c1
         else
           let (cache, size_bytes) = evict max_bytes entry_size (dc_message_cache c1) (dc_size_bytes c1)
           in \<lparr>dc_message_cache = dict_set cache_key m cache, dc_size_bytes = size_bytes + entry_size\<rparr>)"

definition drop_cached_partition_messages :: "topic_partition \<Rightarrow> dlq_cache \<Rightarrow> dlq_cache" where
  "drop_cached_partition_messages tp c =
     fold (\<lambda>k c. snd (pop_cached_message k c))
       (filter (\<lambda>k. fst k = tp) (map fst (dc_message_cache c))) c"

section \<open>Publication\<close>

definition topic_char :: "char \<Rightarrow> bool" where
  "topic_char c \<longleftrightarrow>
     CHR ''A'' \<le> c \<and> c \<le> CHR ''Z'' \<or> CHR ''a'' \<le> c \<and> c \<le> CHR ''z'' \<or>
     CHR ''0'' \<le> c \<and> c \<le> CHR ''9'' \<or> c \<in> {CHR ''.'', CHR ''_'', CHR ''-''}"

text \<open>
  \<open>re.match\<close> with the pattern \<open>^[A-Za-z0-9._-]+$\<close>: in Python \<open>$\<close> matches at the end and also
  before a newline that ends the text.
\<close>

definition topic_pattern_matches :: "string \<Rightarrow> bool" where
  "topic_pattern_matches s =
     (let body = (if s \<noteq> [] \<and> last s = CHR 0x0A then butlast s else s)
      in body \<noteq> [] \<and> list_all topic_char body)"

definition validate_topic_name :: "string \<Rightarrow> py_error + string" where
  "validate_topic_name s = (if topic_pattern_matches s then Inr s else Inl ValueError)"

record publish_config =
  pc_dlq_topic_suffix :: string
  pc_payload_mode :: dlq_payload_mode
  pc_max_retries :: int
  pc_retry_backoff_ms :: int
  pc_max_retry_backoff_ms :: int
  pc_exponential_backoff :: bool

record dlq_record =
  dr_topic :: string
  dr_key :: cached_value
  dr_value :: cached_value
  dr_headers :: "(string \<times> string) list"

text \<open>One attempt of the producer: \<open>produce\<close> raises, \<open>flush\<close> raises, or \<open>flush\<close> returns what is left.\<close>

datatype produce_outcome = ProduceRaised | FlushRaised | Flushed nat

text \<open>What the loop did: the records handed to the producer, and the sleeps between attempts.\<close>

datatype publish_event = Produced dlq_record | Slept real

definition backoff_ms :: "publish_config \<Rightarrow> nat \<Rightarrow> int" where
  "backoff_ms cfg retry_attempt =
     (if pc_exponential_backoff cfg
      then min (pc_retry_backoff_ms cfg * 2 ^ retry_attempt) (pc_max_retry_backoff_ms cfg)
      else pc_retry_backoff_ms cfg)"

function publish_loop ::
  "publish_config \<Rightarrow> (nat \<Rightarrow> produce_outcome) \<Rightarrow> (nat \<Rightarrow> real) \<Rightarrow> dlq_record \<Rightarrow> nat
    \<Rightarrow> bool \<times> publish_event list" where
  "publish_loop cfg producer jitter r retry_attempt =
     (if int retry_attempt < pc_max_retries cfg then
        (case producer retry_attempt of
           Flushed left \<Rightarrow> (True, [Produced r])
         | failed \<Rightarrow>
             let sent = (if failed = FlushRaised then [Produced r] else [])
             in if int retry_attempt < pc_max_retries cfg - 1 then
                  let (ok, evs) = publish_loop cfg producer jitter r (Suc retry_attempt)
                  in (ok, sent @ Slept ((real_of_int (backoff_ms cfg retry_attempt) + jitter retry_attempt) / 1000) # evs)
                else (False, sent))
      else (False, []))"
  by auto
termination
  by (relation "measure (\<lambda>(cfg, producer, jitter, r, k). nat (pc_max_retries cfg - int k))") auto

declare publish_loop.simps [simp del]

definition publish_to_dlq ::
  "publish_config \<Rightarrow> string \<Rightarrow> (nat \<Rightarrow> produce_outcome) \<Rightarrow> (nat \<Rightarrow> real) \<Rightarrow> topic_partition \<Rightarrow> int \<Rightarrow> int
    \<Rightarrow> cached_message \<Rightarrow> string \<Rightarrow> int \<Rightarrow> py_error + bool \<times> publish_event list" where
  "publish_to_dlq cfg consume_topic producer jitter tp offset epoch m error attempt =
     (case validate_topic_name consume_topic of
        Inl e \<Rightarrow> Inl e
      | Inr source_topic \<Rightarrow>
          (case validate_topic_name (pc_dlq_topic_suffix cfg) of
             Inl e \<Rightarrow> Inl e
           | Inr suffix \<Rightarrow>
               Inr (publish_loop cfg producer jitter
                 \<lparr>dr_topic = source_topic @ suffix,
                  dr_key = (if pc_payload_mode cfg = FULL then fst m else NoneValue),
                  dr_value = (if pc_payload_mode cfg = FULL then snd m else NoneValue),
                  dr_headers =
                    [(''x-error-reason'', error), (''x-retry-attempt'', str_int attempt),
                     (''source-topic'', topic tp), (''partition'', str_int (partition tp)),
                     (''offset'', str_int offset), (''epoch'', str_int epoch)]\<rparr> 0)))"

section \<open>The cache\<close>

definition cache_bytes :: "(cache_key, cached_message) dict \<Rightarrow> int" where
  "cache_bytes d = (\<Sum>(k, m)\<leftarrow>d. get_cached_message_size m)"

definition cache_ok :: "dlq_config \<Rightarrow> dlq_cache \<Rightarrow> bool" where
  "cache_ok cfg c \<longleftrightarrow>
     dict_wf (dc_message_cache c) \<and> dc_size_bytes c = cache_bytes (dc_message_cache c) \<and>
     (dq_cache_max_bytes cfg > 0 \<longrightarrow> dc_size_bytes c \<le> dq_cache_max_bytes cfg)"

lemma size_nonneg [simp]: "0 \<le> get_cached_message_size m"
proof -
  have "0 \<le> estimate_cached_payload_bytes x" for x by (cases x) simp_all
  then show ?thesis by (simp add: get_cached_message_size_def)
qed

lemma cache_bytes_simps [simp]:
  "cache_bytes [] = 0" "cache_bytes ((k, m) # d) = get_cached_message_size m + cache_bytes d"
  "cache_bytes (d @ e) = cache_bytes d + cache_bytes e"
  by (simp_all add: cache_bytes_def)

lemma cache_bytes_nonneg [simp]: "0 \<le> cache_bytes d"
  by (induction d) auto

lemma cache_bytes_pop:
  "dict_wf d \<Longrightarrow> dict_get d k = Some m \<Longrightarrow> cache_bytes (dict_pop k d) = cache_bytes d - get_cached_message_size m"
proof (induction d)
  case (Cons e d)
  then show ?case by (cases e) (auto simp: dict_wf_def dict_pop_notin split: if_splits)
qed simp

lemma cache_bytes_fresh: "dict_get d k = None \<Longrightarrow> dict_set k m d = d @ [(k, m)]"
  by (induction d) (auto split: if_splits)

lemma pop_cached_fields:
  assumes "dict_wf (dc_message_cache c)" "dc_size_bytes c = cache_bytes (dc_message_cache c)"
  shows "fst (pop_cached_message k c) = dict_get (dc_message_cache c) k"
    "snd (pop_cached_message k c) =
       \<lparr>dc_message_cache = dict_pop k (dc_message_cache c),
        dc_size_bytes = cache_bytes (dict_pop k (dc_message_cache c))\<rparr>"
proof -
  show "fst (pop_cached_message k c) = dict_get (dc_message_cache c) k"
    by (simp add: pop_cached_message_def split: option.split)
  show "snd (pop_cached_message k c) =
       \<lparr>dc_message_cache = dict_pop k (dc_message_cache c),
        dc_size_bytes = cache_bytes (dict_pop k (dc_message_cache c))\<rparr>"
  proof (cases "dict_get (dc_message_cache c) k")
    case None
    then have "dict_pop k (dc_message_cache c) = dc_message_cache c"
      by (simp add: dict_pop_notin map_of_eq_None_iff)
    then show ?thesis using None assms(2) by (simp add: pop_cached_message_def)
  next
    case (Some m)
    have "cache_bytes (dict_pop k (dc_message_cache c)) = cache_bytes (dc_message_cache c) - get_cached_message_size m"
      by (rule cache_bytes_pop[OF assms(1) Some])
    then show ?thesis
      using cache_bytes_nonneg[of "dict_pop k (dc_message_cache c)"] Some assms(2)
      by (simp add: pop_cached_message_def del: cache_bytes_nonneg)
  qed
qed

lemma cache_bytes_pop_le: "cache_bytes (dict_pop k d) \<le> cache_bytes d"
proof (induction d)
  case (Cons e d)
  then show ?case by (cases e) (simp add: add_increasing)
qed simp

lemma pop_cached_ok:
  assumes "cache_ok cfg c"
  shows "cache_ok cfg (snd (pop_cached_message k c))"
  using assms cache_bytes_pop_le[of k "dc_message_cache c"]
  by (auto simp: cache_ok_def pop_cached_fields)

text \<open>Eviction drops the oldest entries, as few as the budget allows.\<close>

lemma evict_spec:
  assumes "evict max_bytes entry d (cache_bytes d) = (d', n)" "entry \<le> max_bytes \<or> max_bytes \<le> 0"
  shows "\<exists>old. d = old @ d' \<and> n = cache_bytes d' \<and> (max_bytes > 0 \<longrightarrow> n + entry \<le> max_bytes) \<and>
    (old \<noteq> [] \<longrightarrow> max_bytes > 0 \<and> cache_bytes (last old # d') + entry > max_bytes)"
  using assms
proof (induction d arbitrary: n)
  case Nil
  then show ?case by auto
next
  case (Cons e d)
  obtain k m where e: "e = (k, m)" by (cases e) blast
  show ?case
  proof (cases "max_bytes > 0 \<and> cache_bytes (e # d) + entry > max_bytes")
    case True
    then have "evict max_bytes entry d (cache_bytes d) = (d', n)"
      using Cons.prems e by simp
    from Cons.IH[OF this Cons.prems(2)] obtain old where old: "d = old @ d'" "n = cache_bytes d'"
      "max_bytes > 0 \<longrightarrow> n + entry \<le> max_bytes"
      "old \<noteq> [] \<longrightarrow> max_bytes > 0 \<and> cache_bytes (last old # d') + entry > max_bytes" by blast
    have "cache_bytes (last (e # old) # d') + entry > max_bytes"
      using old True by (cases "old = []") simp_all
    then show ?thesis using old True by (intro exI[of _ "e # old"]) simp
  next
    case False
    then have "d' = e # d" "n = cache_bytes (e # d)" using Cons.prems e by auto
    then show ?thesis using False by (intro exI[of _ "[]"]) auto
  qed
qed


lemma cache_message_spec:
  fixes k :: cache_key and m :: cached_message
  assumes "cache_ok cfg c"
  defines "c' \<equiv> cache_message_for_dlq cfg k m c" and "rest \<equiv> dict_pop k (dc_message_cache c)"
  shows "cache_ok cfg c' \<and>
    (\<not> should_cache_message_payloads cfg \<or>
       dq_cache_max_bytes cfg > 0 \<and> get_cached_message_size m > dq_cache_max_bytes cfg \<longrightarrow>
       dc_message_cache c' = rest) \<and>
    (should_cache_message_payloads cfg \<and>
       (dq_cache_max_bytes cfg > 0 \<longrightarrow> get_cached_message_size m \<le> dq_cache_max_bytes cfg) \<longrightarrow>
       (\<exists>old kept. rest = old @ kept \<and> dc_message_cache c' = kept @ [(k, m)] \<and>
          (old \<noteq> [] \<longrightarrow> dq_cache_max_bytes cfg > 0 \<and>
             cache_bytes (last old # kept) + get_cached_message_size m > dq_cache_max_bytes cfg)))"
proof (cases "\<not> should_cache_message_payloads cfg \<or>
    dq_cache_max_bytes cfg > 0 \<and> get_cached_message_size m > dq_cache_max_bytes cfg")
  case True
  then have "c' = snd (pop_cached_message k c)" by (auto simp: c'_def cache_message_for_dlq_def Let_def)
  moreover have "cache_ok cfg (snd (pop_cached_message k c))" by (rule pop_cached_ok[OF assms(1)])
  moreover have "dc_message_cache (snd (pop_cached_message k c)) = rest"
    using assms(1) by (simp add: pop_cached_fields cache_ok_def rest_def)
  ultimately show ?thesis using True by auto
next
  case False
  let ?n = "get_cached_message_size m" and ?max = "dq_cache_max_bytes cfg"
  have pop: "snd (pop_cached_message k c) = \<lparr>dc_message_cache = rest, dc_size_bytes = cache_bytes rest\<rparr>"
    using assms(1) by (simp add: pop_cached_fields cache_ok_def rest_def)
  obtain kept n where ev: "evict ?max ?n rest (cache_bytes rest) = (kept, n)" by force
  have fits: "?n \<le> ?max \<or> ?max \<le> 0" using False by auto
  obtain old where old: "rest = old @ kept" "n = cache_bytes kept" "?max > 0 \<longrightarrow> n + ?n \<le> ?max"
    "old \<noteq> [] \<longrightarrow> ?max > 0 \<and> cache_bytes (last old # kept) + ?n > ?max"
    using evict_spec[OF ev fits] by blast
  have wf: "dict_wf rest" "k \<notin> fst ` set rest"
    using assms(1) dict_keys_pop[of k "dc_message_cache c"]
    by (simp_all add: rest_def cache_ok_def flip: set_map)
  then have kept: "dict_get kept k = None" "distinct (map fst kept)"
    using old(1) by (auto simp: map_of_eq_None_iff dict_wf_def)
  have c': "c' = \<lparr>dc_message_cache = kept @ [(k, m)], dc_size_bytes = cache_bytes kept + ?n\<rparr>"
    using False ev kept(1) old(2)
    by (auto simp: c'_def cache_message_for_dlq_def Let_def pop cache_bytes_fresh)
  have "cache_ok cfg c'"
    using kept old(2,3) by (auto simp: c' cache_ok_def dict_wf_def map_of_eq_None_iff)
  then show ?thesis using False old(1,4) c' by auto
qed

lemma drop_fold:
  assumes "dict_wf (dc_message_cache c)" "dc_size_bytes c = cache_bytes (dc_message_cache c)"
  shows "fold (\<lambda>k c. snd (pop_cached_message k c)) ks c =
    \<lparr>dc_message_cache = filter (\<lambda>(k, m). k \<notin> set ks) (dc_message_cache c),
     dc_size_bytes = cache_bytes (filter (\<lambda>(k, m). k \<notin> set ks) (dc_message_cache c))\<rparr>"
  using assms
proof (induction ks arbitrary: c)
  case Nil
  then show ?case by simp
next
  case (Cons k ks)
  have pop: "dict_pop k (dc_message_cache c) = filter (\<lambda>(k', m). k' \<noteq> k) (dc_message_cache c)"
    by (simp add: AList.delete_eq split_beta eq_commute)
  show ?case
    using Cons.prems Cons.IH[of "snd (pop_cached_message k c)"]
      dict_wf_pop[of "dc_message_cache c" k]
    by (simp add: pop_cached_fields pop split_beta conj_commute)
qed

lemma drop_spec:
  assumes "cache_ok cfg c"
  shows "dc_message_cache (drop_cached_partition_messages tp c) =
      filter (\<lambda>(k, m). fst k \<noteq> tp) (dc_message_cache c)"
    "cache_ok cfg (drop_cached_partition_messages tp c)"
proof -
  let ?ks = "filter (\<lambda>k. fst k = tp) (map fst (dc_message_cache c))"
  have f: "filter (\<lambda>(k, m). k \<notin> set ?ks) (dc_message_cache c) = filter (\<lambda>(k, m). fst k \<noteq> tp) (dc_message_cache c)"
    by (rule filter_cong) force+
  have d: "drop_cached_partition_messages tp c =
      \<lparr>dc_message_cache = filter (\<lambda>(k, m). fst k \<noteq> tp) (dc_message_cache c),
       dc_size_bytes = cache_bytes (filter (\<lambda>(k, m). fst k \<noteq> tp) (dc_message_cache c))\<rparr>"
    using drop_fold[of c ?ks] assms f by (simp add: drop_cached_partition_messages_def cache_ok_def)
  show "dc_message_cache (drop_cached_partition_messages tp c) =
      filter (\<lambda>(k, m). fst k \<noteq> tp) (dc_message_cache c)" by (simp add: d)
  have "cache_bytes (filter P x) \<le> cache_bytes x" for P x
    by (induction x) (auto simp: add_increasing)
  then show "cache_ok cfg (drop_cached_partition_messages tp c)"
    using assms order_trans dict_wf_filter[of "dc_message_cache c" "\<lambda>k. fst k \<noteq> tp"]
    by (fastforce simp: d cache_ok_def dict_filter_def)
qed


text \<open>The calls of the poller on its cache.\<close>

datatype cache_call =
    CacheMessage cache_key cached_message
  | PopMessage cache_key
  | DropPartition topic_partition

fun cache_call_step :: "dlq_config \<Rightarrow> cache_call \<Rightarrow> dlq_cache \<Rightarrow> dlq_cache" where
  "cache_call_step cfg (CacheMessage k m) c = cache_message_for_dlq cfg k m c"
| "cache_call_step cfg (PopMessage k) c = snd (pop_cached_message k c)"
| "cache_call_step cfg (DropPartition tp) c = drop_cached_partition_messages tp c"

definition empty_cache :: dlq_cache where
  "empty_cache = \<lparr>dc_message_cache = [], dc_size_bytes = 0\<rparr>"

lemma cache_run_ok: "cache_ok cfg (fold (cache_call_step cfg) calls empty_cache)"
proof (induction calls rule: rev_induct)
  case Nil
  then show ?case by (simp add: empty_cache_def cache_ok_def)
next
  case (snoc x xs)
  then show ?case using cache_message_spec pop_cached_ok drop_spec(2) by (cases x) auto
qed

section \<open>The publication loop\<close>

fun flushed :: "produce_outcome \<Rightarrow> bool" where
  "flushed (Flushed left) = True"
| "flushed _ = False"

lemma publish_loop_spec:
  "fst (publish_loop cfg producer jitter r k) \<longleftrightarrow> (\<exists>i. k \<le> i \<and> int i < pc_max_retries cfg \<and> flushed (producer i))"
  "set (snd (publish_loop cfg producer jitter r k)) \<subseteq> insert (Produced r) (range Slept)"
  "int (length (filter (\<lambda>e. e = Produced r) (snd (publish_loop cfg producer jitter r k)))) \<le> max 0 (pc_max_retries cfg - int k)"
proof (induction cfg producer jitter r k rule: publish_loop.induct)
  case (1 cfg producer jitter r k)
  let ?L = "publish_loop cfg producer jitter r"
  have up: "(\<exists>i. k \<le> i \<and> int i < pc_max_retries cfg \<and> flushed (producer i)) \<longleftrightarrow>
      int k < pc_max_retries cfg \<and> flushed (producer k) \<or>
      (\<exists>i. Suc k \<le> i \<and> int i < pc_max_retries cfg \<and> flushed (producer i))"
    (is "?l = (?here \<or> ?later)")
  proof
    assume ?l
    then obtain i where i: "k \<le> i" "int i < pc_max_retries cfg" "flushed (producer i)" by blast
    then show "?here \<or> ?later" by (cases "i = k") (auto intro!: exI[of _ i])
  qed (auto dest: Suc_leD)
  have none: "\<not> int k < pc_max_retries cfg - 1 \<Longrightarrow> \<not> (\<exists>i. Suc k \<le> i \<and> int i < pc_max_retries cfg \<and> flushed (producer i))"
    by auto
  consider (over) "\<not> int k < pc_max_retries cfg" | (ok) left where "int k < pc_max_retries cfg" "producer k = Flushed left"
    | (last) "int k < pc_max_retries cfg" "\<not> flushed (producer k)" "\<not> int k < pc_max_retries cfg - 1"
    | (again) "int k < pc_max_retries cfg" "\<not> flushed (producer k)" "int k < pc_max_retries cfg - 1"
    by (metis flushed.elims(2))
  then have "(fst (?L k) \<longleftrightarrow> (\<exists>i. k \<le> i \<and> int i < pc_max_retries cfg \<and> flushed (producer i))) \<and>
    set (snd (?L k)) \<subseteq> insert (Produced r) (range Slept) \<and>
    int (length (filter (\<lambda>e. e = Produced r) (snd (?L k)))) \<le> max 0 (pc_max_retries cfg - int k)"
  proof cases
    case over
    then show ?thesis by (simp add: publish_loop.simps[of cfg producer jitter r k] up)
  next
    case ok
    then show ?thesis by (simp add: publish_loop.simps[of cfg producer jitter r k] up)
  next
    case last
    then show ?thesis using none[OF last(3)]
      by (cases "producer k") (simp_all add: publish_loop.simps[of cfg producer jitter r k] up)
  next
    case again
    have IH: "fst (?L (Suc k)) \<longleftrightarrow> (\<exists>i. Suc k \<le> i \<and> int i < pc_max_retries cfg \<and> flushed (producer i))"
      "set (snd (?L (Suc k))) \<subseteq> insert (Produced r) (range Slept)"
      "int (length (filter (\<lambda>e. e = Produced r) (snd (?L (Suc k))))) \<le> max 0 (pc_max_retries cfg - int (Suc k))"
      using "1.IH" again by (cases "producer k"; simp)+
    show ?thesis using again IH
      by (cases "producer k") (auto simp: publish_loop.simps[of cfg producer jitter r k] up Let_def split_beta)
  qed
  then show "fst (?L k) \<longleftrightarrow> (\<exists>i. k \<le> i \<and> int i < pc_max_retries cfg \<and> flushed (producer i))"
    "set (snd (?L k)) \<subseteq> insert (Produced r) (range Slept)"
    "int (length (filter (\<lambda>e. e = Produced r) (snd (?L k)))) \<le> max 0 (pc_max_retries cfg - int k)" by auto
qed

section \<open>Properties\<close>

text \<open>The raw-payload cache is accounted exactly: over any sequence of calls the size kept
  beside the cache is the sum of its entries' sizes, no message is cached twice, and with a
  positive budget the size stays within it. Caching a message that fits puts it last and evicts
  the oldest entries only, never one more than the budget requires.\<close>

theorem dlq_cache_within_budget:
  assumes "c = fold (cache_call_step cfg) calls empty_cache"
    and "should_cache_message_payloads cfg" "0 < dq_cache_max_bytes cfg"
    and "get_cached_message_size m \<le> dq_cache_max_bytes cfg"
  shows "dc_size_bytes c = (\<Sum>(k, m)\<leftarrow>dc_message_cache c. get_cached_message_size m) \<and>
    distinct (map fst (dc_message_cache c)) \<and> dc_size_bytes c \<le> dq_cache_max_bytes cfg \<and>
    (\<exists>old kept. dict_pop k (dc_message_cache c) = old @ kept \<and>
       dc_message_cache (cache_message_for_dlq cfg k m c) = kept @ [(k, m)] \<and>
       (old = [] \<or> (\<Sum>(k, m)\<leftarrow>last old # kept. get_cached_message_size m) + get_cached_message_size m
         > dq_cache_max_bytes cfg))"
proof -
  have ok: "cache_ok cfg c" by (simp add: assms(1) cache_run_ok)
  then show ?thesis
    using cache_message_spec[OF ok, of k m] assms(2-4)
    by (auto simp: cache_ok_def dict_wf_def cache_bytes_def)
qed


section \<open>Concrete calls\<close>

definition demo_dlq :: dlq_config where
  "demo_dlq = \<lparr>dq_enabled = True, dq_payload_mode = FULL, dq_cache_max_bytes = 5\<rparr>"

theorem dlq_cache_within_budget_witness:
  "dc_message_cache (cache_message_for_dlq demo_dlq (TopicPartition ''t'' 0, 2) (NoneValue, Bytes [1, 2])
      (fold (cache_call_step demo_dlq)
         [CacheMessage (TopicPartition ''t'' 0, 0) (Bytes [7], Bytes [8, 9]),
          CacheMessage (TopicPartition ''t'' 0, 1) (NoneValue, Bytes [5])] empty_cache)) =
    [((TopicPartition ''t'' 0, 1), NoneValue, Bytes [5]), ((TopicPartition ''t'' 0, 2), NoneValue, Bytes [1, 2])]"
proof -
  let ?c = "fold (cache_call_step demo_dlq)
         [CacheMessage (TopicPartition ''t'' 0, 0) (Bytes [7], Bytes [8, 9]),
          CacheMessage (TopicPartition ''t'' 0, 1) (NoneValue, Bytes [5])] empty_cache"
  have "should_cache_message_payloads demo_dlq" "0 < dq_cache_max_bytes demo_dlq"
    "get_cached_message_size (NoneValue, Bytes [1, 2]) \<le> dq_cache_max_bytes demo_dlq"
    by (simp_all add: demo_dlq_def should_cache_message_payloads_def get_cached_message_size_def)
  from dlq_cache_within_budget[OF refl this, where k = "(TopicPartition ''t'' 0, 2)"
      and calls = "[CacheMessage (TopicPartition ''t'' 0, 0) (Bytes [7], Bytes [8, 9]),
          CacheMessage (TopicPartition ''t'' 0, 1) (NoneValue, Bytes [5])]"]
  obtain kept where "dc_message_cache (cache_message_for_dlq demo_dlq (TopicPartition ''t'' 0, 2) (NoneValue, Bytes [1, 2]) ?c) =
      kept @ [((TopicPartition ''t'' 0, 2), NoneValue, Bytes [1, 2])]" by blast
  moreover have "map fst (dc_message_cache (cache_message_for_dlq demo_dlq (TopicPartition ''t'' 0, 2) (NoneValue, Bytes [1, 2]) ?c)) =
      [(TopicPartition ''t'' 0, 1), (TopicPartition ''t'' 0, 2)]"
    "dict_get (dc_message_cache (cache_message_for_dlq demo_dlq (TopicPartition ''t'' 0, 2) (NoneValue, Bytes [1, 2]) ?c))
      (TopicPartition ''t'' 0, 1) = Some (NoneValue, Bytes [5])" by code_simp+
  ultimately show ?thesis by (cases kept) auto
qed

text \<open>
  Two ways in which success is reported, or a name accepted, although something is wrong: a
  flush that times out with the record still in the queue counts as published, and a topic
  name may end in a newline.
\<close>

lemma unflushed_counts_as_published:
  "publish_loop cfg (\<lambda>_. Flushed 1) jitter r 0 = (0 < pc_max_retries cfg, if 0 < pc_max_retries cfg then [Produced r] else [])"
  by (simp add: publish_loop.simps)

lemma trailing_newline_accepted: "validate_topic_name (''orders'' @ [CHR 0x0A]) = Inr (''orders'' @ [CHR 0x0A])"
  by code_simp

end
