(* ===== verification/Broker_Completion.thy ===== *)
theory Broker_Completion
  imports Work_Manager Dlq_Support
begin

text \<open>
  What the broker does with completion events: \<open>broker_completion_support.py\<close>, and the ledger of
  completed but uncommitted offsets in \<open>broker_commit_settlement_support.py\<close>.

  The objects the support classes share with the poller (trackers, raw-payload cache, pending
  dead-letter events, settlement ledgers) are fields of explicit state records. Publication to
  the dead-letter topic is a function argument that may answer differently on every call (its
  first argument counts the calls) and may raise; \<open>broker_publish\<close> instantiates it with the
  modelled publisher. The caller holds the control lock throughout, so a call is one step.
  Theorems: a terminal failure completes its offset only after a successful publication; every
  current event ends up completed or retained for retry, with its payload; and the result lists
  exactly the offsets that became complete.
\<close>

section \<open>State\<close>

record ('s, 'c) completion_state =
  bs_offset_trackers :: "(topic_partition, ('s, 'c) offset_tracker) dict"
  bs_dlq_cache :: dlq_cache
  bs_pending_dlq_events :: "(cache_key, completion_event) dict"

record completion_config =
  comp_dlq_enabled :: bool
  comp_max_retries :: int

record completion_processing_result =
  cpr_processed_count :: int
  cpr_completed_partitions :: "topic_partition set"
  cpr_completed_counts_by_partition :: "(topic_partition, int) dict"
  cpr_completed_offsets_by_partition :: "(topic_partition, int list) dict"

text \<open>The local variables of \<open>process_completed_events\<close>, and the number of publications so far.\<close>

record completion_locals =
  cl_resolved_pending_keys :: "cache_key set"
  cl_completed_count :: int
  cl_completed_partitions :: "topic_partition set"
  cl_completed_offsets :: "(topic_partition, int list) dict"
  cl_publications :: nat

type_synonym publisher = "nat \<Rightarrow> completion_event \<Rightarrow> cached_message \<Rightarrow> string \<Rightarrow> py_error + bool"

definition event_key :: "completion_event \<Rightarrow> cache_key" where
  "event_key event = (ce_tp event, ce_offset event)"

section \<open>Completed events\<close>

text \<open>A failure that has used up its attempts goes to the dead-letter topic.\<close>

definition needs_dlq :: "completion_config \<Rightarrow> completion_event \<Rightarrow> bool" where
  "needs_dlq cfg event \<longleftrightarrow>
     ce_status event = FAILURE \<and> comp_dlq_enabled cfg \<and> ce_attempt event \<ge> comp_max_retries cfg"

definition error_text :: "completion_event \<Rightarrow> string" where
  "error_text event =
     (case ce_error event of
        None \<Rightarrow> ''Unknown error''
      | Some e \<Rightarrow> if e = [] then ''Unknown error'' else e)"

definition publish_event_to_dlq ::
  "completion_config \<Rightarrow> publisher \<Rightarrow> nat \<Rightarrow> completion_event \<Rightarrow> ('s, 'c) completion_state \<Rightarrow> py_error + bool" where
  "publish_event_to_dlq cfg publish n event s =
     (if needs_dlq cfg event
      then publish n event
             (case dict_get (dc_message_cache (bs_dlq_cache s)) (event_key event) of
                None \<Rightarrow> (NoneValue, NoneValue) | Some m \<Rightarrow> m)
             (error_text event)
      else Inr True)"

text \<open>One turn of the loop; \<open>from_pending_ledger\<close> marks an event that is retried.\<close>

definition complete_event ::
  "('s, 'c) container_ops \<Rightarrow> completion_event \<Rightarrow> bool \<Rightarrow> ('s, 'c) offset_tracker \<Rightarrow> completion_locals
    \<Rightarrow> ('s, 'c) completion_state \<Rightarrow> completion_locals \<times> ('s, 'c) completion_state" where
  "complete_event D event from_pending_ledger tracker l s =
     (let key = event_key event; tp = ce_tp event;
          tracker' = mark_complete D (ce_offset event) tracker;
          l1 = (if ss_len D (ot_completed_offsets tracker') \<noteq> ss_len D (ot_completed_offsets tracker)
                then l\<lparr>cl_completed_count := cl_completed_count l + 1,
                       cl_completed_partitions := insert tp (cl_completed_partitions l),
                       cl_completed_offsets :=
                         dict_set tp (dict_get_default (cl_completed_offsets l) tp [] @ [ce_offset event])
                           (cl_completed_offsets l)\<rparr>
                else l);
          l2 = (if from_pending_ledger
                then l1\<lparr>cl_resolved_pending_keys := insert key (cl_resolved_pending_keys l1)\<rparr> else l1)
      in (l2, s\<lparr>bs_offset_trackers := dict_set tp tracker' (bs_offset_trackers s),
               bs_pending_dlq_events := dict_pop key (bs_pending_dlq_events s),
               bs_dlq_cache := snd (pop_cached_message key (bs_dlq_cache s))\<rparr>))"

definition process_event ::
  "('s, 'c) container_ops \<Rightarrow> completion_config \<Rightarrow> publisher \<Rightarrow> completion_event \<times> bool \<Rightarrow> completion_locals
    \<Rightarrow> ('s, 'c) completion_state \<Rightarrow> (py_error + completion_locals) \<times> ('s, 'c) completion_state" where
  "process_event D cfg publish ev l s =
     (let (event, from_pending_ledger) = ev; key = event_key event;
          discarded = (if from_pending_ledger
            then s\<lparr>bs_pending_dlq_events := dict_pop key (bs_pending_dlq_events s)\<rparr> else s)
      in if \<not> from_pending_ledger \<and>
            (dict_has (bs_pending_dlq_events s) key \<or> key \<in> cl_resolved_pending_keys l)
         then (Inr l, s)
         else case dict_get (bs_offset_trackers s) (ce_tp event) of
           None \<Rightarrow> (Inr l, discarded)
         | Some tracker \<Rightarrow>
             if ce_epoch event \<noteq> get_current_epoch tracker then (Inr l, discarded)
             else
               let l1 = (if needs_dlq cfg event then l\<lparr>cl_publications := cl_publications l + 1\<rparr> else l)
               in case publish_event_to_dlq cfg publish (cl_publications l) event s of
                    Inl e \<Rightarrow> (Inl e, s)
                  | Inr dlq_success \<Rightarrow>
                      if \<not> dlq_success
                      then (Inr l1, s\<lparr>bs_pending_dlq_events := dict_set key event (bs_pending_dlq_events s)\<rparr>)
                      else case complete_event D event from_pending_ledger tracker l1 s of
                             (l2, s2) \<Rightarrow> (Inr l2, s2))"

fun process_events_loop ::
  "('s, 'c) container_ops \<Rightarrow> completion_config \<Rightarrow> publisher \<Rightarrow> (completion_event \<times> bool) list \<Rightarrow> completion_locals
    \<Rightarrow> ('s, 'c) completion_state \<Rightarrow> (py_error + completion_locals) \<times> ('s, 'c) completion_state" where
  "process_events_loop D cfg publish [] l s = (Inr l, s)"
| "process_events_loop D cfg publish (ev # evs) l s =
     (case process_event D cfg publish ev l s of
        (Inl e, s1) \<Rightarrow> (Inl e, s1)
      | (Inr l1, s1) \<Rightarrow> process_events_loop D cfg publish evs l1 s1)"

definition process_completed_events ::
  "('s, 'c) container_ops \<Rightarrow> completion_config \<Rightarrow> publisher \<Rightarrow> completion_event list \<Rightarrow> ('s, 'c) completion_state
    \<Rightarrow> (py_error + completion_processing_result) \<times> ('s, 'c) completion_state" where
  "process_completed_events D cfg publish completed_events s =
     (case process_events_loop D cfg publish
             (map (\<lambda>(k, event). (event, True)) (bs_pending_dlq_events s) @
              map (\<lambda>event. (event, False)) completed_events)
             \<lparr>cl_resolved_pending_keys = {}, cl_completed_count = 0, cl_completed_partitions = {},
              cl_completed_offsets = [], cl_publications = 0\<rparr> s of
        (Inl e, s1) \<Rightarrow> (Inl e, s1)
      | (Inr l, s1) \<Rightarrow>
          (Inr \<lparr>cpr_processed_count = cl_completed_count l,
                cpr_completed_partitions = cl_completed_partitions l,
                cpr_completed_counts_by_partition =
                  map (\<lambda>(tp, offsets). (tp, int (length offsets))) (cl_completed_offsets l),
                cpr_completed_offsets_by_partition = cl_completed_offsets l\<rparr>, s1))"

text \<open>\<open>BrokerDlqSupport.publish_to_dlq\<close> with the modelled publisher.\<close>

definition broker_publish ::
  "publish_config \<Rightarrow> string \<Rightarrow> (nat \<Rightarrow> nat \<Rightarrow> produce_outcome) option \<Rightarrow> (nat \<Rightarrow> nat \<Rightarrow> real) \<Rightarrow> publisher" where
  "broker_publish pcfg consume_topic producer jitter n event m error =
     (case producer of
        None \<Rightarrow> Inl RuntimeError
      | Some p \<Rightarrow>
          map_sum id fst
            (publish_to_dlq pcfg consume_topic (p n) (jitter n) (ce_tp event) (ce_offset event)
               (ce_epoch event) m error (ce_attempt event)))"

section \<open>Blocking timeouts\<close>

text \<open>The offsets of one tracker that have been blocking for too long.\<close>

definition overdue :: "real \<Rightarrow> real \<Rightarrow> ('s, 'c) offset_tracker \<Rightarrow> (int \<times> real) list" where
  "overdue threshold_sec now tracker =
     filter (\<lambda>(offset, duration). \<not> duration < threshold_sec) (get_blocking_offset_durations now tracker)"

definition force_fail_overdue ::
  "(int \<Rightarrow> real \<Rightarrow> string) \<Rightarrow> int \<Rightarrow> topic_partition \<Rightarrow> ('s, 'c) offset_tracker \<Rightarrow> int \<times> real
    \<Rightarrow> bool \<times> ('k, 'p, 's, 'c, 'e) work_manager \<Rightarrow> bool \<times> ('k, 'p, 's, 'c, 'e) work_manager" where
  "force_fail_overdue render max_retries tp tracker od fw =
     (let (success, w) = force_fail tp (fst od) (get_current_epoch tracker) (render (fst od) (snd od)) max_retries (snd fw)
      in (fst fw \<or> success, w))"

definition force_fail_blocking ::
  "(int \<Rightarrow> real \<Rightarrow> string) \<Rightarrow> real \<Rightarrow> real \<Rightarrow> int \<Rightarrow> (topic_partition, ('s, 'c) offset_tracker) dict
    \<Rightarrow> ('k, 'p, 's, 'c, 'e) work_manager \<Rightarrow> bool \<times> ('k, 'p, 's, 'c, 'e) work_manager" where
  "force_fail_blocking render threshold_sec now max_retries trackers w =
     fold (\<lambda>(tp, tracker). fold (force_fail_overdue render max_retries tp tracker) (overdue threshold_sec now tracker))
       trackers (False, w)"

text \<open>\<open>render\<close> is the formatting of the error text, \<open>now\<close> the time the durations are taken at.\<close>

definition handle_blocking_timeouts ::
  "nat \<Rightarrow> nat \<Rightarrow> ('k, 'p, 's, 'c, 'e) wm_env \<Rightarrow> (int \<Rightarrow> real \<Rightarrow> string) \<Rightarrow> real \<Rightarrow> int \<Rightarrow> int
    \<Rightarrow> (topic_partition, ('s, 'c) offset_tracker) dict \<Rightarrow> ('k, 'p, 's, 'c, 'e) work_manager
    \<Rightarrow> ((py_error + completion_event list) \<times> ('k, 'p, 's, 'c, 'e) work_manager) option" where
  "handle_blocking_timeouts rounds fuel V render now max_blocking_duration_ms max_retries trackers w =
     (if max_blocking_duration_ms \<le> 0 then Some (Inr [], w)
      else
        let (forced, w1) = force_fail_blocking render (real_of_int max_blocking_duration_ms / 1000) now
              max_retries trackers w
        in if \<not> forced then Some (Inr [], w1) else poll_completed_events rounds fuel V True w1)"


section \<open>The settlement ledger\<close>

record settlement_ledger =
  sl_dirty_commit_partitions :: "topic_partition set"
  sl_unsettled_completions :: "(topic_partition, int) dict"
  sl_unsettled_timestamps :: "(topic_partition, (int, real) dict) dict"
  sl_completions_since_last_commit :: int

definition record_processed_completions ::
  "real \<Rightarrow> completion_processing_result \<Rightarrow> topic_partition set \<Rightarrow> settlement_ledger \<Rightarrow> settlement_ledger" where
  "record_processed_completions completed_at result pending_retry_partitions l =
     (if cpr_processed_count result \<le> 0 then l
      else
        l\<lparr>sl_dirty_commit_partitions :=
            sl_dirty_commit_partitions l \<union> (cpr_completed_partitions result \<union> pending_retry_partitions),
          sl_unsettled_completions :=
            fold (\<lambda>(tp, count) d. dict_set tp (dict_get_default d tp 0 + count) d)
              (cpr_completed_counts_by_partition result) (sl_unsettled_completions l),
          sl_unsettled_timestamps :=
            fold (\<lambda>(tp, offsets) d.
                dict_set tp (fold (\<lambda>offset. dict_set offset completed_at) offsets (dict_get_default d tp [])) d)
              (cpr_completed_offsets_by_partition result) (sl_unsettled_timestamps l),
          sl_completions_since_last_commit :=
            sl_completions_since_last_commit l + cpr_processed_count result\<rparr>)"

text \<open>The pruning half of \<open>observe_completion_to_commit_latency\<close>; its observations go to the metrics only.\<close>

definition prune_settled_timestamps ::
  "('s, 'c) container_ops \<Rightarrow> topic_partition \<Rightarrow> ('s, 'c) offset_tracker option \<Rightarrow> int \<Rightarrow> settlement_ledger \<Rightarrow> settlement_ledger" where
  "prune_settled_timestamps D tp tracker safe_offset l =
     (case dict_get (sl_unsettled_timestamps l) tp of
        None \<Rightarrow> l
      | Some timestamp_ledger \<Rightarrow>
          if timestamp_ledger = [] then l
          else
            let retained_offsets =
                  (case tracker of None \<Rightarrow> {} | Some t \<Rightarrow> set (ss_iter D (ot_completed_offsets t)));
                retained = dict_filter (\<lambda>offset. offset \<in> retained_offsets \<and> offset > safe_offset) timestamp_ledger
            in l\<lparr>sl_unsettled_timestamps :=
                  (if retained \<noteq> [] then dict_set tp retained (sl_unsettled_timestamps l)
                   else dict_pop tp (sl_unsettled_timestamps l))\<rparr>)"

definition clear_committed_partition ::
  "('s, 'c) container_ops \<Rightarrow> (topic_partition, ('s, 'c) offset_tracker) dict \<Rightarrow> topic_partition \<times> int
    \<Rightarrow> settlement_ledger \<Rightarrow> settlement_ledger" where
  "clear_committed_partition D trackers commit l =
     (let (tp, safe_offset) = commit; tracker = dict_get trackers tp;
          remaining_unsettled = (case tracker of None \<Rightarrow> 0 | Some t \<Rightarrow> int (ss_len D (ot_completed_offsets t)));
          l1 = prune_settled_timestamps D tp tracker safe_offset l
      in if remaining_unsettled > 0
         then l1\<lparr>sl_dirty_commit_partitions := insert tp (sl_dirty_commit_partitions l1),
                 sl_unsettled_completions := dict_set tp remaining_unsettled (sl_unsettled_completions l1)\<rparr>
         else l1\<lparr>sl_dirty_commit_partitions := sl_dirty_commit_partitions l1 - {tp},
                 sl_unsettled_completions := dict_pop tp (sl_unsettled_completions l1),
                 sl_unsettled_timestamps := dict_pop tp (sl_unsettled_timestamps l1)\<rparr>)"

definition clear_committed_dirty_partitions ::
  "('s, 'c) container_ops \<Rightarrow> (topic_partition, ('s, 'c) offset_tracker) dict \<Rightarrow> (topic_partition \<times> int) list
    \<Rightarrow> settlement_ledger \<Rightarrow> settlement_ledger" where
  "clear_committed_dirty_partitions D trackers commits_to_make l =
     (let l1 = fold (clear_committed_partition D trackers) commits_to_make l
      in if sl_dirty_commit_partitions l1 = {} then l1\<lparr>sl_completions_since_last_commit := 0\<rparr> else l1)"

section \<open>What one event does\<close>

text \<open>The completed offsets of a partition, and whether an offset is accounted for.\<close>

definition completed_of :: "('s, 'c) container_ops \<Rightarrow> ('s, 'c) completion_state \<Rightarrow> topic_partition \<Rightarrow> int set" where
  "completed_of D s tp =
     (case dict_get (bs_offset_trackers s) tp of
        None \<Rightarrow> {} | Some t \<Rightarrow> set (ss_iter D (ot_completed_offsets t)))"

definition current_event :: "('s, 'c) completion_state \<Rightarrow> completion_event \<Rightarrow> bool" where
  "current_event s event \<longleftrightarrow>
     (\<exists>t. dict_get (bs_offset_trackers s) (ce_tp event) = Some t \<and> ce_epoch event = get_current_epoch t)"

definition accounted :: "('s, 'c) container_ops \<Rightarrow> ('s, 'c) completion_state \<Rightarrow> cache_key \<Rightarrow> bool" where
  "accounted D s k \<longleftrightarrow>
     (\<exists>t. dict_get (bs_offset_trackers s) (fst k) = Some t \<and>
        (snd k \<le> ot_last_committed_offset t \<or> snd k \<in> set (ss_iter D (ot_completed_offsets t))))"

text \<open>The trackers only gain completed offsets.\<close>

definition same_tracking :: "('s, 'c) completion_state \<Rightarrow> ('s, 'c) completion_state \<Rightarrow> bool" where
  "same_tracking s s' \<longleftrightarrow>
     (\<forall>tp. map_option (\<lambda>t. (ot_epoch t, ot_last_committed_offset t)) (dict_get (bs_offset_trackers s) tp) =
           map_option (\<lambda>t. (ot_epoch t, ot_last_committed_offset t)) (dict_get (bs_offset_trackers s') tp))"

context tracker_containers
begin

lemma mark_complete_members:
  "set (ss_iter D (ot_completed_offsets (mark_complete D x t))) =
     (if ot_last_committed_offset t < x then insert x (set (ss_iter D (ot_completed_offsets t)))
      else set (ss_iter D (ot_completed_offsets t)))"
  by (simp add: mark_complete_def Let_def iter_add)

lemma mark_complete_grows:
  "ss_len D (ot_completed_offsets (mark_complete D x t)) \<noteq> ss_len D (ot_completed_offsets t) \<longleftrightarrow>
     ot_last_committed_offset t < x \<and> x \<notin> set (ss_iter D (ot_completed_offsets t))"
  using add_grows_iff[of x "ot_completed_offsets t"] by (simp add: mark_complete_def Let_def)

lemma mark_complete_epoch [simp]: "ot_epoch (mark_complete D x t) = ot_epoch t"
  by (simp add: mark_complete_def Let_def)

end


lemma process_event_cases:
  assumes "process_event D cfg publish (event, fp) l s = (Inr l', s')"
  obtains (duplicate) "\<not> fp" "l' = l" "s' = s"
      "dict_get (bs_pending_dlq_events s) (event_key event) \<noteq> None \<or> event_key event \<in> cl_resolved_pending_keys l"
  | (stale) "\<not> current_event s event" "l' = l"
      "s' = (if fp then s\<lparr>bs_pending_dlq_events := dict_pop (event_key event) (bs_pending_dlq_events s)\<rparr> else s)"
  | (retained) n m where "current_event s event" "needs_dlq cfg event" "publish n event m (error_text event) = Inr False"
      "l' = l\<lparr>cl_publications := cl_publications l + 1\<rparr>"
      "s' = s\<lparr>bs_pending_dlq_events := dict_set (event_key event) event (bs_pending_dlq_events s)\<rparr>"
  | (completed) t l1 n m where "dict_get (bs_offset_trackers s) (ce_tp event) = Some t" "ce_epoch event = get_current_epoch t"
      "needs_dlq cfg event \<Longrightarrow> publish n event m (error_text event) = Inr True"
      "l1 = (if needs_dlq cfg event then l\<lparr>cl_publications := cl_publications l + 1\<rparr> else l)"
      "complete_event D event fp t l1 s = (l', s')"
      "fp \<or> dict_get (bs_pending_dlq_events s) (event_key event) = None \<and> event_key event \<notin> cl_resolved_pending_keys l"
proof (cases "\<not> fp \<and> (dict_has (bs_pending_dlq_events s) (event_key event) \<or> event_key event \<in> cl_resolved_pending_keys l)")
  case True
  then show ?thesis using assms duplicate by (auto simp: process_event_def Let_def dict_has_iff)
next
  case fresh: False
  show ?thesis
  proof (cases "current_event s event")
    case False
    then show ?thesis using assms fresh stale
      by (auto simp: process_event_def Let_def current_event_def split: option.splits if_splits)
  next
    case True
    then obtain t where t: "dict_get (bs_offset_trackers s) (ce_tp event) = Some t" "ce_epoch event = get_current_epoch t"
      by (auto simp: current_event_def)
    let ?l = "if needs_dlq cfg event then l\<lparr>cl_publications := cl_publications l + 1\<rparr> else l"
    obtain ok where ok: "publish_event_to_dlq cfg publish (cl_publications l) event s = Inr ok"
      using assms fresh t by (auto simp: process_event_def Let_def split: sum.splits)
    show ?thesis
    proof (cases ok)
      case False
      then show ?thesis using assms fresh t ok True retained
        by (auto simp: process_event_def Let_def publish_event_to_dlq_def split: if_splits)
    next
      case ok': True
      have "complete_event D event fp t ?l s = (l', s')"
        using assms fresh t ok ok' by (auto simp: process_event_def Let_def split: prod.splits)
      then show ?thesis
        using completed[OF t _ refl] ok ok' fresh by (auto simp: publish_event_to_dlq_def dict_has_iff split: if_splits)
    qed
  qed
qed

text \<open>The effect of one processed event, and of a list of them.\<close>

definition new_offsets :: "completion_locals \<Rightarrow> topic_partition \<Rightarrow> int list" where
  "new_offsets l tp = dict_get_default (cl_completed_offsets l) tp []"

definition justified ::
  "completion_config \<Rightarrow> publisher \<Rightarrow> (completion_event \<times> bool) list \<Rightarrow> ('s, 'c) completion_state \<Rightarrow> topic_partition \<Rightarrow> int \<Rightarrow> bool" where
  "justified cfg publish evs s tp x \<longleftrightarrow>
     (\<exists>event fp. (event, fp) \<in> set evs \<and> event_key event = (tp, x) \<and> current_event s event \<and>
        (needs_dlq cfg event \<longrightarrow> (\<exists>n m. publish n event m (error_text event) = Inr True)))"

definition advanced ::
  "('s, 'c) container_ops \<Rightarrow> completion_config \<Rightarrow> publisher \<Rightarrow> (completion_event \<times> bool) list
    \<Rightarrow> completion_locals \<Rightarrow> ('s, 'c) completion_state \<Rightarrow> completion_locals \<Rightarrow> ('s, 'c) completion_state \<Rightarrow> bool" where
  "advanced D cfg publish evs l s l' s' \<longleftrightarrow>
     same_tracking s s' \<and>
     (\<forall>tp. \<exists>xs. new_offsets l' tp = new_offsets l tp @ xs \<and> distinct xs \<and>
        set xs \<inter> completed_of D s tp = {} \<and> completed_of D s' tp = completed_of D s tp \<union> set xs \<and>
        (\<forall>x\<in>set xs. justified cfg publish evs s tp x))"

lemma current_event_alt:
  "current_event s event \<longleftrightarrow>
     (\<exists>c. map_option (\<lambda>t. (ot_epoch t, ot_last_committed_offset t)) (dict_get (bs_offset_trackers s) (ce_tp event)) =
        Some (ce_epoch event, c))"
  by (auto simp: current_event_def get_current_epoch_def)

lemma same_tracking_current: "same_tracking s s' \<Longrightarrow> current_event s' event = current_event s event"
  by (simp add: current_event_alt same_tracking_def)

lemma advancedI_same:
  assumes "bs_offset_trackers s' = bs_offset_trackers s" "cl_completed_offsets l' = cl_completed_offsets l"
  shows "advanced D cfg publish evs l s l' s'"
  using assms by (simp add: advanced_def same_tracking_def new_offsets_def completed_of_def)

lemma advanced_trans:
  assumes "advanced D cfg publish evs l s l1 s1" "advanced D cfg publish evs' l1 s1 l2 s2"
  shows "advanced D cfg publish (evs @ evs') l s l2 s2"
proof -
  note A = assms[unfolded advanced_def]
  have st: "same_tracking s s1" "same_tracking s s2" using A by (auto simp: same_tracking_def)
  have "\<exists>xs. new_offsets l2 tp = new_offsets l tp @ xs \<and> distinct xs \<and>
        set xs \<inter> completed_of D s tp = {} \<and> completed_of D s2 tp = completed_of D s tp \<union> set xs \<and>
        (\<forall>x\<in>set xs. justified cfg publish (evs @ evs') s tp x)" for tp
  proof -
    obtain xs where xs: "new_offsets l1 tp = new_offsets l tp @ xs" "distinct xs" "set xs \<inter> completed_of D s tp = {}"
        "completed_of D s1 tp = completed_of D s tp \<union> set xs" "\<forall>x\<in>set xs. justified cfg publish evs s tp x"
      using A(1) by blast
    obtain ys where ys: "new_offsets l2 tp = new_offsets l1 tp @ ys" "distinct ys" "set ys \<inter> completed_of D s1 tp = {}"
        "completed_of D s2 tp = completed_of D s1 tp \<union> set ys" "\<forall>x\<in>set ys. justified cfg publish evs' s1 tp x"
      using A(2) by blast
    have "justified cfg publish (evs @ evs') s tp x" if "x \<in> set (xs @ ys)" for x
      using that xs(5) ys(5) same_tracking_current[OF st(1)] unfolding justified_def by fastforce
    then show ?thesis using xs ys by (intro exI[of _ "xs @ ys"]) auto
  qed
  then show ?thesis using st(2) by (simp add: advanced_def)
qed

context tracker_containers
begin

lemma complete_event_advanced:
  assumes t: "dict_get (bs_offset_trackers s) (ce_tp event) = Some t" "ce_epoch event = get_current_epoch t"
    and pub: "needs_dlq cfg event \<Longrightarrow> publish n event m (error_text event) = Inr True"
    and c: "complete_event D event fp t l s = (l', s')"
  shows "advanced D cfg publish [(event, fp)] l s l' s'"
proof -
  let ?x = "ce_offset event"
  have tr: "bs_offset_trackers s' = dict_set (ce_tp event) (mark_complete D ?x t) (bs_offset_trackers s)"
    using c by (auto simp: complete_event_def Let_def)
  have st: "same_tracking s s'" by (simp add: same_tracking_def tr dict_simps t(1))
  have other: "completed_of D s' tp = completed_of D s tp" "new_offsets l' tp = new_offsets l tp" if "tp \<noteq> ce_tp event" for tp
    using that c by (auto simp: completed_of_def tr dict_simps complete_event_def Let_def new_offsets_def)
  have just: "justified cfg publish [(event, fp)] s (ce_tp event) ?x"
    using t pub by (auto simp: justified_def event_key_def current_event_def simp del: split_paired_Ex)
  have "\<exists>xs. new_offsets l' tp = new_offsets l tp @ xs \<and> distinct xs \<and>
        set xs \<inter> completed_of D s tp = {} \<and> completed_of D s' tp = completed_of D s tp \<union> set xs \<and>
        (\<forall>x\<in>set xs. justified cfg publish [(event, fp)] s tp x)" for tp
  proof (cases "tp = ce_tp event")
    case False
    then show ?thesis using other by (intro exI[of _ "[]"]) simp
  next
    case tp: True
    have before: "completed_of D s tp = set (ss_iter D (ot_completed_offsets t))" by (simp add: completed_of_def tp t(1))
    have after: "completed_of D s' tp = set (ss_iter D (ot_completed_offsets (mark_complete D ?x t)))"
      by (simp add: completed_of_def tr tp dict_simps)
    show ?thesis
    proof (cases "ot_last_committed_offset t < ?x \<and> ?x \<notin> set (ss_iter D (ot_completed_offsets t))")
      case True
      then have "ss_len D (ot_completed_offsets (mark_complete D ?x t)) \<noteq> ss_len D (ot_completed_offsets t)"
        by (simp add: mark_complete_grows)
      then have "new_offsets l' tp = new_offsets l tp @ [?x]"
        using c tp by (auto simp: complete_event_def Let_def new_offsets_def dict_simps)
      then show ?thesis
        using True just[folded tp] by (intro exI[of _ "[?x]"]) (simp add: before after mark_complete_members)
    next
      case False
      then have "\<not> ss_len D (ot_completed_offsets (mark_complete D ?x t)) \<noteq> ss_len D (ot_completed_offsets t)"
        by (simp only: mark_complete_grows) simp
      then have "new_offsets l' tp = new_offsets l tp"
        using c by (auto simp: complete_event_def Let_def new_offsets_def)
      then show ?thesis using False
        by (intro exI[of _ "[]"]) (auto simp: before after mark_complete_members)
    qed
  qed
  then show ?thesis using st by (simp add: advanced_def)
qed

lemma process_event_advanced:
  assumes "process_event D cfg publish (event, fp) l s = (Inr l', s')"
  shows "advanced D cfg publish [(event, fp)] l s l' s'"
  using assms
proof (cases rule: process_event_cases)
  case (completed t l1 n m)
  have "new_offsets l1 = new_offsets l" by (simp add: completed(4) new_offsets_def fun_eq_iff)
  then show ?thesis
    using complete_event_advanced[where publish = publish and n = n and m = m, OF completed(1,2,3,5)] by (simp add: advanced_def)
qed (auto intro!: advancedI_same)

lemma process_loop_advanced:
  "process_events_loop D cfg publish evs l s = (Inr l', s') \<Longrightarrow> advanced D cfg publish evs l s l' s'"
proof (induction evs arbitrary: l s)
  case Nil
  then show ?case by (auto intro: advancedI_same)
next
  case (Cons ev evs)
  obtain event fp where ev: "ev = (event, fp)" by (cases ev)
  obtain l1 s1 where 1: "process_event D cfg publish ev l s = (Inr l1, s1)"
      "process_events_loop D cfg publish evs l1 s1 = (Inr l', s')"
    using Cons.prems by (auto split: prod.splits sum.splits)
  show ?case
    using advanced_trans[OF process_event_advanced[OF 1(1)[unfolded ev]] Cons.IH[OF 1(2)]] by (simp add: ev)
qed

end


section \<open>Nothing is lost\<close>

definition pending_wf :: "('s, 'c) completion_state \<Rightarrow> bool" where
  "pending_wf s \<longleftrightarrow>
     dict_wf (bs_pending_dlq_events s) \<and>
     (\<forall>(k, event) \<in> set (bs_pending_dlq_events s). event_key event = k)"

abbreviation retained :: "('s, 'c) completion_state \<Rightarrow> cache_key \<Rightarrow> bool" where
  "retained s k \<equiv> dict_get (bs_pending_dlq_events s) k \<noteq> None"

lemma accounted_mono:
  assumes "advanced D cfg publish evs l s l' s'" "accounted D s k"
  shows "accounted D s' k"
proof -
  obtain t where t: "dict_get (bs_offset_trackers s) (fst k) = Some t"
      "snd k \<le> ot_last_committed_offset t \<or> snd k \<in> set (ss_iter D (ot_completed_offsets t))"
    using assms(2) by (auto simp: accounted_def)
  have "map_option (\<lambda>t. (ot_epoch t, ot_last_committed_offset t)) (dict_get (bs_offset_trackers s') (fst k)) =
      Some (ot_epoch t, ot_last_committed_offset t)"
    using assms(1)[unfolded advanced_def, THEN conjunct1, unfolded same_tracking_def, THEN spec, of "fst k"] t(1) by simp
  then obtain t' where t': "dict_get (bs_offset_trackers s') (fst k) = Some t'"
      "ot_last_committed_offset t' = ot_last_committed_offset t" by auto
  have "completed_of D s (fst k) \<subseteq> completed_of D s' (fst k)"
    using assms(1)[unfolded advanced_def, THEN conjunct2, THEN spec, of "fst k"] by blast
  then show ?thesis using t t' by (auto simp: accounted_def completed_of_def)
qed

context tracker_containers
begin

lemma complete_event_accounts:
  assumes "dict_get (bs_offset_trackers s) (ce_tp event) = Some t" "complete_event D event fp t l s = (l', s')"
  shows "accounted D s' (event_key event)"
    "bs_pending_dlq_events s' = dict_pop (event_key event) (bs_pending_dlq_events s)"
    "cl_resolved_pending_keys l' = (if fp then insert (event_key event) else id) (cl_resolved_pending_keys l)"
  using assms
  by (auto simp: complete_event_def Let_def accounted_def event_key_def dict_simps mark_complete_members
      split: if_splits)

text \<open>The event's own key, and the others.\<close>

lemma process_event_own:
  assumes "process_event D cfg publish (event, fp) l s = (Inr l', s')" "current_event s event"
    and "\<forall>k\<in>cl_resolved_pending_keys l. accounted D s k"
  shows "accounted D s' (event_key event) \<or> retained s' (event_key event)"
  using assms(1)
proof (cases rule: process_event_cases)
  case duplicate
  then show ?thesis using assms(3) by auto
next
  case (completed t l1 n m)
  then show ?thesis using complete_event_accounts(1) by blast
qed (use assms(2) in \<open>auto simp: dict_simps\<close>)

lemma process_event_other:
  assumes "process_event D cfg publish (event, fp) l s = (Inr l', s')" "k \<noteq> event_key event"
  shows "dict_get (bs_pending_dlq_events s') k = dict_get (bs_pending_dlq_events s) k"
  using assms(1)
proof (cases rule: process_event_cases)
  case (completed t l1 n m)
  then show ?thesis using complete_event_accounts(2)[OF completed(1,5)] assms(2) by (simp add: dict_simps)
qed (use assms(2) in \<open>auto simp: dict_simps\<close>)

lemma process_event_resolved:
  assumes "process_event D cfg publish (event, fp) l s = (Inr l', s')" "\<forall>k\<in>cl_resolved_pending_keys l. accounted D s k"
  shows "\<forall>k\<in>cl_resolved_pending_keys l'. accounted D s' k"
proof -
  have mono: "\<forall>k\<in>cl_resolved_pending_keys l. accounted D s' k"
    using accounted_mono[OF process_event_advanced[OF assms(1)]] assms(2) by blast
  from assms(1) show ?thesis
  proof (cases rule: process_event_cases)
    case (completed t l1 n m)
    then show ?thesis
      using complete_event_accounts[OF completed(1,5)] mono by (auto split: if_splits)
  qed (use mono in auto)
qed

lemma process_event_fresh:
  assumes "process_event D cfg publish (event, False) l s = (Inr l', s')" "retained s k"
  shows "retained s' k"
proof (cases "k = event_key event")
  case False
  then show ?thesis using process_event_other[OF assms(1)] assms(2) by simp
next
  case True
  from assms(1) show ?thesis
    by (cases rule: process_event_cases) (use assms(2) True in \<open>auto simp: dict_simps\<close>)
qed

text \<open>Retried events first: their keys are distinct. Then the fresh ones, which never remove a retained event.\<close>

lemma loop_step:
  assumes "process_events_loop D cfg publish (ev # evs) l s = (Inr l', s')"
  obtains l1 s1 where "process_event D cfg publish ev l s = (Inr l1, s1)"
    "process_events_loop D cfg publish evs l1 s1 = (Inr l', s')"
  using assms by (auto split: prod.splits sum.splits)

lemma loop_other:
  "process_events_loop D cfg publish evs l s = (Inr l', s') \<Longrightarrow> k \<notin> event_key ` fst ` set evs \<Longrightarrow>
     dict_get (bs_pending_dlq_events s') k = dict_get (bs_pending_dlq_events s) k"
proof (induction evs arbitrary: l s)
  case (Cons ev evs)
  then show ?case
    by (elim loop_step) (cases ev, auto dest: process_event_other[of cfg publish _ _ l s _ _ k])
qed simp

lemma loop_retried:
  "process_events_loop D cfg publish evs l s = (Inr l', s') \<Longrightarrow> distinct (map (event_key \<circ> fst) evs) \<Longrightarrow>
     \<forall>k\<in>cl_resolved_pending_keys l. accounted D s k \<Longrightarrow>
     (\<forall>k\<in>cl_resolved_pending_keys l'. accounted D s' k) \<and>
     (\<forall>event fp. (event, fp) \<in> set evs \<and> current_event s event \<longrightarrow> accounted D s' (event_key event) \<or> retained s' (event_key event))"
proof (induction evs arbitrary: l s)
  case (Cons ev evs)
  obtain event fp where ev: "ev = (event, fp)" by (cases ev)
  obtain l1 s1 where 1: "process_event D cfg publish (event, fp) l s = (Inr l1, s1)"
      "process_events_loop D cfg publish evs l1 s1 = (Inr l', s')"
    using loop_step[OF Cons.prems(1)] ev by metis
  note adv = process_loop_advanced[OF 1(2)] and st = process_event_advanced[OF 1(1), unfolded advanced_def, THEN conjunct1]
  note IH = Cons.IH[OF 1(2) _ process_event_resolved[OF 1(1) Cons.prems(3)]]
  have rest: "(\<forall>k\<in>cl_resolved_pending_keys l'. accounted D s' k) \<and>
     (\<forall>event fp. (event, fp) \<in> set evs \<and> current_event s event \<longrightarrow> accounted D s' (event_key event) \<or> retained s' (event_key event))"
    using IH Cons.prems(2) same_tracking_current[OF st] by simp
  have notin: "event_key event \<notin> event_key ` fst ` set evs" using Cons.prems(2) ev by (auto simp: image_image)
  have "accounted D s' (event_key event) \<or> retained s' (event_key event)" if "current_event s event"
    using process_event_own[OF 1(1) that Cons.prems(3)] accounted_mono[OF adv, of "event_key event"] loop_other[OF 1(2) notin]
    by auto
  then show ?case using rest ev by auto
qed simp

lemma loop_fresh:
  "process_events_loop D cfg publish evs l s = (Inr l', s') \<Longrightarrow> \<forall>ev\<in>set evs. \<not> snd ev \<Longrightarrow>
     \<forall>k\<in>cl_resolved_pending_keys l. accounted D s k \<Longrightarrow>
     (\<forall>k. retained s k \<longrightarrow> retained s' k) \<and>
     (\<forall>event fp. (event, fp) \<in> set evs \<and> current_event s event \<longrightarrow> accounted D s' (event_key event) \<or> retained s' (event_key event))"
proof (induction evs arbitrary: l s)
  case (Cons ev evs)
  obtain event where ev: "ev = (event, False)" using Cons.prems(2) by (cases ev) auto
  obtain l1 s1 where 1: "process_event D cfg publish (event, False) l s = (Inr l1, s1)"
      "process_events_loop D cfg publish evs l1 s1 = (Inr l', s')"
    using loop_step[OF Cons.prems(1)] ev by metis
  note adv = process_loop_advanced[OF 1(2)] and st = process_event_advanced[OF 1(1), unfolded advanced_def, THEN conjunct1]
  have IH: "(\<forall>k. retained s1 k \<longrightarrow> retained s' k) \<and>
     (\<forall>event fp. (event, fp) \<in> set evs \<and> current_event s1 event \<longrightarrow> accounted D s' (event_key event) \<or> retained s' (event_key event))"
    using Cons.IH[OF 1(2) _ process_event_resolved[OF 1(1) Cons.prems(3)]] Cons.prems(2) by simp
  have "accounted D s' (event_key event) \<or> retained s' (event_key event)" if "current_event s event"
    using process_event_own[OF 1(1) that Cons.prems(3)] accounted_mono[OF adv] IH by blast
  then show ?case
    using IH process_event_fresh[OF 1(1)] same_tracking_current[OF st] ev by auto
qed simp

lemma loop_append:
  "process_events_loop D cfg publish (evs @ evs') l s = (Inr l', s') \<Longrightarrow>
     \<exists>l1 s1. process_events_loop D cfg publish evs l s = (Inr l1, s1) \<and>
       process_events_loop D cfg publish evs' l1 s1 = (Inr l', s')"
  by (induction evs arbitrary: l s) (auto split: prod.splits sum.splits)

end


section \<open>The reported counts\<close>

definition locals_ok :: "completion_locals \<Rightarrow> bool" where
  "locals_ok l \<longleftrightarrow>
     dict_wf (cl_completed_offsets l) \<and>
     cl_completed_count l = (\<Sum>(tp, xs)\<leftarrow>cl_completed_offsets l. int (length xs)) \<and>
     cl_completed_partitions l = {tp. new_offsets l tp \<noteq> []}"

lemma sum_lengths_set:
  "dict_wf d \<Longrightarrow> (\<Sum>(k, xs)\<leftarrow>dict_set k v d. int (length xs)) =
     (\<Sum>(k, xs)\<leftarrow>d. int (length xs)) - int (length (dict_get_default d k [])) + int (length v)"
  by (induction d) (auto simp: dict_wf_def dict_get_default_def map_of_eq_None_iff split: option.splits dest: map_of_SomeD)

lemma complete_event_locals:
  assumes "locals_ok l" "complete_event D event fp t l s = (l', s')"
  shows "locals_ok l'"
proof -
  define xs where "xs = dict_get_default (cl_completed_offsets l) (ce_tp event) []"
  have set: "locals_ok (l\<lparr>cl_completed_count := cl_completed_count l + 1,
      cl_completed_partitions := insert (ce_tp event) (cl_completed_partitions l),
      cl_completed_offsets := dict_set (ce_tp event) (xs @ [ce_offset event]) (cl_completed_offsets l)\<rparr>)"
    using assms(1) sum_lengths_set[of "cl_completed_offsets l" "ce_tp event" "xs @ [ce_offset event]"]
    by (auto simp: locals_ok_def new_offsets_def dict_simps xs_def)
  have resolve: "locals_ok (k\<lparr>cl_resolved_pending_keys := K\<rparr>) = locals_ok k" for k K
    by (simp add: locals_ok_def new_offsets_def)
  show ?thesis using assms set by (auto simp: complete_event_def Let_def resolve xs_def[symmetric])
qed

lemma process_loop_locals:
  "process_events_loop D cfg publish evs l s = (Inr l', s') \<Longrightarrow> locals_ok l \<Longrightarrow> locals_ok l'"
proof (induction evs arbitrary: l s)
  case (Cons ev evs)
  obtain event fp where ev: "ev = (event, fp)" by (cases ev)
  obtain l1 s1 where 1: "process_event D cfg publish (event, fp) l s = (Inr l1, s1)"
      "process_events_loop D cfg publish evs l1 s1 = (Inr l', s')"
    using Cons.prems(1) ev by (auto split: prod.splits sum.splits)
  have pub: "locals_ok (k\<lparr>cl_publications := n\<rparr>) = locals_ok k" for k n by (simp add: locals_ok_def new_offsets_def)
  have "locals_ok l1" using 1(1)
  proof (cases rule: process_event_cases)
    case (completed t l0 n m)
    then show ?thesis using complete_event_locals[OF _ completed(5)] Cons.prems(2) pub by simp
  qed (use Cons.prems(2) pub in auto)
  then show ?case using Cons.IH[OF 1(2)] by simp
qed simp

text \<open>A call that raises stops after a prefix of the events.\<close>

lemma loop_prefix:
  "process_events_loop D cfg publish evs l s = (r, s') \<Longrightarrow>
     \<exists>pre post l'. evs = pre @ post \<and> process_events_loop D cfg publish pre l s = (Inr l', s')"
proof (induction evs arbitrary: l s)
  case (Cons ev evs)
  obtain r1 s1 where 1: "process_event D cfg publish ev l s = (r1, s1)" by force
  show ?case
  proof (cases r1)
    case (Inl e)
    then have "s1 = s" using 1 by (auto simp: process_event_def Let_def split: if_splits option.splits sum.splits prod.splits)
    then show ?thesis using Cons.prems 1 Inl by (intro exI[of _ "[]"] exI[of _ "ev # evs"] exI[of _ l]) auto
  next
    case (Inr l1)
    then obtain pre post l' where "evs = pre @ post" "process_events_loop D cfg publish pre l1 s1 = (Inr l', s')"
      using Cons.IH[of l1 s1] Cons.prems 1 by auto
    then show ?thesis using 1 Inr by (intro exI[of _ "ev # pre"] exI[of _ post] exI[of _ l']) auto
  qed
qed auto

text \<open>The keys of the retained events stay their own.\<close>

lemma pending_wf_alt:
  "pending_wf s \<longleftrightarrow> dict_wf (bs_pending_dlq_events s) \<and>
     (\<forall>k event. dict_get (bs_pending_dlq_events s) k = Some event \<longrightarrow> event_key event = k)"
  unfolding pending_wf_def by (metis (mono_tags, lifting) case_prod_conv dict_in_set_iff surj_pair)

lemma process_keeps_pending_wf:
  assumes "process_events_loop D cfg publish evs l s = (r, s')" "pending_wf s"
  shows "pending_wf s'"
proof -
  obtain pre post l' where "process_events_loop D cfg publish pre l s = (Inr l', s')"
    using loop_prefix[OF assms(1)] by (elim exE conjE) rule
  then show ?thesis using assms(2)
  proof (induction pre arbitrary: l s)
    case (Cons ev pre)
    obtain event fp where ev: "ev = (event, fp)" by (cases ev)
    obtain l1 s1 where 1: "process_event D cfg publish (event, fp) l s = (Inr l1, s1)"
        "process_events_loop D cfg publish pre l1 s1 = (Inr l', s')"
      using Cons.prems(1) ev by (auto split: prod.splits sum.splits)
    have set: "pending_wf (s\<lparr>bs_pending_dlq_events := dict_set (event_key event) event (bs_pending_dlq_events s)\<rparr>)"
      using Cons.prems(2) by (auto simp: pending_wf_alt dict_simps)
    have pop: "pending_wf (t\<lparr>bs_pending_dlq_events := dict_pop (event_key event) (bs_pending_dlq_events s)\<rparr>)" for t
      using Cons.prems(2) by (auto simp: pending_wf_alt dict_simps)
    have pw: "pending_wf x" if "bs_pending_dlq_events x = bs_pending_dlq_events y" "pending_wf y" for x y
      using that by (simp add: pending_wf_def)
    have "pending_wf s1" using 1(1)
    proof (cases rule: process_event_cases)
      case (completed t l0 n m)
      show ?thesis
        by (rule pw[OF _ pop[of s]]) (use completed(5) in \<open>auto simp: complete_event_def Let_def\<close>)
    qed (use Cons.prems(2) set pop in auto)
    then show ?case using Cons.IH[OF 1(2)] by simp
  qed simp
qed

section \<open>Settlement\<close>

definition open_offsets ::
  "('s, 'c) container_ops \<Rightarrow> (topic_partition, ('s, 'c) offset_tracker) dict \<Rightarrow> topic_partition \<Rightarrow> int set" where
  "open_offsets D trackers tp =
     (case dict_get trackers tp of None \<Rightarrow> {} | Some t \<Rightarrow> set (ss_iter D (ot_completed_offsets t)))"

definition timestamps_of :: "settlement_ledger \<Rightarrow> topic_partition \<Rightarrow> int set" where
  "timestamps_of l tp = fst ` set (dict_get_default (sl_unsettled_timestamps l) tp [])"

text \<open>What the ledger says of one partition.\<close>

definition ledger_entry :: "settlement_ledger \<Rightarrow> topic_partition \<Rightarrow> bool \<times> int option \<times> int set" where
  "ledger_entry l tp = (tp \<in> sl_dirty_commit_partitions l, dict_get (sl_unsettled_completions l) tp, timestamps_of l tp)"

lemma dict_filter_keys: "fst ` set (dict_filter P d) = {k \<in> fst ` set d. P k}"
  by (auto simp: dict_filter_def image_iff)

context tracker_containers
begin

lemma len_positive_iff: "ss_len D s > 0 \<longleftrightarrow> set (ss_iter D s) \<noteq> {}"
  by (simp add: len_eq)

lemma timestamps_prune:
  "timestamps_of (prune_settled_timestamps D tp (dict_get trackers tp) safe l) q =
     (if q \<noteq> tp then timestamps_of l q
      else {x \<in> timestamps_of l tp. x \<in> open_offsets D trackers tp \<and> safe < x})"
proof (cases "dict_get (sl_unsettled_timestamps l) tp")
  case None
  then show ?thesis by (simp add: prune_settled_timestamps_def timestamps_of_def dict_get_default_def)
next
  case (Some d)
  let ?kept = "dict_filter (\<lambda>x. x \<in> open_offsets D trackers tp \<and> safe < x) d"
  have prune: "prune_settled_timestamps D tp (dict_get trackers tp) safe l =
      (if d = [] then l else l\<lparr>sl_unsettled_timestamps :=
        (if ?kept \<noteq> [] then dict_set tp ?kept (sl_unsettled_timestamps l) else dict_pop tp (sl_unsettled_timestamps l))\<rparr>)"
    by (simp add: prune_settled_timestamps_def Some open_offsets_def Let_def)
  have keys: "fst ` set ?kept = {x \<in> fst ` set d. x \<in> open_offsets D trackers tp \<and> safe < x}" by (rule dict_filter_keys)
  have "timestamps_of (prune_settled_timestamps D tp (dict_get trackers tp) safe l) tp = fst ` set ?kept"
  proof (cases "d = []")
    case True
    then show ?thesis using Some by (simp add: prune timestamps_of_def dict_get_default_def dict_filter_def)
  next
    case False
    then show ?thesis by (cases "?kept = []") (simp_all add: prune timestamps_of_def dict_get_default_def dict_simps)
  qed
  moreover have "timestamps_of l tp = fst ` set d" using Some by (simp add: timestamps_of_def dict_get_default_def)
  moreover have "timestamps_of (prune_settled_timestamps D tp (dict_get trackers tp) safe l) q = timestamps_of l q" if "q \<noteq> tp"
    using that by (simp add: prune timestamps_of_def dict_get_default_def dict_simps)
  ultimately show ?thesis using keys by simp
qed

lemma prune_frame:
  "sl_dirty_commit_partitions (prune_settled_timestamps D tp t safe l) = sl_dirty_commit_partitions l"
  "sl_unsettled_completions (prune_settled_timestamps D tp t safe l) = sl_unsettled_completions l"
  by (simp_all add: prune_settled_timestamps_def Let_def split: option.split)

lemma clear_partition_entry:
  "ledger_entry (clear_committed_partition D trackers (tp, safe) l) q =
     (if q \<noteq> tp then ledger_entry l q
      else (open_offsets D trackers tp \<noteq> {},
            if open_offsets D trackers tp = {} then None else Some (int (card (open_offsets D trackers tp))),
            {x \<in> timestamps_of l tp. x \<in> open_offsets D trackers tp \<and> safe < x}))"
proof -
  let ?n = "case dict_get trackers tp of None \<Rightarrow> 0 | Some t \<Rightarrow> int (ss_len D (ot_completed_offsets t))"
  have n: "?n = int (card (open_offsets D trackers tp))"
    by (simp add: open_offsets_def len_card split: option.split)
  have fin: "card (open_offsets D trackers tp) = 0 \<longleftrightarrow> open_offsets D trackers tp = {}"
    by (auto simp: open_offsets_def split: option.split)
  let ?l = "prune_settled_timestamps D tp (dict_get trackers tp) safe l"
  have ts: "timestamps_of (k\<lparr>sl_dirty_commit_partitions := a, sl_unsettled_completions := b\<rparr>) = timestamps_of k" for k a b
    by (simp add: timestamps_of_def fun_eq_iff)
  have ts': "timestamps_of (k\<lparr>sl_dirty_commit_partitions := a, sl_unsettled_completions := b,
      sl_unsettled_timestamps := dict_pop tp (sl_unsettled_timestamps k)\<rparr>) q = (if q = tp then {} else timestamps_of k q)" for k a b
    by (simp add: timestamps_of_def dict_get_default_def dict_simps)
  show ?thesis
  proof (cases "open_offsets D trackers tp = {}")
    case True
    then have "clear_committed_partition D trackers (tp, safe) l =
        ?l\<lparr>sl_dirty_commit_partitions := sl_dirty_commit_partitions ?l - {tp},
           sl_unsettled_completions := dict_pop tp (sl_unsettled_completions ?l),
           sl_unsettled_timestamps := dict_pop tp (sl_unsettled_timestamps ?l)\<rparr>"
      using n by (simp add: clear_committed_partition_def Let_def)
    then show ?thesis using True by (simp add: ledger_entry_def ts' timestamps_prune prune_frame dict_simps)
  next
    case False
    then have "?n > 0" using n fin by simp
    then have "clear_committed_partition D trackers (tp, safe) l =
        ?l\<lparr>sl_dirty_commit_partitions := insert tp (sl_dirty_commit_partitions ?l),
           sl_unsettled_completions := dict_set tp ?n (sl_unsettled_completions ?l)\<rparr>"
      by (simp add: clear_committed_partition_def Let_def)
    then show ?thesis using False n by (simp add: ledger_entry_def ts timestamps_prune prune_frame dict_simps)
  qed
qed

lemma clear_fold_entry:
  "distinct (map fst commits) \<Longrightarrow>
     ledger_entry (fold (clear_committed_partition D trackers) commits l) q =
       (case dict_get commits q of
          None \<Rightarrow> ledger_entry l q
        | Some safe \<Rightarrow>
            (open_offsets D trackers q \<noteq> {},
             if open_offsets D trackers q = {} then None else Some (int (card (open_offsets D trackers q))),
             {x \<in> timestamps_of l q. x \<in> open_offsets D trackers q \<and> safe < x}))"
proof (induction commits arbitrary: l)
  case (Cons c commits)
  obtain tp safe where c: "c = (tp, safe)" by (cases c)
  have ts: "timestamps_of (clear_committed_partition D trackers (tp, safe) l) q = timestamps_of l q" if "q \<noteq> tp"
    using clear_partition_entry[of trackers tp safe l q] that by (simp add: ledger_entry_def)
  show ?case
  proof (cases "q = tp")
    case True
    then have "dict_get commits q = None" using Cons.prems c by (simp add: map_of_eq_None_iff)
    then show ?thesis using Cons.IH Cons.prems c True by (simp add: clear_partition_entry)
  next
    case False
    then show ?thesis using Cons.IH Cons.prems c ts by (simp add: clear_partition_entry split: option.splits)
  qed
qed simp

end

section \<open>Every current event is settled or kept\<close>

context tracker_containers
begin

lemma process_settles:
  assumes "pending_wf s" "process_completed_events D cfg publish completed_events s = (Inr res, s')"
    and e: "event \<in> snd ` set (bs_pending_dlq_events s) \<union> set completed_events" "current_event s event"
  shows "accounted D s' (event_key event) \<or> retained s' (event_key event)"
proof -
  let ?evs = "map (\<lambda>(k, event). (event, True)) (bs_pending_dlq_events s)"
  let ?evs' = "map (\<lambda>event. (event, False)) completed_events"
  let ?l = "\<lparr>cl_resolved_pending_keys = {}, cl_completed_count = 0, cl_completed_partitions = {},
              cl_completed_offsets = [], cl_publications = 0\<rparr>"
  obtain l where l: "process_events_loop D cfg publish (?evs @ ?evs') ?l s = (Inr l, s')"
    using assms(2) by (auto simp: process_completed_events_def split: prod.splits sum.splits)
  obtain l1 s1 where 1: "process_events_loop D cfg publish ?evs ?l s = (Inr l1, s1)"
      "process_events_loop D cfg publish ?evs' l1 s1 = (Inr l, s')"
    using loop_append[OF l] by blast
  have eq: "map (event_key \<circ> fst) ?evs = map fst (bs_pending_dlq_events s)"
    using assms(1) by (auto simp: pending_wf_def)
  have dist: "distinct (map (event_key \<circ> fst) ?evs)"
    unfolding eq using assms(1) by (simp add: pending_wf_def dict_wf_def)
  have triv: "\<forall>k\<in>cl_resolved_pending_keys ?l. accounted D s k" "\<forall>ev\<in>set ?evs'. \<not> snd ev" by simp_all
  note R = loop_retried[OF 1(1) dist triv(1)]
  note F = loop_fresh[OF 1(2) triv(2) R[THEN conjunct1]]
  note adv1 = process_loop_advanced[OF 1(1)] and adv2 = process_loop_advanced[OF 1(2)]
  have cur: "current_event s1 event"
    using same_tracking_current[OF adv1[unfolded advanced_def, THEN conjunct1]] e(2) by simp
  from e(1) consider "(event, True) \<in> set ?evs" | "(event, False) \<in> set ?evs'" by force
  then show ?thesis
  proof cases
    case 1
    then have "accounted D s1 (event_key event) \<or> retained s1 (event_key event)" using R e(2) by blast
    then show ?thesis using accounted_mono[OF adv2, of "event_key event"] F by blast
  next
    case 2
    then show ?thesis using F cur by blast
  qed
qed

end

section \<open>Properties\<close>

text \<open>C26. No terminal failure is lost: an offset becomes complete, and so can be committed, only on
  account of a current completion event for it, and if that event is a failure that has used up
  its attempts while the dead-letter topic is enabled, its publication has succeeded. This also
  holds when the call raises half-way.\<close>

theorem terminal_failure_needs_publication:
  assumes "tracker_containers D" "process_completed_events D cfg publish completed_events s = (r, s')"
    and "x \<in> completed_of D s' tp" "x \<notin> completed_of D s tp"
  shows "\<exists>event \<in> snd ` set (bs_pending_dlq_events s) \<union> set completed_events.
    ce_tp event = tp \<and> ce_offset event = x \<and> current_event s event \<and>
    (needs_dlq cfg event \<longrightarrow> (\<exists>n m. publish n event m (error_text event) = Inr True))"
proof -
  let ?evs = "map (\<lambda>(k, event). (event, True)) (bs_pending_dlq_events s) @ map (\<lambda>event. (event, False)) completed_events"
  let ?l = "\<lparr>cl_resolved_pending_keys = {}, cl_completed_count = 0, cl_completed_partitions = {},
              cl_completed_offsets = [], cl_publications = 0\<rparr>"
  obtain r0 where r0: "process_events_loop D cfg publish ?evs ?l s = (r0, s')"
    using assms(2) by (auto simp: process_completed_events_def split: prod.splits sum.splits)
  obtain pre post l' where pre: "?evs = pre @ post" "process_events_loop D cfg publish pre ?l s = (Inr l', s')"
    using loop_prefix[OF r0] by (elim exE conjE) rule
  obtain xs where "completed_of D s' tp = completed_of D s tp \<union> set xs" "\<forall>x\<in>set xs. justified cfg publish pre s tp x"
    using tracker_containers.process_loop_advanced[OF assms(1) pre(2), unfolded advanced_def, THEN conjunct2, THEN spec, of tp]
    by (elim exE conjE) rule
  then have "justified cfg publish pre s tp x" using assms(3,4) by simp
  then obtain event fp where "(event, fp) \<in> set pre" and e: "event_key event = (tp, x)" "current_event s event"
      "needs_dlq cfg event \<longrightarrow> (\<exists>n m. publish n event m (error_text event) = Inr True)"
    unfolding justified_def by blast
  then have "(event, fp) \<in> set ?evs" unfolding pre(1) by simp
  then have "event \<in> snd ` set (bs_pending_dlq_events s) \<union> set completed_events" by force
  then show ?thesis using e by (intro bexI[of _ event]) (simp_all only: event_key_def prod.inject simp_thms)
qed

text \<open>C27. Every event is settled or kept, and the report is exact: after a call that returns, each
  event of a managed partition with the current epoch, fresh or retried, has its offset
  committed or completed, or is retained for another attempt. The offsets reported for a
  partition are distinct and are precisely those that became complete; the reported count is
  their number, and the reported partitions are those with at least one.\<close>

theorem events_completed_or_retained:
  assumes "tracker_containers D" "pending_wf s"
    and "process_completed_events D cfg publish completed_events s = (Inr res, s')"
  shows "(\<forall>event \<in> snd ` set (bs_pending_dlq_events s) \<union> set completed_events. current_event s event \<longrightarrow>
      accounted D s' (event_key event) \<or> retained s' (event_key event)) \<and>
    (\<forall>tp. distinct (dict_get_default (cpr_completed_offsets_by_partition res) tp []) \<and>
      set (dict_get_default (cpr_completed_offsets_by_partition res) tp []) = completed_of D s' tp - completed_of D s tp) \<and>
    cpr_processed_count res = (\<Sum>(tp, xs)\<leftarrow>cpr_completed_offsets_by_partition res. int (length xs)) \<and>
    cpr_completed_partitions res = {tp. completed_of D s' tp \<noteq> completed_of D s tp}"
proof -
  let ?evs = "map (\<lambda>(k, event). (event, True)) (bs_pending_dlq_events s)"
  let ?evs' = "map (\<lambda>event. (event, False)) completed_events"
  let ?l = "\<lparr>cl_resolved_pending_keys = {}, cl_completed_count = 0, cl_completed_partitions = {},
              cl_completed_offsets = [], cl_publications = 0\<rparr>"
  obtain l where l: "process_events_loop D cfg publish (?evs @ ?evs') ?l s = (Inr l, s')"
    and res: "cpr_processed_count res = cl_completed_count l" "cpr_completed_partitions res = cl_completed_partitions l"
      "cpr_completed_offsets_by_partition res = cl_completed_offsets l"
    using assms(3) by (auto simp: process_completed_events_def split: prod.splits sum.splits)
  note adv = tracker_containers.process_loop_advanced[OF assms(1) l]
  have kept: "accounted D s' (event_key event) \<or> retained s' (event_key event)"
    if "event \<in> snd ` set (bs_pending_dlq_events s) \<union> set completed_events" "current_event s event" for event
    by (rule tracker_containers.process_settles[OF assms that])
  have exact: "distinct (new_offsets l tp) \<and> set (new_offsets l tp) = completed_of D s' tp - completed_of D s tp" for tp
    using adv[unfolded advanced_def, THEN conjunct2, THEN spec, of tp] by (auto simp: new_offsets_def[of ?l] dict_get_default_def)
  have mono: "completed_of D s tp \<subseteq> completed_of D s' tp" for tp
    using adv[unfolded advanced_def, THEN conjunct2, THEN spec, of tp] by blast
  have ok: "locals_ok l" by (rule process_loop_locals[OF l]) (simp add: locals_ok_def new_offsets_def dict_get_default_def)
  have parts: "cl_completed_partitions l = {tp. completed_of D s' tp \<noteq> completed_of D s tp}"
    using ok exact mono by (auto simp: locals_ok_def) (metis Diff_eq_empty_iff list.set(1) set_empty subset_antisym)+
  show ?thesis
    using kept exact ok parts by (simp add: res new_offsets_def locals_ok_def)
qed


text \<open>Settling a commit leaves an exact ledger: of each committed partition it says whether
  completed offsets remain uncommitted, how many, and it keeps the completion times of precisely
  the remaining ones beyond the committed offset; other partitions are untouched. The count of
  completions since the last commit is reset when no partition is left dirty.\<close>

theorem settlement_exact:
  assumes "tracker_containers D" "distinct (map fst commits)"
    and "l' = clear_committed_dirty_partitions D trackers commits l"
  shows "ledger_entry l' q =
      (case dict_get commits q of
         None \<Rightarrow> ledger_entry l q
       | Some safe \<Rightarrow>
           (open_offsets D trackers q \<noteq> {},
            if open_offsets D trackers q = {} then None else Some (int (card (open_offsets D trackers q))),
            {x \<in> timestamps_of l q. x \<in> open_offsets D trackers q \<and> safe < x})) \<and>
    (sl_dirty_commit_partitions l' = {} \<longrightarrow> sl_completions_since_last_commit l' = 0)"
proof -
  let ?l = "fold (clear_committed_partition D trackers) commits l"
  have "ledger_entry l' q = ledger_entry ?l q"
    by (simp add: assms(3) clear_committed_dirty_partitions_def Let_def ledger_entry_def timestamps_of_def)
  then show ?thesis
    using tracker_containers.clear_fold_entry[OF assms(1,2), of trackers l q]
    by (simp add: assms(3) clear_committed_dirty_partitions_def Let_def)
qed

section \<open>A concrete call\<close>

text \<open>Offsets 5 to 8 are fetched, 5, 6 and 8 completed; the failure of 7 has used up its attempts.\<close>

definition demo_failure :: "int \<Rightarrow> completion_event" where
  "demo_failure attempt = \<lparr>ce_id = ''w7'', ce_tp = TopicPartition ''t'' 0, ce_offset = 7, ce_epoch = 0,
     ce_status = FAILURE, ce_error = None, ce_attempt = attempt\<rparr>"

definition demo_completion :: "(int list, (gap_key \<times> offset_range list) option) completion_state" where
  "demo_completion = \<lparr>bs_offset_trackers = [(TopicPartition ''t'' 0, sample_tracker)],
     bs_dlq_cache = empty_cache, bs_pending_dlq_events = []\<rparr>"

definition demo_comp_cfg :: completion_config where
  "demo_comp_cfg = \<lparr>comp_dlq_enabled = True, comp_max_retries = 3\<rparr>"

definition demo_process :: "bool \<Rightarrow> int
    \<Rightarrow> (py_error + completion_processing_result) \<times> (int list, (gap_key \<times> offset_range list) option) completion_state" where
  "demo_process ok attempt =
     process_completed_events list_containers demo_comp_cfg (\<lambda>n event m error. Inr ok) [demo_failure attempt] demo_completion"

lemma demo_published: "7 \<in> completed_of list_containers (snd (demo_process True 3)) (TopicPartition ''t'' 0) \<and>
    7 \<notin> completed_of list_containers demo_completion (TopicPartition ''t'' 0)"
  by code_simp

theorem terminal_failure_needs_publication_witness:
  "\<exists>event \<in> {demo_failure 3}. ce_offset event = 7 \<and> current_event demo_completion event"
  using terminal_failure_needs_publication[OF lc.tracker_containers_axioms, where cfg = demo_comp_cfg and
      publish = "\<lambda>n event m error. Inr True" and completed_events = "[demo_failure 3]" and s = demo_completion
      and r = "fst (demo_process True 3)" and s' = "snd (demo_process True 3)" and tp = "TopicPartition ''t'' 0" and x = 7]
    demo_published
  by (auto simp: demo_process_def demo_completion_def)

lemma demo_not_published:
  "dict_get (bs_pending_dlq_events (snd (demo_process False 3))) (TopicPartition ''t'' 0, 7) = Some (demo_failure 3)"
  by code_simp

theorem events_completed_or_retained_witness:
  "accounted list_containers (snd (demo_process True 3)) (TopicPartition ''t'' 0, 7) \<and>
   cpr_processed_count (projr (fst (demo_process True 3))) = 1"
proof -
  have r: "process_completed_events list_containers demo_comp_cfg (\<lambda>n event m error. Inr True) [demo_failure 3] demo_completion =
      (Inr (projr (fst (demo_process True 3))), snd (demo_process True 3))"
    by code_simp
  have "pending_wf demo_completion" by code_simp
  note E = events_completed_or_retained[OF lc.tracker_containers_axioms this r]
  have "current_event demo_completion (demo_failure 3)"
    by (auto simp: current_event_def demo_completion_def demo_failure_def get_current_epoch_def sample_tracker_def
        offset_tracker_init_def Let_def update_last_fetched_offset_def bump_version_def lc.mark_complete_epoch)
  moreover have "dict_get (bs_pending_dlq_events (snd (demo_process True 3))) (TopicPartition ''t'' 0, 7) = None" by code_simp
  moreover have "cpr_completed_offsets_by_partition (projr (fst (demo_process True 3))) = [(TopicPartition ''t'' 0, [7])]"
    by code_simp
  ultimately show ?thesis using E by (simp add: event_key_def demo_failure_def)
qed

theorem settlement_exact_witness:
  "ledger_entry (clear_committed_dirty_partitions list_containers [(TopicPartition ''t'' 0, commit_through list_containers 6 sample_tracker)]
      [(TopicPartition ''t'' 0, 6)]
      \<lparr>sl_dirty_commit_partitions = {}, sl_unsettled_completions = [], sl_unsettled_timestamps =
         [(TopicPartition ''t'' 0, [(5, 0), (6, 0), (8, 1)])], sl_completions_since_last_commit = 3\<rparr>)
     (TopicPartition ''t'' 0) = (True, Some 1, {8})"
proof -
  let ?t = "[(TopicPartition ''t'' 0, commit_through list_containers 6 sample_tracker)]"
  have iter: "ss_iter list_containers (ot_completed_offsets (commit_through list_containers 6 sample_tracker)) = [8]" by code_simp
  have "open_offsets list_containers ?t (TopicPartition ''t'' 0) = {8}" by (simp add: open_offsets_def iter)
  moreover have "{x \<in> timestamps_of \<lparr>sl_dirty_commit_partitions = {}, sl_unsettled_completions = [], sl_unsettled_timestamps =
         [(TopicPartition ''t'' 0, [(5, 0), (6, 0), (8, 1)])], sl_completions_since_last_commit = 3\<rparr> (TopicPartition ''t'' 0). x \<in> {8} \<and> 6 < x} = {8}"
    by (auto simp: timestamps_of_def dict_get_default_def)
  ultimately show ?thesis
    using settlement_exact[OF lc.tracker_containers_axioms _ refl, where commits = "[(TopicPartition ''t'' 0, 6)]"
        and trackers = ?t and q = "TopicPartition ''t'' 0"] by simp
qed

text \<open>
  A failure that arrives before the attempts are used up is completed without publication: the
  broker relies on the engine to report failures only once they are final.
\<close>

lemma early_failure_completed_unpublished:
  "7 \<in> completed_of list_containers (snd (demo_process False 1)) (TopicPartition ''t'' 0) \<and>
   bs_pending_dlq_events (snd (demo_process False 1)) = []"
  by code_simp

end
