(* ===== verification/Broker_Commit.thy ===== *)
theory Broker_Commit
  imports Broker_Completion Metadata_Encoder Commit_Coordinator
begin

text \<open>
  How the broker commits: the candidates of \<open>broker_dispatch_support.py\<close>, the commit planner of
  \<open>broker_support.py\<close>, the synchronous commit of \<open>broker_poller.py\<close> and the glue to the commit
  coordinator in \<open>broker_commit_coordinator_support.py\<close>, with the cadence gates.

  Kafka is a parameter: \<open>answers n\<close> says what the n-th round of a synchronous commit meets: no
  consumer any more, a refused call, or a confirmed one. A coroutine that waits for Kafka between two sections under the control lock is two
  functions, one per section. Theorems: a candidate never reaches an incomplete or an in-flight
  offset and none is missed; a synchronous commit moves the trackers exactly when Kafka accepted
  it; a settlement of the coordinator moves a tracker only for the tracker's own epoch, an active
  lease, and forward.
\<close>

section \<open>Candidates and plans\<close>

record kafka_partition =
  kp_topic :: string
  kp_partition :: int
  kp_offset :: "int option"
  kp_metadata :: "string option"

record commit_planner =
  pl_max_metadata_size :: int
  pl_max_completed_offsets :: nat

type_synonym ('s, 'c) trackers = "(topic_partition, ('s, 'c) offset_tracker) dict"

definition build_commit_candidates ::
  "('s, 'c) container_ops \<Rightarrow> (topic_partition \<Rightarrow> int option) \<Rightarrow> ('s, 'c) trackers \<Rightarrow> (topic_partition \<times> int) list" where
  "build_commit_candidates D get_min_inflight_offset trackers =
     [(tp, h). (tp, tracker) \<leftarrow> trackers,
        h \<leftarrow> [get_committable_high_water_mark D (get_min_inflight_offset tp) tracker],
        h > ot_last_committed_offset tracker]"

definition get_commit_metadata_offsets ::
  "('s, 'c) container_ops \<Rightarrow> commit_planner \<Rightarrow> ('s, 'c) offset_tracker \<Rightarrow> int \<Rightarrow> int set" where
  "get_commit_metadata_offsets D pl tracker base_offset =
     set (take (pl_max_completed_offsets pl) (ss_irange D (Some base_offset) None (ot_completed_offsets tracker)))"

definition encode_revoke_metadata ::
  "('s, 'c) container_ops \<Rightarrow> commit_planner \<Rightarrow> string \<Rightarrow> ('s, 'c) offset_tracker \<Rightarrow> int \<Rightarrow> string" where
  "encode_revoke_metadata D pl strategy tracker base_offset =
     (if strategy \<noteq> ''metadata_snapshot'' then []
      else encode_metadata (pl_max_metadata_size pl) (get_commit_metadata_offsets D pl tracker base_offset) base_offset)"

fun build_offsets_to_commit ::
  "('s, 'c) container_ops \<Rightarrow> commit_planner \<Rightarrow> string \<Rightarrow> ('s, 'c) trackers \<Rightarrow> (topic_partition \<times> int) list
    \<Rightarrow> py_error + kafka_partition list" where
  "build_offsets_to_commit D pl strategy trackers [] = Inr []"
| "build_offsets_to_commit D pl strategy trackers ((tp, safe_offset) # commits) =
     (case dict_get trackers tp of
        None \<Rightarrow> Inl KeyError
      | Some tracker \<Rightarrow>
          (case build_offsets_to_commit D pl strategy trackers commits of
             Inl e \<Rightarrow> Inl e
           | Inr rest \<Rightarrow>
               Inr (\<lparr>kp_topic = topic tp, kp_partition = partition tp, kp_offset = Some (safe_offset + 1),
                     kp_metadata = Some (encode_revoke_metadata D pl strategy tracker (safe_offset + 1))\<rparr> # rest)))"

section \<open>The synchronous commit\<close>

definition tracked_commits :: "('s, 'c) trackers \<Rightarrow> (topic_partition \<times> int) list \<Rightarrow> (topic_partition \<times> int) list" where
  "tracked_commits trackers commits_to_make = filter (\<lambda>(tp, safe_offset). dict_has trackers tp) commits_to_make"

definition apply_commit :: "('s, 'c) container_ops \<Rightarrow> topic_partition \<times> int \<Rightarrow> ('s, 'c) trackers \<Rightarrow> ('s, 'c) trackers" where
  "apply_commit D commit trackers =
     (case dict_get trackers (fst commit) of
        None \<Rightarrow> trackers
      | Some tracker \<Rightarrow> dict_set (fst commit) (commit_through D (snd commit) tracker) trackers)"

text \<open>
  \<open>BrokerPoller._commit_offsets\<close>: \<open>before\<close> are the trackers when the commit is planned, \<open>after\<close>
  those when Kafka has answered; the two attempts send the same offsets. The result is the
  return value, the calls made, and the trackers.
\<close>

datatype commit_answer = ConsumerGone | Refused | Confirmed

definition commit_offsets ::
  "('s, 'c) container_ops \<Rightarrow> commit_planner \<Rightarrow> string \<Rightarrow> bool \<Rightarrow> (nat \<Rightarrow> commit_answer) \<Rightarrow> (topic_partition \<times> int) list
    \<Rightarrow> ('s, 'c) trackers \<Rightarrow> ('s, 'c) trackers \<Rightarrow> (py_error + bool \<times> kafka_partition list list) \<times> ('s, 'c) trackers" where
  "commit_offsets D pl strategy has_consumer answers commits_to_make before after =
     (if \<not> has_consumer then (Inr (False, []), after)
      else
        let tracked = tracked_commits before commits_to_make
        in if tracked = [] then (Inr (True, []), after)
           else case build_offsets_to_commit D pl strategy before tracked of
             Inl e \<Rightarrow> (Inl e, after)
           | Inr offsets \<Rightarrow>
               (case answers 0 of
                  ConsumerGone \<Rightarrow> (Inr (False, []), after)
                | Confirmed \<Rightarrow> (Inr (True, [offsets]), fold (apply_commit D) tracked after)
                | Refused \<Rightarrow>
                    (case answers 1 of
                       ConsumerGone \<Rightarrow> (Inr (False, [offsets]), after)
                     | Confirmed \<Rightarrow> (Inr (True, [offsets, offsets]), fold (apply_commit D) tracked after)
                     | Refused \<Rightarrow> (Inr (False, [offsets, offsets]), after))))"

section \<open>The coordinator's side\<close>

definition build_candidates :: "real \<Rightarrow> ('s, 'c) trackers \<Rightarrow> (topic_partition \<times> int) list \<Rightarrow> commit_candidate list" where
  "build_candidates now trackers commits_to_make =
     [\<lparr>cand_tp = tp, cand_safe_offset = safe_offset, cand_assignment_epoch = get_current_epoch tracker,
       cand_lease_id = 0, cand_enqueued_at = now\<rparr>.
        (tp, safe_offset) \<leftarrow> commits_to_make,
        tracker \<leftarrow> (case dict_get trackers tp of None \<Rightarrow> [] | Some t \<Rightarrow> [t])]"

definition own_candidate :: "('s, 'c) trackers \<Rightarrow> commit_candidate \<Rightarrow> bool" where
  "own_candidate trackers c =
     (case dict_get trackers (cand_tp c) of
        None \<Rightarrow> False | Some tracker \<Rightarrow> get_current_epoch tracker = cand_assignment_epoch c)"

text \<open>
  The section of \<open>commit_sync\<close> under the lock: stale candidates lose their lease, the rest is
  planned. The section on the worker thread then looks at the leases and calls Kafka.
\<close>

definition commit_sync_plan ::
  "('s, 'c) container_ops \<Rightarrow> commit_planner \<Rightarrow> string \<Rightarrow> bool \<Rightarrow> commit_candidate list \<Rightarrow> ('s, 'c) trackers \<Rightarrow> coordinator
    \<Rightarrow> (py_error + commit_candidate list \<times> kafka_partition list) \<times> coordinator" where
  "commit_sync_plan D pl strategy has_consumer candidates trackers cc =
     (if \<not> has_consumer then (Inl RuntimeError, cc) else
      let own = filter (own_candidate trackers) candidates;
          stale_tps = map cand_tp (filter (\<lambda>c. \<not> own_candidate trackers c) candidates);
          cc1 = (if stale_tps \<noteq> [] then cancel_leases stale_tps cc else cc)
      in (map_sum id (Pair own)
            (build_offsets_to_commit D pl strategy trackers (map (\<lambda>c. (cand_tp c, cand_safe_offset c)) own)), cc1))"

datatype sync_outcome = NothingToCommit | Aborted | Sent "kafka_partition list"

definition commit_if_active ::
  "commit_candidate list \<Rightarrow> kafka_partition list \<Rightarrow> coordinator \<Rightarrow> sync_outcome \<times> coordinator" where
  "commit_if_active own offsets cc =
     (if own = [] then (NothingToCommit, cc)
      else if list_all (active cc) own then (Sent offsets, cc)
      else (Aborted, cancel_leases (map cand_tp own) cc))"

definition settle_one ::
  "('s, 'c) container_ops \<Rightarrow> coordinator \<Rightarrow> commit_settlement
    \<Rightarrow> (topic_partition \<times> int) list \<times> ('s, 'c) trackers \<Rightarrow> (topic_partition \<times> int) list \<times> ('s, 'c) trackers" where
  "settle_one D cc st acc =
     (case acc of (commits_to_clear, trackers) \<Rightarrow>
        (case dict_get trackers (settle_tp st) of
           None \<Rightarrow> acc
         | Some tracker \<Rightarrow>
             if get_current_epoch tracker \<noteq> settle_assignment_epoch st then acc
             else if \<not> is_active_lease cc (settle_tp st) (settle_assignment_epoch st) (settle_lease_id st) then acc
             else if settle_safe_offset st \<le> ot_last_committed_offset tracker then acc
             else (commits_to_clear @ [(settle_tp st, settle_safe_offset st)],
                   dict_set (settle_tp st) (commit_through D (settle_safe_offset st) tracker) trackers)))"

definition settle_committed_offsets ::
  "('s, 'c) container_ops \<Rightarrow> coordinator \<Rightarrow> commit_settlement list \<Rightarrow> ('s, 'c) trackers \<times> settlement_ledger
    \<Rightarrow> ('s, 'c) trackers \<times> settlement_ledger" where
  "settle_committed_offsets D cc settlements x =
     (let (commits_to_clear, trackers) = fold (settle_one D cc) settlements ([], fst x)
      in (trackers,
          if commits_to_clear \<noteq> [] then clear_committed_dirty_partitions D trackers commits_to_clear (snd x) else snd x))"

definition retain_failed_commit_offsets ::
  "coordinator \<Rightarrow> commit_settlement list \<Rightarrow> settlement_ledger \<Rightarrow> settlement_ledger" where
  "retain_failed_commit_offsets cc settlements l =
     l\<lparr>sl_dirty_commit_partitions := sl_dirty_commit_partitions l \<union>
         settle_tp ` {st \<in> set settlements. is_active_lease cc (settle_tp st) (settle_assignment_epoch st) (settle_lease_id st)}\<rparr>"

section \<open>Cadence\<close>

definition should_attempt_ready_commit :: "int \<Rightarrow> real \<Rightarrow> real \<Rightarrow> real \<Rightarrow> settlement_ledger \<Rightarrow> bool" where
  "should_attempt_ready_commit completion_threshold interval_seconds last_attempt now l \<longleftrightarrow>
     sl_dirty_commit_partitions l \<noteq> {} \<and>
     (sl_completions_since_last_commit l \<ge> completion_threshold \<or> interval_seconds \<le> 0 \<or>
      now - last_attempt \<ge> interval_seconds)"

definition should_force_idle_commit :: "bool \<Rightarrow> int \<Rightarrow> int \<Rightarrow> settlement_ledger \<Rightarrow> bool" where
  "should_force_idle_commit has_pending_dlq_events total_in_flight queued l \<longleftrightarrow>
     sl_dirty_commit_partitions l \<noteq> {} \<and> \<not> has_pending_dlq_events \<and> total_in_flight \<le> 0 \<and> queued \<le> 0"

section \<open>Plans\<close>

definition trackers_wf :: "('s, 'c) container_ops \<Rightarrow> ('s, 'c) trackers \<Rightarrow> bool" where
  "trackers_wf D trackers \<longleftrightarrow> (\<forall>tp t. dict_get trackers tp = Some t \<longrightarrow> tracker_wf D t)"

lemma trackers_wfD: "trackers_wf D trackers \<Longrightarrow> dict_get trackers tp = Some t \<Longrightarrow> tracker_wf D t"
  by (simp add: trackers_wf_def)

lemma candidates_iff:
  assumes "dict_wf trackers"
  shows "(tp, h) \<in> set (build_commit_candidates D m trackers) \<longleftrightarrow>
    (\<exists>t. dict_get trackers tp = Some t \<and> h = get_committable_high_water_mark D (m tp) t \<and> ot_last_committed_offset t < h)"
  using assms by (auto simp: build_commit_candidates_def dict_in_set_iff)

lemma tracked_plan:
  "set (map fst commits) \<subseteq> dom (dict_get trackers) \<Longrightarrow>
     build_offsets_to_commit D pl strategy trackers commits =
       Inr (map (\<lambda>(tp, safe). \<lparr>kp_topic = topic tp, kp_partition = partition tp, kp_offset = Some (safe + 1),
              kp_metadata = Some (encode_revoke_metadata D pl strategy (the (dict_get trackers tp)) (safe + 1))\<rparr>) commits)"
  by (induction D pl strategy trackers commits rule: build_offsets_to_commit.induct) auto

lemma tracked_commits_dom: "set (map fst (tracked_commits trackers commits)) \<subseteq> dom (dict_get trackers)"
  by (auto simp: tracked_commits_def dict_has_iff)

lemma apply_commit_get:
  "dict_get (apply_commit D (q, h) trackers) tp =
     (if tp = q then map_option (commit_through D h) (dict_get trackers tp) else dict_get trackers tp)"
  by (simp add: apply_commit_def dict_simps split: option.split)

lemma apply_commits_get:
  "distinct (map fst commits) \<Longrightarrow>
     dict_get (fold (apply_commit D) commits trackers) tp =
       (case dict_get commits tp of
          None \<Rightarrow> dict_get trackers tp
        | Some h \<Rightarrow> map_option (commit_through D h) (dict_get trackers tp))"
proof (induction commits arbitrary: trackers)
  case (Cons c commits)
  obtain q h where c: "c = (q, h)" by (cases c)
  have "tp = q \<Longrightarrow> dict_get commits tp = None" using Cons.prems c by (simp add: map_of_eq_None_iff)
  then show ?case using Cons.IH Cons.prems c by (auto simp: apply_commit_get split: option.split)
qed simp


text \<open>The settlements the callback accepts, given the trackers it started from.\<close>

definition accepts_settlement :: "coordinator \<Rightarrow> ('s, 'c) trackers \<Rightarrow> commit_settlement \<Rightarrow> bool" where
  "accepts_settlement cc trackers st \<longleftrightarrow>
     is_active_lease cc (settle_tp st) (settle_assignment_epoch st) (settle_lease_id st) \<and>
     (\<exists>t. dict_get trackers (settle_tp st) = Some t \<and> ot_epoch t = settle_assignment_epoch st \<and>
        ot_last_committed_offset t < settle_safe_offset st)"

lemma settle_one_eq:
  "settle_one D cc st (cs, trackers) =
     (if accepts_settlement cc trackers st
      then (cs @ [(settle_tp st, settle_safe_offset st)], apply_commit D (settle_tp st, settle_safe_offset st) trackers)
      else (cs, trackers))"
  by (auto simp: settle_one_def accepts_settlement_def apply_commit_def get_current_epoch_def split: option.splits)

lemma settle_fold:
  "distinct (map settle_tp sts) \<Longrightarrow>
     fold (settle_one D cc) sts (cs, trackers) =
       (cs @ map (\<lambda>st. (settle_tp st, settle_safe_offset st)) (filter (accepts_settlement cc trackers) sts),
        fold (apply_commit D) (map (\<lambda>st. (settle_tp st, settle_safe_offset st)) (filter (accepts_settlement cc trackers) sts)) trackers)"
proof (induction sts arbitrary: cs trackers)
  case (Cons st sts)
  let ?t = "apply_commit D (settle_tp st, settle_safe_offset st) trackers"
  have "accepts_settlement cc ?t x = accepts_settlement cc trackers x" if "x \<in> set sts" for x
  proof -
    have "settle_tp x \<noteq> settle_tp st" using imageI[OF that, of settle_tp] Cons.prems by auto
    then show ?thesis by (simp add: accepts_settlement_def apply_commit_get)
  qed
  then have "filter (accepts_settlement cc ?t) sts = filter (accepts_settlement cc trackers) sts"
    by (intro filter_cong) auto
  then show ?case using Cons by (simp add: settle_one_eq)
qed simp

section \<open>Properties\<close>

text \<open>C28. Commit candidates are safe and complete: a candidate lies ahead of what is committed, every
  offset up to it is completed and it stays below every offset in flight; no partition has two;
  and a partition whose next offset is completed and not in flight has one.\<close>

theorem commit_candidates_exact:
  assumes "tracker_containers D" "dict_wf trackers" "trackers_wf D trackers"
  shows "distinct (map fst (build_commit_candidates D min_inflight trackers)) \<and>
    (\<forall>(tp, h) \<in> set (build_commit_candidates D min_inflight trackers).
       \<exists>t. dict_get trackers tp = Some t \<and> ot_last_committed_offset t < h \<and>
         {ot_last_committed_offset t<..h} \<subseteq> set (ss_iter D (ot_completed_offsets t)) \<and>
         (\<forall>x. min_inflight tp = Some x \<longrightarrow> h < x)) \<and>
    (\<forall>tp t. dict_get trackers tp = Some t \<and>
       ot_last_committed_offset t + 1 \<in> set (ss_iter D (ot_completed_offsets t)) \<and>
       (\<forall>x. min_inflight tp = Some x \<longrightarrow> ot_last_committed_offset t + 1 < x) \<longrightarrow>
       tp \<in> fst ` set (build_commit_candidates D min_inflight trackers))"
proof (intro conjI)
  have "map fst (build_commit_candidates D min_inflight trackers) =
      map fst (filter (\<lambda>(tp, t). ot_last_committed_offset t < get_committable_high_water_mark D (min_inflight tp) t) trackers)"
    unfolding build_commit_candidates_def by (induction trackers) auto
  then show "distinct (map fst (build_commit_candidates D min_inflight trackers))"
    using assms(2) dict_wf_def distinct_map_filter by metis
next
  have "\<exists>t. dict_get trackers tp = Some t \<and> ot_last_committed_offset t < h \<and>
         {ot_last_committed_offset t<..h} \<subseteq> set (ss_iter D (ot_completed_offsets t)) \<and>
         (\<forall>x. min_inflight tp = Some x \<longrightarrow> h < x)"
    if x: "(tp, h) \<in> set (build_commit_candidates D min_inflight trackers)" for tp h
  proof -
    obtain t where t: "dict_get trackers tp = Some t" "h = get_committable_high_water_mark D (min_inflight tp) t"
        "ot_last_committed_offset t < h"
      using x candidates_iff[OF assms(2)] by blast
    have "{ot_last_committed_offset t<..h} \<subseteq> set (ss_iter D (ot_completed_offsets t))"
      using tracker_containers.committable_contiguous[OF assms(1) trackers_wfD[OF assms(3) t(1)], of "min_inflight tp"] t(2)
      by (simp add: tracker_ledger_def)
    moreover have "h < x" if "min_inflight tp = Some x" for x
      using t(2) that by (simp add: get_committable_high_water_mark_def Let_def)
    ultimately show ?thesis using t by blast
  qed
  then show "\<forall>(tp, h) \<in> set (build_commit_candidates D min_inflight trackers).
       \<exists>t. dict_get trackers tp = Some t \<and> ot_last_committed_offset t < h \<and>
         {ot_last_committed_offset t<..h} \<subseteq> set (ss_iter D (ot_completed_offsets t)) \<and>
         (\<forall>x. min_inflight tp = Some x \<longrightarrow> h < x)" by blast
next
  have "tp \<in> fst ` set (build_commit_candidates D min_inflight trackers)"
    if t: "dict_get trackers tp = Some t" "ot_last_committed_offset t + 1 \<in> set (ss_iter D (ot_completed_offsets t))"
      and m: "\<forall>x. min_inflight tp = Some x \<longrightarrow> ot_last_committed_offset t + 1 < x" for tp t
  proof -
    note S = tracker_containers.committable_None_spec[OF assms(1) trackers_wfD[OF assms(3) t(1)]]
    have "ot_last_committed_offset t < get_committable_high_water_mark D None t"
      using S(1,3) t(2) by (cases "ot_last_committed_offset t = get_committable_high_water_mark D None t")
        (auto simp: tracker_ledger_def)
    then have "ot_last_committed_offset t < get_committable_high_water_mark D (min_inflight tp) t"
      using m by (auto simp: get_committable_high_water_mark_def Let_def split: option.splits)
    then have "(tp, get_committable_high_water_mark D (min_inflight tp) t) \<in> set (build_commit_candidates D min_inflight trackers)"
      using candidates_iff[OF assms(2)] t(1) by blast
    then show ?thesis by (metis fst_conv image_eqI)
  qed
  then show "\<forall>tp t. dict_get trackers tp = Some t \<and>
       ot_last_committed_offset t + 1 \<in> set (ss_iter D (ot_completed_offsets t)) \<and>
       (\<forall>x. min_inflight tp = Some x \<longrightarrow> ot_last_committed_offset t + 1 < x) \<longrightarrow>
       tp \<in> fst ` set (build_commit_candidates D min_inflight trackers)" by blast
qed

definition commit_confirmed :: "(nat \<Rightarrow> commit_answer) \<Rightarrow> bool" where
  "commit_confirmed answers \<longleftrightarrow> answers 0 = Confirmed \<or> answers 0 = Refused \<and> answers 1 = Confirmed"


text \<open>C29. The settlement callback is fenced: with one settlement per partition it commits a tracker
  through the settled offset exactly when the lease is still active, the epoch is the tracker's
  own and the offset lies ahead of it; every other tracker is untouched, and none moves back.\<close>

theorem settlement_fenced:
  assumes "distinct (map settle_tp settlements)"
  shows "(\<forall>tp. dict_get (fst (settle_committed_offsets D cc settlements (trackers, l))) tp =
      (case find (\<lambda>st. settle_tp st = tp \<and> accepts_settlement cc trackers st) settlements of
         None \<Rightarrow> dict_get trackers tp
       | Some st \<Rightarrow> map_option (commit_through D (settle_safe_offset st)) (dict_get trackers tp))) \<and>
    (\<forall>tp t t'. dict_get trackers tp = Some t \<and> dict_get (fst (settle_committed_offsets D cc settlements (trackers, l))) tp = Some t' \<longrightarrow>
       ot_last_committed_offset t \<le> ot_last_committed_offset t')"
proof -
  let ?acc = "filter (accepts_settlement cc trackers) settlements"
  let ?cs = "map (\<lambda>st. (settle_tp st, settle_safe_offset st)) ?acc"
  have eq: "fst (settle_committed_offsets D cc settlements (trackers, l)) = fold (apply_commit D) ?cs trackers"
    using settle_fold[OF assms, of D cc "[]" trackers] by (simp add: settle_committed_offsets_def Let_def)
  have "distinct (map fst ?cs)"
    using assms by (simp add: o_def distinct_map_filter)
  note get = apply_commits_get[OF this, of D trackers]
  have find: "dict_get ?cs tp = map_option settle_safe_offset (find (\<lambda>st. settle_tp st = tp \<and> accepts_settlement cc trackers st) settlements)" for tp
    by (induction settlements) auto
  have A: "dict_get (fst (settle_committed_offsets D cc settlements (trackers, l))) tp =
      (case find (\<lambda>st. settle_tp st = tp \<and> accepts_settlement cc trackers st) settlements of
         None \<Rightarrow> dict_get trackers tp
       | Some st \<Rightarrow> map_option (commit_through D (settle_safe_offset st)) (dict_get trackers tp))" for tp
    by (simp add: eq get find split: option.split)
  have "ot_last_committed_offset t \<le> ot_last_committed_offset (commit_through D h t)" for t h
    by (simp add: commit_through_def Let_def)
  then show ?thesis using A by (auto split: option.splits)
qed


section \<open>Concrete commits\<close>

abbreviation part0 :: topic_partition where
  "part0 \<equiv> TopicPartition ''t'' 0"

lemma demo_trackers_wf: "trackers_wf list_containers [(part0, sample_tracker)]"
  using sample_tracker_wf by (simp add: trackers_wf_def)

theorem commit_candidates_exact_witness:
  "build_commit_candidates list_containers (\<lambda>_. Some 6) [(part0, sample_tracker)] = [(part0, 5)] \<and>
   {4<..5} \<subseteq> set (ss_iter list_containers (ot_completed_offsets sample_tracker))"
proof -
  have c: "build_commit_candidates list_containers (\<lambda>_. Some 6) [(part0, sample_tracker)] = [(part0, 5)]" by code_simp
  moreover have "ot_last_committed_offset sample_tracker = 4" by code_simp
  ultimately show ?thesis
    using commit_candidates_exact[OF lc.tracker_containers_axioms _ demo_trackers_wf, where min_inflight = "\<lambda>_. Some 6"]
    by (simp add: dict_wf_def)
qed

definition demo_answers :: "nat \<Rightarrow> commit_answer" where
  "demo_answers n = (if n = 0 then Refused else Confirmed)"


definition demo_settlement :: "int \<Rightarrow> commit_settlement" where
  "demo_settlement epoch = \<lparr>settle_tp = part0, settle_safe_offset = 6, settle_assignment_epoch = epoch, settle_lease_id = 1,
     settle_success = True, settle_reason = None, settle_latency_seconds = 0\<rparr>"

definition demo_outbox :: coordinator where
  "demo_outbox = coordinator_init\<lparr>cc_in_flight := [(part0, \<lparr>cand_tp = part0, cand_safe_offset = 6,
     cand_assignment_epoch = 0, cand_lease_id = 1, cand_enqueued_at = 0\<rparr>)]\<rparr>"

definition demo_ledger :: settlement_ledger where
  "demo_ledger = \<lparr>sl_dirty_commit_partitions = {part0}, sl_unsettled_completions = [(part0, 3)],
     sl_unsettled_timestamps = [], sl_completions_since_last_commit = 3\<rparr>"

theorem settlement_fenced_witness:
  "dict_get (fst (settle_committed_offsets list_containers demo_outbox [demo_settlement 0] ([(part0, sample_tracker)], demo_ledger))) part0 =
     Some (commit_through list_containers 6 sample_tracker)"
proof -
  have "is_active_lease demo_outbox part0 0 1" by code_simp
  moreover have "ot_epoch sample_tracker = 0" "ot_last_committed_offset sample_tracker = 4" by code_simp+
  ultimately have "accepts_settlement demo_outbox [(part0, sample_tracker)] (demo_settlement 0)"
    by (simp add: accepts_settlement_def demo_settlement_def)
  then show ?thesis
    using settlement_fenced[of "[demo_settlement 0]" list_containers demo_outbox "[(part0, sample_tracker)]" demo_ledger]
    by (simp add: demo_settlement_def)
qed

end
