(* ===== verification/Rebalance_Handover.thy ===== *)
theory Rebalance_Handover
  imports Broker_Commit Work_Properties
begin

text \<open>
  Rebalancing: \<open>broker_rebalance_support.py\<close> builds trackers from what the group has committed, and
  \<open>broker_rebalance_orchestration_support.py\<close> installs them, and on revocation commits what is
  safe and tears the partition's state down.

  The broker is one record of the parts those classes reach through their getters. The trackers
  that the work manager shares with the broker are looked up in the broker's dictionary. The
  bridge that moves a callback onto the event loop is left out: each phase below runs under the
  control lock. Kafka is a parameter twice: the answer to \<open>committed\<close> (\<open>None\<close> is a
  \<open>KafkaException\<close>) and, per offset, whether a revoke commit is accepted. Theorems: the state
  handed over by a revocation is the state the next assignment starts from; a revocation leaves
  nothing of the partitions behind; revoked offsets are committed only up to what is complete.
\<close>

section \<open>Assignment\<close>

definition offset_invalid :: int where
  "offset_invalid = -1001"

definition kafka_tp :: "kafka_partition \<Rightarrow> topic_partition" where
  "kafka_tp p = TopicPartition (kp_topic p) (kp_partition p)"

text \<open>A metadata text that is missing or empty is passed over.\<close>

fun metadata_text :: "string option \<Rightarrow> string option" where
  "metadata_text None = None"
| "metadata_text (Some m) = (if m = [] then None else Some m)"

definition decode_assignment_completed_offsets ::
  "string \<Rightarrow> kafka_partition \<Rightarrow> kafka_partition option \<Rightarrow> int \<Rightarrow> int set" where
  "decode_assignment_completed_offsets strategy part committed_partition last_committed =
     (if strategy \<noteq> ''metadata_snapshot'' then {}
      else
        case (case metadata_text (Option.bind committed_partition kp_metadata) of
                None \<Rightarrow> metadata_text (kp_metadata part) | Some m \<Rightarrow> Some m) of
          None \<Rightarrow> {}
        | Some raw_metadata \<Rightarrow> {offset \<in> decode_metadata raw_metadata. offset > last_committed})"

definition committed_lookup :: "kafka_partition list option \<Rightarrow> (topic_partition, kafka_partition) dict" where
  "committed_lookup answer =
     (case answer of
        None \<Rightarrow> []
      | Some committed_partitions \<Rightarrow>
          fold (\<lambda>p d. if kp_offset p = None then d else dict_set (kafka_tp p) p d) committed_partitions [])"

definition tracker_starting_offset :: "kafka_partition \<Rightarrow> int option \<Rightarrow> int option" where
  "tracker_starting_offset part committed_offset =
     (case committed_offset of
        None \<Rightarrow> kp_offset part
      | Some c \<Rightarrow> if c > offset_invalid then Some c else kp_offset part)"

definition last_committed_of :: "kafka_partition \<Rightarrow> int option \<Rightarrow> int" where
  "last_committed_of part committed_offset =
     (case committed_offset of
        None \<Rightarrow> (case kp_offset part of None \<Rightarrow> -1 | Some off \<Rightarrow> if off > 0 then off - 1 else -1)
      | Some c \<Rightarrow>
          if c \<ge> 0 then c - 1
          else case kp_offset part of None \<Rightarrow> -1 | Some off \<Rightarrow> if off > 0 then off - 1 else -1)"

definition build_tracker ::
  "('s, 'c) container_ops \<Rightarrow> string \<Rightarrow> int \<Rightarrow> (topic_partition, kafka_partition) dict \<Rightarrow> kafka_partition
    \<Rightarrow> py_error + ('s, 'c) offset_tracker" where
  "build_tracker D strategy max_revoke_grace_ms committed_offsets part =
     (let committed_partition = dict_get committed_offsets (kafka_tp part);
          committed_offset = Option.bind committed_partition kp_offset;
          last_committed = last_committed_of part committed_offset;
          initial = decode_assignment_completed_offsets strategy part committed_partition last_committed
      in case tracker_starting_offset part committed_offset of
           None \<Rightarrow> Inl TypeError
         | Some starting_offset \<Rightarrow>
             (case rehydrate_assignment_state D last_committed (Max (insert last_committed initial))
                     (offset_tracker_init D (kafka_tp part) starting_offset max_revoke_grace_ms (Some initial)) of
                Inl e \<Rightarrow> Inl e
              | Inr tracker \<Rightarrow> Inr (increment_epoch tracker)))"

fun build_assignments_loop ::
  "('s, 'c) container_ops \<Rightarrow> string \<Rightarrow> int \<Rightarrow> (topic_partition, kafka_partition) dict \<Rightarrow> kafka_partition list
    \<Rightarrow> ('s, 'c) trackers \<Rightarrow> py_error + ('s, 'c) trackers" where
  "build_assignments_loop D strategy grace committed [] assignments = Inr assignments"
| "build_assignments_loop D strategy grace committed (p # ps) assignments =
     (case build_tracker D strategy grace committed p of
        Inl e \<Rightarrow> Inl e
      | Inr tracker \<Rightarrow> build_assignments_loop D strategy grace committed ps (dict_set (kafka_tp p) tracker assignments))"

definition build_assignments ::
  "('s, 'c) container_ops \<Rightarrow> string \<Rightarrow> int \<Rightarrow> kafka_partition list option \<Rightarrow> kafka_partition list
    \<Rightarrow> py_error + ('s, 'c) trackers" where
  "build_assignments D strategy max_revoke_grace_ms answer partitions =
     build_assignments_loop D strategy max_revoke_grace_ms (committed_lookup answer) partitions []"

record ('k, 'p, 's, 'c, 'e) broker =
  br_completion :: "('s, 'c) completion_state"
  br_ledger :: settlement_ledger
  br_work_manager :: "('k, 'p, 's, 'c, 'e) work_manager"
  br_coordinator :: "coordinator option"

definition assign_sync ::
  "('k, 'p, 's, 'c, 'e) wm_env \<Rightarrow> ('s, 'c) trackers \<Rightarrow> ('k, 'p, 's, 'c, 'e) broker \<Rightarrow> ('k, 'p, 's, 'c, 'e) broker" where
  "assign_sync V assignments b =
     b\<lparr>br_coordinator := map_option (start_accepting_partitions (dict_keys assignments)) (br_coordinator b),
       br_completion := (br_completion b)\<lparr>bs_offset_trackers :=
         fold (\<lambda>(tp, t). dict_set tp t) assignments (bs_offset_trackers (br_completion b))\<rparr>,
       br_work_manager := on_assign V (map (\<lambda>(tp, t). (tp, SharedTracker t)) assignments) (br_work_manager b)\<rparr>"

section \<open>Revocation\<close>

definition revoke_safe_offset ::
  "(topic_partition, commit_candidate) dict \<Rightarrow> topic_partition \<Rightarrow> ('s, 'c) offset_tracker \<Rightarrow> int" where
  "revoke_safe_offset coordinator_candidates tp tracker =
     (case dict_get coordinator_candidates tp of
        None \<Rightarrow> ot_last_committed_offset tracker
      | Some c \<Rightarrow>
          if cand_assignment_epoch c = get_current_epoch tracker
          then max (ot_last_committed_offset tracker) (cand_safe_offset c)
          else ot_last_committed_offset tracker)"

definition prepare_revoke_partition ::
  "('s, 'c) container_ops \<Rightarrow> commit_planner \<Rightarrow> string \<Rightarrow> (topic_partition, commit_candidate) dict \<Rightarrow> kafka_partition
    \<Rightarrow> kafka_partition list \<times> ('s, 'c) completion_state \<Rightarrow> kafka_partition list \<times> ('s, 'c) completion_state" where
  "prepare_revoke_partition D pl strategy candidates p acc =
     (let (offsets, s) = acc; tp = kafka_tp p;
          s1 = s\<lparr>bs_dlq_cache := drop_cached_partition_messages tp (bs_dlq_cache s)\<rparr>
      in case dict_get (bs_offset_trackers s1) tp of
           None \<Rightarrow> (offsets, s1)
         | Some tracker \<Rightarrow>
             let tracker' = advance_high_water_mark D tracker;
                 s2 = s1\<lparr>bs_offset_trackers := dict_set tp tracker' (bs_offset_trackers s1)\<rparr>;
                 safe_offset = revoke_safe_offset candidates tp tracker'
             in if safe_offset < 0 then (offsets, s2)
                else (offsets @ [\<lparr>kp_topic = topic tp, kp_partition = partition tp, kp_offset = Some (safe_offset + 1),
                        kp_metadata = Some (encode_revoke_metadata D pl strategy tracker' (safe_offset + 1))\<rparr>], s2))"

definition prepare_revoke_sync ::
  "('s, 'c) container_ops \<Rightarrow> commit_planner \<Rightarrow> string \<Rightarrow> kafka_partition list \<Rightarrow> ('k, 'p, 's, 'c, 'e) broker
    \<Rightarrow> (topic_partition list \<times> kafka_partition list) \<times> ('k, 'p, 's, 'c, 'e) broker" where
  "prepare_revoke_sync D pl strategy partitions b =
     (let revoked_tps = map kafka_tp partitions;
          candidates = (case br_coordinator b of None \<Rightarrow> [] | Some cc \<Rightarrow> remaining_candidates (Some revoked_tps) cc);
          (offsets, s) = fold (prepare_revoke_partition D pl strategy candidates) partitions ([], br_completion b)
      in ((revoked_tps, offsets),
          b\<lparr>br_coordinator := map_option (stop_accepting_partitions revoked_tps) (br_coordinator b),
            br_work_manager := on_revoke revoked_tps (br_work_manager b),
            br_completion := s\<rparr>))"

definition commit_prepared_revoke_offsets :: "(kafka_partition \<Rightarrow> bool) \<Rightarrow> kafka_partition list \<Rightarrow> topic_partition list" where
  "commit_prepared_revoke_offsets accepted offsets_to_commit =
     map kafka_tp (filter (\<lambda>p. \<not> accepted p) offsets_to_commit)"

definition cleanup_revoked_partition ::
  "topic_partition \<Rightarrow> ('k, 'p, 's, 'c, 'e) broker \<Rightarrow> ('k, 'p, 's, 'c, 'e) broker" where
  "cleanup_revoked_partition tp b =
     b\<lparr>br_completion := (br_completion b)\<lparr>bs_offset_trackers := dict_pop tp (bs_offset_trackers (br_completion b)),
           bs_pending_dlq_events := dict_filter (\<lambda>k. fst k \<noteq> tp) (bs_pending_dlq_events (br_completion b))\<rparr>,
       br_ledger := (br_ledger b)\<lparr>sl_dirty_commit_partitions := sl_dirty_commit_partitions (br_ledger b) - {tp},
           sl_unsettled_completions := dict_pop tp (sl_unsettled_completions (br_ledger b)),
           sl_unsettled_timestamps := dict_pop tp (sl_unsettled_timestamps (br_ledger b))\<rparr>\<rparr>"

definition cleanup_revoke_sync ::
  "topic_partition list \<Rightarrow> ('k, 'p, 's, 'c, 'e) broker \<Rightarrow> ('k, 'p, 's, 'c, 'e) broker" where
  "cleanup_revoke_sync revoked_tps b = fold cleanup_revoked_partition revoked_tps b"

text \<open>The whole revoke callback: prepare, commit, clean up; the result is the offsets sent and the failed partitions.\<close>

definition handle_revoke_callback ::
  "('s, 'c) container_ops \<Rightarrow> commit_planner \<Rightarrow> string \<Rightarrow> (kafka_partition \<Rightarrow> bool) \<Rightarrow> kafka_partition list
    \<Rightarrow> ('k, 'p, 's, 'c, 'e) broker
    \<Rightarrow> (kafka_partition list \<times> topic_partition list) \<times> ('k, 'p, 's, 'c, 'e) broker" where
  "handle_revoke_callback D pl strategy accepted partitions b =
     (let ((revoked_tps, offsets), b1) = prepare_revoke_sync D pl strategy partitions b
      in ((offsets, commit_prepared_revoke_offsets accepted offsets), cleanup_revoke_sync revoked_tps b1))"

section \<open>What is sent\<close>

text \<open>The record a partition with tracker \<open>t\<close> is committed with, if any.\<close>

definition revoke_record ::
  "('s, 'c) container_ops \<Rightarrow> commit_planner \<Rightarrow> string \<Rightarrow> (topic_partition, commit_candidate) dict \<Rightarrow> topic_partition
    \<Rightarrow> ('s, 'c) offset_tracker \<Rightarrow> kafka_partition list" where
  "revoke_record D pl strategy candidates tp t =
     (let t' = advance_high_water_mark D t; safe = revoke_safe_offset candidates tp t'
      in if safe < 0 then []
         else [\<lparr>kp_topic = topic tp, kp_partition = partition tp, kp_offset = Some (safe + 1),
                kp_metadata = Some (encode_revoke_metadata D pl strategy t' (safe + 1))\<rparr>])"

lemma prepare_partition_eq:
  "fst (prepare_revoke_partition D pl strategy cands p (offs, s)) =
     offs @ (case dict_get (bs_offset_trackers s) (kafka_tp p) of
               None \<Rightarrow> [] | Some t \<Rightarrow> revoke_record D pl strategy cands (kafka_tp p) t)"
  "dict_get (bs_offset_trackers (snd (prepare_revoke_partition D pl strategy cands p (offs, s)))) tp =
     (if tp = kafka_tp p then map_option (advance_high_water_mark D) (dict_get (bs_offset_trackers s) tp)
      else dict_get (bs_offset_trackers s) tp)"
  by (simp_all add: prepare_revoke_partition_def revoke_record_def Let_def dict_simps split: option.split)

definition partition_records ::
  "('s, 'c) container_ops \<Rightarrow> commit_planner \<Rightarrow> string \<Rightarrow> (topic_partition, commit_candidate) dict
    \<Rightarrow> ('s, 'c) completion_state \<Rightarrow> kafka_partition \<Rightarrow> kafka_partition list" where
  "partition_records D pl strategy cands s p =
     (case dict_get (bs_offset_trackers s) (kafka_tp p) of
        None \<Rightarrow> [] | Some t \<Rightarrow> revoke_record D pl strategy cands (kafka_tp p) t)"

lemma prepare_fold:
  "distinct (map kafka_tp ps) \<Longrightarrow>
     fst (fold (prepare_revoke_partition D pl strategy cands) ps (offs, s)) =
       offs @ concat (map (partition_records D pl strategy cands s) ps)"
proof (induction ps arbitrary: offs s)
  case (Cons p ps)
  obtain offs1 s1 where 1: "prepare_revoke_partition D pl strategy cands p (offs, s) = (offs1, s1)" by force
  have "partition_records D pl strategy cands s1 q = partition_records D pl strategy cands s q" if "q \<in> set ps" for q
  proof -
    have "kafka_tp q \<noteq> kafka_tp p" using imageI[OF that, of kafka_tp] Cons.prems by auto
    then show ?thesis using prepare_partition_eq(2)[of D pl strategy cands p offs s "kafka_tp q"]
      by (simp add: 1 partition_records_def)
  qed
  then have "concat (map (partition_records D pl strategy cands s1) ps) = concat (map (partition_records D pl strategy cands s) ps)"
    by (intro arg_cong[of _ _ concat] map_cong) auto
  moreover have "offs1 = offs @ partition_records D pl strategy cands s p"
    using prepare_partition_eq(1)[of D pl strategy cands p offs s] by (simp add: 1 partition_records_def)
  ultimately show ?case using Cons.IH[of offs1 s1] Cons.prems by (simp add: 1)
qed simp

definition revoke_candidates ::
  "topic_partition list \<Rightarrow> ('k, 'p, 's, 'c, 'e) broker \<Rightarrow> (topic_partition, commit_candidate) dict" where
  "revoke_candidates revoked_tps b =
     (case br_coordinator b of None \<Rightarrow> [] | Some cc \<Rightarrow> remaining_candidates (Some revoked_tps) cc)"

lemma sent_records:
  assumes "distinct (map kafka_tp ps)"
  shows "fst (fst (handle_revoke_callback D pl strategy accepted ps b)) =
    concat (map (partition_records D pl strategy (revoke_candidates (map kafka_tp ps) b) (br_completion b)) ps)"
  using prepare_fold[OF assms, of D pl strategy "revoke_candidates (map kafka_tp ps) b" "[]" "br_completion b"]
  by (simp add: handle_revoke_callback_def prepare_revoke_sync_def Let_def split_beta revoke_candidates_def)

lemma revoke_sends:
  assumes "distinct (map kafka_tp ps)" "r \<in> set (fst (fst (handle_revoke_callback D pl strategy accepted ps b)))"
  shows "\<exists>t. dict_get (bs_offset_trackers (br_completion b)) (kafka_tp r) = Some t \<and> kafka_tp r \<in> kafka_tp ` set ps \<and>
    0 \<le> revoke_safe_offset (revoke_candidates (map kafka_tp ps) b) (kafka_tp r) (advance_high_water_mark D t) \<and>
    kp_offset r = Some (revoke_safe_offset (revoke_candidates (map kafka_tp ps) b) (kafka_tp r) (advance_high_water_mark D t) + 1) \<and>
    kp_metadata r = Some (encode_revoke_metadata D pl strategy (advance_high_water_mark D t)
      (revoke_safe_offset (revoke_candidates (map kafka_tp ps) b) (kafka_tp r) (advance_high_water_mark D t) + 1))"
proof -
  let ?c = "revoke_candidates (map kafka_tp ps) b"
  have "r \<in> set (concat (map (partition_records D pl strategy ?c (br_completion b)) ps))"
    using assms(2) by (simp add: sent_records[OF assms(1)])
  then obtain p where p0: "p \<in> set ps" "r \<in> set (partition_records D pl strategy ?c (br_completion b) p)" by auto
  then obtain t where p: "dict_get (bs_offset_trackers (br_completion b)) (kafka_tp p) = Some t"
      "r \<in> set (revoke_record D pl strategy ?c (kafka_tp p) t)"
    by (cases "dict_get (bs_offset_trackers (br_completion b)) (kafka_tp p)") (simp_all add: partition_records_def)
  then have "kafka_tp r = kafka_tp p" by (auto simp: revoke_record_def Let_def kafka_tp_def split: if_splits)
  then show ?thesis using p p0(1) by (auto simp: revoke_record_def Let_def split: if_splits)
qed

section \<open>What is restored\<close>

lemma build_tracker_epoch: "build_tracker D strategy grace committed p = Inr t \<Longrightarrow> ot_epoch t = 1"
  by (auto simp: build_tracker_def Let_def increment_epoch_def rehydrate_assignment_state_def bump_version_def
      offset_tracker_init_def split: option.splits sum.splits if_splits)

lemma build_loop_get:
  "build_assignments_loop D strategy grace committed ps acc = Inr assignments \<Longrightarrow>
     dict_get assignments tp = Some t \<Longrightarrow>
     dict_get acc tp = Some t \<or> (\<exists>p\<in>set ps. kafka_tp p = tp \<and> build_tracker D strategy grace committed p = Inr t)"
proof (induction ps arbitrary: acc)
  case (Cons p ps)
  then show ?case by (fastforce simp: dict_simps split: sum.splits if_splits)
qed simp

lemma assigned_tracker:
  "build_assignments D strategy grace answer ps = Inr assignments \<Longrightarrow> dict_get assignments tp = Some t \<Longrightarrow>
     \<exists>p\<in>set ps. kafka_tp p = tp \<and> build_tracker D strategy grace (committed_lookup answer) p = Inr t"
  using build_loop_get unfolding build_assignments_def by fastforce

lemma build_loop_total:
  "\<forall>p\<in>set ps. \<exists>t. build_tracker D strategy grace committed p = Inr t \<Longrightarrow>
     \<exists>a. build_assignments_loop D strategy grace committed ps acc = Inr a \<and>
       fst ` set a = fst ` set acc \<union> kafka_tp ` set ps"
proof (induction ps arbitrary: acc)
  case (Cons p ps)
  then obtain t where t: "build_tracker D strategy grace committed p = Inr t" by auto
  moreover obtain a where "build_assignments_loop D strategy grace committed ps (dict_set (kafka_tp p) t acc) = Inr a"
    "fst ` set a = fst ` set (dict_set (kafka_tp p) t acc) \<union> kafka_tp ` set ps"
    using Cons.IH[of "dict_set (kafka_tp p) t acc"] Cons.prems by auto
  ultimately show ?case by (simp add: dom_update)
qed simp

definition completed_set :: "('s, 'c) container_ops \<Rightarrow> ('s, 'c) offset_tracker \<Rightarrow> int set" where
  "completed_set D t = set (ss_iter D (ot_completed_offsets t))"

text \<open>
  What the record \<open>r\<close> hands from the tracker \<open>t\<close> to the tracker \<open>t'\<close>: its position, and of the
  completed offsets above it the lowest ones, as many as a snapshot may list, unless they did
  not fit.
\<close>

definition handed_over ::
  "('s, 'c) container_ops \<Rightarrow> commit_planner \<Rightarrow> ('s, 'c) offset_tracker \<Rightarrow> kafka_partition \<Rightarrow> ('s, 'c) offset_tracker \<Rightarrow> bool" where
  "handed_over D pl t r t' \<longleftrightarrow>
     tracker_wf D t' \<and> kp_offset r = Some (ot_last_committed_offset t' + 1) \<and>
     (\<forall>x\<in>completed_set D t'. x \<in> completed_set D t \<and> is_completed_uncommitted D x t') \<and>
     (kp_metadata r \<noteq> Some ''O'' \<longrightarrow>
        completed_set D t' = set (take (pl_max_completed_offsets pl)
          (sorted_list_of_set {x \<in> completed_set D t. ot_last_committed_offset t' < x})))"

context tracker_containers
begin

lemma build_tracker_restores:
  assumes c: "dict_get committed (kafka_tp p) = Some c" "kp_offset c = Some n" "0 < n"
    and fin: "finite (decode_assignment_completed_offsets strategy p (Some c) (n - 1))"
  shows "\<exists>t. build_tracker D strategy grace committed p = Inr t \<and> ot_last_committed_offset t = n - 1 \<and>
    completed_set D t = decode_assignment_completed_offsets strategy p (Some c) (n - 1) \<and>
    (\<forall>x\<in>completed_set D t. is_completed_uncommitted D x t) \<and> tracker_wf D t"
proof -
  define A where "A = decode_assignment_completed_offsets strategy p (Some c) (n - 1)"
  have A: "finite A" using fin by (simp add: A_def)
  have above: "\<forall>x\<in>A. n - 1 < x"
    by (auto simp: A_def decode_assignment_completed_offsets_def split: option.splits if_splits)
  have lc: "last_committed_of p (Some n) = n - 1" using c(3) by (simp add: last_committed_of_def)
  have so: "tracker_starting_offset p (Some n) = Some n" using c(3) by (simp add: tracker_starting_offset_def offset_invalid_def)
  define f where "f = Max (insert (n - 1) A)"
  have f: "n - 1 \<le> f" "\<forall>x\<in>A. x \<le> f" using A by (simp_all add: f_def)
  define t0 where "t0 = bump_version D ((offset_tracker_init D (kafka_tp p) n grace (Some A))
      \<lparr>ot_last_committed_offset := n - 1, ot_last_fetched_offset := f\<rparr>)"
  have eq: "build_tracker D strategy grace committed p = Inr (increment_epoch t0)"
    using f(1) by (simp add: build_tracker_def Let_def c(1,2) lc so A_def[symmetric] f_def[symmetric] t0_def
        rehydrate_assignment_state_def)
  have iter: "set (ss_iter D (ot_completed_offsets t0)) = A"
    using A by (simp add: t0_def offset_tracker_init_def iter_new)
  have com: "ot_last_committed_offset t0 = n - 1" "ot_last_fetched_offset t0 = f" by (simp_all add: t0_def)
  have wf: "tracker_wf D t0"
    unfolding t0_def using iter above by (intro tracker_wf_bump) (simp add: t0_def)
  show ?thesis
    unfolding eq completed_set_def A_def[symmetric] using wf_increment_epoch[OF wf] iter com above f(2)
    by (simp add: increment_epoch_def is_completed_uncommitted_def contains_iff)
qed

lemma advance_ledger:
  assumes "tracker_wf D t"
  defines "h \<equiv> get_committable_high_water_mark D None t" and "a \<equiv> advance_high_water_mark D t"
  shows "ot_last_committed_offset a = h" "completed_set D a = {x \<in> completed_set D t. h < x}"
proof -
  have led: "tracker_ledger D a = ledger_commit h (tracker_ledger D t)"
    unfolding a_def advance_high_water_mark_def h_def by (rule ledger_commit_through[OF assms(1)])
  have "ot_last_committed_offset t \<le> h" unfolding h_def by (rule committable_None_spec(1)[OF assms(1)])
  moreover have "\<forall>x\<in>completed_set D t. ot_last_committed_offset t < x"
    using assms(1) by (simp add: tracker_wf_def completed_set_def)
  ultimately show "ot_last_committed_offset a = h" "completed_set D a = {x \<in> completed_set D t. h < x}"
    using arg_cong[OF led, of led_committed] arg_cong[OF led, of led_done]
    by (auto simp: tracker_ledger_def ledger_commit_def completed_set_def split: if_splits)
qed

lemma commit_metadata_set:
  "get_commit_metadata_offsets D pl t base =
     set (take (pl_max_completed_offsets pl) (sorted_list_of_set {x \<in> completed_set D t. base \<le> x}))"
proof -
  have "ss_irange D (Some base) None (ot_completed_offsets t) =
      filter (\<lambda>x. base \<le> x) (ss_iter D (ot_completed_offsets t))"
    by (simp add: irange_eq irange_keeps_def cong: filter_cong)
  also have "\<dots> = sorted_list_of_set {x \<in> completed_set D t. base \<le> x}"
    by (rule sorted_distinct_set_unique)
      (simp_all add: completed_set_def iter_distinct iter_sorted sorted_filter[where f = id, simplified] list.map_id0 id_def)
  finally show ?thesis by (simp add: get_commit_metadata_offsets_def)
qed

lemma handover_one:
  assumes wf: "tracker_wf D t"
    and r: "0 \<le> safe" "ot_last_committed_offset (advance_high_water_mark D t) \<le> safe" "kp_offset r = Some (safe + 1)"
      "kp_metadata r = Some (encode_revoke_metadata D pl ''metadata_snapshot'' (advance_high_water_mark D t) (safe + 1))"
    and c: "dict_get committed (kafka_tp p) = Some r"
  shows "\<exists>t'. build_tracker D ''metadata_snapshot'' grace committed p = Inr t' \<and> handed_over D pl t r t'"
proof -
  let ?S = "get_commit_metadata_offsets D pl (advance_high_water_mark D t) (safe + 1)"
  have S: "?S = set (take (pl_max_completed_offsets pl) (sorted_list_of_set {x \<in> completed_set D t. safe < x}))"
  proof -
    have "{x \<in> completed_set D (advance_high_water_mark D t). safe + 1 \<le> x} = {x \<in> completed_set D t. safe < x}"
      unfolding advance_ledger(2)[OF wf] using r(2)[unfolded advance_ledger(1)[OF wf]] by auto
    then show ?thesis by (simp add: commit_metadata_set)
  qed
  have fin: "finite {x \<in> completed_set D t. safe < x}" by (simp add: completed_set_def)
  then have sub: "?S \<subseteq> {x \<in> completed_set D t. safe < x}" unfolding S using set_take_subset by fastforce
  define m where "m = encode_metadata (pl_max_metadata_size pl) ?S (safe + 1)"
  have m: "kp_metadata r = Some m" using r(4) by (simp add: encode_revoke_metadata_def m_def)
  have "m \<noteq> []"
    unfolding m_def by (rule encode_metadata_cases[of "pl_max_metadata_size pl" ?S "safe + 1"]) simp_all
  note m = m \<open>m \<noteq> []\<close>
  have dec: "decode_metadata m = (if m = ''O'' then {} else ?S)"
    unfolding m_def using sub r(1) by (intro decode_encode_metadata) (auto simp: get_commit_metadata_offsets_def)
  have D: "decode_assignment_completed_offsets ''metadata_snapshot'' p (Some r) safe = (if m = ''O'' then {} else ?S)"
    using sub by (auto simp: decode_assignment_completed_offsets_def m dec)
  have "finite (decode_assignment_completed_offsets ''metadata_snapshot'' p (Some r) (safe + 1 - 1))"
    by (simp add: D get_commit_metadata_offsets_def)
  from build_tracker_restores[OF c r(3) _ this, of grace] r(1)
  obtain t' where t': "build_tracker D ''metadata_snapshot'' grace committed p = Inr t'"
    "ot_last_committed_offset t' = safe" "completed_set D t' = (if m = ''O'' then {} else ?S)"
    "\<forall>x\<in>completed_set D t'. is_completed_uncommitted D x t'" "tracker_wf D t'"
    by (auto simp: D)
  have "handed_over D pl t r t'"
    unfolding handed_over_def using t'(2-5) sub r(3) S by (auto simp: m split: if_splits)
  with t'(1) show ?thesis by blast
qed

end

section \<open>The teardown\<close>

lemma cleanup_fold:
  "dict_get (bs_offset_trackers (br_completion (cleanup_revoke_sync tps b))) tp =
     (if tp \<in> set tps then None else dict_get (bs_offset_trackers (br_completion b)) tp) \<and>
   dict_get (bs_pending_dlq_events (br_completion (cleanup_revoke_sync tps b))) k =
     (if fst k \<in> set tps then None else dict_get (bs_pending_dlq_events (br_completion b)) k) \<and>
   bs_dlq_cache (br_completion (cleanup_revoke_sync tps b)) = bs_dlq_cache (br_completion b) \<and>
   sl_dirty_commit_partitions (br_ledger (cleanup_revoke_sync tps b)) = sl_dirty_commit_partitions (br_ledger b) - set tps \<and>
   dict_get (sl_unsettled_completions (br_ledger (cleanup_revoke_sync tps b))) tp =
     (if tp \<in> set tps then None else dict_get (sl_unsettled_completions (br_ledger b)) tp) \<and>
   dict_get (sl_unsettled_timestamps (br_ledger (cleanup_revoke_sync tps b))) tp =
     (if tp \<in> set tps then None else dict_get (sl_unsettled_timestamps (br_ledger b)) tp) \<and>
   br_coordinator (cleanup_revoke_sync tps b) = br_coordinator b \<and>
   br_work_manager (cleanup_revoke_sync tps b) = br_work_manager b"
  unfolding cleanup_revoke_sync_def
  by (induction tps arbitrary: b) (auto simp: cleanup_revoked_partition_def dict_simps)

lemma prepare_fold_state:
  assumes "cache_ok cfg (bs_dlq_cache s)"
  shows "cache_ok cfg (bs_dlq_cache (snd (fold (prepare_revoke_partition D pl strategy cands) ps (offs, s)))) \<and>
    dc_message_cache (bs_dlq_cache (snd (fold (prepare_revoke_partition D pl strategy cands) ps (offs, s)))) =
      filter (\<lambda>(k, m). fst k \<notin> kafka_tp ` set ps) (dc_message_cache (bs_dlq_cache s)) \<and>
    bs_pending_dlq_events (snd (fold (prepare_revoke_partition D pl strategy cands) ps (offs, s))) = bs_pending_dlq_events s \<and>
    (tp \<notin> kafka_tp ` set ps \<longrightarrow>
      dict_get (bs_offset_trackers (snd (fold (prepare_revoke_partition D pl strategy cands) ps (offs, s)))) tp =
      dict_get (bs_offset_trackers s) tp)"
  using assms
proof (induction ps arbitrary: offs s)
  case Nil
  then show ?case by (simp add: filter_id_conv split_beta)
next
  case (Cons p ps)
  obtain offs1 s1 where 1: "prepare_revoke_partition D pl strategy cands p (offs, s) = (offs1, s1)" by force
  have c: "bs_dlq_cache s1 = drop_cached_partition_messages (kafka_tp p) (bs_dlq_cache s)"
      "bs_pending_dlq_events s1 = bs_pending_dlq_events s"
    using 1 by (auto simp: prepare_revoke_partition_def Let_def split: option.splits if_splits)
  have "cache_ok cfg (bs_dlq_cache s1)" unfolding c(1) by (rule drop_spec(2)[OF Cons.prems])
  note IH = Cons.IH[OF this, of offs1]
  have "filter (\<lambda>(k, m). fst k \<notin> kafka_tp ` set ps) (dc_message_cache (bs_dlq_cache s1)) =
      filter (\<lambda>(k, m). fst k \<notin> kafka_tp ` set (p # ps)) (dc_message_cache (bs_dlq_cache s))"
    unfolding c(1) drop_spec(1)[OF Cons.prems] filter_filter by (rule filter_cong) auto
  then show ?case
    using IH prepare_partition_eq(2)[of D pl strategy cands p offs s tp] by (simp add: 1 c(2))
qed

lemma stop_partitions_get:
  "dict_get (cc_pending (stop_accepting_partitions tps cc)) tp = (if tp \<in> set tps then None else dict_get (cc_pending cc) tp)"
  "cc_stopped_partitions (stop_accepting_partitions tps cc) = cc_stopped_partitions cc \<union> set tps"
proof -
  let ?f = "\<lambda>tp s. pop_pending tp (s\<lparr>cc_stopped_partitions := insert tp (cc_stopped_partitions s)\<rparr>)"
  have "dict_get (cc_pending (fold ?f tps cc)) tp = (if tp \<in> set tps then None else dict_get (cc_pending cc) tp) \<and>
      cc_stopped_partitions (fold ?f tps cc) = cc_stopped_partitions cc \<union> set tps"
    by (induction tps arbitrary: cc) (auto simp: pop_pending_def cancel_lease_def dict_simps split: option.splits)
  then show "dict_get (cc_pending (stop_accepting_partitions tps cc)) tp = (if tp \<in> set tps then None else dict_get (cc_pending cc) tp)"
      "cc_stopped_partitions (stop_accepting_partitions tps cc) = cc_stopped_partitions cc \<union> set tps"
    by (simp_all add: stop_accepting_partitions_def prune_cancelled_leases_def)
qed

section \<open>Properties\<close>

text \<open>
  C25. A handover loses no position and invents no completion. When one consumer revokes its
  partitions and Kafka answers the next owner with what was committed, every partition assigned
  to it gets a well formed tracker that starts right behind the position sent, holds only
  offsets the old owner had completed, and, unless the snapshot overflowed its size limit, all
  of them up to the snapshot's length, the lowest first.
\<close>

theorem handover_restores:
  assumes "tracker_containers D" and "trackers_wf D (bs_offset_trackers (br_completion b))"
    and "distinct (map kafka_tp ps)"
    and "sent = fst (fst (handle_revoke_callback D pl ''metadata_snapshot'' accepted ps b))"
    and "\<forall>p\<in>set new. \<exists>r\<in>set sent. dict_get (committed_lookup answer) (kafka_tp p) = Some r \<and> kafka_tp r = kafka_tp p"
  shows "\<exists>assignments. build_assignments D ''metadata_snapshot'' grace answer new = Inr assignments \<and>
    fst ` set assignments = kafka_tp ` set new \<and>
    (\<forall>tp t'. dict_get assignments tp = Some t' \<longrightarrow>
      (\<exists>t r. r \<in> set sent \<and> kafka_tp r = tp \<and>
        dict_get (bs_offset_trackers (br_completion b)) tp = Some t \<and> handed_over D pl t r t'))"
proof -
  have one: "\<exists>t t' r. r \<in> set sent \<and> kafka_tp r = kafka_tp p \<and>
      dict_get (bs_offset_trackers (br_completion b)) (kafka_tp p) = Some t \<and>
      build_tracker D ''metadata_snapshot'' grace (committed_lookup answer) p = Inr t' \<and> handed_over D pl t r t'"
    if p: "p \<in> set new" for p
  proof -
    obtain r where r: "r \<in> set sent" "dict_get (committed_lookup answer) (kafka_tp p) = Some r" "kafka_tp r = kafka_tp p"
      using assms(5) p by auto
    obtain t where t: "dict_get (bs_offset_trackers (br_completion b)) (kafka_tp r) = Some t"
      and sends: "0 \<le> revoke_safe_offset (revoke_candidates (map kafka_tp ps) b) (kafka_tp r) (advance_high_water_mark D t)"
        "kp_offset r = Some (revoke_safe_offset (revoke_candidates (map kafka_tp ps) b) (kafka_tp r) (advance_high_water_mark D t) + 1)"
        "kp_metadata r = Some (encode_revoke_metadata D pl ''metadata_snapshot'' (advance_high_water_mark D t)
          (revoke_safe_offset (revoke_candidates (map kafka_tp ps) b) (kafka_tp r) (advance_high_water_mark D t) + 1))"
      using revoke_sends[OF assms(3) r(1)[unfolded assms(4)]] by blast
    have "ot_last_committed_offset (advance_high_water_mark D t) \<le>
        revoke_safe_offset (revoke_candidates (map kafka_tp ps) b) (kafka_tp r) (advance_high_water_mark D t)"
      by (simp add: revoke_safe_offset_def split: option.split)
    from tracker_containers.handover_one[OF assms(1) trackers_wfD[OF assms(2) t] sends(1) this sends(2,3) r(2), of grace]
    show ?thesis using r t by auto
  qed
  obtain a where a: "build_assignments D ''metadata_snapshot'' grace answer new = Inr a" "fst ` set a = kafka_tp ` set new"
    using build_loop_total[of new D "''metadata_snapshot''" grace "committed_lookup answer" "[]"] one
    unfolding build_assignments_def by fastforce
  show ?thesis
  proof (intro exI[of _ a] conjI allI impI)
    fix tp t' assume "dict_get a tp = Some t'"
    with assigned_tracker[OF a(1)] obtain p where
      "p \<in> set new" "kafka_tp p = tp" "build_tracker D ''metadata_snapshot'' grace (committed_lookup answer) p = Inr t'" by blast
    then show "\<exists>t r. r \<in> set sent \<and> kafka_tp r = tp \<and>
        dict_get (bs_offset_trackers (br_completion b)) tp = Some t \<and> handed_over D pl t r t'"
      using one[of p] by auto
  qed (use a in simp_all)
qed

text \<open>
  A revocation commits exactly the completed run. If the candidates the coordinator still
  holds for a partition's current epoch lie within what its tracker has completed, the positions
  sent are, for each revoked partition with a tracker, one behind the end of the contiguous run
  of completed offsets, and nothing is sent where that end is negative.
\<close>

theorem revoke_commits_completed:
  assumes "tracker_containers D" and "trackers_wf D (bs_offset_trackers (br_completion b))"
    and "distinct (map kafka_tp ps)"
    and "\<forall>tp t c. dict_get (bs_offset_trackers (br_completion b)) tp = Some t \<and>
      dict_get (revoke_candidates (map kafka_tp ps) b) tp = Some c \<and> cand_assignment_epoch c = ot_epoch t \<longrightarrow>
      {ot_last_committed_offset t<..cand_safe_offset c} \<subseteq> completed_set D t"
  shows "(\<lambda>r. (kafka_tp r, kp_offset r)) ` set (fst (fst (handle_revoke_callback D pl strategy accepted ps b))) =
    {(tp, Some (h + 1)) |tp t h. tp \<in> kafka_tp ` set ps \<and>
       dict_get (bs_offset_trackers (br_completion b)) tp = Some t \<and>
       h = get_committable_high_water_mark D None t \<and> 0 \<le> h}"
proof -
  let ?c = "revoke_candidates (map kafka_tp ps) b"
  have safe: "revoke_safe_offset ?c tp (advance_high_water_mark D t) = get_committable_high_water_mark D None t"
    if t: "dict_get (bs_offset_trackers (br_completion b)) tp = Some t" for tp t
  proof -
    note wf = trackers_wfD[OF assms(2) t]
    note h = tracker_containers.committable_None_spec[OF assms(1) wf]
    have adv: "ot_last_committed_offset (advance_high_water_mark D t) = get_committable_high_water_mark D None t"
      by (rule tracker_containers.advance_ledger(1)[OF assms(1) wf])
    have ep: "get_current_epoch (advance_high_water_mark D t) = ot_epoch t"
      by (simp add: get_current_epoch_def advance_high_water_mark_def commit_through_def)
    have "cand_safe_offset c \<le> get_committable_high_water_mark D None t"
      if "dict_get ?c tp = Some c" "cand_assignment_epoch c = ot_epoch t" for c
    proof (rule ccontr)
      assume "\<not> cand_safe_offset c \<le> get_committable_high_water_mark D None t"
      then have "get_committable_high_water_mark D None t + 1 \<in> {ot_last_committed_offset t<..cand_safe_offset c}"
        using h(1) by simp
      moreover have "{ot_last_committed_offset t<..cand_safe_offset c} \<subseteq> completed_set D t" using assms(4) t that by blast
      ultimately have "get_committable_high_water_mark D None t + 1 \<in> completed_set D t" by (rule rev_subsetD)
      then show False using h(3) by (simp add: tracker_ledger_def completed_set_def)
    qed
    then show ?thesis by (auto simp: revoke_safe_offset_def adv ep split: option.split)
  qed
  have one: "(\<lambda>r. (kafka_tp r, kp_offset r)) ` set (partition_records D pl strategy ?c (br_completion b) p) =
      {(tp, Some (h + 1)) |tp t h. tp = kafka_tp p \<and> dict_get (bs_offset_trackers (br_completion b)) tp = Some t \<and>
         h = get_committable_high_water_mark D None t \<and> 0 \<le> h}" for p
    by (cases "dict_get (bs_offset_trackers (br_completion b)) (kafka_tp p)")
      (auto simp: partition_records_def revoke_record_def safe Let_def, simp_all add: kafka_tp_def)
  show ?thesis
    unfolding sent_records[OF assms(3)] set_concat set_map image_UN image_image one by auto
qed

text \<open>
  A revocation leaves nothing of the revoked partitions behind and touches nothing else:
  trackers, failures waiting for the dead letter queue, cached messages, unsettled completions
  and timestamps, dirty marks and waiting commits of the revoked partitions are gone, those of
  the others are unchanged; the coordinator refuses new commits for the revoked partitions; the
  partitions reported as failed are those whose commit Kafka refused.
\<close>

theorem revoke_clears_broker:
  assumes "cache_ok cfg (bs_dlq_cache (br_completion b))"
    and "((sent, failed), b') = handle_revoke_callback D pl strategy accepted ps b"
  defines "gone \<equiv> kafka_tp ` set ps"
  shows "(\<forall>tp. dict_get (bs_offset_trackers (br_completion b')) tp =
        (if tp \<in> gone then None else dict_get (bs_offset_trackers (br_completion b)) tp)) \<and>
    (\<forall>k. dict_get (bs_pending_dlq_events (br_completion b')) k =
        (if fst k \<in> gone then None else dict_get (bs_pending_dlq_events (br_completion b)) k)) \<and>
    dc_message_cache (bs_dlq_cache (br_completion b')) =
        filter (\<lambda>(k, m). fst k \<notin> gone) (dc_message_cache (bs_dlq_cache (br_completion b))) \<and>
    sl_dirty_commit_partitions (br_ledger b') = sl_dirty_commit_partitions (br_ledger b) - gone \<and>
    (\<forall>tp. dict_get (sl_unsettled_completions (br_ledger b')) tp =
        (if tp \<in> gone then None else dict_get (sl_unsettled_completions (br_ledger b)) tp)) \<and>
    (\<forall>tp. dict_get (sl_unsettled_timestamps (br_ledger b')) tp =
        (if tp \<in> gone then None else dict_get (sl_unsettled_timestamps (br_ledger b)) tp)) \<and>
    (\<forall>cc. br_coordinator b = Some cc \<longrightarrow> (\<exists>cc'. br_coordinator b' = Some cc' \<and>
        gone \<subseteq> cc_stopped_partitions cc' \<and>
        (\<forall>tp. dict_get (cc_pending cc') tp = (if tp \<in> gone then None else dict_get (cc_pending cc) tp)))) \<and>
    br_work_manager b' = on_revoke (map kafka_tp ps) (br_work_manager b) \<and>
    failed = map kafka_tp (filter (\<lambda>r. \<not> accepted r) sent)"
proof -
  let ?tps = "map kafka_tp ps"
  obtain offs s where p: "fold (prepare_revoke_partition D pl strategy (revoke_candidates ?tps b)) ps ([], br_completion b) = (offs, s)"
    by force
  define b1 where "b1 = b\<lparr>br_coordinator := map_option (stop_accepting_partitions ?tps) (br_coordinator b),
      br_work_manager := on_revoke ?tps (br_work_manager b), br_completion := s\<rparr>"
  have r: "sent = offs" "failed = commit_prepared_revoke_offsets accepted offs" "b' = cleanup_revoke_sync ?tps b1"
    using assms(2) p by (simp_all add: handle_revoke_callback_def prepare_revoke_sync_def Let_def
        revoke_candidates_def[symmetric] b1_def)
  note P = prepare_fold_state[OF assms(1), of D pl strategy "revoke_candidates ?tps b" ps "[]", unfolded p, simplified]
  have g: "set ?tps = gone" by (simp add: gone_def)
  show ?thesis
    using P cleanup_fold[of ?tps b1] stop_partitions_get[of ?tps] unfolding r g gone_def[symmetric]
    by (auto simp: b1_def commit_prepared_revoke_offsets_def)
qed

section \<open>A concrete handover\<close>

text \<open>One partition, committed through 4, with 5, 6 and 8 completed: 7 is sent, with 8 in the snapshot.\<close>

definition demo_broker :: "(nat, nat, int list, (gap_key \<times> offset_range list) option, (nat, nat) work_item list) broker" where
  "demo_broker = \<lparr>br_completion = \<lparr>bs_offset_trackers = [(part0, sample_tracker)],
       bs_dlq_cache = \<lparr>dc_message_cache = [], dc_size_bytes = 0\<rparr>, bs_pending_dlq_events = []\<rparr>,
     br_ledger = demo_ledger, br_work_manager = demo_initial KEY_HASH, br_coordinator = Some demo_outbox\<rparr>"

definition demo_partition :: kafka_partition where
  "demo_partition = \<lparr>kp_topic = ''t'', kp_partition = 0, kp_offset = None, kp_metadata = None\<rparr>"

definition demo_planner :: commit_planner where
  "demo_planner = \<lparr>pl_max_metadata_size = 2048, pl_max_completed_offsets = 100\<rparr>"

definition demo_sent :: kafka_partition where
  "demo_sent = \<lparr>kp_topic = ''t'', kp_partition = 0, kp_offset = Some 7, kp_metadata = Some ''R8''\<rparr>"

lemma demo_tp_part0: "kafka_tp demo_partition = part0" "kafka_tp demo_sent = part0"
  by code_simp+

lemma demo_candidates:
  "revoke_candidates [part0] demo_broker = [(part0, \<lparr>cand_tp = part0, cand_safe_offset = 6,
     cand_assignment_epoch = 0, cand_lease_id = 1, cand_enqueued_at = 0\<rparr>)]"
  by (simp add: revoke_candidates_def demo_broker_def demo_outbox_def coordinator_init_def remaining_candidates_def
      dict_values_def keep_furthest_def dict_filter_def)

lemma demo_broker_fields:
  "bs_offset_trackers (br_completion demo_broker) = [(part0, sample_tracker)]"
  "cache_ok cfg (bs_dlq_cache (br_completion demo_broker)) \<longleftrightarrow> True"
  by (auto simp: demo_broker_def cache_ok_def)

lemma demo_revoke_sends:
  "fst (fst (handle_revoke_callback list_containers demo_planner ''metadata_snapshot'' (\<lambda>r. True) [demo_partition] demo_broker)) =
     [demo_sent]"
proof -
  have "revoke_safe_offset [(part0, \<lparr>cand_tp = part0, cand_safe_offset = 6,
     cand_assignment_epoch = 0, cand_lease_id = 1, cand_enqueued_at = 0\<rparr>)] part0 (advance_high_water_mark list_containers sample_tracker) = 6"
    "encode_revoke_metadata list_containers demo_planner ''metadata_snapshot'' (advance_high_water_mark list_containers sample_tracker) 7 = ''R8''"
    by code_simp+
  then show ?thesis
    by (simp add: sent_records demo_candidates demo_tp_part0 partition_records_def revoke_record_def demo_broker_fields Let_def demo_sent_def)
qed

theorem handover_restores_witness:
  "\<exists>t'. build_assignments list_containers ''metadata_snapshot'' 500 (Some [demo_sent]) [demo_partition] = Inr [(part0, t')] \<and>
     handed_over list_containers demo_planner sample_tracker demo_sent t' \<and>
     ot_last_committed_offset t' = 6 \<and> completed_set list_containers t' = {8}"
proof -
  have look: "committed_lookup (Some [demo_sent]) = [(part0, demo_sent)]"
    by (simp add: committed_lookup_def demo_tp_part0) (simp add: demo_sent_def)
  have "\<exists>assignments. build_assignments list_containers ''metadata_snapshot'' 500 (Some [demo_sent]) [demo_partition] = Inr assignments \<and>
    fst ` set assignments = kafka_tp ` set [demo_partition] \<and>
    (\<forall>tp t'. dict_get assignments tp = Some t' \<longrightarrow>
      (\<exists>t r. r \<in> set [demo_sent] \<and> kafka_tp r = tp \<and>
        dict_get (bs_offset_trackers (br_completion demo_broker)) tp = Some t \<and> handed_over list_containers demo_planner t r t'))"
    by (rule handover_restores[OF lc.tracker_containers_axioms _ _ demo_revoke_sends[symmetric]])
      (simp_all add: demo_broker_fields demo_trackers_wf look demo_tp_part0)
  then obtain a where a: "build_assignments list_containers ''metadata_snapshot'' 500 (Some [demo_sent]) [demo_partition] = Inr a"
    and get: "\<forall>tp t'. dict_get a tp = Some t' \<longrightarrow>
      (\<exists>t r. r \<in> set [demo_sent] \<and> kafka_tp r = tp \<and>
        dict_get (bs_offset_trackers (br_completion demo_broker)) tp = Some t \<and> handed_over list_containers demo_planner t r t')"
    by (elim exE conjE) rule
  have h: "handed_over list_containers demo_planner sample_tracker demo_sent t'" if "dict_get a part0 = Some t'" for t'
    using get[rule_format, OF that] by (simp add: demo_broker_fields)
  obtain t' where t': "a = [(part0, t')]"
    using a by (auto simp: build_assignments_def demo_tp_part0 split: sum.splits)
  have d: "completed_set list_containers sample_tracker = {5, 6, 8}" by code_simp
  have ho: "handed_over list_containers demo_planner sample_tracker demo_sent t'" using h t' by simp
  then have "ot_last_committed_offset t' = 6" by (simp add: handed_over_def demo_sent_def)
  moreover have "{x \<in> {5, 6, 8}. (6::int) < x} = {8}" by auto
  ultimately have "completed_set list_containers t' = {8}"
    using ho unfolding handed_over_def d by (simp add: demo_sent_def demo_planner_def)
  with a t' ho \<open>ot_last_committed_offset t' = 6\<close> show ?thesis by simp
qed

theorem revoke_commits_completed_witness:
  "(\<lambda>r. (kafka_tp r, kp_offset r)) `
     set (fst (fst (handle_revoke_callback list_containers demo_planner [] (\<lambda>r. False) [demo_partition] demo_broker))) =
   {(part0, Some 7)}"
proof -
  have "get_committable_high_water_mark list_containers None sample_tracker = 6"
    "completed_set list_containers sample_tracker = {5, 6, 8}" "ot_last_committed_offset sample_tracker = 4" by code_simp+
  moreover have "{4<..6::int} \<subseteq> {5, 6, 8}" by auto
  ultimately show ?thesis
    using revoke_commits_completed[OF lc.tracker_containers_axioms, of demo_broker "[demo_partition]" demo_planner "[]" "\<lambda>r. False"]
    by (auto simp: demo_broker_fields demo_trackers_wf demo_tp_part0 demo_candidates)
qed

theorem revoke_clears_broker_witness:
  "\<exists>b'. snd (handle_revoke_callback list_containers demo_planner ''metadata_snapshot'' (\<lambda>r. True) [demo_partition] demo_broker) = b' \<and>
     dict_get (bs_offset_trackers (br_completion b')) part0 = None \<and> sl_dirty_commit_partitions (br_ledger b') = {} \<and>
     dict_get (sl_unsettled_completions (br_ledger b')) part0 = None"
proof -
  obtain sent failed b' where "handle_revoke_callback list_containers demo_planner ''metadata_snapshot'' (\<lambda>r. True) [demo_partition] demo_broker =
      ((sent, failed), b')" by (metis surj_pair)
  note eq = this
  have "cache_ok \<lparr>dq_enabled = True, dq_payload_mode = FULL, dq_cache_max_bytes = 0\<rparr> (bs_dlq_cache (br_completion demo_broker))"
    by (simp add: demo_broker_fields)
  from revoke_clears_broker[OF this eq[symmetric]] show ?thesis
    by (simp add: eq demo_tp_part0) (simp add: demo_broker_def demo_ledger_def)
qed

end
