(* ===== verification/Broker_Dispatch.thy ===== *)
theory Broker_Dispatch
  imports Rebalance_Handover
begin

text \<open>
  Dispatch: \<open>broker_dispatch_support.py\<close> turns the records of a poll into submissions to the work
  manager, and \<open>BrokerPoller._submit_grouped_messages\<close> hands the groups over.

  The trackers are objects that the poller and the work manager share. The model keeps them by
  value on both sides: \<open>lend\<close> is the work manager as it sees the poller's trackers, and
  \<open>take_back\<close> the poller after the work manager has run on them. Message keys and values are
  \<open>cached_value\<close>s; the ordering key of a submission is the partition number or the message key.
  \<open>_submit_grouped_messages\<close> falls back to single submissions for a work manager without
  \<open>submit_message_batch\<close>; the work manager of this program has it, so the fallback is left out.

  Theorem: a dispatch succeeds whenever the tracked partitions are assigned, and appends to every
  virtual queue, in order, exactly the records for it that are not known to be complete.
\<close>

section \<open>Shared trackers\<close>

definition share_trackers :: "('s, 'c) trackers \<Rightarrow> ('s, 'c) trackers \<Rightarrow> ('s, 'c) trackers" where
  "share_trackers current d =
     map (\<lambda>(tp, t). (tp, case dict_get current tp of None \<Rightarrow> t | Some t' \<Rightarrow> t')) d"

definition lend :: "('k, 'p, 's, 'c, 'e) broker \<Rightarrow> ('k, 'p, 's, 'c, 'e) work_manager" where
  "lend b = (br_work_manager b)\<lparr>wm_offset_trackers :=
     share_trackers (bs_offset_trackers (br_completion b)) (wm_offset_trackers (br_work_manager b))\<rparr>"

definition take_back ::
  "('k, 'p, 's, 'c, 'e) work_manager \<Rightarrow> ('k, 'p, 's, 'c, 'e) broker \<Rightarrow> ('k, 'p, 's, 'c, 'e) broker" where
  "take_back w b =
     b\<lparr>br_work_manager := w,
       br_completion := (br_completion b)\<lparr>bs_offset_trackers :=
         share_trackers (wm_offset_trackers w) (bs_offset_trackers (br_completion b))\<rparr>\<rparr>"

section \<open>State and operations\<close>

datatype dispatch_key = PartitionKey int | MessageKey cached_value

text \<open>What a consumed \<open>Message\<close> answers; \<open>km_error\<close> is the truth value of \<open>error()\<close>.\<close>

record kafka_message =
  km_error :: bool
  km_topic :: "string option"
  km_partition :: "int option"
  km_offset :: "int option"
  km_key :: cached_value
  km_value :: cached_value

type_synonym ('s, 'c, 'e) dispatch_env = "(dispatch_key, cached_value, 's, 'c, 'e) wm_env"
type_synonym ('s, 'c, 'e) dispatch_broker = "(dispatch_key, cached_value, 's, 'c, 'e) broker"
type_synonym grouped_dispatch = "(dispatch_key, cached_value) grouped_messages"

text \<open>The broker's parts and the poll counters of \<open>BrokerPoller\<close>.\<close>

record ('s, 'c, 'e) poll_state =
  ps_broker :: "('s, 'c, 'e) dispatch_broker"
  ps_completed_offset_skips :: int
  ps_poll_records :: int
  ps_poll_nonempty :: int
  ps_poll_empty :: int
  ps_poll_error :: int

definition ps_trackers :: "('s, 'c, 'e) poll_state \<Rightarrow> ('s, 'c) trackers" where
  "ps_trackers s = bs_offset_trackers (br_completion (ps_broker s))"

definition message_position :: "kafka_message \<Rightarrow> (topic_partition \<times> int) option" where
  "message_position msg =
     (if km_error msg then None
      else case (km_topic msg, km_partition msg) of
        (Some t, Some p) \<Rightarrow> map_option (Pair (TopicPartition t p)) (km_offset msg)
      | _ \<Rightarrow> None)"

definition submit_key :: "ordering_mode \<Rightarrow> topic_partition \<Rightarrow> kafka_message \<Rightarrow> dispatch_key" where
  "submit_key mode tp msg = (if mode = PARTITION then PartitionKey (partition tp) else MessageKey (km_key msg))"

definition record_completed_offset_skip :: "('s, 'c, 'e) poll_state \<Rightarrow> ('s, 'c, 'e) poll_state" where
  "record_completed_offset_skip s = s\<lparr>ps_completed_offset_skips := ps_completed_offset_skips s + 1\<rparr>"

definition cache_dispatched :: "dlq_config \<Rightarrow> topic_partition \<Rightarrow> int \<Rightarrow> kafka_message \<Rightarrow> ('s, 'c, 'e) poll_state \<Rightarrow> ('s, 'c, 'e) poll_state" where
  "cache_dispatched dlq tp offset msg s =
     (let b = ps_broker s; c = br_completion b
      in s\<lparr>ps_broker := b\<lparr>br_completion := c\<lparr>bs_dlq_cache :=
             cache_message_for_dlq dlq (tp, offset) (km_key msg, km_value msg) (bs_dlq_cache c)\<rparr>\<rparr>\<rparr>)"

text \<open>One turn of the loop of \<open>dispatch_messages\<close>.\<close>

definition dispatch_message ::
  "('s, 'c, 'e) dispatch_env \<Rightarrow> ordering_mode \<Rightarrow> dlq_config \<Rightarrow> kafka_message \<Rightarrow> grouped_dispatch
    \<Rightarrow> ('s, 'c, 'e) poll_state \<Rightarrow> (py_error + grouped_dispatch) \<times> ('s, 'c, 'e) poll_state" where
  "dispatch_message V mode dlq msg grouped s =
     (case message_position msg of
        None \<Rightarrow> (Inr grouped, s)
      | Some (tp, offset) \<Rightarrow>
          (case dict_get (ps_trackers s) tp of
             None \<Rightarrow> (Inr grouped, s)
           | Some tracker \<Rightarrow>
               if is_completed_uncommitted (env_containers V) offset tracker
               then (Inr grouped, record_completed_offset_skip s)
               else
                 let s1 = cache_dispatched dlq tp offset msg s;
                     key = submit_key mode tp msg
                 in if mode = UNORDERED
                    then case submit_message V tp offset (get_current_epoch tracker) key (km_value msg)
                                (lend (ps_broker s1)) of
                           (r, w) \<Rightarrow> (map_sum id (\<lambda>_. grouped) r, s1\<lparr>ps_broker := take_back w (ps_broker s1)\<rparr>)
                    else (Inr (dict_set (tp, key)
                            (dict_get_default grouped (tp, key) [] @
                              [MessageWithPoisonKey offset (get_current_epoch tracker) (km_value msg) (MessageKey (km_key msg))])
                            grouped), s1)))"

fun dispatch_loop ::
  "('s, 'c, 'e) dispatch_env \<Rightarrow> ordering_mode \<Rightarrow> dlq_config \<Rightarrow> kafka_message list \<Rightarrow> grouped_dispatch
    \<Rightarrow> ('s, 'c, 'e) poll_state \<Rightarrow> (py_error + grouped_dispatch) \<times> ('s, 'c, 'e) poll_state" where
  "dispatch_loop V mode dlq [] grouped s = (Inr grouped, s)"
| "dispatch_loop V mode dlq (msg # msgs) grouped s =
     (case dispatch_message V mode dlq msg grouped s of
        (Inl e, s1) \<Rightarrow> (Inl e, s1)
      | (Inr grouped1, s1) \<Rightarrow> dispatch_loop V mode dlq msgs grouped1 s1)"

definition submit_grouped_messages ::
  "('s, 'c, 'e) dispatch_env \<Rightarrow> grouped_dispatch \<Rightarrow> ('s, 'c, 'e) poll_state \<Rightarrow> (py_error + unit) \<times> ('s, 'c, 'e) poll_state" where
  "submit_grouped_messages V grouped s =
     (if grouped = [] then (Inr (), s)
      else case submit_message_batch V grouped (lend (ps_broker s)) of
             (r, w) \<Rightarrow> (r, s\<lparr>ps_broker := take_back w (ps_broker s)\<rparr>))"

definition dispatch_messages ::
  "('s, 'c, 'e) dispatch_env \<Rightarrow> ordering_mode \<Rightarrow> dlq_config \<Rightarrow> kafka_message list
    \<Rightarrow> ('s, 'c, 'e) poll_state \<Rightarrow> (py_error + unit) \<times> ('s, 'c, 'e) poll_state" where
  "dispatch_messages V mode dlq messages s =
     (case dispatch_loop V mode dlq messages [] s of
        (Inl e, s1) \<Rightarrow> (Inl e, s1)
      | (Inr grouped, s1) \<Rightarrow> submit_grouped_messages V grouped s1)"

section \<open>Sharing\<close>

lemma share_get [simp]:
  "dict_get (share_trackers current d) tp =
     (case dict_get d tp of None \<Rightarrow> None
      | Some t \<Rightarrow> (case dict_get current tp of None \<Rightarrow> Some t | Some t' \<Rightarrow> Some t'))"
  unfolding share_trackers_def by (induction d) (auto split: option.split)

lemma share_keys [simp]: "map fst (share_trackers current d) = map fst d"
  by (simp add: share_trackers_def split_beta o_def)

lemma share_idem: "share_trackers current (share_trackers current d) = share_trackers current d"
  by (auto simp: share_trackers_def split: option.split)

lemma lend_fields [simp]:
  "wm_queue_topology (lend b) = wm_queue_topology (br_work_manager b)"
  "wm_completion_queue (lend b) = wm_completion_queue (br_work_manager b)"
  "wm_in_flight_work_items (lend b) = wm_in_flight_work_items (br_work_manager b)"
  "wm_total_queued_messages (lend b) = wm_total_queued_messages (br_work_manager b)"
  "wm_current_in_flight_count (lend b) = wm_current_in_flight_count (br_work_manager b)"
  "wm_max_in_flight_messages (lend b) = wm_max_in_flight_messages (br_work_manager b)"
  "wm_route_batch_size (lend b) = wm_route_batch_size (br_work_manager b)"
  "wm_shared_offset_trackers (lend b) = wm_shared_offset_trackers (br_work_manager b)"
  "wm_uuids (lend b) = wm_uuids (br_work_manager b)"
  "wm_execution_engine (lend b) = wm_execution_engine (br_work_manager b)"
  by (simp_all add: lend_def)

lemma lend_ledger: "same_ledger (br_work_manager b) (lend b)"
  by (simp add: lend_def same_ledger_def)

lemma lend_inv: "wm_inv V K (lend b) = wm_inv V K (br_work_manager b)"
proof
  assume "wm_inv V K (br_work_manager b)"
  then show "wm_inv V K (lend b)"
    by (rule wm_inv_frame[OF _ lend_ledger]) (simp_all add: lend_def split: option.split)
next
  assume "wm_inv V K (lend b)"
  then show "wm_inv V K (br_work_manager b)"
    by (rule wm_inv_frame) (simp_all add: lend_def same_ledger_def split: option.split)
qed

lemma take_back_fields [simp]:
  "br_work_manager (take_back w b) = w" "br_ledger (take_back w b) = br_ledger b"
  "br_coordinator (take_back w b) = br_coordinator b"
  "bs_dlq_cache (br_completion (take_back w b)) = bs_dlq_cache (br_completion b)"
  "bs_pending_dlq_events (br_completion (take_back w b)) = bs_pending_dlq_events (br_completion b)"
  "bs_offset_trackers (br_completion (take_back w b)) = share_trackers (wm_offset_trackers w) (bs_offset_trackers (br_completion b))"
  by (simp_all add: take_back_def)

section \<open>What a submission does to the trackers\<close>

text \<open>
  \<open>t'\<close> is \<open>t\<close> with more fetched: nothing else the completion accounting depends on is touched.
\<close>

definition fetched_more :: "('s, 'c) offset_tracker \<Rightarrow> ('s, 'c) offset_tracker \<Rightarrow> bool" where
  "fetched_more t t' \<longleftrightarrow>
     ot_topic_partition t' = ot_topic_partition t \<and>
     ot_last_committed_offset t' = ot_last_committed_offset t \<and>
     ot_completed_offsets t' = ot_completed_offsets t \<and> ot_epoch t' = ot_epoch t \<and>
     ot_last_fetched_offset t \<le> ot_last_fetched_offset t'"

lemma fetched_more_refl [simp]: "fetched_more t t"
  by (simp add: fetched_more_def)

lemma fetched_more_trans: "fetched_more t u \<Longrightarrow> fetched_more u v \<Longrightarrow> fetched_more t v"
  by (simp add: fetched_more_def)

lemma update_fetched_more:
  "fetched_more t (update_last_fetched_offset D off t)" "off \<le> ot_last_fetched_offset (update_last_fetched_offset D off t)"
  by (simp_all add: fetched_more_def update_last_fetched_offset_def bump_version_def)

definition trackers_fetched :: "('s, 'c) trackers \<Rightarrow> ('s, 'c) trackers \<Rightarrow> bool" where
  "trackers_fetched d d' \<longleftrightarrow>
     (\<forall>tp. rel_option fetched_more (dict_get d tp) (dict_get d' tp))"

lemma trackers_fetched_refl [simp]: "trackers_fetched d d"
  by (simp add: trackers_fetched_def option.rel_refl)

lemma trackers_fetched_trans:
  assumes "trackers_fetched d e" "trackers_fetched e f"
  shows "trackers_fetched d f"
  unfolding trackers_fetched_def
proof
  fix tp
  show "rel_option fetched_more (dict_get d tp) (dict_get f tp)"
    using assms fetched_more_trans unfolding trackers_fetched_def
    by (metis (no_types, lifting) option.rel_sel)
qed

lemma trackers_fetchedD:
  assumes "trackers_fetched d d'"
  shows "dict_get d tp = None \<longleftrightarrow> dict_get d' tp = None"
    "dict_get d tp = Some t \<Longrightarrow> \<exists>t'. dict_get d' tp = Some t' \<and> fetched_more t t'"
  using assms[unfolded trackers_fetched_def, rule_format, of tp]
  by (auto simp: option_rel_Some1 rel_option_None1 option.rel_sel)

lemma record_fetched_trackers:
  "trackers_fetched (wm_offset_trackers s) (wm_offset_trackers (record_fetched V p s))"
  by (auto simp: trackers_fetched_def record_fetched_def dict_simps update_fetched_more option.rel_refl split: option.split)

lemma record_fetched_reaches:
  assumes "dict_get (wm_offset_trackers s) (fst p) \<noteq> None"
  shows "\<exists>t. dict_get (wm_offset_trackers (record_fetched V p s)) (fst p) = Some t \<and> snd p \<le> ot_last_fetched_offset t"
  using assms by (auto simp: record_fetched_def dict_simps update_fetched_more)

lemma record_fetched_fold_trackers:
  "trackers_fetched (wm_offset_trackers s) (wm_offset_trackers (fold (record_fetched V) ps s)) \<and>
   (\<forall>(tp, off) \<in> set ps. dict_get (wm_offset_trackers s) tp \<noteq> None \<longrightarrow>
     (\<exists>t. dict_get (wm_offset_trackers (fold (record_fetched V) ps s)) tp = Some t \<and> off \<le> ot_last_fetched_offset t))"
proof (induction ps arbitrary: s)
  case (Cons p ps)
  let ?s = "record_fetched V p s"
  note step = record_fetched_trackers[of s V p] and IH = Cons.IH[of ?s]
  have "\<exists>t. dict_get (wm_offset_trackers (fold (record_fetched V) (p # ps) s)) tp = Some t \<and> off \<le> ot_last_fetched_offset t"
    if mem: "(tp, off) \<in> set (p # ps)" "dict_get (wm_offset_trackers s) tp \<noteq> None" for tp off
  proof (cases "p = (tp, off)")
    case True
    then obtain t where "dict_get (wm_offset_trackers ?s) tp = Some t" "off \<le> ot_last_fetched_offset t"
      using record_fetched_reaches[of s p V] mem(2) by auto
    moreover obtain t' where "dict_get (wm_offset_trackers (fold (record_fetched V) ps ?s)) tp = Some t'" "fetched_more t t'"
      using trackers_fetchedD(2)[OF conjunct1[OF IH] calculation(1)] by (elim exE conjE)
    ultimately show ?thesis by (auto simp: fetched_more_def)
  next
    case False
    then show ?thesis using IH mem trackers_fetchedD(1)[OF step, of tp] by auto
  qed
  then show ?case using trackers_fetched_trans[OF step conjunct1[OF IH]] by auto
qed simp

text \<open>The highest offsets collected by a submission.\<close>

definition reaches :: "(topic_partition, int) dict \<Rightarrow> topic_partition \<Rightarrow> int \<Rightarrow> bool" where
  "reaches mo tp off \<longleftrightarrow> (\<exists>v. dict_get mo tp = Some v \<and> off \<le> v)"

lemma register_messages_frame:
  assumes "register_messages V tp k ms mo s = (ws, mo', s')"
  shows "wm_offset_trackers s' = wm_offset_trackers s \<and>
    (\<forall>tp' off. reaches mo tp' off \<longrightarrow> reaches mo' tp' off) \<and> (\<forall>m \<in> set ms. reaches mo' tp (message_offset m)) \<and>
    wm_shared_offset_trackers s' = wm_shared_offset_trackers s"
  using assms
proof (induction ms arbitrary: mo s ws)
  case (Cons m ms)
  let ?mo = "case dict_get mo tp of None \<Rightarrow> dict_set tp (message_offset m) mo
    | Some v \<Rightarrow> if message_offset m > v then dict_set tp (message_offset m) mo else mo"
  obtain vs where r: "register_messages V tp k ms ?mo (register_one V tp k m s) = (vs, mo', s')"
    using Cons.prems by (auto simp: Let_def register_one_def split: prod.splits)
  have "reaches ?mo tp (message_offset m)" "\<And>tp' off. reaches mo tp' off \<Longrightarrow> reaches ?mo tp' off"
    by (auto simp: reaches_def dict_simps split: option.splits)
  then show ?case using Cons.IH[OF r] by (auto simp: register_one_def)
qed simp

lemma enqueue_groups_frame:
  assumes "enqueue_groups V gs mo s = (Inr mo', s')"
  shows "wm_offset_trackers s' = wm_offset_trackers s \<and>
    (\<forall>tp' off. reaches mo tp' off \<longrightarrow> reaches mo' tp' off) \<and>
    (\<forall>g \<in> set gs. \<forall>m \<in> set (snd g). reaches mo' (fst (fst g)) (message_offset m)) \<and>
    wm_shared_offset_trackers s' = wm_shared_offset_trackers s"
  using assms
proof (induction gs arbitrary: mo s)
  case (Cons g gs)
  obtain tp k ms where g: "g = ((tp, k), ms)" by (metis prod.exhaust)
  obtain ws mo1 s1 where r: "register_messages V tp k ms mo s = (ws, mo1, s1)" by (metis prod_cases3)
  obtain x T where e: "enqueue_batch tp k ws (wm_queue_topology s1) = (Inr x, T)"
    "enqueue_groups V gs mo1 (s1\<lparr>wm_queue_topology := T, wm_total_queued_messages :=
       wm_total_queued_messages s1 + int (length ws)\<rparr>) = (Inr mo', s')"
    using Cons.prems g r by (auto split: if_splits prod.splits sum.splits)
  show ?case using register_messages_frame[OF r] Cons.IH[OF e(2)] g by auto
qed simp

text \<open>A successful submission: every message is appended to its queue and counted as fetched.\<close>

lemma submit_effect:
  assumes inv: "wm_inv V {} s" "inj (env_uuid V)"
    and asg: "\<forall>g \<in> set gs. assigned (wm_queue_topology s) (fst (fst g))"
    and run: "submit_message_batch V gs s = (r, s')"
  shows "r = Inr ()" "wm_inv V {} s'" "undisturbed s s'"
    "trackers_fetched (wm_offset_trackers s) (wm_offset_trackers s')"
    "\<And>q ms m. (q, ms) \<in> set gs \<Longrightarrow> m \<in> set ms \<Longrightarrow>
       \<exists>t. dict_get (wm_offset_trackers s') (fst q) = Some t \<and> message_offset m \<le> ot_last_fetched_offset t"
    "\<And>q. \<exists>new. queue_items (wm_queue_topology s') q = queue_items (wm_queue_topology s) q @ new \<and>
       made_from q (messages_for q gs) new"
    "assigned (wm_queue_topology s') = assigned (wm_queue_topology s)"
    "wm_shared_offset_trackers s' = wm_shared_offset_trackers s"
proof -
  note S = submit_inv[OF inv run]
  show r: "r = Inr ()" using S asg by simp
  show i': "wm_inv V {} s'" and "undisturbed s s'" using S by simp_all
  obtain mo s1 where e: "enqueue_groups V gs [] s = (Inr mo, s1)"
    and s': "s' = (if mo = [] then s1 else invalidate_blocking_cache (fold (record_fetched V) mo s1))"
    using run r by (auto simp: submit_message_batch_def split: prod.splits sum.splits)
  note F = enqueue_groups_frame[OF e] and R = record_fetched_fold_trackers[of s1 V mo]
  have tr: "wm_offset_trackers s' = wm_offset_trackers (fold (record_fetched V) mo s1)"
    by (simp add: s' invalidate_blocking_cache_def)
  show tf: "trackers_fetched (wm_offset_trackers s) (wm_offset_trackers s')" using R F tr by simp
  have top: "wm_queue_topology s' = wm_queue_topology s1"
    by (simp add: s' record_fetched_topology invalidate_blocking_cache_def)
  show "\<exists>new. queue_items (wm_queue_topology s') q = queue_items (wm_queue_topology s) q @ new \<and>
      made_from q (messages_for q gs) new" for q
    using enqueue_groups_appends[OF inv e] top by simp
  show "\<exists>t. dict_get (wm_offset_trackers s') (fst q) = Some t \<and> message_offset m \<le> ot_last_fetched_offset t"
    if mem: "(q, ms) \<in> set gs" "m \<in> set ms" for q ms m
  proof -
    have "dict_get (wm_offset_trackers s) (fst q) \<noteq> None"
      using bspec[OF asg mem(1)] managed_invD(1)[OF wm_invD(3)[OF inv(1)], of "fst q"] by simp
    moreover obtain v where "dict_get mo (fst q) = Some v" "message_offset m \<le> v"
      using F[THEN conjunct2, THEN conjunct2, THEN conjunct1] mem by (fastforce simp: reaches_def)
    ultimately show ?thesis using R[THEN conjunct2] F[THEN conjunct1] tr map_of_SomeD by fastforce
  qed
  show "assigned (wm_queue_topology s') = assigned (wm_queue_topology s)"
  proof
    fix tp
    show "assigned (wm_queue_topology s') tp = assigned (wm_queue_topology s) tp"
      using managed_invD(1)[OF wm_invD(3)[OF inv(1)], of tp] managed_invD(1)[OF wm_invD(3)[OF i'], of tp]
        trackers_fetchedD(1)[OF tf, of tp] by simp
  qed
  have "wm_shared_offset_trackers (fold (record_fetched V) mo s1) = wm_shared_offset_trackers s1"
    by (induction mo arbitrary: s1) (simp_all add: record_fetched_def split: option.split)
  then show "wm_shared_offset_trackers s' = wm_shared_offset_trackers s"
    using F by (simp add: s' invalidate_blocking_cache_def)
qed

section \<open>What a dispatch delivers\<close>

text \<open>
  A record is known to be complete when its tracker lists it, deliverable when it has a position
  in a tracked partition and is not known to be complete.
\<close>

definition known_complete :: "('s, 'c) container_ops \<Rightarrow> ('s, 'c) trackers \<Rightarrow> kafka_message \<Rightarrow> bool" where
  "known_complete D trackers msg =
     (case message_position msg of
        None \<Rightarrow> False
      | Some (tp, off) \<Rightarrow> (case dict_get trackers tp of None \<Rightarrow> False | Some t \<Rightarrow> is_completed_uncommitted D off t))"

definition deliverable :: "('s, 'c) container_ops \<Rightarrow> ('s, 'c) trackers \<Rightarrow> kafka_message \<Rightarrow> bool" where
  "deliverable D trackers msg =
     (case message_position msg of
        None \<Rightarrow> False
      | Some (tp, off) \<Rightarrow> (case dict_get trackers tp of None \<Rightarrow> False | Some t \<Rightarrow> \<not> is_completed_uncommitted D off t))"

definition routed_to :: "ordering_mode \<Rightarrow> dispatch_key queue_key \<Rightarrow> kafka_message \<Rightarrow> bool" where
  "routed_to mode q msg =
     (case message_position msg of None \<Rightarrow> False | Some (tp, off) \<Rightarrow> q = (tp, submit_key mode tp msg))"

definition carries ::
  "ordering_mode \<Rightarrow> ('s, 'c) trackers \<Rightarrow> kafka_message \<Rightarrow> (dispatch_key, cached_value) work_item \<Rightarrow> bool" where
  "carries mode trackers msg w \<longleftrightarrow>
     message_position msg = Some (wi_tp w, wi_offset w) \<and> wi_key w = submit_key mode (wi_tp w) msg \<and>
     wi_payload w = km_value msg \<and> wi_poison_key w = Some (MessageKey (km_key msg)) \<and>
     wi_requeue_attempts w = 0 \<and>
     map_option get_current_epoch (dict_get trackers (wi_tp w)) = Some (wi_epoch w)"

text \<open>No tracker lists an offset as complete that it has not fetched.\<close>

definition fetch_covers :: "('s, 'c) container_ops \<Rightarrow> ('s, 'c) trackers \<Rightarrow> bool" where
  "fetch_covers D trackers \<longleftrightarrow>
     (\<forall>tp t off. dict_get trackers tp = Some t \<longrightarrow> ss_contains D (ot_completed_offsets t) off
        \<longrightarrow> off \<le> ot_last_fetched_offset t)"

text \<open>Every partition the poller tracks has queues in the work manager.\<close>

definition tracked_assigned :: "('s, 'c, 'e) poll_state \<Rightarrow> bool" where
  "tracked_assigned s \<longleftrightarrow>
     (\<forall>tp. dict_get (ps_trackers s) tp \<noteq> None \<longrightarrow> assigned (wm_queue_topology (br_work_manager (ps_broker s))) tp)"

lemma fetch_covers_more:
  assumes "fetch_covers D d" "trackers_fetched d d'" shows "fetch_covers D d'"
  unfolding fetch_covers_def
proof (intro allI impI)
  fix tp t' off assume t': "dict_get d' tp = Some t'" "ss_contains D (ot_completed_offsets t') off"
  then obtain t where "dict_get d tp = Some t" using trackers_fetchedD(1)[OF assms(2), of tp] by fastforce
  then show "off \<le> ot_last_fetched_offset t'"
    using trackers_fetchedD(2)[OF assms(2), of tp t] t' assms(1) unfolding fetch_covers_def fetched_more_def
    by (metis (no_types, lifting) dual_order.trans option.inject)
qed

lemma completed_more:
  assumes "fetch_covers D d" "trackers_fetched d d'" "dict_get d tp = Some t" "dict_get d' tp = Some t'"
  shows "is_completed_uncommitted D off t' = is_completed_uncommitted D off t" "get_current_epoch t' = get_current_epoch t"
  using trackers_fetchedD(2)[OF assms(2,3)] assms(1,3,4) fetch_covers_more[OF assms(1,2)]
  by (auto simp: is_completed_uncommitted_def fetched_more_def fetch_covers_def get_current_epoch_def)

lemma status_more:
  assumes "fetch_covers D d" "trackers_fetched d d'"
  shows "known_complete D d' msg = known_complete D d msg" "deliverable D d' msg = deliverable D d msg"
    "carries mode d' msg w = carries mode d msg w"
proof -
  have "(dict_get d' tp = None \<and> dict_get d tp = None) \<or>
      (\<exists>t t'. dict_get d tp = Some t \<and> dict_get d' tp = Some t' \<and> get_current_epoch t' = get_current_epoch t \<and>
         (\<forall>off. is_completed_uncommitted D off t' = is_completed_uncommitted D off t))" for tp
    using completed_more[OF assms] trackers_fetchedD[OF assms(2), of tp] by (cases "dict_get d tp") auto
  note c = this
  show "known_complete D d' msg = known_complete D d msg" "deliverable D d' msg = deliverable D d msg"
    using c[of "fst (the (message_position msg))"]
    by (auto simp: known_complete_def deliverable_def split: option.splits)
  show "carries mode d' msg w = carries mode d msg w"
    using c[of "wi_tp w"] by (auto simp: carries_def)
qed

lemma take_back_fetched:
  assumes "trackers_fetched (wm_offset_trackers (lend b)) (wm_offset_trackers w)"
  shows "trackers_fetched (bs_offset_trackers (br_completion b)) (bs_offset_trackers (br_completion (take_back w b)))"
  unfolding trackers_fetched_def
proof
  fix tp
  show "rel_option fetched_more (dict_get (bs_offset_trackers (br_completion b)) tp)
      (dict_get (bs_offset_trackers (br_completion (take_back w b))) tp)"
    using assms[unfolded trackers_fetched_def, rule_format, of tp]
    by (auto simp: lend_def split: option.splits elim: option.rel_cases)
qed

lemma take_back_tracker:
  "dict_get (wm_offset_trackers w) tp = Some t \<Longrightarrow> dict_get (bs_offset_trackers (br_completion b)) tp \<noteq> None \<Longrightarrow>
     dict_get (bs_offset_trackers (br_completion (take_back w b))) tp = Some t"
  by auto

text \<open>The effect of a dispatch from \<open>s\<close> to \<open>s'\<close>.\<close>

definition delivers ::
  "('s, 'c, 'e) dispatch_env \<Rightarrow> ordering_mode \<Rightarrow> kafka_message list \<Rightarrow> ('s, 'c, 'e) poll_state \<Rightarrow> ('s, 'c, 'e) poll_state \<Rightarrow> bool" where
  "delivers V mode msgs s s' \<longleftrightarrow>
     wm_inv V {} (br_work_manager (ps_broker s')) \<and>
     undisturbed (br_work_manager (ps_broker s)) (br_work_manager (ps_broker s')) \<and>
     assigned (wm_queue_topology (br_work_manager (ps_broker s'))) = assigned (wm_queue_topology (br_work_manager (ps_broker s))) \<and>
     trackers_fetched (ps_trackers s) (ps_trackers s') \<and>
     (\<forall>q. \<exists>new. queue_items (wm_queue_topology (br_work_manager (ps_broker s'))) q =
          queue_items (wm_queue_topology (br_work_manager (ps_broker s))) q @ new \<and>
        list_all2 (carries mode (ps_trackers s))
          (filter (\<lambda>m. deliverable (env_containers V) (ps_trackers s) m \<and> routed_to mode q m) msgs) new) \<and>
     (\<forall>m \<in> set msgs. deliverable (env_containers V) (ps_trackers s) m \<longrightarrow>
        (\<exists>tp off t. message_position m = Some (tp, off) \<and> dict_get (ps_trackers s') tp = Some t \<and>
           off \<le> ot_last_fetched_offset t)) \<and>
     ps_completed_offset_skips s' = ps_completed_offset_skips s +
       int (length (filter (known_complete (env_containers V) (ps_trackers s)) msgs))"

text \<open>What stays when a message is cached or skipped.\<close>

lemma cache_dispatched_fields [simp]:
  "ps_trackers (cache_dispatched dlq tp off msg s) = ps_trackers s"
  "br_work_manager (ps_broker (cache_dispatched dlq tp off msg s)) = br_work_manager (ps_broker s)"
  "bs_offset_trackers (br_completion (ps_broker (cache_dispatched dlq tp off msg s))) = bs_offset_trackers (br_completion (ps_broker s))"
  "ps_completed_offset_skips (cache_dispatched dlq tp off msg s) = ps_completed_offset_skips s"
  "lend (ps_broker (cache_dispatched dlq tp off msg s)) = lend (ps_broker s)"
  by (simp_all add: cache_dispatched_def ps_trackers_def lend_def Let_def)

lemma record_skip_fields [simp]:
  "ps_trackers (record_completed_offset_skip s) = ps_trackers s"
  "ps_broker (record_completed_offset_skip s) = ps_broker s"
  "ps_completed_offset_skips (record_completed_offset_skip s) = ps_completed_offset_skips s + 1"
  by (simp_all add: record_completed_offset_skip_def ps_trackers_def)

lemma undisturbed_lend [simp]:
  "undisturbed (br_work_manager b) (lend b)" "undisturbed (lend b) w = undisturbed (br_work_manager b) w"
  by (simp_all add: undisturbed_def lend_def dispatched_def)

text \<open>A grouped message, and what it becomes in the queue.\<close>

definition grouped_of :: "('s, 'c) trackers \<Rightarrow> kafka_message \<Rightarrow> (dispatch_key, cached_value) grouped_message" where
  "grouped_of trackers msg =
     (case message_position msg of
        Some (tp, off) \<Rightarrow>
          MessageWithPoisonKey off (get_current_epoch (the (dict_get trackers tp))) (km_value msg) (MessageKey (km_key msg))
      | None \<Rightarrow> MessageWithPoisonKey 0 0 NoneValue (MessageKey NoneValue))"

lemma carries_grouped:
  assumes "deliverable D trackers m" "routed_to mode q m" "w = make_work_item i (fst q) (snd q) (grouped_of trackers m)"
  shows "carries mode trackers m w"
  using assms by (auto simp: deliverable_def routed_to_def carries_def grouped_of_def split: option.splits)

lemma made_carries:
  assumes "made_from q (map (grouped_of trackers) ms) ws" "\<And>m. m \<in> set ms \<Longrightarrow> deliverable D trackers m \<and> routed_to mode q m"
  shows "list_all2 (carries mode trackers) ms ws"
proof -
  have "list_all2 (\<lambda>m w. w = make_work_item (wi_id w) (fst q) (snd q) (grouped_of trackers m)) ms ws"
    using assms(1) by (simp add: made_from_def list_all2_map1)
  then show ?thesis
    by (rule list.rel_mono_strong) (metis assms(2) carries_grouped)
qed

lemma messages_for_dict:
  assumes "dict_wf gs" shows "messages_for q gs = dict_get_default gs q []"
  using assms
proof (induction gs)
  case (Cons g gs)
  have "filter (\<lambda>h. fst h = fst g) gs = []" using Cons.prems unfolding dict_wf_def filter_empty_conv by (metis distinct.simps(2) image_eqI list.simps(9) set_map)
  then show ?case using Cons
    by (cases g) (auto simp: messages_for_def dict_get_default_def dict_wf_def)
qed (simp add: messages_for_def dict_get_default_def)

text \<open>The ordering modes: the loop only groups, and the groups are submitted at the end.\<close>

lemma dispatch_message_groups:
  assumes "mode \<noteq> UNORDERED" "dict_wf g"
  shows "\<exists>g' s'. dispatch_message V mode dlq m g s = (Inr g', s') \<and> dict_wf g' \<and>
    (\<forall>q. dict_get_default g' q [] = dict_get_default g q [] @
       (if deliverable (env_containers V) (ps_trackers s) m \<and> routed_to mode q m then [grouped_of (ps_trackers s) m] else [])) \<and>
    (\<forall>tp k. dict_has g' (tp, k) \<longrightarrow> dict_has g (tp, k) \<or> dict_get (ps_trackers s) tp \<noteq> None) \<and>
    ps_trackers s' = ps_trackers s \<and> br_work_manager (ps_broker s') = br_work_manager (ps_broker s) \<and>
    ps_completed_offset_skips s' = ps_completed_offset_skips s +
      (if known_complete (env_containers V) (ps_trackers s) m then 1 else 0)"
  using assms
  by (auto simp: dispatch_message_def deliverable_def known_complete_def routed_to_def grouped_of_def Let_def
      dict_simps split: option.split)

lemma dispatch_loop_groups:
  assumes "mode \<noteq> UNORDERED" "dict_wf g"
  shows "\<exists>g' s'. dispatch_loop V mode dlq ms g s = (Inr g', s') \<and> dict_wf g' \<and>
    (\<forall>q. dict_get_default g' q [] = dict_get_default g q [] @ map (grouped_of (ps_trackers s))
       (filter (\<lambda>m. deliverable (env_containers V) (ps_trackers s) m \<and> routed_to mode q m) ms)) \<and>
    (\<forall>tp k. dict_has g' (tp, k) \<longrightarrow> dict_has g (tp, k) \<or> dict_get (ps_trackers s) tp \<noteq> None) \<and>
    ps_trackers s' = ps_trackers s \<and> br_work_manager (ps_broker s') = br_work_manager (ps_broker s) \<and>
    ps_completed_offset_skips s' = ps_completed_offset_skips s +
      int (length (filter (known_complete (env_containers V) (ps_trackers s)) ms))"
  using assms(2)
proof (induction ms arbitrary: g s)
  case (Cons m ms)
  obtain g1 s1 where 1: "dispatch_message V mode dlq m g s = (Inr g1, s1)" "dict_wf g1"
    "\<forall>q. dict_get_default g1 q [] = dict_get_default g q [] @
       (if deliverable (env_containers V) (ps_trackers s) m \<and> routed_to mode q m then [grouped_of (ps_trackers s) m] else [])"
    "\<forall>tp k. dict_has g1 (tp, k) \<longrightarrow> dict_has g (tp, k) \<or> dict_get (ps_trackers s) tp \<noteq> None"
    "ps_trackers s1 = ps_trackers s" "br_work_manager (ps_broker s1) = br_work_manager (ps_broker s)"
    "ps_completed_offset_skips s1 = ps_completed_offset_skips s +
      (if known_complete (env_containers V) (ps_trackers s) m then 1 else 0)"
    using dispatch_message_groups[OF assms(1) Cons.prems, of V dlq m s] by (elim exE conjE) (rule that, assumption+)
  show ?case using Cons.IH[OF 1(2), of s1] 1(1,3-7) by (auto, (metis option.distinct(1))+)
qed simp

lemma ordered_delivers:
  assumes inv: "wm_inv V {} (br_work_manager (ps_broker s))" "inj (env_uuid V)" "tracked_assigned s"
    and mode: "mode \<noteq> UNORDERED"
  shows "\<exists>s'. dispatch_messages V mode dlq msgs s = (Inr (), s') \<and> delivers V mode msgs s s'"
proof -
  let ?D = "env_containers V" and ?d = "ps_trackers s"
  obtain g s1 where L: "dispatch_loop V mode dlq msgs [] s = (Inr g, s1)" "dict_wf g"
    "\<forall>q. dict_get_default g q [] = dict_get_default [] q [] @ map (grouped_of ?d) (filter (\<lambda>m. deliverable ?D ?d m \<and> routed_to mode q m) msgs)"
    "\<forall>tp k. dict_has g (tp, k) \<longrightarrow> dict_has ([] :: grouped_dispatch) (tp, k) \<or> dict_get ?d tp \<noteq> None"
    "ps_trackers s1 = ?d" "br_work_manager (ps_broker s1) = br_work_manager (ps_broker s)"
    "ps_completed_offset_skips s1 = ps_completed_offset_skips s + int (length (filter (known_complete ?D ?d) msgs))"
    using dispatch_loop_groups[OF mode dict_wf_Nil, of V dlq msgs s] by (elim exE conjE) (rule that, assumption+)
  have groups: "dict_get_default g q [] = map (grouped_of ?d) (filter (\<lambda>m. deliverable ?D ?d m \<and> routed_to mode q m) msgs)" for q
    using L(3)[rule_format, of q] by (simp add: dict_get_default_def)
  have tracked: "dict_get ?d (fst q) \<noteq> None" if "dict_has g q" for q
    using L(4)[rule_format, of "fst q" "snd q"] that by (simp add: dict_has_def)
  have lend: "wm_inv V {} (lend (ps_broker s1))" using inv(1) L(6) by (simp add: lend_inv)
  show ?thesis
  proof (cases "g = []")
    case True
    have "filter (\<lambda>m. deliverable ?D ?d m \<and> routed_to mode q m) msgs = []" for q
      using groups[of q] True by (simp add: dict_get_default_def)
    then have "\<not> deliverable ?D ?d m" if "m \<in> set msgs" for m
      using that by (fastforce simp: filter_empty_conv deliverable_def routed_to_def split: option.splits)
    then have "delivers V mode msgs s s1"
      using L inv by (auto simp: delivers_def)
    then show ?thesis using L(1) True by (simp add: dispatch_messages_def submit_grouped_messages_def)
  next
    case False
    obtain r w where run: "submit_message_batch V g (lend (ps_broker s1)) = (r, w)" by force
    have asg: "\<forall>h \<in> set g. assigned (wm_queue_topology (lend (ps_broker s1))) (fst (fst h))"
      using tracked L(6) inv(3) by (auto simp: tracked_assigned_def dict_has_def)
    note E = submit_effect[OF lend inv(2) asg run]
    let ?s = "s1\<lparr>ps_broker := take_back w (ps_broker s1)\<rparr>"
    have tf: "trackers_fetched ?d (ps_trackers ?s)"
      using take_back_fetched[OF E(4)] L(5) by (simp add: ps_trackers_def)
    have q: "\<exists>new. queue_items (wm_queue_topology w) q = queue_items (wm_queue_topology (br_work_manager (ps_broker s))) q @ new \<and>
        list_all2 (carries mode ?d) (filter (\<lambda>m. deliverable ?D ?d m \<and> routed_to mode q m) msgs) new" for q
    proof -
      obtain new where "queue_items (wm_queue_topology w) q = queue_items (wm_queue_topology (lend (ps_broker s1))) q @ new"
        "made_from q (messages_for q g) new" using E(6)[where q = q] by (elim exE conjE)
      moreover have "list_all2 (carries mode ?d) (filter (\<lambda>m. deliverable ?D ?d m \<and> routed_to mode q m) msgs) new"
        by (rule made_carries[where D = ?D and q = q]) (use calculation(2) groups[of q] messages_for_dict[OF L(2), of q] in auto)
      ultimately show ?thesis using L(6) by auto
    qed
    have f: "\<exists>tp off t. message_position m = Some (tp, off) \<and> dict_get (ps_trackers ?s) tp = Some t \<and> off \<le> ot_last_fetched_offset t"
      if m: "m \<in> set msgs" "deliverable ?D ?d m" for m
    proof -
      obtain tp off where p: "message_position m = Some (tp, off)" "dict_get ?d tp \<noteq> None"
        using m(2) by (auto simp: deliverable_def split: option.splits)
      let ?q = "(tp, submit_key mode tp m)"
      have mem: "grouped_of ?d m \<in> set (dict_get_default g ?q [])"
        using m p by (simp add: groups routed_to_def)
      then have "(?q, dict_get_default g ?q []) \<in> set g"
        by (auto simp: dict_get_default_def dest: map_of_SomeD split: option.splits)
      from E(5)[OF this mem] obtain t where t: "dict_get (wm_offset_trackers w) tp = Some t" "off \<le> ot_last_fetched_offset t"
        by (auto simp: grouped_of_def p)
      have "dict_get (ps_trackers ?s) tp = Some t"
        using take_back_tracker[OF t(1), of "ps_broker s1"] p(2) L(5) by (simp add: ps_trackers_def)
      then show ?thesis using p t by auto
    qed
    have "delivers V mode msgs s ?s"
      unfolding delivers_def using E(2,3,7) L(6,7) tf q f by simp
    then show ?thesis using L(1) False run E(1) by (simp add: dispatch_messages_def submit_grouped_messages_def)
  qed
qed

text \<open>The unordered mode: every message is submitted on its own, and the deliveries compose.\<close>

lemma deliversD:
  assumes "delivers V mode msgs s s'"
  shows "wm_inv V {} (br_work_manager (ps_broker s'))"
    "undisturbed (br_work_manager (ps_broker s)) (br_work_manager (ps_broker s'))"
    "assigned (wm_queue_topology (br_work_manager (ps_broker s'))) = assigned (wm_queue_topology (br_work_manager (ps_broker s)))"
    "trackers_fetched (ps_trackers s) (ps_trackers s')"
    "\<exists>new. queue_items (wm_queue_topology (br_work_manager (ps_broker s'))) q =
          queue_items (wm_queue_topology (br_work_manager (ps_broker s))) q @ new \<and>
        list_all2 (carries mode (ps_trackers s))
          (filter (\<lambda>m. deliverable (env_containers V) (ps_trackers s) m \<and> routed_to mode q m) msgs) new"
    "m \<in> set msgs \<Longrightarrow> deliverable (env_containers V) (ps_trackers s) m \<Longrightarrow>
        \<exists>tp off t. message_position m = Some (tp, off) \<and> dict_get (ps_trackers s') tp = Some t \<and> off \<le> ot_last_fetched_offset t"
    "ps_completed_offset_skips s' = ps_completed_offset_skips s +
       int (length (filter (known_complete (env_containers V) (ps_trackers s)) msgs))"
  using assms unfolding delivers_def by blast+

lemma tracked_assigned_delivers: "delivers V mode msgs s s' \<Longrightarrow> tracked_assigned s \<Longrightarrow> tracked_assigned s'"
  using deliversD(3,4) trackers_fetchedD(1) unfolding tracked_assigned_def by metis

lemma delivers_append:
  assumes cov: "fetch_covers (env_containers V) (ps_trackers s)"
    and 1: "delivers V mode ms s s1" and 2: "delivers V mode ns s1 s2"
  shows "delivers V mode (ms @ ns) s s2"
proof -
  let ?D = "env_containers V" and ?d = "ps_trackers s"
  note D1 = deliversD[OF 1] and D2 = deliversD[OF 2] and more = status_more[OF cov D1(4)]
  have q: "\<exists>new. queue_items (wm_queue_topology (br_work_manager (ps_broker s2))) q =
      queue_items (wm_queue_topology (br_work_manager (ps_broker s))) q @ new \<and>
      list_all2 (carries mode ?d) (filter (\<lambda>m. deliverable ?D ?d m \<and> routed_to mode q m) (ms @ ns)) new" for q
  proof -
    obtain n1 where "queue_items (wm_queue_topology (br_work_manager (ps_broker s1))) q =
        queue_items (wm_queue_topology (br_work_manager (ps_broker s))) q @ n1"
      "list_all2 (carries mode ?d) (filter (\<lambda>m. deliverable ?D ?d m \<and> routed_to mode q m) ms) n1"
      using D1(5)[of q] by (elim exE conjE)
    moreover obtain n2 where "queue_items (wm_queue_topology (br_work_manager (ps_broker s2))) q =
        queue_items (wm_queue_topology (br_work_manager (ps_broker s1))) q @ n2"
      "list_all2 (carries mode (ps_trackers s1)) (filter (\<lambda>m. deliverable ?D (ps_trackers s1) m \<and> routed_to mode q m) ns) n2"
      using D2(5)[of q] by (elim exE conjE)
    moreover have "carries mode (ps_trackers s1) = carries mode ?d" by (intro ext) (rule more(3))
    ultimately show ?thesis
      by (intro exI[of _ "n1 @ n2"]) (simp add: more(2) list_all2_appendI)
  qed
  have f: "\<exists>tp off t. message_position m = Some (tp, off) \<and> dict_get (ps_trackers s2) tp = Some t \<and> off \<le> ot_last_fetched_offset t"
    if m: "m \<in> set (ms @ ns)" "deliverable ?D ?d m" for m
  proof (cases "m \<in> set ns")
    case True
    then show ?thesis using D2(6)[of m] m(2) more(2) by simp
  next
    case False
    obtain tp off t where p: "message_position m = Some (tp, off)" "dict_get (ps_trackers s1) tp = Some t" "off \<le> ot_last_fetched_offset t"
      using D1(6)[of m] m False by auto
    then show ?thesis using trackers_fetchedD(2)[OF D2(4) p(2)] by (fastforce simp: fetched_more_def)
  qed
  have kc: "known_complete ?D (ps_trackers s1) = known_complete ?D ?d" by (intro ext) (rule more(1))
  show ?thesis
    unfolding delivers_def using D2(1) undisturbed_trans[OF D1(2) D2(2)] D1(3) D2(3) trackers_fetched_trans[OF D1(4) D2(4)] q f D1(7) D2(7) kc
    by simp
qed

lemma delivers_none:
  assumes "wm_inv V {} (br_work_manager (ps_broker s))" "\<not> deliverable (env_containers V) (ps_trackers s) m"
  shows "delivers V mode [m] s (if known_complete (env_containers V) (ps_trackers s) m then record_completed_offset_skip s else s)"
  using assms by (simp add: delivers_def)

lemma carries_single:
  assumes "message_position m = Some (tp, off)" "dict_get trackers tp = Some t"
    "w = make_work_item i tp (submit_key UNORDERED tp m) (Message off (get_current_epoch t) (km_value m))"
  shows "carries UNORDERED trackers m w"
  using assms by (simp add: carries_def submit_key_def)

lemma unordered_message:
  assumes inv: "wm_inv V {} (br_work_manager (ps_broker s))" "inj (env_uuid V)" "tracked_assigned s"
  shows "\<exists>s'. dispatch_message V UNORDERED dlq m g s = (Inr g, s') \<and> delivers V UNORDERED [m] s s'"
proof (cases "deliverable (env_containers V) (ps_trackers s) m")
  case False
  then have "dispatch_message V UNORDERED dlq m g s =
      (Inr g, if known_complete (env_containers V) (ps_trackers s) m then record_completed_offset_skip s else s)"
    by (auto simp: dispatch_message_def deliverable_def known_complete_def split: option.split)
  then show ?thesis using delivers_none[OF inv(1) False] by simp
next
  case True
  then obtain tp off t where p: "message_position m = Some (tp, off)" "dict_get (ps_trackers s) tp = Some t"
    "\<not> is_completed_uncommitted (env_containers V) off t" by (auto simp: deliverable_def split: option.splits)
  let ?s = "cache_dispatched dlq tp off m s" and ?q = "(tp, submit_key UNORDERED tp m)"
  let ?g = "[(?q, [Message off (get_current_epoch t) (km_value m)])]"
  obtain r w where run: "submit_message_batch V ?g (lend (ps_broker ?s)) = (r, w)" by force
  have "wm_inv V {} (lend (ps_broker ?s))" "\<forall>h \<in> set ?g. assigned (wm_queue_topology (lend (ps_broker ?s))) (fst (fst h))"
    using inv(1,3) p(2) by (simp_all add: lend_inv tracked_assigned_def)
  note E = submit_effect[OF this(1) inv(2) this(2) run]
  let ?s' = "?s\<lparr>ps_broker := take_back w (ps_broker ?s)\<rparr>"
  have tf: "trackers_fetched (ps_trackers s) (ps_trackers ?s')"
    using take_back_fetched[OF E(4)] by (simp add: ps_trackers_def)
  obtain t' where t': "dict_get (wm_offset_trackers w) tp = Some t'" "off \<le> ot_last_fetched_offset t'"
    using E(5)[of ?q "[Message off (get_current_epoch t) (km_value m)]" "Message off (get_current_epoch t) (km_value m)"] by auto
  have reach: "dict_get (ps_trackers ?s') tp = Some t'"
    using take_back_tracker[OF t'(1), of "ps_broker ?s"] p(2) by (simp add: ps_trackers_def)
  have q: "\<exists>new. queue_items (wm_queue_topology w) q = queue_items (wm_queue_topology (br_work_manager (ps_broker s))) q @ new \<and>
      list_all2 (carries UNORDERED (ps_trackers s)) (filter (routed_to UNORDERED q) [m]) new" for q
  proof -
    obtain new where new: "queue_items (wm_queue_topology w) q = queue_items (wm_queue_topology (br_work_manager (ps_broker s))) q @ new"
      "made_from q (messages_for q ?g) new" using E(6)[of q] by auto
    have "list_all2 (carries UNORDERED (ps_trackers s)) (filter (routed_to UNORDERED q) [m]) new"
      using new(2) p by (auto simp: made_from_def messages_for_def routed_to_def list_all2_Cons1
          simp del: make_work_item.simps intro: carries_single split: if_splits)
    then show ?thesis using new(1) by (intro exI[of _ new]) simp
  qed
  have q': "\<exists>new. queue_items (wm_queue_topology w) q = queue_items (wm_queue_topology (br_work_manager (ps_broker s))) q @ new \<and>
      list_all2 (carries UNORDERED (ps_trackers s))
        (filter (\<lambda>m. deliverable (env_containers V) (ps_trackers s) m \<and> routed_to UNORDERED q m) [m]) new" for q
    using q[of q] True by (cases "routed_to UNORDERED q m") simp_all
  have nk: "\<not> known_complete (env_containers V) (ps_trackers s) m" using p by (simp add: known_complete_def)
  have "delivers V UNORDERED [m] s ?s'"
    unfolding delivers_def using E(2,3,7) tf q' reach t'(2) p True nk by (simp del: split_paired_All filter.simps)
  moreover have "dispatch_message V UNORDERED dlq m g s = (Inr g, ?s')"
    using p run E(1) by (simp add: dispatch_message_def submit_message_def Let_def)
  ultimately show ?thesis by blast
qed

lemma unordered_loop:
  assumes "wm_inv V {} (br_work_manager (ps_broker s))" "inj (env_uuid V)" "tracked_assigned s"
    "fetch_covers (env_containers V) (ps_trackers s)"
  shows "\<exists>s'. dispatch_loop V UNORDERED dlq ms g s = (Inr g, s') \<and> delivers V UNORDERED ms s s'"
  using assms
proof (induction ms arbitrary: s)
  case (Cons m ms)
  obtain s1 where 1: "dispatch_message V UNORDERED dlq m g s = (Inr g, s1)" "delivers V UNORDERED [m] s s1"
    using unordered_message[OF Cons.prems(1-3), of dlq m g] by blast
  obtain s2 where 2: "dispatch_loop V UNORDERED dlq ms g s1 = (Inr g, s2)" "delivers V UNORDERED ms s1 s2"
    using Cons.IH[OF deliversD(1)[OF 1(2)] Cons.prems(2) tracked_assigned_delivers[OF 1(2) Cons.prems(3)]
        fetch_covers_more[OF Cons.prems(4) deliversD(4)[OF 1(2)]]] by blast
  show ?case using 1(1) 2(1) delivers_append[OF Cons.prems(4) 1(2) 2(2)] by simp
qed (simp add: delivers_def)

lemma dispatch_delivers:
  assumes "wm_inv V {} (br_work_manager (ps_broker s))" "inj (env_uuid V)" "tracked_assigned s"
    "fetch_covers (env_containers V) (ps_trackers s)"
  shows "\<exists>s'. dispatch_messages V mode dlq msgs s = (Inr (), s') \<and> delivers V mode msgs s s'"
proof (cases "mode = UNORDERED")
  case True
  obtain s' where "dispatch_loop V UNORDERED dlq msgs [] s = (Inr [], s')" "delivers V UNORDERED msgs s s'"
    using unordered_loop[OF assms, of dlq msgs "[]"] by blast
  then show ?thesis using True by (simp add: dispatch_messages_def submit_grouped_messages_def)
qed (use ordered_delivers[OF assms(1-3)] in blast)

text \<open>
  C4. Dispatching a poll never raises while the tracked partitions are assigned. Every virtual
  queue is extended at its end by exactly the records for it that have a position in a tracked
  partition and are not known to be complete, in the order of the poll, each with its key,
  payload and the current epoch; records restored as complete are counted as skipped and never
  queued; and every queued record counts as fetched, so that no commit can pass it.
\<close>

theorem dispatch_queues_open_records:
  assumes "wm_run V m (br_work_manager (ps_broker s))" "env_ok V" "tracked_assigned s"
    "fetch_covers (env_containers V) (ps_trackers s)"
  shows "\<exists>s'. dispatch_messages V mode dlq msgs s = (Inr (), s') \<and>
    (\<forall>q. \<exists>new. queue_items (wm_queue_topology (br_work_manager (ps_broker s'))) q =
         queue_items (wm_queue_topology (br_work_manager (ps_broker s))) q @ new \<and>
       list_all2 (carries mode (ps_trackers s))
         (filter (\<lambda>r. deliverable (env_containers V) (ps_trackers s) r \<and> routed_to mode q r) msgs) new) \<and>
    ps_completed_offset_skips s' = ps_completed_offset_skips s +
      int (length (filter (known_complete (env_containers V) (ps_trackers s)) msgs)) \<and>
    (\<forall>r \<in> set msgs. deliverable (env_containers V) (ps_trackers s) r \<longrightarrow>
       (\<exists>tp off t. message_position r = Some (tp, off) \<and> dict_get (ps_trackers s') tp = Some t \<and>
          off \<le> ot_last_fetched_offset t))"
proof -
  have inv: "wm_inv V {} (br_work_manager (ps_broker s))" by (rule wm_goodD(1)[OF wm_run_good[OF assms(1,2)]])
  have inj: "inj (env_uuid V)" using assms(2) by (simp add: env_ok_def)
  obtain s' where s': "dispatch_messages V mode dlq msgs s = (Inr (), s')" "delivers V mode msgs s s'"
    using dispatch_delivers[OF inv inj assms(3,4), of mode dlq msgs] by (elim exE conjE)
  show ?thesis
  proof (intro exI[of _ s'] conjI allI ballI impI)
    show "\<exists>new. queue_items (wm_queue_topology (br_work_manager (ps_broker s'))) q =
         queue_items (wm_queue_topology (br_work_manager (ps_broker s))) q @ new \<and>
       list_all2 (carries mode (ps_trackers s))
         (filter (\<lambda>r. deliverable (env_containers V) (ps_trackers s) r \<and> routed_to mode q r) msgs) new" for q
      by (rule deliversD(5)[OF s'(2)])
    show "\<exists>tp off t. message_position r = Some (tp, off) \<and> dict_get (ps_trackers s') tp = Some t \<and>
        off \<le> ot_last_fetched_offset t"
      if "r \<in> set msgs" "deliverable (env_containers V) (ps_trackers s) r" for r
      by (rule deliversD(6)[OF s'(2) that])
  qed (use s'(1) deliversD(7)[OF s'(2)] in simp_all)
qed

section \<open>A concrete poll\<close>

text \<open>Ordering keys in a fixed linear order, so that finite sets of them can be listed.\<close>

fun value_rank :: "cached_value \<Rightarrow> int list" where
  "value_rank NoneValue = [0]"
| "value_rank (MemoryView n) = [1, int n]"
| "value_rank (Bytes bs) = 2 # map uint bs"
| "value_rank (Str cs) = 3 # map int cs"
| "value_rank OtherValue = [4]"

fun key_rank :: "dispatch_key \<Rightarrow> int list" where
  "key_rank (PartitionKey p) = [0, p]"
| "key_rank (MessageKey v) = 1 # value_rank v"

lemma inj_value_rank: "value_rank a = value_rank b \<Longrightarrow> a = b"
  by (cases a; cases b) (auto dest: map_injective[OF _ injI])

lemma inj_key_rank: "key_rank a = key_rank b \<Longrightarrow> a = b"
  by (cases a; cases b) (auto dest: inj_value_rank)

instantiation dispatch_key :: linorder
begin

definition less_eq_dispatch_key :: "dispatch_key \<Rightarrow> dispatch_key \<Rightarrow> bool" where
  "less_eq_dispatch_key a b \<longleftrightarrow> key_rank a \<le> key_rank b"

definition less_dispatch_key :: "dispatch_key \<Rightarrow> dispatch_key \<Rightarrow> bool" where
  "less_dispatch_key a b \<longleftrightarrow> key_rank a < key_rank b"

instance
  by standard (auto simp: less_eq_dispatch_key_def less_dispatch_key_def intro: inj_key_rank)

end

text \<open>
  An engine that accepts everything and reports what it holds, with a partition restored from a
  commit at offset 5 whose snapshot lists 7 as complete.
\<close>

definition echo_completion :: "(dispatch_key, cached_value) work_item \<Rightarrow> completion_event" where
  "echo_completion w =
     \<lparr>ce_id = wi_id w, ce_tp = wi_tp w, ce_offset = wi_offset w, ce_epoch = wi_epoch w,
      ce_status = SUCCESS, ce_error = None, ce_attempt = 1\<rparr>"

definition echo_engine :: "((dispatch_key, cached_value) work_item, (dispatch_key, cached_value) work_item list) engine_ops" where
  "echo_engine =
     \<lparr>eng_supports_ordered_route_batch = False,
      eng_submit = (\<lambda>w e. (Accepted, e @ [w])),
      eng_submit_batch = default_submit_batch (\<lambda>w e. (Accepted, e @ [w])) 0,
      eng_poll_completed_events = (\<lambda>e. (map echo_completion e, []))\<rparr>"

type_synonym echo_state =
  "(int list, (gap_key \<times> offset_range list) option, (dispatch_key, cached_value) work_item list) poll_state"

definition echo_env :: "(int list, (gap_key \<times> offset_range list) option, (dispatch_key, cached_value) work_item list) dispatch_env" where
  "echo_env =
     \<lparr>env_containers = list_containers, env_engine = echo_engine, env_clock = (\<lambda>n. real n),
      env_uuid = (\<lambda>n. replicate n (CHR ''x'')), env_set_order = sorted_list_of_set\<rparr>"

definition echo_trackers :: "(int list, (gap_key \<times> offset_range list) option) trackers" where
  "echo_trackers =
     (case build_assignments list_containers ''metadata_snapshot'' 500
        (Some [\<lparr>kp_topic = ''t'', kp_partition = 0, kp_offset = Some 5, kp_metadata = Some ''R7''\<rparr>])
        [\<lparr>kp_topic = ''t'', kp_partition = 0, kp_offset = None, kp_metadata = None\<rparr>] of
        Inl e \<Rightarrow> [] | Inr d \<Rightarrow> d)"

definition echo_initial :: "ordering_mode \<Rightarrow> echo_state" where
  "echo_initial mode =
     \<lparr>ps_broker = \<lparr>br_completion = \<lparr>bs_offset_trackers = [], bs_dlq_cache = empty_cache, bs_pending_dlq_events = []\<rparr>,
          br_ledger = \<lparr>sl_dirty_commit_partitions = {}, sl_unsettled_completions = [], sl_unsettled_timestamps = [],
            sl_completions_since_last_commit = 0\<rparr>,
          br_work_manager = (case work_manager_init [] 2 mode 100 500 None 1 of Inr s \<Rightarrow> s), br_coordinator = None\<rparr>,
      ps_completed_offset_skips = 0, ps_poll_records = 0, ps_poll_nonempty = 0, ps_poll_empty = 0, ps_poll_error = 0\<rparr>"

definition echo_assigned :: "ordering_mode \<Rightarrow> echo_state" where
  "echo_assigned mode = (echo_initial mode)\<lparr>ps_broker := assign_sync echo_env echo_trackers (ps_broker (echo_initial mode))\<rparr>"

definition echo_poll :: "kafka_message list" where
  "echo_poll = map (\<lambda>n. \<lparr>km_error = False, km_topic = Some ''t'', km_partition = Some 0, km_offset = Some n,
     km_key = Bytes [word_of_int (n mod 2)], km_value = Bytes [word_of_int n]\<rparr>) [5, 6, 7, 8]"

lemma echo_env_ok: "env_ok echo_env"
proof -
  have "inj (env_uuid echo_env)"
    by (rule injI) (metis echo_env_def length_replicate wm_env.select_convs(4))
  moreover have "set_enumeration echo_env"
    by (simp add: set_enumeration_def echo_env_def)
  moreover have "batch_engine (eng_submit_batch echo_engine)"
    unfolding echo_engine_def engine_ops.select_convs by (rule default_batch.batch_engine_axioms)
  ultimately show ?thesis
    by (simp add: env_ok_def engine_contract_def echo_env_def echo_engine_def)
qed

lemma echo_tracker:
  "map (\<lambda>(tp, t). (tp, ot_last_committed_offset t, ot_completed_offsets t, ot_last_fetched_offset t, ot_epoch t)) echo_trackers =
     [(part0, 4, [7], 7, 1)]"
  by code_simp

lemma echo_trackers_eq:
  obtains t where "echo_trackers \<equiv> [(part0, t)]" "ot_last_committed_offset t = 4" "ot_completed_offsets t = [7]"
    "ot_last_fetched_offset t = 7" "ot_epoch t = 1"
proof -
  obtain t where t: "echo_trackers = [(part0, t)]" "ot_last_committed_offset t = 4" "ot_completed_offsets t = [7]"
      "ot_last_fetched_offset t = 7" "ot_epoch t = 1"
    using echo_tracker unfolding map_eq_Cons_conv by force
  show thesis by (rule that[OF eq_reflection[OF t(1)] t(2-5)])
qed

lemma echo_trackers_get:
  assumes "dict_get echo_trackers tp = Some t"
  shows "tp = part0 \<and> ot_last_committed_offset t = 4 \<and> ot_completed_offsets t = [7] \<and> ot_last_fetched_offset t = 7 \<and> ot_epoch t = 1"
proof (rule echo_trackers_eq)
  fix u assume u: "echo_trackers \<equiv> [(part0, u)]" "ot_last_committed_offset u = 4" "ot_completed_offsets u = [7]"
      "ot_last_fetched_offset u = 7" "ot_epoch u = 1"
  show ?thesis using assms u(2-5) unfolding u(1) by (simp split: if_splits)
qed

lemma echo_trackers_keys: "map fst echo_trackers = [part0]"
proof (rule echo_trackers_eq)
  fix u assume u: "echo_trackers \<equiv> [(part0, u)]"
  show ?thesis unfolding u by simp
qed

lemma echo_run: "wm_run echo_env 2 (br_work_manager (ps_broker (echo_assigned mode)))"
proof -
  let ?w = "br_work_manager (ps_broker (echo_initial mode)) ::
    (dispatch_key, cached_value, int list, (gap_key \<times> offset_range list) option, (dispatch_key, cached_value) work_item list) work_manager"
  have init: "work_manager_init [] 2 mode 100 500 None 1 = Inr ?w"
    by (simp add: echo_initial_def work_manager_init_def)
  have "wm_run echo_env 2 (on_assign echo_env (map (\<lambda>(tp, t). (tp, SharedTracker t)) echo_trackers) ?w)"
    by (rule run_assign[OF run_init[OF init]])
      (use echo_trackers_keys in \<open>simp_all add: dict_wf_def split_beta comp_def assigned_def echo_initial_def
        work_manager_init_def topology_init_def dict_has_def\<close>)
  then show ?thesis by (simp add: echo_assigned_def assign_sync_def)
qed

lemma echo_ready:
  "ps_trackers (echo_assigned mode) = echo_trackers"
  "tracked_assigned (echo_assigned mode)" "fetch_covers list_containers echo_trackers"
proof -
  show t: "ps_trackers (echo_assigned mode) = echo_trackers"
  proof (rule echo_trackers_eq)
    fix u assume u: "echo_trackers \<equiv> [(part0, u)]"
    show ?thesis by (simp add: echo_assigned_def assign_sync_def ps_trackers_def echo_initial_def u)
  qed
  have inv: "wm_inv echo_env {} (br_work_manager (ps_broker (echo_assigned mode)))"
    by (rule wm_goodD(1)[OF wm_run_good[OF echo_run echo_env_ok]])
  have "map fst (wm_offset_trackers (br_work_manager (ps_broker (echo_assigned mode)))) = [part0]"
    by (cases mode) code_simp+
  then have "dict_get (wm_offset_trackers (br_work_manager (ps_broker (echo_assigned mode)))) part0 \<noteq> None"
    by (metis list.set_intros(1) map_of_eq_None_iff set_map)
  then show "tracked_assigned (echo_assigned mode)"
    using managed_invD(1)[OF wm_invD(3)[OF inv], of part0] echo_trackers_get by (fastforce simp: tracked_assigned_def t)
  show "fetch_covers list_containers echo_trackers"
    unfolding fetch_covers_def by (auto simp: list_containers_simps dest!: echo_trackers_get)
qed

definition echo_dlq :: dlq_config where
  "echo_dlq = \<lparr>dq_enabled = True, dq_payload_mode = FULL, dq_cache_max_bytes = 100\<rparr>"

theorem dispatch_queues_open_records_witness:
  "\<exists>s'. dispatch_messages echo_env KEY_HASH echo_dlq echo_poll (echo_assigned KEY_HASH) = (Inr (), s') \<and>
     map wi_offset (queue_items (wm_queue_topology (br_work_manager (ps_broker s'))) (part0, MessageKey (Bytes [0]))) = [6, 8] \<and>
     ps_completed_offset_skips s' = 1"
proof -
  let ?q = "(part0, MessageKey (Bytes [0]))" and ?s = "echo_assigned KEY_HASH"
  have D: "env_containers echo_env = list_containers" by (simp add: echo_env_def)
  obtain s' new where s': "dispatch_messages echo_env KEY_HASH echo_dlq echo_poll ?s = (Inr (), s')"
    "queue_items (wm_queue_topology (br_work_manager (ps_broker s'))) ?q =
       queue_items (wm_queue_topology (br_work_manager (ps_broker ?s))) ?q @ new"
    "list_all2 (carries KEY_HASH echo_trackers)
       (filter (\<lambda>r. deliverable list_containers echo_trackers r \<and> routed_to KEY_HASH ?q r) echo_poll) new"
    "ps_completed_offset_skips s' = ps_completed_offset_skips ?s +
      int (length (filter (known_complete list_containers echo_trackers) echo_poll))"
    using dispatch_queues_open_records[OF echo_run[of KEY_HASH] echo_env_ok echo_ready(2), of KEY_HASH echo_dlq echo_poll]
      echo_ready(3) unfolding D echo_ready(1) by blast
  have old: "queue_items (wm_queue_topology (br_work_manager (ps_broker ?s))) ?q = []" "ps_completed_offset_skips ?s = 0"
    "length (filter (known_complete list_containers echo_trackers) echo_poll) = 1" by code_simp+
  have del: "map message_position (filter (\<lambda>r. deliverable list_containers echo_trackers r \<and> routed_to KEY_HASH ?q r) echo_poll) =
      [Some (part0, 6), Some (part0, 8)]" by code_simp
  have "map (\<lambda>w. Some (wi_tp w, wi_offset w)) new = map message_position
      (filter (\<lambda>r. deliverable list_containers echo_trackers r \<and> routed_to KEY_HASH ?q r) echo_poll)"
    using s'(3) by (induction rule: list_all2_induct) (auto simp: carries_def)
  then have "map wi_offset new = [6, 8]" unfolding del by auto
  then show ?thesis using s' old by simp
qed

end
