(* ===== verification/Work_Custody.thy ===== *)
theory Work_Custody
  imports Work_Properties
begin

text \<open>
  Custody of work items: what the work manager does with an item between its submission and the
  completion it reports. A registered item is queued, dispatched or has a completion event
  pending; scheduling removes no item; polling removes an item only together with the completion
  event it returns for it; and neither touches a tracker that is shared with the poller.
\<close>

definition in_custody :: "('k, 'p, 's, 'c, 'e) work_manager \<Rightarrow> bool" where
  "in_custody s \<longleftrightarrow>
     (\<forall>i w. item_of s i = Some w \<longrightarrow> queued s w \<or> i \<in> dispatched s \<or> i \<in> ce_id ` set (wm_completion_queue s))"

text \<open>A completion event that names an item with its partition, offset and epoch.\<close>

definition reports :: "completion_event \<Rightarrow> ('k, 'p) work_item \<Rightarrow> bool" where
  "reports ev w \<longleftrightarrow> ce_id ev = wi_id w \<and> ce_tp ev = wi_tp w \<and> ce_offset ev = wi_offset w \<and> ce_epoch ev = wi_epoch w"

definition all_shared :: "('k, 'p, 's, 'c, 'e) work_manager \<Rightarrow> bool" where
  "all_shared s \<longleftrightarrow> (\<forall>tp. dict_get (wm_offset_trackers s) tp \<noteq> None \<longrightarrow> tp \<in> wm_shared_offset_trackers s)"

section \<open>Shared trackers\<close>

lemma shared_locks [simp]:
  "wm_shared_offset_trackers (record_ordering_lock w s) = wm_shared_offset_trackers s"
  "wm_shared_offset_trackers (release_ordering_lock w s) = wm_shared_offset_trackers s"
  by (simp_all add: record_ordering_lock_def release_ordering_lock_def Let_def split: ordering_mode.split)

lemma shared_submitted [simp]: "wm_shared_offset_trackers (record_submitted_items V ws s) = wm_shared_offset_trackers s"
  unfolding record_submitted_items_def
  by (induction ws arbitrary: s) (simp_all add: record_submitted_item_def read_clock_def Let_def)

lemma shared_ask [simp]: "wm_shared_offset_trackers (snd (ask_circuit V w s)) = wm_shared_offset_trackers s"
  by (simp add: ask_circuit_def read_clock_def Let_def case_prod_beta split: option.splits)

lemma shared_truncate_loop [simp]: "wm_shared_offset_trackers (snd (truncate_loop V ws s)) = wm_shared_offset_trackers s"
  by (induction ws arbitrary: s) (simp_all add: case_prod_beta split: bool.split)

lemma shared_dispatch:
  "wm_shared_offset_trackers (snd (snd (dispatch_batch V q queue items truncated K s))) = wm_shared_offset_trackers s"
  by (simp add: dispatch_batch_def submit_to_engine_def Let_def case_prod_beta split: submit_outcome.split)

lemma shared_serve: "wm_shared_offset_trackers (snd (snd (serve_queue V q queue K s))) = wm_shared_offset_trackers s"
proof -
  have ff: "wm_shared_offset_trackers (snd (force_fail_queued_item V w q s)) = wm_shared_offset_trackers s" for w
  proof -
    obtain v s1 where ask: "ask_circuit V w s = (v, s1)" by force
    then have "wm_shared_offset_trackers s1 = wm_shared_offset_trackers s" using shared_ask[of V w s] by simp
    moreover obtain d T where "dequeue_submitted_item (fst q) (snd q) (wm_queue_topology s1) = (d, T)" by force
    ultimately show ?thesis
      using ask by (cases v; cases d) (simp_all add: force_fail_queued_item_def invalidate_blocking_cache_def)
  qed
  have tr: "wm_shared_offset_trackers (snd (truncate_batch_before_force_fail V ws t)) = wm_shared_offset_trackers t" for ws t
    by (simp add: truncate_batch_before_force_fail_def)
  show ?thesis
  proof (cases "select_same_queue_batch V queue s")
    case Nil
    then show ?thesis by (simp add: serve_queue_def)
  next
    case (Cons item items)
    obtain b s2 where 2: "force_fail_queued_item V item q s = (b, s2)" by force
    obtain acc s3 where 3: "truncate_batch_before_force_fail V (item # items) s2 = (acc, s3)" by force
    have "wm_shared_offset_trackers s2 = wm_shared_offset_trackers s" "wm_shared_offset_trackers s3 = wm_shared_offset_trackers s2"
      using ff[of item] tr[of "item # items" s2] 2 3 by simp_all
    then show ?thesis using Cons 2 3 by (cases b) (simp_all add: serve_queue_def shared_dispatch)
  qed
qed

lemma shared_step: "wm_shared_offset_trackers (snd (snd (schedule_step V bs K s))) = wm_shared_offset_trackers s"
  by (auto simp: schedule_step_unfold pop_queue_key_def shared_serve split: prod.split sum.split option.split)

lemma shared_loop:
  "schedule_loop fuel V bs K s = Some (r, K', s') \<Longrightarrow> wm_shared_offset_trackers s' = wm_shared_offset_trackers s"
proof (induction fuel arbitrary: K s)
  case (Suc fuel)
  obtain x K1 s1 where 1: "schedule_step V bs K s = (x, K1, s1)" by (metis prod_cases3)
  have "wm_shared_offset_trackers s1 = wm_shared_offset_trackers s" using shared_step[of V bs K s] 1 by simp
  then show ?case using Suc.prems Suc.IH[of K1 s1] 1 by (cases x) auto
qed simp

lemma shared_refresh: "wm_shared_offset_trackers (fold refresh_deferred qs s) = wm_shared_offset_trackers s"
  by (induction qs arbitrary: s) (simp_all add: refresh_deferred_def split: option.split)

lemma shared_schedule:
  assumes "schedule fuel V s = Some (r, s')"
  shows "wm_shared_offset_trackers s' = wm_shared_offset_trackers s"
proof -
  obtain K s2 where l: "schedule_loop fuel V (fst (schedule_blocking V s)) {} (snd (schedule_blocking V s)) = Some (r, K, s2)"
    "s' = fold refresh_deferred (env_set_order V K) s2"
    using assms by (auto simp: schedule_def Let_def case_prod_beta split: option.splits)
  have "wm_shared_offset_trackers (snd (schedule_blocking V s)) = wm_shared_offset_trackers s"
    by (simp add: schedule_blocking_def get_blocking_offsets_def Let_def)
  then show ?thesis using shared_loop[OF l(1)] l(2) by (simp add: shared_refresh)
qed

section \<open>Scheduling\<close>

text \<open>What scheduling and polling leave alone.\<close>

definition trackers_kept :: "('k, 'p, 's, 'c, 'e) work_manager \<Rightarrow> ('k, 'p, 's, 'c, 'e) work_manager \<Rightarrow> bool" where
  "trackers_kept s s' \<longleftrightarrow>
     dict_get (wm_offset_trackers s') = dict_get (wm_offset_trackers s) \<and>
     wm_shared_offset_trackers s' = wm_shared_offset_trackers s"

lemma trackers_kept_refl [simp]: "trackers_kept s s"
  by (simp add: trackers_kept_def)

lemma trackers_kept_trans: "trackers_kept s t \<Longrightarrow> trackers_kept t u \<Longrightarrow> trackers_kept s u"
  by (simp add: trackers_kept_def)

lemma trackers_kept_shared: "trackers_kept s s' \<Longrightarrow> all_shared s' = all_shared s"
  by (simp add: trackers_kept_def all_shared_def)

lemma schedule_blocking_shared:
  assumes "all_shared s"
  shows "dict_get (wm_offset_trackers (snd (schedule_blocking V s))) = dict_get (wm_offset_trackers s)"
proof
  fix tp
  show "dict_get (wm_offset_trackers (snd (schedule_blocking V s))) tp = dict_get (wm_offset_trackers s) tp"
    using assms get_blocking_trackers[of V s tp]
    by (cases "dict_get (wm_offset_trackers s) tp")
      (auto simp: schedule_blocking_def Let_def case_prod_beta blocking_offset_of_def all_shared_def)
qed

lemma schedule_result:
  assumes "env_ok V" "wm_good V m s" "schedule fuel V s = Some (r, s')"
  shows "r = Inr ()"
proof -
  define n where "n = max fuel (Suc (nat (wm_total_queued_messages s)))"
  have n: "wm_total_queued_messages s < int n" by (simp add: n_def)
  obtain s2 where "schedule n V s = Some (Inr (), s2)"
    using schedule_terminates[OF wm_goodD(1,2)[OF assms(2)] _ n] assms(1) by (auto simp: env_ok_def)
  moreover have "schedule n V s = Some (r, s')" by (rule schedule_mono[OF assms(3)]) (simp add: n_def)
  ultimately show ?thesis by simp
qed

lemma schedule_custody:
  assumes env: "env_ok V" and good: "wm_good V m s" and shared: "all_shared s"
    and run: "schedule fuel V s = Some (r, s')"
  shows "r = Inr ()" "wm_good V m s'" "trackers_kept s s'" "wm_in_flight_work_items s' = wm_in_flight_work_items s"
    "in_custody s \<Longrightarrow> in_custody s'"
proof -
  let ?b = "snd (schedule_blocking V s)"
  note B = schedule_blocking_frame[where V = V and s = s]
  show "r = Inr ()" by (rule schedule_result[OF env good run])
  have S: "wm_good V m s'" "schedule_spec V s s'" using schedule_good[OF env good run] by simp_all
  show "wm_good V m s'" by (rule S(1))
  have P: "progressed ?b s'" using S(2) by (simp add: schedule_spec_def)
  show "trackers_kept s s'"
    using P schedule_blocking_shared[OF shared, of V] shared_schedule[OF run]
    by (simp add: trackers_kept_def progressed_def)
  show items: "wm_in_flight_work_items s' = wm_in_flight_work_items s"
    using P B(1) by (simp add: progressed_def same_ledger_def)
  show "in_custody s'" if cust: "in_custody s"
    unfolding in_custody_def
  proof (intro allI impI)
    fix i w assume it: "item_of s' i = Some w"
    have ids: "wi_id w = i" using ledger_invD(4)[OF wm_invD(1)[OF wm_goodD(1)[OF S(1)]] it] .
    have dis: "dispatched s \<subseteq> dispatched s'"
      using P same_ledger_dispatched[OF B(1)] by (simp add: progressed_def)
    have cq: "set (wm_completion_queue s) \<subseteq> set (wm_completion_queue s')"
      using P B(4) by (auto simp: progressed_def)
    have "queued s w \<or> i \<in> dispatched s \<or> i \<in> ce_id ` set (wm_completion_queue s)"
      using cust it items by (simp add: in_custody_def)
    then show "queued s' w \<or> i \<in> dispatched s' \<or> i \<in> ce_id ` set (wm_completion_queue s')"
    proof (elim disjE)
      assume q: "queued s w"
      obtain xs where "taken_off ?b s' (route_of w) xs" using P unfolding progressed_def by blast
      then show ?thesis using q B(2) ids by (auto simp: taken_off_def queued_def)
    qed (use dis cq in auto)
  qed
qed

section \<open>Polling\<close>

lemma process_event_items:
  assumes "wm_inv V K s" "event_ok V s ev"
  shows "item_of (snd (process_completion_event V ev s)) i = (if i = ce_id ev then None else item_of s i)"
proof (cases "item_of s (ce_id ev)")
  case None
  then show ?thesis by (auto simp: process_cases split: option.split)
next
  case (Some w)
  have tp: "wi_tp w = ce_tp ev" using assms(2) Some by (simp add: event_ok_def)
  then have "dict_get (wm_offset_trackers s) (ce_tp ev) \<noteq> None"
    using managed_invD(1)[OF wm_invD(3)[OF assms(1)], of "wi_tp w"] managed_invD(2)[OF wm_invD(3)[OF assms(1)] Some] by simp
  then show ?thesis using Some tp by (auto simp: process_cases dict_simps split: option.split)
qed

lemma settle_event_shared: "wm_shared_offset_trackers (settle_event V ev w s) = wm_shared_offset_trackers s"
  by (simp add: settle_event_def Let_def pop_dispatch_timestamp_def record_poison_completion_def
      observe_latency_def read_clock_def record_completion_latency_def prune_completion_timestamps_def
      split: option.splits)

lemma settle_event_dispatched: "dispatched (settle_event V ev w s) = dispatched s - {ce_id ev}"
  by (simp add: settle_event_def Let_def same_ledger_dispatched[OF observe_latency_same]
      same_ledger_dispatched[OF record_poison_same])

lemma process_event_keeps:
  "all_shared s \<Longrightarrow> trackers_kept s (snd (process_completion_event V ev s))"
  "i \<noteq> ce_id ev \<Longrightarrow> i \<in> dispatched s \<Longrightarrow> i \<in> dispatched (snd (process_completion_event V ev s))"
proof -
  have mark: "mark_event V ev t s = s" if "all_shared s" "dict_get (wm_offset_trackers s) (ce_tp ev) = Some t" for t
    using that by (auto simp: mark_event_def all_shared_def)
  show "trackers_kept s (snd (process_completion_event V ev s))" if sh: "all_shared s"
    using mark[OF sh]
    by (auto simp: process_cases trackers_kept_def settle_event_shared pop_dispatch_timestamp_def split: option.split)
  have "dispatched (mark_event V ev t s) = dispatched s" for t
    using same_ledger_dispatched[OF mark_event_same] by simp
  then show "i \<in> dispatched (snd (process_completion_event V ev s))" if "i \<noteq> ce_id ev" "i \<in> dispatched s"
    using that by (auto simp: process_cases settle_event_dispatched split: option.split)
qed

lemma process_events_custody:
  assumes "wm_inv V K s" "\<And>ev. ev \<in> set evs \<Longrightarrow> event_ok V s ev" "all_shared s"
  shows "(\<forall>i. item_of (snd (process_events V evs b s)) i = (if i \<in> ce_id ` set evs then None else item_of s i)) \<and>
    (\<forall>i. i \<in> dispatched s \<and> i \<notin> ce_id ` set evs \<longrightarrow> i \<in> dispatched (snd (process_events V evs b s))) \<and>
    trackers_kept s (snd (process_events V evs b s))"
  using assms
proof (induction evs arbitrary: b s)
  case (Cons ev evs)
  let ?s = "snd (process_completion_event V ev s)"
  have ok: "event_ok V s ev" using Cons.prems(2) by simp
  have kept: "trackers_kept s ?s" by (rule process_event_keeps(1)[OF Cons.prems(3)])
  have "(\<forall>i. item_of (snd (process_events V evs b' ?s)) i = (if i \<in> ce_id ` set evs then None else item_of ?s i)) \<and>
    (\<forall>i. i \<in> dispatched ?s \<and> i \<notin> ce_id ` set evs \<longrightarrow> i \<in> dispatched (snd (process_events V evs b' ?s))) \<and>
    trackers_kept ?s (snd (process_events V evs b' ?s))" for b'
    by (rule Cons.IH[OF process_event_inv[OF Cons.prems(1) ok] process_event_ok[OF Cons.prems(2)]])
      (use Cons.prems(3) kept in \<open>auto simp: trackers_kept_shared\<close>)
  then show ?case
    using process_event_items[OF Cons.prems(1) ok] process_event_keeps(2)[of _ ev s V] trackers_kept_trans[OF kept]
    by (auto simp: case_prod_beta)
qed simp

lemma drain_custody:
  assumes inv: "wm_inv V {} s" and sh: "all_shared s" and cust: "in_custody s"
    and dr: "drain_completion_queue V s = (evs, b, s1)"
  shows "evs = wm_completion_queue s" "in_custody s1" "trackers_kept s s1"
    "item_of s1 i = Some w \<Longrightarrow> item_of s i = Some w"
    "item_of s i = Some w \<Longrightarrow> item_of s1 i = Some w \<or> (\<exists>ev\<in>set evs. reports ev w)"
proof -
  let ?c = "s\<lparr>wm_completion_queue := []\<rparr>"
  show evs: "evs = wm_completion_queue s" by (rule drain_frame(5)[OF dr])
  have s1: "s1 = snd (process_events V evs False ?c)" using dr by (auto simp: drain_completion_queue_def Let_def)
  note ok = managed_invD(3)[OF wm_invD(3)[OF inv]]
  have ci: "wm_inv V {} ?c" by (rule wm_inv_completion_queue[OF inv]) simp
  have led: "dispatched ?c = dispatched s" by (rule same_ledger_dispatched) (simp add: same_ledger_def)
  have P: "\<And>i. item_of s1 i = (if i \<in> ce_id ` set evs then None else item_of s i)"
    "\<And>i. i \<in> dispatched s \<Longrightarrow> i \<notin> ce_id ` set evs \<Longrightarrow> i \<in> dispatched s1" "trackers_kept ?c s1"
    using process_events_custody[OF ci, of evs False] ok sh evs led by (simp_all add: s1 all_shared_def)
  show "trackers_kept s s1" using P(3) by (simp add: trackers_kept_def)
  show "item_of s1 i = Some w \<Longrightarrow> item_of s i = Some w" by (simp add: P(1) split: if_splits)
  show "item_of s1 i = Some w \<or> (\<exists>ev\<in>set evs. reports ev w)" if it: "item_of s i = Some w"
  proof (cases "i \<in> ce_id ` set evs")
    case True
    then obtain ev where ev: "ev \<in> set evs" "ce_id ev = i" by blast
    then have "reports ev w"
      using ok[of ev] evs it ledger_invD(4)[OF wm_invD(1)[OF inv] it] by (simp add: reports_def event_ok_def)
    then show ?thesis using ev by blast
  qed (simp add: P(1) it)
  show "in_custody s1"
    unfolding in_custody_def
  proof (intro allI impI)
    fix i w assume it: "item_of s1 i = Some w"
    then have i: "item_of s i = Some w" "i \<notin> ce_id ` set evs" by (auto simp: P(1) split: if_splits)
    then have "queued s w \<or> i \<in> dispatched s" using cust evs by (auto simp: in_custody_def)
    then show "queued s1 w \<or> i \<in> dispatched s1 \<or> i \<in> ce_id ` set (wm_completion_queue s1)"
      using P(2) i(2) drain_frame(4)[OF dr] by (auto simp: queued_def)
  qed
qed

text \<open>A poll returns an event for every item it lets go.\<close>

lemma poll_loop_custody:
  assumes "env_ok V" "wm_good V m s" "all_shared s" "in_custody s"
    "poll_loop rounds fuel V after completed s = Some (out, s')"
  shows "\<exists>evs. out = Inr (completed @ evs) \<and> wm_good V m s' \<and> trackers_kept s s' \<and> in_custody s' \<and>
    (\<forall>i w. item_of s' i = Some w \<longrightarrow> item_of s i = Some w) \<and>
    (\<forall>i w. item_of s i = Some w \<longrightarrow> item_of s' i = Some w \<or> (\<exists>ev\<in>set evs. reports ev w))"
  using assms
proof (induction rounds arbitrary: completed s)
  case (Suc rounds)
  obtain evs b s1 where dr: "drain_completion_queue V s = (evs, b, s1)" by (metis prod_cases3)
  note inv = wm_goodD(1)[OF Suc.prems(2)]
  note C = drain_custody[OF inv Suc.prems(3,4) dr] and F = drain_frame[OF dr] and D = drain_spec[OF inv dr]
  have good1: "wm_good V m s1"
    using D F(3) wm_goodD[OF Suc.prems(2)] by (simp add: wm_good_def)
  show ?case
  proof (cases "\<not> after \<or> \<not> b")
    case True
    then have "out = Inr (completed @ evs)" "s' = s1" using Suc.prems(5) dr by auto
    then show ?thesis using C(2-5) good1 by (intro exI[of _ evs]) auto
  next
    case False
    have sh1: "all_shared s1" using C(3) Suc.prems(3) by (simp add: trackers_kept_shared)
    obtain r s2 where sch: "schedule fuel V s1 = Some (r, s2)"
      using Suc.prems(5) dr False by (auto simp: Let_def split: option.splits)
    note S = schedule_custody[OF Suc.prems(1) good1 sh1 sch]
    have kept: "trackers_kept s s2" by (rule trackers_kept_trans[OF C(3) S(3)])
    show ?thesis
    proof (cases "wm_completion_queue s2 = []")
      case True
      then have "out = Inr (completed @ evs)" "s' = s2" using Suc.prems(5) dr False sch S(1) by auto
      then show ?thesis using C(4,5) S(2,4) S(5)[OF C(2)] kept by (intro exI[of _ evs]) auto
    next
      case ne: False
      have "poll_loop rounds fuel V after (completed @ evs) s2 = Some (out, s')"
        using Suc.prems(5) dr False sch S(1) ne by auto
      from Suc.IH[OF Suc.prems(1) S(2) _ S(5)[OF C(2)] this] kept Suc.prems(3)
      obtain evs' where IH: "out = Inr ((completed @ evs) @ evs')" "wm_good V m s'" "trackers_kept s2 s'" "in_custody s'"
        "\<forall>i w. item_of s' i = Some w \<longrightarrow> item_of s2 i = Some w"
        "\<forall>i w. item_of s2 i = Some w \<longrightarrow> item_of s' i = Some w \<or> (\<exists>ev\<in>set evs'. reports ev w)"
        by (auto simp: trackers_kept_shared)
      have it: "item_of s2 = item_of s1" using S(4) by simp
      show ?thesis
        using IH C(4,5) it trackers_kept_trans[OF kept IH(3)] by (intro exI[of _ "evs @ evs'"]) fastforce
    qed
  qed
qed simp

lemma poll_custody:
  assumes env: "env_ok V" and good: "wm_good V m s" and sh: "all_shared s" and cust: "in_custody s"
    and ev: "\<forall>ev \<in> set (fst (eng_poll_completed_events (env_engine V) (wm_execution_engine s))). event_ok V s ev"
    and run: "poll_completed_events rounds fuel V after s = Some (out, s')"
  shows "\<exists>evs. out = Inr evs \<and> wm_good V m s' \<and> trackers_kept s s' \<and> in_custody s' \<and>
    (\<forall>i w. item_of s' i = Some w \<longrightarrow> item_of s i = Some w) \<and>
    (\<forall>i w. item_of s i = Some w \<longrightarrow> item_of s' i = Some w \<or> (\<exists>ev\<in>set evs. reports ev w))"
proof -
  have p: "poll_loop rounds fuel V after [] (polled V s) = Some (out, s')"
    using run by (simp add: poll_completed_events_def polled_def Let_def case_prod_beta)
  have g: "wm_good V m (polled V s)" by (rule polled_good[OF good]) (use ev in blast)
  have led: "dispatched (polled V s) = dispatched s" by (rule same_ledger_dispatched) (simp add: same_ledger_def polled_def Let_def)
  have "all_shared (polled V s)" "in_custody (polled V s)"
    using sh cust led by (auto simp: all_shared_def in_custody_def polled_def Let_def queued_def image_Un)
  then show ?thesis using poll_loop_custody[OF env g _ _ p] by (simp add: polled_def Let_def trackers_kept_def)
qed

section \<open>Submission, assignment and revocation\<close>

lemma register_messages_items:
  assumes "register_messages V tp k ms mo s = (ws, mo', s')" "item_of s' i = Some w"
  shows "item_of s i = Some w \<or> w \<in> set ws"
  using assms
proof (induction ms arbitrary: mo s ws)
  case (Cons m ms)
  obtain mo1 where step: "register_messages V tp k (m # ms) mo s =
      (let (ws, mo2, s2) = register_messages V tp k ms mo1 (register_one V tp k m s)
       in (make_work_item (env_uuid V (wm_uuids s)) tp k m # ws, mo2, s2))"
    using register_messages_Cons[of V tp k m ms mo s] by (elim exE)
  obtain vs mo2 s2 where r: "register_messages V tp k ms mo1 (register_one V tp k m s) = (vs, mo2, s2)" by (metis prod_cases3)
  have e: "ws = make_work_item (env_uuid V (wm_uuids s)) tp k m # vs" "mo2 = mo'" "s2 = s'"
    using Cons.prems(1) unfolding step r by simp_all
  from Cons.IH[OF r[unfolded e(2,3)] Cons.prems(2)] show ?case
    by (auto simp: e(1) split: if_splits)
qed simp

lemma enqueue_groups_items:
  assumes "wm_inv V {} s" "inj (env_uuid V)" "enqueue_groups V gs mo s = (Inr mo', s')"
  shows "(\<forall>i w. item_of s' i = Some w \<longrightarrow> item_of s i = Some w \<or> queued s' w) \<and> (\<forall>w. queued s w \<longrightarrow> queued s' w)"
  using assms
proof (induction gs arbitrary: mo s)
  case (Cons g gs)
  obtain tp k ms where g: "g = ((tp, k), ms)" by (metis prod.exhaust)
  have asg: "assigned (wm_queue_topology s) tp" using Cons.prems(3) g by (auto simp: assigned_def split: if_splits)
  obtain ws mo1 s1 where r1: "register_messages V tp k ms mo s = (ws, mo1, s1)" by (metis prod_cases3)
  have R: "wm_inv V {} s1" "registered_group V (tp, k) ws s s1"
    using register_messages_spec[OF Cons.prems(1,2) asg r1] by simp_all
  obtain er T where e: "enqueue_batch tp k ws (wm_queue_topology s1) = (er, T)" by fastforce
  note E = enqueue_group_inv[OF Cons.prems(1,2) asg R e]
  let ?s = "s1\<lparr>wm_queue_topology := T,
    wm_total_queued_messages := wm_total_queued_messages s1 + int (length ws)\<rparr>"
  have run: "enqueue_groups V gs mo1 ?s = (Inr mo', s')"
    using Cons.prems(3) g asg r1 e E(1) by (simp add: assigned_def)
  have top: "wm_queue_topology s1 = wm_queue_topology s" using R(2) by (simp add: registered_group_def)
  have T: "queue_items T = (queue_items (wm_queue_topology s))((tp, k) := queue_items (wm_queue_topology s) (tp, k) @ ws)"
    using queue_items_enqueue[OF asg, of k ws] e top by simp
  have rt: "route_of w = (tp, k)" if "w \<in> set ws" for w using R(2) that by (simp add: registered_group_def)
  have "queued ?s w" if "queued s w \<or> w \<in> set ws" for w
    using that rt[of w] by (auto simp: queued_def T)
  then show ?case using Cons.IH[OF E(2) Cons.prems(2) run] register_messages_items[OF r1] by fastforce
qed simp

lemma submit_custody:
  assumes "wm_inv V {} s" "inj (env_uuid V)" "submit_message_batch V gs s = (Inr (), s')" "in_custody s"
  shows "in_custody s'"
proof -
  obtain mo s1 where e: "enqueue_groups V gs [] s = (Inr mo, s1)"
    and s': "s' = (if mo = [] then s1 else invalidate_blocking_cache (fold (record_fetched V) mo s1))"
    using assms(3) by (auto simp: submit_message_batch_def split: prod.splits sum.splits)
  note Q = enqueue_groups_items[OF assms(1,2) e]
  have U: "undisturbed s s1" "wm_inv V {} s1" using enqueue_groups_inv[OF assms(1,2) e] by simp_all
  have U': "undisturbed s1 s'"
    using record_fetched_fold[OF U(2), of mo] undisturbed_trans[of s1 "fold (record_fetched V) mo s1" s']
    by (auto simp: s' undisturbed_def invalidate_blocking_cache_def dispatched_def)
  have same: "wm_in_flight_work_items s' = wm_in_flight_work_items s1" "wm_queue_topology s' = wm_queue_topology s1"
  proof -
    have "wm_in_flight_work_items (fold (record_fetched V) ps t) = wm_in_flight_work_items t" for ps and t :: "('a, 'b, 'c, 'd, 'e) work_manager"
      by (induction ps arbitrary: t) (simp_all add: record_fetched_def split: option.split)
    then show "wm_in_flight_work_items s' = wm_in_flight_work_items s1"
      by (simp add: s' invalidate_blocking_cache_def)
    show "wm_queue_topology s' = wm_queue_topology s1"
      by (simp add: s' record_fetched_topology invalidate_blocking_cache_def)
  qed
  show ?thesis
    unfolding in_custody_def
  proof (intro allI impI)
    fix i w assume "item_of s' i = Some w"
    then have it: "item_of s1 i = Some w" by (simp add: same)
    have q: "queued s' w = queued s1 w" by (simp add: queued_def same)
    have "item_of s i = Some w \<or> queued s1 w" using Q it by blast
    moreover have "queued s w \<or> i \<in> dispatched s \<or> i \<in> ce_id ` set (wm_completion_queue s)" if "item_of s i = Some w"
      using assms(4) that by (simp add: in_custody_def)
    ultimately show "queued s' w \<or> i \<in> dispatched s' \<or> i \<in> ce_id ` set (wm_completion_queue s')"
      using Q U(1) U' unfolding q undisturbed_def by fastforce
  qed
qed

lemma on_revoke_frame:
  assumes inv: "wm_inv V {} s"
  shows "wm_completion_queue (on_revoke tps s) = wm_completion_queue s"
    "i \<in> dispatched s \<Longrightarrow> item_of s i = Some w \<Longrightarrow> wi_tp w \<notin> set tps \<Longrightarrow> i \<in> dispatched (on_revoke tps s)"
    "wm_shared_offset_trackers (on_revoke tps s) = wm_shared_offset_trackers s - set tps"
proof -
  let ?s = "fold revoke_one tps s"
  let ?a = "release_all (stale_ids (set tps) ?s) ?s"
  note R = revoke_fold[OF wm_invD(2)[OF inv], of tps]
  have led: "same_ledger s ?s" using R by simp
  have L1: "ledger_inv ?s" by (rule same_ledger_inv[OF led wm_invD(1)[OF inv]])
  have eq: "on_revoke tps s = (if tps = [] then s else filter_locks (set tps) ?a)\<lparr>wm_rebalancing := True, wm_blocking_cache_counter := 0\<rparr>"
    by (simp add: on_revoke_eq filter_locks_def invalidate_blocking_cache_def Let_def)
  show "wm_completion_queue (on_revoke tps s) = wm_completion_queue s"
    using on_revoke_released(7)[OF inv, of tps] by (simp add: eq)
  have rel: "wm_shared_offset_trackers (release_all ids t) = wm_shared_offset_trackers t" for ids and t :: "('a, 'b, 'c, 'd, 'e) work_manager"
    unfolding release_all_def by (induction ids arbitrary: t) simp_all
  have rev: "wm_shared_offset_trackers (fold revoke_one qs t) = wm_shared_offset_trackers t - set qs" for qs and t :: "('a, 'b, 'c, 'd, 'e) work_manager"
    by (induction qs arbitrary: t) (auto simp: revoke_one_def case_prod_beta Let_def)
  have fl: "wm_shared_offset_trackers (filter_locks X t) = wm_shared_offset_trackers t" for X and t :: "('a, 'b, 'c, 'd, 'e) work_manager"
    by (simp add: filter_locks_def Let_def split: ordering_mode.split)
  show "wm_shared_offset_trackers (on_revoke tps s) = wm_shared_offset_trackers s - set tps"
    by (simp add: eq fl rel rev)
  show "i \<in> dispatched (on_revoke tps s)" if d: "i \<in> dispatched s" "item_of s i = Some w" "wi_tp w \<notin> set tps"
  proof -
    have "dispatched (release_all ids t) = dispatched t - set ids" for ids and t :: "('a, 'b, 'c, 'd, 'e) work_manager"
      unfolding release_all_def by (induction ids arbitrary: t) auto
    moreover have "i \<notin> set (stale_ids (set tps) ?s)"
      using d(2,3) same_ledger_items[OF led] by (simp add: stale_ids_iff[OF L1])
    ultimately have "i \<in> dispatched ?a" using d(1) same_ledger_dispatched[OF led] by simp
    moreover have "dispatched (t\<lparr>wm_rebalancing := x, wm_blocking_cache_counter := y\<rparr>) = dispatched t"
      for t :: "('a, 'b, 'c, 'd, 'e) work_manager" and x y by (simp add: dispatched_def)
    ultimately show ?thesis using d(1) by (simp add: eq)
  qed
qed

lemma revoke_custody:
  assumes inv: "wm_inv V {} s" and cust: "in_custody s"
  shows "in_custody (on_revoke tps s)"
  unfolding in_custody_def
proof (intro allI impI)
  fix i w assume "item_of (on_revoke tps s) i = Some w"
  then have it: "item_of s i = Some w" "wi_tp w \<notin> set tps" using on_revoke_inv(3)[OF inv] by blast+
  then have "queued s w \<or> i \<in> dispatched s \<or> i \<in> ce_id ` set (wm_completion_queue s)"
    using cust by (simp add: in_custody_def)
  then show "queued (on_revoke tps s) w \<or> i \<in> dispatched (on_revoke tps s) \<or>
      i \<in> ce_id ` set (wm_completion_queue (on_revoke tps s))"
    using on_revoke_frame[OF inv] on_revoke_inv(2)[OF inv] it by (auto simp: queued_def)
qed

lemma assign_custody:
  assumes "\<And>tp. dict_has as tp \<Longrightarrow> \<not> assigned (wm_queue_topology s) tp" "dict_wf as" "in_custody s"
  shows "in_custody (on_assign V as s)"
proof -
  have *: "same_ledger s (fold (assign_one V) as s) \<and>
      queue_items (wm_queue_topology (fold (assign_one V) as s)) = queue_items (wm_queue_topology s) \<and>
      wm_completion_queue (fold (assign_one V) as s) = wm_completion_queue s"
    using assms(1,2)
  proof (induction as arbitrary: s)
    case (Cons a as)
    obtain tp x where a: "a = (tp, x)" by (cases a)
    note F = assign_one_frame[where V = V and tp = tp and a = x and s = s]
    have new: "\<not> assigned (wm_queue_topology s) tp" using Cons.prems(1)[of tp] a by (simp add: dict_has_def)
    have items: "queue_items (assign tp (wm_queue_topology s)) = queue_items (wm_queue_topology s)"
      using new by (auto simp: queue_items_assign fun_eq_iff queue_items_unassigned)
    have "\<not> assigned (wm_queue_topology (assign_one V a s)) tp'" if "dict_has as tp'" for tp'
    proof -
      have "tp' \<noteq> tp" using that Cons.prems(2) a by (auto simp: dict_wf_def dict_has_def)
      then show ?thesis using Cons.prems(1)[of tp'] that a F(2) by (simp add: assigned_assign dict_has_def)
    qed
    moreover have "dict_wf as" using Cons.prems(2) by (simp add: dict_wf_def)
    ultimately show ?case
      using Cons.IH[of "assign_one V a s"] F a items same_ledger_trans[OF F(1)] by auto
  qed (simp add: same_ledger_def)
  let ?f = "fold (assign_one V) as s"
  have "in_custody (on_assign V as s) = in_custody ?f"
    by (simp add: in_custody_def on_assign_def invalidate_blocking_cache_def queued_def dispatched_def)
  moreover have "in_custody ?f"
    using assms(3) * same_ledger_dispatched[of s ?f] same_ledger_items[of s ?f] by (simp add: in_custody_def queued_def)
  ultimately show ?thesis by simp
qed

end
