(* ===== verification/Consumer_Loop.thy ===== *)
theory Consumer_Loop
  imports Broker_Dispatch Work_Custody
begin

text \<open>
  The consumer loop of \<open>broker_poller.py\<close>: consuming, dispatching, scheduling, draining
  completions and committing, with the cadence counters of
  \<open>broker_commit_coordinator_support.py\<close> and the completion monitor's turn.

  A step returns \<open>Some (r, s)\<close> with the raised error or the value, or \<open>None\<close> when the fuel of a
  loop inside it ran out. What happens outside enters as arguments: the records of a poll, the
  answers of Kafka to a commit, the publisher of the dead-letter topic and clock readings. The
  decision of the backpressure check is modelled in \<open>Adaptive_Control\<close>; here it enters as the
  limit it installs. The two tests of \<open>_commit_ready_offsets\<close>, before and after taking the commit
  lock, see the same state here, and the trackers do not change while Kafka answers: the
  interleavings of a commit are the subject of \<open>Broker_Commit\<close>.
\<close>

section \<open>State\<close>

text \<open>The counters of \<open>BrokerCommitCadenceSupport\<close>.\<close>

record cadence =
  cad_invocations :: int
  cad_empty_scans :: int
  cad_commit_calls :: int
  cad_partitions_advanced :: int
  cad_invocations_by_source :: "(string, int) dict"
  cad_empty_scans_by_source :: "(string, int) dict"
  cad_commit_calls_by_source :: "(string, int) dict"
  cad_partitions_advanced_by_source :: "(string, int) dict"

definition cadence_init :: cadence where
  "cadence_init = \<lparr>cad_invocations = 0, cad_empty_scans = 0, cad_commit_calls = 0, cad_partitions_advanced = 0,
     cad_invocations_by_source = [], cad_empty_scans_by_source = [], cad_commit_calls_by_source = [],
     cad_partitions_advanced_by_source = []\<rparr>"

record ('s, 'c, 'e) loop_state =
  lo_poll :: "('s, 'c, 'e) poll_state"
  lo_cadence :: cadence
  lo_last_commit_attempt :: real
  lo_diag_events_since_log :: int

record loop_config =
  po_ordering_mode :: ordering_mode
  po_dlq :: dlq_config
  po_completion :: completion_config
  po_max_blocking_duration_ms :: int
  po_debounce_completions :: int
  po_debounce_interval :: real
  po_planner :: commit_planner
  po_rebalance_strategy :: string
  po_coordinator_enabled :: bool
  po_coordinator :: coordinator_config
  po_idle_consume_timeout :: real
  po_batch_size :: nat
  po_diag_log_every :: int

text \<open>What one step meets outside: \<open>io_answers\<close> are Kafka's answers to the two commit attempts.\<close>

record loop_io =
  io_publish :: publisher
  io_render :: "int \<Rightarrow> real \<Rightarrow> string"
  io_now :: real
  io_has_consumer :: bool
  io_answers :: "nat \<Rightarrow> commit_answer"

type_synonym ('a, 'st) step = "((py_error + 'a) \<times> 'st) option"

definition and_then :: "('a, 'st) step \<Rightarrow> ('a \<Rightarrow> 'st \<Rightarrow> ('b, 'st) step) \<Rightarrow> ('b, 'st) step" where
  "and_then r f =
     (case r of
        None \<Rightarrow> None
      | Some (Inl e, s) \<Rightarrow> Some (Inl e, s)
      | Some (Inr x, s) \<Rightarrow> f x s)"

definition lo_broker :: "('s, 'c, 'e) loop_state \<Rightarrow> ('s, 'c, 'e) dispatch_broker" where
  "lo_broker s = ps_broker (lo_poll s)"

definition set_broker :: "('s, 'c, 'e) dispatch_broker \<Rightarrow> ('s, 'c, 'e) loop_state \<Rightarrow> ('s, 'c, 'e) loop_state" where
  "set_broker b s = s\<lparr>lo_poll := (lo_poll s)\<lparr>ps_broker := b\<rparr>\<rparr>"

text \<open>A call of the work manager on the shared trackers.\<close>

definition call_wm ::
  "((dispatch_key, cached_value, 's, 'c, 'e) work_manager
      \<Rightarrow> ((py_error + 'a) \<times> (dispatch_key, cached_value, 's, 'c, 'e) work_manager) option)
    \<Rightarrow> ('s, 'c, 'e) loop_state \<Rightarrow> ('a, ('s, 'c, 'e) loop_state) step" where
  "call_wm f s =
     map_option (\<lambda>(r, w). (r, set_broker (take_back w (lo_broker s)) s)) (f (lend (lo_broker s)))"

section \<open>The cadence counters\<close>

definition count_source :: "string \<Rightarrow> int \<Rightarrow> (string, int) dict \<Rightarrow> (string, int) dict" where
  "count_source source n d = dict_set source (dict_get_default d source 0 + n) d"

definition record_invocation :: "string \<Rightarrow> cadence \<Rightarrow> cadence" where
  "record_invocation source c =
     c\<lparr>cad_invocations := cad_invocations c + 1,
       cad_invocations_by_source := count_source source 1 (cad_invocations_by_source c)\<rparr>"

definition record_empty_candidate_scan :: "string \<Rightarrow> cadence \<Rightarrow> cadence" where
  "record_empty_candidate_scan source c =
     c\<lparr>cad_empty_scans := cad_empty_scans c + 1,
       cad_empty_scans_by_source := count_source source 1 (cad_empty_scans_by_source c)\<rparr>"

definition record_commit_success :: "string \<Rightarrow> int \<Rightarrow> cadence \<Rightarrow> cadence" where
  "record_commit_success source partition_count c =
     c\<lparr>cad_commit_calls := cad_commit_calls c + 1,
       cad_commit_calls_by_source := count_source source 1 (cad_commit_calls_by_source c),
       cad_partitions_advanced := cad_partitions_advanced c + partition_count,
       cad_partitions_advanced_by_source := count_source source partition_count (cad_partitions_advanced_by_source c)\<rparr>"

section \<open>Completions\<close>

definition poller_process_completed_events ::
  "('s, 'c, 'e) dispatch_env \<Rightarrow> loop_config \<Rightarrow> loop_io \<Rightarrow> completion_event list
    \<Rightarrow> ('s, 'c, 'e) loop_state \<Rightarrow> (unit, ('s, 'c, 'e) loop_state) step" where
  "poller_process_completed_events V cfg io completed_events s =
     (let b = lo_broker s; c = br_completion b;
          pending_retry_partitions = {tp \<in> fst ` set (dict_keys (bs_pending_dlq_events c)). dict_has (bs_offset_trackers c) tp}
      in case process_completed_events (env_containers V) (po_completion cfg) (io_publish io) completed_events c of
           (Inl e, c1) \<Rightarrow> Some (Inl e, set_broker (b\<lparr>br_completion := c1\<rparr>) s)
         | (Inr result, c1) \<Rightarrow>
             let ledger = (if cpr_processed_count result > 0
                   then record_processed_completions (io_now io) result pending_retry_partitions (br_ledger b)
                   else br_ledger b);
                 diag = lo_diag_events_since_log s + cpr_processed_count result
             in Some (Inr (), (set_broker (b\<lparr>br_completion := c1, br_ledger := ledger\<rparr>) s)
                  \<lparr>lo_diag_events_since_log := (if diag \<ge> po_diag_log_every cfg then 0 else diag)\<rparr>))"

definition drain_completion_events_once ::
  "nat \<Rightarrow> nat \<Rightarrow> ('s, 'c, 'e) dispatch_env \<Rightarrow> loop_config \<Rightarrow> loop_io
    \<Rightarrow> ('s, 'c, 'e) loop_state \<Rightarrow> (bool, ('s, 'c, 'e) loop_state) step" where
  "drain_completion_events_once rounds fuel V cfg io s =
     and_then (call_wm (poll_completed_events rounds fuel V True) s) (\<lambda>polled_events s1.
     and_then (call_wm (handle_blocking_timeouts rounds fuel V (io_render io) (io_now io)
                 (po_max_blocking_duration_ms cfg) (comp_max_retries (po_completion cfg))
                 (ps_trackers (lo_poll s1))) s1) (\<lambda>timeout_events s2.
       let completed_events = polled_events @ timeout_events
       in if completed_events = [] \<and> bs_pending_dlq_events (br_completion (lo_broker s2)) = []
          then Some (Inr False, s2)
          else and_then (poller_process_completed_events V cfg io completed_events s2) (\<lambda>_ s3.
               and_then (call_wm (schedule fuel V) s3) (\<lambda>_ s4. Some (Inr True, s4)))))"

section \<open>Commits\<close>

definition attempt_due :: "loop_config \<Rightarrow> loop_io \<Rightarrow> ('s, 'c, 'e) loop_state \<Rightarrow> bool" where
  "attempt_due cfg io s =
     should_attempt_ready_commit (po_debounce_completions cfg) (po_debounce_interval cfg)
       (lo_last_commit_attempt s) (io_now io) (br_ledger (lo_broker s))"

definition mark_attempt :: "loop_io \<Rightarrow> ('s, 'c, 'e) loop_state \<Rightarrow> ('s, 'c, 'e) loop_state" where
  "mark_attempt io s =
     (let b = lo_broker s
      in (set_broker (b\<lparr>br_ledger := (br_ledger b)\<lparr>sl_completions_since_last_commit := 0\<rparr>\<rparr>) s)
           \<lparr>lo_last_commit_attempt := io_now io\<rparr>)"

text \<open>The synchronous path: commit, count, clear what is settled.\<close>

definition commit_ready_sync ::
  "('s, 'c, 'e) dispatch_env \<Rightarrow> loop_config \<Rightarrow> loop_io \<Rightarrow> string \<Rightarrow> (topic_partition \<times> int) list
    \<Rightarrow> ('s, 'c, 'e) loop_state \<Rightarrow> (unit, ('s, 'c, 'e) loop_state) step" where
  "commit_ready_sync V cfg io source commits s =
     (let b = lo_broker s; c = br_completion b; d = bs_offset_trackers c
      in case commit_offsets (env_containers V) (po_planner cfg) (po_rebalance_strategy cfg) (io_has_consumer io)
                (io_answers io) commits d d of
           (Inl e, d1) \<Rightarrow> Some (Inl e, set_broker (b\<lparr>br_completion := c\<lparr>bs_offset_trackers := d1\<rparr>\<rparr>) s)
         | (Inr (committed, sent), d1) \<Rightarrow>
             let b1 = b\<lparr>br_completion := c\<lparr>bs_offset_trackers := d1\<rparr>\<rparr>
             in Some (Inr (), mark_attempt io
                  (if committed
                   then (set_broker (b1\<lparr>br_ledger :=
                            clear_committed_dirty_partitions (env_containers V) d1 commits (br_ledger b1)\<rparr>) s)
                          \<lparr>lo_cadence := record_commit_success source (int (length commits)) (lo_cadence s)\<rparr>
                   else set_broker b1 s)))"

definition commit_ready_offsets ::
  "('s, 'c, 'e) dispatch_env \<Rightarrow> loop_config \<Rightarrow> loop_io \<Rightarrow> bool \<Rightarrow> string
    \<Rightarrow> ('s, 'c, 'e) loop_state \<Rightarrow> (unit, ('s, 'c, 'e) loop_state) step" where
  "commit_ready_offsets V cfg io force source s =
     (let s0 = s\<lparr>lo_cadence := record_invocation source (lo_cadence s)\<rparr>
      in if \<not> force \<and> \<not> attempt_due cfg io s0
         then Some (Inr (), s0\<lparr>lo_cadence := record_empty_candidate_scan source (lo_cadence s0)\<rparr>)
         else
           let b = lo_broker s0; d = bs_offset_trackers (br_completion b);
               candidates = build_commit_candidates (env_containers V)
                 (\<lambda>tp. get_min_in_flight_offset tp (br_work_manager b)) d;
               commits = (if force then candidates
                 else filter (\<lambda>(tp, offset). tp \<in> sl_dirty_commit_partitions (br_ledger b)) candidates)
           in if commits = [] then Some (Inr (), mark_attempt io s0)
              else case (if po_coordinator_enabled cfg then br_coordinator b else None) of
                None \<Rightarrow> commit_ready_sync V cfg io source commits s0
              | Some cc \<Rightarrow>
                  let offered = build_candidates (io_now io) d commits
                  in if offered = [] then Some (Inr (), mark_attempt io s0)
                     else case enqueue (po_coordinator cfg) (\<lambda>_. io_now io) offered cc of
                       (True, cc1) \<Rightarrow> Some (Inr (), mark_attempt io (set_broker (b\<lparr>br_coordinator := Some cc1\<rparr>) s0))
                     | (False, cc1) \<Rightarrow>
                         commit_ready_sync V cfg io source commits
                           (set_broker (b\<lparr>br_coordinator := Some (cancel_leases (map cand_tp offered) cc1)\<rparr>) s0))"

definition maybe_commit_ready_offsets ::
  "('s, 'c, 'e) dispatch_env \<Rightarrow> loop_config \<Rightarrow> loop_io \<Rightarrow> bool \<Rightarrow> string
    \<Rightarrow> ('s, 'c, 'e) loop_state \<Rightarrow> (unit, ('s, 'c, 'e) loop_state) step" where
  "maybe_commit_ready_offsets V cfg io had_pending_dlq_events source s =
     (let b = lo_broker s; w = br_work_manager b;
          force = should_force_idle_commit (bs_pending_dlq_events (br_completion b) \<noteq> [])
            (get_total_in_flight_count w) (get_total_queued_messages w) (br_ledger b)
      in if had_pending_dlq_events \<or> force \<or> attempt_due cfg io s
         then commit_ready_offsets V cfg io (force \<or> had_pending_dlq_events) source s
         else Some (Inr (), s))"

section \<open>A turn of the loop\<close>

definition get_consume_timeout_seconds :: "loop_config \<Rightarrow> ('s, 'c, 'e) loop_state \<Rightarrow> real" where
  "get_consume_timeout_seconds cfg s =
     (let w = br_work_manager (lo_broker s)
      in if get_total_in_flight_count w > 0 \<or> get_total_queued_messages w > 0 then 0 else po_idle_consume_timeout cfg)"

definition record_pipeline_poll_batch :: "kafka_message list \<Rightarrow> ('s, 'c, 'e) poll_state \<Rightarrow> ('s, 'c, 'e) poll_state" where
  "record_pipeline_poll_batch messages s =
     (let s1 = s\<lparr>ps_poll_records := ps_poll_records s + int (length messages)\<rparr>
      in if messages \<noteq> [] then s1\<lparr>ps_poll_nonempty := ps_poll_nonempty s1 + 1\<rparr>
         else s1\<lparr>ps_poll_empty := ps_poll_empty s1 + 1\<rparr>)"

text \<open>\<open>Inl\<close> is an error of \<open>consume\<close>.\<close>

type_synonym poll_answer = "real \<Rightarrow> nat \<Rightarrow> py_error + kafka_message list"

definition consume_messages ::
  "loop_io \<Rightarrow> poll_answer \<Rightarrow> nat \<Rightarrow> real \<Rightarrow> ('s, 'c, 'e) loop_state \<Rightarrow> (kafka_message list, ('s, 'c, 'e) loop_state) step" where
  "consume_messages io answer num_messages timeout s =
     (if \<not> io_has_consumer io then Some (Inl RuntimeError, s)
      else case answer timeout num_messages of
        Inl e \<Rightarrow> Some (Inl e, s\<lparr>lo_poll := (lo_poll s)\<lparr>ps_poll_error := ps_poll_error (lo_poll s) + 1\<rparr>\<rparr>)
      | Inr messages \<Rightarrow> Some (Inr messages, s\<lparr>lo_poll := record_pipeline_poll_batch messages (lo_poll s)\<rparr>))"

definition install_limit :: "int option \<Rightarrow> ('s, 'c, 'e) loop_state \<Rightarrow> (unit, ('s, 'c, 'e) loop_state) step" where
  "install_limit limit s =
     (case limit of
        None \<Rightarrow> Some (Inr (), s)
      | Some value \<Rightarrow> call_wm (\<lambda>w. Some (set_max_in_flight_messages value w)) s)"

definition dispatch_and_schedule ::
  "nat \<Rightarrow> ('s, 'c, 'e) dispatch_env \<Rightarrow> loop_config \<Rightarrow> kafka_message list
    \<Rightarrow> ('s, 'c, 'e) loop_state \<Rightarrow> (unit, ('s, 'c, 'e) loop_state) step" where
  "dispatch_and_schedule fuel V cfg messages s =
     (if messages = [] then Some (Inr (), s)
      else and_then
        (case dispatch_messages V (po_ordering_mode cfg) (po_dlq cfg) messages (lo_poll s) of
           (r, p) \<Rightarrow> Some (r, s\<lparr>lo_poll := p\<rparr>))
        (\<lambda>_ s1. call_wm (schedule fuel V) s1))"

text \<open>One turn of \<open>_run_consumer\<close>: the branch with records waiting for the dead-letter topic, and the other.\<close>

definition consumer_turn ::
  "nat \<Rightarrow> nat \<Rightarrow> ('s, 'c, 'e) dispatch_env \<Rightarrow> loop_config \<Rightarrow> loop_io \<Rightarrow> int option \<Rightarrow> poll_answer
    \<Rightarrow> ('s, 'c, 'e) loop_state \<Rightarrow> (unit, ('s, 'c, 'e) loop_state) step" where
  "consumer_turn rounds fuel V cfg io limit answer s =
     (if bs_pending_dlq_events (br_completion (lo_broker s)) \<noteq> []
      then
        and_then (drain_completion_events_once rounds fuel V cfg io s) (\<lambda>drained s1.
        and_then (if drained then maybe_commit_ready_offsets V cfg io True ''unknown'' s1 else Some (Inr (), s1)) (\<lambda>_ s2.
        and_then (install_limit limit s2) (\<lambda>_ s3.
        and_then (consume_messages io answer 1 0 s3) (\<lambda>messages s4.
          dispatch_and_schedule fuel V cfg messages s4))))
      else
        and_then (install_limit limit s) (\<lambda>_ s1.
        and_then (consume_messages io answer (po_batch_size cfg) (get_consume_timeout_seconds cfg s1) s1) (\<lambda>messages s2.
        and_then (dispatch_and_schedule fuel V cfg messages s2) (\<lambda>_ s3.
        and_then (drain_completion_events_once rounds fuel V cfg io s3) (\<lambda>_ s4.
          maybe_commit_ready_offsets V cfg io False ''consumer_loop'' s4)))))"

text \<open>
  One turn of the completion monitor; \<open>waited\<close> is the answer of \<open>wait_for_completion\<close>. Turns that
  only sleep leave the state as it is.
\<close>

definition monitor_turn ::
  "nat \<Rightarrow> nat \<Rightarrow> ('s, 'c, 'e) dispatch_env \<Rightarrow> loop_config \<Rightarrow> loop_io \<Rightarrow> bool
    \<Rightarrow> ('s, 'c, 'e) loop_state \<Rightarrow> (unit, ('s, 'c, 'e) loop_state) step" where
  "monitor_turn rounds fuel V cfg io waited s =
     (let pending = bs_pending_dlq_events (br_completion (lo_broker s)) \<noteq> []
      in if get_total_in_flight_count (br_work_manager (lo_broker s)) \<le> 0 \<and> \<not> pending then Some (Inr (), s)
         else if \<not> pending \<and> \<not> waited \<and> po_max_blocking_duration_ms cfg \<le> 0 then Some (Inr (), s)
         else and_then (drain_completion_events_once rounds fuel V cfg io s) (\<lambda>has_completion s1.
           if has_completion then maybe_commit_ready_offsets V cfg io pending ''completion_monitor'' s1
           else Some (Inr (), s1)))"

definition get_total_true_lag :: "('s, 'c, 'e) loop_state \<Rightarrow> int" where
  "get_total_true_lag s =
     (\<Sum>(tp, t)\<leftarrow>ps_trackers (lo_poll s). max 0 (ot_last_fetched_offset t - ot_last_committed_offset t))"

section \<open>What dispatching keeps\<close>

text \<open>The conditions a dispatch needs, and what it leaves alone.\<close>

definition dispatch_ready :: "('s, 'c, 'e) dispatch_env \<Rightarrow> int \<Rightarrow> ('s, 'c, 'e) poll_state \<Rightarrow> bool" where
  "dispatch_ready V m s \<longleftrightarrow>
     wm_good V m (br_work_manager (ps_broker s)) \<and> in_custody (br_work_manager (ps_broker s)) \<and> tracked_assigned s"

definition dispatch_keeps :: "('s, 'c, 'e) poll_state \<Rightarrow> ('s, 'c, 'e) poll_state \<Rightarrow> bool" where
  "dispatch_keeps s s' \<longleftrightarrow>
     undisturbed (br_work_manager (ps_broker s)) (br_work_manager (ps_broker s')) \<and>
     wm_shared_offset_trackers (br_work_manager (ps_broker s')) = wm_shared_offset_trackers (br_work_manager (ps_broker s)) \<and>
     trackers_fetched (ps_trackers s) (ps_trackers s') \<and>
     map fst (ps_trackers s') = map fst (ps_trackers s) \<and>
     (\<forall>tp. dict_get (wm_offset_trackers (br_work_manager (ps_broker s'))) tp = None \<longleftrightarrow>
           dict_get (wm_offset_trackers (br_work_manager (ps_broker s))) tp = None) \<and>
     bs_pending_dlq_events (br_completion (ps_broker s')) = bs_pending_dlq_events (br_completion (ps_broker s)) \<and>
     br_ledger (ps_broker s') = br_ledger (ps_broker s) \<and> br_coordinator (ps_broker s') = br_coordinator (ps_broker s)"

lemma dispatch_keeps_refl [simp]: "dispatch_keeps s s"
  by (simp add: dispatch_keeps_def)

lemma dispatch_keeps_trans: "dispatch_keeps s t \<Longrightarrow> dispatch_keeps t u \<Longrightarrow> dispatch_keeps s u"
  unfolding dispatch_keeps_def using undisturbed_trans trackers_fetched_trans by (metis (no_types, lifting))

lemma cached_keeps:
  "dispatch_keeps s (cache_dispatched dlq tp off msg s)" "dispatch_keeps s (record_completed_offset_skip s)"
  "dispatch_ready V m (cache_dispatched dlq tp off msg s) = dispatch_ready V m s"
  "dispatch_ready V m (record_completed_offset_skip s) = dispatch_ready V m s"
  by (simp_all add: dispatch_keeps_def dispatch_ready_def tracked_assigned_def)
    (simp_all add: cache_dispatched_def Let_def)

lemma lend_good: "wm_good V m (lend b) = wm_good V m (br_work_manager b)"
proof
  assume g: "wm_good V m (br_work_manager b)"
  show "wm_good V m (lend b)"
    by (rule wm_good_frame[OF g lend_ledger]) (use wm_goodD(5)[OF g] in \<open>simp_all add: lend_def split: option.split\<close>)
next
  assume g: "wm_good V m (lend b)"
  show "wm_good V m (br_work_manager b)"
    by (rule wm_good_frame[OF g]) (use wm_goodD(5)[OF g] in \<open>simp_all add: lend_def same_ledger_def split: option.split\<close>)
qed

lemma lend_custody [simp]: "in_custody (lend b) = in_custody (br_work_manager b)"
  by (simp add: in_custody_def queued_def dispatched_def lend_def)

lemma submit_keeps:
  assumes env: "env_ok V" and ready: "dispatch_ready V m s"
    and tracked: "\<forall>g \<in> set gs. dict_get (ps_trackers s) (fst (fst g)) \<noteq> None"
    and run: "submit_message_batch V gs (lend (ps_broker s)) = (r, w)"
  shows "r = Inr ()" "dispatch_ready V m (s\<lparr>ps_broker := take_back w (ps_broker s)\<rparr>)"
    "dispatch_keeps s (s\<lparr>ps_broker := take_back w (ps_broker s)\<rparr>)"
proof -
  let ?l = "lend (ps_broker s)" and ?s = "s\<lparr>ps_broker := take_back w (ps_broker s)\<rparr>"
  have inj: "inj (env_uuid V)" using env by (simp add: env_ok_def)
  have good: "wm_good V m ?l" and cust: "in_custody ?l"
    using ready by (simp_all add: dispatch_ready_def lend_good)
  have inv: "wm_inv V {} ?l" by (rule wm_goodD(1)[OF good])
  have "\<forall>g \<in> set gs. assigned (wm_queue_topology ?l) (fst (fst g))"
    using tracked ready by (simp add: dispatch_ready_def tracked_assigned_def)
  note E = submit_effect[OF inv inj this run]
  show r: "r = Inr ()" by (rule E(1))
  have tf: "trackers_fetched (ps_trackers s) (ps_trackers ?s)"
    using take_back_fetched[OF E(4)] by (simp add: ps_trackers_def)
  have "tracked_assigned ?s"
    using ready trackers_fetchedD(1)[OF tf] E(7) by (simp add: dispatch_ready_def tracked_assigned_def)
  then show "dispatch_ready V m ?s"
    using submit_good[OF env good run] submit_custody[OF inv inj run[unfolded r] cust] by (simp add: dispatch_ready_def)
  have keys: "dict_get (wm_offset_trackers w) tp = None \<longleftrightarrow> dict_get (wm_offset_trackers (br_work_manager (ps_broker s))) tp = None" for tp
    using trackers_fetchedD(1)[OF E(4), of tp] by (auto simp: lend_def split: option.splits)
  show "dispatch_keeps s ?s"
    unfolding dispatch_keeps_def using E(3,8) tf keys by (simp add: ps_trackers_def)
qed

lemma dispatch_loop_keeps:
  assumes env: "env_ok V" and ready: "dispatch_ready V m s"
    and groups: "\<forall>g \<in> set grouped. dict_get (ps_trackers s) (fst (fst g)) \<noteq> None"
  shows "\<exists>grouped' s'. dispatch_loop V mode dlq msgs grouped s = (Inr grouped', s') \<and> dispatch_ready V m s' \<and>
    dispatch_keeps s s' \<and> (\<forall>g \<in> set grouped'. dict_get (ps_trackers s') (fst (fst g)) \<noteq> None)"
  using ready groups
proof (induction msgs arbitrary: grouped s)
  case (Cons msg msgs)
  have step: "\<exists>g1 s1. dispatch_message V mode dlq msg grouped s = (Inr g1, s1) \<and> dispatch_ready V m s1 \<and>
      dispatch_keeps s s1 \<and> (\<forall>g \<in> set g1. dict_get (ps_trackers s1) (fst (fst g)) \<noteq> None)"
  proof (cases "deliverable (env_containers V) (ps_trackers s) msg")
    case False
    then have "dispatch_message V mode dlq msg grouped s = (Inr grouped, s) \<or>
        dispatch_message V mode dlq msg grouped s = (Inr grouped, record_completed_offset_skip s)"
      by (auto simp: dispatch_message_def deliverable_def split: option.split)
    then show ?thesis
    proof
      assume "dispatch_message V mode dlq msg grouped s = (Inr grouped, s)"
      then show ?thesis using Cons.prems by auto
    next
      assume "dispatch_message V mode dlq msg grouped s = (Inr grouped, record_completed_offset_skip s)"
      then show ?thesis
        using Cons.prems by (intro exI[of _ grouped] exI[of _ "record_completed_offset_skip s"]) (auto simp: cached_keeps)
    qed
  next
    case True
    then obtain tp off t where p: "message_position msg = Some (tp, off)" "dict_get (ps_trackers s) tp = Some t"
      "\<not> is_completed_uncommitted (env_containers V) off t" by (auto simp: deliverable_def split: option.splits)
    let ?s = "cache_dispatched dlq tp off msg s"
    show ?thesis
    proof (cases "mode = UNORDERED")
      case False
      have "set (dict_set k v grouped) \<subseteq> insert (k, v) (set grouped)" for k v
        by (induction grouped) auto
      then show ?thesis
        using False p Cons.prems cached_keeps(1,3)[where s = s]
        by (intro exI[of _ "dict_set (tp, submit_key mode tp msg) (dict_get_default grouped (tp, submit_key mode tp msg) [] @
              [MessageWithPoisonKey off (get_current_epoch t) (km_value msg) (MessageKey (km_key msg))]) grouped"] exI[of _ ?s])
          (fastforce simp: dispatch_message_def Let_def)
    next
      case True
      let ?g = "[((tp, submit_key mode tp msg), [Message off (get_current_epoch t) (km_value msg)])]"
      obtain r w where run: "submit_message_batch V ?g (lend (ps_broker ?s)) = (r, w)" by force
      have "\<forall>g \<in> set ?g. dict_get (ps_trackers ?s) (fst (fst g)) \<noteq> None" using p(2) by simp
      note K = submit_keeps[OF env cached_keeps(3)[THEN iffD2, OF Cons.prems(1)] this run]
      let ?s' = "?s\<lparr>ps_broker := take_back w (ps_broker ?s)\<rparr>"
      have eq: "dispatch_message V mode dlq msg grouped s = (Inr grouped, ?s')"
        using p True run K(1) by (simp add: dispatch_message_def submit_message_def Let_def)
      have kp: "dispatch_keeps s ?s'" by (rule dispatch_keeps_trans[OF cached_keeps(1) K(3)])
      have "trackers_fetched (ps_trackers s) (ps_trackers ?s')" using kp by (simp add: dispatch_keeps_def)
      then show ?thesis using eq kp K(2) Cons.prems(2) trackers_fetchedD(1) by blast
    qed
  qed
  then obtain g1 s1 where 1: "dispatch_message V mode dlq msg grouped s = (Inr g1, s1)" "dispatch_ready V m s1"
      "dispatch_keeps s s1" "\<forall>g \<in> set g1. dict_get (ps_trackers s1) (fst (fst g)) \<noteq> None" by blast
  show ?case using Cons.IH[OF 1(2,4)] 1(1) dispatch_keeps_trans[OF 1(3)] by auto
qed auto

lemma dispatch_messages_keeps:
  assumes env: "env_ok V" and ready: "dispatch_ready V m s"
  shows "\<exists>s'. dispatch_messages V mode dlq msgs s = (Inr (), s') \<and> dispatch_ready V m s' \<and> dispatch_keeps s s'"
proof -
  obtain g s1 where 1: "dispatch_loop V mode dlq msgs [] s = (Inr g, s1)" "dispatch_ready V m s1" "dispatch_keeps s s1"
      "\<forall>h \<in> set g. dict_get (ps_trackers s1) (fst (fst h)) \<noteq> None"
    using dispatch_loop_keeps[OF env ready, of "[]" mode dlq msgs] by auto
  obtain r w where run: "submit_message_batch V g (lend (ps_broker s1)) = (r, w)" by force
  note K = submit_keeps[OF env 1(2,4) run]
  show ?thesis
  proof (cases "g = []")
    case True
    then show ?thesis using 1 by (simp add: dispatch_messages_def submit_grouped_messages_def)
  next
    case False
    then show ?thesis using 1(1) run K dispatch_keeps_trans[OF 1(3) K(3)]
      by (simp add: dispatch_messages_def submit_grouped_messages_def)
  qed
qed

end
