(* ===== verification/Poller_Run.thy ===== *)
theory Poller_Run
  imports Consumer_Loop
begin

text \<open>
  Runs of the whole poller. A run is any interleaving of its steps: assignment, revocation,
  dispatch of a poll, scheduling, draining completions, commits and changes of the in-flight
  limit. Two ghost sets go along: the positions polled ahead of the committed offset, and the
  positions a tracker has listed as complete since the assignment. Every step keeps the broker
  well formed and the two sets accounted for.

  The runs are those with the commit coordinator and the blocking timeout switched off, the
  defaults of the configuration: a timeout fails work that is still queued, which makes the
  broker complete a record no worker has seen. A step that raises ends the run, as it ends the
  consumer loop.
\<close>

section \<open>Runs of the poller\<close>

type_synonym position = "topic_partition \<times> int"

definition tracked :: "('k, 'p, 's, 'c, 'e) broker \<Rightarrow> topic_partition \<Rightarrow> ('s, 'c) offset_tracker option" where
  "tracked b tp = dict_get (bs_offset_trackers (br_completion b)) tp"

text \<open>The positions of a poll that lie ahead of what is committed, and those listed as complete.\<close>

definition polled_ahead :: "kafka_message list \<Rightarrow> ('s, 'c, 'e) dispatch_broker \<Rightarrow> position set" where
  "polled_ahead msgs b =
     {k. (\<exists>r \<in> set msgs. message_position r = Some k) \<and>
         (\<exists>t. tracked b (fst k) = Some t \<and> ot_last_committed_offset t < snd k)}"

definition listed :: "('s, 'c) container_ops \<Rightarrow> ('k, 'p, 's, 'c, 'e) broker \<Rightarrow> position set" where
  "listed D b = {k. snd k \<in> completed_of D (br_completion b) (fst k)}"

text \<open>The work manager holds a work item for the position, with the current epoch.\<close>

definition held :: "('k, 'p, 's, 'c, 'e) broker \<Rightarrow> position \<Rightarrow> bool" where
  "held b k \<longleftrightarrow>
     (\<exists>i w t. item_of (br_work_manager b) i = Some w \<and> (wi_tp w, wi_offset w) = k \<and>
        tracked b (fst k) = Some t \<and> wi_epoch w = ot_epoch t)"

definition fresh_broker :: "int \<Rightarrow> ('k, 'p, 's, 'c, 'e) broker \<Rightarrow> bool" where
  "fresh_broker m b \<longleftrightarrow>
     bs_offset_trackers (br_completion b) = [] \<and> bs_pending_dlq_events (br_completion b) = [] \<and>
     br_coordinator b = None \<and> 0 \<le> m \<and>
     (\<exists>e mode ttl grace poison n. work_manager_init e m mode ttl grace poison n = Inr (br_work_manager b))"

text \<open>
  \<open>G\<close> are the positions polled, \<open>F\<close> the positions finished, \<open>m\<close> the largest in-flight limit so far.
\<close>

inductive poller_run ::
  "('s, 'c, 'e) dispatch_env \<Rightarrow> loop_config \<Rightarrow> int \<Rightarrow> position set \<Rightarrow> position set \<Rightarrow> ('s, 'c, 'e) loop_state \<Rightarrow> bool"
  for V :: "('s, 'c, 'e) dispatch_env" and cfg :: loop_config where
  started: "fresh_broker m (lo_broker s) \<Longrightarrow> poller_run V cfg m {} {} s"
| assigned_partitions: "poller_run V cfg m G F s
    \<Longrightarrow> build_assignments (env_containers V) (po_rebalance_strategy cfg) grace answer partitions = Inr assignments
    \<Longrightarrow> (\<And>p. p \<in> set partitions \<Longrightarrow> tracked (lo_broker s) (kafka_tp p) = None)
    \<Longrightarrow> b' = assign_sync V assignments (lo_broker s)
    \<Longrightarrow> poller_run V cfg m G (F \<union> listed (env_containers V) b') (set_broker b' s)"
| revoked_partitions: "poller_run V cfg m G F s
    \<Longrightarrow> handle_revoke_callback (env_containers V) (po_planner cfg) (po_rebalance_strategy cfg) accepted partitions
          (lo_broker s) = (sent, b')
    \<Longrightarrow> poller_run V cfg m {k \<in> G. fst k \<notin> kafka_tp ` set partitions} {k \<in> F. fst k \<notin> kafka_tp ` set partitions}
          (set_broker b' s)"
| dispatched_poll: "poller_run V cfg m G F s
    \<Longrightarrow> dispatch_messages V (po_ordering_mode cfg) (po_dlq cfg) messages (lo_poll s) = (Inr (), p)
    \<Longrightarrow> poller_run V cfg m (G \<union> polled_ahead messages (lo_broker s)) F (s\<lparr>lo_poll := p\<rparr>)"
| scheduled: "poller_run V cfg m G F s \<Longrightarrow> call_wm (schedule fuel V) s = Some (Inr (), s') \<Longrightarrow> poller_run V cfg m G F s'"
| drained: "poller_run V cfg m G F s
    \<Longrightarrow> (\<And>ev. ev \<in> set (fst (eng_poll_completed_events (env_engine V) (wm_execution_engine (br_work_manager (lo_broker s)))))
          \<Longrightarrow> event_ok V (lend (lo_broker s)) ev)
    \<Longrightarrow> drain_completion_events_once rounds fuel V cfg io s = Some (Inr any, s')
    \<Longrightarrow> poller_run V cfg m G (F \<union> listed (env_containers V) (lo_broker s')) s'"
| committed: "poller_run V cfg m G F s
    \<Longrightarrow> commit_ready_offsets V cfg io force source s = Some (Inr (), s') \<Longrightarrow> poller_run V cfg m G F s'"
| limited: "poller_run V cfg m G F s \<Longrightarrow> install_limit limit s = Some (Inr (), s')
    \<Longrightarrow> poller_run V cfg (case limit of None \<Rightarrow> m | Some v \<Rightarrow> max m v) G F s'"
| counted: "poller_run V cfg m G F s \<Longrightarrow> lo_broker s' = lo_broker s \<Longrightarrow> poller_run V cfg m G F s'"

section \<open>The invariant\<close>

text \<open>Completed offsets lie ahead of the committed one.\<close>

definition completed_ahead :: "('s, 'c) container_ops \<Rightarrow> ('s, 'c) trackers \<Rightarrow> bool" where
  "completed_ahead D trackers \<longleftrightarrow>
     (\<forall>tp t. dict_get trackers tp = Some t \<longrightarrow> (\<forall>x \<in> set (ss_iter D (ot_completed_offsets t)). ot_last_committed_offset t < x))"

text \<open>What every step keeps of the broker, and of the two sets.\<close>

definition broker_ok :: "('s, 'c, 'e) dispatch_env \<Rightarrow> int \<Rightarrow> ('s, 'c, 'e) dispatch_broker \<Rightarrow> bool" where
  "broker_ok V m b \<longleftrightarrow>
     wm_good V m (br_work_manager b) \<and> in_custody (br_work_manager b) \<and> all_shared (br_work_manager b) \<and>
     (\<forall>tp. dict_get (wm_offset_trackers (br_work_manager b)) tp = None \<longleftrightarrow> tracked b tp = None) \<and>
     dict_wf (bs_offset_trackers (br_completion b)) \<and> completed_ahead (env_containers V) (bs_offset_trackers (br_completion b)) \<and>
     pending_wf (br_completion b) \<and>
     (\<forall>k ev. dict_get (bs_pending_dlq_events (br_completion b)) k = Some ev \<longrightarrow> current_event (br_completion b) ev) \<and>
     br_coordinator b = None"

definition accounts :: "('s, 'c) container_ops \<Rightarrow> position set \<Rightarrow> position set \<Rightarrow> ('s, 'c, 'e) dispatch_broker \<Rightarrow> bool" where
  "accounts D G F b \<longleftrightarrow>
     (\<forall>k \<in> G. tracked b (fst k) \<noteq> None \<and> (k \<in> F \<or> retained (br_completion b) k \<or> held b k)) \<and>
     (\<forall>k \<in> G. \<forall>t. tracked b (fst k) = Some t \<and> snd k \<le> ot_last_committed_offset t \<longrightarrow> k \<in> F) \<and>
     listed D b \<subseteq> F"

lemma broker_okD:
  assumes "broker_ok V m b"
  shows "wm_good V m (br_work_manager b)" "in_custody (br_work_manager b)" "all_shared (br_work_manager b)"
    "dict_get (wm_offset_trackers (br_work_manager b)) tp = None \<longleftrightarrow> tracked b tp = None"
    "dict_wf (bs_offset_trackers (br_completion b))" "completed_ahead (env_containers V) (bs_offset_trackers (br_completion b))"
    "pending_wf (br_completion b)"
    "dict_get (bs_pending_dlq_events (br_completion b)) k = Some ev \<Longrightarrow> current_event (br_completion b) ev"
    "br_coordinator b = None"
  using assms unfolding broker_ok_def by blast+

lemma accountsI:
  assumes "\<And>k. k \<in> G \<Longrightarrow> tracked b (fst k) \<noteq> None"
    "\<And>k. k \<in> G \<Longrightarrow> k \<in> F \<or> retained (br_completion b) k \<or> held b k"
    "\<And>k t. k \<in> G \<Longrightarrow> tracked b (fst k) = Some t \<Longrightarrow> snd k \<le> ot_last_committed_offset t \<Longrightarrow> k \<in> F"
    "listed D b \<subseteq> F"
  shows "accounts D G F b"
  using assms unfolding accounts_def by blast

lemma accountsD:
  assumes "accounts D G F b" "k \<in> G"
  shows "tracked b (fst k) \<noteq> None" "k \<in> F \<or> retained (br_completion b) k \<or> held b k"
    "tracked b (fst k) = Some t \<Longrightarrow> snd k \<le> ot_last_committed_offset t \<Longrightarrow> k \<in> F"
  using assms unfolding accounts_def by blast+

lemma accounts_listed: "accounts D G F b \<Longrightarrow> listed D b \<subseteq> F"
  by (simp add: accounts_def)

text \<open>A step that leaves the trackers' epochs and positions and the registered items alone.\<close>

lemma accounts_same:
  assumes "accounts D G F b" "br_completion b' = br_completion b"
    "\<And>i w. item_of (br_work_manager b) i = Some w \<Longrightarrow> item_of (br_work_manager b') i = Some w"
  shows "accounts D G F b'"
proof -
  have "held b k \<Longrightarrow> held b' k" for k using assms(2,3) by (auto simp: held_def tracked_def)
  then show ?thesis using assms(1,2) by (auto simp: accounts_def tracked_def listed_def)
qed

lemma lend_tracker:
  assumes "broker_ok V m b"
  shows "dict_get (wm_offset_trackers (lend b)) tp = tracked b tp"
  using broker_okD(4)[OF assms, of tp] by (auto simp: lend_def tracked_def split: option.split)

lemma share_same:
  assumes "dict_wf d" "\<And>tp t. dict_get d tp = Some t \<Longrightarrow> dict_get e tp = Some t"
  shows "share_trackers e d = d"
proof -
  have "(tp, case dict_get e tp of None \<Rightarrow> t | Some t' \<Rightarrow> t') = (tp, t)" if "(tp, t) \<in> set d" for tp t
    using that assms dict_in_set_iff[OF assms(1)] by fastforce
  then show ?thesis unfolding share_trackers_def by (intro map_idI) auto
qed

text \<open>A call of the work manager that keeps the shared trackers changes only the work manager.\<close>

lemma take_back_kept:
  assumes "broker_ok V m b" "trackers_kept (lend b) w"
  shows "take_back w b = b\<lparr>br_work_manager := w\<rparr>"
proof -
  have "share_trackers (wm_offset_trackers w) (bs_offset_trackers (br_completion b)) = bs_offset_trackers (br_completion b)"
    by (rule share_same[OF broker_okD(5)[OF assms(1)]])
      (use assms(2) lend_tracker[OF assms(1)] in \<open>simp add: trackers_kept_def tracked_def\<close>)
  then show ?thesis by (simp add: take_back_def)
qed

lemma lend_shared: "all_shared (lend b) = all_shared (br_work_manager b)"
  by (auto simp: all_shared_def lend_def split: option.splits)

lemma broker_ok_kept:
  assumes ok: "broker_ok V m b" and kept: "trackers_kept (lend b) w" and w: "wm_good V n w" "in_custody w"
  shows "broker_ok V n (take_back w b)"
proof -
  have sh: "all_shared (lend b)" using broker_okD(3)[OF ok] by (simp add: lend_shared)
  then have "all_shared w" using kept by (simp add: trackers_kept_shared)
  moreover have "dict_get (wm_offset_trackers w) tp = tracked b tp" for tp
    using kept lend_tracker[OF ok] by (simp add: trackers_kept_def)
  ultimately show ?thesis using ok w unfolding take_back_kept[OF ok kept] by (simp add: broker_ok_def tracked_def)
qed

lemma set_broker_simps [simp]:
  "lo_broker (set_broker b s) = b" "lo_broker (s\<lparr>lo_poll := p\<rparr>) = ps_broker p"
  "lo_broker (s\<lparr>lo_cadence := c\<rparr>) = lo_broker s" "lo_broker (s\<lparr>lo_last_commit_attempt := x\<rparr>) = lo_broker s"
  "lo_broker (s\<lparr>lo_diag_events_since_log := n\<rparr>) = lo_broker s"
  by (simp_all add: lo_broker_def set_broker_def)

section \<open>Scheduling and limits\<close>

lemma call_schedule_ok:
  assumes env: "env_ok V" and ok: "broker_ok V m (lo_broker s)" and run: "call_wm (schedule fuel V) s = Some (r, s')"
  shows "r = Inr ()" "broker_ok V m (lo_broker s')" "br_completion (lo_broker s') = br_completion (lo_broker s)"
    "br_ledger (lo_broker s') = br_ledger (lo_broker s)"
    "wm_in_flight_work_items (br_work_manager (lo_broker s')) = wm_in_flight_work_items (br_work_manager (lo_broker s))"
proof -
  let ?b = "lo_broker s"
  obtain w where w: "schedule fuel V (lend ?b) = Some (r, w)" "s' = set_broker (take_back w ?b) s"
    using run by (auto simp: call_wm_def)
  have good: "wm_good V m (lend ?b)" "all_shared (lend ?b)" "in_custody (lend ?b)"
    using broker_okD(1,2,3)[OF ok] by (simp_all add: lend_good lend_shared)
  note S = schedule_custody[OF env good(1,2) w(1)]
  show "r = Inr ()" by (rule S(1))
  show "broker_ok V m (lo_broker s')" using broker_ok_kept[OF ok S(3,2) S(5)[OF good(3)]] by (simp add: w(2))
  show "br_completion (lo_broker s') = br_completion ?b" "br_ledger (lo_broker s') = br_ledger ?b"
    "wm_in_flight_work_items (br_work_manager (lo_broker s')) = wm_in_flight_work_items (br_work_manager ?b)"
    using S(4) by (simp_all add: w(2) take_back_kept[OF ok S(3)])
qed

lemma limit_ok:
  assumes ok: "broker_ok V m (lo_broker s)" and run: "install_limit limit s = Some (Inr (), s')"
  shows "broker_ok V (case limit of None \<Rightarrow> m | Some v \<Rightarrow> max m v) (lo_broker s')"
    "br_completion (lo_broker s') = br_completion (lo_broker s)"
    "wm_in_flight_work_items (br_work_manager (lo_broker s')) = wm_in_flight_work_items (br_work_manager (lo_broker s))"
proof -
  let ?b = "lo_broker s"
  have "broker_ok V (case limit of None \<Rightarrow> m | Some v \<Rightarrow> max m v) (lo_broker s') \<and>
    br_completion (lo_broker s') = br_completion ?b \<and>
    wm_in_flight_work_items (br_work_manager (lo_broker s')) = wm_in_flight_work_items (br_work_manager ?b)"
  proof (cases limit)
    case (Some v)
    let ?w = "(lend ?b)\<lparr>wm_max_in_flight_messages := v\<rparr>"
    have s': "s' = set_broker (take_back ?w ?b) s"
      using run Some by (auto simp: install_limit_def call_wm_def set_max_in_flight_messages_def split: if_splits)
    have kept: "trackers_kept (lend ?b) ?w" by (simp add: trackers_kept_def)
    have g: "wm_good V m (lend ?b)" using broker_okD(1)[OF ok] by (simp add: lend_good)
    then have "wm_good V (max m v) (lend ?b)" by (auto simp: wm_good_def)
    then have "wm_good V (max m v) ?w" by (rule wm_good_frame) (simp_all add: same_ledger_def)
    moreover have "in_custody ?w" using broker_okD(2)[OF ok] lend_custody[of ?b]
      by (simp add: in_custody_def queued_def dispatched_def)
    ultimately show ?thesis
      using broker_ok_kept[OF ok kept] by (simp add: Some s' take_back_kept[OF ok kept])
  qed (use ok run in \<open>simp add: install_limit_def\<close>)
  then show "broker_ok V (case limit of None \<Rightarrow> m | Some v \<Rightarrow> max m v) (lo_broker s')"
    "br_completion (lo_broker s') = br_completion (lo_broker s)"
    "wm_in_flight_work_items (br_work_manager (lo_broker s')) = wm_in_flight_work_items (br_work_manager (lo_broker s))"
    by blast+
qed

section \<open>Assignment and revocation\<close>

lemma finite_decode_metadata: "finite (decode_metadata t)"
proof -
  have run: "finite A" if "decode_run p = Inr A" for p A
    using that by (auto simp: decode_run_def split: if_splits list.splits sum.splits)
  have runs: "finite A \<Longrightarrow> decode_runs A ps = Inr B \<Longrightarrow> finite B" for A B ps
    by (induction A ps rule: decode_runs.induct) (auto split: sum.splits dest: run)
  have bits: "finite (collect_bits base n bs)" for base n bs
    by (induction base n bs rule: collect_bits.induct) (simp_all add: byte_bits_def)
  show ?thesis
    by (auto simp: decode_metadata_def rle_decode_offsets_def bitset_decode_offsets_def bits Let_def
        split: list.split sum.split prod.split dest: runs[OF finite.emptyI])
qed

context tracker_containers
begin

lemma build_tracker_wf:
  assumes "build_tracker D strategy grace committed p = Inr t"
  shows "tracker_wf D t"
proof -
  define cp where "cp = dict_get committed (kafka_tp p)"
  define lc where "lc = last_committed_of p (Option.bind cp kp_offset)"
  define A where "A = decode_assignment_completed_offsets strategy p cp lc"
  have A: "finite A" "\<forall>x\<in>A. lc < x"
    by (auto simp: A_def decode_assignment_completed_offsets_def finite_decode_metadata split: option.splits if_splits)
  obtain off u where u: "rehydrate_assignment_state D lc (Max (insert lc A))
      (offset_tracker_init D (kafka_tp p) off grace (Some A)) = Inr u" "t = increment_epoch u"
    using assms by (auto simp: build_tracker_def Let_def cp_def[symmetric] lc_def[symmetric] A_def[symmetric]
        split: option.splits sum.splits)
  have "\<forall>x\<in>set (ss_iter D (ot_completed_offsets (offset_tracker_init D (kafka_tp p) off grace (Some A)))). lc < x"
    using A by (simp add: offset_tracker_init_def iter_new)
  from wf_rehydrate[OF u(1) this] show ?thesis unfolding u(2) by (rule wf_increment_epoch)
qed

end

lemma build_loop_keys:
  "build_assignments_loop D strategy grace committed ps acc = Inr a \<Longrightarrow> dict_wf acc \<Longrightarrow>
     dict_wf a \<and> set (map fst a) \<subseteq> set (map fst acc) \<union> kafka_tp ` set ps"
proof (induction ps arbitrary: acc)
  case (Cons p ps)
  obtain t where t: "build_tracker D strategy grace committed p = Inr t"
    "build_assignments_loop D strategy grace committed ps (dict_set (kafka_tp p) t acc) = Inr a"
    using Cons.prems(1) by (auto split: sum.splits)
  have "set (map fst (dict_set (kafka_tp p) t acc)) = insert (kafka_tp p) (set (map fst acc))"
    by (auto simp only: dict_simps split: if_splits) simp_all
  then show ?case using Cons.IH[OF t(2) dict_wf_set[OF Cons.prems(2)]] by auto
qed simp

lemma fold_dict_set_get:
  "dict_wf a \<Longrightarrow> dict_get (fold (\<lambda>(k, v). dict_set k v) a d) x = (case dict_get a x of None \<Rightarrow> dict_get d x | Some v \<Rightarrow> Some v)"
proof (induction a arbitrary: d)
  case (Cons kv a)
  obtain k v where kv: "kv = (k, v)" by (cases kv)
  have "k = x \<Longrightarrow> dict_get a x = None" "dict_wf a" using Cons.prems kv by (auto simp: dict_wf_def map_of_eq_None_iff)
  then show ?case using Cons.IH[of "dict_set k v d"] kv by (auto simp: dict_simps split: option.split)
qed simp

lemma fold_dict_set_wf: "dict_wf d \<Longrightarrow> dict_wf (fold (\<lambda>(k, v). dict_set k v) a d)"
  by (induction a arbitrary: d) auto

lemma assign_shared_fold:
  "all_shared s \<Longrightarrow> all_shared (fold (assign_one V) (map (\<lambda>(tp, t). (tp, SharedTracker t)) a) s) \<and>
   (\<forall>tp. dict_get (wm_offset_trackers (fold (assign_one V) (map (\<lambda>(tp, t). (tp, SharedTracker t)) a) s)) tp = None
      \<longleftrightarrow> tp \<notin> set (map fst a) \<and> dict_get (wm_offset_trackers s) tp = None)"
proof (induction a arbitrary: s)
  case (Cons kv a)
  obtain tp t where kv: "kv = (tp, t)" by (cases kv)
  let ?s = "assign_one V (tp, SharedTracker t) s"
  have "all_shared ?s" using Cons.prems by (auto simp: all_shared_def assign_one_def Let_def dict_simps)
  moreover have "dict_get (wm_offset_trackers ?s) tp' = None \<longleftrightarrow> tp' \<noteq> tp \<and> dict_get (wm_offset_trackers s) tp' = None" for tp'
    by (rule assign_one_frame(6))
  ultimately show ?case using Cons.IH[of ?s] kv by auto
qed simp

lemma assign_ok:
  assumes D: "tracker_containers (env_containers V)" and ok: "broker_ok V m b"
    and built: "build_assignments (env_containers V) strategy grace answer ps = Inr a"
    and new: "\<And>p. p \<in> set ps \<Longrightarrow> tracked b (kafka_tp p) = None"
  shows "broker_ok V m (assign_sync V a b)"
    "tracked b tp = Some t \<Longrightarrow> tracked (assign_sync V a b) tp = Some t"
    "wm_in_flight_work_items (br_work_manager (assign_sync V a b)) = wm_in_flight_work_items (br_work_manager b)"
    "bs_pending_dlq_events (br_completion (assign_sync V a b)) = bs_pending_dlq_events (br_completion b)"
proof -
  let ?b = "assign_sync V a b" and ?as = "map (\<lambda>(tp, t). (tp, SharedTracker t)) a"
  note K = build_loop_keys[OF built[unfolded build_assignments_def] dict_wf_Nil]
  have fresh: "tracked b tp = None" if "tp \<in> set (map fst a)" for tp using K that new by fastforce
  have tr: "tracked ?b tp = (case dict_get a tp of None \<Rightarrow> tracked b tp | Some t \<Rightarrow> Some t)" for tp
    using fold_dict_set_get[OF K[THEN conjunct1]] by (simp add: assign_sync_def tracked_def split: option.split)
  have keep: "tracked ?b tp = Some t" if "tracked b tp = Some t" for tp t
    using that fresh[of tp] tr[of tp] map_of_SomeD[of a tp] by (fastforce split: option.splits simp: image_iff)
  show "tracked b tp = Some t \<Longrightarrow> tracked ?b tp = Some t" by (rule keep)
  have wf: "dict_wf ?as" using K by (simp add: dict_wf_def split_beta comp_def)
  have asg: "\<not> assigned (wm_queue_topology (br_work_manager b)) tp" if "dict_has ?as tp" for tp
  proof -
    have "tp \<in> set (map fst a)" using that by (simp add: dict_has_def split_beta comp_def)
    then show ?thesis using fresh broker_okD(4)[OF ok, of tp] managed_invD(1)[OF wm_invD(3)[OF wm_goodD(1)[OF broker_okD(1)[OF ok]]], of tp]
      by simp
  qed
  let ?f = "fold (assign_one V) ?as (br_work_manager b)"
  have w: "br_work_manager ?b = on_assign V ?as (br_work_manager b)" by (simp add: assign_sync_def)
  have wf': "wm_offset_trackers (br_work_manager ?b) = wm_offset_trackers ?f"
    "wm_shared_offset_trackers (br_work_manager ?b) = wm_shared_offset_trackers ?f"
    by (simp_all add: w on_assign_def invalidate_blocking_cache_def)
  note F = assign_shared_fold[OF broker_okD(3)[OF ok], of V a]
  have keys: "dict_get (wm_offset_trackers (br_work_manager ?b)) tp = None \<longleftrightarrow> tracked ?b tp = None" for tp
  proof -
    have "dict_get a tp = None \<longleftrightarrow> tp \<notin> set (map fst a)" by (simp add: map_of_eq_None_iff)
    then show ?thesis using F[THEN conjunct2, rule_format, of tp] broker_okD(4)[OF ok, of tp] tr[of tp]
      by (simp only: wf') (auto split: option.splits)
  qed
  have wft: "completed_ahead (env_containers V) (bs_offset_trackers (br_completion ?b))"
    unfolding completed_ahead_def
  proof (intro allI impI)
    fix tp t assume "dict_get (bs_offset_trackers (br_completion ?b)) tp = Some t"
    then have "tracked ?b tp = Some t" by (simp add: tracked_def)
    then consider "dict_get a tp = Some t" | "tracked b tp = Some t" using tr[of tp] by (auto split: option.splits)
    then show "\<forall>x \<in> set (ss_iter (env_containers V) (ot_completed_offsets t)). ot_last_committed_offset t < x"
    proof cases
      case 1
      then have "tracker_wf (env_containers V) t"
        using assigned_tracker[OF built] tracker_containers.build_tracker_wf[OF D] by blast
      then show ?thesis by (simp add: tracker_wf_def)
    next
      case 2
      then show ?thesis using broker_okD(6)[OF ok] by (simp add: tracked_def completed_ahead_def)
    qed
  qed
  have cur: "current_event (br_completion ?b) ev" if "current_event (br_completion b) ev" for ev
    using that keep unfolding current_event_def tracked_def by blast
  have pend: "bs_pending_dlq_events (br_completion ?b) = bs_pending_dlq_events (br_completion b)" by (simp add: assign_sync_def)
  then show "bs_pending_dlq_events (br_completion ?b) = bs_pending_dlq_events (br_completion b)" .
  have "pending_wf (br_completion ?b)" using broker_okD(7)[OF ok] by (simp add: pending_wf_def pend)
  moreover have "dict_wf (bs_offset_trackers (br_completion ?b))"
    using fold_dict_set_wf[OF broker_okD(5)[OF ok]] by (simp add: assign_sync_def)
  moreover have "br_coordinator ?b = None" using broker_okD(9)[OF ok] by (simp add: assign_sync_def)
  moreover have "all_shared (br_work_manager ?b)"
    using F[THEN conjunct1] unfolding all_shared_def wf' .
  ultimately show "broker_ok V m ?b"
    using on_assign_good[OF broker_okD(1)[OF ok] wf asg] assign_custody[OF asg wf broker_okD(2)[OF ok], of V] keys wft cur
      broker_okD(8)[OF ok]
    unfolding broker_ok_def pend w by blast
  have "same_ledger (br_work_manager b) ?f" using on_assign_settings by blast
  then show "wm_in_flight_work_items (br_work_manager ?b) = wm_in_flight_work_items (br_work_manager b)"
    by (simp add: w on_assign_def invalidate_blocking_cache_def same_ledger_def)
qed

lemma assign_accounts:
  assumes "tracker_containers (env_containers V)" "broker_ok V m b"
    "build_assignments (env_containers V) strategy grace answer ps = Inr a"
    "\<And>p. p \<in> set ps \<Longrightarrow> tracked b (kafka_tp p) = None"
    and acc: "accounts D G F b"
  shows "accounts D G (F \<union> listed D (assign_sync V a b)) (assign_sync V a b)"
proof -
  note A = assign_ok[OF assms(1-4)]
  have h: "held (assign_sync V a b) k" if "held b k" for k
    using that A(2,3) unfolding held_def by metis
  have t: "tracked (assign_sync V a b) (fst k) = tracked b (fst k)" if "k \<in> G" for k
    using acc that A(2)[of "fst k"] by (auto simp: accounts_def)
  have p: "retained (br_completion (assign_sync V a b)) k = retained (br_completion b) k" for k by (simp only: A(4))
  show ?thesis
  proof (rule accountsI)
    fix k assume k: "k \<in> G"
    show "tracked (assign_sync V a b) (fst k) \<noteq> None" using accountsD(1)[OF acc k] t[OF k] by simp
    show "k \<in> F \<union> listed D (assign_sync V a b) \<or> retained (br_completion (assign_sync V a b)) k \<or> held (assign_sync V a b) k"
      unfolding p using accountsD(2)[OF acc k] h[of k] by blast
    show "k \<in> F \<union> listed D (assign_sync V a b)"
      if "tracked (assign_sync V a b) (fst k) = Some u" "snd k \<le> ot_last_committed_offset u" for u
      using accountsD(3)[OF acc k] that t[OF k] by simp
  qed simp
qed

lemma prepare_fold_frame:
  assumes "fold (prepare_revoke_partition D pl strategy cands) ps (offs, s) = (offs', s')"
  shows "bs_pending_dlq_events s' = bs_pending_dlq_events s \<and>
    (tp \<notin> kafka_tp ` set ps \<longrightarrow> dict_get (bs_offset_trackers s') tp = dict_get (bs_offset_trackers s) tp) \<and>
    (dict_wf (bs_offset_trackers s) \<longrightarrow> dict_wf (bs_offset_trackers s'))"
  using assms
proof (induction ps arbitrary: offs s)
  case (Cons p ps)
  obtain offs1 s1 where 1: "prepare_revoke_partition D pl strategy cands p (offs, s) = (offs1, s1)" by force
  have c: "bs_pending_dlq_events s1 = bs_pending_dlq_events s" "dict_wf (bs_offset_trackers s) \<Longrightarrow> dict_wf (bs_offset_trackers s1)"
    using 1 by (auto simp: prepare_revoke_partition_def Let_def split: option.splits if_splits)
  have "fold (prepare_revoke_partition D pl strategy cands) ps (offs1, s1) = (offs', s')" using Cons.prems 1 by simp
  from Cons.IH[OF this] show ?case
    using prepare_partition_eq(2)[of D pl strategy cands p offs s tp] c by (auto simp: 1)
qed simp

lemma cleanup_wf:
  "dict_wf (bs_offset_trackers (br_completion b)) \<Longrightarrow> dict_wf (bs_offset_trackers (br_completion (cleanup_revoke_sync tps b)))"
  "dict_wf (bs_pending_dlq_events (br_completion b)) \<Longrightarrow> dict_wf (bs_pending_dlq_events (br_completion (cleanup_revoke_sync tps b)))"
  unfolding cleanup_revoke_sync_def by (induction tps arbitrary: b) (auto simp: cleanup_revoked_partition_def)

lemma revoke_ok:
  assumes ok: "broker_ok V m b" and run: "handle_revoke_callback D pl strategy accepted ps b = (sent, b')"
  shows "broker_ok V m b'"
    "\<And>tp. tracked b' tp = (if tp \<in> kafka_tp ` set ps then None else tracked b tp)"
    "\<And>k. dict_get (bs_pending_dlq_events (br_completion b')) k =
       (if fst k \<in> kafka_tp ` set ps then None else dict_get (bs_pending_dlq_events (br_completion b)) k)"
    "br_work_manager b' = on_revoke (map kafka_tp ps) (br_work_manager b)"
proof -
  let ?tps = "map kafka_tp ps"
  obtain offs s where p: "fold (prepare_revoke_partition D pl strategy (revoke_candidates ?tps b)) ps ([], br_completion b) = (offs, s)"
    by force
  define b1 where "b1 = b\<lparr>br_coordinator := map_option (stop_accepting_partitions ?tps) (br_coordinator b),
      br_work_manager := on_revoke ?tps (br_work_manager b), br_completion := s\<rparr>"
  have b': "b' = cleanup_revoke_sync ?tps b1"
    using run p by (simp add: handle_revoke_callback_def prepare_revoke_sync_def Let_def
        revoke_candidates_def[symmetric] b1_def)
  note P = prepare_fold_frame[OF p] and C = cleanup_fold[of ?tps b1]
  show tr: "tracked b' tp = (if tp \<in> kafka_tp ` set ps then None else tracked b tp)" for tp
    using C P[of tp] by (simp add: tracked_def b' b1_def)
  show pd: "dict_get (bs_pending_dlq_events (br_completion b')) k =
       (if fst k \<in> kafka_tp ` set ps then None else dict_get (bs_pending_dlq_events (br_completion b)) k)" for k
    using C[THEN conjunct2, THEN conjunct1, of k] P by (simp add: b' b1_def)
  show w: "br_work_manager b' = on_revoke ?tps (br_work_manager b)"
    using cleanup_fold[of ?tps b1] by (simp add: b' b1_def)
  have inv: "wm_inv V {} (br_work_manager b)" by (rule wm_goodD(1)[OF broker_okD(1)[OF ok]])
  note R = on_revoke_inv[OF inv, of ?tps] and F = on_revoke_frame[OF inv, where tps = ?tps]
  have cur: "current_event (br_completion b') ev"
    if "dict_get (bs_pending_dlq_events (br_completion b')) k = Some ev" for k ev
  proof -
    have k: "fst k \<notin> kafka_tp ` set ps" "dict_get (bs_pending_dlq_events (br_completion b)) k = Some ev"
      using that pd[of k] by (simp_all split: if_splits)
    have "event_key ev = k" using broker_okD(7)[OF ok] k(2) unfolding pending_wf_alt by blast
    then have "ce_tp ev \<notin> kafka_tp ` set ps" using k(1) by (auto simp: event_key_def)
    then show ?thesis using broker_okD(8)[OF ok k(2)] tr[of "ce_tp ev"] by (simp add: current_event_def tracked_def)
  qed
  have "all_shared (br_work_manager b')"
    using broker_okD(3)[OF ok] R(8) F(3) by (simp add: all_shared_def w)
  moreover have "dict_get (wm_offset_trackers (br_work_manager b')) tp = None \<longleftrightarrow> tracked b' tp = None" for tp
    using R(8)[of tp] broker_okD(4)[OF ok, of tp] tr[of tp] by (simp add: w)
  moreover have "completed_ahead (env_containers V) (bs_offset_trackers (br_completion b'))"
    using broker_okD(6)[OF ok] tr by (simp add: completed_ahead_def tracked_def)
  moreover have "dict_wf (bs_offset_trackers (br_completion b'))"
    unfolding b' by (rule cleanup_wf(1)) (use P broker_okD(5)[OF ok] in \<open>simp add: b1_def\<close>)
  moreover have "pending_wf (br_completion b')"
    unfolding pending_wf_alt
  proof
    show "dict_wf (bs_pending_dlq_events (br_completion b'))"
      unfolding b' by (rule cleanup_wf(2)) (use P broker_okD(7)[OF ok] in \<open>simp add: b1_def pending_wf_def\<close>)
    show "\<forall>k ev. dict_get (bs_pending_dlq_events (br_completion b')) k = Some ev \<longrightarrow> event_key ev = k"
      using broker_okD(7)[OF ok] unfolding pending_wf_alt pd by (simp del: split_paired_All)
  qed
  moreover have "br_coordinator b' = None"
    using C broker_okD(9)[OF ok] by (simp add: b' b1_def)
  ultimately show "broker_ok V m b'"
    using on_revoke_good[OF broker_okD(1)[OF ok], of ?tps] revoke_custody[OF inv broker_okD(2)[OF ok], of ?tps] cur
    unfolding broker_ok_def by (simp add: w)
qed

lemma revoke_accounts:
  assumes ok: "broker_ok V m b" and run: "handle_revoke_callback D pl strategy accepted ps b = (sent, b')"
    and acc: "accounts D G F b"
  shows "accounts D {k \<in> G. fst k \<notin> kafka_tp ` set ps} {k \<in> F. fst k \<notin> kafka_tp ` set ps} b'"
proof (rule accountsI)
  note R = revoke_ok[OF ok run] and I = on_revoke_inv(3)[OF wm_goodD(1)[OF broker_okD(1)[OF ok]]]
  fix k assume "k \<in> {k \<in> G. fst k \<notin> kafka_tp ` set ps}"
  then have k: "k \<in> G" "fst k \<notin> kafka_tp ` set ps" by simp_all
  have t: "tracked b' (fst k) = tracked b (fst k)" using k(2) R(2) by simp
  show "tracked b' (fst k) \<noteq> None" using accountsD(1)[OF acc k(1)] t by simp
  have "held b' k" if h: "held b k"
  proof -
    obtain i w u where "item_of (br_work_manager b) i = Some w" "(wi_tp w, wi_offset w) = k" "tracked b (fst k) = Some u"
        "wi_epoch w = ot_epoch u"
      using h unfolding held_def by blast
    moreover have "item_of (br_work_manager b') i = Some w" using calculation(1,2) k(2) unfolding R(4) I by auto
    ultimately show ?thesis using t unfolding held_def by auto
  qed
  then show "k \<in> {k \<in> F. fst k \<notin> kafka_tp ` set ps} \<or> retained (br_completion b') k \<or> held b' k"
    using accountsD(2)[OF acc k(1)] R(3)[of k] k(2) by auto
  show "k \<in> {k \<in> F. fst k \<notin> kafka_tp ` set ps}"
    if "tracked b' (fst k) = Some u" "snd k \<le> ot_last_committed_offset u" for u
    using accountsD(3)[OF acc k(1)] that t k(2) by simp
next
  have "completed_of D (br_completion b') tp = (if tp \<in> kafka_tp ` set ps then {} else completed_of D (br_completion b) tp)" for tp
    using revoke_ok(2)[OF ok run, of tp] by (simp add: completed_of_def tracked_def)
  then show "listed D b' \<subseteq> {k \<in> F. fst k \<notin> kafka_tp ` set ps}"
    using accounts_listed[OF acc] by (auto simp: listed_def split: if_splits)
qed

section \<open>Dispatch\<close>

text \<open>After a dispatch a polled record is listed as complete or in the queue of a work item.\<close>

definition taken ::
  "('s, 'c) container_ops \<Rightarrow> ('s, 'c, 'e) poll_state \<Rightarrow> kafka_message \<Rightarrow> ('s, 'c, 'e) poll_state \<Rightarrow> bool" where
  "taken D s r s' \<longleftrightarrow>
     (\<forall>tp off t. message_position r = Some (tp, off) \<and> dict_get (ps_trackers s) tp = Some t \<longrightarrow>
        ss_contains D (ot_completed_offsets t) off \<or>
        (\<exists>w. queued (br_work_manager (ps_broker s')) w \<and> wi_tp w = tp \<and> wi_offset w = off \<and> wi_epoch w = ot_epoch t))"

lemma list_all2_member: "list_all2 P xs ys \<Longrightarrow> x \<in> set xs \<Longrightarrow> \<exists>y \<in> set ys. P x y"
  by (induction rule: list_all2_induct) auto

lemma delivers_takes:
  assumes "delivers V mode msgs s s'" "r \<in> set msgs"
  shows "taken (env_containers V) s r s'"
  unfolding taken_def
proof (intro allI impI)
  fix tp off t
  assume r: "message_position r = Some (tp, off) \<and> dict_get (ps_trackers s) tp = Some t"
  let ?D = "env_containers V" and ?q = "(tp, submit_key mode tp r)"
  show "ss_contains ?D (ot_completed_offsets t) off \<or>
        (\<exists>w. queued (br_work_manager (ps_broker s')) w \<and> wi_tp w = tp \<and> wi_offset w = off \<and> wi_epoch w = ot_epoch t)"
  proof (cases "deliverable ?D (ps_trackers s) r")
    case False
    then show ?thesis using r by (simp add: deliverable_def is_completed_uncommitted_def)
  next
    case True
    obtain new where new: "queue_items (wm_queue_topology (br_work_manager (ps_broker s'))) ?q =
        queue_items (wm_queue_topology (br_work_manager (ps_broker s))) ?q @ new"
      "list_all2 (carries mode (ps_trackers s))
        (filter (\<lambda>m. deliverable ?D (ps_trackers s) m \<and> routed_to mode ?q m) msgs) new"
      using deliversD(5)[OF assms(1), of ?q] by (elim exE conjE)
    have "r \<in> set (filter (\<lambda>m. deliverable ?D (ps_trackers s) m \<and> routed_to mode ?q m) msgs)"
      using True assms(2) r by (simp add: routed_to_def)
    then obtain w where w: "w \<in> set new" "carries mode (ps_trackers s) r w"
      using list_all2_member[OF new(2)] by blast
    then have c: "wi_tp w = tp" "wi_offset w = off" "wi_epoch w = ot_epoch t" "wi_key w = submit_key mode tp r"
      using r by (auto simp: carries_def get_current_epoch_def)
    then have "queued (br_work_manager (ps_broker s')) w" using new(1) w(1) by (simp add: queued_def)
    then show ?thesis using c by blast
  qed
qed

lemma delivers_queued:
  assumes "delivers V mode msgs s s'" "queued (br_work_manager (ps_broker s)) w"
  shows "queued (br_work_manager (ps_broker s')) w"
proof -
  obtain new where "queue_items (wm_queue_topology (br_work_manager (ps_broker s'))) (route_of w) =
      queue_items (wm_queue_topology (br_work_manager (ps_broker s))) (route_of w) @ new"
    using deliversD(5)[OF assms(1), of "route_of w"] by (elim exE conjE)
  then show ?thesis using assms(2) unfolding queued_def by simp
qed

lemma taken_start:
  assumes "trackers_fetched (ps_trackers s) (ps_trackers s1)" "taken D s1 r s'"
  shows "taken D s r s'"
  unfolding taken_def
proof (intro allI impI)
  fix tp off t assume r: "message_position r = Some (tp, off) \<and> dict_get (ps_trackers s) tp = Some t"
  then obtain t1 where "dict_get (ps_trackers s1) tp = Some t1" "fetched_more t t1"
    using trackers_fetchedD(2)[OF assms(1)] by blast
  then show "ss_contains D (ot_completed_offsets t) off \<or>
      (\<exists>w. queued (br_work_manager (ps_broker s')) w \<and> wi_tp w = tp \<and> wi_offset w = off \<and> wi_epoch w = ot_epoch t)"
    using assms(2) r unfolding taken_def fetched_more_def by metis
qed

lemma unordered_takes:
  assumes "wm_inv V {} (br_work_manager (ps_broker s))" "inj (env_uuid V)" "tracked_assigned s"
  shows "\<exists>s'. dispatch_loop V UNORDERED dlq ms g s = (Inr g, s') \<and>
    (\<forall>r \<in> set ms. taken (env_containers V) s r s') \<and>
    (\<forall>w. queued (br_work_manager (ps_broker s)) w \<longrightarrow> queued (br_work_manager (ps_broker s')) w)"
  using assms
proof (induction ms arbitrary: s)
  case (Cons m ms)
  obtain s1 where 1: "dispatch_message V UNORDERED dlq m g s = (Inr g, s1)" "delivers V UNORDERED [m] s s1"
    using unordered_message[OF Cons.prems, of dlq m g] by blast
  obtain s2 where 2: "dispatch_loop V UNORDERED dlq ms g s1 = (Inr g, s2)"
    "\<forall>r \<in> set ms. taken (env_containers V) s1 r s2"
    "\<forall>w. queued (br_work_manager (ps_broker s1)) w \<longrightarrow> queued (br_work_manager (ps_broker s2)) w"
    using Cons.IH[OF deliversD(1)[OF 1(2)] Cons.prems(2) tracked_assigned_delivers[OF 1(2) Cons.prems(3)]] by blast
  have "taken (env_containers V) s m s2"
    using delivers_takes[OF 1(2), of m] 2(3) unfolding taken_def by fastforce
  then show ?case
    using 1(1) 2 taken_start[OF deliversD(4)[OF 1(2)]] delivers_queued[OF 1(2)] by (intro exI[of _ s2]) auto
qed simp

lemma dispatch_takes:
  assumes "wm_inv V {} (br_work_manager (ps_broker s))" "inj (env_uuid V)" "tracked_assigned s"
    "dispatch_messages V mode dlq msgs s = (r, s')" "msg \<in> set msgs"
  shows "taken (env_containers V) s msg s'"
proof (cases "mode = UNORDERED")
  case True
  then show ?thesis using unordered_takes[OF assms(1-3), of dlq msgs "[]"] assms(4,5)
    by (auto simp: dispatch_messages_def submit_grouped_messages_def)
next
  case False
  then obtain s2 where "dispatch_messages V mode dlq msgs s = (Inr (), s2)" "delivers V mode msgs s s2"
    using ordered_delivers[OF assms(1-3)] by blast
  then show ?thesis using delivers_takes assms(4,5) by fastforce
qed

lemma dispatch_ok:
  assumes env: "env_ok V" and ok: "broker_ok V m (lo_broker s)"
    and run: "dispatch_messages V mode dlq msgs (lo_poll s) = (Inr (), p)"
  shows "broker_ok V m (ps_broker p)" "trackers_fetched (ps_trackers (lo_poll s)) (ps_trackers p)"
    "undisturbed (br_work_manager (lo_broker s)) (br_work_manager (ps_broker p))"
    "bs_pending_dlq_events (br_completion (ps_broker p)) = bs_pending_dlq_events (br_completion (lo_broker s))"
    "msg \<in> set msgs \<Longrightarrow> taken (env_containers V) (lo_poll s) msg p"
proof -
  let ?b = "lo_broker s" and ?b' = "ps_broker p"
  have inv: "wm_inv V {} (br_work_manager ?b)" by (rule wm_goodD(1)[OF broker_okD(1)[OF ok]])
  have ta: "tracked_assigned (lo_poll s)"
    using broker_okD(4)[OF ok] managed_invD(1)[OF wm_invD(3)[OF inv]]
    by (simp add: tracked_assigned_def tracked_def ps_trackers_def lo_broker_def)
  then have rd: "dispatch_ready V m (lo_poll s)"
    using broker_okD(1,2)[OF ok] by (simp add: dispatch_ready_def lo_broker_def)
  have K: "dispatch_ready V m p" "dispatch_keeps (lo_poll s) p"
    using dispatch_messages_keeps[OF env rd, of mode dlq msgs] run by auto
  note keeps = K(2)[unfolded dispatch_keeps_def lo_broker_def[symmetric]]
  show tf: "trackers_fetched (ps_trackers (lo_poll s)) (ps_trackers p)"
    and "undisturbed (br_work_manager ?b) (br_work_manager ?b')"
    and pend: "bs_pending_dlq_events (br_completion ?b') = bs_pending_dlq_events (br_completion ?b)"
    using keeps by simp_all
  show "taken (env_containers V) (lo_poll s) msg p" if "msg \<in> set msgs"
    by (rule dispatch_takes[OF _ _ ta run that]) (use inv env in \<open>simp_all add: env_ok_def lo_broker_def\<close>)
  note fetch = trackers_fetchedD[OF tf, unfolded ps_trackers_def lo_broker_def[symmetric], folded tracked_def]
  have more: "\<exists>t. tracked ?b tp = Some t \<and> fetched_more t t'" if "tracked ?b' tp = Some t'" for tp t'
    using fetch[of tp] that by (cases "tracked ?b tp") auto
  have "completed_ahead (env_containers V) (bs_offset_trackers (br_completion ?b'))"
    using broker_okD(6)[OF ok] more unfolding completed_ahead_def tracked_def fetched_more_def by metis
  moreover have "current_event (br_completion ?b') ev" if "current_event (br_completion ?b) ev" for ev
    using that fetch(2)[of "ce_tp ev"] by (auto simp: current_event_def tracked_def fetched_more_def get_current_epoch_def)
  moreover have "dict_wf (bs_offset_trackers (br_completion ?b'))"
    using keeps broker_okD(5)[OF ok] by (simp add: dict_wf_def ps_trackers_def lo_broker_def)
  moreover have "dict_get (wm_offset_trackers (br_work_manager ?b')) tp = None \<longleftrightarrow> tracked ?b' tp = None" for tp
    using keeps broker_okD(4)[OF ok, of tp] fetch(1)[of tp] by simp
  moreover have "all_shared (br_work_manager ?b')" using keeps broker_okD(3)[OF ok] by (simp add: all_shared_def)
  moreover have "pending_wf (br_completion ?b')" "br_coordinator ?b' = None"
    using broker_okD(7,9)[OF ok] keeps by (simp_all add: pending_wf_def pend)
  ultimately show "broker_ok V m ?b'"
    using K(1) broker_okD(8)[OF ok] unfolding broker_ok_def dispatch_ready_def pend by blast
qed

lemma dispatch_accounts:
  assumes D: "tracker_containers (env_containers V)" and env: "env_ok V" and ok: "broker_ok V m (lo_broker s)"
    and run: "dispatch_messages V mode dlq msgs (lo_poll s) = (Inr (), p)"
    and acc: "accounts (env_containers V) G F (lo_broker s)"
  shows "accounts (env_containers V) (G \<union> polled_ahead msgs (lo_broker s)) F (ps_broker p)"
proof -
  let ?b = "lo_broker s" and ?b' = "ps_broker p" and ?D = "env_containers V"
  note K = dispatch_ok[OF env ok run]
  note fetch = trackers_fetchedD[OF K(2), unfolded ps_trackers_def lo_broker_def[symmetric], folded tracked_def]
  have same: "\<exists>t'. tracked ?b' tp = Some t' \<and> ot_epoch t' = ot_epoch t \<and> ot_completed_offsets t' = ot_completed_offsets t \<and>
      ot_last_committed_offset t' = ot_last_committed_offset t" if "tracked ?b tp = Some t" for tp t
    using fetch(2)[OF that] by (auto simp: fetched_more_def)
  have held: "held ?b' k" if h: "held ?b k" for k
  proof -
    obtain i w t where "item_of (br_work_manager ?b) i = Some w" "(wi_tp w, wi_offset w) = k" "tracked ?b (fst k) = Some t"
        "wi_epoch w = ot_epoch t"
      using h unfolding held_def by blast
    then show ?thesis using K(3) same[of "fst k" t] unfolding held_def undisturbed_def by metis
  qed
  have li: "listed ?D ?b' = listed ?D ?b"
  proof -
    have "completed_of ?D (br_completion ?b') tp = completed_of ?D (br_completion ?b) tp" for tp
      using same[of tp] fetch(1)[of tp] unfolding completed_of_def tracked_def[symmetric]
      by (cases "tracked ?b tp") (auto split: option.split)
    then show ?thesis by (simp add: listed_def)
  qed
  have polled: "k \<in> listed ?D ?b \<or> held ?b' k" if k: "k \<in> polled_ahead msgs ?b" for k
  proof -
    obtain r t where r: "r \<in> set msgs" "message_position r = Some (fst k, snd k)" "tracked ?b (fst k) = Some t"
      using k by (auto simp: polled_ahead_def)
    have "dict_get (ps_trackers (lo_poll s)) (fst k) = Some t" using r(3) by (simp add: tracked_def ps_trackers_def lo_broker_def)
    then consider "ss_contains ?D (ot_completed_offsets t) (snd k)"
      | w where "queued (br_work_manager ?b') w" "wi_tp w = fst k" "wi_offset w = snd k" "wi_epoch w = ot_epoch t"
      using K(5)[OF r(1)] r(2) unfolding taken_def by blast
    then show ?thesis
    proof cases
      case 1
      then have "snd k \<in> set (ss_iter ?D (ot_completed_offsets t))"
        using sorted_set.contains_iff[OF tracker_containers.axioms(1)[OF D]] by simp
      then show ?thesis using r(3) by (simp add: listed_def completed_of_def tracked_def)
    next
      case 2
      have "item_of (br_work_manager ?b') (wi_id w) = Some w"
        using queue_invD(5)[OF wm_invD(2)[OF wm_goodD(1)[OF broker_okD(1)[OF K(1)]]]] 2(1) unfolding queued_def by blast
      then show ?thesis using 2 same[OF r(3)] unfolding held_def by (metis prod.collapse)
    qed
  qed
  show ?thesis
  proof (rule accountsI)
    fix k assume "k \<in> G \<union> polled_ahead msgs ?b"
    then consider "k \<in> G" | "k \<in> polled_ahead msgs ?b" by blast
    note k = this
    have tr: "tracked ?b (fst k) \<noteq> None" using k accountsD(1)[OF acc, of k] by cases (auto simp: polled_ahead_def)
    then show "tracked ?b' (fst k) \<noteq> None" using fetch(1)[of "fst k"] by simp
    show "k \<in> F \<or> retained (br_completion ?b') k \<or> held ?b' k"
      using k
    proof cases
      case 1
      then show ?thesis using accountsD(2)[OF acc 1] held[of k] unfolding K(4) by blast
    next
      case 2
      then show ?thesis using polled[OF 2] accounts_listed[OF acc] by blast
    qed
    show "k \<in> F" if t': "tracked ?b' (fst k) = Some t'" "snd k \<le> ot_last_committed_offset t'" for t'
    proof -
      obtain t where t: "tracked ?b (fst k) = Some t" using tr by blast
      then have le: "snd k \<le> ot_last_committed_offset t" using same[OF t] t' by auto
      then have "k \<in> G" using k t by cases (auto simp: polled_ahead_def)
      then show ?thesis using accountsD(3)[OF acc _ t le] by blast
    qed
  qed (use li accounts_listed[OF acc] in simp)
qed

section \<open>Commits\<close>

text \<open>A commit moves a tracker over completed offsets only.\<close>

definition commit_moves :: "('s, 'c) container_ops \<Rightarrow> ('s, 'c) offset_tracker \<Rightarrow> ('s, 'c) offset_tracker \<Rightarrow> bool" where
  "commit_moves D t t' \<longleftrightarrow>
     ot_epoch t' = ot_epoch t \<and>
     {ot_last_committed_offset t<..ot_last_committed_offset t'} \<subseteq> set (ss_iter D (ot_completed_offsets t)) \<and>
     set (ss_iter D (ot_completed_offsets t')) \<subseteq> set (ss_iter D (ot_completed_offsets t)) \<and>
     (\<forall>x \<in> set (ss_iter D (ot_completed_offsets t')). ot_last_committed_offset t' < x)"

lemma commit_moves_refl: "\<forall>x \<in> set (ss_iter D (ot_completed_offsets t)). ot_last_committed_offset t < x \<Longrightarrow> commit_moves D t t"
  by (simp add: commit_moves_def)

lemma ahead_stays: "completed_ahead D d \<Longrightarrow> rel_option (commit_moves D) (dict_get d tp) (dict_get d tp)"
  by (cases "dict_get d tp") (simp_all add: completed_ahead_def commit_moves_def)

context tracker_containers
begin

lemma commit_through_moves:
  assumes ahead: "\<forall>x \<in> set (ss_iter D (ot_completed_offsets t)). ot_last_committed_offset t < x"
    and h: "h = get_committable_high_water_mark D m t"
  shows "commit_moves D t (commit_through D h t)"
proof -
  have "tracker_wf D (bump_version D t)" by (rule tracker_wf_bump[OF ahead])
  moreover have "get_committable_high_water_mark D m (bump_version D t) = h"
    by (simp add: h get_committable_high_water_mark_def)
  ultimately have run: "{ot_last_committed_offset t<..h} \<subseteq> set (ss_iter D (ot_completed_offsets t))"
    using committable_contiguous[of "bump_version D t" m] by (simp add: tracker_ledger_def)
  show ?thesis
  proof (cases "h \<le> ot_last_committed_offset t")
    case True
    then show ?thesis using ahead by (simp add: commit_through_def commit_moves_refl)
  next
    case False
    have "set (ss_iter D (ot_completed_offsets (commit_through D h t))) =
        {x \<in> set (ss_iter D (ot_completed_offsets t)). \<not> (ot_last_committed_offset t + 1 \<le> x \<and> x \<le> h)}"
      using False by (simp add: commit_through_def commit_through_removes)
    then show ?thesis using run ahead False by (auto simp: commit_moves_def commit_through_def)
  qed
qed

end

lemma candidates_distinct: "dict_wf trackers \<Longrightarrow> distinct (map fst (build_commit_candidates D m trackers))"
proof -
  have "map fst (build_commit_candidates D m trackers) =
      map fst (filter (\<lambda>(tp, t). ot_last_committed_offset t < get_committable_high_water_mark D (m tp) t) trackers)"
    unfolding build_commit_candidates_def by (induction trackers) auto
  then show "dict_wf trackers \<Longrightarrow> ?thesis" using dict_wf_def distinct_map_filter by metis
qed

lemma apply_commits_wf: "dict_wf d \<Longrightarrow> dict_wf (fold (apply_commit D) commits d)"
  by (induction commits arbitrary: d) (auto simp: apply_commit_def split: option.split)

lemma commit_offsets_moves:
  assumes D: "tracker_containers D" and wf: "dict_wf d" and ahead: "completed_ahead D d"
    and sub: "set commits \<subseteq> set (build_commit_candidates D m d)" "distinct (map fst commits)"
    and run: "commit_offsets D pl strategy has answers commits d d = (r, d')"
  shows "\<exists>x. r = Inr x" "dict_wf d'" "\<And>tp. rel_option (commit_moves D) (dict_get d tp) (dict_get d' tp)"
proof -
  have plan: "\<exists>ps. build_offsets_to_commit D pl strategy d (tracked_commits d commits) = Inr ps"
    using tracked_plan[OF tracked_commits_dom] by blast
  then show "\<exists>x. r = Inr x"
    using run by (auto simp: commit_offsets_def Let_def split: if_splits commit_answer.splits)
  have d': "d' = d \<or> d' = fold (apply_commit D) (tracked_commits d commits) d"
    using run plan by (auto simp: commit_offsets_def Let_def split: if_splits commit_answer.splits)
  then show "dict_wf d'" using wf apply_commits_wf by auto
  have refl: "rel_option (commit_moves D) (dict_get d tp) (dict_get d tp)" for tp
    by (rule ahead_stays[OF ahead])
  have dist: "distinct (map fst (tracked_commits d commits))"
    using sub(2) by (auto simp: tracked_commits_def distinct_map_filter)
  have step: "rel_option (commit_moves D) (dict_get d tp) (dict_get (fold (apply_commit D) (tracked_commits d commits) d) tp)" for tp
  proof (cases "dict_get (tracked_commits d commits) tp")
    case None
    then show ?thesis using refl apply_commits_get[OF dist, of D d tp] by simp
  next
    case (Some h)
    then have "(tp, h) \<in> set (build_commit_candidates D m d)"
      using sub(1) map_of_SomeD[OF Some] by (auto simp: tracked_commits_def)
    then obtain t where t: "dict_get d tp = Some t" "h = get_committable_high_water_mark D (m tp) t"
      using candidates_iff[OF wf] by blast
    have "commit_moves D t (commit_through D h t)"
      by (rule tracker_containers.commit_through_moves[OF D _ t(2)]) (use ahead t(1) in \<open>simp add: completed_ahead_def\<close>)
    then show ?thesis using apply_commits_get[OF dist, of D d tp] Some t(1) by simp
  qed
  show "rel_option (commit_moves D) (dict_get d tp) (dict_get d' tp)" for tp using d' refl step by auto
qed

lemma commit_sync_total: "commit_ready_sync V cfg io source commits s \<noteq> None"
  by (simp add: commit_ready_sync_def Let_def split: prod.split sum.split)

text \<open>Without a coordinator the ready offsets are committed synchronously.\<close>

definition ready_commits :: "('s, 'c, 'e) dispatch_env \<Rightarrow> bool \<Rightarrow> ('s, 'c, 'e) dispatch_broker \<Rightarrow> (topic_partition \<times> int) list" where
  "ready_commits V force b =
     (let candidates = build_commit_candidates (env_containers V)
            (\<lambda>tp. get_min_in_flight_offset tp (br_work_manager b)) (bs_offset_trackers (br_completion b))
      in if force then candidates
         else filter (\<lambda>(tp, offset). tp \<in> sl_dirty_commit_partitions (br_ledger b)) candidates)"

lemma commit_without_coordinator:
  assumes "br_coordinator (lo_broker s) = None"
  shows "commit_ready_offsets V cfg io force source s =
    (let s0 = s\<lparr>lo_cadence := record_invocation source (lo_cadence s)\<rparr>
     in if \<not> force \<and> \<not> attempt_due cfg io s0
        then Some (Inr (), s0\<lparr>lo_cadence := record_empty_candidate_scan source (lo_cadence s0)\<rparr>)
        else if ready_commits V force (lo_broker s) = [] then Some (Inr (), mark_attempt io s0)
        else commit_ready_sync V cfg io source (ready_commits V force (lo_broker s)) s0)"
proof -
  have "(if po_coordinator_enabled cfg then br_coordinator (lo_broker s) else None) = None" using assms by simp
  then show ?thesis by (simp only: commit_ready_offsets_def Let_def ready_commits_def set_broker_simps option.case)
qed

lemma ready_commits_candidates:
  assumes "dict_wf (bs_offset_trackers (br_completion b))"
  shows "set (ready_commits V force b) \<subseteq> set (build_commit_candidates (env_containers V)
      (\<lambda>tp. get_min_in_flight_offset tp (br_work_manager b)) (bs_offset_trackers (br_completion b)))"
    "distinct (map fst (ready_commits V force b))"
  using candidates_distinct[OF assms] by (auto simp: ready_commits_def Let_def distinct_map_filter)

lemma commit_broker:
  assumes D: "tracker_containers (env_containers V)" and ok: "broker_ok V m (lo_broker s)"
    and run: "commit_ready_offsets V cfg io force source s = Some (r, s')"
  shows "r = Inr ()" "br_work_manager (lo_broker s') = br_work_manager (lo_broker s)"
    "br_coordinator (lo_broker s') = None"
    "bs_pending_dlq_events (br_completion (lo_broker s')) = bs_pending_dlq_events (br_completion (lo_broker s))"
    "dict_wf (bs_offset_trackers (br_completion (lo_broker s')))"
    "\<And>tp. rel_option (commit_moves (env_containers V)) (tracked (lo_broker s) tp) (tracked (lo_broker s') tp)"
proof -
  let ?D = "env_containers V" and ?b = "lo_broker s"
  let ?d = "bs_offset_trackers (br_completion ?b)"
  have mark: "lo_broker (mark_attempt io x) = (lo_broker x)\<lparr>br_ledger := (br_ledger (lo_broker x))\<lparr>sl_completions_since_last_commit := 0\<rparr>\<rparr>" for x
    by (simp add: mark_attempt_def Let_def)
  have refl: "rel_option (commit_moves ?D) (tracked ?b tp) (tracked ?b tp)" for tp
    unfolding tracked_def by (rule ahead_stays[OF broker_okD(6)[OF ok]])
  let ?cs = "ready_commits V force ?b"
  let ?s0 = "s\<lparr>lo_cadence := record_invocation source (lo_cadence s)\<rparr>"
  note cs = ready_commits_candidates[OF broker_okD(5)[OF ok], of V force]
  consider (same) "r = Inr ()" "br_completion (lo_broker s') = br_completion ?b" "br_work_manager (lo_broker s') = br_work_manager ?b"
      "br_coordinator (lo_broker s') = br_coordinator ?b"
    | (sync) "commit_ready_sync V cfg io source ?cs ?s0 = Some (r, s')"
    using run unfolding commit_without_coordinator[OF broker_okD(9)[OF ok]] Let_def
    by (auto simp: mark split: if_splits)
  then have "r = Inr () \<and> br_work_manager (lo_broker s') = br_work_manager ?b \<and> br_coordinator (lo_broker s') = None \<and>
    bs_pending_dlq_events (br_completion (lo_broker s')) = bs_pending_dlq_events (br_completion ?b) \<and>
    dict_wf (bs_offset_trackers (br_completion (lo_broker s'))) \<and>
    (\<forall>tp. rel_option (commit_moves ?D) (tracked ?b tp) (tracked (lo_broker s') tp))"
  proof cases
    case same
    then have "tracked (lo_broker s') = tracked ?b" by (simp add: tracked_def fun_eq_iff)
    then show ?thesis using same broker_okD(5,9)[OF ok] refl by simp
  next
    case sync
    obtain r1 d1 where 1: "commit_offsets ?D (po_planner cfg) (po_rebalance_strategy cfg) (io_has_consumer io)
        (io_answers io) ?cs ?d ?d = (r1, d1)" by force
    note M = commit_offsets_moves[OF D broker_okD(5,6)[OF ok] cs 1]
    obtain x where x: "r1 = Inr x" using M(1) by blast
    obtain c sent where xx: "x = (c, sent)" by (cases x)
    have "r = Inr () \<and> br_work_manager (lo_broker s') = br_work_manager ?b \<and> br_coordinator (lo_broker s') = br_coordinator ?b \<and>
      br_completion (lo_broker s') = (br_completion ?b)\<lparr>bs_offset_trackers := d1\<rparr>"
      using sync unfolding commit_ready_sync_def Let_def set_broker_simps 1 x xx by (auto simp: mark)
    then show ?thesis using M(2,3) broker_okD(9)[OF ok] by (simp add: tracked_def)
  qed
  then show "r = Inr ()" "br_work_manager (lo_broker s') = br_work_manager (lo_broker s)"
    "br_coordinator (lo_broker s') = None"
    "bs_pending_dlq_events (br_completion (lo_broker s')) = bs_pending_dlq_events (br_completion (lo_broker s))"
    "dict_wf (bs_offset_trackers (br_completion (lo_broker s')))"
    "\<And>tp. rel_option (commit_moves (env_containers V)) (tracked (lo_broker s) tp) (tracked (lo_broker s') tp)"
    by blast+
qed

lemma commit_ok:
  assumes D: "tracker_containers (env_containers V)" and ok: "broker_ok V m (lo_broker s)"
    and run: "commit_ready_offsets V cfg io force source s = Some (r, s')"
  shows "r = Inr ()" "broker_ok V m (lo_broker s')"
    "accounts (env_containers V) G F (lo_broker s) \<Longrightarrow> accounts (env_containers V) G F (lo_broker s')"
proof -
  let ?D = "env_containers V" and ?b = "lo_broker s" and ?b' = "lo_broker s'"
  note C = commit_broker[OF D ok run]
  show "r = Inr ()" by (rule C(1))
  have fwd: "\<exists>t'. tracked ?b' tp = Some t' \<and> commit_moves ?D t t'" if "tracked ?b tp = Some t" for tp t
    using C(6)[of tp] that by (cases "tracked ?b' tp") auto
  have bwd: "\<exists>t. tracked ?b tp = Some t \<and> commit_moves ?D t t'" if "tracked ?b' tp = Some t'" for tp t'
    using C(6)[of tp] that by (cases "tracked ?b tp") auto
  have none: "tracked ?b' tp = None \<longleftrightarrow> tracked ?b tp = None" for tp
    using C(6)[of tp] by (cases "tracked ?b' tp"; cases "tracked ?b tp") auto
  have ahead: "completed_ahead ?D (bs_offset_trackers (br_completion ?b'))"
    using bwd unfolding completed_ahead_def tracked_def commit_moves_def by blast
  have cur: "current_event (br_completion ?b') ev" if "current_event (br_completion ?b) ev" for ev
    using that fwd[of "ce_tp ev"] by (auto simp: current_event_def tracked_def commit_moves_def get_current_epoch_def)
  have "pending_wf (br_completion ?b')" using broker_okD(7)[OF ok] by (simp add: pending_wf_def C(4))
  then show "broker_ok V m ?b'"
    using broker_okD(1,2,3,4,8)[OF ok] C(3,5) ahead none cur unfolding broker_ok_def C(2,4) by blast
  assume acc: "accounts ?D G F ?b"
  show "accounts ?D G F ?b'"
  proof (rule accountsI)
    fix k assume k: "k \<in> G"
    obtain t where t: "tracked ?b (fst k) = Some t" using accountsD(1)[OF acc k] by blast
    obtain t' where t': "tracked ?b' (fst k) = Some t'" "commit_moves ?D t t'" using fwd[OF t] by blast
    show "tracked ?b' (fst k) \<noteq> None" using t'(1) by simp
    have "held ?b' k" if "held ?b k"
      using that t t' by (auto simp: held_def C(2) commit_moves_def)
    then show "k \<in> F \<or> retained (br_completion ?b') k \<or> held ?b' k"
      using accountsD(2)[OF acc k] unfolding C(4) by blast
    show "k \<in> F" if u: "tracked ?b' (fst k) = Some u" "snd k \<le> ot_last_committed_offset u" for u
    proof (cases "snd k \<le> ot_last_committed_offset t")
      case True
      then show ?thesis using accountsD(3)[OF acc k t] by blast
    next
      case False
      then have "snd k \<in> set (ss_iter ?D (ot_completed_offsets t))" using t' u by (auto simp: commit_moves_def)
      then have "k \<in> listed ?D ?b" using t by (simp add: listed_def completed_of_def tracked_def)
      then show ?thesis using accounts_listed[OF acc] by blast
    qed
  next
    have "completed_of ?D (br_completion ?b') tp \<subseteq> completed_of ?D (br_completion ?b) tp" for tp
      using bwd[of tp] unfolding completed_of_def tracked_def[symmetric]
      by (cases "tracked ?b' tp") (auto simp: commit_moves_def)
    then have "listed ?D ?b' \<subseteq> listed ?D ?b" by (auto simp: listed_def)
    then show "listed ?D ?b' \<subseteq> F" using accounts_listed[OF acc] by blast
  qed
qed

section \<open>Completions\<close>

text \<open>Retained events are current, and completed offsets ahead.\<close>

definition completion_ok :: "('s, 'c) container_ops \<Rightarrow> ('s, 'c) completion_state \<Rightarrow> bool" where
  "completion_ok D s \<longleftrightarrow> dict_wf (bs_offset_trackers s) \<and> completed_ahead D (bs_offset_trackers s) \<and>
     (\<forall>k ev. dict_get (bs_pending_dlq_events s) k = Some ev \<longrightarrow> current_event s ev)"

context tracker_containers
begin

lemma mark_ahead:
  assumes "completed_ahead D d" "dict_get d tp = Some t"
  shows "completed_ahead D (dict_set tp (mark_complete D x t) d)"
proof -
  have "ot_last_committed_offset (mark_complete D x t) = ot_last_committed_offset t"
    by (simp add: mark_complete_def Let_def)
  then show ?thesis using assms by (auto simp: completed_ahead_def dict_simps mark_complete_members split: if_splits)
qed

lemma event_completion_ok:
  assumes ok: "completion_ok D s" and run: "process_event D cfg publish (event, fp) l s = (Inr l', s')"
  shows "completion_ok D s'"
proof -
  have cur: "current_event s' ev = current_event s ev" for ev
    by (rule same_tracking_current[OF process_event_advanced[OF run, unfolded advanced_def, THEN conjunct1]])
  from run show ?thesis
  proof (cases rule: process_event_cases)
    case (completed t l1 n m)
    have t: "bs_offset_trackers s' = dict_set (ce_tp event) (mark_complete D (ce_offset event) t) (bs_offset_trackers s)"
      "bs_pending_dlq_events s' = dict_pop (event_key event) (bs_pending_dlq_events s)"
      using completed(5) by (auto simp: complete_event_def Let_def)
    show ?thesis
      using ok mark_ahead[OF _ completed(1)] unfolding completion_ok_def t cur by (auto simp: dict_simps)
  next
    case (retained n m)
    then show ?thesis using ok cur unfolding completion_ok_def by (auto simp: dict_simps)
  next
    case stale
    then show ?thesis using ok cur unfolding completion_ok_def by (auto simp: dict_simps split: if_splits)
  qed (use ok in simp)
qed

lemma process_completion_ok:
  assumes "completion_ok D s" "process_completed_events D cfg publish evs s = (Inr res, s')"
  shows "completion_ok D s'"
proof -
  have loop: "completion_ok D s \<Longrightarrow> process_events_loop D cfg publish es l s = (Inr l', s') \<Longrightarrow> completion_ok D s'" for es l l' s
  proof (induction es arbitrary: l s)
    case (Cons e es)
    then show ?case by (elim loop_step) (cases e, blast intro: event_completion_ok)
  qed simp
  show ?thesis using assms loop by (auto simp: process_completed_events_def split: prod.splits sum.splits)
qed

lemma process_frame:
  assumes "process_completed_events D cfg publish evs s = (Inr res, s')"
  shows "same_tracking s s'" "completed_of D s tp \<subseteq> completed_of D s' tp" "pending_wf s \<Longrightarrow> pending_wf s'"
proof -
  obtain es l l' where l: "process_events_loop D cfg publish es l s = (Inr l', s')"
    using assms by (auto simp: process_completed_events_def split: prod.splits sum.splits)
  note A = process_loop_advanced[OF l, unfolded advanced_def]
  show "same_tracking s s'" "completed_of D s tp \<subseteq> completed_of D s' tp" using A by blast+
  show "pending_wf s \<Longrightarrow> pending_wf s'" by (rule process_keeps_pending_wf[OF l])
qed

end

lemma and_then_Inr:
  "and_then r f = Some (Inr y, s') \<longleftrightarrow> (\<exists>x s1. r = Some (Inr x, s1) \<and> f x s1 = Some (Inr y, s'))"
  by (auto simp: and_then_def split: option.split sum.split prod.split)

text \<open>The poll of a drain: every position that was held is still held or reported by an event.\<close>

lemma drain_poll:
  assumes env: "env_ok V" and ok: "broker_ok V m (lo_broker s)"
    and ev: "\<And>ev. ev \<in> set (fst (eng_poll_completed_events (env_engine V) (wm_execution_engine (br_work_manager (lo_broker s)))))
      \<Longrightarrow> event_ok V (lend (lo_broker s)) ev"
    and run: "call_wm (poll_completed_events rounds fuel V True) s = Some (Inr evs, s1)"
  shows "broker_ok V m (lo_broker s1)" "br_completion (lo_broker s1) = br_completion (lo_broker s)"
    "held (lo_broker s) k \<Longrightarrow>
       held (lo_broker s1) k \<or> (\<exists>e \<in> set evs. event_key e = k \<and> current_event (br_completion (lo_broker s)) e)"
proof -
  let ?b = "lo_broker s"
  obtain w where w: "poll_completed_events rounds fuel V True (lend ?b) = Some (Inr evs, w)" "s1 = set_broker (take_back w ?b) s"
    using run by (auto simp: call_wm_def)
  have good: "wm_good V m (lend ?b)" "all_shared (lend ?b)" "in_custody (lend ?b)"
    using broker_okD(1,2,3)[OF ok] by (simp_all add: lend_good lend_shared)
  have "\<forall>e \<in> set (fst (eng_poll_completed_events (env_engine V) (wm_execution_engine (lend ?b)))). event_ok V (lend ?b) e"
    using ev by simp
  from poll_custody[OF env good this w(1)]
  have P: "wm_good V m w" "trackers_kept (lend ?b) w" "in_custody w"
    "\<forall>i x. item_of (lend ?b) i = Some x \<longrightarrow> item_of w i = Some x \<or> (\<exists>e\<in>set evs. reports e x)" by auto
  have b1: "lo_broker s1 = ?b\<lparr>br_work_manager := w\<rparr>" by (simp add: w(2) take_back_kept[OF ok P(2)])
  show "broker_ok V m (lo_broker s1)" using broker_ok_kept[OF ok P(2,1,3)] by (simp add: w(2))
  show "br_completion (lo_broker s1) = br_completion ?b" by (simp add: b1)
  assume "held ?b k"
  then obtain i x t where x: "item_of (br_work_manager ?b) i = Some x" "(wi_tp x, wi_offset x) = k" "tracked ?b (fst k) = Some t"
      "wi_epoch x = ot_epoch t"
    unfolding held_def by blast
  from x(1) P(4) consider "item_of w i = Some x" | e where "e \<in> set evs" "reports e x" by auto
  then show "held (lo_broker s1) k \<or> (\<exists>e \<in> set evs. event_key e = k \<and> current_event (br_completion ?b) e)"
  proof cases
    case 1
    then show ?thesis using x(2-4) unfolding b1 by (auto simp: held_def tracked_def)
  next
    case 2
    then have "event_key e = k" "current_event (br_completion ?b) e"
      using x(2-4) by (auto simp: reports_def event_key_def current_event_def tracked_def get_current_epoch_def)
    then show ?thesis using 2(1) by blast
  qed
qed

lemma process_broker_ok:
  assumes D: "tracker_containers (env_containers V)" and ok: "broker_ok V m b"
    and run: "process_completed_events (env_containers V) cfg publish evs (br_completion b) = (Inr res, c)"
  shows "broker_ok V m (b\<lparr>br_completion := c, br_ledger := l\<rparr>)"
proof -
  note P = tracker_containers.process_frame[OF D run]
  have none: "tracked (b\<lparr>br_completion := c, br_ledger := l\<rparr>) tp = None \<longleftrightarrow> tracked b tp = None" for tp
    using P(1)[unfolded same_tracking_def, rule_format, of tp] by (auto simp: tracked_def)
  have "completion_ok (env_containers V) (br_completion b)"
    using broker_okD(5,6,8)[OF ok] by (simp add: completion_ok_def)
  from tracker_containers.process_completion_ok[OF D this run]
  show ?thesis
    using ok P(3) none unfolding broker_ok_def completion_ok_def by simp
qed

lemma process_accounts:
  assumes D: "tracker_containers D" and wf: "pending_wf (br_completion b)"
    and cur: "\<And>k ev. dict_get (bs_pending_dlq_events (br_completion b)) k = Some ev \<Longrightarrow> current_event (br_completion b) ev"
    and run: "process_completed_events D cfg publish evs (br_completion b) = (Inr res, c)"
    and b': "b' = b\<lparr>br_completion := c, br_ledger := l\<rparr>"
    and tr: "\<And>k. k \<in> G \<Longrightarrow> tracked b (fst k) \<noteq> None"
    and acc: "\<And>k. k \<in> G \<Longrightarrow> k \<in> F \<or> retained (br_completion b) k \<or> held b k \<or>
        (\<exists>e \<in> set evs. event_key e = k \<and> current_event (br_completion b) e)"
    and com: "\<And>k t. k \<in> G \<Longrightarrow> tracked b (fst k) = Some t \<Longrightarrow> snd k \<le> ot_last_committed_offset t \<Longrightarrow> k \<in> F"
  shows "accounts D G (F \<union> listed D b') b'"
proof (rule accountsI)
  note P = tracker_containers.process_frame[OF D run]
  fix k assume k: "k \<in> G"
  obtain t where t: "tracked b (fst k) = Some t" using tr[OF k] by blast
  have "map_option (\<lambda>t. (ot_epoch t, ot_last_committed_offset t)) (tracked b' (fst k)) = Some (ot_epoch t, ot_last_committed_offset t)"
    using P(1)[unfolded same_tracking_def, rule_format, of "fst k"] t by (simp add: b' tracked_def)
  then obtain t' where t': "tracked b' (fst k) = Some t'" "ot_epoch t' = ot_epoch t"
      "ot_last_committed_offset t' = ot_last_committed_offset t" by auto
  show "tracked b' (fst k) \<noteq> None" using t'(1) by simp
  show fin: "k \<in> F \<union> listed D b'" if "tracked b' (fst k) = Some u" "snd k \<le> ot_last_committed_offset u" for u
    using com[OF k t] that t' by simp
  have settled: "k \<in> F \<union> listed D b' \<or> retained (br_completion b') k"
    if e: "e \<in> snd ` set (bs_pending_dlq_events (br_completion b)) \<union> set evs" "event_key e = k"
      "current_event (br_completion b) e" for e
  proof -
    have "accounted D c k \<or> retained c k" using tracker_containers.process_settles[OF D wf run e(1,3)] e(2) by simp
    then show ?thesis
    proof
      assume "accounted D c k"
      then consider "snd k \<le> ot_last_committed_offset t'" | "snd k \<in> set (ss_iter D (ot_completed_offsets t'))"
        using t'(1) by (auto simp: accounted_def b' tracked_def)
      then show ?thesis
      proof cases
        case 1
        then show ?thesis using fin[OF t'(1)] by blast
      next
        case 2
        then show ?thesis using t'(1) by (simp add: listed_def completed_of_def tracked_def)
      qed
    qed (simp add: b')
  qed
  have "held b' k" if "held b k" using that t t' unfolding held_def b' by (auto simp: tracked_def)
  moreover have "k \<in> F \<union> listed D b' \<or> retained (br_completion b') k" if r: "retained (br_completion b) k"
  proof -
    obtain e where e: "dict_get (bs_pending_dlq_events (br_completion b)) k = Some e" using r by blast
    have "event_key e = k" using wf e unfolding pending_wf_alt by blast
    moreover have "e \<in> snd ` set (bs_pending_dlq_events (br_completion b))" using map_of_SomeD[OF e] by force
    ultimately show ?thesis using settled[of e] cur[OF e] by blast
  qed
  ultimately show "k \<in> F \<union> listed D b' \<or> retained (br_completion b') k \<or> held b' k"
    using acc[OF k] settled by blast
qed simp

lemma poller_process_broker:
  assumes "poller_process_completed_events V cfg io evs s = Some (Inr (), s')"
  shows "\<exists>res c l. process_completed_events (env_containers V) (po_completion cfg) (io_publish io) evs (br_completion (lo_broker s)) =
      (Inr res, c) \<and> lo_broker s' = (lo_broker s)\<lparr>br_completion := c, br_ledger := l\<rparr>"
  using assms by (auto simp: poller_process_completed_events_def Let_def split: prod.splits sum.splits)

lemma drain_ok:
  assumes D: "tracker_containers (env_containers V)" and env: "env_ok V" and ok: "broker_ok V m (lo_broker s)"
    and off: "po_max_blocking_duration_ms cfg \<le> 0"
    and ev: "\<And>ev. ev \<in> set (fst (eng_poll_completed_events (env_engine V) (wm_execution_engine (br_work_manager (lo_broker s)))))
      \<Longrightarrow> event_ok V (lend (lo_broker s)) ev"
    and run: "drain_completion_events_once rounds fuel V cfg io s = Some (Inr any, s')"
    and acc: "accounts (env_containers V) G F (lo_broker s)"
  shows "broker_ok V m (lo_broker s') \<and>
    accounts (env_containers V) G (F \<union> listed (env_containers V) (lo_broker s')) (lo_broker s')"
proof -
  let ?D = "env_containers V" and ?b = "lo_broker s"
  obtain evs s1 where 1: "call_wm (poll_completed_events rounds fuel V True) s = Some (Inr evs, s1)"
    using run by (auto simp: drain_completion_events_once_def and_then_Inr)
  note P = drain_poll[OF env ok ev 1]
  define s2 where "s2 = set_broker (take_back (lend (lo_broker s1)) (lo_broker s1)) s1"
  have 2: "call_wm (handle_blocking_timeouts rounds fuel V (io_render io) (io_now io)
      (po_max_blocking_duration_ms cfg) (comp_max_retries (po_completion cfg)) (ps_trackers (lo_poll s1))) s1 = Some (Inr [], s2)"
    using off by (simp add: call_wm_def handle_blocking_timeouts_def s2_def)
  have kept: "trackers_kept (lend (lo_broker s1)) (lend (lo_broker s1))" by simp
  have ok2: "broker_ok V m (lo_broker s2)"
    using broker_ok_kept[OF P(1) kept] broker_okD(1,2)[OF P(1)] by (simp add: s2_def lend_good)
  have b2: "br_completion (lo_broker s2) = br_completion ?b"
    "wm_in_flight_work_items (br_work_manager (lo_broker s2)) = wm_in_flight_work_items (br_work_manager (lo_broker s1))"
    using P(2) by (simp_all add: s2_def take_back_kept[OF P(1) kept])
  have tr2: "tracked (lo_broker s2) = tracked ?b" by (simp add: tracked_def fun_eq_iff b2(1))
  have h2: "held (lo_broker s2) k = held (lo_broker s1) k" for k
    using b2 P(2) by (simp add: held_def tracked_def)
  have acc2: "k \<in> F \<or> retained (br_completion (lo_broker s2)) k \<or> held (lo_broker s2) k \<or>
      (\<exists>e \<in> set evs. event_key e = k \<and> current_event (br_completion (lo_broker s2)) e)" if "k \<in> G" for k
    using accountsD(2)[OF acc that] P(3)[of k] unfolding h2 b2(1) by blast
  note rest = run[unfolded drain_completion_events_once_def and_then_Inr 1, simplified, unfolded 2, simplified]
  show ?thesis
  proof (cases "evs = [] \<and> bs_pending_dlq_events (br_completion (lo_broker s2)) = []")
    case True
    then have s': "s' = s2" using rest by auto
    have "accounts ?D G (F \<union> listed ?D (lo_broker s2)) (lo_broker s2)"
    proof (rule accountsI)
      fix k assume k: "k \<in> G"
      show "tracked (lo_broker s2) (fst k) \<noteq> None" using accountsD(1)[OF acc k] by (simp add: tr2)
      show "k \<in> F \<union> listed ?D (lo_broker s2) \<or> retained (br_completion (lo_broker s2)) k \<or> held (lo_broker s2) k"
        using acc2[OF k] True by auto
      show "k \<in> F \<union> listed ?D (lo_broker s2)"
        if "tracked (lo_broker s2) (fst k) = Some u" "snd k \<le> ot_last_committed_offset u" for u
        using accountsD(3)[OF acc k] that by (simp add: tr2)
    qed simp
    then show ?thesis using ok2 by (simp add: s')
  next
    case False
    then obtain s3 where 3: "poller_process_completed_events V cfg io evs s2 = Some (Inr (), s3)"
      "call_wm (schedule fuel V) s3 = Some (Inr (), s')"
      using rest by (auto simp: and_then_Inr)
    obtain res c l where c: "process_completed_events ?D (po_completion cfg) (io_publish io) evs (br_completion (lo_broker s2)) = (Inr res, c)"
      and b3: "lo_broker s3 = (lo_broker s2)\<lparr>br_completion := c, br_ledger := l\<rparr>"
      using poller_process_broker[OF 3(1)] by (elim exE conjE)
    have ok3: "broker_ok V m (lo_broker s3)" unfolding b3 by (rule process_broker_ok[OF D ok2 c])
    have a3: "accounts ?D G (F \<union> listed ?D (lo_broker s3)) (lo_broker s3)"
      by (rule process_accounts[OF D broker_okD(7)[OF ok2] broker_okD(8)[OF ok2] c b3])
        (use accountsD(1,3)[OF acc] acc2 in \<open>simp_all add: tr2\<close>)
    note S = call_schedule_ok[OF env ok3 3(2)]
    have "listed ?D (lo_broker s') = listed ?D (lo_broker s3)" using S(3) by (simp add: listed_def)
    then show ?thesis using S(2) accounts_same[OF a3 S(3)] S(5) by simp
  qed
qed

end
