(* ===== verification/Delivery_Guarantee.thy ===== *)
theory Delivery_Guarantee
  imports Poller_Run
begin

text \<open>
  The delivery guarantee: what holds in every run of the poller, and that a turn of the consumer
  loop and of the completion monitor comes back in a state of the same run.
\<close>

section \<open>Runs\<close>

lemma init_empty:
  "work_manager_init e m mode ttl grace poison n = Inr w \<Longrightarrow> wm_in_flight_work_items w = [] \<and> wm_offset_trackers w = []"
  by (auto simp: work_manager_init_def split: if_splits)

lemma fresh_ok:
  assumes "fresh_broker m b" and env: "env_ok V"
  shows "broker_ok V m b" "accounts D {} {} b"
proof -
  obtain e mode ttl grace poison n where w: "work_manager_init e m mode ttl grace poison n = Inr (br_work_manager b)"
    and z: "bs_offset_trackers (br_completion b) = []" "bs_pending_dlq_events (br_completion b) = []" "br_coordinator b = None" "0 \<le> m"
    using assms unfolding fresh_broker_def by blast
  have b: "wm_in_flight_work_items (br_work_manager b) = []" "wm_offset_trackers (br_work_manager b) = []"
    using init_empty[OF w] by simp_all
  have "in_custody (br_work_manager b)" "all_shared (br_work_manager b)"
    by (simp_all add: in_custody_def all_shared_def b)
  then show "broker_ok V m b"
    using wm_run_good[OF run_init[OF w z(4)] env] z
    by (simp add: broker_ok_def b tracked_def completed_ahead_def pending_wf_def)
  show "accounts D {} {} b"
    using z by (auto simp: accounts_def listed_def completed_of_def)
qed

lemma run_ok:
  assumes "poller_run V cfg m G F s" "env_ok V" "tracker_containers (env_containers V)" "po_max_blocking_duration_ms cfg \<le> 0"
  shows "broker_ok V m (lo_broker s) \<and> accounts (env_containers V) G F (lo_broker s)"
  using assms
proof (induction rule: poller_run.induct)
  case (started m s)
  then show ?case using fresh_ok by blast
next
  case (assigned_partitions m G F s grace answer partitions assignments b')
  then show ?case using assign_ok(1)[OF _ _ assigned_partitions.hyps(2,3)] assign_accounts[OF _ _ assigned_partitions.hyps(2,3)]
    unfolding set_broker_simps by blast
next
  case (revoked_partitions m G F s accepted partitions sent b')
  then show ?case
    using revoke_ok(1)[OF _ revoked_partitions.hyps(2)] revoke_accounts[OF _ revoked_partitions.hyps(2)]
    unfolding set_broker_simps by blast
next
  case (dispatched_poll m G F s messages p)
  then show ?case
    using dispatch_ok(1)[OF _ _ dispatched_poll.hyps(2)] dispatch_accounts[OF _ _ _ dispatched_poll.hyps(2)]
    unfolding set_broker_simps by blast
next
  case (scheduled m G F s fuel s')
  have ok: "broker_ok V m (lo_broker s)" "accounts (env_containers V) G F (lo_broker s)" using scheduled by blast+
  note S = call_schedule_ok[OF scheduled.prems(1) ok(1) scheduled.hyps(2)]
  show ?case using S(2,5) accounts_same[OF ok(2) S(3)] by simp
next
  case (drained m G F s rounds fuel io any s')
  then show ?case using drain_ok[OF _ _ _ _ drained.hyps(2,3)] by blast
next
  case (committed m G F s io force source s')
  then show ?case using commit_ok[OF _ _ committed.hyps(2)] by blast
next
  case (limited m G F s limit s')
  have ok: "broker_ok V m (lo_broker s)" "accounts (env_containers V) G F (lo_broker s)" using limited by blast+
  note L = limit_ok[OF ok(1) limited.hyps(2)]
  show ?case using L(1,3) accounts_same[OF ok(2) L(2)] by simp
next
  case (counted m G F s s')
  then show ?case by simp
qed

text \<open>Nothing queued, in flight, reported or retained.\<close>

definition quiet :: "('k, 'p, 's, 'c, 'e) broker \<Rightarrow> bool" where
  "quiet b \<longleftrightarrow>
     get_total_queued_messages (br_work_manager b) = 0 \<and> get_total_in_flight_count (br_work_manager b) = 0 \<and>
     wm_completion_queue (br_work_manager b) = [] \<and> bs_pending_dlq_events (br_completion b) = []"

lemma no_items_queued:
  assumes "total_queued T = 0"
  shows "queue_items T q = []"
proof -
  have "length y = 0" if "(x, y) \<in> set qs" "queues_size qs = 0" for x y qs
    using that unfolding queues_size_def by (induction qs) auto
  moreover have "queues_size y = 0" if "(x, y) \<in> set (virtual_partition_queues T)" for x y
    using assms that unfolding total_queued_def by (induction "virtual_partition_queues T") auto
  ultimately show ?thesis
    by (fastforce simp: queue_items_def get_queue_def split: option.split prod.split dest: map_of_SomeD)
qed

lemma quiet_not_held:
  assumes ok: "broker_ok V m b" and q: "quiet b"
  shows "\<not> held b k"
proof
  assume "held b k"
  then obtain i w where w: "item_of (br_work_manager b) i = Some w" unfolding held_def by blast
  note inv = wm_goodD(1)[OF broker_okD(1)[OF ok]]
  have "total_queued (wm_queue_topology (br_work_manager b)) = 0"
    using q queue_invD(2)[OF wm_invD(2)[OF inv]] by (simp add: quiet_def get_total_queued_messages_def)
  then have "\<not> queued (br_work_manager b) w" by (simp add: queued_def no_items_queued)
  moreover have "dispatched (br_work_manager b) = {}"
    using q ledger_invD(5)[OF wm_invD(1)[OF inv]] by (simp add: quiet_def get_total_in_flight_count_def dispatched_def)
  ultimately show False
    using broker_okD(2)[OF ok] w q by (auto simp: in_custody_def quiet_def)
qed

section \<open>Properties\<close>


section \<open>Turns of the loops\<close>

lemma call_schedule_returns:
  assumes env: "env_ok V" and ok: "broker_ok V m (lo_broker s)"
  shows "\<exists>N s'. \<forall>fuel \<ge> N. call_wm (schedule fuel V) s = Some (Inr (), s')"
proof -
  let ?w = "lend (lo_broker s)"
  define N where "N = Suc (nat (wm_total_queued_messages ?w))"
  have N: "wm_total_queued_messages ?w < int N" by (simp add: N_def)
  have g: "wm_good V m ?w" using broker_okD(1)[OF ok] by (simp add: lend_good)
  obtain w where w: "schedule N V ?w = Some (Inr (), w)"
    using schedule_terminates[OF wm_goodD(1,2)[OF g] _ N] env by (auto simp: env_ok_def)
  have "call_wm (schedule fuel V) s = Some (Inr (), set_broker (take_back w (lo_broker s)) s)" if "N \<le> fuel" for fuel
    using schedule_mono[OF w that] by (simp add: call_wm_def)
  then show ?thesis by blast
qed

lemma call_poll_returns:
  assumes env: "env_ok V" and ok: "broker_ok V m (lo_broker s)"
    and ev: "\<And>ev. ev \<in> set (fst (eng_poll_completed_events (env_engine V) (wm_execution_engine (br_work_manager (lo_broker s)))))
      \<Longrightarrow> event_ok V (lend (lo_broker s)) ev"
  shows "\<exists>N evs s'. \<forall>rounds \<ge> N. \<forall>fuel \<ge> N. call_wm (poll_completed_events rounds fuel V True) s = Some (Inr evs, s')"
proof -
  let ?w = "polled V (lend (lo_broker s))"
  define N where "N = Suc (nat (wm_total_queued_messages ?w))"
  have N: "wm_total_queued_messages ?w < int N" by (simp add: N_def)
  have g: "wm_good V m ?w" by (rule polled_good) (use broker_okD(1)[OF ok] ev in \<open>simp_all add: lend_good\<close>)
  have eq: "poll_completed_events rounds fuel V True (lend (lo_broker s)) = poll_loop rounds fuel V True [] ?w" for rounds fuel
    by (simp add: poll_completed_events_def polled_def Let_def case_prod_beta)
  obtain evs w where w: "poll_loop N N V True [] ?w = Some (Inr evs, w)"
    using poll_loop_terminates[OF wm_goodD(1,2)[OF g] _ N N, of True "[]"] env unfolding env_ok_def by blast
  have "call_wm (poll_completed_events rounds fuel V True) s = Some (Inr evs, set_broker (take_back w (lo_broker s)) s)"
    if "N \<le> rounds" "N \<le> fuel" for rounds fuel
    using poll_loop_mono[OF w that] by (simp add: call_wm_def eq)
  then show ?thesis by blast
qed

text \<open>A publisher that answers, and an engine that reports only what it was given.\<close>

definition publisher_answers :: "publisher \<Rightarrow> bool" where
  "publisher_answers publish \<longleftrightarrow> (\<forall>n event m error. \<exists>ok. publish n event m error = Inr ok)"

definition honest_engine :: "('s, 'c, 'e) dispatch_env \<Rightarrow> loop_config \<Rightarrow> bool" where
  "honest_engine V cfg \<longleftrightarrow>
     (\<forall>m G F s ev. poller_run V cfg m G F s \<longrightarrow>
        ev \<in> set (fst (eng_poll_completed_events (env_engine V) (wm_execution_engine (br_work_manager (lo_broker s))))) \<longrightarrow>
        event_ok V (lend (lo_broker s)) ev)"

lemma process_returns:
  assumes "publisher_answers publish"
  shows "\<exists>res c'. process_completed_events D cfg publish evs c = (Inr res, c')"
proof -
  have pub: "\<exists>ok. publish_event_to_dlq cfg publish n e s = Inr ok" for n e s
    using assms by (cases "needs_dlq cfg e") (simp_all only: publisher_answers_def publish_event_to_dlq_def if_True if_False, blast)
  have one: "\<exists>l' s'. process_event D cfg publish e l s = (Inr l', s')" for e l s
  proof -
    obtain ok where "publish_event_to_dlq cfg publish (cl_publications l) (fst e) s = Inr ok" using pub by blast
    then show ?thesis by (cases ok) (simp_all add: process_event_def Let_def split_beta split: option.split)
  qed
  have loop: "\<exists>l' s'. process_events_loop D cfg publish es l s = (Inr l', s')" for es l s
  proof (induction es arbitrary: l s)
    case (Cons e es)
    obtain l1 s1 where "process_event D cfg publish e l s = (Inr l1, s1)" using one by blast
    then show ?case using Cons.IH by simp
  qed simp
  obtain l' c' where "process_events_loop D cfg publish
      (map (\<lambda>(k, event). (event, True)) (bs_pending_dlq_events c) @ map (\<lambda>event. (event, False)) evs)
      \<lparr>cl_resolved_pending_keys = {}, cl_completed_count = 0, cl_completed_partitions = {},
       cl_completed_offsets = [], cl_publications = 0\<rparr> c = (Inr l', c')"
    using loop by blast
  then show ?thesis by (simp add: process_completed_events_def)
qed

lemma drain_once_returns:
  assumes D: "tracker_containers (env_containers V)" and env: "env_ok V" and ok: "broker_ok V m (lo_broker s)"
    and off: "po_max_blocking_duration_ms cfg \<le> 0" and pub: "publisher_answers (io_publish io)"
    and ev: "\<And>ev. ev \<in> set (fst (eng_poll_completed_events (env_engine V) (wm_execution_engine (br_work_manager (lo_broker s)))))
      \<Longrightarrow> event_ok V (lend (lo_broker s)) ev"
  shows "\<exists>N any s'. \<forall>rounds \<ge> N. \<forall>fuel \<ge> N. drain_completion_events_once rounds fuel V cfg io s = Some (Inr any, s')"
proof -
  obtain N1 evs s1 where 1: "\<And>rounds fuel. N1 \<le> rounds \<Longrightarrow> N1 \<le> fuel \<Longrightarrow>
      call_wm (poll_completed_events rounds fuel V True) s = Some (Inr evs, s1)"
    using call_poll_returns[OF env ok ev] by blast
  note P = drain_poll(1)[OF env ok ev 1[OF order.refl order.refl]]
  define s2 where "s2 = set_broker (take_back (lend (lo_broker s1)) (lo_broker s1)) s1"
  have 2: "call_wm (handle_blocking_timeouts rounds fuel V (io_render io) (io_now io)
      (po_max_blocking_duration_ms cfg) (comp_max_retries (po_completion cfg)) (ps_trackers (lo_poll s1))) s1 = Some (Inr [], s2)"
    for rounds fuel
    using off by (simp add: call_wm_def handle_blocking_timeouts_def s2_def)
  have ok2: "broker_ok V m (lo_broker s2)"
    using broker_ok_kept[OF P trackers_kept_refl] broker_okD(1,2)[OF P] by (simp add: s2_def lend_good)
  obtain res c where c: "process_completed_events (env_containers V) (po_completion cfg) (io_publish io) evs (br_completion (lo_broker s2)) =
      (Inr res, c)" using process_returns[OF pub] by blast
  obtain s3 where 3: "poller_process_completed_events V cfg io evs s2 = Some (Inr (), s3)"
    by (simp add: poller_process_completed_events_def Let_def c)
  have "broker_ok V m (lo_broker s3)"
    using poller_process_broker[OF 3] process_broker_ok[OF D ok2] by fastforce
  then obtain N2 s4 where 4: "\<And>fuel. N2 \<le> fuel \<Longrightarrow> call_wm (schedule fuel V) s3 = Some (Inr (), s4)"
    using call_schedule_returns[OF env] by blast
  let ?done = "evs = [] \<and> bs_pending_dlq_events (br_completion (lo_broker s2)) = []"
  have "drain_completion_events_once rounds fuel V cfg io s = Some (Inr (\<not> ?done), if ?done then s2 else s4)"
    if "max N1 N2 \<le> rounds" "max N1 N2 \<le> fuel" for rounds fuel
    using 1[of rounds fuel] 2 3 4[of fuel] that by (simp add: drain_completion_events_once_def and_then_def)
  then show ?thesis by blast
qed

text \<open>A step that returns from some fuel on, always with the same result.\<close>

definition returns :: "(nat \<Rightarrow> nat \<Rightarrow> ('a, 'st) step) \<Rightarrow> 'a \<Rightarrow> 'st \<Rightarrow> bool" where
  "returns f x s' \<longleftrightarrow> (\<exists>N. \<forall>rounds \<ge> N. \<forall>fuel \<ge> N. f rounds fuel = Some (Inr x, s'))"

lemma returns_const [intro]: "returns (\<lambda>_ _. Some (Inr x, s)) x s"
  by (simp add: returns_def)

lemma returns_then:
  assumes "returns f x s1" "returns (\<lambda>r n. g r n x s1) y s2"
  shows "returns (\<lambda>r n. and_then (f r n) (g r n)) y s2"
proof -
  obtain N M where "\<And>r n. N \<le> r \<Longrightarrow> N \<le> n \<Longrightarrow> f r n = Some (Inr x, s1)" "\<And>r n. M \<le> r \<Longrightarrow> M \<le> n \<Longrightarrow> g r n x s1 = Some (Inr y, s2)"
    using assms unfolding returns_def by blast
  then have "and_then (f r n) (g r n) = Some (Inr y, s2)" if "max N M \<le> r" "max N M \<le> n" for r n
    using that by (simp add: and_then_def)
  then show ?thesis unfolding returns_def by blast
qed

text \<open>
  What the loops rely on: the environment and the containers keep their contracts, the engine
  reports only what it was given, and the blocking timeout is off.
\<close>

definition loop_contract :: "('s, 'c, 'e) dispatch_env \<Rightarrow> loop_config \<Rightarrow> bool" where
  "loop_contract V cfg \<longleftrightarrow>
     env_ok V \<and> tracker_containers (env_containers V) \<and> honest_engine V cfg \<and> po_max_blocking_duration_ms cfg \<le> 0"

lemma loop_contractD:
  assumes "loop_contract V cfg"
  shows "env_ok V" "tracker_containers (env_containers V)" "honest_engine V cfg" "po_max_blocking_duration_ms cfg \<le> 0"
  using assms by (simp_all add: loop_contract_def)

lemma run_good:
  assumes con: "loop_contract V cfg" and run: "poller_run V cfg m G F s"
  shows "broker_ok V m (lo_broker s)"
  using run_ok[OF run loop_contractD(1,2,4)[OF con]] by blast

lemma schedule_step:
  assumes con: "loop_contract V cfg" and run: "poller_run V cfg m G F s"
  shows "\<exists>s'. returns (\<lambda>r n. call_wm (schedule n V) s) () s' \<and> poller_run V cfg m G F s'"
proof -
  obtain N s' where s': "\<And>fuel. N \<le> fuel \<Longrightarrow> call_wm (schedule fuel V) s = Some (Inr (), s')"
    using call_schedule_returns[OF loop_contractD(1)[OF con] run_good[OF con run]] by blast
  then show ?thesis using scheduled[OF run s'[OF order.refl]] unfolding returns_def by blast
qed

lemma drain_step:
  assumes con: "loop_contract V cfg" and run: "poller_run V cfg m G F s" and pub: "publisher_answers (io_publish io)"
  shows "\<exists>any s' F'. returns (\<lambda>r n. drain_completion_events_once r n V cfg io s) any s' \<and> poller_run V cfg m G F' s'"
proof -
  have ev: "event_ok V (lend (lo_broker s)) ev"
    if "ev \<in> set (fst (eng_poll_completed_events (env_engine V) (wm_execution_engine (br_work_manager (lo_broker s)))))" for ev
    using loop_contractD(3)[OF con] run that unfolding honest_engine_def by blast
  obtain N any s' where s': "\<And>r n. N \<le> r \<Longrightarrow> N \<le> n \<Longrightarrow> drain_completion_events_once r n V cfg io s = Some (Inr any, s')"
    using drain_once_returns[OF loop_contractD(2,1)[OF con] run_good[OF con run] loop_contractD(4)[OF con] pub ev] by blast
  then show ?thesis using drained[OF run ev s'[OF order.refl order.refl]] unfolding returns_def by blast
qed

lemma commit_step:
  assumes con: "loop_contract V cfg" and run: "poller_run V cfg m G F s"
  shows "\<exists>s'. commit_ready_offsets V cfg io force source s = Some (Inr (), s') \<and> poller_run V cfg m G F s'"
proof -
  obtain r s' where r: "commit_ready_offsets V cfg io force source s = Some (r, s')"
    using commit_sync_total[of V cfg io source]
    unfolding commit_without_coordinator[OF broker_okD(9)[OF run_good[OF con run]]] Let_def by (metis not_None_eq surj_pair)
  then show ?thesis using commit_ok(1)[OF loop_contractD(2)[OF con] run_good[OF con run] r] committed[OF run] by blast
qed

lemma maybe_commit_step:
  assumes con: "loop_contract V cfg" and run: "poller_run V cfg m G F s"
  shows "\<exists>s'. maybe_commit_ready_offsets V cfg io pending source s = Some (Inr (), s') \<and> poller_run V cfg m G F s'"
  using commit_step[OF con run] run by (simp add: maybe_commit_ready_offsets_def Let_def)

lemma limit_step:
  assumes con: "loop_contract V cfg" and run: "poller_run V cfg m G F s" and v: "\<forall>v. limit = Some v \<longrightarrow> 1 \<le> v"
  shows "\<exists>s' m'. install_limit limit s = Some (Inr (), s') \<and> poller_run V cfg m' G F s'"
proof -
  obtain s' where "install_limit limit s = Some (Inr (), s')"
    using v by (cases limit) (auto simp: install_limit_def call_wm_def set_max_in_flight_messages_def)
  then show ?thesis using limited[OF run] by blast
qed

lemma consume_step:
  assumes con: "loop_contract V cfg" and run: "poller_run V cfg m G F s" and "io_has_consumer io" "answer timeout n = Inr messages"
  shows "\<exists>s'. consume_messages io answer n timeout s = Some (Inr messages, s') \<and> lo_broker s' = lo_broker s \<and> poller_run V cfg m G F s'"
proof -
  let ?s = "s\<lparr>lo_poll := record_pipeline_poll_batch messages (lo_poll s)\<rparr>"
  have "lo_broker ?s = lo_broker s" by (simp add: record_pipeline_poll_batch_def Let_def) (simp add: lo_broker_def)
  then show ?thesis using assms(3,4) counted[OF run] by (simp add: consume_messages_def)
qed

lemma dispatch_step:
  assumes con: "loop_contract V cfg" and run: "poller_run V cfg m G F s"
  shows "\<exists>s'. returns (\<lambda>r n. dispatch_and_schedule n V cfg messages s) () s' \<and>
    poller_run V cfg m (G \<union> polled_ahead messages (lo_broker s)) F s'"
proof (cases "messages = []")
  case True
  then show ?thesis using run by (auto simp: dispatch_and_schedule_def polled_ahead_def)
next
  case False
  have ok: "broker_ok V m (lo_broker s)" by (rule run_good[OF con run])
  have "tracked_assigned (lo_poll s)"
    using broker_okD(4)[OF ok] managed_invD(1)[OF wm_invD(3)[OF wm_goodD(1)[OF broker_okD(1)[OF ok]]]]
    by (simp add: tracked_assigned_def tracked_def ps_trackers_def lo_broker_def)
  then have "dispatch_ready V m (lo_poll s)"
    using broker_okD(1,2)[OF ok] by (simp add: dispatch_ready_def lo_broker_def)
  then obtain p where p: "dispatch_messages V (po_ordering_mode cfg) (po_dlq cfg) messages (lo_poll s) = (Inr (), p)"
    using dispatch_messages_keeps[OF loop_contractD(1)[OF con]] by blast
  obtain s' where "returns (\<lambda>r n. call_wm (schedule n V) (s\<lparr>lo_poll := p\<rparr>)) () s'"
    "poller_run V cfg m (G \<union> polled_ahead messages (lo_broker s)) F s'"
    using schedule_step[OF con dispatched_poll[OF run p]] by blast
  then show ?thesis using False p by (auto simp: dispatch_and_schedule_def and_then_def returns_def)
qed

text \<open>A turn of the consumer loop: the commit of the retry branch runs only if something was drained.\<close>

lemma retry_commit_step:
  assumes con: "loop_contract V cfg" and run: "poller_run V cfg m G F s"
  shows "\<exists>s'. (if any then maybe_commit_ready_offsets V cfg io pending source s else Some (Inr (), s)) = Some (Inr (), s') \<and>
    poller_run V cfg m G F s'"
  using maybe_commit_step[OF con run, of io pending source] run by (cases any) simp_all

lemma consumer_turn_step:
  assumes con: "loop_contract V cfg" and run: "poller_run V cfg m G F s" and pub: "publisher_answers (io_publish io)" and has: "io_has_consumer io"
    and v: "\<forall>v. limit = Some v \<longrightarrow> 1 \<le> v" and ans: "\<forall>timeout n. answer timeout n = Inr (batch timeout n)"
  shows "\<exists>s' m' G' F'. returns (\<lambda>r n. consumer_turn r n V cfg io limit answer s) () s' \<and> poller_run V cfg m' G' F' s' \<and> G \<subseteq> G'"
proof (cases "bs_pending_dlq_events (br_completion (lo_broker s)) = []")
  case True
  obtain s1 m1 where 1: "install_limit limit s = Some (Inr (), s1)" "poller_run V cfg m1 G F s1"
    using limit_step[OF con run v] by blast
  let ?t = "get_consume_timeout_seconds cfg s1"
  let ?ms = "batch ?t (po_batch_size cfg)"
  obtain s2 where 2: "consume_messages io answer (po_batch_size cfg) ?t s1 = Some (Inr ?ms, s2)" "poller_run V cfg m1 G F s2"
    using consume_step[where answer = answer, OF con 1(2) has ans[rule_format]] by blast
  obtain s3 G3 where 3: "returns (\<lambda>r n. dispatch_and_schedule n V cfg ?ms s2) () s3" "poller_run V cfg m1 G3 F s3" "G \<subseteq> G3"
    using dispatch_step[OF con 2(2)] by blast
  obtain x s4 F4 where 4: "returns (\<lambda>r n. drain_completion_events_once r n V cfg io s3) x s4" "poller_run V cfg m1 G3 F4 s4"
    using drain_step[OF con 3(2) pub] by blast
  obtain s5 where 5: "maybe_commit_ready_offsets V cfg io False ''consumer_loop'' s4 = Some (Inr (), s5)" "poller_run V cfg m1 G3 F4 s5"
    using maybe_commit_step[OF con 4(2)] by blast
  have "returns (\<lambda>r n. and_then (dispatch_and_schedule n V cfg ?ms s2) (\<lambda>_ s3.
      and_then (drain_completion_events_once r n V cfg io s3) (\<lambda>_ s4. maybe_commit_ready_offsets V cfg io False ''consumer_loop'' s4))) () s5"
    by (rule returns_then[OF 3(1)], rule returns_then[OF 4(1)]) (simp add: 5(1) returns_const)
  moreover have "consumer_turn r n V cfg io limit answer s = and_then (dispatch_and_schedule n V cfg ?ms s2) (\<lambda>_ s3.
      and_then (drain_completion_events_once r n V cfg io s3) (\<lambda>_ s4. maybe_commit_ready_offsets V cfg io False ''consumer_loop'' s4))" for r n
    using True 1(1) 2(1) by (simp add: consumer_turn_def and_then_def[of "Some _"])
  ultimately show ?thesis using 5(2) 3(3) by auto
next
  case False
  obtain x s1 F1 where 1: "returns (\<lambda>r n. drain_completion_events_once r n V cfg io s) x s1" "poller_run V cfg m G F1 s1"
    using drain_step[OF con run pub] by blast
  obtain s2 where 2: "(if x then maybe_commit_ready_offsets V cfg io True ''unknown'' s1 else Some (Inr (), s1)) = Some (Inr (), s2)"
    "poller_run V cfg m G F1 s2" using retry_commit_step[OF con 1(2)] by blast
  obtain s3 m3 where 3: "install_limit limit s2 = Some (Inr (), s3)" "poller_run V cfg m3 G F1 s3"
    using limit_step[OF con 2(2) v] by blast
  let ?ms = "batch 0 1"
  obtain s4 where 4: "consume_messages io answer 1 0 s3 = Some (Inr ?ms, s4)" "poller_run V cfg m3 G F1 s4"
    using consume_step[where answer = answer, OF con 3(2) has ans[rule_format]] by blast
  obtain s5 G5 where 5: "returns (\<lambda>r n. dispatch_and_schedule n V cfg ?ms s4) () s5" "poller_run V cfg m3 G5 F1 s5" "G \<subseteq> G5"
    using dispatch_step[OF con 4(2)] by blast
  have "returns (\<lambda>r n. consumer_turn r n V cfg io limit answer s) () s5"
    unfolding consumer_turn_def using False 5(1)
    by (simp, intro returns_then[OF 1(1)]) (simp add: 2(1) 3(1) 4(1)[unfolded One_nat_def] and_then_def[of "Some _"])
  then show ?thesis using 5(2,3) by blast
qed

lemma monitor_turn_step:
  assumes con: "loop_contract V cfg" and run: "poller_run V cfg m G F s" and pub: "publisher_answers (io_publish io)"
  shows "\<exists>s' F'. returns (\<lambda>r n. monitor_turn r n V cfg io waited s) () s' \<and> poller_run V cfg m G F' s'"
proof -
  let ?p = "bs_pending_dlq_events (br_completion (lo_broker s)) \<noteq> []"
  obtain x s1 F1 where 1: "returns (\<lambda>r n. drain_completion_events_once r n V cfg io s) x s1" "poller_run V cfg m G F1 s1"
    using drain_step[OF con run pub] by blast
  obtain s2 where 2: "(if x then maybe_commit_ready_offsets V cfg io ?p ''completion_monitor'' s1 else Some (Inr (), s1)) = Some (Inr (), s2)"
    "poller_run V cfg m G F1 s2" using retry_commit_step[OF con 1(2)] by blast
  have "returns (\<lambda>r n. and_then (drain_completion_events_once r n V cfg io s) (\<lambda>y s1.
      if y then maybe_commit_ready_offsets V cfg io ?p ''completion_monitor'' s1 else Some (Inr (), s1))) () s2"
    by (rule returns_then[OF 1(1)]) (simp add: 2(1) returns_const)
  note busy = this
  let ?idle = "get_total_in_flight_count (br_work_manager (lo_broker s)) \<le> 0 \<and> \<not> ?p \<or>
    \<not> ?p \<and> \<not> waited \<and> po_max_blocking_duration_ms cfg \<le> 0"
  have turn: "monitor_turn r n V cfg io waited s = (if ?idle then Some (Inr (), s) else
      and_then (drain_completion_events_once r n V cfg io s) (\<lambda>y s1.
        if y then maybe_commit_ready_offsets V cfg io ?p ''completion_monitor'' s1 else Some (Inr (), s1)))" for r n
    by (auto simp: monitor_turn_def Let_def)
  show ?thesis
  proof (cases ?idle)
    case True
    then show ?thesis unfolding turn using returns_const[of "()" s] run by (simp only: if_True) blast
  next
    case False
    then show ?thesis unfolding turn using busy 2(2) by (simp only: if_False) blast
  qed
qed


section \<open>A concrete run\<close>

definition echo_config :: loop_config where
  "echo_config = \<lparr>po_ordering_mode = KEY_HASH, po_dlq = echo_dlq, po_completion = demo_comp_cfg,
     po_max_blocking_duration_ms = 0, po_debounce_completions = 1, po_debounce_interval = 0, po_planner = demo_planner,
     po_rebalance_strategy = ''metadata_snapshot'', po_coordinator_enabled = False, po_coordinator = demo_cfg,
     po_idle_consume_timeout = 1, po_batch_size = 10, po_diag_log_every = 1000\<rparr>"

definition echo_loop :: "(int list, (gap_key \<times> offset_range list) option, (dispatch_key, cached_value) work_item list) loop_state" where
  "echo_loop = \<lparr>lo_poll = echo_initial KEY_HASH, lo_cadence = cadence_init, lo_last_commit_attempt = 0, lo_diag_events_since_log = 0\<rparr>"

definition echo_io :: loop_io where
  "echo_io = \<lparr>io_publish = (\<lambda>n event m error. Inr True), io_render = (\<lambda>n d. []), io_now = 0, io_has_consumer = True,
     io_answers = (\<lambda>n. Confirmed)\<rparr>"

text \<open>The echo engine, and one that keeps its work and reports nothing.\<close>

definition mute_env :: "(int list, (gap_key \<times> offset_range list) option, (dispatch_key, cached_value) work_item list) dispatch_env" where
  "mute_env = echo_env\<lparr>env_engine := echo_engine\<lparr>eng_poll_completed_events := (\<lambda>e. ([], e))\<rparr>\<rparr>"

lemma mute_env_ok: "env_ok mute_env" "env_containers mute_env = list_containers"
  using echo_env_ok by (simp_all add: env_ok_def mute_env_def echo_env_def set_enumeration_def engine_contract_def echo_engine_def)

lemma echo_fresh: "fresh_broker 2 (lo_broker echo_loop)"
proof -
  have "work_manager_init [] 2 KEY_HASH 100 500 None 1 = Inr (br_work_manager (lo_broker echo_loop))"
    by (simp add: lo_broker_def echo_loop_def echo_initial_def work_manager_init_def)
  then have "\<exists>e mode ttl grace poison n. work_manager_init e 2 mode ttl grace poison n = Inr (br_work_manager (lo_broker echo_loop))"
    by blast
  moreover have "bs_offset_trackers (br_completion (lo_broker echo_loop)) = []" "bs_pending_dlq_events (br_completion (lo_broker echo_loop)) = []"
    "br_coordinator (lo_broker echo_loop) = None"
    by (simp_all add: lo_broker_def echo_loop_def echo_initial_def)
  ultimately show ?thesis unfolding fresh_broker_def by simp
qed

definition echo_partition :: kafka_partition where
  "echo_partition = \<lparr>kp_topic = ''t'', kp_partition = 0, kp_offset = None, kp_metadata = None\<rparr>"

definition echo_answer :: "kafka_partition list option" where
  "echo_answer = Some [\<lparr>kp_topic = ''t'', kp_partition = 0, kp_offset = Some 5, kp_metadata = Some ''R7''\<rparr>]"

lemma echo_built: "build_assignments list_containers ''metadata_snapshot'' 500 echo_answer [echo_partition] = Inr echo_trackers"
  using echo_trackers_keys unfolding echo_trackers_def echo_answer_def echo_partition_def
  by (cases "build_assignments list_containers ''metadata_snapshot'' 500
      (Some [\<lparr>kp_topic = ''t'', kp_partition = 0, kp_offset = Some 5, kp_metadata = Some ''R7''\<rparr>])
      [\<lparr>kp_topic = ''t'', kp_partition = 0, kp_offset = None, kp_metadata = None\<rparr>]") simp_all

lemma echo_assigned_run:
  assumes "env_containers V = list_containers"
  defines "b \<equiv> assign_sync V echo_trackers (lo_broker echo_loop)"
  shows "poller_run V echo_config 2 {} (listed list_containers b) (set_broker b echo_loop)"
proof -
  have "poller_run V echo_config 2 {} {} echo_loop" by (rule started[OF echo_fresh])
  from assigned_partitions[OF this, of 500 echo_answer "[echo_partition]" echo_trackers b]
  show ?thesis
    using echo_built assms by (simp add: echo_config_def tracked_def lo_broker_def echo_loop_def echo_initial_def)
qed

lemma echo_assigned_broker:
  "bs_offset_trackers (br_completion (assign_sync V echo_trackers (lo_broker echo_loop))) = echo_trackers"
  "bs_pending_dlq_events (br_completion (assign_sync V echo_trackers (lo_broker echo_loop))) = []"
proof -
  show "bs_offset_trackers (br_completion (assign_sync V echo_trackers (lo_broker echo_loop))) = echo_trackers"
  proof (rule echo_trackers_eq)
    fix u assume u: "echo_trackers \<equiv> [(part0, u)]"
    show ?thesis by (simp add: assign_sync_def lo_broker_def echo_loop_def echo_initial_def u)
  qed
  show "bs_pending_dlq_events (br_completion (assign_sync V echo_trackers (lo_broker echo_loop))) = []"
    by (simp add: assign_sync_def lo_broker_def echo_loop_def echo_initial_def)
qed



end
