(* ===== verification/Broker_Lifecycle.thy ===== *)
theory Broker_Lifecycle
  imports Delivery_Guarantee
begin

text \<open>
  Starting and stopping the poller: the shutdown drain of \<open>broker_shutdown_support.py\<close>, the
  entry points of \<open>broker_lifecycle_support.py\<close> and \<open>broker_task_lifecycle_support.py\<close>, the end
  of the consumer loop in \<open>broker_poller.py\<close> and the coordinator's last drain in
  \<open>broker_commit_coordinator_support.py\<close>.

  A step returns \<open>None\<close> when it never returns (or its fuel ran out). What the Kafka clients
  answer is an argument: which call of the start raises, and what \<open>flush\<close> and \<open>close\<close> raise.
  \<open>await_drain\<close> stands for the time the coordinator's \<open>drain\<close> is awaited, in which its worker
  runs (the interleavings of \<open>Commit_Coordinator\<close>): it maps the broker at the call to the
  answer and the broker at the return. Waiting and sleeping change nothing else.
\<close>

section \<open>The shutdown drain\<close>

type_synonym ('s, 'c, 'e) await_drain = "('s, 'c, 'e) dispatch_broker \<Rightarrow> bool \<times> ('s, 'c, 'e) dispatch_broker"

definition drain_or_sync_fallback_for_shutdown ::
  "('s, 'c, 'e) dispatch_env \<Rightarrow> loop_config \<Rightarrow> loop_io \<Rightarrow> ('s, 'c, 'e) await_drain
    \<Rightarrow> ('s, 'c, 'e) loop_state \<Rightarrow> (bool, ('s, 'c, 'e) loop_state) step" where
  "drain_or_sync_fallback_for_shutdown V cfg io await_drain s =
     (let b = lo_broker s
      in case br_coordinator b of
           None \<Rightarrow> Some (Inr True, s)
         | Some cc \<Rightarrow>
             (case await_drain (b\<lparr>br_coordinator := Some (stop_accepting cc)\<rparr>) of
                (True, b1) \<Rightarrow> Some (Inr True, set_broker b1 s)
              | (False, b1) \<Rightarrow>
                  (case br_coordinator b1 of
                     None \<Rightarrow> Some (Inr True, set_broker b1 s)
                   | Some cc1 \<Rightarrow>
                       let remaining = remaining_candidates None cc1;
                           b2 = b1\<lparr>br_coordinator := Some (cancel_leases (dict_keys remaining) cc1)\<rparr>;
                           d = bs_offset_trackers (br_completion b2)
                       in if remaining \<noteq> [] \<and> io_has_consumer io
                          then case commit_offsets (env_containers V) (po_planner cfg) (po_rebalance_strategy cfg) True
                                 (io_answers io) (map (\<lambda>c. (cand_tp c, cand_safe_offset c)) (dict_values remaining)) d d of
                               (Inl e, d1) \<Rightarrow> Some (Inl e, set_broker (b2\<lparr>br_completion := (br_completion b2)\<lparr>bs_offset_trackers := d1\<rparr>\<rparr>) s)
                             | (Inr (ok, sent), d1) \<Rightarrow>
                                 Some (Inr ok, set_broker (b2\<lparr>br_completion := (br_completion b2)\<lparr>bs_offset_trackers := d1\<rparr>\<rparr>) s)
                          else Some (Inr (remaining = []), set_broker b2 s))))"

text \<open>
  \<open>BrokerShutdownSupport.drain\<close> from its n-th turn on: \<open>ios n\<close> is what turn n meets and
  \<open>clock n\<close> the time it reads.
\<close>

definition drained_out :: "('s, 'c, 'e) loop_state \<Rightarrow> bool" where
  "drained_out s \<longleftrightarrow>
     get_total_in_flight_count (br_work_manager (lo_broker s)) \<le> 0 \<and>
     get_total_queued_messages (br_work_manager (lo_broker s)) \<le> 0 \<and>
     bs_pending_dlq_events (br_completion (lo_broker s)) = []"

fun shutdown_drain ::
  "nat \<Rightarrow> nat \<Rightarrow> nat \<Rightarrow> ('s, 'c, 'e) dispatch_env \<Rightarrow> loop_config \<Rightarrow> (nat \<Rightarrow> loop_io) \<Rightarrow> (nat \<Rightarrow> real) \<Rightarrow> ('s, 'c, 'e) await_drain
    \<Rightarrow> real \<Rightarrow> nat \<Rightarrow> ('s, 'c, 'e) loop_state \<Rightarrow> (bool, ('s, 'c, 'e) loop_state) step" where
  "shutdown_drain 0 rounds fuel V cfg ios clock await_drain deadline n s = None"
| "shutdown_drain (Suc turns) rounds fuel V cfg ios clock await_drain deadline n s =
     and_then (call_wm (schedule fuel V) s) (\<lambda>_ s1.
     and_then (drain_completion_events_once rounds fuel V cfg (ios n) s1) (\<lambda>drained_completion s2.
     and_then (if drained_completion then commit_ready_offsets V cfg (ios n) True ''stop_drain'' s2 else Some (Inr (), s2)) (\<lambda>_ s3.
       if drained_out s3
       then and_then (commit_ready_offsets V cfg (ios n) True ''stop_drain'' s3) (\<lambda>_ s4.
              drain_or_sync_fallback_for_shutdown V cfg (ios n) await_drain s4)
       else if deadline - clock n \<le> 0
       then and_then (drain_or_sync_fallback_for_shutdown V cfg (ios n) await_drain s3) (\<lambda>_ s4. Some (Inr False, s4))
       else shutdown_drain turns rounds fuel V cfg ios clock await_drain deadline (Suc n) s3)))"

definition drain_shutdown_work ::
  "nat \<Rightarrow> nat \<Rightarrow> nat \<Rightarrow> ('s, 'c, 'e) dispatch_env \<Rightarrow> loop_config \<Rightarrow> (nat \<Rightarrow> loop_io) \<Rightarrow> (nat \<Rightarrow> real) \<Rightarrow> ('s, 'c, 'e) await_drain
    \<Rightarrow> real \<Rightarrow> ('s, 'c, 'e) loop_state \<Rightarrow> (bool, ('s, 'c, 'e) loop_state) step" where
  "drain_shutdown_work turns rounds fuel V cfg ios clock await_drain timeout_seconds s =
     shutdown_drain turns rounds fuel V cfg ios clock await_drain (clock 0 + max 0 timeout_seconds) 1 s"

section \<open>The life of the poller\<close>

datatype client_call = Flush | Close

text \<open>The consumer task: none, running, or ended by an exception of its own cleanup.\<close>

datatype loop_task = TaskGone | TaskActive | TaskFailed py_error

record ('s, 'c, 'e) poller_life =
  pl_loop :: "('s, 'c, 'e) loop_state"
  pl_running :: bool
  pl_consumer_task :: loop_task
  pl_monitor_task :: bool
  pl_shutdown :: bool
  pl_fatal_error :: "py_error option"
  pl_defer_cleanup :: bool
  pl_producer :: bool
  pl_consumer :: bool
  pl_calls :: "client_call list"

text \<open>What stopping meets: the shutdown policy and drain timeout, and the errors of \<open>flush\<close> and \<open>close\<close>.\<close>

record stop_env =
  se_graceful :: bool
  se_drain_timeout :: real
  se_flush_error :: "py_error option"
  se_close_error :: "py_error option"

definition raise_if_failed :: "('s, 'c, 'e) poller_life \<Rightarrow> (unit, ('s, 'c, 'e) poller_life) step" where
  "raise_if_failed l =
     (case pl_fatal_error l of
        None \<Rightarrow> Some (Inr (), l)
      | Some e \<Rightarrow> Some (Inl e, l\<lparr>pl_fatal_error := None\<rparr>))"

definition on_loop ::
  "('a, ('s, 'c, 'e) loop_state) step \<Rightarrow> ('s, 'c, 'e) poller_life \<Rightarrow> ('a, ('s, 'c, 'e) poller_life) step" where
  "on_loop r l = map_option (\<lambda>(x, s). (x, l\<lparr>pl_loop := s\<rparr>)) r"

definition call_client :: "bool \<Rightarrow> client_call \<Rightarrow> py_error option \<Rightarrow> ('s, 'c, 'e) poller_life \<Rightarrow> (unit, ('s, 'c, 'e) poller_life) step" where
  "call_client present call error l =
     (if \<not> present then Some (Inr (), l)
      else Some (case error of None \<Rightarrow> Inr () | Some e \<Rightarrow> Inl e, l\<lparr>pl_calls := pl_calls l @ [call]\<rparr>))"

definition clear_caches :: "('s, 'c, 'e) loop_state \<Rightarrow> ('s, 'c, 'e) loop_state" where
  "clear_caches s =
     (let b = lo_broker s
      in set_broker (b\<lparr>br_completion := (br_completion b)\<lparr>bs_dlq_cache := empty_cache, bs_pending_dlq_events := []\<rparr>\<rparr>) s)"

definition cleanup_runtime ::
  "('s, 'c, 'e) dispatch_env \<Rightarrow> loop_config \<Rightarrow> loop_io \<Rightarrow> ('s, 'c, 'e) await_drain \<Rightarrow> stop_env
    \<Rightarrow> ('s, 'c, 'e) poller_life \<Rightarrow> (unit, ('s, 'c, 'e) poller_life) step" where
  "cleanup_runtime V cfg io await_drain e l =
     and_then (on_loop (drain_or_sync_fallback_for_shutdown V cfg io await_drain (pl_loop l)) l) (\<lambda>_ l1.
     and_then (call_client (pl_producer l1) Flush (se_flush_error e) l1) (\<lambda>_ l2.
     and_then (call_client (pl_consumer l2) Close (se_close_error e) l2) (\<lambda>_ l3.
       Some (Inr (), l3\<lparr>pl_loop := clear_caches (pl_loop l3)\<rparr>))))"

text \<open>
  \<open>start\<close>: \<open>failure\<close> is the exception of the configuration or of one of the client factories, and
  \<open>monitor\<close> the setting of the strict completion monitor.
\<close>

definition start_runtime :: "py_error option \<Rightarrow> bool \<Rightarrow> ('s, 'c, 'e) poller_life \<Rightarrow> (unit, ('s, 'c, 'e) poller_life) step" where
  "start_runtime failure monitor l =
     (case failure of
        Some e \<Rightarrow> Some (Inl e, l)
      | None \<Rightarrow> Some (Inr (), l\<lparr>pl_producer := True, pl_consumer := True, pl_consumer_task := TaskActive, pl_monitor_task := monitor\<rparr>))"

definition start :: "py_error option \<Rightarrow> bool \<Rightarrow> ('s, 'c, 'e) poller_life \<Rightarrow> (unit, ('s, 'c, 'e) poller_life) step" where
  "start failure monitor l =
     (if pl_running l then Some (Inr (), l)
      else and_then (start_runtime failure monitor (l\<lparr>pl_shutdown := False, pl_fatal_error := None\<rparr>)) (\<lambda>_ l1.
        Some (Inr (), l1\<lparr>pl_running := True\<rparr>)))"

text \<open>
  The consumer loop ends because it is told to or is cancelled (\<open>None\<close>), or with an exception,
  which becomes the fatal error. Then the \<open>finally\<close> block runs; an exception of the cleanup
  leaves the task failed and the shutdown event unset.
\<close>

definition end_consumer_loop ::
  "('s, 'c, 'e) dispatch_env \<Rightarrow> loop_config \<Rightarrow> loop_io \<Rightarrow> ('s, 'c, 'e) await_drain \<Rightarrow> stop_env \<Rightarrow> py_error option
    \<Rightarrow> ('s, 'c, 'e) poller_life \<Rightarrow> (unit, ('s, 'c, 'e) poller_life) step" where
  "end_consumer_loop V cfg io await_drain e error l =
     (let l1 = l\<lparr>pl_fatal_error := (case error of None \<Rightarrow> pl_fatal_error l | Some x \<Rightarrow> Some x),
                pl_running := False, pl_monitor_task := False\<rparr>
      in case (if pl_defer_cleanup l1 then Some (Inr (), l1) else cleanup_runtime V cfg io await_drain e l1) of
           None \<Rightarrow> None
         | Some (Inl x, l2) \<Rightarrow> Some (Inl x, l2\<lparr>pl_consumer_task := TaskFailed x\<rparr>)
         | Some (Inr _, l2) \<Rightarrow> Some (Inr (), l2\<lparr>pl_shutdown := True, pl_consumer_task := TaskGone\<rparr>))"

text \<open>The monitor's loop ended with an exception: the consumer loop sees \<open>running\<close> false.\<close>

definition monitor_crashed :: "py_error \<Rightarrow> ('s, 'c, 'e) poller_life \<Rightarrow> ('s, 'c, 'e) poller_life" where
  "monitor_crashed error l = l\<lparr>pl_fatal_error := Some error, pl_running := False\<rparr>"

text \<open>
  Waiting for the consumer task, with a timeout that cancels it: either way the loop runs its
  \<open>finally\<close> block, and an exception of that block comes out of the wait.
\<close>

definition stop_runtime ::
  "('s, 'c, 'e) dispatch_env \<Rightarrow> loop_config \<Rightarrow> loop_io \<Rightarrow> ('s, 'c, 'e) await_drain \<Rightarrow> stop_env \<Rightarrow> py_error option
    \<Rightarrow> ('s, 'c, 'e) poller_life \<Rightarrow> (unit, ('s, 'c, 'e) poller_life) step" where
  "stop_runtime V cfg io await_drain e error l =
     (case pl_consumer_task l of
        TaskGone \<Rightarrow> Some (Inr (), l)
      | TaskFailed x \<Rightarrow> Some (Inl x, l)
      | TaskActive \<Rightarrow> end_consumer_loop V cfg io await_drain e error l)"

text \<open>\<open>try ... finally\<close>: an exception of the second part replaces the first one's.\<close>

definition finally_do :: "('a, 'st) step \<Rightarrow> ('st \<Rightarrow> (unit, 'st) step) \<Rightarrow> ('a, 'st) step" where
  "finally_do r f =
     (case r of
        None \<Rightarrow> None
      | Some (x, s) \<Rightarrow> (case f s of None \<Rightarrow> None | Some (Inl e, s1) \<Rightarrow> Some (Inl e, s1) | Some (Inr _, s1) \<Rightarrow> Some (x, s1)))"

definition stop ::
  "nat \<Rightarrow> nat \<Rightarrow> nat \<Rightarrow> ('s, 'c, 'e) dispatch_env \<Rightarrow> loop_config \<Rightarrow> (nat \<Rightarrow> loop_io) \<Rightarrow> (nat \<Rightarrow> real) \<Rightarrow> ('s, 'c, 'e) await_drain
    \<Rightarrow> stop_env \<Rightarrow> py_error option \<Rightarrow> ('s, 'c, 'e) poller_life \<Rightarrow> (unit, ('s, 'c, 'e) poller_life) step" where
  "stop turns rounds fuel V cfg ios clock await_drain e error l =
     (if \<not> pl_running l \<and> pl_consumer_task l = TaskGone
      then if pl_shutdown l then raise_if_failed l else Some (Inr (), l)
      else
        let cleanup_after_drain = (pl_consumer_task l \<noteq> TaskGone \<and> se_graceful e);
            l0 = l\<lparr>pl_running := False\<rparr>;
            l1 = (if pl_consumer_task l0 \<noteq> TaskGone then l0\<lparr>pl_defer_cleanup := cleanup_after_drain\<rparr> else l0)
        in finally_do
             (and_then (stop_runtime V cfg (ios 0) await_drain e error l1) (\<lambda>_ l2.
              and_then (raise_if_failed (l2\<lparr>pl_consumer_task := TaskGone\<rparr>)) (\<lambda>_ l3.
                if se_graceful e
                then and_then (on_loop (drain_shutdown_work turns rounds fuel V cfg ios clock await_drain (se_drain_timeout e) (pl_loop l3)) l3)
                       (\<lambda>_ l4. Some (Inr (), l4))
                else Some (Inr (), l3))))
             (\<lambda>l5. if cleanup_after_drain
               then cleanup_runtime V cfg (ios 0) await_drain e (l5\<lparr>pl_defer_cleanup := False\<rparr>)
               else Some (Inr (), l5)))"

text \<open>\<open>None\<close> is a wait for an event that is never set.\<close>

definition wait_closed ::
  "('s, 'c, 'e) dispatch_env \<Rightarrow> loop_config \<Rightarrow> loop_io \<Rightarrow> ('s, 'c, 'e) await_drain \<Rightarrow> stop_env \<Rightarrow> py_error option
    \<Rightarrow> ('s, 'c, 'e) poller_life \<Rightarrow> (unit, ('s, 'c, 'e) poller_life) step" where
  "wait_closed V cfg io await_drain e error l =
     (if \<not> pl_running l \<and> pl_consumer_task l = TaskGone
      then if pl_shutdown l then raise_if_failed l else Some (Inr (), l)
      else if pl_shutdown l then raise_if_failed l
      else case pl_consumer_task l of
        TaskActive \<Rightarrow>
          (case end_consumer_loop V cfg io await_drain e error l of
             Some (Inr _, l1) \<Rightarrow> raise_if_failed l1
           | _ \<Rightarrow> None)
      | _ \<Rightarrow> None)"

section \<open>The drain ends\<close>

text \<open>A registered item whose completion event waits in the work manager's queue.\<close>

definition reported :: "('k, 'p, 's, 'c, 'e) broker \<Rightarrow> position \<Rightarrow> bool" where
  "reported b k \<longleftrightarrow>
     (\<exists>i w. item_of (br_work_manager b) i = Some w \<and> (wi_tp w, wi_offset w) = k \<and>
        i \<in> ce_id ` set (wm_completion_queue (br_work_manager b)))"

lemma drained_out_reported:
  assumes ok: "broker_ok V m (lo_broker s)" and out: "drained_out s" and h: "held (lo_broker s) k"
  shows "reported (lo_broker s) k"
proof -
  let ?w = "br_work_manager (lo_broker s)"
  obtain i w where w: "item_of ?w i = Some w" "(wi_tp w, wi_offset w) = k" using h unfolding held_def by blast
  note inv = wm_goodD(1)[OF broker_okD(1)[OF ok]]
  have "total_queued (wm_queue_topology ?w) = 0"
    using out queue_invD(2)[OF wm_invD(2)[OF inv]] by (simp add: drained_out_def get_total_queued_messages_def)
  then have "\<not> queued ?w w" by (simp add: queued_def no_items_queued)
  moreover have "dispatched ?w = {}"
    using out ledger_invD(5)[OF wm_invD(1)[OF inv]] by (simp add: drained_out_def get_total_in_flight_count_def dispatched_def)
  ultimately have "i \<in> ce_id ` set (wm_completion_queue ?w)" using broker_okD(2)[OF ok] w(1) unfolding in_custody_def by blast
  then show ?thesis using w unfolding reported_def by blast
qed

lemma no_coordinator_drain:
  "br_coordinator (lo_broker s) = None \<Longrightarrow> drain_or_sync_fallback_for_shutdown V cfg io aw s = Some (Inr True, s)"
  by (simp add: drain_or_sync_fallback_for_shutdown_def)

text \<open>Up to the test of a turn.\<close>

lemma drain_turn_step:
  assumes con: "loop_contract V cfg" and run: "poller_run V cfg m G F s" and pub: "publisher_answers (io_publish io)"
  shows "\<exists>s' F'. returns (\<lambda>rounds fuel. and_then (call_wm (schedule fuel V) s) (\<lambda>_ s1.
     and_then (drain_completion_events_once rounds fuel V cfg io s1) (\<lambda>drained_completion s2.
       if drained_completion then commit_ready_offsets V cfg io True ''stop_drain'' s2 else Some (Inr (), s2)))) () s' \<and>
    poller_run V cfg m G F' s'"
proof -
  obtain s1 where 1: "returns (\<lambda>r n. call_wm (schedule n V) s) () s1" "poller_run V cfg m G F s1"
    using schedule_step[OF con run] by blast
  obtain x s2 F2 where 2: "returns (\<lambda>r n. drain_completion_events_once r n V cfg io s1) x s2" "poller_run V cfg m G F2 s2"
    using drain_step[OF con 1(2) pub] by blast
  obtain s3 where 3: "(if x then commit_ready_offsets V cfg io True ''stop_drain'' s2 else Some (Inr (), s2)) = Some (Inr (), s3)"
    "poller_run V cfg m G F2 s3"
    using commit_step[OF con 2(2), of io True "''stop_drain''"] 2(2) by (cases x) auto
  have "returns (\<lambda>rounds fuel. and_then (call_wm (schedule fuel V) s) (\<lambda>_ s1.
     and_then (drain_completion_events_once rounds fuel V cfg io s1) (\<lambda>drained_completion s2.
       if drained_completion then commit_ready_offsets V cfg io True ''stop_drain'' s2 else Some (Inr (), s2)))) () s3"
    by (rule returns_then[OF 1(1)], rule returns_then[OF 2(1)]) (simp add: 3(1) returns_const)
  then show ?thesis using 3(2) by blast
qed

lemma and_then_assoc: "and_then (and_then r f) g = and_then r (\<lambda>x s. and_then (f x s) g)"
  by (simp add: and_then_def split: option.split prod.split sum.split)

lemma shutdown_drain_unfold:
  "shutdown_drain (Suc turns) rounds fuel V cfg ios clock aw deadline n s =
     and_then (and_then (call_wm (schedule fuel V) s) (\<lambda>_ s1.
       and_then (drain_completion_events_once rounds fuel V cfg (ios n) s1) (\<lambda>drained_completion s2.
         if drained_completion then commit_ready_offsets V cfg (ios n) True ''stop_drain'' s2 else Some (Inr (), s2))))
       (\<lambda>_ s3.
         if drained_out s3
         then and_then (commit_ready_offsets V cfg (ios n) True ''stop_drain'' s3) (\<lambda>_ s4.
                drain_or_sync_fallback_for_shutdown V cfg (ios n) aw s4)
         else if deadline - clock n \<le> 0
         then and_then (drain_or_sync_fallback_for_shutdown V cfg (ios n) aw s3) (\<lambda>_ s4. Some (Inr False, s4))
         else shutdown_drain turns rounds fuel V cfg ios clock aw deadline (Suc n) s3)"
  by (simp add: and_then_assoc)

text \<open>What a drain that returned \<open>ok\<close> has achieved.\<close>

definition drain_result :: "bool \<Rightarrow> real \<Rightarrow> (nat \<Rightarrow> real) \<Rightarrow> ('s, 'c, 'e) loop_state \<Rightarrow> bool" where
  "drain_result ok deadline clock s \<longleftrightarrow>
     (if ok then drained_out s else \<not> drained_out s \<and> (\<exists>n. deadline \<le> clock n))"

text \<open>A turn ends the drain or goes on with the next one; past the deadline it ends it.\<close>

lemma drain_one_turn:
  assumes con: "loop_contract V cfg" and pub: "publisher_answers (io_publish (ios n))" and run: "poller_run V cfg m G F s"
  shows "\<exists>N s' F'. poller_run V cfg m G F' s' \<and>
    ((\<exists>ok. drain_result ok deadline clock s' \<and> (\<forall>turns. \<forall>rounds \<ge> N. \<forall>fuel \<ge> N.
        shutdown_drain (Suc turns) rounds fuel V cfg ios clock aw deadline n s = Some (Inr ok, s'))) \<or>
     (\<not> deadline \<le> clock n \<and> (\<forall>turns. \<forall>rounds \<ge> N. \<forall>fuel \<ge> N.
        shutdown_drain (Suc turns) rounds fuel V cfg ios clock aw deadline n s =
        shutdown_drain turns rounds fuel V cfg ios clock aw deadline (Suc n) s')))"
proof -
  let ?head = "\<lambda>rounds fuel. and_then (call_wm (schedule fuel V) s) (\<lambda>_ s1.
     and_then (drain_completion_events_once rounds fuel V cfg (ios n) s1) (\<lambda>drained_completion s2.
       if drained_completion then commit_ready_offsets V cfg (ios n) True ''stop_drain'' s2 else Some (Inr (), s2)))"
  obtain s3 F3 N where 3: "\<And>rounds fuel. N \<le> rounds \<Longrightarrow> N \<le> fuel \<Longrightarrow> ?head rounds fuel = Some (Inr (), s3)"
    "poller_run V cfg m G F3 s3" using drain_turn_step[OF con run pub] unfolding returns_def by blast
  note ok3 = run_good[OF con 3(2)] and unf = shutdown_drain_unfold[where n = n and s = s]
  obtain s4 where 4: "commit_ready_offsets V cfg (ios n) True ''stop_drain'' s3 = Some (Inr (), s4)" "poller_run V cfg m G F3 s4"
    using commit_step[OF con 3(2)] by blast
  note C = commit_broker[OF loop_contractD(2)[OF con] ok3 4(1)]
  have turn: "shutdown_drain (Suc turns) rounds fuel V cfg ios clock aw deadline n s =
      (if drained_out s3 then Some (Inr True, s4) else if deadline \<le> clock n then Some (Inr False, s3)
       else shutdown_drain turns rounds fuel V cfg ios clock aw deadline (Suc n) s3)"
    if "N \<le> rounds" "N \<le> fuel" for turns rounds fuel
    unfolding unf 3(1)[OF that]
    by (simp add: and_then_def 4(1) no_coordinator_drain[OF C(3)] no_coordinator_drain[OF broker_okD(9)[OF ok3]])
  consider "drained_out s3" | "\<not> drained_out s3" "deadline \<le> clock n" | "\<not> drained_out s3" "\<not> deadline \<le> clock n" by blast
  then show ?thesis
  proof cases
    case 1
    then have "drain_result True deadline clock s4" using C(2,4) by (simp add: drain_result_def drained_out_def)
    then show ?thesis using 4(2) turn 1 by (intro exI[of _ N] exI[of _ s4] exI[of _ F3]) auto
  next
    case 2
    then have "drain_result False deadline clock s3" by (auto simp: drain_result_def)
    then show ?thesis using 3(2) turn 2 by (intro exI[of _ N] exI[of _ s3] exI[of _ F3]) auto
  next
    case 3
    then show ?thesis using \<open>poller_run V cfg m G F3 s3\<close> turn by (intro exI[of _ N] exI[of _ s3] exI[of _ F3]) auto
  qed
qed

lemma shutdown_drain_ends:
  assumes con: "loop_contract V cfg" and pub: "\<And>n. publisher_answers (io_publish (ios n))"
    and late: "deadline \<le> clock (n + j)" and run: "poller_run V cfg m G F s"
  shows "\<exists>N ok s' F'. (\<forall>turns > j. \<forall>rounds \<ge> N. \<forall>fuel \<ge> N.
      shutdown_drain turns rounds fuel V cfg ios clock aw deadline n s = Some (Inr ok, s')) \<and>
    poller_run V cfg m G F' s' \<and> drain_result ok deadline clock s'"
  using late run
proof (induction j arbitrary: n s F)
  case 0
  obtain N s' F' where R: "poller_run V cfg m G F' s'"
    "(\<exists>ok. drain_result ok deadline clock s' \<and> (\<forall>turns. \<forall>rounds \<ge> N. \<forall>fuel \<ge> N.
        shutdown_drain (Suc turns) rounds fuel V cfg ios clock aw deadline n s = Some (Inr ok, s'))) \<or> \<not> deadline \<le> clock n"
    using drain_one_turn[where deadline = deadline and clock = clock and aw = aw and n = n and ios = ios, OF con pub 0(2)] by blast
  then obtain ok where ok: "drain_result ok deadline clock s'"
    "\<forall>turns. \<forall>rounds \<ge> N. \<forall>fuel \<ge> N. shutdown_drain (Suc turns) rounds fuel V cfg ios clock aw deadline n s = Some (Inr ok, s')"
    using 0(1) by auto
  have "\<forall>turns > 0. \<forall>rounds \<ge> N. \<forall>fuel \<ge> N.
      shutdown_drain turns rounds fuel V cfg ios clock aw deadline n s = Some (Inr ok, s')"
    using ok(2) by (metis gr0_implies_Suc)
  then show ?case using R(1) ok(1) by blast
next
  case (Suc j)
  have late': "deadline \<le> clock (Suc n + j)" using Suc.prems(1) by simp
  obtain N s' F' where R: "poller_run V cfg m G F' s'"
    "(\<exists>ok. drain_result ok deadline clock s' \<and> (\<forall>turns. \<forall>rounds \<ge> N. \<forall>fuel \<ge> N.
        shutdown_drain (Suc turns) rounds fuel V cfg ios clock aw deadline n s = Some (Inr ok, s'))) \<or>
     (\<forall>turns. \<forall>rounds \<ge> N. \<forall>fuel \<ge> N.
        shutdown_drain (Suc turns) rounds fuel V cfg ios clock aw deadline n s =
        shutdown_drain turns rounds fuel V cfg ios clock aw deadline (Suc n) s')"
    using drain_one_turn[where deadline = deadline and clock = clock and aw = aw and n = n and ios = ios, OF con pub Suc.prems(2)] by blast
  obtain M ok s'' F'' where M: "\<forall>turns > j. \<forall>rounds \<ge> M. \<forall>fuel \<ge> M.
      shutdown_drain turns rounds fuel V cfg ios clock aw deadline (Suc n) s' = Some (Inr ok, s'')"
    "poller_run V cfg m G F'' s''" "drain_result ok deadline clock s''"
    using Suc.IH[OF late' R(1)] by blast
  from R(2) show ?case
  proof
    assume "\<exists>ok. drain_result ok deadline clock s' \<and> (\<forall>turns. \<forall>rounds \<ge> N. \<forall>fuel \<ge> N.
        shutdown_drain (Suc turns) rounds fuel V cfg ios clock aw deadline n s = Some (Inr ok, s'))"
    then obtain x where x: "drain_result x deadline clock s'"
      "\<forall>turns. \<forall>rounds \<ge> N. \<forall>fuel \<ge> N. shutdown_drain (Suc turns) rounds fuel V cfg ios clock aw deadline n s = Some (Inr x, s')" by blast
    have "\<forall>turns > Suc j. \<forall>rounds \<ge> N. \<forall>fuel \<ge> N.
        shutdown_drain turns rounds fuel V cfg ios clock aw deadline n s = Some (Inr x, s')"
      using x(2) by (metis Suc_lessE)
    then show ?thesis using R(1) x(1) by blast
  next
    assume S: "\<forall>turns. \<forall>rounds \<ge> N. \<forall>fuel \<ge> N.
        shutdown_drain (Suc turns) rounds fuel V cfg ios clock aw deadline n s =
        shutdown_drain turns rounds fuel V cfg ios clock aw deadline (Suc n) s'"
    have "shutdown_drain turns rounds fuel V cfg ios clock aw deadline n s = Some (Inr ok, s'')"
      if b: "Suc j < turns" "max N M \<le> rounds" "max N M \<le> fuel" for turns rounds fuel
    proof -
      obtain t where t: "turns = Suc t" "j < t" using b(1) by (cases turns) auto
      have "shutdown_drain turns rounds fuel V cfg ios clock aw deadline n s =
          shutdown_drain t rounds fuel V cfg ios clock aw deadline (Suc n) s'"
        unfolding t(1) using S b(2,3) by simp
      then show ?thesis using M(1) t(2) b(2,3) by simp
    qed
    then show ?thesis using M(2,3) by blast
  qed
qed

section \<open>Stopping\<close>

lemma cleanup_clean:
  assumes "br_coordinator (lo_broker (pl_loop l)) = None" "pl_producer l" "pl_consumer l"
    "se_flush_error e = None" "se_close_error e = None"
  shows "cleanup_runtime V cfg io aw e l =
    Some (Inr (), l\<lparr>pl_calls := pl_calls l @ [Flush, Close], pl_loop := clear_caches (pl_loop l)\<rparr>)"
  using assms by (simp add: cleanup_runtime_def on_loop_def no_coordinator_drain call_client_def and_then_def)

text \<open>What the loop ends with: the exception it raised, or the one the monitor left.\<close>

definition final_error :: "py_error option \<Rightarrow> ('s, 'c, 'e) poller_life \<Rightarrow> py_error option" where
  "final_error error l = (case error of None \<Rightarrow> pl_fatal_error l | Some x \<Rightarrow> Some x)"

text \<open>A poller that has been stopped: nothing runs, the clients are closed, the caches are empty.\<close>

definition closed_down :: "('s, 'c, 'e) poller_life \<Rightarrow> ('s, 'c, 'e) poller_life \<Rightarrow> bool" where
  "closed_down l l' \<longleftrightarrow>
     \<not> pl_running l' \<and> pl_consumer_task l' = TaskGone \<and> \<not> pl_monitor_task l' \<and> pl_shutdown l' \<and> pl_fatal_error l' = None \<and>
     \<not> pl_defer_cleanup l' \<and> pl_calls l' = pl_calls l @ [Flush, Close] \<and>
     bs_pending_dlq_events (br_completion (lo_broker (pl_loop l'))) = [] \<and>
     bs_dlq_cache (br_completion (lo_broker (pl_loop l'))) = empty_cache"

lemma clear_caches_fields [simp]:
  "bs_pending_dlq_events (br_completion (lo_broker (clear_caches s))) = []"
  "bs_dlq_cache (br_completion (lo_broker (clear_caches s))) = empty_cache"
  "bs_offset_trackers (br_completion (lo_broker (clear_caches s))) = bs_offset_trackers (br_completion (lo_broker s))"
  "br_coordinator (lo_broker (clear_caches s)) = br_coordinator (lo_broker s)"
  by (simp_all add: clear_caches_def Let_def)

lemma closed_stays:
  assumes "closed_down l l'"
  shows "stop turns rounds fuel V cfg ios clock aw e error l' = Some (Inr (), l')"
  using assms by (simp add: stop_def closed_down_def raise_if_failed_def)

text \<open>The two policies: the cleanup in the loop's \<open>finally\<close>, or deferred until after the drain.\<close>

definition stopped_life :: "('s, 'c, 'e) loop_state \<Rightarrow> ('s, 'c, 'e) poller_life \<Rightarrow> ('s, 'c, 'e) poller_life" where
  "stopped_life s l = l\<lparr>pl_loop := clear_caches s, pl_running := False, pl_consumer_task := TaskGone, pl_monitor_task := False,
     pl_shutdown := True, pl_fatal_error := None, pl_defer_cleanup := False, pl_calls := pl_calls l @ [Flush, Close]\<rparr>"

lemma stopped_life_closed: "closed_down l (stopped_life s l)"
  by (simp add: closed_down_def stopped_life_def)

lemma stop_immediate:
  assumes l: "pl_consumer_task l = TaskActive" "pl_producer l" "pl_consumer l"
    "br_coordinator (lo_broker (pl_loop l)) = None"
    and e: "\<not> se_graceful e" "se_flush_error e = None" "se_close_error e = None"
  shows "stop turns rounds fuel V cfg ios clock aw e error l =
      Some (case final_error error l of None \<Rightarrow> Inr () | Some x \<Rightarrow> Inl x, stopped_life (pl_loop l) l)"
proof -
  have "end_consumer_loop V cfg (ios 0) aw e error (l\<lparr>pl_running := False, pl_defer_cleanup := False\<rparr>) =
      Some (Inr (), (stopped_life (pl_loop l) l)\<lparr>pl_fatal_error := final_error error l\<rparr>)"
    using l e by (cases error) (simp_all add: end_consumer_loop_def Let_def cleanup_clean stopped_life_def final_error_def)
  then show ?thesis
    using l(1) e(1)
    by (cases "final_error error l")
      (simp_all add: stop_def stop_runtime_def finally_do_def and_then_def raise_if_failed_def Let_def stopped_life_def)
qed

lemma stop_graceful:
  assumes l: "pl_consumer_task l = TaskActive" "pl_producer l" "pl_consumer l"
    and e: "se_graceful e" "se_flush_error e = None" "se_close_error e = None"
    and none: "br_coordinator (lo_broker (pl_loop l)) = None" "br_coordinator (lo_broker s') = None"
    and drain: "drain_shutdown_work turns rounds fuel V cfg ios clock aw (se_drain_timeout e) (pl_loop l) = Some (Inr ok, s')"
  shows "stop turns rounds fuel V cfg ios clock aw e error l =
      Some (case final_error error l of None \<Rightarrow> Inr () | Some x \<Rightarrow> Inl x,
        stopped_life (if final_error error l = None then s' else pl_loop l) l)"
proof -
  define l1 where "l1 = l\<lparr>pl_running := False, pl_defer_cleanup := True, pl_fatal_error := final_error error l, pl_monitor_task := False,
    pl_shutdown := True, pl_consumer_task := TaskGone\<rparr>"
  have end_: "end_consumer_loop V cfg (ios 0) aw e error (l\<lparr>pl_running := False, pl_defer_cleanup := True\<rparr>) = Some (Inr (), l1)"
    by (cases error) (simp_all add: end_consumer_loop_def Let_def l1_def final_error_def)
  show ?thesis
    using l e end_ drain none
    by (cases "final_error error l")
      (simp_all add: stop_def stop_runtime_def finally_do_def and_then_def raise_if_failed_def on_loop_def Let_def l1_def
        cleanup_clean stopped_life_def)
qed

text \<open>
  If the cleanup at the end of the loop raises, the shutdown event stays unset: whoever waits for
  the poller to close waits forever, before and after.
\<close>

lemma failed_cleanup_never_closed:
  assumes "pl_consumer_task l = TaskActive" "\<not> pl_defer_cleanup l" "\<not> pl_shutdown l" "pl_producer l"
    "br_coordinator (lo_broker (pl_loop l)) = None" "se_flush_error e = Some x"
  shows "wait_closed V cfg io aw e error l = None"
    "\<exists>l'. end_consumer_loop V cfg io aw e error l = Some (Inl x, l') \<and> \<not> pl_shutdown l' \<and> wait_closed V cfg io aw e' error' l' = None"
  using assms
  by (simp_all add: wait_closed_def end_consumer_loop_def cleanup_runtime_def on_loop_def no_coordinator_drain
      call_client_def and_then_def Let_def)

section \<open>Properties\<close>



section \<open>A concrete stop\<close>

text \<open>The poller with its partition assigned and its loop running.\<close>

definition echo_life :: "(int list, (gap_key \<times> offset_range list) option, (dispatch_key, cached_value) work_item list) poller_life" where
  "echo_life = \<lparr>pl_loop = set_broker (assign_sync mute_env echo_trackers (lo_broker echo_loop)) echo_loop, pl_running = True,
     pl_consumer_task = TaskActive, pl_monitor_task = True, pl_shutdown = False, pl_fatal_error = None, pl_defer_cleanup = False,
     pl_producer = True, pl_consumer = True, pl_calls = []\<rparr>"

definition echo_stop :: stop_env where
  "echo_stop = \<lparr>se_graceful = True, se_drain_timeout = 1, se_flush_error = None, se_close_error = None\<rparr>"

lemma mute_contract:
  "tracker_containers (env_containers mute_env)" "po_max_blocking_duration_ms echo_config \<le> 0"
  "honest_engine mute_env echo_config" "\<forall>n. publisher_answers (io_publish echo_io)"
  "poller_run mute_env echo_config 2 {} (listed list_containers (assign_sync mute_env echo_trackers (lo_broker echo_loop))) (pl_loop echo_life)"
proof -
  show "tracker_containers (env_containers mute_env)" unfolding mute_env_ok by (rule lc.tracker_containers_axioms)
  show "po_max_blocking_duration_ms echo_config \<le> 0" by (simp add: echo_config_def)
  show "honest_engine mute_env echo_config" by (simp add: honest_engine_def mute_env_def)
  show "\<forall>n. publisher_answers (io_publish echo_io)" by (auto simp: publisher_answers_def echo_io_def)
  show "poller_run mute_env echo_config 2 {} (listed list_containers (assign_sync mute_env echo_trackers (lo_broker echo_loop))) (pl_loop echo_life)"
    unfolding echo_life_def using echo_assigned_run[OF mute_env_ok(2)] by simp
qed



end
