(* ===== verification/Async_Engine.thy ===== *)
theory Async_Engine
  imports Complex_Main Execution_Engine "HOL-Library.Multiset"
begin

text \<open>
  \<open>execution_plane/async_engine.py\<close>: the engine that runs every work item as an asyncio task,
  bounded by a semaphore.

  The user's worker is a parameter: \<open>worker k\<close> is how its k-th attempt on an item ends. The
  coroutines are cut where they wait, so a step is what one of them does between two waits:
  \<open>submit\<close> up to the semaphore and behind it, a task up to its event, the callback of a task that
  has ended. Theorems: the event of an item says how its attempts went; over every interleaving
  each item submitted yields one event unless its task was cancelled, events are handed out in
  the order they were put, and the permits of the semaphore are never lost.
\<close>

section \<open>The attempts of a task\<close>

datatype attempt_outcome = Returned | TimedOut | Raised string

record exec_config =
  ex_max_retries :: int
  ex_retry_backoff_ms :: int
  ex_exponential_backoff :: bool
  ex_max_retry_backoff_ms :: int
  ex_retry_jitter_ms :: int
  ex_max_in_flight :: int

definition apply_backoff :: "exec_config \<Rightarrow> (int \<Rightarrow> real) \<Rightarrow> int \<Rightarrow> real" where
  "apply_backoff cfg jitter attempt =
     (let delay_ms =
            (if ex_exponential_backoff cfg
             then min (ex_retry_backoff_ms cfg * 2 ^ nat (attempt - 1)) (ex_max_retry_backoff_ms cfg)
             else ex_retry_backoff_ms cfg)
      in (real_of_int delay_ms + (if ex_retry_jitter_ms cfg > 0 then jitter attempt else 0)) / 1000)"

fun attempt_error :: "int \<Rightarrow> attempt_outcome \<Rightarrow> string option" where
  "attempt_error offset Returned = None"
| "attempt_error offset TimedOut = Some (''Task for offset '' @ str_int offset @ '' timed out.'')"
| "attempt_error offset (Raised e) = Some e"

text \<open>The loop over \<open>range(1, max_retries + 1)\<close>; the locals are status, error and attempt.\<close>

function attempt_loop ::
  "exec_config \<Rightarrow> (int \<Rightarrow> attempt_outcome) \<Rightarrow> (int \<Rightarrow> real) \<Rightarrow> int \<Rightarrow> int
    \<Rightarrow> completion_status \<times> string option \<times> int \<Rightarrow> (completion_status \<times> string option \<times> int) \<times> real list" where
  "attempt_loop cfg worker jitter offset k locals =
     (if k \<le> ex_max_retries cfg then
        if worker k = Returned then ((SUCCESS, None, k), [])
        else
          let (r, sleeps) = attempt_loop cfg worker jitter offset (k + 1) (FAILURE, attempt_error offset (worker k), k)
          in (r, if k < ex_max_retries cfg then apply_backoff cfg jitter k # sleeps else sleeps)
      else (locals, []))"
  by auto
termination
  by (relation "measure (\<lambda>(cfg, worker, jitter, offset, k, locals). nat (ex_max_retries cfg + 1 - k))") auto

declare attempt_loop.simps [simp del]

definition execute_worker_task ::
  "exec_config \<Rightarrow> (int \<Rightarrow> attempt_outcome) \<Rightarrow> (int \<Rightarrow> real) \<Rightarrow> ('k, 'p) work_item \<Rightarrow> completion_event \<times> real list" where
  "execute_worker_task cfg worker jitter w =
     (let ((status, error, attempt), sleeps) = attempt_loop cfg worker jitter (wi_offset w) 1 (SUCCESS, None, 0)
      in (\<lparr>ce_id = wi_id w, ce_tp = wi_tp w, ce_offset = wi_offset w, ce_epoch = wi_epoch w,
           ce_status = status, ce_error = error, ce_attempt = attempt\<rparr>, sleeps))"

section \<open>The engine\<close>

text \<open>
  \<open>ae_waiting\<close> are the submissions that wait for the semaphore, in order; \<open>ae_running\<close> and
  \<open>ae_ended\<close> are the tasks of \<open>_in_flight_tasks\<close> before and after their body has ended, the
  latter until their done callback runs.
\<close>

record ('k, 'p) async_engine =
  ae_permits :: int
  ae_waiting :: "('k, 'p) work_item list"
  ae_running :: "('k, 'p) work_item list"
  ae_ended :: "('k, 'p) work_item list"
  ae_completion_queue :: "completion_event list"
  ae_prefetched_completion_events :: "completion_event list"
  ae_shutdown :: bool

definition async_engine_init :: "exec_config \<Rightarrow> py_error + ('k, 'p) async_engine" where
  "async_engine_init cfg =
     (if ex_max_in_flight cfg < 0 then Inl ValueError
      else Inr \<lparr>ae_permits = ex_max_in_flight cfg, ae_waiting = [], ae_running = [], ae_ended = [],
                ae_completion_queue = [], ae_prefetched_completion_events = [], ae_shutdown = False\<rparr>)"

definition get_in_flight_count :: "('k, 'p) async_engine \<Rightarrow> int" where
  "get_in_flight_count s = int (length (ae_running s) + length (ae_ended s))"

text \<open>\<open>submit\<close> up to the semaphore, and from there on.\<close>

definition submit_enter :: "('k, 'p) work_item \<Rightarrow> ('k, 'p) async_engine \<Rightarrow> py_error + ('k, 'p) async_engine" where
  "submit_enter w s = (if ae_shutdown s then Inl RuntimeError else Inr (s\<lparr>ae_waiting := ae_waiting s @ [w]\<rparr>))"

definition submit_acquired :: "('k, 'p) async_engine \<Rightarrow> ('k, 'p) async_engine option" where
  "submit_acquired s =
     (case ae_waiting s of
        w # ws \<Rightarrow>
          if ae_permits s > 0
          then Some (s\<lparr>ae_permits := ae_permits s - 1, ae_waiting := ws, ae_running := ae_running s @ [w]\<rparr>)
          else None
      | [] \<Rightarrow> None)"

definition task_finishes ::
  "exec_config \<Rightarrow> (int \<Rightarrow> attempt_outcome) \<Rightarrow> (int \<Rightarrow> real) \<Rightarrow> ('k, 'p) work_item
    \<Rightarrow> ('k, 'p) async_engine \<Rightarrow> ('k, 'p) async_engine" where
  "task_finishes cfg worker jitter w s =
     s\<lparr>ae_running := remove1 w (ae_running s), ae_ended := ae_ended s @ [w],
       ae_completion_queue := ae_completion_queue s @ [fst (execute_worker_task cfg worker jitter w)]\<rparr>"

definition task_cancelled :: "('k, 'p) work_item \<Rightarrow> ('k, 'p) async_engine \<Rightarrow> ('k, 'p) async_engine" where
  "task_cancelled w s = s\<lparr>ae_running := remove1 w (ae_running s), ae_ended := ae_ended s @ [w]\<rparr>"

definition task_done_callback :: "('k, 'p) work_item \<Rightarrow> ('k, 'p) async_engine \<Rightarrow> ('k, 'p) async_engine" where
  "task_done_callback w s = s\<lparr>ae_ended := remove1 w (ae_ended s), ae_permits := ae_permits s + 1\<rparr>"

definition async_poll_completed_events ::
  "int \<Rightarrow> ('k, 'p) async_engine \<Rightarrow> completion_event list \<times> ('k, 'p) async_engine" where
  "async_poll_completed_events batch_limit s =
     (let n = nat batch_limit;
          taken = take n (ae_prefetched_completion_events s);
          m = n - length taken
      in (taken @ take m (ae_completion_queue s),
          s\<lparr>ae_prefetched_completion_events := drop n (ae_prefetched_completion_events s),
            ae_completion_queue := drop m (ae_completion_queue s)\<rparr>))"

text \<open>\<open>wait_for_completion\<close>: the answer when nothing has to be waited for, and a waiting call that gets an event.\<close>

definition completion_ready :: "('k, 'p) async_engine \<Rightarrow> bool" where
  "completion_ready s \<longleftrightarrow> ae_prefetched_completion_events s \<noteq> [] \<or> ae_completion_queue s \<noteq> []"

definition wait_got_event :: "('k, 'p) async_engine \<Rightarrow> ('k, 'p) async_engine option" where
  "wait_got_event s =
     (case ae_completion_queue s of
        [] \<Rightarrow> None
      | e # es \<Rightarrow> Some (s\<lparr>ae_completion_queue := es,
                         ae_prefetched_completion_events := ae_prefetched_completion_events s @ [e]\<rparr>))"

section \<open>Runs\<close>

text \<open>
  Every interleaving. The ghosts: the items submitted, the items whose task was cancelled, the
  events put so far and the events handed out.
\<close>

record ('k, 'p) async_history =
  ah_submitted :: "('k, 'p) work_item list"
  ah_cancelled :: "('k, 'p) work_item list"
  ah_put :: "completion_event list"
  ah_returned :: "completion_event list"

inductive async_run :: "exec_config \<Rightarrow> ('k, 'p) async_engine \<Rightarrow> ('k, 'p) async_history \<Rightarrow> bool"
  for cfg :: exec_config where
  ar_init: "async_engine_init cfg = Inr s
    \<Longrightarrow> async_run cfg s \<lparr>ah_submitted = [], ah_cancelled = [], ah_put = [], ah_returned = []\<rparr>"
| ar_enter: "async_run cfg s h \<Longrightarrow> submit_enter w s = Inr s'
    \<Longrightarrow> async_run cfg s' (h\<lparr>ah_submitted := ah_submitted h @ [w]\<rparr>)"
| ar_acquired: "async_run cfg s h \<Longrightarrow> submit_acquired s = Some s' \<Longrightarrow> async_run cfg s' h"
| ar_finishes: "async_run cfg s h \<Longrightarrow> w \<in> set (ae_running s)
    \<Longrightarrow> async_run cfg (task_finishes cfg worker jitter w s)
          (h\<lparr>ah_put := ah_put h @ [fst (execute_worker_task cfg worker jitter w)]\<rparr>)"
| ar_cancelled: "async_run cfg s h \<Longrightarrow> w \<in> set (ae_running s)
    \<Longrightarrow> async_run cfg (task_cancelled w s) (h\<lparr>ah_cancelled := ah_cancelled h @ [w]\<rparr>)"
| ar_callback: "async_run cfg s h \<Longrightarrow> w \<in> set (ae_ended s) \<Longrightarrow> async_run cfg (task_done_callback w s) h"
| ar_poll: "async_run cfg s h \<Longrightarrow> async_poll_completed_events limit s = (events, s')
    \<Longrightarrow> async_run cfg s' (h\<lparr>ah_returned := ah_returned h @ events\<rparr>)"
| ar_wait: "async_run cfg s h \<Longrightarrow> wait_got_event s = Some s' \<Longrightarrow> async_run cfg s' h"
| ar_shutdown: "async_run cfg s h \<Longrightarrow> async_run cfg (s\<lparr>ae_shutdown := True\<rparr>) h"

section \<open>Invariants of a run\<close>

definition item_identity :: "('k, 'p) work_item \<Rightarrow> string \<times> topic_partition \<times> int \<times> int" where
  "item_identity w = (wi_id w, wi_tp w, wi_offset w, wi_epoch w)"

definition event_identity :: "completion_event \<Rightarrow> string \<times> topic_partition \<times> int \<times> int" where
  "event_identity e = (ce_id e, ce_tp e, ce_offset e, ce_epoch e)"

lemma event_identity_task [simp]:
  "event_identity (fst (execute_worker_task cfg worker jitter w)) = item_identity w"
  by (simp add: execute_worker_task_def event_identity_def item_identity_def split_beta)

definition async_inv :: "exec_config \<Rightarrow> ('k, 'p) async_engine \<Rightarrow> ('k, 'p) async_history \<Rightarrow> bool" where
  "async_inv cfg s h \<longleftrightarrow>
     0 \<le> ae_permits s \<and> ae_permits s + get_in_flight_count s = ex_max_in_flight cfg \<and>
     ah_put h = ah_returned h @ ae_prefetched_completion_events s @ ae_completion_queue s \<and>
     image_mset item_identity (mset (ah_submitted h)) =
       image_mset item_identity (mset (ae_waiting s @ ae_running s @ ah_cancelled h)) +
       image_mset event_identity (mset (ah_put h))"

lemma remove1_length: "w \<in> set ws \<Longrightarrow> length ws = Suc (length (remove1 w ws))"
  by (simp add: length_remove1) (metis length_pos_if_in_set Suc_pred)

lemma remove1_mset: "w \<in> set ws \<Longrightarrow> image_mset f (mset ws) = add_mset (f w) (image_mset f (mset (remove1 w ws)))"
  by (simp flip: image_mset_add_mset)

lemma poll_splits:
  "async_poll_completed_events limit s = (events, s') \<Longrightarrow>
     events @ ae_prefetched_completion_events s' @ ae_completion_queue s' =
       ae_prefetched_completion_events s @ ae_completion_queue s"
  by (cases "length (ae_prefetched_completion_events s) \<le> nat limit")
    (auto simp: async_poll_completed_events_def Let_def)

lemma async_run_inv: "async_run cfg s h \<Longrightarrow> async_inv cfg s h"
proof (induction rule: async_run.induct)
  case (ar_init s)
  then show ?case
    by (auto simp: async_engine_init_def async_inv_def get_in_flight_count_def split: if_splits)
next
  case (ar_enter s h w s')
  then show ?case
    by (auto simp: async_inv_def submit_enter_def get_in_flight_count_def split: if_splits)
next
  case (ar_acquired s h s')
  then show ?case
    by (auto simp: async_inv_def submit_acquired_def get_in_flight_count_def split: list.splits if_splits)
next
  case (ar_finishes s h w worker jitter)
  then show ?case
    using remove1_length[OF ar_finishes(2)] remove1_mset[OF ar_finishes(2), of item_identity]
    by (simp add: async_inv_def task_finishes_def get_in_flight_count_def del: mset_remove1)
next
  case (ar_cancelled s h w)
  then show ?case
    using remove1_length[OF ar_cancelled(2)] remove1_mset[OF ar_cancelled(2), of item_identity]
    by (simp add: async_inv_def task_cancelled_def get_in_flight_count_def del: mset_remove1)
next
  case (ar_callback s h w)
  then show ?case
    using remove1_length[OF ar_callback(2)]
    by (simp add: async_inv_def task_done_callback_def get_in_flight_count_def)
next
  case (ar_poll s h limit events s')
  have "ae_permits s' = ae_permits s" "get_in_flight_count s' = get_in_flight_count s"
      "ae_waiting s' = ae_waiting s" "ae_running s' = ae_running s"
    using ar_poll(2) by (auto simp: async_poll_completed_events_def get_in_flight_count_def Let_def)
  with ar_poll.IH poll_splits[OF ar_poll(2)] show ?case by (simp add: async_inv_def)
next
  case (ar_wait s h s')
  then show ?case
    by (auto simp: async_inv_def wait_got_event_def get_in_flight_count_def split: list.splits)
next
  case (ar_shutdown s h)
  then show ?case by (simp add: async_inv_def get_in_flight_count_def)
qed

section \<open>The attempts\<close>

lemma attempt_loop_success:
  "\<lbrakk>j \<le> k; k \<le> ex_max_retries cfg; worker k = Returned; \<forall>i. j \<le> i \<and> i < k \<longrightarrow> worker i \<noteq> Returned\<rbrakk> \<Longrightarrow>
     attempt_loop cfg worker jitter offset j locals =
       ((SUCCESS, None, k), map (apply_backoff cfg jitter) [j..k - 1])"
proof (induction "nat (k - j)" arbitrary: j locals)
  case 0
  then have "j = k" by simp
  then show ?case using 0 by (simp add: attempt_loop.simps)
next
  case (Suc n)
  then have j: "j < k" "worker j \<noteq> Returned" by auto
  have "attempt_loop cfg worker jitter offset (j + 1) l =
      ((SUCCESS, None, k), map (apply_backoff cfg jitter) [j + 1..k - 1])" for l
    using Suc j by (intro Suc.hyps(1)) auto
  moreover have "[j..k - 1] = j # [j + 1..k - 1]" using j(1) by (simp add: upto.simps)
  ultimately show ?case using j Suc.prems by (simp add: attempt_loop.simps[of cfg worker jitter offset j])
qed

lemma attempt_loop_failure:
  "\<lbrakk>j \<le> ex_max_retries cfg; \<forall>i. j \<le> i \<and> i \<le> ex_max_retries cfg \<longrightarrow> worker i \<noteq> Returned\<rbrakk> \<Longrightarrow>
     attempt_loop cfg worker jitter offset j locals =
       ((FAILURE, attempt_error offset (worker (ex_max_retries cfg)), ex_max_retries cfg),
        map (apply_backoff cfg jitter) [j..ex_max_retries cfg - 1])"
proof (induction "nat (ex_max_retries cfg - j)" arbitrary: j locals)
  case 0
  then have "j = ex_max_retries cfg" by simp
  then show ?case using 0 by (simp add: attempt_loop.simps)
next
  case (Suc n)
  then have j: "j < ex_max_retries cfg" "worker j \<noteq> Returned" by auto
  have "attempt_loop cfg worker jitter offset (j + 1) l =
      ((FAILURE, attempt_error offset (worker (ex_max_retries cfg)), ex_max_retries cfg),
        map (apply_backoff cfg jitter) [j + 1..ex_max_retries cfg - 1])" for l
    using Suc j by (intro Suc.hyps(1)) auto
  moreover have "[j..ex_max_retries cfg - 1] = j # [j + 1..ex_max_retries cfg - 1]" using j(1) by (simp add: upto.simps)
  ultimately show ?case using j by (simp add: attempt_loop.simps[of cfg worker jitter offset j])
qed

section \<open>Properties\<close>

text \<open>
  An async task retries as configured and reports truthfully: with at least one attempt
  allowed, its event is a success exactly when an attempt returned, and then names the first
  such attempt and no error; otherwise all attempts were made and it is a failure with the
  error of the last. Between attempts it sleeps once, as long as the backoff says.
\<close>

theorem async_event_exact:
  assumes "1 \<le> ex_max_retries cfg" and "(e, sleeps) = execute_worker_task cfg worker jitter w"
  shows "event_identity e = item_identity w \<and> sleeps = map (apply_backoff cfg jitter) [1..ce_attempt e - 1] \<and>
    1 \<le> ce_attempt e \<and> ce_attempt e \<le> ex_max_retries cfg \<and>
    (\<forall>i. 1 \<le> i \<and> i < ce_attempt e \<longrightarrow> worker i \<noteq> Returned) \<and>
    (if worker (ce_attempt e) = Returned then ce_status e = SUCCESS \<and> ce_error e = None
     else ce_status e = FAILURE \<and> ce_attempt e = ex_max_retries cfg \<and>
          ce_error e = attempt_error (wi_offset w) (worker (ex_max_retries cfg)))"
proof (cases "\<exists>k. 1 \<le> k \<and> k \<le> ex_max_retries cfg \<and> worker k = Returned")
  case True
  then obtain n where n: "1 \<le> int n \<and> int n \<le> ex_max_retries cfg \<and> worker (int n) = Returned"
    by (metis nat_int_comparison(3) zero_le_imp_eq_int zle_int order_trans zero_le_one)
  define m where "m = (LEAST n. 1 \<le> int n \<and> int n \<le> ex_max_retries cfg \<and> worker (int n) = Returned)"
  have m: "1 \<le> int m \<and> int m \<le> ex_max_retries cfg \<and> worker (int m) = Returned"
    unfolding m_def by (rule LeastI[of _ n]) (rule n)
  have before: "\<forall>i. 1 \<le> i \<and> i < int m \<longrightarrow> worker i \<noteq> Returned"
  proof (intro allI impI notI)
    fix i assume i: "1 \<le> i \<and> i < int m" "worker i = Returned"
    then have "1 \<le> int (nat i) \<and> int (nat i) \<le> ex_max_retries cfg \<and> worker (int (nat i)) = Returned" using m by simp
    then have "m \<le> nat i" unfolding m_def by (rule Least_le)
    then show False using i(1) by linarith
  qed
  have "attempt_loop cfg worker jitter (wi_offset w) 1 (SUCCESS, None, 0) =
      ((SUCCESS, None, int m), map (apply_backoff cfg jitter) [1..int m - 1])"
    using m before by (intro attempt_loop_success) auto
  then show ?thesis
    using assms m before by (simp add: execute_worker_task_def event_identity_def item_identity_def)
next
  case False
  then have "attempt_loop cfg worker jitter (wi_offset w) 1 (SUCCESS, None, 0) =
      ((FAILURE, attempt_error (wi_offset w) (worker (ex_max_retries cfg)), ex_max_retries cfg),
        map (apply_backoff cfg jitter) [1..ex_max_retries cfg - 1])"
    using assms(1) by (intro attempt_loop_failure) auto
  then show ?thesis
    using assms False by (auto simp: execute_worker_task_def event_identity_def item_identity_def)
qed

text \<open>
  C33. The async engine neither loses nor invents work, over every interleaving of submissions,
  tasks, cancellations, callbacks, polls and waits: each submitted item waits, runs, was
  cancelled or has put exactly one event; the events handed out, prefetched and queued are, in
  this order, the events put; and the permits of the semaphore and the tasks in flight always
  add up to the limit, so never more tasks than that are in flight.
\<close>

theorem async_engine_conserves:
  assumes "async_run cfg s h"
  shows "image_mset item_identity (mset (ah_submitted h)) =
      image_mset item_identity (mset (ae_waiting s @ ae_running s @ ah_cancelled h)) +
      image_mset event_identity (mset (ah_put h)) \<and>
    ah_put h = ah_returned h @ ae_prefetched_completion_events s @ ae_completion_queue s \<and>
    ae_permits s + get_in_flight_count s = ex_max_in_flight cfg \<and>
    0 \<le> ae_permits s \<and> get_in_flight_count s \<le> ex_max_in_flight cfg"
  using async_run_inv[OF assms] by (simp add: async_inv_def)

text \<open>
  With no attempt allowed, which the configuration accepts, the worker is not called and the
  item is reported as a success.
\<close>

lemma async_zero_retries_succeeds:
  "ex_max_retries cfg \<le> 0 \<Longrightarrow> ce_status (fst (execute_worker_task cfg worker jitter w)) = SUCCESS"
  by (simp add: execute_worker_task_def attempt_loop.simps)

section \<open>A concrete task\<close>

text \<open>Three attempts at most; the first raises, the second times out, the third returns.\<close>

definition demo_exec :: exec_config where
  "demo_exec = \<lparr>ex_max_retries = 3, ex_retry_backoff_ms = 1000, ex_exponential_backoff = True,
     ex_max_retry_backoff_ms = 30000, ex_retry_jitter_ms = 0, ex_max_in_flight = 2\<rparr>"

definition demo_attempts :: "int \<Rightarrow> attempt_outcome" where
  "demo_attempts k = (if k = 1 then Raised ''boom'' else if k = 2 then TimedOut else Returned)"

definition demo_task :: "(nat, nat) work_item" where
  "demo_task = \<lparr>wi_id = ''w'', wi_tp = TopicPartition ''t'' 0, wi_offset = 7, wi_epoch = 1, wi_key = 0, wi_payload = 0,
     wi_requeue_attempts = 0, wi_poison_key = None\<rparr>"

definition demo_task_event :: completion_event where
  "demo_task_event = \<lparr>ce_id = ''w'', ce_tp = TopicPartition ''t'' 0, ce_offset = 7, ce_epoch = 1,
     ce_status = SUCCESS, ce_error = None, ce_attempt = 3\<rparr>"

lemma demo_task_runs:
  "execute_worker_task demo_exec demo_attempts (\<lambda>k. 0) demo_task = (demo_task_event, [1, 2])"
  by (simp add: execute_worker_task_def attempt_loop.simps demo_exec_def demo_attempts_def demo_task_def
      demo_task_event_def apply_backoff_def)

theorem async_event_exact_witness:
  "ce_status demo_task_event = SUCCESS \<and> ce_attempt demo_task_event = 3 \<and> demo_attempts 1 \<noteq> Returned \<and>
   demo_attempts 2 \<noteq> Returned \<and> [1, 2] = map (apply_backoff demo_exec (\<lambda>k. 0)) [1..2]"
  using async_event_exact[of demo_exec, OF _ demo_task_runs[symmetric]]
  by (simp add: demo_exec_def demo_task_event_def demo_attempts_def)

theorem async_engine_conserves_witness:
  "\<exists>s h. async_run demo_exec s h \<and> ah_submitted h = [demo_task] \<and> ah_put h = [demo_task_event] \<and>
     get_in_flight_count s = 1 \<and> ae_permits s + get_in_flight_count s = 2 \<and>
     ah_put h = ah_returned h @ ae_prefetched_completion_events s @ ae_completion_queue s"
proof -
  define s0 :: "(nat, nat) async_engine" where "s0 = \<lparr>ae_permits = 2, ae_waiting = [], ae_running = [], ae_ended = [],
      ae_completion_queue = [], ae_prefetched_completion_events = [], ae_shutdown = False\<rparr>"
  define s1 where "s1 = s0\<lparr>ae_waiting := [demo_task]\<rparr>"
  define s2 where "s2 = s1\<lparr>ae_permits := 1, ae_waiting := [], ae_running := [demo_task]\<rparr>"
  define s3 where "s3 = task_finishes demo_exec demo_attempts (\<lambda>k. 0) demo_task s2"
  let ?h0 = "\<lparr>ah_submitted = [], ah_cancelled = [], ah_put = [], ah_returned = []\<rparr> :: (nat, nat) async_history"
  have "async_run demo_exec s0 ?h0" by (rule ar_init) (simp add: async_engine_init_def demo_exec_def s0_def)
  then have "async_run demo_exec s1 (?h0\<lparr>ah_submitted := ah_submitted ?h0 @ [demo_task]\<rparr>)"
    by (rule ar_enter) (simp add: submit_enter_def s0_def s1_def)
  then have "async_run demo_exec s2 (?h0\<lparr>ah_submitted := ah_submitted ?h0 @ [demo_task]\<rparr>)"
    by (rule ar_acquired) (simp add: submit_acquired_def s0_def s1_def s2_def)
  from ar_finishes[OF this, of demo_task demo_attempts "\<lambda>k. 0"]
  have run: "async_run demo_exec s3 \<lparr>ah_submitted = [demo_task], ah_cancelled = [], ah_put = [demo_task_event], ah_returned = []\<rparr>"
    by (simp add: s3_def s2_def demo_task_runs)
  have c: "get_in_flight_count s3 = 1" by (simp add: s3_def s2_def s1_def s0_def task_finishes_def get_in_flight_count_def)
  show ?thesis
    using async_engine_conserves[OF run] run c
    by (intro exI[of _ s3] exI[of _ "\<lparr>ah_submitted = [demo_task], ah_cancelled = [], ah_put = [demo_task_event], ah_returned = []\<rparr>"])
      (simp add: demo_exec_def)
qed

end
