(* ===== verification/Process_Codec.thy ===== *)
theory Process_Codec
  imports Complex_Main Dto "HOL-Library.Word"
begin

text \<open>
  \<open>execution_plane/process_codec.py\<close>: the wire format between the parent and its worker
  processes, and \<open>_decode_completion_queue_item_events\<close> of \<open>process_engine.py\<close>.

  The code reads untyped dictionaries, so the model has a datatype of the values a message can
  hold and dataclass instances whose fields are such values; every lookup that raises is an error
  value. \<open>msgpack\<close> is a parameter: a \<open>packer\<close> with a type of byte strings, their length,
  \<open>packb\<close>, and what an \<open>Unpacker\<close> yields for a string. What is assumed of it is that unpacking
  what was packed yields that one value, with tuples turned into lists. Instances of \<open>WorkItem\<close>
  inside a value are left out, they never cross a pipe. Theorems: what a worker decodes is what
  the parent packed, for plain and for route batches, and the same for completions on the way
  back; oversized payloads are refused.
\<close>

section \<open>Values\<close>

datatype py_value =
    PNone
  | PBool bool
  | PInt int
  | PFloat real
  | PStr string
  | PBytes "8 word list"
  | PList "py_value list"
  | PTuple "py_value list"
  | PDict "(py_value \<times> py_value) list"

type_synonym pdict = "(py_value, py_value) dict"

definition py_bind :: "py_error + 'a \<Rightarrow> ('a \<Rightarrow> py_error + 'b) \<Rightarrow> py_error + 'b" where
  "py_bind r f = (case r of Inl e \<Rightarrow> Inl e | Inr x \<Rightarrow> f x)"

fun py_map :: "('a \<Rightarrow> py_error + 'b) \<Rightarrow> 'a list \<Rightarrow> py_error + 'b list" where
  "py_map f [] = Inr []"
| "py_map f (x # xs) = py_bind (f x) (\<lambda>y. py_bind (py_map f xs) (\<lambda>ys. Inr (y # ys)))"

definition field_get :: "pdict \<Rightarrow> string \<Rightarrow> py_value option" where
  "field_get d k = dict_get d (PStr k)"

definition field_index :: "pdict \<Rightarrow> string \<Rightarrow> py_error + py_value" where
  "field_index d k = (case field_get d k of None \<Rightarrow> Inl KeyError | Some v \<Rightarrow> Inr v)"

definition field_default :: "pdict \<Rightarrow> string \<Rightarrow> py_value \<Rightarrow> py_value" where
  "field_default d k v = (case field_get d k of None \<Rightarrow> v | Some x \<Rightarrow> x)"

text \<open>\<open>dict(v)\<close>: a copy of a dictionary, or a dictionary from a sequence of pairs.\<close>

fun hashable :: "py_value \<Rightarrow> bool" where
  "hashable (PList vs) = False"
| "hashable (PDict d) = False"
| "hashable (PTuple vs) = list_all hashable vs"
| "hashable v = True"

fun iterate :: "py_value \<Rightarrow> py_error + py_value list" where
  "iterate (PList vs) = Inr vs"
| "iterate (PTuple vs) = Inr vs"
| "iterate (PDict d) = Inr (map fst d)"
| "iterate (PStr s) = Inr (map (\<lambda>c. PStr [c]) s)"
| "iterate (PBytes bs) = Inr (map (\<lambda>b. PInt (uint b)) bs)"
| "iterate v = Inl TypeError"

definition dict_pair :: "py_value \<Rightarrow> py_error + py_value \<times> py_value" where
  "dict_pair v =
     py_bind (iterate v) (\<lambda>vs.
       if length vs \<noteq> 2 then Inl ValueError
       else if \<not> hashable (vs ! 0) then Inl TypeError else Inr (vs ! 0, vs ! 1))"

fun dict_of :: "py_value \<Rightarrow> py_error + pdict" where
  "dict_of (PDict d) = Inr d"
| "dict_of v =
     py_bind (iterate v) (\<lambda>vs. py_bind (py_map dict_pair vs) (\<lambda>ps. Inr (fold (\<lambda>(k, x). dict_set k x) ps [])))"

section \<open>Work items and events\<close>

record py_work_item =
  pw_id :: py_value
  pw_topic :: py_value
  pw_partition :: py_value
  pw_offset :: py_value
  pw_epoch :: py_value
  pw_key :: py_value
  pw_payload :: py_value
  pw_requeue_attempts :: py_value
  pw_poison_key :: "py_value option"

record py_completion_event =
  pe_id :: py_value
  pe_topic :: py_value
  pe_partition :: py_value
  pe_offset :: py_value
  pe_epoch :: py_value
  pe_status :: completion_status
  pe_error :: py_value
  pe_attempt :: py_value

record route_batch =
  rb_batch_id :: py_value
  rb_route_identity :: "py_value list"
  rb_worker_index :: py_value
  rb_items :: "py_work_item list"

record batch_completion =
  bc_batch_id :: py_value
  bc_route_identity :: "py_value list"
  bc_results :: "py_completion_event list"

definition work_item_to_dict :: "py_work_item \<Rightarrow> pdict" where
  "work_item_to_dict item =
     [(PStr ''id'', pw_id item), (PStr ''topic'', pw_topic item), (PStr ''partition'', pw_partition item),
      (PStr ''offset'', pw_offset item), (PStr ''epoch'', pw_epoch item), (PStr ''key'', pw_key item),
      (PStr ''payload'', pw_payload item), (PStr ''requeue_attempts'', pw_requeue_attempts item)] @
     (case pw_poison_key item of None \<Rightarrow> [] | Some k \<Rightarrow> [(PStr ''poison_key'', k)])"

definition work_item_from_dict :: "pdict \<Rightarrow> py_error + py_work_item" where
  "work_item_from_dict payload =
     py_bind (field_index payload ''id'') (\<lambda>i.
     py_bind (field_index payload ''topic'') (\<lambda>t.
     py_bind (field_index payload ''partition'') (\<lambda>p.
     py_bind (field_index payload ''offset'') (\<lambda>off.
     py_bind (field_index payload ''epoch'') (\<lambda>ep.
       Inr \<lparr>pw_id = i, pw_topic = t, pw_partition = p, pw_offset = off, pw_epoch = ep,
            pw_key = field_default payload ''key'' PNone,
            pw_payload = field_default payload ''payload'' PNone,
            pw_requeue_attempts = field_default payload ''requeue_attempts'' (PInt 0),
            pw_poison_key = field_get payload ''poison_key''\<rparr>)))))"

definition work_item_identity_payload :: "pdict \<Rightarrow> py_error + pdict" where
  "work_item_identity_payload payload =
     py_map (\<lambda>k. py_bind (field_index payload k) (\<lambda>v. Inr (PStr k, v)))
       [''id'', ''topic'', ''partition'', ''offset'', ''epoch'']"

fun status_value :: "completion_status \<Rightarrow> py_value" where
  "status_value SUCCESS = PStr ''success''"
| "status_value FAILURE = PStr ''failure''"

definition status_of_value :: "py_value \<Rightarrow> py_error + completion_status" where
  "status_of_value v =
     (if v = PStr ''success'' then Inr SUCCESS
      else if v = PStr ''failure'' then Inr FAILURE else Inl ValueError)"

definition completion_event_to_dict :: "py_completion_event \<Rightarrow> pdict \<Rightarrow> pdict" where
  "completion_event_to_dict event extra_fields =
     fold (\<lambda>(k, v). dict_set k v) extra_fields
       [(PStr ''id'', pe_id event), (PStr ''topic'', pe_topic event), (PStr ''partition'', pe_partition event),
        (PStr ''offset'', pe_offset event), (PStr ''epoch'', pe_epoch event),
        (PStr ''status'', status_value (pe_status event)), (PStr ''error'', pe_error event),
        (PStr ''attempt'', pe_attempt event)]"

definition completion_event_from_dict :: "pdict \<Rightarrow> py_error + py_completion_event" where
  "completion_event_from_dict payload =
     py_bind (field_index payload ''id'') (\<lambda>i.
     py_bind (field_index payload ''topic'') (\<lambda>t.
     py_bind (field_index payload ''partition'') (\<lambda>p.
     py_bind (field_index payload ''offset'') (\<lambda>off.
     py_bind (field_index payload ''epoch'') (\<lambda>ep.
     py_bind (field_index payload ''status'') (\<lambda>sv.
     py_bind (status_of_value sv) (\<lambda>st.
     py_bind (field_index payload ''attempt'') (\<lambda>a.
       Inr \<lparr>pe_id = i, pe_topic = t, pe_partition = p, pe_offset = off, pe_epoch = ep, pe_status = st,
            pe_error = field_default payload ''error'' PNone, pe_attempt = a\<rparr>))))))))"

section \<open>Batches\<close>

text \<open>\<open>k in v\<close> for a string \<open>k\<close>: a key of a dictionary, an element of a sequence, a part of a text.\<close>

fun contains_text :: "string \<Rightarrow> string \<Rightarrow> bool" where
  "contains_text k [] = (k = [])"
| "contains_text k (c # s) = (take (length k) (c # s) = k \<or> contains_text k s)"

fun field_in :: "string \<Rightarrow> py_value \<Rightarrow> py_error + bool" where
  "field_in k (PDict d) = Inr (field_get d k \<noteq> None)"
| "field_in k (PList vs) = Inr (PStr k \<in> set vs)"
| "field_in k (PTuple vs) = Inr (PStr k \<in> set vs)"
| "field_in k (PStr s) = Inr (contains_text k s)"
| "field_in k v = Inl TypeError"

definition require_fields :: "py_value \<Rightarrow> string list \<Rightarrow> py_error + unit" where
  "require_fields payload required_fields =
     py_bind (py_map (\<lambda>k. field_in k payload) required_fields) (\<lambda>present.
       if list_all id present then Inr () else Inl ValueError)"

definition require_non_empty_list :: "py_value \<Rightarrow> py_error + py_value list" where
  "require_non_empty_list v =
     (case v of PList vs \<Rightarrow> if vs = [] then Inl ValueError else Inr vs | _ \<Rightarrow> Inl ValueError)"

definition require_sequence :: "py_value \<Rightarrow> py_error + py_value list" where
  "require_sequence v = (case v of PList vs \<Rightarrow> Inr vs | PTuple vs \<Rightarrow> Inr vs | _ \<Rightarrow> Inl ValueError)"

text \<open>
  Where a dictionary is expected: anything else fails in the first subscript with a \<open>TypeError\<close>,
  or in the call of \<open>get\<close> with an \<open>AttributeError\<close>.
\<close>

definition as_dict :: "py_value \<Rightarrow> py_error + pdict" where
  "as_dict v = (case v of PDict d \<Rightarrow> Inr d | _ \<Rightarrow> Inl TypeError)"

definition with_get :: "py_value \<Rightarrow> py_error + pdict" where
  "with_get v = (case v of PDict d \<Rightarrow> Inr d | _ \<Rightarrow> Inl AttributeError)"

definition route_batch_to_dict :: "route_batch \<Rightarrow> pdict" where
  "route_batch_to_dict batch =
     [(PStr ''batch_id'', rb_batch_id batch), (PStr ''route_identity'', PList (rb_route_identity batch)),
      (PStr ''worker_index'', rb_worker_index batch),
      (PStr ''items'', PList (map (PDict \<circ> work_item_to_dict) (rb_items batch)))]"

definition route_batch_from_dict :: "py_value \<Rightarrow> py_error + route_batch" where
  "route_batch_from_dict v =
     py_bind (require_fields v [''batch_id'', ''route_identity'', ''items'']) (\<lambda>_.
     py_bind (as_dict v) (\<lambda>payload.
     py_bind (field_index payload ''route_identity'') (\<lambda>ri.
     py_bind (require_sequence ri) (\<lambda>route_identity.
     py_bind (field_index payload ''items'') (\<lambda>iv.
     py_bind (require_non_empty_list iv) (\<lambda>items.
     py_bind (field_index payload ''batch_id'') (\<lambda>batch_id.
     py_bind (py_map (\<lambda>v. py_bind (as_dict v) work_item_from_dict) items) (\<lambda>ws.
       Inr \<lparr>rb_batch_id = batch_id, rb_route_identity = route_identity,
            rb_worker_index = field_default payload ''worker_index'' PNone, rb_items = ws\<rparr>))))))))"

definition batch_completion_to_dict :: "batch_completion \<Rightarrow> pdict" where
  "batch_completion_to_dict completion =
     [(PStr ''batch_id'', bc_batch_id completion), (PStr ''route_identity'', PList (bc_route_identity completion)),
      (PStr ''results'', PList (map (\<lambda>e. PDict (completion_event_to_dict e [])) (bc_results completion)))]"

definition batch_completion_from_dict :: "py_value \<Rightarrow> py_error + batch_completion" where
  "batch_completion_from_dict v =
     py_bind (require_fields v [''batch_id'', ''route_identity'', ''results'']) (\<lambda>_.
     py_bind (as_dict v) (\<lambda>payload.
     py_bind (field_index payload ''route_identity'') (\<lambda>ri.
     py_bind (require_sequence ri) (\<lambda>route_identity.
     py_bind (field_index payload ''results'') (\<lambda>rv.
     py_bind (require_non_empty_list rv) (\<lambda>results.
     py_bind (field_index payload ''batch_id'') (\<lambda>batch_id.
     py_bind (py_map (\<lambda>v. py_bind (as_dict v) completion_event_from_dict) results) (\<lambda>es.
       Inr \<lparr>bc_batch_id = batch_id, bc_route_identity = route_identity, bc_results = es\<rparr>))))))))"

section \<open>Envelopes\<close>

record 'b packer =
  mp_len :: "'b \<Rightarrow> nat"
  mp_packb :: "py_value \<Rightarrow> py_error + 'b"
  mp_unpack :: "int \<Rightarrow> 'b \<Rightarrow> py_error + py_value list"

definition serialize_batch_completion_payload ::
  "'b packer \<Rightarrow> batch_completion \<Rightarrow> real \<Rightarrow> py_error + 'b" where
  "serialize_batch_completion_payload M completion completion_enqueued_at =
     mp_packb M (PDict [(PStr ''kind'', PStr ''batch_completion''),
       (PStr ''completion'', PDict (batch_completion_to_dict completion)),
       (PStr ''timing'', PDict [(PStr ''completion_enqueued_at'', PFloat completion_enqueued_at)])])"

datatype pipe_payload = WorkItems "py_work_item list" | RouteBatch route_batch

definition serialize_worker_pipe_payload :: "'b packer \<Rightarrow> pipe_payload \<Rightarrow> real \<Rightarrow> py_error + 'b" where
  "serialize_worker_pipe_payload M payload flush_enqueued_at =
     (let timing = PDict [(PStr ''flush_enqueued_at'', PFloat flush_enqueued_at)]
      in mp_packb M (case payload of
           RouteBatch batch \<Rightarrow>
             PDict [(PStr ''kind'', PStr ''route_batch''), (PStr ''batch'', PDict (route_batch_to_dict batch)),
                    (PStr ''timing'', timing)]
         | WorkItems items \<Rightarrow>
             PDict [(PStr ''kind'', PStr ''work_items''), (PStr ''items'', PList (map (PDict \<circ> work_item_to_dict) items)),
                    (PStr ''timing'', timing)]))"

definition decode_msgpack_payload :: "'b packer \<Rightarrow> int \<Rightarrow> 'b \<Rightarrow> py_error + py_value" where
  "decode_msgpack_payload M max_bytes item =
     (if int (mp_len M item) > max_bytes then Inl ValueError
      else py_bind (mp_unpack M max_bytes item) (\<lambda>decoded_items.
        case decoded_items of [v] \<Rightarrow> Inr v | _ \<Rightarrow> Inr (PList decoded_items)))"

text \<open>What a queue or pipe delivers: bytes, or a value as it is.\<close>

datatype 'b raw_item = RawBytes 'b | RawValue py_value

definition decode_raw :: "'b packer \<Rightarrow> int \<Rightarrow> 'b raw_item \<Rightarrow> py_error + py_value" where
  "decode_raw M max_bytes item =
     (case item of RawBytes b \<Rightarrow> decode_msgpack_payload M max_bytes b | RawValue v \<Rightarrow> Inr v)"

definition decode_batch_completion_payload :: "'b packer \<Rightarrow> 'b raw_item \<Rightarrow> int \<Rightarrow> py_error + pdict" where
  "decode_batch_completion_payload M item max_bytes =
     py_bind (decode_raw M max_bytes item) (\<lambda>decoded.
       case decoded of
         PDict d \<Rightarrow> if field_get d ''kind'' = Some (PStr ''batch_completion'') then Inr d else Inl ValueError
       | _ \<Rightarrow> Inl ValueError)"

definition decode_worker_pipe_payload :: "'b packer \<Rightarrow> 'b raw_item \<Rightarrow> int \<Rightarrow> py_error + pdict" where
  "decode_worker_pipe_payload M item max_bytes =
     py_bind (decode_raw M max_bytes item) (\<lambda>decoded.
       case decoded of
         PDict d \<Rightarrow>
           (let kind = field_default d ''kind'' PNone
            in if kind = PNone then
                 if field_get d ''items'' \<noteq> None then Inr (dict_set (PStr ''kind'') (PStr ''work_items'') d)
                 else Inr [(PStr ''kind'', PStr ''work_items''), (PStr ''items'', PList [PDict d]), (PStr ''timing'', PDict [])]
               else if \<not> hashable kind then Inl TypeError
               else if kind \<notin> {PStr ''work_items'', PStr ''route_batch''} then Inl ValueError
               else Inr d)
       | v \<Rightarrow>
           py_bind (iterate v) (\<lambda>entries.
           py_bind (py_map dict_of entries) (\<lambda>ds.
             Inr [(PStr ''kind'', PStr ''work_items''), (PStr ''items'', PList (map PDict ds)), (PStr ''timing'', PDict [])])))"

text \<open>The numeric entries of a timing dictionary, as floats.\<close>

fun float_of :: "py_value \<Rightarrow> real option" where
  "float_of (PInt i) = Some (real_of_int i)"
| "float_of (PFloat r) = Some r"
| "float_of (PBool b) = Some (if b then 1 else 0)"
| "float_of v = None"

definition timing_values :: "py_value \<Rightarrow> py_error + pdict" where
  "timing_values timing =
     py_bind (dict_of timing) (\<lambda>d.
       Inr (concat (map (\<lambda>(k, v). case float_of v of None \<Rightarrow> [] | Some r \<Rightarrow> [(k, PFloat r)]) d)))"

definition with_requeue_attempts :: "pdict \<Rightarrow> pdict" where
  "with_requeue_attempts payload =
     dict_set (PStr ''requeue_attempts'') (field_default payload ''requeue_attempts'' (PInt 0)) payload"

definition normalize_decoded_payloads :: "py_value \<Rightarrow> py_error + pdict list \<times> pdict" where
  "normalize_decoded_payloads decoded =
     (case decoded of
        PDict d \<Rightarrow>
          (let kind = field_default d ''kind'' PNone
           in if kind = PStr ''route_batch'' then
                py_bind (field_index d ''batch'') (\<lambda>bv.
                py_bind (route_batch_from_dict bv) (\<lambda>batch.
                py_bind (timing_values (field_default d ''timing'' (PDict []))) (\<lambda>timing.
                  Inr (map work_item_to_dict (rb_items batch),
                       dict_set (PStr ''route_identity'') (PTuple (rb_route_identity batch))
                         (dict_set (PStr ''route_batch_id'') (rb_batch_id batch) timing)))))
              else if kind \<noteq> PNone \<and> kind \<noteq> PStr ''work_items'' then Inl ValueError
              else if field_get d ''items'' \<noteq> None then
                py_bind (timing_values (field_default d ''timing'' (PDict []))) (\<lambda>timing.
                py_bind (iterate (field_default d ''items'' (PList []))) (\<lambda>entries.
                py_bind (py_map dict_of entries) (\<lambda>ds. Inr (ds, timing))))
              else Inr ([with_requeue_attempts d], []))
      | PList entries \<Rightarrow> py_bind (py_map dict_of entries) (\<lambda>ds. Inr (map with_requeue_attempts ds, []))
      | v \<Rightarrow> py_bind (dict_of v) (\<lambda>d. Inr ([with_requeue_attempts d], [])))"

definition decode_incoming_payloads :: "'b packer \<Rightarrow> 'b raw_item \<Rightarrow> int \<Rightarrow> py_error + pdict list \<times> pdict" where
  "decode_incoming_payloads M item max_bytes =
     py_bind (decode_raw M max_bytes item) normalize_decoded_payloads"

definition decode_incoming_item :: "'b packer \<Rightarrow> 'b raw_item \<Rightarrow> int \<Rightarrow> py_error + py_work_item list" where
  "decode_incoming_item M item max_bytes =
     py_bind (decode_incoming_payloads M item max_bytes) (\<lambda>r. py_map work_item_from_dict (fst r))"

text \<open>\<open>ProcessExecutionEngine._decode_completion_queue_item_events\<close>; the timing samples are left out.\<close>

datatype 'b queue_item = PackedCompletion 'b | EventObject py_completion_event

definition decode_completion_queue_item_events ::
  "'b packer \<Rightarrow> int \<Rightarrow> 'b queue_item \<Rightarrow> py_error + py_completion_event list" where
  "decode_completion_queue_item_events M max_bytes raw_event =
     (case raw_event of
        EventObject event \<Rightarrow> Inr [event]
      | PackedCompletion b \<Rightarrow>
          py_bind (decode_msgpack_payload M max_bytes b) (\<lambda>payload.
            case payload of
              PDict d \<Rightarrow>
                if field_get d ''kind'' = Some (PStr ''batch_completion'') then
                  py_bind (decode_batch_completion_payload M (RawValue payload) max_bytes) (\<lambda>decoded.
                  py_bind (with_get (field_default decoded ''timing'' (PDict []))) (\<lambda>timing.
                  py_bind (field_index decoded ''completion'') (\<lambda>cv.
                  py_bind (batch_completion_from_dict cv) (\<lambda>c. Inr (bc_results c)))))
                else py_bind (completion_event_from_dict d) (\<lambda>e. Inr [e])
            | _ \<Rightarrow> Inl ValueError))"

section \<open>What msgpack promises\<close>

text \<open>A packed value comes back with lists for tuples; keys of dictionaries have to be texts or bytes.\<close>

fun wire :: "py_value \<Rightarrow> py_value" where
  "wire (PList vs) = PList (map wire vs)"
| "wire (PTuple vs) = PList (map wire vs)"
| "wire (PDict d) = PDict (map (\<lambda>(k, v). (wire k, wire v)) d)"
| "wire v = v"

fun wire_safe :: "py_value \<Rightarrow> bool" where
  "wire_safe (PList vs) = list_all wire_safe vs"
| "wire_safe (PTuple vs) = list_all wire_safe vs"
| "wire_safe (PDict d) = list_all (\<lambda>(k, v). (case k of PStr s \<Rightarrow> True | PBytes b \<Rightarrow> True | _ \<Rightarrow> False) \<and> wire_safe v) d"
| "wire_safe v = True"

definition packer_ok :: "'b packer \<Rightarrow> bool" where
  "packer_ok M \<longleftrightarrow>
     (\<forall>v b n. mp_packb M v = Inr b \<and> wire_safe v \<and> int (mp_len M b) \<le> n \<longrightarrow> mp_unpack M n b = Inr [wire v])"

section \<open>Round trips of the parts\<close>

lemma py_bind_simps [simp]: "py_bind (Inr x) f = f x" "py_bind (Inl e) f = Inl e"
  by (simp_all add: py_bind_def)

lemma py_map_Inr: "(\<And>x. x \<in> set xs \<Longrightarrow> f x = Inr (g x)) \<Longrightarrow> py_map f xs = Inr (map g xs)"
  by (induction xs) simp_all

lemma as_dict_PDict [simp]: "as_dict (PDict d) = Inr d" "with_get (PDict d) = Inr d"
  by (simp_all add: as_dict_def with_get_def)

lemmas field_simps_py = field_get_def field_index_def field_default_def

lemma work_item_round_trip: "work_item_from_dict (work_item_to_dict w) = Inr w"
  by (simp add: work_item_from_dict_def work_item_to_dict_def field_simps_py split: option.split)

lemma status_round_trip [simp]: "status_of_value (status_value st) = Inr st"
  by (cases st) (simp_all add: status_of_value_def)

lemma event_round_trip:
  "completion_event_from_dict (completion_event_to_dict e []) = Inr e"
  "completion_event_from_dict (completion_event_to_dict e [(PStr ''completion_enqueued_at'', v)]) = Inr e"
  by (simp_all add: completion_event_from_dict_def completion_event_to_dict_def field_simps_py)

definition wire_item :: "py_work_item \<Rightarrow> py_work_item" where
  "wire_item w = \<lparr>pw_id = wire (pw_id w), pw_topic = wire (pw_topic w), pw_partition = wire (pw_partition w),
     pw_offset = wire (pw_offset w), pw_epoch = wire (pw_epoch w), pw_key = wire (pw_key w), pw_payload = wire (pw_payload w),
     pw_requeue_attempts = wire (pw_requeue_attempts w), pw_poison_key = map_option wire (pw_poison_key w)\<rparr>"

definition item_safe :: "py_work_item \<Rightarrow> bool" where
  "item_safe w \<longleftrightarrow> wire_safe (PDict (work_item_to_dict w))"

lemma wire_work_item [simp]: "wire (PDict (work_item_to_dict w)) = PDict (work_item_to_dict (wire_item w))"
  by (simp add: work_item_to_dict_def wire_item_def split: option.split)

lemma wire_work_items [simp]:
  "wire (PList (map (PDict \<circ> work_item_to_dict) ws)) = PList (map (PDict \<circ> work_item_to_dict) (map wire_item ws))"
  by (simp del: wire.simps(3))

lemma items_safe: "wire_safe (PList (map (PDict \<circ> work_item_to_dict) ws)) \<longleftrightarrow> list_all item_safe ws"
  by (simp add: list_all_iff item_safe_def del: wire_safe.simps(3))

lemma dict_items: "py_map dict_of (map (PDict \<circ> work_item_to_dict) ws) = Inr (map work_item_to_dict ws)"
  by (induction ws) simp_all

lemma decode_items:
  "py_map work_item_from_dict (map work_item_to_dict ws) = Inr ws"
  "py_map (\<lambda>v. py_bind (as_dict v) work_item_from_dict) (map (PDict \<circ> work_item_to_dict) ws) = Inr ws"
  by (induction ws) (simp_all add: work_item_round_trip)

lemma decode_events:
  "py_map (\<lambda>v. py_bind (as_dict v) completion_event_from_dict) (map (\<lambda>e. PDict (completion_event_to_dict e [])) es) = Inr es"
  by (induction es) (simp_all add: event_round_trip)

lemma route_batch_round_trip:
  "route_batch_from_dict (PDict (route_batch_to_dict rb)) = (if rb_items rb = [] then Inl ValueError else Inr rb)"
  by (simp add: route_batch_from_dict_def route_batch_to_dict_def require_fields_def require_sequence_def
      require_non_empty_list_def field_simps_py decode_items)

lemma batch_completion_round_trip:
  "batch_completion_from_dict (PDict (batch_completion_to_dict c)) = (if bc_results c = [] then Inl ValueError else Inr c)"
  by (simp add: batch_completion_from_dict_def batch_completion_to_dict_def require_fields_def require_sequence_def
      require_non_empty_list_def field_simps_py decode_events)

lemma decode_packed:
  "\<lbrakk>packer_ok M; mp_packb M v = Inr b; wire_safe v; int (mp_len M b) \<le> n\<rbrakk> \<Longrightarrow>
     decode_msgpack_payload M n b = Inr (wire v)"
  by (simp add: packer_ok_def decode_msgpack_payload_def)

section \<open>Properties\<close>

fun payload_items :: "pipe_payload \<Rightarrow> py_work_item list" where
  "payload_items (WorkItems ws) = ws"
| "payload_items (RouteBatch rb) = rb_items rb"

definition payload_safe :: "pipe_payload \<Rightarrow> bool" where
  "payload_safe payload \<longleftrightarrow>
     list_all item_safe (payload_items payload) \<and>
     (case payload of WorkItems ws \<Rightarrow> True
      | RouteBatch rb \<Rightarrow> wire_safe (rb_batch_id rb) \<and> wire_safe (rb_worker_index rb) \<and> list_all wire_safe (rb_route_identity rb))"

text \<open>
  C32. What a worker decodes is what the parent packed. A payload that was serialized and is
  within the size limit decodes to its work items in order, with tuples turned into lists, and
  to the time it was flushed; a route batch also carries its identifier and its route, and an
  empty one is refused. A payload over the limit is refused as well.
\<close>

theorem pipe_payload_round_trip:
  assumes "packer_ok M" and "payload_safe payload" and "serialize_worker_pipe_payload M payload tm = Inr b"
  shows "if int (mp_len M b) > max_bytes then decode_incoming_item M (RawBytes b) max_bytes = Inl ValueError
    else case payload of
      WorkItems ws \<Rightarrow>
        decode_incoming_item M (RawBytes b) max_bytes = Inr (map wire_item ws) \<and>
        decode_incoming_payloads M (RawBytes b) max_bytes =
          Inr (map work_item_to_dict (map wire_item ws), [(PStr ''flush_enqueued_at'', PFloat tm)])
    | RouteBatch rb \<Rightarrow>
        if rb_items rb = [] then decode_incoming_item M (RawBytes b) max_bytes = Inl ValueError
        else decode_incoming_item M (RawBytes b) max_bytes = Inr (map wire_item (rb_items rb)) \<and>
          decode_incoming_payloads M (RawBytes b) max_bytes =
            Inr (map work_item_to_dict (map wire_item (rb_items rb)),
                 [(PStr ''flush_enqueued_at'', PFloat tm), (PStr ''route_batch_id'', wire (rb_batch_id rb)),
                  (PStr ''route_identity'', PTuple (map wire (rb_route_identity rb)))])"
proof (cases "int (mp_len M b) > max_bytes")
  case True
  then show ?thesis
    by (simp add: decode_incoming_item_def decode_incoming_payloads_def decode_raw_def decode_msgpack_payload_def)
next
  case False
  then have len: "int (mp_len M b) \<le> max_bytes" by simp
  show ?thesis
  proof (cases payload)
    case (WorkItems ws)
    let ?v = "PDict [(PStr ''kind'', PStr ''work_items''), (PStr ''items'', PList (map (PDict \<circ> work_item_to_dict) ws)),
        (PStr ''timing'', PDict [(PStr ''flush_enqueued_at'', PFloat tm)])]"
    have p: "mp_packb M ?v = Inr b" using assms(3) by (simp add: WorkItems serialize_worker_pipe_payload_def)
    have "wire_safe (PList (map (PDict \<circ> work_item_to_dict) ws))"
      using assms(2) by (simp only: items_safe) (simp add: WorkItems payload_safe_def)
    then have "wire_safe ?v" by simp
    from decode_packed[OF assms(1) p this len]
    have "decode_msgpack_payload M max_bytes b = Inr (PDict [(PStr ''kind'', PStr ''work_items''),
        (PStr ''items'', PList (map (PDict \<circ> work_item_to_dict) (map wire_item ws))),
        (PStr ''timing'', PDict [(PStr ''flush_enqueued_at'', PFloat tm)])])"
      using wire_work_items[of ws] by (simp del: wire_work_items)
    then have "decode_incoming_payloads M (RawBytes b) max_bytes =
          Inr (map work_item_to_dict (map wire_item ws), [(PStr ''flush_enqueued_at'', PFloat tm)])"
      using dict_items[of "map wire_item ws"]
      by (simp add: decode_incoming_payloads_def decode_raw_def normalize_decoded_payloads_def timing_values_def
          field_simps_py o_def)
    then show ?thesis using False decode_items(1)[of "map wire_item ws"]
      by (simp add: WorkItems decode_incoming_item_def)
  next
    case (RouteBatch rb)
    let ?v = "PDict [(PStr ''kind'', PStr ''route_batch''), (PStr ''batch'', PDict (route_batch_to_dict rb)),
        (PStr ''timing'', PDict [(PStr ''flush_enqueued_at'', PFloat tm)])]"
    define rb' where "rb' = \<lparr>rb_batch_id = wire (rb_batch_id rb), rb_route_identity = map wire (rb_route_identity rb),
        rb_worker_index = wire (rb_worker_index rb), rb_items = map wire_item (rb_items rb)\<rparr>"
    have p: "mp_packb M ?v = Inr b" using assms(3) by (simp add: RouteBatch serialize_worker_pipe_payload_def)
    have "wire_safe (PList (map (PDict \<circ> work_item_to_dict) (rb_items rb)))"
      using assms(2) by (simp only: items_safe) (simp add: RouteBatch payload_safe_def)
    then have safe: "wire_safe ?v" using assms(2) by (simp add: RouteBatch payload_safe_def route_batch_to_dict_def)
    have "wire (PDict (route_batch_to_dict rb)) = PDict (route_batch_to_dict rb')"
      using wire_work_items[of "rb_items rb"] by (simp add: route_batch_to_dict_def rb'_def del: wire_work_items)
    with decode_packed[OF assms(1) p safe len]
    have "decode_msgpack_payload M max_bytes b = Inr (PDict [(PStr ''kind'', PStr ''route_batch''),
        (PStr ''batch'', PDict (route_batch_to_dict rb')), (PStr ''timing'', PDict [(PStr ''flush_enqueued_at'', PFloat tm)])])"
      by simp
    then have d: "decode_incoming_payloads M (RawBytes b) max_bytes =
        (if rb_items rb = [] then Inl ValueError
         else Inr (map work_item_to_dict (rb_items rb'),
                 [(PStr ''flush_enqueued_at'', PFloat tm), (PStr ''route_batch_id'', wire (rb_batch_id rb)),
                  (PStr ''route_identity'', PTuple (map wire (rb_route_identity rb)))]))"
      using route_batch_round_trip[of rb']
      by (simp add: decode_incoming_payloads_def decode_raw_def normalize_decoded_payloads_def timing_values_def
          field_simps_py rb'_def)
    then show ?thesis using False decode_items(1)[of "rb_items rb'"]
      by (simp add: RouteBatch decode_incoming_item_def rb'_def)
  qed
qed

text \<open>Typed events, as the engines make them, as instances with values for fields.\<close>

definition event_instance :: "completion_event \<Rightarrow> py_completion_event" where
  "event_instance e = \<lparr>pe_id = PStr (ce_id e), pe_topic = PStr (topic (ce_tp e)), pe_partition = PInt (partition (ce_tp e)),
     pe_offset = PInt (ce_offset e), pe_epoch = PInt (ce_epoch e), pe_status = ce_status e,
     pe_error = (case ce_error e of None \<Rightarrow> PNone | Some m \<Rightarrow> PStr m), pe_attempt = PInt (ce_attempt e)\<rparr>"

lemma event_instance_wire:
  "wire (PDict (completion_event_to_dict (event_instance e) [])) = PDict (completion_event_to_dict (event_instance e) [])"
  "wire_safe (PDict (completion_event_to_dict (event_instance e) []))"
  by (cases "ce_error e"; cases "ce_status e"; simp add: event_instance_def completion_event_to_dict_def)+

text \<open>
  What the parent decodes from the completion queue is what the worker packed: a single
  event or a non-empty batch of events within the size limit comes back unchanged and in order;
  an empty batch and an oversized item are refused.
\<close>

theorem completion_round_trip:
  assumes "packer_ok M" and "wire_safe (bc_batch_id c)" and "list_all wire_safe (bc_route_identity c)"
    and "bc_results c = map event_instance es"
    and "serialize_batch_completion_payload M c tm = Inr b"
    and "mp_packb M (PDict (completion_event_to_dict (event_instance e)
           [(PStr ''completion_enqueued_at'', PFloat tm)])) = Inr b1"
  shows "(if int (mp_len M b) > max_bytes \<or> es = []
     then decode_completion_queue_item_events M max_bytes (PackedCompletion b) = Inl ValueError
     else decode_completion_queue_item_events M max_bytes (PackedCompletion b) = Inr (map event_instance es)) \<and>
    (if int (mp_len M b1) > max_bytes
     then decode_completion_queue_item_events M max_bytes (PackedCompletion b1) = Inl ValueError
     else decode_completion_queue_item_events M max_bytes (PackedCompletion b1) = Inr [event_instance e])"
proof (rule conjI)
  define c' where "c' = c\<lparr>bc_batch_id := wire (bc_batch_id c), bc_route_identity := map wire (bc_route_identity c)\<rparr>"
  let ?v = "PDict [(PStr ''kind'', PStr ''batch_completion''), (PStr ''completion'', PDict (batch_completion_to_dict c)),
       (PStr ''timing'', PDict [(PStr ''completion_enqueued_at'', PFloat tm)])]"
  let ?rs = "map (\<lambda>e. PDict (completion_event_to_dict e [])) (bc_results c)"
  have rs: "wire (PList ?rs) = PList ?rs" "wire_safe (PList ?rs)"
    unfolding assms(4) by (simp_all add: event_instance_wire list_all_iff o_def del: wire.simps(3) wire_safe.simps(3))
  have p: "mp_packb M ?v = Inr b" using assms(5) by (simp add: serialize_batch_completion_payload_def)
  have safe: "wire_safe ?v" using rs(2) assms(2,3) by (simp add: batch_completion_to_dict_def)
  have w: "wire (PDict (batch_completion_to_dict c)) = PDict (batch_completion_to_dict c')"
    using rs(1) by (simp add: batch_completion_to_dict_def c'_def)
  show "if int (mp_len M b) > max_bytes \<or> es = []
     then decode_completion_queue_item_events M max_bytes (PackedCompletion b) = Inl ValueError
     else decode_completion_queue_item_events M max_bytes (PackedCompletion b) = Inr (map event_instance es)"
  proof (cases "int (mp_len M b) > max_bytes")
    case True
    then show ?thesis by (simp add: decode_completion_queue_item_events_def decode_msgpack_payload_def)
  next
    case False
    then have "decode_msgpack_payload M max_bytes b = Inr (PDict [(PStr ''kind'', PStr ''batch_completion''),
        (PStr ''completion'', PDict (batch_completion_to_dict c')), (PStr ''timing'', PDict [(PStr ''completion_enqueued_at'', PFloat tm)])])"
      using decode_packed[OF assms(1) p safe, of max_bytes] w by simp
    then show ?thesis
      using False batch_completion_round_trip[of c'] assms(4)
      by (simp add: decode_completion_queue_item_events_def decode_batch_completion_payload_def decode_raw_def
          field_simps_py c'_def)
  qed
next
  let ?d = "completion_event_to_dict (event_instance e) [(PStr ''completion_enqueued_at'', PFloat tm)]"
  have d: "?d = completion_event_to_dict (event_instance e) [] @ [(PStr ''completion_enqueued_at'', PFloat tm)]"
    by (simp add: completion_event_to_dict_def)
  have "wire (PDict ?d) = PDict ?d" "wire_safe (PDict ?d)"
    unfolding d using event_instance_wire[of e] by simp_all
  moreover have "field_get ?d ''kind'' = None" by (simp add: completion_event_to_dict_def field_get_def)
  ultimately show "if int (mp_len M b1) > max_bytes
     then decode_completion_queue_item_events M max_bytes (PackedCompletion b1) = Inl ValueError
     else decode_completion_queue_item_events M max_bytes (PackedCompletion b1) = Inr [event_instance e]"
    using decode_packed[OF assms(1,6), of max_bytes] event_round_trip(2)[of "event_instance e"]
    by (cases "int (mp_len M b1) > max_bytes")
      (simp_all add: decode_completion_queue_item_events_def decode_msgpack_payload_def)
qed

section \<open>A concrete packer\<close>

text \<open>The packed form of a value is what will be unpacked; its length is the number of its nodes.\<close>

definition value_packer :: "py_value packer" where
  "value_packer = \<lparr>mp_len = size, mp_packb = (\<lambda>v. Inr (wire v)), mp_unpack = (\<lambda>n v. Inr [v])\<rparr>"

lemma value_packer_ok: "packer_ok value_packer"
  by (simp add: packer_ok_def value_packer_def)

definition demo_pw :: py_work_item where
  "demo_pw = \<lparr>pw_id = PStr ''w'', pw_topic = PStr ''t'', pw_partition = PInt 0, pw_offset = PInt 7, pw_epoch = PInt 1,
     pw_key = PTuple [PInt 1, PInt 2], pw_payload = PBytes [0, 255], pw_requeue_attempts = PInt 0, pw_poison_key = None\<rparr>"

theorem pipe_payload_round_trip_witness:
  "\<exists>b. serialize_worker_pipe_payload value_packer (WorkItems [demo_pw]) 5 = Inr b \<and>
     decode_incoming_item value_packer (RawBytes b) 1000 = Inr [demo_pw\<lparr>pw_key := PList [PInt 1, PInt 2]\<rparr>] \<and>
     decode_incoming_item value_packer (RawBytes b) 1 = Inl ValueError"
proof -
  obtain b where b: "serialize_worker_pipe_payload value_packer (WorkItems [demo_pw]) 5 = Inr b"
    by (simp add: serialize_worker_pipe_payload_def value_packer_def)
  have "payload_safe (WorkItems [demo_pw])"
    by (simp add: payload_safe_def item_safe_def demo_pw_def work_item_to_dict_def)
  note R = pipe_payload_round_trip[OF value_packer_ok this b]
  have "1 < mp_len value_packer b" "mp_len value_packer b \<le> 1000"
    using b by (auto simp: serialize_worker_pipe_payload_def value_packer_def demo_pw_def work_item_to_dict_def)
  then show ?thesis using R[of 1000] R[of 1] b by (simp add: wire_item_def demo_pw_def)
qed

definition demo_pe :: completion_event where
  "demo_pe = \<lparr>ce_id = ''w'', ce_tp = TopicPartition ''t'' 0, ce_offset = 7, ce_epoch = 1,
     ce_status = FAILURE, ce_error = Some ''boom'', ce_attempt = 3\<rparr>"

theorem completion_round_trip_witness:
  "\<exists>b. serialize_batch_completion_payload value_packer
         \<lparr>bc_batch_id = PStr ''b'', bc_route_identity = [PStr ''t'', PInt 0], bc_results = [event_instance demo_pe]\<rparr> 5 = Inr b \<and>
     decode_completion_queue_item_events value_packer 1000 (PackedCompletion b) = Inr [event_instance demo_pe]"
proof -
  let ?c = "\<lparr>bc_batch_id = PStr ''b'', bc_route_identity = [PStr ''t'', PInt 0], bc_results = [event_instance demo_pe]\<rparr>"
  obtain b where b: "serialize_batch_completion_payload value_packer ?c 5 = Inr b"
    by (simp add: serialize_batch_completion_payload_def value_packer_def)
  obtain b1 where b1: "mp_packb value_packer (PDict (completion_event_to_dict (event_instance demo_pe)
           [(PStr ''completion_enqueued_at'', PFloat 5)])) = Inr b1" by (simp add: value_packer_def)
  have "mp_len value_packer b \<le> 1000"
    using b by (auto simp: serialize_batch_completion_payload_def value_packer_def batch_completion_to_dict_def
        completion_event_to_dict_def event_instance_def demo_pe_def)
  then show ?thesis
    using completion_round_trip[OF value_packer_ok, of ?c "[demo_pe]" 5 b demo_pe b1 1000] b b1 by simp
qed

end
