(* ===== verification/Process_Registry.thy ===== *)
theory Process_Registry
  imports Dto "HOL-Library.Multiset" "HOL-Library.Sublist"
begin

text \<open>
  The parent's ledgers of the process engine: the in-flight registry of
  \<open>process_registry_support.py\<close>, the pending dispatches and queue slots of
  \<open>process_transport_worker_pipes.py\<close>, the identities of \<open>process_transport.py\<close>, and the recovery
  of a dead worker by \<open>process_worker_supervisor.py\<close>.

  A serialized work item is a dictionary in the code; here it is a record of the entries these
  modules read, with the timeout mark they add. Registry events are the ones a worker emits. The
  worker a route belongs to, and whether a message can be packed and sent, are parameters, since
  they rest on \<open>hashlib\<close>, \<open>msgpack\<close> and the pipe. Theorems: slots are neither lost nor gained; the
  death of a worker loses no item, each is requeued within its budget or failed once; an event of
  an older execution does not touch the entry of a newer one.
\<close>

section \<open>Items and identities\<close>

record ('k, 'p) serialized_item =
  si_id :: string
  si_topic :: string
  si_partition :: int
  si_offset :: int
  si_epoch :: int
  si_key :: 'k
  si_payload :: 'p
  si_requeue_attempts :: int
  si_timed_out :: "(string \<times> int) option"

type_synonym registry_key = "int \<times> string \<times> int \<times> int"

type_synonym ('k, 'p) registry = "(registry_key, ('k, 'p) serialized_item) dict"

datatype work_identity =
  LogicalWorkIdentity (lw_topic: string) (lw_partition: int) (lw_offset: int) (lw_id: string) (lw_epoch: int)

definition logical_work_identity_from_payload :: "('k, 'p) serialized_item \<Rightarrow> work_identity" where
  "logical_work_identity_from_payload p =
     LogicalWorkIdentity (si_topic p) (si_partition p) (si_offset p) (si_id p) (si_epoch p)"

definition logical_work_identity_from_completion_event :: "completion_event \<Rightarrow> work_identity" where
  "logical_work_identity_from_completion_event e =
     LogicalWorkIdentity (topic (ce_tp e)) (partition (ce_tp e)) (ce_offset e) (ce_id e) (ce_epoch e)"

fun logical_work_identity_from_registry_entry :: "registry_key \<Rightarrow> ('k, 'p) serialized_item \<Rightarrow> work_identity" where
  "logical_work_identity_from_registry_entry (worker_index, t, p, off) payload =
     LogicalWorkIdentity t p off (si_id payload) (si_epoch payload)"

section \<open>The registry\<close>

datatype ('k, 'p) registry_event =
    StartEvent registry_key "('k, 'p) serialized_item"
  | TimeoutEvent registry_key "('k, 'p) serialized_item" int string
  | DoneEvent registry_key work_identity
  | BatchReceived
  | BatchCompleted
  | NotStarted string "('k, 'p) serialized_item list"
  | BatchCompletionSendFailed string

definition start_event_supersedes_registry_entry ::
  "('k, 'p) serialized_item \<Rightarrow> registry_key \<Rightarrow> ('k, 'p) serialized_item \<Rightarrow> bool" where
  "start_event_supersedes_registry_entry event_payload key registry_payload =
     (let existing = logical_work_identity_from_registry_entry key registry_payload;
          incoming = logical_work_identity_from_payload event_payload
      in lw_topic incoming = lw_topic existing \<and> lw_partition incoming = lw_partition existing \<and>
         lw_offset incoming = lw_offset existing \<and> lw_epoch incoming > lw_epoch existing)"

fun apply_registry_event :: "('k, 'p) registry_event \<Rightarrow> ('k, 'p) registry \<Rightarrow> ('k, 'p) registry" where
  "apply_registry_event (StartEvent key payload) reg =
     (case dict_get reg key of
        None \<Rightarrow> dict_set key payload reg
      | Some entry \<Rightarrow>
          if logical_work_identity_from_registry_entry key entry \<noteq> logical_work_identity_from_payload payload \<and>
             \<not> start_event_supersedes_registry_entry payload key entry
          then reg else dict_set key payload reg)"
| "apply_registry_event (TimeoutEvent key payload attempt error) reg =
     (case dict_get reg key of
        None \<Rightarrow> reg
      | Some entry \<Rightarrow>
          if logical_work_identity_from_registry_entry key entry \<noteq> logical_work_identity_from_payload payload then reg
          else dict_set key (entry\<lparr>si_timed_out := Some (error, attempt)\<rparr>) reg)"
| "apply_registry_event (DoneEvent key identity) reg =
     (case dict_get reg key of
        None \<Rightarrow> reg
      | Some entry \<Rightarrow>
          if logical_work_identity_from_registry_entry key entry \<noteq> identity then reg else dict_pop key reg)"
| "apply_registry_event BatchReceived reg = reg"
| "apply_registry_event BatchCompleted reg = reg"
| "apply_registry_event (NotStarted batch_id payloads) reg = reg"
| "apply_registry_event (BatchCompletionSendFailed batch_id) reg = reg"

definition discard_completion_from_registry :: "completion_event \<Rightarrow> ('k, 'p) registry \<Rightarrow> ('k, 'p) registry" where
  "discard_completion_from_registry event reg =
     fold (\<lambda>(key, payload) r.
         if logical_work_identity_from_registry_entry key payload = logical_work_identity_from_completion_event event
         then dict_pop key r else r) reg reg"

fun min_offset_in :: "topic_partition \<Rightarrow> ('k, 'p) registry \<Rightarrow> int option \<Rightarrow> int option" where
  "min_offset_in tp [] min_offset = min_offset"
| "min_offset_in tp (((worker_index, t, p, off), payload) # reg) min_offset =
     min_offset_in tp reg
       (if t = topic tp \<and> p = partition tp then
          (case min_offset of
             None \<Rightarrow> Some (si_offset payload)
           | Some m \<Rightarrow> if si_offset payload < m then Some (si_offset payload) else Some m)
        else min_offset)"

definition get_min_inflight_offset :: "topic_partition \<Rightarrow> ('k, 'p) registry \<Rightarrow> int option" where
  "get_min_inflight_offset tp reg = min_offset_in tp reg None"

definition recovery_failure_event :: "string \<Rightarrow> int \<Rightarrow> ('k, 'p) serialized_item \<Rightarrow> completion_event" where
  "recovery_failure_event error attempt payload =
     \<lparr>ce_id = si_id payload, ce_tp = TopicPartition (si_topic payload) (si_partition payload),
      ce_offset = si_offset payload, ce_epoch = si_epoch payload, ce_status = FAILURE, ce_error = Some error,
      ce_attempt = attempt\<rparr>"

text \<open>One recovered entry: a failure to emit, or the payload to requeue.\<close>

definition recover_entry :: "int \<Rightarrow> ('k, 'p) serialized_item \<Rightarrow> completion_event + ('k, 'p) serialized_item" where
  "recover_entry max_retries payload =
     (case si_timed_out payload of
        Some (error, attempt) \<Rightarrow> Inl (recovery_failure_event error attempt payload)
      | None \<Rightarrow>
          if si_requeue_attempts payload \<ge> max_retries
          then Inl (recovery_failure_event ''worker_died_max_retries'' (si_requeue_attempts payload) payload)
          else Inr (payload\<lparr>si_requeue_attempts := si_requeue_attempts payload + 1\<rparr>))"

definition recover_dead_worker_items ::
  "int \<Rightarrow> int \<Rightarrow> ('k, 'p) registry \<Rightarrow> (completion_event list \<times> ('k, 'p) serialized_item list) \<times> ('k, 'p) registry" where
  "recover_dead_worker_items worker_index max_retries reg =
     fold (\<lambda>(key, payload) ((failures, to_requeue), r).
         case recover_entry max_retries payload of
           Inl e \<Rightarrow> ((failures @ [e], to_requeue), dict_pop key r)
         | Inr p \<Rightarrow> ((failures, to_requeue @ [p]), dict_pop key r))
       (filter (\<lambda>e. fst (fst e) = worker_index) reg) (([], []), reg)"

section \<open>Pending dispatches\<close>

datatype pending_key = ItemKey int work_identity | BatchKey int string

fun pending_worker :: "pending_key \<Rightarrow> int" where
  "pending_worker (ItemKey w i) = w"
| "pending_worker (BatchKey w b) = w"

text \<open>A pending entry: the payload of one item, or the items of a route batch that have not started.\<close>

datatype ('k, 'p) pending_entry =
    PendingItem "('k, 'p) serialized_item"
  | PendingBatch (pb_batch_id: string) (pb_items: "('k, 'p) serialized_item list") (pb_slot_released: bool)

fun entry_items :: "('k, 'p) pending_entry \<Rightarrow> ('k, 'p) serialized_item list" where
  "entry_items (PendingItem p) = [p]"
| "entry_items (PendingBatch b ps r) = ps"

fun holds_slot :: "('k, 'p) pending_entry \<Rightarrow> bool" where
  "holds_slot (PendingItem p) = True"
| "holds_slot (PendingBatch b ps r) = (\<not> r)"

record ('k, 'p) transport =
  tr_queue_size :: int
  tr_slots :: int
  tr_pending :: "(pending_key, ('k, 'p) pending_entry) dict"
  tr_pipes :: "(int \<times> ('k, 'p) serialized_item list) list"
  tr_shutdown :: bool

text \<open>\<open>BoundedSemaphore.release\<close> raises above the initial value, which the transport ignores.\<close>

definition release_slot :: "('k, 'p) transport \<Rightarrow> ('k, 'p) transport" where
  "release_slot s = (if tr_slots s < tr_queue_size s then s\<lparr>tr_slots := tr_slots s + 1\<rparr> else s)"

text \<open>
  The transport's collaborators: the worker of a route, and what comes of packing, validating and
  sending a message: \<open>None\<close> when it is sent, else the text of the exception.
\<close>

record ('k, 'p) pipe_env =
  pv_worker_of_route :: "string \<Rightarrow> int \<Rightarrow> 'k \<Rightarrow> int"
  pv_send_error :: "int \<Rightarrow> ('k, 'p) serialized_item list \<Rightarrow> string option"

definition worker_for :: "('k, 'p) pipe_env \<Rightarrow> ('k, 'p) serialized_item \<Rightarrow> int" where
  "worker_for E p = pv_worker_of_route E (si_topic p) (si_partition p) (si_key p)"

text \<open>
  A dispatch; \<open>None\<close> when it would wait for a slot, \<open>Inl\<close> with the text of the exception when the
  transport shuts down or the message cannot be sent.
\<close>

definition send_entry ::
  "('k, 'p) pipe_env \<Rightarrow> int \<Rightarrow> pending_key \<Rightarrow> ('k, 'p) pending_entry \<Rightarrow> ('k, 'p) transport
    \<Rightarrow> ((string + unit) \<times> ('k, 'p) transport) option" where
  "send_entry E worker_idx pending_key entry s =
     (if tr_shutdown s then Some (Inl ''worker-pipe transport is shutting down'', s)
      else if tr_slots s \<le> 0 then None
      else
        let s1 = s\<lparr>tr_slots := tr_slots s - 1, tr_pending := dict_set pending_key entry (tr_pending s)\<rparr>
        in case pv_send_error E worker_idx (entry_items entry) of
             None \<Rightarrow> Some (Inr (), s1\<lparr>tr_pipes := tr_pipes s1 @ [(worker_idx, entry_items entry)]\<rparr>)
           | Some e \<Rightarrow> Some (Inl e, release_slot (s1\<lparr>tr_pending := dict_pop pending_key (tr_pending s1)\<rparr>)))"

definition item_pending_key :: "int \<Rightarrow> ('k, 'p) serialized_item \<Rightarrow> pending_key" where
  "item_pending_key worker_idx p = ItemKey worker_idx (logical_work_identity_from_payload p)"

definition dispatch_payload ::
  "('k, 'p) pipe_env \<Rightarrow> ('k, 'p) serialized_item \<Rightarrow> ('k, 'p) transport \<Rightarrow> ((string + unit) \<times> ('k, 'p) transport) option" where
  "dispatch_payload E p s = send_entry E (worker_for E p) (item_pending_key (worker_for E p) p) (PendingItem p) s"

definition dispatch_route_batch ::
  "('k, 'p) pipe_env \<Rightarrow> int \<Rightarrow> string \<Rightarrow> ('k, 'p) serialized_item list \<Rightarrow> ('k, 'p) transport
    \<Rightarrow> ((string + unit) \<times> ('k, 'p) transport) option" where
  "dispatch_route_batch E worker_idx batch_id ps s =
     send_entry E worker_idx (BatchKey worker_idx batch_id) (PendingBatch batch_id ps False) s"

definition registry_start_key :: "registry_key \<Rightarrow> ('k, 'p) serialized_item \<Rightarrow> pending_key option" where
  "registry_start_key key p =
     (case key of (worker_idx, t, part, off) \<Rightarrow>
        if si_topic p \<noteq> t \<or> si_partition p \<noteq> part \<or> si_offset p \<noteq> off then None
        else Some (item_pending_key worker_idx p))"

definition started_in_batch ::
  "registry_key \<Rightarrow> ('k, 'p) serialized_item \<Rightarrow> pending_key \<times> ('k, 'p) pending_entry \<Rightarrow> bool" where
  "started_in_batch key payload entry =
     (case entry of
        (pk, PendingBatch b ps r) \<Rightarrow>
          pending_worker pk = fst key \<and>
          (\<exists>p\<in>set ps. registry_start_key key p = Some (item_pending_key (fst key) payload))
      | (pk, PendingItem p) \<Rightarrow> False)"

definition without_item :: "('k, 'p) serialized_item \<Rightarrow> ('k, 'p) serialized_item list \<Rightarrow> ('k, 'p) serialized_item list" where
  "without_item started ps =
     filter (\<lambda>p. logical_work_identity_from_payload p \<noteq> logical_work_identity_from_payload started) ps"

definition start_batch_item ::
  "pending_key \<Rightarrow> ('k, 'p) pending_entry \<Rightarrow> ('k, 'p) serialized_item \<Rightarrow> ('k, 'p) transport \<Rightarrow> ('k, 'p) transport" where
  "start_batch_item pk entry payload s =
     (let ps = without_item payload (pb_items entry);
          s1 = s\<lparr>tr_pending :=
            (if ps = [] then dict_pop pk (tr_pending s)
             else dict_set pk (PendingBatch (pb_batch_id entry) ps True) (tr_pending s))\<rparr>
      in if pb_slot_released entry then s1 else release_slot s1)"

definition drop_not_started ::
  "('k, 'p) serialized_item list \<Rightarrow> pending_key \<Rightarrow> ('k, 'p) pending_entry \<Rightarrow> ('k, 'p) transport \<Rightarrow> ('k, 'p) transport" where
  "drop_not_started payloads pk entry s =
     (let ps = fold without_item payloads (pb_items entry)
      in s\<lparr>tr_pending :=
           (if ps = [] then dict_pop pk (tr_pending s)
            else dict_set pk (PendingBatch (pb_batch_id entry) ps (pb_slot_released entry)) (tr_pending s))\<rparr>)"

fun is_pending_batch :: "('k, 'p) pending_entry \<Rightarrow> bool" where
  "is_pending_batch (PendingItem p) = False"
| "is_pending_batch (PendingBatch b ps r) = True"

text \<open>The transport's side of an event; for a \<open>not_started\<close> event also whether its batch was pending.\<close>

fun handle_registry_event :: "('k, 'p) registry_event \<Rightarrow> ('k, 'p) transport \<Rightarrow> bool \<times> ('k, 'p) transport" where
  "handle_registry_event (StartEvent key payload) s =
     (False,
      case Option.bind (registry_start_key key payload) (\<lambda>pk. map_option (Pair pk) (dict_get (tr_pending s) pk)) of
        Some (pk, entry) \<Rightarrow> release_slot (s\<lparr>tr_pending := dict_pop pk (tr_pending s)\<rparr>)
      | None \<Rightarrow>
          (case find (started_in_batch key payload) (tr_pending s) of
             None \<Rightarrow> s
           | Some (pk, entry) \<Rightarrow> start_batch_item pk entry payload s))"
| "handle_registry_event (NotStarted batch_id payloads) s =
     (case find (\<lambda>(pk, entry). is_pending_batch entry \<and> pb_batch_id entry = batch_id) (tr_pending s) of
        None \<Rightarrow> (False, s)
      | Some (pk, entry) \<Rightarrow> (True, drop_not_started payloads pk entry s))"
| "handle_registry_event event s = (False, s)"

definition recover_pending_dispatches ::
  "int \<Rightarrow> ('k, 'p) transport \<Rightarrow> ('k, 'p) serialized_item list \<times> ('k, 'p) transport" where
  "recover_pending_dispatches idx s =
     fold (\<lambda>(pk, entry) (recovered, s).
         let s1 = s\<lparr>tr_pending := dict_pop pk (tr_pending s)\<rparr>
         in (recovered @ entry_items entry, if holds_slot entry then release_slot s1 else s1))
       (filter (\<lambda>e. pending_worker (fst e) = idx) (tr_pending s)) ([], s)"

definition clear_pending_dispatches :: "('k, 'p) transport \<Rightarrow> ('k, 'p) transport" where
  "clear_pending_dispatches s = s\<lparr>tr_pending := []\<rparr>"

definition snapshot_pending_worker_loads :: "nat \<Rightarrow> ('k, 'p) transport \<Rightarrow> nat list" where
  "snapshot_pending_worker_loads process_count s =
     fold (\<lambda>(pk, entry) loads.
         let w = nat (pending_worker pk)
         in if w \<ge> length loads then loads else loads[w := loads ! w + length (entry_items entry)])
       (tr_pending s) (replicate process_count 0)"

section \<open>Recovery\<close>

text \<open>The engine's part that recovery touches; \<open>pr_emitted\<close> are the failures put on the completion queue.\<close>

record ('k, 'p) process_parent =
  pr_registry :: "('k, 'p) registry"
  pr_transport :: "('k, 'p) transport"
  pr_emitted :: "completion_event list"

definition filter_recoverable_pending_pipe_dispatches ::
  "int \<Rightarrow> ('k, 'p) serialized_item list \<Rightarrow> completion_event list \<times> ('k, 'p) serialized_item list" where
  "filter_recoverable_pending_pipe_dispatches max_retries payloads =
     (map (\<lambda>p. recovery_failure_event ''worker_died_max_retries'' (si_requeue_attempts p) p)
        (filter (\<lambda>p. si_requeue_attempts p \<ge> max_retries) payloads),
      map (\<lambda>p. p\<lparr>si_requeue_attempts := si_requeue_attempts p + 1\<rparr>)
        (filter (\<lambda>p. \<not> si_requeue_attempts p \<ge> max_retries) payloads))"

definition collect_recoverable_worker_payloads ::
  "int \<Rightarrow> int \<Rightarrow> ('k, 'p) process_parent \<Rightarrow> ('k, 'p) serialized_item list \<times> ('k, 'p) process_parent" where
  "collect_recoverable_worker_payloads max_retries idx s =
     (let ((failures, to_requeue), reg) = recover_dead_worker_items idx max_retries (pr_registry s);
          (pending, tr) = recover_pending_dispatches idx (pr_transport s);
          (failures', to_requeue') = filter_recoverable_pending_pipe_dispatches max_retries pending
      in (to_requeue @ to_requeue',
          \<lparr>pr_registry = reg, pr_transport = tr, pr_emitted = pr_emitted s @ failures @ failures'\<rparr>))"

fun publish_recovered_worker_payloads ::
  "('k, 'p) pipe_env \<Rightarrow> int \<Rightarrow> ('k, 'p) serialized_item list \<Rightarrow> ('k, 'p) process_parent \<Rightarrow> ('k, 'p) process_parent option" where
  "publish_recovered_worker_payloads E max_retries [] s = Some s"
| "publish_recovered_worker_payloads E max_retries (p # ps) s =
     (case dispatch_payload E p (pr_transport s) of
        None \<Rightarrow> None
      | Some (Inr _, tr) \<Rightarrow> publish_recovered_worker_payloads E max_retries ps (s\<lparr>pr_transport := tr\<rparr>)
      | Some (Inl e, tr) \<Rightarrow>
          publish_recovered_worker_payloads E max_retries ps
            (s\<lparr>pr_transport := tr,
               pr_emitted := pr_emitted s @ [recovery_failure_event (''worker_requeue_failed: '' @ e) max_retries p]\<rparr>))"

text \<open>The body of the supervisor's loop for one dead worker; \<open>restart_error\<close> is the exception of starting its successor, if it fails.\<close>

definition recover_worker ::
  "('k, 'p) pipe_env \<Rightarrow> int \<Rightarrow> int \<Rightarrow> string option \<Rightarrow> ('k, 'p) process_parent \<Rightarrow> ('k, 'p) process_parent option" where
  "recover_worker E max_retries idx restart_error s =
     (let (to_requeue, s1) = collect_recoverable_worker_payloads max_retries idx s
      in case restart_error of
           None \<Rightarrow> publish_recovered_worker_payloads E max_retries to_requeue s1
         | Some e \<Rightarrow> Some (s1\<lparr>pr_emitted := pr_emitted s1 @
             map (recovery_failure_event (''worker_restart_failed: '' @ e) max_retries) to_requeue\<rparr>))"

text \<open>\<open>_recover_not_started_payloads\<close> of the engine: the tail of a route batch that a live worker skipped.\<close>

fun requeue_not_started ::
  "('k, 'p) pipe_env \<Rightarrow> int \<Rightarrow> ('k, 'p) serialized_item list \<Rightarrow> ('k, 'p) process_parent \<Rightarrow> ('k, 'p) process_parent option" where
  "requeue_not_started E max_retries [] s = Some s"
| "requeue_not_started E max_retries (p # ps) s =
     (case dispatch_payload E p (pr_transport s) of
        None \<Rightarrow> None
      | Some (Inr _, tr) \<Rightarrow> requeue_not_started E max_retries ps (s\<lparr>pr_transport := tr\<rparr>)
      | Some (Inl e, tr) \<Rightarrow>
          Some (s\<lparr>pr_transport := tr,
                  pr_emitted := pr_emitted s @
                    map (recovery_failure_event (''not_started_requeue_failed: '' @ e) max_retries) (p # ps)\<rparr>))"

definition engine_apply_registry_event ::
  "('k, 'p) pipe_env \<Rightarrow> int \<Rightarrow> ('k, 'p) registry_event \<Rightarrow> ('k, 'p) process_parent \<Rightarrow> ('k, 'p) process_parent option" where
  "engine_apply_registry_event E max_retries event s =
     (let (pending_match, tr) = handle_registry_event event (pr_transport s);
          s1 = s\<lparr>pr_transport := tr\<rparr>
      in case event of
           NotStarted batch_id payloads \<Rightarrow>
             if pending_match then requeue_not_started E max_retries payloads s1 else Some s1
         | _ \<Rightarrow> Some (s1\<lparr>pr_registry := apply_registry_event event (pr_registry s1)\<rparr>))"


section \<open>The invariant of the parent\<close>

definition holders :: "(pending_key, ('k, 'p) pending_entry) dict \<Rightarrow> nat" where
  "holders d = length (filter (\<lambda>(pk, entry). holds_slot entry) d)"

definition slots_ok :: "('k, 'p) transport \<Rightarrow> bool" where
  "slots_ok s \<longleftrightarrow> 0 \<le> tr_slots s \<and> tr_slots s + int (holders (tr_pending s)) = tr_queue_size s"

definition pending_items :: "(pending_key, ('k, 'p) pending_entry) dict \<Rightarrow> ('k, 'p) serialized_item list" where
  "pending_items d = concat (map (\<lambda>(pk, entry). entry_items entry) d)"

definition registry_items :: "('k, 'p) registry \<Rightarrow> ('k, 'p) serialized_item list" where
  "registry_items reg = map snd reg"

definition tracked_items :: "('k, 'p) process_parent \<Rightarrow> ('k, 'p) serialized_item list" where
  "tracked_items s = registry_items (pr_registry s) @ pending_items (tr_pending (pr_transport s))"

abbreviation identities :: "('k, 'p) serialized_item list \<Rightarrow> work_identity list" where
  "identities ps \<equiv> map logical_work_identity_from_payload ps"

text \<open>What the parent answers for: the items it tracks and the failures it has emitted.\<close>

definition owned :: "('k, 'p) process_parent \<Rightarrow> work_identity multiset" where
  "owned s = mset (identities (tracked_items s)) +
     mset (map logical_work_identity_from_completion_event (pr_emitted s))"

fun registry_entry_ok :: "registry_key \<times> ('k, 'p) serialized_item \<Rightarrow> bool" where
  "registry_entry_ok ((w, t, p, off), payload) \<longleftrightarrow> t = si_topic payload \<and> p = si_partition payload \<and> off = si_offset payload"

fun pending_entry_ok :: "pending_key \<times> ('k, 'p) pending_entry \<Rightarrow> bool" where
  "pending_entry_ok (pk, PendingItem p) \<longleftrightarrow> pk = item_pending_key (pending_worker pk) p \<and> si_timed_out p = None"
| "pending_entry_ok (pk, PendingBatch b ps r) \<longleftrightarrow> pk = BatchKey (pending_worker pk) b \<and> ps \<noteq> [] \<and> list_all (\<lambda>p. si_timed_out p = None) ps"

definition parent_ok :: "('k, 'p) process_parent \<Rightarrow> bool" where
  "parent_ok s \<longleftrightarrow>
     dict_wf (pr_registry s) \<and> dict_wf (tr_pending (pr_transport s)) \<and> slots_ok (pr_transport s) \<and>
     list_all registry_entry_ok (pr_registry s) \<and> list_all pending_entry_ok (tr_pending (pr_transport s)) \<and>
     distinct (identities (tracked_items s))"

lemma identity_of_failure [simp]:
  "logical_work_identity_from_completion_event (recovery_failure_event e a p) = logical_work_identity_from_payload p"
  by (simp add: logical_work_identity_from_completion_event_def recovery_failure_event_def logical_work_identity_from_payload_def)

lemma identity_requeue_attempts [simp]:
  "logical_work_identity_from_payload (p\<lparr>si_requeue_attempts := n\<rparr>) = logical_work_identity_from_payload p"
  by (simp add: logical_work_identity_from_payload_def)

lemma identity_timed_out [simp]:
  "logical_work_identity_from_payload (p\<lparr>si_timed_out := n\<rparr>) = logical_work_identity_from_payload p"
  by (simp add: logical_work_identity_from_payload_def)

lemma identity_registry_entry:
  "registry_entry_ok (key, p) \<Longrightarrow> logical_work_identity_from_registry_entry key p = logical_work_identity_from_payload p"
  by (cases key) (simp add: logical_work_identity_from_payload_def)

lemma pop_as_filter: "dict_pop k d = filter (\<lambda>e. fst e \<noteq> k) d"
  by (induction d) auto

lemma fold_pop_filter:
  "fold (\<lambda>(k, v). dict_pop k) xs d = filter (\<lambda>e. fst e \<notin> fst ` set xs) d"
  by (induction xs arbitrary: d) (auto simp: pop_as_filter split_beta intro: filter_cong)

section \<open>Recovery as filters\<close>

lemma fold_recover:
  "fold (\<lambda>(key, payload) ((failures, to_requeue), r).
         case recover_entry max_retries payload of
           Inl e \<Rightarrow> ((failures @ [e], to_requeue), dict_pop key r)
         | Inr p \<Rightarrow> ((failures, to_requeue @ [p]), dict_pop key r)) xs ((fs, qs), r) =
   ((fs @ concat (map (\<lambda>x. case recover_entry max_retries (snd x) of Inl e \<Rightarrow> [e] | Inr p \<Rightarrow> []) xs),
     qs @ concat (map (\<lambda>x. case recover_entry max_retries (snd x) of Inl e \<Rightarrow> [] | Inr p \<Rightarrow> [p]) xs)),
    fold (\<lambda>(k, v). dict_pop k) xs r)"
  by (induction xs arbitrary: fs qs r) (auto split: sum.splits)

definition registry_of_worker :: "int \<Rightarrow> ('k, 'p) registry \<Rightarrow> ('k, 'p) registry" where
  "registry_of_worker idx reg = filter (\<lambda>e. fst (fst e) = idx) reg"

definition pending_of_worker ::
  "int \<Rightarrow> (pending_key, ('k, 'p) pending_entry) dict \<Rightarrow> (pending_key, ('k, 'p) pending_entry) dict" where
  "pending_of_worker idx d = filter (\<lambda>e. pending_worker (fst e) = idx) d"

lemma recover_dead_worker_items_eq:
  "recover_dead_worker_items idx max_retries reg =
     ((concat (map (\<lambda>x. case recover_entry max_retries (snd x) of Inl e \<Rightarrow> [e] | Inr p \<Rightarrow> []) (registry_of_worker idx reg)),
       concat (map (\<lambda>x. case recover_entry max_retries (snd x) of Inl e \<Rightarrow> [] | Inr p \<Rightarrow> [p]) (registry_of_worker idx reg))),
      filter (\<lambda>e. fst (fst e) \<noteq> idx) reg)"
proof -
  have "filter (\<lambda>e. fst e \<notin> fst ` set (registry_of_worker idx reg)) reg = filter (\<lambda>e. fst (fst e) \<noteq> idx) reg"
    by (rule filter_cong) (force simp: registry_of_worker_def)+
  then show ?thesis
    unfolding recover_dead_worker_items_def fold_recover fold_pop_filter registry_of_worker_def by simp
qed

lemma filter_mset_split: "mset (filter P xs) + mset (filter (\<lambda>x. \<not> P x) xs) = mset xs"
  by (induction xs) auto

lemma identity_recovered:
  "(case recover_entry max_retries p of
      Inl e \<Rightarrow> logical_work_identity_from_completion_event e
    | Inr q \<Rightarrow> logical_work_identity_from_payload q) = logical_work_identity_from_payload p"
  by (simp add: recover_entry_def split: option.splits prod.splits)

lemma recovered_identities:
  "mset (map logical_work_identity_from_completion_event
      (concat (map (\<lambda>x. case recover_entry max_retries (snd x) of Inl e \<Rightarrow> [e] | Inr p \<Rightarrow> []) xs))) +
   mset (identities (concat (map (\<lambda>x. case recover_entry max_retries (snd x) of Inl e \<Rightarrow> [] | Inr p \<Rightarrow> [p]) xs))) =
   mset (identities (map snd xs))"
proof (induction xs)
  case (Cons x xs)
  then show ?case
    using identity_recovered [of max_retries "snd x"] by (auto split: sum.splits)
qed simp

lemma fold_recover_pending:
  "tr_slots s + int (holders xs) \<le> tr_queue_size s \<Longrightarrow>
   fold (\<lambda>(pk, entry) (recovered, s).
         let s1 = s\<lparr>tr_pending := dict_pop pk (tr_pending s)\<rparr>
         in (recovered @ entry_items entry, if holds_slot entry then release_slot s1 else s1)) xs (ps, s) =
   (ps @ pending_items xs, s\<lparr>tr_pending := fold (\<lambda>(k, v). dict_pop k) xs (tr_pending s), tr_slots := tr_slots s + int (holders xs)\<rparr>)"
proof (induction xs arbitrary: ps s)
  case (Cons x xs)
  obtain pk entry where x: "x = (pk, entry)" by (cases x)
  show ?case
  proof (cases "holds_slot entry")
    case True
    let ?s = "s\<lparr>tr_pending := dict_pop pk (tr_pending s), tr_slots := tr_slots s + 1\<rparr>"
    have "release_slot (s\<lparr>tr_pending := dict_pop pk (tr_pending s)\<rparr>) = ?s"
      using Cons.prems True by (simp add: release_slot_def x holders_def)
    then show ?thesis
      using Cons.IH [of ?s] Cons.prems True by (simp add: x holders_def pending_items_def algebra_simps)
  next
    case False
    then show ?thesis
      using Cons.IH [of "s\<lparr>tr_pending := dict_pop pk (tr_pending s)\<rparr>"] Cons.prems
      by (simp add: x holders_def pending_items_def)
  qed
qed (simp add: holders_def pending_items_def)

lemma holders_append [simp]: "holders (xs @ ys) = holders xs + holders ys"
  by (simp add: holders_def)

lemma holders_split: "holders (filter P d) + holders (filter (\<lambda>x. \<not> P x) d) = holders d"
  by (induction d) (auto simp: holders_def)

lemma recover_pending_dispatches_eq:
  assumes "slots_ok s"
  shows "recover_pending_dispatches idx s =
    (pending_items (pending_of_worker idx (tr_pending s)),
     s\<lparr>tr_pending := filter (\<lambda>e. pending_worker (fst e) \<noteq> idx) (tr_pending s),
       tr_slots := tr_slots s + int (holders (pending_of_worker idx (tr_pending s)))\<rparr>)"
proof -
  have bound: "tr_slots s + int (holders (pending_of_worker idx (tr_pending s))) \<le> tr_queue_size s"
    using assms holders_split [of "\<lambda>e. pending_worker (fst e) = idx" "tr_pending s"]
    by (simp add: slots_ok_def pending_of_worker_def)
  have "filter (\<lambda>e. fst e \<notin> fst ` set (pending_of_worker idx (tr_pending s))) (tr_pending s) =
      filter (\<lambda>e. pending_worker (fst e) \<noteq> idx) (tr_pending s)"
    by (rule filter_cong) (force simp: pending_of_worker_def)+
  then show ?thesis
    using fold_recover_pending [OF bound, of "[]"]
    unfolding recover_pending_dispatches_def fold_pop_filter pending_of_worker_def by simp
qed

section \<open>A dispatch\<close>

lemma dict_set_fresh: "k \<notin> fst ` set d \<Longrightarrow> dict_set k v d = d @ [(k, v)]"
  by (induction d) auto

lemma dict_pop_fresh: "k \<notin> fst ` set d \<Longrightarrow> dict_pop k (d @ [(k, v)]) = d"
  by (simp add: pop_as_filter filter_id_conv image_iff) (metis fst_conv prod.collapse)

lemma send_entry_spec:
  assumes ok: "slots_ok s" and fresh: "pk \<notin> fst ` set (tr_pending s)" and holds: "holds_slot entry"
    and send: "send_entry E w pk entry s = Some (r, s')"
  shows "(\<exists>e. r = Inl e \<and> s' = s) \<or>
     (r = Inr () \<and> 0 < tr_slots s \<and> \<not> tr_shutdown s \<and>
      s' = s\<lparr>tr_slots := tr_slots s - 1, tr_pending := tr_pending s @ [(pk, entry)],
             tr_pipes := tr_pipes s @ [(w, entry_items entry)]\<rparr>)"
proof -
  have "tr_slots s \<le> tr_queue_size s"
    using ok by (simp add: slots_ok_def)
  then show ?thesis
    using send by (auto simp: send_entry_def Let_def release_slot_def dict_set_fresh [OF fresh] dict_pop_fresh [OF fresh]
        split: if_splits option.splits)
qed

lemma tracked_transport [simp]:
  "tracked_items (s\<lparr>pr_transport := tr\<rparr>) = registry_items (pr_registry s) @ pending_items (tr_pending tr)"
  by (simp add: tracked_items_def)

lemma pending_items_append [simp]: "pending_items (xs @ ys) = pending_items xs @ pending_items ys"
  by (simp add: pending_items_def)

lemma item_key_fresh:
  assumes "parent_ok s" "logical_work_identity_from_payload p \<notin> set (identities (tracked_items s))"
  shows "item_pending_key w p \<notin> fst ` set (tr_pending (pr_transport s))"
proof
  assume "item_pending_key w p \<in> fst ` set (tr_pending (pr_transport s))"
  then obtain entry where e: "(item_pending_key w p, entry) \<in> set (tr_pending (pr_transport s))" by auto
  have ok: "pending_entry_ok (item_pending_key w p, entry)"
    using assms(1) e by (auto simp: parent_ok_def list_all_iff)
  then obtain q where q: "entry = PendingItem q" "logical_work_identity_from_payload q = logical_work_identity_from_payload p"
    by (cases entry) (auto simp: item_pending_key_def)
  have "q \<in> set (tracked_items s)"
    using e unfolding q(1) by (force simp: tracked_items_def pending_items_def)
  then show False
    using assms(2) q(2) by (force simp: image_iff)
qed

lemma dispatch_payload_parent:
  assumes ok: "parent_ok s" and new: "logical_work_identity_from_payload p \<notin> set (identities (tracked_items s))"
    and unmarked: "si_timed_out p = None" and d: "dispatch_payload E p (pr_transport s) = Some (r, tr)"
  shows "(\<exists>e. r = Inl e \<and> tr = pr_transport s) \<or>
     (r = Inr () \<and> 0 < tr_slots (pr_transport s) \<and> parent_ok (s\<lparr>pr_transport := tr\<rparr>) \<and>
      tracked_items (s\<lparr>pr_transport := tr\<rparr>) = tracked_items s @ [p] \<and>
      tr = (pr_transport s)\<lparr>tr_slots := tr_slots (pr_transport s) - 1,
             tr_pending := tr_pending (pr_transport s) @ [(item_pending_key (worker_for E p) p, PendingItem p)],
             tr_pipes := tr_pipes (pr_transport s) @ [(worker_for E p, [p])]\<rparr>)"
proof -
  let ?k = "item_pending_key (worker_for E p) p"
  have fresh: "?k \<notin> fst ` set (tr_pending (pr_transport s))"
    by (rule item_key_fresh [OF ok new])
  have slots: "slots_ok (pr_transport s)" using ok by (simp add: parent_ok_def)
  have "(\<exists>e. r = Inl e \<and> tr = pr_transport s) \<or>
     (r = Inr () \<and> 0 < tr_slots (pr_transport s) \<and>
      tr = (pr_transport s)\<lparr>tr_slots := tr_slots (pr_transport s) - 1,
             tr_pending := tr_pending (pr_transport s) @ [(?k, PendingItem p)],
             tr_pipes := tr_pipes (pr_transport s) @ [(worker_for E p, [p])]\<rparr>)"
    using send_entry_spec [OF slots fresh, of "PendingItem p" E "worker_for E p" r tr] d
    by (auto simp: dispatch_payload_def)
  moreover have "parent_ok (s\<lparr>pr_transport := tr\<rparr>) \<and> tracked_items (s\<lparr>pr_transport := tr\<rparr>) = tracked_items s @ [p]"
    if "0 < tr_slots (pr_transport s)" and tr: "tr = (pr_transport s)\<lparr>tr_slots := tr_slots (pr_transport s) - 1,
             tr_pending := tr_pending (pr_transport s) @ [(?k, PendingItem p)],
             tr_pipes := tr_pipes (pr_transport s) @ [(worker_for E p, [p])]\<rparr>"
  proof -
    have t: "tracked_items (s\<lparr>pr_transport := tr\<rparr>) = tracked_items s @ [p]"
      by (simp add: tr tracked_items_def) (simp add: pending_items_def)
    have "dict_wf (tr_pending tr)"
      using ok fresh by (simp add: tr parent_ok_def dict_wf_def)
    moreover have "slots_ok tr"
      using slots that(1) by (simp add: tr slots_ok_def) (simp add: holders_def)
    moreover have "list_all pending_entry_ok (tr_pending tr)"
      using ok unmarked by (simp add: tr parent_ok_def item_pending_key_def)
    ultimately show ?thesis
      using ok new t by (simp add: parent_ok_def)
  qed
  ultimately show ?thesis by blast
qed

lemma dispatch_payload_returns: "0 < tr_slots s \<or> tr_shutdown s \<Longrightarrow> dispatch_payload E p s \<noteq> None"
  by (auto simp: dispatch_payload_def send_entry_def Let_def split: option.splits)

lemma owned_dispatched:
  "tracked_items s' = tracked_items s @ [p] \<Longrightarrow> pr_emitted s' = pr_emitted s \<Longrightarrow>
   owned s' = add_mset (logical_work_identity_from_payload p) (owned s)"
  by (simp add: owned_def)

lemma owned_emitted:
  "owned (s\<lparr>pr_emitted := pr_emitted s @ map (recovery_failure_event e a) ps\<rparr>) = owned s + mset (identities ps)"
  by (simp add: owned_def tracked_items_def comp_def)

lemma owned_emitted_one:
  "owned (s\<lparr>pr_emitted := pr_emitted s @ [recovery_failure_event e a p]\<rparr>) =
   add_mset (logical_work_identity_from_payload p) (owned s)"
  using owned_emitted [of s e a "[p]"] by simp

lemma parent_ok_emitted [simp]: "parent_ok (s\<lparr>pr_emitted := es\<rparr>) = parent_ok s"
  by (simp add: parent_ok_def tracked_items_def)

lemma tracked_emitted [simp]: "tracked_items (s\<lparr>pr_emitted := es\<rparr>) = tracked_items s"
  by (simp add: tracked_items_def)

section \<open>A round of dispatches\<close>

text \<open>What a round of dispatches adds to the pipes: each message one of the items, for the worker of its route.\<close>

definition requeues :: "('k, 'p) pipe_env \<Rightarrow> ('k, 'p) serialized_item list \<Rightarrow> ('k, 'p) process_parent \<Rightarrow> ('k, 'p) process_parent \<Rightarrow> bool" where
  "requeues E ps s s' \<longleftrightarrow>
     parent_ok s' \<and> owned s' = owned s + mset (identities ps) \<and>
     pr_registry s' = pr_registry s \<and>
     (\<exists>sent es. subseq sent ps \<and>
        tr_pending (pr_transport s') = tr_pending (pr_transport s) @ map (\<lambda>p. (item_pending_key (worker_for E p) p, PendingItem p)) sent \<and>
        tr_pipes (pr_transport s') = tr_pipes (pr_transport s) @ map (\<lambda>p. (worker_for E p, [p])) sent \<and>
        pr_emitted s' = pr_emitted s @ es)"

lemma requeues_refl: "parent_ok s \<Longrightarrow> requeues E [] s s"
  by (auto simp: requeues_def intro: exI [of _ "[]"])

lemma requeues_sent:
  assumes "requeues E ps (s\<lparr>pr_transport := tr\<rparr>) s'"
    and "tracked_items (s\<lparr>pr_transport := tr\<rparr>) = tracked_items s @ [p]"
    and tr: "tr = (pr_transport s)\<lparr>tr_slots := n,
             tr_pending := tr_pending (pr_transport s) @ [(item_pending_key (worker_for E p) p, PendingItem p)],
             tr_pipes := tr_pipes (pr_transport s) @ [(worker_for E p, [p])]\<rparr>"
  shows "requeues E (p # ps) s s'"
proof -
  have "owned (s\<lparr>pr_transport := tr\<rparr>) = add_mset (logical_work_identity_from_payload p) (owned s)"
    by (rule owned_dispatched [OF assms(2)]) simp
  moreover obtain sent es where "subseq sent ps"
    "tr_pending (pr_transport s') = tr_pending tr @ map (\<lambda>p. (item_pending_key (worker_for E p) p, PendingItem p)) sent"
    "tr_pipes (pr_transport s') = tr_pipes tr @ map (\<lambda>p. (worker_for E p, [p])) sent" "pr_emitted s' = pr_emitted s @ es"
    using assms(1) by (auto simp: requeues_def)
  ultimately show ?thesis
    using assms(1) unfolding requeues_def by (auto simp: tr intro!: exI [of _ "p # sent"])
qed

lemma requeues_failed:
  assumes "requeues E ps (s\<lparr>pr_emitted := pr_emitted s @ map (recovery_failure_event e a) qs\<rparr>) s'"
  shows "requeues E (qs @ ps) s s'"
proof -
  obtain sent es where "subseq sent ps"
    "tr_pending (pr_transport s') = tr_pending (pr_transport s) @ map (\<lambda>p. (item_pending_key (worker_for E p) p, PendingItem p)) sent"
    "tr_pipes (pr_transport s') = tr_pipes (pr_transport s) @ map (\<lambda>p. (worker_for E p, [p])) sent"
    "pr_emitted s' = pr_emitted s @ map (recovery_failure_event e a) qs @ es"
    using assms by (auto simp: requeues_def)
  then show ?thesis
    using assms owned_emitted [of s e a qs] unfolding requeues_def
    by (auto simp: ac_simps intro!: exI [of _ sent])
qed

lemma publish_requeues:
  assumes "parent_ok s" "distinct (identities (tracked_items s @ ps))" "list_all (\<lambda>p. si_timed_out p = None) ps"
    and "publish_recovered_worker_payloads E max_retries ps s = Some s'"
  shows "requeues E ps s s'"
  using assms
proof (induction ps arbitrary: s)
  case Nil
  then show ?case by (simp add: requeues_refl)
next
  case (Cons p ps)
  obtain r tr where d: "dispatch_payload E p (pr_transport s) = Some (r, tr)"
    using Cons.prems(4) by (cases "dispatch_payload E p (pr_transport s)") auto
  have new: "logical_work_identity_from_payload p \<notin> set (identities (tracked_items s))"
    using Cons.prems(2) by auto
  have un: "si_timed_out p = None" "list_all (\<lambda>p. si_timed_out p = None) ps"
    using Cons.prems(3) by auto
  from dispatch_payload_parent [OF Cons.prems(1) new un(1) d] show ?case
  proof
    assume "\<exists>e. r = Inl e \<and> tr = pr_transport s"
    then obtain e where r: "r = Inl e" "tr = pr_transport s" by auto
    let ?s = "s\<lparr>pr_emitted := pr_emitted s @ map (recovery_failure_event (''worker_requeue_failed: '' @ e) max_retries) [p]\<rparr>"
    have "publish_recovered_worker_payloads E max_retries ps ?s = Some s'"
      using Cons.prems(4) by (simp add: d r)
    then have "requeues E ps ?s s'"
      using Cons.prems un by (intro Cons.IH) auto
    then show ?thesis using requeues_failed [where qs = "[p]"] by (metis append_Cons append_Nil)
  next
    assume a: "r = Inr () \<and> 0 < tr_slots (pr_transport s) \<and> parent_ok (s\<lparr>pr_transport := tr\<rparr>) \<and>
      tracked_items (s\<lparr>pr_transport := tr\<rparr>) = tracked_items s @ [p] \<and>
      tr = (pr_transport s)\<lparr>tr_slots := tr_slots (pr_transport s) - 1,
             tr_pending := tr_pending (pr_transport s) @ [(item_pending_key (worker_for E p) p, PendingItem p)],
             tr_pipes := tr_pipes (pr_transport s) @ [(worker_for E p, [p])]\<rparr>"
    then have t: "tracked_items (s\<lparr>pr_transport := tr\<rparr>) = tracked_items s @ [p]" by blast
    have "publish_recovered_worker_payloads E max_retries ps (s\<lparr>pr_transport := tr\<rparr>) = Some s'"
      using Cons.prems(4) a by (simp add: d)
    moreover have "distinct (identities (tracked_items (s\<lparr>pr_transport := tr\<rparr>) @ ps))"
      using Cons.prems(2) unfolding t by simp
    ultimately have "requeues E ps (s\<lparr>pr_transport := tr\<rparr>) s'"
      using Cons.IH a un(2) by blast
    then show ?thesis using requeues_sent t a by blast
  qed
qed

lemma publish_returns:
  assumes "parent_ok s" "distinct (identities (tracked_items s @ ps))" "list_all (\<lambda>p. si_timed_out p = None) ps"
    and "int (length ps) \<le> tr_slots (pr_transport s) \<or> tr_shutdown (pr_transport s)"
  shows "publish_recovered_worker_payloads E max_retries ps s \<noteq> None"
  using assms
proof (induction ps arbitrary: s)
  case Nil
  then show ?case by simp
next
  case (Cons p ps)
  obtain r tr where d: "dispatch_payload E p (pr_transport s) = Some (r, tr)"
    using dispatch_payload_returns [of "pr_transport s" E p] Cons.prems(4) by fastforce
  have new: "logical_work_identity_from_payload p \<notin> set (identities (tracked_items s))"
    using Cons.prems(2) by auto
  have un: "si_timed_out p = None" "list_all (\<lambda>p. si_timed_out p = None) ps"
    using Cons.prems(3) by auto
  from dispatch_payload_parent [OF Cons.prems(1) new un(1) d] show ?case
  proof
    assume "\<exists>e. r = Inl e \<and> tr = pr_transport s"
    then show ?thesis
      using Cons.prems un Cons.IH by (auto simp: d)
  next
    assume a: "r = Inr () \<and> 0 < tr_slots (pr_transport s) \<and> parent_ok (s\<lparr>pr_transport := tr\<rparr>) \<and>
      tracked_items (s\<lparr>pr_transport := tr\<rparr>) = tracked_items s @ [p] \<and>
      tr = (pr_transport s)\<lparr>tr_slots := tr_slots (pr_transport s) - 1,
             tr_pending := tr_pending (pr_transport s) @ [(item_pending_key (worker_for E p) p, PendingItem p)],
             tr_pipes := tr_pipes (pr_transport s) @ [(worker_for E p, [p])]\<rparr>"
    then have t: "tracked_items (s\<lparr>pr_transport := tr\<rparr>) = tracked_items s @ [p]" by blast
    have "distinct (identities (tracked_items (s\<lparr>pr_transport := tr\<rparr>) @ ps))"
      using Cons.prems(2) unfolding t by simp
    moreover have "int (length ps) \<le> tr_slots (pr_transport (s\<lparr>pr_transport := tr\<rparr>)) \<or>
        tr_shutdown (pr_transport (s\<lparr>pr_transport := tr\<rparr>))"
      using Cons.prems(4) a by auto
    moreover have "parent_ok (s\<lparr>pr_transport := tr\<rparr>)" using a by blast
    ultimately have "publish_recovered_worker_payloads E max_retries ps (s\<lparr>pr_transport := tr\<rparr>) \<noteq> None"
      using un(2) by (intro Cons.IH)
    then show ?thesis using a by (simp add: d)
  qed
qed

section \<open>Recovery loses nothing\<close>

definition worker_items :: "int \<Rightarrow> ('k, 'p) process_parent \<Rightarrow> ('k, 'p) serialized_item list" where
  "worker_items idx s =
     registry_items (registry_of_worker idx (pr_registry s)) @
     pending_items (pending_of_worker idx (tr_pending (pr_transport s)))"

lemma pending_items_split:
  "mset (map f (pending_items d)) =
   mset (map f (pending_items (filter P d))) + mset (map f (pending_items (filter (\<lambda>x. \<not> P x) d)))"
  by (induction d) (auto simp: pending_items_def)

lemma registry_items_split:
  "mset (map f (registry_items d)) =
   mset (map f (registry_items (filter P d))) + mset (map f (registry_items (filter (\<lambda>x. \<not> P x) d)))"
  by (induction d) (auto simp: registry_items_def)

lemma distinct_submset:
  assumes "distinct ys" "mset ys = mset xs + M"
  shows "distinct xs"
proof -
  obtain zs where "M = mset zs" by (metis ex_mset)
  then have "mset ys = mset (xs @ zs)" using assms(2) by simp
  then show ?thesis using assms(1) mset_eq_imp_distinct_iff by (metis distinct_append)
qed

lemma mset_regroup:
  fixes A :: "'a multiset"
  assumes "F1 + Q1 = A" "F2 + Q2 = B" "R = A + R'" "P = B + P'"
  shows "R + P = (R' + P' + (Q1 + Q2)) + (F1 + F2)"
  unfolding assms(3,4) assms(1,2) [symmetric] by (simp add: ac_simps)

lemma filter_recoverable_identities:
  "mset (map logical_work_identity_from_completion_event (fst (filter_recoverable_pending_pipe_dispatches m ps))) +
   mset (identities (snd (filter_recoverable_pending_pipe_dispatches m ps))) = mset (identities ps)"
  by (induction ps) (auto simp: filter_recoverable_pending_pipe_dispatches_def)

lemma recover_entry_requeued:
  "recover_entry m p = Inr q \<Longrightarrow>
   si_timed_out p = None \<and> si_requeue_attempts p < m \<and> q = p\<lparr>si_requeue_attempts := si_requeue_attempts p + 1\<rparr>"
  by (auto simp: recover_entry_def split: option.splits if_splits)

definition requeue_of :: "int \<Rightarrow> ('k, 'p) serialized_item list \<Rightarrow> ('k, 'p) serialized_item \<Rightarrow> bool" where
  "requeue_of m ps q \<longleftrightarrow> (\<exists>p\<in>set ps. si_timed_out p = None \<and> si_requeue_attempts p < m \<and>
     q = p\<lparr>si_requeue_attempts := si_requeue_attempts p + 1\<rparr>)"

lemma entry_unmarked: "pending_entry_ok (pk, entry) \<Longrightarrow> p \<in> set (entry_items entry) \<Longrightarrow> si_timed_out p = None"
  by (cases entry) (auto simp: list_all_iff)

lemma pending_unmarked:
  "parent_ok s \<Longrightarrow> p \<in> set (pending_items (tr_pending (pr_transport s))) \<Longrightarrow> si_timed_out p = None"
  by (auto simp: parent_ok_def pending_items_def list_all_iff dest: entry_unmarked)

lemma pending_of_worker_subset: "set (pending_items (pending_of_worker idx d)) \<subseteq> set (pending_items d)"
  by (auto simp: pending_items_def pending_of_worker_def)

lemma collect_spec:
  assumes ok: "parent_ok s" and c: "collect_recoverable_worker_payloads m idx s = (qs, s1)"
  shows "parent_ok s1 \<and> distinct (identities (tracked_items s1 @ qs)) \<and>
    owned s1 + mset (identities qs) = owned s \<and>
    list_all (requeue_of m (worker_items idx s)) qs \<and>
    pr_registry s1 = filter (\<lambda>e. fst (fst e) \<noteq> idx) (pr_registry s) \<and>
    pr_transport s1 = (pr_transport s)
      \<lparr>tr_pending := filter (\<lambda>e. pending_worker (fst e) \<noteq> idx) (tr_pending (pr_transport s)),
       tr_slots := tr_slots (pr_transport s) + int (holders (pending_of_worker idx (tr_pending (pr_transport s))))\<rparr> \<and>
    (\<exists>es. pr_emitted s1 = pr_emitted s @ es)"
proof -
  let ?R = "registry_of_worker idx (pr_registry s)" and ?P = "pending_items (pending_of_worker idx (tr_pending (pr_transport s)))"
  let ?f1 = "concat (map (\<lambda>x. case recover_entry m (snd x) of Inl e \<Rightarrow> [e] | Inr p \<Rightarrow> []) ?R)"
  let ?q1 = "concat (map (\<lambda>x. case recover_entry m (snd x) of Inl e \<Rightarrow> [] | Inr p \<Rightarrow> [p]) ?R)"
  let ?f2 = "fst (filter_recoverable_pending_pipe_dispatches m ?P)" and ?q2 = "snd (filter_recoverable_pending_pipe_dispatches m ?P)"
  let ?reg = "filter (\<lambda>e. fst (fst e) \<noteq> idx) (pr_registry s)"
  let ?tr = "(pr_transport s)
      \<lparr>tr_pending := filter (\<lambda>e. pending_worker (fst e) \<noteq> idx) (tr_pending (pr_transport s)),
       tr_slots := tr_slots (pr_transport s) + int (holders (pending_of_worker idx (tr_pending (pr_transport s))))\<rparr>"
  have slots: "slots_ok (pr_transport s)" using ok by (simp add: parent_ok_def)
  have q: "qs = ?q1 @ ?q2" and s1: "s1 = \<lparr>pr_registry = ?reg, pr_transport = ?tr, pr_emitted = pr_emitted s @ ?f1 @ ?f2\<rparr>"
    using c by (auto simp: collect_recoverable_worker_payloads_def recover_dead_worker_items_eq
        recover_pending_dispatches_eq [OF slots] split_beta)
  have reg: "mset (identities (registry_items (pr_registry s))) =
      mset (identities (map snd ?R)) + mset (identities (registry_items ?reg))"
    using registry_items_split [of logical_work_identity_from_payload "pr_registry s" "\<lambda>e. fst (fst e) = idx"]
    unfolding registry_of_worker_def registry_items_def .
  have pend: "mset (identities (pending_items (tr_pending (pr_transport s)))) =
      mset (identities ?P) + mset (identities (pending_items (tr_pending ?tr)))"
    using pending_items_split [of logical_work_identity_from_payload "tr_pending (pr_transport s)" "\<lambda>e. pending_worker (fst e) = idx"]
    unfolding pending_of_worker_def by simp
  have all: "mset (identities (tracked_items s)) = mset (identities (tracked_items s1 @ qs)) +
      mset (map logical_work_identity_from_completion_event (?f1 @ ?f2))"
    using mset_regroup [OF recovered_identities [of m ?R] filter_recoverable_identities [of m ?P] reg pend]
    unfolding tracked_items_def s1 q map_append mset_append process_parent.simps .
  have own: "owned s1 + mset (identities qs) = owned s"
    using all unfolding owned_def s1 map_append mset_append process_parent.simps by (simp add: ac_simps)
  have dist: "distinct (identities (tracked_items s1 @ qs))"
    using ok all by (intro distinct_submset [OF _ all]) (simp add: parent_ok_def)
  have wf: "dict_wf (pr_registry s1)" "dict_wf (tr_pending (pr_transport s1))"
    "list_all registry_entry_ok (pr_registry s1)" "list_all pending_entry_ok (tr_pending (pr_transport s1))"
    using ok by (auto simp: parent_ok_def s1 dict_wf_def distinct_map_filter list_all_iff)
  have "slots_ok (pr_transport s1)"
    using slots holders_split [of "\<lambda>e. pending_worker (fst e) = idx" "tr_pending (pr_transport s)"]
    by (simp add: s1 slots_ok_def pending_of_worker_def)
  with wf dist have "parent_ok s1" by (simp add: parent_ok_def)
  moreover have "requeue_of m (worker_items idx s) q" if "q \<in> set qs" for q
    using that unfolding q set_append
  proof
    assume "q \<in> set ?q1"
    then obtain x where "x \<in> set ?R" "recover_entry m (snd x) = Inr q" by (auto split: sum.splits)
    then show ?thesis using recover_entry_requeued [of m "snd x" q]
      by (auto simp: requeue_of_def worker_items_def registry_items_def)
  next
    assume "q \<in> set ?q2"
    then obtain p where "p \<in> set ?P" "si_requeue_attempts p < m" "q = p\<lparr>si_requeue_attempts := si_requeue_attempts p + 1\<rparr>"
      by (auto simp: filter_recoverable_pending_pipe_dispatches_def)
    then show ?thesis using pending_unmarked [OF ok, of p] pending_of_worker_subset
      by (auto simp: requeue_of_def worker_items_def)
  qed
  ultimately show ?thesis
    using own dist by (simp add: s1 list_all_iff)
qed

lemma requeue_of_unmarked: "list_all (requeue_of m ps) qs \<Longrightarrow> list_all (\<lambda>p. si_timed_out p = None) qs"
  by (auto simp: list_all_iff requeue_of_def)

lemma recover_worker_spec:
  assumes ok: "parent_ok s" and r: "recover_worker E m idx restart_error s = Some s'"
  shows "parent_ok s' \<and> owned s' = owned s \<and>
    pr_registry s' = filter (\<lambda>e. fst (fst e) \<noteq> idx) (pr_registry s) \<and>
    (\<exists>es. pr_emitted s' = pr_emitted s @ es) \<and>
    (\<exists>sent. list_all (requeue_of m (worker_items idx s)) sent \<and> (restart_error \<noteq> None \<longrightarrow> sent = []) \<and>
       tr_pipes (pr_transport s') = tr_pipes (pr_transport s) @ map (\<lambda>p. (worker_for E p, [p])) sent \<and>
       tr_pending (pr_transport s') =
         filter (\<lambda>e. pending_worker (fst e) \<noteq> idx) (tr_pending (pr_transport s)) @
         map (\<lambda>p. (item_pending_key (worker_for E p) p, PendingItem p)) sent)"
proof -
  obtain qs s1 where c: "collect_recoverable_worker_payloads m idx s = (qs, s1)" by fastforce
  note C = collect_spec [OF ok c]
  show ?thesis
  proof (cases restart_error)
    case None
    then have "publish_recovered_worker_payloads E m qs s1 = Some s'"
      using r by (simp add: recover_worker_def c)
    then have R: "requeues E qs s1 s'"
      using C requeue_of_unmarked by (intro publish_requeues) blast+
    then obtain sent es where "subseq sent qs"
      "tr_pending (pr_transport s') = tr_pending (pr_transport s1) @ map (\<lambda>p. (item_pending_key (worker_for E p) p, PendingItem p)) sent"
      "tr_pipes (pr_transport s') = tr_pipes (pr_transport s1) @ map (\<lambda>p. (worker_for E p, [p])) sent" "pr_emitted s' = pr_emitted s1 @ es"
      by (auto simp: requeues_def)
    moreover have "list_all (requeue_of m (worker_items idx s)) sent"
      using \<open>subseq sent qs\<close> C by (auto simp: list_all_iff dest: list_emb_set)
    moreover have "parent_ok s' \<and> owned s' = owned s \<and> pr_registry s' = pr_registry s1"
      using R C by (simp add: requeues_def)
    ultimately show ?thesis using C None by (auto intro!: exI [of _ sent])
  next
    case (Some e)
    then have s': "s' = s1\<lparr>pr_emitted := pr_emitted s1 @ map (recovery_failure_event (''worker_restart_failed: '' @ e) m) qs\<rparr>"
      using r by (simp add: recover_worker_def c)
    have "owned s' = owned s"
      using C owned_emitted unfolding s' by metis
    moreover have "\<exists>es. pr_emitted s' = pr_emitted s @ es"
      using C by (elim conjE exE) (simp add: s')
    moreover have "parent_ok s'" "pr_registry s' = filter (\<lambda>e. fst (fst e) \<noteq> idx) (pr_registry s)"
      "tr_pipes (pr_transport s') = tr_pipes (pr_transport s) @ map (\<lambda>p. (worker_for E p, [p])) []"
      "tr_pending (pr_transport s') = filter (\<lambda>e. pending_worker (fst e) \<noteq> idx) (tr_pending (pr_transport s)) @
         map (\<lambda>p. (item_pending_key (worker_for E p) p, PendingItem p)) []"
      using C by (simp_all add: s')
    ultimately show ?thesis by (metis list.pred_inject(1))
  qed
qed

text \<open>Recovery ends when there is a slot for each item of the dead worker, and always when it fails to restart.\<close>

lemma requeue_length: "collect_recoverable_worker_payloads m idx s = (qs, s1) \<Longrightarrow> slots_ok (pr_transport s) \<Longrightarrow>
  length qs \<le> length (worker_items idx s)"
proof -
  assume c: "collect_recoverable_worker_payloads m idx s = (qs, s1)" and ok: "slots_ok (pr_transport s)"
  have "length (concat (map (\<lambda>x. case recover_entry m (snd x) of Inl e \<Rightarrow> [] | Inr p \<Rightarrow> [p]) R)) \<le> length (registry_items R)"
    for R :: "('a, 'b) registry"
    by (induction R) (auto simp: registry_items_def split: sum.splits)
  moreover have "length (snd (filter_recoverable_pending_pipe_dispatches m ps)) \<le> length ps" for ps :: "('a, 'b) serialized_item list"
    by (simp add: filter_recoverable_pending_pipe_dispatches_def)
  ultimately show ?thesis
    using c by (auto simp: collect_recoverable_worker_payloads_def recover_dead_worker_items_eq
        recover_pending_dispatches_eq [OF ok] split_beta worker_items_def intro!: add_mono)
qed

lemma recovery_returns:
  assumes ok: "parent_ok s"
    and "restart_error \<noteq> None \<or> tr_shutdown (pr_transport s) \<or> int (length (worker_items idx s)) \<le> tr_slots (pr_transport s)"
  shows "recover_worker E m idx restart_error s \<noteq> None"
proof -
  obtain qs s1 where c: "collect_recoverable_worker_payloads m idx s = (qs, s1)" by fastforce
  note C = collect_spec [OF ok c]
  have l: "length qs \<le> length (worker_items idx s)"
    using requeue_length [OF c] ok by (simp add: parent_ok_def)
  show ?thesis
  proof (cases restart_error)
    case None
    then have "int (length qs) \<le> tr_slots (pr_transport s1) \<or> tr_shutdown (pr_transport s1)"
      using assms(2) l C by auto
    then have "publish_recovered_worker_payloads E m qs s1 \<noteq> None"
      using C requeue_of_unmarked by (intro publish_returns) blast+
    then show ?thesis by (simp add: recover_worker_def c None)
  next
    case (Some e)
    then show ?thesis by (simp add: recover_worker_def c)
  qed
qed

text \<open>
  C34. The death of a worker loses nothing. Recovery keeps the invariant (exact slots, one entry
  per item); what the parent answers for, tracked or emitted as failed, is the same multiset of
  items as before; nothing of the dead worker is left in the registry and the other workers'
  entries are untouched; every item that is sent again was one of the dead worker's, was not
  timed out and had budget left, counts one more attempt, and is pending at the worker of its route. Recovery
  returns when there is a free slot for each item of the worker, and always when the restart fails.
\<close>

theorem recovery_loses_nothing:
  assumes ok: "parent_ok s"
  shows "(restart_error \<noteq> None \<or> tr_shutdown (pr_transport s) \<or> int (length (worker_items idx s)) \<le> tr_slots (pr_transport s)
      \<longrightarrow> recover_worker E m idx restart_error s \<noteq> None) \<and>
    (\<forall>s'. recover_worker E m idx restart_error s = Some s' \<longrightarrow>
      parent_ok s' \<and> owned s' = owned s \<and>
      pr_registry s' = filter (\<lambda>e. fst (fst e) \<noteq> idx) (pr_registry s) \<and>
      (\<exists>es. pr_emitted s' = pr_emitted s @ es) \<and>
      (\<exists>sent. list_all (requeue_of m (worker_items idx s)) sent \<and> (restart_error \<noteq> None \<longrightarrow> sent = []) \<and>
         tr_pipes (pr_transport s') = tr_pipes (pr_transport s) @ map (\<lambda>p. (worker_for E p, [p])) sent \<and>
         tr_pending (pr_transport s') =
           filter (\<lambda>e. pending_worker (fst e) \<noteq> idx) (tr_pending (pr_transport s)) @
           map (\<lambda>p. (item_pending_key (worker_for E p) p, PendingItem p)) sent))"
  using recovery_returns [OF ok] recover_worker_spec [OF ok] by blast

definition demo_item :: "int \<Rightarrow> int \<Rightarrow> (nat, nat) serialized_item" where
  "demo_item off attempts =
     \<lparr>si_id = ''a'', si_topic = ''t'', si_partition = 0, si_offset = off, si_epoch = 1, si_key = 7,
      si_payload = 9, si_requeue_attempts = attempts, si_timed_out = None\<rparr>"

definition demo_pipe_env :: "(nat, nat) pipe_env" where
  "demo_pipe_env = \<lparr>pv_worker_of_route = \<lambda>t p k. int (k mod 2), pv_send_error = \<lambda>w ps. None\<rparr>"

definition demo_parent :: "(nat, nat) process_parent" where
  "demo_parent =
     \<lparr>pr_registry = [((1, ''t'', 0, 4), demo_item 4 0), ((1, ''t'', 0, 5), (demo_item 5 0)\<lparr>si_timed_out := Some (''late'', 1)\<rparr>)],
      pr_transport = \<lparr>tr_queue_size = 4, tr_slots = 4,
        tr_pending = [(BatchKey 1 ''b'', PendingBatch ''b'' [demo_item 6 2, demo_item 7 1] True)],
        tr_pipes = [], tr_shutdown = False\<rparr>,
      pr_emitted = []\<rparr>"

lemma demo_parent_ok: "parent_ok demo_parent"
  by (simp add: parent_ok_def demo_parent_def demo_item_def dict_wf_def slots_ok_def holders_def tracked_items_def
      registry_items_def pending_items_def logical_work_identity_from_payload_def)

lemma demo_recovered:
  "map_option (\<lambda>s'. (map ce_offset (pr_emitted s'), tr_pipes (pr_transport s'))) (recover_worker demo_pipe_env 2 1 None demo_parent) =
   Some ([5, 6], [(1, [demo_item 4 1]), (1, [demo_item 7 2])])"
  by code_simp

theorem recovery_loses_nothing_witness:
  "\<exists>s'. recover_worker demo_pipe_env 2 1 None demo_parent = Some s' \<and>
     map ce_offset (pr_emitted s') = [5, 6] \<and> tr_pipes (pr_transport s') = [(1, [demo_item 4 1]), (1, [demo_item 7 2])] \<and>
     owned s' = owned demo_parent \<and> parent_ok s'"
proof -
  have "int (length (worker_items 1 demo_parent)) \<le> tr_slots (pr_transport demo_parent)"
    by (simp add: worker_items_def demo_parent_def registry_of_worker_def pending_of_worker_def registry_items_def pending_items_def)
  note R = recovery_loses_nothing [OF demo_parent_ok, of None 1 demo_pipe_env 2]
  obtain s' where s': "recover_worker demo_pipe_env 2 1 None demo_parent = Some s'"
    using R [THEN conjunct1] \<open>int _ \<le> _\<close> by (metis option.exhaust)
  note S = R [THEN conjunct2, THEN spec, THEN mp, OF s']
  have "map ce_offset (pr_emitted s') = [5, 6] \<and> tr_pipes (pr_transport s') = [(1, [demo_item 4 1]), (1, [demo_item 7 2])]"
    using demo_recovered by (simp add: s')
  then show ?thesis
    using s' S [THEN conjunct1] S [THEN conjunct2, THEN conjunct1] by (intro exI [of _ s'] conjI) simp_all
qed

end
