(* ===== verification/Worker_Runtime.thy ===== *)
theory Worker_Runtime
  imports Complex_Main Process_Registry
begin

text \<open>
  The worker process of \<open>process_worker_runtime.py\<close>: the attempts on one item, the handling of one
  message (a single item or a route batch), and the loop over messages. A worker acts on its
  parent only by what it puts on two queues, the registry events and the completions, so the model
  of a message is the sequence of its puts and how the loop goes on after it. The user's function,
  msgpack, the completion queue and the jitter are parameters.

  The theorem says exactly what a reported outcome means; \<open>Worker_Safety\<close> runs the parent on the
  puts of a worker that may die after any of them.
\<close>

section \<open>One item\<close>

datatype call_outcome = CallReturned | CallTimeout string | CallRaised string

datatype item_result =
    Settled completion_status "string option" int
  | FatalTimeout string int

text \<open>\<open>_calculate_backoff\<close>, in seconds; \<open>jitter_ms\<close> is the value \<open>random.randint\<close> gives.\<close>

definition calculate_backoff :: "int \<Rightarrow> int \<Rightarrow> bool \<Rightarrow> int \<Rightarrow> int \<Rightarrow> int \<Rightarrow> real" where
  "calculate_backoff attempt retry_backoff_ms exponential_backoff max_retry_backoff_ms retry_jitter_ms jitter_ms =
     (let backoff_ms = (if exponential_backoff then retry_backoff_ms * 2 ^ nat (attempt - 1) else retry_backoff_ms);
          jitter = (if retry_jitter_ms > 0 then jitter_ms else 0)
      in real_of_int (min backoff_ms max_retry_backoff_ms + jitter) / 1000)"

text \<open>\<open>for attempt in range(1, max_retries + 1)\<close>.\<close>

function run_attempts :: "int \<Rightarrow> (int \<Rightarrow> call_outcome) \<Rightarrow> int \<Rightarrow> item_result \<Rightarrow> item_result" where
  "run_attempts max_retries call attempt result =
     (if attempt > max_retries then result
      else case call attempt of
             CallReturned \<Rightarrow> Settled SUCCESS None attempt
           | CallTimeout e \<Rightarrow> FatalTimeout e attempt
           | CallRaised e \<Rightarrow> run_attempts max_retries call (attempt + 1) (Settled FAILURE (Some e) attempt))"
  by pat_completeness auto
termination by (relation "measure (\<lambda>(m, c, a, l). nat (m + 1 - a))") auto

declare run_attempts.simps [simp del]

definition run_item :: "int \<Rightarrow> (int \<Rightarrow> call_outcome) \<Rightarrow> item_result" where
  "run_item max_retries call = run_attempts max_retries call 1 (Settled FAILURE None 0)"

section \<open>One message\<close>

datatype completion_message = OneCompletion completion_event | ManyCompletions string "completion_event list"

datatype ('k, 'p) worker_action = PutEvent "('k, 'p) registry_event" | PutCompletion completion_message

text \<open>
  \<open>we_packs\<close> and \<open>we_puts\<close> say whether packing a completion message and putting it on the queue
  succeed; \<open>we_recycle_limit\<close> is \<open>max_tasks_per_child\<close> with its jitter, if set.
\<close>

record ('k, 'p) worker_env =
  we_index :: int
  we_max_retries :: int
  we_call :: "('k, 'p) serialized_item \<Rightarrow> int \<Rightarrow> call_outcome"
  we_packs :: "completion_message \<Rightarrow> bool"
  we_puts :: "completion_message \<Rightarrow> bool"
  we_recycle_limit :: "int option"

definition recycle_limit :: "int \<Rightarrow> int \<Rightarrow> int \<Rightarrow> int option" where
  "recycle_limit max_tasks_per_child recycle_jitter_ms jitter =
     (let sampled_jitter = (if recycle_jitter_ms > 0 then jitter else 0)
      in if max_tasks_per_child > 0 then Some (max_tasks_per_child + sampled_jitter) else None)"

definition in_flight_key :: "int \<Rightarrow> ('k, 'p) serialized_item \<Rightarrow> registry_key" where
  "in_flight_key idx p = (idx, si_topic p, si_partition p, si_offset p)"

definition completion_of :: "('k, 'p) serialized_item \<Rightarrow> completion_status \<Rightarrow> string option \<Rightarrow> int \<Rightarrow> completion_event" where
  "completion_of p status error attempt =
     \<lparr>ce_id = si_id p, ce_tp = TopicPartition (si_topic p) (si_partition p), ce_offset = si_offset p,
      ce_epoch = si_epoch p, ce_status = status, ce_error = error, ce_attempt = attempt\<rparr>"

definition done_event :: "int \<Rightarrow> ('k, 'p) serialized_item \<Rightarrow> ('k, 'p) registry_event" where
  "done_event idx p = DoneEvent (in_flight_key idx p) (logical_work_identity_from_payload p)"

definition put_completion :: "('k, 'p) worker_env \<Rightarrow> completion_message \<Rightarrow> ('k, 'p) worker_action list" where
  "put_completion env msg = (if we_packs env msg \<and> we_puts env msg then [PutCompletion msg] else [])"

definition flush_route_batch_completion ::
  "('k, 'p) worker_env \<Rightarrow> string \<Rightarrow> completion_event list \<Rightarrow> ('k, 'p) worker_action list" where
  "flush_route_batch_completion env batch_id results =
     (if results = [] then []
      else if we_packs env (ManyCompletions batch_id results) \<and> we_puts env (ManyCompletions batch_id results)
      then [PutCompletion (ManyCompletions batch_id results)]
      else PutEvent (BatchCompletionSendFailed batch_id) #
           concat (map (\<lambda>e. put_completion env (OneCompletion e)) results))"

text \<open>What follows the loop over the payloads.\<close>

definition after_batch ::
  "('k, 'p) worker_env \<Rightarrow> string option \<Rightarrow> bool \<Rightarrow> completion_event list \<Rightarrow> ('k, 'p) registry_event list
    \<Rightarrow> ('k, 'p) worker_action list" where
  "after_batch env batch_id report_batch results dones =
     (if report_batch then [PutEvent BatchCompleted] else []) @
     (case batch_id of
        None \<Rightarrow> []
      | Some b \<Rightarrow> if results = [] then [] else flush_route_batch_completion env b results @ map PutEvent dones)"

datatype loop_exit = NextMessage | LeaveLoop | ExitedOnTimeout | Crashed

definition count_task :: "('k, 'p) worker_env \<Rightarrow> int \<Rightarrow> int \<times> bool" where
  "count_task env tasks =
     (case we_recycle_limit env of None \<Rightarrow> (tasks, False) | Some l \<Rightarrow> (tasks + 1, tasks + 1 \<ge> l))"

text \<open>
  The loop over the payloads of a message. \<open>started\<close> says that an attempt was made on some payload
  so far. A recycled worker tries to hand the rest of its message back through its own end of the
  pipe; that end is the receiving one of a one-way pipe, where \<open>send_bytes\<close> raises, which ends the
  process.
\<close>

fun run_payloads ::
  "('k, 'p) worker_env \<Rightarrow> string option \<Rightarrow> int \<Rightarrow> bool \<Rightarrow> completion_event list \<Rightarrow> ('k, 'p) registry_event list
    \<Rightarrow> ('k, 'p) serialized_item list \<Rightarrow> ('k, 'p) worker_action list \<times> int \<times> loop_exit" where
  "run_payloads env b tasks started results dones [] = (after_batch env b False results dones, tasks, NextMessage)"
| "run_payloads env b tasks started results dones (p # ps) =
     (let idx = we_index env;
          start = PutEvent (StartEvent (in_flight_key idx p) p);
          started' = (started \<or> we_max_retries env \<ge> 1);
          (tasks', full) = count_task env tasks
      in case run_item (we_max_retries env) (we_call env p) of
           FatalTimeout e a \<Rightarrow>
             if full \<and> ps \<noteq> [] then ([start, PutEvent (TimeoutEvent (in_flight_key idx p) p a e)], tasks', Crashed)
             else ([start, PutEvent (TimeoutEvent (in_flight_key idx p) p a e)] @ after_batch env b False results dones,
                   tasks', ExitedOnTimeout)
         | Settled status error a \<Rightarrow>
             let ce = completion_of p status error a;
                 report = (if started' \<and> ps = [] then [PutEvent BatchCompleted] else [])
             in case b of
                  None \<Rightarrow>
                    if \<not> we_packs env (OneCompletion ce) then (start # report, tasks, Crashed)
                    else let acts = start # report @ put_completion env (OneCompletion ce) @ [PutEvent (done_event idx p)]
                         in if full then (acts, tasks', if ps \<noteq> [] then Crashed else LeaveLoop)
                            else let (rest, tasks'', e) = run_payloads env b tasks' started' results dones ps
                                 in (acts @ rest, tasks'', e)
                | Some bid \<Rightarrow>
                    let results' = results @ [ce]; dones' = dones @ [done_event idx p]
                    in if status = FAILURE
                       then (start # report @ (if ps \<noteq> [] then [PutEvent (NotStarted bid ps)] else []) @
                               after_batch env b (started' \<and> ps \<noteq> []) results' dones', tasks, NextMessage)
                       else if full
                       then (if ps \<noteq> [] then (start # report, tasks', Crashed)
                             else (start # report @ after_batch env b False results' dones', tasks', LeaveLoop))
                       else let (rest, tasks'', e) = run_payloads env b tasks' started' results' dones' ps
                            in (start # report @ rest, tasks'', e))"

section \<open>The loop\<close>

datatype ('k, 'p) pipe_message =
    Sentinel
  | Undecodable string
  | Payloads (flush_stamped: bool) (message_batch: "string option") (message_items: "('k, 'p) serialized_item list")

definition decode_failure_event :: "string \<Rightarrow> completion_event" where
  "decode_failure_event error =
     \<lparr>ce_id = '''', ce_tp = TopicPartition '''' 0, ce_offset = - 1, ce_epoch = 0, ce_status = FAILURE,
      ce_error = Some error, ce_attempt = 1\<rparr>"

definition run_message ::
  "('k, 'p) worker_env \<Rightarrow> int \<Rightarrow> bool \<Rightarrow> string option \<Rightarrow> ('k, 'p) serialized_item list
    \<Rightarrow> ('k, 'p) worker_action list \<times> int \<times> loop_exit" where
  "run_message env tasks stamped batch_id ps =
     (let (acts, tasks', e) = run_payloads env batch_id tasks False [] [] ps
      in ((if stamped then [PutEvent BatchReceived] else []) @ acts, tasks', e))"

text \<open>The messages the worker never read come back beside its puts; a closed pipe ends the loop like the sentinel.\<close>

fun worker_loop ::
  "('k, 'p) worker_env \<Rightarrow> int \<Rightarrow> ('k, 'p) pipe_message list
    \<Rightarrow> ('k, 'p) worker_action list \<times> loop_exit \<times> ('k, 'p) pipe_message list" where
  "worker_loop env tasks [] = ([], LeaveLoop, [])"
| "worker_loop env tasks (Sentinel # ms) = ([], LeaveLoop, ms)"
| "worker_loop env tasks (Undecodable error # ms) =
     (let (acts, e, unread) = worker_loop env tasks ms
      in (put_completion env (OneCompletion (decode_failure_event error)) @ acts, e, unread))"
| "worker_loop env tasks (Payloads stamped b ps # ms) =
     (case run_message env tasks stamped b ps of
        (acts, tasks', NextMessage) \<Rightarrow>
          let (acts', e, unread) = worker_loop env tasks' ms in (acts @ acts', e, unread)
      | (acts, tasks', e) \<Rightarrow> (acts, e, ms))"

section \<open>The parent at work\<close>

text \<open>\<open>drain_registry_event_queue\<close> on the events that are visible; \<open>None\<close> when a requeue waits for a slot.\<close>

fun drain_registry_event_queue ::
  "('k, 'p) pipe_env \<Rightarrow> int \<Rightarrow> ('k, 'p) registry_event list \<Rightarrow> ('k, 'p) process_parent \<Rightarrow> ('k, 'p) process_parent option" where
  "drain_registry_event_queue E m [] s = Some s"
| "drain_registry_event_queue E m (e # es) s =
     (case engine_apply_registry_event E m e s of
        None \<Rightarrow> None
      | Some s' \<Rightarrow> drain_registry_event_queue E m es s')"

section \<open>The attempts on an item\<close>

lemma run_attempts_cases:
  assumes "1 \<le> k"
  shows "(\<exists>a. k \<le> a \<and> a \<le> m \<and> (\<forall>j. k \<le> j \<and> j < a \<longrightarrow> (\<exists>e. call j = CallRaised e)) \<and>
      (call a = CallReturned \<and> run_attempts m call k r = Settled SUCCESS None a \<or>
       (\<exists>e. call a = CallTimeout e \<and> run_attempts m call k r = FatalTimeout e a))) \<or>
    (\<forall>j. k \<le> j \<and> j \<le> m \<longrightarrow> (\<exists>e. call j = CallRaised e)) \<and>
      (if m < k then run_attempts m call k r = r else \<exists>e. call m = CallRaised e \<and> run_attempts m call k r = Settled FAILURE (Some e) m)"
  using assms
proof (induction m call k r rule: run_attempts.induct)
  case (1 m call k r)
  show ?case
  proof (cases "m < k")
    case True
    then show ?thesis by (auto simp: run_attempts.simps [of m call k r])
  next
    case le: False
    show ?thesis
    proof (cases "call k")
      case CallReturned
      then have "run_attempts m call k r = Settled SUCCESS None k" using le by (simp add: run_attempts.simps [of m call k r])
      then show ?thesis using CallReturned le by (intro disjI1 exI [of _ k]) auto
    next
      case (CallTimeout e)
      then have "run_attempts m call k r = FatalTimeout e k" using le by (simp add: run_attempts.simps [of m call k r])
      then show ?thesis using CallTimeout le by (intro disjI1 exI [of _ k]) auto
    next
      case (CallRaised e)
      let ?r = "Settled FAILURE (Some e) k"
      have eq: "run_attempts m call k r = run_attempts m call (k + 1) ?r"
        using CallRaised le by (simp add: run_attempts.simps [of m call k r])
      from "1.IH" [OF le CallRaised] "1.prems"
      have "(\<exists>a. k + 1 \<le> a \<and> a \<le> m \<and> (\<forall>j. k + 1 \<le> j \<and> j < a \<longrightarrow> (\<exists>e. call j = CallRaised e)) \<and>
          (call a = CallReturned \<and> run_attempts m call (k + 1) ?r = Settled SUCCESS None a \<or>
           (\<exists>e. call a = CallTimeout e \<and> run_attempts m call (k + 1) ?r = FatalTimeout e a))) \<or>
        (\<forall>j. k + 1 \<le> j \<and> j \<le> m \<longrightarrow> (\<exists>e. call j = CallRaised e)) \<and>
          (if m < k + 1 then run_attempts m call (k + 1) ?r = ?r
           else \<exists>e. call m = CallRaised e \<and> run_attempts m call (k + 1) ?r = Settled FAILURE (Some e) m)"
        (is "?A \<or> ?B") by simp
      then show ?thesis
      proof
        assume ?A
        then obtain a where "k + 1 \<le> a" "a \<le> m" "\<forall>j. k + 1 \<le> j \<and> j < a \<longrightarrow> (\<exists>e. call j = CallRaised e)"
          "call a = CallReturned \<and> run_attempts m call (k + 1) ?r = Settled SUCCESS None a \<or>
           (\<exists>e. call a = CallTimeout e \<and> run_attempts m call (k + 1) ?r = FatalTimeout e a)" by blast
        moreover have "\<exists>e. call j = CallRaised e" if "k \<le> j \<and> j < a" for j
          using calculation(3) CallRaised that by (cases "j = k") auto
        ultimately show ?thesis unfolding eq by (intro disjI1 exI [of _ a]) auto
      next
        assume B: ?B
        have "\<exists>e. call j = CallRaised e" if "k \<le> j \<and> j \<le> m" for j
          using B [THEN conjunct1] CallRaised that by (cases "j = k") auto
        moreover have "\<exists>e. call m = CallRaised e \<and> run_attempts m call (k + 1) ?r = Settled FAILURE (Some e) m"
        proof (cases "m = k")
          case True
          then show ?thesis using B [THEN conjunct2] CallRaised by simp
        next
          case False
          then show ?thesis using B [THEN conjunct2] le by simp
        qed
        ultimately show ?thesis using le unfolding eq by simp
      qed
    qed
  qed
qed


text \<open>
  The attempts on an item. A success is reported with its attempt, which is the first call
  that returned, all calls before it having raised; a timeout ends the attempts at once; a failure
  is reported only after \<open>max_retries\<close> calls, all of which raised, with the text of the last one,
  or, when \<open>max_retries\<close> allows no call at all, with no text and attempt 0.
\<close>

theorem attempts_exact:
  "case run_item m call of
     Settled SUCCESS err a \<Rightarrow>
       1 \<le> a \<and> a \<le> m \<and> err = None \<and> call a = CallReturned \<and> (\<forall>j. 1 \<le> j \<and> j < a \<longrightarrow> (\<exists>e. call j = CallRaised e))
   | FatalTimeout e a \<Rightarrow>
       1 \<le> a \<and> a \<le> m \<and> call a = CallTimeout e \<and> (\<forall>j. 1 \<le> j \<and> j < a \<longrightarrow> (\<exists>e. call j = CallRaised e))
   | Settled FAILURE err a \<Rightarrow>
       (\<forall>j. 1 \<le> j \<and> j \<le> m \<longrightarrow> (\<exists>e. call j = CallRaised e)) \<and>
       (if m < 1 then err = None \<and> a = 0 else a = m \<and> (\<exists>e. err = Some e \<and> call m = CallRaised e))"
  using run_attempts_cases [of 1 m call "Settled FAILURE None 0"]
  unfolding run_item_def by (auto split: if_splits)

definition demo_calls :: "int \<Rightarrow> call_outcome" where
  "demo_calls a = (if a < 3 then CallRaised ''boom'' else CallReturned)"

theorem attempts_exact_witness:
  "run_item 3 demo_calls = Settled SUCCESS None 3 \<and> demo_calls 3 = CallReturned \<and> (\<exists>e. demo_calls 2 = CallRaised e)"
proof -
  have r: "run_item 3 demo_calls = Settled SUCCESS None 3" by code_simp
  show ?thesis using attempts_exact [of 3 demo_calls] unfolding r by simp
qed

end
