(* ===== verification/Worker_Safety.thy ===== *)
theory Worker_Safety
  imports Worker_Runtime
begin

text \<open>
  The worker of \<open>Worker_Runtime\<close> against its parent of \<open>Process_Registry\<close>. The parent applies the
  registry events a worker put, in order; a weakest precondition over the sequence of puts carries
  the parent's invariant and its balance of items through a message. The theorem holds for every
  prefix of the puts, that is, for a worker that dies at any moment.
\<close>

section \<open>Puts and what the parent makes of them\<close>

fun completion_events :: "completion_message \<Rightarrow> completion_event list" where
  "completion_events (OneCompletion e) = [e]"
| "completion_events (ManyCompletions b es) = es"

definition event_identities :: "completion_message \<Rightarrow> work_identity set" where
  "event_identities msg = logical_work_identity_from_completion_event ` set (completion_events msg)"

fun action_events :: "('k, 'p) worker_action list \<Rightarrow> ('k, 'p) registry_event list" where
  "action_events [] = []"
| "action_events (PutEvent e # acts) = e # action_events acts"
| "action_events (PutCompletion msg # acts) = action_events acts"

fun action_completions :: "('k, 'p) worker_action list \<Rightarrow> completion_event list" where
  "action_completions [] = []"
| "action_completions (PutEvent e # acts) = action_completions acts"
| "action_completions (PutCompletion msg # acts) = completion_events msg @ action_completions acts"

text \<open>The items an event takes off the parent's books.\<close>

fun settled_by :: "('k, 'p) registry_event \<Rightarrow> work_identity multiset" where
  "settled_by (DoneEvent key i) = {#i#}"
| "settled_by _ = {#}"

text \<open>
  A weakest precondition: running the parent on the puts keeps its invariant, an event takes
  nothing off the books but what was put on the completion queue before it (\<open>C\<close>), and \<open>Q\<close> holds
  at the end.
\<close>

fun wp :: "('k, 'p) pipe_env \<Rightarrow> int \<Rightarrow> (('k, 'p) process_parent \<Rightarrow> bool) \<Rightarrow> work_identity set
    \<Rightarrow> ('k, 'p) worker_action list \<Rightarrow> ('k, 'p) process_parent \<Rightarrow> bool" where
  "wp E m Q C [] s = Q s"
| "wp E m Q C (PutCompletion msg # acts) s = wp E m Q (C \<union> event_identities msg) acts s"
| "wp E m Q C (PutEvent e # acts) s =
     (\<forall>s1. engine_apply_registry_event E m e s = Some s1 \<longrightarrow>
        parent_ok s1 \<and> owned s1 + settled_by e = owned s \<and> set_mset (settled_by e) \<subseteq> C \<and> wp E m Q C acts s1)"

lemma wp_mono: "wp E m Q C acts s \<Longrightarrow> C \<subseteq> C' \<Longrightarrow> (\<And>s. Q s \<Longrightarrow> Q' s) \<Longrightarrow> wp E m Q' C' acts s"
proof (induction acts arbitrary: C C' s)
  case (Cons a acts)
  show ?case
  proof (cases a)
    case (PutEvent e)
    then show ?thesis using Cons by (fastforce simp del: subset_iff)
  next
    case (PutCompletion msg)
    then show ?thesis using Cons.IH [of "C \<union> event_identities msg" s "C' \<union> event_identities msg"] Cons.prems by auto
  qed
qed simp

lemma wp_append: "wp E m (\<lambda>s. wp E m Q C ys s) C xs s \<Longrightarrow> wp E m Q C (xs @ ys) s"
proof (induction xs arbitrary: C s)
  case (Cons a xs)
  show ?case
  proof (cases a)
    case (PutEvent e)
    then show ?thesis using Cons by simp
  next
    case (PutCompletion msg)
    have "wp E m (\<lambda>s. wp E m Q (C \<union> event_identities msg) ys s) (C \<union> event_identities msg) xs s"
      using Cons.prems by (auto simp: PutCompletion intro: wp_mono)
    then show ?thesis using Cons.IH by (simp add: PutCompletion)
  qed
qed simp

lemma wp_prefix:
  assumes "wp E m Q C acts s" "parent_ok s"
    and "drain_registry_event_queue E m (action_events (take n acts)) s = Some s'"
  shows "parent_ok s' \<and> (\<exists>ds. owned s' + mset ds = owned s \<and>
    set ds \<subseteq> C \<union> logical_work_identity_from_completion_event ` set (action_completions (take n acts)))"
  using assms
proof (induction acts arbitrary: C s n)
  case Nil
  then show ?case by (auto intro: exI [of _ "[]"])
next
  case (Cons a acts)
  show ?case
  proof (cases n)
    case 0
    then show ?thesis using Cons.prems by (auto intro: exI [of _ "[]"])
  next
    case (Suc k)
    show ?thesis
    proof (cases a)
      case (PutCompletion msg)
      then show ?thesis
        using Cons.IH [of "C \<union> event_identities msg" s k] Cons.prems
        by (simp add: Suc event_identities_def image_Un Un_assoc)
    next
      case (PutEvent e)
      then obtain s1 where s1: "engine_apply_registry_event E m e s = Some s1"
        "drain_registry_event_queue E m (action_events (take k acts)) s1 = Some s'"
        using Cons.prems(3) by (auto simp: Suc split: option.splits)
      have W: "parent_ok s1" "owned s1 + settled_by e = owned s" "set_mset (settled_by e) \<subseteq> C" "wp E m Q C acts s1"
        using Cons.prems(1) s1(1) by (auto simp: PutEvent)
      from Cons.IH [OF W(4,1) s1(2)] obtain ds where ds: "parent_ok s'" "owned s' + mset ds = owned s1"
        "set ds \<subseteq> C \<union> logical_work_identity_from_completion_event ` set (action_completions (take k acts))" by blast
      obtain es where es: "mset es = settled_by e" by (metis ex_mset)
      have "owned s' + mset (ds @ es) = owned s"
        using ds(2) W(2) es by (simp flip: add.assoc)
      moreover have "set es \<subseteq> C" using W(3) es by (metis set_mset_mset)
      ultimately show ?thesis using ds by (auto simp: Suc PutEvent intro!: exI [of _ "ds @ es"])
    qed
  qed
qed

lemma wp_final:
  assumes "wp E m Q C acts s" "drain_registry_event_queue E m (action_events acts) s = Some s'"
  shows "Q s'"
  using assms
proof (induction acts arbitrary: C s)
  case (Cons a acts)
  then show ?case by (cases a) (auto split: option.splits)
qed simp

section \<open>The events of a worker\<close>

lemma apply_neutral:
  "e \<in> {BatchReceived, BatchCompleted, BatchCompletionSendFailed b} \<Longrightarrow> engine_apply_registry_event E m e s = Some s"
  by (auto simp: engine_apply_registry_event_def)

lemma wp_neutral:
  assumes "e \<in> {BatchReceived, BatchCompleted, BatchCompletionSendFailed b}" "parent_ok s"
  shows "wp E m Q C (PutEvent e # acts) s = wp E m Q C acts s"
  using assms apply_neutral [OF assms(1), of E m s] by auto

lemma concat_distinct_same:
  "distinct (concat (map f xs)) \<Longrightarrow> x \<in> set xs \<Longrightarrow> y \<in> set xs \<Longrightarrow> z \<in> set (f x) \<Longrightarrow> z \<in> set (f y) \<Longrightarrow> x = y"
  by (induction xs) auto

lemma pending_identities_concat:
  "identities (pending_items d) = concat (map (\<lambda>x. identities (entry_items (snd x))) d)"
  by (induction d) (auto simp: pending_items_def)

lemma pending_entry_unique:
  assumes "parent_ok s" "(pk, entry) \<in> set (tr_pending (pr_transport s))" "(pk', entry') \<in> set (tr_pending (pr_transport s))"
    and "p \<in> set (entry_items entry)" "p' \<in> set (entry_items entry')"
    and "logical_work_identity_from_payload p = logical_work_identity_from_payload p'"
  shows "(pk, entry) = (pk', entry')"
proof (rule concat_distinct_same [where f = "\<lambda>x. identities (entry_items (snd x))" and z = "logical_work_identity_from_payload p"])
  show "distinct (concat (map (\<lambda>x. identities (entry_items (snd x))) (tr_pending (pr_transport s))))"
    using assms(1) unfolding parent_ok_def tracked_items_def map_append distinct_append pending_identities_concat by blast
  show "logical_work_identity_from_payload p \<in> set (identities (entry_items (snd (pk, entry))))" using assms(4) by simp
  show "logical_work_identity_from_payload p \<in> set (identities (entry_items (snd (pk', entry'))))" using assms(5,6) by simp
qed (use assms in auto)

lemma mset_pop: "dict_wf d \<Longrightarrow> dict_get d k = Some v \<Longrightarrow> mset d = add_mset (k, v) (mset (dict_pop k d))"
proof (induction d)
  case (Cons x d)
  then show ?case by (cases "fst x = k") (auto simp: dict_wf_def dict_pop_notin)
qed simp

lemma mset_set: "dict_wf d \<Longrightarrow> dict_get d k \<noteq> None \<Longrightarrow> mset (dict_set k v d) = add_mset (k, v) (mset (dict_pop k d))"
proof (induction d)
  case (Cons x d)
  then show ?case by (cases "fst x = k") (auto simp: dict_wf_def dict_pop_notin)
qed simp

lemma holders_mset: "holders d = size {#x \<in># mset d. holds_slot (snd x)#}"
  by (induction d) (auto simp: holders_def)

lemma pending_items_mset: "mset (identities (pending_items d)) = (\<Sum>x\<in>#mset d. mset (identities (entry_items (snd x))))"
  by (induction d) (auto simp: pending_items_def)

lemma registry_items_mset:
  "mset (identities (registry_items d)) = image_mset (\<lambda>x. logical_work_identity_from_payload (snd x)) (mset d)"
  by (induction d) (auto simp: registry_items_def)

lemma parent_ok_step:
  assumes "parent_ok s" "dict_wf (pr_registry s1)" "dict_wf (tr_pending (pr_transport s1))" "slots_ok (pr_transport s1)"
    and "list_all registry_entry_ok (pr_registry s1)" "list_all pending_entry_ok (tr_pending (pr_transport s1))"
    and "mset (identities (tracked_items s)) = mset (identities (tracked_items s1)) + M"
  shows "parent_ok s1"
  using assms distinct_submset [OF _ assms(7)] by (simp add: parent_ok_def)

lemma tracked_mset:
  "mset (identities (tracked_items s)) =
   image_mset (\<lambda>x. logical_work_identity_from_payload (snd x)) (mset (pr_registry s)) +
   (\<Sum>x\<in>#mset (tr_pending (pr_transport s)). mset (identities (entry_items (snd x))))"
  unfolding tracked_items_def map_append mset_append registry_items_mset pending_items_mset ..

lemma owned_step:
  assumes "mset (identities (tracked_items s)) = mset (identities (tracked_items s1)) + M" "pr_emitted s1 = pr_emitted s"
  shows "owned s1 + M = owned s"
  unfolding owned_def assms by (simp add: ac_simps)

section \<open>A position in a message\<close>

definition position :: "('k, 'p) serialized_item \<Rightarrow> string \<times> int \<times> int" where
  "position p = (si_topic p, si_partition p, si_offset p)"

lemma in_flight_key_eq [simp]: "in_flight_key i p = in_flight_key j q \<longleftrightarrow> i = j \<and> position p = position q"
  by (auto simp: in_flight_key_def position_def)

lemma registry_entry_ok_key [simp]: "registry_entry_ok (in_flight_key i p, p)"
  by (simp add: in_flight_key_def)

lemma fst_in_flight_key [simp]: "fst (in_flight_key i p) = i"
  by (simp add: in_flight_key_def)

text \<open>
  Worker \<open>i\<close> is inside batch \<open>bid\<close>: it has started the items \<open>R\<close>, which the registry holds, and not
  yet the items \<open>ps\<close>, which are the pending batch; no other pending batch has this id.
\<close>

definition in_batch :: "('k, 'p) process_parent \<Rightarrow> int \<Rightarrow> string \<Rightarrow> ('k, 'p) serialized_item list \<Rightarrow> ('k, 'p) serialized_item list \<Rightarrow> bool" where
  "in_batch s i bid R ps \<longleftrightarrow>
     parent_ok s \<and> distinct (map position (R @ ps)) \<and>
     registry_of_worker i (pr_registry s) = map (\<lambda>p. (in_flight_key i p, p)) R \<and>
     dict_get (tr_pending (pr_transport s)) (BatchKey i bid) = (if ps = [] then None else Some (PendingBatch bid ps (R \<noteq> []))) \<and>
     (\<forall>(pk, entry)\<in>set (tr_pending (pr_transport s)). is_pending_batch entry \<and> pb_batch_id entry = bid \<longrightarrow> pk = BatchKey i bid)"

lemma registry_start_key_own [simp]: "registry_start_key (in_flight_key i p) p = Some (item_pending_key i p)"
  by (simp add: registry_start_key_def in_flight_key_def)

lemma registry_start_key_same:
  "registry_start_key (in_flight_key i p) q = Some (item_pending_key i p) \<longleftrightarrow>
   logical_work_identity_from_payload q = logical_work_identity_from_payload p"
  by (auto simp: registry_start_key_def in_flight_key_def item_pending_key_def logical_work_identity_from_payload_def)

lemma registry_get_worker:
  assumes "registry_of_worker i reg = map (\<lambda>p. (in_flight_key i p, p)) R" "position p \<notin> position ` set R"
  shows "in_flight_key i p \<notin> fst ` set reg"
proof
  assume "in_flight_key i p \<in> fst ` set reg"
  then obtain q where "(in_flight_key i p, q) \<in> set (registry_of_worker i reg)"
    by (auto simp: registry_of_worker_def)
  then show False using assms by auto
qed

lemma without_started:
  "distinct (identities (p # ps)) \<Longrightarrow> without_item p (p # ps) = ps"
  by (auto simp: without_item_def filter_id_conv image_iff)

lemma batch_items_distinct:
  assumes "parent_ok s" "(pk, entry) \<in> set (tr_pending (pr_transport s))"
  shows "distinct (identities (entry_items entry))"
proof -
  have "distinct (concat (map (\<lambda>x. identities (entry_items (snd x))) (tr_pending (pr_transport s))))"
    using assms(1) unfolding parent_ok_def tracked_items_def map_append distinct_append pending_identities_concat by blast
  then show ?thesis using assms(2) by (auto simp: distinct_concat_iff)
qed

lemma find_pending_batch:
  assumes ok: "parent_ok s" and mem: "(pk, PendingBatch b ps r) \<in> set (tr_pending (pr_transport s))"
    and p: "p \<in> set ps" and pk: "pending_worker pk = i"
  shows "find (started_in_batch (in_flight_key i p) p) (tr_pending (pr_transport s)) = Some (pk, PendingBatch b ps r)"
proof -
  have "started_in_batch (in_flight_key i p) p (pk, PendingBatch b ps r)"
    using p pk by (auto simp: started_in_batch_def registry_start_key_same)
  then obtain x where x: "find (started_in_batch (in_flight_key i p) p) (tr_pending (pr_transport s)) = Some x"
    using mem by (cases "find (started_in_batch (in_flight_key i p) p) (tr_pending (pr_transport s))") (auto simp: find_None_iff)
  then have "x \<in> set (tr_pending (pr_transport s))" "started_in_batch (in_flight_key i p) p x"
    by (auto simp: find_Some_iff)
  moreover obtain pk' entry' where x': "x = (pk', entry')" by (cases x)
  ultimately obtain q where "q \<in> set (entry_items entry')" "logical_work_identity_from_payload q = logical_work_identity_from_payload p"
    by (auto simp: started_in_batch_def registry_start_key_same split: pending_entry.splits)
  then have "x = (pk, PendingBatch b ps r)"
    using pending_entry_unique [OF ok _ mem, of pk' entry' q p] \<open>x \<in> _\<close> p x' by simp
  then show ?thesis using x by simp
qed

lemma no_item_key:
  assumes ok: "parent_ok s" and mem: "(pk, PendingBatch b ps r) \<in> set (tr_pending (pr_transport s))" and p: "p \<in> set ps"
  shows "dict_get (tr_pending (pr_transport s)) (item_pending_key i p) = None"
proof (rule ccontr)
  assume "dict_get (tr_pending (pr_transport s)) (item_pending_key i p) \<noteq> None"
  then obtain entry where e: "(item_pending_key i p, entry) \<in> set (tr_pending (pr_transport s))"
    by (auto dest: map_of_SomeD)
  then have "pending_entry_ok (item_pending_key i p, entry)"
    using ok by (auto simp: parent_ok_def list_all_iff)
  then obtain q where "entry = PendingItem q" "logical_work_identity_from_payload q = logical_work_identity_from_payload p"
    by (cases entry) (auto simp: item_pending_key_def)
  then show False
    using pending_entry_unique [OF ok e mem, of q p] p by simp
qed

lemma dict_set_subset: "set (dict_set k v d) \<subseteq> insert (k, v) (set d)"
  by (induction d) auto

text \<open>The parent after the first item of the rest of a batch has started.\<close>

definition pending_after_start :: "int \<Rightarrow> string \<Rightarrow> ('k, 'p) serialized_item list \<Rightarrow> (pending_key, ('k, 'p) pending_entry) dict \<Rightarrow> (pending_key, ('k, 'p) pending_entry) dict" where
  "pending_after_start i bid ps d = (if ps = [] then dict_pop (BatchKey i bid) d else dict_set (BatchKey i bid) (PendingBatch bid ps True) d)"

lemma apply_start_eq:
  assumes b: "in_batch s i bid R (p # ps)"
  shows "engine_apply_registry_event E m (StartEvent (in_flight_key i p) p) s =
    Some (s\<lparr>pr_registry := pr_registry s @ [(in_flight_key i p, p)],
            pr_transport := (pr_transport s)\<lparr>tr_pending := pending_after_start i bid ps (tr_pending (pr_transport s)),
              tr_slots := tr_slots (pr_transport s) + (if R = [] then 1 else 0)\<rparr>\<rparr>)"
proof -
  have ok: "parent_ok s" and get: "dict_get (tr_pending (pr_transport s)) (BatchKey i bid) = Some (PendingBatch bid (p # ps) (R \<noteq> []))"
    using b by (auto simp: in_batch_def)
  then have mem: "(BatchKey i bid, PendingBatch bid (p # ps) (R \<noteq> [])) \<in> set (tr_pending (pr_transport s))"
    by (simp add: map_of_SomeD)
  have fresh: "in_flight_key i p \<notin> fst ` set (pr_registry s)"
    using b by (intro registry_get_worker [where R = R]) (auto simp: in_batch_def)
  then have none: "dict_get (pr_registry s) (in_flight_key i p) = None"
    by (simp add: map_of_eq_None_iff)
  have dist: "distinct (identities (p # ps))" using batch_items_distinct [OF ok mem] by simp
  have "R = [] \<Longrightarrow> 0 < holders (tr_pending (pr_transport s))"
    using mem by (force simp: holders_def filter_empty_conv)
  then have "R = [] \<Longrightarrow> tr_slots (pr_transport s) < tr_queue_size (pr_transport s)"
    using ok by (auto simp: parent_ok_def slots_ok_def)
  then show ?thesis
    using no_item_key [OF ok mem, of p i] find_pending_batch [OF ok mem, of p i]
    by (auto simp: engine_apply_registry_event_def none dict_set_fresh [OF fresh] start_batch_item_def without_started [OF dist]
        pending_after_start_def release_slot_def Let_def)
qed

lemma pending_after_start_mset:
  assumes "dict_wf d" "dict_get d (BatchKey i bid) = Some e"
  shows "mset (pending_after_start i bid ps d) =
    (if ps = [] then {#} else {#(BatchKey i bid, PendingBatch bid ps True)#}) + mset (dict_pop (BatchKey i bid) d)"
  using assms mset_set [OF assms(1)] by (simp add: pending_after_start_def)

lemma start_batch_item_step:
  assumes b: "in_batch s i bid R (p # ps)"
    and a: "engine_apply_registry_event E m (StartEvent (in_flight_key i p) p) s = Some s1"
  shows "in_batch s1 i bid (R @ [p]) ps \<and> owned s1 = owned s"
proof -
  let ?d = "tr_pending (pr_transport s)" and ?k = "BatchKey i bid"
  let ?e = "PendingBatch bid (p # ps) (R \<noteq> [])"
  have ok: "parent_ok s" and get: "dict_get ?d ?k = Some ?e"
    using b by (auto simp: in_batch_def)
  have s1: "s1 = s\<lparr>pr_registry := pr_registry s @ [(in_flight_key i p, p)],
            pr_transport := (pr_transport s)\<lparr>tr_pending := pending_after_start i bid ps ?d,
              tr_slots := tr_slots (pr_transport s) + (if R = [] then 1 else 0)\<rparr>\<rparr>"
    using apply_start_eq [OF b, of E m] a by simp
  have fresh: "in_flight_key i p \<notin> fst ` set (pr_registry s)"
    using b by (intro registry_get_worker [where R = R]) (auto simp: in_batch_def)
  have wf: "dict_wf ?d" using ok by (simp add: parent_ok_def)
  note M0 = mset_pop [OF wf get] and M1 = pending_after_start_mset [OF wf get, of ps]
  have T: "mset (identities (tracked_items s)) = mset (identities (tracked_items s1)) + {#}"
    unfolding tracked_mset s1 process_parent.simps transport.simps process_parent.update_convs transport.update_convs M0
    by (simp add: M1)
  have sub: "set (pending_after_start i bid ps ?d) \<subseteq> insert (?k, PendingBatch bid ps True) (set ?d)"
    unfolding pending_after_start_def by (auto simp: pop_as_filter dest: set_mp [OF dict_set_subset])
  have E: "list_all pending_entry_ok (tr_pending (pr_transport s1))"
  proof -
    have "pending_entry_ok (?k, ?e)" using ok map_of_SomeD [OF get] unfolding parent_ok_def list_all_iff by blast
    then have "ps \<noteq> [] \<Longrightarrow> pending_entry_ok (?k, PendingBatch bid ps True)" by simp
    moreover have "ps = [] \<Longrightarrow> set (pending_after_start i bid ps ?d) \<subseteq> set ?d"
      by (auto simp: pending_after_start_def pop_as_filter)
    ultimately show ?thesis using ok sub by (cases "ps = []") (auto simp: s1 parent_ok_def list_all_iff)
  qed
  have "slots_ok (pr_transport s1)"
    using ok unfolding s1 parent_ok_def slots_ok_def holders_mset process_parent.simps transport.simps process_parent.update_convs transport.update_convs
    by (simp add: M0 M1 split: if_splits)
  moreover have "dict_wf (pr_registry s1)" "dict_wf (tr_pending (pr_transport s1))" "list_all registry_entry_ok (pr_registry s1)"
    using ok fresh wf by (simp_all add: s1 parent_ok_def dict_wf_def pending_after_start_def distinct_update distinct_delete)
  ultimately have ok1: "parent_ok s1"
    using parent_ok_step [OF ok _ _ _ _ E T] by blast
  have "dict_get (tr_pending (pr_transport s1)) ?k = (if ps = [] then None else Some (PendingBatch bid ps True))"
    by (simp add: s1 pending_after_start_def dict_simps)
  moreover have "\<forall>(pk, entry)\<in>set (tr_pending (pr_transport s1)). is_pending_batch entry \<and> pb_batch_id entry = bid \<longrightarrow> pk = ?k"
    using b sub by (auto simp: s1 in_batch_def)
  moreover have "registry_of_worker i (pr_registry s1) = map (\<lambda>p. (in_flight_key i p, p)) (R @ [p])"
    using b by (simp add: s1 in_batch_def registry_of_worker_def)
  ultimately have "in_batch s1 i bid (R @ [p]) ps"
    using b ok1 by (simp add: in_batch_def)
  then show ?thesis using owned_step [OF T] by (simp add: s1)
qed

text \<open>Registry entries of a worker, by key.\<close>

lemma registry_worker_get:
  assumes "dict_wf reg" "registry_of_worker i reg = map (\<lambda>p. (in_flight_key i p, p)) R" "p \<in> set R"
  shows "dict_get reg (in_flight_key i p) = Some p"
proof -
  have "(in_flight_key i p, p) \<in> set (registry_of_worker i reg)" using assms(2,3) by auto
  then show ?thesis using assms(1) by (simp add: registry_of_worker_def dict_in_set_iff)
qed

lemma parent_ok_pop_registry:
  assumes ok: "parent_ok s" and get: "dict_get (pr_registry s) k = Some p"
  shows "parent_ok (s\<lparr>pr_registry := dict_pop k (pr_registry s)\<rparr>) \<and>
    owned (s\<lparr>pr_registry := dict_pop k (pr_registry s)\<rparr>) + {#logical_work_identity_from_payload p#} = owned s"
proof -
  let ?s = "s\<lparr>pr_registry := dict_pop k (pr_registry s)\<rparr>"
  have wf: "dict_wf (pr_registry s)" using ok by (simp add: parent_ok_def)
  have T: "mset (identities (tracked_items s)) = mset (identities (tracked_items ?s)) + {#logical_work_identity_from_payload p#}"
    unfolding tracked_mset mset_pop [OF wf get] by simp
  have "parent_ok ?s"
    using ok by (intro parent_ok_step [OF ok _ _ _ _ _ T]) (auto simp: parent_ok_def list_all_iff pop_as_filter dict_wf_def distinct_map_filter)
  then show ?thesis using owned_step [OF T] by simp
qed

lemma apply_done_eq:
  assumes ok: "parent_ok s" and get: "dict_get (pr_registry s) (in_flight_key i p) = Some q"
    and same: "logical_work_identity_from_payload q = logical_work_identity_from_payload p"
  shows "engine_apply_registry_event E m (done_event i p) s = Some (s\<lparr>pr_registry := dict_pop (in_flight_key i p) (pr_registry s)\<rparr>)"
proof -
  have "registry_entry_ok (in_flight_key i p, q)"
    using ok get by (auto simp: parent_ok_def list_all_iff dest: map_of_SomeD)
  then show ?thesis
    using same by (simp add: engine_apply_registry_event_def done_event_def get identity_registry_entry)
qed

lemma registry_of_worker_pop:
  "registry_of_worker i (dict_pop k reg) = dict_pop k (registry_of_worker i reg)"
  by (simp add: registry_of_worker_def pop_as_filter conj_commute)

lemma worker_registry_pop:
  assumes "registry_of_worker i reg = map (\<lambda>p. (in_flight_key i p, p)) (p # R)" "distinct (map position (p # R))"
  shows "registry_of_worker i (dict_pop (in_flight_key i p) reg) = map (\<lambda>p. (in_flight_key i p, p)) R"
  unfolding registry_of_worker_pop assms(1) using assms(2)
  by (auto simp: pop_as_filter filter_id_conv image_iff)

lemma settled_by_done [simp]: "settled_by (done_event i p) = {#logical_work_identity_from_payload p#}"
  by (simp add: done_event_def)

lemma wp_dones:
  assumes "parent_ok s" "registry_of_worker i (pr_registry s) = map (\<lambda>p. (in_flight_key i p, p)) R @ L" "distinct (map position R)"
    and "set (identities R) \<subseteq> C" "\<forall>x\<in>set L. \<exists>q. fst x = in_flight_key i q \<and> position q \<notin> position ` set R"
    and "\<And>s1. parent_ok s1 \<Longrightarrow> registry_of_worker i (pr_registry s1) = L \<Longrightarrow> pr_transport s1 = pr_transport s \<Longrightarrow> Q s1"
  shows "wp E m Q C (map PutEvent (map (done_event i) R)) s"
  using assms
proof (induction R arbitrary: s)
  case Nil
  then show ?case by simp
next
  case (Cons p R)
  let ?s = "s\<lparr>pr_registry := dict_pop (in_flight_key i p) (pr_registry s)\<rparr>"
  have "(in_flight_key i p, p) \<in> set (registry_of_worker i (pr_registry s))" using Cons.prems(2) by simp
  then have get: "dict_get (pr_registry s) (in_flight_key i p) = Some p"
    using Cons.prems(1) by (simp add: registry_of_worker_def dict_in_set_iff parent_ok_def)
  note A = apply_done_eq [OF Cons.prems(1) get refl, of E m] and P = parent_ok_pop_registry [OF Cons.prems(1) get]
  have "filter (\<lambda>e. fst e \<noteq> in_flight_key i p) L = L"
    using Cons.prems(5) by (fastforce simp: filter_id_conv)
  then have "dict_pop (in_flight_key i p) (map (\<lambda>p. (in_flight_key i p, p)) (p # R) @ L) = map (\<lambda>p. (in_flight_key i p, p)) R @ L"
    using Cons.prems(3) by (auto simp: pop_as_filter filter_id_conv image_iff)
  then have "registry_of_worker i (pr_registry ?s) = map (\<lambda>p. (in_flight_key i p, p)) R @ L"
    by (simp add: registry_of_worker_pop Cons.prems(2))
  then have "wp E m Q C (map PutEvent (map (done_event i) R)) ?s"
    using Cons.prems P by (intro Cons.IH) auto
  then show ?case
    using A P Cons.prems(4) by simp
qed

text \<open>A timeout marks the entry of the item, in place.\<close>

lemma apply_timeout_step:
  assumes ok: "parent_ok s" and get: "dict_get (pr_registry s) (in_flight_key i p) = Some p"
    and a: "engine_apply_registry_event E m (TimeoutEvent (in_flight_key i p) p att err) s = Some s1"
  shows "parent_ok s1 \<and> owned s1 = owned s \<and> pr_transport s1 = pr_transport s \<and>
    pr_registry s1 = dict_set (in_flight_key i p) (p\<lparr>si_timed_out := Some (err, att)\<rparr>) (pr_registry s)"
proof -
  let ?q = "p\<lparr>si_timed_out := Some (err, att)\<rparr>"
  have e: "registry_entry_ok (in_flight_key i p, p)" by simp
  have s1: "s1 = s\<lparr>pr_registry := dict_set (in_flight_key i p) ?q (pr_registry s)\<rparr>"
    using a by (simp add: engine_apply_registry_event_def get identity_registry_entry [OF e])
  have wf: "dict_wf (pr_registry s)" using ok by (simp add: parent_ok_def)
  have T: "mset (identities (tracked_items s)) = mset (identities (tracked_items s1)) + {#}"
    unfolding tracked_mset s1 process_parent.simps process_parent.update_convs mset_pop [OF wf get]
    using mset_set [OF wf, of "in_flight_key i p" ?q] get by simp
  have "parent_ok s1"
    using ok dict_set_subset [of "in_flight_key i p" ?q "pr_registry s"]
    by (intro parent_ok_step [OF ok _ _ _ _ _ T]) (auto simp: s1 parent_ok_def list_all_iff in_flight_key_def)
  then show ?thesis using owned_step [OF T] by (simp add: s1)
qed

lemma fold_without: "fold without_item xs ys = filter (\<lambda>p. logical_work_identity_from_payload p \<notin> set (identities xs)) ys"
  by (induction xs arbitrary: ys) (auto simp: without_item_def intro: filter_cong)

lemma requeue_not_started_requeues:
  assumes "parent_ok s" "distinct (identities (tracked_items s @ ps))" "list_all (\<lambda>p. si_timed_out p = None) ps"
    and "requeue_not_started E m ps s = Some s'"
  shows "requeues E ps s s'"
  using assms
proof (induction ps arbitrary: s)
  case Nil
  then show ?case by (simp add: requeues_refl)
next
  case (Cons p ps)
  obtain r tr where d: "dispatch_payload E p (pr_transport s) = Some (r, tr)"
    using Cons.prems(4) by (cases "dispatch_payload E p (pr_transport s)") auto
  have new: "logical_work_identity_from_payload p \<notin> set (identities (tracked_items s))"
    using Cons.prems(2) by auto
  have un: "si_timed_out p = None" "list_all (\<lambda>p. si_timed_out p = None) ps"
    using Cons.prems(3) by auto
  from dispatch_payload_parent [OF Cons.prems(1) new un(1) d] show ?case
  proof
    assume "\<exists>e. r = Inl e \<and> tr = pr_transport s"
    then obtain e where r: "r = Inl e" "tr = pr_transport s" by auto
    have "s' = s\<lparr>pr_emitted := pr_emitted s @ map (recovery_failure_event (''not_started_requeue_failed: '' @ e) m) (p # ps)\<rparr>"
      using Cons.prems(4) by (simp add: d r)
    then have "requeues E ((p # ps) @ []) s s'"
      using Cons.prems(1) by (intro requeues_failed [where e = "''not_started_requeue_failed: '' @ e" and a = m]) (simp add: requeues_refl)
    then show ?thesis by simp
  next
    assume a: "r = Inr () \<and> 0 < tr_slots (pr_transport s) \<and> parent_ok (s\<lparr>pr_transport := tr\<rparr>) \<and>
      tracked_items (s\<lparr>pr_transport := tr\<rparr>) = tracked_items s @ [p] \<and>
      tr = (pr_transport s)\<lparr>tr_slots := tr_slots (pr_transport s) - 1,
             tr_pending := tr_pending (pr_transport s) @ [(item_pending_key (worker_for E p) p, PendingItem p)],
             tr_pipes := tr_pipes (pr_transport s) @ [(worker_for E p, [p])]\<rparr>"
    then have t: "tracked_items (s\<lparr>pr_transport := tr\<rparr>) = tracked_items s @ [p]" by blast
    have "requeue_not_started E m ps (s\<lparr>pr_transport := tr\<rparr>) = Some s'"
      using Cons.prems(4) a by (simp add: d)
    moreover have "distinct (identities (tracked_items (s\<lparr>pr_transport := tr\<rparr>) @ ps))"
      using Cons.prems(2) unfolding t by simp
    ultimately have "requeues E ps (s\<lparr>pr_transport := tr\<rparr>) s'"
      using Cons.IH a un(2) by blast
    then show ?thesis using requeues_sent t a by blast
  qed
qed

lemma find_by_batch_id:
  assumes b: "in_batch s i bid R ps" and ne: "ps \<noteq> []"
  shows "find (\<lambda>(pk, entry). is_pending_batch entry \<and> pb_batch_id entry = bid) (tr_pending (pr_transport s)) =
    Some (BatchKey i bid, PendingBatch bid ps (R \<noteq> []))" (is "?f = Some ?x")
proof -
  have wf: "dict_wf (tr_pending (pr_transport s))" and get: "dict_get (tr_pending (pr_transport s)) (BatchKey i bid) = Some (PendingBatch bid ps (R \<noteq> []))"
    using b ne by (auto simp: in_batch_def parent_ok_def)
  obtain y where y: "?f = Some y"
    using map_of_SomeD [OF get] by (cases ?f) (force simp: find_None_iff)+
  obtain pk entry where e: "y = (pk, entry)" by (cases y)
  have "y \<in> set (tr_pending (pr_transport s))" "is_pending_batch entry \<and> pb_batch_id entry = bid"
    using y e by (auto simp: find_Some_iff intro: nth_mem) (metis nth_mem)
  then have "pk = BatchKey i bid" using b e by (auto simp: in_batch_def)
  then have "y = ?x" using \<open>y \<in> _\<close> e wf get by (simp add: dict_in_set_iff)
  then show ?thesis using y by simp
qed

lemma parent_ok_pop_batch:
  assumes ok: "parent_ok s" and get: "dict_get (tr_pending (pr_transport s)) k = Some (PendingBatch b ps True)"
  defines "s0 \<equiv> s\<lparr>pr_transport := (pr_transport s)\<lparr>tr_pending := dict_pop k (tr_pending (pr_transport s))\<rparr>\<rparr>"
  shows "parent_ok s0 \<and> owned s0 + mset (identities ps) = owned s \<and> distinct (identities (tracked_items s0 @ ps))"
proof -
  have wf: "dict_wf (tr_pending (pr_transport s))" using ok by (simp add: parent_ok_def)
  note M0 = mset_pop [OF wf get]
  have T: "mset (identities (tracked_items s)) = mset (identities (tracked_items s0)) + mset (identities ps)"
    unfolding tracked_mset s0_def process_parent.simps transport.simps process_parent.update_convs transport.update_convs M0
    by (simp add: ac_simps)
  have "slots_ok (pr_transport s0)"
    using ok unfolding s0_def parent_ok_def slots_ok_def holders_mset process_parent.simps transport.simps process_parent.update_convs transport.update_convs
    by (simp add: M0)
  then have "parent_ok s0"
    using ok by (intro parent_ok_step [OF ok _ _ _ _ _ T])
      (auto simp: s0_def parent_ok_def list_all_iff pop_as_filter dict_wf_def distinct_map_filter)
  moreover have "distinct (identities (tracked_items s0 @ ps))"
  proof (rule distinct_submset)
    show "distinct (identities (tracked_items s))" using ok by (simp add: parent_ok_def)
    show "mset (identities (tracked_items s)) = mset (identities (tracked_items s0 @ ps)) + {#}"
      unfolding T map_append mset_append by (rule add_0_right [symmetric])
  qed
  ultimately show ?thesis using owned_step [OF T] by (simp add: s0_def)
qed

lemma apply_not_started_step:
  assumes b: "in_batch s i bid R ps" and ne: "R \<noteq> []" "ps \<noteq> []"
    and a: "engine_apply_registry_event E m (NotStarted bid ps) s = Some s1"
  shows "in_batch s1 i bid R [] \<and> owned s1 = owned s"
proof -
  let ?k = "BatchKey i bid" and ?d = "tr_pending (pr_transport s)"
  let ?s0 = "s\<lparr>pr_transport := (pr_transport s)\<lparr>tr_pending := dict_pop ?k ?d\<rparr>\<rparr>"
  have ok: "parent_ok s" and get: "dict_get ?d ?k = Some (PendingBatch bid ps True)"
    using b ne by (auto simp: in_batch_def)
  note P = parent_ok_pop_batch [OF ok get]
  have "fold without_item ps ps = []" by (simp add: fold_without)
  then have "requeue_not_started E m ps ?s0 = Some s1"
    using a ne by (simp add: engine_apply_registry_event_def find_by_batch_id [OF b ne(2)] drop_not_started_def)
  moreover have "list_all (\<lambda>p. si_timed_out p = None) ps"
    using ok map_of_SomeD [OF get] by (auto simp: parent_ok_def list_all_iff)
  ultimately have R: "requeues E ps ?s0 s1"
    using P by (intro requeue_not_started_requeues) auto
  then obtain sent es where pend: "tr_pending (pr_transport s1) =
      dict_pop ?k ?d @ map (\<lambda>p. (item_pending_key (worker_for E p) p, PendingItem p)) sent"
    by (auto simp: requeues_def)
  have "dict_get (tr_pending (pr_transport s1)) ?k = None"
    by (auto simp: pend map_of_eq_None_iff pop_as_filter item_pending_key_def)
  moreover have "\<forall>(pk, entry)\<in>set (tr_pending (pr_transport s1)). is_pending_batch entry \<and> pb_batch_id entry = bid \<longrightarrow> pk = ?k"
    using b by (auto simp: pend in_batch_def pop_as_filter)
  moreover have "owned s1 = owned s" "parent_ok s1" "pr_registry s1 = pr_registry s"
    using R P by (simp_all add: requeues_def)
  ultimately show ?thesis using b by (simp add: in_batch_def)
qed

lemma identity_of_completion [simp]:
  "logical_work_identity_from_completion_event (completion_of p st err a) = logical_work_identity_from_payload p"
  by (simp add: completion_of_def logical_work_identity_from_completion_event_def logical_work_identity_from_payload_def)

definition queue_works :: "('k, 'p) worker_env \<Rightarrow> bool" where
  "queue_works env \<longleftrightarrow> (\<forall>msg. we_packs env msg \<and> we_puts env msg)"

text \<open>After a batch, or out of it by a timeout: the completions go out before the items are reported done.\<close>

lemma wp_after_batch:
  assumes q: "queue_works env" and ok: "parent_ok s"
    and reg: "registry_of_worker (we_index env) (pr_registry s) = map (\<lambda>p. (in_flight_key (we_index env) p, p)) R @ L"
    and dist: "distinct (map position R)"
    and L: "\<forall>x\<in>set L. \<exists>q. fst x = in_flight_key (we_index env) q \<and> position q \<notin> position ` set R"
    and res: "map logical_work_identity_from_completion_event results = identities R" "dones = map (done_event (we_index env)) R"
    and Q: "\<And>s1. parent_ok s1 \<Longrightarrow> registry_of_worker (we_index env) (pr_registry s1) = L \<Longrightarrow> pr_transport s1 = pr_transport s \<Longrightarrow> Q s1"
  shows "wp E m Q C (after_batch env (Some bid) report results dones) s"
proof (cases "results = []")
  case True
  then have "R = []" using res by simp
  then show ?thesis using assms True
    by (cases report) (simp_all add: after_batch_def apply_neutral)
next
  case False
  have "logical_work_identity_from_completion_event ` set results = set (identities R)"
    using arg_cong [OF res(1), of set] by simp
  then have "wp E m Q (C \<union> event_identities (ManyCompletions bid results)) (map PutEvent dones) s"
    unfolding res(2) using dist L ok reg Q
    by (intro wp_dones [where L = L]) (auto simp: event_identities_def)
  then show ?thesis
    using q False ok by (cases report) (simp_all add: after_batch_def flush_route_batch_completion_def queue_works_def apply_neutral)
qed

lemma wp_report:
  assumes "parent_ok s" "wp E m Q C acts s"
  shows "wp E m Q C ((if b then [PutEvent BatchCompleted] else []) @ acts) s"
  using assms by (simp add: apply_neutral)

lemma in_batch_ok: "in_batch s i bid R ps \<Longrightarrow> parent_ok s"
  by (simp add: in_batch_def)

text \<open>The end of a message: the worker is idle and the batch is not pending any more.\<close>

definition message_closed :: "int \<Rightarrow> string \<Rightarrow> ('k, 'p) process_parent \<Rightarrow> bool" where
  "message_closed i bid s \<longleftrightarrow> registry_of_worker i (pr_registry s) = [] \<and> dict_get (tr_pending (pr_transport s)) (BatchKey i bid) = None"

lemma wp_batch_end:
  assumes "queue_works env" "in_batch s (we_index env) bid R []"
    and "map logical_work_identity_from_completion_event results = identities R" "dones = map (done_event (we_index env)) R"
  shows "wp E m (message_closed (we_index env) bid) C (after_batch env (Some bid) report results dones) s"
  using assms by (intro wp_after_batch [where L = "[]" and R = R]) (auto simp: in_batch_def message_closed_def)

lemma wp_start:
  assumes "in_batch s i bid R (p # ps)" "\<And>s1. in_batch s1 i bid (R @ [p]) ps \<Longrightarrow> wp E m Q C acts s1"
  shows "wp E m Q C (PutEvent (StartEvent (in_flight_key i p) p) # acts) s"
  using start_batch_item_step [OF assms(1), of E m] assms(2) in_batch_ok by fastforce

lemma wp_not_started:
  assumes "in_batch s i bid R ps" "R \<noteq> []" "\<And>s1. in_batch s1 i bid R [] \<Longrightarrow> wp E m Q C acts s1"
  shows "wp E m Q C ((if ps \<noteq> [] then [PutEvent (NotStarted bid ps)] else []) @ acts) s"
proof (cases "ps = []")
  case True
  then show ?thesis using assms by simp
next
  case False
  then show ?thesis
    using apply_not_started_step [OF assms(1,2) False, of E m] assms(3) in_batch_ok by fastforce
qed

lemma wp_timeout:
  assumes q: "queue_works env" and b: "in_batch s (we_index env) bid (R @ [p]) ps"
    and res: "map logical_work_identity_from_completion_event results = identities R" "dones = map (done_event (we_index env)) R"
  shows "wp E m (\<lambda>s. True) C (PutEvent (TimeoutEvent (in_flight_key (we_index env) p) p a e) # (if early then [] else after_batch env (Some bid) False results dones)) s"
proof -
  let ?i = "we_index env"
  have ok: "parent_ok s" and reg: "registry_of_worker ?i (pr_registry s) = map (\<lambda>p. (in_flight_key ?i p, p)) (R @ [p])"
    and dist: "distinct (map position (R @ [p]))"
    using b by (auto simp: in_batch_def)
  have get: "dict_get (pr_registry s) (in_flight_key ?i p) = Some p"
    using ok reg by (intro registry_worker_get [where R = "R @ [p]"]) (auto simp: parent_ok_def)
  let ?q = "p\<lparr>si_timed_out := Some (e, a)\<rparr>"
  have step: "wp E m (\<lambda>s. True) C (if early then [] else after_batch env (Some bid) False results dones) s1"
    if t: "parent_ok s1 \<and> owned s1 = owned s \<and> pr_transport s1 = pr_transport s \<and>
      pr_registry s1 = dict_set (in_flight_key ?i p) ?q (pr_registry s)" for s1
  proof -
    have "registry_of_worker ?i (dict_set (in_flight_key ?i p) ?q reg) = dict_set (in_flight_key ?i p) ?q (registry_of_worker ?i reg)"
      for reg by (induction reg) (auto simp: registry_of_worker_def)
    moreover have "dict_set (in_flight_key ?i p) ?q (map (\<lambda>p. (in_flight_key ?i p, p)) R @ [(in_flight_key ?i p, p)]) =
        map (\<lambda>p. (in_flight_key ?i p, p)) R @ [(in_flight_key ?i p, ?q)]"
      using dist by (induction R) auto
    ultimately have "registry_of_worker ?i (pr_registry s1) = map (\<lambda>p. (in_flight_key ?i p, p)) R @ [(in_flight_key ?i p, ?q)]"
      using t reg by simp
    then have "wp E m (\<lambda>s. True) C (after_batch env (Some bid) False results dones) s1"
      using t dist res q by (intro wp_after_batch [where R = R and L = "[(in_flight_key ?i p, ?q)]"]) auto
    then show ?thesis by simp
  qed
  show ?thesis
    unfolding wp.simps settled_by.simps
  proof (intro allI impI)
    fix s1 assume "engine_apply_registry_event E m (TimeoutEvent (in_flight_key ?i p) p a e) s = Some s1"
    note A = apply_timeout_step [OF ok get this]
    from A step [OF A]
    show "parent_ok s1 \<and> owned s1 + {#} = owned s \<and> set_mset {#} \<subseteq> C \<and>
        wp E m (\<lambda>s. True) C (if early then [] else after_batch env (Some bid) False results dones) s1"
      by simp
  qed
qed

lemma wp_run_payloads:
  assumes "queue_works env" "in_batch s (we_index env) bid R ps"
    and "map logical_work_identity_from_completion_event results = identities R" "dones = map (done_event (we_index env)) R"
    and "run_payloads env (Some bid) tasks started results dones ps = (acts, tasks', e)"
  shows "wp E m (\<lambda>s. e \<in> {NextMessage, LeaveLoop} \<longrightarrow> message_closed (we_index env) bid s) C acts s"
  using assms
proof (induction ps arbitrary: s R tasks started results dones acts)
  case Nil
  then show ?case using wp_batch_end [OF Nil.prems(1,2,3,4)] by auto
next
  case (Cons p ps)
  let ?i = "we_index env"
  let ?Q = "\<lambda>s. e \<in> {NextMessage, LeaveLoop} \<longrightarrow> message_closed ?i bid s"
  obtain n full where n: "count_task env tasks = (n, full)" by fastforce
  let ?st = "started \<or> we_max_retries env \<ge> 1"
  let ?rep = "if ?st \<and> ps = [] then [PutEvent BatchCompleted] else []"
  show ?case
  proof (cases "run_item (we_max_retries env) (we_call env p)")
    case (FatalTimeout err a)
    then have acts: "acts = PutEvent (StartEvent (in_flight_key ?i p) p) # PutEvent (TimeoutEvent (in_flight_key ?i p) p a err) #
        (if full \<and> ps \<noteq> [] then [] else after_batch env (Some bid) False results dones)" and "e \<in> {Crashed, ExitedOnTimeout}"
      using Cons.prems(5) n by (auto simp: Let_def split: if_splits)
    have "wp E m (\<lambda>s. True) C acts s"
      unfolding acts by (rule wp_start [OF Cons.prems(2)]) (rule wp_timeout [OF Cons.prems(1) _ Cons.prems(3,4)])
    then show ?thesis
      by (rule wp_mono) (use \<open>e \<in> _\<close> in auto)
  next
    case (Settled st err a)
    let ?ce = "completion_of p st err a"
    have res: "map logical_work_identity_from_completion_event (results @ [?ce]) = identities (R @ [p])"
      "dones @ [done_event ?i p] = map (done_event ?i) (R @ [p])"
      using Cons.prems(3,4) by simp_all
    consider (failed) "st = FAILURE" | (handed_back) "st \<noteq> FAILURE" "full" "ps \<noteq> []" | (left) "st \<noteq> FAILURE" "full" "ps = []"
      | (more) "st \<noteq> FAILURE" "\<not> full" by blast
    then show ?thesis
    proof cases
      case failed
      have acts: "acts = PutEvent (StartEvent (in_flight_key ?i p) p) # ?rep @
          (if ps \<noteq> [] then [PutEvent (NotStarted bid ps)] else []) @
          after_batch env (Some bid) (?st \<and> ps \<noteq> []) (results @ [?ce]) (dones @ [done_event ?i p])"
        using Cons.prems(5) n Settled failed by (auto simp: Let_def)
      have "wp E m (message_closed ?i bid) C acts s"
        unfolding acts
      proof (rule wp_start [OF Cons.prems(2)])
        fix s1 assume b1: "in_batch s1 ?i bid (R @ [p]) ps"
        show "wp E m (message_closed ?i bid) C (?rep @ (if ps \<noteq> [] then [PutEvent (NotStarted bid ps)] else []) @
          after_batch env (Some bid) (?st \<and> ps \<noteq> []) (results @ [?ce]) (dones @ [done_event ?i p])) s1"
          by (rule wp_report [OF in_batch_ok [OF b1]], rule wp_not_started [OF b1]) (simp, rule wp_batch_end [OF Cons.prems(1) _ res])
      qed
      then show ?thesis by (rule wp_mono) auto
    next
      case handed_back
      have acts: "acts = [PutEvent (StartEvent (in_flight_key ?i p) p)]" "e = Crashed"
        using Cons.prems(5) n Settled handed_back by (auto simp: Let_def split: if_splits)
      show ?thesis unfolding acts(1) by (rule wp_start [OF Cons.prems(2)]) (simp add: acts(2))
    next
      case left
      have acts: "acts = PutEvent (StartEvent (in_flight_key ?i p) p) # ?rep @ after_batch env (Some bid) False (results @ [?ce]) (dones @ [done_event ?i p])"
        using Cons.prems(5) n Settled left by (auto simp: Let_def split: if_splits)
      have "wp E m (message_closed ?i bid) C acts s"
        unfolding acts
      proof (rule wp_start [OF Cons.prems(2)])
        fix s1 assume b1: "in_batch s1 ?i bid (R @ [p]) ps"
        then show "wp E m (message_closed ?i bid) C (?rep @ after_batch env (Some bid) False (results @ [?ce]) (dones @ [done_event ?i p])) s1"
          using wp_report [OF in_batch_ok [OF b1]] wp_batch_end [OF Cons.prems(1) _ res] left(3) by blast
      qed
      then show ?thesis by (rule wp_mono) auto
    next
      case more
      obtain rest t' e' where r: "run_payloads env (Some bid) n ?st (results @ [?ce]) (dones @ [done_event ?i p]) ps = (rest, t', e')"
        by (metis prod_cases3)
      have acts: "acts = PutEvent (StartEvent (in_flight_key ?i p) p) # ?rep @ rest" "t' = tasks'" "e' = e"
        using Cons.prems(5) n Settled more r by (auto simp: Let_def split: if_splits)
      show ?thesis
        unfolding acts(1)
      proof (rule wp_start [OF Cons.prems(2)])
        fix s1 assume b1: "in_batch s1 ?i bid (R @ [p]) ps"
        have "wp E m ?Q C rest s1"
          using r by (intro Cons.IH [OF Cons.prems(1) b1 res]) (simp add: acts)
        then show "wp E m ?Q C (?rep @ rest) s1" by (rule wp_report [OF in_batch_ok [OF b1]])
      qed
    qed
  qed
qed

section \<open>A single item\<close>

definition item_ready :: "('k, 'p) process_parent \<Rightarrow> int \<Rightarrow> ('k, 'p) serialized_item \<Rightarrow> bool" where
  "item_ready s i p \<longleftrightarrow> parent_ok s \<and> registry_of_worker i (pr_registry s) = [] \<and>
     dict_get (tr_pending (pr_transport s)) (item_pending_key i p) = Some (PendingItem p)"

lemma start_item_step:
  assumes r: "item_ready s i p"
    and a: "engine_apply_registry_event E m (StartEvent (in_flight_key i p) p) s = Some s1"
  shows "parent_ok s1 \<and> owned s1 = owned s \<and> registry_of_worker i (pr_registry s1) = [(in_flight_key i p, p)] \<and>
    tr_pending (pr_transport s1) = dict_pop (item_pending_key i p) (tr_pending (pr_transport s))"
proof -
  let ?d = "tr_pending (pr_transport s)" and ?k = "item_pending_key i p"
  have ok: "parent_ok s" and get: "dict_get ?d ?k = Some (PendingItem p)" and reg: "registry_of_worker i (pr_registry s) = []"
    using r by (auto simp: item_ready_def)
  have fresh: "in_flight_key i p \<notin> fst ` set (pr_registry s)"
    using reg by (intro registry_get_worker [where R = "[]"]) auto
  then have none: "dict_get (pr_registry s) (in_flight_key i p) = None"
    by (simp add: map_of_eq_None_iff)
  have wf: "dict_wf ?d" using ok by (simp add: parent_ok_def)
  note M0 = mset_pop [OF wf get]
  have "0 < holders ?d" using map_of_SomeD [OF get] by (force simp: holders_def filter_empty_conv)
  then have "tr_slots (pr_transport s) < tr_queue_size (pr_transport s)"
    using ok by (auto simp: parent_ok_def slots_ok_def)
  then have s1: "s1 = s\<lparr>pr_registry := pr_registry s @ [(in_flight_key i p, p)],
      pr_transport := (pr_transport s)\<lparr>tr_pending := dict_pop ?k ?d, tr_slots := tr_slots (pr_transport s) + 1\<rparr>\<rparr>"
    using a by (auto simp: engine_apply_registry_event_def get none dict_set_fresh [OF fresh] release_slot_def)
  have T: "mset (identities (tracked_items s)) = mset (identities (tracked_items s1)) + {#}"
    unfolding tracked_mset s1 process_parent.simps transport.simps process_parent.update_convs transport.update_convs M0
    by simp
  have "slots_ok (pr_transport s1)"
    using ok unfolding s1 parent_ok_def slots_ok_def holders_mset process_parent.simps transport.simps process_parent.update_convs transport.update_convs
    by (simp add: M0)
  then have "parent_ok s1"
    using ok fresh by (intro parent_ok_step [OF ok _ _ _ _ _ T])
      (auto simp: s1 parent_ok_def list_all_iff pop_as_filter dict_wf_def distinct_map_filter)
  then show ?thesis using owned_step [OF T] reg by (simp add: s1 registry_of_worker_def)
qed

lemma wp_single:
  assumes q: "queue_works env" and r: "item_ready s (we_index env) p"
    and run: "run_payloads env None tasks started [] [] [p] = (acts, tasks', e)"
  shows "wp E m (\<lambda>s'. e \<in> {NextMessage, LeaveLoop} \<longrightarrow> registry_of_worker (we_index env) (pr_registry s') = []) C acts s"
    (is "wp E m ?Q C acts s")
proof -
  let ?i = "we_index env" and ?p = "(in_flight_key (we_index env) p, p)"
  let ?start = "PutEvent (StartEvent (in_flight_key ?i p) p)"
  have start: "wp E m Q C (?start # rest) s"
    if "\<And>s1. parent_ok s1 \<Longrightarrow> registry_of_worker ?i (pr_registry s1) = [?p] \<Longrightarrow> wp E m Q C rest s1" for Q rest
    using that start_item_step [OF r, of E m] by fastforce
  obtain n full where n: "count_task env tasks = (n, full)" by fastforce
  show ?thesis
  proof (cases "run_item (we_max_retries env) (we_call env p)")
    case (FatalTimeout err a)
    then have acts: "acts = [?start, PutEvent (TimeoutEvent (in_flight_key ?i p) p a err)]" "e = ExitedOnTimeout"
      using run n by (auto simp: after_batch_def Let_def)
    show ?thesis unfolding acts(1)
    proof (rule start)
      fix s1 assume s1: "parent_ok s1" "registry_of_worker ?i (pr_registry s1) = [?p]"
      then have "dict_get (pr_registry s1) (in_flight_key ?i p) = Some p"
        by (intro registry_worker_get [where R = "[p]"]) (auto simp: parent_ok_def)
      from apply_timeout_step [OF s1(1) this]
      show "wp E m ?Q C [PutEvent (TimeoutEvent (in_flight_key ?i p) p a err)] s1" by (auto simp: acts(2))
    qed
  next
    case (Settled st err a)
    have acts: "acts = ?start # (if started \<or> we_max_retries env \<ge> 1 then [PutEvent BatchCompleted] else []) @
        PutCompletion (OneCompletion (completion_of p st err a)) # [PutEvent (done_event ?i p)]"
      using run n Settled q by (auto simp: queue_works_def put_completion_def Let_def after_batch_def split: if_splits)
    show ?thesis unfolding acts
    proof (rule start)
      fix s1 assume s1: "parent_ok s1" "registry_of_worker ?i (pr_registry s1) = [?p]"
      have "wp E m ?Q (C \<union> event_identities (OneCompletion (completion_of p st err a))) (map PutEvent (map (done_event ?i) [p])) s1"
        using s1 by (intro wp_dones [where L = "[]"]) (auto simp: event_identities_def)
      then have "wp E m ?Q C (PutCompletion (OneCompletion (completion_of p st err a)) # [PutEvent (done_event ?i p)]) s1" by simp
      then show "wp E m ?Q C ((if started \<or> we_max_retries env \<ge> 1 then [PutEvent BatchCompleted] else []) @
          PutCompletion (OneCompletion (completion_of p st err a)) # [PutEvent (done_event ?i p)]) s1"
        by (rule wp_report [OF s1(1)])
    qed
  qed
qed

section \<open>A requeue has its slots\<close>

fun requeue_demand :: "('k, 'p) registry_event \<Rightarrow> nat" where
  "requeue_demand (NotStarted b ps) = length ps"
| "requeue_demand _ = 0"

lemma dispatch_slots:
  "dispatch_payload E p tr = Some (r, tr') \<Longrightarrow> tr_slots tr - 1 \<le> tr_slots tr'"
  by (auto simp: dispatch_payload_def send_entry_def Let_def release_slot_def split: if_splits option.splits)

lemma requeue_not_started_slots:
  "int (length ps) \<le> tr_slots (pr_transport s) \<Longrightarrow>
   \<exists>s'. requeue_not_started E m ps s = Some s' \<and> tr_slots (pr_transport s) - int (length ps) \<le> tr_slots (pr_transport s')"
proof (induction ps arbitrary: s)
  case (Cons p ps)
  have "dispatch_payload E p (pr_transport s) \<noteq> None"
    using Cons.prems by (intro dispatch_payload_returns) simp
  then obtain r tr where d: "dispatch_payload E p (pr_transport s) = Some (r, tr)" by auto
  show ?case
  proof (cases r)
    case (Inl e)
    then show ?thesis using d dispatch_slots [OF d] Cons.prems by auto
  next
    case (Inr u)
    then show ?thesis using d dispatch_slots [OF d] Cons.IH [of "s\<lparr>pr_transport := tr\<rparr>"] Cons.prems by fastforce
  qed
qed simp

lemma release_slot_mono: "tr_slots s \<le> tr_slots (release_slot s)"
  by (simp add: release_slot_def)

lemma handle_registry_event_slots: "tr_slots tr \<le> tr_slots (snd (handle_registry_event e tr))"
  by (cases e) (auto simp: release_slot_def start_batch_item_def drop_not_started_def Let_def split: option.splits if_splits prod.splits)

lemma apply_event_slots:
  assumes "int (requeue_demand e) \<le> tr_slots (pr_transport s)"
  shows "\<exists>s1. engine_apply_registry_event E m e s = Some s1 \<and>
    tr_slots (pr_transport s) - int (requeue_demand e) \<le> tr_slots (pr_transport s1)"
proof -
  obtain hit tr where h: "handle_registry_event e (pr_transport s) = (hit, tr)" by fastforce
  have mono: "tr_slots (pr_transport s) \<le> tr_slots tr"
    using handle_registry_event_slots [of "pr_transport s" e] by (simp add: h)
  show ?thesis
  proof (cases e)
    case (NotStarted b ps)
    then show ?thesis
      using requeue_not_started_slots [of ps "s\<lparr>pr_transport := tr\<rparr>" E m] assms mono h
      by (cases hit) (fastforce simp: engine_apply_registry_event_def Let_def simp del: handle_registry_event.simps)+
  qed (use mono h in \<open>simp_all add: engine_apply_registry_event_def Let_def del: handle_registry_event.simps apply_registry_event.simps\<close>)
qed

lemma drain_returns:
  "int (sum_list (map requeue_demand es)) \<le> tr_slots (pr_transport s) \<Longrightarrow> drain_registry_event_queue E m es s \<noteq> None"
proof (induction es arbitrary: s)
  case (Cons e es)
  then obtain s1 where "engine_apply_registry_event E m e s = Some s1"
    "tr_slots (pr_transport s) - int (requeue_demand e) \<le> tr_slots (pr_transport s1)"
    using apply_event_slots [of e s E m] by fastforce
  then show ?case using Cons by simp
qed simp

section \<open>A worker that dies leaves no item behind\<close>

lemma action_events_append [simp]: "action_events (xs @ ys) = action_events xs @ action_events ys"
  by (induction xs rule: action_events.induct) auto

lemma action_events_map [simp]: "action_events (map PutEvent es) = es"
  by (induction es) auto

definition demand :: "('k, 'p) worker_action list \<Rightarrow> nat" where
  "demand acts = sum_list (map requeue_demand (action_events acts))"

lemma demand_simps [simp]:
  "demand [] = 0" "demand (PutEvent e # acts) = requeue_demand e + demand acts"
  "demand (PutCompletion c # acts) = demand acts" "demand (xs @ ys) = demand xs + demand ys"
  by (simp_all add: demand_def)

lemma demand_take: "demand (take n acts) \<le> demand acts"
  by (metis append_take_drop_id demand_simps(4) le_add1)

lemma demand_put [simp]: "demand (put_completion env msg) = 0"
  by (simp add: put_completion_def)

lemma demand_puts [simp]: "demand (concat (map (\<lambda>e. put_completion env (f e)) es)) = 0"
  by (induction es) auto

lemma demand_events [simp]: "demand (map PutEvent es) = sum_list (map requeue_demand es)"
  by (simp add: demand_def)

lemma demand_done [simp]: "requeue_demand (done_event i p) = 0"
  by (simp add: done_event_def)

lemma demand_after_batch [simp]:
  "sum_list (map requeue_demand dones) = 0 \<Longrightarrow> demand (after_batch env b report results dones) = 0"
  by (cases report; cases b) (simp_all add: after_batch_def flush_route_batch_completion_def)

lemma demand_run_payloads:
  "run_payloads env b tasks started results dones ps = (acts, tasks', e) \<Longrightarrow> sum_list (map requeue_demand dones) = 0
    \<Longrightarrow> demand acts \<le> length ps"
proof (induction ps arbitrary: tasks started results dones acts)
  case Nil
  then show ?case by auto
next
  case (Cons p ps)
  obtain n full where n: "count_task env tasks = (n, full)" by fastforce
  note prems = Cons.prems(1) [unfolded run_payloads.simps Let_def n prod.case]
  show ?case
  proof (cases "run_item (we_max_retries env) (we_call env p)")
    case (FatalTimeout err a)
    then show ?thesis using prems Cons.prems(2) by (auto split: if_splits)
  next
    case (Settled st err a)
    show ?thesis
    proof (cases b)
      case None
      then show ?thesis using prems Settled Cons.prems(2)
        by (auto simp: le_Suc_eq split: if_splits prod.splits dest!: Cons.IH [unfolded None])
    next
      case (Some bid)
      then show ?thesis using prems Settled Cons.prems(2)
        by (auto simp: le_Suc_eq split: if_splits prod.splits dest!: Cons.IH [unfolded Some])
    qed
  qed
qed

definition message_ready :: "('k, 'p) process_parent \<Rightarrow> int \<Rightarrow> string option \<Rightarrow> ('k, 'p) serialized_item list \<Rightarrow> bool" where
  "message_ready s i b ps \<longleftrightarrow>
     (case b of None \<Rightarrow> (\<exists>p. ps = [p] \<and> item_ready s i p) | Some bid \<Rightarrow> in_batch s i bid [] ps)"

lemma message_ready_ok: "message_ready s i b ps \<Longrightarrow> parent_ok s"
  by (auto simp: message_ready_def item_ready_def in_batch_def split: option.splits)

lemma wp_run_message:
  assumes "queue_works env" "message_ready s (we_index env) b ps" "run_message env tasks stamped b ps = (acts, tasks', e)"
  shows "wp E m (\<lambda>s'. e \<in> {NextMessage, LeaveLoop} \<longrightarrow> registry_of_worker (we_index env) (pr_registry s') = []) {} acts s"
proof -
  obtain acts0 where a: "run_payloads env b tasks False [] [] ps = (acts0, tasks', e)"
    "acts = (if stamped then [PutEvent BatchReceived] else []) @ acts0"
    using assms(3) by (auto simp: run_message_def split: prod.splits)
  have "wp E m (\<lambda>s'. e \<in> {NextMessage, LeaveLoop} \<longrightarrow> registry_of_worker (we_index env) (pr_registry s') = []) {} acts0 s"
  proof (cases b)
    case None
    then obtain p where p: "ps = [p]" "item_ready s (we_index env) p" using assms(2) by (auto simp: message_ready_def)
    show ?thesis by (rule wp_single [OF assms(1) p(2) a(1) [unfolded p(1) None]])
  next
    case (Some bid)
    then have "wp E m (\<lambda>s. e \<in> {NextMessage, LeaveLoop} \<longrightarrow> message_closed (we_index env) bid s) {} acts0 s"
      using assms(2) a(1) by (intro wp_run_payloads [OF assms(1), where R = "[]"]) (auto simp: message_ready_def)
    then show ?thesis by (rule wp_mono) (auto simp: message_closed_def)
  qed
  then show ?thesis
    using message_ready_ok [OF assms(2)] unfolding a(2) by (cases stamped) (simp_all add: apply_neutral)
qed


definition demo_batch_parent :: "(nat, nat) process_parent" where
  "demo_batch_parent =
     \<lparr>pr_registry = [], pr_transport = \<lparr>tr_queue_size = 4, tr_slots = 3,
        tr_pending = [(BatchKey 1 ''b'', PendingBatch ''b'' [demo_item 6 0, demo_item 7 0, demo_item 8 0] False)],
        tr_pipes = [], tr_shutdown = False\<rparr>,
      pr_emitted = []\<rparr>"

text \<open>Item 6 succeeds, item 7 fails twice, item 8 is not started.\<close>

definition demo_worker_env :: "(nat, nat) worker_env" where
  "demo_worker_env =
     \<lparr>we_index = 1, we_max_retries = 2,
      we_call = \<lambda>p a. if si_offset p = 6 then CallReturned else CallRaised ''boom'',
      we_packs = \<lambda>msg. True, we_puts = \<lambda>msg. True, we_recycle_limit = None\<rparr>"

lemma demo_message_ready: "message_ready demo_batch_parent (we_index demo_worker_env) (Some ''b'') [demo_item 6 0, demo_item 7 0, demo_item 8 0]"
  by (simp add: message_ready_def in_batch_def demo_batch_parent_def demo_worker_env_def demo_item_def parent_ok_def dict_wf_def
      slots_ok_def holders_def tracked_items_def registry_items_def pending_items_def logical_work_identity_from_payload_def
      registry_of_worker_def position_def)

definition demo_actions :: "(nat, nat) worker_action list" where
  "demo_actions = fst (run_message demo_worker_env 0 True (Some ''b'') [demo_item 6 0, demo_item 7 0, demo_item 8 0])"

lemma demo_run: "run_message demo_worker_env 0 True (Some ''b'') [demo_item 6 0, demo_item 7 0, demo_item 8 0] = (demo_actions, 0, NextMessage)"
  unfolding demo_actions_def by code_simp

lemma demo_drained:
  "length demo_actions = 8 \<and>
   map_option (\<lambda>s'. (tr_pipes (pr_transport s'), pr_registry s')) (drain_registry_event_queue demo_pipe_env 2 (action_events (take 8 demo_actions)) demo_batch_parent) =
   Some ([(1, [demo_item 8 0])], [])"
  unfolding demo_actions_def by code_simp


text \<open>
  When the completions of a batch cannot be packed, the worker falls back to one message per item
  and skips those that cannot be packed either, but still reports their items done: the parent
  forgets the item and no completion ever arrives.
\<close>

definition demo_unpackable_env :: "(nat, nat) worker_env" where
  "demo_unpackable_env = demo_worker_env\<lparr>we_packs := (\<lambda>msg. \<not> list_ex (\<lambda>e. ce_offset e = 7) (completion_events msg))\<rparr>"

lemma unpackable_completion_lost:
  "(let acts = fst (run_message demo_unpackable_env 0 True (Some ''b'') [demo_item 6 0, demo_item 7 0, demo_item 8 0])
    in map ce_offset (action_completions acts) = [6] \<and>
       map_option (\<lambda>s'. map si_offset (tracked_items s') @ map ce_offset (pr_emitted s'))
         (drain_registry_event_queue demo_pipe_env 2 (action_events acts) demo_batch_parent) = Some [8])"
  by code_simp

end
