(* ===== verification/Process_Engine.thy ===== *)
theory Process_Engine
  imports Worker_Runtime Execution_Engine
begin

text \<open>
  The parent side of \<open>process_engine.py\<close>: the completion buffer of
  \<open>process_completion_buffer.py\<close> with its window of seen identities, the liveness scan of
  \<open>process_worker_supervisor.py\<close>, submission, polling, and the shutdown of
  \<open>process_shutdown_support.py\<close>. The two queues hold what is visible to the parent; what arrives
  while an operation runs is an argument. Decoding a queue item and packing an event are
  parameters (\<open>Process_Codec\<close> has the code's own).

  An operation answers \<open>None\<close> while it waits for a pipe slot, \<open>Inl\<close> for an exception, \<open>Inr\<close> for a
  result, with the state it leaves. \<open>Process_Stream\<close> proves what polling hands out.
\<close>

type_synonym ('a, 's) out = "((py_error + 'a) \<times> 's) option"

definition out_bind :: "('a, 's) out \<Rightarrow> ('a \<Rightarrow> 's \<Rightarrow> ('b, 's) out) \<Rightarrow> ('b, 's) out" where
  "out_bind r f = (case r of None \<Rightarrow> None | Some (Inl e, s) \<Rightarrow> Some (Inl e, s) | Some (Inr a, s) \<Rightarrow> f a s)"

record ('k, 'p, 'q) engine_env =
  ee_pipe :: "('k, 'p) pipe_env"
  ee_decode :: "'q \<Rightarrow> py_error + completion_event list"
  ee_pack :: "completion_event \<Rightarrow> 'q"
  ee_max_retries :: int
  ee_max_seen :: int
  ee_liveness_interval :: real

record ('k, 'p, 'q) process_engine =
  pe_parent :: "('k, 'p) process_parent"
  pe_registry_event_queue :: "('k, 'p) registry_event list"
  pe_completion_queue :: "'q list"
  pe_prefetched :: "completion_event list"
  pe_seen :: "work_identity set"
  pe_seen_order :: "work_identity list"
  pe_in_flight_count :: int
  pe_is_shutdown :: bool
  pe_last_liveness_check :: real

definition process_engine_init :: "int \<Rightarrow> ('k, 'p, 'q) process_engine" where
  "process_engine_init queue_size =
     \<lparr>pe_parent = \<lparr>pr_registry = [],
        pr_transport = \<lparr>tr_queue_size = queue_size, tr_slots = queue_size, tr_pending = [], tr_pipes = [], tr_shutdown = False\<rparr>,
        pr_emitted = []\<rparr>,
      pe_registry_event_queue = [], pe_completion_queue = [], pe_prefetched = [], pe_seen = {}, pe_seen_order = [],
      pe_in_flight_count = 0, pe_is_shutdown = False, pe_last_liveness_check = 0\<rparr>"

text \<open>What the worker-pipe transport refuses of the configuration.\<close>

record process_config =
  pc_batch_size :: int
  pc_max_batch_wait_ms :: int
  pc_flush_policy :: string
  pc_demand_flush_min_residence_ms :: int
  pc_max_tasks_per_child :: int
  pc_recycle_jitter_ms :: int

definition validate_transport_config :: "process_config \<Rightarrow> py_error + unit" where
  "validate_transport_config cfg =
     (if pc_batch_size cfg \<noteq> 1 then Inl ValueError
      else if pc_max_batch_wait_ms cfg \<noteq> 0 then Inl ValueError
      else if pc_flush_policy cfg \<noteq> ''size_or_timer'' then Inl ValueError
      else if pc_demand_flush_min_residence_ms cfg \<noteq> 0 then Inl ValueError
      else if pc_max_tasks_per_child cfg \<noteq> 0 then Inl ValueError
      else if pc_recycle_jitter_ms cfg \<noteq> 0 then Inl ValueError
      else Inr ())"

text \<open>A configuration that passes never recycles a worker.\<close>

lemma validated_never_recycles:
  "validate_transport_config cfg = Inr () \<Longrightarrow> recycle_limit (pc_max_tasks_per_child cfg) (pc_recycle_jitter_ms cfg) j = None"
  by (auto simp: validate_transport_config_def recycle_limit_def split: if_splits)

section \<open>The completion buffer\<close>

definition is_synthetic_failure_event :: "completion_event \<Rightarrow> bool" where
  "is_synthetic_failure_event e \<longleftrightarrow>
     ce_status e = FAILURE \<and> ce_id e = '''' \<and> topic (ce_tp e) = '''' \<and> ce_offset e < 0 \<and> ce_epoch e = 0"

text \<open>The \<open>while\<close> loop that forgets the oldest identities.\<close>

fun forget_oldest :: "int \<Rightarrow> work_identity set \<Rightarrow> work_identity list \<Rightarrow> work_identity set \<times> work_identity list" where
  "forget_oldest n seen [] = (seen, [])"
| "forget_oldest n seen (i # order) =
     (if int (length (i # order)) > n then forget_oldest n (seen - {i}) order else (seen, i # order))"

definition is_duplicate_event ::
  "('k, 'p, 'q) engine_env \<Rightarrow> completion_event \<Rightarrow> ('k, 'p, 'q) process_engine \<Rightarrow> bool \<times> ('k, 'p, 'q) process_engine" where
  "is_duplicate_event env e s =
     (let i = logical_work_identity_from_completion_event e
      in if is_synthetic_failure_event e then (False, s)
         else if i \<in> pe_seen s then (True, s)
         else let (seen, order) = forget_oldest (max 1 (ee_max_seen env)) (insert i (pe_seen s)) (pe_seen_order s @ [i])
              in (False, s\<lparr>pe_seen := seen, pe_seen_order := order\<rparr>))"

definition discard_registry_entry_for_completion ::
  "completion_event \<Rightarrow> ('k, 'p, 'q) process_engine \<Rightarrow> ('k, 'p, 'q) process_engine" where
  "discard_registry_entry_for_completion e s =
     s\<lparr>pe_parent := (pe_parent s)\<lparr>pr_registry := discard_completion_from_registry e (pr_registry (pe_parent s))\<rparr>\<rparr>"

definition prefetch_event ::
  "('k, 'p, 'q) engine_env \<Rightarrow> completion_event \<Rightarrow> ('k, 'p, 'q) process_engine \<Rightarrow> bool \<times> ('k, 'p, 'q) process_engine" where
  "prefetch_event env e s =
     (let (dup, s1) = is_duplicate_event env e s
      in if dup then (False, s1)
         else (True, discard_registry_entry_for_completion e (s1\<lparr>pe_prefetched := pe_prefetched s1 @ [e]\<rparr>)))"

fun prefetch_events ::
  "('k, 'p, 'q) engine_env \<Rightarrow> completion_event list \<Rightarrow> bool \<Rightarrow> ('k, 'p, 'q) process_engine \<Rightarrow> bool \<times> ('k, 'p, 'q) process_engine" where
  "prefetch_events env [] accepted s = (accepted, s)"
| "prefetch_events env (e # es) accepted s =
     (let (ok, s1) = prefetch_event env e s in prefetch_events env es (ok \<or> accepted) s1)"

definition prefetch_queue_item ::
  "('k, 'p, 'q) engine_env \<Rightarrow> 'q \<Rightarrow> ('k, 'p, 'q) process_engine \<Rightarrow> (py_error + bool) \<times> ('k, 'p, 'q) process_engine" where
  "prefetch_queue_item env raw_event s =
     (case ee_decode env raw_event of
        Inl err \<Rightarrow> (Inl err, s)
      | Inr events \<Rightarrow> (let (accepted, s1) = prefetch_events env events False s in (Inr accepted, s1)))"

text \<open>\<open>drain_queue\<close> over the visible items; an item that cannot be decoded raises and is gone.\<close>

fun drain_items ::
  "('k, 'p, 'q) engine_env \<Rightarrow> 'q list \<Rightarrow> nat \<Rightarrow> ('k, 'p, 'q) process_engine \<Rightarrow> (py_error + nat) \<times> ('k, 'p, 'q) process_engine" where
  "drain_items env [] prefetched s = (Inr prefetched, s\<lparr>pe_completion_queue := []\<rparr>)"
| "drain_items env (raw_event # queue) prefetched s =
     (case prefetch_queue_item env raw_event s of
        (Inl err, s1) \<Rightarrow> (Inl err, s1\<lparr>pe_completion_queue := queue\<rparr>)
      | (Inr accepted, s1) \<Rightarrow> drain_items env queue (if accepted then prefetched + 1 else prefetched) s1)"

definition drain_queue ::
  "('k, 'p, 'q) engine_env \<Rightarrow> ('k, 'p, 'q) process_engine \<Rightarrow> (py_error + nat) \<times> ('k, 'p, 'q) process_engine" where
  "drain_queue env s = drain_items env (pe_completion_queue s) 0 s"

definition poll_prefetched ::
  "int \<Rightarrow> ('k, 'p, 'q) process_engine \<Rightarrow> completion_event list \<times> ('k, 'p, 'q) process_engine" where
  "poll_prefetched batch_limit s =
     (let taken = take (nat batch_limit) (pe_prefetched s)
      in (taken, s\<lparr>pe_prefetched := drop (nat batch_limit) (pe_prefetched s),
                   pe_in_flight_count := pe_in_flight_count s - int (length taken)\<rparr>))"

fun take_events ::
  "('k, 'p, 'q) engine_env \<Rightarrow> int \<Rightarrow> completion_event list \<Rightarrow> completion_event list \<Rightarrow> ('k, 'p, 'q) process_engine
    \<Rightarrow> completion_event list \<times> ('k, 'p, 'q) process_engine" where
  "take_events env batch_limit [] completed s = (completed, s)"
| "take_events env batch_limit (e # es) completed s =
     (let (dup, s1) = is_duplicate_event env e s
      in if dup then take_events env batch_limit es completed s1
         else if int (length completed) \<ge> batch_limit
         then take_events env batch_limit es completed
                (discard_registry_entry_for_completion e (s1\<lparr>pe_prefetched := pe_prefetched s1 @ [e]\<rparr>))
         else take_events env batch_limit es (completed @ [e])
                ((discard_registry_entry_for_completion e s1)\<lparr>pe_in_flight_count := pe_in_flight_count s1 - 1\<rparr>))"

fun poll_items ::
  "('k, 'p, 'q) engine_env \<Rightarrow> int \<Rightarrow> 'q list \<Rightarrow> completion_event list \<Rightarrow> ('k, 'p, 'q) process_engine
    \<Rightarrow> (py_error + completion_event list) \<times> ('k, 'p, 'q) process_engine" where
  "poll_items env batch_limit [] completed s = (Inr completed, s\<lparr>pe_completion_queue := []\<rparr>)"
| "poll_items env batch_limit (raw_event # queue) completed s =
     (if int (length completed) \<ge> batch_limit then (Inr completed, s\<lparr>pe_completion_queue := raw_event # queue\<rparr>)
      else case ee_decode env raw_event of
             Inl err \<Rightarrow> (Inl err, s\<lparr>pe_completion_queue := queue\<rparr>)
           | Inr events \<Rightarrow>
               let (completed', s1) = take_events env batch_limit events completed s
               in poll_items env batch_limit queue completed' s1)"

definition poll_available ::
  "('k, 'p, 'q) engine_env \<Rightarrow> int \<Rightarrow> ('k, 'p, 'q) process_engine
    \<Rightarrow> (py_error + completion_event list) \<times> ('k, 'p, 'q) process_engine" where
  "poll_available env batch_limit s = poll_items env batch_limit (pe_completion_queue s) [] s"

section \<open>Supervision\<close>

text \<open>The parent changes and the failures it emitted go on the completion queue.\<close>

definition with_parent ::
  "('k, 'p, 'q) engine_env \<Rightarrow> ('k, 'p) process_parent \<Rightarrow> ('k, 'p, 'q) process_engine \<Rightarrow> ('k, 'p, 'q) process_engine" where
  "with_parent env p s =
     s\<lparr>pe_parent := p,
       pe_completion_queue := pe_completion_queue s @
         map (ee_pack env) (drop (length (pr_emitted (pe_parent s))) (pr_emitted p))\<rparr>"

definition drain_registry_events ::
  "('k, 'p, 'q) engine_env \<Rightarrow> ('k, 'p, 'q) process_engine \<Rightarrow> (nat, ('k, 'p, 'q) process_engine) out" where
  "drain_registry_events env s =
     (case drain_registry_event_queue (ee_pipe env) (ee_max_retries env) (pe_registry_event_queue s) (pe_parent s) of
        None \<Rightarrow> None
      | Some p \<Rightarrow> Some (Inr (length (pe_registry_event_queue s)), (with_parent env p s)\<lparr>pe_registry_event_queue := []\<rparr>))"

definition should_run_liveness_scan ::
  "('k, 'p, 'q) engine_env \<Rightarrow> bool \<Rightarrow> real \<Rightarrow> ('k, 'p, 'q) process_engine \<Rightarrow> bool \<times> ('k, 'p, 'q) process_engine" where
  "should_run_liveness_scan env force now s =
     (if ee_liveness_interval env > 0 \<and> \<not> force then
        if now - pe_last_liveness_check s < ee_liveness_interval env then (False, s)
        else (True, s\<lparr>pe_last_liveness_check := now\<rparr>)
      else if force then (True, s\<lparr>pe_last_liveness_check := now\<rparr>)
      else (True, s))"

text \<open>The dead workers in index order, each with the exception its restart raises, if it does.\<close>

fun recover_workers ::
  "('k, 'p, 'q) engine_env \<Rightarrow> (int \<times> string option) list \<Rightarrow> ('k, 'p, 'q) process_engine \<Rightarrow> (unit, ('k, 'p, 'q) process_engine) out" where
  "recover_workers env [] s = Some (Inr (), s)"
| "recover_workers env ((idx, restart_error) # dead) s =
     (case recover_worker (ee_pipe env) (ee_max_retries env) idx restart_error (pe_parent s) of
        None \<Rightarrow> None
      | Some p \<Rightarrow> recover_workers env dead (with_parent env p s))"

definition ensure_workers_alive ::
  "('k, 'p, 'q) engine_env \<Rightarrow> bool \<Rightarrow> real \<Rightarrow> (int \<times> string option) list \<Rightarrow> ('k, 'p, 'q) process_engine
    \<Rightarrow> (unit, ('k, 'p, 'q) process_engine) out" where
  "ensure_workers_alive env force now dead s =
     (if pe_is_shutdown s then Some (Inr (), s)
      else out_bind (drain_registry_events env s) (\<lambda>n s1.
           out_bind (Some (drain_queue env s1)) (\<lambda>k s2.
             let (run, s3) = should_run_liveness_scan env force now s2
             in if run then recover_workers env dead s3 else Some (Inr (), s3))))"

section \<open>The operations of the engine\<close>

definition count_submitted :: "int \<Rightarrow> (string + unit) \<times> ('k, 'p) transport \<Rightarrow> ('k, 'p, 'q) process_engine \<Rightarrow> (unit, ('k, 'p, 'q) process_engine) out" where
  "count_submitted n r s =
     (case r of
        (Inl e, tr) \<Rightarrow> Some (Inl RuntimeError, s\<lparr>pe_parent := (pe_parent s)\<lparr>pr_transport := tr\<rparr>\<rparr>)
      | (Inr _, tr) \<Rightarrow> Some (Inr (), s\<lparr>pe_parent := (pe_parent s)\<lparr>pr_transport := tr\<rparr>,
                                     pe_in_flight_count := pe_in_flight_count s + n\<rparr>))"

definition engine_submit ::
  "('k, 'p, 'q) engine_env \<Rightarrow> real \<Rightarrow> (int \<times> string option) list \<Rightarrow> ('k, 'p) serialized_item \<Rightarrow> ('k, 'p, 'q) process_engine
    \<Rightarrow> (unit, ('k, 'p, 'q) process_engine) out" where
  "engine_submit env now dead p s =
     (if pe_is_shutdown s then Some (Inl RuntimeError, s)
      else out_bind (drain_registry_events env s) (\<lambda>_ s1.
           out_bind (ensure_workers_alive env True now dead s1) (\<lambda>_ s2.
             case dispatch_payload (ee_pipe env) p (pr_transport (pe_parent s2)) of
               None \<Rightarrow> None
             | Some r \<Rightarrow> count_submitted 1 r s2)))"

definition same_route :: "('k, 'p) serialized_item \<Rightarrow> ('k, 'p) serialized_item \<Rightarrow> bool" where
  "same_route p q \<longleftrightarrow> si_topic p = si_topic q \<and> si_partition p = si_partition q \<and> si_key p = si_key q"

text \<open>\<open>BaseExecutionEngine.submit_batch\<close> on this engine: item by item, with the number accepted so far on an exception.\<close>

fun submit_each ::
  "('k, 'p, 'q) engine_env \<Rightarrow> real \<Rightarrow> (int \<times> string option) list \<Rightarrow> int \<Rightarrow> ('k, 'p) serialized_item list \<Rightarrow> ('k, 'p, 'q) process_engine
    \<Rightarrow> (submit_outcome \<times> ('k, 'p, 'q) process_engine) option" where
  "submit_each env now dead accepted_count [] s = Some (Accepted, s)"
| "submit_each env now dead accepted_count (p # ps) s =
     (case engine_submit env now dead p s of
        None \<Rightarrow> None
      | Some (Inl e, s1) \<Rightarrow> Some (BatchSubmitError accepted_count, s1)
      | Some (Inr _, s1) \<Rightarrow> submit_each env now dead (accepted_count + 1) ps s1)"

definition as_outcome :: "(unit, 's) out \<Rightarrow> (submit_outcome \<times> 's) option" where
  "as_outcome r = map_option (\<lambda>(a, s). (case a of Inl _ \<Rightarrow> SubmitFailed | Inr _ \<Rightarrow> Accepted, s)) r"

text \<open>\<open>batch_id\<close> is the fresh \<open>uuid4\<close>.\<close>

definition engine_submit_batch ::
  "('k, 'p, 'q) engine_env \<Rightarrow> real \<Rightarrow> (int \<times> string option) list \<Rightarrow> string \<Rightarrow> ('k, 'p) serialized_item list
    \<Rightarrow> ('k, 'p, 'q) process_engine \<Rightarrow> (submit_outcome \<times> ('k, 'p, 'q) process_engine) option" where
  "engine_submit_batch env now dead batch_id ps s =
     (if pe_is_shutdown s then Some (SubmitFailed, s)
      else if ps = [] \<or> list_ex (\<lambda>p. \<not> same_route p (hd ps)) (List.tl ps) then submit_each env now dead 0 ps s
      else as_outcome
        (out_bind (drain_registry_events env s) (\<lambda>_ s1.
         out_bind (ensure_workers_alive env True now dead s1) (\<lambda>_ s2.
           case dispatch_route_batch (ee_pipe env) (worker_for (ee_pipe env) (hd ps)) batch_id ps (pr_transport (pe_parent s2)) of
             None \<Rightarrow> None
           | Some r \<Rightarrow> count_submitted (int (length ps)) r s2))))"

definition engine_poll_completed_events ::
  "('k, 'p, 'q) engine_env \<Rightarrow> real \<Rightarrow> (int \<times> string option) list \<Rightarrow> int \<Rightarrow> ('k, 'p, 'q) process_engine
    \<Rightarrow> (completion_event list, ('k, 'p, 'q) process_engine) out" where
  "engine_poll_completed_events env now dead batch_limit s =
     out_bind
       (if pe_is_shutdown s then Some (Inr (), s)
        else out_bind (ensure_workers_alive env False now dead s) (\<lambda>_ s1.
             out_bind (drain_registry_events env s1) (\<lambda>_ s2. Some (Inr (), s2))))
       (\<lambda>_ s3.
          let (events, s4) = poll_prefetched batch_limit s3
          in if pe_is_shutdown s3 then Some (Inr events, s4)
             else out_bind (Some (poll_available env (batch_limit - int (length events)) s4)) (\<lambda>more s5.
                    Some (Inr (events @ more), s5)))"

definition engine_get_min_inflight_offset ::
  "('k, 'p, 'q) engine_env \<Rightarrow> topic_partition \<Rightarrow> ('k, 'p, 'q) process_engine \<Rightarrow> (int option, ('k, 'p, 'q) process_engine) out" where
  "engine_get_min_inflight_offset env tp s =
     out_bind (drain_registry_events env s) (\<lambda>_ s1. Some (Inr (get_min_inflight_offset tp (pr_registry (pe_parent s1))), s1))"

text \<open>\<open>wait_for_completion\<close>: \<open>arrivals\<close> are the items the queue gives within the timeout, beyond those already visible.\<close>

fun wait_items ::
  "('k, 'p, 'q) engine_env \<Rightarrow> 'q list \<Rightarrow> ('k, 'p, 'q) process_engine \<Rightarrow> (py_error + bool) \<times> ('k, 'p, 'q) process_engine" where
  "wait_items env [] s = (Inr (pe_prefetched s \<noteq> []), s\<lparr>pe_completion_queue := []\<rparr>)"
| "wait_items env (raw_event # queue) s =
     (case prefetch_queue_item env raw_event s of
        (Inl err, s1) \<Rightarrow> (Inl err, s1\<lparr>pe_completion_queue := queue\<rparr>)
      | (Inr accepted, s1) \<Rightarrow>
          if accepted then (Inr True, s1\<lparr>pe_completion_queue := queue\<rparr>) else wait_items env queue s1)"

definition engine_wait_for_completion ::
  "('k, 'p, 'q) engine_env \<Rightarrow> real \<Rightarrow> (int \<times> string option) list \<Rightarrow> 'q list \<Rightarrow> ('k, 'p, 'q) process_engine
    \<Rightarrow> (bool, ('k, 'p, 'q) process_engine) out" where
  "engine_wait_for_completion env now dead arrivals s =
     (if pe_is_shutdown s then Some (Inr (pe_prefetched s \<noteq> []), s)
      else out_bind (ensure_workers_alive env False now dead s) (\<lambda>_ s1.
           out_bind (drain_registry_events env s1) (\<lambda>_ s2.
             if pe_prefetched s2 \<noteq> [] then Some (Inr True, s2)
             else Some (wait_items env (pe_completion_queue s2 @ arrivals) s2))))"

section \<open>Shutdown\<close>

definition signal_shutdown :: "('k, 'p) transport \<Rightarrow> ('k, 'p) transport" where
  "signal_shutdown tr = ((release_slot ^^ nat (tr_queue_size tr)) tr)\<lparr>tr_shutdown := True\<rparr>"

text \<open>What the workers put until a drain pass: registry events and completion items.\<close>

definition arrive ::
  "('k, 'p) registry_event list \<times> 'q list \<Rightarrow> ('k, 'p, 'q) process_engine \<Rightarrow> ('k, 'p, 'q) process_engine" where
  "arrive new s =
     s\<lparr>pe_registry_event_queue := pe_registry_event_queue s @ fst new, pe_completion_queue := pe_completion_queue s @ snd new\<rparr>"

definition drain_shutdown_ipc_once ::
  "('k, 'p, 'q) engine_env \<Rightarrow> ('k, 'p, 'q) process_engine \<Rightarrow> (nat \<times> nat, ('k, 'p, 'q) process_engine) out" where
  "drain_shutdown_ipc_once env s =
     out_bind (drain_registry_events env s) (\<lambda>n s1.
     out_bind (Some (drain_queue env s1)) (\<lambda>k s2. Some (Inr (n, k), s2)))"

text \<open>The passes before the workers are joined, as many as the deadline allows.\<close>

fun drain_before_join ::
  "('k, 'p, 'q) engine_env \<Rightarrow> (('k, 'p) registry_event list \<times> 'q list) list \<Rightarrow> ('k, 'p, 'q) process_engine
    \<Rightarrow> (unit, ('k, 'p, 'q) process_engine) out" where
  "drain_before_join env [] s = Some (Inr (), s)"
| "drain_before_join env (new # passes) s =
     out_bind (drain_shutdown_ipc_once env (arrive new s)) (\<lambda>(n, k) s1.
       if n = 0 \<and> k = 0 \<and> pr_registry (pe_parent s1) = [] then Some (Inr (), s1)
       else drain_before_join env passes s1)"

fun drain_until_stable_empty ::
  "('k, 'p, 'q) engine_env \<Rightarrow> nat \<Rightarrow> nat \<Rightarrow> (('k, 'p) registry_event list \<times> 'q list) list \<Rightarrow> ('k, 'p, 'q) process_engine
    \<Rightarrow> (unit, ('k, 'p, 'q) process_engine) out" where
  "drain_until_stable_empty env stable_empty_passes empty_passes [] s = Some (Inr (), s)"
| "drain_until_stable_empty env stable_empty_passes empty_passes (new # passes) s =
     out_bind (drain_shutdown_ipc_once env (arrive new s)) (\<lambda>(n, k) s1.
       let empty_passes' = (if n = 0 \<and> k = 0 then empty_passes + 1 else 0)
       in if empty_passes' \<ge> stable_empty_passes then Some (Inr (), s1)
          else drain_until_stable_empty env stable_empty_passes empty_passes' passes s1)"

definition finish_shutdown :: "('k, 'p, 'q) process_engine \<Rightarrow> ('k, 'p, 'q) process_engine" where
  "finish_shutdown s =
     s\<lparr>pe_parent := (pe_parent s)\<lparr>pr_registry := [], pr_transport := clear_pending_dispatches (pr_transport (pe_parent s))\<rparr>,
       pe_in_flight_count := int (length (pe_prefetched s))\<rparr>"

definition engine_shutdown ::
  "('k, 'p, 'q) engine_env \<Rightarrow> (('k, 'p) registry_event list \<times> 'q list) list \<Rightarrow> (('k, 'p) registry_event list \<times> 'q list) list
    \<Rightarrow> ('k, 'p, 'q) process_engine \<Rightarrow> (unit, ('k, 'p, 'q) process_engine) out" where
  "engine_shutdown env before_join after_join s =
     (if pe_is_shutdown s then Some (Inr (), s)
      else out_bind (drain_registry_events env (s\<lparr>pe_is_shutdown := True\<rparr>)) (\<lambda>_ s1.
           let s2 = s1\<lparr>pe_parent := (pe_parent s1)\<lparr>pr_transport := signal_shutdown (pr_transport (pe_parent s1))\<rparr>\<rparr>
           in out_bind (drain_before_join env before_join s2) (\<lambda>_ s3.
              out_bind (drain_until_stable_empty env 2 0 after_join s3) (\<lambda>_ s4. Some (Inr (), finish_shutdown s4)))))"

end
