(* ===== verification/Process_Stream.thy ===== *)
theory Process_Stream
  imports Process_Engine
begin

text \<open>
  What the process engine of \<open>Process_Engine\<close> hands out. A reference function gives the accepted
  completions of a stream with the window of remembered identities; every operation of the buffer
  refines it, and every operation of the engine is a run of the buffer. Theorems: what polling
  hands out is exactly the stream of completions without the repetitions inside the window, in
  order, counted once; after a shutdown what was buffered is still handed out and the count goes
  to zero.
\<close>

section \<open>The stream of accepted completions\<close>

abbreviation window :: "('k, 'p, 'q) engine_env \<Rightarrow> nat" where
  "window env \<equiv> nat (max 1 (ee_max_seen env))"

abbreviation event_id :: "completion_event \<Rightarrow> work_identity" where
  "event_id \<equiv> logical_work_identity_from_completion_event"

definition last_n :: "nat \<Rightarrow> 'a list \<Rightarrow> 'a list" where
  "last_n n xs = drop (length xs - n) xs"

text \<open>Reference: the accepted events, with the identities still remembered.\<close>

fun accept :: "nat \<Rightarrow> work_identity list \<Rightarrow> completion_event list \<Rightarrow> completion_event list \<times> work_identity list" where
  "accept n ord [] = ([], ord)"
| "accept n ord (e # es) =
     (if is_synthetic_failure_event e then let (a, ord') = accept n ord es in (e # a, ord')
      else if event_id e \<in> set ord then accept n ord es
      else let (a, ord') = accept n (last_n n (ord @ [event_id e])) es in (e # a, ord'))"

lemma accept_append:
  "accept n ord (xs @ ys) = (let (a, o1) = accept n ord xs; (b, o2) = accept n o1 ys in (a @ b, o2))"
  by (induction n ord xs rule: accept.induct) (auto simp: split_beta Let_def)

definition buffer_ok :: "('k, 'p, 'q) engine_env \<Rightarrow> ('k, 'p, 'q) process_engine \<Rightarrow> bool" where
  "buffer_ok env s \<longleftrightarrow> pe_seen s = set (pe_seen_order s) \<and> distinct (pe_seen_order s) \<and> length (pe_seen_order s) \<le> window env"

lemma forget_oldest_eq:
  "distinct ord \<Longrightarrow> 0 \<le> n \<Longrightarrow> forget_oldest n (set ord) ord = (set (last_n (nat n) ord), last_n (nat n) ord)"
proof (induction n "set ord" ord rule: forget_oldest.induct)
  case (2 n i ord)
  show ?case
  proof (cases "int (length (i # ord)) > n")
    case True
    then have "forget_oldest n (set (i # ord)) (i # ord) = forget_oldest n (set ord) ord"
      using "2.prems" by (simp add: insert_Diff_if)
    moreover have "last_n (nat n) (i # ord) = last_n (nat n) ord"
      using True "2.prems"(2) by (simp add: last_n_def Suc_diff_le nat_le_iff)
    ultimately show ?thesis using 2 True by (simp add: insert_Diff_if)
  next
    case False
    then have "length (i # ord) - nat n = 0" by simp
    then show ?thesis using False by (simp add: last_n_def)
  qed
qed (simp add: last_n_def)

lemma is_duplicate_event_eq:
  assumes "buffer_ok env s"
  shows "is_duplicate_event env e s =
    (if is_synthetic_failure_event e then (False, s)
     else if event_id e \<in> set (pe_seen_order s) then (True, s)
     else (False, s\<lparr>pe_seen := set (last_n (window env) (pe_seen_order s @ [event_id e])),
                    pe_seen_order := last_n (window env) (pe_seen_order s @ [event_id e])\<rparr>))"
proof -
  have "insert (event_id e) (pe_seen s) = set (pe_seen_order s @ [event_id e])"
    using assms by (simp add: buffer_ok_def)
  moreover have "event_id e \<notin> set (pe_seen_order s) \<Longrightarrow> distinct (pe_seen_order s @ [event_id e])"
    using assms by (simp add: buffer_ok_def)
  ultimately show ?thesis
    using assms forget_oldest_eq [of "pe_seen_order s @ [event_id e]" "max 1 (ee_max_seen env)"]
    by (simp add: is_duplicate_event_def Let_def buffer_ok_def)
qed

lemma last_n_facts:
  "distinct xs \<Longrightarrow> distinct (last_n n xs)" "length (last_n n xs) \<le> n" "set (last_n n xs) \<subseteq> set xs"
  by (auto simp: last_n_def dest: in_set_dropD)

text \<open>A step that takes in the events \<open>es\<close> and hands out \<open>ret\<close>.\<close>

definition absorbs ::
  "('k, 'p, 'q) engine_env \<Rightarrow> completion_event list \<Rightarrow> completion_event list \<Rightarrow> ('k, 'p, 'q) process_engine \<Rightarrow> ('k, 'p, 'q) process_engine \<Rightarrow> bool" where
  "absorbs env es ret s s' \<longleftrightarrow>
     buffer_ok env s' \<and> ret @ pe_prefetched s' = pe_prefetched s @ fst (accept (window env) (pe_seen_order s) es) \<and>
     pe_seen_order s' = snd (accept (window env) (pe_seen_order s) es) \<and>
     pe_in_flight_count s' = pe_in_flight_count s - int (length ret) \<and> pe_is_shutdown s' = pe_is_shutdown s \<and>
     pr_emitted (pe_parent s') = pr_emitted (pe_parent s)"

lemma absorbs_refl: "buffer_ok env s \<Longrightarrow> absorbs env [] [] s s"
  by (simp add: absorbs_def)

lemma absorbs_trans:
  assumes "absorbs env xs [] s s1" "absorbs env ys r s1 s2"
  shows "absorbs env (xs @ ys) r s s2"
  using assms by (simp add: absorbs_def accept_append split_beta Let_def)

lemma absorbs_queue [simp]: "absorbs env es ret s (s'\<lparr>pe_completion_queue := q\<rparr>) = absorbs env es ret s s'"
  by (simp add: absorbs_def buffer_ok_def)

lemma discard_fields [simp]:
  "pe_prefetched (discard_registry_entry_for_completion e s) = pe_prefetched s"
  "pe_seen (discard_registry_entry_for_completion e s) = pe_seen s"
  "pe_seen_order (discard_registry_entry_for_completion e s) = pe_seen_order s"
  "pe_in_flight_count (discard_registry_entry_for_completion e s) = pe_in_flight_count s"
  "pe_is_shutdown (discard_registry_entry_for_completion e s) = pe_is_shutdown s"
  "pe_completion_queue (discard_registry_entry_for_completion e s) = pe_completion_queue s"
  "pr_emitted (pe_parent (discard_registry_entry_for_completion e s)) = pr_emitted (pe_parent s)"
  by (simp_all add: discard_registry_entry_for_completion_def)

lemma dup_step:
  assumes ok: "buffer_ok env s" and d: "is_duplicate_event env e s = (dup, s1)"
  shows "buffer_ok env s1" "accept (window env) (pe_seen_order s) [e] = (if dup then [] else [e], pe_seen_order s1)"
    "pe_prefetched s1 = pe_prefetched s" "pe_in_flight_count s1 = pe_in_flight_count s"
    "pe_is_shutdown s1 = pe_is_shutdown s" "pe_completion_queue s1 = pe_completion_queue s" "pe_parent s1 = pe_parent s"
proof -
  consider (syn) "is_synthetic_failure_event e" | (dup) "\<not> is_synthetic_failure_event e" "event_id e \<in> set (pe_seen_order s)"
    | (new) "\<not> is_synthetic_failure_event e" "event_id e \<notin> set (pe_seen_order s)" by blast
  then have "buffer_ok env s1 \<and> accept (window env) (pe_seen_order s) [e] = (if dup then [] else [e], pe_seen_order s1) \<and>
      pe_prefetched s1 = pe_prefetched s \<and> pe_in_flight_count s1 = pe_in_flight_count s \<and>
      pe_is_shutdown s1 = pe_is_shutdown s \<and> pe_completion_queue s1 = pe_completion_queue s \<and> pe_parent s1 = pe_parent s"
  proof cases
    case syn
    then show ?thesis using d ok by (simp add: is_duplicate_event_eq [OF ok])
  next
    case dup
    then show ?thesis using d ok by (simp add: is_duplicate_event_eq [OF ok])
  next
    case new
    let ?o = "last_n (window env) (pe_seen_order s @ [event_id e])"
    have s1: "\<not> dup" "s1 = s\<lparr>pe_seen := set ?o, pe_seen_order := ?o\<rparr>"
      using d new by (simp_all add: is_duplicate_event_eq [OF ok])
    have "distinct ?o" using ok new by (intro last_n_facts) (simp add: buffer_ok_def)
    then have "buffer_ok env s1" using last_n_facts(2) [of "window env" "pe_seen_order s @ [event_id e]"]
      by (simp add: s1 buffer_ok_def)
    then show ?thesis using new s1 by simp
  qed
  then show "buffer_ok env s1" "accept (window env) (pe_seen_order s) [e] = (if dup then [] else [e], pe_seen_order s1)"
    "pe_prefetched s1 = pe_prefetched s" "pe_in_flight_count s1 = pe_in_flight_count s"
    "pe_is_shutdown s1 = pe_is_shutdown s" "pe_completion_queue s1 = pe_completion_queue s" "pe_parent s1 = pe_parent s" by blast+
qed

lemma prefetch_event_absorbs:
  assumes ok: "buffer_ok env s" and p: "prefetch_event env e s = (b, s')"
  shows "absorbs env [e] [] s s'"
proof -
  obtain dup s1 where d: "is_duplicate_event env e s = (dup, s1)" by fastforce
  note D = dup_step [OF ok d]
  show ?thesis
    using p D by (cases dup) (auto simp: prefetch_event_def d absorbs_def D(2) buffer_ok_def simp del: accept.simps)
qed

lemma prefetch_events_absorbs:
  "buffer_ok env s \<Longrightarrow> prefetch_events env es acc s = (b, s') \<Longrightarrow> absorbs env es [] s s'"
proof (induction es arbitrary: acc s)
  case (Cons e es)
  obtain ok s1 where p: "prefetch_event env e s = (ok, s1)" by fastforce
  have a: "absorbs env [e] [] s s1" using prefetch_event_absorbs [OF Cons.prems(1) p] by simp
  then have "absorbs env es [] s1 s'"
    using Cons.IH [of s1 "ok \<or> acc"] Cons.prems(2) by (simp add: p absorbs_def)
  then show ?case using absorbs_trans [OF a] by fastforce
qed (simp add: absorbs_refl)

definition decoded :: "('k, 'p, 'q) engine_env \<Rightarrow> 'q list \<Rightarrow> completion_event list" where
  "decoded env items = concat (map (\<lambda>q. case ee_decode env q of Inl _ \<Rightarrow> [] | Inr es \<Rightarrow> es) items)"

text \<open>An item that cannot be decoded is taken off the queue and gives nothing.\<close>

lemma prefetch_queue_item_absorbs:
  "buffer_ok env s \<Longrightarrow> prefetch_queue_item env q s = (r, s') \<Longrightarrow> absorbs env (decoded env [q]) [] s s'"
  by (auto simp: prefetch_queue_item_def decoded_def absorbs_refl split: sum.splits prod.splits intro: prefetch_events_absorbs)

lemma drain_items_absorbs:
  "buffer_ok env s \<Longrightarrow> drain_items env items n s = (r, s') \<Longrightarrow>
   \<exists>used. items = used @ pe_completion_queue s' \<and> absorbs env (decoded env used) [] s s'"
proof (induction items arbitrary: n s)
  case Nil
  then show ?case by (auto simp: decoded_def absorbs_refl)
next
  case (Cons q items)
  obtain x s1 where p: "prefetch_queue_item env q s = (x, s1)" by fastforce
  have a: "absorbs env (decoded env [q]) [] s s1" by (rule prefetch_queue_item_absorbs [OF Cons.prems(1) p])
  show ?case
  proof (cases x)
    case (Inl err)
    then have "s' = s1\<lparr>pe_completion_queue := items\<rparr>" using Cons.prems(2) by (simp add: p)
    then show ?thesis using a by (intro exI [of _ "[q]"]) simp
  next
    case (Inr b)
    then obtain used where "items = used @ pe_completion_queue s'" "absorbs env (decoded env used) [] s1 s'"
      using Cons.IH [of s1] Cons.prems(2) a by (auto simp: p absorbs_def)
    then show ?thesis using absorbs_trans [OF a] by (intro exI [of _ "q # used"]) (simp add: decoded_def)
  qed
qed

lemma wait_items_absorbs:
  "buffer_ok env s \<Longrightarrow> wait_items env items s = (r, s') \<Longrightarrow>
   \<exists>used. items = used @ pe_completion_queue s' \<and> absorbs env (decoded env used) [] s s'"
proof (induction items arbitrary: s)
  case Nil
  then show ?case by (auto simp: decoded_def absorbs_refl)
next
  case (Cons q items)
  obtain x s1 where p: "prefetch_queue_item env q s = (x, s1)" by fastforce
  have a: "absorbs env (decoded env [q]) [] s s1" by (rule prefetch_queue_item_absorbs [OF Cons.prems(1) p])
  show ?case
  proof (cases "x = Inr False")
    case True
    then obtain used where "items = used @ pe_completion_queue s'" "absorbs env (decoded env used) [] s1 s'"
      using Cons.IH [of s1] Cons.prems(2) a by (auto simp: p absorbs_def)
    then show ?thesis using absorbs_trans [OF a] by (intro exI [of _ "q # used"]) (simp add: decoded_def)
  next
    case False
    then have "s' = s1\<lparr>pe_completion_queue := items\<rparr>" using Cons.prems(2) by (auto simp: p split: sum.splits if_splits)
    then show ?thesis using a by (intro exI [of _ "[q]"]) simp
  qed
qed

lemma absorbs_cons:
  assumes "absorbs env [e] r1 s s1" "absorbs env es r2 s1 s2" "r1 = [] \<or> pe_prefetched s1 = []"
  shows "absorbs env (e # es) (r1 @ r2) s s2"
  using assms accept_append [of "window env" "pe_seen_order s" "[e]" es]
  by (auto simp: absorbs_def split_beta Let_def simp del: accept.simps)

lemma take_events_absorbs:
  "buffer_ok env s \<Longrightarrow> pe_prefetched s = [] \<or> limit \<le> int (length got) \<Longrightarrow> take_events env limit es got s = (got', s') \<Longrightarrow>
   \<exists>new. got' = got @ new \<and> absorbs env es new s s' \<and> (pe_prefetched s' = [] \<or> limit \<le> int (length got')) \<and>
     pe_completion_queue s' = pe_completion_queue s"
proof (induction es arbitrary: got s)
  case Nil
  then show ?case by (auto simp: absorbs_refl)
next
  case (Cons e es)
  obtain dup s1 where d: "is_duplicate_event env e s = (dup, s1)" by fastforce
  note D = dup_step [OF Cons.prems(1) d]
  consider (dup) dup | (full) "\<not> dup" "limit \<le> int (length got)" | (room) "\<not> dup" "\<not> limit \<le> int (length got)" by blast
  then show ?case
  proof cases
    case dup
    then have a: "absorbs env [e] [] s s1" using D by (simp add: absorbs_def del: accept.simps)
    obtain new where "got' = got @ new" "absorbs env es new s1 s'" "pe_prefetched s' = [] \<or> limit \<le> int (length got')"
      "pe_completion_queue s' = pe_completion_queue s"
      using Cons.IH [of s1 got] Cons.prems D dup by (auto simp: d)
    then show ?thesis using absorbs_cons [OF a] by fastforce
  next
    case full
    let ?s = "discard_registry_entry_for_completion e (s1\<lparr>pe_prefetched := pe_prefetched s1 @ [e]\<rparr>)"
    have a: "absorbs env [e] [] s ?s" using D full by (simp add: absorbs_def buffer_ok_def del: accept.simps)
    obtain new where "got' = got @ new" "absorbs env es new ?s s'" "pe_prefetched s' = [] \<or> limit \<le> int (length got')"
      "pe_completion_queue s' = pe_completion_queue s"
      using Cons.IH [of ?s got] Cons.prems(3) D full a by (auto simp: d absorbs_def)
    then show ?thesis using absorbs_cons [OF a] by fastforce
  next
    case room
    let ?s = "(discard_registry_entry_for_completion e s1)\<lparr>pe_in_flight_count := pe_in_flight_count s1 - 1\<rparr>"
    have e: "pe_prefetched s = []" using Cons.prems(2) room by simp
    have a: "absorbs env [e] [e] s ?s" using D room e by (simp add: absorbs_def buffer_ok_def del: accept.simps)
    obtain new where n: "got' = (got @ [e]) @ new" "absorbs env es new ?s s'" "pe_prefetched s' = [] \<or> limit \<le> int (length got')"
      "pe_completion_queue s' = pe_completion_queue s"
      using Cons.IH [of ?s "got @ [e]"] Cons.prems(3) D room e a by (auto simp: d absorbs_def)
    moreover have "absorbs env (e # es) ([e] @ new) s s'"
      using n(2) D(3) e by (intro absorbs_cons [OF a]) simp_all
    ultimately show ?thesis by auto
  qed
qed

text \<open>The buffer's loops never look at the queue field.\<close>

lemma dup_ignores_queue:
  "is_duplicate_event env e (s\<lparr>pe_completion_queue := q\<rparr>) =
   (let (d, s') = is_duplicate_event env e s in (d, s'\<lparr>pe_completion_queue := q\<rparr>))"
  by (simp add: is_duplicate_event_def Let_def split: prod.splits)

lemma prefetch_event_ignores_queue:
  "prefetch_event env e (s\<lparr>pe_completion_queue := q\<rparr>) =
   (let (d, s') = prefetch_event env e s in (d, s'\<lparr>pe_completion_queue := q\<rparr>))"
  by (auto simp: prefetch_event_def dup_ignores_queue discard_registry_entry_for_completion_def Let_def split: prod.splits)

lemma prefetch_events_ignores_queue:
  "prefetch_events env es acc (s\<lparr>pe_completion_queue := q\<rparr>) =
   (let (d, s') = prefetch_events env es acc s in (d, s'\<lparr>pe_completion_queue := q\<rparr>))"
  by (induction es arbitrary: acc s) (auto simp: prefetch_event_ignores_queue Let_def split: prod.splits)

lemma prefetch_queue_item_ignores_queue:
  "prefetch_queue_item env x (s\<lparr>pe_completion_queue := q\<rparr>) =
   (let (d, s') = prefetch_queue_item env x s in (d, s'\<lparr>pe_completion_queue := q\<rparr>))"
  by (simp add: prefetch_queue_item_def prefetch_events_ignores_queue Let_def split: sum.splits prod.splits)

lemma wait_items_ignores_queue: "wait_items env items (s\<lparr>pe_completion_queue := q\<rparr>) = wait_items env items s"
  by (induction items arbitrary: s) (auto simp: prefetch_queue_item_ignores_queue Let_def split: sum.splits prod.splits)

lemma decoded_simps [simp]:
  "decoded env [] = []" "decoded env (xs @ ys) = decoded env xs @ decoded env ys"
  "ee_decode env q = Inr es \<Longrightarrow> decoded env (q # items) = es @ decoded env items"
  by (simp_all add: decoded_def)

lemma absorbs_append:
  assumes "absorbs env xs r1 s s1" "absorbs env ys r2 s1 s2" "r2 = [] \<or> pe_prefetched s1 = []"
  shows "absorbs env (xs @ ys) (r1 @ r2) s s2"
  using assms by (auto simp: absorbs_def accept_append split_beta Let_def)

lemma poll_items_absorbs:
  "buffer_ok env s \<Longrightarrow> pe_prefetched s = [] \<or> limit \<le> int (length got) \<Longrightarrow> poll_items env limit items got s = (Inr got', s') \<Longrightarrow>
   \<exists>new used. got' = got @ new \<and> items = used @ pe_completion_queue s' \<and> absorbs env (decoded env used) new s s' \<and>
     (pe_prefetched s' = [] \<or> limit \<le> int (length got'))"
proof (induction items arbitrary: got s)
  case Nil
  then show ?case by (auto intro!: exI [of _ "[]"] simp: absorbs_refl)
next
  case (Cons q items)
  show ?case
  proof (cases "limit \<le> int (length got)")
    case True
    then show ?thesis using Cons.prems by (auto intro!: exI [of _ "[]"] simp: absorbs_refl)
  next
    case False
    obtain es got1 s1 where d: "ee_decode env q = Inr es" "take_events env limit es got s = (got1, s1)"
      "poll_items env limit items got1 s1 = (Inr got', s')"
      using Cons.prems(3) False by (auto split: sum.splits prod.splits)
    obtain n1 where a: "got1 = got @ n1" "absorbs env es n1 s s1" "pe_prefetched s1 = [] \<or> limit \<le> int (length got1)"
      using take_events_absorbs [OF Cons.prems(1,2) d(2)] by auto
    obtain n2 used where b: "got' = got1 @ n2" "items = used @ pe_completion_queue s'" "absorbs env (decoded env used) n2 s1 s'"
      "pe_prefetched s' = [] \<or> limit \<le> int (length got')"
      using Cons.IH [OF _ a(3) d(3)] a(2) by (auto simp: absorbs_def)
    have "n2 = [] \<or> pe_prefetched s1 = []"
    proof (rule disjCI)
      assume "pe_prefetched s1 \<noteq> []"
      then have full: "limit \<le> int (length got1)" using a(3) by simp
      then show "n2 = []" using d(3) b(1) by (cases items) auto
    qed
    then have "absorbs env (es @ decoded env used) (n1 @ n2) s s'"
      by (rule absorbs_append [OF a(2) b(3)])
    then show ?thesis
      using a b d(1) by (intro exI [of _ "n1 @ n2"] exI [of _ "q # used"]) simp
  qed
qed

lemma poll_prefetched_absorbs:
  assumes "buffer_ok env s" "poll_prefetched limit s = (es, s1)"
  shows "absorbs env [] es s s1" "pe_prefetched s1 = [] \<or> limit - int (length es) \<le> 0" "pe_completion_queue s1 = pe_completion_queue s"
  using assms by (auto simp: poll_prefetched_def absorbs_def buffer_ok_def Let_def)

section \<open>Runs of the buffer\<close>

text \<open>Everything else the engine does leaves the buffer alone and at most adds to the queue.\<close>

definition same_buffer :: "('k, 'p, 'q) process_engine \<Rightarrow> ('k, 'p, 'q) process_engine \<Rightarrow> bool" where
  "same_buffer s s' \<longleftrightarrow>
     pe_prefetched s' = pe_prefetched s \<and> pe_seen s' = pe_seen s \<and> pe_seen_order s' = pe_seen_order s \<and>
     (\<exists>new. pe_completion_queue s' = pe_completion_queue s @ new)"

text \<open>\<open>used\<close> are the queue items taken so far, \<open>out\<close> the events handed to the caller.\<close>

inductive buffer_run :: "('k, 'p, 'q) engine_env \<Rightarrow> ('k, 'p, 'q) process_engine \<Rightarrow> 'q list \<Rightarrow> completion_event list \<Rightarrow> bool"
  for env :: "('k, 'p, 'q) engine_env" where
  br_init: "pe_prefetched s = [] \<Longrightarrow> pe_seen s = {} \<Longrightarrow> pe_seen_order s = [] \<Longrightarrow> buffer_run env s [] []"
| br_other: "buffer_run env s used out \<Longrightarrow> same_buffer s s' \<Longrightarrow> buffer_run env s' used out"
| br_drain: "buffer_run env s used out \<Longrightarrow> drain_queue env s = (r, s') \<Longrightarrow> pe_completion_queue s = taken @ pe_completion_queue s'
    \<Longrightarrow> buffer_run env s' (used @ taken) out"
| br_wait: "buffer_run env s used out \<Longrightarrow> wait_items env (pe_completion_queue s) s = (r, s')
    \<Longrightarrow> pe_completion_queue s = taken @ pe_completion_queue s' \<Longrightarrow> buffer_run env s' (used @ taken) out"
| br_poll_prefetched: "buffer_run env s used out \<Longrightarrow> poll_prefetched limit s = (events, s')
    \<Longrightarrow> buffer_run env s' used (out @ events)"
| br_poll: "buffer_run env s used out \<Longrightarrow> poll_prefetched limit s = (events, s1)
    \<Longrightarrow> poll_available env (limit - int (length events)) s1 = (Inr later, s')
    \<Longrightarrow> pe_completion_queue s = taken @ pe_completion_queue s'
    \<Longrightarrow> buffer_run env s' (used @ taken) (out @ events @ later)"

lemma buffer_run_stream:
  "buffer_run env s used out \<Longrightarrow>
   buffer_ok env s \<and> out @ pe_prefetched s = fst (accept (window env) [] (decoded env used)) \<and>
   pe_seen_order s = snd (accept (window env) [] (decoded env used))"
proof (induction rule: buffer_run.induct)
  case (br_init s)
  then show ?case by (simp add: buffer_ok_def)
next
  case (br_other s used out s')
  then have "buffer_ok env s'" by (auto simp: same_buffer_def buffer_ok_def)
  then show ?case using br_other by (simp add: same_buffer_def)
next
  case (br_drain s used out r s' taken)
  obtain used' where "pe_completion_queue s = used' @ pe_completion_queue s'" "absorbs env (decoded env used') [] s s'"
    using drain_items_absorbs [OF br_drain.IH [THEN conjunct1] br_drain.hyps(2) [unfolded drain_queue_def]] by blast
  then have "absorbs env (decoded env taken) [] s s'" using br_drain.hyps(3) by simp
  then show ?case using br_drain.IH by (auto simp: absorbs_def accept_append split_beta Let_def)
next
  case (br_wait s used out r s' taken)
  obtain used' where "pe_completion_queue s = used' @ pe_completion_queue s'" "absorbs env (decoded env used') [] s s'"
    using wait_items_absorbs [OF br_wait.IH [THEN conjunct1] br_wait.hyps(2)] by blast
  then have "absorbs env (decoded env taken) [] s s'" using br_wait.hyps(3) by simp
  then show ?case using br_wait.IH by (auto simp: absorbs_def accept_append split_beta Let_def)
next
  case (br_poll_prefetched s used out limit events s')
  then have "absorbs env [] events s s'" using poll_prefetched_absorbs by blast
  then show ?case using br_poll_prefetched by (auto simp: absorbs_def)
next
  case (br_poll s used out limit events s1 later s' taken)
  note P = poll_prefetched_absorbs [OF br_poll.IH [THEN conjunct1] br_poll.hyps(2)]
  have ok1: "buffer_ok env s1" using P(1) by (simp add: absorbs_def)
  obtain used' where u: "pe_completion_queue s1 = used' @ pe_completion_queue s'" "absorbs env (decoded env used') later s1 s'"
    using poll_items_absorbs [OF ok1 _ br_poll.hyps(3) [unfolded poll_available_def]] P(2) by auto
  have "used' = taken" using u(1) P(3) br_poll.hyps(4) by simp
  moreover have "absorbs env ([] @ decoded env used') (events @ later) s s'"
  proof (rule absorbs_append [OF P(1) u(2)])
    show "later = [] \<or> pe_prefetched s1 = []"
    proof (rule disjCI)
      assume "pe_prefetched s1 \<noteq> []"
      then have "limit - int (length events) \<le> 0" using P(2) by simp
      then show "later = []" using br_poll.hyps(3) by (cases "pe_completion_queue s1") (auto simp: poll_available_def)
    qed
  qed
  ultimately show ?case using br_poll.IH by (auto simp: absorbs_def accept_append split_beta Let_def)
qed

section \<open>What the stream is\<close>

lemma accept_subseq: "subseq (fst (accept n ord es)) es"
  by (induction n ord es rule: accept.induct) (auto simp: split_beta Let_def)

abbreviation identified :: "completion_event list \<Rightarrow> completion_event list" where
  "identified es \<equiv> filter (\<lambda>e. \<not> is_synthetic_failure_event e) es"

lemma last_n_append: "last_n n (last_n n xs @ ys) = last_n n (xs @ ys)"
  by (cases "n \<le> length xs") (auto simp: last_n_def add.commute)

lemma accept_new:
  assumes "\<not> is_synthetic_failure_event e" "event_id e \<notin> set (last_n n base)" "accept n (last_n n base) (e # es) = (a, ord)"
  obtains b where "accept n (last_n n (base @ [event_id e])) es = (b, ord)" "a = e # b"
  using assms by (cases "accept n (last_n n (base @ [event_id e])) es") (auto simp: last_n_append)

lemma accept_order:
  "accept n (last_n n base) es = (a, ord) \<Longrightarrow> ord = last_n n (base @ map event_id (identified a))"
proof (induction es arbitrary: base a)
  case (Cons e es)
  consider (syn) "is_synthetic_failure_event e" | (dup) "\<not> is_synthetic_failure_event e" "event_id e \<in> set (last_n n base)"
    | (new) "\<not> is_synthetic_failure_event e" "event_id e \<notin> set (last_n n base)" by blast
  then show ?case
  proof cases
    case new
    obtain b where b: "accept n (last_n n (base @ [event_id e])) es = (b, ord)" "a = e # b"
      using accept_new [OF new Cons.prems(1)] .
    show ?thesis using Cons.IH [OF b(1)] new b(2) by simp
  qed (use Cons in \<open>auto simp: split_beta Let_def\<close>)
qed simp

lemma accept_covers:
  "e \<in> set es \<Longrightarrow> \<not> is_synthetic_failure_event e \<Longrightarrow> event_id e \<in> set ord \<union> event_id ` set (identified (fst (accept n ord es)))"
proof (induction n ord es rule: accept.induct)
  case (2 n ord e' es)
  have "set (last_n n (ord @ [event_id e'])) \<subseteq> insert (event_id e') (set ord)"
    using last_n_facts(3) [of n "ord @ [event_id e']"] by auto
  then show ?case using 2 by (auto simp: split_beta Let_def)
qed simp

lemma accept_keeps_synthetic: "filter is_synthetic_failure_event (fst (accept n ord es)) = filter is_synthetic_failure_event es"
  by (induction n ord es rule: accept.induct) (auto simp: split_beta Let_def)

lemma accept_fresh:
  assumes "accept n (last_n n base) es = (a, ord)" "k < length (identified a)"
  shows "event_id (identified a ! k) \<notin> set (last_n n (base @ take k (map event_id (identified a))))"
  using assms
proof (induction es arbitrary: base a k)
  case (Cons e es)
  consider (syn) "is_synthetic_failure_event e" | (dup) "\<not> is_synthetic_failure_event e" "event_id e \<in> set (last_n n base)"
    | (new) "\<not> is_synthetic_failure_event e" "event_id e \<notin> set (last_n n base)" by blast
  then show ?case
  proof cases
    case new
    obtain b where b: "accept n (last_n n (base @ [event_id e])) es = (b, ord)" "a = e # b"
      using accept_new [OF new Cons.prems(1)] .
    show ?thesis
    proof (cases k)
      case 0
      then show ?thesis using new b by simp
    next
      case (Suc k')
      then show ?thesis using Cons.IH [OF b(1), of k'] Cons.prems(2) new b(2) by simp
    qed
  qed (use Cons in \<open>auto simp: split_beta Let_def\<close>)
qed simp

lemma repeated_far_apart:
  assumes "accept n [] es = (a, ord)" "j < k" "k < length (identified a)"
    "event_id (identified a ! j) = event_id (identified a ! k)"
  shows "j + n < k"
proof (rule ccontr)
  assume "\<not> j + n < k"
  let ?B = "map event_id (identified a)"
  have "?B ! j \<in> set (last_n n (take k ?B))"
  proof -
    have "last_n n (take k ?B) = drop (k - n) (take k ?B)" using assms(3) by (simp add: last_n_def min_def)
    moreover have "drop (k - n) (take k ?B) ! (j - (k - n)) = ?B ! j" using assms(2,3) \<open>\<not> j + n < k\<close> by simp
    moreover have "j - (k - n) < length (drop (k - n) (take k ?B))" using assms(2,3) \<open>\<not> j + n < k\<close> by simp
    ultimately show ?thesis by (metis nth_mem)
  qed
  moreover have "event_id (identified a ! k) \<notin> set (last_n n ([] @ take k ?B))"
    by (rule accept_fresh) (use assms in \<open>simp_all add: last_n_def\<close>)
  ultimately show False using assms by simp
qed

lemma distinct_if_far:
  assumes "\<And>j k. j < k \<Longrightarrow> k < length xs \<Longrightarrow> f (xs ! j) = f (xs ! k) \<Longrightarrow> j + n < k" "length xs \<le> n + 1"
  shows "distinct (map f xs)"
proof -
  have no: "f (xs ! j) \<noteq> f (xs ! k)" if "j < k" "k < length xs" for j k
    using assms(1) [OF that] assms(2) that by force
  show ?thesis
    unfolding distinct_conv_nth
  proof (intro allI impI)
    fix i j assume ij: "i < length (map f xs)" "j < length (map f xs)" "i \<noteq> j"
    then consider "i < j" | "j < i" by linarith
    then show "map f xs ! i \<noteq> map f xs ! j"
      using ij no [of i j] no [of j i] by cases auto
  qed
qed

text \<open>
  The stream without the repetitions: in order; nothing missing that is not a repetition; two
  completions of one item are more than the window apart.
\<close>

definition exact_stream :: "nat \<Rightarrow> completion_event list \<Rightarrow> completion_event list \<Rightarrow> bool" where
  "exact_stream n everything stream \<longleftrightarrow>
     subseq stream everything \<and>
     (\<forall>e\<in>set (identified everything). event_id e \<in> event_id ` set (identified stream)) \<and>
     filter is_synthetic_failure_event stream = filter is_synthetic_failure_event everything \<and>
     (\<forall>j k. j < k \<and> k < length (identified stream) \<and> event_id (identified stream ! j) = event_id (identified stream ! k)
        \<longrightarrow> j + n < k)"

lemma exact_stream_distinct:
  "exact_stream n everything stream \<Longrightarrow> length (identified stream) \<le> n + 1 \<Longrightarrow> distinct (map event_id (identified stream))"
  by (rule distinct_if_far) (auto simp: exact_stream_def)

lemma buffer_stream_exact:
  assumes "buffer_run env s used out"
  shows "exact_stream (window env) (decoded env used) (out @ pe_prefetched s) \<and> card (pe_seen s) \<le> window env"
proof -
  let ?o = "out @ pe_prefetched s" and ?n = "window env"
  obtain ord where a: "accept ?n [] (decoded env used) = (?o, ord)" and ok: "buffer_ok env s"
    using buffer_run_stream [OF assms] by (metis prod.collapse)
  have far: "j + ?n < k" if "j < k" "k < length (identified ?o)" "event_id (identified ?o ! j) = event_id (identified ?o ! k)" for j k
    using repeated_far_apart [OF a that] .
  moreover have "card (pe_seen s) \<le> ?n"
    using ok by (simp add: buffer_ok_def distinct_card)
  moreover have "event_id e \<in> event_id ` set (identified ?o)" if "e \<in> set (identified (decoded env used))" for e
    using accept_covers [of e "decoded env used" "[]" ?n] that unfolding a by simp
  ultimately show ?thesis
    using accept_subseq [of ?n "[]" "decoded env used"] accept_keeps_synthetic [of ?n "[]" "decoded env used"]
    unfolding a exact_stream_def by simp
qed

section \<open>The operations as runs of the buffer\<close>

lemma publish_emits: "publish_recovered_worker_payloads E m ps s = Some s' \<Longrightarrow> \<exists>es. pr_emitted s' = pr_emitted s @ es"
  by (induction E m ps s rule: publish_recovered_worker_payloads.induct) (fastforce split: option.splits prod.splits sum.splits)+

lemma recover_worker_emits: "recover_worker E m idx r s = Some s' \<Longrightarrow> \<exists>es. pr_emitted s' = pr_emitted s @ es"
  by (fastforce simp: recover_worker_def collect_recoverable_worker_payloads_def split: option.splits prod.splits dest: publish_emits)

lemma requeue_not_started_emits: "requeue_not_started E m ps s = Some s' \<Longrightarrow> \<exists>es. pr_emitted s' = pr_emitted s @ es"
  by (induction E m ps s rule: requeue_not_started.induct) (fastforce split: option.splits prod.splits sum.splits)+

lemma apply_event_emits: "engine_apply_registry_event E m e s = Some s' \<Longrightarrow> \<exists>es. pr_emitted s' = pr_emitted s @ es"
  by (cases e) (auto simp: engine_apply_registry_event_def Let_def split: prod.splits if_splits
      simp del: handle_registry_event.simps dest!: requeue_not_started_emits)

lemma drain_events_emits: "drain_registry_event_queue E m es s = Some s' \<Longrightarrow> \<exists>es. pr_emitted s' = pr_emitted s @ es"
proof (induction E m es s rule: drain_registry_event_queue.induct)
  case (2 E m e es s)
  then obtain s1 where "engine_apply_registry_event E m e s = Some s1" "drain_registry_event_queue E m es s1 = Some s'"
    by (auto split: option.splits)
  then show ?case using 2(1) apply_event_emits [of E m e s s1] by fastforce
qed simp

text \<open>
  A step of the engine that accepts \<open>n\<close> items and hands out \<open>events\<close> while the workers put \<open>arr\<close>: a
  run of the buffer, the count follows, and the items taken and left on the queue are those that
  were there, those that arrived and the failures the parent emitted.
\<close>

definition emitted_items :: "('k, 'p, 'q) engine_env \<Rightarrow> ('k, 'p, 'q) process_engine \<Rightarrow> 'q multiset" where
  "emitted_items env s = mset (map (ee_pack env) (pr_emitted (pe_parent s)))"

definition engine_step ::
  "('k, 'p, 'q) engine_env \<Rightarrow> int \<Rightarrow> completion_event list \<Rightarrow> 'q list \<Rightarrow> ('k, 'p, 'q) process_engine \<Rightarrow> ('k, 'p, 'q) process_engine \<Rightarrow> bool" where
  "engine_step env n events arr s s' \<longleftrightarrow>
     (\<forall>used out. buffer_run env s used out \<longrightarrow>
        (\<exists>taken. buffer_run env s' (used @ taken) (out @ events) \<and>
           mset taken + mset (pe_completion_queue s') + emitted_items env s =
             mset (pe_completion_queue s) + mset arr + emitted_items env s') \<and>
        pe_in_flight_count s' = pe_in_flight_count s + n - int (length events) \<and> pe_is_shutdown s' = pe_is_shutdown s)"

lemma engine_step_refl: "engine_step env 0 [] [] s s"
  by (auto simp: engine_step_def intro!: exI [of _ "[]"])

lemma balance_trans:
  fixes A :: "'q multiset"
  assumes "T1 + Q1 + E0 = Q0 + A + E1" "T2 + Q2 + E1 = Q1 + B + E2"
  shows "(T1 + T2) + Q2 + E0 = Q0 + (A + B) + E2"
proof -
  have "((T1 + T2) + Q2 + E0) + (Q1 + E1) = (Q0 + (A + B) + E2) + (Q1 + E1)"
    using arg_cong2 [OF assms, of "(+)"] by (simp add: ac_simps)
  then show ?thesis by simp
qed

lemma engine_step_trans:
  assumes "engine_step env n xs a s s1" "engine_step env m ys b s1 s2"
  shows "engine_step env (n + m) (xs @ ys) (a @ b) s s2"
  unfolding engine_step_def
proof (intro allI impI)
  fix used out assume r: "buffer_run env s used out"
  obtain t where t: "buffer_run env s1 (used @ t) (out @ xs)"
    "mset t + mset (pe_completion_queue s1) + emitted_items env s = mset (pe_completion_queue s) + mset a + emitted_items env s1"
    and c: "pe_in_flight_count s1 = pe_in_flight_count s + n - int (length xs)" "pe_is_shutdown s1 = pe_is_shutdown s"
    using assms(1) r unfolding engine_step_def by blast
  obtain v where v: "buffer_run env s2 ((used @ t) @ v) ((out @ xs) @ ys)"
    "mset v + mset (pe_completion_queue s2) + emitted_items env s1 = mset (pe_completion_queue s1) + mset b + emitted_items env s2"
    and d: "pe_in_flight_count s2 = pe_in_flight_count s1 + m - int (length ys)" "pe_is_shutdown s2 = pe_is_shutdown s1"
    using assms(2) t(1) unfolding engine_step_def by blast
  have "mset (t @ v) + mset (pe_completion_queue s2) + emitted_items env s =
      mset (pe_completion_queue s) + mset (a @ b) + emitted_items env s2"
    using balance_trans [OF t(2) v(2)] by simp
  then show "(\<exists>taken. buffer_run env s2 (used @ taken) (out @ xs @ ys) \<and>
        mset taken + mset (pe_completion_queue s2) + emitted_items env s =
          mset (pe_completion_queue s) + mset (a @ b) + emitted_items env s2) \<and>
      pe_in_flight_count s2 = pe_in_flight_count s + (n + m) - int (length (xs @ ys)) \<and> pe_is_shutdown s2 = pe_is_shutdown s"
    using v(1) c d by (auto intro!: exI [of _ "t @ v"])
qed

lemma engine_step_then:
  "engine_step env 0 [] [] s s1 \<Longrightarrow> engine_step env n ys b s1 s2 \<Longrightarrow> engine_step env n ys b s s2"
  using engine_step_trans by fastforce

lemma engine_step_other:
  assumes "same_buffer s s'" "pe_in_flight_count s' = pe_in_flight_count s + n" "pe_is_shutdown s' = pe_is_shutdown s"
    "mset (pe_completion_queue s') + emitted_items env s = mset (pe_completion_queue s) + mset arr + emitted_items env s'"
  shows "engine_step env n [] arr s s'"
  using assms by (auto simp: engine_step_def intro: br_other intro!: exI [of _ "[]"])

lemma with_parent_step:
  assumes "\<exists>es. pr_emitted p = pr_emitted (pe_parent s) @ es"
  shows "engine_step env 0 [] [] s (with_parent env p s)"
  using assms by (intro engine_step_other) (auto simp: with_parent_def same_buffer_def emitted_items_def)

lemma arrive_step: "engine_step env 0 [] (snd new) s (arrive new s)"
  by (rule engine_step_other) (simp_all add: arrive_def same_buffer_def emitted_items_def)

lemma drain_registry_step:
  assumes "drain_registry_events env s = Some (r, s')"
  shows "engine_step env 0 [] [] s s'"
proof -
  obtain p where p: "drain_registry_event_queue (ee_pipe env) (ee_max_retries env) (pe_registry_event_queue s) (pe_parent s) = Some p"
    "s' = (with_parent env p s)\<lparr>pe_registry_event_queue := []\<rparr>"
    using assms by (auto simp: drain_registry_events_def split: option.splits)
  have "engine_step env 0 [] [] (with_parent env p s) s'"
    by (rule engine_step_other) (simp_all add: p same_buffer_def emitted_items_def)
  then show ?thesis
    using engine_step_then [OF with_parent_step] drain_events_emits [OF p(1)] by blast
qed

lemma engine_step_absorbs:
  assumes "\<And>used out. buffer_run env s used out \<Longrightarrow>
    \<exists>taken. absorbs env (decoded env taken) events s s' \<and> pe_completion_queue s = taken @ pe_completion_queue s' \<and>
      buffer_run env s' (used @ taken) (out @ events)"
  shows "engine_step env 0 events [] s s'"
  unfolding engine_step_def
proof (intro allI impI)
  fix used out assume "buffer_run env s used out"
  from assms [OF this] obtain taken where t: "absorbs env (decoded env taken) events s s'"
    "pe_completion_queue s = taken @ pe_completion_queue s'" "buffer_run env s' (used @ taken) (out @ events)" by blast
  then show "(\<exists>taken. buffer_run env s' (used @ taken) (out @ events) \<and>
        mset taken + mset (pe_completion_queue s') + emitted_items env s =
          mset (pe_completion_queue s) + mset [] + emitted_items env s') \<and>
      pe_in_flight_count s' = pe_in_flight_count s + 0 - int (length events) \<and> pe_is_shutdown s' = pe_is_shutdown s"
    by (intro conjI exI [of _ taken]) (auto simp: absorbs_def emitted_items_def)
qed

lemma drain_queue_step:
  assumes d: "drain_queue env s = (r, s')"
  shows "engine_step env 0 [] [] s s'"
proof (rule engine_step_absorbs)
  fix used out assume r: "buffer_run env s used out"
  have "buffer_ok env s" using buffer_run_stream [OF r] by simp
  then obtain taken where "pe_completion_queue s = taken @ pe_completion_queue s'" "absorbs env (decoded env taken) [] s s'"
    using drain_items_absorbs d unfolding drain_queue_def by blast
  then show "\<exists>taken. absorbs env (decoded env taken) [] s s' \<and> pe_completion_queue s = taken @ pe_completion_queue s' \<and> buffer_run env s' (used @ taken) (out @ [])"
    using br_drain [OF r d] by auto
qed

lemma wait_items_step:
  assumes d: "wait_items env (pe_completion_queue s) s = (r, s')"
  shows "engine_step env 0 [] [] s s'"
proof (rule engine_step_absorbs)
  fix used out assume r: "buffer_run env s used out"
  have "buffer_ok env s" using buffer_run_stream [OF r] by simp
  then obtain taken where "pe_completion_queue s = taken @ pe_completion_queue s'" "absorbs env (decoded env taken) [] s s'"
    using wait_items_absorbs d by blast
  then show "\<exists>taken. absorbs env (decoded env taken) [] s s' \<and> pe_completion_queue s = taken @ pe_completion_queue s' \<and> buffer_run env s' (used @ taken) (out @ [])"
    using br_wait [OF r d] by auto
qed

lemma poll_prefetched_step:
  assumes d: "poll_prefetched limit s = (events, s')"
  shows "engine_step env 0 events [] s s'"
proof (rule engine_step_absorbs)
  fix used out assume r: "buffer_run env s used out"
  have "buffer_ok env s" using buffer_run_stream [OF r] by simp
  from poll_prefetched_absorbs [OF this d]
  show "\<exists>taken. absorbs env (decoded env taken) events s s' \<and> pe_completion_queue s = taken @ pe_completion_queue s' \<and> buffer_run env s' (used @ taken) (out @ events)"
    using br_poll_prefetched [OF r d] by (intro exI [of _ "[]"]) simp
qed

lemma poll_step:
  assumes p: "poll_prefetched limit s = (events, s1)" and a: "poll_available env (limit - int (length events)) s1 = (Inr later, s')"
  shows "engine_step env 0 (events @ later) [] s s'"
proof (rule engine_step_absorbs)
  fix used out assume r: "buffer_run env s used out"
  have "buffer_ok env s" using buffer_run_stream [OF r] by simp
  note P = poll_prefetched_absorbs [OF this p]
  have "buffer_ok env s1" using P(1) by (simp add: absorbs_def)
  from poll_items_absorbs [OF this _ a [unfolded poll_available_def]] P(2)
  obtain taken where t: "pe_completion_queue s1 = taken @ pe_completion_queue s'" "absorbs env (decoded env taken) later s1 s'"
    by auto
  have "later = [] \<or> pe_prefetched s1 = []"
  proof (rule disjCI)
    assume "pe_prefetched s1 \<noteq> []"
    then have "limit - int (length events) \<le> 0" using P(2) by simp
    then show "later = []" using a by (cases "pe_completion_queue s1") (auto simp: poll_available_def)
  qed
  then have "absorbs env ([] @ decoded env taken) (events @ later) s s'" by (rule absorbs_append [OF P(1) t(2)])
  then show "\<exists>taken. absorbs env (decoded env taken) (events @ later) s s' \<and> pe_completion_queue s = taken @ pe_completion_queue s' \<and> buffer_run env s' (used @ taken) (out @ events @ later)"
    using br_poll [OF r p a, of taken] t(1) P(3) by auto
qed

lemma recover_workers_step: "recover_workers env dead s = Some (r, s') \<Longrightarrow> engine_step env 0 [] [] s s'"
proof (induction env dead s rule: recover_workers.induct)
  case (1 env s)
  then show ?case by (simp add: engine_step_refl)
next
  case (2 env idx e dead s)
  then obtain p where p: "recover_worker (ee_pipe env) (ee_max_retries env) idx e (pe_parent s) = Some p"
    "recover_workers env dead (with_parent env p s) = Some (r, s')"
    by (auto split: option.splits)
  show ?case by (rule engine_step_then [OF with_parent_step [OF recover_worker_emits [OF p(1)]] 2(1) [OF p]])
qed

lemma out_bind_Some:
  "out_bind r f = Some (x, s') \<Longrightarrow>
   (\<exists>e. r = Some (Inl e, s') \<and> x = Inl e) \<or> (\<exists>a s1. r = Some (Inr a, s1) \<and> f a s1 = Some (x, s'))"
  by (auto simp: out_bind_def split: option.splits sum.splits prod.splits)

lemma scan_step: "should_run_liveness_scan env force now s = (b, s') \<Longrightarrow> engine_step env 0 [] [] s s'"
  by (auto simp: should_run_liveness_scan_def same_buffer_def emitted_items_def split: if_splits intro!: engine_step_other)

lemma ensure_step:
  assumes "ensure_workers_alive env force now dead s = Some (r, s')"
  shows "engine_step env 0 [] [] s s'"
proof (cases "pe_is_shutdown s")
  case True
  then show ?thesis using assms by (simp add: ensure_workers_alive_def engine_step_refl)
next
  case False
  from out_bind_Some [OF assms [unfolded ensure_workers_alive_def if_not_P [OF False]]]
  consider (err) e where "drain_registry_events env s = Some (Inl e, s')"
    | (ok) n s1 where "drain_registry_events env s = Some (Inr n, s1)"
        "out_bind (Some (drain_queue env s1)) (\<lambda>k s2. let (run, s3) = should_run_liveness_scan env force now s2
             in if run then recover_workers env dead s3 else Some (Inr (), s3)) = Some (r, s')" by blast
  then show ?thesis
  proof cases
    case err
    then show ?thesis by (rule drain_registry_step)
  next
    case ok
    obtain x s2 where d: "drain_queue env s1 = (x, s2)" by fastforce
    obtain run s3 where sc: "should_run_liveness_scan env force now s2 = (run, s3)" by fastforce
    have "engine_step env 0 [] [] s2 s'"
    proof (cases x)
      case (Inl e)
      then show ?thesis using ok(2) by (simp add: d out_bind_def engine_step_refl)
    next
      case (Inr k)
      then have "if run then recover_workers env dead s3 = Some (r, s') else s' = s3"
        using ok(2) by (auto simp: d out_bind_def sc)
      then show ?thesis
        using scan_step [OF sc] by (cases run) (auto intro: engine_step_then recover_workers_step)
    qed
    then show ?thesis
      using drain_registry_step [OF ok(1)] drain_queue_step [OF d] engine_step_then by blast
  qed
qed

lemma count_submitted_step:
  "count_submitted n r s = Some (x, s') \<Longrightarrow> engine_step env (case x of Inl _ \<Rightarrow> 0 | Inr _ \<Rightarrow> n) [] [] s s'"
  by (auto simp: count_submitted_def same_buffer_def emitted_items_def split: prod.splits sum.splits intro!: engine_step_other)

lemma prepare_dispatch_step:
  assumes "out_bind (drain_registry_events env s) (\<lambda>_ s1. out_bind (ensure_workers_alive env True now dead s1) (\<lambda>_ s2.
      case d s2 of None \<Rightarrow> None | Some r \<Rightarrow> count_submitted n r s2)) = Some (x, s')"
  shows "engine_step env (case x of Inl _ \<Rightarrow> 0 | Inr _ \<Rightarrow> n) [] [] s s'"
  using out_bind_Some [OF assms]
proof (elim disjE exE conjE)
  fix e assume "drain_registry_events env s = Some (Inl e, s')" "x = Inl e"
  then show ?thesis using drain_registry_step by fastforce
next
  fix k s1 assume a: "drain_registry_events env s = Some (Inr k, s1)"
    and b: "out_bind (ensure_workers_alive env True now dead s1) (\<lambda>_ s2. case d s2 of None \<Rightarrow> None | Some r \<Rightarrow> count_submitted n r s2) = Some (x, s')"
  have "engine_step env (case x of Inl _ \<Rightarrow> 0 | Inr _ \<Rightarrow> n) [] [] s1 s'"
    using out_bind_Some [OF b]
  proof (elim disjE exE conjE)
    fix e assume "ensure_workers_alive env True now dead s1 = Some (Inl e, s')" "x = Inl e"
    then show ?thesis using ensure_step by fastforce
  next
    fix u s2 assume e: "ensure_workers_alive env True now dead s1 = Some (Inr u, s2)"
      and c: "(case d s2 of None \<Rightarrow> None | Some r \<Rightarrow> count_submitted n r s2) = Some (x, s')"
    obtain r where "count_submitted n r s2 = Some (x, s')" using c by (cases "d s2") auto
    then show ?thesis by (rule engine_step_then [OF ensure_step [OF e] count_submitted_step])
  qed
  then show ?thesis by (rule engine_step_then [OF drain_registry_step [OF a]])
qed

lemma submit_step:
  "engine_submit env now dead p s = Some (x, s') \<Longrightarrow> engine_step env (case x of Inl _ \<Rightarrow> 0 | Inr _ \<Rightarrow> 1) [] [] s s'"
  unfolding engine_submit_def
  by (cases "pe_is_shutdown s") (auto simp: engine_step_refl dest: prepare_dispatch_step)

lemma submit_each_step:
  "submit_each env now dead k ps s = Some (x, s') \<Longrightarrow>
   (x = Accepted \<and> engine_step env (int (length ps)) [] [] s s') \<or>
   (\<exists>n. x = BatchSubmitError (k + n) \<and> 0 \<le> n \<and> n < int (length ps) \<and> engine_step env n [] [] s s')"
proof (induction ps arbitrary: k s)
  case Nil
  then show ?case by (simp add: engine_step_refl)
next
  case (Cons p ps)
  obtain y s1 where y: "engine_submit env now dead p s = Some (y, s1)" using Cons.prems by (auto split: option.splits)
  note st = submit_step [OF y]
  show ?case
  proof (cases y)
    case (Inl e)
    then show ?thesis using Cons.prems st y by (auto intro!: exI [of _ 0])
  next
    case (Inr u)
    then have r: "submit_each env now dead (k + 1) ps s1 = Some (x, s')" using Cons.prems y by simp
    have one: "engine_step env n [] [] s1 s' \<Longrightarrow> engine_step env (1 + n) [] [] s s'" for n
      using engine_step_trans [of env 1 "[]" "[]" s s1 n "[]" "[]" s'] st Inr by simp
    from Cons.IH [OF r] show ?thesis
    proof (elim disjE exE conjE)
      assume "x = Accepted" "engine_step env (int (length ps)) [] [] s1 s'"
      then show ?thesis using one by simp
    next
      fix n assume "x = BatchSubmitError (k + 1 + n)" "0 \<le> n" "n < int (length ps)" "engine_step env n [] [] s1 s'"
      then show ?thesis using one by (intro disjI2 exI [of _ "1 + n"]) (simp add: add.assoc)
    qed
  qed
qed

fun accepted_by :: "nat \<Rightarrow> submit_outcome \<Rightarrow> int" where
  "accepted_by n Accepted = int n"
| "accepted_by n SubmitFailed = 0"
| "accepted_by n (BatchSubmitError k) = k"

lemma submit_batch_step:
  assumes "engine_submit_batch env now dead b ps s = Some (x, s')"
  shows "engine_step env (accepted_by (length ps) x) [] [] s s' \<and> 0 \<le> accepted_by (length ps) x \<and> accepted_by (length ps) x \<le> int (length ps)"
proof -
  consider (shut) "pe_is_shutdown s" | (mixed) "\<not> pe_is_shutdown s" "ps = [] \<or> list_ex (\<lambda>p. \<not> same_route p (hd ps)) (List.tl ps)"
    | (route) "\<not> pe_is_shutdown s" "\<not> (ps = [] \<or> list_ex (\<lambda>p. \<not> same_route p (hd ps)) (List.tl ps))" by blast
  then show ?thesis
  proof cases
    case shut
    then show ?thesis using assms by (auto simp: engine_submit_batch_def engine_step_refl)
  next
    case mixed
    then show ?thesis using assms submit_each_step [of env now dead 0 ps s x s'] by (auto simp: engine_submit_batch_def)
  next
    case route
    then obtain y where y: "out_bind (drain_registry_events env s) (\<lambda>_ s1. out_bind (ensure_workers_alive env True now dead s1) (\<lambda>_ s2.
        case dispatch_route_batch (ee_pipe env) (worker_for (ee_pipe env) (hd ps)) b ps (pr_transport (pe_parent s2)) of
          None \<Rightarrow> None | Some r \<Rightarrow> count_submitted (int (length ps)) r s2)) = Some (y, s')"
      "x = (case y of Inl _ \<Rightarrow> SubmitFailed | Inr _ \<Rightarrow> Accepted)"
      using assms unfolding engine_submit_batch_def if_not_P [OF route(1)] if_not_P [OF route(2)] by (auto simp: as_outcome_def)
    show ?thesis using prepare_dispatch_step [OF y(1)] y(2) by (cases y) simp_all
  qed
qed

lemma poll_completed_step:
  assumes "engine_poll_completed_events env now dead limit s = Some (Inr events, s')"
  shows "engine_step env 0 events [] s s'"
proof -
  obtain s3 where pre: "engine_step env 0 [] [] s s3" and
    fin: "(let (events, s4) = poll_prefetched limit s3
          in if pe_is_shutdown s3 then Some (Inr events, s4)
             else out_bind (Some (poll_available env (limit - int (length events)) s4)) (\<lambda>later s5.
                    Some (Inr (events @ later), s5))) = Some (Inr events, s')"
  proof -
    from out_bind_Some [OF assms [unfolded engine_poll_completed_events_def]]
    obtain u s3 where a: "(if pe_is_shutdown s then Some (Inr (), s)
        else out_bind (ensure_workers_alive env False now dead s) (\<lambda>_ s1.
             out_bind (drain_registry_events env s1) (\<lambda>_ s2. Some (Inr (), s2)))) = Some (Inr u, s3)"
      and b: "(let (events, s4) = poll_prefetched limit s3
          in if pe_is_shutdown s3 then Some (Inr events, s4)
             else out_bind (Some (poll_available env (limit - int (length events)) s4)) (\<lambda>later s5.
                    Some (Inr (events @ later), s5))) = Some (Inr events, s')" by auto
    have "engine_step env 0 [] [] s s3"
    proof (cases "pe_is_shutdown s")
      case True
      then show ?thesis using a by (simp add: engine_step_refl)
    next
      case False
      from out_bind_Some [OF a [unfolded if_not_P [OF False]]]
      obtain v s1 where e: "ensure_workers_alive env False now dead s = Some (Inr v, s1)"
        "out_bind (drain_registry_events env s1) (\<lambda>_ s2. Some (Inr (), s2)) = Some (Inr u, s3)" by auto
      from out_bind_Some [OF e(2)] obtain k where "drain_registry_events env s1 = Some (Inr k, s3)" by auto
      then show ?thesis using engine_step_then [OF ensure_step [OF e(1)]] drain_registry_step by blast
    qed
    then show thesis using b by (rule that)
  qed
  obtain ev s4 where p: "poll_prefetched limit s3 = (ev, s4)" by fastforce
  have "engine_step env 0 events [] s3 s'"
  proof (cases "pe_is_shutdown s3")
    case True
    then show ?thesis using fin p poll_prefetched_step by auto
  next
    case False
    from out_bind_Some [of "Some (poll_available env (limit - int (length ev)) s4)"] fin p False
    obtain later where "poll_available env (limit - int (length ev)) s4 = (Inr later, s')" "events = ev @ later"
      by (auto dest!: out_bind_Some)
    then show ?thesis using poll_step [OF p] by simp
  qed
  then show ?thesis by (rule engine_step_then [OF pre])
qed

lemma wait_completed_step:
  assumes "engine_wait_for_completion env now dead arrivals s = Some (r, s')"
  shows "\<exists>arr. engine_step env 0 [] arr s s' \<and> (arr = [] \<or> arr = arrivals)"
proof (cases "pe_is_shutdown s")
  case True
  then show ?thesis using assms by (auto simp: engine_wait_for_completion_def intro: engine_step_refl)
next
  case False
  from out_bind_Some [OF assms [unfolded engine_wait_for_completion_def if_not_P [OF False]]]
  show ?thesis
  proof (elim disjE exE conjE)
    fix e assume "ensure_workers_alive env False now dead s = Some (Inl e, s')"
    then show ?thesis using ensure_step by blast
  next
    fix u s1 assume e: "ensure_workers_alive env False now dead s = Some (Inr u, s1)"
      and b: "out_bind (drain_registry_events env s1) (\<lambda>_ s2. if pe_prefetched s2 \<noteq> [] then Some (Inr True, s2)
          else Some (wait_items env (pe_completion_queue s2 @ arrivals) s2)) = Some (r, s')"
    have "\<exists>arr. engine_step env 0 [] arr s1 s' \<and> (arr = [] \<or> arr = arrivals)"
      using out_bind_Some [OF b]
    proof (elim disjE exE conjE)
      fix e assume "drain_registry_events env s1 = Some (Inl e, s')"
      then show ?thesis using drain_registry_step by blast
    next
      fix k s2 assume d: "drain_registry_events env s1 = Some (Inr k, s2)"
        and c: "(if pe_prefetched s2 \<noteq> [] then Some (Inr True, s2)
          else Some (wait_items env (pe_completion_queue s2 @ arrivals) s2)) = Some (r, s')"
      have "\<exists>arr. engine_step env 0 [] arr s2 s' \<and> (arr = [] \<or> arr = arrivals)"
      proof (cases "pe_prefetched s2 = []")
        case True
        let ?s = "arrive ([], arrivals) s2"
        have "wait_items env (pe_completion_queue ?s) ?s = (r, s')"
          using c True by (simp add: arrive_def wait_items_ignores_queue)
        then show ?thesis
          using engine_step_trans [OF arrive_step [of env "([], arrivals)" s2] wait_items_step] by auto
      next
        case False
        then show ?thesis using c by (auto intro: engine_step_refl)
      qed
      then show ?thesis using engine_step_then [OF drain_registry_step [OF d]] by blast
    qed
    then show ?thesis using engine_step_then [OF ensure_step [OF e]] by blast
  qed
qed

section \<open>Runs of the engine\<close>

text \<open>
  Every order of operations and arrivals; \<open>n\<close> counts the accepted items, \<open>arr\<close> are the items the
  workers put on the completion queue, \<open>out\<close> is what polling handed out. A poll that raises is left
  out: see \<open>poll_error_loses_events\<close> below. A wait that returned early took none of its arrivals.
\<close>

inductive engine_run :: "('k, 'p, 'q) engine_env \<Rightarrow> ('k, 'p, 'q) process_engine \<Rightarrow> int \<Rightarrow> 'q list \<Rightarrow> completion_event list \<Rightarrow> bool"
  for env :: "('k, 'p, 'q) engine_env" where
  er_init: "engine_run env (process_engine_init queue_size) 0 [] []"
| er_arrive: "engine_run env s n arr out \<Longrightarrow> engine_run env (arrive new s) n (arr @ snd new) out"
| er_submit: "engine_run env s n arr out \<Longrightarrow> engine_submit env now dead p s = Some (x, s')
    \<Longrightarrow> engine_run env s' (case x of Inl _ \<Rightarrow> n | Inr _ \<Rightarrow> n + 1) arr out"
| er_submit_batch: "engine_run env s n arr out \<Longrightarrow> engine_submit_batch env now dead b ps s = Some (x, s')
    \<Longrightarrow> engine_run env s' (n + accepted_by (length ps) x) arr out"
| er_poll: "engine_run env s n arr out \<Longrightarrow> engine_poll_completed_events env now dead limit s = Some (Inr events, s')
    \<Longrightarrow> engine_run env s' n arr (out @ events)"
| er_wait: "engine_run env s n arr out \<Longrightarrow> engine_wait_for_completion env now dead [] s = Some (x, s') \<Longrightarrow> engine_run env s' n arr out"
| er_min: "engine_run env s n arr out \<Longrightarrow> engine_get_min_inflight_offset env tp s = Some (x, s') \<Longrightarrow> engine_run env s' n arr out"

definition run_ok :: "('k, 'p, 'q) engine_env \<Rightarrow> ('k, 'p, 'q) process_engine \<Rightarrow> int \<Rightarrow> 'q list \<Rightarrow> completion_event list \<Rightarrow> bool" where
  "run_ok env s n arr out \<longleftrightarrow>
     (\<exists>used. buffer_run env s used out \<and> mset (used @ pe_completion_queue s) = mset arr + emitted_items env s) \<and>
     pe_in_flight_count s = n - int (length out) \<and> \<not> pe_is_shutdown s"

lemma run_ok_step:
  assumes st: "engine_step env m events new s s'" and ok: "run_ok env s n arr out"
  shows "run_ok env s' (n + m) (arr @ new) (out @ events)"
proof -
  obtain used where u: "buffer_run env s used out" "mset (used @ pe_completion_queue s) = mset arr + emitted_items env s"
    using ok by (auto simp: run_ok_def)
  obtain taken where t: "buffer_run env s' (used @ taken) (out @ events)"
    "mset taken + mset (pe_completion_queue s') + emitted_items env s = mset (pe_completion_queue s) + mset new + emitted_items env s'"
    using st u(1) unfolding engine_step_def by blast
  have "mset used + mset (pe_completion_queue s) + {#} = {#} + mset arr + emitted_items env s" using u(2) by simp
  from balance_trans [OF this t(2)]
  have "mset ((used @ taken) @ pe_completion_queue s') = mset (arr @ new) + emitted_items env s'" by (simp add: ac_simps)
  moreover have "pe_in_flight_count s' = pe_in_flight_count s + m - int (length events)" "pe_is_shutdown s' = pe_is_shutdown s"
    using st u(1) unfolding engine_step_def by blast+
  ultimately show ?thesis using t(1) ok unfolding run_ok_def by (intro conjI exI [of _ "used @ taken"]) auto
qed

lemma engine_run_ok: "engine_run env s n arr out \<Longrightarrow> run_ok env s n arr out"
proof (induction rule: engine_run.induct)
  case (er_init queue_size)
  have "buffer_run env (process_engine_init queue_size) [] []" by (rule br_init) (simp_all add: process_engine_init_def)
  then show ?case by (auto simp: run_ok_def process_engine_init_def emitted_items_def intro!: exI [of _ "[]"])
next
  case (er_arrive s n arr out new)
  then show ?case using run_ok_step [OF arrive_step [of env new s] er_arrive.IH] by simp
next
  case (er_submit s n arr out now dead p x s')
  then show ?case using run_ok_step [OF submit_step [OF er_submit.hyps(2)] er_submit.IH] by (cases x) simp_all
next
  case (er_submit_batch s n arr out now dead b ps x s')
  then show ?case
    using run_ok_step [OF submit_batch_step [OF er_submit_batch.hyps(2), THEN conjunct1] er_submit_batch.IH] by simp
next
  case (er_poll s n arr out now dead limit events s')
  then show ?case using run_ok_step [OF poll_completed_step [OF er_poll.hyps(2)] er_poll.IH] by simp
next
  case (er_wait s n arr out now dead x s')
  then have "engine_step env 0 [] [] s s'" using wait_completed_step [OF er_wait.hyps(2)] by auto
  then show ?case using run_ok_step [OF _ er_wait.IH] by fastforce
next
  case (er_min s n arr out tp x s')
  then have "engine_step env 0 [] [] s s'"
    by (auto simp: engine_get_min_inflight_offset_def dest!: out_bind_Some intro: drain_registry_step)
  then show ?case using run_ok_step [OF _ er_min.IH] by fastforce
qed


section \<open>After a shutdown\<close>

lemma drain_once_step:
  assumes "drain_shutdown_ipc_once env s = Some (r, s')"
  shows "engine_step env 0 [] [] s s'"
  using out_bind_Some [OF assms [unfolded drain_shutdown_ipc_once_def]]
proof (elim disjE exE conjE)
  fix e assume "drain_registry_events env s = Some (Inl e, s')"
  then show ?thesis by (rule drain_registry_step)
next
  fix n s1 assume a: "drain_registry_events env s = Some (Inr n, s1)"
    and b: "out_bind (Some (drain_queue env s1)) (\<lambda>k s2. Some (Inr (n, k), s2)) = Some (r, s')"
  obtain x s2 where d: "drain_queue env s1 = (x, s2)" by fastforce
  have "s' = s2" using b by (cases x) (auto simp: d out_bind_def)
  then show ?thesis using engine_step_then [OF drain_registry_step [OF a] drain_queue_step [OF d]] by simp
qed

lemma pass_step:
  "drain_shutdown_ipc_once env (arrive new s) = Some (r, s') \<Longrightarrow> engine_step env 0 [] (snd new) s s'"
  using engine_step_trans [OF arrive_step drain_once_step] by fastforce

lemma drain_before_join_step: "drain_before_join env passes s = Some (r, s') \<Longrightarrow> \<exists>arr. engine_step env 0 [] arr s s'"
proof (induction env passes s rule: drain_before_join.induct)
  case (1 env s)
  then show ?case by (auto intro: engine_step_refl)
next
  case (2 env new passes s)
  from out_bind_Some [OF "2.prems" [unfolded drain_before_join.simps]] show ?case
  proof (elim disjE exE conjE)
    fix e assume "drain_shutdown_ipc_once env (arrive new s) = Some (Inl e, s')"
    then show ?thesis using pass_step by blast
  next
    fix x s1 assume d: "drain_shutdown_ipc_once env (arrive new s) = Some (Inr x, s1)"
      and c: "(case x of (n, k) \<Rightarrow> \<lambda>s1. if n = 0 \<and> k = 0 \<and> pr_registry (pe_parent s1) = [] then Some (Inr (), s1)
          else drain_before_join env passes s1) s1 = Some (r, s')"
    obtain n k where x: "x = (n, k)" by (cases x)
    have "\<exists>arr. engine_step env 0 [] arr s1 s'"
    proof (cases "n = 0 \<and> k = 0 \<and> pr_registry (pe_parent s1) = []")
      case True
      then show ?thesis using c x by (auto intro: engine_step_refl)
    next
      case False
      then have "drain_before_join env passes s1 = Some (r, s')" using c x by auto
      then show ?thesis using "2.IH" [OF False] by blast
    qed
    then show ?thesis using engine_step_trans [OF pass_step [OF d]] by fastforce
  qed
qed

lemma drain_until_stable_step: "drain_until_stable_empty env m e passes s = Some (r, s') \<Longrightarrow> \<exists>arr. engine_step env 0 [] arr s s'"
proof (induction env m e passes s rule: drain_until_stable_empty.induct)
  case (1 env m e s)
  then show ?case by (auto intro: engine_step_refl)
next
  case (2 env m e new passes s)
  from out_bind_Some [OF "2.prems" [unfolded drain_until_stable_empty.simps]] show ?case
  proof (elim disjE exE conjE)
    fix err assume "drain_shutdown_ipc_once env (arrive new s) = Some (Inl err, s')"
    then show ?thesis using pass_step by blast
  next
    fix x s1 assume d: "drain_shutdown_ipc_once env (arrive new s) = Some (Inr x, s1)"
      and c: "(case x of (n, k) \<Rightarrow> \<lambda>s1. let empty_passes' = (if n = 0 \<and> k = 0 then e + 1 else 0)
          in if empty_passes' \<ge> m then Some (Inr (), s1) else drain_until_stable_empty env m empty_passes' passes s1) s1 = Some (r, s')"
    obtain n k where x: "x = (n, k)" by (cases x)
    let ?e = "if n = 0 \<and> k = 0 then e + 1 else 0"
    have "\<exists>arr. engine_step env 0 [] arr s1 s'"
    proof (cases "m \<le> ?e")
      case True
      then show ?thesis using c x by (auto simp: Let_def intro: engine_step_refl)
    next
      case False
      then have "drain_until_stable_empty env m ?e passes s1 = Some (r, s')" using c x by (auto simp: Let_def)
      then show ?thesis using "2.IH" [OF refl False] by blast
    qed
    then show ?thesis using engine_step_trans [OF pass_step [OF d]] by fastforce
  qed
qed

lemma shutdown_run:
  assumes run: "engine_run env s n arr out" and sd: "engine_shutdown env before after s = Some (Inr u, s')"
  shows "\<exists>s4 used arr'. s' = finish_shutdown s4 \<and> pe_is_shutdown s4 \<and> buffer_run env s4 used out \<and>
    mset (used @ pe_completion_queue s4) = mset (arr @ arr') + emitted_items env s4"
proof -
  obtain used where u: "buffer_run env s used out" "mset (used @ pe_completion_queue s) = mset arr + emitted_items env s" "\<not> pe_is_shutdown s"
    using engine_run_ok [OF run] by (auto simp: run_ok_def)
  let ?s0 = "s\<lparr>pe_is_shutdown := True\<rparr>"
  have b0: "buffer_run env ?s0 used out" by (rule br_other [OF u(1)]) (simp add: same_buffer_def)
  from out_bind_Some [OF sd [unfolded engine_shutdown_def if_not_P [OF u(3)]]]
  obtain k s1 where d1: "drain_registry_events env ?s0 = Some (Inr k, s1)"
    and c1: "(let s2 = s1\<lparr>pe_parent := (pe_parent s1)\<lparr>pr_transport := signal_shutdown (pr_transport (pe_parent s1))\<rparr>\<rparr>
           in out_bind (drain_before_join env before s2) (\<lambda>_ s3.
              out_bind (drain_until_stable_empty env 2 0 after s3) (\<lambda>_ s4. Some (Inr (), finish_shutdown s4)))) = Some (Inr u, s')" by auto
  let ?s2 = "s1\<lparr>pe_parent := (pe_parent s1)\<lparr>pr_transport := signal_shutdown (pr_transport (pe_parent s1))\<rparr>\<rparr>"
  from out_bind_Some [OF c1 [unfolded Let_def]] obtain x s3 where d2: "drain_before_join env before ?s2 = Some (Inr x, s3)"
    and c2: "out_bind (drain_until_stable_empty env 2 0 after s3) (\<lambda>_ s4. Some (Inr (), finish_shutdown s4)) = Some (Inr u, s')" by auto
  from out_bind_Some [OF c2] obtain y s4 where d3: "drain_until_stable_empty env 2 0 after s3 = Some (Inr y, s4)" and s': "s' = finish_shutdown s4" by auto
  have t1: "engine_step env 0 [] [] ?s0 s1" by (rule drain_registry_step [OF d1])
  have t2: "engine_step env 0 [] [] s1 ?s2" by (rule engine_step_other) (simp_all add: same_buffer_def emitted_items_def)
  obtain a3 where t3: "engine_step env 0 [] a3 ?s2 s3" using drain_before_join_step [OF d2] by blast
  obtain a4 where t4: "engine_step env 0 [] a4 s3 s4" using drain_until_stable_step [OF d3] by blast
  have "engine_step env 0 [] (a3 @ a4) ?s0 s4"
    using engine_step_then [OF t1 engine_step_then [OF t2 engine_step_trans [OF t3 t4]]] by simp
  then obtain taken where t: "buffer_run env s4 (used @ taken) (out @ [])"
    "mset taken + mset (pe_completion_queue s4) + emitted_items env ?s0 = mset (pe_completion_queue ?s0) + mset (a3 @ a4) + emitted_items env s4"
    "pe_is_shutdown s4 = pe_is_shutdown ?s0"
    using b0 unfolding engine_step_def by blast
  have same: "emitted_items env ?s0 = emitted_items env s" "pe_completion_queue ?s0 = pe_completion_queue s"
    by (simp_all add: emitted_items_def)
  have "mset used + mset (pe_completion_queue s) + {#} = {#} + mset arr + emitted_items env s" using u(2) by simp
  from balance_trans [OF this t(2) [unfolded same]]
  have "mset ((used @ taken) @ pe_completion_queue s4) = mset (arr @ (a3 @ a4)) + emitted_items env s4" by (simp add: ac_simps)
  then show ?thesis using t(1,3) s' by (intro exI conjI) (assumption | simp)+
qed


section \<open>Examples\<close>

definition demo_engine_env :: "(nat, nat, completion_event list option) engine_env" where
  "demo_engine_env =
     \<lparr>ee_pipe = demo_pipe_env, ee_decode = (\<lambda>q. case q of None \<Rightarrow> Inl ValueError | Some es \<Rightarrow> Inr es),
      ee_pack = (\<lambda>e. Some [e]), ee_max_retries = 2, ee_max_seen = 8, ee_liveness_interval = 0\<rparr>"

definition demo_done :: "int \<Rightarrow> completion_event" where
  "demo_done off = completion_of (demo_item off 0) SUCCESS None 1"

definition demo_submitted :: "(nat, nat, completion_event list option) process_engine" where
  "demo_submitted = snd (the (engine_submit demo_engine_env 0 [] (demo_item 4 0) (process_engine_init 4)))"

text \<open>The worker starts and completes item 4; its completion arrives twice.\<close>

definition demo_arrived :: "(nat, nat, completion_event list option) process_engine" where
  "demo_arrived = arrive ([StartEvent (in_flight_key 1 (demo_item 4 0)) (demo_item 4 0), done_event 1 (demo_item 4 0)],
     [Some [demo_done 4], Some [demo_done 4]]) demo_submitted"

definition demo_polled :: "(nat, nat, completion_event list option) process_engine" where
  "demo_polled = snd (the (engine_poll_completed_events demo_engine_env 0 [] 5 demo_arrived))"

lemma demo_submit: "engine_submit demo_engine_env 0 [] (demo_item 4 0) (process_engine_init 4) = Some (Inr (), demo_submitted)"
  unfolding demo_submitted_def by code_simp

lemma demo_poll: "engine_poll_completed_events demo_engine_env 0 [] 5 demo_arrived = Some (Inr [demo_done 4], demo_polled)"
  unfolding demo_polled_def demo_arrived_def demo_submitted_def by code_simp

lemma demo_engine_run: "engine_run demo_engine_env demo_polled 1 [Some [demo_done 4], Some [demo_done 4]] [demo_done 4]"
proof -
  have "engine_run demo_engine_env demo_submitted (case Inr () :: py_error + unit of Inl _ \<Rightarrow> 0 | Inr _ \<Rightarrow> 0 + 1) [] []"
    by (rule er_submit [OF er_init demo_submit])
  then have "engine_run demo_engine_env demo_arrived 1 ([] @ [Some [demo_done 4], Some [demo_done 4]]) []"
    unfolding demo_arrived_def by (auto dest: er_arrive [where new = "([StartEvent (in_flight_key 1 (demo_item 4 0)) (demo_item 4 0),
      done_event 1 (demo_item 4 0)], [Some [demo_done 4], Some [demo_done 4]])"])
  from er_poll [OF this demo_poll] show ?thesis by simp
qed


lemma demo_shutdown:
  "\<exists>s'. engine_shutdown demo_engine_env [] [([], [Some [demo_done 5]])] demo_polled = Some (Inr (), s') \<and> pe_prefetched s' = [demo_done 5]"
proof -
  have "map_option (\<lambda>(r, s'). (r, pe_prefetched s')) (engine_shutdown demo_engine_env [] [([], [Some [demo_done 5]])] demo_polled) =
      Some (Inr (), [demo_done 5])"
    unfolding demo_polled_def demo_arrived_def demo_submitted_def by code_simp
  then show ?thesis by auto
qed


text \<open>
  A poll that meets an item it cannot decode raises, and the events it had already taken in the
  same call are gone: counted, remembered as seen, off the registry, and never handed out.
\<close>

lemma poll_error_loses_events:
  "(let s = (process_engine_init 4 :: (nat, nat, completion_event list option) process_engine)
        \<lparr>pe_in_flight_count := 2, pe_completion_queue := [Some [demo_done 4], None]\<rparr>;
        (r, s') = poll_available demo_engine_env 5 s
    in r = Inl ValueError \<and> pe_in_flight_count s' = 1 \<and> pe_prefetched s' = [] \<and> pe_completion_queue s' = [] \<and>
       event_id (demo_done 4) \<in> pe_seen s')"
  by code_simp

end
