(* ===== verification/Failure_Routing.thy ===== *)
theory Failure_Routing
  imports Broker_Completion Async_Engine Worker_Runtime Poison_Message
begin

text \<open>
  How the failures the engines report meet the condition under which the broker publishes to the
  dead-letter topic (\<open>event.attempt >= max_retries\<close> in \<open>broker_completion_support.py\<close>). All parts read
  the same \<open>max_retries\<close>. A failure that does not meet the condition completes its offset without being
  published.

  Every failure of exhausted attempts meets it: of the async engine, of a process worker, of an item whose
  workers kept dying, and of an open poison circuit. A task timeout in a process worker does not unless
  it happened in the last attempt, since it ends the attempts at once and is reported with the attempt it
  happened in.
\<close>

lemma async_failure_attempt:
  assumes "ce_status (fst (execute_worker_task cfg worker jitter w)) = FAILURE"
  shows "ce_attempt (fst (execute_worker_task cfg worker jitter w)) = ex_max_retries cfg"
proof (cases "1 \<le> ex_max_retries cfg")
  case True
  obtain e sleeps where e: "(e, sleeps) = execute_worker_task cfg worker jitter w" by (metis surj_pair)
  show ?thesis
    using async_event_exact[OF True e] assms
    by (auto simp: arg_cong[OF e, where f = fst, simplified, symmetric] split: if_splits)
next
  case False
  then show ?thesis using assms by (simp add: execute_worker_task_def attempt_loop.simps)
qed

lemma settled_failure_attempt:
  assumes "run_item m call = Settled FAILURE err a"
  shows "m \<le> a"
  using run_attempts_cases[of 1 m call "Settled FAILURE None 0"] assms
  unfolding run_item_def by (auto split: if_splits)

lemma timeout_attempt:
  assumes "run_item m call = FatalTimeout err a"
  shows "1 \<le> a \<and> a \<le> m"
  using run_attempts_cases[of 1 m call "Settled FAILURE None 0"] assms
  unfolding run_item_def by (auto split: if_splits)

section \<open>Properties\<close>

text \<open>C38. With the dead-letter topic enabled, a failure is published exactly when its attempts are used up.
  Whatever failure the async engine reports, a process worker reports after its attempts, the parent reports
  for an item whose workers kept dying, or an open poison circuit forces, satisfies the broker's condition;
  a task timeout in a process worker satisfies it exactly when it happened in the last attempt.\<close>

theorem exhausted_failures_reach_dlq:
  assumes "comp_dlq_enabled dlq" "comp_max_retries dlq = m" "ex_max_retries cfg = m"
    and "poison_circuit_init True threshold cooldown m = Inr C"
  shows "(ce_status (fst (execute_worker_task cfg worker jitter w)) = FAILURE \<longrightarrow>
        needs_dlq dlq (fst (execute_worker_task cfg worker jitter w))) \<and>
    (run_item m call = Settled FAILURE err a \<longrightarrow> needs_dlq dlq (completion_of p FAILURE err a)) \<and>
    (si_timed_out p = None \<longrightarrow> recover_entry m p = Inl e \<longrightarrow> needs_dlq dlq e) \<and>
    needs_dlq dlq (build_forced_failure_event w C) \<and>
    (run_item m call = FatalTimeout msg a \<longrightarrow> recover_entry m (p\<lparr>si_timed_out := Some (msg, a)\<rparr>) = Inl e \<longrightarrow>
        (needs_dlq dlq e \<longleftrightarrow> a = m))"
proof (intro conjI impI)
  show "needs_dlq dlq (fst (execute_worker_task cfg worker jitter w))"
    if "ce_status (fst (execute_worker_task cfg worker jitter w)) = FAILURE"
    using that async_failure_attempt[OF that] assms(1-3) by (simp add: needs_dlq_def)
  show "needs_dlq dlq (completion_of p FAILURE err a)" if "run_item m call = Settled FAILURE err a"
    using settled_failure_attempt[OF that] assms(1,2) by (simp add: needs_dlq_def completion_of_def)
  show "needs_dlq dlq e" if "si_timed_out p = None" "recover_entry m p = Inl e"
    using that assms(1,2) by (auto simp: recover_entry_def recovery_failure_event_def needs_dlq_def split: if_splits)
  show "needs_dlq dlq (build_forced_failure_event w C)"
    using assms(1,2,4) by (auto simp: needs_dlq_def build_forced_failure_event_def poison_circuit_init_def Let_def split: if_splits)
  show "needs_dlq dlq e \<longleftrightarrow> a = m"
    if t: "run_item m call = FatalTimeout msg a" and r: "recover_entry m (p\<lparr>si_timed_out := Some (msg, a)\<rparr>) = Inl e"
    using timeout_attempt[OF t] r assms(1,2) by (auto simp: recover_entry_def recovery_failure_event_def needs_dlq_def)
qed

definition demo_timeout_calls :: "int \<Rightarrow> call_outcome" where
  "demo_timeout_calls a = CallTimeout ''slow''"

definition demo_dlq_config :: completion_config where
  "demo_dlq_config = \<lparr>comp_dlq_enabled = True, comp_max_retries = 3\<rparr>"

definition demo_payload :: "(nat, nat) serialized_item" where
  "demo_payload = \<lparr>si_id = ''a'', si_topic = ''t'', si_partition = 0, si_offset = 7, si_epoch = 1, si_key = 0,
     si_payload = 0, si_requeue_attempts = 3, si_timed_out = None\<rparr>"

text \<open>With three attempts allowed, a timeout in the first is completed without being published.\<close>

theorem exhausted_failures_reach_dlq_witness:
  "run_item 3 demo_timeout_calls = FatalTimeout ''slow'' 1 \<and>
   recover_entry 3 (demo_payload\<lparr>si_timed_out := Some (''slow'', 1)\<rparr>) = Inl (recovery_failure_event ''slow'' 1 demo_payload) \<and>
   \<not> needs_dlq demo_dlq_config (recovery_failure_event ''slow'' 1 demo_payload) \<and>
   needs_dlq demo_dlq_config (recovery_failure_event ''worker_died_max_retries'' 3 demo_payload)"
proof -
  have t: "run_item 3 demo_timeout_calls = FatalTimeout ''slow'' 1" by code_simp
  have r: "recover_entry 3 (demo_payload\<lparr>si_timed_out := Some (''slow'', 1)\<rparr>) = Inl (recovery_failure_event ''slow'' 1 demo_payload)"
    "recover_entry 3 demo_payload = Inl (recovery_failure_event ''worker_died_max_retries'' 3 demo_payload)"
    "si_timed_out demo_payload = None"
    by (simp_all add: recover_entry_def recovery_failure_event_def demo_payload_def)
  have d: "comp_dlq_enabled demo_dlq_config" "comp_max_retries demo_dlq_config = 3" "ex_max_retries demo_exec = 3"
    by (simp_all add: demo_dlq_config_def demo_exec_def)
  obtain C :: "nat poison_circuit" where C: "poison_circuit_init True 1 0 3 = Inr C" by (simp add: poison_circuit_init_def)
  note routed = exhausted_failures_reach_dlq[OF d C, where call = demo_timeout_calls and p = demo_payload]
  have "\<not> needs_dlq demo_dlq_config (recovery_failure_event ''slow'' 1 demo_payload)"
    using routed[where a = "1" and msg = "''slow''" and e = "recovery_failure_event ''slow'' 1 demo_payload",
      THEN conjunct2, THEN conjunct2, THEN conjunct2, THEN conjunct2, THEN mp, OF t, THEN mp, OF r(1)] by simp
  moreover have "needs_dlq demo_dlq_config (recovery_failure_event ''worker_died_max_retries'' 3 demo_payload)"
    using routed[where e = "recovery_failure_event ''worker_died_max_retries'' 3 demo_payload"] r(2,3) by blast
  ultimately show ?thesis using t r(1) by blast
qed

end
