(* ===== verification/Configuration.thy ===== *)
theory Configuration
  imports Metadata_Encoder Async_Engine Commit_Coordinator Adaptive_Control Dlq_Support
    Process_Engine Poison_Message
begin

text \<open>
  The settings of \<open>config.py\<close> and their resolution in \<open>control_plane/broker_poller_config.py\<close>.

  A settings class is a record that extends the record of the component that reads it, with one
  field per setting; \<open>.._ok\<close> is the conjunction of its \<open>Field\<close> constraints and \<open>Literal\<close>
  types, and \<open>default_..\<close> its declared defaults. Pydantic parses the environment and coerces
  types; what it hands over are typed values, which is where the model starts. The validators
  that run before Pydantic (\<open>mode="before"\<close>) are functions on raw values. Floating-point
  settings are reals.

  The client configurations handed to librdkafka are dictionaries. The theorems: the generic
  dump with secrets is the admin configuration, the redacted dump does not depend on the
  secrets, what \<open>bootstrap_servers\<close> prints it parses back, an explicit environment file reaches
  the sections the constructors forward it to, and a loose settings object is either refused or
  coerced to a valid one.
\<close>

section \<open>The settings classes\<close>

datatype execution_mode = ASYNC | PROCESS

record async_settings =
  as_task_timeout_ms :: int
  as_shutdown_grace_timeout_ms :: int

record process_settings = process_config +
  ps_process_count :: int
  ps_queue_size :: int
  ps_require_picklable_worker :: bool
  ps_batch_bytes :: string
  ps_route_batch_size :: int
  ps_shutdown_drain_timeout_ms :: int
  ps_worker_join_timeout_ms :: int
  ps_task_timeout_ms :: int
  ps_msgpack_max_bytes :: int

definition process_settings_ok :: "process_settings \<Rightarrow> bool" where
  "process_settings_ok c \<longleftrightarrow>
     ps_process_count c > 0 \<and> ps_queue_size c > 0 \<and> pc_batch_size c > 0 \<and> ps_route_batch_size c > 0 \<and>
     pc_flush_policy c \<in> set [''size_or_timer'', ''demand'', ''demand_min_residence''] \<and>
     ps_msgpack_max_bytes c > 0"

record metrics_settings =
  ms_enabled :: bool
  ms_port :: int

definition metrics_settings_ok :: "metrics_settings \<Rightarrow> bool" where
  "metrics_settings_ok c \<longleftrightarrow> 1 \<le> ms_port c \<and> ms_port c \<le> 65535"

definition concurrency_config_ok :: "concurrency_config \<Rightarrow> bool" where
  "concurrency_config_ok c \<longleftrightarrow>
     ac_min_in_flight c \<ge> 0 \<and> ac_scale_up_step c > 0 \<and> ac_scale_down_step c > 0 \<and> ac_cooldown_ms c \<ge> 0"

definition backpressure_config_ok :: "backpressure_config \<Rightarrow> bool" where
  "backpressure_config_ok c \<longleftrightarrow>
     ab_min_in_flight c \<ge> 1 \<and> ab_scale_up_step c > 0 \<and> ab_scale_down_step c > 0 \<and> ab_cooldown_ms c \<ge> 0 \<and>
     ab_lag_scale_up_threshold c \<ge> 0 \<and> ab_low_latency_threshold_ms c \<ge> 0 \<and> ab_high_latency_threshold_ms c \<ge> 0"

record poison_settings =
  po_enabled :: bool
  po_failure_threshold :: int
  po_cooldown_ms :: int

definition poison_settings_ok :: "poison_settings \<Rightarrow> bool" where
  "poison_settings_ok c \<longleftrightarrow> po_failure_threshold c > 0 \<and> po_cooldown_ms c \<ge> 0"

record coordinator_settings = coordinator_config +
  cs_enabled :: bool
  cs_stop_drain_timeout_ms :: int

definition coordinator_settings_ok :: "coordinator_settings \<Rightarrow> bool" where
  "coordinator_settings_ok c \<longleftrightarrow>
     cfg_queue_max_partitions c > 0 \<and> cfg_retry_backoff_ms c \<ge> 0 \<and> cfg_max_retry_backoff_ms c \<ge> 0 \<and>
     cs_stop_drain_timeout_ms c \<ge> 0"

text \<open>\<open>es_model_fields_set\<close> are the names of the fields that were given a value explicitly.\<close>

record execution_settings = exec_config +
  es_mode :: execution_mode
  es_max_revoke_grace_ms :: int
  es_shutdown_policy :: string
  es_consumer_task_stop_timeout_ms :: int
  es_shutdown_drain_timeout_ms :: int
  es_async_config :: async_settings
  es_process_config :: process_settings
  es_model_fields_set :: "string list"

definition execution_settings_ok :: "execution_settings \<Rightarrow> bool" where
  "execution_settings_ok c \<longleftrightarrow>
     ex_max_in_flight c > 0 \<and> es_shutdown_policy c \<in> set [''graceful'', ''abort''] \<and>
     es_consumer_task_stop_timeout_ms c \<ge> 0 \<and> process_settings_ok (es_process_config c)"

record parallel_settings =
  pl_poll_batch_size :: int
  pl_worker_pool_size :: int
  pl_ordering_mode :: ordering_mode
  pl_queue_max_messages :: int
  pl_message_cache_max_bytes :: int
  pl_diag_log_every :: int
  pl_blocking_warn_seconds :: real
  pl_max_blocking_duration_ms :: int
  pl_blocking_cache_ttl :: int
  pl_strict_completion_monitor_enabled :: bool
  pl_commit_debounce_completion_threshold :: int
  pl_commit_debounce_interval_ms :: int
  pl_adaptive_backpressure :: backpressure_config
  pl_adaptive_concurrency :: concurrency_config
  pl_poison_message :: poison_settings
  pl_commit_coordinator :: coordinator_settings
  pl_rebalance_state_strategy :: string
  pl_execution :: execution_settings

definition parallel_settings_ok :: "parallel_settings \<Rightarrow> bool" where
  "parallel_settings_ok c \<longleftrightarrow>
     pl_poll_batch_size c > 0 \<and> pl_worker_pool_size c > 0 \<and> pl_message_cache_max_bytes c \<ge> 0 \<and>
     pl_commit_debounce_completion_threshold c > 0 \<and> pl_commit_debounce_interval_ms c \<ge> 0 \<and>
     backpressure_config_ok (pl_adaptive_backpressure c) \<and> concurrency_config_ok (pl_adaptive_concurrency c) \<and>
     poison_settings_ok (pl_poison_message c) \<and> coordinator_settings_ok (pl_commit_coordinator c) \<and>
     pl_rebalance_state_strategy c \<in> set [''contiguous_only'', ''metadata_snapshot''] \<and>
     execution_settings_ok (pl_execution c)"

subsection \<open>Declared defaults\<close>

definition default_async_settings :: async_settings where
  "default_async_settings = \<lparr>as_task_timeout_ms = 30000, as_shutdown_grace_timeout_ms = 5000\<rparr>"

definition default_process_settings :: process_settings where
  "default_process_settings =
     \<lparr>pc_batch_size = 1, pc_max_batch_wait_ms = 0, pc_flush_policy = ''size_or_timer'',
      pc_demand_flush_min_residence_ms = 0, pc_max_tasks_per_child = 0, pc_recycle_jitter_ms = 0,
      ps_process_count = 8, ps_queue_size = 2048, ps_require_picklable_worker = True,
      ps_batch_bytes = ''256KB'', ps_route_batch_size = 64, ps_shutdown_drain_timeout_ms = 5000,
      ps_worker_join_timeout_ms = 30000, ps_task_timeout_ms = 30000, ps_msgpack_max_bytes = 1000000\<rparr>"

definition default_metrics_settings :: metrics_settings where
  "default_metrics_settings = \<lparr>ms_enabled = False, ms_port = 9091\<rparr>"

definition default_concurrency_config :: concurrency_config where
  "default_concurrency_config =
     \<lparr>ac_enabled = False, ac_min_in_flight = 0, ac_scale_up_step = 32, ac_scale_down_step = 64, ac_cooldown_ms = 1000\<rparr>"

definition default_backpressure_config :: backpressure_config where
  "default_backpressure_config =
     \<lparr>ab_enabled = False, ab_min_in_flight = 1, ab_scale_up_step = 16, ab_scale_down_step = 16,
      ab_cooldown_ms = 1000, ab_lag_scale_up_threshold = 0, ab_low_latency_threshold_ms = 25,
      ab_high_latency_threshold_ms = 100\<rparr>"

definition default_poison_settings :: poison_settings where
  "default_poison_settings = \<lparr>po_enabled = False, po_failure_threshold = 3, po_cooldown_ms = 30000\<rparr>"

definition default_coordinator_settings :: coordinator_settings where
  "default_coordinator_settings =
     \<lparr>cfg_queue_max_partitions = 1024, cfg_retry_backoff_ms = 100, cfg_max_retry_backoff_ms = 5000,
      cs_enabled = False, cs_stop_drain_timeout_ms = 5000\<rparr>"

definition default_execution_settings :: execution_settings where
  "default_execution_settings =
     \<lparr>ex_max_retries = 3, ex_retry_backoff_ms = 1000, ex_exponential_backoff = True,
      ex_max_retry_backoff_ms = 30000, ex_retry_jitter_ms = 200, ex_max_in_flight = 1000,
      es_mode = ASYNC, es_max_revoke_grace_ms = 500, es_shutdown_policy = ''graceful'',
      es_consumer_task_stop_timeout_ms = 5000, es_shutdown_drain_timeout_ms = 5000,
      es_async_config = default_async_settings, es_process_config = default_process_settings,
      es_model_fields_set = []\<rparr>"

definition default_parallel_settings :: parallel_settings where
  "default_parallel_settings =
     \<lparr>pl_poll_batch_size = 1000, pl_worker_pool_size = 8, pl_ordering_mode = KEY_HASH,
      pl_queue_max_messages = 5000, pl_message_cache_max_bytes = 64 * 1024 * 1024, pl_diag_log_every = 1000,
      pl_blocking_warn_seconds = 5, pl_max_blocking_duration_ms = 0, pl_blocking_cache_ttl = 100,
      pl_strict_completion_monitor_enabled = True, pl_commit_debounce_completion_threshold = 100,
      pl_commit_debounce_interval_ms = 100, pl_adaptive_backpressure = default_backpressure_config,
      pl_adaptive_concurrency = default_concurrency_config, pl_poison_message = default_poison_settings,
      pl_commit_coordinator = default_coordinator_settings, pl_rebalance_state_strategy = ''contiguous_only'',
      pl_execution = default_execution_settings\<rparr>"

lemmas settings_ok_defs = process_settings_ok_def metrics_settings_ok_def concurrency_config_ok_def
  backpressure_config_ok_def poison_settings_ok_def coordinator_settings_ok_def execution_settings_ok_def
  parallel_settings_ok_def

lemmas default_settings_defs = default_async_settings_def default_process_settings_def
  default_metrics_settings_def default_concurrency_config_def default_backpressure_config_def
  default_poison_settings_def default_coordinator_settings_def default_execution_settings_def
  default_parallel_settings_def

lemma default_settings_ok [simp]:
  "process_settings_ok default_process_settings" "metrics_settings_ok default_metrics_settings"
  "concurrency_config_ok default_concurrency_config" "backpressure_config_ok default_backpressure_config"
  "poison_settings_ok default_poison_settings" "coordinator_settings_ok default_coordinator_settings"
  "execution_settings_ok default_execution_settings" "parallel_settings_ok default_parallel_settings"
  by (simp_all add: settings_ok_defs default_settings_defs)

section \<open>Validators on raw values\<close>

datatype 'm raw_setting = RawEnum 'm | RawStr string | RawOther

text \<open>A trailing comment is cut off: \<open>v.split("#", 1)[0].strip()\<close>.\<close>

definition clean_setting :: "string \<Rightarrow> string" where
  "clean_setting v = strip (fst (str_split1 CHR ''#'' v))"

fun execution_mode_value :: "execution_mode \<Rightarrow> string" where
  "execution_mode_value ASYNC = ''async''"
| "execution_mode_value PROCESS = ''process''"

fun ordering_mode_value :: "ordering_mode \<Rightarrow> string" where
  "ordering_mode_value KEY_HASH = ''key_hash''"
| "ordering_mode_value PARTITION = ''partition''"
| "ordering_mode_value UNORDERED = ''unordered''"

fun dlq_payload_mode_value :: "dlq_payload_mode \<Rightarrow> string" where
  "dlq_payload_mode_value FULL = ''full''"
| "dlq_payload_mode_value METADATA_ONLY = ''metadata_only''"

text \<open>\<open>Enum(value)\<close>: the first member with that value, or \<open>ValueError\<close>.\<close>

definition enum_of_value :: "('m \<Rightarrow> string) \<Rightarrow> 'm list \<Rightarrow> string \<Rightarrow> py_error + 'm" where
  "enum_of_value val members s =
     (case find (\<lambda>m. val m = s) members of None \<Rightarrow> Inl ValueError | Some m \<Rightarrow> Inr m)"

definition execution_mode_of :: "string \<Rightarrow> py_error + execution_mode" where
  "execution_mode_of = enum_of_value execution_mode_value [ASYNC, PROCESS]"

definition ordering_mode_of :: "string \<Rightarrow> py_error + ordering_mode" where
  "ordering_mode_of = enum_of_value ordering_mode_value [KEY_HASH, PARTITION, UNORDERED]"

definition dlq_payload_mode_of :: "string \<Rightarrow> py_error + dlq_payload_mode" where
  "dlq_payload_mode_of = enum_of_value dlq_payload_mode_value [FULL, METADATA_ONLY]"

fun normalize_mode :: "execution_mode raw_setting \<Rightarrow> py_error + execution_mode" where
  "normalize_mode (RawEnum m) = Inr m"
| "normalize_mode (RawStr v) = execution_mode_of (clean_setting v)"
| "normalize_mode RawOther = Inl TypeError"

fun normalize_ordering_mode :: "ordering_mode raw_setting \<Rightarrow> py_error + ordering_mode" where
  "normalize_ordering_mode (RawEnum m) = Inr m"
| "normalize_ordering_mode (RawStr v) = ordering_mode_of (clean_setting v)"
| "normalize_ordering_mode RawOther = Inl TypeError"

fun normalize_dlq_mode :: "dlq_payload_mode raw_setting \<Rightarrow> py_error + dlq_payload_mode" where
  "normalize_dlq_mode (RawEnum m) = Inr m"
| "normalize_dlq_mode (RawStr v) = dlq_payload_mode_of (clean_setting v)"
| "normalize_dlq_mode RawOther = Inl TypeError"

section \<open>Resolution of derived settings\<close>

definition max_in_flight_messages :: "execution_settings \<Rightarrow> int" where
  "max_in_flight_messages c = ex_max_in_flight c"

definition resolve_shutdown_drain_timeout_ms :: "execution_settings \<Rightarrow> int" where
  "resolve_shutdown_drain_timeout_ms c =
     (if es_shutdown_policy c = ''abort'' then 0
      else if ''shutdown_drain_timeout_ms'' \<in> set (es_model_fields_set c)
        then max 0 (es_shutdown_drain_timeout_ms c)
      else if es_mode c = ASYNC then max 0 (as_shutdown_grace_timeout_ms (es_async_config c))
      else max 0 (ps_shutdown_drain_timeout_ms (es_process_config c)))"

definition resolve_work_manager_route_batch_size :: "parallel_settings \<Rightarrow> py_error + int" where
  "resolve_work_manager_route_batch_size c =
     (let execution_config = pl_execution c
      in if es_mode execution_config = PROCESS
         then let route_batch_size = ps_route_batch_size (es_process_config execution_config)
              in if route_batch_size < 1 then Inl ValueError else Inr route_batch_size
         else Inr 1)"

section \<open>Loose settings objects\<close>

text \<open>
  \<open>BrokerPoller\<close> also takes objects that only look like settings: an attribute may be missing or
  have another type. \<open>getattr(raw, name, default)\<close> is the map lookup with a default.
\<close>

datatype attr = AttrBool bool | AttrInt int | AttrFloat real | AttrStr string | AttrMode ordering_mode | AttrOther

type_synonym loose = "string \<rightharpoonup> attr"

definition getattr_default :: "loose \<Rightarrow> string \<Rightarrow> attr \<Rightarrow> attr" where
  "getattr_default raw name dflt = (case raw name of None \<Rightarrow> dflt | Some v \<Rightarrow> v)"

text \<open>\<open>int(x)\<close> of a float truncates towards zero.\<close>

definition int_of_float :: "real \<Rightarrow> int" where
  "int_of_float x = (if x \<ge> 0 then \<lfloor>x\<rfloor> else \<lceil>x\<rceil>)"

definition coerce_bool :: "loose \<Rightarrow> string \<Rightarrow> bool \<Rightarrow> bool" where
  "coerce_bool raw name dflt =
     (case getattr_default raw name (AttrBool dflt) of AttrBool b \<Rightarrow> b | _ \<Rightarrow> dflt)"

definition coerce_int :: "loose \<Rightarrow> string \<Rightarrow> int \<Rightarrow> int" where
  "coerce_int raw name dflt =
     (case getattr_default raw name (AttrInt dflt) of
        AttrBool b \<Rightarrow> dflt | AttrInt i \<Rightarrow> i | AttrFloat x \<Rightarrow> int_of_float x | _ \<Rightarrow> dflt)"

definition coerce_float :: "loose \<Rightarrow> string \<Rightarrow> real \<Rightarrow> real" where
  "coerce_float raw name dflt =
     (case getattr_default raw name (AttrFloat dflt) of
        AttrBool b \<Rightarrow> dflt | AttrInt i \<Rightarrow> real_of_int i | AttrFloat x \<Rightarrow> x | _ \<Rightarrow> dflt)"

text \<open>The constructor at the end validates, so a value out of range raises.\<close>

definition coerce_adaptive_backpressure_config :: "loose \<Rightarrow> py_error + backpressure_config" where
  "coerce_adaptive_backpressure_config raw =
     (let c = \<lparr>ab_enabled = coerce_bool raw ''enabled'' False,
               ab_min_in_flight = coerce_int raw ''min_in_flight'' 1,
               ab_scale_up_step = coerce_int raw ''scale_up_step'' 16,
               ab_scale_down_step = coerce_int raw ''scale_down_step'' 16,
               ab_cooldown_ms = coerce_int raw ''cooldown_ms'' 1000,
               ab_lag_scale_up_threshold = coerce_int raw ''lag_scale_up_threshold'' 0,
               ab_low_latency_threshold_ms = coerce_float raw ''low_latency_threshold_ms'' 25,
               ab_high_latency_threshold_ms = coerce_float raw ''high_latency_threshold_ms'' 100\<rparr>
      in if backpressure_config_ok c then Inr c else Inl ValueError)"

text \<open>The child object may be missing; then every attribute is.\<close>

definition coerce_adaptive_concurrency_config :: "loose option \<Rightarrow> py_error + concurrency_config" where
  "coerce_adaptive_concurrency_config child =
     (let raw = (case child of None \<Rightarrow> Map.empty | Some r \<Rightarrow> r);
          c = \<lparr>ac_enabled = coerce_bool raw ''enabled'' False,
               ac_min_in_flight = coerce_int raw ''min_in_flight'' 0,
               ac_scale_up_step = coerce_int raw ''scale_up_step'' 32,
               ac_scale_down_step = coerce_int raw ''scale_down_step'' 64,
               ac_cooldown_ms = coerce_int raw ''cooldown_ms'' 1000\<rparr>
      in if concurrency_config_ok c then Inr c else Inl ValueError)"

definition resolve_ordering_mode :: "loose \<Rightarrow> py_error + ordering_mode" where
  "resolve_ordering_mode pc_conf =
     (case getattr_default pc_conf ''ordering_mode'' (AttrMode KEY_HASH) of
        AttrStr s \<Rightarrow> ordering_mode_of s
      | AttrMode m \<Rightarrow> Inr m
      | _ \<Rightarrow> Inr KEY_HASH)"

definition resolve_configured_max_in_flight :: "loose \<Rightarrow> int" where
  "resolve_configured_max_in_flight execution_config =
     max 1 (case getattr_default execution_config ''max_in_flight'' (AttrInt 1000) of
              AttrInt i \<Rightarrow> i | AttrFloat x \<Rightarrow> int_of_float x | _ \<Rightarrow> 1000)"

definition resolve_commit_debounce_completion_threshold :: "loose \<Rightarrow> int" where
  "resolve_commit_debounce_completion_threshold pc_conf =
     (case getattr_default pc_conf ''commit_debounce_completion_threshold'' (AttrInt 100) of
        AttrInt i \<Rightarrow> max 1 i | AttrFloat x \<Rightarrow> max 1 (int_of_float x) | _ \<Rightarrow> 100)"

definition resolve_commit_debounce_interval_seconds :: "loose \<Rightarrow> real" where
  "resolve_commit_debounce_interval_seconds pc_conf =
     (case getattr_default pc_conf ''commit_debounce_interval_ms'' (AttrInt 100) of
        AttrInt i \<Rightarrow> max 0 (real_of_int i / 1000) | AttrFloat x \<Rightarrow> max 0 (x / 1000) | _ \<Rightarrow> 1 / 10)"

text \<open>
  The drain timeout of an object with the method \<open>resolve_shutdown_drain_timeout_ms\<close>
  (\<open>Some\<close> of what it returns) and of one without it; \<open>float\<close> of an attribute that is no number raises.
\<close>

definition resolve_shutdown_drain_timeout_seconds :: "attr option \<Rightarrow> loose \<Rightarrow> py_error + real" where
  "resolve_shutdown_drain_timeout_seconds resolved execution_config =
     (case resolved of
        Some (AttrInt i) \<Rightarrow> Inr (max 0 (real_of_int i / 1000))
      | Some (AttrFloat x) \<Rightarrow> Inr (max 0 (x / 1000))
      | Some (AttrBool b) \<Rightarrow> Inr (max 0 (of_bool b / 1000))
      | Some _ \<Rightarrow> Inr 0
      | None \<Rightarrow>
          (case getattr_default execution_config ''shutdown_drain_timeout_ms'' (AttrInt 0) of
             AttrInt i \<Rightarrow> Inr (max 0 (real_of_int i / 1000))
           | AttrFloat x \<Rightarrow> Inr (max 0 (x / 1000))
           | AttrBool b \<Rightarrow> Inr (max 0 (of_bool b / 1000))
           | AttrStr s \<Rightarrow> Inl ValueError
           | _ \<Rightarrow> Inl TypeError))"

section \<open>Kafka settings\<close>

datatype secret = SecretStr (get_secret_value: string)

datatype raw_value = RvStr string | RvList "raw_value list" | RvOther

fun raw_str :: "raw_value \<Rightarrow> string option" where
  "raw_str (RvStr s) = Some s"
| "raw_str _ = None"

definition stripped_nonempty :: "string list \<Rightarrow> string list" where
  "stripped_nonempty xs = map strip (filter (\<lambda>s. strip s \<noteq> []) xs)"

fun parse_bootstrap_servers :: "raw_value \<Rightarrow> py_error + string list" where
  "parse_bootstrap_servers (RvStr v) = Inr (stripped_nonempty (str_split CHR '','' v))"
| "parse_bootstrap_servers (RvList v) =
     (if list_ex (\<lambda>item. raw_str item = None) v then Inl TypeError
      else Inr (stripped_nonempty (List.map_filter raw_str v)))"
| "parse_bootstrap_servers RvOther = Inl TypeError"

text \<open>
  \<open>ks_model_extra\<close> is Pydantic's \<open>model_extra\<close>, which is \<open>None\<close> for a class with
  \<open>extra="ignore"\<close>.
\<close>

datatype setting_value =
    SvStr string
  | SvInt int
  | SvBool bool
  | SvSecret secret
  | SvServers raw_value
  | SvPayloadMode dlq_payload_mode
  | SvMetrics metrics_settings
  | SvParallel parallel_settings

record kafka_settings =
  ks_bootstrap_servers :: raw_value
  ks_consumer_group :: string
  ks_dlq_topic_suffix :: string
  ks_dlq_enabled :: bool
  ks_dlq_payload_mode :: dlq_payload_mode
  ks_dlq_flush_timeout_ms :: int
  ks_auto_offset_reset :: string
  ks_enable_auto_commit :: bool
  ks_session_timeout_ms :: int
  ks_security_protocol :: "string option"
  ks_sasl_mechanisms :: "string option"
  ks_sasl_username :: "string option"
  ks_sasl_password :: "secret option"
  ks_ssl_ca_location :: "string option"
  ks_ssl_certificate_location :: "string option"
  ks_ssl_key_location :: "string option"
  ks_ssl_key_password :: "secret option"
  ks_metrics :: metrics_settings
  ks_parallel_consumer :: parallel_settings
  ks_model_extra :: "(string, setting_value) dict option"

definition kafka_settings_ok :: "kafka_settings \<Rightarrow> bool" where
  "kafka_settings_ok c \<longleftrightarrow>
     parse_bootstrap_servers (ks_bootstrap_servers c) \<noteq> Inl TypeError \<and>
     ks_auto_offset_reset c \<in> set [''earliest'', ''latest'', ''none''] \<and>
     (case ks_security_protocol c of None \<Rightarrow> True
      | Some p \<Rightarrow> p \<in> set [''PLAINTEXT'', ''SSL'', ''SASL_PLAINTEXT'', ''SASL_SSL'']) \<and>
     metrics_settings_ok (ks_metrics c) \<and> parallel_settings_ok (ks_parallel_consumer c) \<and>
     ks_model_extra c = None"

definition default_kafka_settings :: kafka_settings where
  "default_kafka_settings =
     \<lparr>ks_bootstrap_servers = RvList [RvStr ''localhost:9092''], ks_consumer_group = ''pyrallel-consumer-group'',
      ks_dlq_topic_suffix = ''.dlq'', ks_dlq_enabled = True, ks_dlq_payload_mode = FULL,
      ks_dlq_flush_timeout_ms = 5000, ks_auto_offset_reset = ''earliest'', ks_enable_auto_commit = False,
      ks_session_timeout_ms = 60000, ks_security_protocol = None, ks_sasl_mechanisms = None,
      ks_sasl_username = None, ks_sasl_password = None, ks_ssl_ca_location = None,
      ks_ssl_certificate_location = None, ks_ssl_key_location = None, ks_ssl_key_password = None,
      ks_metrics = default_metrics_settings, ks_parallel_consumer = default_parallel_settings,
      ks_model_extra = None\<rparr>"

text \<open>Blank security settings count as unset; passwords keep their spaces.\<close>

datatype 'o raw_security = SecNone | SecStr string | SecObj 'o

fun normalize_optional_security_field :: "string \<Rightarrow> 'o raw_security \<Rightarrow> 'o raw_security" where
  "normalize_optional_security_field field_name (SecStr v) =
     (let cleaned = strip v
      in if cleaned = [] then SecNone
         else if field_name \<in> set [''sasl_password'', ''ssl_key_password''] then SecStr v
         else SecStr cleaned)"
| "normalize_optional_security_field field_name v = v"

subsection \<open>Client configurations\<close>

type_synonym conf = "(string, setting_value) dict"

definition bootstrap_servers_csv :: "kafka_settings \<Rightarrow> py_error + string" where
  "bootstrap_servers_csv c =
     (case parse_bootstrap_servers (ks_bootstrap_servers c) of
        Inl e \<Rightarrow> Inl e | Inr servers \<Rightarrow> Inr (str_join '','' servers))"

text \<open>The fields of the model in the order of their declaration, for \<open>getattr\<close> and \<open>model_dump\<close>.\<close>

definition model_fields :: "kafka_settings \<Rightarrow> (string \<times> setting_value option) list" where
  "model_fields c =
     [(''bootstrap_servers'', Some (SvServers (ks_bootstrap_servers c))),
      (''consumer_group'', Some (SvStr (ks_consumer_group c))),
      (''dlq_topic_suffix'', Some (SvStr (ks_dlq_topic_suffix c))),
      (''dlq_enabled'', Some (SvBool (ks_dlq_enabled c))),
      (''dlq_payload_mode'', Some (SvPayloadMode (ks_dlq_payload_mode c))),
      (''dlq_flush_timeout_ms'', Some (SvInt (ks_dlq_flush_timeout_ms c))),
      (''auto_offset_reset'', Some (SvStr (ks_auto_offset_reset c))),
      (''enable_auto_commit'', Some (SvBool (ks_enable_auto_commit c))),
      (''session_timeout_ms'', Some (SvInt (ks_session_timeout_ms c))),
      (''security_protocol'', map_option SvStr (ks_security_protocol c)),
      (''sasl_mechanisms'', map_option SvStr (ks_sasl_mechanisms c)),
      (''sasl_username'', map_option SvStr (ks_sasl_username c)),
      (''sasl_password'', map_option SvSecret (ks_sasl_password c)),
      (''ssl_ca_location'', map_option SvStr (ks_ssl_ca_location c)),
      (''ssl_certificate_location'', map_option SvStr (ks_ssl_certificate_location c)),
      (''ssl_key_location'', map_option SvStr (ks_ssl_key_location c)),
      (''ssl_key_password'', map_option SvSecret (ks_ssl_key_password c)),
      (''metrics'', Some (SvMetrics (ks_metrics c))),
      (''parallel_consumer'', Some (SvParallel (ks_parallel_consumer c)))]"

fun reveal :: "setting_value \<Rightarrow> setting_value" where
  "reveal (SvSecret s) = SvStr (get_secret_value s)"
| "reveal v = v"

definition field_to_config_key :: "(string \<times> string) list" where
  "field_to_config_key =
     [(''security_protocol'', ''security.protocol''),
      (''sasl_mechanisms'', ''sasl.mechanisms''),
      (''sasl_username'', ''sasl.username''),
      (''sasl_password'', ''sasl.password''),
      (''ssl_ca_location'', ''ssl.ca.location''),
      (''ssl_certificate_location'', ''ssl.certificate.location''),
      (''ssl_key_location'', ''ssl.key.location''),
      (''ssl_key_password'', ''ssl.key.password'')]"

definition get_security_config :: "kafka_settings \<Rightarrow> conf" where
  "get_security_config c =
     fold (\<lambda>(field_name, config_key) security_config.
             case dict_get_default (model_fields c) field_name None of
               None \<Rightarrow> security_config
             | Some v \<Rightarrow> dict_set config_key (reveal v) security_config)
       field_to_config_key []"

definition dict_update :: "('a, 'b) dict \<Rightarrow> ('a, 'b) dict \<Rightarrow> ('a, 'b) dict" where
  "dict_update d e = fold (\<lambda>(k, v). dict_set k v) e d"

text \<open>The host name is \<open>socket.gethostname()\<close>.\<close>

definition get_producer_config :: "string \<Rightarrow> kafka_settings \<Rightarrow> py_error + conf" where
  "get_producer_config hostname c =
     (case bootstrap_servers_csv c of
        Inl e \<Rightarrow> Inl e
      | Inr csv \<Rightarrow>
          Inr (dict_update [(''bootstrap.servers'', SvStr csv), (''client.id'', SvStr hostname)] (get_security_config c)))"

definition get_consumer_config :: "kafka_settings \<Rightarrow> py_error + conf" where
  "get_consumer_config c =
     (case bootstrap_servers_csv c of
        Inl e \<Rightarrow> Inl e
      | Inr csv \<Rightarrow>
          Inr (dict_update
                 [(''bootstrap.servers'', SvStr csv), (''group.id'', SvStr (ks_consumer_group c)),
                  (''auto.offset.reset'', SvStr (ks_auto_offset_reset c)),
                  (''enable.auto.commit'', SvBool (ks_enable_auto_commit c)),
                  (''session.timeout.ms'', SvInt (ks_session_timeout_ms c))]
                 (get_security_config c)))"

definition get_admin_config :: "kafka_settings \<Rightarrow> py_error + conf" where
  "get_admin_config c =
     (case bootstrap_servers_csv c of
        Inl e \<Rightarrow> Inl e
      | Inr csv \<Rightarrow> Inr (dict_update [(''bootstrap.servers'', SvStr csv)] (get_security_config c)))"

definition rdkafka_key :: "string \<Rightarrow> string" where
  "rdkafka_key k = map (\<lambda>ch. if ch = CHR ''_'' then CHR ''.'' else ch) k"

text \<open>\<open>str.lower\<close> on the characters up to U+00FF.\<close>

definition char_lower :: "char \<Rightarrow> char" where
  "char_lower ch =
     (let n = of_char ch :: nat
      in if (65 \<le> n \<and> n \<le> 90) \<or> (192 \<le> n \<and> n \<le> 222 \<and> n \<noteq> 215) then char_of (n + 32) else ch)"

definition model_dump_exclude_none :: "kafka_settings \<Rightarrow> conf" where
  "model_dump_exclude_none c = List.map_filter (\<lambda>(k, v). map_option (Pair k) v) (model_fields c)"

definition rdkafka_exclude :: "bool \<Rightarrow> string list" where
  "rdkafka_exclude include_secrets =
     [''bootstrap_servers'', ''consumer_group'', ''dlq_topic_suffix'', ''dlq_payload_mode'', ''dlq_enabled'',
      ''dlq_flush_timeout_ms'', ''auto_offset_reset'', ''enable_auto_commit'', ''session_timeout_ms'',
      ''rebalance_protocol'', ''metrics'', ''parallel_consumer''] @
     (if include_secrets then [] else [''sasl_password'', ''ssl_key_password''])"

definition build_rdkafka_config :: "bool \<Rightarrow> kafka_settings \<Rightarrow> py_error + conf" where
  "build_rdkafka_config include_secrets c =
     (case bootstrap_servers_csv c of
        Inl e \<Rightarrow> Inl e
      | Inr csv \<Rightarrow>
          let conf = fold (\<lambda>(k, v) conf.
                        if k \<in> set (rdkafka_exclude include_secrets) then conf
                        else dict_set (rdkafka_key k) (reveal v) conf)
                       (model_dump_exclude_none c) [(''bootstrap.servers'', SvStr csv)]
          in Inr (case ks_model_extra c of
                    None \<Rightarrow> conf
                  | Some extras \<Rightarrow> fold (\<lambda>(k, v). dict_set (map char_lower (rdkafka_key k)) v) extras conf))"

definition dump_to_rdkafka :: "kafka_settings \<Rightarrow> py_error + conf" where
  "dump_to_rdkafka c = build_rdkafka_config False c"

definition get_rdkafka_config :: "kafka_settings \<Rightarrow> py_error + conf" where
  "get_rdkafka_config c = build_rdkafka_config True c"

text \<open>The upper-case aliases; \<open>BOOTSTRAP_SERVERS\<close> parses on reading and on writing.\<close>

definition get_BOOTSTRAP_SERVERS :: "kafka_settings \<Rightarrow> py_error + string list" where
  "get_BOOTSTRAP_SERVERS c = parse_bootstrap_servers (ks_bootstrap_servers c)"

definition set_BOOTSTRAP_SERVERS :: "raw_value \<Rightarrow> kafka_settings \<Rightarrow> py_error + kafka_settings" where
  "set_BOOTSTRAP_SERVERS v c =
     (case parse_bootstrap_servers v of
        Inl e \<Rightarrow> Inl e | Inr servers \<Rightarrow> Inr (c\<lparr>ks_bootstrap_servers := RvList (map RvStr servers)\<rparr>))"

section \<open>Explicit environment files\<close>

text \<open>
  The constructors rewrite their keyword arguments before Pydantic sees them: with an explicit
  \<open>_env_file\<close>, a section given as a dictionary, or not given, becomes a section built with that
  file. \<open>Built\<close> is a constructed section with the arguments its class passed on to Pydantic; an
  object the caller built is a \<open>Leaf\<close>. Passing \<open>_env_file\<close> twice to a call is a \<open>TypeError\<close>.
\<close>

datatype section_class =
    MetricsConfig | ParallelConsumerConfig | ExecutionConfig | ProcessConfig | CommitCoordinatorConfig

datatype 'v arg =
    Leaf 'v
  | EnvFile "string option"
  | DictArg "(string \<times> 'v arg) list"
  | Built section_class "(string \<times> 'v arg) list"

type_synonym 'v kwargs = "(string, 'v arg) dict"

text \<open>\<open>Cls(_env_file=env_file, **kwargs)\<close>\<close>

definition with_env_file :: "'v arg \<Rightarrow> 'v kwargs \<Rightarrow> py_error + 'v kwargs" where
  "with_env_file env_file kwargs =
     (if dict_has kwargs ''_env_file'' then Inl TypeError else Inr ((''_env_file'', env_file) # kwargs))"

definition plain_init :: "section_class \<Rightarrow> 'v kwargs \<Rightarrow> py_error + 'v arg" where
  "plain_init cls kwargs = Inr (Built cls kwargs)"

text \<open>One section: a dictionary is built with the file, a missing section is built from the file alone.\<close>

definition forward_env_file ::
  "('v kwargs \<Rightarrow> py_error + 'v arg) \<Rightarrow> 'v arg \<Rightarrow> string \<Rightarrow> 'v kwargs \<Rightarrow> py_error + 'v kwargs" where
  "forward_env_file build env_file name data =
     (case dict_get data name of
        Some (DictArg d) \<Rightarrow>
          (case with_env_file env_file d of
             Inl e \<Rightarrow> Inl e
           | Inr kwargs \<Rightarrow> (case build kwargs of Inl e \<Rightarrow> Inl e | Inr b \<Rightarrow> Inr (dict_set name b data)))
      | Some other \<Rightarrow> (case build [(''_env_file'', env_file)] of Inl e \<Rightarrow> Inl e | Inr b \<Rightarrow> Inr data)
      | None \<Rightarrow> (case build [(''_env_file'', env_file)] of Inl e \<Rightarrow> Inl e | Inr b \<Rightarrow> Inr (dict_set name b data)))"

definition execution_config_init :: "'v kwargs \<Rightarrow> py_error + 'v arg" where
  "execution_config_init data =
     (case dict_get data ''_env_file'' of
        None \<Rightarrow> Inr (Built ExecutionConfig data)
      | Some env_file \<Rightarrow>
          (case forward_env_file (plain_init ProcessConfig) env_file ''process_config'' data of
             Inl e \<Rightarrow> Inl e
           | Inr data \<Rightarrow> Inr (Built ExecutionConfig data)))"

definition parallel_consumer_config_init :: "'v kwargs \<Rightarrow> py_error + 'v arg" where
  "parallel_consumer_config_init data =
     (case dict_get data ''_env_file'' of
        None \<Rightarrow> Inr (Built ParallelConsumerConfig data)
      | Some env_file \<Rightarrow>
          (case forward_env_file execution_config_init env_file ''execution'' data of
             Inl e \<Rightarrow> Inl e
           | Inr data \<Rightarrow>
               (case forward_env_file (plain_init CommitCoordinatorConfig) env_file ''commit_coordinator'' data of
                  Inl e \<Rightarrow> Inl e
                | Inr data \<Rightarrow> Inr (Built ParallelConsumerConfig data))))"

text \<open>What \<open>KafkaConfig.__init__\<close> hands to Pydantic.\<close>

definition kafka_config_init :: "'v kwargs \<Rightarrow> py_error + 'v kwargs" where
  "kafka_config_init data =
     (case dict_get data ''_env_file'' of
        None \<Rightarrow> Inr data
      | Some env_file \<Rightarrow>
          (case forward_env_file (plain_init MetricsConfig) env_file ''metrics'' data of
             Inl e \<Rightarrow> Inl e
           | Inr data \<Rightarrow> forward_env_file parallel_consumer_config_init env_file ''parallel_consumer'' data))"


section \<open>Stripping and splitting\<close>

lemma strip_strip [simp]: "strip (strip s) = strip s"
proof -
  define t where "t = dropWhile is_str_space s"
  define u where "u = strip s"
  have u: "u = rev (dropWhile is_str_space (rev t))" by (simp add: u_def t_def strip_def)
  have "t = u @ rev (takeWhile is_str_space (rev t))"
    by (metis rev_append rev_rev_ident takeWhile_dropWhile_id u)
  moreover have "t = [] \<or> \<not> is_str_space (hd t)" unfolding t_def using hd_dropWhile by blast
  ultimately have "dropWhile is_str_space u = u" by (cases u) (auto, (metis list.sel(1) list.simps(3)))
  then have "strip u = u" by (simp add: strip_def u dropWhile_idem)
  then show ?thesis by (simp add: u_def)
qed

lemma set_strip_subset: "set (strip s) \<subseteq> set s"
  unfolding strip_def by (auto dest!: set_dropWhileD)

lemma str_split_sep_free: "p \<in> set (str_split sep s) \<Longrightarrow> sep \<notin> set p"
  by (induction s arbitrary: p) (fastforce split: if_splits list.splits)+

lemma stripped_nonempty_idem [simp]: "stripped_nonempty (stripped_nonempty xs) = stripped_nonempty xs"
  by (simp add: stripped_nonempty_def filter_map comp_def)

lemma strip_Nil [simp]: "strip [] = []"
  by (simp add: strip_def)

lemma stripped_nonempty_join:
  assumes "\<forall>s \<in> set xs. CHR '','' \<notin> set s"
  shows "stripped_nonempty (str_split CHR '','' (str_join '','' (stripped_nonempty xs))) = stripped_nonempty xs"
proof (cases "stripped_nonempty xs = []")
  case True
  then show ?thesis by (simp add: stripped_nonempty_def)
next
  case False
  have "CHR '','' \<notin> set s" if "s \<in> set (stripped_nonempty xs)" for s
    using that assms set_strip_subset by (force simp: stripped_nonempty_def)
  then show ?thesis using False by (simp add: str_split_join)
qed

lemma clean_setting_comment:
  assumes "list_all (\<lambda>ch. \<not> is_str_space ch \<and> ch \<noteq> CHR ''#'') s" "list_all is_str_space pad" "CHR ''#'' \<notin> set pad"
  shows "clean_setting (s @ pad @ CHR ''#'' # rest) = s"
proof -
  have "takeWhile (\<lambda>c. c \<noteq> CHR ''#'') (s @ pad @ CHR ''#'' # rest) = s @ pad"
    using assms(1,3) by (auto simp: list_all_iff takeWhile_append)
  moreover have "strip (s @ pad) = s"
  proof (cases s)
    case Nil
    then show ?thesis using assms(2) by (auto simp: strip_def list_all_iff dest!: set_dropWhileD)
  next
    case (Cons a as)
    have "dropWhile is_str_space (s @ pad) = s @ pad" using assms(1) Cons by simp
    moreover have "dropWhile is_str_space (rev pad @ rev s) = dropWhile is_str_space (rev s)"
      using assms(2) by (intro dropWhile_append2) (simp add: list_all_iff)
    moreover have "dropWhile is_str_space xs = xs" if "\<forall>ch \<in> set xs. \<not> is_str_space ch" for xs
      using that by (cases xs) auto
    from this[of "rev s"] have "dropWhile is_str_space (rev s) = rev s" using assms(1) by (simp add: list_all_iff)
    ultimately show ?thesis by (simp add: strip_def)
  qed
  ultimately show ?thesis by (simp add: clean_setting_def str_split1_def)
qed

section \<open>Forwarding of the environment file\<close>

lemma forward_other:
  "forward_env_file build f n data = Inr d \<Longrightarrow> k \<noteq> n \<Longrightarrow> dict_get d k = dict_get data k"
  by (auto simp: forward_env_file_def dict_simps split: option.splits arg.splits sum.splits)

lemma forward_missing:
  "forward_env_file build f n data = Inr d \<Longrightarrow> dict_get data n = None \<Longrightarrow>
    \<exists>b. build [(''_env_file'', f)] = Inr b \<and> dict_get d n = Some b"
  by (auto simp: forward_env_file_def dict_simps split: sum.splits)

lemma forward_dict:
  "forward_env_file build f n data = Inr d \<Longrightarrow> dict_get data n = Some (DictArg kw) \<Longrightarrow>
    \<exists>b. build ((''_env_file'', f) # kw) = Inr b \<and> dict_get d n = Some b"
  by (auto simp: forward_env_file_def with_env_file_def dict_simps split: sum.splits if_splits)

text \<open>The sections of what reaches Pydantic, and that no object of the caller stands on the way.\<close>

fun section_at :: "string list \<Rightarrow> 'v kwargs \<Rightarrow> 'v arg option" where
  "section_at [] data = None"
| "section_at [n] data = dict_get data n"
| "section_at (n # m # ns) data =
     (case dict_get data n of Some (Built cls kw) \<Rightarrow> section_at (m # ns) kw | _ \<Rightarrow> None)"

fun open_path :: "string list \<Rightarrow> 'v kwargs \<Rightarrow> bool" where
  "open_path [] data = True"
| "open_path (n # ns) data =
     (case dict_get data n of None \<Rightarrow> True | Some (DictArg kw) \<Rightarrow> open_path ns kw | Some _ \<Rightarrow> False)"

text \<open>A constructor forwards along a list of paths when every open path among them leads to a section built with the file.\<close>

definition forwards :: "('v kwargs \<Rightarrow> py_error + 'v arg) \<Rightarrow> string list list \<Rightarrow> bool" where
  "forwards build paths \<longleftrightarrow>
     (\<forall>data f b. dict_get data ''_env_file'' = Some f \<longrightarrow> build data = Inr b \<longrightarrow>
        (\<exists>cls kw. b = Built cls kw \<and> dict_get kw ''_env_file'' = Some f \<and>
           (\<forall>p \<in> set paths. open_path p data \<longrightarrow>
              (\<exists>cls' kw'. section_at p kw = Some (Built cls' kw') \<and> dict_get kw' ''_env_file'' = Some f))))"

lemma forwards_plain: "forwards (plain_init cls) []"
  by (simp add: forwards_def plain_init_def)

lemma forward_section:
  assumes fw: "forwards build paths" and step: "forward_env_file build f n data = Inr d"
    and op: "open_path (n # p) data" and p: "p = [] \<or> p \<in> set paths \<and> hd p \<noteq> ''_env_file''"
  shows "\<exists>cls kw. section_at (n # p) d = Some (Built cls kw) \<and> dict_get kw ''_env_file'' = Some f"
proof -
  have "\<exists>args b. build args = Inr b \<and> dict_get d n = Some b \<and> dict_get args ''_env_file'' = Some f \<and> open_path p args"
  proof (cases "dict_get data n")
    case None
    moreover have "open_path p [(''_env_file'', f)]" using p by (cases p) auto
    ultimately show ?thesis using forward_missing[OF step None] by fastforce
  next
    case (Some a)
    then obtain kw where kw: "a = DictArg kw" "open_path p kw" using op by (cases a) auto
    moreover have "open_path p ((''_env_file'', f) # kw)" using p kw(2) by (cases p) auto
    ultimately show ?thesis using forward_dict[OF step, of kw] Some by fastforce
  qed
  then obtain args b where b: "build args = Inr b" "dict_get d n = Some b" "dict_get args ''_env_file'' = Some f"
    "open_path p args" by blast
  obtain cls kw where kw: "b = Built cls kw" "dict_get kw ''_env_file'' = Some f"
    "p \<in> set paths \<longrightarrow> (\<exists>cls' kw'. section_at p kw = Some (Built cls' kw') \<and> dict_get kw' ''_env_file'' = Some f)"
    using fw b(1,3,4) unfolding forwards_def by blast
  show ?thesis using p b(2) kw by (cases p) auto
qed

lemma forwards_execution: "forwards execution_config_init [[''process_config'']]"
proof -
  have "\<exists>cls' kw'. section_at [''process_config''] kw = Some (Built cls' kw') \<and> dict_get kw' ''_env_file'' = Some f"
    if "forward_env_file (plain_init ProcessConfig) f ''process_config'' data = Inr kw" "open_path [''process_config''] data"
    for data kw :: "'v kwargs" and f
    using forward_section[OF forwards_plain that(1), of "[]"] that(2) by blast
  then show ?thesis
    by (fastforce simp: forwards_def execution_config_init_def dest: forward_other[where k = "''_env_file''"] split: sum.splits)
qed

lemma section_other: "n \<noteq> k \<Longrightarrow> (\<And>x. x \<noteq> n \<Longrightarrow> dict_get d x = dict_get e x) \<Longrightarrow> section_at (k # p) d = section_at (k # p) e"
  by (cases p) auto

lemma open_other: "n \<noteq> k \<Longrightarrow> (\<And>x. x \<noteq> n \<Longrightarrow> dict_get d x = dict_get e x) \<Longrightarrow> open_path (k # p) d = open_path (k # p) e"
  by auto

abbreviation parallel_paths :: "string list list" where
  "parallel_paths \<equiv> [[''execution''], [''execution'', ''process_config''], [''commit_coordinator'']]"

lemma forwards_parallel: "forwards parallel_consumer_config_init parallel_paths"
  unfolding forwards_def
proof (intro allI impI)
  fix data :: "'v kwargs" and f b
  assume env: "dict_get data ''_env_file'' = Some f" and init: "parallel_consumer_config_init data = Inr b"
  from init env obtain d1 d2 where
    d1: "forward_env_file execution_config_init f ''execution'' data = Inr d1" and
    d2: "forward_env_file (plain_init CommitCoordinatorConfig) f ''commit_coordinator'' d1 = Inr d2" and
    b: "b = Built ParallelConsumerConfig d2"
    by (auto simp: parallel_consumer_config_init_def split: sum.splits)
  note o1 = forward_other[OF d1] and o2 = forward_other[OF d2]
  have "\<exists>cls kw. section_at p d2 = Some (Built cls kw) \<and> dict_get kw ''_env_file'' = Some f"
    if pp: "p \<in> set parallel_paths" and op: "open_path p data" for p
  proof -
    consider "p = [''execution'']" | "p = [''execution'', ''process_config'']" | "p = [''commit_coordinator'']"
      using pp by auto
    then show ?thesis
    proof cases
      case 3
      then have "open_path p d1" using op o1 by simp
      then show ?thesis using forward_section[OF forwards_plain d2, of "[]"] 3 by simp
    next
      case 1
      then show ?thesis using forward_section[OF forwards_execution d1, of "[]"] op o2 by simp
    next
      case 2
      have "\<exists>cls kw. section_at p d1 = Some (Built cls kw) \<and> dict_get kw ''_env_file'' = Some f"
        using forward_section[OF forwards_execution d1, of "[''process_config'']"] op 2 by simp
      moreover have "section_at p d2 = section_at p d1" using 2 o2 by simp
      ultimately show ?thesis by simp
    qed
  qed
  moreover have "dict_get d2 ''_env_file'' = Some f" using o1 o2 env by simp
  ultimately show "\<exists>cls kw. b = Built cls kw \<and> dict_get kw ''_env_file'' = Some f \<and>
      (\<forall>p\<in>set parallel_paths. open_path p data \<longrightarrow>
        (\<exists>cls' kw'. section_at p kw = Some (Built cls' kw') \<and> dict_get kw' ''_env_file'' = Some f))"
    using b by blast
qed

abbreviation kafka_paths :: "string list list" where
  "kafka_paths \<equiv> [''metrics''] # [''parallel_consumer''] # map ((#) ''parallel_consumer'') parallel_paths"

lemma kafka_forwards:
  assumes env: "dict_get data ''_env_file'' = Some f" and init: "kafka_config_init data = Inr d"
    and p: "p \<in> set kafka_paths" "open_path p data"
  shows "\<exists>cls kw. section_at p d = Some (Built cls kw) \<and> dict_get kw ''_env_file'' = Some f"
proof -
  obtain d1 where
    d1: "forward_env_file (plain_init MetricsConfig) f ''metrics'' data = Inr d1" and
    d2: "forward_env_file parallel_consumer_config_init f ''parallel_consumer'' d1 = Inr d"
    using init env by (auto simp: kafka_config_init_def split: sum.splits)
  note o1 = forward_other[OF d1] and o2 = forward_other[OF d2]
  show ?thesis
  proof (cases "p = [''metrics'']")
    case True
    then show ?thesis using forward_section[OF forwards_plain d1, of "[]"] p(2) o2 by simp
  next
    case False
    then obtain q where q: "p = ''parallel_consumer'' # q" "q = [] \<or> q \<in> set parallel_paths" using p(1) by auto
    have "open_path p d1" using p(2) o1 by (simp add: q(1))
    moreover have "q = [] \<or> q \<in> set parallel_paths \<and> hd q \<noteq> ''_env_file''" using q(2) by auto
    ultimately show ?thesis using forward_section[OF forwards_parallel d2, of q] q(1) by simp
  qed
qed

section \<open>Client configurations\<close>

lemma fold_map_filter: "fold g (List.map_filter f xs) = fold (\<lambda>x. case f x of None \<Rightarrow> id | Some y \<Rightarrow> g y) xs"
  by (induction xs) (auto simp: List.map_filter_simps fun_eq_iff split: option.splits)

text \<open>An entry of a configuration that may be absent.\<close>

fun set_opt :: "string \<times> setting_value option \<Rightarrow> conf \<Rightarrow> conf" where
  "set_opt (k, None) d = d"
| "set_opt (k, Some v) d = dict_set k v d"

definition security_entries :: "kafka_settings \<Rightarrow> (string \<times> setting_value option) list" where
  "security_entries c =
     [(''security.protocol'', map_option SvStr (ks_security_protocol c)),
      (''sasl.mechanisms'', map_option SvStr (ks_sasl_mechanisms c)),
      (''sasl.username'', map_option SvStr (ks_sasl_username c)),
      (''sasl.password'', map_option (\<lambda>s. SvStr (get_secret_value s)) (ks_sasl_password c)),
      (''ssl.ca.location'', map_option SvStr (ks_ssl_ca_location c)),
      (''ssl.certificate.location'', map_option SvStr (ks_ssl_certificate_location c)),
      (''ssl.key.location'', map_option SvStr (ks_ssl_key_location c)),
      (''ssl.key.password'', map_option (\<lambda>s. SvStr (get_secret_value s)) (ks_ssl_key_password c))]"

definition entries_get :: "(string \<times> setting_value option) list \<Rightarrow> string \<Rightarrow> setting_value option" where
  "entries_get es k = (case map_of es k of None \<Rightarrow> None | Some v \<Rightarrow> v)"

lemma fold_set_opt_get:
  assumes "distinct (map fst es)"
  shows "dict_get (fold set_opt es d) k = (case entries_get es k of None \<Rightarrow> dict_get d k | Some v \<Rightarrow> Some v)"
  using assms
proof (induction es arbitrary: d)
  case Nil
  then show ?case by (simp add: entries_get_def)
next
  case (Cons e es)
  obtain n v where e: "e = (n, v)" by (cases e)
  have notin: "map_of es n = None" using Cons.prems e by (simp add: map_of_eq_None_iff)
  show ?case
    by (cases v; cases "k = n") (use notin Cons in \<open>auto simp: e entries_get_def dict_get_set split: option.splits\<close>)
qed

lemma security_distinct [simp]: "distinct (map fst (security_entries c))"
  by (simp add: security_entries_def)

definition revealed :: "(string \<times> setting_value option) \<Rightarrow> (string \<times> setting_value option)" where
  "revealed = (\<lambda>(k, v). (rdkafka_key k, map_option reveal v))"

lemma security_config_fold: "get_security_config c = fold set_opt (security_entries c) []"
proof -
  have "(\<lambda>(field_name, config_key) security_config.
             case dict_get_default (model_fields c) field_name None of
               None \<Rightarrow> security_config
             | Some v \<Rightarrow> dict_set config_key (reveal v) security_config) =
        set_opt \<circ> (\<lambda>(n, k). (k, map_option reveal (dict_get_default (model_fields c) n None)))"
    by (auto simp: fun_eq_iff split: option.splits)
  then have "get_security_config c =
      fold set_opt (map (\<lambda>(n, k). (k, map_option reveal (dict_get_default (model_fields c) n None))) field_to_config_key) []"
    by (simp add: get_security_config_def fold_map)
  also have "map (\<lambda>(n, k). (k, map_option reveal (dict_get_default (model_fields c) n None))) field_to_config_key
      = security_entries c"
    by (simp add: field_to_config_key_def security_entries_def dict_get_default_def model_fields_def option.map_comp comp_def)
  finally show ?thesis .
qed

lemma dict_update_get:
  assumes "dict_wf e"
  shows "dict_get (dict_update d e) k = (case dict_get e k of None \<Rightarrow> dict_get d k | Some v \<Rightarrow> Some v)"
  using assms
proof (induction e arbitrary: d)
  case Nil
  then show ?case by (simp add: dict_update_def)
next
  case (Cons x e)
  then have "dict_wf e" "dict_get e (fst x) = None" by (simp_all add: dict_wf_def map_of_eq_None_iff)
  then show ?case
    using Cons.IH[of "dict_set (fst x) (snd x) d"]
    by (cases x) (auto simp: dict_update_def dict_get_set split: option.splits)
qed

lemma fold_set_opt_wf: "dict_wf d \<Longrightarrow> dict_wf (fold set_opt es d)"
proof (induction es arbitrary: d)
  case (Cons e es)
  then show ?case by (cases e; cases "snd e") auto
qed simp

lemma security_config_get: "dict_get (get_security_config c) k = entries_get (security_entries c) k"
  by (simp add: security_config_fold fold_set_opt_get split: option.splits)

lemma update_security:
  "dict_get (dict_update d (get_security_config c)) k =
    (case entries_get (security_entries c) k of None \<Rightarrow> dict_get d k | Some v \<Rightarrow> Some v)"
  by (simp add: dict_update_get security_config_fold fold_set_opt_wf)
     (simp flip: security_config_fold add: security_config_get)

definition dumped_entries :: "bool \<Rightarrow> kafka_settings \<Rightarrow> (string \<times> setting_value option) list" where
  "dumped_entries include_secrets c =
     map revealed (filter (\<lambda>(k, v). k \<notin> set (rdkafka_exclude include_secrets)) (model_fields c))"

lemma dump_fold:
  "fold (\<lambda>(k, v) conf. if k \<in> set (rdkafka_exclude include_secrets) then conf
           else dict_set (rdkafka_key k) (reveal v) conf) (model_dump_exclude_none c) d
    = fold set_opt (dumped_entries include_secrets c) d"
proof -
  have "(\<lambda>x. case (case x of (k, v) \<Rightarrow> map_option (Pair k) v) of None \<Rightarrow> id
           | Some y \<Rightarrow> (\<lambda>(k, v) conf. if k \<in> set (rdkafka_exclude include_secrets) then conf
                else dict_set (rdkafka_key k) (reveal v) conf) y)
    = (\<lambda>x. if (\<lambda>(k, v). k \<notin> set (rdkafka_exclude include_secrets)) x then set_opt (revealed x) else id)"
    by (auto simp: fun_eq_iff revealed_def split: option.splits)
  then show ?thesis
    by (simp add: model_dump_exclude_none_def fold_map_filter dumped_entries_def fold_map fold_filter comp_def)
qed

lemma dumped_secrets: "dumped_entries True c = security_entries c"
  by (simp add: dumped_entries_def model_fields_def rdkafka_exclude_def revealed_def security_entries_def
      rdkafka_key_def option.map_comp comp_def)

lemma dumped_redacted:
  "dumped_entries False c =
     filter (\<lambda>(k, v). k \<noteq> ''sasl.password'' \<and> k \<noteq> ''ssl.key.password'') (security_entries c)"
  by (simp add: dumped_entries_def model_fields_def rdkafka_exclude_def revealed_def security_entries_def
      rdkafka_key_def option.map_comp comp_def)

lemma build_rdkafka_get:
  assumes "build_rdkafka_config secrets c = Inr d" "ks_model_extra c = None"
  shows "\<exists>csv. bootstrap_servers_csv c = Inr csv \<and>
    (\<forall>k. dict_get d k = (case entries_get (dumped_entries secrets c) k of
        None \<Rightarrow> dict_get [(''bootstrap.servers'', SvStr csv)] k | Some v \<Rightarrow> Some v))"
proof -
  have "distinct (map fst (dumped_entries secrets c))"
    by (cases secrets) (simp_all add: dumped_secrets dumped_redacted, simp add: security_entries_def)
  then show ?thesis
    using assms by (auto simp: build_rdkafka_config_def dump_fold fold_set_opt_get split: sum.splits)
qed

lemma entries_get_filter: "entries_get (filter (\<lambda>(k, v). P k) es) k = (if P k then entries_get es k else None)"
  unfolding entries_get_def by (induction es) auto

section \<open>Properties\<close>

text \<open>The generic dump of the settings with secrets is the configuration of the admin client:
  both raise together, and where they return, the dictionaries agree on every key.\<close>

theorem rdkafka_config_is_admin_config:
  assumes "ks_model_extra c = None"
  shows "map_sum id map_of (get_rdkafka_config c) = map_sum id map_of (get_admin_config c)"
proof (cases "get_rdkafka_config c")
  case (Inl e)
  then show ?thesis by (auto simp: get_rdkafka_config_def build_rdkafka_config_def get_admin_config_def Let_def split: sum.splits)
next
  case (Inr d)
  obtain csv where csv: "bootstrap_servers_csv c = Inr csv"
    "dict_get d k = (case entries_get (security_entries c) k of
        None \<Rightarrow> dict_get [(''bootstrap.servers'', SvStr csv)] k | Some v \<Rightarrow> Some v)" for k
    using build_rdkafka_get[of True c d] Inr assms by (auto simp: get_rdkafka_config_def dumped_secrets)
  then show ?thesis by (simp add: Inr get_admin_config_def fun_eq_iff update_security)
qed

text \<open>The redacted dump is what it says: it does not depend on the two passwords, whatever
  else is set, and apart from the two password entries it has exactly the entries of the full dump.\<close>

theorem redacted_dump_reveals_nothing:
  "dump_to_rdkafka (c\<lparr>ks_sasl_password := p, ks_ssl_key_password := q\<rparr>) = dump_to_rdkafka c \<and>
   (ks_model_extra c = None \<longrightarrow> dump_to_rdkafka c = Inr d \<longrightarrow>
     (\<exists>full. get_rdkafka_config c = Inr full \<and>
       map_of d = (map_of full)(''sasl.password'' := None, ''ssl.key.password'' := None)))"
proof (intro conjI impI)
  show "dump_to_rdkafka (c\<lparr>ks_sasl_password := p, ks_ssl_key_password := q\<rparr>) = dump_to_rdkafka c"
    unfolding dump_to_rdkafka_def build_rdkafka_config_def dump_fold dumped_redacted
    by (simp add: security_entries_def bootstrap_servers_csv_def Let_def split: sum.split)
next
  assume extra: "ks_model_extra c = None" and dump: "dump_to_rdkafka c = Inr d"
  obtain csv where csv: "bootstrap_servers_csv c = Inr csv"
    "dict_get d k = (case entries_get (dumped_entries False c) k of
        None \<Rightarrow> dict_get [(''bootstrap.servers'', SvStr csv)] k | Some v \<Rightarrow> Some v)" for k
    using build_rdkafka_get[of False c d] dump extra by (auto simp: dump_to_rdkafka_def)
  then obtain full where full: "get_rdkafka_config c = Inr full"
    using extra by (simp add: get_rdkafka_config_def build_rdkafka_config_def)
  have "dict_get full k = (case entries_get (security_entries c) k of
        None \<Rightarrow> dict_get [(''bootstrap.servers'', SvStr csv)] k | Some v \<Rightarrow> Some v)" for k
    using build_rdkafka_get[of True c full] full extra csv(1) by (auto simp: get_rdkafka_config_def dumped_secrets)
  then have "map_of d = (map_of full)(''sasl.password'' := None, ''ssl.key.password'' := None)"
    unfolding fun_eq_iff by (auto simp: csv(2) dumped_redacted entries_get_filter)
  with full show "\<exists>full. get_rdkafka_config c = Inr full \<and>
       map_of d = (map_of full)(''sasl.password'' := None, ''ssl.key.password'' := None)" by blast
qed

text \<open>What \<open>bootstrap_servers\<close> prints it parses back: every string parses, the comma-separated
  list handed to Kafka parses to the same servers, and after a write through the upper-case alias a
  read gives the servers that were written.\<close>

theorem bootstrap_servers_roundtrip:
  "(\<exists>servers. parse_bootstrap_servers (RvStr v) = Inr servers \<and>
      parse_bootstrap_servers (RvStr (str_join '','' servers)) = Inr servers) \<and>
   (set_BOOTSTRAP_SERVERS raw c = Inr c' \<longrightarrow> get_BOOTSTRAP_SERVERS c' = parse_bootstrap_servers raw)"
proof
  have "stripped_nonempty (str_split CHR '','' (str_join '','' (stripped_nonempty (str_split CHR '','' v))))
      = stripped_nonempty (str_split CHR '','' v)"
    by (rule stripped_nonempty_join) (blast dest: str_split_sep_free)
  then show "\<exists>servers. parse_bootstrap_servers (RvStr v) = Inr servers \<and>
      parse_bootstrap_servers (RvStr (str_join '','' servers)) = Inr servers" by simp
next
  have idem: "parse_bootstrap_servers (RvList (map RvStr servers)) = Inr servers"
    if "parse_bootstrap_servers raw = Inr servers" for servers
  proof -
    have "List.map_filter raw_str (map RvStr servers) = servers"
      by (induction servers) (simp_all add: List.map_filter_simps)
    moreover have "\<not> list_ex (\<lambda>item. raw_str item = None) (map RvStr servers)" by (simp add: list_ex_iff)
    moreover have "stripped_nonempty servers = servers" using that by (cases raw) (auto split: if_splits)
    ultimately show ?thesis by simp
  qed
  then show "set_BOOTSTRAP_SERVERS raw c = Inr c' \<longrightarrow> get_BOOTSTRAP_SERVERS c' = parse_bootstrap_servers raw"
    by (auto simp: set_BOOTSTRAP_SERVERS_def get_BOOTSTRAP_SERVERS_def simp del: parse_bootstrap_servers.simps split: sum.splits)
qed

text \<open>The value of a mode, padded and followed by a comment, is read as that mode.\<close>

lemma enum_values_clean:
  "list_all (\<lambda>ch. \<not> is_str_space ch \<and> ch \<noteq> CHR ''#'') (execution_mode_value m)"
  "list_all (\<lambda>ch. \<not> is_str_space ch \<and> ch \<noteq> CHR ''#'') (ordering_mode_value o')"
  "list_all (\<lambda>ch. \<not> is_str_space ch \<and> ch \<noteq> CHR ''#'') (dlq_payload_mode_value q)"
proof -
  show "list_all (\<lambda>ch. \<not> is_str_space ch \<and> ch \<noteq> CHR ''#'') (execution_mode_value m)"
    by (cases m) (simp_all add: is_str_space_def is_space_def)
  show "list_all (\<lambda>ch. \<not> is_str_space ch \<and> ch \<noteq> CHR ''#'') (ordering_mode_value o')"
    by (cases o') (simp_all add: is_str_space_def is_space_def)
  show "list_all (\<lambda>ch. \<not> is_str_space ch \<and> ch \<noteq> CHR ''#'') (dlq_payload_mode_value q)"
    by (cases q) (simp_all add: is_str_space_def is_space_def)
qed

lemma commented_mode_read:
  assumes "list_all is_str_space pad" "CHR ''#'' \<notin> set pad"
  shows "normalize_mode (RawStr (execution_mode_value m @ pad @ CHR ''#'' # rest)) = Inr m"
    "normalize_ordering_mode (RawStr (ordering_mode_value o' @ pad @ CHR ''#'' # rest)) = Inr o'"
    "normalize_dlq_mode (RawStr (dlq_payload_mode_value q @ pad @ CHR ''#'' # rest)) = Inr q"
proof -
  note clean = clean_setting_comment[OF enum_values_clean(1) assms] clean_setting_comment[OF enum_values_clean(2) assms]
    clean_setting_comment[OF enum_values_clean(3) assms]
  note defs = execution_mode_of_def ordering_mode_of_def dlq_payload_mode_of_def enum_of_value_def
  have "execution_mode_of (execution_mode_value m) = Inr m" by (cases m) (simp_all add: defs)
  then show "normalize_mode (RawStr (execution_mode_value m @ pad @ CHR ''#'' # rest)) = Inr m" by (simp add: clean)
  have "ordering_mode_of (ordering_mode_value o') = Inr o'" by (cases o') (simp_all add: defs)
  then show "normalize_ordering_mode (RawStr (ordering_mode_value o' @ pad @ CHR ''#'' # rest)) = Inr o'" by (simp add: clean)
  have "dlq_payload_mode_of (dlq_payload_mode_value q) = Inr q" by (cases q) (simp_all add: defs)
  then show "normalize_dlq_mode (RawStr (dlq_payload_mode_value q @ pad @ CHR ''#'' # rest)) = Inr q" by (simp add: clean)
qed

text \<open>An explicit environment file reaches every section the constructors forward it to, however
  deep, as long as the caller put no ready-made object on the way to it: the section handed to Pydantic is
  built with that file.\<close>

theorem env_file_reaches_sections:
  assumes "dict_get data ''_env_file'' = Some f" "kafka_config_init data = Inr d"
    and "p \<in> set [[''metrics''], [''parallel_consumer''], [''parallel_consumer'', ''execution''],
           [''parallel_consumer'', ''execution'', ''process_config''], [''parallel_consumer'', ''commit_coordinator'']]"
    and "open_path p data"
  shows "\<exists>cls kw. section_at p d = Some (Built cls kw) \<and> dict_get kw ''_env_file'' = Some f"
  by (rule kafka_forwards[OF assms(1,2) _ assms(4)]) (use assms(3) in auto)

text \<open>The adaptive and poison sections are not among them: they are handed on as the caller gave them.\<close>

lemma adaptive_sections_not_forwarded:
  assumes "dict_get data ''_env_file'' = Some f" "parallel_consumer_config_init data = Inr (Built cls kw)"
    and "n \<in> set [''adaptive_backpressure'', ''adaptive_concurrency'', ''poison_message'']"
  shows "dict_get kw n = dict_get data n"
  using assms
  by (auto simp: parallel_consumer_config_init_def dest!: forward_other[where k = n] split: sum.splits)

definition backpressure_attrs :: "backpressure_config \<Rightarrow> loose" where
  "backpressure_attrs c = map_of
     [(''enabled'', AttrBool (ab_enabled c)), (''min_in_flight'', AttrInt (ab_min_in_flight c)),
      (''scale_up_step'', AttrInt (ab_scale_up_step c)), (''scale_down_step'', AttrInt (ab_scale_down_step c)),
      (''cooldown_ms'', AttrInt (ab_cooldown_ms c)),
      (''lag_scale_up_threshold'', AttrInt (ab_lag_scale_up_threshold c)),
      (''low_latency_threshold_ms'', AttrFloat (ab_low_latency_threshold_ms c)),
      (''high_latency_threshold_ms'', AttrFloat (ab_high_latency_threshold_ms c))]"

definition concurrency_attrs :: "concurrency_config \<Rightarrow> loose" where
  "concurrency_attrs c = map_of
     [(''enabled'', AttrBool (ac_enabled c)), (''min_in_flight'', AttrInt (ac_min_in_flight c)),
      (''scale_up_step'', AttrInt (ac_scale_up_step c)), (''scale_down_step'', AttrInt (ac_scale_down_step c)),
      (''cooldown_ms'', AttrInt (ac_cooldown_ms c))]"

lemmas coercion_defs = coerce_adaptive_backpressure_config_def coerce_adaptive_concurrency_config_def Let_def
  coerce_bool_def coerce_int_def coerce_float_def getattr_default_def backpressure_attrs_def concurrency_attrs_def

lemma coerce_backpressure_id:
  "coerce_adaptive_backpressure_config (backpressure_attrs b) = (if backpressure_config_ok b then Inr b else Inl ValueError)"
  by (cases b) (simp add: coercion_defs)

lemma coerce_concurrency_id:
  "coerce_adaptive_concurrency_config (Some (concurrency_attrs k)) = (if concurrency_config_ok k then Inr k else Inl ValueError)"
  by (cases k) (simp add: coercion_defs)

text \<open>Coercing a loose settings object never yields invalid settings, and leaves settings that are
  valid as they are; without any attribute it yields the declared defaults.\<close>

theorem loose_settings_coerced:
  "(coerce_adaptive_backpressure_config raw = Inr b \<longrightarrow> backpressure_config_ok b) \<and>
   (coerce_adaptive_concurrency_config child = Inr k \<longrightarrow> concurrency_config_ok k) \<and>
   coerce_adaptive_backpressure_config (backpressure_attrs b0) =
     (if backpressure_config_ok b0 then Inr b0 else Inl ValueError) \<and>
   coerce_adaptive_concurrency_config (Some (concurrency_attrs k0)) =
     (if concurrency_config_ok k0 then Inr k0 else Inl ValueError) \<and>
   coerce_adaptive_backpressure_config Map.empty = Inr default_backpressure_config \<and>
   coerce_adaptive_concurrency_config None = Inr default_concurrency_config"
proof (intro conjI)
  show "coerce_adaptive_backpressure_config raw = Inr b \<longrightarrow> backpressure_config_ok b"
    by (auto simp: coerce_adaptive_backpressure_config_def Let_def split: if_splits)
  show "coerce_adaptive_concurrency_config child = Inr k \<longrightarrow> concurrency_config_ok k"
    by (auto simp: coerce_adaptive_concurrency_config_def Let_def split: if_splits)
  show "coerce_adaptive_backpressure_config (backpressure_attrs b0) =
     (if backpressure_config_ok b0 then Inr b0 else Inl ValueError)" by (rule coerce_backpressure_id)
  show "coerce_adaptive_concurrency_config (Some (concurrency_attrs k0)) =
     (if concurrency_config_ok k0 then Inr k0 else Inl ValueError)" by (rule coerce_concurrency_id)
  show "coerce_adaptive_backpressure_config Map.empty = Inr default_backpressure_config"
    by (simp add: coercion_defs flip: default_backpressure_config_def)
  show "coerce_adaptive_concurrency_config None = Inr default_concurrency_config"
    by (simp add: coercion_defs flip: default_concurrency_config_def)
qed

section \<open>Witnesses\<close>

definition demo_kafka :: kafka_settings where
  "demo_kafka = default_kafka_settings\<lparr>ks_security_protocol := Some ''SASL_SSL'', ks_sasl_username := Some ''app'',
     ks_sasl_password := Some (SecretStr ''pw'')\<rparr>"

lemma demo_kafka_csv: "bootstrap_servers_csv demo_kafka = Inr ''localhost:9092''"
  by (simp add: demo_kafka_def default_kafka_settings_def bootstrap_servers_csv_def stripped_nonempty_def
      List.map_filter_simps strip_def is_str_space_def is_space_def)

theorem rdkafka_config_is_admin_config_witness:
  "ks_model_extra demo_kafka = None \<and>
   (\<exists>d. get_rdkafka_config demo_kafka = Inr d \<and> dict_get d ''sasl.password'' = Some (SvStr ''pw'')) \<and>
   map_sum id map_of (get_rdkafka_config demo_kafka) = map_sum id map_of (get_admin_config demo_kafka)"
proof (intro conjI)
  show e: "ks_model_extra demo_kafka = None" by (simp add: demo_kafka_def default_kafka_settings_def)
  show eq: "map_sum id map_of (get_rdkafka_config demo_kafka) = map_sum id map_of (get_admin_config demo_kafka)"
    by (rule rdkafka_config_is_admin_config[OF e])
  obtain d where d: "get_rdkafka_config demo_kafka = Inr d"
    using e by (simp add: get_rdkafka_config_def build_rdkafka_config_def demo_kafka_csv)
  moreover have "map_of d ''sasl.password'' = Some (SvStr ''pw'')"
    using eq by (simp add: d get_admin_config_def demo_kafka_csv update_security)
      (simp add: entries_get_def security_entries_def demo_kafka_def default_kafka_settings_def)
  ultimately show "\<exists>d. get_rdkafka_config demo_kafka = Inr d \<and> dict_get d ''sasl.password'' = Some (SvStr ''pw'')" by blast
qed

theorem redacted_dump_reveals_nothing_witness:
  "\<exists>d full. dump_to_rdkafka demo_kafka = Inr d \<and> get_rdkafka_config demo_kafka = Inr full \<and>
     map_of d = (map_of full)(''sasl.password'' := None, ''ssl.key.password'' := None)"
proof -
  have e: "ks_model_extra demo_kafka = None" by (simp add: demo_kafka_def default_kafka_settings_def)
  obtain d where d: "dump_to_rdkafka demo_kafka = Inr d"
    using e by (simp add: dump_to_rdkafka_def build_rdkafka_config_def demo_kafka_csv)
  show ?thesis
    using redacted_dump_reveals_nothing[where c = demo_kafka and d = d] d e by blast
qed

theorem bootstrap_servers_roundtrip_witness:
  "set_BOOTSTRAP_SERVERS (RvStr '' a:1,,b:2 '') demo_kafka =
     Inr (demo_kafka\<lparr>ks_bootstrap_servers := RvList [RvStr ''a:1'', RvStr ''b:2'']\<rparr>) \<and>
   get_BOOTSTRAP_SERVERS (demo_kafka\<lparr>ks_bootstrap_servers := RvList [RvStr ''a:1'', RvStr ''b:2'']\<rparr>) =
     parse_bootstrap_servers (RvStr '' a:1,,b:2 '')"
proof -
  have "set_BOOTSTRAP_SERVERS (RvStr '' a:1,,b:2 '') demo_kafka =
     Inr (demo_kafka\<lparr>ks_bootstrap_servers := RvList [RvStr ''a:1'', RvStr ''b:2'']\<rparr>)"
    by (simp add: set_BOOTSTRAP_SERVERS_def stripped_nonempty_def strip_def is_str_space_def is_space_def)
  then show ?thesis using bootstrap_servers_roundtrip by blast
qed

definition demo_kwargs :: "unit kwargs" where
  "demo_kwargs = [(''_env_file'', EnvFile (Some ''prod.env'')),
     (''parallel_consumer'', DictArg [(''execution'', DictArg [(''mode'', Leaf ())])])]"

theorem env_file_reaches_sections_witness:
  "\<exists>d cls kw. kafka_config_init demo_kwargs = Inr d \<and>
     section_at [''parallel_consumer'', ''execution'', ''process_config''] d = Some (Built cls kw) \<and>
     dict_get kw ''_env_file'' = Some (EnvFile (Some ''prod.env''))"
proof -
  obtain d where d: "kafka_config_init demo_kwargs = Inr d"
    by (simp add: kafka_config_init_def demo_kwargs_def forward_env_file_def plain_init_def with_env_file_def
        dict_has_def parallel_consumer_config_init_def execution_config_init_def)
  have "dict_get demo_kwargs ''_env_file'' = Some (EnvFile (Some ''prod.env''))"
    "open_path [''parallel_consumer'', ''execution'', ''process_config''] demo_kwargs"
    by (simp_all add: demo_kwargs_def)
  then show ?thesis
    using env_file_reaches_sections[OF _ d, of _ "[''parallel_consumer'', ''execution'', ''process_config'']"] d by auto
qed

theorem loose_settings_coerced_witness:
  "coerce_adaptive_backpressure_config [''cooldown_ms'' \<mapsto> AttrFloat (5 / 2), ''enabled'' \<mapsto> AttrInt 1] =
     Inr (default_backpressure_config\<lparr>ab_cooldown_ms := 2\<rparr>) \<and>
   backpressure_config_ok (default_backpressure_config\<lparr>ab_cooldown_ms := 2\<rparr>)"
proof -
  have "coerce_adaptive_backpressure_config [''cooldown_ms'' \<mapsto> AttrFloat (5 / 2), ''enabled'' \<mapsto> AttrInt 1] =
     Inr (default_backpressure_config\<lparr>ab_cooldown_ms := 2\<rparr>)"
    by (simp add: coerce_adaptive_backpressure_config_def coerce_bool_def coerce_int_def coerce_float_def
        getattr_default_def int_of_float_def default_backpressure_config_def backpressure_config_ok_def)
  then show ?thesis using loose_settings_coerced by blast
qed

end
