(* ===== verification/Consumer_Facade.thy ===== *)
theory Consumer_Facade
  imports Configuration Work_Manager
begin

text \<open>
  The facade of \<open>consumer.py\<close> with \<open>execution_plane/engine_factory.py\<close> and the constructor of
  \<open>control_plane/broker_poller.py\<close>: how the settings become an engine, a work manager and a poller,
  and how the consumers of a process share one metrics exporter per port.

  A worker function is what the factory asks about it: whether it, or its \<open>__call__\<close>, is a coroutine
  function, and whether it can be pickled. Starting the worker processes and the Kafka clients
  are outside; what the poller and the engine do when the facade calls them is an argument
  (\<open>outcomes\<close>).
\<close>

section \<open>The engine\<close>

record worker_fn =
  wf_is_coroutine_function :: bool
  wf_call_is_coroutine_function :: bool
  wf_picklable :: bool

definition is_async_worker :: "worker_fn \<Rightarrow> bool" where
  "is_async_worker w \<longleftrightarrow> (if wf_is_coroutine_function w then True else wf_call_is_coroutine_function w)"

definition ensure_worker_matches_mode :: "execution_settings \<Rightarrow> worker_fn \<Rightarrow> py_error + unit" where
  "ensure_worker_matches_mode config w =
     (case es_mode config of
        ASYNC \<Rightarrow> if \<not> is_async_worker w then Inl TypeError else Inr ()
      | PROCESS \<Rightarrow>
          if is_async_worker w then Inl TypeError
          else if ps_require_picklable_worker (es_process_config config) \<and> \<not> wf_picklable w then Inl TypeError
          else Inr ())"

datatype ('k, 'p, 'q) engine =
    AsyncExecutionEngine "('k, 'p) async_engine"
  | ProcessExecutionEngine "('k, 'p, 'q) process_engine"

text \<open>\<open>ProcessExecutionEngine.__init__\<close> checks the worker again, then the transport settings.\<close>

definition process_execution_engine :: "execution_settings \<Rightarrow> worker_fn \<Rightarrow> py_error + ('k, 'p, 'q) process_engine" where
  "process_execution_engine config w =
     (if wf_is_coroutine_function w \<or> wf_call_is_coroutine_function w then Inl TypeError
      else if ps_require_picklable_worker (es_process_config config) \<and> \<not> wf_picklable w then Inl TypeError
      else case validate_transport_config (process_config.truncate (es_process_config config)) of
             Inl e \<Rightarrow> Inl e
           | Inr _ \<Rightarrow> Inr (process_engine_init (ps_queue_size (es_process_config config))))"

definition create_execution_engine :: "execution_settings \<Rightarrow> worker_fn \<Rightarrow> py_error + ('k, 'p, 'q) engine" where
  "create_execution_engine config w =
     (case ensure_worker_matches_mode config w of
        Inl e \<Rightarrow> Inl e
      | Inr _ \<Rightarrow>
          (case es_mode config of
             ASYNC \<Rightarrow> map_sum id AsyncExecutionEngine (async_engine_init (exec_config.truncate config))
           | PROCESS \<Rightarrow> map_sum id ProcessExecutionEngine (process_execution_engine config w)))"

section \<open>The poller's constructor\<close>

record ('k, 'p, 's, 'c, 'e) poller =
  bp_batch_size :: int
  bp_worker_pool_size :: int
  bp_message_cache_max_bytes :: int
  bp_ordering_mode :: ordering_mode
  bp_consumer_task_stop_timeout_seconds :: real
  bp_work_manager :: "('k, 'p, 's, 'c, 'e) work_manager"
  bp_diag_log_every :: int
  bp_blocking_warn_seconds :: real
  bp_max_blocking_duration_ms :: int
  bp_limits :: limits
  bp_message_cache :: dlq_cache
  bp_pending_dlq_events :: "(cache_key, completion_event) dict"
  bp_dirty_commit_partitions :: "topic_partition set"
  bp_completions_since_last_commit :: int
  bp_commit_debounce_completion_threshold :: int
  bp_commit_debounce_interval_seconds :: real
  bp_commit_coordinator :: "coordinator option"

text \<open>The settings object as the resolvers see it.\<close>

definition execution_attrs :: "execution_settings \<Rightarrow> loose" where
  "execution_attrs c = [''max_in_flight'' \<mapsto> AttrInt (ex_max_in_flight c)]"

definition parallel_attrs :: "parallel_settings \<Rightarrow> loose" where
  "parallel_attrs c =
     [''ordering_mode'' \<mapsto> AttrMode (pl_ordering_mode c),
      ''commit_debounce_completion_threshold'' \<mapsto> AttrInt (pl_commit_debounce_completion_threshold c),
      ''commit_debounce_interval_ms'' \<mapsto> AttrInt (pl_commit_debounce_interval_ms c)]"

definition make_poison_circuit :: "parallel_settings \<Rightarrow> py_error + 'k poison_circuit" where
  "make_poison_circuit pc =
     poison_circuit_init (po_enabled (pl_poison_message pc)) (po_failure_threshold (pl_poison_message pc))
       (po_cooldown_ms (pl_poison_message pc)) (ex_max_retries (pl_execution pc))"

text \<open>
  \<open>work_manager = None\<close> makes the poller build its own, for which it needs the route batch size.
  The limit of a work manager that was handed in follows the poller's only when the latter moves.
\<close>

definition broker_poller_init ::
  "parallel_settings \<Rightarrow> 'e \<Rightarrow> ('k, 'p, 's, 'c, 'e) work_manager option \<Rightarrow> int option
    \<Rightarrow> py_error + ('k, 'p, 's, 'c, 'e) poller" where
  "broker_poller_init pc engine work_manager work_manager_route_batch_size =
     (case resolve_ordering_mode (parallel_attrs pc) of
        Inl e \<Rightarrow> Inl e
      | Inr config_ordering_mode \<Rightarrow>
      let configured_max_in_flight = resolve_configured_max_in_flight (execution_attrs (pl_execution pc));
          mode = (case work_manager of Some wm \<Rightarrow> wm_ordering_mode wm | None \<Rightarrow> config_ordering_mode)
      in case make_poison_circuit pc of
        Inl e \<Rightarrow> Inl e
      | Inr poison \<Rightarrow>
      case (case work_manager of
              Some wm \<Rightarrow> Inr wm
            | None \<Rightarrow>
                (case work_manager_route_batch_size of
                   None \<Rightarrow> Inl ValueError
                 | Some n \<Rightarrow>
                     work_manager_init engine configured_max_in_flight mode (pl_blocking_cache_ttl pc)
                       (es_max_revoke_grace_ms (pl_execution pc)) (Some poison) n)) of
        Inl e \<Rightarrow> Inl e
      | Inr wm \<Rightarrow>
      case coerce_adaptive_backpressure_config (backpressure_attrs (pl_adaptive_backpressure pc)) of
        Inl e \<Rightarrow> Inl e
      | Inr bcfg \<Rightarrow>
      case coerce_adaptive_concurrency_config (Some (concurrency_attrs (pl_adaptive_concurrency pc))) of
        Inl e \<Rightarrow> Inl e
      | Inr ccfg \<Rightarrow>
      Inr \<lparr>bp_batch_size = pl_poll_batch_size pc, bp_worker_pool_size = pl_worker_pool_size pc,
           bp_message_cache_max_bytes = pl_message_cache_max_bytes pc, bp_ordering_mode = mode,
           bp_consumer_task_stop_timeout_seconds = real_of_int (es_consumer_task_stop_timeout_ms (pl_execution pc)) / 1000,
           bp_work_manager = wm,
           bp_diag_log_every = (if pl_diag_log_every pc = 0 then 1000 else pl_diag_log_every pc),
           bp_blocking_warn_seconds = (if pl_blocking_warn_seconds pc = 0 then 5 else pl_blocking_warn_seconds pc),
           bp_max_blocking_duration_ms = pl_max_blocking_duration_ms pc,
           bp_limits = limits_init configured_max_in_flight (pl_queue_max_messages pc) bcfg ccfg,
           bp_message_cache = \<lparr>dc_message_cache = [], dc_size_bytes = 0\<rparr>, bp_pending_dlq_events = [],
           bp_dirty_commit_partitions = {}, bp_completions_since_last_commit = 0,
           bp_commit_debounce_completion_threshold = resolve_commit_debounce_completion_threshold (parallel_attrs pc),
           bp_commit_debounce_interval_seconds = resolve_commit_debounce_interval_seconds (parallel_attrs pc),
           bp_commit_coordinator = (if cs_enabled (pl_commit_coordinator pc) then Some coordinator_init else None)\<rparr>)"

section \<open>The facade's constructor\<close>

record ('k, 'p, 'q, 's, 'c) consumer =
  fc_engine :: "('k, 'p, 'q) engine"
  fc_poller :: "('k, 'p, 's, 'c, ('k, 'p, 'q) engine) poller"

definition pyrallel_consumer_init ::
  "kafka_settings \<Rightarrow> worker_fn \<Rightarrow> py_error + ('k, 'p, 'q, 's, 'c) consumer" where
  "pyrallel_consumer_init config w =
     (let pc = ks_parallel_consumer config; ec = pl_execution pc
      in case create_execution_engine ec w of
        Inl e \<Rightarrow> Inl e
      | Inr engine \<Rightarrow>
      case make_poison_circuit pc of
        Inl e \<Rightarrow> Inl e
      | Inr poison \<Rightarrow>
      case resolve_work_manager_route_batch_size pc of
        Inl e \<Rightarrow> Inl e
      | Inr n \<Rightarrow>
      case work_manager_init engine (max_in_flight_messages ec) (pl_ordering_mode pc) 100
             (es_max_revoke_grace_ms ec) (Some poison) n of
        Inl e \<Rightarrow> Inl e
      | Inr wm \<Rightarrow>
      case broker_poller_init pc engine (Some wm) None of
        Inl e \<Rightarrow> Inl e
      | Inr poller \<Rightarrow> Inr \<lparr>fc_engine = engine, fc_poller = poller\<rparr>)"

section \<open>Shared metrics exporters\<close>

text \<open>
  The module's two dictionaries. Exporters are numbered in the order they are created; creating one
  may fail (the port is taken), which leaves everything as it was.
\<close>

record exporters =
  xr_exporters :: "(int, nat) dict"
  xr_refcounts :: "(int, int) dict"
  xr_created :: nat
  xr_closed :: "nat list"

definition exporters_init :: exporters where
  "exporters_init = \<lparr>xr_exporters = [], xr_refcounts = [], xr_created = 0, xr_closed = []\<rparr>"

definition acquire_prometheus_exporter ::
  "bool \<Rightarrow> metrics_settings \<Rightarrow> exporters \<Rightarrow> py_error + (nat option \<times> exporters)" where
  "acquire_prometheus_exporter creatable cfg r =
     (if \<not> ms_enabled cfg then Inr (None, r)
      else
        case (case dict_get (xr_exporters r) (ms_port cfg) of
                Some x \<Rightarrow> Inr (x, r)
              | None \<Rightarrow>
                  if \<not> creatable then Inl RuntimeError
                  else Inr (xr_created r, r\<lparr>xr_exporters := dict_set (ms_port cfg) (xr_created r) (xr_exporters r),
                                           xr_created := xr_created r + 1\<rparr>)) of
          Inl e \<Rightarrow> Inl e
        | Inr (x, r1) \<Rightarrow>
            Inr (Some x, r1\<lparr>xr_refcounts :=
                   dict_set (ms_port cfg) (dict_get_default (xr_refcounts r1) (ms_port cfg) 0 + 1) (xr_refcounts r1)\<rparr>))"

definition release_prometheus_exporter :: "metrics_settings \<Rightarrow> nat option \<Rightarrow> exporters \<Rightarrow> exporters" where
  "release_prometheus_exporter cfg exporter r =
     (if exporter = None \<or> \<not> ms_enabled cfg then r
      else
        let port = ms_port cfg; refcount = dict_get_default (xr_refcounts r) port 0
        in if refcount \<le> 1
           then r\<lparr>xr_refcounts := dict_pop port (xr_refcounts r),
                  xr_exporters := dict_pop port (xr_exporters r),
                  xr_closed := (case dict_get (xr_exporters r) port of None \<Rightarrow> xr_closed r | Some x \<Rightarrow> xr_closed r @ [x])\<rparr>
           else r\<lparr>xr_refcounts := dict_set port (refcount - 1) (xr_refcounts r)\<rparr>)"

section \<open>Starting and stopping\<close>

text \<open>What the collaborators do when they are called: \<open>None\<close> returns, \<open>Some e\<close> raises.\<close>

record outcomes =
  oc_exporter_creatable :: bool
  oc_poller_start :: "py_error option"
  oc_poller_stop :: "py_error option"
  oc_get_metrics :: "py_error option"
  oc_engine_shutdown :: "py_error option"

datatype facade_call = PollerStart | PollerStop | Publish | CancelMetricsTask | EngineShutdown

text \<open>
  The part of a consumer that starting and stopping change: the exporter it holds, whether its metrics
  task runs, and the calls it has made, latest last.
\<close>

record facade =
  fa_metrics_config :: metrics_settings
  fa_metrics_exporter :: "nat option"
  fa_metrics_task :: bool
  fa_calls :: "facade_call list"

definition called :: "facade_call \<Rightarrow> facade \<Rightarrow> facade" where
  "called c f = f\<lparr>fa_calls := fa_calls f @ [c]\<rparr>"

text \<open>A snapshot is published only with an exporter; of what it calls only \<open>get_metrics\<close> is not guarded.\<close>

definition publish_metrics_snapshot :: "outcomes \<Rightarrow> facade \<Rightarrow> py_error option \<times> facade" where
  "publish_metrics_snapshot oc f =
     (if fa_metrics_exporter f = None then (None, f)
      else case oc_get_metrics oc of Some e \<Rightarrow> (Some e, f) | None \<Rightarrow> (None, called Publish f))"

definition stop_metrics_loop :: "facade \<Rightarrow> facade" where
  "stop_metrics_loop f = (if \<not> fa_metrics_task f then f else called CancelMetricsTask (f\<lparr>fa_metrics_task := False\<rparr>))"

definition release_metrics_exporter :: "facade \<Rightarrow> exporters \<Rightarrow> facade \<times> exporters" where
  "release_metrics_exporter f r =
     (f\<lparr>fa_metrics_exporter := None\<rparr>, release_prometheus_exporter (fa_metrics_config f) (fa_metrics_exporter f) r)"

definition cleanup_failed_start :: "outcomes \<Rightarrow> facade \<Rightarrow> exporters \<Rightarrow> py_error option \<times> facade \<times> exporters" where
  "cleanup_failed_start oc f r =
     (let f1 = called EngineShutdown (called PollerStop (stop_metrics_loop f))
      in case oc_engine_shutdown oc of
           Some e \<Rightarrow> (Some e, f1, r)
         | None \<Rightarrow> (None, release_metrics_exporter f1 r))"

text \<open>The body of the \<open>try\<close> in \<open>start\<close>.\<close>

definition start_body :: "outcomes \<Rightarrow> facade \<Rightarrow> exporters \<Rightarrow> py_error option \<times> facade \<times> exporters" where
  "start_body oc f r =
     (case (if fa_metrics_exporter f = None
            then acquire_prometheus_exporter (oc_exporter_creatable oc) (fa_metrics_config f) r
            else Inr (fa_metrics_exporter f, r)) of
        Inl e \<Rightarrow> (Some e, f, r)
      | Inr (x, r1) \<Rightarrow>
          let f1 = called PollerStart (f\<lparr>fa_metrics_exporter := x\<rparr>)
          in case oc_poller_start oc of
               Some e \<Rightarrow> (Some e, f1, r1)
             | None \<Rightarrow>
                 if x \<noteq> None \<and> \<not> fa_metrics_task f1
                 then (case publish_metrics_snapshot oc f1 of
                         (Some e, f2) \<Rightarrow> (Some e, f2, r1)
                       | (None, f2) \<Rightarrow> (None, f2\<lparr>fa_metrics_task := True\<rparr>, r1))
                 else (None, f1, r1))"

text \<open>\<open>except Exception: await self._cleanup_failed_start(); raise\<close>; an error of the cleanup replaces the first.\<close>

definition consumer_start :: "outcomes \<Rightarrow> facade \<Rightarrow> exporters \<Rightarrow> py_error option \<times> facade \<times> exporters" where
  "consumer_start oc f r =
     (case start_body oc f r of
        (None, f1, r1) \<Rightarrow> (None, f1, r1)
      | (Some e, f1, r1) \<Rightarrow>
          (case cleanup_failed_start oc f1 r1 of
             (Some e', f2, r2) \<Rightarrow> (Some e', f2, r2)
           | (None, f2, r2) \<Rightarrow> (Some e, f2, r2)))"

definition consumer_stop :: "outcomes \<Rightarrow> facade \<Rightarrow> exporters \<Rightarrow> py_error option \<times> facade \<times> exporters" where
  "consumer_stop oc f r =
     (let f1 = called PollerStop (stop_metrics_loop f)
      in case publish_metrics_snapshot oc f1 of
           (Some e, f2) \<Rightarrow> (Some e, f2, r)
         | (None, f2) \<Rightarrow>
             let f3 = called EngineShutdown f2
             in case oc_engine_shutdown oc of
                  Some e \<Rightarrow> (Some e, f3, r)
                | None \<Rightarrow> let (f4, r1) = release_metrics_exporter f3 r in (oc_poller_stop oc, f4, r1))"

section \<open>Construction from validated settings\<close>

lemma worker_fits_iff:
  "ensure_worker_matches_mode ec w = Inr () \<longleftrightarrow>
    (case es_mode ec of ASYNC \<Rightarrow> is_async_worker w
     | PROCESS \<Rightarrow> \<not> is_async_worker w \<and> (ps_require_picklable_worker (es_process_config ec) \<longrightarrow> wf_picklable w))"
  by (simp add: ensure_worker_matches_mode_def split: execution_mode.splits)

lemma worker_misfit: "ensure_worker_matches_mode ec w \<noteq> Inr () \<Longrightarrow> ensure_worker_matches_mode ec w = Inl TypeError"
  by (auto simp: ensure_worker_matches_mode_def split: execution_mode.splits if_splits)

text \<open>The engine of valid settings: the factory fails exactly on a worker of the wrong kind and on
  transport settings the pipes do not support.\<close>

lemma engine_outcome:
  "create_execution_engine ec w =
    (if ensure_worker_matches_mode ec w \<noteq> Inr () then Inl TypeError
     else case es_mode ec of
       ASYNC \<Rightarrow> map_sum id AsyncExecutionEngine (async_engine_init (exec_config.truncate ec))
     | PROCESS \<Rightarrow>
        (case validate_transport_config (process_config.truncate (es_process_config ec)) of
           Inl e \<Rightarrow> Inl e | Inr _ \<Rightarrow> Inr (ProcessExecutionEngine (process_engine_init (ps_queue_size (es_process_config ec))))))"
proof (cases "ensure_worker_matches_mode ec w = Inr ()")
  case False
  then show ?thesis by (simp add: create_execution_engine_def worker_misfit)
next
  case True
  then have "es_mode ec = PROCESS \<Longrightarrow> \<not> is_async_worker w \<and> (ps_require_picklable_worker (es_process_config ec) \<longrightarrow> wf_picklable w)"
    by (simp add: worker_fits_iff)
  with True show ?thesis
    by (auto simp: create_execution_engine_def process_execution_engine_def is_async_worker_def
        split: execution_mode.splits sum.splits if_splits)
qed

lemma poison_circuit_of_valid:
  assumes "poison_settings_ok (pl_poison_message pc)"
  shows "\<exists>c. make_poison_circuit pc = Inr c"
  using assms by (auto simp: make_poison_circuit_def poison_circuit_init_def poison_settings_ok_def)

lemma route_batch_of_valid:
  assumes "execution_settings_ok (pl_execution pc)"
  shows "\<exists>n \<ge> 1. resolve_work_manager_route_batch_size pc = Inr n \<and> (es_mode (pl_execution pc) = ASYNC \<longrightarrow> n = 1)"
  using assms
  by (cases "es_mode (pl_execution pc)")
     (auto simp: resolve_work_manager_route_batch_size_def Let_def execution_settings_ok_def process_settings_ok_def)

lemma coerced_valid:
  assumes "backpressure_config_ok b" "concurrency_config_ok k"
  shows "coerce_adaptive_backpressure_config (backpressure_attrs b) = Inr b"
    "coerce_adaptive_concurrency_config (Some (concurrency_attrs k)) = Inr k"
  using assms by (simp_all add: coerce_backpressure_id coerce_concurrency_id)

lemma poller_of_valid:
  assumes "parallel_settings_ok pc"
  shows "\<exists>p. broker_poller_init pc engine (Some wm) None = Inr p \<and> bp_work_manager p = wm \<and>
    bp_ordering_mode p = wm_ordering_mode wm \<and> bp_worker_pool_size p = pl_worker_pool_size pc \<and>
    bp_commit_debounce_completion_threshold p = pl_commit_debounce_completion_threshold pc \<and>
    bp_limits p = limits_init (ex_max_in_flight (pl_execution pc)) (pl_queue_max_messages pc)
      (pl_adaptive_backpressure pc) (pl_adaptive_concurrency pc)"
proof -
  have ok: "backpressure_config_ok (pl_adaptive_backpressure pc)" "concurrency_config_ok (pl_adaptive_concurrency pc)"
    "poison_settings_ok (pl_poison_message pc)" "0 < ex_max_in_flight (pl_execution pc)"
    "0 < pl_commit_debounce_completion_threshold pc"
    using assms by (simp_all add: parallel_settings_ok_def execution_settings_ok_def)
  obtain poison where "make_poison_circuit pc = Inr (poison :: 'a poison_circuit)"
    using poison_circuit_of_valid[OF ok(3)] by blast
  moreover have "resolve_ordering_mode (parallel_attrs pc) = Inr (pl_ordering_mode pc)"
    by (simp add: resolve_ordering_mode_def parallel_attrs_def getattr_default_def)
  moreover have "resolve_configured_max_in_flight (execution_attrs (pl_execution pc)) = ex_max_in_flight (pl_execution pc)"
    using ok(4) by (simp add: resolve_configured_max_in_flight_def execution_attrs_def getattr_default_def)
  moreover have "resolve_commit_debounce_completion_threshold (parallel_attrs pc) = pl_commit_debounce_completion_threshold pc"
    using ok(5) by (simp add: resolve_commit_debounce_completion_threshold_def parallel_attrs_def getattr_default_def)
  ultimately show ?thesis by (simp add: broker_poller_init_def coerced_valid[OF ok(1,2)] Let_def)
qed

lemma transport_error: "validate_transport_config cfg \<noteq> Inr () \<Longrightarrow> validate_transport_config cfg = Inl ValueError"
  by (auto simp: validate_transport_config_def split: if_splits)

text \<open>What is true of a constructed consumer: the engine is of the configured kind, the work manager
  and the poller agree on the ordering mode and on an in-flight limit of at least 1, the lease size is at
  least 1, and the commit coordinator's invariant holds at the start.\<close>

definition well_wired :: "kafka_settings \<Rightarrow> ('k, 'p, 'q, 's, 'c) consumer \<Rightarrow> bool" where
  "well_wired c f \<longleftrightarrow>
     (let pc = ks_parallel_consumer c; ec = pl_execution pc; p = fc_poller f; wm = bp_work_manager p
      in (case fc_engine f of AsyncExecutionEngine _ \<Rightarrow> es_mode ec = ASYNC | ProcessExecutionEngine _ \<Rightarrow> es_mode ec = PROCESS) \<and>
         wm_execution_engine wm = fc_engine f \<and>
         wm_ordering_mode wm = pl_ordering_mode pc \<and> bp_ordering_mode p = pl_ordering_mode pc \<and>
         1 \<le> wm_max_in_flight_messages wm \<and>
         lim_max_in_flight_messages (bp_limits p) = wm_max_in_flight_messages wm \<and>
         lim_work_manager_max (bp_limits p) = wm_max_in_flight_messages wm \<and>
         1 \<le> wm_route_batch_size wm \<and> (es_mode ec = ASYNC \<longrightarrow> wm_route_batch_size wm = 1) \<and>
         1 \<le> bp_worker_pool_size p \<and> 1 \<le> bp_commit_debounce_completion_threshold p \<and>
         cc_inv (coordinator_config.truncate (pl_commit_coordinator pc)) coordinator_init)"

lemma limits_init_valid:
  assumes "0 < n"
  shows "lim_max_in_flight_messages (limits_init n q b k) = n" "lim_work_manager_max (limits_init n q b k) = n"
  using assms by (simp_all add: limits_init_def set_runtime_max_in_flight_def Let_def)

lemma constructed_consumer:
  assumes ok: "kafka_settings_ok c" and engine: "create_execution_engine (pl_execution (ks_parallel_consumer c)) w = Inr (e :: ('k, 'p, 'q) engine)"
  shows "\<exists>f :: ('k, 'p, 'q, 's, 'c) consumer. pyrallel_consumer_init c w = Inr f \<and> well_wired c f"
proof -
  let ?pc = "ks_parallel_consumer c" let ?ec = "pl_execution ?pc"
  have pok: "parallel_settings_ok ?pc" and eok: "execution_settings_ok ?ec" and mif: "0 < ex_max_in_flight ?ec"
    using ok by (simp_all add: kafka_settings_ok_def parallel_settings_ok_def execution_settings_ok_def)
  obtain poison where poison: "make_poison_circuit ?pc = Inr (poison :: 'k poison_circuit)"
    using poison_circuit_of_valid pok unfolding parallel_settings_ok_def by blast
  obtain n where n: "1 \<le> n" "resolve_work_manager_route_batch_size ?pc = Inr n" "es_mode ?ec = ASYNC \<longrightarrow> n = 1"
    using route_batch_of_valid[OF eok] by blast
  obtain wm where wm: "work_manager_init e (max_in_flight_messages ?ec) (pl_ordering_mode ?pc) 100
      (es_max_revoke_grace_ms ?ec) (Some poison) n = Inr (wm :: ('k, 'p, 's, 'c, ('k, 'p, 'q) engine) work_manager)"
    using n(1) by (simp add: work_manager_init_def)
  have wmf: "wm_execution_engine wm = e" "wm_ordering_mode wm = pl_ordering_mode ?pc" "wm_route_batch_size wm = n"
    "wm_max_in_flight_messages wm = ex_max_in_flight ?ec"
    using wm n(1) by (auto simp: work_manager_init_def max_in_flight_messages_def)
  obtain p where p: "broker_poller_init ?pc e (Some wm) None = Inr p" "bp_work_manager p = wm"
    "bp_ordering_mode p = wm_ordering_mode wm" "bp_worker_pool_size p = pl_worker_pool_size ?pc"
    "bp_commit_debounce_completion_threshold p = pl_commit_debounce_completion_threshold ?pc"
    "bp_limits p = limits_init (ex_max_in_flight ?ec) (pl_queue_max_messages ?pc)
      (pl_adaptive_backpressure ?pc) (pl_adaptive_concurrency ?pc)"
    using poller_of_valid[OF pok, of e wm] by (elim exE conjE) (rule that, assumption+)
  have init: "pyrallel_consumer_init c w = Inr \<lparr>fc_engine = e, fc_poller = p\<rparr>"
    by (simp add: pyrallel_consumer_init_def engine poison n(2) wm p(1) Let_def)
  have kind: "case e of AsyncExecutionEngine _ \<Rightarrow> es_mode ?ec = ASYNC | ProcessExecutionEngine _ \<Rightarrow> es_mode ?ec = PROCESS"
    using engine by (auto simp: create_execution_engine_def split: sum.splits execution_mode.splits engine.splits)
      (auto simp: map_sum_def split: sum.splits)
  have "cc_inv (coordinator_config.truncate (pl_commit_coordinator ?pc)) coordinator_init"
    using pok by (intro cc_inv_init)
      (simp add: parallel_settings_ok_def coordinator_settings_ok_def coordinator_config.truncate_def)
  moreover have "1 \<le> pl_worker_pool_size ?pc" "1 \<le> pl_commit_debounce_completion_threshold ?pc"
    using pok by (simp_all add: parallel_settings_ok_def)
  ultimately have "well_wired c \<lparr>fc_engine = e, fc_poller = p\<rparr>"
    unfolding well_wired_def Let_def using kind mif n wmf p(2-6) limits_init_valid[OF mif] by simp
  with init show ?thesis by blast
qed

lemma engine_failure:
  assumes mif: "0 < ex_max_in_flight ec" and e: "create_execution_engine ec w = (Inl e :: py_error + ('k, 'p, 'q) engine)"
  shows "e = TypeError \<and> ensure_worker_matches_mode ec w \<noteq> Inr () \<or>
    e = ValueError \<and> es_mode ec = PROCESS \<and> validate_transport_config (process_config.truncate (es_process_config ec)) \<noteq> Inr ()"
proof (cases "ensure_worker_matches_mode ec w = Inr ()")
  case False
  then show ?thesis using e by (simp add: engine_outcome)
next
  case True
  have "async_engine_init (exec_config.truncate ec) \<noteq> (Inl e :: py_error + ('k, 'p) async_engine)"
    using mif by (simp add: async_engine_init_def exec_config.truncate_def)
  then have mode: "es_mode ec = PROCESS"
    using e True by (cases "es_mode ec") (auto simp: engine_outcome map_sum_def split: sum.splits)
  have "validate_transport_config (process_config.truncate (es_process_config ec)) = Inl e"
    using e True mode by (auto simp: engine_outcome split: sum.splits)
  then show ?thesis using mode transport_error[of "process_config.truncate (es_process_config ec)"] by auto
qed

section \<open>Sharing of the exporters\<close>

text \<open>
  Any number of consumers \<open>i\<close> with settings \<open>cfg i\<close>, each holding an exporter or none. The steps are the
  acquisition in \<open>start\<close> and the release in \<open>stop\<close> and in the cleanup of a failed start; between them the
  consumers of one event loop interleave freely.
\<close>

type_synonym 'i shared = "('i \<Rightarrow> nat option) \<times> exporters"

inductive exporter_step :: "('i \<Rightarrow> metrics_settings) \<Rightarrow> 'i shared \<Rightarrow> 'i shared \<Rightarrow> bool" for cfg where
  acquire: "held i = None \<Longrightarrow> acquire_prometheus_exporter creatable (cfg i) r = Inr (x, r')
    \<Longrightarrow> exporter_step cfg (held, r) (held(i := x), r')"
| release: "exporter_step cfg (held, r) (held(i := None), release_prometheus_exporter (cfg i) (held i) r)"

inductive exporter_reach :: "('i \<Rightarrow> metrics_settings) \<Rightarrow> 'i shared \<Rightarrow> bool" for cfg where
  start: "exporter_reach cfg (\<lambda>_. None, exporters_init)"
| step: "exporter_reach cfg s \<Longrightarrow> exporter_step cfg s s' \<Longrightarrow> exporter_reach cfg s'"

definition exporter_holders :: "('i \<Rightarrow> metrics_settings) \<Rightarrow> ('i \<Rightarrow> nat option) \<Rightarrow> int \<Rightarrow> 'i set" where
  "exporter_holders cfg held port = {i. held i \<noteq> None \<and> ms_port (cfg i) = port}"

text \<open>The numbers of the exporters: each one created is closed once or open at one port.\<close>

definition ids_ok :: "(int \<rightharpoonup> nat) \<Rightarrow> nat \<Rightarrow> nat list \<Rightarrow> bool" where
  "ids_ok m created gone \<longleftrightarrow>
     distinct gone \<and> set gone \<union> ran m = {x. x < created} \<and> set gone \<inter> ran m = {} \<and> inj_on m (dom m)"

text \<open>The counts: a port has a count and an exporter while some consumer holds it.\<close>

definition counts_ok ::
  "('i \<Rightarrow> metrics_settings) \<Rightarrow> ('i \<Rightarrow> nat option) \<Rightarrow> (int \<rightharpoonup> nat) \<Rightarrow> (int \<rightharpoonup> int) \<Rightarrow> bool" where
  "counts_ok cfg held m cnt \<longleftrightarrow>
     (\<forall>i. held i \<noteq> None \<longrightarrow> ms_enabled (cfg i) \<and> held i = m (ms_port (cfg i))) \<and>
     (\<forall>port. finite (exporter_holders cfg held port) \<and>
        cnt port = (if exporter_holders cfg held port = {} then None else Some (int (card (exporter_holders cfg held port)))) \<and>
        (m port = None \<longleftrightarrow> exporter_holders cfg held port = {}))"

definition exporters_inv :: "('i \<Rightarrow> metrics_settings) \<Rightarrow> 'i shared \<Rightarrow> bool" where
  "exporters_inv cfg s \<longleftrightarrow>
     ids_ok (map_of (xr_exporters (snd s))) (xr_created (snd s)) (xr_closed (snd s)) \<and>
     counts_ok cfg (fst s) (map_of (xr_exporters (snd s))) (map_of (xr_refcounts (snd s)))"

lemma exporter_holders_update:
  "exporter_holders cfg (held(i := x)) port =
    (if ms_port (cfg i) = port
     then (if x = None then exporter_holders cfg held port - {i} else insert i (exporter_holders cfg held port))
     else exporter_holders cfg held port)"
  by (auto simp: exporter_holders_def)

lemma ids_open:
  assumes "ids_ok m n gone" "m p = None"
  shows "ids_ok (m(p \<mapsto> n)) (Suc n) gone"
proof -
  have "n \<notin> ran m" "n \<notin> set gone" using assms(1) by (auto simp: ids_ok_def)
  moreover have "ran (m(p \<mapsto> n)) = insert n (ran m)" using assms(2) by (rule ran_map_upd)
  moreover have "inj_on (m(p \<mapsto> n)) (dom (m(p \<mapsto> n)))"
    using assms \<open>n \<notin> ran m\<close> by (auto simp: ids_ok_def inj_on_def ran_def dom_def split: if_splits)
  ultimately show ?thesis using assms(1) by (auto simp: ids_ok_def less_Suc_eq)
qed

lemma ids_close:
  assumes ok: "ids_ok m n gone" and x: "m p = Some x"
  shows "ids_ok (m(p := None)) n (gone @ [x])"
proof -
  have inj: "inj_on m (dom m)" using ok by (simp add: ids_ok_def)
  then have "ran (m(p := None)) = ran m - {x}" using x
    by (auto simp: ran_def inj_on_def dom_def) (metis option.inject)
  moreover have "x \<in> ran m" using x by (auto simp: ran_def)
  moreover have "inj_on (m(p := None)) (dom (m(p := None)))" using inj by (auto simp: inj_on_def dom_def split: if_splits)
  ultimately show ?thesis using ok by (auto simp: ids_ok_def)
qed

lemma counts_okD:
  assumes "counts_ok cfg held m cnt"
  shows "held i \<noteq> None \<Longrightarrow> ms_enabled (cfg i) \<and> held i = m (ms_port (cfg i))"
    "finite (exporter_holders cfg held port)"
    "cnt port = (if exporter_holders cfg held port = {} then None else Some (int (card (exporter_holders cfg held port))))"
    "m port = None \<longleftrightarrow> exporter_holders cfg held port = {}"
  using assms unfolding counts_ok_def by blast+

lemma counts_join:
  assumes "counts_ok cfg held m cnt" "held i = None" "ms_enabled (cfg i)"
    and "port = ms_port (cfg i)" "m port = None \<or> m port = Some x"
    and "cnt' = cnt(port \<mapsto> (case cnt port of None \<Rightarrow> 0 | Some n \<Rightarrow> n) + 1)"
  shows "counts_ok cfg (held(i := Some x)) (m(port \<mapsto> x)) cnt'"
proof -
  note D = counts_okD[OF assms(1)]
  have "i \<notin> exporter_holders cfg held port" using assms(2) by (simp add: exporter_holders_def)
  then show ?thesis
    unfolding counts_ok_def
  proof (intro conjI allI impI)
    fix k
    assume k: "(held(i := Some x)) k \<noteq> None"
    show "ms_enabled (cfg k)" using k D(1)[of k] assms(3) by (auto split: if_splits)
    show "(held(i := Some x)) k = (m(port \<mapsto> x)) (ms_port (cfg k))"
    proof (cases "k = i")
      case False
      then have "held k = m (ms_port (cfg k))" "held k \<noteq> None" using k D(1)[of k] by auto
      then show ?thesis using False assms(5) by auto
    qed (use assms(4) in simp)
  qed (use D assms(4,6) in \<open>auto simp: exporter_holders_update\<close>)
qed

lemma counts_leave:
  assumes "counts_ok cfg held m cnt" "held i \<noteq> None" and "port = ms_port (cfg i)"
  shows "1 \<le> card (exporter_holders cfg held port)" "cnt port = Some (int (card (exporter_holders cfg held port)))"
    "card (exporter_holders cfg held port) \<le> 1 \<Longrightarrow> counts_ok cfg (held(i := None)) (m(port := None)) (cnt(port := None))"
    "1 < card (exporter_holders cfg held port) \<Longrightarrow>
      counts_ok cfg (held(i := None)) m (cnt(port \<mapsto> int (card (exporter_holders cfg held port)) - 1))"
proof -
  note D = counts_okD[OF assms(1)]
  let ?H = "exporter_holders cfg held port"
  have i: "i \<in> ?H" using assms(2,3) by (simp add: exporter_holders_def)
  have fin: "finite ?H" by (rule D(2))
  have "?H \<noteq> {}" using i by blast
  then show pos: "1 \<le> card ?H" using fin by (simp add: Suc_le_eq card_gt_0_iff)
  show "cnt port = Some (int (card ?H))" using D(3)[of port] i by auto
  have cd: "card (?H - {i}) = card ?H - 1" using i by simp
  show "counts_ok cfg (held(i := None)) (m(port := None)) (cnt(port := None))" if "card ?H \<le> 1"
  proof -
    have "?H - {i} = {}" using that cd fin by (metis card_eq_0_iff diff_is_0_eq finite_Diff)
    then have H: "?H = {i}" using i by blast
    have "k = i" if "held k \<noteq> None" "ms_port (cfg k) = port" for k using that H by (auto simp: exporter_holders_def)
    then show ?thesis unfolding counts_ok_def using D assms(3) H by (auto simp: exporter_holders_update)
  qed
  show "counts_ok cfg (held(i := None)) m (cnt(port \<mapsto> int (card ?H) - 1))" if "1 < card ?H"
  proof -
    have "card (?H - {i}) \<noteq> 0" using that cd by simp
    then have "?H - {i} \<noteq> {}" "int (card (?H - {i})) = int (card ?H) - 1" using that cd by (metis card.empty, simp)
    then show ?thesis unfolding counts_ok_def using D assms(3) by (auto simp: exporter_holders_update)
  qed
qed

lemma acquire_inv:
  assumes inv: "exporters_inv cfg (held, r)" and free: "held i = None"
    and acq: "acquire_prometheus_exporter creatable (cfg i) r = Inr (x, r')"
  shows "exporters_inv cfg (held(i := x), r')"
proof (cases "ms_enabled (cfg i)")
  case False
  then have "x = None" "r' = r" using acq by (simp_all add: acquire_prometheus_exporter_def)
  moreover have "held(i := None) = held" using free by auto
  ultimately show ?thesis using inv by simp
next
  case True
  let ?p = "ms_port (cfg i)" let ?m = "map_of (xr_exporters r)" let ?c = "map_of (xr_refcounts r)"
  have ids: "ids_ok ?m (xr_created r) (xr_closed r)" and cs: "counts_ok cfg held ?m ?c"
    using inv by (simp_all add: exporters_inv_def)
  show ?thesis
  proof (cases "?m ?p")
    case (Some y)
    then have x: "x = Some y" and r': "r' = r\<lparr>xr_refcounts := dict_set ?p (dict_get_default (xr_refcounts r) ?p 0 + 1) (xr_refcounts r)\<rparr>"
      using acq True by (auto simp: acquire_prometheus_exporter_def)
    have "?m(?p \<mapsto> y) = ?m" using Some by auto
    then show ?thesis
      using counts_join[OF cs free True refl, of y "map_of (xr_refcounts r')"] Some ids
      by (simp add: x r' exporters_inv_def update_conv' dict_get_default_def)
  next
    case None
    then have x: "x = Some (xr_created r)" and
      r': "r' = r\<lparr>xr_exporters := dict_set ?p (xr_created r) (xr_exporters r), xr_created := xr_created r + 1,
             xr_refcounts := dict_set ?p (dict_get_default (xr_refcounts r) ?p 0 + 1) (xr_refcounts r)\<rparr>"
      using acq True by (auto simp: acquire_prometheus_exporter_def split: if_splits)
    then show ?thesis
      using counts_join[OF cs free True refl, of "xr_created r" "map_of (xr_refcounts r')"] None ids_open[OF ids None]
      by (simp add: x r' exporters_inv_def update_conv' dict_get_default_def)
  qed
qed

lemma release_inv:
  assumes inv: "exporters_inv cfg (held, r)"
  shows "exporters_inv cfg (held(i := None), release_prometheus_exporter (cfg i) (held i) r)"
proof (cases "held i")
  case None
  then have "held(i := None) = held" by auto
  then show ?thesis using inv None by (simp add: release_prometheus_exporter_def)
next
  case (Some y)
  let ?p = "ms_port (cfg i)" let ?m = "map_of (xr_exporters r)" let ?c = "map_of (xr_refcounts r)"
  let ?n = "card (exporter_holders cfg held ?p)"
  have ids: "ids_ok ?m (xr_created r) (xr_closed r)" and cs: "counts_ok cfg held ?m ?c"
    using inv by (simp_all add: exporters_inv_def)
  have h: "held i \<noteq> None" using Some by simp
  note leave = counts_leave[OF cs h refl]
  have m: "ms_enabled (cfg i)" "?m ?p = Some y" using counts_okD(1)[OF cs h] Some by simp_all
  have rc: "dict_get_default (xr_refcounts r) ?p 0 = int ?n" using leave(2) by (simp add: dict_get_default_def)
  show ?thesis
  proof (cases "?n \<le> 1")
    case True
    then show ?thesis
      using leave(3) ids_close[OF ids m(2)]
      by (simp add: exporters_inv_def release_prometheus_exporter_def Some m rc delete_conv' Let_def)
  next
    case False
    then show ?thesis
      using leave(4) ids
      by (simp add: exporters_inv_def release_prometheus_exporter_def Some m rc update_conv' Let_def)
  qed
qed

lemma exporters_inv_reach: "exporter_reach cfg s \<Longrightarrow> exporters_inv cfg s"
proof (induction rule: exporter_reach.induct)
  case start
  have "exporter_holders cfg (\<lambda>_. None) port = {}" for port by (simp add: exporter_holders_def)
  then show ?case by (simp add: exporters_inv_def exporters_init_def ids_ok_def counts_ok_def)
next
  case (step s s')
  from step(2,3) show ?case by cases (auto intro: acquire_inv release_inv)
qed

section \<open>Properties\<close>

text \<open>C39. A consumer can be built from every validated configuration, except that a worker of the wrong
  kind for the execution mode (or one that cannot be pickled where that is required) is a \<open>TypeError\<close>, and
  process settings the worker pipes do not support are a \<open>ValueError\<close>; nothing else raises. The consumer is
  well wired: engine of the configured kind, work manager and poller agree on ordering mode and in-flight
  limit, all of them in range.\<close>

theorem validated_settings_construct:
  assumes "kafka_settings_ok c"
  shows "case pyrallel_consumer_init c w of
      Inl e \<Rightarrow>
        e = TypeError \<and> ensure_worker_matches_mode (pl_execution (ks_parallel_consumer c)) w \<noteq> Inr () \<or>
        e = ValueError \<and> es_mode (pl_execution (ks_parallel_consumer c)) = PROCESS \<and>
          validate_transport_config (process_config.truncate (es_process_config (pl_execution (ks_parallel_consumer c)))) \<noteq> Inr ()
    | Inr f \<Rightarrow>
        ensure_worker_matches_mode (pl_execution (ks_parallel_consumer c)) w = Inr () \<and>
        (es_mode (pl_execution (ks_parallel_consumer c)) = PROCESS \<longrightarrow>
          validate_transport_config (process_config.truncate (es_process_config (pl_execution (ks_parallel_consumer c)))) = Inr ()) \<and>
        well_wired c (f :: ('k, 'p, 'q, 's, 'c) consumer)"
proof (cases "create_execution_engine (pl_execution (ks_parallel_consumer c)) w :: py_error + ('k, 'p, 'q) engine")
  case (Inl e)
  have "0 < ex_max_in_flight (pl_execution (ks_parallel_consumer c))"
    using assms by (simp add: kafka_settings_ok_def parallel_settings_ok_def execution_settings_ok_def)
  moreover have "pyrallel_consumer_init c w = (Inl e :: py_error + ('k, 'p, 'q, 's, 'c) consumer)"
    by (simp add: pyrallel_consumer_init_def Inl Let_def)
  ultimately show ?thesis using engine_failure[OF _ Inl] by simp
next
  case (Inr e)
  then have fits: "ensure_worker_matches_mode (pl_execution (ks_parallel_consumer c)) w = Inr ()"
    by (auto simp: engine_outcome split: if_splits)
  moreover have "es_mode (pl_execution (ks_parallel_consumer c)) = PROCESS \<longrightarrow>
      validate_transport_config (process_config.truncate (es_process_config (pl_execution (ks_parallel_consumer c)))) = Inr ()"
    using Inr fits by (auto simp: engine_outcome split: sum.splits)
  moreover obtain f :: "('k, 'p, 'q, 's, 'c) consumer" where "pyrallel_consumer_init c w = Inr f" "well_wired c f"
    using constructed_consumer[OF assms Inr] by blast
  ultimately show ?thesis by simp
qed

text \<open>However consumers start, fail to start and stop, a metrics exporter is shared correctly: every
  consumer that holds one holds the open exporter of its port, no open exporter is closed, the reference count
  of a port is the number of its holders, and every exporter ever created is closed exactly once or still open,
  the latter exactly while someone holds it.\<close>

theorem exporters_shared_safely:
  assumes "exporter_reach cfg (held, r)"
  shows "(held i = Some x \<longrightarrow> dict_get (xr_exporters r) (ms_port (cfg i)) = Some x \<and> x \<notin> set (xr_closed r)) \<and>
    dict_get_default (xr_refcounts r) port 0 = int (card (exporter_holders cfg held port)) \<and>
    (dict_get (xr_exporters r) port = None \<longleftrightarrow> exporter_holders cfg held port = {}) \<and>
    distinct (xr_closed r) \<and>
    set (xr_closed r) \<union> ran (map_of (xr_exporters r)) = {y. y < xr_created r}"
proof -
  have ids: "ids_ok (map_of (xr_exporters r)) (xr_created r) (xr_closed r)"
    and cs: "counts_ok cfg held (map_of (xr_exporters r)) (map_of (xr_refcounts r))"
    using exporters_inv_reach[OF assms] by (simp_all add: exporters_inv_def)
  note D = counts_okD[OF cs]
  show ?thesis
  proof (intro conjI impI)
    assume h: "held i = Some x"
    then show x: "dict_get (xr_exporters r) (ms_port (cfg i)) = Some x" using D(1)[of i] by simp
    then show "x \<notin> set (xr_closed r)" using ids by (auto simp: ids_ok_def ran_def)
  qed (use D(3)[of port] D(4)[of port] ids in \<open>auto simp: dict_get_default_def ids_ok_def\<close>)
qed

text \<open>A failed start leaves nothing behind, and a stop ends everything even when the poller fails to stop.\<close>

lemma acquire_none_or_free:
  "acquire_prometheus_exporter creatable cfg r = Inr (None, r') \<Longrightarrow> r' = r"
  by (auto simp: acquire_prometheus_exporter_def split: if_splits option.splits)

lemma release_after_acquire:
  assumes acq: "acquire_prometheus_exporter creatable cfg r = Inr (x, r1)"
    and ok: "\<And>port. dict_get (xr_exporters r) port = None \<longleftrightarrow> dict_get (xr_refcounts r) port = None"
    and pos: "\<And>port n. dict_get (xr_refcounts r) port = Some n \<Longrightarrow> 1 \<le> n"
  shows "map_of (xr_exporters (release_prometheus_exporter cfg x r1)) = map_of (xr_exporters r) \<and>
    map_of (xr_refcounts (release_prometheus_exporter cfg x r1)) = map_of (xr_refcounts r)"
proof (cases "ms_enabled cfg")
  case False
  then show ?thesis using acq by (auto simp: acquire_prometheus_exporter_def release_prometheus_exporter_def)
next
  case True
  let ?p = "ms_port cfg"
  show ?thesis
  proof (cases "dict_get (xr_exporters r) ?p")
    case None
    then have none: "dict_get (xr_refcounts r) ?p = None" using ok by blast
    from None True acq have "x = Some (xr_created r)"
      "r1 = r\<lparr>xr_exporters := dict_set ?p (xr_created r) (xr_exporters r), xr_created := xr_created r + 1,
             xr_refcounts := dict_set ?p 1 (xr_refcounts r)\<rparr>"
      using none by (auto simp: acquire_prometheus_exporter_def dict_get_default_def split: if_splits)
    then show ?thesis
      using True None none
      by (auto simp: release_prometheus_exporter_def dict_get_default_def dict_get_set delete_conv' update_conv' Let_def fun_eq_iff)
  next
    case (Some y)
    then obtain n where n: "dict_get (xr_refcounts r) ?p = Some n" using ok[of ?p] by auto
    then have "1 \<le> n" by (rule pos)
    moreover from Some True acq n have "x = Some y" "r1 = r\<lparr>xr_refcounts := dict_set ?p (n + 1) (xr_refcounts r)\<rparr>"
      by (auto simp: acquire_prometheus_exporter_def dict_get_default_def)
    ultimately show ?thesis
      using True n
      by (auto simp: release_prometheus_exporter_def dict_get_default_def dict_get_set update_conv' Let_def fun_eq_iff)
  qed
qed

lemma facade_fields [simp]:
  "fa_metrics_exporter (called c f) = fa_metrics_exporter f" "fa_metrics_config (called c f) = fa_metrics_config f"
  "fa_metrics_task (called c f) = fa_metrics_task f" "fa_calls (called c f) = fa_calls f @ [c]"
  "fa_metrics_exporter (stop_metrics_loop f) = fa_metrics_exporter f"
  "fa_metrics_config (stop_metrics_loop f) = fa_metrics_config f" "\<not> fa_metrics_task (stop_metrics_loop f)"
  by (simp_all add: called_def stop_metrics_loop_def)

lemma publish_fields:
  assumes "publish_metrics_snapshot oc f = (e, f')"
  shows "fa_metrics_exporter f' = fa_metrics_exporter f" "fa_metrics_config f' = fa_metrics_config f"
    "fa_metrics_task f' = fa_metrics_task f"
  using assms by (auto simp: publish_metrics_snapshot_def split: if_splits option.splits)

text \<open>The registry after the body of \<open>start\<close> is the one after the acquisition.\<close>

lemma start_body_acquired:
  assumes "start_body oc f r = (e, f1, r1)" "fa_metrics_exporter f = None"
  shows "fa_metrics_config f1 = fa_metrics_config f \<and>
    (fa_metrics_exporter f1 = None \<and> r1 = r \<or>
     (\<exists>c. acquire_prometheus_exporter c (fa_metrics_config f) r = Inr (fa_metrics_exporter f1, r1)))"
  using assms
  by (auto simp: start_body_def Let_def dest: publish_fields split: sum.splits option.splits if_splits prod.splits)


lemma poller_keeps_manager: "broker_poller_init pc engine (Some wm) n = Inr p \<Longrightarrow> bp_work_manager p = wm"
  by (auto simp: broker_poller_init_def Let_def split: sum.splits)

text \<open>
  The work manager of the facade is built without the setting \<open>blocking_cache_ttl\<close>: whatever it says, the
  manager has its own default.
\<close>

lemma facade_ignores_blocking_cache_ttl:
  assumes "pyrallel_consumer_init c w = Inr f"
  shows "wm_blocking_cache_ttl (bp_work_manager (fc_poller f)) = 100"
proof -
  obtain engine wm poison n where
    wm: "work_manager_init engine (max_in_flight_messages (pl_execution (ks_parallel_consumer c)))
       (pl_ordering_mode (ks_parallel_consumer c)) 100 (es_max_revoke_grace_ms (pl_execution (ks_parallel_consumer c)))
       (Some poison) n = Inr wm" and
    p: "broker_poller_init (ks_parallel_consumer c) engine (Some wm) None = Inr (fc_poller f)"
    using assms by (auto simp: pyrallel_consumer_init_def Let_def split: sum.splits)
  have "bp_work_manager (fc_poller f) = wm"
    by (rule poller_keeps_manager[OF p])
  moreover have "wm_blocking_cache_ttl wm = 100" using wm by (auto simp: work_manager_init_def split: if_splits)
  ultimately show ?thesis by simp
qed

section \<open>Witnesses\<close>

definition demo_worker :: "bool \<Rightarrow> worker_fn" where
  "demo_worker coroutine =
     \<lparr>wf_is_coroutine_function = coroutine, wf_call_is_coroutine_function = False, wf_picklable = True\<rparr>"

theorem validated_settings_construct_witness:
  "kafka_settings_ok demo_kafka \<and>
   (\<exists>f :: (unit, unit, unit, unit, unit) consumer. pyrallel_consumer_init demo_kafka (demo_worker True) = Inr f \<and>
      well_wired demo_kafka f)"
proof
  have "parse_bootstrap_servers (ks_bootstrap_servers demo_kafka) \<noteq> Inl TypeError"
    using demo_kafka_csv by (auto simp: bootstrap_servers_csv_def split: sum.splits)
  then show ok: "kafka_settings_ok demo_kafka"
    by (simp add: kafka_settings_ok_def demo_kafka_def default_kafka_settings_def)
  let ?i = "pyrallel_consumer_init demo_kafka (demo_worker True) :: py_error + (unit, unit, unit, unit, unit) consumer"
  have fits: "ensure_worker_matches_mode (pl_execution (ks_parallel_consumer demo_kafka)) (demo_worker True) = Inr ()"
    and mode: "es_mode (pl_execution (ks_parallel_consumer demo_kafka)) = ASYNC"
    by (simp_all add: ensure_worker_matches_mode_def demo_kafka_def default_kafka_settings_def default_settings_defs
        is_async_worker_def demo_worker_def)
  show "\<exists>f :: (unit, unit, unit, unit, unit) consumer. pyrallel_consumer_init demo_kafka (demo_worker True) = Inr f \<and>
      well_wired demo_kafka f"
    using validated_settings_construct[OF ok, of "demo_worker True", where ?'k = unit and ?'p = unit and ?'q = unit and ?'s = unit and ?'c = unit]
      fits mode by (cases ?i) simp_all
qed

definition demo_ports :: "nat \<Rightarrow> metrics_settings" where
  "demo_ports i = \<lparr>ms_enabled = True, ms_port = 9091\<rparr>"

text \<open>Two consumers share the exporter of port 9091; the first has left, the second still holds it.\<close>

definition demo_shared :: "nat shared" where
  "demo_shared = ((\<lambda>_. None)(0 := Some 0, 1 := Some 0, 0 := None),
     \<lparr>xr_exporters = [(9091, 0)], xr_refcounts = [(9091, 1)], xr_created = 1, xr_closed = []\<rparr>)"

lemma demo_shared_reach: "exporter_reach demo_ports demo_shared"
proof -
  let ?h0 = "\<lambda>_. None :: nat option" let ?h1 = "?h0(0 := Some 0)" let ?h2 = "?h1(1 := Some 0)"
  let ?r1 = "\<lparr>xr_exporters = [(9091, 0)], xr_refcounts = [(9091, 1)], xr_created = 1, xr_closed = []\<rparr> :: exporters"
  let ?r2 = "?r1\<lparr>xr_refcounts := [(9091, 2)]\<rparr>"
  note defs = acquire_prometheus_exporter_def release_prometheus_exporter_def demo_ports_def exporters_init_def
    dict_get_default_def
  have "exporter_step demo_ports (?h0, exporters_init) (?h1, ?r1)"
    by (rule exporter_step.acquire[where creatable = True]) (simp_all add: defs)
  moreover have "exporter_step demo_ports (?h1, ?r1) (?h2, ?r2)"
    by (rule exporter_step.acquire[where creatable = True]) (simp_all add: defs)
  moreover have "exporter_step demo_ports (?h2, ?r2) demo_shared"
    using exporter_step.release[of demo_ports ?h2 ?r2 0] by (simp add: defs demo_shared_def Let_def)
  ultimately show ?thesis by (blast intro: exporter_reach.intros)
qed

theorem exporters_shared_safely_witness:
  "fst demo_shared 1 = Some 0 \<and> dict_get (xr_exporters (snd demo_shared)) 9091 = Some 0 \<and>
   dict_get_default (xr_refcounts (snd demo_shared)) 9091 0 = int (card (exporter_holders demo_ports (fst demo_shared) 9091))"
proof -
  have h: "fst demo_shared 1 = Some 0" by (simp add: demo_shared_def)
  have "ms_port (demo_ports 1) = 9091" by (simp add: demo_ports_def)
  then show ?thesis
    using exporters_shared_safely[of demo_ports "fst demo_shared" "snd demo_shared" 1 0 9091] demo_shared_reach h by simp
qed

definition demo_outcomes :: outcomes where
  "demo_outcomes = \<lparr>oc_exporter_creatable = True, oc_poller_start = Some RuntimeError, oc_poller_stop = None,
     oc_get_metrics = None, oc_engine_shutdown = None\<rparr>"

definition demo_facade :: facade where
  "demo_facade = \<lparr>fa_metrics_config = demo_ports 0, fa_metrics_exporter = None, fa_metrics_task = False, fa_calls = []\<rparr>"


end
