(* ===== verification/Spec2Isabelle.thy ===== *)
theory Spec2Isabelle
  imports Metadata_Encoder Pipeline_Diagnostics Commit_Coordinator Adaptive_Control Broker_Lifecycle
    Async_Engine Process_Codec Worker_Safety Process_Stream Failure_Routing Consumer_Facade
begin

text \<open>
  A verification development for Pyrallel-Consumer (\<open>src/pyrallel_consumer\<close>), a Kafka consumer that
  processes the messages of a partition in parallel while it keeps the order per key or per partition,
  and commits only what is safe.

  \<^bold>\<open>The program.\<close> The control plane (\<open>control_plane/\<close>) polls Kafka, turns messages into work items, queues them
  per key, hands them to an execution engine under an in-flight limit, and turns completions into commits. The
  execution plane (\<open>execution_plane/\<close>) runs the user's function, either as asyncio tasks (\<open>async_engine.py\<close>) or in
  worker processes fed through pipes (\<open>process_engine.py\<close> and its helpers). \<open>consumer.py\<close> wires both together from the
  settings of \<open>config.py\<close>. The parts share state by reference: the broker poller and the work manager share the
  offset trackers, the poller and its support classes share the raw-payload cache, the pending dead-letter
  events and the set of partitions with uncommitted completions. Everything in the control plane runs on one event
  loop; a coroutine is interrupted only where it waits, and the sections under the control lock exclude each other.

  \<^bold>\<open>How the code is modelled.\<close> A class is a record with one field per attribute, a method a function from the
  state to the state and its result; an exception is the left side of a sum (\<open>py_error\<close>), with the state at that
  point where the code leaves one. A coroutine that waits is cut at its waits, each section is a function, and
  interleavings are the sequences of sections that an inductive run relation allows. A structural loop is a
  recursive function; \<open>WorkManager.schedule\<close> and \<open>poll_completed_events\<close> take fuel, and the number of queued items
  plus one is proved to be enough (\<open>Work_Scheduling\<close>, \<open>Work_Properties\<close>), so no result depends on it.
  Python integers are \<open>int\<close>, timestamps are reals. Code outside the repository is a parameter with its documented
  behaviour as hypotheses: \<open>sortedcontainers\<close> and \<open>cachetools\<close> (\<open>Ext_Containers\<close>, with locales for their contracts
  and an interpretation on lists), \<open>msgpack\<close>, Kafka's answers to commits and lookups, the producer, the user's worker
  function, the hash that routes a key to a process, clocks, random jitter and uuids.

  \<^bold>\<open>Theories, by part of the program.\<close>

  \<^item> \<open>Py_Prelude\<close>, \<open>Dto\<close>: dictionaries as association lists with their simp set, decimal text; the data objects of
    \<open>dto.py\<close>.

  \<^item> \<open>Ext_Containers\<close>, \<open>Offset_Tracker\<close> (\<open>offset_tracker.py\<close>, every method): the tracker never commits an offset that was
    not completed, its high-water mark and its gap list are exact whether scanned or cached, and each operation
    implements an abstract ledger.

  \<^item> \<open>Metadata_Encoder\<close> (\<open>metadata_encoder.py\<close>): the run-length and bitset texts decode to what was encoded, within the
    size limit.

  \<^item> \<open>Work_Queue_Topology\<close> (\<open>work_queue_topology.py\<close>), \<open>Poison_Message\<close> (\<open>poison_message.py\<close>), \<open>Execution_Engine\<close>
    (\<open>base.py\<close>): what the work manager is built from: queues per key in FIFO order (locale \<open>keyed_queues\<close>), the
    circuit breaker described by its history, the engine contract (locale \<open>batch_engine\<close>).

  \<^item> \<open>Work_Manager\<close> (\<open>work_manager.py\<close>) with \<open>Work_Ledger\<close>, \<open>Work_Scheduling\<close>, \<open>Work_Lifecycle\<close>, \<open>Work_Properties\<close> and
    \<open>Pipeline_Diagnostics\<close>: the invariant of the accounting, kept by every method and so true in every reachable
    state (\<open>wm_run\<close>); exclusive ordering locks, the in-flight bound, FIFO scheduling that ends and leaves no runnable
    work behind, fencing of stale completions, and revocation without a trace.

  \<^item> \<open>Adaptive_Control\<close> (\<open>adaptive_concurrency.py\<close>, \<open>adaptive_backpressure.py\<close>, \<open>broker_backpressure_support.py\<close>): the
    limits stay in range and pausing and resuming alternate.

  \<^item> \<open>Dlq_Support\<close> (\<open>broker_support.py\<close>, \<open>broker_dlq_publisher.py\<close>, \<open>utils/validation.py\<close>), \<open>Broker_Completion\<close>
    (\<open>broker_completion_support.py\<close>, \<open>broker_commit_settlement_support.py\<close>): a terminal failure completes its offset
    only after it was published, and no event is lost.

  \<^item> \<open>Commit_Coordinator\<close> (\<open>commit_coordinator.py\<close>), \<open>Broker_Commit\<close> (\<open>broker_dispatch_support.py\<close>, \<open>broker_support.py\<close>,
    \<open>broker_commit_coordinator_support.py\<close>, the commit of \<open>broker_poller.py\<close>): candidates are safe and complete,
    settlements are fenced by lease and epoch and only move forward.

  \<^item> \<open>Rebalance_Handover\<close> (\<open>broker_rebalance_support.py\<close>, \<open>broker_rebalance_orchestration_support.py\<close>): what a
    revocation commits is what the next assignment restores.

  \<^item> \<open>Broker_Dispatch\<close> (\<open>broker_dispatch_support.py\<close>), \<open>Work_Custody\<close>, \<open>Consumer_Loop\<close> (the loop, drains and commits
    of \<open>broker_poller.py\<close>, \<open>broker_completion_monitor_support.py\<close>, the cadence counters), \<open>Poller_Run\<close> and
    \<open>Delivery_Guarantee\<close>: the composition. The poller and the work manager run on shared trackers (\<open>lend\<close>,
    \<open>take_back\<close>); \<open>poller_run\<close> interleaves assignments, revocations, polls, schedules, drains and commits, and in
    every state of a run each polled record is finished, retained or held, commits stay behind the unfinished ones,
    and a turn of the loop comes back. The runs have the commit coordinator and the blocking timeout off, the
    defaults; the fuel of the inner loops is any number from some point on.

  \<^item> \<open>Broker_Lifecycle\<close> (\<open>broker_lifecycle_support.py\<close>, \<open>broker_task_lifecycle_support.py\<close>,
    \<open>broker_shutdown_support.py\<close>): the graceful drain ends at its deadline and tells the truth, and a stop closes the
    clients once and reports a failure once. The drain loop takes as fuel its number of turns; any number above that
    of the turn whose clock reading passes the deadline is enough.

  \<^item> \<open>Async_Engine\<close> (\<open>async_engine.py\<close>): over every interleaving each item yields one event or was cancelled, and
    no permit is lost.

  \<^item> \<open>Process_Codec\<close> (\<open>process_codec.py\<close>), \<open>Process_Registry\<close> (\<open>process_registry_support.py\<close>,
    \<open>process_transport_worker_pipes.py\<close>, \<open>process_transport.py\<close>, \<open>process_worker_supervisor.py\<close>), \<open>Worker_Runtime\<close> and
    \<open>Worker_Safety\<close> (\<open>process_worker_runtime.py\<close>), \<open>Process_Engine\<close> and \<open>Process_Stream\<close> (\<open>process_engine.py\<close>,
    \<open>process_completion_buffer.py\<close>, \<open>process_shutdown_support.py\<close>): messages survive the pipe, a worker that dies
    after any of its puts loses no item, and polling hands out every completion once, in order, also after a
    shutdown.

  \<^item> \<open>Failure_Routing\<close>: the failures of all engines against the broker's condition for dead-letter publication.

  \<^item> \<open>Configuration\<close> (\<open>config.py\<close>, \<open>broker_poller_config.py\<close>), \<open>Consumer_Facade\<close> (\<open>consumer.py\<close>, \<open>engine_factory.py\<close>,
    the constructor of \<open>broker_poller.py\<close>): every validated configuration builds a well-wired consumer or is refused
    for a stated reason, secrets stay out of the redacted dump, metrics exporters are shared safely, and a failed
    start undoes itself.

  \<^bold>\<open>Lemmas about defects.\<close> Some lemmas show what the code does against its own description, on a concrete run:
  \<open>force_fail_queued_leaks\<close>, \<open>kafka_retry_replaces_newer\<close>, \<open>cooldown_overridden\<close>, \<open>unflushed_counts_as_published\<close>,
  \<open>trailing_newline_accepted\<close>, \<open>build_tracker_epoch\<close>, \<open>async_zero_retries_succeeds\<close>, \<open>poll_error_loses_events\<close>,
  \<open>unpackable_completion_lost\<close>, \<open>facade_ignores_blocking_cache_ttl\<close>, \<open>failed_cleanup_never_closed\<close>, \<open>adaptive_sections_not_forwarded\<close>.
  \<open>Failure_Routing\<close> says when a timeout bypasses the dead-letter topic.

  \<^bold>\<open>Not modelled.\<close> \<open>metrics_exporter.py\<close> and \<open>commit_coordinator_metrics.py\<close> forward numbers to the
  Prometheus client. \<open>logger.py\<close>, log calls and the metrics hooks inside modelled methods are left out. The Kafka
  client, threads, locks and operating-system processes themselves are outside: a lock appears as the atomicity of
  the section under it. Reading the environment for the settings is done by Pydantic. The benchmark programs,
  examples and release scripts of the repository are not part of the consumer.
\<close>

end
